(* ===== verification/Rust_Prelude.thy ===== *)
theory Rust_Prelude
  imports Main "HOL-Library.Word" "HOL-Library.Sublist" "HOL-Library.Multiset"
begin

unbundle bit_operations_syntax

text \<open>
  The shared vocabulary of the development: the Rust integer types as words,
  the saturating and checked operations of the standard library, the indexed
  and searching operations of \<^verbatim>\<open>Vec\<close> and \<^verbatim>\<open>VecDeque\<close> the kernel uses, the errno
  constants of \<^verbatim>\<open>syscall_chirho.rs\<close>, and the fact collections the component
  theories add to.

  Conventions.  The kernel is built with the release profile, where \<^verbatim>\<open>+\<close>, \<^verbatim>\<open>-\<close>
  and \<^verbatim>\<open>*\<close> wrap silently; they are the operations of \<^typ>\<open>'a word\<close>.  A
  \<^verbatim>\<open>Result<T, E>\<close> is \<^typ>\<open>'e + 'a\<close> with \<^term>\<open>Inl\<close> the error.  System-call
  results (\<^verbatim>\<open>i64\<close>, zero or positive on success, minus errno on failure) are
  \<^typ>\<open>int\<close>.
\<close>

type_synonym u8 = "8 word"
type_synonym u16 = "16 word"
type_synonym u32 = "32 word"
type_synonym u64 = "64 word"
type_synonym usize = "64 word"
type_synonym i64 = int
type_synonym pid = u32
type_synonym bytes = "u8 list"

named_theorems defs_chirho \<open>definitions unfolded by the component proofs\<close>
named_theorems inv_chirho \<open>invariant preservation facts\<close>

section \<open>Errno constants\<close>

definition EPERM_CHIRHO :: i64 where "EPERM_CHIRHO = 1"
definition ENOENT_CHIRHO :: i64 where "ENOENT_CHIRHO = 2"
definition ESRCH_CHIRHO :: i64 where "ESRCH_CHIRHO = 3"
definition EINTR_CHIRHO :: i64 where "EINTR_CHIRHO = 4"
definition EIO_CHIRHO :: i64 where "EIO_CHIRHO = 5"
definition EBADF_CHIRHO :: i64 where "EBADF_CHIRHO = 9"
definition EAGAIN_CHIRHO :: i64 where "EAGAIN_CHIRHO = 11"
definition ENOMEM_CHIRHO :: i64 where "ENOMEM_CHIRHO = 12"
definition EACCES_CHIRHO :: i64 where "EACCES_CHIRHO = 13"
definition EFAULT_CHIRHO :: i64 where "EFAULT_CHIRHO = 14"
definition EBUSY_CHIRHO :: i64 where "EBUSY_CHIRHO = 16"
definition EEXIST_CHIRHO :: i64 where "EEXIST_CHIRHO = 17"
definition ENOTDIR_CHIRHO :: i64 where "ENOTDIR_CHIRHO = 20"
definition EISDIR_CHIRHO :: i64 where "EISDIR_CHIRHO = 21"
definition EINVAL_CHIRHO :: i64 where "EINVAL_CHIRHO = 22"
definition EMFILE_CHIRHO :: i64 where "EMFILE_CHIRHO = 24"
definition ENOSPC_CHIRHO :: i64 where "ENOSPC_CHIRHO = 28"
definition ESPIPE_CHIRHO :: i64 where "ESPIPE_CHIRHO = 29"
definition EPIPE_CHIRHO :: i64 where "EPIPE_CHIRHO = 32"
definition ENOSYS_CHIRHO :: i64 where "ENOSYS_CHIRHO = 38"
definition ENOTEMPTY_CHIRHO :: i64 where "ENOTEMPTY_CHIRHO = 39"

lemmas errno_defs_chirho =
  EPERM_CHIRHO_def ENOENT_CHIRHO_def ESRCH_CHIRHO_def EINTR_CHIRHO_def EIO_CHIRHO_def
  EBADF_CHIRHO_def EAGAIN_CHIRHO_def ENOMEM_CHIRHO_def EACCES_CHIRHO_def EFAULT_CHIRHO_def
  EBUSY_CHIRHO_def EEXIST_CHIRHO_def ENOTDIR_CHIRHO_def EISDIR_CHIRHO_def EINVAL_CHIRHO_def
  EMFILE_CHIRHO_def ENOSPC_CHIRHO_def ESPIPE_CHIRHO_def EPIPE_CHIRHO_def ENOSYS_CHIRHO_def
  ENOTEMPTY_CHIRHO_def

section \<open>Integer operations of the standard library\<close>

text \<open>\<^verbatim>\<open>saturating_add\<close>, \<^verbatim>\<open>saturating_sub\<close>, \<^verbatim>\<open>checked_add\<close>, and \<^verbatim>\<open><<\<close> as the release
  profile compiles it on \<^verbatim>\<open>u64\<close>: the shift amount is masked to six bits.\<close>

definition saturating_add :: "'a::len word \<Rightarrow> 'a word \<Rightarrow> 'a word" where
  "saturating_add a b = (if a + b < a then - 1 else a + b)"

definition saturating_sub :: "'a::len word \<Rightarrow> 'a word \<Rightarrow> 'a word" where
  "saturating_sub a b = (if a \<le> b then 0 else a - b)"

definition checked_add :: "'a::len word \<Rightarrow> 'a word \<Rightarrow> 'a word option" where
  "checked_add a b = (if a + b < a then None else Some (a + b))"

definition shl_u64 :: "u64 \<Rightarrow> nat \<Rightarrow> u64" where
  "shl_u64 a n = push_bit (n mod 64) a"

lemma unat_add_no_wrap: "\<not> a + b < a \<Longrightarrow> unat (a + b) = unat a + unat (b :: 'a::len word)"
  by (metis linorder_not_less unat_plus_simple)

lemma word_add_less_iff: "(a + b < a) = (2 ^ LENGTH('a) \<le> unat a + unat (b :: 'a::len word))"
  by (metis linorder_not_less no_olen_add_nat)

lemma unat_minus_one_word: "unat (- 1 :: 'a::len word) = 2 ^ LENGTH('a) - 1"
  by (simp add: unsigned_minus_1_eq_mask mask_eq_exp_minus_1)

lemma unat_saturating_add:
  "unat (saturating_add a b) = min (2 ^ LENGTH('a) - 1) (unat a + unat (b :: 'a::len word))"
proof (cases "a + b < a")
  case True
  then show ?thesis
    by (simp add: saturating_add_def word_add_less_iff unat_minus_one_word)
next
  case False
  then have "unat a + unat b < 2 ^ LENGTH('a)" by (simp add: word_add_less_iff)
  with False show ?thesis
    by (simp add: saturating_add_def unat_add_no_wrap)
qed

lemma unat_saturating_sub: "unat (saturating_sub a b) = unat a - unat (b :: 'a::len word)"
  by (auto simp: saturating_sub_def word_le_nat_alt unat_sub)

lemma unat_checked_add: "checked_add a b = Some c \<Longrightarrow> unat c = unat a + unat (b :: 'a::len word)"
  by (auto simp: checked_add_def unat_add_no_wrap split: if_splits)

lemma unat_less_pow: "unat (w :: 'a::len word) < 2 ^ LENGTH('a)"
  by (rule unsigned_less)

lemma take_bit_small: "unat (w :: 'a::len word) < 2 ^ n \<Longrightarrow> take_bit n w = w"
  by (simp add: word_unat_eq_iff unsigned_take_bit_eq take_bit_nat_eq_self)

lemma and_mask_small: "unat (w :: 'a::len word) < 2 ^ n \<Longrightarrow> w AND mask n = w"
  by (metis take_bit_eq_mask take_bit_small)

lemma not_bit_small: "unat (w :: 'a::len word) < 2 ^ n \<Longrightarrow> n \<le> k \<Longrightarrow> \<not> bit w k"
  by (metis bit_take_bit_iff linorder_not_less take_bit_small)

lemma unat_Suc_word: "(w :: 'a::len word) \<noteq> - 1 \<Longrightarrow> unat (w + 1) = Suc (unat w)"
  by (metis add.commute add_eq_0_iff unatSuc)

lemma unat_pred_word: "(w :: 'a::len word) \<noteq> 0 \<Longrightarrow> unat (w - 1) = unat w - 1"
  by (simp add: unat_minus_one)

lemma unat_of_nat_small: "n < 2 ^ LENGTH('a) \<Longrightarrow> unat (of_nat n :: 'a::len word) = n"
  by (simp add: unat_of_nat take_bit_nat_eq_self)

text \<open>Clearing the low bits rounds down to a multiple of a power of two.\<close>

lemma and_not_mask_word: "(a :: 'a::len word) AND NOT (mask n) = push_bit n (drop_bit n a)"
  by (rule bit_eqI) (auto simp: bit_simps)

lemma unat_and_not_mask:
  fixes a :: "'a::len word"
  shows "unat (a AND NOT (mask n)) = unat a div 2 ^ n * 2 ^ n"
proof -
  have "unat a div 2 ^ n * 2 ^ n < 2 ^ LENGTH('a)"
    using unat_less_pow [of a] by (metis div_times_less_eq_dividend order_le_less_trans)
  then show ?thesis
    by (simp add: and_not_mask_word unsigned_push_bit_eq unsigned_drop_bit_eq push_bit_nat_def
        drop_bit_nat_def take_bit_nat_eq_self take_bit_nat_eq_self_iff)
qed

section \<open>Little-endian byte encodings\<close>

primrec le_nat :: "bytes \<Rightarrow> nat" where
  "le_nat [] = 0"
| "le_nat (b # bs) = unat b + 256 * le_nat bs"

primrec le_bytes :: "nat \<Rightarrow> nat \<Rightarrow> bytes" where
  "le_bytes 0 n = []"
| "le_bytes (Suc k) n = of_nat (n mod 256) # le_bytes k (n div 256)"

lemma length_le_bytes [simp]: "length (le_bytes k n) = k"
  by (induction k arbitrary: n) simp_all

lemma le_nat_bytes: "le_nat (le_bytes k n) = n mod 256 ^ k"
proof (induction k arbitrary: n)
  case 0
  then show ?case by simp
next
  case (Suc k)
  have "unat (of_nat (n mod 256) :: u8) = n mod 256"
    by (simp add: unat_of_nat)
  then show ?case
    using Suc mod_mult2_eq [of n 256 "256 ^ k"] by simp
qed

lemma le_nat_less: "le_nat bs < 256 ^ length bs"
proof (induction bs)
  case Nil
  then show ?case by simp
next
  case (Cons b bs)
  have "unat b < 256" using unat_less_pow [of b] by simp
  with Cons show ?case by simp
qed

section \<open>Sequences\<close>

text \<open>\<^verbatim>\<open>slice::get\<close>, \<^verbatim>\<open>iter().position\<close>, \<^verbatim>\<open>Vec::remove\<close> and \<^verbatim>\<open>iter().find\<close>.\<close>

definition get_opt :: "'a list \<Rightarrow> nat \<Rightarrow> 'a option" where
  "get_opt xs i = (if i < length xs then Some (xs ! i) else None)"

primrec position :: "('a \<Rightarrow> bool) \<Rightarrow> 'a list \<Rightarrow> nat option" where
  "position P [] = None"
| "position P (x # xs) = (if P x then Some 0 else map_option Suc (position P xs))"

definition remove_at :: "nat \<Rightarrow> 'a list \<Rightarrow> 'a list" where
  "remove_at i xs = take i xs @ drop (Suc i) xs"

definition insert_at :: "nat \<Rightarrow> 'a \<Rightarrow> 'a list \<Rightarrow> 'a list" where
  "insert_at i x xs = take i xs @ x # drop i xs"

lemma get_opt_update [simp]:
  "get_opt (xs[i := v]) j = (if i = j \<and> j < length xs then Some v else get_opt xs j)"
  by (simp add: get_opt_def nth_list_update)

lemma nth_update_in: "j < length xs \<Longrightarrow> xs[i := v] ! j = (if i = j then v else xs ! j)"
  by auto

lemma get_opt_Some_iff: "get_opt xs i = Some v \<longleftrightarrow> i < length xs \<and> xs ! i = v"
  by (simp add: get_opt_def)

lemma get_opt_None_iff: "get_opt xs i = None \<longleftrightarrow> length xs \<le> i"
  by (simp add: get_opt_def)

lemma position_Some_iff:
  "position P xs = Some i \<longleftrightarrow> i < length xs \<and> P (xs ! i) \<and> (\<forall>j<i. \<not> P (xs ! j))"
proof (induction xs arbitrary: i)
  case Nil
  then show ?case by simp
next
  case (Cons x xs)
  show ?case
    by (cases i) (auto simp: Cons.IH less_Suc_eq_0_disj)
qed

lemma position_None_iff: "position P xs = None \<longleftrightarrow> (\<forall>x\<in>set xs. \<not> P x)"
  by (induction xs) auto

lemma length_remove_at: "i < length xs \<Longrightarrow> length (remove_at i xs) = length xs - 1"
  by (simp add: remove_at_def)

lemma mset_remove_at: "i < length xs \<Longrightarrow> mset (remove_at i xs) = mset xs - {#xs ! i#}"
  by (metis add_mset_remove_trivial id_take_nth_drop mset.simps(2) mset_append remove_at_def
      union_mset_add_mset_right)

lemma set_remove_at_subset: "set (remove_at i xs) \<subseteq> set xs"
  by (auto simp: remove_at_def dest: in_set_takeD in_set_dropD)

lemma mset_insert_at: "mset (insert_at i x xs) = add_mset x (mset xs)"
  by (metis append_take_drop_id insert_at_def mset.simps(2) mset_append union_mset_add_mset_right)

lemma set_insert_at: "set (insert_at i x xs) = insert x (set xs)"
  by (metis mset_insert_at set_mset_add_mset_insert set_mset_mset)

lemma size_filter_pos: "x \<in># M \<Longrightarrow> P x \<Longrightarrow> 0 < size (filter_mset P M)"
  by (metis count_empty count_filter_mset not_in_iff nonempty_has_size)

lemma filter_mset_none: "(\<And>x. x \<in># M \<Longrightarrow> \<not> P x) \<Longrightarrow> filter_mset P M = {#}"
  by (induction M) auto

lemma sum_list_split_nth:
  fixes g :: "'a \<Rightarrow> 'b::comm_monoid_add"
  assumes "i < length xs"
  obtains R where "sum_list (map g xs) = g (xs ! i) + R"
    and "\<And>y. sum_list (map g (xs[i := y])) = g y + R"
proof
  let ?R = "sum_list (map g (take i xs)) + sum_list (map g (drop (Suc i) xs))"
  show "sum_list (map g xs) = g (xs ! i) + ?R"
    using arg_cong [OF id_take_nth_drop [OF assms], of "\<lambda>l. sum_list (map g l)"]
    by (simp add: ac_simps)
  show "sum_list (map g (xs[i := y])) = g y + ?R" for y
    using assms by (simp add: upd_conv_take_nth_drop ac_simps)
qed

end
