(* ===== verification/Cas_Loop.thy ===== *)
theory Cas_Loop
  imports Rust_Prelude
begin

text \<open>
  Lock-free objects built from one atomic word.  The kernel's reference
  counters share one shape: load the word, decide from the observed value
  either to return or to attempt a \<^verbatim>\<open>compare_exchange_weak\<close>, and on failure
  retry with the value the failed exchange reported.  This theory gives the
  loop body a type (\<^verbatim>\<open>cas_decision\<close>), the interleaving semantics of any number
  of threads running such loops on one cell (spurious failures of the weak
  exchange included), and the proof, done once, that every execution is
  equivalent to a sequential one in which each operation takes effect at one
  instant between its invocation and its response.
\<close>

section \<open>Loop bodies and their sequential meaning\<close>

text \<open>The decision a loop body takes on an observed word: leave the loop with a
  result, or attempt to exchange the observed word for a new one and leave
  with the given result if that succeeds.\<close>

datatype ('w, 'r) cas_decision = Cas_Return 'r | Cas_Exchange 'w 'r

text \<open>The loop run to its end without interference.\<close>

definition cas_apply :: "('w \<Rightarrow> ('w, 'r) cas_decision) \<Rightarrow> 'w \<Rightarrow> 'w \<times> 'r" where
  "cas_apply body w = (case body w of Cas_Return r \<Rightarrow> (w, r) | Cas_Exchange w' r \<Rightarrow> (w', r))"

section \<open>Interleaved executions\<close>

datatype ('w, 'o, 'r) cas_phase = Cas_Idle | Cas_Retrying 'o 'w | Cas_Responding 'o 'r

datatype ('o, 'r) cas_event = Ev_Invoke 'o | Ev_Effect 'o 'r | Ev_Respond 'o 'r

record ('w, 'o, 'r) cas_state =
  cas_cell :: 'w
  cas_threads :: "nat \<Rightarrow> ('w, 'o, 'r) cas_phase"
  cas_hist :: "(nat \<times> ('o, 'r) cas_event) list"

definition cas_init :: "'w \<Rightarrow> ('w, 'o, 'r) cas_state" where
  "cas_init w = \<lparr>cas_cell = w, cas_threads = (\<lambda>_. Cas_Idle), cas_hist = []\<rparr>"

text \<open>What a thread does with a freshly observed word (the initial load, or the
  value returned by a failed exchange): if the body returns, that observation
  is the instant at which the operation takes effect.\<close>

definition cas_observe ::
  "('o \<Rightarrow> 'w \<Rightarrow> ('w, 'r) cas_decision) \<Rightarrow> nat \<Rightarrow> 'o \<Rightarrow> ('w, 'o, 'r) cas_state \<Rightarrow>
   ('w, 'o, 'r) cas_state" where
  "cas_observe dec t op s =
     (case dec op (cas_cell s) of
        Cas_Return r \<Rightarrow>
          s\<lparr>cas_threads := (cas_threads s)(t := Cas_Responding op r),
            cas_hist := cas_hist s @ [(t, Ev_Effect op r)]\<rparr>
      | Cas_Exchange w r \<Rightarrow>
          s\<lparr>cas_threads := (cas_threads s)(t := Cas_Retrying op (cas_cell s))\<rparr>)"

definition cas_invoke :: "nat \<Rightarrow> 'o \<Rightarrow> ('w, 'o, 'r) cas_state \<Rightarrow> ('w, 'o, 'r) cas_state" where
  "cas_invoke t op s = s\<lparr>cas_hist := cas_hist s @ [(t, Ev_Invoke op)]\<rparr>"

definition cas_commit ::
  "nat \<Rightarrow> 'o \<Rightarrow> 'w \<Rightarrow> 'r \<Rightarrow> ('w, 'o, 'r) cas_state \<Rightarrow> ('w, 'o, 'r) cas_state" where
  "cas_commit t op w r s =
     s\<lparr>cas_cell := w, cas_threads := (cas_threads s)(t := Cas_Responding op r),
       cas_hist := cas_hist s @ [(t, Ev_Effect op r)]\<rparr>"

text \<open>The operations that are a single strong \<^verbatim>\<open>compare_exchange\<close> or a single load
  are those of \<^verbatim>\<open>one_shot\<close>; they act atomically.  All the others run the retry
  loop.  \<^verbatim>\<open>cas_fail\<close> has no side condition: a weak exchange may fail although
  the cell still holds the observed word.\<close>

inductive cas_step ::
  "('o \<Rightarrow> 'w \<Rightarrow> ('w, 'r) cas_decision) \<Rightarrow> ('o \<Rightarrow> bool) \<Rightarrow>
   ('w, 'o, 'r) cas_state \<Rightarrow> ('w, 'o, 'r) cas_state \<Rightarrow> bool"
  for dec one_shot where
  cas_load:
    "cas_threads s t = Cas_Idle \<Longrightarrow> \<not> one_shot op \<Longrightarrow>
     cas_step dec one_shot s (cas_observe dec t op (cas_invoke t op s))"
| cas_fail:
    "cas_threads s t = Cas_Retrying op seen \<Longrightarrow>
     cas_step dec one_shot s (cas_observe dec t op s)"
| cas_ok:
    "cas_threads s t = Cas_Retrying op (cas_cell s) \<Longrightarrow>
     dec op (cas_cell s) = Cas_Exchange w r \<Longrightarrow>
     cas_step dec one_shot s (cas_commit t op w r s)"
| cas_one_shot:
    "cas_threads s t = Cas_Idle \<Longrightarrow> one_shot op \<Longrightarrow>
     cas_apply (dec op) (cas_cell s) = (w, r) \<Longrightarrow>
     cas_step dec one_shot s (cas_commit t op w r (cas_invoke t op s))"
| cas_respond:
    "cas_threads s t = Cas_Responding op r \<Longrightarrow>
     cas_step dec one_shot s
       (s\<lparr>cas_threads := (cas_threads s)(t := Cas_Idle),
          cas_hist := cas_hist s @ [(t, Ev_Respond op r)]\<rparr>)"

inductive cas_reach ::
  "('o \<Rightarrow> 'w \<Rightarrow> ('w, 'r) cas_decision) \<Rightarrow> ('o \<Rightarrow> bool) \<Rightarrow> 'w \<Rightarrow> ('w, 'o, 'r) cas_state \<Rightarrow> bool"
  for dec one_shot w0 where
  cas_reach_init: "cas_reach dec one_shot w0 (cas_init w0)"
| cas_reach_step:
    "cas_reach dec one_shot w0 s \<Longrightarrow> cas_step dec one_shot s s' \<Longrightarrow> cas_reach dec one_shot w0 s'"

section \<open>What an execution means\<close>

text \<open>The effects of a history in the order they took place, and the sequential
  runs of the object.\<close>

fun effects :: "(nat \<times> ('o, 'r) cas_event) list \<Rightarrow> ('o \<times> 'r) list" where
  "effects [] = []"
| "effects ((t, Ev_Effect op r) # h) = (op, r) # effects h"
| "effects (_ # h) = effects h"

fun legal_run ::
  "('o \<Rightarrow> 'w \<Rightarrow> ('w, 'r) cas_decision) \<Rightarrow> 'w \<Rightarrow> ('o \<times> 'r) list \<Rightarrow> 'w \<Rightarrow> bool" where
  "legal_run dec w [] w' \<longleftrightarrow> w = w'"
| "legal_run dec w ((op, r) # l) w' \<longleftrightarrow>
     snd (cas_apply (dec op) w) = r \<and> legal_run dec (fst (cas_apply (dec op) w)) l w'"

text \<open>The shape of one thread's events: invocation, effect and response of each
  operation in turn, with the same result.\<close>

datatype ('o, 'r) call_phase = Call_None | Call_Pending 'o | Call_Done 'o 'r | Call_Bad

fun call_next :: "('o, 'r) call_phase \<Rightarrow> ('o, 'r) cas_event \<Rightarrow> ('o, 'r) call_phase" where
  "call_next Call_None (Ev_Invoke op) = Call_Pending op"
| "call_next (Call_Pending op) (Ev_Effect op' r) = (if op = op' then Call_Done op r else Call_Bad)"
| "call_next (Call_Done op r) (Ev_Respond op' r') =
     (if op = op' \<and> r = r' then Call_None else Call_Bad)"
| "call_next _ _ = Call_Bad"

definition thread_calls :: "(nat \<times> ('o, 'r) cas_event) list \<Rightarrow> nat \<Rightarrow> ('o, 'r) call_phase" where
  "thread_calls h t = foldl call_next Call_None (map snd (filter (\<lambda>e. fst e = t) h))"

definition linearizable ::
  "('o \<Rightarrow> 'w \<Rightarrow> ('w, 'r) cas_decision) \<Rightarrow> 'w \<Rightarrow> ('w, 'o, 'r) cas_state \<Rightarrow> bool" where
  "linearizable dec w0 s \<longleftrightarrow>
     legal_run dec w0 (effects (cas_hist s)) (cas_cell s) \<and>
     (\<forall>t. thread_calls (cas_hist s) t \<noteq> Call_Bad)"

inductive_cases cas_stepE: "cas_step dec one_shot s s'"

lemma cas_apply_simps [simp]:
  "body w = Cas_Return r \<Longrightarrow> cas_apply body w = (w, r)"
  "body w = Cas_Exchange w' r \<Longrightarrow> cas_apply body w = (w', r)"
  by (simp_all add: cas_apply_def)

lemma effects_append [simp]: "effects (h @ h') = effects h @ effects h'"
  by (induction h rule: effects.induct) simp_all

lemma legal_run_append:
  "legal_run dec w (l @ l') w' \<longleftrightarrow> (\<exists>m. legal_run dec w l m \<and> legal_run dec m l' w')"
  by (induction dec w l w' rule: legal_run.induct) auto

lemma legal_run_snoc:
  "legal_run dec w l m \<Longrightarrow> cas_apply (dec op) m = (w', r) \<Longrightarrow> legal_run dec w (l @ [(op, r)]) w'"
  by (auto simp: legal_run_append)

lemma thread_calls_snoc [simp]:
  "thread_calls (h @ [(t, e)]) u =
     (if t = u then call_next (thread_calls h u) e else thread_calls h u)"
  by (simp add: thread_calls_def)

text \<open>The abstraction of a thread's phase, and the invariant of an execution.\<close>

fun phase_calls :: "('w, 'o, 'r) cas_phase \<Rightarrow> ('o, 'r) call_phase" where
  "phase_calls Cas_Idle = Call_None"
| "phase_calls (Cas_Retrying op w) = Call_Pending op"
| "phase_calls (Cas_Responding op r) = Call_Done op r"

definition cas_good ::
  "('o \<Rightarrow> 'w \<Rightarrow> ('w, 'r) cas_decision) \<Rightarrow> 'w \<Rightarrow> ('w, 'o, 'r) cas_state \<Rightarrow> bool" where
  "cas_good dec w0 s \<longleftrightarrow>
     legal_run dec w0 (effects (cas_hist s)) (cas_cell s) \<and>
     (\<forall>t. thread_calls (cas_hist s) t = phase_calls (cas_threads s t))"

lemma cas_good_observe:
  assumes "legal_run dec w0 (effects (cas_hist s)) (cas_cell s)"
    and "\<forall>u. u \<noteq> t \<longrightarrow> thread_calls (cas_hist s) u = phase_calls (cas_threads s u)"
    and "thread_calls (cas_hist s) t = Call_Pending op"
  shows "cas_good dec w0 (cas_observe dec t op s)"
proof (cases "dec op (cas_cell s)")
  case (Cas_Return r)
  then show ?thesis
    using assms legal_run_snoc [of dec w0 "effects (cas_hist s)" "cas_cell s" op "cas_cell s" r]
    by (auto simp: cas_good_def cas_observe_def)
next
  case (Cas_Exchange w r)
  then show ?thesis
    using assms by (auto simp: cas_good_def cas_observe_def)
qed

lemma cas_good_commit:
  assumes "legal_run dec w0 (effects (cas_hist s)) (cas_cell s)"
    and "\<forall>u. u \<noteq> t \<longrightarrow> thread_calls (cas_hist s) u = phase_calls (cas_threads s u)"
    and "thread_calls (cas_hist s) t = Call_Pending op"
    and "cas_apply (dec op) (cas_cell s) = (w, r)"
  shows "cas_good dec w0 (cas_commit t op w r s)"
  using assms legal_run_snoc [OF assms(1,4)]
  by (auto simp: cas_good_def cas_commit_def)

lemma cas_good_step:
  assumes "cas_step dec one_shot s s'" and "cas_good dec w0 s"
  shows "cas_good dec w0 s'"
  using assms(1)
proof (cases rule: cas_step.cases)
  case (cas_load t op)
  show ?thesis unfolding cas_load(1)
    using cas_load assms(2)
    by (intro cas_good_observe) (auto simp: cas_good_def cas_invoke_def)
next
  case (cas_fail t op seen)
  show ?thesis unfolding cas_fail(1)
    using cas_fail assms(2)
    by (intro cas_good_observe) (auto simp: cas_good_def)
next
  case (cas_ok t op w r)
  show ?thesis unfolding cas_ok(1)
    using cas_ok assms(2)
    by (intro cas_good_commit) (auto simp: cas_good_def)
next
  case (cas_one_shot t op w r)
  show ?thesis unfolding cas_one_shot(1)
    using cas_one_shot assms(2)
    by (intro cas_good_commit) (auto simp: cas_good_def cas_invoke_def)
next
  case (cas_respond t op r)
  show ?thesis unfolding cas_respond(1)
    using cas_respond assms(2)
    by (auto simp: cas_good_def)
qed

lemma cas_good_reach: "cas_reach dec one_shot w0 s \<Longrightarrow> cas_good dec w0 s"
proof (induction rule: cas_reach.induct)
  case cas_reach_init
  then show ?case by (simp add: cas_good_def cas_init_def thread_calls_def)
next
  case (cas_reach_step s s')
  from cas_good_step [OF cas_reach_step(2,3)] show ?case .
qed

lemma phase_calls_good [simp]: "phase_calls p \<noteq> Call_Bad"
  by (cases p) simp_all

lemma cas_reach_linearizable: "cas_reach dec one_shot w0 s \<Longrightarrow> linearizable dec w0 s"
  using cas_good_reach [of dec one_shot w0 s] by (simp add: cas_good_def linearizable_def)

lemma cas_reach_legal:
  "cas_reach dec one_shot w0 s \<Longrightarrow> legal_run dec w0 (effects (cas_hist s)) (cas_cell s)"
  using cas_reach_linearizable [of dec one_shot w0 s] by (simp add: linearizable_def)

text \<open>Without interference a loop ends in its first iteration.\<close>

lemma cas_reach_solo:
  assumes "cas_reach dec one_shot w0 s" and "cas_threads s t = Cas_Idle" and "\<not> one_shot op"
    and "dec op (cas_cell s) = Cas_Exchange w r"
  shows "cas_reach dec one_shot w0 (cas_commit t op w r (cas_observe dec t op (cas_invoke t op s)))"
proof (rule cas_reach_step [OF cas_reach_step])
  show "cas_reach dec one_shot w0 s" by fact
  show "cas_step dec one_shot s (cas_observe dec t op (cas_invoke t op s))"
    by (rule cas_load) fact+
  show "cas_step dec one_shot (cas_observe dec t op (cas_invoke t op s))
     (cas_commit t op w r (cas_observe dec t op (cas_invoke t op s)))"
    using assms(4) by (intro cas_ok) (simp_all add: cas_observe_def cas_invoke_def)
qed

lemma cas_reach_one_shot:
  assumes "cas_reach dec one_shot w0 s" and "cas_threads s t = Cas_Idle" and "one_shot op"
    and "cas_apply (dec op) (cas_cell s) = (w, r)"
  shows "cas_reach dec one_shot w0 (cas_commit t op w r (cas_invoke t op s))"
  using assms by (blast intro: cas_reach_step cas_one_shot)

section \<open>Contracts of lock-free objects\<close>

text \<open>An object whose operations keep an invariant of the word, and one whose
  operations moreover change a measure of the word by an amount their result
  tells.  The second gives exact accounting in every interleaving: the
  measure is the initial one plus what the results add up to.\<close>

locale cas_object =
  fixes dec :: "'o \<Rightarrow> 'w \<Rightarrow> ('w, 'r) cas_decision"
    and inv :: "'w \<Rightarrow> bool"
  assumes inv_apply: "inv w \<Longrightarrow> inv (fst (cas_apply (dec op) w))"
begin

lemma inv_run: "inv w \<Longrightarrow> legal_run dec w l w' \<Longrightarrow> inv w'"
proof (induction l arbitrary: w)
  case Nil
  then show ?case by simp
next
  case (Cons e l)
  then show ?case using inv_apply by (cases e) auto
qed

lemma inv_reach: "inv w0 \<Longrightarrow> cas_reach dec one_shot w0 s \<Longrightarrow> inv (cas_cell s)"
  by (rule inv_run [OF _ cas_reach_legal])

end

locale cas_measured = cas_object +
  fixes phi :: "'b \<Rightarrow> int"
    and delta :: "'a \<Rightarrow> 'c \<Rightarrow> int"
  assumes phi_apply:
    "inv w \<Longrightarrow> phi (fst (cas_apply (dec op) w)) = phi w + delta op (snd (cas_apply (dec op) w))"
begin

lemma phi_run:
  "inv w \<Longrightarrow> legal_run dec w l w' \<Longrightarrow> phi w' = phi w + (\<Sum>(op, r)\<leftarrow>l. delta op r)"
proof (induction l arbitrary: w)
  case Nil
  then show ?case by simp
next
  case (Cons e l)
  obtain op r where e: "e = (op, r)" by (cases e)
  let ?w = "fst (cas_apply (dec op) w)"
  have "phi w' = phi ?w + (\<Sum>(op, r)\<leftarrow>l. delta op r)"
    using Cons.IH [of ?w] Cons.prems e inv_apply by simp
  then show ?case
    using phi_apply [OF Cons.prems(1), of op] Cons.prems e by simp
qed

lemma phi_reach:
  "inv w0 \<Longrightarrow> cas_reach dec one_shot w0 s \<Longrightarrow>
   phi (cas_cell s) = phi w0 + (\<Sum>(op, r)\<leftarrow>effects (cas_hist s). delta op r)"
  by (rule phi_run [OF _ cas_reach_legal])

end

end
