(* ===== verification/Frame_Ownership.thy ===== *)
theory Frame_Ownership
  imports Cas_Loop
begin

text \<open>
  Physical-frame and address-space ownership
  (\<^verbatim>\<open>kernel-core-chirho/src/frame_ownership_chirho.rs\<close>).  The leaf-frame table
  counts the user page-table entries that map each managed frame; the
  address-space owner word counts the handles to an address space and holds
  its retirement gate.  Both are compare-exchange loops on one atomic word, so
  each operation is given twice: as its loop body (\<^verbatim>\<open>*_body\<close>), from which the
  concurrent object of \<^verbatim>\<open>Cas_Loop\<close> is built, and as the method the kernel
  calls.
\<close>

section \<open>The leaf-frame table\<close>

definition UNMANAGED_FRAME_COUNT_CHIRHO :: u32 where
  "UNMANAGED_FRAME_COUNT_CHIRHO = 4294967295"

definition MAX_MANAGED_FRAME_COUNT_CHIRHO :: u32 where
  "MAX_MANAGED_FRAME_COUNT_CHIRHO = 4294967295 - 1"

record FrameRangeChirho =
  start_frame_chirho :: usize
  end_frame_exclusive_chirho :: usize

datatype FrameOwnershipInitErrorChirho =
  NoManagedFramesChirho | InvalidRangeChirho FrameRangeChirho | AllocationFailedChirho

datatype FrameRetainErrorChirho = RetainOverflowChirho usize

datatype FrameRetainOutcomeChirho = RetainUnmanagedChirho | ManagedChirho u32

datatype FrameReleaseErrorChirho = ReleaseUnderflowChirho usize

datatype FrameReleaseOutcomeChirho =
  ReleaseUnmanagedChirho | StillReferencedChirho u32 | LastReferenceChirho

record LeafFrameOwnershipChirho =
  reference_counts_chirho :: "u32 list"
  managed_frame_total_chirho :: usize

text \<open>\<^verbatim>\<open>try_new_chirho\<close>: the scan over the ranges, the fallible reservation (whether
  it succeeds is the allocator's choice, a parameter), the sentinel fill, and
  the stores that mark the managed frames.\<close>

fun scan_ranges_chirho ::
  "FrameRangeChirho list \<Rightarrow> usize \<Rightarrow> usize \<Rightarrow> FrameOwnershipInitErrorChirho + usize \<times> usize" where
  "scan_ranges_chirho [] slots managed = Inr (slots, managed)"
| "scan_ranges_chirho (r # rs) slots managed =
     (if start_frame_chirho r \<ge> end_frame_exclusive_chirho r then Inl (InvalidRangeChirho r)
      else scan_ranges_chirho rs
        (max slots (end_frame_exclusive_chirho r))
        (saturating_add managed
           (saturating_sub (end_frame_exclusive_chirho r) (start_frame_chirho r))))"

definition store_range_chirho :: "u32 list \<Rightarrow> FrameRangeChirho \<Rightarrow> u32 list" where
  "store_range_chirho counts r =
     foldl (\<lambda>cs f. cs[f := 0]) counts
       [unat (start_frame_chirho r) ..< unat (end_frame_exclusive_chirho r)]"

definition try_new_chirho ::
  "(usize \<Rightarrow> bool) \<Rightarrow> FrameRangeChirho list \<Rightarrow>
   FrameOwnershipInitErrorChirho + LeafFrameOwnershipChirho" where
  "try_new_chirho try_reserve_exact managed_ranges =
     (case scan_ranges_chirho managed_ranges 0 0 of
        Inl e \<Rightarrow> Inl e
      | Inr (slots, managed) \<Rightarrow>
          if slots = 0 \<or> managed = 0 then Inl NoManagedFramesChirho
          else if \<not> try_reserve_exact slots then Inl AllocationFailedChirho
          else Inr \<lparr>reference_counts_chirho =
                      foldl store_range_chirho
                        (replicate (unat slots) UNMANAGED_FRAME_COUNT_CHIRHO) managed_ranges,
                    managed_frame_total_chirho = managed\<rparr>)"

type_synonym retain_result = "FrameRetainErrorChirho + FrameRetainOutcomeChirho"
type_synonym release_result = "FrameReleaseErrorChirho + FrameReleaseOutcomeChirho"

definition retain_body_chirho :: "usize \<Rightarrow> u32 \<Rightarrow> (u32, retain_result) cas_decision" where
  "retain_body_chirho frame observed =
     (if observed = UNMANAGED_FRAME_COUNT_CHIRHO then Cas_Return (Inr RetainUnmanagedChirho)
      else if observed = MAX_MANAGED_FRAME_COUNT_CHIRHO
        then Cas_Return (Inl (RetainOverflowChirho frame))
      else Cas_Exchange (observed + 1) (Inr (ManagedChirho (observed + 1))))"

definition release_body_chirho :: "usize \<Rightarrow> u32 \<Rightarrow> (u32, release_result) cas_decision" where
  "release_body_chirho frame observed =
     (if observed = UNMANAGED_FRAME_COUNT_CHIRHO then Cas_Return (Inr ReleaseUnmanagedChirho)
      else if observed = 0 then Cas_Return (Inl (ReleaseUnderflowChirho frame))
      else let remaining = observed - 1 in
        Cas_Exchange remaining
          (if remaining = 0 then Inr LastReferenceChirho
           else Inr (StillReferencedChirho remaining)))"

definition retain_mapping_chirho ::
  "LeafFrameOwnershipChirho \<Rightarrow> usize \<Rightarrow> LeafFrameOwnershipChirho \<times> retain_result" where
  "retain_mapping_chirho self frame =
     (case get_opt (reference_counts_chirho self) (unat frame) of
        None \<Rightarrow> (self, Inr RetainUnmanagedChirho)
      | Some cnt \<Rightarrow>
          (case cas_apply (retain_body_chirho frame) cnt of (cnt', result) \<Rightarrow>
             (self\<lparr>reference_counts_chirho := (reference_counts_chirho self)[unat frame := cnt']\<rparr>,
              result)))"

definition release_mapping_chirho ::
  "LeafFrameOwnershipChirho \<Rightarrow> usize \<Rightarrow> LeafFrameOwnershipChirho \<times> release_result" where
  "release_mapping_chirho self frame =
     (case get_opt (reference_counts_chirho self) (unat frame) of
        None \<Rightarrow> (self, Inr ReleaseUnmanagedChirho)
      | Some cnt \<Rightarrow>
          (case cas_apply (release_body_chirho frame) cnt of (cnt', result) \<Rightarrow>
             (self\<lparr>reference_counts_chirho := (reference_counts_chirho self)[unat frame := cnt']\<rparr>,
              result)))"

definition mapping_count_chirho :: "LeafFrameOwnershipChirho \<Rightarrow> usize \<Rightarrow> u32 option" where
  "mapping_count_chirho self frame =
     (case get_opt (reference_counts_chirho self) (unat frame) of
        None \<Rightarrow> None
      | Some cnt \<Rightarrow> if cnt \<noteq> UNMANAGED_FRAME_COUNT_CHIRHO then Some cnt else None)"

definition slot_count_chirho :: "LeafFrameOwnershipChirho \<Rightarrow> nat" where
  "slot_count_chirho self = length (reference_counts_chirho self)"

definition managed_frame_count_chirho :: "LeafFrameOwnershipChirho \<Rightarrow> usize" where
  "managed_frame_count_chirho self = managed_frame_total_chirho self"

section \<open>The address-space owner word\<close>

datatype AddressSpaceOwnerErrorChirho =
  OwnerReleasedChirho | OwnerOverflowChirho | OwnerUnderflowChirho

datatype AddressSpaceRetireGateErrorChirho = NotLiveChirho | SharedOwnersChirho u32

datatype AddressSpaceOwnerReleaseChirho = OwnersRemainChirho u32 | LastOwnerChirho

definition ADDRESS_SPACE_RETIRING_BIT_CHIRHO :: u64 where
  "ADDRESS_SPACE_RETIRING_BIT_CHIRHO = push_bit 63 1"

definition ADDRESS_SPACE_OWNER_MASK_CHIRHO :: u64 where
  "ADDRESS_SPACE_OWNER_MASK_CHIRHO = 0xFFFFFFFF"

definition owner_new_chirho :: u64 where
  "owner_new_chirho = 1"

definition owner_retain_body_chirho ::
  "u64 \<Rightarrow> (u64, AddressSpaceOwnerErrorChirho + u32) cas_decision" where
  "owner_retain_body_chirho observed =
     (if observed = 0 \<or> observed AND ADDRESS_SPACE_RETIRING_BIT_CHIRHO \<noteq> 0
        then Cas_Return (Inl OwnerReleasedChirho)
      else let owner_count = observed AND ADDRESS_SPACE_OWNER_MASK_CHIRHO in
        if owner_count = 0xFFFFFFFF then Cas_Return (Inl OwnerOverflowChirho)
        else Cas_Exchange (observed + 1) (Inr (ucast (owner_count + 1))))"

definition owner_release_body_chirho ::
  "u64 \<Rightarrow> (u64, AddressSpaceOwnerErrorChirho + AddressSpaceOwnerReleaseChirho) cas_decision" where
  "owner_release_body_chirho observed =
     (if observed = 0 then Cas_Return (Inl OwnerUnderflowChirho)
      else if observed AND ADDRESS_SPACE_RETIRING_BIT_CHIRHO \<noteq> 0
        then Cas_Return (Inl OwnerReleasedChirho)
      else let owner_count = observed AND ADDRESS_SPACE_OWNER_MASK_CHIRHO in
        if owner_count = 0 then Cas_Return (Inl OwnerUnderflowChirho)
        else let remaining = owner_count - 1 in
          Cas_Exchange remaining
            (if remaining = 0 then Inr LastOwnerChirho
             else Inr (OwnersRemainChirho (ucast remaining))))"

text \<open>The three single strong exchanges: on failure they decide from the word the
  exchange reported.\<close>

definition try_begin_retirement_body_chirho ::
  "u64 \<Rightarrow> (u64, AddressSpaceRetireGateErrorChirho + unit) cas_decision" where
  "try_begin_retirement_body_chirho observed =
     (if observed = 1 then Cas_Exchange (ADDRESS_SPACE_RETIRING_BIT_CHIRHO OR 1) (Inr ())
      else if observed = 0 \<or> observed AND ADDRESS_SPACE_RETIRING_BIT_CHIRHO \<noteq> 0
        then Cas_Return (Inl NotLiveChirho)
      else Cas_Return
        (Inl (SharedOwnersChirho (ucast (observed AND ADDRESS_SPACE_OWNER_MASK_CHIRHO)))))"

definition cancel_retirement_body_chirho ::
  "u64 \<Rightarrow> (u64, AddressSpaceOwnerErrorChirho + unit) cas_decision" where
  "cancel_retirement_body_chirho observed =
     (if observed = ADDRESS_SPACE_RETIRING_BIT_CHIRHO OR 1 then Cas_Exchange 1 (Inr ())
      else Cas_Return (Inl OwnerReleasedChirho))"

definition finish_retirement_body_chirho ::
  "u64 \<Rightarrow> (u64, AddressSpaceOwnerErrorChirho + unit) cas_decision" where
  "finish_retirement_body_chirho observed =
     (if observed = ADDRESS_SPACE_RETIRING_BIT_CHIRHO OR 1 then Cas_Exchange 0 (Inr ())
      else Cas_Return (Inl OwnerReleasedChirho))"

definition owner_count_chirho :: "u64 \<Rightarrow> u32" where
  "owner_count_chirho observed = ucast (observed AND ADDRESS_SPACE_OWNER_MASK_CHIRHO)"

section \<open>The two concurrent objects\<close>

text \<open>One slot of the frame table, shared by every CPU, and the owner word of one
  address space.\<close>

datatype frame_op = Op_Retain | Op_Release | Op_Count

datatype frame_res = Res_Retain retain_result | Res_Release release_result | Res_Count "u32 option"

fun map_decision :: "('a \<Rightarrow> 'b) \<Rightarrow> ('w, 'a) cas_decision \<Rightarrow> ('w, 'b) cas_decision" where
  "map_decision f (Cas_Return r) = Cas_Return (f r)"
| "map_decision f (Cas_Exchange w r) = Cas_Exchange w (f r)"

fun frame_slot :: "usize \<Rightarrow> frame_op \<Rightarrow> u32 \<Rightarrow> (u32, frame_res) cas_decision" where
  "frame_slot frame Op_Retain w = map_decision Res_Retain (retain_body_chirho frame w)"
| "frame_slot frame Op_Release w = map_decision Res_Release (release_body_chirho frame w)"
| "frame_slot frame Op_Count w =
     Cas_Return (Res_Count (if w \<noteq> UNMANAGED_FRAME_COUNT_CHIRHO then Some w else None))"

fun frame_one_shot :: "frame_op \<Rightarrow> bool" where
  "frame_one_shot Op_Count = True"
| "frame_one_shot _ = False"

datatype owner_op = Op_TryRetain | Op_OwnerRelease | Op_Begin | Op_Cancel | Op_Finish | Op_Owners

datatype owner_res =
    Res_TryRetain "AddressSpaceOwnerErrorChirho + u32"
  | Res_OwnerRelease "AddressSpaceOwnerErrorChirho + AddressSpaceOwnerReleaseChirho"
  | Res_Begin "AddressSpaceRetireGateErrorChirho + unit"
  | Res_Cancel "AddressSpaceOwnerErrorChirho + unit"
  | Res_Finish "AddressSpaceOwnerErrorChirho + unit"
  | Res_Owners u32

fun owner_word :: "owner_op \<Rightarrow> u64 \<Rightarrow> (u64, owner_res) cas_decision" where
  "owner_word Op_TryRetain w = map_decision Res_TryRetain (owner_retain_body_chirho w)"
| "owner_word Op_OwnerRelease w = map_decision Res_OwnerRelease (owner_release_body_chirho w)"
| "owner_word Op_Begin w = map_decision Res_Begin (try_begin_retirement_body_chirho w)"
| "owner_word Op_Cancel w = map_decision Res_Cancel (cancel_retirement_body_chirho w)"
| "owner_word Op_Finish w = map_decision Res_Finish (finish_retirement_body_chirho w)"
| "owner_word Op_Owners w = Cas_Return (Res_Owners (owner_count_chirho w))"

fun owner_one_shot :: "owner_op \<Rightarrow> bool" where
  "owner_one_shot Op_TryRetain = False"
| "owner_one_shot Op_OwnerRelease = False"
| "owner_one_shot _ = True"

lemmas frame_const_defs [defs_chirho] =
  UNMANAGED_FRAME_COUNT_CHIRHO_def MAX_MANAGED_FRAME_COUNT_CHIRHO_def
  ADDRESS_SPACE_RETIRING_BIT_CHIRHO_def ADDRESS_SPACE_OWNER_MASK_CHIRHO_def

section \<open>Construction of the table\<close>

definition range_frames :: "FrameRangeChirho \<Rightarrow> nat set" where
  "range_frames r = {unat (start_frame_chirho r) ..< unat (end_frame_exclusive_chirho r)}"

definition range_ok :: "FrameRangeChirho \<Rightarrow> bool" where
  "range_ok r \<longleftrightarrow> start_frame_chirho r < end_frame_exclusive_chirho r"

lemma scan_ranges_Inr:
  assumes "scan_ranges_chirho rs slots managed = Inr (slots', managed')"
  shows "(\<forall>r\<in>set rs. range_ok r) \<and>
     unat slots' = foldl (\<lambda>m r. max m (unat (end_frame_exclusive_chirho r))) (unat slots) rs \<and>
     unat managed' = min (2 ^ 64 - 1) (unat managed + (\<Sum>r\<leftarrow>rs. card (range_frames r)))"
  using assms
proof (induction rs slots managed rule: scan_ranges_chirho.induct)
  case (1 slots managed)
  then show ?case using unat_less_pow [of managed] by simp
next
  case (2 r rs slots managed)
  have max_unat: "unat (max a b) = max (unat a) (unat b)" for a b :: usize
    by (simp add: max_def word_le_nat_alt)
  from 2 show ?case
    by (auto simp: unat_saturating_add unat_saturating_sub max_unat range_frames_def range_ok_def
        split: if_splits)
qed

lemma store_range_length [simp]: "length (store_range_chirho cs r) = length cs"
proof -
  have "length (foldl (\<lambda>cs f. cs[f := 0]) cs fs) = length cs" for fs and cs :: "u32 list"
    by (induction fs arbitrary: cs) simp_all
  then show ?thesis by (simp add: store_range_chirho_def)
qed

lemma store_range_nth:
  "f < length cs \<Longrightarrow> store_range_chirho cs r ! f = (if f \<in> range_frames r then 0 else cs ! f)"
proof -
  have "f < length cs \<Longrightarrow>
      foldl (\<lambda>cs f. cs[f := 0]) cs fs ! f = (if f \<in> set fs then 0 else cs ! f)" for fs and cs :: "u32 list"
    by (induction fs arbitrary: cs) (auto simp: nth_list_update)
  then show "f < length cs \<Longrightarrow> ?thesis"
    by (simp add: store_range_chirho_def range_frames_def)
qed

lemma store_ranges_nth:
  "length (foldl store_range_chirho cs rs) = length cs \<and>
   (f < length cs \<longrightarrow>
     foldl store_range_chirho cs rs ! f = (if \<exists>r\<in>set rs. f \<in> range_frames r then 0 else cs ! f))"
  by (induction rs arbitrary: cs) (auto simp: store_range_nth)

lemma foldl_max_ge:
  fixes m :: nat
  shows "m \<le> foldl (\<lambda>m r. max m (g r)) m rs \<and> (\<forall>r\<in>set rs. g r \<le> foldl (\<lambda>m r. max m (g r)) m rs)"
proof (induction rs arbitrary: m)
  case Nil
  then show ?case by simp
next
  case (Cons r rs)
  from Cons.IH [of "max m (g r)"] show ?case by auto
qed

lemma mapping_count_new:
  assumes "try_new_chirho reserve rs = Inr t"
  shows "mapping_count_chirho t f =
     (if \<exists>r\<in>set rs. unat f \<in> range_frames r then Some 0 else None)"
proof -
  obtain slots managed where scan: "scan_ranges_chirho rs 0 0 = Inr (slots, managed)"
    and t: "reference_counts_chirho t =
      foldl store_range_chirho (replicate (unat slots) UNMANAGED_FRAME_COUNT_CHIRHO) rs"
    using assms by (auto simp: try_new_chirho_def split: sum.splits if_splits)
  have slots: "unat slots = foldl (\<lambda>m r. max m (unat (end_frame_exclusive_chirho r))) 0 rs"
    using scan_ranges_Inr [OF scan] by simp
  have "f' < unat slots" if "r \<in> set rs" "f' \<in> range_frames r" for r f'
    using foldl_max_ge [of 0 "\<lambda>r. unat (end_frame_exclusive_chirho r)" rs] that slots
    by (fastforce simp: range_frames_def)
  then show ?thesis
    using store_ranges_nth [of "replicate (unat slots) UNMANAGED_FRAME_COUNT_CHIRHO" rs "unat f"]
    by (auto simp: mapping_count_chirho_def get_opt_def t UNMANAGED_FRAME_COUNT_CHIRHO_def)
qed

lemma table_sizes_new:
  assumes "try_new_chirho reserve rs = Inr t"
  shows "slot_count_chirho t = foldl (\<lambda>m r. max m (unat (end_frame_exclusive_chirho r))) 0 rs"
    and "unat (managed_frame_count_chirho t) =
      min (2 ^ 64 - 1) (\<Sum>r\<leftarrow>rs. card (range_frames r))"
proof -
  obtain slots managed where scan: "scan_ranges_chirho rs 0 0 = Inr (slots, managed)"
    and t: "t = \<lparr>reference_counts_chirho =
      foldl store_range_chirho (replicate (unat slots) UNMANAGED_FRAME_COUNT_CHIRHO) rs,
      managed_frame_total_chirho = managed\<rparr>"
    using assms by (auto simp: try_new_chirho_def split: sum.splits if_splits)
  note scan_ranges_Inr [OF scan]
  then show "slot_count_chirho t = foldl (\<lambda>m r. max m (unat (end_frame_exclusive_chirho r))) 0 rs"
    and "unat (managed_frame_count_chirho t) =
      min (2 ^ 64 - 1) (\<Sum>r\<leftarrow>rs. card (range_frames r))"
    using store_ranges_nth [of "replicate (unat slots) UNMANAGED_FRAME_COUNT_CHIRHO" rs 0]
    by (simp_all add: t slot_count_chirho_def managed_frame_count_chirho_def)
qed

section \<open>Exact frame accounting\<close>

fun frame_delta :: "frame_op \<Rightarrow> frame_res \<Rightarrow> int" where
  "frame_delta op (Res_Retain (Inr (ManagedChirho n))) = 1"
| "frame_delta op (Res_Release (Inr (StillReferencedChirho n))) = - 1"
| "frame_delta op (Res_Release (Inr LastReferenceChirho)) = - 1"
| "frame_delta op _ = 0"

text \<open>First mappings of a frame count one, last unmappings minus one.\<close>

fun frame_epoch :: "frame_op \<Rightarrow> frame_res \<Rightarrow> int" where
  "frame_epoch op (Res_Retain (Inr (ManagedChirho n))) = (if n = 1 then 1 else 0)"
| "frame_epoch op (Res_Release (Inr LastReferenceChirho)) = - 1"
| "frame_epoch op _ = 0"

definition frame_managed :: "u32 \<Rightarrow> bool" where
  "frame_managed w \<longleftrightarrow> w \<noteq> UNMANAGED_FRAME_COUNT_CHIRHO"

lemma frame_slot_cases:
  assumes "frame_managed w"
  shows "(\<exists>r. frame_slot f op w = Cas_Return r \<and> frame_delta op r = 0 \<and> frame_epoch op r = 0) \<or>
    (w \<noteq> MAX_MANAGED_FRAME_COUNT_CHIRHO \<and>
      frame_slot f op w = Cas_Exchange (w + 1) (Res_Retain (Inr (ManagedChirho (w + 1))))) \<or>
    (w \<noteq> 0 \<and> frame_slot f op w = Cas_Exchange (w - 1)
      (Res_Release (Inr (if w - 1 = 0 then LastReferenceChirho else StillReferencedChirho (w - 1)))))"
  using assms
  by (cases op)
    (auto simp: frame_managed_def retain_body_chirho_def release_body_chirho_def Let_def)

lemma managed_succ:
  assumes "frame_managed w" "w \<noteq> MAX_MANAGED_FRAME_COUNT_CHIRHO"
  shows "frame_managed (w + 1)" "int (unat (w + 1)) = int (unat w) + 1" "w + 1 \<noteq> 0"
proof -
  have "w = - 2" if "w + 1 = - 1"
    using arg_cong [OF that, of "\<lambda>x. x - 1"] by simp
  moreover have "UNMANAGED_FRAME_COUNT_CHIRHO = - 1" "MAX_MANAGED_FRAME_COUNT_CHIRHO = - 2"
    by (simp_all add: defs_chirho)
  then have "w \<noteq> - 2" "w \<noteq> - 1"
    using assms by (simp_all add: frame_managed_def)
  ultimately have w: "w \<noteq> - 1" "w + 1 \<noteq> - 1" by blast+
  then have unat: "unat (w + 1) = Suc (unat w)" by (simp add: unat_Suc_word)
  then show "int (unat (w + 1)) = int (unat w) + 1" by (simp only: of_nat_Suc add.commute)
  from unat show "w + 1 \<noteq> 0" by auto
  show "frame_managed (w + 1)"
    using w by (simp add: frame_managed_def \<open>UNMANAGED_FRAME_COUNT_CHIRHO = - 1\<close>)
qed

lemma managed_pred:
  assumes "frame_managed w" "w \<noteq> 0"
  shows "frame_managed (w - 1)" "int (unat (w - 1)) = int (unat w) - 1"
proof -
  have "unat w \<noteq> 0" using assms(2) by (simp add: unat_eq_0)
  then show "int (unat (w - 1)) = int (unat w) - 1"
    using unat_pred_word [OF assms(2)] by simp
  show "frame_managed (w - 1)"
    using assms by (auto simp: frame_managed_def defs_chirho diff_eq_eq)
qed

interpretation frames: cas_measured "frame_slot f" frame_managed "\<lambda>w. int (unat w)" frame_delta
proof
  fix w :: u32 and op
  assume w: "frame_managed w"
  show "frame_managed (fst (cas_apply (frame_slot f op) w))"
    using frame_slot_cases [OF w, of f op] w managed_succ(1) managed_pred(1) by auto
  show "int (unat (fst (cas_apply (frame_slot f op) w))) =
      int (unat w) + frame_delta op (snd (cas_apply (frame_slot f op) w))"
    using frame_slot_cases [OF w, of f op] managed_succ(2) [OF w] managed_pred(2) [OF w] by auto
qed

interpretation frame_epochs: cas_measured "frame_slot f" frame_managed
  "\<lambda>w. if w = 0 then 0 else 1" frame_epoch
proof
  fix w :: u32 and op
  assume w: "frame_managed w"
  have "w + 1 = 1 \<longleftrightarrow> w = 0" by simp
  then show "(if fst (cas_apply (frame_slot f op) w) = 0 then 0 else 1) =
      (if w = 0 then 0 else 1) + frame_epoch op (snd (cas_apply (frame_slot f op) w))"
    using frame_slot_cases [OF w, of f op] managed_succ(3) [OF w] by (auto simp del: add_cancel_left_right)
qed

section \<open>The owner word refines a three-state machine\<close>

text \<open>The abstract states of an address-space handle and the abstract operations;
  results carry the mathematical owner count.\<close>

datatype owner_abs = Owner_Dead | Owner_Live nat | Owner_Retiring

definition OWNER_RETIRING :: u64 where
  "OWNER_RETIRING = ADDRESS_SPACE_RETIRING_BIT_CHIRHO OR 1"

definition owner_inv :: "u64 \<Rightarrow> bool" where
  "owner_inv w \<longleftrightarrow> w = OWNER_RETIRING \<or> unat w < 2 ^ 32"

definition owner_alpha :: "u64 \<Rightarrow> owner_abs" where
  "owner_alpha w =
     (if w = 0 then Owner_Dead else if w = OWNER_RETIRING then Owner_Retiring
      else Owner_Live (unat w))"

fun owner_spec :: "owner_op \<Rightarrow> owner_abs \<Rightarrow> owner_abs \<times> owner_res" where
  "owner_spec Op_TryRetain (Owner_Live n) =
     (if n = 2 ^ 32 - 1 then (Owner_Live n, Res_TryRetain (Inl OwnerOverflowChirho))
      else (Owner_Live (Suc n), Res_TryRetain (Inr (of_nat (Suc n)))))"
| "owner_spec Op_TryRetain s = (s, Res_TryRetain (Inl OwnerReleasedChirho))"
| "owner_spec Op_OwnerRelease (Owner_Live n) =
     (if n = 1 then (Owner_Dead, Res_OwnerRelease (Inr LastOwnerChirho))
      else (Owner_Live (n - 1), Res_OwnerRelease (Inr (OwnersRemainChirho (of_nat (n - 1))))))"
| "owner_spec Op_OwnerRelease Owner_Dead = (Owner_Dead, Res_OwnerRelease (Inl OwnerUnderflowChirho))"
| "owner_spec Op_OwnerRelease Owner_Retiring =
     (Owner_Retiring, Res_OwnerRelease (Inl OwnerReleasedChirho))"
| "owner_spec Op_Begin (Owner_Live n) =
     (if n = 1 then (Owner_Retiring, Res_Begin (Inr ()))
      else (Owner_Live n, Res_Begin (Inl (SharedOwnersChirho (of_nat n)))))"
| "owner_spec Op_Begin s = (s, Res_Begin (Inl NotLiveChirho))"
| "owner_spec Op_Cancel Owner_Retiring = (Owner_Live 1, Res_Cancel (Inr ()))"
| "owner_spec Op_Cancel s = (s, Res_Cancel (Inl OwnerReleasedChirho))"
| "owner_spec Op_Finish Owner_Retiring = (Owner_Dead, Res_Finish (Inr ()))"
| "owner_spec Op_Finish s = (s, Res_Finish (Inl OwnerReleasedChirho))"
| "owner_spec Op_Owners Owner_Dead = (Owner_Dead, Res_Owners 0)"
| "owner_spec Op_Owners (Owner_Live n) = (Owner_Live n, Res_Owners (of_nat n))"
| "owner_spec Op_Owners Owner_Retiring = (Owner_Retiring, Res_Owners 1)"

lemma owner_retiring_val: "OWNER_RETIRING = 0x8000000000000001"
  by (simp add: OWNER_RETIRING_def defs_chirho)

lemma owner_retiring_distinct [simp]:
  "OWNER_RETIRING \<noteq> 0" "OWNER_RETIRING \<noteq> 1" "0 \<noteq> OWNER_RETIRING" "1 \<noteq> OWNER_RETIRING"
  by (simp_all add: owner_retiring_val)

lemma owner_small:
  assumes "unat (w :: u64) < 2 ^ 32"
  shows "w AND ADDRESS_SPACE_OWNER_MASK_CHIRHO = w"
    and "w AND ADDRESS_SPACE_RETIRING_BIT_CHIRHO = 0"
proof -
  have "ADDRESS_SPACE_OWNER_MASK_CHIRHO = mask 32"
    by (simp add: defs_chirho mask_eq_exp_minus_1)
  then show "w AND ADDRESS_SPACE_OWNER_MASK_CHIRHO = w"
    by (metis and_mask_small assms)
  have "\<not> bit w 63" using not_bit_small [OF assms] by simp
  then show "w AND ADDRESS_SPACE_RETIRING_BIT_CHIRHO = 0"
    by (metis ADDRESS_SPACE_RETIRING_BIT_CHIRHO_def and_exp_eq_0_iff_not_bit push_bit_of_1)
qed

lemma owner_retiring_bits:
  "OWNER_RETIRING AND ADDRESS_SPACE_OWNER_MASK_CHIRHO = 1"
  "OWNER_RETIRING AND ADDRESS_SPACE_RETIRING_BIT_CHIRHO \<noteq> 0"
  by (simp_all add: defs_chirho owner_retiring_val)

lemma owner_inv_cases:
  assumes "owner_inv w"
  obtains (retiring) "w = OWNER_RETIRING"
    | (dead) "w = 0"
    | (live) "w \<noteq> 0" "w \<noteq> OWNER_RETIRING" "unat w < 2 ^ 32"
  using assms by (auto simp: owner_inv_def)

lemma ucast_of_nat_unat: "(ucast (w :: u64) :: u32) = of_nat (unat w)"
  by simp

text \<open>Each loop body is the abstract operation, and keeps the invariant.\<close>

lemma owner_word_refines:
  assumes "owner_inv w"
  shows "owner_inv (fst (cas_apply (owner_word op) w)) \<and>
    (owner_alpha (fst (cas_apply (owner_word op) w)), snd (cas_apply (owner_word op) w)) =
      owner_spec op (owner_alpha w)"
  using assms
proof (cases rule: owner_inv_cases)
  case retiring
  then show ?thesis
    using owner_retiring_bits
    by (cases op) (simp_all add: owner_inv_def owner_alpha_def owner_retain_body_chirho_def
        owner_release_body_chirho_def try_begin_retirement_body_chirho_def cas_apply_def
        cancel_retirement_body_chirho_def finish_retirement_body_chirho_def
        owner_count_chirho_def flip: OWNER_RETIRING_def)
next
  case dead
  then show ?thesis
    by (cases op) (simp_all add: owner_inv_def owner_alpha_def owner_retain_body_chirho_def
        owner_release_body_chirho_def try_begin_retirement_body_chirho_def cas_apply_def
        cancel_retirement_body_chirho_def finish_retirement_body_chirho_def
        owner_count_chirho_def flip: OWNER_RETIRING_def)
next
  case live
  note small = owner_small [OF live(3)]
  have eqs: "w = 0xFFFFFFFF \<longleftrightarrow> unat w = 2 ^ 32 - 1" "w = 1 \<longleftrightarrow> unat w = 1"
    by (simp_all add: word_unat_eq_iff)
  have succ: "unat (w + 1) = Suc (unat w)"
    using live(3) by (intro unat_Suc_word) (auto simp: unat_minus_one_word)
  have pred: "unat (w - 1) = unat w - 1" "w - 1 = 0 \<longleftrightarrow> unat w = 1"
    using live(1) eqs(2) by (simp_all add: unat_pred_word)
  have uc: "(ucast (w + 1) :: u32) = of_nat (Suc (unat w))"
    "(ucast (w - 1) :: u32) = of_nat (unat w - 1)" "(ucast w :: u32) = of_nat (unat w)"
    using succ pred(1) by (metis ucast_of_nat_unat)+
  show ?thesis
  proof (cases op)
    case Op_TryRetain
    have "w + 1 \<noteq> 0" "unat w \<noteq> 2 ^ 32 - 1 \<Longrightarrow> w + 1 \<noteq> OWNER_RETIRING"
      using succ live(3) by (auto simp: word_unat_eq_iff owner_retiring_val)
    then show ?thesis
      using live small succ eqs(1) uc(1)
      by (simp add: Op_TryRetain owner_inv_def owner_alpha_def owner_retain_body_chirho_def
          cas_apply_def Let_def)
  next
    case Op_OwnerRelease
    have "w - 1 \<noteq> OWNER_RETIRING"
      using pred live(3) by (auto simp: word_unat_eq_iff owner_retiring_val)
    then show ?thesis
      using live small pred uc(2)
      by (auto simp: Op_OwnerRelease owner_inv_def owner_alpha_def owner_release_body_chirho_def
          cas_apply_def Let_def)
  next
    case Op_Begin
    then show ?thesis
      using live small eqs(2)
      by (simp add: owner_inv_def owner_alpha_def try_begin_retirement_body_chirho_def
          cas_apply_def Let_def flip: OWNER_RETIRING_def)
  qed (use live small in \<open>simp_all add: owner_inv_def owner_alpha_def cas_apply_def
        cancel_retirement_body_chirho_def finish_retirement_body_chirho_def
        owner_count_chirho_def flip: OWNER_RETIRING_def\<close>)
qed

section \<open>Accounting of address-space owners\<close>

fun owner_weight :: "owner_abs \<Rightarrow> int" where
  "owner_weight Owner_Dead = 0"
| "owner_weight (Owner_Live n) = int n"
| "owner_weight Owner_Retiring = 1"

fun owner_delta :: "owner_op \<Rightarrow> owner_res \<Rightarrow> int" where
  "owner_delta op (Res_TryRetain (Inr n)) = 1"
| "owner_delta op (Res_OwnerRelease (Inr x)) = - 1"
| "owner_delta op (Res_Finish (Inr x)) = - 1"
| "owner_delta op _ = 0"

fun owner_teardown :: "owner_op \<Rightarrow> owner_res \<Rightarrow> int" where
  "owner_teardown op (Res_OwnerRelease (Inr LastOwnerChirho)) = - 1"
| "owner_teardown op (Res_Finish (Inr x)) = - 1"
| "owner_teardown op _ = 0"

lemma owner_spec_measures:
  assumes "a \<noteq> Owner_Live 0" and "owner_spec op a = (a', r)"
  shows "owner_weight a' = owner_weight a + owner_delta op r"
    and "(if a' = Owner_Dead then 0 else 1) =
      (if a = Owner_Dead then 0 else 1) + owner_teardown op r"
  using assms by (cases op; cases a; force split: if_splits)+

lemma owner_alpha_simps:
  "owner_alpha w \<noteq> Owner_Live 0" "owner_alpha w = Owner_Dead \<longleftrightarrow> w = 0"
  by (simp_all add: owner_alpha_def unat_eq_0)

interpretation owners: cas_measured owner_word owner_inv "\<lambda>w. owner_weight (owner_alpha w)" owner_delta
proof
  fix w op
  assume w: "owner_inv w"
  show "owner_inv (fst (cas_apply (owner_word op) w))"
    using owner_word_refines [OF w] by blast
  show "owner_weight (owner_alpha (fst (cas_apply (owner_word op) w))) =
      owner_weight (owner_alpha w) + owner_delta op (snd (cas_apply (owner_word op) w))"
    using owner_word_refines [OF w, of op] owner_spec_measures(1) [OF owner_alpha_simps(1)] by metis
qed

interpretation teardowns: cas_measured owner_word owner_inv
  "\<lambda>w. if w = 0 then 0 else 1" owner_teardown
proof
  fix w op
  assume w: "owner_inv w"
  have "owner_spec op (owner_alpha w) =
      (owner_alpha (fst (cas_apply (owner_word op) w)), snd (cas_apply (owner_word op) w))"
    using owner_word_refines [OF w, of op] by simp
  from owner_spec_measures(2) [OF owner_alpha_simps(1) this]
  show "(if fst (cas_apply (owner_word op) w) = 0 then 0 else 1) =
      (if w = 0 then 0 else 1) + owner_teardown op (snd (cas_apply (owner_word op) w))"
    by (simp only: owner_alpha_simps(2))
qed

lemma owner_inv_new: "owner_inv owner_new_chirho"
  by (simp add: owner_inv_def owner_new_chirho_def)

text \<open>Once retirement has begun, the word stays retiring or dead until a
  cancellation succeeds, and no clone succeeds.\<close>

lemma gate_step:
  assumes "w = OWNER_RETIRING \<or> w = 0" and "snd (cas_apply (owner_word op) w) \<noteq> Res_Cancel (Inr ())"
  shows "fst (cas_apply (owner_word op) w) = OWNER_RETIRING \<or> fst (cas_apply (owner_word op) w) = 0"
    and "snd (cas_apply (owner_word op) w) \<noteq> Res_TryRetain (Inr n)"
proof -
  have inv: "owner_inv w" using assms(1) by (auto simp: owner_inv_def)
  obtain w' r where wr: "cas_apply (owner_word op) w = (w', r)" by fastforce
  have spec: "(owner_alpha w', r) = owner_spec op (owner_alpha w)"
    using owner_word_refines [OF inv, of op] wr by simp
  have "owner_alpha w = Owner_Retiring \<or> owner_alpha w = Owner_Dead"
    using assms(1) by (auto simp: owner_alpha_def)
  then have "owner_alpha w' = Owner_Retiring \<or> owner_alpha w' = Owner_Dead"
    and r: "r \<noteq> Res_TryRetain (Inr n)"
    using spec assms(2) wr by (cases op; force)+
  then show "fst (cas_apply (owner_word op) w) = OWNER_RETIRING \<or> fst (cas_apply (owner_word op) w) = 0"
    using wr by (auto simp: owner_alpha_def split: if_splits)
  show "snd (cas_apply (owner_word op) w) \<noteq> Res_TryRetain (Inr n)" using wr r by simp
qed

lemma gate_run:
  assumes "legal_run owner_word w l w'" and "w = OWNER_RETIRING \<or> w = 0"
    and "(Op_Cancel, Res_Cancel (Inr ())) \<notin> set l"
  shows "(w' = OWNER_RETIRING \<or> w' = 0) \<and> (op, Res_TryRetain (Inr n)) \<notin> set l"
  using assms
proof (induction l arbitrary: w)
  case Nil
  then show ?case by simp
next
  case (Cons e l)
  obtain op1 r where e: "e = (op1, r)" by (cases e)
  let ?a = "cas_apply (owner_word op1) w"
  have r: "snd ?a = r" using Cons.prems(1) e by simp
  have "r \<noteq> Res_Cancel (Inr ())"
  proof
    assume c: "r = Res_Cancel (Inr ())"
    have "op1 = Op_Cancel"
      using c r by (cases op1) (auto simp: cas_apply_def split: cas_decision.splits
          elim: map_decision.elims)
    then show False using Cons.prems(3) e c by simp
  qed
  then have step: "fst ?a = OWNER_RETIRING \<or> fst ?a = 0" "r \<noteq> Res_TryRetain (Inr n)"
    using gate_step [OF Cons.prems(2), of op1] r by simp_all
  have "(w' = OWNER_RETIRING \<or> w' = 0) \<and> (op, Res_TryRetain (Inr n)) \<notin> set l"
    using Cons.prems(1,3) e by (intro Cons.IH [OF _ step(1)]) simp_all
  then show ?case using step(2) e by simp
qed

lemma gate_begin:
  assumes "owner_inv w" and "cas_apply (owner_word Op_Begin) w = (w', Res_Begin (Inr ()))"
  shows "w' = OWNER_RETIRING"
  using assms(2)
  by (auto simp: cas_apply_def try_begin_retirement_body_chirho_def OWNER_RETIRING_def
      split: if_splits)

section \<open>Counting results in a history\<close>

definition count_effects ::
  "(('o \<times> 'r) \<Rightarrow> bool) \<Rightarrow> ('w, 'o, 'r) cas_state \<Rightarrow> nat" where
  "count_effects P s = length (filter P (effects (cas_hist s)))"

fun is_retained :: "frame_op \<times> frame_res \<Rightarrow> bool" where
  "is_retained (op, Res_Retain (Inr (ManagedChirho n))) = True"
| "is_retained _ = False"

fun is_first_mapping :: "frame_op \<times> frame_res \<Rightarrow> bool" where
  "is_first_mapping (op, Res_Retain (Inr (ManagedChirho n))) = (n = 1)"
| "is_first_mapping _ = False"

fun is_last_reference :: "frame_op \<times> frame_res \<Rightarrow> bool" where
  "is_last_reference (op, Res_Release (Inr LastReferenceChirho)) = True"
| "is_last_reference _ = False"

fun is_released :: "frame_op \<times> frame_res \<Rightarrow> bool" where
  "is_released (op, Res_Release (Inr (StillReferencedChirho n))) = True"
| "is_released e = is_last_reference e"

fun is_cloned :: "owner_op \<times> owner_res \<Rightarrow> bool" where
  "is_cloned (op, Res_TryRetain (Inr n)) = True"
| "is_cloned _ = False"

fun is_teardown :: "owner_op \<times> owner_res \<Rightarrow> bool" where
  "is_teardown (op, Res_OwnerRelease (Inr LastOwnerChirho)) = True"
| "is_teardown (op, Res_Finish (Inr x)) = True"
| "is_teardown _ = False"

fun is_dropped :: "owner_op \<times> owner_res \<Rightarrow> bool" where
  "is_dropped (op, Res_OwnerRelease (Inr (OwnersRemainChirho n))) = True"
| "is_dropped e = is_teardown e"

lemma sum_as_counts:
  assumes "\<And>e. f e = (if P e then 1 else 0) - (if Q e then 1 else (0 :: int))"
  shows "(\<Sum>e\<leftarrow>l. f e) = int (length (filter P l)) - int (length (filter Q l))"
  by (induction l) (simp_all add: assms)

lemma frame_deltas_as_indicators:
  "case_prod frame_delta e = (if is_retained e then 1 else 0) - (if is_released e then 1 else 0)"
  "case_prod frame_epoch e =
    (if is_first_mapping e then 1 else 0) - (if is_last_reference e then 1 else 0)"
proof -
  obtain op r where e: "e = (op, r)" by (cases e)
  show "case_prod frame_delta e = (if is_retained e then 1 else 0) - (if is_released e then 1 else 0)"
    unfolding e by (cases "(op, r)" rule: frame_delta.cases) simp_all
  show "case_prod frame_epoch e =
    (if is_first_mapping e then 1 else 0) - (if is_last_reference e then 1 else 0)"
    unfolding e by (cases "(op, r)" rule: frame_delta.cases) simp_all
qed

lemma owner_deltas_as_indicators:
  "case_prod owner_delta e = (if is_cloned e then 1 else 0) - (if is_dropped e then 1 else 0)"
  "case_prod owner_teardown e = (if False then 1 else 0) - (if is_teardown e then 1 else 0)"
proof -
  obtain op r where e: "e = (op, r)" by (cases e)
  show "case_prod owner_delta e = (if is_cloned e then 1 else 0) - (if is_dropped e then 1 else 0)"
    unfolding e
    by (cases "(op, r)" rule: is_dropped.cases; cases "(op, r)" rule: owner_delta.cases) auto
  show "case_prod owner_teardown e = (if False then 1 else 0) - (if is_teardown e then 1 else 0)"
    unfolding e by (cases "(op, r)" rule: owner_teardown.cases) simp_all
qed

fun spec_run :: "owner_abs \<Rightarrow> (owner_op \<times> owner_res) list \<Rightarrow> owner_abs option" where
  "spec_run a [] = Some a"
| "spec_run a ((op, r) # l) =
     (if snd (owner_spec op a) = r then spec_run (fst (owner_spec op a)) l else None)"

lemma legal_run_spec:
  "legal_run owner_word w l w' \<Longrightarrow> owner_inv w \<Longrightarrow> spec_run (owner_alpha w) l = Some (owner_alpha w')"
proof (induction l arbitrary: w)
  case Nil
  then show ?case by simp
next
  case (Cons e l)
  obtain op r where e: "e = (op, r)" by (cases e)
  have spec: "owner_spec op (owner_alpha w) = (owner_alpha (fst (cas_apply (owner_word op) w)), r)"
    using owner_word_refines [OF Cons.prems(2), of op] Cons.prems(1) e by simp
  have "owner_inv (fst (cas_apply (owner_word op) w))"
    using owner_word_refines [OF Cons.prems(2)] by blast
  then show ?case
    using Cons.IH [of "fst (cas_apply (owner_word op) w)"] Cons.prems(1) spec e by simp
qed

section \<open>Two small executions\<close>

definition demo_retain :: "(u32, frame_op, frame_res) cas_state" where
  "demo_retain = cas_commit 0 Op_Retain 1 (Res_Retain (Inr (ManagedChirho 1)))
     (cas_observe (frame_slot 3) 0 Op_Retain (cas_invoke 0 Op_Retain (cas_init 0)))"

definition demo_gate :: "(u64, owner_op, owner_res) cas_state" where
  "demo_gate =
     cas_commit 2 Op_Finish 0 (Res_Finish (Inr ())) (cas_invoke 2 Op_Finish
     (cas_commit 1 Op_Begin OWNER_RETIRING (Res_Begin (Inr ())) (cas_invoke 1 Op_Begin
     (cas_init owner_new_chirho))))"

definition demo_clone :: "(u64, owner_op, owner_res) cas_state" where
  "demo_clone =
     cas_commit 3 Op_TryRetain 2 (Res_TryRetain (Inr 2))
     (cas_observe owner_word 3 Op_TryRetain (cas_invoke 3 Op_TryRetain
     (cas_commit 2 Op_Cancel 1 (Res_Cancel (Inr ())) (cas_invoke 2 Op_Cancel
     (cas_commit 1 Op_Begin OWNER_RETIRING (Res_Begin (Inr ())) (cas_invoke 1 Op_Begin
     (cas_init owner_new_chirho)))))))"

lemmas demo_defs = cas_commit_def cas_observe_def cas_invoke_def cas_init_def

lemma demo_retain_reach: "cas_reach (frame_slot 3) frame_one_shot 0 demo_retain"
  unfolding demo_retain_def
  by (rule cas_reach_solo [OF cas_reach_init])
    (simp_all add: cas_init_def retain_body_chirho_def frame_const_defs)

lemma demo_begin_reach:
  "cas_reach owner_word owner_one_shot owner_new_chirho
     (cas_commit 1 Op_Begin OWNER_RETIRING (Res_Begin (Inr ())) (cas_invoke 1 Op_Begin
       (cas_init owner_new_chirho)))"
  by (rule cas_reach_one_shot [OF cas_reach_init])
    (simp_all add: cas_init_def owner_new_chirho_def cas_apply_def
      try_begin_retirement_body_chirho_def OWNER_RETIRING_def)

lemma demo_gate_reach: "cas_reach owner_word owner_one_shot owner_new_chirho demo_gate"
  unfolding demo_gate_def
  by (rule cas_reach_one_shot [OF demo_begin_reach])
    (simp_all add: demo_defs cas_apply_def finish_retirement_body_chirho_def OWNER_RETIRING_def)

lemma demo_clone_reach: "cas_reach owner_word owner_one_shot owner_new_chirho demo_clone"
  unfolding demo_clone_def
  by (rule cas_reach_solo [OF cas_reach_one_shot [OF demo_begin_reach]])
    (simp_all add: demo_defs cas_apply_def cancel_retirement_body_chirho_def OWNER_RETIRING_def
      owner_retain_body_chirho_def defs_chirho)

section \<open>Properties\<close>

text \<open>C6. Frame reference counts are exact under every interleaving.  For any
  execution of any number of threads retaining, releasing and reading one
  managed slot that starts unreferenced (retries and spurious exchange
  failures included), the history is linearizable, the slot never holds the
  unmanaged sentinel, and its value is the number of retains that returned
  \<^verbatim>\<open>ManagedChirho\<close> minus the number of releases that succeeded.\<close>

theorem frame_accounting_exact:
  assumes "cas_reach (frame_slot f) frame_one_shot 0 s"
  shows "linearizable (frame_slot f) 0 s \<and>
    cas_cell s \<noteq> UNMANAGED_FRAME_COUNT_CHIRHO \<and>
    unat (cas_cell s) + count_effects is_released s = count_effects is_retained s"
proof -
  have managed: "frame_managed 0" by (simp add: frame_managed_def frame_const_defs)
  have "int (unat (cas_cell s)) = (\<Sum>e\<leftarrow>effects (cas_hist s). case_prod frame_delta e)"
    using frames.phi_reach [OF managed assms] by (simp only: unat_0 of_nat_0 add_0)
  also have "\<dots> = int (count_effects is_retained s) - int (count_effects is_released s)"
    unfolding count_effects_def by (rule sum_as_counts) (rule frame_deltas_as_indicators)
  finally have "unat (cas_cell s) + count_effects is_released s = count_effects is_retained s"
    by linarith
  then show ?thesis
    using cas_reach_linearizable [OF assms] frames.inv_reach [OF managed assms]
    by (simp add: frame_managed_def)
qed

theorem frame_accounting_exact_witness:
  "cas_reach (frame_slot 3) frame_one_shot 0 demo_retain \<and>
   unat (cas_cell demo_retain) = 1 \<and> count_effects is_retained demo_retain = 1"
  using demo_retain_reach frame_accounting_exact [OF demo_retain_reach]
  by (simp add: count_effects_def demo_retain_def demo_defs retain_body_chirho_def frame_const_defs)

text \<open>C7. A frame is handed back exactly once per period of use.  In every
  execution the number of releases that returned \<^verbatim>\<open>LastReferenceChirho\<close> (the
  signal to free the frame) is the number of retains that made the first
  mapping, less one while the frame is still mapped: never two frees for one
  acquisition, and no acquisition left unfreed once the count is zero.\<close>

theorem frame_freed_once_per_epoch:
  assumes "cas_reach (frame_slot f) frame_one_shot 0 s"
  shows "count_effects is_last_reference s + (if cas_cell s = 0 then 0 else 1) =
    count_effects is_first_mapping s"
proof -
  have managed: "frame_managed 0" by (simp add: frame_managed_def frame_const_defs)
  have "(if cas_cell s = 0 then 0 else 1) =
      (\<Sum>e\<leftarrow>effects (cas_hist s). case_prod frame_epoch e)"
    using frame_epochs.phi_reach [OF managed assms] by simp
  also have "\<dots> = int (count_effects is_first_mapping s) - int (count_effects is_last_reference s)"
    unfolding count_effects_def by (rule sum_as_counts) (rule frame_deltas_as_indicators)
  finally show ?thesis by (simp split: if_splits)
qed

theorem frame_freed_once_per_epoch_witness:
  "count_effects is_last_reference demo_retain + 1 = count_effects is_first_mapping demo_retain"
  using frame_freed_once_per_epoch [OF demo_retain_reach]
  by (simp add: demo_retain_def demo_defs retain_body_chirho_def frame_const_defs)

text \<open>C8. The address-space owner word implements the machine with states dead,
  live with n owners, and retiring: every concurrent history from a new
  handle is a run of the abstract operations with the same results, ending in
  the abstraction of the word.\<close>

theorem owner_word_implements_spec:
  assumes "cas_reach owner_word owner_one_shot owner_new_chirho s"
  shows "spec_run (Owner_Live 1) (effects (cas_hist s)) = Some (owner_alpha (cas_cell s))"
proof -
  have "owner_alpha owner_new_chirho = Owner_Live 1"
    by (simp add: owner_alpha_def owner_new_chirho_def)
  then show ?thesis
    using legal_run_spec [OF cas_reach_legal [OF assms] owner_inv_new] by simp
qed

theorem owner_word_implements_spec_witness:
  "spec_run (Owner_Live 1) (effects (cas_hist demo_gate)) = Some Owner_Dead"
  using owner_word_implements_spec [OF demo_gate_reach]
  by (simp add: demo_gate_def demo_defs owner_alpha_def)

text \<open>An address space is torn down at most once.  In every execution from a
  new handle the number of teardown signals (\<^verbatim>\<open>LastOwnerChirho\<close> or a successful
  finish of retirement) is one if the word is zero and none otherwise, and the
  owner count the word encodes is one plus the clones minus the drops.\<close>

theorem owner_torn_down_once:
  assumes "cas_reach owner_word owner_one_shot owner_new_chirho s"
  shows "count_effects is_teardown s = (if cas_cell s = 0 then 1 else 0) \<and>
    unat (owner_count_chirho (cas_cell s)) + count_effects is_dropped s =
      1 + count_effects is_cloned s"
proof -
  have sums: "(\<Sum>e\<leftarrow>effects (cas_hist s). case_prod owner_teardown e) =
      - int (count_effects is_teardown s)"
    "(\<Sum>e\<leftarrow>effects (cas_hist s). case_prod owner_delta e) =
      int (count_effects is_cloned s) - int (count_effects is_dropped s)"
    unfolding count_effects_def
    using sum_as_counts [of "case_prod owner_teardown" "\<lambda>_. False", OF owner_deltas_as_indicators(2)]
      sum_as_counts [of "case_prod owner_delta", OF owner_deltas_as_indicators(1)] by simp_all
  have new: "owner_alpha owner_new_chirho = Owner_Live 1" "owner_new_chirho \<noteq> 0"
    by (simp_all add: owner_alpha_def owner_new_chirho_def)
  have inv: "owner_inv (cas_cell s)" by (rule owners.inv_reach [OF owner_inv_new assms])
  have "owner_weight (owner_alpha (cas_cell s)) = int (unat (owner_count_chirho (cas_cell s)))"
    using inv
    by (cases rule: owner_inv_cases)
      (simp_all add: owner_alpha_def owner_count_chirho_def owner_retiring_bits owner_small
        unsigned_ucast_eq take_bit_nat_eq_self)
  then have "int (unat (owner_count_chirho (cas_cell s))) =
      1 + (int (count_effects is_cloned s) - int (count_effects is_dropped s))"
    using owners.phi_reach [OF owner_inv_new assms] sums(2) new(1)
    by (simp only: owner_weight.simps of_nat_1)
  then have "unat (owner_count_chirho (cas_cell s)) + count_effects is_dropped s =
      1 + count_effects is_cloned s" by linarith
  then show ?thesis
    using teardowns.phi_reach [OF owner_inv_new assms] sums(1) new(2) by (simp split: if_splits)
qed

theorem owner_torn_down_once_witness:
  "count_effects is_teardown demo_gate = 1 \<and> cas_cell demo_gate = 0"
  using owner_torn_down_once [OF demo_gate_reach] by (simp add: demo_gate_def demo_defs)

text \<open>The retirement gate excludes cloning.  If a history has a successful
  \<^verbatim>\<open>try_begin_retirement_chirho\<close> followed by a successful \<^verbatim>\<open>try_retain_chirho\<close>, a
  successful cancellation lies between the two.\<close>

theorem retirement_excludes_clone:
  assumes "cas_reach owner_word owner_one_shot owner_new_chirho s"
    and "effects (cas_hist s) =
      l1 @ (Op_Begin, Res_Begin (Inr ())) # l2 @ (Op_TryRetain, Res_TryRetain (Inr n)) # l3"
  shows "(Op_Cancel, Res_Cancel (Inr ())) \<in> set l2"
proof (rule ccontr)
  assume none: "\<not> ?thesis"
  let ?l2 = "l2 @ [(Op_TryRetain, Res_TryRetain (Inr n))]"
  obtain m where m: "legal_run owner_word owner_new_chirho l1 m"
    and opened: "snd (cas_apply (owner_word Op_Begin) m) = Res_Begin (Inr ())"
    and rest: "legal_run owner_word (fst (cas_apply (owner_word Op_Begin) m)) (?l2 @ l3) (cas_cell s)"
    using cas_reach_legal [OF assms(1)] unfolding assms(2) by (auto simp: legal_run_append)
  have "fst (cas_apply (owner_word Op_Begin) m) = OWNER_RETIRING"
    using gate_begin [OF owners.inv_run [OF owner_inv_new m]] opened by (metis prod.collapse)
  moreover obtain m' where
    "legal_run owner_word (fst (cas_apply (owner_word Op_Begin) m)) ?l2 m'"
    using rest unfolding legal_run_append by blast
  ultimately have "(Op_TryRetain, Res_TryRetain (Inr n)) \<notin> set ?l2"
    using gate_run [of OWNER_RETIRING ?l2 m'] none by auto
  then show False by simp
qed

theorem retirement_excludes_clone_witness:
  "(Op_Cancel, Res_Cancel (Inr ())) \<in> set [(Op_Cancel, Res_Cancel (Inr ()))]"
  by (rule retirement_excludes_clone [OF demo_clone_reach, of "[]" _ 2 "[]"])
    (simp add: demo_clone_def demo_defs owner_retain_body_chirho_def defs_chirho)

text \<open>A table that \<^verbatim>\<open>try_new_chirho\<close> returns manages exactly the frames of the
  given ranges: each of them starts at count zero, every other frame number
  (holes and frames beyond the table) is unmanaged, the table has one slot up
  to the largest end, and the recorded total is the sum of the range sizes,
  saturating at the largest \<^verbatim>\<open>usize\<close>.\<close>

theorem new_table_manages_ranges:
  assumes "try_new_chirho reserve ranges = Inr t"
  shows "(\<forall>f. mapping_count_chirho t f =
      (if \<exists>r\<in>set ranges. unat f \<in> range_frames r then Some 0 else None)) \<and>
    slot_count_chirho t = foldl (\<lambda>m r. max m (unat (end_frame_exclusive_chirho r))) 0 ranges \<and>
    unat (managed_frame_count_chirho t) = min (2 ^ 64 - 1) (\<Sum>r\<leftarrow>ranges. card (range_frames r))"
  using mapping_count_new [OF assms] table_sizes_new [OF assms] by blast

definition demo_ranges :: "FrameRangeChirho list" where
  "demo_ranges =
     [\<lparr>start_frame_chirho = 2, end_frame_exclusive_chirho = 6\<rparr>,
      \<lparr>start_frame_chirho = 9, end_frame_exclusive_chirho = 11\<rparr>]"

definition demo_table :: LeafFrameOwnershipChirho where
  "demo_table =
     \<lparr>reference_counts_chirho = [-1, -1, 0, 0, 0, 0, -1, -1, -1, 0, 0],
      managed_frame_total_chirho = 6\<rparr>"

lemma demo_table_new: "try_new_chirho (\<lambda>_. True) demo_ranges = Inr demo_table"
  by code_simp

theorem new_table_manages_ranges_witness:
  "mapping_count_chirho demo_table 3 = Some 0 \<and> mapping_count_chirho demo_table 7 = None \<and>
   mapping_count_chirho demo_table 20 = None \<and> slot_count_chirho demo_table = 11"
proof -
  note n = new_table_manages_ranges [OF demo_table_new]
  have "mapping_count_chirho demo_table f =
      (if \<exists>r\<in>set demo_ranges. unat f \<in> range_frames r then Some 0 else None)" for f
    using n by blast
  moreover have "slot_count_chirho demo_table = 11"
    using n by (simp add: demo_ranges_def)
  ultimately show ?thesis by (simp add: demo_ranges_def range_frames_def)
qed

lemma mapping_count_store:
  "mapping_count_chirho
     (t\<lparr>reference_counts_chirho := (reference_counts_chirho t)[unat f := v]\<rparr>) g =
   (if g = f \<and> unat f < length (reference_counts_chirho t)
    then if v \<noteq> UNMANAGED_FRAME_COUNT_CHIRHO then Some v else None
    else mapping_count_chirho t g)"
  by (auto simp: mapping_count_chirho_def word_unat_eq_iff)

lemma retain_mapping_cases:
  "(mapping_count_chirho t f = None \<and> (\<forall>g. mapping_count_chirho (fst (retain_mapping_chirho t f)) g
      = mapping_count_chirho t g) \<and> snd (retain_mapping_chirho t f) = Inr RetainUnmanagedChirho) \<or>
   (\<exists>n. mapping_count_chirho t f = Some n \<and>
     (if n = MAX_MANAGED_FRAME_COUNT_CHIRHO
      then (\<forall>g. mapping_count_chirho (fst (retain_mapping_chirho t f)) g = mapping_count_chirho t g) \<and>
        snd (retain_mapping_chirho t f) = Inl (RetainOverflowChirho f)
      else (\<forall>g. mapping_count_chirho (fst (retain_mapping_chirho t f)) g =
          (if g = f then Some (n + 1) else mapping_count_chirho t g)) \<and>
        snd (retain_mapping_chirho t f) = Inr (ManagedChirho (n + 1))))"
proof (cases "get_opt (reference_counts_chirho t) (unat f)")
  case None
  then show ?thesis by (simp add: retain_mapping_chirho_def mapping_count_chirho_def)
next
  case (Some c)
  then have c: "unat f < length (reference_counts_chirho t)" "reference_counts_chirho t ! unat f = c"
    by (simp_all add: get_opt_Some_iff)
  have m: "mapping_count_chirho t f = (if c \<noteq> UNMANAGED_FRAME_COUNT_CHIRHO then Some c else None)"
    using Some by (simp add: mapping_count_chirho_def)
  consider "c = UNMANAGED_FRAME_COUNT_CHIRHO" | "c = MAX_MANAGED_FRAME_COUNT_CHIRHO"
    | "frame_managed c" "c \<noteq> MAX_MANAGED_FRAME_COUNT_CHIRHO"
    by (auto simp: frame_managed_def)
  then show ?thesis
  proof cases
    case 3
    then show ?thesis
      using Some c m managed_succ(1) [OF 3]
      by (simp add: retain_mapping_chirho_def retain_body_chirho_def mapping_count_store
          frame_managed_def)
  qed (use Some c m in \<open>auto simp: retain_mapping_chirho_def retain_body_chirho_def
      mapping_count_store frame_const_defs\<close>)
qed

lemma release_mapping_cases:
  "(mapping_count_chirho t f = None \<and> (\<forall>g. mapping_count_chirho (fst (release_mapping_chirho t f)) g
      = mapping_count_chirho t g) \<and> snd (release_mapping_chirho t f) = Inr ReleaseUnmanagedChirho) \<or>
   (\<exists>n. mapping_count_chirho t f = Some n \<and>
     (if n = 0
      then (\<forall>g. mapping_count_chirho (fst (release_mapping_chirho t f)) g = mapping_count_chirho t g) \<and>
        snd (release_mapping_chirho t f) = Inl (ReleaseUnderflowChirho f)
      else (\<forall>g. mapping_count_chirho (fst (release_mapping_chirho t f)) g =
          (if g = f then Some (n - 1) else mapping_count_chirho t g)) \<and>
        snd (release_mapping_chirho t f) =
          Inr (if n = 1 then LastReferenceChirho else StillReferencedChirho (n - 1))))"
proof (cases "get_opt (reference_counts_chirho t) (unat f)")
  case None
  then show ?thesis by (simp add: release_mapping_chirho_def mapping_count_chirho_def)
next
  case (Some c)
  then have c: "unat f < length (reference_counts_chirho t)" "reference_counts_chirho t ! unat f = c"
    by (simp_all add: get_opt_Some_iff)
  have m: "mapping_count_chirho t f = (if c \<noteq> UNMANAGED_FRAME_COUNT_CHIRHO then Some c else None)"
    using Some by (simp add: mapping_count_chirho_def)
  consider "c = UNMANAGED_FRAME_COUNT_CHIRHO" | "c = 0" | "frame_managed c" "c \<noteq> 0"
    by (auto simp: frame_managed_def)
  then show ?thesis
  proof cases
    case 3
    then show ?thesis
      using Some c m managed_pred(1) [OF 3]
      by (simp add: release_mapping_chirho_def release_body_chirho_def mapping_count_store
          frame_managed_def Let_def)
  qed (use Some c m in \<open>auto simp: release_mapping_chirho_def release_body_chirho_def
      mapping_count_store frame_const_defs\<close>)
qed

text \<open>Retain and release on the table: the result and the new count of the
  frame on every branch (unmanaged frame, overflow, underflow, last reference),
  and no other frame's count changes.\<close>

theorem table_operations_spec:
  "mapping_count_chirho (fst (retain_mapping_chirho t f)) g =
     (case mapping_count_chirho t g of
        Some n \<Rightarrow> if g = f \<and> n \<noteq> MAX_MANAGED_FRAME_COUNT_CHIRHO then Some (n + 1) else Some n
      | None \<Rightarrow> None) \<and>
   snd (retain_mapping_chirho t f) =
     (case mapping_count_chirho t f of
        None \<Rightarrow> Inr RetainUnmanagedChirho
      | Some n \<Rightarrow> if n = MAX_MANAGED_FRAME_COUNT_CHIRHO then Inl (RetainOverflowChirho f)
                  else Inr (ManagedChirho (n + 1))) \<and>
   mapping_count_chirho (fst (release_mapping_chirho t f)) g =
     (case mapping_count_chirho t g of
        Some n \<Rightarrow> if g = f \<and> n \<noteq> 0 then Some (n - 1) else Some n
      | None \<Rightarrow> None) \<and>
   snd (release_mapping_chirho t f) =
     (case mapping_count_chirho t f of
        None \<Rightarrow> Inr ReleaseUnmanagedChirho
      | Some n \<Rightarrow> if n = 0 then Inl (ReleaseUnderflowChirho f)
                  else if n = 1 then Inr LastReferenceChirho
                  else Inr (StillReferencedChirho (n - 1)))"
proof (intro conjI, goal_cases)
  case 1
  show ?case using retain_mapping_cases [of t f]
    by (cases "mapping_count_chirho t f = Some MAX_MANAGED_FRAME_COUNT_CHIRHO")
      (auto split: option.splits)
next
  case 2
  show ?case using retain_mapping_cases [of t f] by (auto split: if_splits)
next
  case 3
  show ?case using release_mapping_cases [of t f]
    by (cases "mapping_count_chirho t f = Some 0") (auto split: option.splits)
next
  case 4
  show ?case using release_mapping_cases [of t f] by (auto split: if_splits)
qed

end
