(* ===== verification/Frame_Alloc.thy ===== *)
theory Frame_Alloc
  imports Rust_Prelude
begin

text \<open>
  Physical memory and the physical frame allocator: \<^verbatim>\<open>GlobalFrameAllocatorChirho\<close>
  of \<^verbatim>\<open>mm_chirho/mmap_chirho.rs\<close> and the boot allocator of
  \<^verbatim>\<open>mm_chirho/memory_chirho.rs\<close>.

  Memory is a function from the physical address of a 4 KiB frame and the index
  of one of its 512 words to the word; the physical-memory window through which
  the code reads it is the identity of the model.  Freed frames form a linked
  list inside the frames themselves.  The functions of the \<^verbatim>\<open>x86_64\<close> crate the code
  calls (accessors of page-table entries, the frame containing an address) are
  the fields of the parameter \<^verbatim>\<open>x86_api\<close>; the locale \<^verbatim>\<open>x86_paging\<close> states what its
  documentation promises.  The index of the next frame never handed out is a
  natural number; the \<^verbatim>\<open>usize\<close> of the code would wrap only after \<open>2 ^ 64\<close> allocations.
\<close>

section \<open>The paging interface of the processor crate\<close>

record x86_api =
  entry_is_unused :: "u64 \<Rightarrow> bool"
  entry_addr :: "u64 \<Rightarrow> u64"
  entry_flags :: "u64 \<Rightarrow> u64"
  entry_set_addr :: "u64 \<Rightarrow> u64 \<Rightarrow> u64"
  entry_unused :: u64
  frame_containing :: "u64 \<Rightarrow> u64"

definition ENTRY_ADDR_MASK :: u64 where
  "ENTRY_ADDR_MASK = 0x000FFFFFFFFFF000"

definition page_aligned :: "u64 \<Rightarrow> bool" where
  "page_aligned a \<longleftrightarrow> a AND 0xFFF = 0"

text \<open>An address a page-table entry can hold: aligned, below \<open>2 ^ 52\<close>.\<close>

definition frame_ok :: "u64 \<Rightarrow> bool" where
  "frame_ok a \<longleftrightarrow> a AND ENTRY_ADDR_MASK = a"

definition flags_ok :: "u64 \<Rightarrow> bool" where
  "flags_ok f \<longleftrightarrow> f AND ENTRY_ADDR_MASK = 0"

locale x86_paging =
  fixes X :: x86_api
  assumes is_unused_zero: "entry_is_unused X e \<longleftrightarrow> e = 0"
    and unused_zero: "entry_unused X = 0"
    and addr_bits: "entry_addr X e = e AND ENTRY_ADDR_MASK"
    and flag_bits: "entry_flags X e = e AND NOT ENTRY_ADDR_MASK"
    and set_addr_bits: "frame_ok a \<Longrightarrow> flags_ok f \<Longrightarrow> entry_set_addr X a f = a OR f"
    and containing_aligned: "page_aligned a \<Longrightarrow> frame_containing X a = a"
begin

lemma entry_fields [simp]:
  assumes "frame_ok a" and "flags_ok f"
  shows "entry_addr X (entry_set_addr X a f) = a" and "entry_flags X (entry_set_addr X a f) = f"
proof -
  show "entry_addr X (entry_set_addr X a f) = a"
    using assms by (simp add: addr_bits set_addr_bits bit.conj_disj_distrib2 frame_ok_def flags_ok_def)
  have "(a AND ENTRY_ADDR_MASK) AND NOT ENTRY_ADDR_MASK = 0" by (simp add: and.assoc)
  then have "a AND NOT ENTRY_ADDR_MASK = 0" using assms(1) by (simp add: frame_ok_def)
  moreover have "(f AND ENTRY_ADDR_MASK) OR (f AND NOT ENTRY_ADDR_MASK) = f"
    by (simp flip: bit.conj_disj_distrib)
  then have "f AND NOT ENTRY_ADDR_MASK = f" using assms(2) by (simp add: flags_ok_def)
  ultimately show "entry_flags X (entry_set_addr X a f) = f"
    using assms by (simp add: flag_bits set_addr_bits bit.conj_disj_distrib2)
qed

lemma entry_addr_ok [simp]: "frame_ok (entry_addr X e)"
  by (simp add: addr_bits frame_ok_def and.assoc)

lemma entry_flags_ok [simp]: "flags_ok (entry_flags X e)"
  by (simp add: flag_bits flags_ok_def and.assoc)

lemma entry_rebuild [simp]: "entry_set_addr X (entry_addr X e) (entry_flags X e) = e"
proof -
  have "entry_set_addr X (entry_addr X e) (entry_flags X e) = entry_addr X e OR entry_flags X e"
    by (rule set_addr_bits) simp_all
  then show ?thesis
    by (simp add: addr_bits flag_bits flip: bit.conj_disj_distrib)
qed

end

lemma frame_ok_aligned:
  assumes "frame_ok a" shows "page_aligned a"
proof -
  have "ENTRY_ADDR_MASK AND 0xFFF = 0" by (simp add: ENTRY_ADDR_MASK_def)
  then have "(a AND ENTRY_ADDR_MASK) AND 0xFFF = 0" by (simp add: and.assoc)
  then show ?thesis using assms by (simp add: frame_ok_def page_aligned_def)
qed

lemma page_aligned_unat: "page_aligned a \<longleftrightarrow> unat a mod 4096 = 0"
proof -
  have "a AND 0xFFF = take_bit 12 a" by (simp add: take_bit_eq_mask mask_eq_exp_minus_1)
  then have "page_aligned a \<longleftrightarrow> unat (take_bit 12 a) = 0"
    by (simp add: page_aligned_def unsigned_eq_0_iff)
  then show ?thesis by (simp add: unsigned_take_bit_eq take_bit_eq_mod unat_mod)
qed

section \<open>The memory map\<close>

record MemoryRegion =
  region_start :: u64
  region_end :: u64
  region_usable :: bool

definition align_up_chirho :: "u64 \<Rightarrow> u64 \<Rightarrow> u64" where
  "align_up_chirho addr align = (addr + align - 1) AND NOT (align - 1)"

text \<open>\<^verbatim>\<open>(first..end).step_by(4096)\<close> over the usable regions, in order.\<close>

definition region_frames_chirho :: "MemoryRegion \<Rightarrow> u64 list" where
  "region_frames_chirho r =
     (let first = align_up_chirho (region_start r) 4096 in
      map (\<lambda>i. first + of_nat (4096 * i)) [0 ..< (unat (region_end r) - unat first + 4095) div 4096])"

definition usable_frames_chirho :: "MemoryRegion list \<Rightarrow> u64 list" where
  "usable_frames_chirho regions = concat (map region_frames_chirho (filter region_usable regions))"

section \<open>The boot allocator\<close>

record BootInfoFrameAllocatorChirho =
  boot_memory_regions_chirho :: "MemoryRegion list"
  boot_next_frame_index_chirho :: nat

definition boot_init_chirho :: "MemoryRegion list \<Rightarrow> BootInfoFrameAllocatorChirho" where
  "boot_init_chirho regions =
     \<lparr>boot_memory_regions_chirho = regions, boot_next_frame_index_chirho = 0\<rparr>"

definition boot_allocate_frame ::
  "BootInfoFrameAllocatorChirho \<Rightarrow> BootInfoFrameAllocatorChirho \<times> u64 option" where
  "boot_allocate_frame a =
     (a\<lparr>boot_next_frame_index_chirho := boot_next_frame_index_chirho a + 1\<rparr>,
      get_opt (usable_frames_chirho (boot_memory_regions_chirho a)) (boot_next_frame_index_chirho a))"

section \<open>The global allocator\<close>

type_synonym phys_mem = "u64 \<Rightarrow> nat \<Rightarrow> u64"

record GlobalFrameAllocatorChirho =
  next_frame_index_chirho :: nat
  memory_regions_chirho :: "MemoryRegion list"
  free_head_chirho :: "u64 option"
  free_count_chirho :: usize

definition FREE_LIST_END_CHIRHO :: u64 where
  "FREE_LIST_END_CHIRHO = - 1"

definition allocator_new_chirho :: "MemoryRegion list \<Rightarrow> nat \<Rightarrow> GlobalFrameAllocatorChirho" where
  "allocator_new_chirho regions start_index =
     \<lparr>next_frame_index_chirho = start_index, memory_regions_chirho = regions,
      free_head_chirho = None, free_count_chirho = 0\<rparr>"

definition allocator_deallocate_frame_chirho ::
  "phys_mem \<Rightarrow> GlobalFrameAllocatorChirho \<Rightarrow> u64 \<Rightarrow> phys_mem \<times> GlobalFrameAllocatorChirho" where
  "allocator_deallocate_frame_chirho mem a f =
     (let next_phys = (case free_head_chirho a of Some head \<Rightarrow> head | None \<Rightarrow> FREE_LIST_END_CHIRHO)
      in (mem(f := (mem f)(0 := next_phys)),
          a\<lparr>free_head_chirho := Some f,
            free_count_chirho := saturating_add (free_count_chirho a) 1\<rparr>))"

definition allocator_allocate_frame ::
  "x86_api \<Rightarrow> phys_mem \<Rightarrow> GlobalFrameAllocatorChirho \<Rightarrow> GlobalFrameAllocatorChirho \<times> u64 option" where
  "allocator_allocate_frame X mem a =
     (case free_head_chirho a of
        Some f \<Rightarrow>
          (let next_phys = mem f 0 in
           (a\<lparr>free_head_chirho := (if next_phys = FREE_LIST_END_CHIRHO then None
                                  else Some (frame_containing X next_phys)),
              free_count_chirho := saturating_sub (free_count_chirho a) 1\<rparr>,
            Some f))
      | None \<Rightarrow>
          (a\<lparr>next_frame_index_chirho := next_frame_index_chirho a + 1\<rparr>,
           get_opt (usable_frames_chirho (memory_regions_chirho a)) (next_frame_index_chirho a)))"

section \<open>The free list in memory\<close>

primrec free_chain :: "phys_mem \<Rightarrow> u64 option \<Rightarrow> u64 list \<Rightarrow> bool" where
  "free_chain mem h [] \<longleftrightarrow> h = None"
| "free_chain mem h (f # fs) \<longleftrightarrow> h = Some f \<and>
     free_chain mem (if mem f 0 = FREE_LIST_END_CHIRHO then None else Some (mem f 0)) fs"

text \<open>The frames the allocator can still hand out, in the order it will do so: the
  free list, then the part of the memory map not reached yet.\<close>

definition pool_of :: "GlobalFrameAllocatorChirho \<Rightarrow> u64 list \<Rightarrow> u64 list" where
  "pool_of a fs = fs @ drop (next_frame_index_chirho a) (usable_frames_chirho (memory_regions_chirho a))"

definition pool_ok :: "phys_mem \<Rightarrow> GlobalFrameAllocatorChirho \<Rightarrow> u64 list \<Rightarrow> bool" where
  "pool_ok mem a pool \<longleftrightarrow> distinct pool \<and> (\<forall>f\<in>set pool. page_aligned f) \<and>
     (\<exists>fs. free_chain mem (free_head_chirho a) fs \<and> pool = pool_of a fs \<and>
        unat (free_count_chirho a) = length fs)"

lemma free_chain_cong: "(\<And>f. f \<in> set fs \<Longrightarrow> mem' f 0 = mem f 0) \<Longrightarrow> free_chain mem' h fs = free_chain mem h fs"
  by (induction fs arbitrary: h) auto

lemma free_chain_None [simp]: "free_chain mem None fs \<longleftrightarrow> fs = []"
  by (cases fs) auto

lemma free_chain_Some: "free_chain mem (Some f) fs \<Longrightarrow> \<exists>gs. fs = f # gs"
  by (cases fs) auto

lemma aligned_not_end: "page_aligned f \<Longrightarrow> f \<noteq> FREE_LIST_END_CHIRHO"
  by (auto simp: page_aligned_def FREE_LIST_END_CHIRHO_def)

lemma aligned_list_bound:
  assumes "distinct fs" and "\<forall>f\<in>set fs. page_aligned f"
  shows "Suc (length fs) \<le> 2 ^ 64"
proof -
  have "insert 1 (set fs) \<subseteq> (UNIV :: u64 set)" by simp
  from card_mono [OF finite this] have "card (insert 1 (set fs)) \<le> 2 ^ 64"
    by (simp add: card_word)
  moreover have "(1 :: u64) \<notin> set fs" using assms(2) by (auto simp: page_aligned_def)
  ultimately show ?thesis using assms(1) by (simp add: distinct_card)
qed

lemma pool_ok_cong:
  "pool_ok mem a pool \<Longrightarrow> (\<And>f. f \<in> set pool \<Longrightarrow> mem' f 0 = mem f 0) \<Longrightarrow> pool_ok mem' a pool"
  unfolding pool_ok_def pool_of_def by (metis Un_iff free_chain_cong set_append)

context x86_paging
begin

lemma allocate_pool:
  assumes ok: "pool_ok mem a pool" and r: "allocator_allocate_frame X mem a = (a', r)"
  shows "r = (case pool of [] \<Rightarrow> None | f # _ \<Rightarrow> Some f) \<and> pool_ok mem a' (tl pool) \<and>
    memory_regions_chirho a' = memory_regions_chirho a"
proof -
  obtain fs where fs: "free_chain mem (free_head_chirho a) fs" "pool = pool_of a fs"
    "unat (free_count_chirho a) = length fs"
    using ok by (auto simp: pool_ok_def)
  show ?thesis
  proof (cases fs)
    case Nil
    let ?u = "usable_frames_chirho (memory_regions_chirho a)" and ?i = "next_frame_index_chirho a"
    have a': "a' = a\<lparr>next_frame_index_chirho := ?i + 1\<rparr>" "r = get_opt ?u ?i"
      using r fs(1) Nil by (auto simp: allocator_allocate_frame_def)
    have "tl pool = pool_of a' []" using fs(2) Nil by (simp add: pool_of_def a' drop_Suc tl_drop)
    moreover have "r = (case pool of [] \<Rightarrow> None | f # _ \<Rightarrow> Some f)"
      using fs(2) Nil a'(2)
      by (cases "?i < length ?u") (simp_all add: pool_of_def get_opt_def Cons_nth_drop_Suc [symmetric])
    moreover have "distinct (tl pool) \<and> (\<forall>f\<in>set (tl pool). page_aligned f)"
      using ok by (cases pool) (auto simp: pool_ok_def)
    moreover have "free_head_chirho a = None" "unat (free_count_chirho a) = 0" using fs Nil by simp_all
    ultimately show ?thesis by (simp add: pool_ok_def a'(1))
  next
    case (Cons f gs)
    have al: "page_aligned g" if "g \<in> set fs" for g using ok fs(2) that by (auto simp: pool_ok_def pool_of_def)
    have head: "free_head_chirho a = Some f"
      and chain: "free_chain mem (if mem f 0 = FREE_LIST_END_CHIRHO then None else Some (mem f 0)) gs"
      using fs(1) Cons by simp_all
    have "mem f 0 = FREE_LIST_END_CHIRHO \<or> page_aligned (mem f 0)"
      using chain al Cons by (cases gs) (auto split: if_splits)
    then have next_ok: "(if mem f 0 = FREE_LIST_END_CHIRHO then None else Some (frame_containing X (mem f 0))) =
        (if mem f 0 = FREE_LIST_END_CHIRHO then None else Some (mem f 0))"
      by (auto simp: containing_aligned)
    have "unat (saturating_sub (free_count_chirho a) 1) = length gs"
      using fs(3) Cons by (simp add: unat_saturating_sub)
    then show ?thesis
      using r ok fs(2) Cons head chain next_ok
      by (auto simp: allocator_allocate_frame_def Let_def pool_ok_def pool_of_def intro!: exI [of _ gs])
  qed
qed

lemma deallocate_pool:
  assumes ok: "pool_ok mem a pool" and f: "f \<notin> set pool" "page_aligned f"
    and r: "allocator_deallocate_frame_chirho mem a f = (mem', a')"
  shows "pool_ok mem' a' (f # pool) \<and> (\<forall>g. g \<noteq> f \<longrightarrow> mem' g = mem g) \<and>
    memory_regions_chirho a' = memory_regions_chirho a"
proof -
  obtain fs where fs: "free_chain mem (free_head_chirho a) fs" "pool = pool_of a fs"
    "unat (free_count_chirho a) = length fs"
    using ok by (auto simp: pool_ok_def)
  let ?next = "case free_head_chirho a of Some head \<Rightarrow> head | None \<Rightarrow> FREE_LIST_END_CHIRHO"
  have mem': "mem' = mem(f := (mem f)(0 := ?next))"
    and a': "a' = a\<lparr>free_head_chirho := Some f, free_count_chirho := saturating_add (free_count_chirho a) 1\<rparr>"
    using r by (simp_all add: allocator_deallocate_frame_chirho_def Let_def)
  have in_pool: "set fs \<subseteq> set pool" using fs(2) by (auto simp: pool_of_def)
  have old: "free_chain mem' (free_head_chirho a) fs"
    using fs(1) in_pool f(1) by (subst free_chain_cong [of fs mem' mem]) (auto simp: mem')
  have "(if ?next = FREE_LIST_END_CHIRHO then None else Some ?next) = free_head_chirho a"
  proof (cases "free_head_chirho a")
    case (Some head)
    then have "head \<in> set pool" using fs(1) in_pool by (auto dest: free_chain_Some)
    then show ?thesis using Some ok aligned_not_end by (auto simp: pool_ok_def)
  qed simp
  moreover have "mem' f 0 = ?next" by (simp add: mem')
  ultimately have chain: "free_chain mem' (Some f) (f # fs)" using old by (simp only: free_chain.simps)
  have "Suc (length (f # fs)) \<le> 2 ^ 64"
    using ok f in_pool fs(2) by (intro aligned_list_bound) (auto simp: pool_ok_def pool_of_def)
  then have "unat (saturating_add (free_count_chirho a) 1) = length (f # fs)"
    using fs(3) by (simp add: unat_saturating_add)
  then show ?thesis
    using ok f fs(2) chain
    by (auto simp: pool_ok_def a' mem' pool_of_def simp del: free_chain.simps intro!: exI [of _ "f # fs"])
qed

end

text \<open>The hardware's entry format is an instance of the interface.\<close>

definition hw_api :: x86_api where
  "hw_api = \<lparr>entry_is_unused = (\<lambda>e. e = 0), entry_addr = (\<lambda>e. e AND ENTRY_ADDR_MASK),
     entry_flags = (\<lambda>e. e AND NOT ENTRY_ADDR_MASK), entry_set_addr = (\<lambda>a f. a OR f),
     entry_unused = 0, frame_containing = (\<lambda>a. a AND NOT 0xFFF)\<rparr>"

interpretation hw: x86_paging hw_api
proof
  show "frame_containing hw_api a = a" if "page_aligned a" for a
  proof -
    have "(a AND 0xFFF) OR (a AND NOT 0xFFF) = a" by (simp only: flip: bit.conj_disj_distrib) simp
    then show ?thesis using that by (simp add: hw_api_def page_aligned_def)
  qed
qed (simp_all add: hw_api_def)

lemma align_up_aligned: "page_aligned (align_up_chirho a 4096)"
proof -
  have "align_up_chirho a 4096 = (a + 4095) AND NOT (mask 12)"
    by (simp add: align_up_chirho_def mask_eq_exp_minus_1 add.commute)
  then have "unat (align_up_chirho a 4096) = unat (a + 4095) div 2 ^ 12 * 2 ^ 12"
    by (simp only: unat_and_not_mask)
  then show ?thesis by (simp add: page_aligned_unat)
qed

lemma usable_frames_aligned: "f \<in> set (usable_frames_chirho regions) \<Longrightarrow> page_aligned f"
proof -
  have "page_aligned (first + of_nat (4096 * i))" if "page_aligned first" for first and i :: nat
  proof -
    have "unat (w + of_nat m) = (unat w + m) mod 2 ^ 64" for w :: u64 and m
      by (simp add: unat_word_ariths unat_of_nat take_bit_eq_mod mod_add_right_eq)
    then have "unat (first + of_nat (4096 * i)) mod 4096 = (unat first + 4096 * i) mod 2 ^ 64 mod 4096"
      by (simp only:)
    also have "\<dots> = (unat first + 4096 * i) mod 4096"
      by (rule mod_mod_cancel) simp
    finally show ?thesis using that by (simp add: page_aligned_unat)
  qed
  then show "f \<in> set (usable_frames_chirho regions) \<Longrightarrow> ?thesis"
    using align_up_aligned by (auto simp: usable_frames_chirho_def region_frames_chirho_def Let_def)
qed

section \<open>Frames held by the rest of the kernel\<close>

text \<open>The allocator takes over from the boot allocator, which has handed out the first
  \<^verbatim>\<open>n\<close> usable frames.  From then on frames are taken and given back in any order,
  and whoever holds a frame may write anything to it.\<close>

type_synonym pool_state = "phys_mem \<times> GlobalFrameAllocatorChirho \<times> u64 set"

inductive pool_reach :: "x86_api \<Rightarrow> MemoryRegion list \<Rightarrow> nat \<Rightarrow> pool_state \<Rightarrow> bool"
  for X regions n where
  pool_boot: "pool_reach X regions n
     (mem, allocator_new_chirho regions n, set (take n (usable_frames_chirho regions)))"
| pool_take: "pool_reach X regions n (mem, a, H) \<Longrightarrow>
     allocator_allocate_frame X mem a = (a', Some f) \<Longrightarrow> pool_reach X regions n (mem, a', insert f H)"
| pool_empty: "pool_reach X regions n (mem, a, H) \<Longrightarrow>
     allocator_allocate_frame X mem a = (a', None) \<Longrightarrow> pool_reach X regions n (mem, a', H)"
| pool_give: "pool_reach X regions n (mem, a, H) \<Longrightarrow> f \<in> H \<Longrightarrow>
     allocator_deallocate_frame_chirho mem a f = (mem', a') \<Longrightarrow>
     pool_reach X regions n (mem', a', H - {f})"
| pool_write: "pool_reach X regions n (mem, a, H) \<Longrightarrow> f \<in> H \<Longrightarrow>
     pool_reach X regions n (mem(f := words), a, H)"

definition pool_inv :: "MemoryRegion list \<Rightarrow> pool_state \<Rightarrow> bool" where
  "pool_inv regions s \<longleftrightarrow> (case s of (mem, a, H) \<Rightarrow> \<exists>pool. pool_ok mem a pool \<and>
     set pool \<inter> H = {} \<and> set pool \<union> H = set (usable_frames_chirho regions))"

lemma pool_reach_inv:
  assumes "x86_paging X" and "distinct (usable_frames_chirho regions)" and "pool_reach X regions n s"
  shows "pool_inv regions s"
  using assms(3)
proof (induction rule: pool_reach.induct)
  case (pool_boot mem)
  let ?u = "usable_frames_chirho regions"
  have "pool_ok mem (allocator_new_chirho regions n) (drop n ?u)"
    using assms(2) usable_frames_aligned
    by (auto simp: pool_ok_def allocator_new_chirho_def pool_of_def dest: in_set_dropD)
  moreover have "set (drop n ?u) \<inter> set (take n ?u) = {}"
    using assms(2) set_take_disj_set_drop_if_distinct by (metis Int_commute order_refl)
  moreover have "set (drop n ?u) \<union> set (take n ?u) = set ?u"
    by (metis append_take_drop_id set_append sup_commute)
  ultimately show ?case by (auto simp: pool_inv_def)
next
  case (pool_take mem a H a' f)
  then obtain pool where p: "pool_ok mem a pool" "set pool \<inter> H = {}"
    "set pool \<union> H = set (usable_frames_chirho regions)" by (auto simp: pool_inv_def)
  have "Some f = (case pool of [] \<Rightarrow> None | f # _ \<Rightarrow> Some f)" "pool_ok mem a' (tl pool)"
    using x86_paging.allocate_pool [OF assms(1) p(1) pool_take(2)] by auto
  then show ?case using p by (cases pool) (auto simp: pool_inv_def pool_ok_def)
next
  case (pool_empty mem a H a')
  then obtain pool where p: "pool_ok mem a pool" "set pool \<inter> H = {}"
    "set pool \<union> H = set (usable_frames_chirho regions)" by (auto simp: pool_inv_def)
  have "None = (case pool of [] \<Rightarrow> None | f # _ \<Rightarrow> Some f)" "pool_ok mem a' (tl pool)"
    using x86_paging.allocate_pool [OF assms(1) p(1) pool_empty(2)] by auto
  then show ?case using p by (cases pool) (auto simp: pool_inv_def)
next
  case (pool_give mem a H f mem' a')
  then obtain pool where p: "pool_ok mem a pool" "set pool \<inter> H = {}"
    "set pool \<union> H = set (usable_frames_chirho regions)" by (auto simp: pool_inv_def)
  have f: "f \<notin> set pool" "page_aligned f" using p pool_give(2) usable_frames_aligned by blast+
  have "pool_ok mem' a' (f # pool)"
    using x86_paging.deallocate_pool [OF assms(1) p(1) f pool_give(3)] by simp
  then show ?case
    using p pool_give(2) unfolding pool_inv_def by (auto intro!: exI [of _ "f # pool"])
next
  case (pool_write mem a H f words)
  then show ?case by (fastforce simp: pool_inv_def intro: pool_ok_cong)
qed

section \<open>Properties\<close>

text \<open>C9. No frame is handed out twice and none is lost.  In every sequence of
  allocations and deallocations, with holders writing anything to the frames they
  hold (the links of the free list are in the frames), an allocation returns a
  usable frame that nobody holds, and it fails only when every usable frame is
  held; the frames of the boot allocator count as held.\<close>

theorem frame_pool_exact:
  assumes "x86_paging X" and "distinct (usable_frames_chirho regions)"
    and "pool_reach X regions n (mem, a, H)"
  shows "(case snd (allocator_allocate_frame X mem a) of
      Some f \<Rightarrow> f \<in> set (usable_frames_chirho regions) - H
    | None \<Rightarrow> H = set (usable_frames_chirho regions)) \<and>
    H \<subseteq> set (usable_frames_chirho regions) \<and>
    unat (free_count_chirho a) \<le> card (set (usable_frames_chirho regions) - H)"
proof -
  obtain pool where p: "pool_ok mem a pool" "set pool \<inter> H = {}"
    "set pool \<union> H = set (usable_frames_chirho regions)"
    using pool_reach_inv [OF assms] by (auto simp: pool_inv_def)
  have "snd (allocator_allocate_frame X mem a) = (case pool of [] \<Rightarrow> None | f # _ \<Rightarrow> Some f)"
    using x86_paging.allocate_pool [OF assms(1) p(1)] by (metis prod.collapse)
  moreover have "set (usable_frames_chirho regions) - H = set pool" using p(2,3) by blast
  moreover have "unat (free_count_chirho a) \<le> length pool" "distinct pool"
    using p(1) by (auto simp: pool_ok_def pool_of_def)
  ultimately show ?thesis using p(3) by (auto simp: distinct_card split: list.splits)
qed

definition demo_regions :: "MemoryRegion list" where
  "demo_regions =
     [\<lparr>region_start = 0x1800, region_end = 0x4000, region_usable = True\<rparr>,
      \<lparr>region_start = 0x4000, region_end = 0x6000, region_usable = False\<rparr>,
      \<lparr>region_start = 0x8000, region_end = 0xA000, region_usable = True\<rparr>]"

lemma demo_usable: "usable_frames_chirho demo_regions = [0x2000, 0x3000, 0x8000, 0x9000]"
  by (simp add: usable_frames_chirho_def region_frames_chirho_def demo_regions_def align_up_chirho_def
      upt_conv_Cons Let_def)

definition demo_mem :: phys_mem where
  "demo_mem f i = (if f = 0x2000 \<and> i = 0 then - 1 else 7)"

definition demo_alloc :: GlobalFrameAllocatorChirho where
  "demo_alloc = \<lparr>next_frame_index_chirho = 2, memory_regions_chirho = demo_regions,
     free_head_chirho = Some 0x2000, free_count_chirho = 1\<rparr>"

lemma demo_reach: "pool_reach hw_api demo_regions 2 (demo_mem, demo_alloc, {0x3000})"
proof -
  have "pool_reach hw_api demo_regions 2 (\<lambda>_ _. 7, allocator_new_chirho demo_regions 2, {0x2000, 0x3000})"
    using pool_boot [of hw_api demo_regions 2 "\<lambda>_ _. 7"] by (simp add: demo_usable)
  from pool_give [OF this, of "0x2000" demo_mem demo_alloc] show ?thesis
    by (simp add: allocator_deallocate_frame_chirho_def allocator_new_chirho_def demo_mem_def
        demo_alloc_def FREE_LIST_END_CHIRHO_def saturating_add_def fun_eq_iff)
qed

theorem frame_pool_exact_witness:
  "snd (allocator_allocate_frame hw_api demo_mem demo_alloc) = Some 0x2000 \<and>
   (0x2000 :: u64) \<in> set (usable_frames_chirho demo_regions) - {0x3000}"
proof -
  have "snd (allocator_allocate_frame hw_api demo_mem demo_alloc) = Some 0x2000"
    by (simp add: allocator_allocate_frame_def demo_alloc_def Let_def)
  moreover have "distinct (usable_frames_chirho demo_regions)" by (simp add: demo_usable)
  ultimately show ?thesis
    using frame_pool_exact [OF hw.x86_paging_axioms _ demo_reach] by simp
qed

primrec boot_frames :: "nat \<Rightarrow> BootInfoFrameAllocatorChirho \<Rightarrow> u64 option list" where
  "boot_frames 0 a = []"
| "boot_frames (Suc k) a = (case boot_allocate_frame a of (a', f) \<Rightarrow> f # boot_frames k a')"

text \<open>The boot allocator hands out the usable frames in order, so the global allocator
  started at its index takes over exactly the rest.\<close>

lemma boot_frames_nth:
  "boot_frames k a = map (\<lambda>i. get_opt (usable_frames_chirho (boot_memory_regions_chirho a))
     (boot_next_frame_index_chirho a + i)) [0 ..< k]"
proof (induction k arbitrary: a)
  case (Suc k)
  then show ?case
    by (simp add: boot_allocate_frame_def upt_conv_Cons flip: map_Suc_upt del: upt_Suc)
qed simp

end
