(* ===== verification/Page_Table.thy ===== *)
theory Page_Table
  imports Frame_Alloc Frame_Ownership
begin

text \<open>
  Four-level page tables in physical memory: \<^verbatim>\<open>mm_chirho/pagetable_chirho.rs\<close> and the
  ownership wrappers of \<^verbatim>\<open>mm_chirho/address_space_chirho.rs\<close>.  Page-table flags are the
  words the crate's \<^verbatim>\<open>PageTableFlags::bits\<close> gives; translation caches are not part of the
  model, so the flush instructions of the code have no counterpart.

  The view of an address space is the function \<^verbatim>\<open>leaf\<close> from the four table indices of
  an address to the entry its walk ends in, over the tables the space owns
  (\<^verbatim>\<open>owned\<close>: those reached through user-accessible entries of the lower half).
\<close>

section \<open>Entries\<close>

definition PT_PAGE_SIZE_CHIRHO :: u64 where "PT_PAGE_SIZE_CHIRHO = 4096"
definition ENTRIES_PER_TABLE_CHIRHO :: nat where "ENTRIES_PER_TABLE_CHIRHO = 512"
definition KERNEL_PML4_START_CHIRHO :: nat where "KERNEL_PML4_START_CHIRHO = 256"
definition COW_BIT_CHIRHO :: u64 where "COW_BIT_CHIRHO = push_bit 9 1"

definition PTE_PRESENT :: u64 where "PTE_PRESENT = 1"
definition PTE_WRITABLE :: u64 where "PTE_WRITABLE = 2"
definition PTE_USER :: u64 where "PTE_USER = 4"
definition PTE_HUGE :: u64 where "PTE_HUGE = 0x80"
definition PTE_BIT_9 :: u64 where "PTE_BIT_9 = 0x200"

lemmas pt_consts = PT_PAGE_SIZE_CHIRHO_def ENTRIES_PER_TABLE_CHIRHO_def KERNEL_PML4_START_CHIRHO_def
  COW_BIT_CHIRHO_def PTE_PRESENT_def PTE_WRITABLE_def PTE_USER_def PTE_HUGE_def PTE_BIT_9_def

definition flags_contain :: "u64 \<Rightarrow> u64 \<Rightarrow> bool" where
  "flags_contain flags b \<longleftrightarrow> flags AND b = b"

definition pt_entry_addr_chirho :: "u64 \<Rightarrow> u64" where
  "pt_entry_addr_chirho e = e AND 0x000FFFFFFFFFF000"

definition pt_entry_is_present_chirho :: "u64 \<Rightarrow> bool" where
  "pt_entry_is_present_chirho e \<longleftrightarrow> e AND 1 \<noteq> 0"

definition pt_entry_is_huge_chirho :: "u64 \<Rightarrow> bool" where
  "pt_entry_is_huge_chirho e \<longleftrightarrow> e AND push_bit 7 1 \<noteq> 0"

section \<open>The memory-management globals\<close>

record phys_state =
  ps_mem :: phys_mem
  GLOBAL_FRAME_ALLOCATOR_CHIRHO :: "GlobalFrameAllocatorChirho option"
  LEAF_FRAME_OWNERSHIP_CHIRHO :: "LeafFrameOwnershipChirho option"
  ps_cr3 :: u64
  BOOT_PML4_PHYS_CHIRHO :: u64
  MODULE_ARENA_PML4_ENTRY_CHIRHO :: u64
  GLOBAL_MAPPER_ROOT_PHYS_CHIRHO :: u64

definition read_pt_entry_chirho :: "u64 \<Rightarrow> nat \<Rightarrow> phys_state \<Rightarrow> u64" where
  "read_pt_entry_chirho p i s = ps_mem s p i"

definition write_pt_entry_chirho :: "u64 \<Rightarrow> nat \<Rightarrow> u64 \<Rightarrow> phys_state \<Rightarrow> phys_state" where
  "write_pt_entry_chirho p i v s = s\<lparr>ps_mem := (ps_mem s)(p := (ps_mem s p)(i := v))\<rparr>"

definition alloc_frame_chirho :: "x86_api \<Rightarrow> phys_state \<Rightarrow> phys_state \<times> u64 option" where
  "alloc_frame_chirho X s =
     (case GLOBAL_FRAME_ALLOCATOR_CHIRHO s of
        None \<Rightarrow> (s, None)
      | Some a \<Rightarrow> (case allocator_allocate_frame X (ps_mem s) a of (a', f) \<Rightarrow>
          (s\<lparr>GLOBAL_FRAME_ALLOCATOR_CHIRHO := Some a'\<rparr>, f)))"

definition deallocate_frame_chirho :: "u64 \<Rightarrow> phys_state \<Rightarrow> phys_state" where
  "deallocate_frame_chirho f s =
     (case GLOBAL_FRAME_ALLOCATOR_CHIRHO s of
        None \<Rightarrow> s
      | Some a \<Rightarrow> (case allocator_deallocate_frame_chirho (ps_mem s) a f of (mem', a') \<Rightarrow>
          s\<lparr>ps_mem := mem', GLOBAL_FRAME_ALLOCATOR_CHIRHO := Some a'\<rparr>))"

definition zero_frame_chirho :: "u64 \<Rightarrow> phys_state \<Rightarrow> phys_state" where
  "zero_frame_chirho f s = s\<lparr>ps_mem := (ps_mem s)(f := (\<lambda>_. 0))\<rparr>"

definition copy_frame :: "u64 \<Rightarrow> u64 \<Rightarrow> phys_state \<Rightarrow> phys_state" where
  "copy_frame src dst s = s\<lparr>ps_mem := (ps_mem s)(dst := ps_mem s src)\<rparr>"

section \<open>Leaf ownership\<close>

definition physical_frame_number_chirho :: "u64 \<Rightarrow> usize" where
  "physical_frame_number_chirho p = p div PT_PAGE_SIZE_CHIRHO"

definition retain_leaf_mapping_chirho :: "u64 \<Rightarrow> phys_state \<Rightarrow> phys_state \<times> retain_result" where
  "retain_leaf_mapping_chirho p s =
     (case LEAF_FRAME_OWNERSHIP_CHIRHO s of
        None \<Rightarrow> (s, Inr RetainUnmanagedChirho)
      | Some t \<Rightarrow> (case retain_mapping_chirho t (physical_frame_number_chirho p) of (t', r) \<Rightarrow>
          (s\<lparr>LEAF_FRAME_OWNERSHIP_CHIRHO := Some t'\<rparr>, r)))"

definition release_leaf_mapping_chirho :: "u64 \<Rightarrow> phys_state \<Rightarrow> phys_state \<times> release_result" where
  "release_leaf_mapping_chirho p s =
     (case LEAF_FRAME_OWNERSHIP_CHIRHO s of
        None \<Rightarrow> (s, Inr ReleaseUnmanagedChirho)
      | Some t \<Rightarrow> (case release_mapping_chirho t (physical_frame_number_chirho p) of (t', r) \<Rightarrow>
          (s\<lparr>LEAF_FRAME_OWNERSHIP_CHIRHO := Some t'\<rparr>, r)))"

definition leaf_mapping_count_chirho :: "u64 \<Rightarrow> phys_state \<Rightarrow> u32 option" where
  "leaf_mapping_count_chirho p s =
     (case LEAF_FRAME_OWNERSHIP_CHIRHO s of
        None \<Rightarrow> None
      | Some t \<Rightarrow> mapping_count_chirho t (physical_frame_number_chirho p))"

definition frame_is_managed_chirho :: "u64 \<Rightarrow> phys_state \<Rightarrow> bool" where
  "frame_is_managed_chirho p s \<longleftrightarrow> leaf_mapping_count_chirho p s \<noteq> None"

section \<open>Walking\<close>

definition pml4_index :: "u64 \<Rightarrow> nat" where "pml4_index va = unat (drop_bit 39 va AND 0x1FF)"
definition pdpt_index :: "u64 \<Rightarrow> nat" where "pdpt_index va = unat (drop_bit 30 va AND 0x1FF)"
definition pd_index :: "u64 \<Rightarrow> nat" where "pd_index va = unat (drop_bit 21 va AND 0x1FF)"
definition pt_index :: "u64 \<Rightarrow> nat" where "pt_index va = unat (drop_bit 12 va AND 0x1FF)"

text \<open>The result is a pointer to the entry: its table and index.\<close>

definition walk_page_table_chirho :: "x86_api \<Rightarrow> u64 \<Rightarrow> u64 \<Rightarrow> phys_state \<Rightarrow> (u64 \<times> nat) option" where
  "walk_page_table_chirho X pml4 va s =
     (let pml4_raw = read_pt_entry_chirho pml4 (pml4_index va) s in
      if \<not> pt_entry_is_present_chirho pml4_raw then None
      else let pdpt_raw = read_pt_entry_chirho (pt_entry_addr_chirho pml4_raw) (pdpt_index va) s in
      if \<not> pt_entry_is_present_chirho pdpt_raw then None
      else if pt_entry_is_huge_chirho pdpt_raw then None
      else let pd_raw = read_pt_entry_chirho (pt_entry_addr_chirho pdpt_raw) (pd_index va) s in
      if \<not> pt_entry_is_present_chirho pd_raw then None
      else if pt_entry_is_huge_chirho pd_raw then None
      else let pt = pt_entry_addr_chirho pd_raw in
      if entry_is_unused X (read_pt_entry_chirho pt (pt_index va) s) then None
      else Some (pt, pt_index va))"

definition lookup_in_pt_chirho :: "x86_api \<Rightarrow> u64 \<Rightarrow> u64 \<Rightarrow> phys_state \<Rightarrow> (u64 \<times> u64) option" where
  "lookup_in_pt_chirho X pml4 va s =
     (case walk_page_table_chirho X pml4 va s of
        None \<Rightarrow> None
      | Some (p, i) \<Rightarrow>
          (let e = ps_mem s p i in
           if entry_is_unused X e then None else Some (entry_addr X e, entry_flags X e)))"

definition lookup_in_boot_pt_chirho :: "x86_api \<Rightarrow> u64 \<Rightarrow> phys_state \<Rightarrow> (u64 \<times> u64) option" where
  "lookup_in_boot_pt_chirho X va s =
     (if BOOT_PML4_PHYS_CHIRHO s = 0 then None
      else lookup_in_pt_chirho X (BOOT_PML4_PHYS_CHIRHO s) va s)"

text \<open>The loop of \<^verbatim>\<open>virt_to_phys_chirho\<close> over the levels 0 (PML4) to 3 (PT).\<close>

fun virt_to_phys_loop :: "phys_state \<Rightarrow> u64 \<Rightarrow> u64 \<Rightarrow> nat \<Rightarrow> nat list \<Rightarrow> u64 option" where
  "virt_to_phys_loop s va tbl level [] = None"
| "virt_to_phys_loop s va tbl level (i # is) =
     (let raw = read_pt_entry_chirho tbl i s; phys = pt_entry_addr_chirho raw in
      if \<not> pt_entry_is_present_chirho raw then None
      else if pt_entry_is_huge_chirho raw \<and> level = 1 then Some (phys + (va AND 0x3FFFFFFF))
      else if pt_entry_is_huge_chirho raw \<and> level = 2 then Some (phys + (va AND 0x1FFFFF))
      else if level = 3 then Some (phys + (va AND 0xFFF))
      else virt_to_phys_loop s va phys (level + 1) is)"

definition virt_to_phys_chirho :: "u64 \<Rightarrow> phys_state \<Rightarrow> u64 option" where
  "virt_to_phys_chirho va s =
     virt_to_phys_loop s va (ps_cr3 s) 0 [pml4_index va, pdpt_index va, pd_index va, pt_index va]"

section \<open>Mapping a page\<close>

datatype PageMapErrorChirho =
    UnalignedVirtualAddressChirho | UnalignedPhysicalAddressChirho | UserAddressOutOfRangeChirho
  | NonPresentIntermediateChirho | HugeIntermediateChirho | IntermediateFrameExhaustedChirho
  | LeafRetainChirho FrameRetainErrorChirho | ReplacedLeafReleaseChirho FrameReleaseErrorChirho
  | RollbackLeafReleaseChirho FrameReleaseErrorChirho | OwnershipClassChangeChirho

text \<open>One of the three \<^emph>\<open>ensure the next table exists\<close> blocks; the flag tells whether
  the block checks for huge pages, which the one for the PML4 does not.  The
  result says whether a table was allocated.\<close>

definition ensure_table ::
  "x86_api \<Rightarrow> bool \<Rightarrow> u64 \<Rightarrow> nat \<Rightarrow> u64 \<Rightarrow> phys_state \<Rightarrow> phys_state \<times> (PageMapErrorChirho + bool)" where
  "ensure_table X check_huge p i flags s =
     (if entry_is_unused X (ps_mem s p i)
      then (case alloc_frame_chirho X s of
              (s1, None) \<Rightarrow> (s1, Inl IntermediateFrameExhaustedChirho)
            | (s1, Some f) \<Rightarrow>
                (write_pt_entry_chirho p i (entry_set_addr X f flags) (zero_frame_chirho f s1), Inr True))
      else (let existing = entry_flags X (ps_mem s p i) in
        if check_huge \<and> flags_contain existing PTE_HUGE then (s, Inl HugeIntermediateChirho)
        else if \<not> flags_contain existing PTE_PRESENT then (s, Inl NonPresentIntermediateChirho)
        else (s, Inr False)))"

definition rollback_new_mapping_tables_chirho ::
  "x86_api \<Rightarrow> u64 \<Rightarrow> nat \<Rightarrow> nat \<Rightarrow> nat \<Rightarrow> bool \<Rightarrow> bool \<Rightarrow> bool \<Rightarrow> phys_state \<Rightarrow> phys_state" where
  "rollback_new_mapping_tables_chirho X pml4 i4 i3 i2 new_pdpt new_pd new_pt s =
     (let pdpt = entry_addr X (ps_mem s pml4 i4);
          s1 = (if new_pt
                then let pd = entry_addr X (ps_mem s pdpt i3);
                         pt = entry_addr X (ps_mem s pd i2)
                     in deallocate_frame_chirho (frame_containing X pt)
                          (write_pt_entry_chirho pd i2 (entry_unused X) s)
                else s);
          s2 = (if new_pd
                then let pd = entry_addr X (ps_mem s1 pdpt i3)
                     in deallocate_frame_chirho (frame_containing X pd)
                          (write_pt_entry_chirho pdpt i3 (entry_unused X) s1)
                else s1)
      in if new_pdpt
         then deallocate_frame_chirho (frame_containing X pdpt)
                (write_pt_entry_chirho pml4 i4 (entry_unused X) s2)
         else s2)"

definition add_user_flag :: "x86_api \<Rightarrow> u64 \<Rightarrow> nat \<Rightarrow> phys_state \<Rightarrow> phys_state" where
  "add_user_flag X p i s =
     (let e = ps_mem s p i in
      if \<not> flags_contain (entry_flags X e) PTE_USER
      then write_pt_entry_chirho p i (entry_set_addr X (entry_addr X e) (entry_flags X e OR PTE_USER)) s
      else s)"

text \<open>Level 1: publish the retained leaf, then retire any displaced leaf.  \<^verbatim>\<open>rollback\<close> is
  the call of \<^verbatim>\<open>rollback_new_mapping_tables_chirho\<close> with the tables allocated so far.\<close>

definition publish_leaf ::
  "x86_api \<Rightarrow> (phys_state \<Rightarrow> phys_state) \<Rightarrow> u64 \<Rightarrow> nat \<Rightarrow> u64 \<Rightarrow> u64 \<Rightarrow> phys_state \<Rightarrow>
   phys_state \<times> (PageMapErrorChirho + unit)" where
  "publish_leaf X rollback pt i pa flags s =
     (let old = ps_mem s pt i; old_phys = entry_addr X old; old_flags = entry_flags X old;
          old_owned = (\<not> entry_is_unused X old \<and> flags_contain old_flags PTE_USER);
          new_owned = flags_contain flags PTE_USER
      in if old_owned \<and> \<not> new_owned \<and> old_phys = pa
         then (rollback s, Inl OwnershipClassChangeChirho)
         else case (if new_owned then retain_leaf_mapping_chirho pa s else (s, Inr RetainUnmanagedChirho)) of
           (s1, Inl e) \<Rightarrow> (rollback s1, Inl (LeafRetainChirho e))
         | (s1, Inr retained) \<Rightarrow>
             (let s2 = write_pt_entry_chirho pt i (entry_set_addr X pa flags) s1 in
              if \<not> old_owned then (s2, Inr ())
              else case release_leaf_mapping_chirho old_phys s2 of
                (s3, Inl e) \<Rightarrow>
                  (let s4 = write_pt_entry_chirho pt i (entry_set_addr X old_phys old_flags) s3 in
                   if retained \<noteq> RetainUnmanagedChirho
                   then (case release_leaf_mapping_chirho pa s4 of
                           (s5, Inl e') \<Rightarrow> (s5, Inl (RollbackLeafReleaseChirho e'))
                         | (s5, Inr _) \<Rightarrow> (rollback s5, Inl (ReplacedLeafReleaseChirho e)))
                   else (rollback s4, Inl (ReplacedLeafReleaseChirho e)))
              | (s3, Inr released) \<Rightarrow>
                  (if released = LastReferenceChirho
                   then deallocate_frame_chirho (frame_containing X old_phys) (zero_frame_chirho old_phys s3)
                   else s3, Inr ())))"

definition map_in_tables ::
  "x86_api \<Rightarrow> u64 \<Rightarrow> nat \<Rightarrow> nat \<Rightarrow> nat \<Rightarrow> nat \<Rightarrow> u64 \<Rightarrow> u64 \<Rightarrow> phys_state \<Rightarrow>
   phys_state \<times> (PageMapErrorChirho + unit)" where
  "map_in_tables X pml4 i4 i3 i2 i1 pa flags s =
     (let user = flags_contain flags PTE_USER;
          iflags = (PTE_PRESENT OR PTE_WRITABLE) OR (if user then PTE_USER else 0);
          rollback = rollback_new_mapping_tables_chirho X pml4 i4 i3 i2
      in case ensure_table X False pml4 i4 iflags s of
        (s1, Inl e) \<Rightarrow> (s1, Inl e)
      | (s1, Inr new_pdpt) \<Rightarrow>
        (let pdpt = entry_addr X (ps_mem s1 pml4 i4) in
         case ensure_table X True pdpt i3 iflags s1 of
           (s2, Inl e) \<Rightarrow> (rollback new_pdpt False False s2, Inl e)
         | (s2, Inr new_pd) \<Rightarrow>
           (let pd = entry_addr X (ps_mem s2 pdpt i3) in
            case ensure_table X True pd i2 iflags s2 of
              (s3, Inl e) \<Rightarrow> (rollback new_pdpt new_pd False s3, Inl e)
            | (s3, Inr new_pt) \<Rightarrow>
              (let pt = entry_addr X (ps_mem s3 pd i2) in
               case publish_leaf X (rollback new_pdpt new_pd new_pt) pt i1 pa flags s3 of
                 (s4, Inl e) \<Rightarrow> (s4, Inl e)
               | (s4, Inr _) \<Rightarrow>
                   (if user
                    then add_user_flag X pd i2 (add_user_flag X pdpt i3 (add_user_flag X pml4 i4 s4))
                    else s4, Inr ())))))"

definition map_page_in_pt_chirho ::
  "x86_api \<Rightarrow> u64 \<Rightarrow> u64 \<Rightarrow> u64 \<Rightarrow> u64 \<Rightarrow> phys_state \<Rightarrow> phys_state \<times> (PageMapErrorChirho + unit)" where
  "map_page_in_pt_chirho X pml4 va pa flags s =
     (if va AND (PT_PAGE_SIZE_CHIRHO - 1) \<noteq> 0 then (s, Inl UnalignedVirtualAddressChirho)
      else if pa AND (PT_PAGE_SIZE_CHIRHO - 1) \<noteq> 0 then (s, Inl UnalignedPhysicalAddressChirho)
      else if flags_contain flags PTE_USER \<and> pml4_index va \<ge> KERNEL_PML4_START_CHIRHO
        then (s, Inl UserAddressOutOfRangeChirho)
      else map_in_tables X pml4 (pml4_index va) (pdpt_index va) (pd_index va) (pt_index va) pa flags s)"

section \<open>Unmapping, demand pages, copy on write\<close>

datatype UserPageUnmapOutcomeChirho =
    NotMappedChirho | NotUserMappingChirho | UnmanagedMappingChirho
  | UnmapStillReferencedChirho u32 | FrameFreedChirho

datatype UserPageUnmapErrorChirho = UnmapLeafReleaseChirho FrameReleaseErrorChirho

definition unmap_user_page_chirho ::
  "x86_api \<Rightarrow> u64 \<Rightarrow> u64 \<Rightarrow> phys_state \<Rightarrow>
   phys_state \<times> (UserPageUnmapErrorChirho + UserPageUnmapOutcomeChirho)" where
  "unmap_user_page_chirho X pml4 va s =
     (case walk_page_table_chirho X pml4 va s of
        None \<Rightarrow> (s, Inr NotMappedChirho)
      | Some (pt, i) \<Rightarrow>
          (let e = ps_mem s pt i; flags = entry_flags X e; phys = entry_addr X e in
           if \<not> flags_contain flags PTE_USER then (s, Inr NotUserMappingChirho)
           else case release_leaf_mapping_chirho phys (write_pt_entry_chirho pt i (entry_unused X) s) of
             (s1, Inl err) \<Rightarrow>
               (write_pt_entry_chirho pt i (entry_set_addr X phys flags) s1, Inl (UnmapLeafReleaseChirho err))
           | (s1, Inr ReleaseUnmanagedChirho) \<Rightarrow> (s1, Inr UnmanagedMappingChirho)
           | (s1, Inr (StillReferencedChirho n)) \<Rightarrow> (s1, Inr (UnmapStillReferencedChirho n))
           | (s1, Inr LastReferenceChirho) \<Rightarrow>
               (deallocate_frame_chirho (frame_containing X phys) (zero_frame_chirho phys s1),
                Inr FrameFreedChirho)))"

datatype DemandPageMapErrorChirho =
    AllocatorBusyChirho | AllocatorNotInitializedChirho | LeafFrameExhaustedChirho
  | PageTableFrameExhaustedChirho

text \<open>\<^verbatim>\<open>free\<close> is the outcome of \<^verbatim>\<open>try_lock\<close> on the allocator.\<close>

definition map_zeroed_demand_page_chirho ::
  "x86_api \<Rightarrow> bool \<Rightarrow> u64 \<Rightarrow> u64 \<Rightarrow> u64 \<Rightarrow> phys_state \<Rightarrow> phys_state \<times> (DemandPageMapErrorChirho + u64)" where
  "map_zeroed_demand_page_chirho X free pml4 va flags s =
     (if \<not> free then (s, Inl AllocatorBusyChirho)
      else if GLOBAL_FRAME_ALLOCATOR_CHIRHO s = None then (s, Inl AllocatorNotInitializedChirho)
      else case alloc_frame_chirho X s of
        (s1, None) \<Rightarrow> (s1, Inl LeafFrameExhaustedChirho)
      | (s1, Some f) \<Rightarrow>
          (case map_page_in_pt_chirho X pml4 va f flags (zero_frame_chirho f s1) of
             (s2, Inl _) \<Rightarrow> (deallocate_frame_chirho f s2, Inl PageTableFrameExhaustedChirho)
           | (s2, Inr _) \<Rightarrow> (s2, Inr f)))"

definition cow_resolved_flags :: "u64 \<Rightarrow> u64" where
  "cow_resolved_flags flags = (flags OR PTE_WRITABLE) AND NOT PTE_BIT_9"

text \<open>The part of the handler that gives the page a frame of its own.\<close>

definition cow_copy_page ::
  "x86_api \<Rightarrow> u64 \<Rightarrow> nat \<Rightarrow> u64 \<Rightarrow> u64 \<Rightarrow> phys_state \<Rightarrow> phys_state \<times> bool" where
  "cow_copy_page X pt i old flags s =
     (case alloc_frame_chirho X s of
        (s1, None) \<Rightarrow> (s1, False)
      | (s1, Some f) \<Rightarrow>
          (case retain_leaf_mapping_chirho f (copy_frame old f s1) of
             (s2, Inr (ManagedChirho _)) \<Rightarrow>
               (case release_leaf_mapping_chirho old
                       (write_pt_entry_chirho pt i (entry_set_addr X f (cow_resolved_flags flags)) s2) of
                  (s3, Inl _) \<Rightarrow>
                    (case release_leaf_mapping_chirho f
                            (write_pt_entry_chirho pt i (entry_set_addr X old flags) s3) of
                       (s4, Inr LastReferenceChirho) \<Rightarrow> (deallocate_frame_chirho f s4, False)
                     | (s4, _) \<Rightarrow> (s4, False))
                | (s3, Inr released) \<Rightarrow>
                    (if released = LastReferenceChirho
                     then deallocate_frame_chirho (frame_containing X old) s3 else s3, True))
           | (s2, _) \<Rightarrow> (deallocate_frame_chirho f s2, False)))"

definition handle_cow_fault_chirho :: "x86_api \<Rightarrow> bool \<Rightarrow> u64 \<Rightarrow> phys_state \<Rightarrow> phys_state \<times> bool" where
  "handle_cow_fault_chirho X free va s =
     (case walk_page_table_chirho X (ps_cr3 s) va s of
        None \<Rightarrow> (s, False)
      | Some (pt, i) \<Rightarrow>
          (let e = ps_mem s pt i; flags = entry_flags X e; old = entry_addr X e
           in if flags AND COW_BIT_CHIRHO = 0 then (s, False)
              else case leaf_mapping_count_chirho old s of
                None \<Rightarrow> (s, False)
              | Some n \<Rightarrow>
                  if n = 1
                  then (write_pt_entry_chirho pt i (entry_set_addr X old (cow_resolved_flags flags)) s, True)
                  else if n = 0 then (s, False)
                  else if \<not> free then (s, False)
                  else cow_copy_page X pt i old flags s))"

end
