(* ===== verification/Page_View.thy ===== *)
theory Page_View
  imports Page_Table
begin

text \<open>
  The view of an address space and how writes to tables change it.  A table at
  level \<^verbatim>\<open>k\<close> has \<^verbatim>\<open>k\<close> levels of tables below it; \<^verbatim>\<open>n\<close> is the number of its entries that
  belong to the space (256 for the root, 512 below).  \<^verbatim>\<open>owned\<close> lists the tables,
  \<^verbatim>\<open>slot\<close> finds the final entry of an index path and \<^verbatim>\<open>leaf\<close> reads it.  The relation
  \<^verbatim>\<open>tree_upd\<close> says that a change of memory changes the view at one path only and
  stays within the tables of the space and a set of fresh frames.
\<close>

section \<open>Trees of tables\<close>

definition is_user :: "u64 \<Rightarrow> bool" where
  "is_user e \<longleftrightarrow> bit e 2"

lemma user_nonzero: "is_user e \<Longrightarrow> e \<noteq> 0"
  by (auto simp: is_user_def)

fun owned :: "phys_mem \<Rightarrow> nat \<Rightarrow> nat \<Rightarrow> u64 \<Rightarrow> u64 list" where
  "owned m 0 n p = [p]"
| "owned m (Suc k) n p = p # concat (map (\<lambda>i. if is_user (m p i)
     then owned m k 512 (pt_entry_addr_chirho (m p i)) else []) [0 ..< n])"

fun wf_tree :: "phys_mem \<Rightarrow> nat \<Rightarrow> nat \<Rightarrow> u64 \<Rightarrow> bool" where
  "wf_tree m 0 n p \<longleftrightarrow> True"
| "wf_tree m (Suc k) n p \<longleftrightarrow> (\<forall>i<n. is_user (m p i) \<longrightarrow>
     pt_entry_is_present_chirho (m p i) \<and> \<not> pt_entry_is_huge_chirho (m p i) \<and>
     wf_tree m k 512 (pt_entry_addr_chirho (m p i)))"

fun slot :: "phys_mem \<Rightarrow> nat \<Rightarrow> nat \<Rightarrow> u64 \<Rightarrow> nat list \<Rightarrow> (u64 \<times> nat) option" where
  "slot m 0 n p [i] = (if i < n then Some (p, i) else None)"
| "slot m (Suc k) n p (i # is) = (if i < n \<and> is_user (m p i)
     then slot m k 512 (pt_entry_addr_chirho (m p i)) is else None)"
| "slot m k n p is = None"

definition leaf :: "phys_mem \<Rightarrow> nat \<Rightarrow> nat \<Rightarrow> u64 \<Rightarrow> nat list \<Rightarrow> u64" where
  "leaf m k n p is = (case slot m k n p is of None \<Rightarrow> 0 | Some (q, i) \<Rightarrow> m q i)"

lemma leaf_simps [simp]:
  "leaf m k n p [] = 0"
  "leaf m 0 n p [i] = (if i < n then m p i else 0)"
  "leaf m 0 n p (i # j # is) = 0"
  "leaf m (Suc k) n p (i # is) = (if i < n \<and> is_user (m p i)
     then leaf m k 512 (pt_entry_addr_chirho (m p i)) is else 0)"
  by (simp_all add: leaf_def)

lemma distinct_concat_upt:
  "distinct (concat (map g [0 ..< n])) \<longleftrightarrow>
   (\<forall>j<n. distinct (g j)) \<and> (\<forall>j<n. \<forall>l<n. j \<noteq> l \<longrightarrow> set (g j) \<inter> set (g l) = {})"
proof (induction n)
  case (Suc n)
  have "distinct (concat (map g [0 ..< Suc n])) \<longleftrightarrow> distinct (concat (map g [0 ..< n])) \<and>
      distinct (g n) \<and> (\<forall>j<n. set (g j) \<inter> set (g n) = {})"
    by (fastforce simp: disjoint_iff)
  with Suc show ?case by (metis (no_types, lifting) Int_commute less_Suc_eq less_irrefl)
qed simp

abbreviation child_of :: "phys_mem \<Rightarrow> u64 \<Rightarrow> nat \<Rightarrow> u64" where
  "child_of m p i \<equiv> pt_entry_addr_chirho (m p i)"

definition below :: "phys_mem \<Rightarrow> nat \<Rightarrow> u64 \<Rightarrow> nat \<Rightarrow> u64 list" where
  "below m k p i = (if is_user (m p i) then owned m k 512 (child_of m p i) else [])"

lemma owned_Suc: "owned m (Suc k) n p = p # concat (map (below m k p) [0 ..< n])"
  unfolding owned.simps below_def [abs_def] by (rule refl)

declare owned.simps(2) [simp del]

lemma distinct_owned_Suc:
  "distinct (owned m (Suc k) n p) \<longleftrightarrow>
   (\<forall>j<n. p \<notin> set (below m k p j) \<and> distinct (below m k p j)) \<and>
   (\<forall>j<n. \<forall>l<n. j \<noteq> l \<longrightarrow> set (below m k p j) \<inter> set (below m k p l) = {})"
  unfolding owned_Suc by (auto simp: distinct_concat_upt)

lemma in_owned_Suc: "q \<in> set (owned m (Suc k) n p) \<longleftrightarrow> q = p \<or> (\<exists>j<n. q \<in> set (below m k p j))"
  unfolding owned_Suc by auto

lemma owned_child: "i < n \<Longrightarrow> is_user (m p i) \<Longrightarrow> q \<in> set (owned m k 512 (child_of m p i)) \<Longrightarrow>
    q \<in> set (owned m (Suc k) n p)"
  by (auto simp: in_owned_Suc below_def)

lemma owned_root [simp]: "p \<in> set (owned m k n p)"
  by (cases k) (simp_all add: in_owned_Suc)

lemma tree_cong:
  assumes "\<And>q. q \<in> set (owned m k n p) \<Longrightarrow> m' q = m q"
  shows "owned m' k n p = owned m k n p" "wf_tree m' k n p = wf_tree m k n p"
    "slot m' k n p is = slot m k n p is" "leaf m' k n p is = leaf m k n p is"
proof -
  have "owned m' k n p = owned m k n p \<and> wf_tree m' k n p = wf_tree m k n p \<and>
    (\<forall>is. slot m' k n p is = slot m k n p is \<and> leaf m' k n p is = leaf m k n p is)"
    using assms
  proof (induction k arbitrary: n p)
    case 0
    then have "m' p = m p" by simp
    then have "slot m' 0 n p is = slot m 0 n p is \<and> leaf m' 0 n p is = leaf m 0 n p is" for "is"
      by (cases "is"; cases "tl is") (auto simp: leaf_def)
    then show ?case by simp
  next
    case (Suc k)
    have p: "m' p = m p" using Suc.prems by simp
    have sub: "m' q = m q" if "i < n" "is_user (m p i)" "q \<in> set (owned m k 512 (child_of m p i))" for i q
      using Suc.prems owned_child [OF that] by blast
    have child: "owned m' k 512 (pt_entry_addr_chirho (m p i)) = owned m k 512 (pt_entry_addr_chirho (m p i))"
      "wf_tree m' k 512 (pt_entry_addr_chirho (m p i)) = wf_tree m k 512 (pt_entry_addr_chirho (m p i))"
      "slot m' k 512 (pt_entry_addr_chirho (m p i)) is = slot m k 512 (pt_entry_addr_chirho (m p i)) is"
      "leaf m' k 512 (pt_entry_addr_chirho (m p i)) is = leaf m k 512 (pt_entry_addr_chirho (m p i)) is"
      if "i < n" "is_user (m p i)" for i "is"
      using Suc.IH [of 512 "child_of m p i"] sub [OF that] by auto
    have "slot m' (Suc k) n p is = slot m (Suc k) n p is \<and> leaf m' (Suc k) n p is = leaf m (Suc k) n p is" for "is"
      using child p by (cases "is") auto
    moreover have "owned m' (Suc k) n p = owned m (Suc k) n p"
      using child(1) p unfolding owned_Suc
      by (auto simp: below_def intro!: arg_cong [of _ _ concat])
    moreover have "wf_tree m' (Suc k) n p = wf_tree m (Suc k) n p" using child p by auto
    ultimately show ?case by blast
  qed
  then show "owned m' k n p = owned m k n p" "wf_tree m' k n p = wf_tree m k n p"
    "slot m' k n p is = slot m k n p is" "leaf m' k n p is = leaf m k n p is" by auto
qed

section \<open>Local changes\<close>

definition tree_upd ::
  "phys_mem \<Rightarrow> nat \<Rightarrow> nat \<Rightarrow> u64 \<Rightarrow> u64 set \<Rightarrow> phys_mem \<Rightarrow> nat list \<Rightarrow> u64 \<Rightarrow> bool" where
  "tree_upd m k n p F m' is v \<longleftrightarrow>
     wf_tree m' k n p \<and> distinct (owned m' k n p) \<and>
     set (owned m' k n p) = set (owned m k n p) \<union> F \<and>
     (\<forall>q. q \<notin> set (owned m k n p) \<union> F \<longrightarrow> m' q = m q) \<and>
     (\<forall>js. leaf m' k n p js = (if js = is then v else leaf m k n p js))"

lemma tree_upd_lift:
  assumes wf: "wf_tree m (Suc k) n p" and dist: "distinct (owned m (Suc k) n p)"
    and i: "i < n" "is_user (m p i)"
    and u: "tree_upd m k 512 (child_of m p i) F m' is v"
    and F: "F \<inter> set (owned m (Suc k) n p) = {}"
  shows "tree_upd m (Suc k) n p F m' (i # is) v"
proof -
  let ?c = "child_of m p i"
  have d: "p \<notin> set (below m k p j)" "distinct (below m k p j)"
    "j \<noteq> l \<Longrightarrow> l < n \<Longrightarrow> set (below m k p j) \<inter> set (below m k p l) = {}" if "j < n" for j l
    using dist that unfolding distinct_owned_Suc by auto
  have bi: "below m k p i = owned m k 512 ?c" using i(2) by (simp add: below_def)
  have same: "m' q = m q" if "q \<notin> set (below m k p i)" "q \<notin> F" for q
    using u that unfolding tree_upd_def bi by blast
  have F': "q \<notin> F" if "q = p \<or> (\<exists>j<n. q \<in> set (below m k p j))" for q
    using F that in_owned_Suc [of q m k n p] by blast
  have p: "m' p = m p" using same [OF d(1) [OF i(1)]] F' by blast
  have off: "m' q = m q" if "q \<in> set (below m k p j)" "j < n" "j \<noteq> i" for q j
    using same [of q] d(3) [of j i] that i(1) F' by blast
  have other: "below m' k p j = below m k p j" "is_user (m p j) \<Longrightarrow> wf_tree m' k 512 (child_of m p j) = wf_tree m k 512 (child_of m p j)"
    "is_user (m p j) \<Longrightarrow> leaf m' k 512 (child_of m p j) js = leaf m k 512 (child_of m p j) js"
    if "j < n" "j \<noteq> i" for j js
    using tree_cong [of m k 512 "child_of m p j" m'] off [OF _ that] p by (auto simp: below_def)
  have bi': "below m' k p i = owned m' k 512 ?c" using i(2) p by (simp add: below_def)
  have sub: "set (below m k p i) \<subseteq> set (below m' k p i)" "set (below m' k p i) \<subseteq> set (below m k p i) \<union> F"
    and dist': "distinct (below m' k p i)"
    using u unfolding tree_upd_def bi bi' by auto
  have disj: "set (below m' k p i) \<inter> set (below m k p j) = {}" if "j < n" "j \<noteq> i" for j
    using sub(2) d(3) [of i j] F' that i(1) by blast
  have all: "below m' k p j = (if j = i then below m' k p i else below m k p j)" if "j < n" for j
    using other(1) that by auto
  have pi: "p \<notin> set (below m' k p i)" using sub(2) d(1) [OF i(1)] F' by blast
  have "p \<notin> set (below m' k p j) \<and> distinct (below m' k p j)" if "j < n" for j
    using all [OF that] pi d(1,2) [OF that] dist' by (cases "j = i") simp_all
  moreover have "set (below m' k p j) \<inter> set (below m' k p l) = {}" if "j < n" "l < n" "j \<noteq> l" for j l
    using all [OF that(1)] all [OF that(2)] disj [OF that(1)] disj [OF that(2)] d(3) [OF that(1,3,2)] that(3)
    by (cases "j = i"; cases "l = i") (simp_all add: Int_commute)
  ultimately have "distinct (owned m' (Suc k) n p)" unfolding distinct_owned_Suc by blast
  moreover have "set (owned m' (Suc k) n p) = set (owned m (Suc k) n p) \<union> F"
  proof (rule set_eqI)
    have "set (below m' k p i) = set (below m k p i) \<union> F" using u unfolding tree_upd_def bi bi' by blast
    then show "q \<in> set (owned m' (Suc k) n p) \<longleftrightarrow> q \<in> set (owned m (Suc k) n p) \<union> F" for q
      using all i(1) unfolding in_owned_Suc Un_iff by (metis Un_iff)
  qed
  moreover have "wf_tree m' (Suc k) n p"
    using wf other(2) u p unfolding wf_tree.simps tree_upd_def by metis
  moreover have "m' q = m q" if "q \<notin> set (owned m (Suc k) n p) \<union> F" for q
    using same that i(1) by (auto simp: in_owned_Suc)
  moreover have "leaf m' (Suc k) n p js = (if js = i # is then v else leaf m (Suc k) n p js)" for js
  proof (cases js)
    case (Cons a js')
    have "leaf m' k 512 ?c js' = (if js' = is then v else leaf m k 512 ?c js')"
      using u by (simp add: tree_upd_def)
    then show ?thesis using i p other(3) [of a js'] Cons by (cases "a = i") auto
  qed simp
  ultimately show ?thesis unfolding tree_upd_def by blast
qed

text \<open>A fresh zeroed table below an unused entry: the view does not change.\<close>

lemma zero_table [simp]:
  assumes "\<And>i. m f i = 0"
  shows "owned m k n f = [f]" "wf_tree m k n f" "leaf m k n f is = 0"
proof -
  have no: "\<not> is_user (m f i)" for i using assms by (simp add: is_user_def)
  show "owned m k n f = [f]" by (cases k) (auto simp: owned_Suc below_def no)
  show "wf_tree m k n f" by (cases k) (auto simp: no)
  show "leaf m k n f is = 0" using no assms by (cases k; cases "is"; cases "tl is") auto
qed

lemma tree_upd_new_child:
  assumes wf: "wf_tree m (Suc k) n p" and dist: "distinct (owned m (Suc k) n p)"
    and i: "i < n" "m p i = 0" and f: "f \<notin> set (owned m (Suc k) n p)"
    and e: "is_user e" "pt_entry_is_present_chirho e" "\<not> pt_entry_is_huge_chirho e" "pt_entry_addr_chirho e = f"
    and m': "m' = (m(f := (\<lambda>_. 0)))(p := (m p)(i := e))"
  shows "tree_upd m (Suc k) n p {f} m' is (leaf m (Suc k) n p is)"
proof -
  have fp: "f \<noteq> p" using f by (auto simp: in_owned_Suc)
  have zero: "m' f j = 0" for j using fp by (simp add: m')
  have d: "p \<notin> set (below m k p j)" "f \<notin> set (below m k p j)" "distinct (below m k p j)" if "j < n" for j
    using dist f that unfolding distinct_owned_Suc in_owned_Suc by auto
  have row: "m' p j = (if j = i then e else m p j)" for j by (simp add: m')
  have off: "m' q = m q" if "q \<in> set (below m k p j)" "j < n" for q j
    using d(1,2) [OF that(2)] that(1) by (auto simp: m')
  have other: "below m' k p j = below m k p j"
    "is_user (m p j) \<Longrightarrow> wf_tree m' k 512 (child_of m p j) = wf_tree m k 512 (child_of m p j)"
    "is_user (m p j) \<Longrightarrow> leaf m' k 512 (child_of m p j) js = leaf m k 512 (child_of m p j) js"
    if "j < n" "j \<noteq> i" for j js
    using tree_cong [of m k 512 "child_of m p j" m'] off [OF _ that(1)] that(2) by (auto simp: below_def row)
  have new: "below m' k p i = [f]" "below m k p i = []"
    using e i zero by (simp_all add: below_def row is_user_def)
  have all: "below m' k p j = (if j = i then [f] else below m k p j)" if "j < n" for j
    using other(1) new that by auto
  have "p \<notin> set (below m' k p j) \<and> distinct (below m' k p j)" if "j < n" for j
    using all [OF that] d [OF that] fp by auto
  moreover have "set (below m' k p j) \<inter> set (below m' k p l) = {}" if "j < n" "l < n" "j \<noteq> l" for j l
    using all [OF that(1)] all [OF that(2)] d(2) that dist unfolding distinct_owned_Suc by auto
  ultimately have "distinct (owned m' (Suc k) n p)" unfolding distinct_owned_Suc by blast
  moreover have "set (owned m' (Suc k) n p) = set (owned m (Suc k) n p) \<union> {f}"
  proof (rule set_eqI)
    show "q \<in> set (owned m' (Suc k) n p) \<longleftrightarrow> q \<in> set (owned m (Suc k) n p) \<union> {f}" for q
      using all new(2) i(1) unfolding in_owned_Suc Un_iff by (metis empty_iff list.set singleton_iff)
  qed
  moreover have "wf_tree m' (Suc k) n p"
    using wf other(2) e zero by (auto simp: row)
  moreover have "m' q = m q" if "q \<notin> set (owned m (Suc k) n p) \<union> {f}" for q
    using that by (auto simp: m' in_owned_Suc)
  moreover have "leaf m' (Suc k) n p js = leaf m (Suc k) n p js" for js
    using other(3) e i zero by (cases js) (auto simp: row is_user_def)
  ultimately show ?thesis unfolding tree_upd_def by simp
qed

text \<open>Writing the final entry of a path.\<close>

lemma slot_owned: "slot m k n p is = Some (q, i) \<Longrightarrow> q \<in> set (owned m k n p)"
proof (induction m k n p "is" rule: slot.induct)
  case (2 m k n p i "is")
  then show ?case by (auto split: if_splits intro: owned_child)
qed (auto split: if_splits)

lemma tree_upd_slot:
  assumes "slot m k n p is = Some (q, i)" and "wf_tree m k n p" and "distinct (owned m k n p)"
  shows "tree_upd m k n p {} (m(q := (m q)(i := v))) is v"
  using assms
proof (induction k arbitrary: n p "is")
  case 0
  then have path: "is = [i]" "q = p" "i < n"
    by (cases "is"; cases "tl is"; auto split: if_splits)+
  have "leaf (m(p := (m p)(i := v))) 0 n p js = (if js = [i] then v else leaf m 0 n p js)" for js
    using path(3) by (cases js; cases "tl js") auto
  then show ?case unfolding tree_upd_def path by (intro conjI allI impI) (simp_all only:, simp_all)
next
  case (Suc k)
  then obtain j js where j: "is = j # js" "j < n" "is_user (m p j)"
    "slot m k 512 (child_of m p j) js = Some (q, i)"
    by (cases "is") (auto split: if_splits)
  have "wf_tree m k 512 (child_of m p j)" using Suc.prems(2) j by simp
  moreover have "distinct (owned m k 512 (child_of m p j))"
    using Suc.prems(3) j(2,3) unfolding distinct_owned_Suc by (auto simp: below_def)
  ultimately show ?case
    using tree_upd_lift [OF Suc.prems(2,3) j(2,3) Suc.IH [OF j(4)]] by (simp add: j(1))
qed

lemma tree_upd_trans:
  assumes "tree_upd m k n p F m1 is v1" and "tree_upd m1 k n p G m2 is v2"
  shows "tree_upd m k n p (F \<union> G) m2 is v2"
  using assms unfolding tree_upd_def by (simp add: Un_assoc)

lemma tree_upd_refl: "wf_tree m k n p \<Longrightarrow> distinct (owned m k n p) \<Longrightarrow> tree_upd m k n p {} m is (leaf m k n p is)"
  by (simp add: tree_upd_def)

lemma slot_Suc:
  "i < n \<Longrightarrow> is_user (m p i) \<Longrightarrow> slot m (Suc k) n p (i # is) = slot m k 512 (child_of m p i) is"
  by simp

end
