(* ===== verification/Page_Map.thy ===== *)
theory Page_Map
  imports Page_View
begin

text \<open>
  What mapping, unmapping and copy-on-write faults do to an address space, to the
  mapping counts of the frames and to the frame allocator.
\<close>

section \<open>Entries in the hardware format\<close>

lemma and_power: "e AND 2 ^ n = (if bit (e :: u64) n then 2 ^ n else 0)"
  by (rule bit_eqI) (auto simp: bit_simps)

lemma flag_bits_hw:
  "flags_contain f PTE_PRESENT = bit f 0" "flags_contain f PTE_WRITABLE = bit f 1"
  "flags_contain f PTE_USER = bit f 2" "flags_contain f PTE_HUGE = bit f 7"
  "flags_contain f PTE_BIT_9 = bit f 9"
  "pt_entry_is_present_chirho f = bit f 0" "pt_entry_is_huge_chirho f = bit f 7"
  "(f AND COW_BIT_CHIRHO \<noteq> 0) = bit f 9"
  using and_power [of f 0] and_power [of f 1] and_power [of f 2] and_power [of f 7] and_power [of f 9]
  by (simp_all add: flags_contain_def pt_consts pt_entry_is_present_chirho_def pt_entry_is_huge_chirho_def
      push_bit_eq_mult split: if_splits)

lemma bit_addr_mask: "bit ENTRY_ADDR_MASK n \<longleftrightarrow> 12 \<le> n \<and> n < 52"
proof -
  have e: "ENTRY_ADDR_MASK = push_bit 12 (mask 40)"
    by (simp add: ENTRY_ADDR_MASK_def mask_eq_exp_minus_1 push_bit_eq_mult)
  show ?thesis unfolding e by (auto simp: bit_simps)
qed

lemma pt_addr_mask: "pt_entry_addr_chirho e = e AND ENTRY_ADDR_MASK"
  by (simp add: pt_entry_addr_chirho_def ENTRY_ADDR_MASK_def)

lemma frame_ok_addr [simp]: "frame_ok (pt_entry_addr_chirho e)"
  by (simp add: pt_addr_mask frame_ok_def and.assoc)

lemma frame_ok_or:
  assumes "frame_ok a" and "flags_ok f"
  shows "pt_entry_addr_chirho (a OR f) = a" and "n < 12 \<Longrightarrow> bit (a OR f) n = bit f n"
proof -
  show "pt_entry_addr_chirho (a OR f) = a"
    using assms by (simp add: pt_addr_mask bit.conj_disj_distrib2 frame_ok_def flags_ok_def)
  have "\<not> bit (a AND ENTRY_ADDR_MASK) n" if "n < 12" using that by (simp add: bit_simps bit_addr_mask)
  then have "\<not> bit a n" if "n < 12" using that assms(1) by (simp add: frame_ok_def)
  then show "n < 12 \<Longrightarrow> bit (a OR f) n = bit f n" by (simp add: bit_simps)
qed

definition table_flags :: u64 where "table_flags = (PTE_PRESENT OR PTE_WRITABLE) OR PTE_USER"

lemma table_flags_ok [simp]: "flags_ok table_flags"
  by (simp add: flags_ok_def table_flags_def pt_consts ENTRY_ADDR_MASK_def)

context x86_paging
begin

lemma api_hw [simp]:
  "entry_addr X e = pt_entry_addr_chirho e" "entry_is_unused X e = (e = 0)" "entry_unused X = 0"
  "frame_ok a \<Longrightarrow> flags_ok f \<Longrightarrow> entry_set_addr X a f = a OR f"
  "frame_ok a \<Longrightarrow> frame_containing X a = a"
  by (simp_all add: addr_bits pt_addr_mask is_unused_zero unused_zero set_addr_bits containing_aligned
      frame_ok_aligned)

lemma api_flags:
  "n < 12 \<Longrightarrow> bit (entry_flags X e) n = bit e n" "pt_entry_addr_chirho e OR entry_flags X e = e"
  "flags_ok (entry_flags X e)"
proof -
  show "n < 12 \<Longrightarrow> bit (entry_flags X e) n = bit e n" by (simp add: flag_bits bit_simps bit_addr_mask)
  show "pt_entry_addr_chirho e OR entry_flags X e = e"
    by (simp add: flag_bits pt_addr_mask flip: bit.conj_disj_distrib)
  show "flags_ok (entry_flags X e)" by (rule entry_flags_ok)
qed

end

lemma new_table_entry:
  assumes "frame_ok f"
  shows "is_user (f OR table_flags)" "pt_entry_is_present_chirho (f OR table_flags)"
    "\<not> pt_entry_is_huge_chirho (f OR table_flags)" "pt_entry_addr_chirho (f OR table_flags) = f"
    "f OR table_flags \<noteq> 0"
proof -
  have b: "bit table_flags 0" "bit table_flags 2" "\<not> bit table_flags 7"
    by (simp_all add: table_flags_def pt_consts)
  note o = frame_ok_or [OF assms table_flags_ok]
  show "is_user (f OR table_flags)" "pt_entry_is_present_chirho (f OR table_flags)"
    "\<not> pt_entry_is_huge_chirho (f OR table_flags)" "pt_entry_addr_chirho (f OR table_flags) = f"
    using o b by (simp_all add: is_user_def flag_bits_hw)
  show "f OR table_flags \<noteq> 0" using o(2) [of 0] b(1) by auto
qed

section \<open>Allocator and counts\<close>

definition alloc_pool :: "phys_state \<Rightarrow> u64 list \<Rightarrow> bool" where
  "alloc_pool s pool \<longleftrightarrow> (\<forall>f\<in>set pool. frame_ok f) \<and>
     (\<exists>a. GLOBAL_FRAME_ALLOCATOR_CHIRHO s = Some a \<and> pool_ok (ps_mem s) a pool)"

text \<open>The registers and globals that page-table operations only read.\<close>

definition regs :: "phys_state \<Rightarrow> u64 \<times> u64 \<times> u64 \<times> u64" where
  "regs s = (ps_cr3 s, BOOT_PML4_PHYS_CHIRHO s, MODULE_ARENA_PML4_ENTRY_CHIRHO s,
     GLOBAL_MAPPER_ROOT_PHYS_CHIRHO s)"

definition frame_count :: "phys_state \<Rightarrow> usize \<Rightarrow> u32 option" where
  "frame_count s n = (case LEAF_FRAME_OWNERSHIP_CHIRHO s of None \<Rightarrow> None | Some t \<Rightarrow> mapping_count_chirho t n)"

lemma leaf_count_eq: "leaf_mapping_count_chirho p s = frame_count s (physical_frame_number_chirho p)"
  by (simp add: leaf_mapping_count_chirho_def frame_count_def)

lemma frame_count_managed:
  assumes "frame_count s f = Some n" shows "n + 1 \<noteq> 0"
proof -
  have "n \<noteq> - 1" using assms
    by (auto simp: frame_count_def mapping_count_chirho_def UNMANAGED_FRAME_COUNT_CHIRHO_def
        split: option.splits if_splits)
  then show ?thesis using eq_neg_iff_add_eq_0 [of n 1] by simp
qed

lemma frame_number_inject:
  assumes "frame_ok a" "frame_ok b" shows "physical_frame_number_chirho a = physical_frame_number_chirho b \<longleftrightarrow> a = b"
proof -
  have "unat (physical_frame_number_chirho a) * 4096 = unat a" if "frame_ok a" for a
    using frame_ok_aligned [OF that]
    by (simp add: physical_frame_number_chirho_def pt_consts page_aligned_unat unat_div mod_eq_0_iff_dvd)
  then show ?thesis using assms by (metis word_unat_eq_iff)
qed

lemma alloc_pool_distinct: "alloc_pool s pool \<Longrightarrow> distinct pool"
  by (auto simp: alloc_pool_def pool_ok_def)

lemma alloc_pool_mem:
  "alloc_pool s pool \<Longrightarrow> GLOBAL_FRAME_ALLOCATOR_CHIRHO s' = GLOBAL_FRAME_ALLOCATOR_CHIRHO s \<Longrightarrow>
   (\<And>f. f \<in> set pool \<Longrightarrow> ps_mem s' f = ps_mem s f) \<Longrightarrow> alloc_pool s' pool"
  unfolding alloc_pool_def by (metis pool_ok_cong)

lemma retain_leaf_spec:
  assumes "retain_leaf_mapping_chirho p s = (s', r)"
  shows "ps_mem s' = ps_mem s" "GLOBAL_FRAME_ALLOCATOR_CHIRHO s' = GLOBAL_FRAME_ALLOCATOR_CHIRHO s" "regs s' = regs s"
    and "case frame_count s (physical_frame_number_chirho p) of
      None \<Rightarrow> r = Inr RetainUnmanagedChirho \<and> frame_count s' = frame_count s
    | Some n \<Rightarrow> if n = MAX_MANAGED_FRAME_COUNT_CHIRHO
        then r = Inl (RetainOverflowChirho (physical_frame_number_chirho p)) \<and> frame_count s' = frame_count s
        else r = Inr (ManagedChirho (n + 1)) \<and>
          frame_count s' = (frame_count s)(physical_frame_number_chirho p \<mapsto> n + 1)"
proof -
  show "ps_mem s' = ps_mem s" "GLOBAL_FRAME_ALLOCATOR_CHIRHO s' = GLOBAL_FRAME_ALLOCATOR_CHIRHO s" "regs s' = regs s"
    using assms by (auto simp: retain_leaf_mapping_chirho_def regs_def split: option.splits prod.splits)
  show "case frame_count s (physical_frame_number_chirho p) of
      None \<Rightarrow> r = Inr RetainUnmanagedChirho \<and> frame_count s' = frame_count s
    | Some n \<Rightarrow> if n = MAX_MANAGED_FRAME_COUNT_CHIRHO
        then r = Inl (RetainOverflowChirho (physical_frame_number_chirho p)) \<and> frame_count s' = frame_count s
        else r = Inr (ManagedChirho (n + 1)) \<and>
          frame_count s' = (frame_count s)(physical_frame_number_chirho p \<mapsto> n + 1)"
  proof (cases "LEAF_FRAME_OWNERSHIP_CHIRHO s")
    case None
    then show ?thesis using assms by (auto simp: retain_leaf_mapping_chirho_def frame_count_def)
  next
    case (Some t)
    let ?f = "physical_frame_number_chirho p"
    have s': "r = snd (retain_mapping_chirho t ?f)" "frame_count s' = mapping_count_chirho (fst (retain_mapping_chirho t ?f))"
      "frame_count s = mapping_count_chirho t"
      using assms Some by (auto simp: retain_leaf_mapping_chirho_def frame_count_def fun_eq_iff split: prod.splits)
    show ?thesis
      unfolding s' using retain_mapping_cases [of t ?f]
    proof (elim disjE exE conjE, goal_cases)
      case (2 n)
      then show ?case by (cases "n = MAX_MANAGED_FRAME_COUNT_CHIRHO") (simp_all add: fun_eq_iff)
    qed (simp add: fun_eq_iff)
  qed
qed

lemma release_leaf_spec:
  assumes "release_leaf_mapping_chirho p s = (s', r)"
  shows "ps_mem s' = ps_mem s" "GLOBAL_FRAME_ALLOCATOR_CHIRHO s' = GLOBAL_FRAME_ALLOCATOR_CHIRHO s" "regs s' = regs s"
    and "case frame_count s (physical_frame_number_chirho p) of
      None \<Rightarrow> r = Inr ReleaseUnmanagedChirho \<and> frame_count s' = frame_count s
    | Some n \<Rightarrow> if n = 0
        then r = Inl (ReleaseUnderflowChirho (physical_frame_number_chirho p)) \<and> frame_count s' = frame_count s
        else r = Inr (if n = 1 then LastReferenceChirho else StillReferencedChirho (n - 1)) \<and>
          frame_count s' = (frame_count s)(physical_frame_number_chirho p \<mapsto> n - 1)"
proof -
  show "ps_mem s' = ps_mem s" "GLOBAL_FRAME_ALLOCATOR_CHIRHO s' = GLOBAL_FRAME_ALLOCATOR_CHIRHO s" "regs s' = regs s"
    using assms by (auto simp: release_leaf_mapping_chirho_def regs_def split: option.splits prod.splits)
  show "case frame_count s (physical_frame_number_chirho p) of
      None \<Rightarrow> r = Inr ReleaseUnmanagedChirho \<and> frame_count s' = frame_count s
    | Some n \<Rightarrow> if n = 0
        then r = Inl (ReleaseUnderflowChirho (physical_frame_number_chirho p)) \<and> frame_count s' = frame_count s
        else r = Inr (if n = 1 then LastReferenceChirho else StillReferencedChirho (n - 1)) \<and>
          frame_count s' = (frame_count s)(physical_frame_number_chirho p \<mapsto> n - 1)"
  proof (cases "LEAF_FRAME_OWNERSHIP_CHIRHO s")
    case None
    then show ?thesis using assms by (auto simp: release_leaf_mapping_chirho_def frame_count_def)
  next
    case (Some t)
    let ?f = "physical_frame_number_chirho p"
    have s': "r = snd (release_mapping_chirho t ?f)" "frame_count s' = mapping_count_chirho (fst (release_mapping_chirho t ?f))"
      "frame_count s = mapping_count_chirho t"
      using assms Some by (auto simp: release_leaf_mapping_chirho_def frame_count_def fun_eq_iff split: prod.splits)
    show ?thesis
      unfolding s' using release_mapping_cases [of t ?f]
    proof (elim disjE exE conjE, goal_cases)
      case (2 n)
      then show ?case by (cases "n = 0") (simp_all add: fun_eq_iff)
    qed (simp add: fun_eq_iff)
  qed
qed

section \<open>Undoing allocations\<close>

text \<open>Memory off the pool, the pool, the counts and the registers are those of \<^verbatim>\<open>s\<close>.\<close>

definition restored :: "u64 list \<Rightarrow> phys_state \<Rightarrow> phys_state \<Rightarrow> bool" where
  "restored pool s s' \<longleftrightarrow> (\<forall>q. q \<notin> set pool \<longrightarrow> ps_mem s' q = ps_mem s q) \<and> alloc_pool s' pool \<and>
     frame_count s' = frame_count s \<and> regs s' = regs s"

lemma restored_refl: "alloc_pool s pool \<Longrightarrow> restored pool s s"
  by (simp add: restored_def regs_def)

lemma restored_trans: "restored pool s s1 \<Longrightarrow> restored pool s1 s2 \<Longrightarrow> restored pool s s2"
  by (simp add: restored_def regs_def)

lemma write_entry_fields [simp]:
  "ps_mem (write_pt_entry_chirho p i v s) = (ps_mem s)(p := (ps_mem s p)(i := v))"
  "GLOBAL_FRAME_ALLOCATOR_CHIRHO (write_pt_entry_chirho p i v s) = GLOBAL_FRAME_ALLOCATOR_CHIRHO s"
  "frame_count (write_pt_entry_chirho p i v s) = frame_count s"
  "regs (write_pt_entry_chirho p i v s) = regs s"
  "ps_mem (zero_frame_chirho f s) = (ps_mem s)(f := (\<lambda>_. 0))"
  "GLOBAL_FRAME_ALLOCATOR_CHIRHO (zero_frame_chirho f s) = GLOBAL_FRAME_ALLOCATOR_CHIRHO s"
  "frame_count (zero_frame_chirho f s) = frame_count s"
  "regs (zero_frame_chirho f s) = regs s"
  "ps_mem (copy_frame g f s) = (ps_mem s)(f := ps_mem s g)"
  "GLOBAL_FRAME_ALLOCATOR_CHIRHO (copy_frame g f s) = GLOBAL_FRAME_ALLOCATOR_CHIRHO s"
  "frame_count (copy_frame g f s) = frame_count s"
  "regs (copy_frame g f s) = regs s"
  by (simp_all add: write_pt_entry_chirho_def zero_frame_chirho_def copy_frame_def regs_def
      frame_count_def fun_eq_iff)

lemma alloc_pool_write [intro]:
  "alloc_pool s pool \<Longrightarrow> p \<notin> set pool \<Longrightarrow> alloc_pool (write_pt_entry_chirho p i v s) pool"
  "alloc_pool s pool \<Longrightarrow> p \<notin> set pool \<Longrightarrow> alloc_pool (zero_frame_chirho p s) pool"
  "alloc_pool s pool \<Longrightarrow> p \<notin> set pool \<Longrightarrow> alloc_pool (copy_frame g p s) pool"
  by (erule alloc_pool_mem; auto)+

context x86_paging
begin

lemma alloc_frame_spec:
  assumes "alloc_pool s pool" and "alloc_frame_chirho X s = (s1, r)"
  shows "r = (case pool of [] \<Rightarrow> None | f # _ \<Rightarrow> Some f)" "alloc_pool s1 (tl pool)"
    "ps_mem s1 = ps_mem s" "frame_count s1 = frame_count s" "regs s1 = regs s"
proof -
  obtain a where a: "GLOBAL_FRAME_ALLOCATOR_CHIRHO s = Some a" "pool_ok (ps_mem s) a pool"
    and f: "\<forall>f\<in>set pool. frame_ok f"
    using assms(1) by (auto simp: alloc_pool_def)
  obtain a' where a': "allocator_allocate_frame X (ps_mem s) a = (a', r)"
    and s1: "s1 = s\<lparr>GLOBAL_FRAME_ALLOCATOR_CHIRHO := Some a'\<rparr>"
    using assms(2) a(1) by (auto simp: alloc_frame_chirho_def split: prod.splits)
  note p = allocate_pool [OF a(2) a']
  show "r = (case pool of [] \<Rightarrow> None | f # _ \<Rightarrow> Some f)" using p by blast
  show "alloc_pool s1 (tl pool)" using p f s1 by (cases pool) (auto simp: alloc_pool_def)
  show "ps_mem s1 = ps_mem s" "frame_count s1 = frame_count s" "regs s1 = regs s"
    by (simp_all add: s1 regs_def frame_count_def fun_eq_iff)
qed

lemma deallocate_frame_spec:
  assumes "alloc_pool s pool" and "f \<notin> set pool" and "frame_ok f"
  shows "alloc_pool (deallocate_frame_chirho f s) (f # pool)"
    "g \<noteq> f \<Longrightarrow> ps_mem (deallocate_frame_chirho f s) g = ps_mem s g"
    "frame_count (deallocate_frame_chirho f s) = frame_count s" "regs (deallocate_frame_chirho f s) = regs s"
proof -
  obtain a where a: "GLOBAL_FRAME_ALLOCATOR_CHIRHO s = Some a" "pool_ok (ps_mem s) a pool"
    and ok: "\<forall>f\<in>set pool. frame_ok f"
    using assms(1) by (auto simp: alloc_pool_def)
  obtain m' a' where d: "allocator_deallocate_frame_chirho (ps_mem s) a f = (m', a')"
    by (cases "allocator_deallocate_frame_chirho (ps_mem s) a f")
  have s': "deallocate_frame_chirho f s = s\<lparr>ps_mem := m', GLOBAL_FRAME_ALLOCATOR_CHIRHO := Some a'\<rparr>"
    using a(1) d by (simp add: deallocate_frame_chirho_def)
  note p = deallocate_pool [OF a(2) assms(2) frame_ok_aligned [OF assms(3)] d]
  show "alloc_pool (deallocate_frame_chirho f s) (f # pool)"
    using p ok assms(3) by (simp add: s' alloc_pool_def)
  show "g \<noteq> f \<Longrightarrow> ps_mem (deallocate_frame_chirho f s) g = ps_mem s g" using p by (simp add: s')
  show "frame_count (deallocate_frame_chirho f s) = frame_count s" "regs (deallocate_frame_chirho f s) = regs s"
    by (simp_all add: s' regs_def frame_count_def fun_eq_iff)
qed

text \<open>The three outcomes of a block that ensures a table.\<close>

lemma ensure_table_cases:
  assumes "ensure_table X chk p i flags s = (s1, r)" and "alloc_pool s pool" and "p \<notin> set pool" and "flags_ok flags"
  obtains (error) e where "r = Inl e" "restored pool s s1"
  | (present) "r = Inr False" "s1 = s" "ps_mem s p i \<noteq> 0" "pt_entry_is_present_chirho (ps_mem s p i)"
      "chk \<longrightarrow> \<not> pt_entry_is_huge_chirho (ps_mem s p i)"
  | (allocated) f where "r = Inr True" "pool = f # tl pool" "ps_mem s p i = 0" "frame_ok f"
      "alloc_pool s1 (tl pool)" "ps_mem s1 = ((ps_mem s)(f := (\<lambda>_. 0)))(p := (ps_mem s p)(i := f OR flags))"
      "frame_count s1 = frame_count s" "regs s1 = regs s"
proof (cases "ps_mem s p i = 0")
  case False
  then show ?thesis
    using assms restored_refl [OF assms(2)] api_flags(1) [of _ "ps_mem s p i"]
    by (auto simp: ensure_table_def flag_bits_hw Let_def split: if_splits intro: error present)
next
  case zero: True
  obtain s2 f1 where a: "alloc_frame_chirho X s = (s2, f1)" by (cases "alloc_frame_chirho X s")
  note al = alloc_frame_spec [OF assms(2) a]
  show ?thesis
  proof (cases pool)
    case Nil
    then have "restored pool s s1 \<and> r = Inl IntermediateFrameExhaustedChirho"
      using assms(1) zero a al by (auto simp: ensure_table_def restored_def)
    then show ?thesis using error by blast
  next
    case (Cons f rest)
    then have s1: "s1 = write_pt_entry_chirho p i (f OR flags) (zero_frame_chirho f s2)" "r = Inr True"
      using assms zero a al(1) by (auto simp: ensure_table_def alloc_pool_def)
    have "frame_ok f" "f \<notin> set rest" "p \<noteq> f" "p \<notin> set rest"
      using assms(2,3) Cons by (auto simp: alloc_pool_def pool_ok_def)
    moreover have "alloc_pool s1 rest"
      unfolding s1 using al(2) Cons calculation by (intro alloc_pool_write) simp_all
    ultimately show ?thesis
      using s1 zero al Cons by (intro allocated [of f]) (simp_all)
  qed
qed

text \<open>One of the three blocks of \<^verbatim>\<open>rollback_new_mapping_tables_chirho\<close>.\<close>

definition undo_table :: "u64 \<Rightarrow> nat \<Rightarrow> bool \<Rightarrow> phys_state \<Rightarrow> phys_state" where
  "undo_table p i allocated s =
     (if allocated then deallocate_frame_chirho (frame_containing X (entry_addr X (ps_mem s p i)))
        (write_pt_entry_chirho p i (entry_unused X) s) else s)"

lemma undo_restores:
  assumes e: "ensure_table X chk p i flags s = (s1, Inr a)" and pool: "alloc_pool s pool" "p \<notin> set pool"
    and flags: "flags_ok flags" and t: "restored (if a then tl pool else pool) s1 t"
  shows "restored pool s (undo_table p i a t)"
proof -
  show ?thesis using e pool flags
  proof (cases rule: ensure_table_cases)
    case present
    then show ?thesis using t by (simp add: undo_table_def)
  next
    case (allocated f)
    have t1: "\<And>q. q \<notin> set (tl pool) \<Longrightarrow> ps_mem t q = ps_mem s1 q" "alloc_pool t (tl pool)"
      "frame_count t = frame_count s1" "regs t = regs s1"
      using t allocated(1) by (auto simp: restored_def)
    have fp: "f \<noteq> p" "f \<notin> set (tl pool)" "p \<notin> set (tl pool)"
      using pool allocated(2) alloc_pool_distinct [OF pool(1)] by (metis distinct.simps(2) list.set_intros)+
    have tp: "ps_mem t p = (ps_mem s p)(i := f OR flags)" using t1(1) [OF fp(3)] allocated(6) by simp
    let ?t = "write_pt_entry_chirho p i 0 t"
    have u: "undo_table p i a t = deallocate_frame_chirho f ?t"
      using allocated(1,4) flags tp frame_ok_or(1) [OF allocated(4) flags]
      by (simp add: undo_table_def)
    have pt: "alloc_pool ?t (tl pool)" using t1(2) fp(3) by blast
    note d = deallocate_frame_spec [OF pt fp(2) allocated(4)]
    have "ps_mem (undo_table p i a t) q = ps_mem s q" if "q \<notin> set pool" for q
    proof -
      have q: "q \<noteq> f" "q \<notin> set (tl pool)" using that allocated(2) by (metis list.set_intros)+
      have "ps_mem (undo_table p i a t) q = ps_mem ?t q" unfolding u by (rule d(2) [OF q(1)])
      also have "\<dots> = ps_mem s q"
        using t1(1) [OF q(2)] q(1) tp allocated(3,6) by (cases "q = p") (auto simp: fun_eq_iff)
      finally show ?thesis .
    qed
    moreover have "alloc_pool (undo_table p i a t) pool" using d(1) allocated(2) by (simp add: u)
    moreover have "frame_count (undo_table p i a t) = frame_count s" using d(3) t1(3) allocated(7) by (simp add: u)
    moreover have "regs (undo_table p i a t) = regs s"
      using d(4) t1(4) allocated(8) by (simp add: u)
    ultimately show ?thesis by (simp add: restored_def)
  qed simp
qed

lemma rollback_undo:
  assumes "pdpt = entry_addr X (ps_mem s pml4 i4)" and "pd = entry_addr X (ps_mem s pdpt i3)"
    and "t = undo_table pdpt i3 new_pd (undo_table pd i2 new_pt s)"
    and "ps_mem t pml4 i4 = ps_mem s pml4 i4"
  shows "rollback_new_mapping_tables_chirho X pml4 i4 i3 i2 new_pdpt new_pd new_pt s =
    undo_table pml4 i4 new_pdpt t"
  using assms by (simp add: rollback_new_mapping_tables_chirho_def undo_table_def Let_def)

end

section \<open>A failed mapping changes nothing\<close>

text \<open>The tables on the path of an address, as far as they exist, are not frames the
  allocator could hand out.\<close>

fun path_clear :: "phys_mem \<Rightarrow> u64 set \<Rightarrow> nat list \<Rightarrow> u64 \<Rightarrow> bool" where
  "path_clear m P [] p \<longleftrightarrow> True"
| "path_clear m P [i] p \<longleftrightarrow> p \<notin> P"
| "path_clear m P (i # j # is) p \<longleftrightarrow> p \<notin> P \<and> (m p i \<noteq> 0 \<longrightarrow> path_clear m P (j # is) (child_of m p i))"

definition page_path :: "u64 \<Rightarrow> nat list" where
  "page_path va = [pml4_index va, pdpt_index va, pd_index va, pt_index va]"

lemma not_in_tl: "x \<notin> set xs \<Longrightarrow> x \<notin> set (tl xs)"
  by (cases xs) auto

lemma path_clear_root: "path_clear m P (i # is) p \<Longrightarrow> p \<notin> P"
  by (cases "is") auto

context x86_paging
begin

lemma ensure_table_clear:
  assumes e: "ensure_table X chk p i flags s = (s1, Inr a)" and pool: "alloc_pool s pool"
    and clear: "path_clear (ps_mem s) (set pool) (i # j # js) p" and flags: "flags_ok flags"
  shows "alloc_pool s1 (if a then tl pool else pool)" "p \<notin> set (if a then tl pool else pool)"
    "path_clear (ps_mem s1) (set (if a then tl pool else pool)) (j # js) (entry_addr X (ps_mem s1 p i))"
proof -
  have p: "p \<notin> set pool" using clear by simp
  have "alloc_pool s1 (if a then tl pool else pool) \<and> p \<notin> set (if a then tl pool else pool) \<and>
    path_clear (ps_mem s1) (set (if a then tl pool else pool)) (j # js) (entry_addr X (ps_mem s1 p i))"
    using e pool p flags
  proof (cases rule: ensure_table_cases)
    case present
    then show ?thesis using clear pool p by simp
  next
    case (allocated f)
    have fp: "f \<noteq> p" "f \<notin> set (tl pool)" "p \<notin> set (tl pool)"
      using p allocated(2) alloc_pool_distinct [OF pool] by (metis distinct.simps(2) list.set_intros)+
    have "entry_addr X (ps_mem s1 p i) = f"
      using allocated(6) frame_ok_or(1) [OF allocated(4) flags] by simp
    moreover have "path_clear (ps_mem s1) (set (tl pool)) (j # js) f"
      using fp allocated(6) by (cases js) simp_all
    ultimately show ?thesis using allocated fp by simp
  qed simp
  then show "alloc_pool s1 (if a then tl pool else pool)" "p \<notin> set (if a then tl pool else pool)"
    "path_clear (ps_mem s1) (set (if a then tl pool else pool)) (j # js) (entry_addr X (ps_mem s1 p i))"
    by blast+
qed

lemma restored_write_back:
  assumes "alloc_pool s pool" "pt \<notin> set pool" "ps_mem t = ps_mem s" "frame_count t = frame_count s"
    "regs t = regs s" "GLOBAL_FRAME_ALLOCATOR_CHIRHO t = GLOBAL_FRAME_ALLOCATOR_CHIRHO s"
  shows "restored pool s t"
  using assms by (auto simp: restored_def intro: alloc_pool_mem)

lemma publish_leaf_error:
  assumes r: "publish_leaf X rb pt i pa flags s = (s', Inl e)" and pool: "alloc_pool s pool" "pt \<notin> set pool"
    and pa: "frame_ok pa" "flags_ok flags"
  shows "\<exists>t. restored pool s t \<and> s' = rb t"
proof -
  let ?old = "ps_mem s pt i"
  let ?op = "pt_entry_addr_chirho ?old" and ?of = "entry_flags X ?old"
  define old_owned where "old_owned \<longleftrightarrow> ?old \<noteq> 0 \<and> flags_contain ?of PTE_USER"
  define new_owned where "new_owned \<longleftrightarrow> flags_contain flags PTE_USER"
  show ?thesis
  proof (cases "old_owned \<and> \<not> new_owned \<and> ?op = pa")
    case True
    then show ?thesis
      using r restored_refl [OF pool(1)] by (auto simp: publish_leaf_def Let_def old_owned_def new_owned_def)
  next
    case no_change: False
    obtain s1 r1 where ret: "(if new_owned then retain_leaf_mapping_chirho pa s else (s, Inr RetainUnmanagedChirho)) = (s1, r1)"
      by fastforce
    have s1: "ps_mem s1 = ps_mem s" "regs s1 = regs s"
      "GLOBAL_FRAME_ALLOCATOR_CHIRHO s1 = GLOBAL_FRAME_ALLOCATOR_CHIRHO s"
      using ret retain_leaf_spec(1-3) [of pa s s1 r1] by (auto split: if_splits)
    show ?thesis
    proof (cases r1)
      case (Inl e1)
      then have "frame_count s1 = frame_count s" and "s' = rb s1"
        using ret retain_leaf_spec(4) [of pa s s1 r1] r no_change
        by (auto simp: publish_leaf_def Let_def old_owned_def new_owned_def split: option.splits if_splits)
      then show ?thesis using restored_write_back [OF pool s1(1)] s1 by blast
    next
      case (Inr retained)
      obtain s3 r3 where rel: "release_leaf_mapping_chirho ?op
          (write_pt_entry_chirho pt i (entry_set_addr X pa flags) s1) = (s3, r3)" by fastforce
      have oo: "old_owned" and "\<exists>e3. r3 = Inl e3"
        using r no_change ret Inr rel
        by (auto simp: publish_leaf_def Let_def old_owned_def new_owned_def split: sum.splits if_splits)
      then obtain e3 where e3: "r3 = Inl e3" by blast
      note s3 = release_leaf_spec [OF rel]
      have c3: "frame_count s3 = frame_count s1"
        using s3(4) e3 by (auto split: option.splits if_splits)
      let ?s4 = "write_pt_entry_chirho pt i (entry_set_addr X ?op ?of) s3"
      have m4: "ps_mem ?s4 = ps_mem s"
        using s3(1) s1(1) api_flags(2,3) [of ?old] by (simp add: fun_eq_iff)
      have s4: "regs ?s4 = regs s" "GLOBAL_FRAME_ALLOCATOR_CHIRHO ?s4 = GLOBAL_FRAME_ALLOCATOR_CHIRHO s"
        "frame_count ?s4 = frame_count s1"
        using s3(2,3) s1(2,3) c3 by simp_all
      show ?thesis
      proof (cases "retained = RetainUnmanagedChirho")
        case True
        have "frame_count s1 = frame_count s"
          using ret Inr True retain_leaf_spec(4) [of pa s s1 r1] by (auto split: if_splits option.splits)
        then have "restored pool s ?s4" using restored_write_back [OF pool m4] s4 by simp
        moreover have "s' = rb ?s4"
          using r no_change ret Inr rel oo e3 True
          by (auto simp: publish_leaf_def Let_def old_owned_def new_owned_def split: if_splits)
        ultimately show ?thesis by blast
      next
        case False
        obtain n where n: "frame_count s (physical_frame_number_chirho pa) = Some n"
          "frame_count s1 = (frame_count s)(physical_frame_number_chirho pa \<mapsto> n + 1)"
          using ret Inr False retain_leaf_spec(4) [of pa s s1 r1] by (auto split: if_splits option.splits)
        obtain s5 r5 where rel5: "release_leaf_mapping_chirho pa ?s4 = (s5, r5)" by fastforce
        note s5 = release_leaf_spec [OF rel5]
        have "frame_count s5 = frame_count s" and ok5: "\<exists>x. r5 = Inr x"
          using s5(4) n s4(3) frame_count_managed [OF n(1)] by (auto simp: fun_eq_iff split: if_splits)
        then have "restored pool s s5"
          using restored_write_back [OF pool] m4 s4 s5(1-3) by simp
        moreover have "s' = rb s5"
          using r no_change ret Inr rel oo e3 False rel5 ok5
          by (auto simp: publish_leaf_def Let_def old_owned_def new_owned_def split: if_splits)
        ultimately show ?thesis by blast
      qed
    qed
  qed
qed

lemma ensure_table_error:
  "ensure_table X chk p i flags s = (s1, Inl e) \<Longrightarrow> alloc_pool s pool \<Longrightarrow> p \<notin> set pool \<Longrightarrow>
   flags_ok flags \<Longrightarrow> restored pool s s1"
  by (erule (3) ensure_table_cases) simp_all

lemma ensure_table_entry:
  assumes e: "ensure_table X chk p i flags s = (s1, Inr a)" and pool: "alloc_pool s pool" "p \<notin> set pool"
    and flags: "flags_ok flags" "bit flags 0"
  shows "ps_mem s1 p i \<noteq> 0"
    "q \<notin> set pool \<Longrightarrow> ps_mem s q j \<noteq> 0 \<Longrightarrow> ps_mem s1 q j = ps_mem s q j"
proof -
  have "ps_mem s1 p i \<noteq> 0 \<and> (q \<notin> set pool \<longrightarrow> ps_mem s q j \<noteq> 0 \<longrightarrow> ps_mem s1 q j = ps_mem s q j)"
    using e pool flags(1)
  proof (cases rule: ensure_table_cases)
    case (allocated f)
    have "bit (f OR flags) 0" using frame_ok_or(2) [OF allocated(4) flags(1), of 0] flags(2) by simp
    then have "f OR flags \<noteq> 0" by auto
    moreover have "q \<noteq> f" if "q \<notin> set pool" using that allocated(2) by (metis list.set_intros(1))
    ultimately show ?thesis using allocated(3,6) by auto
  qed simp_all
  then show "ps_mem s1 p i \<noteq> 0"
    "q \<notin> set pool \<Longrightarrow> ps_mem s q j \<noteq> 0 \<Longrightarrow> ps_mem s1 q j = ps_mem s q j" by blast+
qed

lemma map_in_tables_error:
  assumes pool: "alloc_pool s pool" and clear: "path_clear (ps_mem s) (set pool) [i4, i3, i2, i1] pml4"
    and flags: "flags_ok flags" and pa: "frame_ok pa"
    and r: "map_in_tables X pml4 i4 i3 i2 i1 pa flags s = (s', Inl e)"
  shows "restored pool s s'"
proof -
  define ifl where "ifl = (PTE_PRESENT OR PTE_WRITABLE) OR (if flags_contain flags PTE_USER then PTE_USER else 0)"
  have ifl: "flags_ok ifl" "bit ifl 0"
    by (simp_all add: ifl_def flags_ok_def pt_consts ENTRY_ADDR_MASK_def)
  note m = map_in_tables_def [of X pml4 i4 i3 i2 i1 pa flags s, unfolded Let_def, folded ifl_def]
  let ?rb = "rollback_new_mapping_tables_chirho X pml4 i4 i3 i2"
  obtain s1 r4 where e4: "ensure_table X False pml4 i4 ifl s = (s1, r4)" by fastforce
  show ?thesis
  proof (cases r4)
    case (Inl e')
    then show ?thesis
      using r e4 ensure_table_error [OF _ pool path_clear_root [OF clear] ifl(1)] by (simp add: m)
  next
    case (Inr a4)
    note e4 = e4 [unfolded Inr]
    define pool1 where "pool1 = (if a4 then tl pool else pool)"
    define pdpt where "pdpt = entry_addr X (ps_mem s1 pml4 i4)"
    note c1 = ensure_table_clear [OF e4 pool clear ifl(1), folded pool1_def pdpt_def]
    note undo4 = undo_restores [OF e4 pool path_clear_root [OF clear] ifl(1), folded pool1_def]
    obtain s2 r3 where e3: "ensure_table X True pdpt i3 ifl s1 = (s2, r3)" by fastforce
    show ?thesis
    proof (cases r3)
      case (Inl e')
      then have s': "s' = ?rb a4 False False s2" using r e4 e3 by (simp add: m pdpt_def)
      have r2: "restored pool1 s1 s2"
        using ensure_table_error [OF _ c1(1) path_clear_root [OF c1(3)] ifl(1)] e3 Inl by simp
      have "s' = undo_table pml4 i4 a4 s2"
        unfolding s' by (rule rollback_undo [OF refl refl]) (simp_all add: undo_table_def)
      then show ?thesis using undo4 [OF r2] by simp
    next
      case (Inr a3)
      note e3 = e3 [unfolded Inr]
      define pool2 where "pool2 = (if a3 then tl pool1 else pool1)"
      define pd where "pd = entry_addr X (ps_mem s2 pdpt i3)"
      note c2 = ensure_table_clear [OF e3 c1(1,3) ifl(1), folded pool2_def pd_def]
      note undo3 = undo_restores [OF e3 c1(1) path_clear_root [OF c1(3)] ifl(1), folded pool2_def]
      have n4: "ps_mem s1 pml4 i4 \<noteq> 0"
        by (rule ensure_table_entry(1) [OF e4 pool path_clear_root [OF clear] ifl])
      have n3: "ps_mem s2 pdpt i3 \<noteq> 0" and k4: "ps_mem s2 pml4 i4 = ps_mem s1 pml4 i4"
        using ensure_table_entry [OF e3 c1(1) path_clear_root [OF c1(3)] ifl] c1(2) n4 by blast+
      have undone: "restored pool s (?rb a4 a3 a2 t)"
        if t: "restored pool2 s2 (undo_table pd i2 a2 t)" and t4: "ps_mem t pml4 i4 = ps_mem s1 pml4 i4"
          and t3: "ps_mem t pdpt i3 = ps_mem s2 pdpt i3" for a2 t
      proof -
        let ?u = "undo_table pdpt i3 a3 (undo_table pd i2 a2 t)"
        have r1: "restored pool1 s1 ?u" by (rule undo3 [OF t])
        then have u: "ps_mem ?u pml4 i4 = ps_mem t pml4 i4" using c1(2) t4 by (simp add: restored_def)
        have "pdpt = entry_addr X (ps_mem t pml4 i4)" by (simp only: pdpt_def t4)
        moreover have "pd = entry_addr X (ps_mem t pdpt i3)" by (simp only: pd_def t3)
        ultimately have "?rb a4 a3 a2 t = undo_table pml4 i4 a4 ?u" using u by (rule rollback_undo [OF _ _ refl])
        then show ?thesis using undo4 [OF r1] by simp
      qed
      obtain s3 r2 where e2: "ensure_table X True pd i2 ifl s2 = (s3, r2)" by fastforce
      have out: "pml4 \<notin> set pool2" "pdpt \<notin> set pool2"
        using not_in_tl [OF c1(2)] c1(2) c2(2) by (simp_all add: pool2_def split: if_splits)
      show ?thesis
      proof (cases r2)
        case (Inl e')
        have s': "s' = ?rb a4 a3 False s3" using r e4 e3 e2 Inl by (simp add: m pdpt_def pd_def)
        have r2: "restored pool2 s2 s3"
          using ensure_table_error [OF _ c2(1) path_clear_root [OF c2(3)] ifl(1)] e2 Inl by simp
        then show ?thesis
          unfolding s' using out k4 by (intro undone) (simp_all add: undo_table_def restored_def)
      next
        case (Inr a2)
        note e2 = e2 [unfolded Inr]
        define pool3 where "pool3 = (if a2 then tl pool2 else pool2)"
        define pt where "pt = entry_addr X (ps_mem s3 pd i2)"
        note c3 = ensure_table_clear [OF e2 c2(1,3) ifl(1), folded pool3_def pt_def]
        obtain s4 r5 where pl: "publish_leaf X (?rb a4 a3 a2) pt i1 pa flags s3 = (s4, r5)" by fastforce
        then have "publish_leaf X (?rb a4 a3 a2) pt i1 pa flags s3 = (s', Inl e)"
          using r e4 e3 e2 by (cases r5) (simp_all add: m pdpt_def pd_def pt_def)
        from publish_leaf_error [OF this c3(1) path_clear_root [OF c3(3)] pa flags]
        obtain t where t: "restored pool3 s3 t" "s' = ?rb a4 a3 a2 t" by blast
        have out3: "pml4 \<notin> set pool3" "pdpt \<notin> set pool3"
          using out out [THEN not_in_tl] by (simp_all add: pool3_def)
        have "ps_mem s3 pml4 i4 = ps_mem s1 pml4 i4" "ps_mem s3 pdpt i3 = ps_mem s2 pdpt i3"
          using ensure_table_entry(2) [OF e2 c2(1) path_clear_root [OF c2(3)] ifl] out n3 n4 k4 by simp_all
        then have "ps_mem t pml4 i4 = ps_mem s1 pml4 i4" "ps_mem t pdpt i3 = ps_mem s2 pdpt i3"
          using t(1) out3 by (simp_all add: restored_def)
        moreover have "restored pool2 s2 (undo_table pd i2 a2 t)"
          using undo_restores [OF e2 c2(1) path_clear_root [OF c2(3)] ifl(1)] t(1) by (simp add: pool3_def)
        ultimately show ?thesis unfolding t(2) by (intro undone)
      qed
    qed
  qed
qed

end

section \<open>A successful mapping changes one page\<close>

text \<open>A table of the space at level \<^verbatim>\<open>k\<close>, separate from the frames of the pool.\<close>

definition sub_ok :: "phys_state \<Rightarrow> u64 list \<Rightarrow> nat \<Rightarrow> nat \<Rightarrow> u64 \<Rightarrow> bool" where
  "sub_ok s pool k n p \<longleftrightarrow> alloc_pool s pool \<and> wf_tree (ps_mem s) k n p \<and>
     distinct (owned (ps_mem s) k n p) \<and> set (owned (ps_mem s) k n p) \<inter> set pool = {}"

text \<open>The entries on a path are unused or belong to the space.\<close>

fun path_ok :: "phys_mem \<Rightarrow> nat list \<Rightarrow> u64 \<Rightarrow> bool" where
  "path_ok m [] p \<longleftrightarrow> True"
| "path_ok m [i] p \<longleftrightarrow> True"
| "path_ok m (i # j # is) p \<longleftrightarrow> m p i = 0 \<or> is_user (m p i) \<and> path_ok m (j # is) (child_of m p i)"

text \<open>Frames moved from the pool into the tables of the space; nothing else changed
  but the entry at one path.\<close>

definition grown :: "phys_state \<Rightarrow> u64 list \<Rightarrow> phys_state \<Rightarrow> u64 list \<Rightarrow> nat \<Rightarrow> nat \<Rightarrow> u64 \<Rightarrow> nat list \<Rightarrow> u64 \<Rightarrow> bool" where
  "grown s pool s' pool' k n p is v \<longleftrightarrow> sub_ok s pool k n p \<and> (\<exists>F. tree_upd (ps_mem s) k n p F (ps_mem s') is v \<and>
     set pool = F \<union> set pool' \<and> F \<inter> set pool' = {}) \<and> alloc_pool s' pool' \<and>
     frame_count s' = frame_count s \<and> regs s' = regs s"

lemma grown_sub_ok: "grown s pool s' pool' k n p is v \<Longrightarrow> sub_ok s' pool' k n p"
  unfolding grown_def sub_ok_def tree_upd_def by blast

lemma grown_leaf: "grown s pool s' pool' k n p is v \<Longrightarrow> leaf (ps_mem s') k n p is = v"
  by (auto simp: grown_def tree_upd_def)

lemma grown_trans:
  assumes "grown s pool s1 pool1 k n p is v1" and "grown s1 pool1 s2 pool2 k n p is v2"
  shows "grown s pool s2 pool2 k n p is v2"
proof -
  obtain F G where "tree_upd (ps_mem s) k n p F (ps_mem s1) is v1" "set pool = F \<union> set pool1" "F \<inter> set pool1 = {}"
    "tree_upd (ps_mem s1) k n p G (ps_mem s2) is v2" "set pool1 = G \<union> set pool2" "G \<inter> set pool2 = {}"
    using assms by (auto simp: grown_def)
  then have "tree_upd (ps_mem s) k n p (F \<union> G) (ps_mem s2) is v2" "set pool = (F \<union> G) \<union> set pool2"
    "(F \<union> G) \<inter> set pool2 = {}"
    using tree_upd_trans by blast+
  then show ?thesis using assms by (auto simp: grown_def)
qed

lemma grown_lift:
  assumes "grown s pool s' pool' k 512 (child_of (ps_mem s) p i) is v" and "sub_ok s pool (Suc k) n p"
    and "i < n" and "is_user (ps_mem s p i)"
  shows "grown s pool s' pool' (Suc k) n p (i # is) v"
proof -
  obtain F where F: "tree_upd (ps_mem s) k 512 (child_of (ps_mem s) p i) F (ps_mem s') is v"
    "set pool = F \<union> set pool'" "F \<inter> set pool' = {}"
    using assms(1) by (auto simp: grown_def)
  have "tree_upd (ps_mem s) (Suc k) n p F (ps_mem s') (i # is) v"
    using assms(2) F by (intro tree_upd_lift [OF _ _ assms(3,4) F(1)]) (auto simp: sub_ok_def)
  then show ?thesis using assms F by (auto simp: grown_def)
qed

lemma sub_ok_root: "sub_ok s pool k n p \<Longrightarrow> alloc_pool s pool \<and> p \<notin> set pool"
  unfolding sub_ok_def using owned_root by (metis disjoint_iff)

lemma sub_ok_child:
  assumes "sub_ok s pool (Suc k) n p" and "i < n" and "is_user (ps_mem s p i)"
  shows "sub_ok s pool k 512 (child_of (ps_mem s) p i)"
proof -
  have "distinct (owned (ps_mem s) k 512 (child_of (ps_mem s) p i))"
    using assms unfolding sub_ok_def distinct_owned_Suc by (auto simp: below_def)
  then show ?thesis
    using assms owned_child [of i n "ps_mem s" p _ k] by (auto simp: sub_ok_def disjoint_iff)
qed

lemma sub_ok_below:
  assumes "sub_ok s pool (Suc k) n p" and "i < n" and "is_user (ps_mem s p i)"
    and "q \<in> set (owned (ps_mem s) k 512 (child_of (ps_mem s) p i))"
  shows "q \<noteq> p" "q \<in> set (owned (ps_mem s) (Suc k) n p)"
proof -
  have "q \<in> set (below (ps_mem s) k p i)" using assms(3,4) by (simp add: below_def)
  then show "q \<noteq> p" "q \<in> set (owned (ps_mem s) (Suc k) n p)"
    using assms(1,2) unfolding sub_ok_def distinct_owned_Suc in_owned_Suc by blast+
qed

context x86_paging
begin

lemma descend:
  assumes e: "ensure_table X chk p i table_flags s = (s1, Inr a)" and ok: "sub_ok s pool (Suc k) n p"
    and i: "i < n" and path: "path_ok (ps_mem s) (i # j # js) p"
  defines "pool1 \<equiv> if a then tl pool else pool"
  shows "grown s pool s1 pool1 (Suc k) n p is (leaf (ps_mem s) (Suc k) n p is)"
    "is_user (ps_mem s1 p i)" "path_ok (ps_mem s1) (j # js) (child_of (ps_mem s1) p i)"
proof -
  have p: "alloc_pool s pool" "p \<notin> set pool" using sub_ok_root [OF ok] by simp_all
  have "grown s pool s1 pool1 (Suc k) n p is (leaf (ps_mem s) (Suc k) n p is) \<and> is_user (ps_mem s1 p i) \<and>
    path_ok (ps_mem s1) (j # js) (child_of (ps_mem s1) p i)"
    using e p table_flags_ok
  proof (cases rule: ensure_table_cases)
    case present
    then have "is_user (ps_mem s p i) \<and> path_ok (ps_mem s) (j # js) (child_of (ps_mem s) p i)" using path by auto
    moreover have "grown s pool s pool (Suc k) n p is (leaf (ps_mem s) (Suc k) n p is)"
      unfolding grown_def using ok tree_upd_refl [of "ps_mem s" "Suc k" n p "is"]
      by (auto simp: sub_ok_def intro!: exI [of _ "{}"])
    ultimately show ?thesis using present by (simp add: pool1_def)
  next
    case (allocated f)
    have f: "f \<in> set pool" "f \<notin> set (tl pool)" "set pool = {f} \<union> set (tl pool)"
      using allocated(2) alloc_pool_distinct [OF p(1)]
      by (metis list.set_intros(1), metis distinct.simps(2), metis insert_is_Un list.simps(15))
    have fo: "f \<notin> set (owned (ps_mem s) (Suc k) n p)" using ok f(1) by (auto simp: sub_ok_def)
    then have fp: "f \<noteq> p" by auto
    note nt = new_table_entry [OF allocated(4)]
    have "tree_upd (ps_mem s) (Suc k) n p {f} (ps_mem s1) is (leaf (ps_mem s) (Suc k) n p is)"
      using ok nt allocated(3,6) fo i by (intro tree_upd_new_child [where e = "f OR table_flags"]) (auto simp: sub_ok_def)
    then have "grown s pool s1 (tl pool) (Suc k) n p is (leaf (ps_mem s) (Suc k) n p is)"
      unfolding grown_def using ok f allocated(5,7,8) by auto
    moreover have "ps_mem s1 p i = f OR table_flags" "ps_mem s1 f = (\<lambda>_. 0)" using allocated(6) fp by auto
    moreover have "path_ok (ps_mem s1) (j # js) f" using calculation(3) by (cases js) simp_all
    ultimately show ?thesis using nt allocated(1) by (simp add: pool1_def)
  qed simp
  then show "grown s pool s1 pool1 (Suc k) n p is (leaf (ps_mem s) (Suc k) n p is)"
    "is_user (ps_mem s1 p i)" "path_ok (ps_mem s1) (j # js) (child_of (ps_mem s1) p i)" by blast+
qed

end

text \<open>The counts after a mapping to \<^verbatim>\<open>pa\<close> replaces the entry \<^verbatim>\<open>old\<close>, and whether that frees
  the old frame.\<close>

definition inc_count :: "usize \<Rightarrow> (usize \<Rightarrow> u32 option) \<Rightarrow> usize \<Rightarrow> u32 option" where
  "inc_count f c = (case c f of None \<Rightarrow> c | Some n \<Rightarrow> c(f \<mapsto> n + 1))"

definition dec_count :: "usize \<Rightarrow> (usize \<Rightarrow> u32 option) \<Rightarrow> usize \<Rightarrow> u32 option" where
  "dec_count f c = (case c f of None \<Rightarrow> c | Some n \<Rightarrow> c(f \<mapsto> n - 1))"

definition drop_entry :: "u64 \<Rightarrow> (usize \<Rightarrow> u32 option) \<Rightarrow> usize \<Rightarrow> u32 option" where
  "drop_entry e c = (if is_user e then dec_count (physical_frame_number_chirho (pt_entry_addr_chirho e)) c else c)"

definition frees_frame :: "u64 \<Rightarrow> (usize \<Rightarrow> u32 option) \<Rightarrow> bool" where
  "frees_frame e c \<longleftrightarrow> is_user e \<and> c (physical_frame_number_chirho (pt_entry_addr_chirho e)) = Some 1"

lemma retain_leaf_ok:
  assumes "retain_leaf_mapping_chirho p s = (s1, Inr x)"
  shows "frame_count s1 = inc_count (physical_frame_number_chirho p) (frame_count s)"
  using retain_leaf_spec(4) [OF assms] by (auto simp: inc_count_def split: option.splits if_splits)

lemma release_leaf_ok:
  assumes "release_leaf_mapping_chirho p s = (s1, Inr x)"
  shows "frame_count s1 = dec_count (physical_frame_number_chirho p) (frame_count s)"
    "x = LastReferenceChirho \<longleftrightarrow> frame_count s (physical_frame_number_chirho p) = Some 1"
  using release_leaf_spec(4) [OF assms] by (auto simp: dec_count_def split: option.splits if_splits)

context x86_paging
begin

lemma api_user: "(e \<noteq> 0 \<and> flags_contain (entry_flags X e) PTE_USER) = is_user e"
  using api_flags(1) [of 2 e] by (auto simp: flag_bits_hw is_user_def)

lemma drop_frame_spec:
  assumes "alloc_pool s pool" and "f \<notin> set pool" and "frame_ok f"
  defines "s' \<equiv> deallocate_frame_chirho f (zero_frame_chirho f s)"
  shows "alloc_pool s' (f # pool)" "frame_count s' = frame_count s" "regs s' = regs s"
    "q \<noteq> f \<Longrightarrow> ps_mem s' q = ps_mem s q"
proof -
  have z: "alloc_pool (zero_frame_chirho f s) pool" using assms(1,2) by blast
  show "alloc_pool s' (f # pool)" "frame_count s' = frame_count s" "regs s' = regs s"
    "q \<noteq> f \<Longrightarrow> ps_mem s' q = ps_mem s q"
    using deallocate_frame_spec [OF z assms(2,3)] by (simp_all add: s'_def)
qed

lemma publish_leaf_ok:
  assumes r: "publish_leaf X rb pt i pa flags s = (s', Inr ())" and pool: "alloc_pool s pool" "pt \<notin> set pool"
    and pa: "frame_ok pa" "flags_ok flags" "flags_contain flags PTE_USER"
    and old: "is_user (ps_mem s pt i) \<Longrightarrow> child_of (ps_mem s) pt i \<notin> insert pt (set pool)"
  defines "e \<equiv> ps_mem s pt i" and "c \<equiv> inc_count (physical_frame_number_chirho pa) (frame_count s)"
  shows "frame_count s' = drop_entry e c" "regs s' = regs s"
    "alloc_pool s' (if frees_frame e c then pt_entry_addr_chirho e # pool else pool)"
    "ps_mem s' pt = (ps_mem s pt)(i := pa OR flags)"
    "q \<noteq> pt \<Longrightarrow> frees_frame e c \<longrightarrow> q \<noteq> pt_entry_addr_chirho e \<Longrightarrow> ps_mem s' q = ps_mem s q"
proof -
  obtain s1 x where ret: "retain_leaf_mapping_chirho pa s = (s1, Inr x)"
    using r pa(3) by (auto simp: publish_leaf_def Let_def split: if_splits prod.splits sum.splits)
  note s1 = retain_leaf_spec(1-3) [OF ret]
  have c1: "frame_count s1 = c" using retain_leaf_ok [OF ret] by (simp add: c_def)
  let ?s2 = "write_pt_entry_chirho pt i (pa OR flags) s1"
  have "alloc_pool s1 pool" using alloc_pool_mem [OF pool(1), of s1] s1 by simp
  then have p2: "alloc_pool ?s2 pool" using pool(2) by blast
  have m2: "ps_mem ?s2 = (ps_mem s)(pt := (ps_mem s pt)(i := pa OR flags))" using s1(1) by simp
  have "frame_count s' = drop_entry e c \<and> regs s' = regs s \<and>
    alloc_pool s' (if frees_frame e c then pt_entry_addr_chirho e # pool else pool) \<and>
    (\<forall>q. (frees_frame e c \<longrightarrow> q \<noteq> pt_entry_addr_chirho e) \<longrightarrow> ps_mem s' q = ps_mem ?s2 q)"
  proof (cases "is_user e")
    case False
    then have "s' = ?s2"
      using r ret pa api_user [of e] by (auto simp: publish_leaf_def Let_def e_def split: if_splits)
    then show ?thesis using False c1 s1(3) p2 by (simp add: drop_entry_def frees_frame_def)
  next
    case True
    let ?op = "pt_entry_addr_chirho e"
    obtain s3 x3 where rel: "release_leaf_mapping_chirho ?op ?s2 = (s3, Inr x3)"
      and s': "s' = (if x3 = LastReferenceChirho then deallocate_frame_chirho ?op (zero_frame_chirho ?op s3) else s3)"
      using r ret pa api_user [of e] True
      by (auto simp: publish_leaf_def Let_def e_def split: if_splits prod.splits sum.splits)
    note s3 = release_leaf_spec(1-3) [OF rel] and ok = release_leaf_ok [OF rel]
    have p3: "alloc_pool s3 pool" using alloc_pool_mem [OF p2, of s3] s3 by simp
    have freed: "(x3 = LastReferenceChirho) = frees_frame e c" using ok(2) c1 True by (simp add: frees_frame_def)
    have op: "?op \<notin> set pool" using old True by (simp add: e_def)
    have "frame_count s3 = drop_entry e c" "regs s3 = regs s" "ps_mem s3 = ps_mem ?s2"
      using ok(1) c1 True s3 s1(3) by (simp_all add: drop_entry_def)
    then show ?thesis
      using drop_frame_spec [OF p3 op] p3 by (simp add: s' freed)
  qed
  note main = this
  show "frame_count s' = drop_entry e c" "regs s' = regs s"
    "alloc_pool s' (if frees_frame e c then pt_entry_addr_chirho e # pool else pool)"
    using main by blast+
  have off: "ps_mem s' q = ((ps_mem s)(pt := (ps_mem s pt)(i := pa OR flags))) q"
    if "frees_frame e c \<longrightarrow> q \<noteq> pt_entry_addr_chirho e" for q
    using main that unfolding m2 by blast
  show "ps_mem s' pt = (ps_mem s pt)(i := pa OR flags)"
  proof -
    have "frees_frame e c \<longrightarrow> pt \<noteq> pt_entry_addr_chirho e" using old by (auto simp: frees_frame_def e_def)
    from off [OF this] show ?thesis by simp
  qed
  show "q \<noteq> pt \<Longrightarrow> frees_frame e c \<longrightarrow> q \<noteq> pt_entry_addr_chirho e \<Longrightarrow> ps_mem s' q = ps_mem s q"
    using off [of q] by simp
qed

lemma add_user_flag_id: "is_user (ps_mem s p i) \<Longrightarrow> add_user_flag X p i s = s"
  using api_user [of "ps_mem s p i"] by (auto simp: add_user_flag_def Let_def)

lemma map_in_tables_ok:
  assumes ok: "sub_ok s pool (Suc (Suc (Suc 0))) 256 pml4" and i: "i4 < 256" "i3 < 512" "i2 < 512" "i1 < 512"
    and path: "path_ok (ps_mem s) [i4, i3, i2, i1] pml4"
    and flags: "flags_contain flags PTE_USER"
    and r: "map_in_tables X pml4 i4 i3 i2 i1 pa flags s = (s', Inr ())"
  obtains s3 s4 pool3 pdpt pd pt rb where
    "grown s pool s3 pool3 (Suc (Suc (Suc 0))) 256 pml4 [i4, i3, i2, i1] (leaf (ps_mem s) (Suc (Suc (Suc 0))) 256 pml4 [i4, i3, i2, i1])"
    "is_user (ps_mem s3 pml4 i4)" "pdpt = child_of (ps_mem s3) pml4 i4"
    "is_user (ps_mem s3 pdpt i3)" "pd = child_of (ps_mem s3) pdpt i3"
    "is_user (ps_mem s3 pd i2)" "pt = child_of (ps_mem s3) pd i2"
    "publish_leaf X rb pt i1 pa flags s3 = (s4, Inr ())"
    "s' = add_user_flag X pd i2 (add_user_flag X pdpt i3 (add_user_flag X pml4 i4 s4))"
proof -
  have ifl: "(PTE_PRESENT OR PTE_WRITABLE) OR (if flags_contain flags PTE_USER then PTE_USER else 0) = table_flags"
    using flags by (simp add: table_flags_def)
  have fl: "flags_ok table_flags" "bit table_flags 0" using table_flags_ok by (simp_all add: table_flags_def pt_consts)
  note m = map_in_tables_def [of X pml4 i4 i3 i2 i1 pa flags s, unfolded Let_def ifl]
  let ?rb = "rollback_new_mapping_tables_chirho X pml4 i4 i3 i2" and ?is = "[i4, i3, i2, i1]"
  obtain s1 r4 where "ensure_table X False pml4 i4 table_flags s = (s1, r4)" by fastforce
  then obtain a4 where e4: "ensure_table X False pml4 i4 table_flags s = (s1, Inr a4)"
    using r by (cases r4) (simp_all add: m)
  define pdpt where "pdpt = child_of (ps_mem s1) pml4 i4"
  obtain s2 r3 where "ensure_table X True pdpt i3 table_flags s1 = (s2, r3)" by fastforce
  then obtain a3 where e3: "ensure_table X True pdpt i3 table_flags s1 = (s2, Inr a3)"
    using r e4 by (cases r3) (simp_all add: m pdpt_def)
  define pd where "pd = child_of (ps_mem s2) pdpt i3"
  obtain s3 r2 where "ensure_table X True pd i2 table_flags s2 = (s3, r2)" by fastforce
  then obtain a2 where e2: "ensure_table X True pd i2 table_flags s2 = (s3, Inr a2)"
    using r e4 e3 by (cases r2) (simp_all add: m pdpt_def pd_def)
  define pt where "pt = child_of (ps_mem s3) pd i2"
  obtain s4 r1 where "publish_leaf X (?rb a4 a3 a2) pt i1 pa flags s3 = (s4, r1)" by fastforce
  then have pl: "publish_leaf X (?rb a4 a3 a2) pt i1 pa flags s3 = (s4, Inr ())"
    and s': "s' = add_user_flag X pd i2 (add_user_flag X pdpt i3 (add_user_flag X pml4 i4 s4))"
    using r e4 e3 e2 flags by (cases r1; simp add: m pdpt_def pd_def pt_def)+
  define pool1 where "pool1 = (if a4 then tl pool else pool)"
  define pool2 where "pool2 = (if a3 then tl pool1 else pool1)"
  define pool3 where "pool3 = (if a2 then tl pool2 else pool2)"
  note d4 = descend [OF e4 ok i(1) path, folded pool1_def pdpt_def]
  note ok1 = grown_sub_ok [OF d4(1)]
  note okp1 = sub_ok_child [OF ok1 i(1) d4(2), folded pdpt_def]
  note d3 = descend [OF e3 okp1 i(2) d4(3), folded pool2_def pd_def]
  note okp2 = grown_sub_ok [OF d3(1)]
  note okd2 = sub_ok_child [OF okp2 i(2) d3(2), folded pd_def]
  note d2 = descend [OF e2 okd2 i(3) d3(3), folded pool3_def pt_def]
  have g3: "grown s1 pool1 s2 pool2 (Suc (Suc (Suc 0))) 256 pml4 ?is (leaf (ps_mem s1) (Suc (Suc 0)) 512 pdpt [i3, i2, i1])"
    using grown_lift [OF d3(1) [of "[i3, i2, i1]", unfolded pdpt_def] ok1 i(1) d4(2)] by (simp add: pdpt_def)
  have ok2: "sub_ok s2 pool2 (Suc (Suc (Suc 0))) 256 pml4" by (rule grown_sub_ok [OF g3])
  have k2: "ps_mem s2 pml4 i4 = ps_mem s1 pml4 i4"
    using ensure_table_entry(2) [OF e3 _ _ fl, of pool1 pml4 i4] sub_ok_root [OF okp1] sub_ok_root [OF ok1]
      user_nonzero [OF d4(2)]
    by simp
  have k3: "ps_mem s3 pml4 i4 = ps_mem s1 pml4 i4" "ps_mem s3 pdpt i3 = ps_mem s2 pdpt i3"
    using ensure_table_entry(2) [OF e2 _ _ fl, of pool2] sub_ok_root [OF okp2] sub_ok_root [OF ok2]
      sub_ok_root [OF okd2] user_nonzero [OF d4(2)] user_nonzero [OF d3(2)] k2
    by simp_all
  have g2: "grown s2 pool2 s3 pool3 (Suc (Suc 0)) 512 pdpt [i3, i2, i1] (leaf (ps_mem s2) (Suc 0) 512 pd [i2, i1])"
    using grown_lift [OF d2(1) [of "[i2, i1]", unfolded pd_def] okp2 i(2) d3(2)] by (simp add: pd_def)
  have c2: "pdpt = child_of (ps_mem s2) pml4 i4" by (simp add: pdpt_def k2)
  have u2: "is_user (ps_mem s2 pml4 i4)" using d4(2) k2 by simp
  have g2': "grown s2 pool2 s3 pool3 (Suc (Suc (Suc 0))) 256 pml4 ?is (leaf (ps_mem s2) (Suc 0) 512 pd [i2, i1])"
    using grown_lift [OF g2 [unfolded c2] ok2 i(1) u2] .
  note g = grown_trans [OF grown_trans [OF d4(1) [of ?is] g3] g2']
  have "leaf (ps_mem s2) (Suc (Suc (Suc 0))) 256 pml4 ?is = leaf (ps_mem s) (Suc (Suc (Suc 0))) 256 pml4 ?is"
    using grown_leaf [OF g3] grown_leaf [OF d4(1) [of ?is]] i(1) d4(2) by (simp add: pdpt_def)
  then have v: "leaf (ps_mem s2) (Suc 0) 512 pd [i2, i1] = leaf (ps_mem s) (Suc (Suc (Suc 0))) 256 pml4 ?is"
    using i u2 d3(2) c2 by (simp add: pd_def)
  show ?thesis
  proof (rule that)
    show "grown s pool s3 pool3 (Suc (Suc (Suc 0))) 256 pml4 ?is (leaf (ps_mem s) (Suc (Suc (Suc 0))) 256 pml4 ?is)"
      using g by (simp only: v)
    show "is_user (ps_mem s3 pml4 i4)" "pdpt = child_of (ps_mem s3) pml4 i4"
      "is_user (ps_mem s3 pdpt i3)" "pd = child_of (ps_mem s3) pdpt i3"
      using d4(2) d3(2) k3 by (simp_all add: pdpt_def pd_def)
  qed (use d2(2) pt_def pl s' in simp_all)
qed

end

section \<open>Writing one final entry\<close>

definition space_ok :: "phys_state \<Rightarrow> u64 \<Rightarrow> u64 list \<Rightarrow> bool" where
  "space_ok s root pool \<longleftrightarrow> sub_ok s pool 3 256 root"

definition space_tables :: "phys_state \<Rightarrow> u64 \<Rightarrow> u64 set" where
  "space_tables s root = set (owned (ps_mem s) 3 256 root)"

definition page_entry :: "phys_state \<Rightarrow> u64 \<Rightarrow> nat list \<Rightarrow> u64" where
  "page_entry s root is = leaf (ps_mem s) 3 256 root is"

lemma slot_write:
  assumes ok: "space_ok s root pool" and sl: "slot (ps_mem s) 3 256 root is = Some (q, i)"
    and q: "ps_mem s' q = (ps_mem s q)(i := v)"
    and off: "\<And>r. r \<noteq> q \<Longrightarrow> r \<notin> D \<Longrightarrow> ps_mem s' r = ps_mem s r"
    and D: "D \<inter> space_tables s root = {}"
    and pool': "alloc_pool s' pool'" "set pool' \<subseteq> set pool \<union> D"
  shows "space_ok s' root pool'" "space_tables s' root = space_tables s root"
    "page_entry s' root js = (if js = is then v else page_entry s root js)"
proof -
  let ?m = "(ps_mem s)(q := (ps_mem s q)(i := v))"
  have u: "tree_upd (ps_mem s) 3 256 root {} ?m is v"
    using ok sl by (intro tree_upd_slot) (auto simp: space_ok_def sub_ok_def)
  have same: "ps_mem s' r = ?m r" if "r \<in> set (owned ?m 3 256 root)" for r
    using u that off [of r] q D by (cases "r = q") (auto simp: tree_upd_def space_tables_def)
  have c: "owned (ps_mem s') 3 256 root = owned ?m 3 256 root" "wf_tree (ps_mem s') 3 256 root = wf_tree ?m 3 256 root"
    "\<And>js. leaf (ps_mem s') 3 256 root js = leaf ?m 3 256 root js"
    by (rule tree_cong, erule same)+
  show "space_tables s' root = space_tables s root"
    using u unfolding tree_upd_def space_tables_def c(1) by simp
  moreover have "space_tables s root \<inter> set pool = {}" using ok by (simp add: space_ok_def sub_ok_def space_tables_def)
  ultimately show "space_ok s' root pool'"
    using u pool' D unfolding space_ok_def sub_ok_def c(1,2) tree_upd_def space_tables_def by auto
  show "page_entry s' root js = (if js = is then v else page_entry s root js)"
    using u unfolding tree_upd_def page_entry_def c(3) by simp
qed

lemma page_path_bounds: "pml4_index va < 512" "pdpt_index va < 512" "pd_index va < 512" "pt_index va < 512"
proof -
  have "unat (w AND 0x1FF) < 512" for w :: u64
  proof -
    have "w AND 0x1FF = take_bit 9 w" by (simp add: take_bit_eq_mask mask_eq_exp_minus_1)
    then show ?thesis by (simp add: unsigned_take_bit_eq take_bit_nat_def)
  qed
  then show "pml4_index va < 512" "pdpt_index va < 512" "pd_index va < 512" "pt_index va < 512"
    by (simp_all add: pml4_index_def pdpt_index_def pd_index_def pt_index_def)
qed

section \<open>Mapping a page\<close>

lemma three_levels: "(3 :: nat) = Suc (Suc (Suc 0))" by simp

lemma slot_unfold:
  "slot m 3 n p (page_path va) =
    (if pml4_index va < n \<and> is_user (m p (pml4_index va)) \<and>
        is_user (m (child_of m p (pml4_index va)) (pdpt_index va)) \<and>
        is_user (m (child_of m (child_of m p (pml4_index va)) (pdpt_index va)) (pd_index va))
     then Some (child_of m (child_of m (child_of m p (pml4_index va)) (pdpt_index va)) (pd_index va), pt_index va)
     else None)"
  using page_path_bounds [of va] by (auto simp: page_path_def three_levels)

text \<open>The page at a path has the entry \<^verbatim>\<open>v\<close> for \<^verbatim>\<open>pa\<close>: the count of \<^verbatim>\<open>pa\<close> goes up by one
  and that of the displaced frame down by one, and the displaced frame is in the pool
  if that was its last reference.\<close>

definition page_mapped :: "phys_state \<Rightarrow> u64 \<Rightarrow> u64 list \<Rightarrow> nat list \<Rightarrow> u64 \<Rightarrow> u64 \<Rightarrow> phys_state \<Rightarrow> u64 list \<Rightarrow> bool" where
  "page_mapped s root pool is pa v s' pool' \<longleftrightarrow>
     (let old = page_entry s root is;
          c = inc_count (physical_frame_number_chirho pa) (frame_count s);
          freed = (if frees_frame old c then {pt_entry_addr_chirho old} else {})
      in space_ok s' root pool' \<and>
         (\<forall>js. page_entry s' root js = (if js = is then v else page_entry s root js)) \<and>
         frame_count s' = drop_entry old c \<and>
         set pool' \<union> space_tables s' root = set pool \<union> space_tables s root \<union> freed \<and>
         (\<forall>q. q \<notin> set pool \<union> space_tables s root \<union> freed \<longrightarrow> ps_mem s' q = ps_mem s q))"

lemma map_error_spec:
  assumes "x86_paging X" and "alloc_pool s pool"
    and "path_clear (ps_mem s) (set pool) (page_path va) pml4"
    and "flags_ok flags" and "frame_ok pa"
    and "map_page_in_pt_chirho X pml4 va pa flags s = (s', Inl e)"
  shows "restored pool s s'"
proof (cases "va AND (PT_PAGE_SIZE_CHIRHO - 1) \<noteq> 0 \<or> pa AND (PT_PAGE_SIZE_CHIRHO - 1) \<noteq> 0 \<or>
    (flags_contain flags PTE_USER \<and> pml4_index va \<ge> KERNEL_PML4_START_CHIRHO)")
  case True
  then show ?thesis
    using assms(6) restored_refl [OF assms(2)] by (auto simp: map_page_in_pt_chirho_def split: if_splits)
next
  case False
  then have "map_in_tables X pml4 (pml4_index va) (pdpt_index va) (pd_index va) (pt_index va) pa flags s = (s', Inl e)"
    using assms(6) by (auto simp: map_page_in_pt_chirho_def split: if_splits)
  then show ?thesis
    using x86_paging.map_in_tables_error [OF assms(1,2)] assms(3-5) by (simp add: page_path_def)
qed

context x86_paging
begin

text \<open>The tables of the page are there, from frames of the pool, and the final entry is
  published in the last of them.\<close>

lemma map_reaches_slot:
  assumes ok: "space_ok s root pool" and path: "path_ok (ps_mem s) (page_path va) root"
    and flags: "flags_contain flags PTE_USER" and r: "map_page_in_pt_chirho X root va pa flags s = (s', Inr ())"
  obtains s3 s4 pool3 F pdpt pd pt rb where
    "space_ok s3 root pool3" "slot (ps_mem s3) 3 256 root (page_path va) = Some (pt, pt_index va)"
    "set pool = F \<union> set pool3" "frame_count s3 = frame_count s" "space_tables s3 root = space_tables s root \<union> F"
    "\<forall>js. page_entry s3 root js = page_entry s root js"
    "\<forall>q. q \<notin> space_tables s root \<union> F \<longrightarrow> ps_mem s3 q = ps_mem s q"
    "publish_leaf X rb pt (pt_index va) pa flags s3 = (s4, Inr ())"
    "s' = add_user_flag X pd (pd_index va) (add_user_flag X pdpt (pdpt_index va) (add_user_flag X root (pml4_index va) s4))"
    "pdpt = child_of (ps_mem s3) root (pml4_index va)" "pd = child_of (ps_mem s3) pdpt (pdpt_index va)"
proof -
  have le: "pml4_index va < 256" and
    m: "map_in_tables X root (pml4_index va) (pdpt_index va) (pd_index va) (pt_index va) pa flags s = (s', Inr ())"
    using flags r by (auto simp: map_page_in_pt_chirho_def pt_consts split: if_splits)
  have ok': "sub_ok s pool (Suc (Suc (Suc 0))) 256 root" using ok by (simp add: space_ok_def three_levels)
  obtain s3 s4 pool3 pdpt pd pt rb where g:
    "grown s pool s3 pool3 (Suc (Suc (Suc 0))) 256 root (page_path va) (leaf (ps_mem s) (Suc (Suc (Suc 0))) 256 root (page_path va))"
    and u: "is_user (ps_mem s3 root (pml4_index va))" "pdpt = child_of (ps_mem s3) root (pml4_index va)"
    "is_user (ps_mem s3 pdpt (pdpt_index va))" "pd = child_of (ps_mem s3) pdpt (pdpt_index va)"
    "is_user (ps_mem s3 pd (pd_index va))" "pt = child_of (ps_mem s3) pd (pd_index va)"
    and pl: "publish_leaf X rb pt (pt_index va) pa flags s3 = (s4, Inr ())"
    and s': "s' = add_user_flag X pd (pd_index va) (add_user_flag X pdpt (pdpt_index va) (add_user_flag X root (pml4_index va) s4))"
    by (rule map_in_tables_ok [OF ok' le page_path_bounds(2-4) _ flags m])
      (use path in \<open>simp_all add: page_path_def\<close>)
  obtain F where F: "tree_upd (ps_mem s) 3 256 root F (ps_mem s3) (page_path va) (page_entry s root (page_path va))"
    "set pool = F \<union> set pool3" "frame_count s3 = frame_count s"
    using g unfolding grown_def page_entry_def three_levels by auto
  show ?thesis
  proof (rule that [OF _ _ F(2,3) _ _ _ pl s' u(2,4)])
    show "space_ok s3 root pool3" using grown_sub_ok [OF g] by (simp add: space_ok_def three_levels)
    show "slot (ps_mem s3) 3 256 root (page_path va) = Some (pt, pt_index va)"
      using u le by (simp add: slot_unfold)
    show "space_tables s3 root = space_tables s root \<union> F"
      using F(1) unfolding tree_upd_def space_tables_def by blast
    show "\<forall>js. page_entry s3 root js = page_entry s root js"
      using F(1) unfolding tree_upd_def page_entry_def by simp
    show "\<forall>q. q \<notin> space_tables s root \<union> F \<longrightarrow> ps_mem s3 q = ps_mem s q"
      using F(1) unfolding tree_upd_def space_tables_def by blast
  qed
qed

text \<open>The last table of a path is none of the tables above it.\<close>

lemma slot_path_tables:
  assumes ok: "space_ok s root pool" and sl: "slot (ps_mem s) 3 256 root (page_path va) = Some (pt, pt_index va)"
  defines "pdpt \<equiv> child_of (ps_mem s) root (pml4_index va)"
  defines "pd \<equiv> child_of (ps_mem s) pdpt (pdpt_index va)"
  shows "pt \<noteq> root" "pt \<noteq> pdpt" "pt \<noteq> pd" "{root, pdpt, pd} \<subseteq> space_tables s root"
    "is_user (ps_mem s root (pml4_index va))" "is_user (ps_mem s pdpt (pdpt_index va))"
    "is_user (ps_mem s pd (pd_index va))"
proof -
  have u: "pml4_index va < 256" "is_user (ps_mem s root (pml4_index va))" "is_user (ps_mem s pdpt (pdpt_index va))"
    "is_user (ps_mem s pd (pd_index va))" "pt = child_of (ps_mem s) pd (pd_index va)"
    using sl by (simp_all add: slot_unfold pdpt_def pd_def split: if_splits)
  have ok3: "sub_ok s pool (Suc (Suc (Suc 0))) 256 root" using ok by (simp add: space_ok_def three_levels)
  note okp = sub_ok_child [OF ok3 u(1,2), folded pdpt_def]
  note okd = sub_ok_child [OF okp page_path_bounds(2) u(3), folded pd_def]
  have b2: "pt \<noteq> pd" "pt \<in> set (owned (ps_mem s) (Suc 0) 512 pd)"
    using sub_ok_below [OF okd page_path_bounds(3) u(4), of pt] by (simp_all add: u(5))
  have b3: "pt \<noteq> pdpt" "pt \<in> set (owned (ps_mem s) (Suc (Suc 0)) 512 pdpt)"
    "pd \<in> set (owned (ps_mem s) (Suc (Suc 0)) 512 pdpt)"
    using sub_ok_below [OF okp page_path_bounds(2) u(3), folded pd_def] b2 by auto
  have b4: "pt \<noteq> root" "{root, pdpt, pd} \<subseteq> space_tables s root"
    using sub_ok_below [OF ok3 u(1,2), folded pdpt_def] b3 by (auto simp: space_tables_def three_levels)
  show "pt \<noteq> root" "pt \<noteq> pdpt" "pt \<noteq> pd" "{root, pdpt, pd} \<subseteq> space_tables s root"
    "is_user (ps_mem s root (pml4_index va))" "is_user (ps_mem s pdpt (pdpt_index va))"
    "is_user (ps_mem s pd (pd_index va))"
    using b2(1) b3(1) b4 u by simp_all
qed

lemma map_ok_spec:
  assumes ok: "space_ok s root pool" and path: "path_ok (ps_mem s) (page_path va) root"
    and flags: "flags_ok flags" "flags_contain flags PTE_USER" and pa: "frame_ok pa"
    and old: "is_user (page_entry s root (page_path va)) \<Longrightarrow>
      pt_entry_addr_chirho (page_entry s root (page_path va)) \<notin> space_tables s root \<union> set pool"
    and r: "map_page_in_pt_chirho X root va pa flags s = (s', Inr ())"
  shows "\<exists>pool'. page_mapped s root pool (page_path va) pa (pa OR flags) s' pool'"
proof -
  obtain s3 s4 pool3 F pdpt pd pt rb where
    ok3: "space_ok s3 root pool3" and sl: "slot (ps_mem s3) 3 256 root (page_path va) = Some (pt, pt_index va)"
    and F: "set pool = F \<union> set pool3" and c3: "frame_count s3 = frame_count s"
    and t3: "space_tables s3 root = space_tables s root \<union> F"
    and e3: "\<forall>js. page_entry s3 root js = page_entry s root js"
    and off3: "\<forall>q. q \<notin> space_tables s root \<union> F \<longrightarrow> ps_mem s3 q = ps_mem s q"
    and pl: "publish_leaf X rb pt (pt_index va) pa flags s3 = (s4, Inr ())"
    and s': "s' = add_user_flag X pd (pd_index va) (add_user_flag X pdpt (pdpt_index va) (add_user_flag X root (pml4_index va) s4))"
    and t: "pdpt = child_of (ps_mem s3) root (pml4_index va)" "pd = child_of (ps_mem s3) pdpt (pdpt_index va)"
    by (rule map_reaches_slot [OF ok path flags(2) r])
  let ?old = "page_entry s root (page_path va)"
  let ?c = "inc_count (physical_frame_number_chirho pa) (frame_count s)"
  have oldm: "ps_mem s3 pt (pt_index va) = ?old"
    using spec [OF e3, of "page_path va"] sl by (simp add: page_entry_def leaf_def)
  define D where "D = (if frees_frame ?old ?c then {pt_entry_addr_chirho ?old} else {})"
  have D: "D \<inter> (space_tables s root \<union> set pool) = {}" using old by (auto simp: D_def frees_frame_def)
  have pt: "pt \<in> space_tables s3 root" using slot_owned [OF sl] by (simp add: space_tables_def)
  have ptp: "pt \<notin> set pool3" "alloc_pool s3 pool3" using ok3 pt by (auto simp: space_ok_def sub_ok_def space_tables_def)
  have "is_user ?old \<Longrightarrow> pt_entry_addr_chirho ?old \<notin> insert pt (set pool3)" using old F pt t3 by auto
  note p = publish_leaf_ok [OF pl ptp(2,1) pa flags, unfolded oldm c3, OF this]
  define pool4 where "pool4 = (if frees_frame ?old ?c then pt_entry_addr_chirho ?old # pool3 else pool3)"
  have pool4: "set pool4 = set pool3 \<union> D" by (simp add: pool4_def D_def)
  have off4: "ps_mem s4 r = ps_mem s3 r" if "r \<noteq> pt" "r \<notin> D" for r
    using p(5) that by (simp add: D_def split: if_splits)
  have D3: "D \<inter> space_tables s3 root = {}" using D F t3 by blast
  note w = slot_write [OF ok3 sl p(4) off4 D3 p(3) [folded pool4_def]]
  note tabs = slot_path_tables [OF ok3 sl, folded t(1), folded t(2)]
  have "root \<notin> D" "pdpt \<notin> D" "pd \<notin> D" using tabs(4) D3 by auto
  then have "is_user (ps_mem s4 root (pml4_index va))" "is_user (ps_mem s4 pdpt (pdpt_index va))"
    "is_user (ps_mem s4 pd (pd_index va))"
    using tabs(1-3,5-7) off4 [of root] off4 [of pdpt] off4 [of pd] by simp_all
  then have s4: "s' = s4" unfolding s' by (simp add: add_user_flag_id)
  have "set pool4 \<union> space_tables s' root = set pool \<union> space_tables s root \<union> D"
    using w(2) pool4 t3 F by (auto simp: s4)
  moreover have "ps_mem s' q = ps_mem s q" if "q \<notin> set pool \<union> space_tables s root \<union> D" for q
    using off4 [of q] off3 that pt t3 F by (auto simp: s4)
  ultimately have "page_mapped s root pool (page_path va) pa (pa OR flags) s' pool4"
    unfolding page_mapped_def Let_def D_def [symmetric] using w(1,3) pool4 e3 p(1) by (simp add: s4)
  then show ?thesis by blast
qed

end

end
