(* ===== verification/Page_Fault.thy ===== *)
theory Page_Fault
  imports Page_Map
begin

text \<open>
  Looking up, unmapping and copy-on-write faults on one address space.
\<close>

section \<open>The walk reads the view\<close>

lemma slot_path_ok: "slot m k n p is = Some x \<Longrightarrow> path_ok m is p"
proof (induction m k n p "is" rule: slot.induct)
  case (2 m k n p i "is")
  then show ?case by (cases "is") (auto split: if_splits)
qed (auto split: if_splits)

lemma page_entry_slot: "page_entry s root is \<noteq> 0 \<Longrightarrow> \<exists>q i. slot (ps_mem s) 3 256 root is = Some (q, i)"
  by (auto simp: page_entry_def leaf_def split: option.splits)

context x86_paging
begin

lemma walk_slot:
  assumes ok: "space_ok s root pool" and path: "path_ok (ps_mem s) (page_path va) root" and le: "pml4_index va < 256"
  shows "walk_page_table_chirho X root va s =
    (case slot (ps_mem s) 3 256 root (page_path va) of
       None \<Rightarrow> None | Some (q, i) \<Rightarrow> if ps_mem s q i = 0 then None else Some (q, i))"
proof -
  let ?m = "ps_mem s"
  let ?pdpt = "child_of ?m root (pml4_index va)"
  let ?pd = "child_of ?m ?pdpt (pdpt_index va)"
  have zero: "\<not> pt_entry_is_present_chirho 0" "\<not> is_user 0" by (simp_all add: flag_bits_hw is_user_def)
  have ok3: "sub_ok s pool (Suc (Suc (Suc 0))) 256 root" using ok by (simp add: space_ok_def three_levels)
  have fields: "pt_entry_is_present_chirho (?m p i) \<and> \<not> pt_entry_is_huge_chirho (?m p i)"
    if "sub_ok s pool (Suc k) n p" "i < n" "is_user (?m p i)" for k n p i
    using that by (auto simp: sub_ok_def)
  note b = page_path_bounds [of va]
  show ?thesis
  proof (cases "is_user (?m root (pml4_index va))")
    case False
    then have "?m root (pml4_index va) = 0" using path by (auto simp: page_path_def)
    then show ?thesis using False zero
      by (simp add: walk_page_table_chirho_def slot_unfold read_pt_entry_chirho_def Let_def)
  next
    case u4: True
    note f4 = fields [OF ok3 le u4]
    have ok2: "sub_ok s pool (Suc (Suc 0)) 512 ?pdpt" by (rule sub_ok_child [OF ok3 le u4])
    have path2: "path_ok ?m [pdpt_index va, pd_index va, pt_index va] ?pdpt"
      using path user_nonzero [OF u4] by (simp add: page_path_def)
    show ?thesis
    proof (cases "is_user (?m ?pdpt (pdpt_index va))")
      case False
      then have "?m ?pdpt (pdpt_index va) = 0" using path2 by auto
      then show ?thesis using False zero f4 u4
        by (simp add: walk_page_table_chirho_def slot_unfold read_pt_entry_chirho_def Let_def)
    next
      case u3: True
      note f3 = fields [OF ok2 b(2) u3]
      have ok1: "sub_ok s pool (Suc 0) 512 ?pd" by (rule sub_ok_child [OF ok2 b(2) u3])
      have path1: "path_ok ?m [pd_index va, pt_index va] ?pd" using path2 user_nonzero [OF u3] by simp
      show ?thesis
      proof (cases "is_user (?m ?pd (pd_index va))")
        case False
        then have "?m ?pd (pd_index va) = 0" using path1 by auto
        then show ?thesis using False zero f4 u4 f3 u3
          by (simp add: walk_page_table_chirho_def slot_unfold read_pt_entry_chirho_def Let_def)
      next
        case u2: True
        note f2 = fields [OF ok1 b(3) u2]
        show ?thesis using f4 f3 f2 u4 u3 u2 le
          by (simp add: walk_page_table_chirho_def slot_unfold read_pt_entry_chirho_def Let_def)
      qed
    qed
  qed
qed

lemma walk_cases:
  assumes "space_ok s root pool" and "path_ok (ps_mem s) (page_path va) root" and "pml4_index va < 256"
  obtains (unmapped) "walk_page_table_chirho X root va s = None" "page_entry s root (page_path va) = 0"
  | (mapped) pt i where "walk_page_table_chirho X root va s = Some (pt, i)"
      "slot (ps_mem s) 3 256 root (page_path va) = Some (pt, i)"
      "ps_mem s pt i = page_entry s root (page_path va)" "page_entry s root (page_path va) \<noteq> 0"
      "pt \<in> space_tables s root" "pt \<notin> set pool"
proof (cases "slot (ps_mem s) 3 256 root (page_path va)")
  case None
  then show ?thesis using walk_slot [OF assms] unmapped by (simp add: page_entry_def leaf_def)
next
  case (Some qi)
  obtain q i where qi: "qi = (q, i)" by (cases qi)
  have pe: "page_entry s root (page_path va) = ps_mem s q i" using Some qi by (simp add: page_entry_def leaf_def)
  have "q \<in> space_tables s root" using slot_owned [of "ps_mem s" 3 256 root "page_path va" q i] Some qi by (simp add: space_tables_def)
  moreover have "q \<notin> set pool" using calculation assms(1) by (auto simp: space_tables_def space_ok_def sub_ok_def)
  ultimately show ?thesis
    using walk_slot [OF assms] Some qi pe mapped [of q i] unmapped by (cases "ps_mem s q i = 0") auto
qed

lemma lookup_spec:
  assumes "space_ok s root pool" and "path_ok (ps_mem s) (page_path va) root" and "pml4_index va < 256"
  shows "lookup_in_pt_chirho X root va s = (let e = page_entry s root (page_path va) in
    if e = 0 then None else Some (pt_entry_addr_chirho e, entry_flags X e))"
  using assms
proof (cases rule: walk_cases)
  case (mapped pt i)
  then show ?thesis by (simp add: lookup_in_pt_chirho_def Let_def)
qed (simp add: lookup_in_pt_chirho_def)

end

section \<open>Unmapping\<close>

text \<open>The page at a path is gone: its entry is zero, its reference is dropped, and its
  frame is back in the pool if that was the last one.\<close>

definition page_removed :: "phys_state \<Rightarrow> u64 \<Rightarrow> u64 list \<Rightarrow> nat list \<Rightarrow> phys_state \<Rightarrow> u64 list \<Rightarrow> bool" where
  "page_removed s root pool is s' pool' \<longleftrightarrow>
     (let e = page_entry s root is;
          freed = (if frees_frame e (frame_count s) then {pt_entry_addr_chirho e} else {})
      in space_ok s' root pool' \<and> space_tables s' root = space_tables s root \<and>
         (\<forall>js. page_entry s' root js = (if js = is then 0 else page_entry s root js)) \<and>
         frame_count s' = drop_entry e (frame_count s) \<and> set pool' = set pool \<union> freed \<and>
         (\<forall>q. q \<notin> space_tables s root \<union> freed \<longrightarrow> ps_mem s' q = ps_mem s q) \<and>
         (\<forall>q\<in>freed. \<forall>i. i \<noteq> 0 \<longrightarrow> ps_mem s' q i = 0))"

lemma deallocate_words: "i \<noteq> 0 \<Longrightarrow> ps_mem (deallocate_frame_chirho f s) g i = ps_mem s g i"
  by (auto simp: deallocate_frame_chirho_def allocator_deallocate_frame_chirho_def Let_def split: option.splits)

context x86_paging
begin

lemma unmap_spec:
  assumes ok: "space_ok s root pool" and path: "path_ok (ps_mem s) (page_path va) root" and le: "pml4_index va < 256"
    and sep: "is_user (page_entry s root (page_path va)) \<Longrightarrow>
      pt_entry_addr_chirho (page_entry s root (page_path va)) \<notin> space_tables s root \<union> set pool"
    and r: "unmap_user_page_chirho X root va s = (s', r)"
  defines "e \<equiv> page_entry s root (page_path va)"
  shows "case r of
      Inl _ \<Rightarrow> is_user e \<and> frame_count s (physical_frame_number_chirho (pt_entry_addr_chirho e)) = Some 0 \<and>
        restored pool s s'
    | Inr NotMappedChirho \<Rightarrow> e = 0 \<and> s' = s
    | Inr NotUserMappingChirho \<Rightarrow> e \<noteq> 0 \<and> \<not> is_user e \<and> s' = s
    | Inr outcome \<Rightarrow> is_user e \<and> (outcome = FrameFreedChirho \<longleftrightarrow> frees_frame e (frame_count s)) \<and>
        (\<exists>pool'. page_removed s root pool (page_path va) s' pool')"
  using ok path le
proof (cases rule: walk_cases)
  case unmapped
  then show ?thesis using r by (auto simp: unmap_user_page_chirho_def e_def)
next
  case (mapped pt i)
  let ?p = "pt_entry_addr_chirho e"
  have pte: "ps_mem s pt i = e" "e \<noteq> 0" using mapped by (simp_all add: e_def)
  show ?thesis
  proof (cases "is_user e")
    case False
    then show ?thesis
      using r mapped(1) pte api_user [of e] by (auto simp: unmap_user_page_chirho_def Let_def)
  next
    case user: True
    let ?s1 = "write_pt_entry_chirho pt i 0 s"
    obtain s2 x where rel: "release_leaf_mapping_chirho ?p ?s1 = (s2, x)" by fastforce
    note s2 = release_leaf_spec(1-3) [OF rel]
    have pool: "alloc_pool s pool" using ok by (simp add: space_ok_def sub_ok_def)
    have s': "(s', r) = (case x of Inl err \<Rightarrow> (write_pt_entry_chirho pt i (entry_set_addr X ?p (entry_flags X e)) s2, Inl (UnmapLeafReleaseChirho err))
        | Inr ReleaseUnmanagedChirho \<Rightarrow> (s2, Inr UnmanagedMappingChirho)
        | Inr (StillReferencedChirho n) \<Rightarrow> (s2, Inr (UnmapStillReferencedChirho n))
        | Inr LastReferenceChirho \<Rightarrow> (deallocate_frame_chirho ?p (zero_frame_chirho ?p s2), Inr FrameFreedChirho))"
      using r mapped(1) pte user api_user [of e] rel
      by (auto simp: unmap_user_page_chirho_def Let_def api_flags(3)
          split: sum.splits FrameReleaseOutcomeChirho.splits)
    show ?thesis
    proof (cases x)
      case (Inl err)
      have c: "frame_count s (physical_frame_number_chirho ?p) = Some 0" "frame_count s2 = frame_count s"
        using release_leaf_spec(4) [OF rel] Inl by (auto split: option.splits if_splits)
      have e': "entry_set_addr X ?p (entry_flags X e) = e" using api_flags(2,3) [of e] by simp
      have w: "ps_mem s' = ps_mem s" "GLOBAL_FRAME_ALLOCATOR_CHIRHO s' = GLOBAL_FRAME_ALLOCATOR_CHIRHO s"
        "frame_count s' = frame_count s" "regs s' = regs s"
        using s' Inl s2 c(2) e' pte(1) by (auto simp: fun_eq_iff)
      have "restored pool s s'" using restored_write_back [OF pool mapped(6)] w by blast
      then show ?thesis using s' Inl user c by simp
    next
      case (Inr out)
      note ok2 = release_leaf_ok [OF rel [unfolded Inr]]
      have freed: "(out = LastReferenceChirho) = frees_frame e (frame_count s)"
        using ok2(2) user by (simp add: frees_frame_def)
      have cnt: "frame_count s2 = drop_entry e (frame_count s)" using ok2(1) user by (simp add: drop_entry_def)
      define D where "D = (if frees_frame e (frame_count s) then {?p} else {})"
      define pool' where "pool' = (if frees_frame e (frame_count s) then ?p # pool else pool)"
      have p: "?p \<notin> space_tables s root \<union> set pool" using sep user by (simp add: e_def)
      have "alloc_pool ?s1 pool" using pool mapped(6) by blast
      then have p2: "alloc_pool s2 pool" using alloc_pool_mem [of ?s1 pool s2] s2 by simp
      have f: "alloc_pool s' pool' \<and> frame_count s' = drop_entry e (frame_count s) \<and>
          (\<forall>q. q \<notin> D \<longrightarrow> ps_mem s' q = ps_mem s2 q) \<and> (\<forall>q\<in>D. \<forall>i. i \<noteq> 0 \<longrightarrow> ps_mem s' q i = 0)"
      proof (cases "out = LastReferenceChirho")
        case True
        then show ?thesis
          using s' Inr drop_frame_spec [OF p2, of ?p] p cnt freed by (simp add: pool'_def D_def deallocate_words)
      next
        case False
        then have "s' = s2" using s' Inr by (auto split: FrameReleaseOutcomeChirho.splits)
        then show ?thesis using p2 cnt freed False by (simp add: pool'_def D_def)
      qed
      have D: "D \<inter> space_tables s root = {}" using p by (simp add: D_def)
      have q: "ps_mem s' pt = (ps_mem s pt)(i := 0)" using f D mapped(5) s2(1) by auto
      have off: "ps_mem s' q = ps_mem s q" if "q \<noteq> pt" "q \<notin> D" for q using f that s2(1) by simp
      have sub: "set pool' \<subseteq> set pool \<union> D" by (simp add: pool'_def D_def)
      note w = slot_write [OF ok mapped(2) q off D conjunct1 [OF f] sub]
      have off': "ps_mem s' q = ps_mem s q" if "q \<notin> space_tables s root \<union> D" for q
        using off [of q] mapped(5) that by blast
      have "set pool' = set pool \<union> D" by (simp add: pool'_def D_def)
      then have "page_removed s root pool (page_path va) s' pool'"
        unfolding page_removed_def Let_def e_def [symmetric] D_def [symmetric] using w f off' by blast
      then show ?thesis using s' Inr user freed by (auto split: FrameReleaseOutcomeChirho.splits)
    qed
  qed
qed

end

section \<open>Copy on write\<close>

text \<open>The page at a path is backed by \<^verbatim>\<open>f\<close> now: either the same frame made writable, or a
  frame from the pool with the contents of the shared one.\<close>

definition page_copied :: "phys_state \<Rightarrow> u64 \<Rightarrow> u64 list \<Rightarrow> nat list \<Rightarrow> u64 \<Rightarrow> u64 \<Rightarrow> phys_state \<Rightarrow> u64 list \<Rightarrow> bool" where
  "page_copied s root pool is f flags s' pool' \<longleftrightarrow>
     (let e = page_entry s root is; old = pt_entry_addr_chirho e
      in space_ok s' root pool' \<and> space_tables s' root = space_tables s root \<and>
         (\<forall>js. page_entry s' root js = (if js = is then f OR flags else page_entry s root js)) \<and>
         ps_mem s' f = ps_mem s old \<and>
         (if f = old then frame_count s (physical_frame_number_chirho old) = Some 1 \<and>
            pool' = pool \<and> frame_count s' = frame_count s
          else pool = f # pool' \<and> frame_count s (physical_frame_number_chirho f) \<noteq> None \<and>
            frame_count s (physical_frame_number_chirho old) \<noteq> Some 1 \<and>
            frame_count s' = dec_count (physical_frame_number_chirho old)
              (inc_count (physical_frame_number_chirho f) (frame_count s))) \<and>
         (\<forall>q. q \<notin> space_tables s root \<union> set pool \<longrightarrow> ps_mem s' q = ps_mem s q) \<and>
         (\<exists>pt i. slot (ps_mem s) 3 256 root is = Some (pt, i) \<and>
            ps_mem s' = (ps_mem s)(f := ps_mem s old, pt := (ps_mem s pt)(i := f OR flags))))"

text \<open>When the handler can give the page a frame: the page is its frame's only mapping,
  or the allocator's lock is free and the next free frame is managed and below the
  largest count.\<close>

definition cow_frame_ready :: "bool \<Rightarrow> phys_state \<Rightarrow> u64 list \<Rightarrow> u32 \<Rightarrow> bool" where
  "cow_frame_ready free s pool n \<longleftrightarrow> n = 1 \<or> n \<noteq> 0 \<and> free \<and>
     (\<exists>f rest m. pool = f # rest \<and> frame_count s (physical_frame_number_chirho f) = Some m \<and>
        m \<noteq> MAX_MANAGED_FRAME_COUNT_CHIRHO)"

lemma cow_flag_bits: "i < 64 \<Longrightarrow> bit (cow_resolved_flags f) i \<longleftrightarrow> i \<noteq> 9 \<and> (i = 1 \<or> bit f i)"
proof -
  have p: "PTE_WRITABLE = 2 ^ 1" "PTE_BIT_9 = 2 ^ 9" by (simp_all add: pt_consts)
  have "bit PTE_WRITABLE j \<longleftrightarrow> j = 1" "bit PTE_BIT_9 j \<longleftrightarrow> j = 9" for j
    by (subst p, subst bit_exp_iff, force)+
  then show "i < 64 \<Longrightarrow> ?thesis" by (auto simp: cow_resolved_flags_def bit_simps)
qed

lemma cow_flags_ok: "flags_ok f \<Longrightarrow> flags_ok (cow_resolved_flags f)"
proof -
  assume f: "flags_ok f"
  have "(cow_resolved_flags f) AND ENTRY_ADDR_MASK = ((f AND ENTRY_ADDR_MASK) OR (PTE_WRITABLE AND ENTRY_ADDR_MASK)) AND NOT PTE_BIT_9"
    by (rule bit_eqI) (auto simp: cow_resolved_flags_def bit_simps)
  then show ?thesis using f by (simp add: flags_ok_def pt_consts ENTRY_ADDR_MASK_def)
qed

context x86_paging
begin

lemma cow_copy_spec:
  assumes ok: "space_ok s root pool" and sl: "slot (ps_mem s) 3 256 root is = Some (pt, i)"
    and sep: "pt_entry_addr_chirho (page_entry s root is) \<notin> space_tables s root \<union> set pool"
    and n: "frame_count s (physical_frame_number_chirho (pt_entry_addr_chirho (page_entry s root is))) = Some n"
      "n \<noteq> 0" "n \<noteq> 1"
    and r: "cow_copy_page X pt i (pt_entry_addr_chirho (page_entry s root is)) flags s = (s', b)"
    and flags: "flags_ok flags"
  shows "b \<longleftrightarrow> cow_frame_ready True s pool n"
    and "if b then \<exists>f pool'. page_copied s root pool is f (cow_resolved_flags flags) s' pool' else restored pool s s'"
proof -
  let ?old = "pt_entry_addr_chirho (page_entry s root is)" and ?nf = "cow_resolved_flags flags"
  let ?pf = physical_frame_number_chirho
  have pool: "alloc_pool s pool" using ok by (simp add: space_ok_def sub_ok_def)
  have nf: "flags_ok ?nf" by (rule cow_flags_ok [OF flags])
  have pt: "pt \<in> space_tables s root" using slot_owned [OF sl] by (simp add: space_tables_def)
  have ptp: "pt \<notin> set pool" using ok pt by (auto simp: space_ok_def sub_ok_def space_tables_def)
  obtain s1 f1 where al: "alloc_frame_chirho X s = (s1, f1)" by fastforce
  note s1 = alloc_frame_spec [OF pool al]
  have "(b \<longleftrightarrow> cow_frame_ready True s pool n) \<and>
    (if b then \<exists>f pool'. page_copied s root pool is f ?nf s' pool' else restored pool s s')"
  proof (cases pool)
    case Nil
    then have "s' = s1" "\<not> b" using r al s1(1) by (simp_all add: cow_copy_page_def)
    then show ?thesis using s1 Nil n(3) by (simp add: restored_def cow_frame_ready_def)
  next
    case (Cons f rest)
    then have f1: "f1 = Some f" using s1(1) by simp
    have fr: "frame_ok f" "f \<notin> set rest" "f \<noteq> ?old" "f \<notin> space_tables s root" "f \<noteq> pt"
      using pool Cons sep ok pt ptp
      by (auto simp: alloc_pool_def pool_ok_def space_ok_def sub_ok_def space_tables_def)
    have pc: "alloc_pool (copy_frame ?old f s1) rest" using s1(2) Cons fr(2) by auto
    obtain s2 x where ret: "retain_leaf_mapping_chirho f (copy_frame ?old f s1) = (s2, x)" by fastforce
    note s2 = retain_leaf_spec [OF ret]
    have p2: "alloc_pool s2 rest" using alloc_pool_mem [OF pc, of s2] s2 by simp
    show ?thesis
    proof (cases "\<exists>k. x = Inr (ManagedChirho k)")
      case False
      have c: "frame_count s2 = frame_count s" using s2(4) s1(4) False by (auto split: option.splits if_splits)
      have nr: "\<not> cow_frame_ready True s pool n"
        using s2(4) s1(4) False n(3) Cons by (auto simp: cow_frame_ready_def split: option.splits if_splits)
      have s': "s' = deallocate_frame_chirho f s2" "\<not> b"
        using r al f1 ret False
        by (auto simp: cow_copy_page_def split: sum.splits FrameRetainOutcomeChirho.splits)
      have "restored pool s s'"
        unfolding restored_def s' using deallocate_frame_spec [OF p2 fr(2,1)] s2(1,3) s1(3,5) c Cons by auto
      then show ?thesis using s'(2) nr by simp
    next
      case True
      then obtain k where k: "x = Inr (ManagedChirho k)" by blast
      let ?w = "write_pt_entry_chirho pt i (f OR ?nf) s2"
      obtain s3 y where rel: "release_leaf_mapping_chirho ?old ?w = (s3, y)" by fastforce
      note s3 = release_leaf_spec [OF rel]
      have cf: "frame_count s2 = inc_count (?pf f) (frame_count s)" "frame_count s (?pf f) \<noteq> None"
        using retain_leaf_ok [OF ret [unfolded k]] s2(4) s1(4) k by (auto split: option.splits)
      have "?pf ?old \<noteq> ?pf f" using frame_number_inject [of ?old f] fr(1,3) by auto
      then have "frame_count ?w (?pf ?old) = Some n" using cf n(1) by (simp add: inc_count_def split: option.splits)
      then have y: "y = Inr (StillReferencedChirho (n - 1))" "frame_count s3 = dec_count (?pf ?old) (frame_count s2)"
        using s3(4) n(2,3) by (simp_all add: dec_count_def)
      have s': "s' = s3" "b" using r al f1 ret k rel y(1) fr(1) nf by (simp_all add: cow_copy_page_def)
      have m: "ps_mem s' = ((ps_mem s)(f := ps_mem s ?old))(pt := (ps_mem s pt)(i := f OR ?nf))"
        using s3(1) s2(1) s1(3) fr(5) by (simp add: s')
      have "alloc_pool ?w rest" using p2 ptp Cons by auto
      then have p3: "alloc_pool s' rest" using alloc_pool_mem [of ?w rest s3] s3 by (simp add: s')
      have w: "space_ok s' root rest" "space_tables s' root = space_tables s root"
        "page_entry s' root js = (if js = is then f OR ?nf else page_entry s root js)" for js
        using slot_write [OF ok sl _ _ _ p3, of "f OR ?nf" "{f}"] m fr Cons by (simp_all add: subset_insertI)
      have "ps_mem s' q = ps_mem s q" if "q \<notin> space_tables s root \<union> set pool" for q using that m pt Cons by auto
      moreover have "ps_mem s' f = ps_mem s ?old" using m fr(5) by simp
      moreover have "frame_count s' = dec_count (?pf ?old) (inc_count (?pf f) (frame_count s))"
        using y(2) cf(1) by (simp add: s')
      ultimately have "page_copied s root pool is f ?nf s' rest"
        unfolding page_copied_def Let_def using w fr(3,5) Cons cf(2) n(1,3) sl m by simp
      moreover have "cow_frame_ready True s pool n"
        using s2(4) s1(4) k n(2) Cons by (auto simp: cow_frame_ready_def split: option.splits if_splits)
      ultimately show ?thesis using s'(2) by auto
    qed
  qed
  then show "b \<longleftrightarrow> cow_frame_ready True s pool n"
    "if b then \<exists>f pool'. page_copied s root pool is f ?nf s' pool' else restored pool s s'" by blast+
qed

lemma cow_spec:
  assumes ok: "space_ok s (ps_cr3 s) pool" and path: "path_ok (ps_mem s) (page_path va) (ps_cr3 s)"
    and le: "pml4_index va < 256"
    and sep: "pt_entry_addr_chirho (page_entry s (ps_cr3 s) (page_path va)) \<notin> space_tables s (ps_cr3 s) \<union> set pool"
    and r: "handle_cow_fault_chirho X free va s = (s', b)"
  defines "e \<equiv> page_entry s (ps_cr3 s) (page_path va)"
  shows "(b \<longleftrightarrow> bit e 9 \<and> (\<exists>n. frame_count s (physical_frame_number_chirho (pt_entry_addr_chirho e)) = Some n \<and>
        cow_frame_ready free s pool n)) \<and>
    (if b then \<exists>f pool'. page_copied s (ps_cr3 s) pool (page_path va) f (cow_resolved_flags (entry_flags X e)) s' pool'
     else restored pool s s')"
  using ok path le
proof (cases rule: walk_cases)
  case unmapped
  have "alloc_pool s pool" using ok by (simp add: space_ok_def sub_ok_def)
  then show ?thesis using r unmapped restored_refl by (auto simp: handle_cow_fault_chirho_def e_def)
next
  case (mapped pt i)
  let ?root = "ps_cr3 s" and ?old = "pt_entry_addr_chirho e" and ?fl = "entry_flags X e"
  have pte: "ps_mem s pt i = e" using mapped by (simp add: e_def)
  have pool: "alloc_pool s pool" using ok by (simp add: space_ok_def sub_ok_def)
  have nf: "flags_ok (cow_resolved_flags ?fl)" by (rule cow_flags_ok [OF api_flags(3)])
  have cow: "(?fl AND COW_BIT_CHIRHO = 0) = (\<not> bit e 9)"
    using api_flags(1) [of 9 e] flag_bits_hw(8) [of ?fl] by auto
  note hs = handle_cow_fault_chirho_def Let_def leaf_count_eq api_flags(3) cow mapped(1) pte nf
  show ?thesis
  proof (cases "bit e 9 \<and> (\<exists>n. frame_count s (physical_frame_number_chirho ?old) = Some n \<and> n \<noteq> 0 \<and> (n = 1 \<or> free))")
    case False
    then have "s' = s" "\<not> b" using r by (auto simp: hs split: option.splits if_splits)
    then show ?thesis using restored_refl [OF pool] False by (auto simp: cow_frame_ready_def)
  next
    case True
    then obtain n where n: "bit e 9" "frame_count s (physical_frame_number_chirho ?old) = Some n" "n \<noteq> 0" "n = 1 \<or> free"
      by blast
    show ?thesis
    proof (cases "n = 1")
      case one: True
      have s': "s' = write_pt_entry_chirho pt i (?old OR cow_resolved_flags ?fl) s" "b"
        using r n one by (simp_all add: hs)
      have "alloc_pool s' pool" unfolding s' using pool mapped(6) by blast
      note w = slot_write [OF ok mapped(2) _ _ _ this, of "?old OR cow_resolved_flags ?fl" "{}"]
      have "page_copied s ?root pool (page_path va) ?old (cow_resolved_flags ?fl) s' pool"
        unfolding page_copied_def Let_def using w s' one n(2) sep mapped(2,5) by (auto simp flip: e_def)
      then show ?thesis using s'(2) n(1,2) one by (auto simp: cow_frame_ready_def)
    next
      case shared: False
      then have c: "cow_copy_page X pt i ?old ?fl s = (s', b)" using r n by (simp add: hs)
      show ?thesis
        using cow_copy_spec [OF ok mapped(2) sep, folded e_def, OF n(2,3) shared c api_flags(3)] n shared
        by (auto simp: cow_frame_ready_def)
    qed
  qed
qed

text \<open>A fault on a page that is not marked copy-on-write is not handled.\<close>

lemma cow_not_marked:
  assumes "space_ok s (ps_cr3 s) pool" and "path_ok (ps_mem s) (page_path va) (ps_cr3 s)" and "pml4_index va < 256"
    and "\<not> bit (page_entry s (ps_cr3 s) (page_path va)) 9"
  shows "handle_cow_fault_chirho X free va s = (s, False)"
  using assms(1-3)
proof (cases rule: walk_cases)
  case (mapped pt i)
  have "(entry_flags X (ps_mem s pt i)) AND COW_BIT_CHIRHO = 0"
    using assms(4) mapped(3) api_flags(1) [of 9 "ps_mem s pt i"] flag_bits_hw(8) [of "entry_flags X (ps_mem s pt i)"] by auto
  then show ?thesis using mapped(1) by (simp add: handle_cow_fault_chirho_def Let_def)
qed (simp add: handle_cow_fault_chirho_def)

end

end
