(* ===== verification/Page_Space.thy ===== *)
theory Page_Space
  imports Page_Fault
begin

text \<open>
  The memory of all address spaces together.  The invariant \<^verbatim>\<open>mm_inv\<close> ties the
  tables, the allocator and the mapping counts: the spaces are trees of distinct
  tables, no table and no mapped frame is free, and the count of every managed frame
  is the number of user entries, over all spaces, that map it.  It is kept by
  mapping, unmapping, demand paging and copy-on-write faults.
\<close>

section \<open>The entries of a space\<close>

lemma slot_bounded: "slot m k n p is = Some x \<Longrightarrow> n \<le> 512 \<Longrightarrow> length is = Suc k \<and> set is \<subseteq> {..<512}"
proof (induction m k n p "is" rule: slot.induct)
  case (2 m k n p i "is")
  then show ?case by (auto split: if_splits)
qed (auto split: if_splits)

lemma page_entry_path: "page_entry s r is \<noteq> 0 \<Longrightarrow> length is = 4 \<and> set is \<subseteq> {..<512}"
  using slot_bounded [of "ps_mem s" 3 256 r "is"] page_entry_slot [of s r "is"] by fastforce

definition maps_frame :: "u64 \<Rightarrow> usize \<Rightarrow> bool" where
  "maps_frame e f \<longleftrightarrow> is_user e \<and> physical_frame_number_chirho (pt_entry_addr_chirho e) = f"

definition user_maps :: "phys_state \<Rightarrow> u64 set \<Rightarrow> usize \<Rightarrow> (u64 \<times> nat list) set" where
  "user_maps s R f = {(r, is). r \<in> R \<and> maps_frame (page_entry s r is) f}"

lemma finite_user_maps: "finite R \<Longrightarrow> finite (user_maps s R f)"
proof -
  assume "finite R"
  moreover have "user_maps s R f \<subseteq> R \<times> {is. set is \<subseteq> {..<512} \<and> length is = 4}"
    using page_entry_path by (auto simp: user_maps_def maps_frame_def dest: user_nonzero)
  ultimately show ?thesis
    using finite_subset [OF _ finite_cartesian_product [OF _ finite_lists_length_eq [of "{..<512}" 4]]] by blast
qed

lemma card_point_update:
  assumes "finite {k. P (E k)}" and "\<And>k. E' k = (if k = a then v else E k)"
  shows "card {k. P (E' k)} + of_bool (P (E a)) = card {k. P (E k)} + of_bool (P v)"
proof -
  let ?S = "{k. P (E k)} - {a}"
  have "card {k. P (E k)} = card ?S + of_bool (P (E a))"
    using assms(1) card_Suc_Diff1 [of "{k. P (E k)}" a] by (cases "P (E a)") simp_all
  moreover have "card {k. P (E' k)} = card ?S + of_bool (P v)"
  proof (cases "P v")
    case True
    then have "{k. P (E' k)} = insert a ?S" using assms(2) by auto
    then show ?thesis using True assms(1) card_insert_disjoint [of ?S a] by (simp del: insert_Diff_single)
  next
    case False
    then have "{k. P (E' k)} = ?S" using assms(2) by auto
    then show ?thesis using False by simp
  qed
  ultimately show ?thesis by simp
qed

section \<open>The invariant\<close>

definition all_tables :: "phys_state \<Rightarrow> u64 set \<Rightarrow> u64 set" where
  "all_tables s R = (\<Union>r\<in>R. space_tables s r)"

definition counts_exact :: "phys_state \<Rightarrow> u64 set \<Rightarrow> bool" where
  "counts_exact s R \<longleftrightarrow> (\<forall>f n. frame_count s f = Some n \<longrightarrow> unat n = card (user_maps s R f))"

definition pages_ok :: "phys_state \<Rightarrow> u64 set \<Rightarrow> u64 list \<Rightarrow> bool" where
  "pages_ok s R pool \<longleftrightarrow> (\<forall>r\<in>R. \<forall>is.
     (is_user (page_entry s r is) \<longrightarrow> pt_entry_addr_chirho (page_entry s r is) \<notin> all_tables s R \<union> set pool) \<and>
     (bit (page_entry s r is) 9 \<longrightarrow> is_user (page_entry s r is)))"

definition mm_inv :: "phys_state \<Rightarrow> u64 set \<Rightarrow> u64 list \<Rightarrow> bool" where
  "mm_inv s R pool \<longleftrightarrow> finite R \<and> alloc_pool s pool \<and> (\<forall>r\<in>R. space_ok s r pool) \<and>
     (\<forall>r\<in>R. \<forall>r'\<in>R. r \<noteq> r' \<longrightarrow> space_tables s r \<inter> space_tables s r' = {}) \<and>
     pages_ok s R pool \<and> counts_exact s R"

lemma mm_invD:
  assumes "mm_inv s R pool"
  shows "finite R" "alloc_pool s pool" "r \<in> R \<Longrightarrow> space_ok s r pool"
    "r \<in> R \<Longrightarrow> r' \<in> R \<Longrightarrow> r \<noteq> r' \<Longrightarrow> space_tables s r \<inter> space_tables s r' = {}"
    "r \<in> R \<Longrightarrow> is_user (page_entry s r is) \<Longrightarrow> pt_entry_addr_chirho (page_entry s r is) \<notin> all_tables s R \<union> set pool"
    "r \<in> R \<Longrightarrow> bit (page_entry s r is) 9 \<Longrightarrow> is_user (page_entry s r is)"
    "frame_count s f = Some n \<Longrightarrow> unat n = card (user_maps s R f)"
    "all_tables s R \<inter> set pool = {}"
  using assms by (auto simp: mm_inv_def pages_ok_def counts_exact_def all_tables_def space_ok_def sub_ok_def space_tables_def)

lemma mm_inv_mapped_count:
  assumes "mm_inv s R pool" and "r \<in> R" and "maps_frame (page_entry s r is) f" and "frame_count s f = Some n"
  shows "n \<noteq> 0"
proof -
  have "(r, is) \<in> user_maps s R f" using assms(2,3) by (simp add: user_maps_def)
  then have "card (user_maps s R f) \<noteq> 0" using finite_user_maps [OF mm_invD(1) [OF assms(1)]] by auto
  then show ?thesis using mm_invD(7) [OF assms(1,4)] by auto
qed

text \<open>A frame of the pool is mapped nowhere, so its count is zero if it has one.\<close>

lemma pool_frame_count:
  assumes inv: "mm_inv s R pool" and f: "f \<in> set pool" "frame_count s (physical_frame_number_chirho f) = Some n"
  shows "n = 0"
proof -
  have fok: "frame_ok f" using f(1) mm_invD(2) [OF inv] by (auto simp: alloc_pool_def)
  have "user_maps s R (physical_frame_number_chirho f) = {}"
    using mm_invD(5) [OF inv] f(1) frame_number_inject [OF _ fok]
    by (auto simp: user_maps_def maps_frame_def)
  then show ?thesis using mm_invD(7) [OF inv f(2)] by (simp add: unat_eq_0)
qed

definition cow_frame_free :: "bool \<Rightarrow> phys_state \<Rightarrow> u64 list \<Rightarrow> u32 \<Rightarrow> bool" where
  "cow_frame_free free s pool n \<longleftrightarrow> n = 1 \<or>
     free \<and> (\<exists>f rest. pool = f # rest \<and> frame_count s (physical_frame_number_chirho f) \<noteq> None)"

text \<open>A space whose tables are not written is the same space.\<close>

lemma space_unchanged:
  assumes "\<And>q. q \<in> space_tables s r \<Longrightarrow> ps_mem s' q = ps_mem s q"
  shows "space_tables s' r = space_tables s r" "page_entry s' r is = page_entry s r is"
    "wf_tree (ps_mem s') 3 256 r = wf_tree (ps_mem s) 3 256 r"
    "owned (ps_mem s') 3 256 r = owned (ps_mem s) 3 256 r"
  using tree_cong [of "ps_mem s" 3 256 r "ps_mem s'"] assms by (simp_all add: space_tables_def page_entry_def)

lemma space_ok_unchanged:
  assumes "space_ok s r pool" and "alloc_pool s' pool'" and "set pool' \<inter> space_tables s r = {}"
    and "\<And>q. q \<in> space_tables s r \<Longrightarrow> ps_mem s' q = ps_mem s q"
  shows "space_ok s' r pool'"
  using assms(1-3) space_unchanged(3,4) [of s r s', OF assms(4)]
  by (auto simp: space_ok_def sub_ok_def space_tables_def)

text \<open>The count of a mapped frame is one exactly when no other page maps it.\<close>

lemma sole_mapping:
  fixes "is" :: "nat list"
  assumes inv: "mm_inv s R pool" and r: "r \<in> R"
  defines "e \<equiv> page_entry s r is"
  defines "f \<equiv> physical_frame_number_chirho (pt_entry_addr_chirho e)"
  shows "frees_frame e (frame_count s) \<longleftrightarrow> is_user e \<and> frame_count s f \<noteq> None \<and> user_maps s R f = {(r, is)}"
proof (cases "is_user e \<and> frame_count s f \<noteq> None")
  case True
  then obtain n where n: "frame_count s f = Some n" by auto
  have m: "(r, is) \<in> user_maps s R f" using True r by (simp add: user_maps_def maps_frame_def e_def f_def)
  have "n = 1 \<longleftrightarrow> unat n = 1" by (simp add: word_unat_eq_iff)
  also have "\<dots> \<longleftrightarrow> user_maps s R f = {(r, is)}"
    using mm_invD(7) [OF inv n] m by (metis One_nat_def card_1_singletonE card.empty card_insert_disjoint empty_iff finite.emptyI singletonD)
  finally show ?thesis using True n by (simp add: frees_frame_def f_def)
qed (auto simp: frees_frame_def f_def)

section \<open>One page of one space changes\<close>

text \<open>The counts follow the entry of one page from \<^verbatim>\<open>e\<close> to \<^verbatim>\<open>v\<close>.\<close>

definition counts_follow :: "(usize \<Rightarrow> u32 option) \<Rightarrow> (usize \<Rightarrow> u32 option) \<Rightarrow> u64 \<Rightarrow> u64 \<Rightarrow> bool" where
  "counts_follow c c' e v \<longleftrightarrow> (\<forall>f n'. c' f = Some n' \<longrightarrow> (\<exists>n. c f = Some n \<and>
     unat n' + of_bool (maps_frame e f) = unat n + of_bool (maps_frame v f)))"

definition page_changed :: "phys_state \<Rightarrow> u64 set \<Rightarrow> u64 list \<Rightarrow> u64 \<Rightarrow> nat list \<Rightarrow> u64 \<Rightarrow> u64 set \<Rightarrow> phys_state \<Rightarrow> u64 list \<Rightarrow> bool" where
  "page_changed s R pool root is v D s' pool' \<longleftrightarrow>
     space_ok s' root pool' \<and>
     set pool' \<union> space_tables s' root \<subseteq> set pool \<union> space_tables s root \<union> D \<and>
     (\<forall>js. page_entry s' root js = (if js = is then v else page_entry s root js)) \<and>
     (\<forall>q. q \<notin> set pool \<union> space_tables s root \<union> D \<longrightarrow> ps_mem s' q = ps_mem s q) \<and>
     D \<inter> all_tables s R = {} \<and>
     (\<forall>p\<in>D. frame_count s' (physical_frame_number_chirho p) = Some 0) \<and>
     (bit v 9 \<longrightarrow> is_user v) \<and>
     (is_user v \<longrightarrow> pt_entry_addr_chirho v \<notin> set pool' \<union> space_tables s' root \<union> all_tables s (R - {root}) \<or>
        pt_entry_addr_chirho v \<in> D) \<and>
     counts_follow (frame_count s) (frame_count s') (page_entry s root is) v"

lemma page_changedD:
  assumes "page_changed s R pool root is v D s' pool'"
  shows "space_ok s' root pool'" "set pool' \<union> space_tables s' root \<subseteq> set pool \<union> space_tables s root \<union> D"
    "page_entry s' root js = (if js = is then v else page_entry s root js)"
    "q \<notin> set pool \<union> space_tables s root \<union> D \<Longrightarrow> ps_mem s' q = ps_mem s q"
    "D \<inter> all_tables s R = {}" "p \<in> D \<Longrightarrow> frame_count s' (physical_frame_number_chirho p) = Some 0"
    "bit v 9 \<Longrightarrow> is_user v"
    "is_user v \<Longrightarrow> pt_entry_addr_chirho v \<notin> set pool' \<union> space_tables s' root \<union> all_tables s (R - {root}) \<or>
        pt_entry_addr_chirho v \<in> D"
    "counts_follow (frame_count s) (frame_count s') (page_entry s root is) v"
    "alloc_pool s' pool'"
  using assms by (simp_all add: page_changed_def space_ok_def sub_ok_def)

lemma page_changed_other:
  assumes inv: "mm_inv s R pool" and root: "root \<in> R" and ch: "page_changed s R pool root is v D s' pool'"
    and r: "r \<in> R" "r \<noteq> root"
  shows "space_tables s r \<inter> (set pool \<union> space_tables s root \<union> D) = {}"
    "space_tables s' r = space_tables s r" "page_entry s' r js = page_entry s r js" "space_ok s' r pool'"
proof -
  have t: "space_tables s r \<subseteq> all_tables s R" using r(1) by (auto simp: all_tables_def)
  then show disj: "space_tables s r \<inter> (set pool \<union> space_tables s root \<union> D) = {}"
    using mm_invD(4) [OF inv r(1) root r(2)] mm_invD(8) [OF inv] page_changedD(5) [OF ch] by blast
  have mem: "ps_mem s' q = ps_mem s q" if "q \<in> space_tables s r" for q
    using disj that by (intro page_changedD(4) [OF ch]) blast
  show "space_tables s' r = space_tables s r" "page_entry s' r js = page_entry s r js"
    using space_unchanged [of s r s', OF mem] by blast+
  have "set pool' \<inter> space_tables s r = {}" using disj page_changedD(2) [OF ch] by blast
  then show "space_ok s' r pool'"
    using space_ok_unchanged [OF mm_invD(3) [OF inv r(1)] page_changedD(10) [OF ch]] mem by blast
qed

lemma page_changed_entry:
  assumes "mm_inv s R pool" and "root \<in> R" and "page_changed s R pool root is v D s' pool'" and "r \<in> R"
  shows "page_entry s' r js = (if (r, js) = (root, is) then v else page_entry s r js)"
  using page_changed_other(3) [OF assms] page_changedD(3) [OF assms(3)] by (cases "r = root") auto

lemma page_changed_counts:
  assumes inv: "mm_inv s R pool" and root: "root \<in> R" and ch: "page_changed s R pool root is v D s' pool'"
  shows "counts_exact s' R"
  unfolding counts_exact_def
proof (intro allI impI)
  fix f n' assume "frame_count s' f = Some n'"
  then obtain n where n: "frame_count s f = Some n"
    "unat n' + of_bool (maps_frame (page_entry s root is) f) = unat n + of_bool (maps_frame v f)"
    using page_changedD(9) [OF ch] unfolding counts_follow_def by blast
  let ?E = "\<lambda>s k. if fst k \<in> R then page_entry s (fst k) (snd k) else 0"
  have um: "user_maps t R f = {k. maps_frame (?E t k) f}" for t
    by (auto simp: user_maps_def maps_frame_def dest: user_nonzero)
  have "card {k. maps_frame (?E s' k) f} + of_bool (maps_frame (?E s (root, is)) f) =
      card {k. maps_frame (?E s k) f} + of_bool (maps_frame v f)"
  proof (rule card_point_update [of "\<lambda>e. maps_frame e f"])
    show "finite {k. maps_frame (?E s k) f}"
      using finite_user_maps [OF mm_invD(1) [OF inv], of s f] by (simp add: um)
    show "?E s' k = (if k = (root, is) then v else ?E s k)" for k
      using page_changed_entry [OF inv root ch, of "fst k" "snd k"] root by (cases k) (auto split: if_splits)
  qed
  then show "unat n' = card (user_maps s' R f)" using n mm_invD(7) [OF inv n(1)] root by (simp add: um)
qed

lemma exact_zero_unmapped:
  assumes "counts_exact s R" and "finite R" and "r \<in> R" and "is_user (page_entry s r js)"
  shows "frame_count s (physical_frame_number_chirho (pt_entry_addr_chirho (page_entry s r js))) \<noteq> Some 0"
proof
  let ?f = "physical_frame_number_chirho (pt_entry_addr_chirho (page_entry s r js))"
  assume "frame_count s ?f = Some 0"
  then have "card (user_maps s R ?f) = 0" using assms(1) unfolding counts_exact_def by (metis unsigned_0)
  moreover have "(r, js) \<in> user_maps s R ?f" using assms(3,4) by (simp add: user_maps_def maps_frame_def)
  ultimately show False using finite_user_maps [OF assms(2)] by auto
qed

lemma page_changed_pages:
  assumes inv: "mm_inv s R pool" and root: "root \<in> R" and ch: "page_changed s R pool root is v D s' pool'"
  shows "pages_ok s' R pool'"
  unfolding pages_ok_def
proof (intro ballI allI conjI impI)
  fix r js assume r: "r \<in> R"
  note entry = page_changed_entry [OF inv root ch r, of js]
  show "is_user (page_entry s' r js)" if "bit (page_entry s' r js) 9"
    using that entry page_changedD(7) [OF ch] mm_invD(6) [OF inv r] by (auto split: if_splits)
  have tabs: "all_tables s' R = space_tables s' root \<union> all_tables s (R - {root})"
    using root page_changed_other(2) [OF inv root ch] by (auto simp: all_tables_def)
  show "pt_entry_addr_chirho (page_entry s' r js) \<notin> all_tables s' R \<union> set pool'" if u: "is_user (page_entry s' r js)"
  proof -
    have D: "pt_entry_addr_chirho (page_entry s' r js) \<notin> D"
      using exact_zero_unmapped [OF page_changed_counts [OF inv root ch] mm_invD(1) [OF inv] r u]
        page_changedD(6) [OF ch] by blast
    show ?thesis
    proof (cases "(r, js) = (root, is)")
      case True
      then have "page_entry s' r js = v" using entry by simp
      then show ?thesis using u D page_changedD(8) [OF ch] unfolding tabs by auto
    next
      case False
      then have e: "page_entry s' r js = page_entry s r js" using entry by (auto split: if_splits)
      then have "pt_entry_addr_chirho (page_entry s r js) \<notin> all_tables s R \<union> set pool"
        using mm_invD(5) [OF inv r] u by simp
      moreover have "all_tables s' R \<union> set pool' \<subseteq> all_tables s R \<union> set pool \<union> D"
        using page_changedD(2) [OF ch] root unfolding tabs by (auto simp: all_tables_def)
      ultimately show ?thesis using D e by auto
    qed
  qed
qed

lemma page_changed_inv:
  assumes inv: "mm_inv s R pool" and root: "root \<in> R" and ch: "page_changed s R pool root is v D s' pool'"
  shows "mm_inv s' R pool'"
proof -
  note other = page_changed_other [OF inv root ch]
  have new: "space_tables s' root \<inter> space_tables s r = {}" if "r \<in> R" "r \<noteq> root" for r
    using other(1) [OF that] page_changedD(2) [OF ch] by blast
  have "space_tables s' r \<inter> space_tables s' r' = {}" if "r \<in> R" "r' \<in> R" "r \<noteq> r'" for r r'
  proof (cases "r = root \<or> r' = root")
    case True
    then show ?thesis using that other(2) new [of r] new [of r'] by auto
  next
    case False
    then show ?thesis using that other(2) mm_invD(4) [OF inv that] by simp
  qed
  moreover have "space_ok s' r pool'" if "r \<in> R" for r
    using that other(4) page_changedD(1) [OF ch] by (cases "r = root") auto
  ultimately show ?thesis
    using mm_invD(1) [OF inv] page_changedD(10) [OF ch] page_changed_counts [OF assms] page_changed_pages [OF assms]
    by (simp add: mm_inv_def)
qed

section \<open>Operations keep the invariant\<close>

lemma inc_dec_follow:
  assumes "\<And>f n. c f = Some n \<Longrightarrow> n + 1 \<noteq> 0" and "\<And>f n. maps_frame e f \<Longrightarrow> c f = Some n \<Longrightarrow> n \<noteq> 0"
    and "is_user v"
  shows "counts_follow c (drop_entry e (inc_count (physical_frame_number_chirho (pt_entry_addr_chirho v)) c)) e v"
  unfolding counts_follow_def
proof (intro allI impI)
  let ?g = "physical_frame_number_chirho (pt_entry_addr_chirho v)" and ?h = "physical_frame_number_chirho (pt_entry_addr_chirho e)"
  fix f n' assume n': "drop_entry e (inc_count ?g c) f = Some n'"
  then obtain n where n: "c f = Some n"
    by (auto simp: drop_entry_def inc_count_def dec_count_def split: if_splits option.splits)
  have up: "unat (n + 1) = unat n + 1" using assms(1) [OF n] unatSuc [of n] by (simp add: add.commute)
  have down: "unat (n - 1) = unat n - 1" "unat n \<noteq> 0" if "is_user e" "f = ?h"
    using assms(2) [of f n] that n by (simp_all add: maps_frame_def unat_minus_one unat_eq_0)
  have ud: "n + 1 - 1 = n" by simp
  show "\<exists>n. c f = Some n \<and> unat n' + of_bool (maps_frame e f) = unat n + of_bool (maps_frame v f)"
    using n' n up down assms(3) ud
    by (auto simp: drop_entry_def inc_count_def dec_count_def maps_frame_def split: if_splits option.splits)
qed

lemma drop_follow:
  assumes "\<And>f n. maps_frame e f \<Longrightarrow> c f = Some n \<Longrightarrow> n \<noteq> 0"
  shows "counts_follow c (drop_entry e c) e 0"
  unfolding counts_follow_def
proof (intro allI impI)
  fix f n' assume n': "drop_entry e c f = Some n'"
  then obtain n where n: "c f = Some n" by (auto simp: drop_entry_def dec_count_def split: if_splits option.splits)
  have z: "\<not> is_user 0" by (simp add: is_user_def)
  have down: "unat (n - 1) = unat n - 1" "unat n \<noteq> 0" if "maps_frame e f"
    using assms [OF that n] by (simp_all add: unat_minus_one unat_eq_0)
  show "\<exists>n. c f = Some n \<and> unat n' + of_bool (maps_frame e f) = unat n + of_bool (maps_frame 0 f)"
    using n' n down z
    by (auto simp: drop_entry_def dec_count_def maps_frame_def split: if_splits option.splits)
qed

text \<open>The pool changes, the spaces and the counts do not.\<close>

definition mapped_frames :: "phys_state \<Rightarrow> u64 set \<Rightarrow> u64 set" where
  "mapped_frames s R = {pt_entry_addr_chirho (page_entry s r is) | r is. r \<in> R \<and> is_user (page_entry s r is)}"

lemma mm_inv_free: "mm_inv s R pool \<Longrightarrow> set pool \<inter> (all_tables s R \<union> mapped_frames s R) = {}"
  using mm_invD(5,8) [of s R pool] by (fastforce simp: mapped_frames_def)

lemma repool_inv:
  assumes inv: "mm_inv s R pool" and mem: "\<And>q. q \<in> all_tables s R \<Longrightarrow> ps_mem s' q = ps_mem s q"
    and pool: "alloc_pool s' pool'" "frame_count s' = frame_count s"
    and free: "set pool' \<inter> (all_tables s R \<union> mapped_frames s R) = {}"
  shows "mm_inv s' R pool'" "all_tables s' R = all_tables s R" "mapped_frames s' R = mapped_frames s R"
    "r \<in> R \<Longrightarrow> page_entry s' r is = page_entry s r is"
proof -
  have m: "ps_mem s' q = ps_mem s q" if "r \<in> R" "q \<in> space_tables s r" for r q
    using that by (intro mem) (auto simp: all_tables_def)
  have same: "space_tables s' r = space_tables s r" "page_entry s' r is = page_entry s r is" if "r \<in> R" for r "is"
    using space_unchanged [of s r s', OF m [OF that]] by blast+
  have ok: "space_ok s' r pool'" if "r \<in> R" for r
  proof (rule space_ok_unchanged [OF mm_invD(3) [OF inv that] pool(1)])
    show "set pool' \<inter> space_tables s r = {}" using free that by (auto simp: all_tables_def)
  qed (rule m [OF that])
  have "user_maps s' R f = user_maps s R f" for f using same(2) by (auto simp: user_maps_def)
  then have c: "counts_exact s' R" using mm_invD(7) [OF inv] pool(2) by (simp add: counts_exact_def)
  show tabs: "all_tables s' R = all_tables s R" using same(1) by (simp add: all_tables_def)
  have "pt_entry_addr_chirho (page_entry s r is) \<notin> all_tables s R \<union> set pool'"
    if "r \<in> R" "is_user (page_entry s r is)" for r "is"
    using mm_invD(5) [OF inv that] free that by (auto simp: mapped_frames_def)
  then have p: "pages_ok s' R pool'" using mm_invD(6) [OF inv] same(2) tabs by (simp add: pages_ok_def)
  have "space_tables s' r \<inter> space_tables s' r' = {}" if "r \<in> R" "r' \<in> R" "r \<noteq> r'" for r r'
    using mm_invD(4) [OF inv that] same(1) that by simp
  then show "mm_inv s' R pool'" using mm_invD(1) [OF inv] pool(1) ok c p by (simp add: mm_inv_def)
  show "mapped_frames s' R = mapped_frames s R" using same(2) by (auto simp: mapped_frames_def) metis+
  show "r \<in> R \<Longrightarrow> page_entry s' r is = page_entry s r is" by (rule same(2))
qed

definition other_pages_kept :: "phys_state \<Rightarrow> u64 set \<Rightarrow> u64 \<Rightarrow> nat list \<Rightarrow> phys_state \<Rightarrow> bool" where
  "other_pages_kept s R root is s' \<longleftrightarrow>
     (\<forall>r\<in>R. \<forall>js. (r, js) \<noteq> (root, is) \<longrightarrow> page_entry s' r js = page_entry s r js)"

lemma page_changed_keeps:
  assumes "mm_inv s R pool" and "root \<in> R" and "page_changed s R pool root is v D s' pool'"
  shows "mm_inv s' R pool' \<and> other_pages_kept s R root is s'"
  using page_changed_inv [OF assms] page_changed_entry [OF assms] by (auto simp: other_pages_kept_def)

lemma restored_inv:
  assumes "mm_inv s R pool" and "restored pool s s'"
  shows "mm_inv s' R pool"
proof (rule repool_inv(1) [OF assms(1)])
  show "ps_mem s' q = ps_mem s q" if "q \<in> all_tables s R" for q
    using that mm_invD(8) [OF assms(1)] assms(2) by (auto simp: restored_def)
qed (use assms mm_inv_free in \<open>auto simp: restored_def\<close>)

lemma space_path_clear:
  assumes "sub_ok s pool k n p" and "path_ok (ps_mem s) is p" and "length is = Suc k" and "hd is < n" and "\<forall>i\<in>set (tl is). i < 512"
  shows "path_clear (ps_mem s) (set pool) is p"
  using assms
proof (induction "is" arbitrary: k n p)
  case (Cons i js)
  show ?case
  proof (cases js)
    case Nil
    then show ?thesis using sub_ok_root [OF Cons.prems(1)] by simp
  next
    case (Cons j ks)
    then obtain l where k: "k = Suc l" using Cons.prems(3) by (cases k) auto
    have "path_clear (ps_mem s) (set pool) js (child_of (ps_mem s) p i)" if "ps_mem s p i \<noteq> 0"
    proof -
      have u: "is_user (ps_mem s p i)" "path_ok (ps_mem s) js (child_of (ps_mem s) p i)"
        using Cons.prems(2) that Cons by auto
      show ?thesis
        using Cons.IH [OF sub_ok_child [OF Cons.prems(1) [unfolded k] _ u(1)] u(2)] Cons.prems(3-5) k Cons by simp
    qed
    then show ?thesis using Cons sub_ok_root [OF Cons.prems(1)] by simp
  qed
qed simp

lemma page_mapped_mem:
  assumes "page_mapped s root pool is pa v s' pool'" and "q \<notin> set pool \<union> space_tables s root"
    and "is_user (page_entry s root is) \<Longrightarrow> pt_entry_addr_chirho (page_entry s root is) \<noteq> q"
  shows "ps_mem s' q = ps_mem s q"
proof -
  define D where "D = (if frees_frame (page_entry s root is) (inc_count (physical_frame_number_chirho pa) (frame_count s))
    then {pt_entry_addr_chirho (page_entry s root is)} else {})"
  have "\<forall>q. q \<notin> set pool \<union> space_tables s root \<union> D \<longrightarrow> ps_mem s' q = ps_mem s q"
    using assms(1) unfolding page_mapped_def Let_def D_def by blast
  moreover have "q \<notin> D" using assms(3) by (auto simp: D_def frees_frame_def)
  ultimately show ?thesis using assms(2) by blast
qed

lemma path_ok_cong:
  assumes "\<And>q. q \<in> set (owned m k n p) \<Longrightarrow> m' q = m q" and "length is = Suc k" and "hd is < n"
    and "\<forall>i\<in>set (tl is). i < 512"
  shows "path_ok m' is p = path_ok m is p"
  using assms
proof (induction "is" arbitrary: k n p)
  case (Cons i js)
  show ?case
  proof (cases js)
    case (Cons j ks)
    then obtain l where k: "k = Suc l" using Cons.prems(2) by (cases k) auto
    have p: "m' p = m p" using Cons.prems(1) by simp
    have "path_ok m' js (child_of m p i) = path_ok m js (child_of m p i)" if u: "is_user (m p i)"
    proof (rule Cons.IH)
      show "m' q = m q" if "q \<in> set (owned m l 512 (child_of m p i))" for q
        using Cons.prems(1,3) owned_child [of i n m p q l] u that k by simp
    qed (use Cons.prems(2,4) k Cons in auto)
    then show ?thesis using p Cons by auto
  qed simp
qed simp

lemma space_path_ok_cong:
  assumes "\<And>q. q \<in> space_tables s root \<Longrightarrow> ps_mem s' q = ps_mem s q" and "pml4_index va < 256"
  shows "path_ok (ps_mem s') (page_path va) root = path_ok (ps_mem s) (page_path va) root"
  using assms page_path_bounds [of va]
  by (intro path_ok_cong [where k = 3 and n = 256]) (auto simp: space_tables_def page_path_def)

context x86_paging
begin

lemma map_inv:
  assumes inv: "mm_inv s R pool" and root: "root \<in> R" and path: "pml4_index va < 256 \<Longrightarrow> path_ok (ps_mem s) (page_path va) root"
    and flags: "flags_ok flags" "flags_contain flags PTE_USER" and pa: "frame_ok pa" "pa \<notin> all_tables s R \<union> set pool"
    and r: "map_page_in_pt_chirho X root va pa flags s = (s', res)"
  shows "case res of Inl _ \<Rightarrow> restored pool s s'
    | Inr _ \<Rightarrow> \<exists>pool'. page_mapped s root pool (page_path va) pa (pa OR flags) s' pool' \<and> mm_inv s' R pool' \<and>
        other_pages_kept s R root (page_path va) s'"
proof (cases res)
  case (Inl e)
  have "restored pool s s'"
  proof (cases "pml4_index va < 256")
    case True
    have "sub_ok s pool 3 256 root" using mm_invD(3) [OF inv root] by (simp add: space_ok_def)
    then have "path_clear (ps_mem s) (set pool) (page_path va) root"
      using path [OF True] True page_path_bounds [of va] by (intro space_path_clear [where k = 3 and n = 256]) (simp_all add: page_path_def)
    then show ?thesis using map_error_spec [OF x86_paging_axioms mm_invD(2) [OF inv] _ flags(1) pa(1)] r Inl by blast
  next
    case False
    then have "s' = s" using r flags(2) by (auto simp: map_page_in_pt_chirho_def pt_consts split: if_splits)
    then show ?thesis using restored_refl [OF mm_invD(2) [OF inv]] by simp
  qed
  then show ?thesis using Inl by simp
next
  case (Inr u)
  let ?e = "page_entry s root (page_path va)" and ?v = "pa OR flags"
  have sub: "space_tables s root \<subseteq> all_tables s R" using root by (auto simp: all_tables_def)
  have old: "pt_entry_addr_chirho ?e \<notin> all_tables s R \<union> set pool" if "is_user ?e" using mm_invD(5) [OF inv root that] .
  have "pml4_index va < 256"
    using r Inr flags(2) by (auto simp: map_page_in_pt_chirho_def pt_consts split: if_splits)
  then obtain pool' where m: "page_mapped s root pool (page_path va) pa ?v s' pool'"
    using map_ok_spec [OF mm_invD(3) [OF inv root] path flags pa(1), of s'] old sub r Inr by auto
  define c where "c = inc_count (physical_frame_number_chirho pa) (frame_count s)"
  define D where "D = (if frees_frame ?e c then {pt_entry_addr_chirho ?e} else {})"
  have ve: "pt_entry_addr_chirho ?v = pa" "is_user ?v"
    using frame_ok_or [OF pa(1) flags(1)] flags(2) by (simp_all add: is_user_def flag_bits_hw)
  note m' = m [unfolded page_mapped_def Let_def, folded c_def, folded D_def]
  have f: "counts_follow (frame_count s) (frame_count s') ?e ?v"
    using inc_dec_follow [of "frame_count s" ?e ?v] frame_count_managed mm_inv_mapped_count [OF inv root] ve m'
    by (auto simp: c_def)
  have "page_changed s R pool root (page_path va) ?v D s' pool'"
    unfolding page_changed_def using m' f ve pa(2) sub old
    by (auto simp: D_def frees_frame_def drop_entry_def dec_count_def all_tables_def)
  then show ?thesis using page_changed_keeps [OF inv root] m Inr by auto
qed

lemma unmap_inv:
  assumes inv: "mm_inv s R pool" and root: "root \<in> R" and path: "path_ok (ps_mem s) (page_path va) root"
    and le: "pml4_index va < 256" and r: "unmap_user_page_chirho X root va s = (s', res)"
  defines "e \<equiv> page_entry s root (page_path va)"
  shows "case res of Inl _ \<Rightarrow> False
    | Inr NotMappedChirho \<Rightarrow> e = 0 \<and> s' = s
    | Inr NotUserMappingChirho \<Rightarrow> e \<noteq> 0 \<and> \<not> is_user e \<and> s' = s
    | Inr outcome \<Rightarrow> is_user e \<and> (outcome = FrameFreedChirho \<longleftrightarrow> frees_frame e (frame_count s)) \<and>
        (\<exists>pool'. page_removed s root pool (page_path va) s' pool' \<and> mm_inv s' R pool' \<and>
          other_pages_kept s R root (page_path va) s')"
proof -
  have sub: "space_tables s root \<subseteq> all_tables s R" using root by (auto simp: all_tables_def)
  have old: "pt_entry_addr_chirho e \<notin> all_tables s R \<union> set pool" if "is_user e"
    using mm_invD(5) [OF inv root] that unfolding e_def .
  have old': "pt_entry_addr_chirho e \<notin> space_tables s root \<union> set pool" if "is_user e" using old that sub by blast
  note sp = unmap_spec [OF mm_invD(3) [OF inv root] path le old' [unfolded e_def] r, folded e_def]
  have nz: "\<not> (is_user e \<and> frame_count s (physical_frame_number_chirho (pt_entry_addr_chirho e)) = Some 0)"
    using mm_inv_mapped_count [OF inv root, of "page_path va"] by (auto simp: maps_frame_def e_def)
  have inv': "mm_inv s' R pool' \<and> other_pages_kept s R root (page_path va) s'" if p: "page_removed s root pool (page_path va) s' pool'" "is_user e" for pool'
  proof -
    define D where "D = (if frees_frame e (frame_count s) then {pt_entry_addr_chirho e} else {})"
    note p' = p(1) [unfolded page_removed_def Let_def, folded e_def, folded D_def]
    have f: "counts_follow (frame_count s) (frame_count s') e 0"
      using drop_follow [of e "frame_count s"] mm_inv_mapped_count [OF inv root] p' by (auto simp: e_def)
    have z: "\<not> is_user 0" by (simp add: is_user_def)
    have "page_changed s R pool root (page_path va) 0 D s' pool'"
      unfolding page_changed_def e_def [symmetric] using p' f z old [OF p(2)]
      by (auto simp: D_def frees_frame_def drop_entry_def dec_count_def)
    then show ?thesis by (rule page_changed_keeps [OF inv root])
  qed
  show ?thesis
  proof (cases res)
    case (Inl err)
    then show ?thesis using sp nz by simp
  next
    case (Inr out)
    then show ?thesis using sp inv' by (cases out) auto
  qed
qed

text \<open>Under the invariant, a marked page has a mapped frame and a free frame has the count
  zero, so the handler succeeds exactly in the following case.\<close>

lemma cow_ready_inv:
  assumes inv: "mm_inv s R pool" and root: "root \<in> R" and e: "e = page_entry s root is" "bit e 9"
    and n: "frame_count s (physical_frame_number_chirho (pt_entry_addr_chirho e)) = Some n"
  shows "cow_frame_ready free s pool n \<longleftrightarrow> cow_frame_free free s pool n"
proof -
  have "is_user e" using mm_invD(6) [OF inv root, of "is"] e by simp
  then have "n \<noteq> 0" using mm_inv_mapped_count [OF inv root _ n] e(1) by (auto simp: maps_frame_def)
  moreover have "MAX_MANAGED_FRAME_COUNT_CHIRHO \<noteq> 0" by (simp add: MAX_MANAGED_FRAME_COUNT_CHIRHO_def UNMANAGED_FRAME_COUNT_CHIRHO_def)
  ultimately show ?thesis using pool_frame_count [OF inv]
    by (auto simp: cow_frame_ready_def cow_frame_free_def) (metis list.set_intros(1))
qed

lemma cow_inv:
  assumes inv: "mm_inv s R pool" and root: "ps_cr3 s \<in> R" and path: "path_ok (ps_mem s) (page_path va) (ps_cr3 s)"
    and le: "pml4_index va < 256" and r: "handle_cow_fault_chirho X free va s = (s', b)"
  defines "e \<equiv> page_entry s (ps_cr3 s) (page_path va)"
  shows "b \<longleftrightarrow> bit e 9 \<and> (\<exists>n. frame_count s (physical_frame_number_chirho (pt_entry_addr_chirho e)) = Some n \<and>
      cow_frame_free free s pool n)"
    and "if b then is_user e \<and> bit e 9 \<and> (\<exists>f pool'. page_copied s (ps_cr3 s) pool (page_path va) f
        (cow_resolved_flags (entry_flags X e)) s' pool' \<and> mm_inv s' R pool' \<and> other_pages_kept s R (ps_cr3 s) (page_path va) s')
    else restored pool s s'"
proof -
  let ?root = "ps_cr3 s" and ?nf = "cow_resolved_flags (entry_flags X e)"
  have sub: "space_tables s ?root \<subseteq> all_tables s R" using root by (auto simp: all_tables_def)
  note ready = cow_ready_inv [OF inv root e_def [THEN meta_eq_to_obj_eq]]
  have "(b \<longleftrightarrow> bit e 9 \<and> (\<exists>n. frame_count s (physical_frame_number_chirho (pt_entry_addr_chirho e)) = Some n \<and>
      cow_frame_free free s pool n)) \<and> (if b then is_user e \<and> bit e 9 \<and> (\<exists>f pool'. page_copied s ?root pool (page_path va) f
        ?nf s' pool' \<and> mm_inv s' R pool' \<and> other_pages_kept s R ?root (page_path va) s') else restored pool s s')"
  proof (cases "is_user e")
    case True
    then have old: "pt_entry_addr_chirho e \<notin> all_tables s R \<union> set pool"
      using mm_invD(5) [OF inv root] unfolding e_def by blast
    then have sep: "pt_entry_addr_chirho (page_entry s ?root (page_path va)) \<notin> space_tables s ?root \<union> set pool"
      using sub by (auto simp: e_def)
    note sp = cow_spec [OF mm_invD(3) [OF inv root] path le sep r, folded e_def]
    have inv': "mm_inv s' R pool' \<and> other_pages_kept s R ?root (page_path va) s'" if p: "page_copied s ?root pool (page_path va) f ?nf s' pool'" for f pool'
    proof -
      note p' = p [unfolded page_copied_def Let_def, folded e_def]
      have fl: "bit (entry_flags X e) 2" using True api_flags(1) [of 2 e] by (simp add: is_user_def)
      have fok: "frame_ok f" using p' mm_invD(2) [OF inv] by (auto simp: alloc_pool_def split: if_splits)
      have nf: "flags_ok ?nf" "bit ?nf 2" "\<not> bit ?nf 9"
        using fl cow_flags_ok [OF api_flags(3), of e] by (simp_all add: cow_resolved_flags_def bit_simps pt_consts)
      have v: "is_user (f OR ?nf)" "\<not> bit (f OR ?nf) 9" "pt_entry_addr_chirho (f OR ?nf) = f"
        using frame_ok_or [OF fok nf(1)] nf by (simp_all add: is_user_def)
      have fr: "frame_count s' = (if f = pt_entry_addr_chirho e then frame_count s
          else drop_entry e (inc_count (physical_frame_number_chirho f) (frame_count s)))"
        using p' True by (simp add: drop_entry_def)
      have f: "counts_follow (frame_count s) (frame_count s') e (f OR ?nf)"
      proof (cases "f = pt_entry_addr_chirho e")
        case same: True
        then show ?thesis using fr True v by (simp add: counts_follow_def maps_frame_def)
      next
        case False
        then show ?thesis
          using inc_dec_follow [of "frame_count s" e "f OR ?nf"] frame_count_managed mm_inv_mapped_count [OF inv root] v fr
          by (simp add: e_def)
      qed
      have "f \<notin> all_tables s R \<and> f \<notin> set pool'"
        using p' old mm_invD(8) [OF inv] alloc_pool_distinct [OF mm_invD(2) [OF inv]] by (auto split: if_splits)
      moreover have "set pool' \<subseteq> set pool" using p' by (auto split: if_splits)
      ultimately have "page_changed s R pool ?root (page_path va) (f OR ?nf) {} s' pool'"
        unfolding page_changed_def using p' f v sub by (auto simp: e_def all_tables_def)
      then show ?thesis by (rule page_changed_keeps [OF inv root])
    qed
    have b: "b \<longleftrightarrow> bit e 9 \<and> (\<exists>n. frame_count s (physical_frame_number_chirho (pt_entry_addr_chirho e)) = Some n \<and>
        cow_frame_free free s pool n)" using sp ready by blast
    moreover have "b \<Longrightarrow> \<exists>f pool'. page_copied s ?root pool (page_path va) f ?nf s' pool'" "\<not> b \<Longrightarrow> restored pool s s'"
      using sp by simp_all
    ultimately show ?thesis using inv' True by (cases b) (simp_all, blast)
  next
    case False
    then have "\<not> bit e 9" using mm_invD(6) [OF inv root] unfolding e_def by blast
    moreover have "restored pool s s" using restored_refl [OF mm_invD(2) [OF inv]] .
    ultimately show ?thesis using r cow_not_marked [OF mm_invD(3) [OF inv root] path le] by (simp add: e_def)
  qed
  then show "b \<longleftrightarrow> bit e 9 \<and> (\<exists>n. frame_count s (physical_frame_number_chirho (pt_entry_addr_chirho e)) = Some n \<and>
      cow_frame_free free s pool n)"
    "if b then is_user e \<and> bit e 9 \<and> (\<exists>f pool'. page_copied s ?root pool (page_path va) f
        ?nf s' pool' \<and> mm_inv s' R pool' \<and> other_pages_kept s R ?root (page_path va) s') else restored pool s s'"
    by blast+
qed

lemma demand_spec:
  assumes inv: "mm_inv s R pool" and root: "root \<in> R" and path: "pml4_index va < 256 \<Longrightarrow> path_ok (ps_mem s) (page_path va) root"
    and flags: "flags_ok flags" "flags_contain flags PTE_USER"
    and r: "map_zeroed_demand_page_chirho X free root va flags s = (s', res)"
  shows "case res of Inl _ \<Rightarrow> restored pool s s'
    | Inr f \<Rightarrow> f \<in> set pool \<and> page_entry s' root (page_path va) = f OR flags \<and> ps_mem s' f = (\<lambda>_. 0) \<and>
        other_pages_kept s R root (page_path va) s' \<and> (\<exists>pool'. mm_inv s' R pool')"
proof -
  have pool: "alloc_pool s pool" using mm_invD(2) [OF inv] .
  then obtain a where a: "GLOBAL_FRAME_ALLOCATOR_CHIRHO s = Some a" by (auto simp: alloc_pool_def)
  obtain s1 o1 where al: "alloc_frame_chirho X s = (s1, o1)" by fastforce
  note s1 = alloc_frame_spec [OF pool al]
  note D = map_zeroed_demand_page_chirho_def
  show ?thesis
  proof (cases "free \<and> pool \<noteq> []")
    case False
    have "\<exists>x. res = Inl x \<and> (s' = s \<or> s' = s1 \<and> pool = [])"
      using r a al s1(1) False by (cases free) (auto simp: D)
    then show ?thesis using restored_refl [OF pool] s1 by (auto simp: restored_def)
  next
    case True
    then obtain f rest where Cons: "pool = f # rest" by (cases pool) auto
    let ?z = "zero_frame_chirho f s1"
    have f: "frame_ok f" "f \<notin> set rest" "f \<notin> all_tables s R" "f \<notin> mapped_frames s R"
      using pool Cons mm_inv_free [OF inv] by (auto simp: alloc_pool_def pool_ok_def)
    have z: "ps_mem ?z q = ps_mem s q" if "q \<noteq> f" for q using s1(3) that by simp
    have pz: "alloc_pool ?z rest" "frame_count ?z = frame_count s" using s1 Cons f(2) by auto
    obtain s2 x where m: "map_page_in_pt_chirho X root va f flags ?z = (s2, x)" by fastforce
    have zi: "mm_inv ?z R rest" "all_tables ?z R = all_tables s R" "mapped_frames ?z R = mapped_frames s R"
      "\<And>r is. r \<in> R \<Longrightarrow> page_entry ?z r is = page_entry s r is"
      by (rule repool_inv [OF inv _ pz]; use z f(3) mm_inv_free [OF inv] Cons in auto)+
    have path': "path_ok (ps_mem ?z) (page_path va) root" if "pml4_index va < 256"
      using space_path_ok_cong [of s root ?z va] z f(3) root that path by (fastforce simp: all_tables_def)
    note mi = map_inv [OF zi(1) root path' flags f(1) _ m, unfolded zi(2)]
    show ?thesis
    proof (cases x)
      case (Inl e)
      then have s': "s' = deallocate_frame_chirho f s2" "res = Inl PageTableFrameExhaustedChirho"
        using r a al s1(1) Cons True m by (auto simp: D)
      have "restored rest ?z s2" using mi f Inl by simp
      then have "restored pool s s'"
        unfolding restored_def s' using deallocate_frame_spec [of s2 rest f] f(1,2) z s1(5) pz(2) Cons
        by auto
      then show ?thesis using s' by simp
    next
      case (Inr u)
      then have s': "s' = s2" "res = Inr f" using r a al s1(1) Cons True m by (auto simp: D)
      obtain pool' where p: "page_mapped ?z root rest (page_path va) f (f OR flags) s' pool'" "mm_inv s' R pool'"
        "other_pages_kept ?z R root (page_path va) s'"
        using mi f Inr s' by auto
      let ?e = "page_entry ?z root (page_path va)"
      have "pt_entry_addr_chirho ?e \<noteq> f" if "is_user ?e"
        using that f(4) root unfolding zi(3) [symmetric] by (auto simp: mapped_frames_def)
      moreover have "f \<notin> space_tables ?z root" using f(3) root zi(2) by (auto simp: all_tables_def)
      ultimately have "ps_mem s' f = ps_mem ?z f" using page_mapped_mem [OF p(1), of f] f(2) by blast
      then have "ps_mem s' f = (\<lambda>_. 0)" by simp
      moreover have "page_entry s' root (page_path va) = f OR flags" using p(1) by (simp add: page_mapped_def Let_def)
      ultimately show ?thesis using p(2,3) s' Cons zi(4) by (auto simp: other_pages_kept_def)
    qed
  qed
qed

end

text \<open>After a copy-on-write fault the frame of the page has one mapping.\<close>

lemma new_owner_count:
  assumes inv: "mm_inv s R pool" and root: "root \<in> R" and p: "page_copied s root pool is f fl s' pool'"
    and u: "is_user (page_entry s root is)"
  shows "frame_count s' (physical_frame_number_chirho f) = Some 1"
proof (cases "f = pt_entry_addr_chirho (page_entry s root is)")
  case True
  then show ?thesis using p unfolding page_copied_def Let_def by simp
next
  case False
  let ?old = "pt_entry_addr_chirho (page_entry s root is)" and ?pf = physical_frame_number_chirho
  have c: "frame_count s' = dec_count (?pf ?old) (inc_count (?pf f) (frame_count s))" "f \<in> set pool"
    "frame_count s (?pf f) \<noteq> None"
    using p False unfolding page_copied_def Let_def by simp_all
  then obtain n where n: "frame_count s (?pf f) = Some n" by blast
  have fok: "frame_ok f" using c(2) mm_invD(2) [OF inv] by (auto simp: alloc_pool_def)
  have "n = 0" using pool_frame_count [OF inv c(2) n] .
  moreover have "?pf ?old \<noteq> ?pf f" using False frame_number_inject [of ?old f] fok by auto
  ultimately show ?thesis using c(1) n by (auto simp: inc_count_def dec_count_def split: option.splits)
qed

end
