(* ===== verification/Page_Safety.thy ===== *)
theory Page_Safety
  imports Page_Space
begin

text \<open>
  Safety of the page operations over all address spaces, from the invariant of
  \<^verbatim>\<open>Page_Space\<close>, and the small memory at which the theorems are applied.
\<close>

section \<open>Sequences of page operations\<close>

datatype page_call =
    CallMap u64 u64 u64 u64
  | CallUnmap u64 u64
  | CallCow bool u64
  | CallDemand bool u64 u64 u64

fun page_call_run :: "x86_api \<Rightarrow> page_call \<Rightarrow> phys_state \<Rightarrow> phys_state" where
  "page_call_run X (CallMap root va pa flags) s = fst (map_page_in_pt_chirho X root va pa flags s)"
| "page_call_run X (CallUnmap root va) s = fst (unmap_user_page_chirho X root va s)"
| "page_call_run X (CallCow free va) s = fst (handle_cow_fault_chirho X free va s)"
| "page_call_run X (CallDemand free root va flags) s = fst (map_zeroed_demand_page_chirho X free root va flags s)"

text \<open>What a caller owes: the space is one of \<^verbatim>\<open>R\<close>, the address is in its half, no table
  on the way belongs to the kernel, and a frame it maps is neither free nor a table.\<close>

definition path_free :: "u64 \<Rightarrow> u64 \<Rightarrow> phys_state \<Rightarrow> u64 set \<Rightarrow> bool" where
  "path_free root va s R \<longleftrightarrow> root \<in> R \<and> pml4_index va < 256 \<and> path_ok (ps_mem s) (page_path va) root"

fun page_call_ok :: "page_call \<Rightarrow> phys_state \<Rightarrow> u64 set \<Rightarrow> bool" where
  "page_call_ok (CallMap root va pa flags) s R \<longleftrightarrow> path_free root va s R \<and> flags_ok flags \<and>
     flags_contain flags PTE_USER \<and> frame_ok pa \<and> pa \<notin> all_tables s R \<and>
     (\<forall>pool. alloc_pool s pool \<longrightarrow> pa \<notin> set pool)"
| "page_call_ok (CallUnmap root va) s R \<longleftrightarrow> path_free root va s R"
| "page_call_ok (CallCow free va) s R \<longleftrightarrow> path_free (ps_cr3 s) va s R"
| "page_call_ok (CallDemand free root va flags) s R \<longleftrightarrow> path_free root va s R \<and> flags_ok flags \<and>
     flags_contain flags PTE_USER"

inductive page_run :: "x86_api \<Rightarrow> u64 set \<Rightarrow> phys_state \<Rightarrow> phys_state \<Rightarrow> bool" for X R s where
  run_refl: "page_run X R s s"
| run_call: "page_run X R s s1 \<Longrightarrow> page_call_ok call s1 R \<Longrightarrow> page_run X R s (page_call_run X call s1)"

lemma page_call_inv:
  assumes X: "x86_paging X" and inv: "mm_inv s R pool" and ok: "page_call_ok call s R"
  shows "\<exists>pool'. mm_inv (page_call_run X call s) R pool'"
proof (cases call)
  case (CallMap root va pa flags)
  obtain s' r where m: "map_page_in_pt_chirho X root va pa flags s = (s', r)" by fastforce
  show ?thesis
    using x86_paging.map_inv [OF X inv _ _ _ _ _ _ m] ok mm_invD(2) [OF inv] restored_inv [OF inv] m CallMap
    by (cases r) (auto simp: path_free_def)
next
  case (CallUnmap root va)
  obtain s' r where m: "unmap_user_page_chirho X root va s = (s', r)" by fastforce
  note u = x86_paging.unmap_inv [OF X inv _ _ _ m]
  show ?thesis
  proof (cases r)
    case (Inr out)
    then show ?thesis using u ok inv m CallUnmap by (cases out) (auto simp: path_free_def)
  qed (use u ok CallUnmap in \<open>simp add: path_free_def\<close>)
next
  case (CallCow free va)
  obtain s' b where m: "handle_cow_fault_chirho X free va s = (s', b)" by fastforce
  show ?thesis
    using x86_paging.cow_inv(2) [OF X inv _ _ _ m] ok restored_inv [OF inv] m CallCow
    by (cases b) (auto simp: path_free_def)
next
  case (CallDemand free root va flags)
  obtain s' r where m: "map_zeroed_demand_page_chirho X free root va flags s = (s', r)" by fastforce
  show ?thesis
    using x86_paging.demand_spec [OF X inv _ _ _ _ m] ok restored_inv [OF inv] m CallDemand
    by (cases r) (auto simp: path_free_def)
qed

section \<open>A small memory\<close>

text \<open>One space with root \<^verbatim>\<open>0x1000\<close>, tables \<^verbatim>\<open>0x2000\<close>, \<^verbatim>\<open>0x3000\<close>, \<^verbatim>\<open>0x4000\<close>, and the frame
  \<^verbatim>\<open>0x5000\<close> mapped copy-on-write at the first two pages; two frames are free.\<close>

definition small_mem :: phys_mem where
  "small_mem p i =
     (if p = 0x1000 \<and> i = 0 then 0x2007 else if p = 0x2000 \<and> i = 0 then 0x3007
      else if p = 0x3000 \<and> i = 0 then 0x4007 else if p = 0x4000 \<and> i < 2 then 0x5205 else 0)"

definition small_state :: phys_state where
  "small_state = \<lparr>ps_mem = small_mem,
     GLOBAL_FRAME_ALLOCATOR_CHIRHO = Some (allocator_new_chirho
       [\<lparr>region_start = 0x1000, region_end = 0x8000, region_usable = True\<rparr>] 5),
     LEAF_FRAME_OWNERSHIP_CHIRHO = Some \<lparr>reference_counts_chirho = [- 1, 0, 0, 0, 0, 2, 0, 0],
       managed_frame_total_chirho = 7\<rparr>,
     ps_cr3 = 0x1000, BOOT_PML4_PHYS_CHIRHO = 0, MODULE_ARENA_PML4_ENTRY_CHIRHO = 0,
     GLOBAL_MAPPER_ROOT_PHYS_CHIRHO = 0x1000\<rparr>"

lemma owned_one_child:
  assumes "i < n" and "is_user (m p i)" and "\<And>j. j < n \<Longrightarrow> j \<noteq> i \<Longrightarrow> \<not> is_user (m p j)"
  shows "owned m (Suc k) n p = p # owned m k 512 (child_of m p i)"
proof -
  have "[0 ..< n] = [0 ..< i] @ [i ..< n]" using assms(1) upt_add_eq_append [of 0 i "n - i"] by simp
  then have s: "[0 ..< n] = [0 ..< i] @ i # [Suc i ..< n]" using assms(1) by (simp add: upt_conv_Cons)
  have e: "concat (map (below m k p) xs) = []" if "set xs \<subseteq> {..<n} - {i}" for xs
    using that assms(3) by (induction xs) (auto simp: below_def)
  have "concat (map (below m k p) [0 ..< n]) = below m k p i"
  proof -
    have "set [0 ..< i] \<subseteq> {..<n} - {i}" "set [Suc i ..< n] \<subseteq> {..<n} - {i}" using assms(1) by auto
    then show ?thesis using e [of "[0 ..< i]"] e [of "[Suc i ..< n]"] unfolding s map_append concat_append list.map concat.simps
      by (simp only: append_Nil append_Nil2)
  qed
  then show ?thesis unfolding owned_Suc using assms(2) by (simp add: below_def)
qed

lemma small_entries:
  "is_user (small_mem p i) \<longleftrightarrow> p \<in> {0x1000, 0x2000, 0x3000} \<and> i = 0 \<or> p = 0x4000 \<and> i < 2"
  "small_mem 0x1000 0 = 0x2007" "small_mem 0x2000 0 = 0x3007" "small_mem 0x3000 0 = 0x4007"
  "small_mem 0x4000 0 = 0x5205" "small_mem 0x4000 1 = 0x5205"
  by (auto simp: small_mem_def is_user_def)

lemma small_addr:
  "pt_entry_addr_chirho 0x2007 = 0x2000" "pt_entry_addr_chirho 0x3007 = 0x3000"
  "pt_entry_addr_chirho 0x4007 = 0x4000" "pt_entry_addr_chirho 0x5205 = 0x5000"
  "is_user 0x2007" "is_user 0x3007" "is_user 0x4007" "is_user 0x5205" "\<not> is_user 0"
  by (simp_all add: pt_entry_addr_chirho_def is_user_def)

lemma small_tables: "owned small_mem 3 256 0x1000 = [0x1000, 0x2000, 0x3000, 0x4000]"
proof -
  have "owned small_mem (Suc (Suc (Suc 0))) 256 0x1000 = 0x1000 # owned small_mem (Suc (Suc 0)) 512 (child_of small_mem 0x1000 0)"
    "owned small_mem (Suc (Suc 0)) 512 0x2000 = 0x2000 # owned small_mem (Suc 0) 512 (child_of small_mem 0x2000 0)"
    "owned small_mem (Suc 0) 512 0x3000 = 0x3000 # owned small_mem 0 512 (child_of small_mem 0x3000 0)"
    by (rule owned_one_child; simp add: small_entries(1))+
  then show ?thesis by (simp add: three_levels small_entries(2-4) small_addr)
qed

lemma small_page: "page_entry small_state 0x1000 is = (if is \<in> {[0, 0, 0, 0], [0, 0, 0, 1]} then 0x5205 else 0)"
proof (cases "slot small_mem 3 256 0x1000 is")
  case None
  have "slot small_mem 3 256 0x1000 [0, 0, 0, 0] \<noteq> None" "slot small_mem 3 256 0x1000 [0, 0, 0, 1] \<noteq> None"
    by (simp_all add: three_levels small_entries(2-4) small_addr)
  then have "is \<notin> {[0, 0, 0, 0], [0, 0, 0, 1]}" using None by auto
  then show ?thesis using None by (simp add: page_entry_def leaf_def small_state_def)
next
  case (Some x)
  then have "length is = 4" using slot_bounded by fastforce
  then obtain a b c d where i: "is = [a, b, c, d]" by (auto simp: numeral_eq_Suc length_Suc_conv)
  have "is_user (small_mem 0x1000 a)" using Some i by (simp add: three_levels split: if_splits)
  then have a: "a = 0" by (simp add: small_entries(1))
  have "is_user (small_mem 0x2000 b)"
    using Some i by (simp add: a three_levels small_entries(2) small_addr split: if_splits)
  then have b: "b = 0" by (simp add: small_entries(1))
  have "is_user (small_mem 0x3000 c)"
    using Some i by (simp add: a b three_levels small_entries(2,3) small_addr split: if_splits)
  then have c: "c = 0" by (simp add: small_entries(1))
  have "x = (0x4000, d)"
    using Some i by (simp add: a b c three_levels small_entries(2-4) small_addr split: if_splits)
  then show ?thesis using Some i a b c
    by (auto simp: page_entry_def leaf_def small_state_def small_mem_def less_2_cases_iff)
qed

lemma small_usable:
  "usable_frames_chirho [\<lparr>region_start = 0x1000, region_end = 0x8000, region_usable = True\<rparr>] =
    [0x1000, 0x2000, 0x3000, 0x4000, 0x5000, 0x6000, 0x7000]"
  by (simp add: usable_frames_chirho_def region_frames_chirho_def align_up_chirho_def Let_def upt_conv_Cons)

lemma small_pool: "alloc_pool small_state [0x6000, 0x7000]"
  using small_usable
    by (auto simp: alloc_pool_def pool_ok_def pool_of_def small_state_def allocator_new_chirho_def frame_ok_def
        ENTRY_ADDR_MASK_def page_aligned_def)

lemma small_counts: "frame_count small_state f = Some n \<Longrightarrow> n = (if f = 5 then 2 else 0)"
proof -
  assume "frame_count small_state f = Some n"
  then have f: "get_opt [- 1, 0, 0, 0, 0, 2, 0, 0 :: u32] (unat f) = Some n" "n \<noteq> - 1"
    by (auto simp: frame_count_def mapping_count_chirho_def small_state_def UNMANAGED_FRAME_COUNT_CHIRHO_def
        split: option.splits if_splits)
  have "unat f = 5 \<longleftrightarrow> f = 5" by (simp add: word_unat_eq_iff)
  then show ?thesis using f by (auto simp: get_opt_def nth_Cons' split: if_splits)
qed

lemma small_frame: "physical_frame_number_chirho 0x5000 = 5"
  by (simp add: physical_frame_number_chirho_def pt_consts)

lemma small_inv: "mm_inv small_state {0x1000} [0x6000, 0x7000]"
proof -
  have wf: "wf_tree small_mem (Suc (Suc (Suc 0))) 256 0x1000"
    by (auto simp: small_mem_def is_user_def flag_bits_hw pt_entry_addr_chirho_def)
  have ok: "space_ok small_state 0x1000 [0x6000, 0x7000]"
    unfolding space_ok_def sub_ok_def using small_pool small_tables wf
    by (simp add: small_state_def three_levels)
  have tabs: "all_tables small_state {0x1000} = {0x1000, 0x2000, 0x3000, 0x4000}"
    by (simp add: all_tables_def space_tables_def small_state_def small_tables)
  have "user_maps small_state {0x1000} f = (if f = 5 then {0x1000} \<times> {[0, 0, 0, 0], [0, 0, 0, 1]} else {})" for f
    by (auto simp: user_maps_def maps_frame_def small_page small_addr small_frame split: if_splits)
  then have "counts_exact small_state {0x1000}"
    unfolding counts_exact_def using small_counts by (fastforce split: if_splits)
  moreover have "pages_ok small_state {0x1000} [0x6000, 0x7000]"
    by (auto simp: pages_ok_def small_page tabs small_addr)
  ultimately show ?thesis using ok small_pool by (simp add: mm_inv_def)
qed

text \<open>A frame address has no bit outside the address field, and the frame a
  copy-on-write fault leaves the page with is its own or the first of the pool.\<close>

lemma frame_bit: "frame_ok a \<Longrightarrow> \<not> bit ENTRY_ADDR_MASK i \<Longrightarrow> \<not> bit a i"
  by (metis frame_ok_def bit_and_iff)

lemma cow_copied_frame:
  assumes "page_copied s root pool is f fl s' pool'"
  shows "f = (if frame_count s (physical_frame_number_chirho (pt_entry_addr_chirho (page_entry s root is))) = Some 1
      then pt_entry_addr_chirho (page_entry s root is) else hd pool)"
  using assms by (auto simp: page_copied_def Let_def split: if_splits)

section \<open>Properties\<close>

text \<open>C1. Frames are owned exactly, whatever the page operations do.  Start from a memory
  in which the invariant holds and run any sequence of mappings, unmappings,
  copy-on-write faults and demand-page faults on any of the spaces, successful or
  failing.  Afterwards no frame that a user entry of any space maps is in the
  allocator's pool or serves as a page table, no table is in the pool, tables of
  different spaces are distinct, and the count of every managed frame is the number
  of user entries that map it.\<close>

theorem page_operations_keep_ownership:
  assumes "x86_paging X" and "mm_inv s R pool" and "page_run X R s s'"
  shows "\<exists>pool'. alloc_pool s' pool' \<and> all_tables s' R \<inter> set pool' = {} \<and>
    mapped_frames s' R \<inter> (all_tables s' R \<union> set pool') = {} \<and>
    (\<forall>r\<in>R. \<forall>r'\<in>R. r \<noteq> r' \<longrightarrow> space_tables s' r \<inter> space_tables s' r' = {}) \<and>
    (\<forall>f n. frame_count s' f = Some n \<longrightarrow> unat n = card (user_maps s' R f)) \<and> mm_inv s' R pool'"
proof -
  from assms(3) have "\<exists>pool'. mm_inv s' R pool'"
  proof induction
    case run_refl
    then show ?case using assms(2) by blast
  next
    case (run_call s1 call)
    then show ?case using page_call_inv [OF assms(1)] by blast
  qed
  then obtain pool' where inv: "mm_inv s' R pool'" by blast
  have "mapped_frames s' R \<inter> (all_tables s' R \<union> set pool') = {}"
    using mm_invD(5) [OF inv] by (fastforce simp: mapped_frames_def)
  then show ?thesis using mm_invD(2,4,7,8) [OF inv] inv by blast
qed

lemma small_path: "path_free 0x1000 0x1000 small_state {0x1000}" "page_path 0x1000 = [0, 0, 0, 1]"
  "path_free 0x1000 0 small_state {0x1000}" "page_path 0 = [0, 0, 0, 0]"
proof -
  show p: "page_path 0x1000 = [0, 0, 0, 1]" "page_path 0 = [0, 0, 0, 0]"
    by (simp_all add: page_path_def pml4_index_def pdpt_index_def pd_index_def pt_index_def drop_bit_eq_div)
  have "pml4_index 0x1000 = 0" "pml4_index 0 = 0" by (simp_all add: pml4_index_def drop_bit_eq_div)
  then show "path_free 0x1000 0x1000 small_state {0x1000}" "path_free 0x1000 0 small_state {0x1000}"
    by (simp_all add: path_free_def p small_state_def small_entries(2-4) small_addr)
qed

theorem page_operations_keep_ownership_witness:
  "page_run hw_api {0x1000} small_state (page_call_run hw_api (CallUnmap 0x1000 0x1000) small_state) \<and>
   (\<exists>pool'. mm_inv (page_call_run hw_api (CallUnmap 0x1000 0x1000) small_state) {0x1000} pool')"
proof -
  have run: "page_run hw_api {0x1000} small_state (page_call_run hw_api (CallUnmap 0x1000 0x1000) small_state)"
    by (rule run_call [OF run_refl]) (simp add: small_path)
  then show ?thesis
    using page_operations_keep_ownership [OF hw.x86_paging_axioms small_inv run] by blast
qed

text \<open>C10. Unmapping a user page.  On a memory in which the invariant holds
  \<^verbatim>\<open>unmap_user_page_chirho\<close> never fails; it reports an unmapped page only if the page
  has no entry and leaves a kernel page alone; otherwise the page is gone, every
  other page of every space keeps its entry, and the frame is freed exactly when it
  is managed and this was its only mapping in all spaces.  A freed frame is in the
  allocator's pool and, apart from the free-list link in its first word, zeroed.\<close>

theorem unmap_page_exact:
  assumes "x86_paging X" and "mm_inv s R pool" and "path_free root va s R"
    and "unmap_user_page_chirho X root va s = (s', res)"
  defines "e \<equiv> page_entry s root (page_path va)"
  defines "f \<equiv> physical_frame_number_chirho (pt_entry_addr_chirho e)"
  shows "\<exists>out pool'. res = Inr out \<and> mm_inv s' R pool' \<and>
    (out = NotMappedChirho \<longleftrightarrow> e = 0) \<and> (out = NotUserMappingChirho \<longleftrightarrow> e \<noteq> 0 \<and> \<not> is_user e) \<and>
    (out = FrameFreedChirho \<longleftrightarrow> is_user e \<and> frame_count s f \<noteq> None \<and> user_maps s R f = {(root, page_path va)}) \<and>
    (if is_user e then page_entry s' root (page_path va) = 0 \<and> other_pages_kept s R root (page_path va) s' \<and>
       (out = FrameFreedChirho \<longrightarrow> pt_entry_addr_chirho e \<in> set pool' \<and>
          (\<forall>i. i \<noteq> 0 \<longrightarrow> ps_mem s' (pt_entry_addr_chirho e) i = 0))
     else s' = s)"
proof -
  have p: "root \<in> R" "pml4_index va < 256" "path_ok (ps_mem s) (page_path va) root"
    using assms(3) by (simp_all add: path_free_def)
  note u = x86_paging.unmap_inv [OF assms(1,2) p(1,3,2) assms(4), folded e_def]
  have frees: "frees_frame e (frame_count s) \<longleftrightarrow> is_user e \<and> frame_count s f \<noteq> None \<and> user_maps s R f = {(root, page_path va)}"
    using sole_mapping [OF assms(2) p(1), of "page_path va"] by (simp add: e_def f_def)
  obtain out where out: "res = Inr out" using u by (cases res) auto
  have nu: "\<not> is_user 0" by (simp add: is_user_def)
  have gone: "page_entry s' root (page_path va) = 0 \<and> (frees_frame e (frame_count s) \<longrightarrow>
      pt_entry_addr_chirho e \<in> set pool' \<and> (\<forall>i. i \<noteq> 0 \<longrightarrow> ps_mem s' (pt_entry_addr_chirho e) i = 0))"
    if "page_removed s root pool (page_path va) s' pool'" for pool'
    using that unfolding page_removed_def Let_def by (auto simp flip: e_def)
  show ?thesis
  proof (cases "is_user e")
    case True
    then have e: "e \<noteq> 0" by (rule user_nonzero)
    have no: "out \<noteq> NotMappedChirho" "out \<noteq> NotUserMappingChirho" using u True e by (auto simp: out)
    then obtain pool' where "(out = FrameFreedChirho \<longleftrightarrow> frees_frame e (frame_count s))"
      "page_removed s root pool (page_path va) s' pool'" "mm_inv s' R pool'" "other_pages_kept s R root (page_path va) s'"
      using u by (cases out) (auto simp: out)
    then show ?thesis using out no e True frees gone by auto
  next
    case False
    then have "out \<in> {NotMappedChirho, NotUserMappingChirho}" using u by (cases out) (auto simp: out)
    then show ?thesis using u False assms(2) out frees nu by auto
  qed
qed

theorem unmap_page_exact_witness:
  "\<exists>out pool'. snd (unmap_user_page_chirho hw_api 0x1000 0x1000 small_state) = Inr out \<and> out \<noteq> FrameFreedChirho \<and>
     mm_inv (fst (unmap_user_page_chirho hw_api 0x1000 0x1000 small_state)) {0x1000} pool' \<and>
     page_entry (fst (unmap_user_page_chirho hw_api 0x1000 0x1000 small_state)) 0x1000 [0, 0, 0, 1] = 0"
proof -
  have other: "(0x1000, [0, 0, 0, 0]) \<in> user_maps small_state {0x1000} 5"
    by (simp add: user_maps_def maps_frame_def small_page small_addr small_frame)
  have nu: "user_maps small_state {0x1000} 5 \<noteq> {(0x1000, [0, 0, 0, 1])}"
  proof
    assume "user_maps small_state {0x1000} 5 = {(0x1000, [0, 0, 0, 1])}"
    then have "(0x1000 :: u64, [0, 0, 0, 0 :: nat]) \<in> {(0x1000, [0, 0, 0, 1])}" using other by (simp only:)
    then show False by simp
  qed
  obtain s' res where r: "unmap_user_page_chirho hw_api 0x1000 0x1000 small_state = (s', res)"
    by (rule prod.exhaust)
  have e: "page_entry small_state 0x1000 [0, 0, 0, 1] = 0x5205" by (simp add: small_page)
  note u = unmap_page_exact [OF hw.x86_paging_axioms small_inv small_path(1) r, unfolded small_path(2) e small_addr small_frame]
  obtain out pool' where "res = Inr out" "mm_inv s' {0x1000} pool'"
    "out = FrameFreedChirho \<longrightarrow> user_maps small_state {0x1000} 5 = {(0x1000, [0, 0, 0, 1])}"
    "page_entry s' 0x1000 [0, 0, 0, 1] = 0"
    using u small_addr(8) by auto
  then show ?thesis unfolding r fst_conv snd_conv using nu by blast
qed

text \<open>C3. A copy-on-write fault is handled exactly when the page is marked, its frame is
  managed, and either the page is the frame's only mapping or the allocator's lock is
  free and its next free frame is managed.  Then the page is moved to that frame (or
  keeps its own in the first case): outside its address the new entry has the bits of
  the old one, the no-execute bit among them, with the writable bit set and the mark
  cleared; the frame has the contents of the old frame and is mapped by this page
  alone; and in the whole of physical memory, kernel tables included, the only words
  that differ are those of that frame and this one entry.  If the fault is not
  handled, memory off the pool, the pool and the counts are as before.  The invariant
  is kept in both cases.\<close>

theorem cow_fault_exact:
  assumes "x86_paging X" and "mm_inv s R pool" and "path_free (ps_cr3 s) va s R"
    and "handle_cow_fault_chirho X free va s = (s', handled)"
  defines "e \<equiv> page_entry s (ps_cr3 s) (page_path va)"
  defines "v \<equiv> page_entry s' (ps_cr3 s) (page_path va)"
  defines "n \<equiv> frame_count s (physical_frame_number_chirho (pt_entry_addr_chirho e))"
  defines "f \<equiv> if n = Some 1 then pt_entry_addr_chirho e else hd pool"
  shows "handled = (bit e 9 \<and> n \<noteq> None \<and>
      (n = Some 1 \<or> free \<and> pool \<noteq> [] \<and> frame_count s (physical_frame_number_chirho (hd pool)) \<noteq> None)) \<and>
    (if handled then
      is_user e \<and> pt_entry_addr_chirho v = f \<and>
      (\<forall>i<64. \<not> bit ENTRY_ADDR_MASK i \<longrightarrow> bit v i = (i \<noteq> 9 \<and> (i = 1 \<or> bit e i))) \<and>
      (\<exists>pt i. slot (ps_mem s) 3 256 (ps_cr3 s) (page_path va) = Some (pt, i) \<and>
        ps_mem s' = (ps_mem s)(f := ps_mem s (pt_entry_addr_chirho e), pt := (ps_mem s pt)(i := v))) \<and>
      frame_count s' (physical_frame_number_chirho f) = Some 1 \<and>
      other_pages_kept s R (ps_cr3 s) (page_path va) s' \<and> (\<exists>pool'. mm_inv s' R pool')
    else (\<forall>q. q \<notin> set pool \<longrightarrow> ps_mem s' q = ps_mem s q) \<and> frame_count s' = frame_count s \<and> mm_inv s' R pool)"
proof -
  have p: "ps_cr3 s \<in> R" "pml4_index va < 256" "path_ok (ps_mem s) (page_path va) (ps_cr3 s)"
    using assms(3) by (simp_all add: path_free_def)
  note c = x86_paging.cow_inv [OF assms(1,2) p(1,3,2) assms(4), folded e_def]
  have h: "handled = (bit e 9 \<and> n \<noteq> None \<and>
      (n = Some 1 \<or> free \<and> pool \<noteq> [] \<and> frame_count s (physical_frame_number_chirho (hd pool)) \<noteq> None))"
    using c(1) by (cases pool) (auto simp: cow_frame_free_def n_def)
  show ?thesis
  proof (cases handled)
    case False
    then have "restored pool s s'" using c(2) by simp
    then have "(\<forall>q. q \<notin> set pool \<longrightarrow> ps_mem s' q = ps_mem s q) \<and> frame_count s' = frame_count s \<and> mm_inv s' R pool"
      using restored_inv [OF assms(2)] by (simp add: restored_def)
    then show ?thesis unfolding if_not_P [OF False] using h by blast
  next
    case True
    let ?nf = "cow_resolved_flags (entry_flags X e)"
    obtain g pool' where g: "is_user e" "bit e 9" "page_copied s (ps_cr3 s) pool (page_path va) g ?nf s' pool'"
      "mm_inv s' R pool'" "other_pages_kept s R (ps_cr3 s) (page_path va) s'"
      using c(2) True by auto
    note pc = g(3) [unfolded page_copied_def Let_def, folded e_def]
    have gf: "g = f"
      using cow_copied_frame [OF g(3), folded e_def] by (simp add: f_def n_def)
    have v: "v = f OR ?nf" using pc by (simp add: v_def gf)
    have fok: "frame_ok f" using pc mm_invD(2) [OF assms(2)] by (auto simp: gf alloc_pool_def split: if_splits)
    note o = frame_ok_or [OF fok cow_flags_ok [OF x86_paging.api_flags(3) [OF assms(1), of e]]]
    have bits: "bit v i \<longleftrightarrow> i \<noteq> 9 \<and> (i = 1 \<or> bit e i)" if "i < 64" "\<not> bit ENTRY_ADDR_MASK i" for i
      using frame_bit [OF fok that(2)] that x86_paging.flag_bits [OF assms(1), of e]
      by (simp add: v cow_flag_bits bit_or_iff bit_and_iff bit_not_iff)
    have cnt: "frame_count s' (physical_frame_number_chirho f) = Some 1"
      using new_owner_count [OF assms(2) p(1) g(3) g(1) [unfolded e_def]] by (simp add: gf)
    have av: "pt_entry_addr_chirho v = f" by (simp add: v o(1))
    have mem: "\<exists>pt i. slot (ps_mem s) 3 256 (ps_cr3 s) (page_path va) = Some (pt, i) \<and>
        ps_mem s' = (ps_mem s)(f := ps_mem s (pt_entry_addr_chirho e), pt := (ps_mem s pt)(i := v))"
      using pc by (simp add: gf v)
    show ?thesis unfolding if_P [OF True] using mem h g bits cnt av by blast
  qed
qed

theorem cow_fault_exact_witness:
  "\<exists>s' pool'. handle_cow_fault_chirho hw_api True 0 small_state = (s', True) \<and>
     page_entry small_state 0x1000 [0, 0, 0, 0] = 0x5205 \<and>
     pt_entry_addr_chirho (page_entry s' 0x1000 [0, 0, 0, 0]) = 0x6000 \<and>
     bit (page_entry s' 0x1000 [0, 0, 0, 0]) 1 \<and> \<not> bit (page_entry s' 0x1000 [0, 0, 0, 0]) 9 \<and>
     ps_mem s' 0x5000 = ps_mem small_state 0x5000 \<and> frame_count s' 6 = Some 1 \<and> mm_inv s' {0x1000} pool'"
proof -
  obtain s' handled where r: "handle_cow_fault_chirho hw_api True 0 small_state = (s', handled)"
    by (rule prod.exhaust)
  have c: "ps_cr3 small_state = 0x1000" by (simp add: small_state_def)
  have e: "page_entry small_state 0x1000 [0, 0, 0, 0] = 0x5205" by (simp add: small_page)
  have cnt: "frame_count small_state 5 = Some 2" "frame_count small_state 6 = Some 0"
    by (simp_all add: frame_count_def mapping_count_chirho_def small_state_def UNMANAGED_FRAME_COUNT_CHIRHO_def get_opt_def)
  have six: "physical_frame_number_chirho 0x6000 = 6" by (simp add: physical_frame_number_chirho_def pt_consts)
  have m: "\<not> bit ENTRY_ADDR_MASK 1" "\<not> bit ENTRY_ADDR_MASK 9" by (simp_all add: ENTRY_ADDR_MASK_def)
  have b9: "bit (0x5205 :: u64) 9" by simp
  note t = cow_fault_exact [OF hw.x86_paging_axioms small_inv _ r, unfolded c small_path(4) e small_addr small_frame cnt six]
  have h: handled using t [OF small_path(3)] b9 cnt six by simp
  have sl: "slot (ps_mem small_state) 3 256 0x1000 [0, 0, 0, 0] = Some (0x4000, 0)"
    by (simp add: small_state_def three_levels small_entries(2-4) small_addr)
  have "ps_mem s' 0x5000 = ps_mem small_state 0x5000" using t [OF small_path(3)] h sl by auto
  moreover have "pt_entry_addr_chirho (page_entry s' 0x1000 [0, 0, 0, 0]) = 0x6000"
    "frame_count s' 6 = Some 1" "\<exists>pool'. mm_inv s' {0x1000} pool'"
    "bit (page_entry s' 0x1000 [0, 0, 0, 0]) 1" "\<not> bit (page_entry s' 0x1000 [0, 0, 0, 0]) 9"
    using t [OF small_path(3)] h six m by simp_all
  moreover have "handled = True" using h by simp
  ultimately show ?thesis using r e by blast
qed

text \<open>A mapped page is found again.  After \<^verbatim>\<open>map_page_in_pt_chirho\<close> succeeds for a user
  page, \<^verbatim>\<open>lookup_in_pt_chirho\<close> returns exactly the address and the flags it was given,
  every other page of every space keeps its entry, and the invariant holds.\<close>

theorem mapped_page_is_found:
  assumes "x86_paging X" and "mm_inv s R pool" and "page_call_ok (CallMap root va pa flags) s R" and "flags \<noteq> 0"
    and "map_page_in_pt_chirho X root va pa flags s = (s', Inr ())"
  shows "lookup_in_pt_chirho X root va s' = Some (pa, flags) \<and> other_pages_kept s R root (page_path va) s' \<and>
    (\<exists>pool'. mm_inv s' R pool')"
proof -
  have c: "root \<in> R" "pml4_index va < 256" "path_ok (ps_mem s) (page_path va) root" "flags_ok flags"
    "flags_contain flags PTE_USER" "frame_ok pa" "pa \<notin> all_tables s R \<union> set pool"
    using assms(3) mm_invD(2) [OF assms(2)] by (auto simp: path_free_def)
  obtain pool' where m: "page_mapped s root pool (page_path va) pa (pa OR flags) s' pool'" "mm_inv s' R pool'"
    "other_pages_kept s R root (page_path va) s'"
    using x86_paging.map_inv [OF assms(1,2) c(1,3-7) assms(5)] by auto
  have e: "page_entry s' root (page_path va) = pa OR flags" using m(1) by (simp add: page_mapped_def Let_def)
  have nz: "pa OR flags \<noteq> 0" using assms(4) by (metis or.left_idem or.right_neutral or.commute)
  obtain x where "slot (ps_mem s') 3 256 root (page_path va) = Some x" using page_entry_slot e nz by metis
  note path = slot_path_ok [OF this]
  show ?thesis
    using x86_paging.lookup_spec [OF assms(1) mm_invD(3) [OF m(2) c(1)] path c(2)] e nz frame_ok_or(1) [OF c(6,4)]
      x86_paging.entry_fields(2) [OF assms(1) c(6,4)] x86_paging.api_hw(4) [OF assms(1) c(6,4)] m(2,3)
    by (auto simp: Let_def)
qed

text \<open>A demand page starts zeroed.  If \<^verbatim>\<open>map_zeroed_demand_page_chirho\<close> returns a frame,
  that frame was free, the page maps it with the requested flags and every word of it
  is zero; every other page keeps its entry.  If it fails, memory off the pool, the
  pool and the counts are as before, so the frame taken for the page and the tables
  built for it are back.\<close>

theorem demand_page_zeroed:
  assumes "x86_paging X" and "mm_inv s R pool" and "page_call_ok (CallDemand free root va flags) s R"
    and "map_zeroed_demand_page_chirho X free root va flags s = (s', res)"
  shows "case res of
      Inl _ \<Rightarrow> (\<forall>q. q \<notin> set pool \<longrightarrow> ps_mem s' q = ps_mem s q) \<and> alloc_pool s' pool \<and>
        frame_count s' = frame_count s \<and> mm_inv s' R pool
    | Inr f \<Rightarrow> f \<in> set pool \<and> page_entry s' root (page_path va) = f OR flags \<and> ps_mem s' f = (\<lambda>_. 0) \<and>
        other_pages_kept s R root (page_path va) s' \<and> (\<exists>pool'. mm_inv s' R pool')"
proof (cases res)
  case (Inl err)
  then have "restored pool s s'" using x86_paging.demand_spec [OF assms(1,2) _ _ _ _ assms(4)] assms(3)
    by (simp add: path_free_def)
  then show ?thesis using restored_inv [OF assms(2)] Inl by (auto simp: restored_def)
next
  case (Inr f)
  then show ?thesis using x86_paging.demand_spec [OF assms(1,2) _ _ _ _ assms(4)] assms(3)
    by (simp add: path_free_def)
qed

lemma small_third_page:
  "pml4_index 0x2000 = 0" "pdpt_index 0x2000 = 0" "pd_index 0x2000 = 0" "pt_index 0x2000 = 2"
  by (simp_all add: pml4_index_def pdpt_index_def pd_index_def pt_index_def drop_bit_eq_div)

lemma small_path_free: "path_free 0x1000 0x2000 small_state {0x1000}"
  by (simp add: path_free_def page_path_def small_third_page small_state_def small_entries(2-4) small_addr)

lemma small_tables_there:
  assumes "ps_mem t = small_mem"
  shows "ensure_table hw_api b 0x1000 0 fl t = (t, Inr False)" "ensure_table hw_api b 0x2000 0 fl t = (t, Inr False)"
    "ensure_table hw_api b 0x3000 0 fl t = (t, Inr False)"
    "child_of small_mem 0x1000 0 = 0x2000" "child_of small_mem 0x2000 0 = 0x3000" "child_of small_mem 0x3000 0 = 0x4000"
  by (simp_all add: ensure_table_def assms small_entries(2-4) small_addr hw_api_def ENTRY_ADDR_MASK_def flags_contain_def
      pt_consts Let_def)

lemma small_map:
  assumes "ps_mem t = small_mem" and "frame_count t (physical_frame_number_chirho pa) \<noteq> Some MAX_MANAGED_FRAME_COUNT_CHIRHO"
    and "flags_contain flags PTE_USER" and "page_aligned pa"
  shows "\<exists>t'. map_page_in_pt_chirho hw_api 0x1000 0x2000 pa flags t = (t', Inr ())"
proof -
  have "entry_is_unused hw_api (ps_mem t 0x4000 2)" by (simp add: assms(1) small_mem_def)
  moreover obtain t1 x where ret: "retain_leaf_mapping_chirho pa t = (t1, x)" by fastforce
  moreover have "\<exists>k. x = Inr k" using retain_leaf_spec(4) [OF ret] assms(2) by (auto split: option.splits if_splits)
  ultimately have "\<exists>t'. publish_leaf hw_api rb 0x4000 2 pa flags t = (t', Inr ())" for rb
    using assms(3) by (auto simp: publish_leaf_def Let_def)
  then obtain t' where pl: "publish_leaf hw_api (rollback_new_mapping_tables_chirho hw_api 0x1000 0 0 0 False False False)
      0x4000 2 pa flags t = (t', Inr ())" by blast
  have "pa AND (PT_PAGE_SIZE_CHIRHO - 1) = 0" using assms(4) by (simp add: page_aligned_def pt_consts)
  moreover have "(0x2000 :: u64) AND (PT_PAGE_SIZE_CHIRHO - 1) = 0" "\<not> KERNEL_PML4_START_CHIRHO \<le> 0"
    by (simp_all add: pt_consts)
  ultimately show ?thesis
    by (simp add: map_page_in_pt_chirho_def map_in_tables_def small_third_page small_tables_there [OF assms(1)] assms(1) pl Let_def)
qed

lemma small_frames:
  "frame_count small_state 6 = Some 0" "frame_count small_state 5 = Some 2" "frame_count small_state 4 = Some 0"
  by (simp_all add: frame_count_def mapping_count_chirho_def small_state_def get_opt_def UNMANAGED_FRAME_COUNT_CHIRHO_def)

theorem demand_page_zeroed_witness:
  "\<exists>s' f pool'. map_zeroed_demand_page_chirho hw_api True 0x1000 0x2000 7 small_state = (s', Inr f) \<and>
    f \<in> {0x6000, 0x7000} \<and> ps_mem s' f = (\<lambda>_. 0) \<and> mm_inv s' {0x1000} pool'"
proof -
  obtain s1 x where al: "alloc_frame_chirho hw_api small_state = (s1, x)" by fastforce
  note s1 = hw.alloc_frame_spec [OF small_pool al]
  let ?z = "zero_frame_chirho 0x6000 s1"
  have "ps_mem ?z = small_mem" using s1(3) by (auto simp: small_state_def small_mem_def fun_eq_iff)
  moreover have "frame_count ?z (physical_frame_number_chirho 0x6000) \<noteq> Some MAX_MANAGED_FRAME_COUNT_CHIRHO"
    using s1(4) small_frames by (simp add: physical_frame_number_chirho_def pt_consts MAX_MANAGED_FRAME_COUNT_CHIRHO_def)
  moreover have "page_aligned 0x6000" "flags_contain 7 PTE_USER"
    by (simp_all add: page_aligned_def flags_contain_def pt_consts)
  ultimately obtain s' where m: "map_page_in_pt_chirho hw_api 0x1000 0x2000 0x6000 7 ?z = (s', Inr ())"
    using small_map by blast
  have r: "map_zeroed_demand_page_chirho hw_api True 0x1000 0x2000 7 small_state = (s', Inr 0x6000)"
    using al s1(1) m by (simp add: map_zeroed_demand_page_chirho_def) (simp add: small_state_def)
  have "page_call_ok (CallDemand True 0x1000 0x2000 7) small_state {0x1000}"
    by (simp add: small_path_free flags_ok_def ENTRY_ADDR_MASK_def flags_contain_def pt_consts)
  from demand_page_zeroed [OF hw.x86_paging_axioms small_inv this r] r show ?thesis by auto
qed

text \<open>The frame \<^verbatim>\<open>0x9000\<close> is not one of the allocator's.\<close>

theorem mapped_page_is_found_witness:
  "\<exists>s'. map_page_in_pt_chirho hw_api 0x1000 0x2000 0x9000 5 small_state = (s', Inr ()) \<and>
     lookup_in_pt_chirho hw_api 0x1000 0x2000 s' = Some (0x9000, 5)"
proof -
  have c: "frame_count small_state (physical_frame_number_chirho 0x9000) = None"
    by (simp add: physical_frame_number_chirho_def pt_consts frame_count_def mapping_count_chirho_def small_state_def get_opt_def)
  have fl: "page_aligned 0x9000" "flags_contain 5 PTE_USER" "flags_ok 5" "frame_ok 0x9000"
    by (simp_all add: page_aligned_def flags_contain_def flags_ok_def frame_ok_def ENTRY_ADDR_MASK_def pt_consts)
  obtain s' where m: "map_page_in_pt_chirho hw_api 0x1000 0x2000 0x9000 5 small_state = (s', Inr ())"
    using small_map [OF _ _ fl(2,1), of small_state] c by (auto simp: small_state_def)
  have tabs: "all_tables small_state {0x1000} = {0x1000, 0x2000, 0x3000, 0x4000}"
    by (simp add: all_tables_def space_tables_def small_state_def small_tables)
  have "0x9000 \<notin> set pool" if "alloc_pool small_state pool" for pool
    using that small_usable
    by (auto simp: alloc_pool_def pool_ok_def pool_of_def small_state_def allocator_new_chirho_def)
  then have "page_call_ok (CallMap 0x1000 0x2000 0x9000 5) small_state {0x1000}"
    using fl by (simp add: small_path_free tabs)
  from mapped_page_is_found [OF hw.x86_paging_axioms small_inv this _ m] m show ?thesis by auto
qed

text \<open>C4. A failed mapping changes nothing.  Whatever error
  \<^verbatim>\<open>map_page_in_pt_chirho\<close> returns, for user and kernel mappings alike, every frame
  outside the allocator's pool has its old contents, the pool is the same list of
  frames in the same order (the tables allocated on the way are back), and no
  mapping count has changed.  Needed is only that the tables on the path of the
  address are not themselves free frames.\<close>

theorem failed_mapping_changes_nothing:
  assumes "x86_paging X" and "alloc_pool s pool"
    and "path_clear (ps_mem s) (set pool) (page_path va) pml4"
    and "flags_ok flags" and "frame_ok pa"
    and "map_page_in_pt_chirho X pml4 va pa flags s = (s', Inl e)"
  shows "(\<forall>q. q \<notin> set pool \<longrightarrow> ps_mem s' q = ps_mem s q) \<and> alloc_pool s' pool \<and>
    frame_count s' = frame_count s \<and> regs s' = regs s"
  using map_error_spec [OF assms] by (simp add: restored_def)

theorem failed_mapping_changes_nothing_witness:
  "\<exists>s'. map_page_in_pt_chirho hw_api 0x1000 0 0x5000 1 small_state = (s', Inl OwnershipClassChangeChirho) \<and>
     alloc_pool s' [0x6000, 0x7000] \<and> frame_count s' 5 = Some 2"
proof -
  have m: "ps_mem small_state = small_mem" by (simp add: small_state_def)
  have i: "pml4_index 0 = 0" "pdpt_index 0 = 0" "pd_index 0 = 0" "pt_index 0 = 0"
    by (simp_all add: pml4_index_def pdpt_index_def pd_index_def pt_index_def)
  have fl: "flags_ok 1" "frame_ok 0x5000" "\<not> flags_contain 1 PTE_USER"
    by (simp_all add: flags_ok_def frame_ok_def ENTRY_ADDR_MASK_def flags_contain_def pt_consts)
  have "entry_addr hw_api 0x5205 = 0x5000" "flags_contain (entry_flags hw_api 0x5205) PTE_USER"
    by (simp_all add: hw_api_def ENTRY_ADDR_MASK_def flags_contain_def pt_consts)
  then have "publish_leaf hw_api rb 0x4000 0 0x5000 1 small_state = (rb small_state, Inl OwnershipClassChangeChirho)" for rb
    using fl(3) by (simp add: publish_leaf_def Let_def m small_entries(5))
  then obtain s' where "map_in_tables hw_api 0x1000 0 0 0 0 0x5000 1 small_state = (s', Inl OwnershipClassChangeChirho)"
    using fl(3) small_tables_there [OF m] by (simp add: map_in_tables_def m Let_def)
  then have r: "map_page_in_pt_chirho hw_api 0x1000 0 0x5000 1 small_state = (s', Inl OwnershipClassChangeChirho)"
    using fl(3) by (simp add: map_page_in_pt_chirho_def i) (simp add: pt_consts)
  have "path_clear (ps_mem small_state) (set [0x6000, 0x7000]) (page_path 0) 0x1000"
    using small_tables_there [OF m] by (simp add: page_path_def i m)
  from failed_mapping_changes_nothing [OF hw.x86_paging_axioms small_pool this fl(1,2) r] r show ?thesis
    using small_frames by auto
qed

end
