(* ===== verification/Address_Space.thy ===== *)
theory Address_Space
  imports Page_Table
begin

text \<open>
  Retiring and registering whole address spaces: \<^verbatim>\<open>mm_chirho/address_space_chirho.rs\<close>.
  A loop over the entries of a table is \<^verbatim>\<open>for_entries\<close>, which stops at the first
  error with the state reached so far.  A level-1 table holds the final entries; the
  levels above hold tables.  The outcome of \<^verbatim>\<open>try_reserve_exact\<close> is a parameter.
\<close>

section \<open>Loops over table entries\<close>

fun for_entries :: "(nat \<Rightarrow> 's \<Rightarrow> 's \<times> ('e + unit)) \<Rightarrow> nat list \<Rightarrow> 's \<Rightarrow> 's \<times> ('e + unit)" where
  "for_entries step [] s = (s, Inr ())"
| "for_entries step (i # is) s =
     (case step i s of (s', Inl e) \<Rightarrow> (s', Inl e) | (s', Inr _) \<Rightarrow> for_entries step is s')"

text \<open>The entries a traversal visits: used and user-accessible.\<close>

definition entry_is_owned :: "x86_api \<Rightarrow> u64 \<Rightarrow> bool" where
  "entry_is_owned X e \<longleftrightarrow> \<not> (entry_is_unused X e \<or> \<not> flags_contain (entry_flags X e) PTE_USER)"

section \<open>Retiring a tree of tables\<close>

datatype PageTableRetireErrorChirho =
    ActiveRootChirho | BootRootChirho
  | UnmanagedTableFrameChirho u64 | HugeUserMappingChirho u64
  | LeafReleaseChirho FrameReleaseErrorChirho | LeafRollbackChirho FrameRetainErrorChirho
  | ScratchAllocationFailedChirho | TraversalChangedChirho

record AddressSpaceRetireStatsChirho =
  leaf_mappings_released_chirho :: u64
  leaf_frames_freed_chirho :: u64
  unmanaged_leaf_mappings_cleared_chirho :: u64
  table_frames_freed_chirho :: u64

record ReleasedLeafChirho =
  physical_address_chirho :: u64
  free_frame_chirho :: bool
  managed_chirho :: bool

primrec validate_table_tree_chirho ::
  "x86_api \<Rightarrow> phys_state \<Rightarrow> nat \<Rightarrow> u64 \<Rightarrow> PageTableRetireErrorChirho + usize" where
  "validate_table_tree_chirho X s 0 = (\<lambda>p. Inr 0)"
| "validate_table_tree_chirho X s (Suc l) = (\<lambda>p.
     if \<not> frame_is_managed_chirho p s then Inl (UnmanagedTableFrameChirho p)
     else case for_entries (\<lambda>i n.
            (let e = ps_mem s p i in
             if entry_is_unused X e then (n, Inr ())
             else if \<not> flags_contain (entry_flags X e) PTE_USER then (n, Inr ())
             else if l > 0 \<and> flags_contain (entry_flags X e) PTE_HUGE
               then (n, Inl (HugeUserMappingChirho (entry_addr X e)))
             else if l = 0 then (saturating_add n 1, Inr ())
             else case validate_table_tree_chirho X s l (entry_addr X e) of
               Inl err \<Rightarrow> (n, Inl err) | Inr n' \<Rightarrow> (saturating_add n n', Inr ()))) [0 ..< 512] 0 of
          (_, Inl err) \<Rightarrow> Inl err | (n, Inr _) \<Rightarrow> Inr n)"

type_synonym release_state = "phys_state \<times> ReleasedLeafChirho list"

primrec release_tree_leaves_chirho ::
  "x86_api \<Rightarrow> nat \<Rightarrow> u64 \<Rightarrow> release_state \<Rightarrow> release_state \<times> (PageTableRetireErrorChirho + unit)" where
  "release_tree_leaves_chirho X 0 = (\<lambda>p st. (st, Inr ()))"
| "release_tree_leaves_chirho X (Suc l) = (\<lambda>p. for_entries (\<lambda>i (s, out).
     (let e = ps_mem s p i in
      if \<not> entry_is_owned X e then ((s, out), Inr ())
      else if l = 0
      then (case release_leaf_mapping_chirho (entry_addr X e) s of
              (s1, Inl err) \<Rightarrow> ((s1, out), Inl (LeafReleaseChirho err))
            | (s1, Inr r) \<Rightarrow>
                ((s1, out @ [\<lparr>physical_address_chirho = entry_addr X e,
                    free_frame_chirho = (r = LastReferenceChirho),
                    managed_chirho = (r \<noteq> ReleaseUnmanagedChirho)\<rparr>]), Inr ()))
      else release_tree_leaves_chirho X l (entry_addr X e) (s, out))) [0 ..< 512])"

fun rollback_released_leaves_chirho ::
  "ReleasedLeafChirho list \<Rightarrow> phys_state \<Rightarrow> phys_state \<times> (PageTableRetireErrorChirho + unit)" where
  "rollback_released_leaves_chirho [] s = (s, Inr ())"
| "rollback_released_leaves_chirho (r # rs) s =
     (if managed_chirho r
      then (case retain_leaf_mapping_chirho (physical_address_chirho r) s of
              (s1, Inl err) \<Rightarrow> (s1, Inl (LeafRollbackChirho err))
            | (s1, Inr _) \<Rightarrow> rollback_released_leaves_chirho rs s1)
      else rollback_released_leaves_chirho rs s)"

type_synonym clear_state = "phys_state \<times> nat \<times> AddressSpaceRetireStatsChirho"

definition clear_leaf ::
  "x86_api \<Rightarrow> ReleasedLeafChirho list \<Rightarrow> u64 \<Rightarrow> nat \<Rightarrow> clear_state \<Rightarrow>
   clear_state \<times> (PageTableRetireErrorChirho + unit)" where
  "clear_leaf X released p i st = (case st of (s, idx, stats) \<Rightarrow>
     (case get_opt released idx of
        None \<Rightarrow> (st, Inl TraversalChangedChirho)
      | Some r \<Rightarrow>
          if physical_address_chirho r \<noteq> entry_addr X (ps_mem s p i) then (st, Inl TraversalChangedChirho)
          else
            (let s1 = write_pt_entry_chirho p i (entry_unused X) s;
                 stats1 = stats\<lparr>leaf_mappings_released_chirho := leaf_mappings_released_chirho stats + 1\<rparr>
             in if free_frame_chirho r
                then ((deallocate_frame_chirho (frame_containing X (physical_address_chirho r)) s1, idx + 1,
                       stats1\<lparr>leaf_frames_freed_chirho := leaf_frames_freed_chirho stats1 + 1\<rparr>), Inr ())
                else if \<not> managed_chirho r
                then ((s1, idx + 1, stats1\<lparr>unmanaged_leaf_mappings_cleared_chirho :=
                         unmanaged_leaf_mappings_cleared_chirho stats1 + 1\<rparr>), Inr ())
                else ((s1, idx + 1, stats1), Inr ()))))"

text \<open>The branch for an entry that holds a table, shared by the recursive function and
  the loop over the root: clear the child with \<^verbatim>\<open>rec\<close>, then drop and free it.\<close>

definition clear_child ::
  "x86_api \<Rightarrow> (u64 \<Rightarrow> clear_state \<Rightarrow> clear_state \<times> (PageTableRetireErrorChirho + unit)) \<Rightarrow>
   u64 \<Rightarrow> nat \<Rightarrow> clear_state \<Rightarrow> clear_state \<times> (PageTableRetireErrorChirho + unit)" where
  "clear_child X rec p i st =
     (let child = entry_addr X (ps_mem (fst st) p i) in
      case rec child st of
        (st1, Inl err) \<Rightarrow> (st1, Inl err)
      | ((s1, idx, stats), Inr _) \<Rightarrow>
          ((deallocate_frame_chirho (frame_containing X child) (write_pt_entry_chirho p i (entry_unused X) s1), idx,
            stats\<lparr>table_frames_freed_chirho := table_frames_freed_chirho stats + 1\<rparr>), Inr ()))"

primrec clear_and_free_table_chirho ::
  "x86_api \<Rightarrow> ReleasedLeafChirho list \<Rightarrow> nat \<Rightarrow> u64 \<Rightarrow> clear_state \<Rightarrow>
   clear_state \<times> (PageTableRetireErrorChirho + unit)" where
  "clear_and_free_table_chirho X released 0 = (\<lambda>p st. (st, Inr ()))"
| "clear_and_free_table_chirho X released (Suc l) = (\<lambda>p. for_entries (\<lambda>i st.
     if \<not> entry_is_owned X (ps_mem (fst st) p i) then (st, Inr ())
     else if l = 0 then clear_leaf X released p i st
     else clear_child X (clear_and_free_table_chirho X released l) p i st) [0 ..< 512])"

definition retire_page_table_tree_chirho ::
  "x86_api \<Rightarrow> (usize \<Rightarrow> bool) \<Rightarrow> u64 \<Rightarrow> phys_state \<Rightarrow>
   phys_state \<times> (PageTableRetireErrorChirho + AddressSpaceRetireStatsChirho)" where
  "retire_page_table_tree_chirho X reserve root s =
     (if root = BOOT_PML4_PHYS_CHIRHO s then (s, Inl BootRootChirho)
      else if ps_cr3 s = root then (s, Inl ActiveRootChirho)
      else if \<not> frame_is_managed_chirho root s then (s, Inl (UnmanagedTableFrameChirho root))
      else case for_entries (\<lambda>i n.
             if \<not> entry_is_owned X (ps_mem s root i) then (n, Inr ())
             else case validate_table_tree_chirho X s 3 (entry_addr X (ps_mem s root i)) of
               Inl err \<Rightarrow> (n, Inl err) | Inr n' \<Rightarrow> (saturating_add n n', Inr ())) [0 ..< KERNEL_PML4_START_CHIRHO] 0 of
        (_, Inl err) \<Rightarrow> (s, Inl err)
      | (leaf_count, Inr _) \<Rightarrow>
        if \<not> reserve leaf_count then (s, Inl ScratchAllocationFailedChirho)
        else case for_entries (\<lambda>i (s, out).
               if \<not> entry_is_owned X (ps_mem s root i) then ((s, out), Inr ())
               else release_tree_leaves_chirho X 3 (entry_addr X (ps_mem s root i)) (s, out))
             [0 ..< KERNEL_PML4_START_CHIRHO] (s, []) of
          ((s1, released), Inl err) \<Rightarrow>
            (case rollback_released_leaves_chirho released s1 of
               (s2, Inl err2) \<Rightarrow> (s2, Inl err2) | (s2, Inr _) \<Rightarrow> (s2, Inl err))
        | ((s1, released), Inr _) \<Rightarrow>
            (case for_entries (\<lambda>i st.
               if \<not> entry_is_owned X (ps_mem (fst st) root i) then (st, Inr ())
               else clear_child X (clear_and_free_table_chirho X released 3) root i st)
             [0 ..< KERNEL_PML4_START_CHIRHO]
             (s1, 0, \<lparr>leaf_mappings_released_chirho = 0, leaf_frames_freed_chirho = 0,
                unmanaged_leaf_mappings_cleared_chirho = 0, table_frames_freed_chirho = 0\<rparr>) of
               ((s2, _, _), Inl err) \<Rightarrow> (s2, Inl err)
             | ((s2, idx, stats), Inr _) \<Rightarrow>
                 if idx \<noteq> length released then (s2, Inl TraversalChangedChirho)
                 else (deallocate_frame_chirho (frame_containing X root) s2,
                       Inr (stats\<lparr>table_frames_freed_chirho := table_frames_freed_chirho stats + 1\<rparr>))))"

section \<open>Ownership handles\<close>

record AddressSpaceRecordChirho =
  root_phys_chirho :: u64
  owners_chirho :: u64

datatype AddressSpaceRetireReasonChirho =
    RetireNotLiveChirho | RetireSharedOwnersChirho u32 | ActiveCr3Chirho | ActiveMapperRootChirho
  | RetireBootRootChirho | PageTableChirho PageTableRetireErrorChirho

text \<open>\<^verbatim>\<open>expect\<close> on a failed state change panics.\<close>

datatype retire_failure = RetireRefused AddressSpaceRetireReasonChirho | RetirePanic

definition try_from_new_root_chirho :: "bool \<Rightarrow> u64 \<Rightarrow> AddressSpaceRecordChirho option" where
  "try_from_new_root_chirho alloc_ok root =
     (if alloc_ok then Some \<lparr>root_phys_chirho = root, owners_chirho = owner_new_chirho\<rparr> else None)"

definition try_share_chirho ::
  "AddressSpaceRecordChirho \<Rightarrow> AddressSpaceRecordChirho \<times> (AddressSpaceOwnerErrorChirho + unit)" where
  "try_share_chirho h = (case cas_apply owner_retain_body_chirho (owners_chirho h) of
     (w, Inl e) \<Rightarrow> (h\<lparr>owners_chirho := w\<rparr>, Inl e) | (w, Inr _) \<Rightarrow> (h\<lparr>owners_chirho := w\<rparr>, Inr ()))"

definition lock_current_mapper_chirho :: "phys_state \<Rightarrow> phys_state" where
  "lock_current_mapper_chirho s =
     (if GLOBAL_MAPPER_ROOT_PHYS_CHIRHO s \<noteq> ps_cr3 s then s\<lparr>GLOBAL_MAPPER_ROOT_PHYS_CHIRHO := ps_cr3 s\<rparr> else s)"

definition global_mapper_root_phys_chirho :: "phys_state \<Rightarrow> u64 option" where
  "global_mapper_root_phys_chirho s =
     (if GLOBAL_MAPPER_ROOT_PHYS_CHIRHO s \<noteq> 0 then Some (GLOBAL_MAPPER_ROOT_PHYS_CHIRHO s) else None)"

definition cancel_with :: "AddressSpaceRecordChirho \<Rightarrow> AddressSpaceRetireReasonChirho \<Rightarrow>
    AddressSpaceRecordChirho \<times> retire_failure" where
  "cancel_with h reason = (case cas_apply cancel_retirement_body_chirho (owners_chirho h) of
     (w, Inl _) \<Rightarrow> (h\<lparr>owners_chirho := w\<rparr>, RetirePanic)
   | (w, Inr _) \<Rightarrow> (h\<lparr>owners_chirho := w\<rparr>, RetireRefused reason))"

text \<open>On success the record is freed: the result has the statistics and no handle.\<close>

definition retire_chirho ::
  "x86_api \<Rightarrow> (usize \<Rightarrow> bool) \<Rightarrow> AddressSpaceRecordChirho \<Rightarrow> phys_state \<Rightarrow>
   phys_state \<times> (AddressSpaceRecordChirho \<times> retire_failure + AddressSpaceRetireStatsChirho)" where
  "retire_chirho X reserve h s =
     (case cas_apply try_begin_retirement_body_chirho (owners_chirho h) of
        (w, Inl NotLiveChirho) \<Rightarrow> (s, Inl (h\<lparr>owners_chirho := w\<rparr>, RetireRefused RetireNotLiveChirho))
      | (w, Inl (SharedOwnersChirho n)) \<Rightarrow>
          (s, Inl (h\<lparr>owners_chirho := w\<rparr>, RetireRefused (RetireSharedOwnersChirho n)))
      | (w, Inr _) \<Rightarrow>
          (let h1 = h\<lparr>owners_chirho := w\<rparr>; root = root_phys_chirho h1 in
           if root = BOOT_PML4_PHYS_CHIRHO s then (s, Inl (cancel_with h1 RetireBootRootChirho))
           else if ps_cr3 s = root then (s, Inl (cancel_with h1 ActiveCr3Chirho))
           else let s1 = lock_current_mapper_chirho s in
             if global_mapper_root_phys_chirho s1 = Some root
             then (s1, Inl (cancel_with h1 ActiveMapperRootChirho))
             else case retire_page_table_tree_chirho X reserve root s1 of
               (s2, Inl err) \<Rightarrow> (s2, Inl (cancel_with h1 (PageTableChirho err)))
             | (s2, Inr stats) \<Rightarrow>
                 (case cas_apply finish_retirement_body_chirho (owners_chirho h1) of
                    (w2, Inl _) \<Rightarrow> (s2, Inl (h1\<lparr>owners_chirho := w2\<rparr>, RetirePanic))
                  | (w2, Inr _) \<Rightarrow> (s2, Inr stats))))"

record handle_stats =
  UNRETIRED_LAST_HANDLE_DROPS_CHIRHO :: u64
  HANDLE_REFCOUNT_FAILURES_CHIRHO :: u64

definition handle_drop :: "AddressSpaceRecordChirho \<Rightarrow> handle_stats \<Rightarrow> AddressSpaceRecordChirho \<times> handle_stats" where
  "handle_drop h g = (case cas_apply owner_release_body_chirho (owners_chirho h) of
     (w, Inr LastOwnerChirho) \<Rightarrow> (h\<lparr>owners_chirho := w\<rparr>,
        g\<lparr>UNRETIRED_LAST_HANDLE_DROPS_CHIRHO := UNRETIRED_LAST_HANDLE_DROPS_CHIRHO g + 1\<rparr>)
   | (w, Inr (OwnersRemainChirho _)) \<Rightarrow> (h\<lparr>owners_chirho := w\<rparr>, g)
   | (w, Inl _) \<Rightarrow> (h\<lparr>owners_chirho := w\<rparr>,
        g\<lparr>HANDLE_REFCOUNT_FAILURES_CHIRHO := HANDLE_REFCOUNT_FAILURES_CHIRHO g + 1\<rparr>))"

section \<open>Registering mappings made before the counts existed\<close>

datatype UserMappingRegistrationErrorChirho =
    RegHugeUserMappingChirho u64 | RegRetainChirho FrameRetainErrorChirho
  | RegRollbackChirho FrameReleaseErrorChirho | RegScratchAllocationFailedChirho | RegTraversalChangedChirho

primrec count_existing_user_leaves_chirho ::
  "x86_api \<Rightarrow> phys_state \<Rightarrow> nat \<Rightarrow> u64 \<Rightarrow> UserMappingRegistrationErrorChirho + usize" where
  "count_existing_user_leaves_chirho X s 0 = (\<lambda>p. Inr 0)"
| "count_existing_user_leaves_chirho X s (Suc l) = (\<lambda>p.
     case for_entries (\<lambda>i n.
            (let e = ps_mem s p i in
             if \<not> entry_is_owned X e then (n, Inr ())
             else if l > 0 \<and> flags_contain (entry_flags X e) PTE_HUGE
               then (n, Inl (RegHugeUserMappingChirho (entry_addr X e)))
             else if l = 0 then (saturating_add n 1, Inr ())
             else case count_existing_user_leaves_chirho X s l (entry_addr X e) of
               Inl err \<Rightarrow> (n, Inl err) | Inr n' \<Rightarrow> (saturating_add n n', Inr ()))) [0 ..< 512] 0 of
       (_, Inl err) \<Rightarrow> Inl err | (n, Inr _) \<Rightarrow> Inr n)"

primrec retain_existing_user_leaves_chirho ::
  "x86_api \<Rightarrow> nat \<Rightarrow> u64 \<Rightarrow> phys_state \<times> u64 list \<Rightarrow>
   (phys_state \<times> u64 list) \<times> (UserMappingRegistrationErrorChirho + unit)" where
  "retain_existing_user_leaves_chirho X 0 = (\<lambda>p st. (st, Inr ()))"
| "retain_existing_user_leaves_chirho X (Suc l) = (\<lambda>p. for_entries (\<lambda>i (s, out).
     (let e = ps_mem s p i in
      if \<not> entry_is_owned X e then ((s, out), Inr ())
      else if l = 0
      then (case retain_leaf_mapping_chirho (entry_addr X e) s of
              (s1, Inl err) \<Rightarrow> ((s1, out), Inl (RegRetainChirho err))
            | (s1, Inr r) \<Rightarrow>
                ((s1, if r \<noteq> RetainUnmanagedChirho then out @ [entry_addr X e] else out), Inr ()))
      else retain_existing_user_leaves_chirho X l (entry_addr X e) (s, out))) [0 ..< 512])"

fun release_retained :: "u64 list \<Rightarrow> phys_state \<Rightarrow> phys_state \<times> (UserMappingRegistrationErrorChirho + unit)" where
  "release_retained [] s = (s, Inr ())"
| "release_retained (p # ps) s = (case release_leaf_mapping_chirho p s of
     (s1, Inl err) \<Rightarrow> (s1, Inl (RegRollbackChirho err)) | (s1, Inr _) \<Rightarrow> release_retained ps s1)"

definition register_existing_user_mappings_chirho ::
  "x86_api \<Rightarrow> (usize \<Rightarrow> bool) \<Rightarrow> u64 \<Rightarrow> phys_state \<Rightarrow>
   phys_state \<times> (UserMappingRegistrationErrorChirho + usize)" where
  "register_existing_user_mappings_chirho X reserve root s =
     (case for_entries (\<lambda>i n.
             if \<not> entry_is_owned X (ps_mem s root i) then (n, Inr ())
             else case count_existing_user_leaves_chirho X s 3 (entry_addr X (ps_mem s root i)) of
               Inl err \<Rightarrow> (n, Inl err) | Inr n' \<Rightarrow> (saturating_add n n', Inr ())) [0 ..< KERNEL_PML4_START_CHIRHO] 0 of
        (_, Inl err) \<Rightarrow> (s, Inl err)
      | (leaf_count, Inr _) \<Rightarrow>
        if \<not> reserve leaf_count then (s, Inl RegScratchAllocationFailedChirho)
        else case for_entries (\<lambda>i (s, out).
               if \<not> entry_is_owned X (ps_mem s root i) then ((s, out), Inr ())
               else retain_existing_user_leaves_chirho X 3 (entry_addr X (ps_mem s root i)) (s, out))
             [0 ..< KERNEL_PML4_START_CHIRHO] (s, []) of
          ((s1, retained), Inl err) \<Rightarrow>
            (case release_retained (rev retained) s1 of
               (s2, Inl err2) \<Rightarrow> (s2, Inl err2) | (s2, Inr _) \<Rightarrow> (s2, Inl err))
        | ((s1, retained), Inr _) \<Rightarrow>
            if length retained > unat leaf_count then (s1, Inl RegTraversalChangedChirho)
            else (s1, Inr leaf_count))"

end
