(* ===== verification/Space_Retire.thy ===== *)
theory Space_Retire
  imports Page_Safety Address_Space
begin

text \<open>
  Retiring an address space: the three passes over its tables seen through the list of
  its final entries, and what they leave behind.
\<close>

section \<open>The final entries of a tree, in traversal order\<close>

fun entry_leaves :: "phys_mem \<Rightarrow> nat \<Rightarrow> u64 \<Rightarrow> nat \<Rightarrow> u64 list" where
  "entry_leaves m 0 p i = (if is_user (m p i) then [m p i] else [])"
| "entry_leaves m (Suc k) p i =
     (if is_user (m p i) then concat (map (entry_leaves m k (child_of m p i)) [0 ..< 512]) else [])"

definition leaves :: "phys_mem \<Rightarrow> nat \<Rightarrow> nat \<Rightarrow> u64 \<Rightarrow> u64 list" where
  "leaves m k n p = concat (map (entry_leaves m k p) [0 ..< n])"

primrec entry_tables :: "phys_mem \<Rightarrow> nat \<Rightarrow> u64 \<Rightarrow> nat \<Rightarrow> u64 list" where
  "entry_tables m 0 p i = []"
| "entry_tables m (Suc k) p i = below m k p i"

lemma owned_entries: "owned m k n p = p # concat (map (entry_tables m k p) [0 ..< n])"
  by (cases k) (simp_all add: owned_Suc map_replicate_const cong: map_cong)

lemma entry_leaves_Suc: "entry_leaves m (Suc k) p i = (if is_user (m p i) then leaves m k 512 (child_of m p i) else [])"
  by (simp add: leaves_def)

declare entry_leaves.simps(2) [simp del]

lemma leaves_user: "e \<in> set (entry_leaves m k p i) \<Longrightarrow> is_user e"
proof (induction k arbitrary: p i)
  case 0
  then show ?case by (auto split: if_splits)
next
  case (Suc k)
  then show ?case by (auto simp: entry_leaves_Suc leaves_def split: if_splits)
qed

lemma entry_cong:
  assumes "m' p i = m p i" and "\<And>q. q \<in> set (entry_tables m k p i) \<Longrightarrow> m' q = m q"
  shows "entry_leaves m' k p i = entry_leaves m k p i" "entry_tables m' k p i = entry_tables m k p i"
proof -
  show "entry_leaves m' k p i = entry_leaves m k p i"
    using assms
  proof (induction k arbitrary: p i)
    case (Suc k)
    have "entry_leaves m' k (child_of m p i) j = entry_leaves m k (child_of m p i) j" if "is_user (m p i)" "j < 512" for j
    proof -
      have "q \<in> set (owned m k 512 (child_of m p i))" if "q \<in> insert (child_of m p i) (set (entry_tables m k (child_of m p i) j))" for q
        unfolding owned_entries using that \<open>j < 512\<close> by auto
      then have "m' q = m q" if "q \<in> insert (child_of m p i) (set (entry_tables m k (child_of m p i) j))" for q
        using Suc.prems(2) \<open>is_user (m p i)\<close> that by (simp add: below_def)
      then show ?thesis by (intro Suc.IH) simp_all
    qed
    then show ?case by (auto simp: entry_leaves_Suc leaves_def Suc.prems(1) intro!: arg_cong [of _ _ concat])
  qed simp
  show "entry_tables m' k p i = entry_tables m k p i"
  proof (cases k)
    case (Suc l)
    have "owned m' l 512 (child_of m p i) = owned m l 512 (child_of m p i)" if "is_user (m p i)"
      using assms(2) that Suc by (intro tree_cong(1)) (simp add: below_def)
    then show ?thesis using Suc assms(1) by (simp add: below_def)
  qed simp
qed

text \<open>Counting entries by path and by position is the same.\<close>

lemma card_leaves:
  assumes "\<And>e. M e \<Longrightarrow> is_user e"
  shows "card {is. M (leaf m k n p is)} = length (filter M (leaves m k n p)) \<and> finite {is. M (leaf m k n p is)}"
proof (induction k arbitrary: n p)
  case 0
  have z: "\<not> M 0" using assms user_nonzero by blast
  have "{is. M (leaf m 0 n p is)} = (\<lambda>i. [i]) ` {i. i < n \<and> M (m p i)}"
  proof (rule set_eqI)
    fix js show "js \<in> {is. M (leaf m 0 n p is)} \<longleftrightarrow> js \<in> (\<lambda>i. [i]) ` {i. i < n \<and> M (m p i)}"
      using z by (cases js; cases "tl js") (auto split: if_splits)
  qed
  moreover have "filter M (leaves m 0 n p) = filter M (map (m p) [0 ..< n])"
    using assms by (induction n) (auto simp: leaves_def)
  ultimately show ?case
    by (simp add: card_image inj_on_def length_filter_conv_card cong: conj_cong)
next
  case (Suc k)
  let ?A = "\<lambda>i. {is. M (leaf m k 512 (child_of m p i) is)}"
  let ?U = "{i. i < n \<and> is_user (m p i)}"
  have z: "\<not> M 0" using assms user_nonzero by blast
  have A: "card (?A i) = length (filter M (leaves m k 512 (child_of m p i)))" "finite (?A i)" for i
    using Suc.IH by blast+
  have S: "{is. M (leaf m (Suc k) n p is)} = (\<Union>i\<in>?U. (#) i ` ?A i)"
  proof (rule set_eqI)
    fix js show "js \<in> {is. M (leaf m (Suc k) n p is)} \<longleftrightarrow> js \<in> (\<Union>i\<in>?U. (#) i ` ?A i)"
      using z by (cases js) auto
  qed
  have fin: "finite ?U" by simp
  have "card (\<Union>i\<in>?U. (#) i ` ?A i) = (\<Sum>i\<in>?U. card ((#) i ` ?A i))"
    using A(2) by (intro card_UN_disjoint) auto
  also have "\<dots> = (\<Sum>i\<in>?U. length (filter M (leaves m k 512 (child_of m p i))))"
    using A(1) by (intro sum.cong refl) (simp add: card_image inj_on_def)
  also have "\<dots> = (\<Sum>i<n. length (filter M (entry_leaves m (Suc k) p i)))"
    by (intro sum.mono_neutral_cong_left) (auto simp: entry_leaves_Suc)
  also have "\<dots> = length (filter M (leaves m (Suc k) n p))"
    by (induction n) (simp_all add: leaves_def)
  finally show ?case using A(2) fin unfolding S by simp
qed

section \<open>Releasing\<close>

text \<open>The counts and the records after releasing a list of entries.\<close>

primrec release_list :: "u64 list \<Rightarrow> (usize \<Rightarrow> u32 option) \<Rightarrow> ReleasedLeafChirho list" where
  "release_list [] c = []"
| "release_list (e # es) c =
     \<lparr>physical_address_chirho = pt_entry_addr_chirho e, free_frame_chirho = frees_frame e c,
      managed_chirho = (c (physical_frame_number_chirho (pt_entry_addr_chirho e)) \<noteq> None)\<rparr> # release_list es (drop_entry e c)"

abbreviation maps_count :: "u64 list \<Rightarrow> usize \<Rightarrow> nat" where
  "maps_count es f \<equiv> length (filter (\<lambda>e. maps_frame e f) es)"

definition enough :: "u64 list \<Rightarrow> (usize \<Rightarrow> u32 option) \<Rightarrow> bool" where
  "enough es c \<longleftrightarrow> (\<forall>e\<in>set es. is_user e) \<and> (\<forall>f n. c f = Some n \<longrightarrow> maps_count es f \<le> unat n)"

lemma release_list_append: "release_list (es @ fs) c = release_list es c @ release_list fs (fold drop_entry es c)"
  by (induction es arbitrary: c) simp_all

lemma release_list_addr: "map physical_address_chirho (release_list es c) = map pt_entry_addr_chirho es"
  by (induction es arbitrary: c) simp_all

lemma drop_count:
  assumes "enough (e # es) c"
  shows "enough es (drop_entry e c)" "c f = None \<Longrightarrow> drop_entry e c f = None"
    "c f = Some n \<Longrightarrow> \<exists>n'. drop_entry e c f = Some n' \<and> unat n' + of_bool (maps_frame e f) = unat n"
proof -
  let ?h = "physical_frame_number_chirho (pt_entry_addr_chirho e)"
  have u: "is_user e" using assms by (simp add: enough_def)
  have le: "unat n \<ge> of_bool (maps_frame e f) + maps_count es f" if "c f = Some n" for f n
    using assms that by (force simp: enough_def split: if_splits)
  have d: "\<exists>n'. drop_entry e c f = Some n' \<and> unat n' + of_bool (maps_frame e f) = unat n" if n: "c f = Some n" for f n
  proof (cases "f = ?h")
    case True
    then have m: "maps_frame e f" using u by (simp add: maps_frame_def)
    then have "unat n \<noteq> 0" using le [OF n] by simp
    moreover from this have "n \<noteq> 0" by auto
    ultimately have "unat (n - 1) + 1 = unat n" by (simp add: unat_minus_one)
    then show ?thesis using True u n m by (simp add: drop_entry_def dec_count_def)
  next
    case False
    then show ?thesis using n u by (auto simp: drop_entry_def dec_count_def maps_frame_def split: option.splits)
  qed
  show none: "drop_entry e c f = None" if "c f = None" for f
    using that by (auto simp: drop_entry_def dec_count_def split: option.splits)
  show "c f = Some n \<Longrightarrow> \<exists>n'. drop_entry e c f = Some n' \<and> unat n' + of_bool (maps_frame e f) = unat n" by (rule d)
  have "maps_count es f \<le> unat n'" if n': "drop_entry e c f = Some n'" for f n'
  proof -
    obtain n where n: "c f = Some n" using none [of f] n' by (cases "c f") auto
    then show ?thesis using d [OF n] le [OF n] n' by auto
  qed
  then show "enough es (drop_entry e c)" using assms by (auto simp: enough_def)
qed

lemma drop_counts:
  assumes "enough es c"
  shows "c f = None \<Longrightarrow> fold drop_entry es c f = None"
    "c f = Some n \<Longrightarrow> \<exists>n'. fold drop_entry es c f = Some n' \<and> unat n' + maps_count es f = unat n"
  using assms
proof (induction es arbitrary: c n)
  case (Cons e es)
  { case 1 then show ?case using Cons.IH(1) drop_count [of e es c] by simp }
  { case 2
    then obtain n1 where n1: "drop_entry e c f = Some n1" "unat n1 + of_bool (maps_frame e f) = unat n"
      using drop_count(3) by blast
    obtain n' where "fold drop_entry es (drop_entry e c) f = Some n'" "unat n' + maps_count es f = unat n1"
      using Cons.IH(2) [of "drop_entry e c" n1] n1(1) drop_count(1) [OF 2(2)] by blast
    then show ?case using n1(2) by auto }
qed simp_all

lemma enough_append:
  assumes "enough (es @ fs) c"
  shows "enough es c" "enough fs (fold drop_entry es c)"
proof -
  have le: "maps_count es f + maps_count fs f \<le> unat n" if "c f = Some n" for f n
    using assms that by (auto simp: enough_def)
  show es: "enough es c" using assms le by (fastforce simp: enough_def)
  have "maps_count fs f \<le> unat n'" if n': "fold drop_entry es c f = Some n'" for f n'
  proof -
    obtain n where n: "c f = Some n" using drop_counts(1) [OF es, of f] n' by (cases "c f") auto
    then show ?thesis using drop_counts(2) [OF es n] le [OF n] n' by auto
  qed
  then show "enough fs (fold drop_entry es c)" using assms by (auto simp: enough_def)
qed

text \<open>The frames marked free: each once, those whose count has reached zero.\<close>

definition freed_of :: "ReleasedLeafChirho list \<Rightarrow> u64 list" where
  "freed_of rs = map physical_address_chirho (filter free_frame_chirho rs)"

lemma freed_of_append [simp]: "freed_of (rs @ rs') = freed_of rs @ freed_of rs'"
  by (simp add: freed_of_def)

lemma freed_of_release:
  assumes "enough es c"
  shows "distinct (freed_of (release_list es c)) \<and>
    (\<forall>a. a \<in> set (freed_of (release_list es c)) \<longleftrightarrow>
      a \<in> pt_entry_addr_chirho ` set es \<and> fold drop_entry es c (physical_frame_number_chirho a) = Some 0)"
  using assms
proof (induction es arbitrary: c)
  case (Cons e es)
  let ?c = "drop_entry e c" and ?a = "pt_entry_addr_chirho e" and ?pf = physical_frame_number_chirho
  have en: "enough es ?c" using drop_count(1) [OF Cons.prems] .
  note IH = Cons.IH [OF en]
  have u: "is_user e" using Cons.prems by (simp add: enough_def)
  show ?case
  proof (cases "frees_frame e c")
    case True
    then have c0: "?c (?pf ?a) = Some 0" by (simp add: frees_frame_def drop_entry_def dec_count_def)
    then have "maps_count es (?pf ?a) = 0" using en unfolding enough_def by (metis le_zero_eq unsigned_0)
    then have no: "?a \<notin> pt_entry_addr_chirho ` set es"
      using en by (auto simp: enough_def maps_frame_def filter_empty_conv)
    obtain n' where "fold drop_entry es ?c (?pf ?a) = Some n'" "unat n' = 0"
      using drop_counts(2) [OF en c0] by auto
    then have "fold drop_entry es ?c (?pf ?a) = Some 0" by (simp add: unat_eq_0)
    then show ?thesis using True IH no by (auto simp: freed_of_def)
  next
    case False
    have "fold drop_entry es ?c (?pf ?a) \<noteq> Some 0" if no: "?a \<notin> pt_entry_addr_chirho ` set es"
    proof
      assume z: "fold drop_entry es ?c (?pf ?a) = Some 0"
      have mc: "maps_count es (?pf ?a) = 0"
        using no frame_number_inject [OF frame_ok_addr frame_ok_addr] by (fastforce simp: maps_frame_def filter_empty_conv)
      then obtain n1 where n1: "?c (?pf ?a) = Some n1" using z drop_counts(1) [OF en, of "?pf ?a"] by (cases "?c (?pf ?a)") auto
      then have "unat n1 = 0" using drop_counts(2) [OF en n1] z mc by auto
      moreover obtain n where n: "c (?pf ?a) = Some n" using drop_count(2) [OF Cons.prems, of "?pf ?a"] n1 by (cases "c (?pf ?a)") auto
      ultimately have "unat n = 1" using drop_count(3) [OF Cons.prems n] n1 u by (auto simp: maps_frame_def)
      then have "n = 1" by (simp add: word_unat_eq_iff)
      then show False using False n u by (simp add: frees_frame_def)
    qed
    then show ?thesis using False IH by (auto simp: freed_of_def)
  qed
qed (simp add: freed_of_def)

lemma for_entries_append:
  "for_entries step (is @ js) s =
    (case for_entries step is s of (s', Inl e) \<Rightarrow> (s', Inl e) | (s', Inr _) \<Rightarrow> for_entries step js s')"
  by (induction "is" arbitrary: s) (auto split: prod.splits sum.splits)

definition release_step ::
  "x86_api \<Rightarrow> nat \<Rightarrow> u64 \<Rightarrow> nat \<Rightarrow> release_state \<Rightarrow> release_state \<times> (PageTableRetireErrorChirho + unit)" where
  "release_step X k p = (\<lambda>i (s, out).
     (let e = ps_mem s p i in
      if \<not> entry_is_owned X e then ((s, out), Inr ())
      else if k = 0
      then (case release_leaf_mapping_chirho (entry_addr X e) s of
              (s1, Inl err) \<Rightarrow> ((s1, out), Inl (LeafReleaseChirho err))
            | (s1, Inr r) \<Rightarrow>
                ((s1, out @ [\<lparr>physical_address_chirho = entry_addr X e,
                    free_frame_chirho = (r = LastReferenceChirho),
                    managed_chirho = (r \<noteq> ReleaseUnmanagedChirho)\<rparr>]), Inr ()))
      else release_tree_leaves_chirho X k (entry_addr X e) (s, out)))"

definition validate_step ::
  "x86_api \<Rightarrow> phys_state \<Rightarrow> nat \<Rightarrow> u64 \<Rightarrow> nat \<Rightarrow> usize \<Rightarrow> usize \<times> (PageTableRetireErrorChirho + unit)" where
  "validate_step X s l p i n =
     (let e = ps_mem s p i in
      if entry_is_unused X e then (n, Inr ())
      else if \<not> flags_contain (entry_flags X e) PTE_USER then (n, Inr ())
      else if l > 0 \<and> flags_contain (entry_flags X e) PTE_HUGE
        then (n, Inl (HugeUserMappingChirho (entry_addr X e)))
      else if l = 0 then (saturating_add n 1, Inr ())
      else case validate_table_tree_chirho X s l (entry_addr X e) of
        Inl err \<Rightarrow> (n, Inl err) | Inr n' \<Rightarrow> (saturating_add n n', Inr ()))"

lemma validate_tree_step:
  "validate_table_tree_chirho X s (Suc l) p =
    (if \<not> frame_is_managed_chirho p s then Inl (UnmanagedTableFrameChirho p)
     else case for_entries (validate_step X s l p) [0 ..< 512] 0 of
       (_, Inl err) \<Rightarrow> Inl err | (n, Inr _) \<Rightarrow> Inr n)"
  by (simp add: validate_step_def [abs_def])

text \<open>The parts of the state that the release pass does not touch.\<close>

definition only_counts :: "phys_state \<Rightarrow> phys_state \<Rightarrow> bool" where
  "only_counts s s' \<longleftrightarrow> ps_mem s' = ps_mem s \<and>
     GLOBAL_FRAME_ALLOCATOR_CHIRHO s' = GLOBAL_FRAME_ALLOCATOR_CHIRHO s \<and> regs s' = regs s"

lemma only_counts_trans: "only_counts s s1 \<Longrightarrow> only_counts s1 s2 \<Longrightarrow> only_counts s s2"
  by (simp add: only_counts_def)

context x86_paging
begin

lemma entry_owned [simp]: "entry_is_owned X e = is_user e"
  using api_user [of e] by (auto simp: entry_is_owned_def)

lemma release_leaf_step:
  assumes "enough [e] (frame_count s)"
  obtains s' r where "release_leaf_mapping_chirho (pt_entry_addr_chirho e) s = (s', Inr r)" "only_counts s s'"
    "frame_count s' = drop_entry e (frame_count s)"
    "(r = LastReferenceChirho) = frees_frame e (frame_count s)"
    "(r \<noteq> ReleaseUnmanagedChirho) = (frame_count s (physical_frame_number_chirho (pt_entry_addr_chirho e)) \<noteq> None)"
proof -
  have u: "is_user e" using assms by (simp add: enough_def)
  obtain s' x where rel: "release_leaf_mapping_chirho (pt_entry_addr_chirho e) s = (s', x)" by fastforce
  note sp = release_leaf_spec [OF rel]
  have nz: "frame_count s (physical_frame_number_chirho (pt_entry_addr_chirho e)) \<noteq> Some 0"
  proof
    assume "frame_count s (physical_frame_number_chirho (pt_entry_addr_chirho e)) = Some 0"
    then have "maps_count [e] (physical_frame_number_chirho (pt_entry_addr_chirho e)) \<le> unat (0 :: u32)"
      using assms unfolding enough_def by blast
    then show False using u by (simp add: maps_frame_def)
  qed
  then obtain r where x: "x = Inr r" using sp(4) by (auto split: option.splits if_splits)
  show ?thesis
  proof (rule that)
    show "release_leaf_mapping_chirho (pt_entry_addr_chirho e) s = (s', Inr r)" using rel x by simp
    show "only_counts s s'" using sp(1-3) by (simp add: only_counts_def)
    show "frame_count s' = drop_entry e (frame_count s)"
      using release_leaf_ok(1) [OF rel [unfolded x]] u by (simp add: drop_entry_def)
    show "(r = LastReferenceChirho) = frees_frame e (frame_count s)"
      using release_leaf_ok(2) [OF rel [unfolded x]] u by (simp add: frees_frame_def)
    show "(r \<noteq> ReleaseUnmanagedChirho) = (frame_count s (physical_frame_number_chirho (pt_entry_addr_chirho e)) \<noteq> None)"
      using sp(4) x nz by (auto split: option.splits if_splits)
  qed
qed

lemma release_tree_step: "release_tree_leaves_chirho X (Suc l) p = for_entries (release_step X l p) [0 ..< 512]"
  by (simp add: release_step_def)

lemma release_loop:
  assumes step: "\<And>i s out. i \<in> set js \<Longrightarrow> enough (entry_leaves (ps_mem s) k p i) (frame_count s) \<Longrightarrow>
      \<exists>s'. st i (s, out) = ((s', out @ release_list (entry_leaves (ps_mem s) k p i) (frame_count s)), Inr ()) \<and>
        only_counts s s' \<and> frame_count s' = fold drop_entry (entry_leaves (ps_mem s) k p i) (frame_count s)"
    and "enough (concat (map (entry_leaves (ps_mem s) k p) js)) (frame_count s)"
  shows "\<exists>s'. for_entries st js (s, out) = ((s', out @ release_list (concat (map (entry_leaves (ps_mem s) k p) js)) (frame_count s)), Inr ()) \<and>
    only_counts s s' \<and> frame_count s' = fold drop_entry (concat (map (entry_leaves (ps_mem s) k p) js)) (frame_count s)"
  using assms
proof (induction js arbitrary: s out)
  case Nil
  then show ?case by (simp add: only_counts_def)
next
  case (Cons j js)
  let ?L = "entry_leaves (ps_mem s) k p"
  have en: "enough (?L j @ concat (map ?L js)) (frame_count s)" using Cons.prems(2) by simp
  obtain s1 where s1: "st j (s, out) = ((s1, out @ release_list (?L j) (frame_count s)), Inr ())"
    "only_counts s s1" "frame_count s1 = fold drop_entry (?L j) (frame_count s)"
    using Cons.prems(1) [of j s out] enough_append(1) [OF en] by auto
  have m: "ps_mem s1 = ps_mem s" using s1(2) by (simp add: only_counts_def)
  obtain s2 where "for_entries st js (s1, out @ release_list (?L j) (frame_count s)) =
      ((s2, (out @ release_list (?L j) (frame_count s)) @ release_list (concat (map ?L js)) (frame_count s1)), Inr ())"
    "only_counts s1 s2" "frame_count s2 = fold drop_entry (concat (map ?L js)) (frame_count s1)"
    using Cons.IH [of s1 "out @ release_list (?L j) (frame_count s)"] Cons.prems(1) enough_append(2) [OF en]
    unfolding m s1(3) [symmetric] by auto
  then show ?case using s1 only_counts_trans by (auto simp: release_list_append)
qed

lemma release_entry:
  assumes "enough (entry_leaves (ps_mem s) k p i) (frame_count s)"
  shows "\<exists>s'. release_step X k p i (s, out) =
      ((s', out @ release_list (entry_leaves (ps_mem s) k p i) (frame_count s)), Inr ()) \<and>
    only_counts s s' \<and> frame_count s' = fold drop_entry (entry_leaves (ps_mem s) k p i) (frame_count s)"
  using assms
proof (induction k arbitrary: p i s out)
  case 0
  show ?case
  proof (cases "is_user (ps_mem s p i)")
    case True
    have "enough [ps_mem s p i] (frame_count s)" using 0 True by simp
    from release_leaf_step [OF this] show ?thesis using True by (force simp: release_step_def Let_def)
  next
    case False
    then show ?thesis by (simp add: release_step_def Let_def only_counts_def)
  qed
next
  case (Suc k)
  show ?case
  proof (cases "is_user (ps_mem s p i)")
    case True
    have "enough (concat (map (entry_leaves (ps_mem s) k (child_of (ps_mem s) p i)) [0 ..< 512])) (frame_count s)"
      using Suc.prems True by (simp add: entry_leaves_Suc leaves_def)
    from release_loop [OF Suc.IH this, of out] show ?thesis
      using True by (simp add: release_step_def Let_def release_tree_step [unfolded release_step_def Let_def] entry_leaves_Suc leaves_def)
  next
    case False
    then show ?thesis by (simp add: release_step_def Let_def only_counts_def entry_leaves_Suc)
  qed
qed

end

section \<open>Clearing\<close>

definition stats_add :: "AddressSpaceRetireStatsChirho \<Rightarrow> ReleasedLeafChirho list \<Rightarrow> u64 list \<Rightarrow> AddressSpaceRetireStatsChirho" where
  "stats_add stats rs ts = \<lparr>
     leaf_mappings_released_chirho = leaf_mappings_released_chirho stats + of_nat (length rs),
     leaf_frames_freed_chirho = leaf_frames_freed_chirho stats + of_nat (length (filter free_frame_chirho rs)),
     unmanaged_leaf_mappings_cleared_chirho = unmanaged_leaf_mappings_cleared_chirho stats +
       of_nat (length (filter (\<lambda>r. \<not> free_frame_chirho r \<and> \<not> managed_chirho r) rs)),
     table_frames_freed_chirho = table_frames_freed_chirho stats + of_nat (length ts)\<rparr>"

definition zero_stats :: AddressSpaceRetireStatsChirho where
  "zero_stats = \<lparr>leaf_mappings_released_chirho = 0, leaf_frames_freed_chirho = 0,
     unmanaged_leaf_mappings_cleared_chirho = 0, table_frames_freed_chirho = 0\<rparr>"

lemma stats_add_add [simp]: "stats_add (stats_add stats rs ts) rs' ts' = stats_add stats (rs @ rs') (ts @ ts')"
  by (simp add: stats_add_def add.assoc)

lemma stats_add_nil [simp]: "stats_add stats [] [] = stats"
  by (simp add: stats_add_def)

lemma stats_add_table:
  "(stats_add stats rs ts)\<lparr>table_frames_freed_chirho := table_frames_freed_chirho (stats_add stats rs ts) + 1\<rparr> =
    stats_add stats rs (t # ts)"
  by (simp add: stats_add_def)

text \<open>Before clearing a list of entries of the table \<^verbatim>\<open>p\<close>: the tables \<^verbatim>\<open>T\<close> below them are
  distinct and not free, and the records \<^verbatim>\<open>mid\<close> are those of the entries \<^verbatim>\<open>L\<close>, whose freed
  frames are neither free nor tables.\<close>

definition clear_pre :: "phys_state \<Rightarrow> u64 list \<Rightarrow> u64 \<Rightarrow> u64 list \<Rightarrow> u64 list \<Rightarrow> ReleasedLeafChirho list \<Rightarrow> bool" where
  "clear_pre s pool p T L mid \<longleftrightarrow> alloc_pool s pool \<and> distinct (p # T) \<and> set (p # T) \<inter> set pool = {} \<and>
     map physical_address_chirho mid = map pt_entry_addr_chirho L \<and> distinct (freed_of mid) \<and>
     set (freed_of mid) \<inter> (set pool \<union> set (p # T)) = {}"

definition clear_post :: "phys_state \<Rightarrow> u64 list \<Rightarrow> u64 \<Rightarrow> nat list \<Rightarrow> u64 list \<Rightarrow> ReleasedLeafChirho list \<Rightarrow> phys_state \<Rightarrow> u64 list \<Rightarrow> bool" where
  "clear_post s pool p js T mid s' pool' \<longleftrightarrow> alloc_pool s' pool' \<and>
     set pool' = set pool \<union> set (freed_of mid) \<union> set T \<and>
     (\<forall>q. q \<notin> insert p (set T \<union> set (freed_of mid)) \<longrightarrow> ps_mem s' q = ps_mem s q) \<and>
     (\<forall>i. i \<notin> set js \<longrightarrow> ps_mem s' p i = ps_mem s p i) \<and>
     frame_count s' = frame_count s \<and> regs s' = regs s"

definition clear_step ::
  "x86_api \<Rightarrow> ReleasedLeafChirho list \<Rightarrow> nat \<Rightarrow> u64 \<Rightarrow> nat \<Rightarrow> clear_state \<Rightarrow> clear_state \<times> (PageTableRetireErrorChirho + unit)" where
  "clear_step X released k p i st =
     (if \<not> entry_is_owned X (ps_mem (fst st) p i) then (st, Inr ())
      else if k = 0 then clear_leaf X released p i st
      else clear_child X (clear_and_free_table_chirho X released k) p i st)"

lemma clear_tree_step: "clear_and_free_table_chirho X released (Suc l) p = for_entries (clear_step X released l p) [0 ..< 512]"
  by (simp add: clear_step_def [abs_def])

text \<open>The tables and the final entries below a list of entries.\<close>

abbreviation tabs_of :: "phys_mem \<Rightarrow> nat \<Rightarrow> u64 \<Rightarrow> nat list \<Rightarrow> u64 list" where
  "tabs_of m k p js \<equiv> concat (map (entry_tables m k p) js)"

abbreviation leaves_of :: "phys_mem \<Rightarrow> nat \<Rightarrow> u64 \<Rightarrow> nat list \<Rightarrow> u64 list" where
  "leaves_of m k p js \<equiv> concat (map (entry_leaves m k p) js)"

definition clears :: "x86_api \<Rightarrow> nat \<Rightarrow> u64 \<Rightarrow> nat list \<Rightarrow> bool" where
  "clears X k p js \<longleftrightarrow> (\<forall>s pool stats pre mid post.
     clear_pre s pool p (tabs_of (ps_mem s) k p js) (leaves_of (ps_mem s) k p js) mid \<longrightarrow>
     (\<exists>s' pool'. for_entries (clear_step X (pre @ mid @ post) k p) js (s, length pre, stats) =
          ((s', length pre + length mid, stats_add stats mid (tabs_of (ps_mem s) k p js)), Inr ()) \<and>
        clear_post s pool p js (tabs_of (ps_mem s) k p js) mid s' pool'))"

lemma clearsD:
  assumes "clears X k p js" and "clear_pre s pool p (tabs_of (ps_mem s) k p js) (leaves_of (ps_mem s) k p js) mid"
  obtains s' pool' where "for_entries (clear_step X (pre @ mid @ post) k p) js (s, length pre, stats) =
      ((s', length pre + length mid, stats_add stats mid (tabs_of (ps_mem s) k p js)), Inr ())"
    "clear_post s pool p js (tabs_of (ps_mem s) k p js) mid s' pool'"
  using assms unfolding clears_def by blast

lemma clears_Nil: "clears X k p []"
  unfolding clears_def clear_pre_def clear_post_def by (auto simp: freed_of_def)

lemma clears_Cons:
  assumes one: "clears X k p [j]" and rest: "clears X k p js" and j: "j \<notin> set js"
  shows "clears X k p (j # js)"
  unfolding clears_def
proof (intro allI impI)
  fix s :: phys_state and pool stats pre mid post
  let ?m = "ps_mem s"
  let ?T = "entry_tables ?m k p j" and ?T' = "tabs_of ?m k p js" and ?L = "entry_leaves ?m k p j" and ?L' = "leaves_of ?m k p js"
  assume pr: "clear_pre s pool p (tabs_of ?m k p (j # js)) (leaves_of ?m k p (j # js)) mid"
  define mid1 where "mid1 = take (length ?L) mid"
  define mid2 where "mid2 = drop (length ?L) mid"
  have mid: "mid = mid1 @ mid2" by (simp add: mid1_def mid2_def)
  have addr: "map physical_address_chirho mid1 = map pt_entry_addr_chirho ?L"
    "map physical_address_chirho mid2 = map pt_entry_addr_chirho ?L'"
    using pr unfolding clear_pre_def mid1_def mid2_def take_map drop_map [symmetric] by (simp_all add: take_map [symmetric] drop_map)
  have F: "alloc_pool s pool" "distinct (p # ?T @ ?T')" "set (p # ?T @ ?T') \<inter> set pool = {}"
    "distinct (freed_of mid1 @ freed_of mid2)"
    "(set (freed_of mid1) \<union> set (freed_of mid2)) \<inter> (set pool \<union> set (p # ?T @ ?T')) = {}"
    using pr unfolding clear_pre_def mid by simp_all
  have "clear_pre s pool p (tabs_of ?m k p [j]) (leaves_of ?m k p [j]) mid1"
    unfolding clear_pre_def using F addr(1) by auto
  from clearsD [OF one this, of pre "mid2 @ post" stats] obtain s1 pool1 where
    s1: "for_entries (clear_step X (pre @ mid1 @ mid2 @ post) k p) [j] (s, length pre, stats) =
      ((s1, length pre + length mid1, stats_add stats mid1 ?T), Inr ())"
    and p1: "clear_post s pool p [j] ?T mid1 s1 pool1" by auto
  have same: "entry_leaves (ps_mem s1) k p i = entry_leaves ?m k p i" "entry_tables (ps_mem s1) k p i = entry_tables ?m k p i"
    if "i \<in> set js" for i
  proof -
    have a: "ps_mem s1 p i = ?m p i" using p1 that j unfolding clear_post_def by auto
    have b: "ps_mem s1 q = ?m q" if "q \<in> set (entry_tables ?m k p i)" for q
    proof -
      have "q \<in> set ?T'" using that \<open>i \<in> set js\<close> by auto
      then have "q \<notin> insert p (set ?T \<union> set (freed_of mid1))" using F(2,5) by auto
      then show ?thesis using p1 unfolding clear_post_def by blast
    qed
    show "entry_leaves (ps_mem s1) k p i = entry_leaves ?m k p i" "entry_tables (ps_mem s1) k p i = entry_tables ?m k p i"
      using entry_cong [of "ps_mem s1" p i ?m k, OF a b] by blast+
  qed
  then have eq: "tabs_of (ps_mem s1) k p js = ?T'" "leaves_of (ps_mem s1) k p js = ?L'"
    by (auto intro!: arg_cong [of _ _ concat])
  have "clear_pre s1 pool1 p (tabs_of (ps_mem s1) k p js) (leaves_of (ps_mem s1) k p js) mid2"
    unfolding eq clear_pre_def using p1 [unfolded clear_post_def] F addr(2) by auto
  from clearsD [OF rest this, of "pre @ mid1" post "stats_add stats mid1 ?T"] obtain s2 pool2 where
    s2: "for_entries (clear_step X (pre @ mid1 @ mid2 @ post) k p) js (s1, length pre + length mid1, stats_add stats mid1 ?T) =
      ((s2, length pre + length mid1 + length mid2, stats_add (stats_add stats mid1 ?T) mid2 ?T'), Inr ())"
    and p2: "clear_post s1 pool1 p js ?T' mid2 s2 pool2"
    unfolding eq by auto
  have "for_entries (clear_step X (pre @ mid @ post) k p) (j # js) (s, length pre, stats) =
      ((s2, length pre + length mid, stats_add stats mid (tabs_of ?m k p (j # js))), Inr ())"
    using s1 s2 unfolding mid by (auto split: prod.splits sum.splits)
  moreover have "clear_post s pool p (j # js) (tabs_of ?m k p (j # js)) mid s2 pool2"
    using p1 p2 unfolding clear_post_def mid by auto
  ultimately show "\<exists>s' pool'. for_entries (clear_step X (pre @ mid @ post) k p) (j # js) (s, length pre, stats) =
        ((s', length pre + length mid, stats_add stats mid (tabs_of ?m k p (j # js))), Inr ()) \<and>
      clear_post s pool p (j # js) (tabs_of ?m k p (j # js)) mid s' pool'" by blast
qed

lemma clears_list: "(\<And>j. clears X k p [j]) \<Longrightarrow> distinct js \<Longrightarrow> clears X k p js"
  by (induction js) (simp_all add: clears_Nil clears_Cons)

context x86_paging
begin

lemma clears_leaf: "clears X 0 p [j]"
  unfolding clears_def
proof (intro allI impI)
  fix s :: phys_state and pool stats pre mid post
  let ?m = "ps_mem s"
  assume pr: "clear_pre s pool p (tabs_of ?m 0 p [j]) (leaves_of ?m 0 p [j]) mid"
  have F: "alloc_pool s pool" "p \<notin> set pool" using pr by (simp_all add: clear_pre_def)
  show "\<exists>s' pool'. for_entries (clear_step X (pre @ mid @ post) 0 p) [j] (s, length pre, stats) =
      ((s', length pre + length mid, stats_add stats mid (tabs_of ?m 0 p [j])), Inr ()) \<and>
    clear_post s pool p [j] (tabs_of ?m 0 p [j]) mid s' pool'"
  proof (cases "is_user (?m p j)")
    case False
    then have "mid = []" using pr by (simp add: clear_pre_def)
    then show ?thesis using False F by (auto simp: clear_step_def clear_post_def freed_of_def)
  next
    case True
    then obtain r where r: "mid = [r]" "physical_address_chirho r = child_of ?m p j"
      using pr by (auto simp: clear_pre_def Cons_eq_map_conv)
    let ?s1 = "write_pt_entry_chirho p j 0 s" and ?a = "child_of ?m p j"
    define s' where "s' = (if free_frame_chirho r then deallocate_frame_chirho ?a ?s1 else ?s1)"
    define pool' where "pool' = (if free_frame_chirho r then ?a # pool else pool)"
    have get: "get_opt (pre @ r # post) (length pre) = Some r" by (simp add: get_opt_def)
    have st: "for_entries (clear_step X (pre @ mid @ post) 0 p) [j] (s, length pre, stats) =
        ((s', length pre + length mid, stats_add stats mid []), Inr ())"
      using True r get by (auto simp: clear_step_def clear_leaf_def stats_add_def s'_def Let_def)
    have a1: "alloc_pool ?s1 pool" using F by blast
    have "clear_post s pool p [j] [] mid s' pool'"
    proof (cases "free_frame_chirho r")
      case True
      have fr: "?a \<notin> set pool" "?a \<noteq> p" using pr r True by (auto simp: clear_pre_def freed_of_def)
      note d = deallocate_frame_spec [OF a1 fr(1) frame_ok_addr]
      show ?thesis
        unfolding clear_post_def s'_def pool'_def r freed_of_def using True d(1,3,4) d(2) [of p] d(2) fr r(2) by auto
    next
      case False
      then show ?thesis unfolding clear_post_def s'_def pool'_def r freed_of_def using a1 by auto
    qed
    then show ?thesis using st by auto
  qed
qed

lemma clears_child:
  assumes below: "\<And>c. clears X k c [0 ..< 512]"
  shows "clears X (Suc k) p [j]"
  unfolding clears_def
proof (intro allI impI)
  fix s :: phys_state and pool stats pre mid post
  let ?m = "ps_mem s"
  let ?c = "child_of ?m p j"
  let ?T = "tabs_of ?m k ?c [0 ..< 512]"
  assume pr: "clear_pre s pool p (tabs_of ?m (Suc k) p [j]) (leaves_of ?m (Suc k) p [j]) mid"
  have F: "alloc_pool s pool" "p \<notin> set pool" using pr by (simp_all add: clear_pre_def)
  show "\<exists>s' pool'. for_entries (clear_step X (pre @ mid @ post) (Suc k) p) [j] (s, length pre, stats) =
      ((s', length pre + length mid, stats_add stats mid (tabs_of ?m (Suc k) p [j])), Inr ()) \<and>
    clear_post s pool p [j] (tabs_of ?m (Suc k) p [j]) mid s' pool'"
  proof (cases "is_user (?m p j)")
    case False
    then have "mid = []" using pr by (simp add: clear_pre_def entry_leaves_Suc)
    then show ?thesis using False F by (auto simp: clear_step_def clear_post_def freed_of_def below_def)
  next
    case True
    have T: "tabs_of ?m (Suc k) p [j] = ?c # ?T" using True by (simp add: below_def owned_entries)
    have L: "leaves_of ?m (Suc k) p [j] = leaves_of ?m k ?c [0 ..< 512]" using True by (simp add: entry_leaves_Suc leaves_def)
    note G = pr [unfolded clear_pre_def T L]
    have "clear_pre s pool ?c ?T (leaves_of ?m k ?c [0 ..< 512]) mid" using G unfolding clear_pre_def by auto
    from clearsD [OF below this, of pre post stats] obtain s1 pool1 where
      s1: "for_entries (clear_step X (pre @ mid @ post) k ?c) [0 ..< 512] (s, length pre, stats) =
        ((s1, length pre + length mid, stats_add stats mid ?T), Inr ())"
      and p1: "clear_post s pool ?c [0 ..< 512] ?T mid s1 pool1" by blast
    note H = p1 [unfolded clear_post_def]
    let ?s2 = "write_pt_entry_chirho p j 0 s1"
    let ?s' = "deallocate_frame_chirho ?c ?s2"
    have "clear_child X (clear_and_free_table_chirho X (pre @ mid @ post) (Suc k)) p j (s, length pre, stats) =
        ((?s', length pre + length mid, stats_add stats mid (?c # ?T)), Inr ())"
      using s1 by (simp add: clear_child_def clear_tree_step stats_add_table Let_def del: clear_and_free_table_chirho.simps)
    then have st: "for_entries (clear_step X (pre @ mid @ post) (Suc k) p) [j] (s, length pre, stats) =
        ((?s', length pre + length mid, stats_add stats mid (?c # ?T)), Inr ())"
      using True by (simp add: clear_step_def del: clear_and_free_table_chirho.simps)
    have pc: "p \<notin> set pool1" "?c \<notin> set pool1" "p \<noteq> ?c" using G H by auto
    have "alloc_pool ?s2 pool1" using H pc(1) by blast
    note d = deallocate_frame_spec [OF this pc(2) frame_ok_addr]
    have pm: "ps_mem s1 p = ?m p" using G H by auto
    have mem: "ps_mem ?s' q = ?m q" if "q \<notin> insert p (set (?c # ?T) \<union> set (freed_of mid))" for q
      using that d(2) [of q] H by auto
    have mp: "ps_mem ?s' p i = ?m p i" if "i \<noteq> j" for i using d(2) [OF pc(3)] pm that by simp
    have "clear_post s pool p [j] (?c # ?T) mid ?s' (?c # pool1)"
      unfolding clear_post_def using d(1,3,4) H mem mp by auto
    then show ?thesis using st unfolding T by blast
  qed
qed

lemma clears_any: "distinct js \<Longrightarrow> clears X k p js"
proof (induction k arbitrary: p js)
  case 0
  then show ?case using clears_list clears_leaf by blast
next
  case (Suc k)
  then show ?case using clears_list clears_child by (metis distinct_upt)
qed

section \<open>Validating\<close>

lemma usize_bound: "unat (n :: usize) \<le> 2 ^ 64 - 1"
proof -
  have "unat n < 2 ^ 64" using unsigned_less [where 'a = nat, of n] by simp
  then show ?thesis by simp
qed

lemma validate_loop:
  assumes "\<And>i n. i \<in> set js \<Longrightarrow> \<exists>n'. st i n = (n', Inr ()) \<and>
      unat n' = min (2 ^ 64 - 1) (unat n + length (entry_leaves m k p i))"
  shows "\<exists>n'. for_entries st js n = (n', Inr ()) \<and>
    unat (n' :: usize) = min (2 ^ 64 - 1) (unat (n :: usize) + length (leaves_of m k p js))"
  using assms
proof (induction js arbitrary: n)
  case Nil
  show ?case using usize_bound [of n] by simp
next
  case (Cons j js)
  obtain n1 where n1: "st j n = (n1, Inr ())" "unat n1 = min (2 ^ 64 - 1) (unat n + length (entry_leaves m k p j))"
    using Cons.prems [of j n] by auto
  obtain n2 where "for_entries st js n1 = (n2, Inr ())"
    "unat n2 = min (2 ^ 64 - 1) (unat n1 + length (leaves_of m k p js))"
    using Cons.IH [of n1] Cons.prems by auto
  then show ?case using n1 by auto
qed

lemma validate_tree:
  assumes "\<And>q. q \<in> set (owned (ps_mem s) k 512 p) \<Longrightarrow> frame_is_managed_chirho q s" and "wf_tree (ps_mem s) k 512 p"
  shows "\<exists>n. validate_table_tree_chirho X s (Suc k) p = Inr n \<and>
    unat n = min (2 ^ 64 - 1) (length (leaves (ps_mem s) k 512 p))"
  using assms
proof (induction k arbitrary: p)
  case 0
  have "\<exists>n'. validate_step X s 0 p i n = (n', Inr ()) \<and>
      unat n' = min (2 ^ 64 - 1) (unat n + length (entry_leaves (ps_mem s) 0 p i))" for i and n :: usize
    using api_user [of "ps_mem s p i"] usize_bound [of n] by (auto simp: validate_step_def Let_def unat_saturating_add)
  from validate_loop [OF this, where n = 0 and js = "[0 ..< 512]"] show ?case
    using 0 by (auto simp: leaves_def validate_tree_step simp del: validate_table_tree_chirho.simps)
next
  case (Suc k)
  have "\<exists>n'. validate_step X s (Suc k) p i n = (n', Inr ()) \<and>
      unat n' = min (2 ^ 64 - 1) (unat n + length (entry_leaves (ps_mem s) (Suc k) p i))"
    if "i \<in> set [0 ..< 512]" for i and n :: usize
  proof (cases "is_user (ps_mem s p i)")
    case True
    have h: "\<not> flags_contain (entry_flags X (ps_mem s p i)) PTE_HUGE" "wf_tree (ps_mem s) k 512 (child_of (ps_mem s) p i)"
      using Suc.prems(2) True that api_flags(1) [of 7 "ps_mem s p i"] by (auto simp: flag_bits_hw)
    have "frame_is_managed_chirho q s" if "q \<in> set (owned (ps_mem s) k 512 (child_of (ps_mem s) p i))" for q
      using Suc.prems(1) owned_child [OF _ True that] \<open>i \<in> set [0 ..< 512]\<close> by simp
    from Suc.IH [OF this h(2)] obtain n' where "validate_table_tree_chirho X s (Suc k) (child_of (ps_mem s) p i) = Inr n'"
      "unat n' = min (2 ^ 64 - 1) (length (leaves (ps_mem s) k 512 (child_of (ps_mem s) p i)))" by blast
    then show ?thesis using True h(1) api_user [of "ps_mem s p i"]
      by (auto simp: validate_step_def Let_def unat_saturating_add entry_leaves_Suc simp del: validate_table_tree_chirho.simps)
  next
    case False
    then show ?thesis using api_user [of "ps_mem s p i"] usize_bound [of n]
      by (auto simp: validate_step_def Let_def entry_leaves_Suc simp del: validate_table_tree_chirho.simps)
  qed
  from validate_loop [where js = "[0 ..< 512]" and n = 0, OF this] show ?case
    using Suc.prems(1) by (auto simp: leaves_def validate_tree_step simp del: validate_table_tree_chirho.simps)
qed

section \<open>Retiring\<close>

text \<open>The three passes over the root are passes over the entries of a level-4 table.\<close>

lemma retire_unfold:
  "retire_page_table_tree_chirho X reserve root s =
     (if root = BOOT_PML4_PHYS_CHIRHO s then (s, Inl BootRootChirho)
      else if ps_cr3 s = root then (s, Inl ActiveRootChirho)
      else if \<not> frame_is_managed_chirho root s then (s, Inl (UnmanagedTableFrameChirho root))
      else case for_entries (\<lambda>i n.
             if \<not> is_user (ps_mem s root i) then (n, Inr ())
             else case validate_table_tree_chirho X s 3 (child_of (ps_mem s) root i) of
               Inl err \<Rightarrow> (n, Inl err) | Inr n' \<Rightarrow> (saturating_add n n', Inr ())) [0 ..< 256] 0 of
        (_, Inl err) \<Rightarrow> (s, Inl err)
      | (leaf_count, Inr _) \<Rightarrow>
        if \<not> reserve leaf_count then (s, Inl ScratchAllocationFailedChirho)
        else case for_entries (release_step X 3 root) [0 ..< 256] (s, []) of
          ((s1, released), Inl err) \<Rightarrow>
            (case rollback_released_leaves_chirho released s1 of
               (s2, Inl err2) \<Rightarrow> (s2, Inl err2) | (s2, Inr _) \<Rightarrow> (s2, Inl err))
        | ((s1, released), Inr _) \<Rightarrow>
            (case for_entries (clear_step X released 3 root) [0 ..< 256]
             (s1, 0, \<lparr>leaf_mappings_released_chirho = 0, leaf_frames_freed_chirho = 0,
                unmanaged_leaf_mappings_cleared_chirho = 0, table_frames_freed_chirho = 0\<rparr>) of
               ((s2, _, _), Inl err) \<Rightarrow> (s2, Inl err)
             | ((s2, idx, stats), Inr _) \<Rightarrow>
                 if idx \<noteq> length released then (s2, Inl TraversalChangedChirho)
                 else (deallocate_frame_chirho (frame_containing X root) s2,
                       Inr (stats\<lparr>table_frames_freed_chirho := table_frames_freed_chirho stats + 1\<rparr>))))"
proof -
  have "release_step X 3 root = (\<lambda>i (s, out).
      if \<not> entry_is_owned X (ps_mem s root i) then ((s, out), Inr ())
      else release_tree_leaves_chirho X 3 (entry_addr X (ps_mem s root i)) (s, out))"
    by (simp add: release_step_def Let_def fun_eq_iff del: release_tree_leaves_chirho.simps)
  moreover have "clear_step X released 3 root = (\<lambda>i st.
      if \<not> entry_is_owned X (ps_mem (fst st) root i) then (st, Inr ())
      else clear_child X (clear_and_free_table_chirho X released 3) root i st)" for released
    by (simp add: clear_step_def fun_eq_iff del: clear_and_free_table_chirho.simps)
  ultimately show ?thesis
    unfolding retire_page_table_tree_chirho_def by (simp only: entry_owned api_hw KERNEL_PML4_START_CHIRHO_def)
qed

lemma user_maps_split:
  assumes "finite R" and "root \<in> R"
  shows "card (user_maps s R f) = maps_count (leaves (ps_mem s) 3 256 root) f + card (user_maps s (R - {root}) f)"
proof -
  let ?A = "{is. maps_frame (page_entry s root is) f}"
  have "user_maps s R f = Pair root ` ?A \<union> user_maps s (R - {root}) f"
    using assms(2) by (auto simp: user_maps_def)
  moreover have "Pair root ` ?A \<inter> user_maps s (R - {root}) f = {}" by (auto simp: user_maps_def)
  moreover have "card ?A = maps_count (leaves (ps_mem s) 3 256 root) f" "finite ?A"
    using card_leaves [of "\<lambda>e. maps_frame e f" "ps_mem s" 3 256 root] by (auto simp: maps_frame_def page_entry_def)
  moreover have "finite (user_maps s (R - {root}) f)" using assms(1) by (simp add: finite_user_maps)
  ultimately show ?thesis by (simp add: card_Un_disjoint card_image inj_on_def)
qed

lemma leaf_in_leaves: "is_user (leaf m k n p is) \<Longrightarrow> leaf m k n p is \<in> set (leaves m k n p)"
proof (induction k arbitrary: n p "is")
  case 0
  have z: "\<not> is_user 0" by (simp add: is_user_def)
  show ?case using 0 z by (cases "is"; cases "tl is") (auto simp: leaves_def split: if_splits)
next
  case (Suc k)
  have z: "\<not> is_user 0" by (simp add: is_user_def)
  show ?case
  proof (cases "is")
    case (Cons i js)
    then have "i < n" "is_user (m p i)" "is_user (leaf m k 512 (child_of m p i) js)"
      using Suc.prems z by (auto split: if_splits)
    then show ?thesis using Suc.IH [of 512 "child_of m p i" js] Cons by (auto simp: leaves_def [of m "Suc k"] entry_leaves_Suc)
  qed (use Suc.prems z in simp)
qed

lemma leaves_leaf: "e \<in> set (leaves m k n p) \<Longrightarrow> \<exists>is. leaf m k n p is = e"
proof (induction k arbitrary: n p)
  case 0
  then obtain i where "i < n" "m p i = e" by (auto simp: leaves_def split: if_splits)
  then show ?case by (intro exI [of _ "[i]"]) simp
next
  case (Suc k)
  then obtain i where i: "i < n" "is_user (m p i)" "e \<in> set (leaves m k 512 (child_of m p i))"
    by (auto simp: leaves_def [of m "Suc k"] entry_leaves_Suc split: if_splits)
  then obtain js where "leaf m k 512 (child_of m p i) js = e" using Suc.IH by blast
  then show ?case using i by (intro exI [of _ "i # js"]) simp
qed

lemma space_leaves:
  "pt_entry_addr_chirho ` set (leaves (ps_mem s) 3 256 root) = mapped_frames s {root}"
  using leaf_in_leaves [of "ps_mem s" 3 256 root] leaves_leaf [of _ "ps_mem s" 3 256 root] leaves_user
  unfolding mapped_frames_def page_entry_def by (fastforce simp: leaves_def image_iff)

lemma root_enough:
  assumes "mm_inv s R pool" and "root \<in> R"
  shows "enough (leaves (ps_mem s) 3 256 root) (frame_count s)"
proof -
  have "maps_count (leaves (ps_mem s) 3 256 root) f \<le> unat n" if "frame_count s f = Some n" for f n
    using user_maps_split [OF mm_invD(1) [OF assms(1)] assms(2), of s f] mm_invD(7) [OF assms(1) that] by simp
  then show ?thesis using leaves_user by (auto simp: enough_def leaves_def)
qed

text \<open>The view after retirement: everything that was written is free now.\<close>

lemma retired_inv:
  assumes inv: "mm_inv s R pool" and root: "root \<in> R" and pool': "alloc_pool s' pool'"
    and free: "set pool' = set pool \<union> space_tables s root \<union> F" and F: "F \<subseteq> mapped_frames s {root}"
    and zero: "\<And>a. a \<in> F \<Longrightarrow> frame_count s' (physical_frame_number_chirho a) = Some 0"
    and mem: "\<And>q. q \<notin> set pool' \<Longrightarrow> ps_mem s' q = ps_mem s q"
    and cnt: "frame_count s' = fold drop_entry (leaves (ps_mem s) 3 256 root) (frame_count s)"
  shows "mm_inv s' (R - {root}) pool' \<and> (\<forall>r\<in>R - {root}. \<forall>is. page_entry s' r is = page_entry s r is)"
proof -
  let ?R = "R - {root}"
  have sub: "mapped_frames s {root} \<subseteq> mapped_frames s R" using root by (auto simp: mapped_frames_def)
  have disj: "space_tables s r \<inter> set pool' = {}" if "r \<in> ?R" for r
  proof -
    have t: "space_tables s r \<subseteq> all_tables s R" using that by (auto simp: all_tables_def)
    moreover have "space_tables s r \<inter> space_tables s root = {}" using mm_invD(4) [OF inv, of r root] that root by simp
    moreover have "mapped_frames s R \<inter> all_tables s R = {}" using mm_invD(5) [OF inv] by (auto simp: mapped_frames_def)
    ultimately show ?thesis using mm_invD(8) [OF inv] F sub unfolding free by blast
  qed
  have m: "ps_mem s' q = ps_mem s q" if "r \<in> ?R" "q \<in> space_tables s r" for r q
    using disj [OF that(1)] that(2) by (intro mem) blast
  have same: "space_tables s' r = space_tables s r" "page_entry s' r is = page_entry s r is" if "r \<in> ?R" for r "is"
    using space_unchanged [of s r s', OF m [OF that]] by blast+
  have ok: "space_ok s' r pool'" if "r \<in> ?R" for r
    using space_ok_unchanged [of s r pool, OF _ pool'] mm_invD(3) [OF inv] disj [OF that] m [OF that] that by auto
  have um: "user_maps s' ?R f = user_maps s ?R f" for f using same(2) by (auto simp: user_maps_def)
  have exact: "counts_exact s' ?R"
    unfolding counts_exact_def um
  proof (intro allI impI)
    fix f n' assume n': "frame_count s' f = Some n'"
    note en = root_enough [OF inv root]
    obtain n where n: "frame_count s f = Some n" using drop_counts(1) [OF en, of f] n' cnt by (cases "frame_count s f") auto
    have "unat n' + maps_count (leaves (ps_mem s) 3 256 root) f = unat n"
      using drop_counts(2) [OF en n] n' cnt by simp
    then show "unat n' = card (user_maps s ?R f)"
      using user_maps_split [OF mm_invD(1) [OF inv] root, of s f] mm_invD(7) [OF inv n] by simp
  qed
  have tabs: "all_tables s' ?R \<subseteq> all_tables s R" using same(1) by (auto simp: all_tables_def)
  have "pages_ok s' ?R pool'"
    unfolding pages_ok_def
  proof (intro ballI allI conjI impI)
    fix r "is" assume r: "r \<in> ?R"
    then have rR: "r \<in> R" by simp
    show "is_user (page_entry s' r is)" if "bit (page_entry s' r is) 9" using that same(2) [OF r] mm_invD(6) [OF inv rR] by simp
    show "pt_entry_addr_chirho (page_entry s' r is) \<notin> all_tables s' ?R \<union> set pool'" if u: "is_user (page_entry s' r is)"
    proof -
      have "pt_entry_addr_chirho (page_entry s' r is) \<notin> F"
        using exact_zero_unmapped [OF exact _ r u] mm_invD(1) [OF inv] zero by auto
      moreover have "pt_entry_addr_chirho (page_entry s' r is) \<notin> all_tables s R \<union> set pool"
        using mm_invD(5) [OF inv rR] u same(2) [OF r] by simp
      ultimately show ?thesis using tabs free root by (auto simp: all_tables_def)
    qed
  qed
  moreover have "space_tables s' r \<inter> space_tables s' r' = {}" if "r \<in> ?R" "r' \<in> ?R" "r \<noteq> r'" for r r'
    using mm_invD(4) [OF inv, of r r'] that same(1) by simp
  ultimately show ?thesis using mm_invD(1) [OF inv] pool' ok exact same(2) by (simp add: mm_inv_def)
qed

lemma retire_validates:
  assumes ok: "space_ok s root pool" and managed: "\<And>q. q \<in> space_tables s root \<Longrightarrow> frame_is_managed_chirho q s"
  shows "\<exists>n. for_entries (\<lambda>i n. if \<not> is_user (ps_mem s root i) then (n, Inr ())
      else case validate_table_tree_chirho X s 3 (child_of (ps_mem s) root i) of
        Inl err \<Rightarrow> (n, Inl err) | Inr n' \<Rightarrow> (saturating_add n n', Inr ())) [0 ..< 256] 0 = (n, Inr ()) \<and>
    unat n = min (2 ^ 64 - 1) (length (leaves (ps_mem s) 3 256 root))"
proof -
  have "\<exists>n'. (if \<not> is_user (ps_mem s root i) then (n, Inr ())
      else case validate_table_tree_chirho X s 3 (child_of (ps_mem s) root i) of
        Inl err \<Rightarrow> (n, Inl err) | Inr n' \<Rightarrow> (saturating_add n n', Inr ())) = (n', Inr ()) \<and>
      unat n' = min (2 ^ 64 - 1) (unat n + length (entry_leaves (ps_mem s) 3 root i))"
    if "i \<in> set [0 ..< 256]" for i and n :: usize
  proof (cases "is_user (ps_mem s root i)")
    case True
    have wf: "wf_tree (ps_mem s) 2 512 (child_of (ps_mem s) root i)"
      using ok True that by (simp add: space_ok_def sub_ok_def three_levels numeral_2_eq_2)
    have "frame_is_managed_chirho q s" if "q \<in> set (owned (ps_mem s) 2 512 (child_of (ps_mem s) root i))" for q
      using managed owned_child [OF _ True that] \<open>i \<in> set [0 ..< 256]\<close> by (simp add: space_tables_def three_levels numeral_2_eq_2)
    from validate_tree [OF this wf] obtain n' where n': "validate_table_tree_chirho X s 3 (child_of (ps_mem s) root i) = Inr n'"
      "unat n' = min (2 ^ 64 - 1) (length (leaves (ps_mem s) 2 512 (child_of (ps_mem s) root i)))"
      by (auto simp only: Suc_numeral semiring_norm)
    have "entry_leaves (ps_mem s) 3 root i = leaves (ps_mem s) 2 512 (child_of (ps_mem s) root i)"
      using True entry_leaves_Suc [of "ps_mem s" 2 root i] by simp
    then show ?thesis using True n' by (simp add: unat_saturating_add del: validate_table_tree_chirho.simps)
  next
    case False
    then show ?thesis using usize_bound [of n] entry_leaves_Suc [of "ps_mem s" 2 root i] by simp
  qed
  from validate_loop [where js = "[0 ..< 256]" and n = 0, OF this] show ?thesis by (auto simp: leaves_def)
qed

lemma retire_ok:
  assumes inv: "mm_inv s R pool" and root: "root \<in> R" and boot: "root \<noteq> BOOT_PML4_PHYS_CHIRHO s" and cr3: "ps_cr3 s \<noteq> root"
    and rok: "frame_ok root" and managed: "\<And>q. q \<in> space_tables s root \<Longrightarrow> frame_is_managed_chirho q s" and reserve: "\<And>n. reserve n"
  obtains s' pool' where
    "retire_page_table_tree_chirho X reserve root s =
       (s', Inr (stats_add zero_stats (release_list (leaves (ps_mem s) 3 256 root) (frame_count s)) (owned (ps_mem s) 3 256 root)))"
    "alloc_pool s' pool'" "set pool' = set pool \<union> space_tables s root \<union>
      set (freed_of (release_list (leaves (ps_mem s) 3 256 root) (frame_count s)))"
    "\<forall>q. q \<notin> set pool' \<longrightarrow> ps_mem s' q = ps_mem s q"
    "frame_count s' = fold drop_entry (leaves (ps_mem s) 3 256 root) (frame_count s)" "regs s' = regs s"
proof -
  let ?m = "ps_mem s" and ?c = "frame_count s"
  let ?L = "leaves ?m 3 256 root" and ?T = "tabs_of ?m 3 root [0 ..< 256]"
  have ok: "space_ok s root pool" using mm_invD(3) [OF inv root] .
  have en: "enough ?L ?c" using root_enough [OF inv root] .
  define rel where "rel = release_list ?L ?c"
  obtain n where v: "for_entries (\<lambda>i n. if \<not> is_user (?m root i) then (n, Inr ())
      else case validate_table_tree_chirho X s 3 (child_of ?m root i) of
        Inl err \<Rightarrow> (n, Inl err) | Inr n' \<Rightarrow> (saturating_add n n', Inr ())) [0 ..< 256] 0 = (n, Inr ())"
    using retire_validates [OF ok managed] by blast
  obtain s1 where s1: "for_entries (release_step X 3 root) [0 ..< 256] (s, []) = ((s1, rel), Inr ())" "only_counts s s1"
    "frame_count s1 = fold drop_entry ?L ?c"
    using release_loop [OF release_entry, where js = "[0 ..< 256]" and k = 3 and p = root and s = s and out = "[]"] en
    by (auto simp: rel_def leaves_def)
  have m1: "ps_mem s1 = ?m" using s1(2) by (simp add: only_counts_def)
  have tabs: "owned ?m 3 256 root = root # ?T" by (rule owned_entries)
  have F: "set (freed_of rel) \<subseteq> mapped_frames s {root}"
    using freed_of_release [OF en] space_leaves [of s root] by (auto simp: rel_def)
  have un: "mapped_frames s {root} \<inter> (all_tables s R \<union> set pool) = {}"
    using mm_invD(5) [OF inv root] by (auto simp: mapped_frames_def)
  have sub: "space_tables s root \<subseteq> all_tables s R" using root by (auto simp: all_tables_def)
  have fin: "alloc_pool s1 pool" "distinct (root # ?T)" "set (root # ?T) \<inter> set pool = {}" "space_tables s root = set (root # ?T)"
    using ok alloc_pool_mem [of s pool s1] s1(2) unfolding space_ok_def sub_ok_def only_counts_def space_tables_def tabs by auto
  have "clear_pre s1 pool root (tabs_of (ps_mem s1) 3 root [0 ..< 256]) (leaves_of (ps_mem s1) 3 root [0 ..< 256]) rel"
    unfolding clear_pre_def m1
  proof (intro conjI)
    show "set (freed_of rel) \<inter> (set pool \<union> set (root # ?T)) = {}" using F un sub fin(4) by blast
    show "distinct (freed_of rel)" using freed_of_release [OF en] by (simp add: rel_def)
    show "map physical_address_chirho rel = map pt_entry_addr_chirho (leaves_of ?m 3 root [0 ..< 256])"
      using release_list_addr [of ?L ?c] by (simp add: rel_def leaves_def)
  qed (use fin in simp_all)
  from clearsD [OF clears_any [OF distinct_upt] this, of "[]" "[]" zero_stats] obtain s2 pool2 where
    s2: "for_entries (clear_step X rel 3 root) [0 ..< 256] (s1, 0, zero_stats) =
      ((s2, length rel, stats_add zero_stats rel ?T), Inr ())"
    and p2: "clear_post s1 pool root [0 ..< 256] ?T rel s2 pool2"
    unfolding m1 by auto
  note H = p2 [unfolded clear_post_def m1]
  have "root \<in> space_tables s root" using fin(4) by simp
  then have "root \<notin> set (freed_of rel)" using F un sub by blast
  then have r2: "root \<notin> set pool2" using H fin(2,3) by auto
  let ?s' = "deallocate_frame_chirho root s2"
  note d = deallocate_frame_spec [OF conjunct1 [OF H] r2 rok]
  show ?thesis
  proof (rule that [of ?s' "root # pool2"])
    show "retire_page_table_tree_chirho X reserve root s = (?s', Inr (stats_add zero_stats
        (release_list ?L ?c) (owned ?m 3 256 root)))"
      unfolding retire_unfold tabs using boot cr3 managed [of root] fin(4) v reserve s1(1) s2 stats_add_table rok
      by (simp add: zero_stats_def [symmetric] rel_def)
    show "alloc_pool ?s' (root # pool2)" by (rule d(1))
    show "set (root # pool2) = set pool \<union> space_tables s root \<union> set (freed_of (release_list ?L ?c))"
      using H fin(4) by (auto simp: rel_def)
    show "\<forall>q. q \<notin> set (root # pool2) \<longrightarrow> ps_mem ?s' q = ?m q" using d(2) H by auto
    show "frame_count ?s' = fold drop_entry ?L ?c" "regs ?s' = regs s"
      using d(3,4) H s1(2,3) by (simp_all add: only_counts_def)
  qed
qed

end

section \<open>Rolling back\<close>

lemma for_entries_inv:
  assumes "\<And>i s s' r. J s \<Longrightarrow> st i s = (s', r) \<Longrightarrow> J s'" and "J s" and "for_entries st js s = (s', r)"
  shows "J s'"
  using assms(2,3)
proof (induction js arbitrary: s)
  case (Cons j js)
  obtain s1 r1 where s1: "st j s = (s1, r1)" by fastforce
  then have "J s1" using assms(1) Cons.prems(1) by blast
  then show ?case using Cons s1 by (cases r1) auto
qed simp

text \<open>The records account for every reference the pass has dropped.\<close>

definition rec_count :: "ReleasedLeafChirho list \<Rightarrow> usize \<Rightarrow> nat" where
  "rec_count rs f = length (filter (\<lambda>r. managed_chirho r \<and> physical_frame_number_chirho (physical_address_chirho r) = f) rs)"

definition accounted :: "phys_state \<Rightarrow> release_state \<Rightarrow> bool" where
  "accounted s0 st \<longleftrightarrow> (case st of (s, rs) \<Rightarrow> only_counts s0 s \<and>
     (\<forall>f. (frame_count s0 f = None \<longrightarrow> frame_count s f = None \<and> rec_count rs f = 0) \<and>
          (\<forall>n. frame_count s0 f = Some n \<longrightarrow>
             (\<exists>n'. frame_count s f = Some n' \<and> unat n' + rec_count rs f = unat n))))"

lemma accountedD:
  assumes "accounted s0 (s, rs)"
  shows "only_counts s0 s" "frame_count s0 f = None \<Longrightarrow> frame_count s f = None" "frame_count s0 f = None \<Longrightarrow> rec_count rs f = 0"
    "frame_count s0 f = Some n \<Longrightarrow> \<exists>n'. frame_count s f = Some n' \<and> unat n' + rec_count rs f = unat n"
  using assms by (simp_all add: accounted_def)

lemma accountedI:
  assumes "only_counts s0 s" and "\<And>f. frame_count s0 f = None \<Longrightarrow> frame_count s f = None \<and> rec_count rs f = 0"
    "\<And>f n. frame_count s0 f = Some n \<Longrightarrow> \<exists>n'. frame_count s f = Some n' \<and> unat n' + rec_count rs f = unat n"
  shows "accounted s0 (s, rs)"
  using assms by (simp add: accounted_def)

lemma accounted_refl: "accounted s (s, [])"
  by (simp add: accounted_def only_counts_def rec_count_def)

lemma accounted_release:
  assumes "accounted s0 (s, rs)" and "release_leaf_mapping_chirho a s = (s', x)"
  shows "case x of Inl _ \<Rightarrow> accounted s0 (s', rs)
    | Inr r \<Rightarrow> accounted s0 (s', rs @ [\<lparr>physical_address_chirho = a, free_frame_chirho = b, managed_chirho = (r \<noteq> ReleaseUnmanagedChirho)\<rparr>])"
proof -
  let ?h = "physical_frame_number_chirho a"
  note sp = release_leaf_spec [OF assms(2)]
  have oc: "only_counts s0 s'" using assms(1) sp(1-3) by (simp add: accounted_def only_counts_def)
  have app: "rec_count (rs @ [r]) f = rec_count rs f + of_bool (managed_chirho r \<and> physical_frame_number_chirho (physical_address_chirho r) = f)"
    for r f by (simp add: rec_count_def)
  have c0: "frame_count s0 f = None \<Longrightarrow> frame_count s f = None \<and> rec_count rs f = 0"
    "frame_count s0 f = Some n \<Longrightarrow> \<exists>n'. frame_count s f = Some n' \<and> unat n' + rec_count rs f = unat n" for f n
    using assms(1) by (auto simp: accounted_def)
  show ?thesis
  proof (cases "frame_count s ?h")
    case None
    then have x: "x = Inr ReleaseUnmanagedChirho" "frame_count s' = frame_count s" using sp(4) by simp_all
    then show ?thesis using oc c0 by (simp add: accounted_def app)
  next
    case (Some n)
    show ?thesis
    proof (cases "n = 0")
      case True
      then have "\<exists>e. x = Inl e" "frame_count s' = frame_count s" using sp(4) Some by auto
      then show ?thesis using oc c0 by (auto simp: accounted_def)
    next
      case False
      then obtain r where r: "x = Inr r" "r \<noteq> ReleaseUnmanagedChirho" "frame_count s' = (frame_count s)(?h \<mapsto> n - 1)"
        using sp(4) Some by (auto split: if_splits)
      have u: "unat (n - 1) + 1 = unat n" using False by (simp add: unat_minus_one unat_gt_0 Suc_leI)
      have "\<exists>n'. frame_count s' f = Some n' \<and> unat n' + rec_count rs f + of_bool (?h = f) = unat m"
        if "frame_count s0 f = Some m" for f m
        using c0(2) [OF that] r(3) Some u by (cases "f = ?h") auto
      moreover have "frame_count s' f = None \<and> ?h \<noteq> f" if "frame_count s0 f = None" for f
        using c0(1) [OF that] r(3) Some by auto
      ultimately have "accounted s0 (s', rs @ [\<lparr>physical_address_chirho = a, free_frame_chirho = b, managed_chirho = (r \<noteq> ReleaseUnmanagedChirho)\<rparr>])"
        using oc r(2) c0(1) by (intro accountedI) (simp_all add: app add.assoc)
      then show ?thesis using r(1) by simp
    qed
  qed
qed

lemma rollback_restores:
  assumes "accounted s0 (s, rs)"
  shows "\<exists>s'. rollback_released_leaves_chirho rs s = (s', Inr ()) \<and> accounted s0 (s', [])"
  using assms
proof (induction rs arbitrary: s)
  case (Cons r rs)
  let ?h = "physical_frame_number_chirho (physical_address_chirho r)"
  have cons: "rec_count (r # rs) f = rec_count rs f + of_bool (managed_chirho r \<and> ?h = f)" for f by (simp add: rec_count_def)
  show ?case
  proof (cases "managed_chirho r")
    case False
    then have "accounted s0 (s, rs)" using Cons.prems by (simp add: accounted_def cons)
    then show ?thesis using Cons.IH False by simp
  next
    case True
    obtain s1 x where ret: "retain_leaf_mapping_chirho (physical_address_chirho r) s = (s1, x)" by fastforce
    note sp = retain_leaf_spec [OF ret]
    obtain m where m: "frame_count s0 ?h = Some m"
      using accountedD(3) [OF Cons.prems, of ?h] True cons [of ?h] by (cases "frame_count s0 ?h") auto
    then obtain n where n: "frame_count s ?h = Some n" "unat n + rec_count rs ?h + 1 = unat m"
      using accountedD(4) [OF Cons.prems m] True cons [of ?h] by auto
    have "unat (m + 1) = unat m + 1" using frame_count_managed [OF m] unatSuc [of m] by (simp add: add.commute)
    then have "unat n + 2 < 2 ^ 32" using n(2) unsigned_less [where 'a = nat, of "m + 1"] by simp
    then have nm: "n \<noteq> MAX_MANAGED_FRAME_COUNT_CHIRHO" "unat (n + 1) = unat n + 1"
      by (auto simp: MAX_MANAGED_FRAME_COUNT_CHIRHO_def unat_word_ariths)
    then have x: "x = Inr (ManagedChirho (n + 1))" "frame_count s1 = (frame_count s)(?h \<mapsto> n + 1)" using sp(4) n(1) by simp_all
    have "accounted s0 (s1, rs)"
    proof (rule accountedI)
      show "only_counts s0 s1" using accountedD(1) [OF Cons.prems] sp(1-3) by (simp add: only_counts_def)
      show "frame_count s1 f = None \<and> rec_count rs f = 0" if "frame_count s0 f = None" for f
        using accountedD(2,3) [OF Cons.prems that] that m x(2) cons [of f] by auto
      show "\<exists>n'. frame_count s1 f = Some n' \<and> unat n' + rec_count rs f = unat k" if "frame_count s0 f = Some k" for f k
        using accountedD(4) [OF Cons.prems that] that m n x(2) nm(2) cons [of f] True by (cases "f = ?h") auto
    qed
    then show ?thesis using Cons.IH [of s1] True ret x(1) by simp
  qed
qed simp

lemma accounted_nil: "accounted s (s', []) \<Longrightarrow> only_counts s s' \<and> frame_count s' = frame_count s"
proof -
  assume a: "accounted s (s', [])"
  have "frame_count s' f = frame_count s f" for f
  proof (cases "frame_count s f")
    case (Some n)
    then obtain n' where "frame_count s' f = Some n'" "unat n' = unat n"
      using accountedD(4) [OF a Some] by (auto simp: rec_count_def)
    then show ?thesis using Some by (metis word_unat_eq_iff)
  qed (use accountedD(2) [OF a] in simp)
  then show ?thesis using a by (auto simp: accounted_def)
qed

context x86_paging
begin

lemma release_step_accounted:
  "accounted s0 st \<Longrightarrow> release_step X k p i st = (st', r) \<Longrightarrow> accounted s0 st'"
proof (induction k arbitrary: p i st st' r)
  case 0
  obtain s rs where st: "st = (s, rs)" by (cases st)
  obtain s1 x where rel: "release_leaf_mapping_chirho (entry_addr X (ps_mem s p i)) s = (s1, x)" by fastforce
  show ?case
  proof (cases x)
    case (Inl e)
    then show ?thesis
      using 0 accounted_release [OF _ rel, of s0 rs] rel
      by (auto simp: st release_step_def Let_def split: if_splits)
  next
    case (Inr o')
    then show ?thesis
      using 0 accounted_release [OF _ rel, of s0 rs "o' = LastReferenceChirho"] rel
      by (auto simp: st release_step_def Let_def split: if_splits)
  qed
next
  case (Suc k)
  obtain s rs where st: "st = (s, rs)" by (cases st)
  show ?case
  proof (cases "is_user (ps_mem s p i)")
    case True
    then have "for_entries (release_step X k (child_of (ps_mem s) p i)) [0 ..< 512] st = (st', r)"
      using Suc.prems(2) by (simp add: st release_step_def [of X "Suc k"] release_tree_step Let_def del: release_tree_leaves_chirho.simps)
    from for_entries_inv [where J = "accounted s0", OF Suc.IH Suc.prems(1) this] show ?thesis .
  next
    case False
    then show ?thesis using Suc.prems by (simp add: st release_step_def Let_def)
  qed
qed

lemma for_entries_error:
  assumes "\<And>i s s' e. st i s = (s', Inl e) \<Longrightarrow> P e" and "for_entries st js s = (s', Inl e)"
  shows "P e"
  using assms(2)
proof (induction js arbitrary: s)
  case (Cons j js)
  obtain s1 r1 where s1: "st j s = (s1, r1)" by fastforce
  then show ?case using Cons assms(1) by (cases r1) auto
qed simp

lemma clear_step_error: "clear_step X rel k p i st = (st', Inl e) \<Longrightarrow> e = TraversalChangedChirho"
proof (induction k arbitrary: p i st st' e)
  case 0
  then show ?case by (auto simp: clear_step_def clear_leaf_def Let_def split: if_splits option.splits prod.splits)
next
  case (Suc k)
  let ?c = "child_of (ps_mem (fst st)) p i"
  obtain st1 x where r: "for_entries (clear_step X rel k ?c) [0 ..< 512] st = (st1, x)" by fastforce
  have x: "x = Inl e" using Suc.prems r
    by (cases x) (auto simp: clear_step_def [of X rel "Suc k"] clear_child_def clear_tree_step Let_def
        simp del: clear_and_free_table_chirho.simps split: if_splits prod.splits)
  show ?case by (rule for_entries_error [where P = "\<lambda>e. e = TraversalChangedChirho", OF Suc.IH r [unfolded x]])
qed

lemma retire_error:
  assumes "retire_page_table_tree_chirho X reserve root s = (s', Inl e)" and "e \<noteq> TraversalChangedChirho"
  shows "only_counts s s' \<and> frame_count s' = frame_count s"
proof -
  obtain s1 rel x where rl: "for_entries (release_step X 3 root) [0 ..< 256] (s, []) = ((s1, rel), x)"
    by (metis prod.exhaust)
  have "accounted s (s1, rel)"
    by (rule for_entries_inv [where J = "accounted s", OF release_step_accounted accounted_refl rl])
  from rollback_restores [OF this] obtain s2 where
    rb: "rollback_released_leaves_chirho rel s1 = (s2, Inr ())" "accounted s (s2, [])" by blast
  have refl: "only_counts s s" by (simp add: only_counts_def)
  show ?thesis
  proof (cases "s' = s")
    case True
    then show ?thesis using refl by simp
  next
    case False
    have "s' = s2"
    proof (cases x)
      case (Inl err)
      then show ?thesis using assms(1) False rl rb(1)
        by (auto simp: retire_unfold split: if_splits prod.splits sum.splits)
    next
      case (Inr u)
      obtain st2 y where cl: "for_entries (clear_step X rel 3 root) [0 ..< 256]
          (s1, 0, \<lparr>leaf_mappings_released_chirho = 0, leaf_frames_freed_chirho = 0,
            unmanaged_leaf_mappings_cleared_chirho = 0, table_frames_freed_chirho = 0\<rparr>) = (st2, y)" by fastforce
      have "z = TraversalChangedChirho" if "y = Inl z" for z
        by (rule for_entries_error [where P = "\<lambda>e. e = TraversalChangedChirho", OF clear_step_error cl [unfolded that]])
      then show ?thesis using assms False rl cl Inr
        by (cases y) (auto simp: retire_unfold split: if_splits prod.splits sum.splits)
    qed
    then show ?thesis using accounted_nil [OF rb(2)] by simp
  qed
qed

end

section \<open>Properties\<close>

lemma not_mapped_elsewhere:
  assumes "frame_ok a"
  shows "user_maps s R (physical_frame_number_chirho a) = {} \<longleftrightarrow> a \<notin> mapped_frames s R"
  using frame_number_inject [OF _ assms] by (auto simp: user_maps_def maps_frame_def mapped_frames_def)

lemma exact_zero_iff:
  assumes "counts_exact s R" and "finite R" and "frame_ok a"
  shows "frame_count s (physical_frame_number_chirho a) = Some 0 \<longleftrightarrow>
    frame_count s (physical_frame_number_chirho a) \<noteq> None \<and> a \<notin> mapped_frames s R"
proof (cases "frame_count s (physical_frame_number_chirho a)")
  case (Some n)
  then have "unat n = card (user_maps s R (physical_frame_number_chirho a))" using assms(1) by (simp add: counts_exact_def)
  then have "n = 0 \<longleftrightarrow> user_maps s R (physical_frame_number_chirho a) = {}"
    using finite_user_maps [OF assms(2)] by (metis card_0_eq unat_eq_0)
  then show ?thesis using Some not_mapped_elsewhere [OF assms(3)] by auto
qed simp

lemma card_user_pages: "card {is. is_user (page_entry s root is)} = length (leaves (ps_mem s) 3 256 root)"
proof -
  have "filter is_user (leaves (ps_mem s) 3 256 root) = leaves (ps_mem s) 3 256 root"
    using leaves_user by (auto simp: filter_id_conv leaves_def)
  then show ?thesis using card_leaves [of is_user "ps_mem s" 3 256 root] by (simp add: page_entry_def)
qed

text \<open>C2. Retiring an address space returns everything it owns and nothing else.  On a
  consistent memory, for a root that is neither the boot root nor the active one,
  with managed tables and a successful scratch reservation, retirement succeeds; the
  free frames are then the old free frames, the tables of the space, and those
  managed frames mapped by the space that no other space maps.  Every other space
  keeps every page, no frame outside the free ones is written, the invariant holds
  for the remaining spaces, and the statistics count tables and mappings.\<close>

theorem retirement_exact:
  assumes "x86_paging X" and "mm_inv s R pool" and "root \<in> R" and "frame_ok root"
    and "root \<noteq> BOOT_PML4_PHYS_CHIRHO s" and "ps_cr3 s \<noteq> root"
    and "\<forall>q\<in>space_tables s root. frame_is_managed_chirho q s" and "\<forall>n. reserve n"
  shows "\<exists>s' stats pool'. retire_page_table_tree_chirho X reserve root s = (s', Inr stats) \<and>
    mm_inv s' (R - {root}) pool' \<and>
    set pool' = set pool \<union> space_tables s root \<union>
      {a \<in> mapped_frames s {root}. frame_is_managed_chirho a s \<and> a \<notin> mapped_frames s (R - {root})} \<and>
    (\<forall>r\<in>R - {root}. \<forall>is. page_entry s' r is = page_entry s r is) \<and>
    (\<forall>q. q \<notin> set pool' \<longrightarrow> ps_mem s' q = ps_mem s q) \<and>
    table_frames_freed_chirho stats = of_nat (card (space_tables s root)) \<and>
    leaf_mappings_released_chirho stats = of_nat (card {is. is_user (page_entry s root is)})"
proof -
  let ?L = "leaves (ps_mem s) 3 256 root"
  let ?F = "set (freed_of (release_list ?L (frame_count s)))"
  let ?st = "stats_add zero_stats (release_list ?L (frame_count s)) (owned (ps_mem s) 3 256 root)"
  have m: "\<And>q. q \<in> space_tables s root \<Longrightarrow> frame_is_managed_chirho q s" "\<And>n. reserve n" using assms(7,8) by blast+
  obtain s' pool' where r: "retire_page_table_tree_chirho X reserve root s = (s', Inr ?st)" "alloc_pool s' pool'"
    "set pool' = set pool \<union> space_tables s root \<union> ?F" "\<forall>q. q \<notin> set pool' \<longrightarrow> ps_mem s' q = ps_mem s q"
    "frame_count s' = fold drop_entry ?L (frame_count s)"
    by (rule x86_paging.retire_ok [where reserve = reserve, OF assms(1-3,5,6,4) m]) blast+
  have en: "enough ?L (frame_count s)" using x86_paging.root_enough [OF assms(1-3)] .
  have F: "a \<in> ?F \<longleftrightarrow> a \<in> mapped_frames s {root} \<and> frame_count s' (physical_frame_number_chirho a) = Some 0" for a
    using freed_of_release [OF en] x86_paging.space_leaves [OF assms(1), of s root] r(5) by auto
  have inv: "mm_inv s' (R - {root}) pool'" "\<forall>r\<in>R - {root}. \<forall>is. page_entry s' r is = page_entry s r is"
    using x86_paging.retired_inv [OF assms(1-3) r(2,3) _ _ _ r(5)] F r(4) by blast+
  have managed: "frame_count s' f = None \<longleftrightarrow> frame_count s f = None" for f
    using drop_counts [OF en, of f] r(5) by (cases "frame_count s f") auto
  have same: "mapped_frames s' (R - {root}) = mapped_frames s (R - {root})"
    using inv(2) unfolding mapped_frames_def by (intro Collect_cong) metis
  have "?F = {a \<in> mapped_frames s {root}. frame_is_managed_chirho a s \<and> a \<notin> mapped_frames s (R - {root})}"
  proof (rule set_eqI)
    fix a
    have ok: "frame_ok a" if "a \<in> mapped_frames s {root}" using that by (auto simp: mapped_frames_def)
    have z: "frame_count s' (physical_frame_number_chirho a) = Some 0 \<longleftrightarrow>
        frame_count s' (physical_frame_number_chirho a) \<noteq> None \<and> a \<notin> mapped_frames s' (R - {root})" if "frame_ok a"
      using exact_zero_iff [OF _ _ that, of s' "R - {root}"] inv(1) by (auto simp: mm_inv_def)
    show "a \<in> ?F \<longleftrightarrow> a \<in> {a \<in> mapped_frames s {root}. frame_is_managed_chirho a s \<and> a \<notin> mapped_frames s (R - {root})}"
      using F [of a] ok z managed [of "physical_frame_number_chirho a"] same
      by (auto simp: frame_is_managed_chirho_def leaf_count_eq)
  qed
  moreover have "table_frames_freed_chirho ?st = of_nat (card (space_tables s root))"
    using mm_invD(3) [OF assms(2,3)]
    by (simp add: stats_add_def zero_stats_def space_tables_def distinct_card space_ok_def sub_ok_def)
  moreover have "leaf_mappings_released_chirho ?st = of_nat (card {is. is_user (page_entry s root is)})"
    using arg_cong [OF release_list_addr [of ?L "frame_count s"], of length]
    by (simp add: stats_add_def zero_stats_def card_user_pages)
  ultimately show ?thesis using r inv by blast
qed

text \<open>A failed retirement changes nothing.  Whatever the memory looks like, if the
  retirement of a tree fails before it starts to clear tables, memory, the allocator
  and every mapping count are as before: the references released so far are retained
  again, and that rollback cannot fail.\<close>

theorem failed_retirement_restores:
  assumes "x86_paging X" and "retire_page_table_tree_chirho X reserve root s = (s', Inl e)" and "e \<noteq> TraversalChangedChirho"
  shows "ps_mem s' = ps_mem s \<and> GLOBAL_FRAME_ALLOCATOR_CHIRHO s' = GLOBAL_FRAME_ALLOCATOR_CHIRHO s \<and>
    regs s' = regs s \<and> frame_count s' = frame_count s"
  using x86_paging.retire_error [OF assms] by (simp add: only_counts_def)

text \<open>A handle is never lost.  Retiring through an ownership handle never panics:
  either the tree is gone, or the caller gets back the same handle with the owner word
  it had.  It succeeds only for a word with exactly one owner, and if it is refused for
  any reason but an error of the tree, memory, allocator and counts are unchanged.\<close>

theorem retire_keeps_handle:
  assumes "retire_chirho X reserve h s = (s', result)"
  shows "case result of
      Inr _ \<Rightarrow> owners_chirho h = 1 \<and> root_phys_chirho h \<noteq> BOOT_PML4_PHYS_CHIRHO s \<and> root_phys_chirho h \<noteq> ps_cr3 s
    | Inl (h', failure) \<Rightarrow> h' = h \<and> (\<exists>reason. failure = RetireRefused reason \<and>
        ((\<forall>e. reason \<noteq> PageTableChirho e) \<longrightarrow> ps_mem s' = ps_mem s \<and>
          GLOBAL_FRAME_ALLOCATOR_CHIRHO s' = GLOBAL_FRAME_ALLOCATOR_CHIRHO s \<and> frame_count s' = frame_count s) \<and>
        (owners_chirho h = 1 \<longleftrightarrow> reason \<noteq> RetireNotLiveChirho \<and> (\<forall>n. reason \<noteq> RetireSharedOwnersChirho n)))"
proof -
  have frames: "ps_mem (lock_current_mapper_chirho s) = ps_mem s"
    "GLOBAL_FRAME_ALLOCATOR_CHIRHO (lock_current_mapper_chirho s) = GLOBAL_FRAME_ALLOCATOR_CHIRHO s"
    "frame_count (lock_current_mapper_chirho s) = frame_count s"
    by (simp_all add: lock_current_mapper_chirho_def frame_count_def fun_eq_iff)
  show ?thesis
  proof (cases "owners_chirho h = 1")
    case False
    then show ?thesis
      using assms by (auto simp: retire_chirho_def cas_apply_def try_begin_retirement_body_chirho_def split: if_splits)
  next
    case True
    let ?h = "h\<lparr>owners_chirho := ADDRESS_SPACE_RETIRING_BIT_CHIRHO OR 1\<rparr>"
    have h: "h\<lparr>owners_chirho := 1\<rparr> = h" using True by (cases h) simp
    have cancel: "cancel_with ?h reason = (h, RetireRefused reason)" for reason
      by (simp add: cancel_with_def cas_apply_def cancel_retirement_body_chirho_def h)
    have fin: "cas_apply finish_retirement_body_chirho (ADDRESS_SPACE_RETIRING_BIT_CHIRHO OR 1) = (0, Inr ())"
      by (simp add: cas_apply_def finish_retirement_body_chirho_def)
    have gate: "cas_apply try_begin_retirement_body_chirho 1 = (ADDRESS_SPACE_RETIRING_BIT_CHIRHO OR 1, Inr ())"
      by (simp add: cas_apply_def try_begin_retirement_body_chirho_def)
    let ?s = "lock_current_mapper_chirho s"
    obtain s2 x where tree: "retire_page_table_tree_chirho X reserve (root_phys_chirho h) ?s = (s2, x)" by fastforce
    have "retire_chirho X reserve h s =
      (if root_phys_chirho h = BOOT_PML4_PHYS_CHIRHO s then (s, Inl (h, RetireRefused RetireBootRootChirho))
       else if ps_cr3 s = root_phys_chirho h then (s, Inl (h, RetireRefused ActiveCr3Chirho))
       else if global_mapper_root_phys_chirho ?s = Some (root_phys_chirho h)
       then (?s, Inl (h, RetireRefused ActiveMapperRootChirho))
       else case x of Inl err \<Rightarrow> (s2, Inl (h, RetireRefused (PageTableChirho err))) | Inr stats \<Rightarrow> (s2, Inr stats))"
      using True by (simp add: retire_chirho_def gate cancel fin tree Let_def split: sum.splits)
    then show ?thesis using assms True frames by (cases x) (auto split: if_splits)
  qed
qed

section \<open>Witnesses\<close>

definition idle_state :: phys_state where
  "idle_state = small_state\<lparr>ps_cr3 := 0x8000\<rparr>"

lemma idle_inv: "mm_inv idle_state {0x1000} [0x6000, 0x7000]"
proof (rule repool_inv(1) [OF small_inv])
  show "alloc_pool idle_state [0x6000, 0x7000]" using small_pool by (simp add: alloc_pool_def idle_state_def)
  show "set [0x6000, 0x7000] \<inter> (all_tables small_state {0x1000} \<union> mapped_frames small_state {0x1000}) = {}"
    by (rule mm_inv_free [OF small_inv])
qed (simp_all add: idle_state_def frame_count_def fun_eq_iff)

lemma idle_tables: "space_tables idle_state 0x1000 = {0x1000, 0x2000, 0x3000, 0x4000}"
  by (simp add: space_tables_def idle_state_def small_state_def small_tables)

lemma idle_managed: "\<forall>q\<in>space_tables idle_state 0x1000. frame_is_managed_chirho q idle_state"
  unfolding idle_tables
  by (simp add: frame_is_managed_chirho_def leaf_mapping_count_chirho_def idle_state_def small_state_def
      physical_frame_number_chirho_def pt_consts mapping_count_chirho_def get_opt_def UNMANAGED_FRAME_COUNT_CHIRHO_def)

theorem retirement_exact_witness:
  "\<exists>s' stats pool'. retire_page_table_tree_chirho hw_api (\<lambda>_. True) 0x1000 idle_state = (s', Inr stats) \<and>
     mm_inv s' {} pool' \<and> table_frames_freed_chirho stats = 4 \<and> {0x1000, 0x4000, 0x6000} \<subseteq> set pool'"
proof -
  have "frame_ok 0x1000" "(0x1000 :: u64) \<noteq> BOOT_PML4_PHYS_CHIRHO idle_state" "ps_cr3 idle_state \<noteq> 0x1000"
    by (simp_all add: frame_ok_def ENTRY_ADDR_MASK_def idle_state_def small_state_def)
  from retirement_exact [OF hw.x86_paging_axioms idle_inv singletonI this idle_managed, of "\<lambda>_. True"]
  obtain s' stats pool' where r: "retire_page_table_tree_chirho hw_api (\<lambda>_. True) 0x1000 idle_state = (s', Inr stats)"
    "mm_inv s' ({0x1000} - {0x1000}) pool'" "set [0x6000, 0x7000] \<union> space_tables idle_state 0x1000 \<subseteq> set pool'"
    "table_frames_freed_chirho stats = of_nat (card (space_tables idle_state 0x1000))"
    by auto
  then show ?thesis unfolding idle_tables by (intro exI [of _ s'] exI [of _ stats] exI [of _ pool']) auto
qed

theorem failed_retirement_restores_witness:
  "retire_page_table_tree_chirho hw_api (\<lambda>_. True) 0x1000 small_state = (small_state, Inl ActiveRootChirho) \<and>
   frame_count (fst (retire_page_table_tree_chirho hw_api (\<lambda>_. True) 0x1000 small_state)) = frame_count small_state"
proof -
  have r: "retire_page_table_tree_chirho hw_api (\<lambda>_. True) 0x1000 small_state = (small_state, Inl ActiveRootChirho)"
    by (simp add: retire_page_table_tree_chirho_def) (simp add: small_state_def)
  then show ?thesis using failed_retirement_restores [OF hw.x86_paging_axioms r] by simp
qed

theorem retire_keeps_handle_witness:
  "\<exists>s'. retire_chirho hw_api (\<lambda>_. True) \<lparr>root_phys_chirho = 0x1000, owners_chirho = 2\<rparr> small_state =
     (s', Inl (\<lparr>root_phys_chirho = 0x1000, owners_chirho = 2\<rparr>, RetireRefused (RetireSharedOwnersChirho 2))) \<and>
     ps_mem s' = small_mem"
proof -
  let ?h = "\<lparr>root_phys_chirho = 0x1000, owners_chirho = 2\<rparr>"
  have r: "retire_chirho hw_api (\<lambda>_. True) ?h small_state = (small_state, Inl (?h, RetireRefused (RetireSharedOwnersChirho 2)))"
    by (simp add: retire_chirho_def cas_apply_def try_begin_retirement_body_chirho_def ADDRESS_SPACE_RETIRING_BIT_CHIRHO_def
        ADDRESS_SPACE_OWNER_MASK_CHIRHO_def push_bit_eq_mult)
  then show ?thesis using retire_keeps_handle [OF r] by (simp add: small_state_def)
qed

end
