(* ===== verification/Pipe.thy ===== *)
theory Pipe
  imports Rust_Prelude
begin

text \<open>
  Pipes (\<^verbatim>\<open>fs_chirho/pipe_chirho.rs\<close>): the shared pipe state and the file
  operations of its two ends.  A pipe is used by several tasks under a mutex;
  each function below is one critical section, except the blocking read,
  which releases the lock between polls: what other tasks do to the pipe in
  those gaps is a pair of parameters, one transformer per poll.  The
  descriptor counts are maintained by the descriptor tables (theory
  \<^verbatim>\<open>Fd_Table\<close>).
\<close>

definition PIPE_BUF_SIZE_CHIRHO :: nat where
  "PIPE_BUF_SIZE_CHIRHO = 4096"

record PipeChirho =
  pipe_buffer_chirho :: bytes
  readers_chirho :: u32
  writers_chirho :: u32
  closed_read_chirho :: bool
  closed_write_chirho :: bool

definition pipe_new_chirho :: PipeChirho where
  "pipe_new_chirho =
     \<lparr>pipe_buffer_chirho = [], readers_chirho = 1, writers_chirho = 1,
      closed_read_chirho = False, closed_write_chirho = False\<rparr>"

text \<open>The inode operations of a pipe inode: all refused.\<close>

datatype inode_op_chirho = Lookup | Create | Mkdir | Unlink | Rmdir | Readlink

fun pipe_inode_op_chirho :: "inode_op_chirho \<Rightarrow> i64" where
  "pipe_inode_op_chirho Readlink = - EINVAL_CHIRHO"
| "pipe_inode_op_chirho _ = - ENOSYS_CHIRHO"

text \<open>The copy-out loop: pop up to \<^verbatim>\<open>n\<close> bytes from the front, stopping at an empty
  buffer.\<close>

fun pipe_pop_chirho :: "nat \<Rightarrow> PipeChirho \<Rightarrow> bytes \<Rightarrow> PipeChirho \<times> bytes" where
  "pipe_pop_chirho 0 p out = (p, out)"
| "pipe_pop_chirho (Suc n) p out =
     (case pipe_buffer_chirho p of
        [] \<Rightarrow> (p, out)
      | b # rest \<Rightarrow> pipe_pop_chirho n (p\<lparr>pipe_buffer_chirho := rest\<rparr>) (out @ [b]))"

definition pipe_drain_chirho :: "nat \<Rightarrow> PipeChirho \<Rightarrow> PipeChirho \<times> bytes" where
  "pipe_drain_chirho len p = pipe_pop_chirho (min len (length (pipe_buffer_chirho p))) p []"

text \<open>The wait loop of an empty pipe: \<^verbatim>\<open>n\<close> polls left, the next one being the k-th.
  \<^verbatim>\<open>poll k\<close> is what happens to the pipe before the k-th recheck, \<^verbatim>\<open>gap k\<close> what happens
  between the recheck and the drain, which take the lock separately.\<close>

fun pipe_wait_chirho ::
  "(nat \<Rightarrow> PipeChirho \<Rightarrow> PipeChirho) \<Rightarrow> (nat \<Rightarrow> PipeChirho \<Rightarrow> PipeChirho) \<Rightarrow> nat \<Rightarrow>
   nat \<Rightarrow> nat \<Rightarrow> PipeChirho \<Rightarrow> PipeChirho \<times> (i64 + bytes)" where
  "pipe_wait_chirho poll gap len 0 k p = (p, Inl (- 11))"
| "pipe_wait_chirho poll gap len (Suc n) k p =
     (let p1 = poll k p in
      if pipe_buffer_chirho p1 \<noteq> [] then
        (case pipe_drain_chirho len (gap k p1) of (p2, out) \<Rightarrow> (p2, Inr out))
      else if closed_write_chirho p1 then (p1, Inr [])
      else pipe_wait_chirho poll gap len n (Suc k) p1)"

datatype pipe_end_chirho = PipeReadOpsChirho | PipeWriteOpsChirho

definition pipe_read_chirho ::
  "(nat \<Rightarrow> PipeChirho \<Rightarrow> PipeChirho) \<Rightarrow> (nat \<Rightarrow> PipeChirho \<Rightarrow> PipeChirho) \<Rightarrow> nat \<Rightarrow>
   pipe_end_chirho \<Rightarrow> PipeChirho \<Rightarrow> PipeChirho \<times> (i64 + bytes)" where
  "pipe_read_chirho poll gap len side p =
     (case side of
        PipeWriteOpsChirho \<Rightarrow> (p, Inl (- EBADF_CHIRHO))
      | PipeReadOpsChirho \<Rightarrow>
          if pipe_buffer_chirho p = [] then
            if closed_write_chirho p then (p, Inr [])
            else pipe_wait_chirho poll gap len 1000 0 p
          else (case pipe_drain_chirho len p of (p', out) \<Rightarrow> (p', Inr out)))"

text \<open>What a write does besides changing the pipe.\<close>

datatype pipe_signal_chirho = No_Signal | Deliver_Sigpipe | Wake_Socket_Waiters

definition pipe_write_chirho ::
  "bytes \<Rightarrow> pipe_end_chirho \<Rightarrow> PipeChirho \<Rightarrow> PipeChirho \<times> pipe_signal_chirho \<times> (i64 + nat)" where
  "pipe_write_chirho buf side p =
     (case side of
        PipeReadOpsChirho \<Rightarrow> (p, No_Signal, Inl (- EBADF_CHIRHO))
      | PipeWriteOpsChirho \<Rightarrow>
          if closed_read_chirho p then (p, Deliver_Sigpipe, Inl (- EPIPE_CHIRHO))
          else (foldl (\<lambda>q b. q\<lparr>pipe_buffer_chirho := pipe_buffer_chirho q @ [b]\<rparr>) p buf,
                Wake_Socket_Waiters, Inr (length buf)))"

definition pipe_seek_chirho :: "pipe_end_chirho \<Rightarrow> i64" where
  "pipe_seek_chirho side = - ESPIPE_CHIRHO"

definition pipe_ioctl_chirho :: "pipe_end_chirho \<Rightarrow> i64" where
  "pipe_ioctl_chirho side = - ENOSYS_CHIRHO"

definition pipe_readdir_chirho :: "pipe_end_chirho \<Rightarrow> i64" where
  "pipe_readdir_chirho side = - ENOSYS_CHIRHO"

section \<open>Facts about the loops\<close>

lemma pipe_pop_spec:
  "pipe_pop_chirho n p out =
     (p\<lparr>pipe_buffer_chirho := drop n (pipe_buffer_chirho p)\<rparr>, out @ take n (pipe_buffer_chirho p))"
  by (induction n p out rule: pipe_pop_chirho.induct) (auto split: list.splits)

lemma pipe_drain_spec:
  "pipe_drain_chirho len p =
     (p\<lparr>pipe_buffer_chirho := drop len (pipe_buffer_chirho p)\<rparr>, take len (pipe_buffer_chirho p))"
  by (simp add: pipe_drain_chirho_def pipe_pop_spec min_def)

lemma pipe_append_spec:
  "foldl (\<lambda>q b. q\<lparr>pipe_buffer_chirho := pipe_buffer_chirho q @ [b]\<rparr>) p buf =
   p\<lparr>pipe_buffer_chirho := pipe_buffer_chirho p @ buf\<rparr>"
  by (induction buf arbitrary: p) simp_all

lemma pipe_wait_end_of_file:
  assumes "\<And>k q. pipe_buffer_chirho q \<noteq> [] \<Longrightarrow> pipe_buffer_chirho (gap k q) \<noteq> []"
    and "0 < len" and "pipe_wait_chirho poll gap len n k p = (p', Inr [])"
  shows "pipe_buffer_chirho p' = [] \<and> closed_write_chirho p'"
  using assms(3)
proof (induction n arbitrary: k p)
  case 0
  then show ?case by simp
next
  case (Suc n)
  show ?case
  proof (cases "pipe_buffer_chirho (poll k p) = []")
    case True
    then show ?thesis using Suc by (auto simp: Let_def split: if_splits)
  next
    case False
    then have "take len (pipe_buffer_chirho (gap k (poll k p))) \<noteq> []"
      using assms(1,2) by simp
    then show ?thesis using Suc.prems False by (simp add: Let_def pipe_drain_spec)
  qed
qed

section \<open>Sequences of operations on one pipe\<close>

text \<open>The critical sections of any number of tasks on one pipe, in the order in
  which they take the lock, and the bytes that go in and come out.\<close>

datatype pipe_action = Act_Write bytes | Act_Drain nat

fun pipe_run :: "PipeChirho \<Rightarrow> pipe_action list \<Rightarrow> PipeChirho \<times> bytes \<times> bytes" where
  "pipe_run p [] = (p, [], [])"
| "pipe_run p (Act_Write bs # acts) =
     (case pipe_write_chirho bs PipeWriteOpsChirho p of (p1, _, r) \<Rightarrow>
      case pipe_run p1 acts of (p2, ins, outs) \<Rightarrow>
        (p2, (case r of Inr n \<Rightarrow> take n bs | Inl _ \<Rightarrow> []) @ ins, outs))"
| "pipe_run p (Act_Drain n # acts) =
     (case pipe_drain_chirho n p of (p1, out) \<Rightarrow>
      case pipe_run p1 acts of (p2, ins, outs) \<Rightarrow> (p2, ins, out @ outs))"

section \<open>Properties\<close>

text \<open>C16. A pipe is a first-in first-out byte stream.  For every sequence of writes
  and drains by any tasks, the bytes in the buffer at the start followed by the
  bytes the successful writes accepted are the bytes read followed by what is
  still buffered: nothing is lost, duplicated or reordered.\<close>

theorem pipe_is_fifo:
  "pipe_run p acts = (p', ins, outs) \<Longrightarrow>
   pipe_buffer_chirho p @ ins = outs @ pipe_buffer_chirho p'"
proof (induction p acts arbitrary: p' ins outs rule: pipe_run.induct)
  case (1 p)
  then show ?case by simp
next
  case (2 p bs acts)
  obtain p1 sig r where w: "pipe_write_chirho bs PipeWriteOpsChirho p = (p1, sig, r)"
    by (cases "pipe_write_chirho bs PipeWriteOpsChirho p") auto
  obtain p2 ins2 outs2 where run: "pipe_run p1 acts = (p2, ins2, outs2)"
    by (cases "pipe_run p1 acts") auto
  have "pipe_buffer_chirho p1 @ ins2 = outs2 @ pipe_buffer_chirho p2"
    using "2.IH" w run by simp
  then show ?case
    using "2.prems" w run
    by (auto simp: pipe_write_chirho_def pipe_append_spec split: if_splits)
next
  case (3 p n acts)
  obtain p2 ins2 outs2 where
    run: "pipe_run (p\<lparr>pipe_buffer_chirho := drop n (pipe_buffer_chirho p)\<rparr>) acts = (p2, ins2, outs2)"
    by (cases "pipe_run (p\<lparr>pipe_buffer_chirho := drop n (pipe_buffer_chirho p)\<rparr>) acts") auto
  have "drop n (pipe_buffer_chirho p) @ ins2 = outs2 @ pipe_buffer_chirho p2"
    using "3.IH" run by (simp add: pipe_drain_spec)
  then have "take n (pipe_buffer_chirho p) @ drop n (pipe_buffer_chirho p) @ ins2 =
      (take n (pipe_buffer_chirho p) @ outs2) @ pipe_buffer_chirho p2" by simp
  then show ?case using "3.prems" run by (simp add: pipe_drain_spec flip: append_assoc)
qed

theorem pipe_is_fifo_witness:
  "pipe_run pipe_new_chirho [Act_Write [1, 2, 3], Act_Drain 2, Act_Write [4], Act_Drain 1] =
     (pipe_new_chirho\<lparr>pipe_buffer_chirho := [4]\<rparr>, [1, 2, 3, 4], [1, 2, 3]) \<and>
   [] @ [1, 2, 3, 4 :: u8] = [1, 2, 3] @ [4]"
proof -
  have run: "pipe_run pipe_new_chirho [Act_Write [1, 2, 3], Act_Drain 2, Act_Write [4], Act_Drain 1] =
      (pipe_new_chirho\<lparr>pipe_buffer_chirho := [4]\<rparr>, [1, 2, 3, 4], [1, 2, 3])"
    by code_simp
  then show ?thesis using pipe_is_fifo [OF run] by (simp add: pipe_new_chirho_def)
qed

text \<open>End of file is reported only at the end of the stream.  Provided no other
  reader empties the pipe between the recheck and the drain of the wait loop, a
  read with room for at least one byte that returns zero bytes leaves a pipe
  whose buffer is empty and whose write end is closed, whether it returned at
  once or after any number of polls.\<close>

theorem pipe_read_end_of_file:
  assumes "\<And>k q. pipe_buffer_chirho q \<noteq> [] \<Longrightarrow> pipe_buffer_chirho (gap k q) \<noteq> []"
    and "0 < len" and "pipe_read_chirho poll gap len PipeReadOpsChirho p = (p', Inr [])"
  shows "pipe_buffer_chirho p' = [] \<and> closed_write_chirho p'"
proof (cases "pipe_buffer_chirho p = [] \<and> \<not> closed_write_chirho p")
  case True
  then have "pipe_wait_chirho poll gap len 1000 0 p = (p', Inr [])"
    using assms(3) by (simp add: pipe_read_chirho_def)
  from pipe_wait_end_of_file [OF assms(1,2) this] show ?thesis by blast
next
  case False
  then show ?thesis
    using assms(2,3) by (auto simp: pipe_read_chirho_def pipe_drain_spec split: if_splits)
qed

theorem pipe_read_end_of_file_witness:
  "closed_write_chirho (fst (pipe_read_chirho
      (\<lambda>k q. if k = 2 then q\<lparr>closed_write_chirho := True\<rparr> else q) (\<lambda>k q. q) 8
      PipeReadOpsChirho pipe_new_chirho))"
proof -
  have r: "pipe_read_chirho (\<lambda>k q. if k = 2 then q\<lparr>closed_write_chirho := True\<rparr> else q) (\<lambda>k q. q) 8
      PipeReadOpsChirho pipe_new_chirho =
      (pipe_new_chirho\<lparr>closed_write_chirho := True\<rparr>, Inr [])"
    by (simp add: pipe_read_chirho_def pipe_new_chirho_def eval_nat_numeral)
  show ?thesis
    using pipe_read_end_of_file [of "\<lambda>k q. q" 8, OF _ _ r] by (simp add: r)
qed

end
