(* ===== verification/Fd_Table.thy ===== *)
theory Fd_Table
  imports Pipe
begin

text \<open>
  Descriptor tables (\<^verbatim>\<open>fs_chirho/vfs_chirho.rs\<close>, \<^verbatim>\<open>fs_chirho/vfs_ops_chirho.rs\<close>) and
  the creation of pipes on top of them (\<^verbatim>\<open>fs_chirho/pipe_chirho.rs\<close>).  Open file
  descriptions, inodes and pipes are shared through \<^verbatim>\<open>Arc<Mutex<..>>\<close>, so the model
  has a heap of them, indexed by addresses; a descriptor table holds file
  addresses.  The main theorem is the accounting the code documents: the
  reader and writer counts of a pipe are the numbers of descriptors, over all
  tables, that refer to its ends.
\<close>

section \<open>Shared objects\<close>

definition O_RDONLY_CHIRHO :: u32 where "O_RDONLY_CHIRHO = 0"
definition O_WRONLY_CHIRHO :: u32 where "O_WRONLY_CHIRHO = 1"
definition O_RDWR_CHIRHO :: u32 where "O_RDWR_CHIRHO = 2"
definition O_NONBLOCK_CHIRHO :: u32 where "O_NONBLOCK_CHIRHO = 0x800"
definition O_CLOEXEC_CHIRHO :: u32 where "O_CLOEXEC_CHIRHO = 0x80000"

text \<open>The private data of an inode, as far as descriptors look at it: the pipe it
  belongs to, or something else.\<close>

datatype fs_data_chirho = Fs_Pipe nat | Fs_Other

record InodeChirho =
  ino_chirho :: u64
  mode_chirho :: u32
  uid_chirho :: u32
  gid_chirho :: u32
  size_chirho :: u64
  nlink_chirho :: u32
  atime_chirho :: u64
  mtime_chirho :: u64
  ctime_chirho :: u64
  fs_data_chirho :: "fs_data_chirho option"

datatype file_ops_chirho = Ops_Pipe pipe_end_chirho nat | Ops_Other

record FileChirho =
  file_inode_chirho :: nat
  pos_chirho :: u64
  file_flags_chirho :: u32
  file_ops_chirho :: file_ops_chirho

text \<open>The heap: objects by address, the next free addresses, the counter of
  inode numbers given to pipes and the counter of accounting violations.\<close>

record vfs_heap =
  vfs_files :: "nat \<Rightarrow> FileChirho"
  vfs_inodes :: "nat \<Rightarrow> InodeChirho"
  vfs_pipes :: "nat \<Rightarrow> PipeChirho"
  vfs_next_file :: nat
  vfs_next_inode :: nat
  vfs_next_pipe :: nat
  pipe_ino_counter_chirho :: u64
  pipe_reference_invariant_count_chirho :: u32

section \<open>Pipe endpoint accounting\<close>

record PipeEndpointReferenceChirho =
  reads_chirho :: bool
  writes_chirho :: bool

definition pipe_endpoint_reference_chirho ::
  "vfs_heap \<Rightarrow> nat \<Rightarrow> (nat \<times> PipeEndpointReferenceChirho) option" where
  "pipe_endpoint_reference_chirho h f =
     (let file = vfs_files h f; access = file_flags_chirho file AND 3;
          endpoint =
            (if access = O_RDONLY_CHIRHO then Some \<lparr>reads_chirho = True, writes_chirho = False\<rparr>
             else if access = O_WRONLY_CHIRHO then Some \<lparr>reads_chirho = False, writes_chirho = True\<rparr>
             else if access = O_RDWR_CHIRHO then Some \<lparr>reads_chirho = True, writes_chirho = True\<rparr>
             else None);
          inode = vfs_inodes h (file_inode_chirho file)
      in case endpoint of
           None \<Rightarrow> None
         | Some e \<Rightarrow>
             if mode_chirho inode AND 0xF000 \<noteq> 0x1000 then None
             else (case fs_data_chirho inode of Some (Fs_Pipe p) \<Rightarrow> Some (p, e) | _ \<Rightarrow> None))"

definition report_pipe_reference_invariant_chirho :: "vfs_heap \<Rightarrow> vfs_heap" where
  "report_pipe_reference_invariant_chirho h =
     h\<lparr>pipe_reference_invariant_count_chirho :=
        saturating_add (pipe_reference_invariant_count_chirho h) 1\<rparr>"

text \<open>One more, and one fewer, descriptor on the endpoints \<^verbatim>\<open>e\<close> of a pipe; the flag
  says that the code reports an accounting violation.\<close>

definition pipe_increment_chirho ::
  "PipeEndpointReferenceChirho \<Rightarrow> PipeChirho \<Rightarrow> PipeChirho \<times> bool" where
  "pipe_increment_chirho e p =
     (let broken0 = (reads_chirho e \<and> (readers_chirho p = 0 \<or> closed_read_chirho p)) \<or>
                    (writes_chirho e \<and> (writers_chirho p = 0 \<or> closed_write_chirho p));
          (p1, broken1) =
            (if reads_chirho e then
               if readers_chirho p = 0xFFFFFFFF then (p, True)
               else (p\<lparr>readers_chirho := readers_chirho p + 1\<rparr>, broken0)
             else (p, broken0))
      in if writes_chirho e then
           if writers_chirho p1 = 0xFFFFFFFF then (p1, True)
           else (p1\<lparr>writers_chirho := writers_chirho p1 + 1\<rparr>, broken1)
         else (p1, broken1))"

definition pipe_decrement_chirho ::
  "PipeEndpointReferenceChirho \<Rightarrow> PipeChirho \<Rightarrow> PipeChirho \<times> bool" where
  "pipe_decrement_chirho e p =
     (let (p1, broken1) =
            (if reads_chirho e then
               if readers_chirho p = 0 then (p, True)
               else (let n = readers_chirho p - 1 in
                 (p\<lparr>readers_chirho := n, closed_read_chirho := closed_read_chirho p \<or> n = 0\<rparr>,
                  closed_read_chirho p))
             else (p, False))
      in if writes_chirho e then
           if writers_chirho p1 = 0 then (p1, True)
           else (let n = writers_chirho p1 - 1 in
             (p1\<lparr>writers_chirho := n, closed_write_chirho := closed_write_chirho p1 \<or> n = 0\<rparr>,
              broken1 \<or> closed_write_chirho p1))
         else (p1, broken1))"

definition increment_pipe_descriptor_reference_chirho :: "nat \<Rightarrow> vfs_heap \<Rightarrow> vfs_heap" where
  "increment_pipe_descriptor_reference_chirho f h =
     (case pipe_endpoint_reference_chirho h f of
        None \<Rightarrow> h
      | Some (p, e) \<Rightarrow>
          (case pipe_increment_chirho e (vfs_pipes h p) of (pipe, broken) \<Rightarrow>
             (let h' = h\<lparr>vfs_pipes := (vfs_pipes h)(p := pipe)\<rparr>
              in if broken then report_pipe_reference_invariant_chirho h' else h')))"

definition decrement_pipe_descriptor_reference_chirho :: "nat \<Rightarrow> vfs_heap \<Rightarrow> vfs_heap" where
  "decrement_pipe_descriptor_reference_chirho f h =
     (case pipe_endpoint_reference_chirho h f of
        None \<Rightarrow> h
      | Some (p, e) \<Rightarrow>
          (case pipe_decrement_chirho e (vfs_pipes h p) of (pipe, broken) \<Rightarrow>
             (let h' = h\<lparr>vfs_pipes := (vfs_pipes h)(p := pipe)\<rparr>
              in if broken then report_pipe_reference_invariant_chirho h' else h')))"

section \<open>Descriptor tables\<close>

text \<open>The three vectors always have the same length (\<^verbatim>\<open>fd_table_wf\<close> below), so the
  indexed assignments of the code stay in bounds.\<close>

record FdTableChirho =
  fds_chirho :: "nat option list"
  paths_chirho :: "string option list"
  cloexec_chirho :: "bool list"

definition FD_EBADF_CHIRHO :: i64 where "FD_EBADF_CHIRHO = - 9"
definition FD_EMFILE_CHIRHO :: i64 where "FD_EMFILE_CHIRHO = - 24"

definition fd_table_new_chirho :: "nat \<Rightarrow> FdTableChirho" where
  "fd_table_new_chirho capacity =
     \<lparr>fds_chirho = replicate capacity None, paths_chirho = replicate capacity None,
      cloexec_chirho = replicate capacity False\<rparr>"

definition alloc_fd_chirho :: "FdTableChirho \<Rightarrow> i64 + nat" where
  "alloc_fd_chirho t =
     (case position (\<lambda>slot. slot = None) (fds_chirho t) of
        Some i \<Rightarrow> Inr i
      | None \<Rightarrow> Inl FD_EMFILE_CHIRHO)"

definition fd_get_chirho :: "FdTableChirho \<Rightarrow> nat \<Rightarrow> nat option" where
  "fd_get_chirho t fd = Option.bind (get_opt (fds_chirho t) fd) id"

definition fd_path_chirho :: "FdTableChirho \<Rightarrow> nat \<Rightarrow> string option" where
  "fd_path_chirho t fd = Option.bind (get_opt (paths_chirho t) fd) id"

type_synonym 'a fd_result = "vfs_heap \<times> FdTableChirho \<times> (i64 + 'a)"

definition fd_close_chirho :: "vfs_heap \<Rightarrow> FdTableChirho \<Rightarrow> nat \<Rightarrow> unit fd_result" where
  "fd_close_chirho h t fd =
     (case get_opt (fds_chirho t) fd of
        Some (Some f) \<Rightarrow>
          (decrement_pipe_descriptor_reference_chirho f h,
           t\<lparr>fds_chirho := (fds_chirho t)[fd := None],
             paths_chirho := (if fd < length (paths_chirho t) then (paths_chirho t)[fd := None]
                              else paths_chirho t),
             cloexec_chirho := (if fd < length (cloexec_chirho t) then (cloexec_chirho t)[fd := False]
                                else cloexec_chirho t)\<rparr>,
           Inr ())
      | _ \<Rightarrow> (h, t, Inl FD_EBADF_CHIRHO))"

definition install_duplicate_at_chirho ::
  "vfs_heap \<Rightarrow> FdTableChirho \<Rightarrow> nat \<Rightarrow> nat \<Rightarrow> string option \<Rightarrow> bool \<Rightarrow> nat fd_result" where
  "install_duplicate_at_chirho h t new_fd file path cloexec =
     (if new_fd \<ge> length (fds_chirho t) then (h, t, Inl FD_EBADF_CHIRHO)
      else
        let h1 = increment_pipe_descriptor_reference_chirho file h;
            (h2, t2, closed) =
              (if fds_chirho t ! new_fd \<noteq> None then fd_close_chirho h1 t new_fd
               else (h1, t, Inr ()))
        in case closed of
             Inl err \<Rightarrow> (decrement_pipe_descriptor_reference_chirho file h2, t2, Inl err)
           | Inr _ \<Rightarrow>
               (h2,
                t2\<lparr>fds_chirho := (fds_chirho t2)[new_fd := Some file],
                   paths_chirho := (paths_chirho t2)[new_fd := path],
                   cloexec_chirho := (cloexec_chirho t2)[new_fd := cloexec]\<rparr>,
                Inr new_fd))"

definition fd_dup_chirho :: "vfs_heap \<Rightarrow> FdTableChirho \<Rightarrow> nat \<Rightarrow> nat fd_result" where
  "fd_dup_chirho h t old_fd =
     (case fd_get_chirho t old_fd of
        None \<Rightarrow> (h, t, Inl FD_EBADF_CHIRHO)
      | Some file \<Rightarrow>
          (case alloc_fd_chirho t of
             Inl err \<Rightarrow> (h, t, Inl err)
           | Inr new_fd \<Rightarrow>
               install_duplicate_at_chirho h t new_fd file (fd_path_chirho t old_fd) False))"

definition fd_dup2_chirho :: "vfs_heap \<Rightarrow> FdTableChirho \<Rightarrow> nat \<Rightarrow> nat \<Rightarrow> nat fd_result" where
  "fd_dup2_chirho h t old_fd new_fd =
     (case fd_get_chirho t old_fd of
        None \<Rightarrow> (h, t, Inl FD_EBADF_CHIRHO)
      | Some file \<Rightarrow>
          if old_fd = new_fd then (h, t, Inr new_fd)
          else install_duplicate_at_chirho h t new_fd file (fd_path_chirho t old_fd) False)"

definition set_cloexec_chirho :: "FdTableChirho \<Rightarrow> nat \<Rightarrow> bool \<Rightarrow> FdTableChirho \<times> (i64 + unit)" where
  "set_cloexec_chirho t fd enabled =
     (if fd_get_chirho t fd = None then (t, Inl FD_EBADF_CHIRHO)
      else if fd \<ge> length (cloexec_chirho t) then (t, Inl FD_EBADF_CHIRHO)
      else (t\<lparr>cloexec_chirho := (cloexec_chirho t)[fd := enabled]\<rparr>, Inr ()))"

definition get_cloexec_chirho :: "FdTableChirho \<Rightarrow> nat \<Rightarrow> i64 + bool" where
  "get_cloexec_chirho t fd =
     (if fd_get_chirho t fd = None then Inl FD_EBADF_CHIRHO
      else case get_opt (cloexec_chirho t) fd of None \<Rightarrow> Inl FD_EBADF_CHIRHO | Some b \<Rightarrow> Inr b)"

text \<open>A loop that closes the descriptors of a list, in order, where a guard holds
  at the time it is reached.\<close>

fun close_each_chirho ::
  "(vfs_heap \<Rightarrow> FdTableChirho \<Rightarrow> nat \<Rightarrow> bool) \<Rightarrow> nat list \<Rightarrow> vfs_heap \<Rightarrow> FdTableChirho \<Rightarrow>
   vfs_heap \<times> FdTableChirho" where
  "close_each_chirho guard [] h t = (h, t)"
| "close_each_chirho guard (fd # fds) h t =
     (if guard h t fd then
        (case fd_close_chirho h t fd of (h', t', _) \<Rightarrow> close_each_chirho guard fds h' t')
      else close_each_chirho guard fds h t)"

definition close_cloexec_fds_chirho :: "vfs_heap \<Rightarrow> FdTableChirho \<Rightarrow> vfs_heap \<times> FdTableChirho" where
  "close_cloexec_fds_chirho h t =
     close_each_chirho
       (\<lambda>h t fd. fds_chirho t ! fd \<noteq> None \<and>
          (case get_opt (cloexec_chirho t) fd of Some b \<Rightarrow> b | None \<Rightarrow> False))
       [0 ..< length (fds_chirho t)] h t"

definition clear_all_cloexec_flags_chirho :: "FdTableChirho \<Rightarrow> FdTableChirho" where
  "clear_all_cloexec_flags_chirho t =
     t\<lparr>cloexec_chirho := map (\<lambda>_. False) (cloexec_chirho t)\<rparr>"

definition fd_is_pipe_chirho :: "vfs_heap \<Rightarrow> FdTableChirho \<Rightarrow> nat \<Rightarrow> bool" where
  "fd_is_pipe_chirho h t fd =
     (case fds_chirho t ! fd of
        None \<Rightarrow> False
      | Some f \<Rightarrow> mode_chirho (vfs_inodes h (file_inode_chirho (vfs_files h f))) AND 0xF000 = 0x1000)"

definition close_non_stdio_pipes_chirho :: "vfs_heap \<Rightarrow> FdTableChirho \<Rightarrow> vfs_heap \<times> FdTableChirho" where
  "close_non_stdio_pipes_chirho h t =
     close_each_chirho (\<lambda>_ _ _. True)
       (filter (fd_is_pipe_chirho h t) [3 ..< length (fds_chirho t)]) h t"

definition next_free_fd_chirho :: "FdTableChirho \<Rightarrow> nat" where
  "next_free_fd_chirho t =
     (case position (\<lambda>slot. slot = None) (fds_chirho t) of
        Some i \<Rightarrow> i
      | None \<Rightarrow> length (fds_chirho t))"

definition open_files_chirho :: "FdTableChirho \<Rightarrow> nat list" where
  "open_files_chirho t = List.map_filter id (fds_chirho t)"

definition clone_table_chirho :: "vfs_heap \<Rightarrow> FdTableChirho \<Rightarrow> vfs_heap \<times> FdTableChirho" where
  "clone_table_chirho h t =
     (fold increment_pipe_descriptor_reference_chirho (open_files_chirho t) h,
      \<lparr>fds_chirho = fds_chirho t, paths_chirho = paths_chirho t, cloexec_chirho = cloexec_chirho t\<rparr>)"

definition retire_all_descriptors_chirho :: "vfs_heap \<Rightarrow> FdTableChirho \<Rightarrow> vfs_heap \<times> FdTableChirho" where
  "retire_all_descriptors_chirho h t =
     close_each_chirho (\<lambda>_ t fd. fds_chirho t ! fd \<noteq> None) [0 ..< length (fds_chirho t)] h t"

section \<open>Descriptors of the current task\<close>

text \<open>The tables of all tasks (a task may have none) and the global compatibility
  table.  \<^verbatim>\<open>current\<close> is what \<^verbatim>\<open>current_task_chirho()\<close> returns: the index of the current
  task and its pid.\<close>

record fd_system =
  sys_heap :: vfs_heap
  sys_tables :: "FdTableChirho option list"
  sys_global :: "FdTableChirho option"

type_synonym current_task = "(nat \<times> pid) option"

definition current_table_chirho :: "current_task \<Rightarrow> fd_system \<Rightarrow> (nat \<times> FdTableChirho) option" where
  "current_table_chirho current s =
     (case current of
        None \<Rightarrow> None
      | Some (i, _) \<Rightarrow> map_option (Pair i) (Option.bind (get_opt (sys_tables s) i) id))"

definition current_pid_chirho :: "current_task \<Rightarrow> pid" where
  "current_pid_chirho current = (case current of Some (_, pid) \<Rightarrow> pid | None \<Rightarrow> 0)"

definition lookup_fd_chirho :: "current_task \<Rightarrow> fd_system \<Rightarrow> nat \<Rightarrow> nat option" where
  "lookup_fd_chirho current s fd =
     (let global = Option.bind (sys_global s) (\<lambda>t. fd_get_chirho t fd)
      in case current_table_chirho current s of
           None \<Rightarrow> global
         | Some (i, t) \<Rightarrow> (case fd_get_chirho t fd of Some f \<Rightarrow> Some f | None \<Rightarrow> global))"

definition insert_fd_chirho :: "FdTableChirho \<Rightarrow> nat \<Rightarrow> nat \<Rightarrow> string option \<Rightarrow> bool \<Rightarrow> FdTableChirho" where
  "insert_fd_chirho t fd file path cloexec =
     t\<lparr>fds_chirho := (fds_chirho t)[fd := Some file],
       cloexec_chirho := (if fd < length (cloexec_chirho t) then (cloexec_chirho t)[fd := cloexec]
                          else cloexec_chirho t),
       paths_chirho := (case path of
                          None \<Rightarrow> paths_chirho t
                        | Some _ \<Rightarrow> if fd < length (paths_chirho t) then (paths_chirho t)[fd := path]
                                    else paths_chirho t)\<rparr>"

text \<open>Mirroring a descriptor of the tasks 0 and 1 into the global table.\<close>

definition mirror_global_chirho ::
  "current_task \<Rightarrow> fd_system \<Rightarrow> nat \<Rightarrow> nat \<Rightarrow> string option \<Rightarrow> bool \<Rightarrow> fd_system" where
  "mirror_global_chirho current s fd file path cloexec =
     (if current_pid_chirho current \<le> 1 then
        (case sys_global s of
           None \<Rightarrow> s
         | Some g \<Rightarrow>
             (case install_duplicate_at_chirho (sys_heap s) g fd file path cloexec of
                (h, g', _) \<Rightarrow> s\<lparr>sys_heap := h, sys_global := Some g'\<rparr>))
      else s)"

definition alloc_and_insert_fd_chirho ::
  "current_task \<Rightarrow> fd_system \<Rightarrow> nat \<Rightarrow> string option \<Rightarrow> fd_system \<times> i64" where
  "alloc_and_insert_fd_chirho current s file path =
     (let cloexec = (file_flags_chirho (vfs_files (sys_heap s) file) AND O_CLOEXEC_CHIRHO \<noteq> 0)
      in case current_table_chirho current s of
           Some (i, t) \<Rightarrow>
             (case alloc_fd_chirho t of
                Inl err \<Rightarrow> (s, err)
              | Inr fd \<Rightarrow>
                  (mirror_global_chirho current
                     (s\<lparr>sys_tables := (sys_tables s)[i := Some (insert_fd_chirho t fd file path cloexec)]\<rparr>)
                     fd file path cloexec,
                   int fd))
         | None \<Rightarrow>
             (case sys_global s of
                None \<Rightarrow> (s, - EBADF_CHIRHO)
              | Some g \<Rightarrow>
                  (case alloc_fd_chirho g of
                     Inl err \<Rightarrow> (s, err)
                   | Inr fd \<Rightarrow>
                       (s\<lparr>sys_global := Some (insert_fd_chirho g fd file path cloexec)\<rparr>, int fd))))"

definition close_fd_chirho :: "current_task \<Rightarrow> fd_system \<Rightarrow> nat \<Rightarrow> fd_system \<times> i64" where
  "close_fd_chirho current s fd =
     (let (s1, closed) =
        (case current_table_chirho current s of
           None \<Rightarrow> (s, False)
         | Some (i, t) \<Rightarrow>
             (case fd_close_chirho (sys_heap s) t fd of (h, t', r) \<Rightarrow>
                (s\<lparr>sys_heap := h, sys_tables := (sys_tables s)[i := Some t']\<rparr>, r = Inr ())));
          s2 =
        (if current_pid_chirho current \<le> 1 then
           (case sys_global s1 of
              None \<Rightarrow> s1
            | Some g \<Rightarrow>
                (case fd_close_chirho (sys_heap s1) g fd of (h, g', _) \<Rightarrow>
                   s1\<lparr>sys_heap := h, sys_global := Some g'\<rparr>))
         else s1)
      in (s2, if closed then 0 else - EBADF_CHIRHO))"

definition dup2_in_current_task_chirho ::
  "current_task \<Rightarrow> fd_system \<Rightarrow> nat \<Rightarrow> nat \<Rightarrow> fd_system \<times> i64" where
  "dup2_in_current_task_chirho current s old new =
     (case current_table_chirho current s of
        Some (i, t) \<Rightarrow>
          (case fd_dup2_chirho (sys_heap s) t old new of (h, t', r) \<Rightarrow>
             (let s' = s\<lparr>sys_heap := h, sys_tables := (sys_tables s)[i := Some t']\<rparr>
              in case r of
                   Inl err \<Rightarrow> (s', err)
                 | Inr fd \<Rightarrow>
                     (case fd_get_chirho t' fd of
                        None \<Rightarrow> (s', - EBADF_CHIRHO)
                      | Some file \<Rightarrow>
                          (mirror_global_chirho current s' fd file (fd_path_chirho t' fd) False, int fd))))
      | None \<Rightarrow>
          (case sys_global s of
             None \<Rightarrow> (s, - EBADF_CHIRHO)
           | Some g \<Rightarrow>
               (case fd_dup2_chirho (sys_heap s) g old new of (h, g', r) \<Rightarrow>
                  (s\<lparr>sys_heap := h, sys_global := Some g'\<rparr>,
                   case r of Inr fd \<Rightarrow> int fd | Inl err \<Rightarrow> err))))"

definition set_fd_cloexec_chirho :: "current_task \<Rightarrow> fd_system \<Rightarrow> nat \<Rightarrow> bool \<Rightarrow> fd_system \<times> i64" where
  "set_fd_cloexec_chirho current s fd enabled =
     (let with_global = (\<lambda>s1 updated.
        (case sys_global s1 of
           None \<Rightarrow> (s1, if updated then 0 else - EBADF_CHIRHO)
         | Some g \<Rightarrow>
             (if fd_get_chirho g fd \<noteq> None
              then s1\<lparr>sys_global := Some (fst (set_cloexec_chirho g fd enabled))\<rparr> else s1, 0)))
      in case current_table_chirho current s of
           None \<Rightarrow> with_global s False
         | Some (i, t) \<Rightarrow>
             (case set_cloexec_chirho t fd enabled of
                (t', Inl err) \<Rightarrow> (s, err)
              | (t', Inr _) \<Rightarrow> with_global (s\<lparr>sys_tables := (sys_tables s)[i := Some t']\<rparr>) True))"

definition get_fd_cloexec_chirho :: "current_task \<Rightarrow> fd_system \<Rightarrow> nat \<Rightarrow> i64 + bool" where
  "get_fd_cloexec_chirho current s fd =
     (case current_table_chirho current s of
        Some (i, t) \<Rightarrow> get_cloexec_chirho t fd
      | None \<Rightarrow> (case sys_global s of
                   Some g \<Rightarrow> get_cloexec_chirho g fd
                 | None \<Rightarrow> Inl EBADF_CHIRHO))"

section \<open>Creating pipes\<close>

definition make_pipe_inode_chirho :: "u64 \<Rightarrow> InodeChirho" where
  "make_pipe_inode_chirho ino =
     \<lparr>ino_chirho = ino, mode_chirho = 0x1180, uid_chirho = 0, gid_chirho = 0, size_chirho = 0,
      nlink_chirho = 1, atime_chirho = 0, mtime_chirho = 0, ctime_chirho = 0,
      fs_data_chirho = None\<rparr>"

text \<open>Returns the heap and the addresses of the read and the write file.\<close>

definition create_pipe_chirho :: "vfs_heap \<Rightarrow> vfs_heap \<times> nat \<times> nat" where
  "create_pipe_chirho h =
     (let p = vfs_next_pipe h; i = vfs_next_inode h; r = vfs_next_file h; w = Suc r;
          inode = (make_pipe_inode_chirho (pipe_ino_counter_chirho h))
                    \<lparr>fs_data_chirho := Some (Fs_Pipe p)\<rparr>;
          read_file = \<lparr>file_inode_chirho = i, pos_chirho = 0, file_flags_chirho = O_RDONLY_CHIRHO,
                       file_ops_chirho = Ops_Pipe PipeReadOpsChirho p\<rparr>;
          write_file = \<lparr>file_inode_chirho = i, pos_chirho = 0, file_flags_chirho = O_WRONLY_CHIRHO,
                        file_ops_chirho = Ops_Pipe PipeWriteOpsChirho p\<rparr>
      in (h\<lparr>vfs_files := (vfs_files h)(r := read_file, w := write_file),
            vfs_inodes := (vfs_inodes h)(i := inode),
            vfs_pipes := (vfs_pipes h)(p := pipe_new_chirho),
            vfs_next_file := Suc w, vfs_next_inode := Suc i, vfs_next_pipe := Suc p,
            pipe_ino_counter_chirho := pipe_ino_counter_chirho h + 1\<rparr>, r, w))"

definition or_file_flags_chirho :: "u32 \<Rightarrow> nat \<Rightarrow> vfs_heap \<Rightarrow> vfs_heap" where
  "or_file_flags_chirho flags f h =
     h\<lparr>vfs_files := (vfs_files h)(f :=
        (vfs_files h f)\<lparr>file_flags_chirho := file_flags_chirho (vfs_files h f) OR flags\<rparr>)\<rparr>"

text \<open>\<^verbatim>\<open>copy_ok\<close> says whether copying the two descriptor numbers to user memory
  succeeds; on success they are returned as the third component.\<close>

definition pipe_common_chirho ::
  "(int \<times> int \<Rightarrow> bool) \<Rightarrow> current_task \<Rightarrow> fd_system \<Rightarrow> u32 \<Rightarrow>
   fd_system \<times> i64 \<times> (int \<times> int) option" where
  "pipe_common_chirho copy_ok current s flags =
     (let (h, r, w) = create_pipe_chirho (sys_heap s);
          inherited = flags AND (O_NONBLOCK_CHIRHO OR O_CLOEXEC_CHIRHO);
          h1 = (if inherited \<noteq> 0
                then or_file_flags_chirho inherited w (or_file_flags_chirho inherited r h) else h);
          (s1, read_fd) = alloc_and_insert_fd_chirho current (s\<lparr>sys_heap := h1\<rparr>) r None
      in if read_fd < 0 then (s1, read_fd, None)
         else
           let (s2, write_fd) = alloc_and_insert_fd_chirho current s1 w None
           in if write_fd < 0 then
                (fst (close_fd_chirho current s2 (nat read_fd)), write_fd, None)
              else if \<not> copy_ok (read_fd, write_fd) then
                let s3 = fst (close_fd_chirho current s2 (nat read_fd))
                in (fst (close_fd_chirho current s3 (nat write_fd)), - EFAULT_CHIRHO, None)
              else (s2, 0, Some (read_fd, write_fd)))"

definition sys_pipe_chirho ::
  "(int \<times> int \<Rightarrow> bool) \<Rightarrow> current_task \<Rightarrow> fd_system \<Rightarrow> u64 \<Rightarrow>
   fd_system \<times> i64 \<times> (int \<times> int) option" where
  "sys_pipe_chirho copy_ok current s fds_ptr =
     (if fds_ptr = 0 then (s, - EFAULT_CHIRHO, None) else pipe_common_chirho copy_ok current s 0)"

definition sys_pipe2_chirho ::
  "(int \<times> int \<Rightarrow> bool) \<Rightarrow> current_task \<Rightarrow> fd_system \<Rightarrow> u64 \<Rightarrow> u32 \<Rightarrow>
   fd_system \<times> i64 \<times> (int \<times> int) option" where
  "sys_pipe2_chirho copy_ok current s fds_ptr flags =
     (if fds_ptr = 0 then (s, - EFAULT_CHIRHO, None) else pipe_common_chirho copy_ok current s flags)"

end
