(* ===== verification/Fd_Accounting.thy ===== *)
theory Fd_Accounting
  imports Fd_Table
begin

text \<open>
  The accounting of pipe ends.  A multiset holds the files of all live
  descriptors; \<^verbatim>\<open>acc_ok\<close> says that every pipe some live descriptor refers to
  has as many readers and writers as there are such descriptors and is closed
  on a side exactly when that number is zero.  The locale \<^verbatim>\<open>descriptor_accounting\<close>
  is the contract the descriptor tables need from the two accounting
  operations; it is interpreted on the code's ones, and every table operation
  keeps the accounting in any context of other tables.
\<close>

section \<open>The accounting contract\<close>

locale descriptor_accounting =
  fixes inc :: "'f \<Rightarrow> 'h \<Rightarrow> 'h"
    and dec :: "'f \<Rightarrow> 'h \<Rightarrow> 'h"
    and ok :: "'h \<Rightarrow> 'f multiset \<Rightarrow> bool"
    and limit :: nat
  assumes inc_ok: "ok h M \<Longrightarrow> f \<in># M \<Longrightarrow> size M < limit \<Longrightarrow> ok (inc f h) (add_mset f M)"
    and dec_ok: "ok h (add_mset f M) \<Longrightarrow> ok (dec f h) M"
begin

text \<open>Fork: one more reference to each file of a list of live ones.\<close>

lemma fold_inc_ok:
  "ok h M \<Longrightarrow> set fs \<subseteq> set_mset M \<Longrightarrow> size M + length fs \<le> limit \<Longrightarrow> ok (fold inc fs h) (mset fs + M)"
proof (induction fs arbitrary: h M)
  case Nil
  then show ?case by simp
next
  case (Cons f fs)
  have "ok (inc f h) (add_mset f M)" using Cons.prems by (intro inc_ok) auto
  then have "ok (fold inc fs (inc f h)) (mset fs + add_mset f M)"
    using Cons.prems by (intro Cons.IH) auto
  then show ?case by simp
qed

text \<open>Replacing one descriptor by a duplicate of another, incrementing first.\<close>

lemma replace_ok:
  "ok h (add_mset g M) \<Longrightarrow> f \<in># add_mset g M \<Longrightarrow> size M + 1 < limit \<Longrightarrow>
   ok (dec g (inc f h)) (add_mset f M)"
  using inc_ok [of h "add_mset g M" f] dec_ok [of "inc f h" g "add_mset f M"]
  by (simp add: add_mset_commute)

end

section \<open>Exactness of the counts\<close>

definition reads_from :: "vfs_heap \<Rightarrow> nat \<Rightarrow> nat \<Rightarrow> bool" where
  "reads_from h p f =
     (case pipe_endpoint_reference_chirho h f of Some (q, e) \<Rightarrow> q = p \<and> reads_chirho e | None \<Rightarrow> False)"

definition writes_to :: "vfs_heap \<Rightarrow> nat \<Rightarrow> nat \<Rightarrow> bool" where
  "writes_to h p f =
     (case pipe_endpoint_reference_chirho h f of Some (q, e) \<Rightarrow> q = p \<and> writes_chirho e | None \<Rightarrow> False)"

definition on_pipe :: "vfs_heap \<Rightarrow> nat \<Rightarrow> nat \<Rightarrow> bool" where
  "on_pipe h p f \<longleftrightarrow> reads_from h p f \<or> writes_to h p f"

definition nreaders :: "vfs_heap \<Rightarrow> nat \<Rightarrow> nat multiset \<Rightarrow> nat" where
  "nreaders h p M = size (filter_mset (reads_from h p) M)"

definition nwriters :: "vfs_heap \<Rightarrow> nat \<Rightarrow> nat multiset \<Rightarrow> nat" where
  "nwriters h p M = size (filter_mset (writes_to h p) M)"

definition pipe_ok :: "nat \<Rightarrow> nat \<Rightarrow> PipeChirho \<Rightarrow> bool" where
  "pipe_ok n m p \<longleftrightarrow>
     unat (readers_chirho p) = n \<and> unat (writers_chirho p) = m \<and>
     (closed_read_chirho p \<longleftrightarrow> n = 0) \<and> (closed_write_chirho p \<longleftrightarrow> m = 0)"

definition file_live :: "vfs_heap \<Rightarrow> nat \<Rightarrow> bool" where
  "file_live h f \<longleftrightarrow>
     f < vfs_next_file h \<and> file_inode_chirho (vfs_files h f) < vfs_next_inode h \<and>
     (\<forall>p. fs_data_chirho (vfs_inodes h (file_inode_chirho (vfs_files h f))) = Some (Fs_Pipe p) \<longrightarrow>
        p < vfs_next_pipe h)"

definition acc_ok :: "vfs_heap \<Rightarrow> nat multiset \<Rightarrow> bool" where
  "acc_ok h M \<longleftrightarrow>
     pipe_reference_invariant_count_chirho h = 0 \<and> (\<forall>f\<in>#M. file_live h f) \<and>
     (\<forall>p. (\<exists>f\<in>#M. on_pipe h p f) \<longrightarrow>
        pipe_ok (nreaders h p M) (nwriters h p M) (vfs_pipes h p))"

definition PIPE_DESCRIPTOR_LIMIT :: nat where
  "PIPE_DESCRIPTOR_LIMIT = 2 ^ 32 - 1"

lemma endpoint_pipes [simp]:
  "pipe_endpoint_reference_chirho (h\<lparr>vfs_pipes := ps\<rparr>) = pipe_endpoint_reference_chirho h"
  by (simp add: fun_eq_iff pipe_endpoint_reference_chirho_def)

lemma endpoint_nonempty:
  "pipe_endpoint_reference_chirho h f = Some (p, e) \<Longrightarrow> reads_chirho e \<or> writes_chirho e"
  by (auto simp: pipe_endpoint_reference_chirho_def Let_def
      split: if_splits option.splits fs_data_chirho.splits)

lemma pipe_pred_simps [simp]:
  "reads_from (h\<lparr>vfs_pipes := ps\<rparr>) = reads_from h"
  "writes_to (h\<lparr>vfs_pipes := ps\<rparr>) = writes_to h"
  "on_pipe (h\<lparr>vfs_pipes := ps\<rparr>) = on_pipe h"
  "file_live (h\<lparr>vfs_pipes := ps\<rparr>) = file_live h"
  by (simp_all add: fun_eq_iff reads_from_def writes_to_def on_pipe_def file_live_def)

lemma pipe_count_simps [simp]:
  "nreaders (h\<lparr>vfs_pipes := ps\<rparr>) = nreaders h"
  "nwriters (h\<lparr>vfs_pipes := ps\<rparr>) = nwriters h"
  by (intro ext; simp add: nreaders_def nwriters_def)+

lemma endpoint_pred_simps:
  assumes "pipe_endpoint_reference_chirho h f = Some (p, e)"
  shows "reads_from h q f \<longleftrightarrow> q = p \<and> reads_chirho e" "writes_to h q f \<longleftrightarrow> q = p \<and> writes_chirho e"
    "on_pipe h q f \<longleftrightarrow> q = p"
  using assms endpoint_nonempty [OF assms] by (auto simp: reads_from_def writes_to_def on_pipe_def)

lemma endpoint_pred_None:
  assumes "pipe_endpoint_reference_chirho h f = None"
  shows "\<not> reads_from h q f" "\<not> writes_to h q f" "\<not> on_pipe h q f"
  using assms by (auto simp: reads_from_def writes_to_def on_pipe_def)

lemma count_add_simps:
  "nreaders h p (add_mset f M) = nreaders h p M + (if reads_from h p f then 1 else 0)"
  "nwriters h p (add_mset f M) = nwriters h p M + (if writes_to h p f then 1 else 0)"
  by (simp_all add: nreaders_def nwriters_def)

lemma count_le_size: "nreaders h p M \<le> size M" "nwriters h p M \<le> size M"
  by (simp_all add: nreaders_def nwriters_def size_filter_mset_lesseq)

lemma u32_max_unat: "w = 0xFFFFFFFF \<longleftrightarrow> unat (w :: u32) = 2 ^ 32 - 1"
  by (simp add: word_unat_eq_iff)

lemma u32_succ_unat: "unat (w :: u32) < 2 ^ 32 - 1 \<Longrightarrow> unat (w + 1) = unat w + 1"
  by (subst unat_Suc_word) (auto simp: unat_minus_one_word)

lemma pipe_increment_ok:
  assumes "pipe_ok n m p" and "reads_chirho e \<Longrightarrow> 0 < n" and "writes_chirho e \<Longrightarrow> 0 < m"
    and "n < PIPE_DESCRIPTOR_LIMIT" and "m < PIPE_DESCRIPTOR_LIMIT"
  shows "\<exists>p'. pipe_increment_chirho e p = (p', False) \<and>
    pipe_ok (n + (if reads_chirho e then 1 else 0)) (m + (if writes_chirho e then 1 else 0)) p'"
proof -
  have r: "readers_chirho p \<noteq> 0xFFFFFFFF" "writers_chirho p \<noteq> 0xFFFFFFFF"
    using assms by (auto simp: pipe_ok_def PIPE_DESCRIPTOR_LIMIT_def u32_max_unat)
  have s: "unat (readers_chirho p + 1) = n + 1" "unat (writers_chirho p + 1) = m + 1"
    using assms by (auto simp: pipe_ok_def PIPE_DESCRIPTOR_LIMIT_def u32_succ_unat)
  have z: "readers_chirho p = 0 \<longleftrightarrow> n = 0" "writers_chirho p = 0 \<longleftrightarrow> m = 0"
    using assms(1) by (auto simp: pipe_ok_def unat_eq_0)
  show ?thesis
    using assms(1-3) r s z by (auto simp: pipe_increment_chirho_def pipe_ok_def Let_def)
qed

lemma pipe_decrement_ok:
  assumes "pipe_ok (n + (if reads_chirho e then 1 else 0)) (m + (if writes_chirho e then 1 else 0)) p"
  shows "\<exists>p'. pipe_decrement_chirho e p = (p', False) \<and> pipe_ok n m p'"
proof -
  have z: "reads_chirho e \<Longrightarrow> readers_chirho p \<noteq> 0" "writes_chirho e \<Longrightarrow> writers_chirho p \<noteq> 0"
    using assms by (auto simp: pipe_ok_def)
  have s: "reads_chirho e \<Longrightarrow> unat (readers_chirho p - 1) = n"
    "writes_chirho e \<Longrightarrow> unat (writers_chirho p - 1) = m"
    using assms z by (auto simp: pipe_ok_def unat_pred_word)
  then have e: "reads_chirho e \<Longrightarrow> readers_chirho p - 1 = 0 \<longleftrightarrow> n = 0"
    "writes_chirho e \<Longrightarrow> writers_chirho p - 1 = 0 \<longleftrightarrow> m = 0"
    by (metis unat_eq_0)+
  show ?thesis
    using assms z s e by (auto simp: pipe_decrement_chirho_def pipe_ok_def Let_def)
qed

lemma acc_ok_increment:
  assumes ok: "acc_ok h M" and f: "f \<in># M" and lim: "size M < PIPE_DESCRIPTOR_LIMIT"
  shows "acc_ok (increment_pipe_descriptor_reference_chirho f h) (add_mset f M)"
proof (cases "pipe_endpoint_reference_chirho h f")
  case None
  then show ?thesis
    using ok f endpoint_pred_None [OF None]
    by (auto simp: increment_pipe_descriptor_reference_chirho_def acc_ok_def count_add_simps)
next
  case (Some pe)
  obtain p e where pe: "pe = (p, e)" by (cases pe)
  note ep = Some [unfolded pe] and preds = endpoint_pred_simps [OF Some [unfolded pe]]
  have pok: "pipe_ok (nreaders h p M) (nwriters h p M) (vfs_pipes h p)"
    using ok f preds(3) by (auto simp: acc_ok_def)
  have pos: "reads_chirho e \<Longrightarrow> 0 < nreaders h p M" "writes_chirho e \<Longrightarrow> 0 < nwriters h p M"
    using f preds unfolding nreaders_def nwriters_def by (auto intro: size_filter_pos)
  obtain p' where p': "pipe_increment_chirho e (vfs_pipes h p) = (p', False)"
    "pipe_ok (nreaders h p (add_mset f M)) (nwriters h p (add_mset f M)) p'"
    using pipe_increment_ok [OF pok, of e] pos count_le_size [of h p M] lim preds
    by (auto simp: count_add_simps)
  show ?thesis
    using ok f ep p' preds
    by (auto simp: increment_pipe_descriptor_reference_chirho_def acc_ok_def count_add_simps)
qed

lemma acc_ok_decrement:
  assumes ok: "acc_ok h (add_mset f M)"
  shows "acc_ok (decrement_pipe_descriptor_reference_chirho f h) M"
proof (cases "pipe_endpoint_reference_chirho h f")
  case None
  then show ?thesis
    using ok endpoint_pred_None [OF None]
    by (auto simp: decrement_pipe_descriptor_reference_chirho_def acc_ok_def count_add_simps)
next
  case (Some pe)
  obtain p e where pe: "pe = (p, e)" by (cases pe)
  note ep = Some [unfolded pe] and preds = endpoint_pred_simps [OF Some [unfolded pe]]
  have "pipe_ok (nreaders h p (add_mset f M)) (nwriters h p (add_mset f M)) (vfs_pipes h p)"
    using ok preds(3) by (auto simp: acc_ok_def)
  then obtain p' where p': "pipe_decrement_chirho e (vfs_pipes h p) = (p', False)"
    "pipe_ok (nreaders h p M) (nwriters h p M) p'"
    using pipe_decrement_ok [of "nreaders h p M" e "nwriters h p M" "vfs_pipes h p"] preds
    by (auto simp: count_add_simps)
  show ?thesis
    using ok ep p' preds
    by (auto simp: decrement_pipe_descriptor_reference_chirho_def acc_ok_def count_add_simps)
qed

interpretation acc: descriptor_accounting increment_pipe_descriptor_reference_chirho
  decrement_pipe_descriptor_reference_chirho acc_ok PIPE_DESCRIPTOR_LIMIT
  by unfold_locales (fact acc_ok_increment, fact acc_ok_decrement)

section \<open>Table operations keep the accounting\<close>

fun opt_mset :: "'a option \<Rightarrow> 'a multiset" where
  "opt_mset None = {#}"
| "opt_mset (Some x) = {#x#}"

text \<open>The files of a table's live descriptors.\<close>

definition descs :: "FdTableChirho \<Rightarrow> nat multiset" where
  "descs t = sum_list (map opt_mset (fds_chirho t))"

definition fd_table_wf :: "FdTableChirho \<Rightarrow> bool" where
  "fd_table_wf t \<longleftrightarrow>
     length (paths_chirho t) = length (fds_chirho t) \<and> length (cloexec_chirho t) = length (fds_chirho t)"

lemma descs_cong: "fds_chirho t = fds_chirho t' \<Longrightarrow> descs t = descs t'"
  by (simp add: descs_def)

lemma descs_update:
  assumes "fd < length (fds_chirho t)"
  obtains R where "descs t = opt_mset (fds_chirho t ! fd) + R"
    and "\<And>y t'. fds_chirho t' = (fds_chirho t)[fd := y] \<Longrightarrow> descs t' = opt_mset y + R"
  using sum_list_split_nth [OF assms, of opt_mset] unfolding descs_def by metis

lemma mset_open_files: "mset (open_files_chirho t) = descs t"
proof -
  have "mset (List.map_filter id xs) = sum_list (map opt_mset xs)" for xs :: "nat option list"
    by (induction xs) (auto simp: map_filter_simps split: option.splits)
  then show ?thesis by (simp add: open_files_chirho_def descs_def)
qed

lemma fd_get_Some_iff: "fd_get_chirho t fd = Some f \<longleftrightarrow> fd < length (fds_chirho t) \<and> fds_chirho t ! fd = Some f"
  by (auto simp: fd_get_chirho_def get_opt_def)

lemma fd_get_in_descs: "fd_get_chirho t fd = Some f \<Longrightarrow> f \<in># descs t"
  by (metis descs_update fd_get_Some_iff opt_mset.simps(2) union_iff union_single_eq_member)

lemma fd_close_cases:
  obtains (closed) f t' where "fd_get_chirho t fd = Some f"
      "fd_close_chirho h t fd = (decrement_pipe_descriptor_reference_chirho f h, t', Inr ())"
      "descs t = add_mset f (descs t')" "fds_chirho t' = (fds_chirho t)[fd := None]"
      "fd_table_wf t \<Longrightarrow> fd_table_wf t'"
  | (bad) "fd_get_chirho t fd = None" "fd_close_chirho h t fd = (h, t, Inl FD_EBADF_CHIRHO)"
proof (cases "fd_get_chirho t fd")
  case None
  then have "get_opt (fds_chirho t) fd = None \<or> get_opt (fds_chirho t) fd = Some None"
    by (auto simp: fd_get_chirho_def get_opt_def)
  then show ?thesis using bad None by (auto simp: fd_close_chirho_def)
next
  case (Some f)
  then have fd: "fd < length (fds_chirho t)" "fds_chirho t ! fd = Some f"
    by (simp_all add: fd_get_Some_iff)
  then have get: "get_opt (fds_chirho t) fd = Some (Some f)" by (simp add: get_opt_def)
  obtain R where "descs t = opt_mset (Some f) + R"
    and "\<And>t'. fds_chirho t' = (fds_chirho t)[fd := None] \<Longrightarrow> descs t' = opt_mset None + R"
    using descs_update [OF fd(1)] fd(2) by metis
  then show ?thesis
    using closed [OF Some, of "fst (snd (fd_close_chirho h t fd))"] get
    by (simp add: fd_close_chirho_def fd_table_wf_def)
qed

lemma fd_close_acc:
  assumes "fd_close_chirho h t fd = (h', t', r)" and "acc_ok h (descs t + R)" and "fd_table_wf t"
  shows "acc_ok h' (descs t' + R)" "descs t' \<subseteq># descs t" "fd_table_wf t'"
  using assms acc.dec_ok by (cases rule: fd_close_cases [where h = h and t = t and fd = fd]; fastforce)+

lemma close_each_acc:
  assumes "acc_ok h (descs t + R)" and "fd_table_wf t"
    and "close_each_chirho guard fds h t = (h', t')"
  shows "acc_ok h' (descs t' + R) \<and> descs t' \<subseteq># descs t \<and> fd_table_wf t'"
  using assms
proof (induction guard fds h t rule: close_each_chirho.induct)
  case (1 guard h t)
  then show ?case by simp
next
  case (2 guard fd fds h t)
  obtain h1 t1 r where c: "fd_close_chirho h t fd = (h1, t1, r)"
    by (cases "fd_close_chirho h t fd")
  show ?case
  proof (cases "guard h t fd")
    case True
    have "acc_ok h' (descs t' + R) \<and> descs t' \<subseteq># descs t1 \<and> fd_table_wf t'"
      using "2.IH"(1) [OF True c [symmetric] refl] "2.prems" True c fd_close_acc [OF c "2.prems"(1,2)]
      by simp
    then show ?thesis using fd_close_acc(2) [OF c "2.prems"(1,2)] by auto
  next
    case False
    then show ?thesis using "2.IH"(2) [OF False] "2.prems" by simp
  qed
qed

lemma install_duplicate_cases:
  assumes "fd_table_wf t"
  obtains (range) "length (fds_chirho t) \<le> fd"
      "install_duplicate_at_chirho h t fd f path cx = (h, t, Inl FD_EBADF_CHIRHO)"
  | (free) t' where "fd < length (fds_chirho t)" "fd_table_wf t'" "fd_get_chirho t' fd = Some f"
      "install_duplicate_at_chirho h t fd f path cx =
        (increment_pipe_descriptor_reference_chirho f h, t', Inr fd)"
      "descs t' = add_mset f (descs t)"
  | (replaced) g t' R where "fd < length (fds_chirho t)" "fd_table_wf t'"
      "fd_get_chirho t' fd = Some f" "descs t = add_mset g R" "descs t' = add_mset f R"
      "install_duplicate_at_chirho h t fd f path cx =
        (decrement_pipe_descriptor_reference_chirho g (increment_pipe_descriptor_reference_chirho f h),
         t', Inr fd)"
proof (cases "fd < length (fds_chirho t)")
  case False
  then show ?thesis using range by (simp add: install_duplicate_at_chirho_def)
next
  case True
  let ?ins = "\<lambda>t2. t2\<lparr>fds_chirho := (fds_chirho t2)[fd := Some f],
    paths_chirho := (paths_chirho t2)[fd := path], cloexec_chirho := (cloexec_chirho t2)[fd := cx]\<rparr>"
  obtain R where R: "descs t = opt_mset (fds_chirho t ! fd) + R"
    and upd: "\<And>y t'. fds_chirho t' = (fds_chirho t)[fd := y] \<Longrightarrow> descs t' = opt_mset y + R"
    using descs_update [OF True] by metis
  show ?thesis
  proof (cases "fds_chirho t ! fd")
    case None
    then show ?thesis
      using free [of "?ins t"] True assms R upd [of "?ins t" "Some f"]
      by (simp add: install_duplicate_at_chirho_def fd_table_wf_def fd_get_Some_iff)
  next
    case (Some g)
    then have "fd_get_chirho t fd = Some g" using True by (simp add: fd_get_Some_iff)
    then obtain t2 where t2: "fd_close_chirho (increment_pipe_descriptor_reference_chirho f h) t fd =
        (decrement_pipe_descriptor_reference_chirho g (increment_pipe_descriptor_reference_chirho f h),
          t2, Inr ())" "fds_chirho t2 = (fds_chirho t)[fd := None]" "fd_table_wf t2"
      using assms
      by (cases rule: fd_close_cases
          [where h = "increment_pipe_descriptor_reference_chirho f h" and t = t and fd = fd]) auto
    then show ?thesis
      using replaced [of "?ins t2" g R] True Some R upd [of "?ins t2" "Some f"]
      by (simp add: install_duplicate_at_chirho_def fd_table_wf_def fd_get_Some_iff)
  qed
qed

lemma install_duplicate_acc:
  assumes i: "install_duplicate_at_chirho h t fd f path cx = (h', t', r)"
    and ok: "acc_ok h (descs t + R)" and wf: "fd_table_wf t" and f: "f \<in># descs t + R"
    and lim: "size (descs t + R) < PIPE_DESCRIPTOR_LIMIT"
  shows "acc_ok h' (descs t' + R) \<and> fd_table_wf t' \<and> size (descs t') \<le> Suc (size (descs t))"
  using wf
proof (cases rule: install_duplicate_cases
    [where fd = fd and h = h and f = f and path = path and cx = cx])
  case range
  then show ?thesis using assms by simp
next
  case (free t1)
  then show ?thesis using i acc.inc_ok [OF ok f lim] by simp
next
  case (replaced g t1 R1)
  have "acc_ok (decrement_pipe_descriptor_reference_chirho g
      (increment_pipe_descriptor_reference_chirho f h)) (add_mset f (R1 + R))"
    using ok f lim replaced(4) by (intro acc.replace_ok) auto
  then show ?thesis using i replaced by simp
qed

section \<open>The whole system keeps the accounting\<close>

fun tab_mset :: "FdTableChirho option \<Rightarrow> nat multiset" where
  "tab_mset None = {#}"
| "tab_mset (Some t) = descs t"

text \<open>The files of all live descriptors: of every task and of the global table.\<close>

definition all_descs :: "fd_system \<Rightarrow> nat multiset" where
  "all_descs s = sum_list (map tab_mset (sys_tables s)) + tab_mset (sys_global s)"

definition sys_wf :: "fd_system \<Rightarrow> bool" where
  "sys_wf s \<longleftrightarrow> (\<forall>t. Some t \<in> set (sys_tables s) \<or> sys_global s = Some t \<longrightarrow> fd_table_wf t)"

text \<open>Accounting with a multiset of pending files: references counted by the
  pipes that no table holds yet.\<close>

definition sys_acc :: "fd_system \<Rightarrow> nat multiset \<Rightarrow> bool" where
  "sys_acc s P \<longleftrightarrow> acc_ok (sys_heap s) (all_descs s + P) \<and> sys_wf s"

lemma focus_table:
  assumes "current_table_chirho current s = Some (i, t)" and "sys_wf s"
  obtains R where "all_descs s = descs t + R" "fd_table_wf t"
    "\<And>h t'. all_descs (s\<lparr>sys_heap := h, sys_tables := (sys_tables s)[i := Some t']\<rparr>) = descs t' + R"
    "\<And>h t'. fd_table_wf t' \<Longrightarrow> sys_wf (s\<lparr>sys_heap := h, sys_tables := (sys_tables s)[i := Some t']\<rparr>)"
proof -
  have i: "i < length (sys_tables s)" "sys_tables s ! i = Some t"
    using assms(1) by (auto simp: current_table_chirho_def get_opt_def split: option.splits if_splits)
  obtain R where R: "sum_list (map tab_mset (sys_tables s)) = descs t + R"
    "\<And>y. sum_list (map tab_mset ((sys_tables s)[i := y])) = tab_mset y + R"
    using sum_list_split_nth [OF i(1), of tab_mset] i(2) by (metis tab_mset.simps(2))
  have wf: "fd_table_wf t" using assms(2) i by (auto simp: sys_wf_def in_set_conv_nth)
  show ?thesis
  proof (rule that [of "R + tab_mset (sys_global s)"])
    show "sys_wf (s\<lparr>sys_heap := h, sys_tables := (sys_tables s)[i := Some t']\<rparr>)"
      if "fd_table_wf t'" for h t'
      using assms(2) that set_update_subset_insert [of "sys_tables s" i "Some t'"]
      by (auto simp: sys_wf_def)
  qed (simp_all add: wf all_descs_def R ac_simps)
qed

lemma focus_global:
  assumes "sys_global s = Some g" and "sys_wf s"
  shows "all_descs s = descs g + sum_list (map tab_mset (sys_tables s))" "fd_table_wf g"
    "all_descs (s\<lparr>sys_heap := h, sys_global := Some g'\<rparr>) =
      descs g' + sum_list (map tab_mset (sys_tables s))"
    "fd_table_wf g' \<Longrightarrow> sys_wf (s\<lparr>sys_heap := h, sys_global := Some g'\<rparr>)"
  using assms by (auto simp: all_descs_def sys_wf_def)

lemma sys_update_same [simp]:
  "s\<lparr>sys_heap := sys_heap s, sys_tables := ts\<rparr> = s\<lparr>sys_tables := ts\<rparr>"
  "s\<lparr>sys_heap := sys_heap s, sys_global := g\<rparr> = s\<lparr>sys_global := g\<rparr>"
  by simp_all

lemma mirror_acc:
  assumes acc: "sys_acc s P" and f: "f \<in># all_descs s + P"
    and lim: "size (all_descs s + P) < PIPE_DESCRIPTOR_LIMIT"
  shows "sys_acc (mirror_global_chirho current s fd f path cx) P \<and>
    size (all_descs (mirror_global_chirho current s fd f path cx)) \<le> Suc (size (all_descs s))"
proof (cases "current_pid_chirho current \<le> 1 \<and> sys_global s \<noteq> None")
  case False
  then have "mirror_global_chirho current s fd f path cx = s"
    by (auto simp: mirror_global_chirho_def)
  then show ?thesis using acc by simp
next
  case True
  then obtain g where g: "sys_global s = Some g" by auto
  obtain h g' r where i: "install_duplicate_at_chirho (sys_heap s) g fd f path cx = (h, g', r)"
    by (cases "install_duplicate_at_chirho (sys_heap s) g fd f path cx")
  have m: "mirror_global_chirho current s fd f path cx = s\<lparr>sys_heap := h, sys_global := Some g'\<rparr>"
    using True g i by (simp add: mirror_global_chirho_def)
  have wf: "sys_wf s" using acc by (simp add: sys_acc_def)
  note fg = focus_global [OF g wf]
  have "acc_ok h (descs g' + (sum_list (map tab_mset (sys_tables s)) + P)) \<and> fd_table_wf g' \<and>
      size (descs g') \<le> Suc (size (descs g))"
    using acc f lim fg(1,2)
    by (intro install_duplicate_acc [OF i]) (simp_all add: sys_acc_def ac_simps)
  then show ?thesis using fg by (simp add: m sys_acc_def ac_simps)
qed

lemma alloc_fd_Inr:
  "alloc_fd_chirho t = Inr fd \<Longrightarrow> fd < length (fds_chirho t) \<and> fds_chirho t ! fd = None"
  by (auto simp: alloc_fd_chirho_def position_Some_iff split: option.splits)

lemma alloc_fd_Inl: "alloc_fd_chirho t = Inl e \<Longrightarrow> e < 0"
  by (auto simp: alloc_fd_chirho_def FD_EMFILE_CHIRHO_def split: option.splits)

lemma insert_fd_descs:
  assumes "alloc_fd_chirho t = Inr fd" and "fd_table_wf t"
  shows "descs (insert_fd_chirho t fd f path cx) = add_mset f (descs t)"
    "fd_table_wf (insert_fd_chirho t fd f path cx)"
    "fd_get_chirho (insert_fd_chirho t fd f path cx) fd = Some f"
proof -
  have fd: "fd < length (fds_chirho t)" "fds_chirho t ! fd = None"
    using alloc_fd_Inr [OF assms(1)] by auto
  then show "descs (insert_fd_chirho t fd f path cx) = add_mset f (descs t)"
    by (metis (no_types, lifting) FdTableChirho.select_convs(1) FdTableChirho.surjective
        FdTableChirho.update_convs(1-3) add.left_neutral add_mset_add_single descs_update
        insert_fd_chirho_def opt_mset.simps union_commute)
  show "fd_table_wf (insert_fd_chirho t fd f path cx)"
    using assms(2) by (auto simp: insert_fd_chirho_def fd_table_wf_def split: option.splits)
  show "fd_get_chirho (insert_fd_chirho t fd f path cx) fd = Some f"
    using fd by (simp add: insert_fd_chirho_def fd_get_Some_iff)
qed

lemma alloc_insert_acc:
  assumes acc: "sys_acc s (add_mset f P)"
    and lim: "size (all_descs s + P) + 1 < PIPE_DESCRIPTOR_LIMIT"
    and r: "alloc_and_insert_fd_chirho current s f path = (s', r)"
  shows "if r < 0 then s' = s else sys_acc s' P \<and> size (all_descs s') \<le> size (all_descs s) + 2"
proof (cases "current_table_chirho current s")
  case None
  show ?thesis
  proof (cases "sys_global s")
    case g: (Some g)
    have wf: "sys_wf s" using acc by (simp add: sys_acc_def)
    show ?thesis
    proof (cases "alloc_fd_chirho g")
      case (Inr fd)
      then show ?thesis
        using acc r None g insert_fd_descs(1,2) [OF Inr focus_global(2) [OF g wf]]
          focus_global(1) [OF g wf] focus_global(3,4) [OF g wf, where h = "sys_heap s"]
        by (auto simp: alloc_and_insert_fd_chirho_def sys_acc_def Let_def)
    qed (use r None g in \<open>auto simp: alloc_and_insert_fd_chirho_def Let_def dest: alloc_fd_Inl\<close>)
  qed (use r None in \<open>auto simp: alloc_and_insert_fd_chirho_def EBADF_CHIRHO_def Let_def\<close>)
next
  case (Some it)
  obtain i t where it: "it = (i, t)" by (cases it)
  note cur = Some [unfolded it]
  have wf: "sys_wf s" using acc by (simp add: sys_acc_def)
  obtain R where R: "all_descs s = descs t + R" "fd_table_wf t"
    "\<And>h t'. all_descs (s\<lparr>sys_heap := h, sys_tables := (sys_tables s)[i := Some t']\<rparr>) = descs t' + R"
    "\<And>h t'. fd_table_wf t' \<Longrightarrow> sys_wf (s\<lparr>sys_heap := h, sys_tables := (sys_tables s)[i := Some t']\<rparr>)"
    using focus_table [OF cur wf] by metis
  show ?thesis
  proof (cases "alloc_fd_chirho t")
    case (Inl e)
    then show ?thesis
      using r cur by (auto simp: alloc_and_insert_fd_chirho_def Let_def dest: alloc_fd_Inl)
  next
    case (Inr fd)
    let ?cx = "file_flags_chirho (vfs_files (sys_heap s) f) AND O_CLOEXEC_CHIRHO \<noteq> 0"
    let ?s1 = "s\<lparr>sys_tables := (sys_tables s)[i := Some (insert_fd_chirho t fd f path ?cx)]\<rparr>"
    note ins = insert_fd_descs [OF Inr R(2)]
    have all1: "all_descs ?s1 = add_mset f (all_descs s)" and wf1: "sys_wf ?s1"
      using R(1) R(3,4) [where h = "sys_heap s"] ins by simp_all
    have "sys_acc ?s1 P" using acc all1 wf1 by (simp add: sys_acc_def)
    moreover have "f \<in># all_descs ?s1 + P" using all1 by simp
    ultimately show ?thesis
      using mirror_acc [of ?s1 P f current fd path ?cx] r cur Inr lim all1
      by (auto simp: alloc_and_insert_fd_chirho_def Let_def)
  qed
qed

lemma close_fd_acc:
  assumes acc: "sys_acc s P" and r: "close_fd_chirho current s fd = (s', r)"
  shows "sys_acc s' P \<and> all_descs s' \<subseteq># all_descs s"
proof -
  define s1 where "s1 = (case current_table_chirho current s of
      None \<Rightarrow> s
    | Some (i, t) \<Rightarrow> (case fd_close_chirho (sys_heap s) t fd of (h, t', r) \<Rightarrow>
        s\<lparr>sys_heap := h, sys_tables := (sys_tables s)[i := Some t']\<rparr>))"
  have s1: "sys_acc s1 P \<and> all_descs s1 \<subseteq># all_descs s"
  proof (cases "current_table_chirho current s")
    case None
    then show ?thesis using acc by (simp add: s1_def)
  next
    case (Some it)
    obtain i t where it: "it = (i, t)" by (cases it)
    obtain h t' r where c: "fd_close_chirho (sys_heap s) t fd = (h, t', r)"
      by (cases "fd_close_chirho (sys_heap s) t fd")
    have wf: "sys_wf s" using acc by (simp add: sys_acc_def)
    obtain R where R: "all_descs s = descs t + R" "fd_table_wf t"
      "all_descs (s\<lparr>sys_heap := h, sys_tables := (sys_tables s)[i := Some t']\<rparr>) = descs t' + R"
      "fd_table_wf t' \<Longrightarrow> sys_wf (s\<lparr>sys_heap := h, sys_tables := (sys_tables s)[i := Some t']\<rparr>)"
      using focus_table [OF Some [unfolded it] wf] by metis
    have "acc_ok (sys_heap s) (descs t + (R + P))" using acc R(1) by (simp add: sys_acc_def ac_simps)
    from fd_close_acc [OF c this R(2)] show ?thesis
      using R Some it c by (simp add: s1_def sys_acc_def ac_simps)
  qed
  show ?thesis
  proof (cases "current_pid_chirho current \<le> 1 \<and> sys_global s1 \<noteq> None")
    case False
    then have "s' = s1"
      using r by (auto simp: close_fd_chirho_def s1_def Let_def split: option.splits prod.splits)
    then show ?thesis using s1 by simp
  next
    case True
    then obtain g where g: "sys_global s1 = Some g" by auto
    obtain h g' r where c: "fd_close_chirho (sys_heap s1) g fd = (h, g', r)"
      by (cases "fd_close_chirho (sys_heap s1) g fd")
    have s': "s' = s1\<lparr>sys_heap := h, sys_global := Some g'\<rparr>"
      using True r g c
      by (auto simp: close_fd_chirho_def s1_def Let_def split: option.splits prod.splits)
    have wf: "sys_wf s1" using s1 by (simp add: sys_acc_def)
    note fg = focus_global [OF g wf]
    have "acc_ok (sys_heap s1) (descs g + (sum_list (map tab_mset (sys_tables s1)) + P))"
      using s1 fg(1) by (simp add: sys_acc_def ac_simps)
    note c' = fd_close_acc [OF c this fg(2)]
    have "all_descs s' \<subseteq># all_descs s1" using c'(2) fg(1,3) by (simp add: s')
    then have "all_descs s' \<subseteq># all_descs s" using s1 by (blast intro: subset_mset.order_trans)
    then show ?thesis
      using s1 c' fg by (simp add: s' sys_acc_def ac_simps)
  qed
qed

lemma fd_dup2_acc:
  assumes "fd_dup2_chirho h t old new = (h', t', r)"
    and "acc_ok h (descs t + R)" and "fd_table_wf t" and "size (descs t + R) < PIPE_DESCRIPTOR_LIMIT"
  shows "acc_ok h' (descs t' + R) \<and> fd_table_wf t' \<and> size (descs t') \<le> Suc (size (descs t))"
proof (cases "fd_get_chirho t old")
  case None
  then show ?thesis using assms by (simp add: fd_dup2_chirho_def)
next
  case (Some f)
  then show ?thesis
    using assms install_duplicate_acc [of h t new f "fd_path_chirho t old" False h' t' r R]
      fd_get_in_descs [OF Some]
    by (auto simp: fd_dup2_chirho_def split: if_splits)
qed

lemma fd_dup_acc:
  assumes "fd_dup_chirho h t old = (h', t', r)"
    and "acc_ok h (descs t + R)" and "fd_table_wf t" and "size (descs t + R) < PIPE_DESCRIPTOR_LIMIT"
  shows "acc_ok h' (descs t' + R) \<and> fd_table_wf t' \<and> size (descs t') \<le> Suc (size (descs t))"
proof (cases "fd_get_chirho t old")
  case None
  then show ?thesis using assms by (simp add: fd_dup_chirho_def)
next
  case (Some f)
  then show ?thesis
    using assms install_duplicate_acc [of h t _ f "fd_path_chirho t old" False h' t' r R]
      fd_get_in_descs [OF Some]
    by (auto simp: fd_dup_chirho_def split: sum.splits)
qed

lemma dup2_current_acc:
  assumes acc: "sys_acc s P" and lim: "size (all_descs s + P) + 1 < PIPE_DESCRIPTOR_LIMIT"
    and r: "dup2_in_current_task_chirho current s old new = (s', r)"
  shows "sys_acc s' P"
proof (cases "current_table_chirho current s")
  case None
  show ?thesis
  proof (cases "sys_global s")
    case g: (Some g)
    obtain h g' r' where d: "fd_dup2_chirho (sys_heap s) g old new = (h, g', r')"
      by (cases "fd_dup2_chirho (sys_heap s) g old new")
    have wf: "sys_wf s" using acc by (simp add: sys_acc_def)
    note fg = focus_global [OF g wf]
    have "acc_ok h (descs g' + (sum_list (map tab_mset (sys_tables s)) + P)) \<and> fd_table_wf g' \<and>
        size (descs g') \<le> Suc (size (descs g))"
      using acc lim fg(1,2) by (intro fd_dup2_acc [OF d]) (simp_all add: sys_acc_def ac_simps)
    then show ?thesis
      using r None g d fg by (auto simp: dup2_in_current_task_chirho_def sys_acc_def ac_simps)
  qed (use r None acc in \<open>simp add: dup2_in_current_task_chirho_def\<close>)
next
  case (Some it)
  obtain i t where it: "it = (i, t)" by (cases it)
  obtain h t' r' where d: "fd_dup2_chirho (sys_heap s) t old new = (h, t', r')"
    by (cases "fd_dup2_chirho (sys_heap s) t old new")
  let ?s1 = "s\<lparr>sys_heap := h, sys_tables := (sys_tables s)[i := Some t']\<rparr>"
  have wf: "sys_wf s" using acc by (simp add: sys_acc_def)
  obtain R where R: "all_descs s = descs t + R" "fd_table_wf t" "all_descs ?s1 = descs t' + R"
    "fd_table_wf t' \<Longrightarrow> sys_wf ?s1"
    using focus_table [OF Some [unfolded it] wf] by metis
  have "acc_ok h (descs t' + (R + P)) \<and> fd_table_wf t' \<and> size (descs t') \<le> Suc (size (descs t))"
    using acc lim R(1,2) by (intro fd_dup2_acc [OF d]) (simp_all add: sys_acc_def ac_simps)
  then have acc1: "sys_acc ?s1 P" and size1: "size (all_descs ?s1 + P) < PIPE_DESCRIPTOR_LIMIT"
    using R lim by (auto simp: sys_acc_def ac_simps)
  show ?thesis
  proof (cases r')
    case (Inl e)
    then show ?thesis
      using r Some it d acc1 by (simp add: dup2_in_current_task_chirho_def Let_def)
  next
    case (Inr fd)
    show ?thesis
    proof (cases "fd_get_chirho t' fd")
      case None
      then show ?thesis
        using r Some it d acc1 Inr by (simp add: dup2_in_current_task_chirho_def Let_def)
    next
      case f: (Some f)
      have "f \<in># all_descs ?s1 + P" using fd_get_in_descs [OF f] R(3) by simp
      from mirror_acc [OF acc1 this size1] show ?thesis
        using r Some it d Inr f by (auto simp: dup2_in_current_task_chirho_def Let_def)
    qed
  qed
qed

section \<open>Creating pipes keeps the accounting\<close>

lemma acc_ok_cong:
  assumes "pipe_endpoint_reference_chirho h' = pipe_endpoint_reference_chirho h"
    and "file_live h' = file_live h" and "vfs_pipes h' = vfs_pipes h"
    and "pipe_reference_invariant_count_chirho h' = pipe_reference_invariant_count_chirho h"
  shows "acc_ok h' M = acc_ok h M"
proof -
  have "reads_from h' = reads_from h" "writes_to h' = writes_to h"
    using assms(1) by (simp_all add: fun_eq_iff reads_from_def writes_to_def)
  then show ?thesis
    using assms(2-4) by (simp add: acc_ok_def on_pipe_def nreaders_def nwriters_def)
qed

lemma or_file_flags_acc:
  assumes "flags AND 3 = 0"
  shows "acc_ok (or_file_flags_chirho flags f h) M = acc_ok h M"
    "on_pipe (or_file_flags_chirho flags f h) = on_pipe h"
proof -
  have "(x OR flags) AND 3 = x AND 3" for x :: u32
    using assms by (simp add: bit.conj_disj_distrib2)
  then have e: "pipe_endpoint_reference_chirho (or_file_flags_chirho flags f h) =
      pipe_endpoint_reference_chirho h"
    by (auto simp: fun_eq_iff or_file_flags_chirho_def pipe_endpoint_reference_chirho_def Let_def)
  then show "acc_ok (or_file_flags_chirho flags f h) M = acc_ok h M"
    by (intro acc_ok_cong) (auto simp: fun_eq_iff or_file_flags_chirho_def file_live_def)
  show "on_pipe (or_file_flags_chirho flags f h) = on_pipe h"
    using e by (simp add: fun_eq_iff on_pipe_def reads_from_def writes_to_def)
qed

lemma inherited_flags: "(flags AND (O_NONBLOCK_CHIRHO OR O_CLOEXEC_CHIRHO)) AND 3 = 0"
  by (simp add: and.assoc O_NONBLOCK_CHIRHO_def O_CLOEXEC_CHIRHO_def)

lemma acc_ok_drop:
  assumes "acc_ok h (N + M)"
    and "\<And>p f g. f \<in># N \<Longrightarrow> g \<in># M \<Longrightarrow> on_pipe h p f \<Longrightarrow> \<not> on_pipe h p g"
  shows "acc_ok h M"
proof -
  have "pipe_ok (nreaders h p M) (nwriters h p M) (vfs_pipes h p)" if "g \<in># M" "on_pipe h p g" for p g
  proof -
    have "\<not> on_pipe h p f" if "f \<in># N" for f using assms(2) that \<open>g \<in># M\<close> \<open>on_pipe h p g\<close> by blast
    then have "filter_mset (reads_from h p) N = {#}" "filter_mset (writes_to h p) N = {#}"
      by (auto simp: on_pipe_def intro: filter_mset_none)
    then have "nreaders h p (N + M) = nreaders h p M" "nwriters h p (N + M) = nwriters h p M"
      by (simp_all add: nreaders_def nwriters_def)
    then show ?thesis using assms(1) that by (auto simp: acc_ok_def)
  qed
  then show ?thesis using assms(1) by (auto simp: acc_ok_def)
qed

lemma create_pipe_acc:
  assumes ok: "acc_ok h M" and c: "create_pipe_chirho h = (h1, r, w)"
  shows "acc_ok h1 (M + {#r, w#})"
    and "\<And>p. on_pipe h1 p r \<longleftrightarrow> p = vfs_next_pipe h" "\<And>p. on_pipe h1 p w \<longleftrightarrow> p = vfs_next_pipe h"
    and "\<And>f. f \<in># M \<Longrightarrow> \<not> on_pipe h1 (vfs_next_pipe h) f"
proof -
  have er: "pipe_endpoint_reference_chirho h1 r =
      Some (vfs_next_pipe h, \<lparr>reads_chirho = True, writes_chirho = False\<rparr>)"
    and ew: "pipe_endpoint_reference_chirho h1 w =
      Some (vfs_next_pipe h, \<lparr>reads_chirho = False, writes_chirho = True\<rparr>)"
    using c by (auto simp: create_pipe_chirho_def Let_def pipe_endpoint_reference_chirho_def
        make_pipe_inode_chirho_def O_RDONLY_CHIRHO_def O_WRONLY_CHIRHO_def)
  note pr = endpoint_pred_simps [OF er] and pw = endpoint_pred_simps [OF ew]
  show "on_pipe h1 p r \<longleftrightarrow> p = vfs_next_pipe h" "on_pipe h1 p w \<longleftrightarrow> p = vfs_next_pipe h" for p
    using pr pw by auto
  have old: "pipe_endpoint_reference_chirho h1 f = pipe_endpoint_reference_chirho h f \<and> file_live h1 f"
    if "f \<in># M" for f
  proof -
    have lv: "file_live h f" using that ok by (simp add: acc_ok_def)
    have "vfs_files h1 f = vfs_files h f"
      "vfs_inodes h1 (file_inode_chirho (vfs_files h f)) = vfs_inodes h (file_inode_chirho (vfs_files h f))"
      "vfs_next_file h1 > f" "vfs_next_inode h1 > vfs_next_inode h" "vfs_next_pipe h1 > vfs_next_pipe h"
      using lv c by (auto simp: file_live_def create_pipe_chirho_def Let_def)
    then show ?thesis
      using lv by (auto simp: file_live_def pipe_endpoint_reference_chirho_def)
  qed
  have fresh: "q \<noteq> vfs_next_pipe h"
    if "f \<in># M" "pipe_endpoint_reference_chirho h f = Some (q, e)" for f q e
  proof -
    have "file_live h f" using that(1) ok by (simp add: acc_ok_def)
    then show ?thesis
      using that(2) by (auto simp: file_live_def pipe_endpoint_reference_chirho_def Let_def
        split: if_splits option.splits fs_data_chirho.splits)
  qed
  have same: "reads_from h1 p f = reads_from h p f" "writes_to h1 p f = writes_to h p f"
    if "f \<in># M" for f p
    using old [OF that] by (auto simp: reads_from_def writes_to_def)
  show nof: "\<not> on_pipe h1 (vfs_next_pipe h) f" if "f \<in># M" for f
    using same [OF that] fresh [OF that]
    by (auto simp: on_pipe_def reads_from_def writes_to_def split: option.splits)
  have counts: "nreaders h1 p M = nreaders h p M" "nwriters h1 p M = nwriters h p M" for p
    using same by (simp_all add: nreaders_def nwriters_def cong: filter_mset_cong)
  have zero: "nreaders h1 (vfs_next_pipe h) M = 0" "nwriters h1 (vfs_next_pipe h) M = 0"
    using nof by (simp_all add: nreaders_def nwriters_def on_pipe_def filter_mset_none)
  have live: "file_live h1 r" "file_live h1 w"
    using c by (auto simp: file_live_def create_pipe_chirho_def Let_def make_pipe_inode_chirho_def)
  have h1: "vfs_pipes h1 = (vfs_pipes h)(vfs_next_pipe h := pipe_new_chirho)"
    "pipe_reference_invariant_count_chirho h1 = pipe_reference_invariant_count_chirho h"
    using c by (auto simp: create_pipe_chirho_def Let_def)
  have "pipe_ok (nreaders h1 p (M + {#r, w#})) (nwriters h1 p (M + {#r, w#})) (vfs_pipes h1 p)"
    if "f \<in># M + {#r, w#}" "on_pipe h1 p f" for p f
  proof (cases "p = vfs_next_pipe h")
    case True
    then show ?thesis
      using zero pr pw by (simp add: count_add_simps h1 pipe_ok_def pipe_new_chirho_def)
  next
    case False
    then have "f \<in># M" "on_pipe h p f" using that pr pw same by (auto simp: on_pipe_def)
    then show ?thesis
      using ok False pr pw counts by (auto simp: acc_ok_def count_add_simps h1)
  qed
  moreover have "pipe_reference_invariant_count_chirho h1 = 0" using ok h1 by (simp add: acc_ok_def)
  moreover have "\<forall>f\<in>#M + {#r, w#}. file_live h1 f" using old live by auto
  ultimately show "acc_ok h1 (M + {#r, w#})" unfolding acc_ok_def by blast
qed

lemma current_table_cong:
  "sys_tables s' = sys_tables s \<Longrightarrow> current_table_chirho current s' = current_table_chirho current s"
  unfolding current_table_chirho_def by (simp only:)

lemma current_table_update:
  "current_table_chirho current s = Some (i, t) \<Longrightarrow>
   current_table_chirho current (s\<lparr>sys_tables := (sys_tables s)[i := Some t']\<rparr>) = Some (i, t')"
  by (auto simp: current_table_chirho_def get_opt_def split: option.splits if_splits)

text \<open>No descriptor operation changes which pipe a file refers to.\<close>

lemma on_pipe_count [simp]:
  "on_pipe (h\<lparr>pipe_reference_invariant_count_chirho := n\<rparr>) = on_pipe h"
  by (simp add: fun_eq_iff on_pipe_def reads_from_def writes_to_def pipe_endpoint_reference_chirho_def)

lemma on_pipe_inc_dec [simp]:
  "on_pipe (increment_pipe_descriptor_reference_chirho f h) = on_pipe h"
  "on_pipe (decrement_pipe_descriptor_reference_chirho f h) = on_pipe h"
  by (auto simp: increment_pipe_descriptor_reference_chirho_def Let_def
      decrement_pipe_descriptor_reference_chirho_def report_pipe_reference_invariant_chirho_def
      split: option.splits prod.splits)

lemma on_pipe_fd_close: "fd_close_chirho h t fd = (h', t', r) \<Longrightarrow> on_pipe h' = on_pipe h"
  by (cases rule: fd_close_cases [where h = h and t = t and fd = fd]) auto

lemma on_pipe_install:
  "install_duplicate_at_chirho h t fd f path cx = (h', t', r) \<Longrightarrow> on_pipe h' = on_pipe h"
  by (auto simp: install_duplicate_at_chirho_def Let_def split: if_splits prod.splits sum.splits
      dest!: on_pipe_fd_close)

lemma on_pipe_alloc:
  "alloc_and_insert_fd_chirho current s f path = (s', r) \<Longrightarrow> on_pipe (sys_heap s') = on_pipe (sys_heap s)"
  by (auto simp: alloc_and_insert_fd_chirho_def mirror_global_chirho_def Let_def
      split: if_splits prod.splits sum.splits option.splits dest!: on_pipe_install)

lemma on_pipe_close:
  "close_fd_chirho current s fd = (s', r) \<Longrightarrow> on_pipe (sys_heap s') = on_pipe (sys_heap s)"
  by (auto simp: close_fd_chirho_def Let_def split: if_splits prod.splits option.splits
      dest!: on_pipe_fd_close)

text \<open>Closing a descriptor just allocated takes back what the allocation added.\<close>

lemma mirror_close_subset:
  assumes "fd_table_wf g"
  shows "descs (fst (snd (fd_close_chirho h'
      (fst (snd (install_duplicate_at_chirho h g fd f path cx))) fd))) \<subseteq># descs g"
  using assms
proof (cases rule: install_duplicate_cases
    [where fd = fd and h = h and f = f and path = path and cx = cx])
  case range
  then have "fd_get_chirho g fd = None" by (auto simp: fd_get_chirho_def get_opt_def)
  then show ?thesis
    using range by (cases rule: fd_close_cases [where h = h' and t = g and fd = fd]) auto
next
  case (free t')
  then show ?thesis by (cases rule: fd_close_cases [where h = h' and t = t' and fd = fd]) auto
next
  case (replaced g' t' R)
  then show ?thesis by (cases rule: fd_close_cases [where h = h' and t = t' and fd = fd]) auto
qed

lemma close_subset: "descs (fst (snd (fd_close_chirho h g fd))) \<subseteq># descs g"
  by (cases rule: fd_close_cases [where h = h and t = g and fd = fd]) auto

lemma close_after_alloc:
  assumes wf: "sys_wf s" and a: "alloc_and_insert_fd_chirho current s f path = (s1, r)" and r: "0 \<le> r"
    and own: "current_table_chirho current s = None \<Longrightarrow> current_pid_chirho current \<le> 1"
    and c: "close_fd_chirho current s1 (nat r) = (s2, r2)"
  shows "all_descs s2 \<subseteq># all_descs s"
proof (cases "current_table_chirho current s")
  case None
  then obtain g fd where g: "sys_global s = Some g" "alloc_fd_chirho g = Inr fd" "r = int fd"
    using a r by (auto simp: alloc_and_insert_fd_chirho_def Let_def EBADF_CHIRHO_def
        split: option.splits sum.splits dest: alloc_fd_Inl)
  define g1 where "g1 = insert_fd_chirho g fd f path
    (file_flags_chirho (vfs_files (sys_heap s) f) AND O_CLOEXEC_CHIRHO \<noteq> 0)"
  have s1: "s1 = s\<lparr>sys_global := Some g1\<rparr>"
    using a None g by (auto simp: alloc_and_insert_fd_chirho_def Let_def g1_def)
  note ins = insert_fd_descs [OF g(2) focus_global(2) [OF g(1) wf]]
  have "descs (fst (snd (fd_close_chirho (sys_heap s) g1 fd))) = descs g"
    using ins by (cases rule: fd_close_cases [where h = "sys_heap s" and t = g1 and fd = fd])
      (auto simp: g1_def)
  moreover have "current_table_chirho current s1 = None"
    using None current_table_cong [of s1 s] by (simp add: s1)
  ultimately show ?thesis
    using c own [OF None] g(1,3)
    by (auto simp: close_fd_chirho_def Let_def s1 all_descs_def split: prod.splits)
next
  case (Some it)
  obtain i t where it: "it = (i, t)" by (cases it)
  note cur = Some [unfolded it]
  obtain fd where fd: "alloc_fd_chirho t = Inr fd" "r = int fd"
    using a r cur by (auto simp: alloc_and_insert_fd_chirho_def Let_def
        split: sum.splits dest: alloc_fd_Inl)
  let ?cx = "file_flags_chirho (vfs_files (sys_heap s) f) AND O_CLOEXEC_CHIRHO \<noteq> 0"
  define t1 where "t1 = insert_fd_chirho t fd f path ?cx"
  let ?m = "install_duplicate_at_chirho (sys_heap s)"
  define g1 where "g1 = (if current_pid_chirho current \<le> 1
    then map_option (\<lambda>g. fst (snd (?m g fd f path ?cx))) (sys_global s) else sys_global s)"
  obtain R where R: "all_descs s = descs t + R" "fd_table_wf t"
    using focus_table [OF cur wf] by metis
  note ins = insert_fd_descs [OF fd(1) R(2)]
  have s1: "sys_tables s1 = (sys_tables s)[i := Some t1]" "sys_global s1 = g1"
    using a cur fd
    by (auto simp: alloc_and_insert_fd_chirho_def mirror_global_chirho_def Let_def t1_def g1_def
        split: option.splits prod.splits)
  then have cur1: "current_table_chirho current s1 = Some (i, t1)"
    using current_table_update [OF cur, of t1]
      current_table_cong [of s1 "s\<lparr>sys_tables := (sys_tables s)[i := Some t1]\<rparr>" current] by simp
  obtain h2 t2 where c2: "fd_close_chirho (sys_heap s1) t1 fd = (h2, t2, Inr ())" "descs t2 = descs t"
    using ins by (cases rule: fd_close_cases [where h = "sys_heap s1" and t = t1 and fd = fd])
      (auto simp: t1_def)
  have i: "i < length (sys_tables s)" "sys_tables s ! i = Some t"
    using cur by (auto simp: current_table_chirho_def get_opt_def split: option.splits if_splits)
  obtain Q where Q: "sum_list (map tab_mset (sys_tables s)) = descs t + Q"
    "\<And>y. sum_list (map tab_mset ((sys_tables s)[i := y])) = tab_mset y + Q"
    using sum_list_split_nth [OF i(1), of tab_mset] i(2) by (metis tab_mset.simps(2))
  define g2 where "g2 = (if current_pid_chirho current \<le> 1
    then map_option (\<lambda>g. fst (snd (fd_close_chirho h2 g fd))) g1 else g1)"
  have "sys_tables s2 = (sys_tables s)[i := Some t2]" "sys_global s2 = g2"
    using c cur1 c2 s1 fd(2)
    by (auto simp: close_fd_chirho_def Let_def g2_def split: option.splits prod.splits)
  moreover have "tab_mset g2 \<subseteq># tab_mset (sys_global s)"
    using wf mirror_close_subset
    by (cases "sys_global s") (auto simp: g2_def g1_def sys_wf_def)
  ultimately show ?thesis using Q c2(2) by (simp add: all_descs_def)
qed

lemma pipe_common_acc:
  assumes acc: "sys_acc s {#}" and lim: "size (all_descs s) + 6 < PIPE_DESCRIPTOR_LIMIT"
    and own: "current_table_chirho current s = None \<Longrightarrow> current_pid_chirho current \<le> 1"
    and r: "pipe_common_chirho copy_ok current s flags = (s', res, fds)"
  shows "sys_acc s' {#}"
proof -
  obtain h rd w where c: "create_pipe_chirho (sys_heap s) = (h, rd, w)"
    by (cases "create_pipe_chirho (sys_heap s)")
  define inh where "inh = flags AND (O_NONBLOCK_CHIRHO OR O_CLOEXEC_CHIRHO)"
  define h1 where "h1 = (if inh \<noteq> 0
    then or_file_flags_chirho inh w (or_file_flags_chirho inh rd h) else h)"
  let ?s0 = "s\<lparr>sys_heap := h1\<rparr>"
  have inh: "inh AND 3 = 0" by (simp add: inh_def inherited_flags)
  have all0: "all_descs ?s0 = all_descs s" "sys_wf ?s0"
    using acc by (simp_all add: all_descs_def sys_acc_def sys_wf_def)
  have ok: "acc_ok (sys_heap s) (all_descs s)" using acc by (simp add: sys_acc_def)
  note cp = create_pipe_acc [OF ok c]
  have acc0: "sys_acc ?s0 {#rd, w#}" and on: "on_pipe h1 = on_pipe h"
    using cp(1) all0 by (simp_all add: sys_acc_def h1_def or_file_flags_acc [OF inh])
  have sep: "acc_ok h' (M + N) \<Longrightarrow> M \<subseteq># all_descs s \<Longrightarrow> set_mset N \<subseteq> {rd, w} \<Longrightarrow>
      on_pipe h' = on_pipe h \<Longrightarrow> acc_ok h' M" for h' M N
    by (rule acc_ok_drop [of h' N M])
      (use cp(2-4) in \<open>auto simp: add.commute dest!: mset_subset_eqD\<close>)
  obtain s1 r1 where a1: "alloc_and_insert_fd_chirho current ?s0 rd None = (s1, r1)"
    by (cases "alloc_and_insert_fd_chirho current ?s0 rd None")
  have st1: "if r1 < 0 then s1 = ?s0 else sys_acc s1 {#w#} \<and> size (all_descs s1) \<le> size (all_descs s) + 2"
    using alloc_insert_acc [OF _ _ a1, of "{#w#}"] acc0 lim all0 by (simp split: if_splits)
  show ?thesis
  proof (cases "r1 < 0")
    case True
    then have "s' = ?s0"
      using r c st1 a1 by (simp add: pipe_common_chirho_def Let_def flip: inh_def h1_def)
    then show ?thesis
      using sep [of h1 "all_descs s" "{#rd, w#}"] acc0 on all0 by (simp add: sys_acc_def)
  next
    case r1: False
    obtain s2 r2 where a2: "alloc_and_insert_fd_chirho current s1 w None = (s2, r2)"
      by (cases "alloc_and_insert_fd_chirho current s1 w None")
    obtain s3 x3 where c3: "close_fd_chirho current s2 (nat r1) = (s3, x3)"
      by (cases "close_fd_chirho current s2 (nat r1)")
    obtain s4 x4 where c4: "close_fd_chirho current s3 (nat r2) = (s4, x4)"
      by (cases "close_fd_chirho current s3 (nat r2)")
    have st2: "if r2 < 0 then s2 = s1 else sys_acc s2 {#}"
      using alloc_insert_acc [OF _ _ a2, of "{#}"] st1 r1 lim by (auto split: if_splits)
    have s': "s' = (if r2 < 0 then s3 else if copy_ok (r1, r2) then s2 else s4)"
      using r c a1 a2 c3 c4 r1
      by (auto simp: pipe_common_chirho_def Let_def simp flip: inh_def h1_def split: if_splits)
    show ?thesis
    proof (cases "r2 < 0")
      case True
      have own0: "current_table_chirho current ?s0 = None \<Longrightarrow> current_pid_chirho current \<le> 1"
        using own current_table_cong [of ?s0 s] by simp
      have "sys_acc s3 {#w#}" using close_fd_acc [OF _ c3] st1 st2 r1 True by simp
      moreover have "all_descs s3 \<subseteq># all_descs s"
        using close_after_alloc [OF all0(2) a1 _ own0] c3 st2 True r1 all0(1) by simp
      moreover have "on_pipe (sys_heap s3) = on_pipe h"
        using on a1 c3 st2 True on_pipe_alloc on_pipe_close by (metis fd_system.select_convs(1)
            fd_system.surjective fd_system.update_convs(1))
      ultimately show ?thesis
        using sep [of "sys_heap s3" "all_descs s3" "{#w#}"] s' True by (simp add: sys_acc_def)
    next
      case False
      then have acc2: "sys_acc s2 {#}" using st2 by simp
      from close_fd_acc [OF this c3] have "sys_acc s3 {#}" by simp
      from close_fd_acc [OF this c4] have "sys_acc s4 {#}" by simp
      then show ?thesis using acc2 s' False by simp
    qed
  qed
qed

section \<open>Reachable descriptor systems\<close>

text \<open>The system at boot: no descriptor anywhere.\<close>

definition fd_boot :: "vfs_heap \<Rightarrow> nat \<Rightarrow> fd_system" where
  "fd_boot h capacity =
     \<lparr>sys_heap = h\<lparr>pipe_reference_invariant_count_chirho := 0\<rparr>, sys_tables = [],
      sys_global = Some (fd_table_new_chirho capacity)\<rparr>"

text \<open>Opening something that is not a pipe: a fresh description of a fresh inode.\<close>

definition fresh_file :: "vfs_heap \<Rightarrow> InodeChirho \<Rightarrow> u32 \<Rightarrow> vfs_heap \<times> nat" where
  "fresh_file h inode flags =
     (h\<lparr>vfs_files := (vfs_files h)(vfs_next_file h :=
          \<lparr>file_inode_chirho = vfs_next_inode h, pos_chirho = 0, file_flags_chirho = flags,
           file_ops_chirho = Ops_Other\<rparr>),
        vfs_inodes := (vfs_inodes h)(vfs_next_inode h := inode\<lparr>fs_data_chirho := Some Fs_Other\<rparr>),
        vfs_next_file := Suc (vfs_next_file h), vfs_next_inode := Suc (vfs_next_inode h)\<rparr>,
      vfs_next_file h)"

text \<open>Applying a table operation to the table of task \<^verbatim>\<open>i\<close>.\<close>

definition put_table :: "fd_system \<Rightarrow> nat \<Rightarrow> vfs_heap \<times> FdTableChirho \<Rightarrow> fd_system" where
  "put_table s i ht = s\<lparr>sys_heap := fst ht, sys_tables := (sys_tables s)[i := Some (snd ht)]\<rparr>"

text \<open>The steps of the system, each by any task with any arguments.  A task
  without a table of its own works on the global table; the code supports that
  for the pids 0 and 1 only, and so do the steps.\<close>

definition owns_table :: "current_task \<Rightarrow> fd_system \<Rightarrow> bool" where
  "owns_table current s \<longleftrightarrow>
     current_table_chirho current s \<noteq> None \<or> current_pid_chirho current \<le> 1"

inductive fd_step :: "fd_system \<Rightarrow> fd_system \<Rightarrow> bool" where
  step_open: "owns_table current s \<Longrightarrow> fresh_file (sys_heap s) inode flags = (h, f) \<Longrightarrow>
     fd_step s (fst (alloc_and_insert_fd_chirho current (s\<lparr>sys_heap := h\<rparr>) f path))"
| step_pipe: "owns_table current s \<Longrightarrow>
     fd_step s (fst (pipe_common_chirho copy_ok current s flags))"
| step_close: "fd_step s (fst (close_fd_chirho current s fd))"
| step_dup2: "fd_step s (fst (dup2_in_current_task_chirho current s old new))"
| step_dup: "current_table_chirho current s = Some (i, t) \<Longrightarrow>
     fd_dup_chirho (sys_heap s) t old = (h, t', r) \<Longrightarrow> fd_step s (put_table s i (h, t'))"
| step_cloexec: "fd_step s (fst (set_fd_cloexec_chirho current s fd enabled))"
| step_exec_cloexec: "current_table_chirho current s = Some (i, t) \<Longrightarrow>
     fd_step s (put_table s i (close_cloexec_fds_chirho (sys_heap s) t))"
| step_exec_pipes: "current_table_chirho current s = Some (i, t) \<Longrightarrow>
     fd_step s (put_table s i (close_non_stdio_pipes_chirho (sys_heap s) t))"
| step_clear_cloexec: "current_table_chirho current s = Some (i, t) \<Longrightarrow>
     fd_step s (put_table s i (sys_heap s, clear_all_cloexec_flags_chirho t))"
| step_fork: "current_table_chirho current s = Some (i, t) \<Longrightarrow>
     clone_table_chirho (sys_heap s) t = (h, t') \<Longrightarrow>
     fd_step s (s\<lparr>sys_heap := h, sys_tables := sys_tables s @ [Some t']\<rparr>)"
| step_exit: "current_table_chirho current s = Some (i, t) \<Longrightarrow>
     retire_all_descriptors_chirho (sys_heap s) t = (h, t') \<Longrightarrow>
     fd_step s (s\<lparr>sys_heap := h, sys_tables := (sys_tables s)[i := None]\<rparr>)"
| step_spawn: "fd_step s (s\<lparr>sys_tables := sys_tables s @ [Some (fd_table_new_chirho capacity)]\<rparr>)"
| step_drain: "pipe_drain_chirho n (vfs_pipes (sys_heap s) p) = (pipe, out) \<Longrightarrow>
     fd_step s (s\<lparr>sys_heap := (sys_heap s)\<lparr>vfs_pipes := (vfs_pipes (sys_heap s))(p := pipe)\<rparr>\<rparr>)"
| step_write: "pipe_write_chirho buf side (vfs_pipes (sys_heap s) p) = (pipe, sig, r) \<Longrightarrow>
     fd_step s (s\<lparr>sys_heap := (sys_heap s)\<lparr>vfs_pipes := (vfs_pipes (sys_heap s))(p := pipe)\<rparr>\<rparr>)"

text \<open>Executions in which the number of live descriptors stays below half the
  range of the 32-bit counts.\<close>

inductive fd_reach :: "fd_system \<Rightarrow> bool" where
  reach_boot: "fd_reach (fd_boot h capacity)"
| reach_step: "fd_reach s \<Longrightarrow> fd_step s s' \<Longrightarrow>
     2 * size (all_descs s) + 6 < PIPE_DESCRIPTOR_LIMIT \<Longrightarrow> fd_reach s'"

lemma descs_new [simp]: "descs (fd_table_new_chirho n) = {#}" "fd_table_wf (fd_table_new_chirho n)"
proof -
  show "descs (fd_table_new_chirho n) = {#}"
    by (induction n) (simp_all add: descs_def fd_table_new_chirho_def)
  show "fd_table_wf (fd_table_new_chirho n)"
    by (simp add: fd_table_new_chirho_def fd_table_wf_def)
qed

lemma put_table_acc:
  assumes acc: "sys_acc s {#}" and cur: "current_table_chirho current s = Some (i, t)"
    and keeps: "\<And>R. acc_ok (sys_heap s) (descs t + R) \<Longrightarrow> fd_table_wf t \<Longrightarrow>
      size (descs t + R) \<le> size (all_descs s) \<Longrightarrow>
      acc_ok (fst ht) (descs (snd ht) + R) \<and> fd_table_wf (snd ht)"
  shows "sys_acc (put_table s i ht) {#}"
proof -
  have wf: "sys_wf s" using acc by (simp add: sys_acc_def)
  obtain R where R: "all_descs s = descs t + R" "fd_table_wf t"
    "all_descs (put_table s i ht) = descs (snd ht) + R"
    "fd_table_wf (snd ht) \<Longrightarrow> sys_wf (put_table s i ht)"
    using focus_table [OF cur wf] unfolding put_table_def by metis
  have "sys_heap (put_table s i ht) = fst ht" by (simp add: put_table_def)
  then show ?thesis using acc R keeps [of R] by (simp add: sys_acc_def)
qed

lemma fresh_file_acc:
  assumes ok: "acc_ok h M" and c: "fresh_file h inode flags = (h1, f)"
  shows "acc_ok h1 (add_mset f M)"
proof -
  have old: "pipe_endpoint_reference_chirho h1 g = pipe_endpoint_reference_chirho h g \<and> file_live h1 g"
    if "g \<in># M" for g
  proof -
    have lv: "file_live h g" using that ok by (simp add: acc_ok_def)
    have "vfs_files h1 g = vfs_files h g"
      "vfs_inodes h1 (file_inode_chirho (vfs_files h g)) = vfs_inodes h (file_inode_chirho (vfs_files h g))"
      "vfs_next_file h1 > g" "vfs_next_inode h1 > vfs_next_inode h" "vfs_next_pipe h1 = vfs_next_pipe h"
      using lv c by (auto simp: file_live_def fresh_file_def)
    then show ?thesis
      using lv by (auto simp: file_live_def pipe_endpoint_reference_chirho_def)
  qed
  have none: "pipe_endpoint_reference_chirho h1 f = None" "file_live h1 f"
    using c by (auto simp: fresh_file_def pipe_endpoint_reference_chirho_def Let_def file_live_def
        split: option.splits)
  have same: "reads_from h1 p g = reads_from h p g" "writes_to h1 p g = writes_to h p g"
    "on_pipe h1 p g = on_pipe h p g" if "g \<in># M" for g p
    using old [OF that] by (auto simp: reads_from_def writes_to_def on_pipe_def)
  have counts: "nreaders h1 p (add_mset f M) = nreaders h p M"
    "nwriters h1 p (add_mset f M) = nwriters h p M" for p
    using same endpoint_pred_None [OF none(1)]
    by (simp_all add: nreaders_def nwriters_def cong: filter_mset_cong)
  have h1: "vfs_pipes h1 = vfs_pipes h"
    "pipe_reference_invariant_count_chirho h1 = pipe_reference_invariant_count_chirho h"
    using c by (auto simp: fresh_file_def)
  show ?thesis
    using ok old none(2) h1 counts same endpoint_pred_None(3) [OF none(1)] unfolding acc_ok_def
    by auto
qed

lemma acc_ok_pipe_io:
  assumes "acc_ok h M" and "readers_chirho q = readers_chirho (vfs_pipes h p)"
    and "writers_chirho q = writers_chirho (vfs_pipes h p)"
    and "closed_read_chirho q = closed_read_chirho (vfs_pipes h p)"
    and "closed_write_chirho q = closed_write_chirho (vfs_pipes h p)"
  shows "acc_ok (h\<lparr>vfs_pipes := (vfs_pipes h)(p := q)\<rparr>) M"
  using assms by (auto simp: acc_ok_def pipe_ok_def)

lemma close_each_keeps:
  assumes "acc_ok h (descs t + R)" and "fd_table_wf t"
  shows "acc_ok (fst (close_each_chirho guard fds h t)) (descs (snd (close_each_chirho guard fds h t)) + R)"
    "fd_table_wf (snd (close_each_chirho guard fds h t))"
  using close_each_acc [OF assms, of guard fds] by (cases "close_each_chirho guard fds h t"; simp)+

text \<open>The slots after a closing loop, when the guard of a slot does not depend on
  other slots.\<close>

lemma fd_close_slots:
  assumes "fd_close_chirho h t g = (h', t', r)"
  shows "fds_chirho t' = (fds_chirho t)[g := None]"
    "j \<noteq> g \<Longrightarrow> get_opt (cloexec_chirho t') j = get_opt (cloexec_chirho t) j"
proof -
  show "fds_chirho t' = (fds_chirho t)[g := None]"
    using assms
    by (auto simp: fd_close_chirho_def get_opt_def split: option.splits if_splits)
      (metis list_update_beyond linorder_not_less list_update_id)+
  show "j \<noteq> g \<Longrightarrow> get_opt (cloexec_chirho t') j = get_opt (cloexec_chirho t) j"
    using assms by (auto simp: fd_close_chirho_def split: option.splits)
qed

lemma close_each_slots:
  assumes local: "\<And>h t fd g h' t' r. fd \<noteq> g \<Longrightarrow> fd_close_chirho h t g = (h', t', r) \<Longrightarrow>
      guard h' t' fd = guard h t fd"
    and "distinct fds" and "close_each_chirho guard fds h t = (h', t')"
  shows "length (fds_chirho t') = length (fds_chirho t) \<and>
    (\<forall>j<length (fds_chirho t). fds_chirho t' ! j =
      (if j \<in> set fds \<and> guard h t j then None else fds_chirho t ! j))"
  using assms(2,3)
proof (induction fds arbitrary: h t)
  case Nil
  then show ?case by simp
next
  case (Cons fd fds)
  obtain h1 t1 r where c: "fd_close_chirho h t fd = (h1, t1, r)"
    by (cases "fd_close_chirho h t fd")
  show ?case
  proof (cases "guard h t fd")
    case False
    then show ?thesis using Cons.IH [of h t] Cons.prems by auto
  next
    case True
    have "guard h1 t1 j = guard h t j" if "j \<in> set fds" for j
      using local [OF _ c, of j] that Cons.prems(1) by auto
    then show ?thesis
      using Cons.IH [of h1 t1] Cons.prems True c fd_close_slots(1) [OF c]
      by (auto simp: nth_update_in)
  qed
qed

lemma retire_all_slots:
  assumes "retire_all_descriptors_chirho h t = (h', t')"
  shows "fds_chirho t' = replicate (length (fds_chirho t)) None"
proof -
  have local: "(fds_chirho t' ! fd \<noteq> None) = (fds_chirho t ! fd \<noteq> None)"
    if "fd \<noteq> g" "fd_close_chirho h t g = (h', t', r)" for h t fd g h' t' r
    using fd_close_slots(1) [OF that(2)] that(1) by simp
  have "length (fds_chirho t') = length (fds_chirho t) \<and>
    (\<forall>j<length (fds_chirho t). fds_chirho t' ! j =
      (if j \<in> set [0 ..< length (fds_chirho t)] \<and> fds_chirho t ! j \<noteq> None then None
       else fds_chirho t ! j))"
    by (rule close_each_slots [OF local _ assms [unfolded retire_all_descriptors_chirho_def]]) auto
  then show ?thesis by (intro nth_equalityI) auto
qed

lemma descs_none: "fds_chirho t = replicate n None \<Longrightarrow> descs t = {#}"
  using descs_new(1) [of n] descs_cong [of t "fd_table_new_chirho n"]
  by (simp add: fd_table_new_chirho_def)

lemma set_fd_cloexec_acc:
  assumes acc: "sys_acc s P" shows "sys_acc (fst (set_fd_cloexec_chirho current s fd enabled)) P"
proof -
  have set: "descs (fst (set_cloexec_chirho t fd enabled)) = descs t"
    "fd_table_wf t \<Longrightarrow> fd_table_wf (fst (set_cloexec_chirho t fd enabled))" for t
    by (auto simp: set_cloexec_chirho_def fd_table_wf_def intro: descs_cong)
  have global: "sys_acc (s1\<lparr>sys_global := Some (fst (set_cloexec_chirho g fd enabled))\<rparr>) P"
    if "sys_acc s1 P" "sys_global s1 = Some g" for s1 g
    using that set [of g] by (auto simp: sys_acc_def all_descs_def sys_wf_def)
  have task: "sys_acc (s\<lparr>sys_tables := (sys_tables s)[i := Some t']\<rparr>) P"
    if cur: "current_table_chirho current s = Some (i, t)"
      and t': "t' = fst (set_cloexec_chirho t fd enabled)" for i t t'
  proof -
    have wf: "sys_wf s" using acc by (simp add: sys_acc_def)
    obtain R where R: "all_descs s = descs t + R" "fd_table_wf t"
      "all_descs (s\<lparr>sys_heap := sys_heap s, sys_tables := (sys_tables s)[i := Some t']\<rparr>) = descs t' + R"
      "fd_table_wf t' \<Longrightarrow>
        sys_wf (s\<lparr>sys_heap := sys_heap s, sys_tables := (sys_tables s)[i := Some t']\<rparr>)"
      using focus_table [OF cur wf] by metis
    then show ?thesis using acc set [of t] t' by (simp add: sys_acc_def)
  qed
  show ?thesis
  proof (cases "current_table_chirho current s")
    case None
    then show ?thesis
      using acc global [OF acc] by (auto simp: set_fd_cloexec_chirho_def split: option.splits)
  next
    case (Some it)
    obtain i t where it: "it = (i, t)" by (cases it)
    obtain t' r where t': "set_cloexec_chirho t fd enabled = (t', r)"
      by (cases "set_cloexec_chirho t fd enabled")
    let ?s1 = "s\<lparr>sys_tables := (sys_tables s)[i := Some t']\<rparr>"
    have s1: "sys_acc ?s1 P" using task [OF Some [unfolded it]] t' by simp
    then show ?thesis
      using acc global [OF s1] Some it t'
      by (auto simp: set_fd_cloexec_chirho_def split: option.splits sum.splits)
  qed
qed

lemma fd_step_acc:
  assumes "fd_step s s'" and acc: "sys_acc s {#}"
    and lim: "2 * size (all_descs s) + 6 < PIPE_DESCRIPTOR_LIMIT"
  shows "sys_acc s' {#}"
  using assms(1)
proof (cases rule: fd_step.cases)
  case (step_open current inode flags h f path)
  have "acc_ok h (add_mset f (all_descs s))"
    using fresh_file_acc [OF _ step_open(3)] acc by (simp add: sys_acc_def)
  then have acc1: "sys_acc (s\<lparr>sys_heap := h\<rparr>) {#f#}"
    using acc by (simp add: sys_acc_def all_descs_def sys_wf_def)
  obtain s1 r where a: "alloc_and_insert_fd_chirho current (s\<lparr>sys_heap := h\<rparr>) f path = (s1, r)"
    by (cases "alloc_and_insert_fd_chirho current (s\<lparr>sys_heap := h\<rparr>) f path")
  have st: "if r < 0 then s1 = s\<lparr>sys_heap := h\<rparr> else sys_acc s1 {#}"
    using alloc_insert_acc [OF _ _ a, of "{#}"] acc1 lim
    by (auto simp: all_descs_def split: if_splits)
  have "\<not> on_pipe h p f" for p
    using step_open(3) by (auto simp: fresh_file_def on_pipe_def reads_from_def writes_to_def
        pipe_endpoint_reference_chirho_def Let_def split: option.splits)
  then have "sys_acc (s\<lparr>sys_heap := h\<rparr>) {#}"
    using acc1 acc_ok_drop [of h "{#f#}" "all_descs s"]
    by (simp add: sys_acc_def all_descs_def)
  then show ?thesis using st a step_open(1) by (auto split: if_splits)
next
  case (step_pipe current copy_ok flags)
  then show ?thesis
    using pipe_common_acc [OF acc, of current copy_ok flags] lim
    by (cases "pipe_common_chirho copy_ok current s flags") (auto simp: owns_table_def)
next
  case (step_close current fd)
  then show ?thesis
    using close_fd_acc [OF acc, of current fd] by (cases "close_fd_chirho current s fd") auto
next
  case (step_dup2 current old new)
  then show ?thesis
    using dup2_current_acc [OF acc, of current old new] lim
    by (cases "dup2_in_current_task_chirho current s old new") auto
next
  case (step_dup current i t old h t' r)
  show ?thesis unfolding step_dup(1)
    by (rule put_table_acc [OF acc step_dup(2)]) (use fd_dup_acc [OF step_dup(3)] lim in auto)
next
  case (step_cloexec current fd enabled)
  then show ?thesis using set_fd_cloexec_acc [OF acc] by simp
next
  case (step_exec_cloexec current i t)
  show ?thesis unfolding step_exec_cloexec(1)
    by (rule put_table_acc [OF acc step_exec_cloexec(2)])
      (simp add: close_cloexec_fds_chirho_def close_each_keeps)
next
  case (step_exec_pipes current i t)
  show ?thesis unfolding step_exec_pipes(1)
    by (rule put_table_acc [OF acc step_exec_pipes(2)])
      (simp add: close_non_stdio_pipes_chirho_def close_each_keeps)
next
  case (step_clear_cloexec current i t)
  show ?thesis unfolding step_clear_cloexec(1)
    by (rule put_table_acc [OF acc step_clear_cloexec(2)])
      (auto simp: clear_all_cloexec_flags_chirho_def fd_table_wf_def descs_def)
next
  case (step_fork current i t h t')
  have wf: "sys_wf s" using acc by (simp add: sys_acc_def)
  obtain R where R: "all_descs s = descs t + R" "fd_table_wf t"
    using focus_table [OF step_fork(2) wf] by metis
  have len: "length (open_files_chirho t) = size (descs t)"
    by (metis mset_open_files size_mset)
  have t': "descs t' = descs t" "fd_table_wf t'"
    "h = fold increment_pipe_descriptor_reference_chirho (open_files_chirho t) (sys_heap s)"
    using step_fork(3) R(2) by (auto simp: clone_table_chirho_def fd_table_wf_def descs_def)
  have "acc_ok h (mset (open_files_chirho t) + all_descs s)"
    unfolding t'(3)
  proof (rule acc.fold_inc_ok)
    show "acc_ok (sys_heap s) (all_descs s)" using acc by (simp add: sys_acc_def)
    show "set (open_files_chirho t) \<subseteq> set_mset (all_descs s)"
      using R(1) by (simp flip: set_mset_mset add: mset_open_files)
    show "size (all_descs s) + length (open_files_chirho t) \<le> PIPE_DESCRIPTOR_LIMIT"
      using lim len R(1) by simp
  qed
  then show ?thesis
    using t' wf unfolding step_fork(1)
    by (auto simp: sys_acc_def all_descs_def sys_wf_def mset_open_files ac_simps)
next
  case (step_exit current i t h t')
  have wf: "sys_wf s" using acc by (simp add: sys_acc_def)
  have i: "i < length (sys_tables s)" "sys_tables s ! i = Some t"
    using step_exit(2) by (auto simp: current_table_chirho_def get_opt_def split: option.splits if_splits)
  obtain Q where Q: "sum_list (map tab_mset (sys_tables s)) = descs t + Q"
    "\<And>y. sum_list (map tab_mset ((sys_tables s)[i := y])) = tab_mset y + Q"
    using sum_list_split_nth [OF i(1), of tab_mset] i(2) by (metis tab_mset.simps(2))
  have "acc_ok (sys_heap s) (descs t + (Q + tab_mset (sys_global s)))" "fd_table_wf t"
    using acc Q(1) i by (auto simp: sys_acc_def all_descs_def sys_wf_def in_set_conv_nth ac_simps)
  from close_each_acc [OF this step_exit(3) [unfolded retire_all_descriptors_chirho_def]]
  have "acc_ok h (Q + tab_mset (sys_global s))"
    using descs_none [OF retire_all_slots [OF step_exit(3)]] by simp
  then show ?thesis
    using wf set_update_subset_insert [of "sys_tables s" i None] Q(2) [of None]
    unfolding step_exit(1) by (auto simp: sys_acc_def all_descs_def sys_wf_def)
next
  case (step_spawn capacity)
  then show ?thesis using acc by (auto simp: sys_acc_def all_descs_def sys_wf_def)
next
  case (step_drain n p pipe out)
  then show ?thesis
    using acc acc_ok_pipe_io [of "sys_heap s" "all_descs s" pipe p]
    by (auto simp: sys_acc_def all_descs_def sys_wf_def pipe_drain_spec)
next
  case (step_write buf side p pipe sig r)
  then show ?thesis
    using acc acc_ok_pipe_io [of "sys_heap s" "all_descs s" pipe p]
    by (auto simp: sys_acc_def all_descs_def sys_wf_def pipe_write_chirho_def pipe_append_spec
        split: pipe_end_chirho.splits if_splits)
qed

lemma fd_reach_acc: "fd_reach s \<Longrightarrow> sys_acc s {#}"
proof (induction rule: fd_reach.induct)
  case (reach_boot h capacity)
  then show ?case by (simp add: sys_acc_def fd_boot_def all_descs_def sys_wf_def acc_ok_def)
next
  case (reach_step s s')
  then show ?case using fd_step_acc by blast
qed

section \<open>Properties\<close>

text \<open>C12. Pipe reference counts are exact across the whole system.  In every
  reachable state (any interleaving of opens, pipe creations, closes, dups,
  forks, execs, exits, reads and writes by any tasks), every pipe that some
  descriptor refers to has as many readers and writers as there are
  descriptors, over all task tables and the global table, that refer to its
  read and write end; a side is marked closed exactly when no such descriptor
  is left; and the kernel never reported an accounting violation.\<close>

theorem pipe_counts_exact:
  assumes "fd_reach s" and "f \<in># all_descs s" and "on_pipe (sys_heap s) p f"
  shows "unat (readers_chirho (vfs_pipes (sys_heap s) p)) = nreaders (sys_heap s) p (all_descs s) \<and>
    unat (writers_chirho (vfs_pipes (sys_heap s) p)) = nwriters (sys_heap s) p (all_descs s) \<and>
    (closed_read_chirho (vfs_pipes (sys_heap s) p) \<longleftrightarrow> nreaders (sys_heap s) p (all_descs s) = 0) \<and>
    (closed_write_chirho (vfs_pipes (sys_heap s) p) \<longleftrightarrow> nwriters (sys_heap s) p (all_descs s) = 0) \<and>
    pipe_reference_invariant_count_chirho (sys_heap s) = 0"
  using fd_reach_acc [OF assms(1)] assms(2,3) by (auto simp: sys_acc_def acc_ok_def pipe_ok_def)

text \<open>C14. End of file and broken pipe.  In a reachable state and for a pipe some descriptor
  refers to: a read of a pipe with data returns the first bytes of it whoever has the
  other end; a read of an empty pipe returns zero bytes at once, whatever other tasks
  do meanwhile, if no descriptor anywhere refers to the write end, and otherwise waits,
  giving up with \<^verbatim>\<open>EAGAIN\<close> after its thousand polls if nothing happens.  A write, whatever
  the pipe holds, is refused with \<^verbatim>\<open>EPIPE\<close> and \<^verbatim>\<open>SIGPIPE\<close> and no effect if no descriptor
  refers to the read end, and otherwise appends all of its bytes.\<close>

theorem end_of_file_iff_no_writer:
  assumes "fd_reach s" and "f \<in># all_descs s" and "on_pipe (sys_heap s) p f"
  defines "q \<equiv> vfs_pipes (sys_heap s) p"
  defines "no_writer \<equiv> \<forall>g\<in>#all_descs s. \<not> writes_to (sys_heap s) p g"
  defines "no_reader \<equiv> \<forall>g\<in>#all_descs s. \<not> reads_from (sys_heap s) p g"
  shows "(pipe_buffer_chirho q \<noteq> [] \<longrightarrow> (\<forall>poll gap. pipe_read_chirho poll gap len PipeReadOpsChirho q =
      (q\<lparr>pipe_buffer_chirho := drop len (pipe_buffer_chirho q)\<rparr>, Inr (take len (pipe_buffer_chirho q))))) \<and>
    (pipe_buffer_chirho q = [] \<and> no_writer \<longrightarrow>
      (\<forall>poll gap. pipe_read_chirho poll gap len PipeReadOpsChirho q = (q, Inr []))) \<and>
    (pipe_buffer_chirho q = [] \<and> \<not> no_writer \<longrightarrow>
      pipe_read_chirho (\<lambda>k q. q) (\<lambda>k q. q) len PipeReadOpsChirho q = (q, Inl (- 11))) \<and>
    pipe_write_chirho buf PipeWriteOpsChirho q =
      (if no_reader then (q, Deliver_Sigpipe, Inl (- EPIPE_CHIRHO))
       else (q\<lparr>pipe_buffer_chirho := pipe_buffer_chirho q @ buf\<rparr>, Wake_Socket_Waiters, Inr (length buf)))"
proof -
  have ok: "pipe_ok (nreaders (sys_heap s) p (all_descs s)) (nwriters (sys_heap s) p (all_descs s)) q"
    using fd_reach_acc [OF assms(1)] assms(2,3) by (auto simp: sys_acc_def acc_ok_def q_def)
  have empty: "size (filter_mset P M) = 0 \<longleftrightarrow> (\<forall>g\<in>#M. \<not> P g)" for P and M :: "nat multiset"
    using size_filter_pos [of _ M P] filter_mset_none [of M P] by fastforce
  have cw: "closed_write_chirho q \<longleftrightarrow> no_writer" and cr: "closed_read_chirho q \<longleftrightarrow> no_reader"
    using ok by (simp_all add: pipe_ok_def nreaders_def nwriters_def empty no_writer_def no_reader_def
        del: size_eq_0_iff_empty)
  have wait: "pipe_wait_chirho (\<lambda>k q. q) (\<lambda>k q. q) len n k q = (q, Inl (- 11))"
    if "pipe_buffer_chirho q = []" "\<not> closed_write_chirho q" for n k
    using that by (induction n arbitrary: k) auto
  show ?thesis
    using wait by (auto simp: pipe_read_chirho_def pipe_write_chirho_def pipe_drain_spec pipe_append_spec
        simp flip: cw cr)
qed

lemma fd_get_update:
  "fds_chirho t' = (fds_chirho t)[i := y] \<Longrightarrow>
   fd_get_chirho t' j = (if j = i \<and> j < length (fds_chirho t) then y else fd_get_chirho t j)"
  by (auto simp: fd_get_chirho_def get_opt_def)

lemma install_duplicate_effect:
  assumes "fd_table_wf t" and "new < length (fds_chirho t)"
    and "install_duplicate_at_chirho h t new f path cx = (h', t', r)"
  shows "r = Inr new \<and> fds_chirho t' = (fds_chirho t)[new := Some f] \<and>
    get_opt (cloexec_chirho t') new = Some cx"
proof (cases "fds_chirho t ! new")
  case None
  then show ?thesis
    using assms by (auto simp: install_duplicate_at_chirho_def fd_table_wf_def get_opt_def Let_def)
next
  case (Some g)
  then obtain h2 t2 where c: "fd_close_chirho (increment_pipe_descriptor_reference_chirho f h) t new =
      (h2, t2, Inr ())" "fds_chirho t2 = (fds_chirho t)[new := None]" "fd_table_wf t2"
    using assms(1,2)
    by (cases rule: fd_close_cases
        [where h = "increment_pipe_descriptor_reference_chirho f h" and t = t and fd = new])
      (auto simp: fd_get_chirho_def get_opt_def)
  then show ?thesis
    using assms Some
    by (auto simp: install_duplicate_at_chirho_def fd_table_wf_def get_opt_def Let_def)
qed

lemma alloc_fd_lowest:
  "alloc_fd_chirho t = Inr fd \<longleftrightarrow>
   fd < length (fds_chirho t) \<and> fds_chirho t ! fd = None \<and> (\<forall>j<fd. fds_chirho t ! j \<noteq> None)"
  using position_Some_iff [of "\<lambda>slot. slot = None" "fds_chirho t" fd]
  by (auto simp: alloc_fd_chirho_def split: option.splits)

text \<open>\<^verbatim>\<open>dup2\<close>.  On a well-formed table, \<^verbatim>\<open>dup2\<close> of an open descriptor to a number in
  range returns that number, makes it refer to the same open file description
  with close-on-exec cleared (unless both numbers are equal, when nothing
  changes), and changes no other descriptor; it fails with \<^verbatim>\<open>EBADF\<close> and no effect
  if the old number is not open, or if the new one is out of range.\<close>

theorem dup2_semantics:
  assumes "fd_table_wf t" and "fd_dup2_chirho h t old new = (h', t', r)"
  shows "if fd_get_chirho t old = None \<or> length (fds_chirho t) \<le> new
    then h' = h \<and> t' = t \<and> r = Inl FD_EBADF_CHIRHO
    else r = Inr new \<and> fd_get_chirho t' new = fd_get_chirho t old \<and>
      (\<forall>j. j \<noteq> new \<longrightarrow> fd_get_chirho t' j = fd_get_chirho t j) \<and>
      (if old = new then h' = h \<and> t' = t else get_cloexec_chirho t' new = Inr False)"
proof (cases "fd_get_chirho t old = None \<or> length (fds_chirho t) \<le> new")
  case True
  then show ?thesis
    using assms(2) by (auto simp: fd_dup2_chirho_def install_duplicate_at_chirho_def fd_get_Some_iff
        split: option.splits)
next
  case False
  then obtain f where f: "fd_get_chirho t old = Some f" "new < length (fds_chirho t)" by auto
  show ?thesis
  proof (cases "old = new")
    case True
    then show ?thesis using assms(2) f by (auto simp: fd_dup2_chirho_def)
  next
    case neq: False
    then have "install_duplicate_at_chirho h t new f (fd_path_chirho t old) False = (h', t', r)"
      using assms(2) f by (simp add: fd_dup2_chirho_def)
    note e = install_duplicate_effect [OF assms(1) f(2) this]
    then show ?thesis
      using False neq f fd_get_update [of t' t new "Some f"]
      by (auto simp: get_cloexec_chirho_def)
  qed
qed

definition demo_heap :: vfs_heap where
  "demo_heap =
     \<lparr>vfs_files = (\<lambda>_. \<lparr>file_inode_chirho = 0, pos_chirho = 0, file_flags_chirho = 0,
                         file_ops_chirho = Ops_Other\<rparr>),
      vfs_inodes = (\<lambda>_. make_pipe_inode_chirho 0), vfs_pipes = (\<lambda>_. pipe_new_chirho),
      vfs_next_file = 0, vfs_next_inode = 0, vfs_next_pipe = 0,
      pipe_ino_counter_chirho = 0x80000000, pipe_reference_invariant_count_chirho = 0\<rparr>"

definition demo_sys :: fd_system where
  "demo_sys =
     fst (pipe_common_chirho (\<lambda>_. True) (Some (0, 5))
       ((fd_boot demo_heap 4)\<lparr>sys_tables := [Some (fd_table_new_chirho 4)]\<rparr>) 0x800)"

lemma demo_sys_reach: "fd_reach demo_sys"
proof -
  have spawn: "fd_reach ((fd_boot demo_heap 4)\<lparr>sys_tables := [Some (fd_table_new_chirho 4)]\<rparr>)"
    by (rule reach_step [OF reach_boot [of demo_heap 4]])
      (use step_spawn [of "fd_boot demo_heap 4" 4] in
        \<open>simp_all add: fd_boot_def all_descs_def PIPE_DESCRIPTOR_LIMIT_def\<close>)
  show ?thesis unfolding demo_sys_def
    by (rule reach_step [OF spawn step_pipe])
      (simp_all add: owns_table_def current_table_chirho_def get_opt_def fd_boot_def all_descs_def
        PIPE_DESCRIPTOR_LIMIT_def)
qed

lemma demo_sys_facts:
  "0 \<in># all_descs demo_sys" "on_pipe (sys_heap demo_sys) 0 0"
  "pipe_buffer_chirho (vfs_pipes (sys_heap demo_sys) 0) = []"
  by code_simp+

theorem pipe_counts_exact_witness:
  "unat (readers_chirho (vfs_pipes (sys_heap demo_sys) 0)) =
     nreaders (sys_heap demo_sys) 0 (all_descs demo_sys)"
  using pipe_counts_exact [OF demo_sys_reach demo_sys_facts(1,2)] by blast

text \<open>The same pipe once its write end and once its read end has been closed.\<close>

lemma demo_close_reach: "fd_reach (fst (close_fd_chirho (Some (0, 5)) demo_sys fd))"
proof (rule reach_step [OF demo_sys_reach step_close])
  have "size (all_descs demo_sys) = 2" by code_simp
  then show "2 * size (all_descs demo_sys) + 6 < PIPE_DESCRIPTOR_LIMIT" by (simp add: PIPE_DESCRIPTOR_LIMIT_def)
qed

lemma demo_closed_facts:
  "0 \<in># all_descs (fst (close_fd_chirho (Some (0, 5)) demo_sys 1))"
  "on_pipe (sys_heap (fst (close_fd_chirho (Some (0, 5)) demo_sys 1))) 0 0"
  "pipe_buffer_chirho (vfs_pipes (sys_heap (fst (close_fd_chirho (Some (0, 5)) demo_sys 1))) 0) = []"
  "\<forall>g\<in>#all_descs (fst (close_fd_chirho (Some (0, 5)) demo_sys 1)).
     \<not> writes_to (sys_heap (fst (close_fd_chirho (Some (0, 5)) demo_sys 1))) 0 g"
  "1 \<in># all_descs (fst (close_fd_chirho (Some (0, 5)) demo_sys 0))"
  "on_pipe (sys_heap (fst (close_fd_chirho (Some (0, 5)) demo_sys 0))) 0 1"
  "\<forall>g\<in>#all_descs (fst (close_fd_chirho (Some (0, 5)) demo_sys 0)).
     \<not> reads_from (sys_heap (fst (close_fd_chirho (Some (0, 5)) demo_sys 0))) 0 g"
  "\<not> (\<forall>g\<in>#all_descs demo_sys. \<not> writes_to (sys_heap demo_sys) 0 g)"
  by code_simp+

theorem end_of_file_iff_no_writer_witness:
  "snd (pipe_read_chirho (\<lambda>k q. q) (\<lambda>k q. q) 8 PipeReadOpsChirho (vfs_pipes (sys_heap demo_sys) 0)) = Inl (- 11) \<and>
   snd (pipe_read_chirho (\<lambda>k q. q) (\<lambda>k q. q) 8 PipeReadOpsChirho
     (vfs_pipes (sys_heap (fst (close_fd_chirho (Some (0, 5)) demo_sys 1))) 0)) = Inr [] \<and>
   snd (pipe_write_chirho [7] PipeWriteOpsChirho
     (vfs_pipes (sys_heap (fst (close_fd_chirho (Some (0, 5)) demo_sys 0))) 0)) = (Deliver_Sigpipe, Inl (- EPIPE_CHIRHO))"
  using end_of_file_iff_no_writer [OF demo_sys_reach demo_sys_facts(1,2), of 8]
    end_of_file_iff_no_writer [OF demo_close_reach demo_closed_facts(1,2), of 8]
    end_of_file_iff_no_writer [OF demo_close_reach demo_closed_facts(5,6), where buf = "[7]"]
    demo_sys_facts(3) demo_closed_facts(3,4,7,8) by simp

definition demo_fd_table :: FdTableChirho where
  "demo_fd_table =
     \<lparr>fds_chirho = [Some 0, None, Some 1], paths_chirho = [None, None, None],
      cloexec_chirho = [True, False, False]\<rparr>"

theorem dup2_semantics_witness:
  "fd_get_chirho (fst (snd (fd_dup2_chirho demo_heap demo_fd_table 0 2))) 2 = Some 0"
proof -
  obtain h' t' r where d: "fd_dup2_chirho demo_heap demo_fd_table 0 2 = (h', t', r)"
    by (cases "fd_dup2_chirho demo_heap demo_fd_table 0 2")
  have f: "fd_table_wf demo_fd_table" "fd_get_chirho demo_fd_table 0 = Some 0"
    "length (fds_chirho demo_fd_table) = 3"
    by (simp_all add: demo_fd_table_def fd_table_wf_def fd_get_chirho_def get_opt_def)
  show ?thesis using dup2_semantics [OF f(1) d] f(2,3) by (simp add: d)
qed

lemma close_cloexec_slots:
  assumes "fd_table_wf t" and "close_cloexec_fds_chirho h t = (h', t')"
  shows "length (fds_chirho t') = length (fds_chirho t) \<and>
    (\<forall>j<length (fds_chirho t). fds_chirho t' ! j =
      (if fds_chirho t ! j \<noteq> None \<and> cloexec_chirho t ! j then None else fds_chirho t ! j))"
proof -
  let ?G = "\<lambda>(h :: vfs_heap) t fd. fds_chirho t ! fd \<noteq> None \<and>
    (case get_opt (cloexec_chirho t) fd of Some b \<Rightarrow> b | None \<Rightarrow> False)"
  have local: "?G h' t' fd = ?G h t fd"
    if "fd \<noteq> g" "fd_close_chirho h t g = (h', t', r)" for h t fd g h' t' r
    using fd_close_slots(1) [OF that(2)] fd_close_slots(2) [OF that(2), of fd] that(1) by simp
  have "length (fds_chirho t') = length (fds_chirho t) \<and>
    (\<forall>j<length (fds_chirho t). fds_chirho t' ! j =
      (if j \<in> set [0 ..< length (fds_chirho t)] \<and> ?G h t j then None else fds_chirho t ! j))"
    by (rule close_each_slots [OF local _ assms(2) [unfolded close_cloexec_fds_chirho_def]]) auto
  then show ?thesis using assms(1) by (auto simp: fd_table_wf_def get_opt_def)
qed

text \<open>Exec closes exactly the close-on-exec descriptors: after
  \<^verbatim>\<open>close_cloexec_fds_chirho\<close> a number is open if and only if it was open with
  close-on-exec clear, and then it refers to the same file.\<close>

theorem exec_closes_cloexec:
  assumes "fd_table_wf t" and "close_cloexec_fds_chirho h t = (h', t')"
  shows "fd_get_chirho t' j = (if get_cloexec_chirho t j = Inr True then None else fd_get_chirho t j)"
  using close_cloexec_slots [OF assms] assms(1)
  by (cases "j < length (fds_chirho t)")
    (auto simp: get_cloexec_chirho_def fd_get_chirho_def get_opt_def fd_table_wf_def)

theorem exec_closes_cloexec_witness:
  "fd_get_chirho (snd (close_cloexec_fds_chirho demo_heap demo_fd_table)) 0 = None \<and>
   fd_get_chirho (snd (close_cloexec_fds_chirho demo_heap demo_fd_table)) 2 = Some 1"
proof -
  have wf: "fd_table_wf demo_fd_table" by (simp add: demo_fd_table_def fd_table_wf_def)
  have c: "close_cloexec_fds_chirho demo_heap demo_fd_table =
      (fst (close_cloexec_fds_chirho demo_heap demo_fd_table),
       snd (close_cloexec_fds_chirho demo_heap demo_fd_table))" by simp
  show ?thesis
    using exec_closes_cloexec [OF wf c, of 0] exec_closes_cloexec [OF wf c, of 2]
    by (simp add: demo_fd_table_def get_cloexec_chirho_def fd_get_chirho_def get_opt_def)
qed

end
