(* ===== verification/Vma.thy ===== *)
theory Vma
  imports Rust_Prelude
begin

text \<open>
  Virtual memory areas (\<^verbatim>\<open>mm_chirho/mmap_chirho.rs\<close>): the list of areas of an
  address space and the operations \<^verbatim>\<open>mmap\<close>, \<^verbatim>\<open>munmap\<close> and \<^verbatim>\<open>mprotect\<close> on it.  The page
  tables are another component: what these operations ask of them is returned
  as a list of actions, and what they answer (is a page present, did mapping
  succeed) is a parameter.  The abstract view of the list is the function from
  addresses to protection and flags.
\<close>

section \<open>Data\<close>

definition PROT_NONE_CHIRHO :: u32 where "PROT_NONE_CHIRHO = 0"
definition PROT_READ_CHIRHO :: u32 where "PROT_READ_CHIRHO = 1"
definition PROT_WRITE_CHIRHO :: u32 where "PROT_WRITE_CHIRHO = 2"
definition PROT_EXEC_CHIRHO :: u32 where "PROT_EXEC_CHIRHO = 4"
definition MAP_FIXED_CHIRHO :: u32 where "MAP_FIXED_CHIRHO = 0x10"
definition MAP_ANONYMOUS_CHIRHO :: u32 where "MAP_ANONYMOUS_CHIRHO = 0x20"
definition MMAP_BASE_ADDR_CHIRHO :: u64 where "MMAP_BASE_ADDR_CHIRHO = 0x7F0000000000"
definition PAGE_SIZE_CHIRHO :: u64 where "PAGE_SIZE_CHIRHO = 4096"

datatype MappingKindChirho = AnonymousChirho | FileBackedChirho | FramebufferChirho

record VmaChirho =
  vma_start_chirho :: u64
  vma_end_chirho :: u64
  vma_prot_chirho :: u32
  vma_flags_chirho :: u32

record MmChirho =
  vmas_chirho :: "VmaChirho list"
  brk_chirho :: u64
  brk_start_chirho :: u64
  next_mmap_addr_chirho :: u64

definition vma_size_chirho :: "VmaChirho \<Rightarrow> u64" where
  "vma_size_chirho v = vma_end_chirho v - vma_start_chirho v"

definition overlaps_chirho :: "VmaChirho \<Rightarrow> u64 \<Rightarrow> u64 \<Rightarrow> bool" where
  "overlaps_chirho v start len =
     (let stop = start + len in vma_start_chirho v < stop \<and> start < vma_end_chirho v)"

definition contains_range_chirho :: "VmaChirho \<Rightarrow> u64 \<Rightarrow> u64 \<Rightarrow> bool" where
  "contains_range_chirho v start len =
     (start \<ge> vma_start_chirho v \<and> start + len \<le> vma_end_chirho v)"

definition align_up_page_chirho :: "u64 \<Rightarrow> u64" where
  "align_up_page_chirho val = (val + PAGE_SIZE_CHIRHO - 1) AND NOT (PAGE_SIZE_CHIRHO - 1)"

definition mm_new_chirho :: MmChirho where
  "mm_new_chirho =
     \<lparr>vmas_chirho = [], brk_chirho = 0, brk_start_chirho = 0,
      next_mmap_addr_chirho = MMAP_BASE_ADDR_CHIRHO\<rparr>"

section \<open>Operations on the list of areas\<close>

definition insert_vma_chirho :: "VmaChirho \<Rightarrow> VmaChirho list \<Rightarrow> VmaChirho list" where
  "insert_vma_chirho v vs =
     (let pos = (case position (\<lambda>e. vma_start_chirho e > vma_start_chirho v) vs of
                   Some i \<Rightarrow> i
                 | None \<Rightarrow> length vs)
      in insert_at pos v vs)"

text \<open>What is left of one area when \<open>[addr, stop)\<close> is removed.\<close>

definition cut_vma_chirho :: "u64 \<Rightarrow> u64 \<Rightarrow> VmaChirho \<Rightarrow> VmaChirho list" where
  "cut_vma_chirho addr stop v =
     (if vma_end_chirho v \<le> addr \<or> vma_start_chirho v \<ge> stop then [v]
      else (if vma_start_chirho v < addr then [v\<lparr>vma_end_chirho := addr\<rparr>] else []) @
           (if vma_end_chirho v > stop then [v\<lparr>vma_start_chirho := stop\<rparr>] else []))"

definition remove_overlapping_vmas_chirho :: "u64 \<Rightarrow> u64 \<Rightarrow> VmaChirho list \<Rightarrow> VmaChirho list" where
  "remove_overlapping_vmas_chirho addr len vs = concat (map (cut_vma_chirho addr (addr + len)) vs)"

definition is_region_free_chirho :: "VmaChirho list \<Rightarrow> u64 \<Rightarrow> u64 \<Rightarrow> bool" where
  "is_region_free_chirho vs addr len = (\<not> (\<exists>v\<in>set vs. overlaps_chirho v addr len))"

definition is_in_vma_chirho :: "VmaChirho list \<Rightarrow> u64 \<Rightarrow> bool" where
  "is_in_vma_chirho vs addr = (\<exists>v\<in>set vs. vma_start_chirho v \<le> addr \<and> addr < vma_end_chirho v)"

definition is_prot_none_chirho :: "VmaChirho list \<Rightarrow> u64 \<Rightarrow> bool" where
  "is_prot_none_chirho vs addr =
     (\<exists>v\<in>set vs. vma_start_chirho v \<le> addr \<and> addr < vma_end_chirho v \<and>
        vma_prot_chirho v = PROT_NONE_CHIRHO)"

text \<open>The cursor walk of \<^verbatim>\<open>is_region_mapped_chirho\<close>: the cursor only grows.\<close>

definition covering :: "VmaChirho list \<Rightarrow> u64 \<Rightarrow> VmaChirho option" where
  "covering vs a = find (\<lambda>v. vma_start_chirho v \<le> a \<and> a < vma_end_chirho v) vs"

lemma covering_Some:
  "covering vs a = Some v \<Longrightarrow> v \<in> set vs \<and> vma_start_chirho v \<le> a \<and> a < vma_end_chirho v"
  by (auto simp: covering_def find_Some_iff)

function region_walk_chirho :: "VmaChirho list \<Rightarrow> u64 \<Rightarrow> u64 \<Rightarrow> bool" where
  "region_walk_chirho vs cursor stop =
     (if cursor < stop then
        (case covering vs cursor of
           Some v \<Rightarrow> region_walk_chirho vs (vma_end_chirho v) stop
         | None \<Rightarrow> False)
      else True)"
  by pat_completeness auto
termination
  by (relation "measure (\<lambda>(vs, cursor, stop). unat stop - unat cursor)")
    (auto simp: word_less_nat_alt dest!: covering_Some)

definition is_region_mapped_chirho :: "VmaChirho list \<Rightarrow> u64 \<Rightarrow> u64 \<Rightarrow> bool" where
  "is_region_mapped_chirho vs addr len = region_walk_chirho vs addr (addr + len)"

text \<open>The retry loop of the address allocator, \<^verbatim>\<open>n\<close> retries left.\<close>

definition conflict_starts :: "VmaChirho list \<Rightarrow> u64 \<Rightarrow> u64 \<Rightarrow> u64 list" where
  "conflict_starts vs candidate len =
     map vma_start_chirho
       (filter (\<lambda>v. candidate < vma_end_chirho v \<and> candidate + len > vma_start_chirho v) vs)"

definition page_down_chirho :: "u64 \<Rightarrow> u64" where
  "page_down_chirho a = a AND NOT (PAGE_SIZE_CHIRHO - 1)"

fun mmap_retry_chirho :: "VmaChirho list \<Rightarrow> u64 \<Rightarrow> nat \<Rightarrow> u64 \<Rightarrow> i64 + u64" where
  "mmap_retry_chirho vs len 0 candidate = Inr candidate"
| "mmap_retry_chirho vs len (Suc n) candidate =
     (case conflict_starts vs candidate len of
        [] \<Rightarrow> Inr candidate
      | c # cs \<Rightarrow>
          let conflict = foldl min c cs in
          if conflict < len then Inl (- ENOMEM_CHIRHO)
          else
            let candidate' = page_down_chirho (conflict - len) in
            if candidate' = 0 then Inl (- ENOMEM_CHIRHO)
            else mmap_retry_chirho vs len n candidate')"

definition allocate_mmap_addr_chirho :: "MmChirho \<Rightarrow> u64 \<Rightarrow> MmChirho \<times> (i64 + u64)" where
  "allocate_mmap_addr_chirho mm len =
     (let guarded = len + 16 * PAGE_SIZE_CHIRHO in
      if next_mmap_addr_chirho mm < guarded then (mm, Inl (- ENOMEM_CHIRHO))
      else
        let addr = page_down_chirho (next_mmap_addr_chirho mm - guarded) in
        if addr = 0 then (mm, Inl (- ENOMEM_CHIRHO))
        else
          (case mmap_retry_chirho (vmas_chirho mm) len 64 addr of
             Inl e \<Rightarrow> (mm, Inl e)
           | Inr candidate \<Rightarrow> (mm\<lparr>next_mmap_addr_chirho := candidate\<rparr>, Inr candidate)))"

text \<open>One area when the protection of \<open>[start, stop)\<close> changes.\<close>

definition reprotect_vma_chirho :: "u64 \<Rightarrow> u64 \<Rightarrow> u32 \<Rightarrow> VmaChirho \<Rightarrow> VmaChirho list" where
  "reprotect_vma_chirho start stop prot v =
     (if vma_end_chirho v \<le> start \<or> vma_start_chirho v \<ge> stop then [v]
      else (if vma_start_chirho v < start then [v\<lparr>vma_end_chirho := start\<rparr>] else []) @
           [\<lparr>vma_start_chirho = (if vma_start_chirho v > start then vma_start_chirho v else start),
             vma_end_chirho = (if vma_end_chirho v < stop then vma_end_chirho v else stop),
             vma_prot_chirho = prot, vma_flags_chirho = vma_flags_chirho v\<rparr>] @
           (if vma_end_chirho v > stop then [v\<lparr>vma_start_chirho := stop\<rparr>] else []))"

definition update_vma_prot_chirho :: "u64 \<Rightarrow> u64 \<Rightarrow> u32 \<Rightarrow> VmaChirho list \<Rightarrow> VmaChirho list" where
  "update_vma_prot_chirho start stop prot vs = concat (map (reprotect_vma_chirho start stop prot) vs)"

section \<open>mmap, munmap, mprotect\<close>

datatype pt_action =
    Map_Anonymous u64 u64 u32
  | Map_Framebuffer u64 u64 u64
  | Copy_File_Data u64 u64 int u64
  | Unmap_Pages u64 u64
  | Protect_Pages u64 u64 u32

text \<open>The environment of \<^verbatim>\<open>mmap\<close>: is a descriptor the framebuffer device, the
  framebuffer's physical address, is a page present at an address, and the
  result of mapping anonymous pages.\<close>

record mmap_env =
  is_fb_fd_chirho :: "int \<Rightarrow> bool"
  fb_phys_addr_chirho :: u64
  has_page_chirho :: "u64 \<Rightarrow> bool"
  map_anonymous_result :: "u64 \<Rightarrow> u64 \<Rightarrow> u32 \<Rightarrow> i64 + unit"

definition mapping_kind_chirho :: "mmap_env \<Rightarrow> u32 \<Rightarrow> int \<Rightarrow> MappingKindChirho" where
  "mapping_kind_chirho env flags fd =
     (if flags AND MAP_ANONYMOUS_CHIRHO \<noteq> 0 \<or> fd < 0 then AnonymousChirho
      else if is_fb_fd_chirho env fd then FramebufferChirho
      else FileBackedChirho)"

definition mmap_address_chirho :: "MmChirho \<Rightarrow> u64 \<Rightarrow> u64 \<Rightarrow> u32 \<Rightarrow> MmChirho \<times> (i64 + u64)" where
  "mmap_address_chirho mm addr aligned flags =
     (if flags AND MAP_FIXED_CHIRHO \<noteq> 0 then
        if addr mod PAGE_SIZE_CHIRHO \<noteq> 0 then (mm, Inl (- EINVAL_CHIRHO))
        else (mm\<lparr>vmas_chirho := remove_overlapping_vmas_chirho addr aligned (vmas_chirho mm)\<rparr>, Inr addr)
      else if addr \<noteq> 0 \<and> addr mod PAGE_SIZE_CHIRHO = 0 then
        if is_region_free_chirho (vmas_chirho mm) addr aligned then (mm, Inr addr)
        else allocate_mmap_addr_chirho mm aligned
      else allocate_mmap_addr_chirho mm aligned)"

definition add_vma_chirho :: "MmChirho \<Rightarrow> u64 \<Rightarrow> u64 \<Rightarrow> u32 \<Rightarrow> u32 \<Rightarrow> MmChirho" where
  "add_vma_chirho mm a aligned prot flags =
     mm\<lparr>vmas_chirho := insert_vma_chirho
          \<lparr>vma_start_chirho = a, vma_end_chirho = a + aligned, vma_prot_chirho = prot,
           vma_flags_chirho = flags\<rparr> (vmas_chirho mm)\<rparr>"

definition mmap_chirho ::
  "mmap_env \<Rightarrow> MmChirho \<Rightarrow> u64 \<Rightarrow> u64 \<Rightarrow> u32 \<Rightarrow> u32 \<Rightarrow> int \<Rightarrow> u64 \<Rightarrow>
   MmChirho \<times> pt_action list \<times> (i64 + u64)" where
  "mmap_chirho env mm addr len prot flags fd offset =
     (if len = 0 then (mm, [], Inl (- EINVAL_CHIRHO))
      else
        let kind = mapping_kind_chirho env flags fd;
            aligned = align_up_page_chirho len;
            fixed = (flags AND MAP_FIXED_CHIRHO \<noteq> 0)
        in case mmap_address_chirho mm addr aligned flags of
             (mm1, Inl e) \<Rightarrow> (mm1, [], Inl e)
           | (mm1, Inr a) \<Rightarrow>
               (case kind of
                  FramebufferChirho \<Rightarrow>
                    if fb_phys_addr_chirho env = 0 \<or> fb_phys_addr_chirho env \<ge> push_bit 52 1
                    then (mm1, [], Inr a)
                    else (add_vma_chirho mm1 a aligned prot flags,
                          [Map_Framebuffer a aligned (fb_phys_addr_chirho env)], Inr a)
                | AnonymousChirho \<Rightarrow>
                    if prot = PROT_NONE_CHIRHO then
                      if fixed \<and> has_page_chirho env a then (mm1, [], Inr a)
                      else (add_vma_chirho mm1 a aligned prot flags, [], Inr a)
                    else
                      (case map_anonymous_result env a aligned prot of
                         Inl e \<Rightarrow> (mm1, [Map_Anonymous a aligned prot], Inl e)
                       | Inr _ \<Rightarrow>
                           (add_vma_chirho mm1 a aligned prot flags,
                            [Map_Anonymous a aligned prot], Inr a))
                | FileBackedChirho \<Rightarrow>
                    let pre = (if fixed then [Unmap_Pages a aligned] else []);
                        rwx = PROT_READ_CHIRHO OR PROT_WRITE_CHIRHO OR PROT_EXEC_CHIRHO
                    in case map_anonymous_result env a aligned rwx of
                         Inl e \<Rightarrow> (mm1, pre @ [Map_Anonymous a aligned rwx], Inl e)
                       | Inr _ \<Rightarrow>
                           (add_vma_chirho mm1 a aligned prot flags,
                            pre @ [Map_Anonymous a aligned rwx, Copy_File_Data a aligned fd offset],
                            Inr a)))"

definition munmap_chirho :: "MmChirho \<Rightarrow> u64 \<Rightarrow> u64 \<Rightarrow> MmChirho \<times> pt_action list \<times> (i64 + unit)" where
  "munmap_chirho mm addr len =
     (if addr mod PAGE_SIZE_CHIRHO \<noteq> 0 then (mm, [], Inl (- EINVAL_CHIRHO))
      else if len = 0 then (mm, [], Inl (- EINVAL_CHIRHO))
      else
        let aligned = align_up_page_chirho len in
        (mm\<lparr>vmas_chirho := remove_overlapping_vmas_chirho addr aligned (vmas_chirho mm)\<rparr>,
         [Unmap_Pages addr aligned], Inr ()))"

definition mprotect_chirho ::
  "MmChirho \<Rightarrow> u64 \<Rightarrow> u64 \<Rightarrow> u32 \<Rightarrow> MmChirho \<times> pt_action list \<times> (i64 + unit)" where
  "mprotect_chirho mm addr len prot =
     (if addr mod PAGE_SIZE_CHIRHO \<noteq> 0 then (mm, [], Inl (- EINVAL_CHIRHO))
      else if len = 0 then (mm, [], Inl (- EINVAL_CHIRHO))
      else
        let aligned = align_up_page_chirho len; stop = addr + aligned in
        (mm\<lparr>vmas_chirho := update_vma_prot_chirho addr stop prot (vmas_chirho mm)\<rparr>,
         [Protect_Pages addr aligned prot], Inr ()))"

text \<open>Page-table flags for a protection; the flag bits of the x86-64 page-table
  entry.\<close>

record page_flags =
  pf_present :: bool
  pf_writable :: bool
  pf_user :: bool
  pf_no_execute :: bool

definition prot_to_page_flags_chirho :: "u32 \<Rightarrow> page_flags" where
  "prot_to_page_flags_chirho prot =
     (if prot = PROT_NONE_CHIRHO
      then \<lparr>pf_present = False, pf_writable = False, pf_user = True, pf_no_execute = True\<rparr>
      else \<lparr>pf_present = True, pf_writable = (prot AND PROT_WRITE_CHIRHO \<noteq> 0), pf_user = True,
            pf_no_execute = (prot AND PROT_EXEC_CHIRHO = 0)\<rparr>)"

section \<open>The abstract view\<close>

definition vma_ok :: "VmaChirho \<Rightarrow> bool" where
  "vma_ok v \<longleftrightarrow> vma_start_chirho v < vma_end_chirho v"

text \<open>Non-empty areas in increasing order without overlap.\<close>

definition vmas_wf :: "VmaChirho list \<Rightarrow> bool" where
  "vmas_wf vs \<longleftrightarrow>
     (\<forall>v\<in>set vs. vma_ok v) \<and> sorted_wrt (\<lambda>v w. vma_end_chirho v \<le> vma_start_chirho w) vs"

definition mapping_at :: "VmaChirho list \<Rightarrow> u64 \<Rightarrow> (u32 \<times> u32) option" where
  "mapping_at vs a = map_option (\<lambda>v. (vma_prot_chirho v, vma_flags_chirho v)) (covering vs a)"

definition in_vma :: "VmaChirho \<Rightarrow> u64 \<Rightarrow> bool" where
  "in_vma v a \<longleftrightarrow> vma_start_chirho v \<le> a \<and> a < vma_end_chirho v"

lemma mapping_at_Nil [simp]: "mapping_at [] a = None"
  by (simp add: mapping_at_def covering_def)

lemma mapping_at_Cons [simp]:
  "mapping_at (v # vs) a =
     (if in_vma v a then Some (vma_prot_chirho v, vma_flags_chirho v) else mapping_at vs a)"
  by (simp add: mapping_at_def covering_def in_vma_def)

lemma mapping_at_append:
  "mapping_at (vs @ ws) a = (case mapping_at vs a of None \<Rightarrow> mapping_at ws a | m \<Rightarrow> m)"
  by (induction vs) simp_all

lemma mapping_at_None_iff: "mapping_at vs a = None \<longleftrightarrow> (\<forall>v\<in>set vs. \<not> in_vma v a)"
  by (induction vs) auto

lemma vmas_wf_Nil [simp]: "vmas_wf []"
  by (simp add: vmas_wf_def)

lemma vmas_wf_Cons:
  "vmas_wf (v # vs) \<longleftrightarrow>
     vma_ok v \<and> (\<forall>w\<in>set vs. vma_end_chirho v \<le> vma_start_chirho w) \<and> vmas_wf vs"
  by (auto simp: vmas_wf_def)

lemma vmas_wf_append:
  "vmas_wf (vs @ ws) \<longleftrightarrow>
     vmas_wf vs \<and> vmas_wf ws \<and>
     (\<forall>v\<in>set vs. \<forall>w\<in>set ws. vma_end_chirho v \<le> vma_start_chirho w)"
  by (auto simp: vmas_wf_def sorted_wrt_append)

section \<open>Rewriting every area in place\<close>

text \<open>An operation that replaces every area by pieces of itself, and what it does
  to the abstract view: the contract of unmapping and of changing protection.\<close>

locale vma_rewrite =
  fixes pieces :: "VmaChirho \<Rightarrow> VmaChirho list"
    and view :: "u64 \<Rightarrow> (u32 \<times> u32) option \<Rightarrow> (u32 \<times> u32) option"
  assumes pieces_wf: "vma_ok v \<Longrightarrow> vmas_wf (pieces v)"
    and pieces_within: "vma_ok v \<Longrightarrow> p \<in> set (pieces v) \<Longrightarrow>
      vma_start_chirho v \<le> vma_start_chirho p \<and> vma_end_chirho p \<le> vma_end_chirho v"
    and pieces_view: "vma_ok v \<Longrightarrow> in_vma v a \<Longrightarrow>
      mapping_at (pieces v) a = view a (Some (vma_prot_chirho v, vma_flags_chirho v))"
    and view_None: "view a None = None"
begin

lemma rewrite_wf: "vmas_wf vs \<Longrightarrow> vmas_wf (concat (map pieces vs))"
proof (induction vs)
  case Nil
  then show ?case by simp
next
  case (Cons v vs)
  have ok: "vma_ok w" if "w \<in> set (v # vs)" for w using Cons.prems that by (auto simp: vmas_wf_def)
  have "vma_end_chirho p \<le> vma_start_chirho q"
    if "p \<in> set (pieces v)" "w \<in> set vs" "q \<in> set (pieces w)" for p q w
  proof -
    have "vma_end_chirho p \<le> vma_end_chirho v" using pieces_within ok that(1) by simp
    also have "\<dots> \<le> vma_start_chirho w" using Cons.prems that(2) by (auto simp: vmas_wf_Cons)
    also have "\<dots> \<le> vma_start_chirho q" using pieces_within ok that(2,3) by simp
    finally show ?thesis .
  qed
  then show ?case
    using Cons pieces_wf ok by (auto simp: vmas_wf_append vmas_wf_Cons)
qed

lemma rewrite_view: "vmas_wf vs \<Longrightarrow> mapping_at (concat (map pieces vs)) a = view a (mapping_at vs a)"
proof (induction vs)
  case Nil
  then show ?case by (simp add: view_None)
next
  case (Cons v vs)
  have v: "vma_ok v" using Cons.prems by (simp add: vmas_wf_Cons)
  have wf: "vmas_wf vs" using Cons.prems by (simp add: vmas_wf_Cons)
  show ?case
  proof (cases "in_vma v a")
    case False
    then have "mapping_at (pieces v) a = None"
      using pieces_within [OF v] unfolding mapping_at_None_iff in_vma_def by fastforce
    then show ?thesis using Cons.IH [OF wf] False by (simp add: mapping_at_append)
  next
    case True
    have later: "mapping_at (concat (map pieces vs)) a = None"
    proof -
      have "\<not> in_vma w a" if "w \<in> set vs" for w
        using True Cons.prems that by (auto simp: vmas_wf_Cons in_vma_def)
      then have "mapping_at vs a = None" by (simp add: mapping_at_None_iff)
      then show ?thesis using Cons.IH [OF wf] view_None by simp
    qed
    show ?thesis
      using pieces_view [OF v True] True later by (simp add: mapping_at_append split: option.splits)
  qed
qed

end

text \<open>Both instances for a range that does not wrap around (and, for changes of
  protection, is not empty).\<close>

interpretation cut: vma_rewrite "\<lambda>v. if a \<le> b then cut_vma_chirho a b v else [v]"
  "\<lambda>x m. if a \<le> x \<and> x < b then None else m"
proof
  fix v :: VmaChirho assume v: "vma_ok v"
  show "vmas_wf (if a \<le> b then cut_vma_chirho a b v else [v])"
    using v by (auto simp: cut_vma_chirho_def vmas_wf_def vma_ok_def)
  show "vma_start_chirho v \<le> vma_start_chirho p \<and> vma_end_chirho p \<le> vma_end_chirho v"
    if "p \<in> set (if a \<le> b then cut_vma_chirho a b v else [v])" for p
    using v that by (auto simp: cut_vma_chirho_def vma_ok_def split: if_splits)
  show "mapping_at (if a \<le> b then cut_vma_chirho a b v else [v]) x =
      (if a \<le> x \<and> x < b then None else Some (vma_prot_chirho v, vma_flags_chirho v))"
    if "in_vma v x" for x
    using v that by (auto simp: cut_vma_chirho_def vma_ok_def in_vma_def split: if_splits)
qed simp_all

interpretation reprotect: vma_rewrite "\<lambda>v. if a < b then reprotect_vma_chirho a b prot v else [v]"
  "\<lambda>x m. if a \<le> x \<and> x < b then map_option (\<lambda>(p, f). (prot, f)) m else m"
proof
  fix v :: VmaChirho assume v: "vma_ok v"
  show "vmas_wf (if a < b then reprotect_vma_chirho a b prot v else [v])"
    using v by (auto simp: reprotect_vma_chirho_def vmas_wf_def vma_ok_def)
  show "vma_start_chirho v \<le> vma_start_chirho p \<and> vma_end_chirho p \<le> vma_end_chirho v"
    if "p \<in> set (if a < b then reprotect_vma_chirho a b prot v else [v])" for p
    using v that by (auto simp: reprotect_vma_chirho_def vma_ok_def split: if_splits)
  show "mapping_at (if a < b then reprotect_vma_chirho a b prot v else [v]) x =
      (if a \<le> x \<and> x < b
       then map_option (\<lambda>(p, f). (prot, f)) (Some (vma_prot_chirho v, vma_flags_chirho v))
       else Some (vma_prot_chirho v, vma_flags_chirho v))"
    if "in_vma v x" for x
    using v that by (auto simp: reprotect_vma_chirho_def vma_ok_def in_vma_def split: if_splits)
qed simp_all

lemma remove_overlapping_spec:
  assumes "vmas_wf vs" and "a \<le> a + len"
  shows "vmas_wf (remove_overlapping_vmas_chirho a len vs)"
    and "mapping_at (remove_overlapping_vmas_chirho a len vs) x =
      (if a \<le> x \<and> x < a + len then None else mapping_at vs x)"
  using cut.rewrite_wf [OF assms(1), of a "a + len"] cut.rewrite_view [OF assms(1), of a "a + len" x]
    assms(2) by (simp_all add: remove_overlapping_vmas_chirho_def)

lemma update_prot_spec:
  assumes "vmas_wf vs" and "a < b"
  shows "vmas_wf (update_vma_prot_chirho a b prot vs)"
    and "mapping_at (update_vma_prot_chirho a b prot vs) x =
      (if a \<le> x \<and> x < b then map_option (\<lambda>(p, f). (prot, f)) (mapping_at vs x)
       else mapping_at vs x)"
  using reprotect.rewrite_wf [OF assms(1), of a b prot]
    reprotect.rewrite_view [OF assms(1), of a b prot x] assms(2)
  by (simp_all add: update_vma_prot_chirho_def)

section \<open>Inserting an area\<close>

lemma insert_vma_split:
  obtains before after where "vs = before @ after" "insert_vma_chirho v vs = before @ v # after"
    "\<forall>w\<in>set before. vma_start_chirho w \<le> vma_start_chirho v"
    "after \<noteq> [] \<Longrightarrow> vma_start_chirho v < vma_start_chirho (hd after)"
proof (cases "position (\<lambda>e. vma_start_chirho e > vma_start_chirho v) vs")
  case None
  then have "insert_vma_chirho v vs = vs @ [v]"
    by (simp add: insert_vma_chirho_def insert_at_def)
  then show ?thesis
    using that [of vs "[]"] None by (auto simp: position_None_iff not_less)
next
  case (Some i)
  then have i: "i < length vs" "vma_start_chirho v < vma_start_chirho (vs ! i)"
    "\<forall>j<i. vma_start_chirho (vs ! j) \<le> vma_start_chirho v"
    by (auto simp: position_Some_iff not_less)
  have "\<forall>w\<in>set (take i vs). vma_start_chirho w \<le> vma_start_chirho v"
    using i(1,3) by (auto simp: in_set_conv_nth)
  moreover have "insert_vma_chirho v vs = take i vs @ v # drop i vs"
    using Some by (simp add: insert_vma_chirho_def insert_at_def)
  ultimately show ?thesis
    using that [of "take i vs" "drop i vs"] i by (simp add: hd_drop_conv_nth)
qed

lemma insert_vma_spec:
  assumes wf: "vmas_wf vs" and v: "vma_ok v"
    and free: "\<forall>w\<in>set vs. vma_end_chirho w \<le> vma_start_chirho v \<or> vma_end_chirho v \<le> vma_start_chirho w"
  shows "vmas_wf (insert_vma_chirho v vs)"
    and "mapping_at (insert_vma_chirho v vs) x =
      (if in_vma v x then Some (vma_prot_chirho v, vma_flags_chirho v) else mapping_at vs x)"
proof -
  obtain bf af where sp: "vs = bf @ af" "insert_vma_chirho v vs = bf @ v # af"
    "\<forall>w\<in>set bf. vma_start_chirho w \<le> vma_start_chirho v"
    "af \<noteq> [] \<Longrightarrow> vma_start_chirho v < vma_start_chirho (hd af)"
    using insert_vma_split [of vs v] by metis
  have ok: "vma_ok w" if "w \<in> set vs" for w using wf that by (simp add: vmas_wf_def)
  have before: "vma_end_chirho w \<le> vma_start_chirho v" if "w \<in> set bf" for w
  proof (rule ccontr)
    assume "\<not> ?thesis"
    then have "vma_end_chirho v \<le> vma_start_chirho w" using free that sp(1) by auto
    also have "\<dots> \<le> vma_start_chirho v" using sp(3) that by blast
    finally show False using v by (simp add: vma_ok_def)
  qed
  have after: "vma_end_chirho v \<le> vma_start_chirho w" if "w \<in> set af" for w
  proof -
    have "vma_start_chirho v < vma_start_chirho w"
    proof (cases "w = hd af")
      case False
      have ne: "af \<noteq> []" using that by auto
      have "vmas_wf (hd af # tl af)" using wf ne unfolding sp(1) by (simp add: vmas_wf_append)
      moreover have "w \<in> set (tl af)" using that False ne by (cases af) auto
      ultimately have "vma_start_chirho (hd af) < vma_start_chirho w"
        by (auto simp: vmas_wf_Cons vma_ok_def intro: order_less_le_trans)
      then show ?thesis using sp(4) [OF ne] by (rule order_less_trans [rotated])
    qed (use that sp(4) in force)
    moreover have "vma_start_chirho w < vma_end_chirho w" using ok that sp(1) by (auto simp: vma_ok_def)
    ultimately have "vma_start_chirho v < vma_end_chirho w" by (rule order_less_trans)
    then have "\<not> vma_end_chirho w \<le> vma_start_chirho v" by simp
    then show ?thesis using free that sp(1) by auto
  qed
  show "vmas_wf (insert_vma_chirho v vs)"
    using wf [unfolded sp(1)] v before after unfolding sp(2)
    by (auto simp: vmas_wf_append vmas_wf_Cons)
  have "mapping_at bf x = None" if "in_vma v x"
    using that before by (fastforce simp: mapping_at_None_iff in_vma_def)
  then show "mapping_at (insert_vma_chirho v vs) x =
      (if in_vma v x then Some (vma_prot_chirho v, vma_flags_chirho v) else mapping_at vs x)"
    unfolding sp(2) unfolding sp(1) by (simp add: mapping_at_append split: option.splits)
qed

section \<open>Choosing an address\<close>

lemma page_mask: "PAGE_SIZE_CHIRHO - 1 = mask 12"
  by (simp add: PAGE_SIZE_CHIRHO_def mask_eq_exp_minus_1)

lemma unat_page_down: "unat (page_down_chirho a) = unat a div 4096 * 4096"
  using unat_and_not_mask [of a 12] by (simp add: page_down_chirho_def page_mask)

lemma page_down_le: "page_down_chirho a \<le> a"
  by (simp add: word_le_nat_alt unat_page_down)

lemma page_down_aligned: "page_down_chirho a mod PAGE_SIZE_CHIRHO = 0"
  by (simp add: word_unat_eq_iff unat_mod unat_page_down PAGE_SIZE_CHIRHO_def)

lemma unat_align_up:
  assumes "unat len < 2 ^ 64 - 4096"
  shows "unat (align_up_page_chirho len) = (unat len + 4095) div 4096 * 4096"
proof -
  have e: "len + PAGE_SIZE_CHIRHO - 1 = len + 4095" by (simp add: PAGE_SIZE_CHIRHO_def)
  have "unat (len + 4095) = unat len + 4095"
    using assms by (subst unat_add_no_wrap) (simp_all add: word_add_less_iff)
  then show ?thesis
    using unat_and_not_mask [of "len + 4095" 12] unfolding align_up_page_chirho_def e page_mask
    by simp
qed

lemma align_up_bounds:
  assumes "0 < unat len" and "unat len < 2 ^ 64 - 4096"
  shows "0 < unat (align_up_page_chirho len)" "unat len \<le> unat (align_up_page_chirho len)"
    "unat (align_up_page_chirho len) < unat len + 4096"
    "unat (align_up_page_chirho len) mod 4096 = 0"
proof -
  have u: "unat (align_up_page_chirho len) = (unat len + 4095) div 4096 * 4096"
    by (rule unat_align_up [OF assms(2)])
  show "unat len \<le> unat (align_up_page_chirho len)" unfolding u by linarith
  then show "0 < unat (align_up_page_chirho len)" using assms(1) by simp
  show "unat (align_up_page_chirho len) < unat len + 4096" unfolding u by linarith
  show "unat (align_up_page_chirho len) mod 4096 = 0" unfolding u by simp
qed

lemma foldl_min:
  fixes c :: "'a::linorder"
  shows "foldl min c cs = Min (set (c # cs))"
proof -
  have "(\<lambda>x s. min s x) = (min :: 'a \<Rightarrow> 'a \<Rightarrow> 'a)" by (intro ext) (rule min.commute)
  then show ?thesis unfolding foldl_conv_fold by (simp only: Min.set_eq_fold)
qed

text \<open>One retry goes below the lowest conflicting area, so it can never conflict
  with an area at or above it again: the conflicts of later rounds start
  strictly below.\<close>

definition conflicts :: "VmaChirho list \<Rightarrow> u64 \<Rightarrow> u64 \<Rightarrow> VmaChirho set" where
  "conflicts vs c len = {v \<in> set vs. c < vma_end_chirho v \<and> c + len > vma_start_chirho v}"

lemma conflict_starts_set: "set (conflict_starts vs c len) = vma_start_chirho ` conflicts vs c len"
  by (auto simp: conflict_starts_def conflicts_def)

lemma retry_next:
  assumes "conflict_starts vs c len = x # xs" and "\<not> foldl min x xs < len"
  defines "d \<equiv> page_down_chirho (foldl min x xs - len)"
  shows "d + len \<le> foldl min x xs" "d \<le> d + len" "unat d + unat len < 2 ^ 64"
    "\<exists>v\<in>conflicts vs c len. vma_start_chirho v = foldl min x xs"
    "\<forall>v\<in>conflicts vs d len. vma_start_chirho v < foldl min x xs"
proof -
  let ?m = "foldl min x xs"
  have dle: "unat d \<le> unat ?m - unat len"
    using page_down_le [of "?m - len"] assms(2)
    by (simp add: d_def word_le_nat_alt unat_sub not_less)
  have lm: "unat len \<le> unat ?m" using assms(2) by (simp add: word_le_nat_alt not_less)
  have m: "unat ?m < 2 ^ 64" using unat_less_pow [of ?m] by simp
  show nw: "unat d + unat len < 2 ^ 64" using dle lm m by linarith
  then have u: "unat (d + len) = unat d + unat len"
    by (subst unat_add_no_wrap) (simp_all add: word_add_less_iff)
  show le: "d + len \<le> ?m" using dle lm by (simp add: word_le_nat_alt u)
  show "d \<le> d + len" by (simp add: word_le_nat_alt u)
  have "?m \<in> set (x # xs)" unfolding foldl_min by (intro Min_in) simp_all
  then show "\<exists>v\<in>conflicts vs c len. vma_start_chirho v = ?m"
    using conflict_starts_set [of vs c len] assms(1) by (metis imageE)
  show "\<forall>v\<in>conflicts vs d len. vma_start_chirho v < ?m"
    using le by (auto simp: conflicts_def intro: order_less_le_trans)
qed

definition starts_below :: "VmaChirho list \<Rightarrow> u64 \<Rightarrow> VmaChirho set" where
  "starts_below vs t = {v \<in> set vs. vma_start_chirho v < t}"

lemma starts_below_finite [simp]: "finite (starts_below vs t)"
  by (simp add: starts_below_def)

lemma retry_free:
  assumes "unat c + unat len < 2 ^ 64" and "card (starts_below vs (c + len)) \<le> n"
    and "mmap_retry_chirho vs len n c = Inr d"
  shows "conflicts vs d len = {} \<and> unat d + unat len < 2 ^ 64 \<and>
    (d = c \<or> d \<noteq> 0 \<and> d mod PAGE_SIZE_CHIRHO = 0)"
  using assms
proof (induction n arbitrary: c)
  case 0
  have "conflicts vs c len \<subseteq> starts_below vs (c + len)" by (auto simp: conflicts_def starts_below_def)
  then show ?case using 0 by auto
next
  case (Suc n)
  show ?case
  proof (cases "conflict_starts vs c len")
    case Nil
    then have "conflicts vs c len = {}" using conflict_starts_set [of vs c len] by simp
    then show ?thesis using Suc.prems Nil by simp
  next
    case (Cons x xs)
    let ?m = "foldl min x xs" and ?d = "page_down_chirho (foldl min x xs - len)"
    have ge: "\<not> ?m < len" and d0: "?d \<noteq> 0" and rec: "mmap_retry_chirho vs len n ?d = Inr d"
      using Suc.prems(3) Cons by (auto simp: Let_def split: if_splits)
    note nx = retry_next [OF Cons ge]
    obtain v where v: "v \<in> conflicts vs c len" "vma_start_chirho v = ?m" using nx(4) by blast
    have sub: "starts_below vs (?d + len) \<subseteq> starts_below vs (c + len) - {v}"
      using nx(1) v by (auto simp: starts_below_def conflicts_def intro: order_less_trans
          order_less_le_trans)
    have mem: "v \<in> starts_below vs (c + len)" using v(1) by (auto simp: conflicts_def starts_below_def)
    have "card (starts_below vs (?d + len)) \<le> card (starts_below vs (c + len) - {v})"
      by (rule card_mono [OF _ sub]) simp
    also have "\<dots> = card (starts_below vs (c + len)) - 1"
      using mem by (simp add: card_Diff_singleton)
    finally have "card (starts_below vs (?d + len)) \<le> n" using Suc.prems(2) by linarith
    from Suc.IH [OF nx(3) this rec] show ?thesis
      using d0 page_down_aligned [of "?m - len"] by metis
  qed
qed

lemma conflicts_region_free:
  "conflicts vs c len = {} \<longleftrightarrow> is_region_free_chirho vs c len"
  by (auto simp: conflicts_def is_region_free_chirho_def overlaps_chirho_def Let_def)

lemma allocate_free:
  assumes "allocate_mmap_addr_chirho mm len = (mm', Inr a)" and "length (vmas_chirho mm) \<le> 64"
    and "unat len < 2 ^ 63"
  shows "is_region_free_chirho (vmas_chirho mm) a len \<and> unat a + unat len < 2 ^ 64 \<and> a \<noteq> 0 \<and>
    a mod PAGE_SIZE_CHIRHO = 0 \<and> vmas_chirho mm' = vmas_chirho mm \<and> next_mmap_addr_chirho mm' = a"
proof -
  let ?g = "len + 16 * PAGE_SIZE_CHIRHO"
  let ?c = "page_down_chirho (next_mmap_addr_chirho mm - ?g)"
  have g: "unat ?g = unat len + 65536"
    using assms(3) by (subst unat_add_no_wrap) (simp_all add: word_add_less_iff PAGE_SIZE_CHIRHO_def)
  have ge: "\<not> next_mmap_addr_chirho mm < ?g" and c0: "?c \<noteq> 0"
    and retry: "mmap_retry_chirho (vmas_chirho mm) len 64 ?c = Inr a"
    and mm': "mm' = mm\<lparr>next_mmap_addr_chirho := a\<rparr>"
    using assms(1) by (auto simp: allocate_mmap_addr_chirho_def Let_def split: if_splits sum.splits)
  have "unat ?c \<le> unat (next_mmap_addr_chirho mm) - unat ?g"
    using page_down_le [of "next_mmap_addr_chirho mm - ?g"] ge
    by (simp add: word_le_nat_alt unat_sub not_less)
  then have nw: "unat ?c + unat len < 2 ^ 64"
    using g ge unat_less_pow [of "next_mmap_addr_chirho mm"] by (simp add: word_less_nat_alt)
  have "card (starts_below (vmas_chirho mm) (?c + len)) \<le> card (set (vmas_chirho mm))"
    by (intro card_mono) (auto simp: starts_below_def)
  also have "\<dots> \<le> 64" using card_length assms(2) order_trans by blast
  finally show ?thesis
    using retry_free [OF nw _ retry] c0 page_down_aligned mm'
    by (auto simp: conflicts_region_free)
qed

section \<open>Properties\<close>

lemma in_range_iff:
  "unat a + unat n < 2 ^ 64 \<Longrightarrow> a \<le> a + n \<and> unat (a + n) = unat a + unat (n :: u64)"
  by (simp add: word_le_nat_alt unat_add_no_wrap word_add_less_iff)

lemma region_free_iff:
  assumes "is_region_free_chirho vs a n" and "v = \<lparr>vma_start_chirho = a, vma_end_chirho = a + n,
    vma_prot_chirho = p, vma_flags_chirho = f\<rparr>"
  shows "\<forall>w\<in>set vs. vma_end_chirho w \<le> vma_start_chirho v \<or> vma_end_chirho v \<le> vma_start_chirho w"
  using assms by (auto simp: is_region_free_chirho_def overlaps_chirho_def Let_def not_less)

lemma free_iff_unmapped:
  assumes "vmas_wf vs" and "a < a + n"
  shows "is_region_free_chirho vs a n \<longleftrightarrow> (\<forall>x. a \<le> x \<and> x < a + n \<longrightarrow> mapping_at vs x = None)"
proof -
  have "overlaps_chirho v a n \<longleftrightarrow> (\<exists>x. a \<le> x \<and> x < a + n \<and> in_vma v x)" if "v \<in> set vs" for v
  proof
    assume "overlaps_chirho v a n"
    then have "a \<le> max a (vma_start_chirho v) \<and> max a (vma_start_chirho v) < a + n \<and>
        in_vma v (max a (vma_start_chirho v))"
      using assms that by (auto simp: overlaps_chirho_def Let_def in_vma_def max_def vmas_wf_def vma_ok_def)
    then show "\<exists>x. a \<le> x \<and> x < a + n \<and> in_vma v x" by blast
  qed (auto simp: overlaps_chirho_def in_vma_def Let_def)
  then show ?thesis by (auto simp: is_region_free_chirho_def mapping_at_None_iff)
qed

lemma add_vma_spec:
  assumes "vmas_wf (vmas_chirho mm)" and "is_region_free_chirho (vmas_chirho mm) a n"
    and "unat a + unat n < 2 ^ 64" and "0 < unat n"
  shows "vmas_wf (vmas_chirho (add_vma_chirho mm a n p f)) \<and>
    mapping_at (vmas_chirho (add_vma_chirho mm a n p f)) x =
      (if a \<le> x \<and> x < a + n then Some (p, f) else mapping_at (vmas_chirho mm) x)"
proof -
  let ?v = "\<lparr>vma_start_chirho = a, vma_end_chirho = a + n, vma_prot_chirho = p, vma_flags_chirho = f\<rparr>"
  have "vma_ok ?v" using in_range_iff [OF assms(3)] assms(4) by (simp add: vma_ok_def word_less_nat_alt)
  from insert_vma_spec [OF assms(1) this region_free_iff [OF assms(2) refl]] show ?thesis
    by (simp add: add_vma_chirho_def in_vma_def)
qed

text \<open>The address an \<^verbatim>\<open>mmap\<close> settles on, with the overlapping areas gone.\<close>

lemma mmap_address_spec:
  assumes wf: "vmas_wf (vmas_chirho mm)" and n: "length (vmas_chirho mm) \<le> 64 \<or> flags AND MAP_FIXED_CHIRHO \<noteq> 0"
    and len: "0 < unat al" "unat al < 2 ^ 63" and hint: "unat addr + unat al < 2 ^ 64"
    and r: "mmap_address_chirho mm addr al flags = (mm1, Inr a)"
  shows "vmas_wf (vmas_chirho mm1) \<and> is_region_free_chirho (vmas_chirho mm1) a al \<and>
    unat a + unat al < 2 ^ 64 \<and>
    (\<forall>x. mapping_at (vmas_chirho mm1) x =
      (if a \<le> x \<and> x < a + al then None else mapping_at (vmas_chirho mm) x)) \<and>
    (flags AND MAP_FIXED_CHIRHO = 0 \<longrightarrow> is_region_free_chirho (vmas_chirho mm) a al) \<and>
    (flags AND MAP_FIXED_CHIRHO \<noteq> 0 \<longrightarrow> a = addr)"
proof -
  have lt: "b < b + al" if "unat b + unat al < 2 ^ 64" for b
    using in_range_iff [OF that] len(1) by (simp add: word_less_nat_alt)
  have keep: ?thesis if "vmas_chirho mm1 = vmas_chirho mm" "is_region_free_chirho (vmas_chirho mm) a al"
    "unat a + unat al < 2 ^ 64" "flags AND MAP_FIXED_CHIRHO = 0"
    using that wf free_iff_unmapped [OF wf lt [OF that(3)]] by auto
  show ?thesis
  proof (cases "flags AND MAP_FIXED_CHIRHO = 0")
    case True
    then have "(mm1 = mm \<and> a = addr \<and> is_region_free_chirho (vmas_chirho mm) addr al) \<or>
        allocate_mmap_addr_chirho mm al = (mm1, Inr a)"
      using r by (auto simp: mmap_address_chirho_def split: if_splits)
    then show ?thesis
    proof
      assume "mm1 = mm \<and> a = addr \<and> is_region_free_chirho (vmas_chirho mm) addr al"
      then show ?thesis using keep hint True by simp
    next
      assume "allocate_mmap_addr_chirho mm al = (mm1, Inr a)"
      from allocate_free [OF this _ len(2)] show ?thesis using keep n True by simp
    qed
  next
    case False
    then have a: "a = addr" and mm1: "vmas_chirho mm1 = remove_overlapping_vmas_chirho addr al (vmas_chirho mm)"
      using r by (auto simp: mmap_address_chirho_def split: if_splits)
    have le: "addr \<le> addr + al" using in_range_iff [OF hint] by simp
    note rm = remove_overlapping_spec [OF wf le]
    have "is_region_free_chirho (vmas_chirho mm1) addr al"
      unfolding mm1 using free_iff_unmapped [OF rm(1) lt [OF hint]] rm(2) by simp
    then show ?thesis using rm a mm1 hint False by simp
  qed
qed

text \<open>C19. What a successful \<^verbatim>\<open>mmap\<close> maps, for well-formed areas, at most 64 of them unless
  \<^verbatim>\<open>MAP_FIXED\<close> is given (the search for a free range gives up after 64 tries), a length
  below \<open>2 ^ 62\<close> and a hint or fixed address whose range does not wrap.  The areas stay
  ordered and disjoint; every address outside the returned range keeps its mapping;
  with \<^verbatim>\<open>MAP_FIXED\<close> the range starts at the address given, and without it the range was
  entirely free before.  Every address of the range has the requested protection and
  flags, with two exceptions in which the code returns success without recording an
  area and nothing is mapped there: a framebuffer whose physical address is not valid,
  and an anonymous fixed \<^verbatim>\<open>PROT_NONE\<close> request on a present page.\<close>

theorem mmap_maps_requested_range:
  assumes "vmas_wf (vmas_chirho mm)" and "length (vmas_chirho mm) \<le> 64 \<or> flags AND MAP_FIXED_CHIRHO \<noteq> 0"
    and "unat len < 2 ^ 62" and "unat addr + unat (align_up_page_chirho len) < 2 ^ 64"
    and "mmap_chirho env mm addr len prot flags fd offset = (mm', acts, Inr a)"
  defines "recorded \<equiv>
    (mapping_kind_chirho env flags fd = FramebufferChirho \<longrightarrow>
      fb_phys_addr_chirho env \<noteq> 0 \<and> fb_phys_addr_chirho env < push_bit 52 1) \<and>
    \<not> (mapping_kind_chirho env flags fd = AnonymousChirho \<and> prot = PROT_NONE_CHIRHO \<and>
      flags AND MAP_FIXED_CHIRHO \<noteq> 0 \<and> has_page_chirho env a)"
  shows "vmas_wf (vmas_chirho mm') \<and>
    mapping_at (vmas_chirho mm') x =
      (if a \<le> x \<and> x < a + align_up_page_chirho len then if recorded then Some (prot, flags) else None
       else mapping_at (vmas_chirho mm) x) \<and>
    (if flags AND MAP_FIXED_CHIRHO = 0
     then a \<le> x \<and> x < a + align_up_page_chirho len \<longrightarrow> mapping_at (vmas_chirho mm) x = None
     else a = addr)"
proof -
  let ?al = "align_up_page_chirho len"
  have "len \<noteq> 0" using assms(5) by (auto simp: mmap_chirho_def)
  then have len: "0 < unat len" "unat len < 2 ^ 64 - 4096"
    using assms(3) by (simp_all add: unat_gt_0)
  have "unat ?al < 2 ^ 62 + 4096" using align_up_bounds(3) [OF len] assms(3) by linarith
  then have al: "0 < unat ?al" "unat ?al < 2 ^ 63" using align_up_bounds(1) [OF len] by simp_all
  obtain mm1 where addr: "mmap_address_chirho mm addr ?al flags = (mm1, Inr a)"
    and mm': "mm' = (if recorded then add_vma_chirho mm1 a ?al prot flags else mm1)"
    using assms(5) \<open>len \<noteq> 0\<close> unfolding recorded_def
    by (auto simp: mmap_chirho_def Let_def not_le leD split: prod.splits sum.splits
        MappingKindChirho.splits if_splits)
  note ad = mmap_address_spec [OF assms(1,2) al assms(4) addr]
  have lt: "a < a + ?al" using in_range_iff ad al(1) by (simp add: word_less_nat_alt)
  show ?thesis
    using add_vma_spec [of mm1 a ?al prot flags x] ad al(1) free_iff_unmapped [OF assms(1) lt]
    by (auto simp: mm')
qed

text \<open>C20. \<^verbatim>\<open>munmap\<close> and \<^verbatim>\<open>mprotect\<close> on the view of the areas as a map from addresses, for a
  length below \<open>2 ^ 64 - 4096\<close> and a range that does not wrap.  A misaligned address or a
  zero length gives \<^verbatim>\<open>EINVAL\<close> without any change.  Otherwise \<^verbatim>\<open>munmap\<close> succeeds, leaves
  nothing mapped in the range rounded up to whole pages (areas that straddle its ends
  are split) and keeps every address outside; and on a range that is mapped throughout
  \<^verbatim>\<open>mprotect\<close> succeeds, gives every address of it the new protection, keeps its flags and
  keeps every address outside.  Both keep the areas ordered and disjoint.\<close>

theorem munmap_mprotect_spec:
  assumes "vmas_wf (vmas_chirho mm)" and "unat len < 2 ^ 64 - 4096"
    and "unat addr + unat (align_up_page_chirho len) < 2 ^ 64"
  shows "if addr mod PAGE_SIZE_CHIRHO \<noteq> 0 \<or> len = 0
    then munmap_chirho mm addr len = (mm, [], Inl (- EINVAL_CHIRHO)) \<and>
      mprotect_chirho mm addr len prot = (mm, [], Inl (- EINVAL_CHIRHO))
    else let stop = addr + align_up_page_chirho len;
        um = vmas_chirho (fst (munmap_chirho mm addr len));
        mp = vmas_chirho (fst (mprotect_chirho mm addr len prot))
      in snd (snd (munmap_chirho mm addr len)) = Inr () \<and> vmas_wf um \<and>
        (\<forall>x. mapping_at um x = (if addr \<le> x \<and> x < stop then None else mapping_at (vmas_chirho mm) x)) \<and>
        ((\<forall>x. addr \<le> x \<and> x < stop \<longrightarrow> mapping_at (vmas_chirho mm) x \<noteq> None) \<longrightarrow>
          snd (snd (mprotect_chirho mm addr len prot)) = Inr () \<and> vmas_wf mp \<and>
          (\<forall>x. mapping_at mp x =
            (if addr \<le> x \<and> x < stop then Some (prot, snd (the (mapping_at (vmas_chirho mm) x)))
             else mapping_at (vmas_chirho mm) x)))"
proof (cases "addr mod PAGE_SIZE_CHIRHO \<noteq> 0 \<or> len = 0")
  case True
  then show ?thesis by (auto simp: munmap_chirho_def mprotect_chirho_def)
next
  case False
  let ?stop = "addr + align_up_page_chirho len"
  have "0 < unat len" using False by (simp add: unat_gt_0)
  then have al: "0 < unat (align_up_page_chirho len)" using align_up_bounds(1) assms(2) by blast
  have le: "addr < ?stop" "addr \<le> ?stop"
    using in_range_iff [OF assms(3)] al by (simp_all add: word_less_nat_alt)
  note rm = remove_overlapping_spec [OF assms(1) le(2)]
  note up = update_prot_spec [OF assms(1) le(1), of prot]
  have "mapping_at (update_vma_prot_chirho addr ?stop prot (vmas_chirho mm)) x =
      (if addr \<le> x \<and> x < ?stop then Some (prot, snd (the (mapping_at (vmas_chirho mm) x)))
       else mapping_at (vmas_chirho mm) x)"
    if "\<forall>x. addr \<le> x \<and> x < ?stop \<longrightarrow> mapping_at (vmas_chirho mm) x \<noteq> None" for x
    using that up by (force split: prod.splits)
  then show ?thesis
    using False rm up by (simp add: munmap_chirho_def mprotect_chirho_def Let_def)
qed

text \<open>Where nothing is mapped in part of the range, \<^verbatim>\<open>mprotect\<close> succeeds all the same; its
  documentation promises \<^verbatim>\<open>ENOMEM\<close> there.\<close>

lemma mprotect_of_unmapped_succeeds:
  assumes "addr mod PAGE_SIZE_CHIRHO = 0" and "len \<noteq> 0"
  shows "snd (snd (mprotect_chirho mm addr len prot)) = Inr ()"
  using assms by (simp add: mprotect_chirho_def Let_def)

definition demo_mm :: MmChirho where
  "demo_mm =
     \<lparr>vmas_chirho = [\<lparr>vma_start_chirho = 0x1000, vma_end_chirho = 0x5000, vma_prot_chirho = 3,
        vma_flags_chirho = 0x22\<rparr>],
      brk_chirho = 0, brk_start_chirho = 0, next_mmap_addr_chirho = 0x100000\<rparr>"

definition demo_env :: mmap_env where
  "demo_env = \<lparr>is_fb_fd_chirho = (\<lambda>_. False), fb_phys_addr_chirho = 0, has_page_chirho = (\<lambda>_. False),
     map_anonymous_result = (\<lambda>_ _ _. Inr ())\<rparr>"

lemma demo_mm_wf: "vmas_wf (vmas_chirho demo_mm)"
  by (simp add: demo_mm_def vmas_wf_def vma_ok_def)

theorem mmap_maps_requested_range_witness:
  "mapping_at (vmas_chirho (fst (mmap_chirho demo_env demo_mm 0x2000 5 1 0x32 (- 1) 0))) 0x2004 =
     Some (1, 0x32)"
proof -
  have m: "mmap_chirho demo_env demo_mm 0x2000 5 1 0x32 (- 1) 0 =
      (fst (mmap_chirho demo_env demo_mm 0x2000 5 1 0x32 (- 1) 0),
       fst (snd (mmap_chirho demo_env demo_mm 0x2000 5 1 0x32 (- 1) 0)), Inr 0x2000)"
    by code_simp
  have al: "align_up_page_chirho 5 = 4096" by (simp add: align_up_page_chirho_def PAGE_SIZE_CHIRHO_def)
  have "length (vmas_chirho demo_mm) \<le> 64 \<or> 0x32 AND MAP_FIXED_CHIRHO \<noteq> 0" by (simp add: demo_mm_def)
  from mmap_maps_requested_range [OF demo_mm_wf this _ _ m, where x = "0x2004"] show ?thesis
    by (simp add: al mapping_kind_chirho_def MAP_ANONYMOUS_CHIRHO_def PROT_NONE_CHIRHO_def)
qed

theorem munmap_mprotect_spec_witness:
  "mapping_at (vmas_chirho (fst (munmap_chirho demo_mm 0x2000 0x1000))) 0x2800 = None \<and>
   mapping_at (vmas_chirho (fst (munmap_chirho demo_mm 0x2000 0x1000))) 0x3000 = Some (3, 0x22) \<and>
   mapping_at (vmas_chirho (fst (mprotect_chirho demo_mm 0x2000 0x1000 1))) 0x2800 = Some (1, 0x22)"
proof -
  have al: "align_up_page_chirho 0x1000 = 0x1000"
    by (simp add: align_up_page_chirho_def PAGE_SIZE_CHIRHO_def)
  have m: "\<forall>x. 0x2000 \<le> x \<and> x < 0x3000 \<longrightarrow> mapping_at (vmas_chirho demo_mm) x = Some (3, 0x22)"
    by (auto simp: demo_mm_def in_vma_def word_le_nat_alt word_less_nat_alt)
  have o: "mapping_at (vmas_chirho demo_mm) 0x3000 = Some (3, 0x22)" by (simp add: demo_mm_def in_vma_def)
  note s = munmap_mprotect_spec [OF demo_mm_wf, where len = "0x1000" and addr = "0x2000" and prot = 1,
      unfolded al Let_def PAGE_SIZE_CHIRHO_def]
  show ?thesis using s m o by simp
qed

text \<open>A fixed reservation can silently unmap.  An anonymous \<^verbatim>\<open>mmap\<close> with \<^verbatim>\<open>MAP_FIXED\<close>
  and \<^verbatim>\<open>PROT_NONE\<close> on a page that is present removes the areas in the range and
  returns success without recording a new one: afterwards no address of the
  range belongs to any area.\<close>

theorem mmap_fixed_none_unmaps:
  assumes "vmas_wf (vmas_chirho mm)" and "len \<noteq> 0" and "addr mod PAGE_SIZE_CHIRHO = 0"
    and "addr \<le> addr + align_up_page_chirho len"
    and "flags AND MAP_FIXED_CHIRHO \<noteq> 0" and "flags AND MAP_ANONYMOUS_CHIRHO \<noteq> 0"
    and "has_page_chirho env addr"
  shows "snd (snd (mmap_chirho env mm addr len PROT_NONE_CHIRHO flags fd offset)) = Inr addr \<and>
    (\<forall>x. addr \<le> x \<and> x < addr + align_up_page_chirho len \<longrightarrow>
      mapping_at (vmas_chirho (fst (mmap_chirho env mm addr len PROT_NONE_CHIRHO flags fd offset))) x = None)"
  using assms remove_overlapping_spec [OF assms(1,4)]
  by (simp add: mmap_chirho_def mmap_address_chirho_def mapping_kind_chirho_def Let_def)

theorem mmap_fixed_none_unmaps_witness:
  "mapping_at (vmas_chirho (fst (mmap_chirho (demo_env\<lparr>has_page_chirho := (\<lambda>_. True)\<rparr>) demo_mm
     0x2000 0x1000 PROT_NONE_CHIRHO 0x30 (- 1) 0))) 0x2000 = None"
proof -
  have al: "align_up_page_chirho 0x1000 = 0x1000"
    by (simp add: align_up_page_chirho_def PAGE_SIZE_CHIRHO_def)
  show ?thesis
    using mmap_fixed_none_unmaps [OF demo_mm_wf, where len = "0x1000" and addr = "0x2000" and flags = "0x30"
        and env = "demo_env\<lparr>has_page_chirho := (\<lambda>_. True)\<rparr>" and fd = "- 1" and offset = 0]
    by (simp add: al PAGE_SIZE_CHIRHO_def MAP_FIXED_CHIRHO_def MAP_ANONYMOUS_CHIRHO_def)
qed

lemma region_walk_spec:
  "region_walk_chirho vs cursor stop \<longleftrightarrow> (\<forall>x. cursor \<le> x \<and> x < stop \<longrightarrow> is_in_vma_chirho vs x)"
proof (induction vs cursor stop rule: region_walk_chirho.induct)
  case (1 vs cursor stop)
  show ?case
  proof (cases "cursor < stop")
    case False
    then show ?thesis by (subst region_walk_chirho.simps) (auto dest: order_le_less_trans)
  next
    case True
    show ?thesis
    proof (cases "covering vs cursor")
      case None
      then have "\<not> is_in_vma_chirho vs cursor"
        by (auto simp: covering_def find_None_iff is_in_vma_chirho_def)
      then show ?thesis using True None by (subst region_walk_chirho.simps) auto
    next
      case (Some v)
      note v = covering_Some [OF Some]
      have "is_in_vma_chirho vs x" if "cursor \<le> x" "x < vma_end_chirho v" for x
        using v that by (auto simp: is_in_vma_chirho_def intro!: bexI [of _ v])
      then have "(\<forall>x. cursor \<le> x \<and> x < stop \<longrightarrow> is_in_vma_chirho vs x) \<longleftrightarrow>
          (\<forall>x. vma_end_chirho v \<le> x \<and> x < stop \<longrightarrow> is_in_vma_chirho vs x)"
        using v by (meson linorder_not_less order_less_imp_le order_trans)
      then show ?thesis using True Some 1 by (subst region_walk_chirho.simps) simp
    qed
  qed
qed

text \<open>The coverage test is exact: \<^verbatim>\<open>is_region_mapped_chirho\<close> terminates for every
  list of areas and returns true if and only if every address of the range lies
  in some area.\<close>

theorem region_mapped_iff_covered:
  "is_region_mapped_chirho vs addr len \<longleftrightarrow>
   (\<forall>x. addr \<le> x \<and> x < addr + len \<longrightarrow> is_in_vma_chirho vs x)"
  unfolding is_region_mapped_chirho_def by (rule region_walk_spec)

theorem region_mapped_iff_covered_witness:
  "is_region_mapped_chirho (vmas_chirho demo_mm) 0x1000 0x4000 \<longleftrightarrow>
   (\<forall>x. 0x1000 \<le> x \<and> x < 0x1000 + 0x4000 \<longrightarrow> is_in_vma_chirho (vmas_chirho demo_mm) x)"
  by (rule region_mapped_iff_covered)

end
