(* ===== verification/Seccomp.thy ===== *)
theory Seccomp
  imports Rust_Prelude
begin

text \<open>
  seccomp-BPF (\<^verbatim>\<open>subsys_chirho/seccomp_chirho.rs\<close>): the classic BPF interpreter run
  at system-call entry, the per-process filter state and the \<^verbatim>\<open>seccomp\<close> system
  call.  User memory is a function from addresses to bytes.  The program
  counter is a natural number: it is below the program length (at most 4096
  after installation) when an instruction adds at most \<open>2 ^ 32\<close> to it, so the
  \<^verbatim>\<open>usize\<close> of the code cannot overflow.
\<close>

section \<open>Constants\<close>

definition SECCOMP_SET_MODE_STRICT_CHIRHO :: u32 where "SECCOMP_SET_MODE_STRICT_CHIRHO = 0"
definition SECCOMP_SET_MODE_FILTER_CHIRHO :: u32 where "SECCOMP_SET_MODE_FILTER_CHIRHO = 1"
definition SECCOMP_GET_ACTION_AVAIL_CHIRHO :: u32 where "SECCOMP_GET_ACTION_AVAIL_CHIRHO = 2"
definition SECCOMP_RET_KILL_PROCESS_CHIRHO :: u32 where "SECCOMP_RET_KILL_PROCESS_CHIRHO = 0x80000000"
definition SECCOMP_RET_KILL_THREAD_CHIRHO :: u32 where "SECCOMP_RET_KILL_THREAD_CHIRHO = 0"
definition SECCOMP_RET_TRAP_CHIRHO :: u32 where "SECCOMP_RET_TRAP_CHIRHO = 0x00030000"
definition SECCOMP_RET_ERRNO_CHIRHO :: u32 where "SECCOMP_RET_ERRNO_CHIRHO = 0x00050000"
definition SECCOMP_RET_ALLOW_CHIRHO :: u32 where "SECCOMP_RET_ALLOW_CHIRHO = 0x7FFF0000"

definition BPF_CLASS_LD_CHIRHO :: u16 where "BPF_CLASS_LD_CHIRHO = 0x00"
definition BPF_CLASS_LDX_CHIRHO :: u16 where "BPF_CLASS_LDX_CHIRHO = 0x01"
definition BPF_CLASS_ST_CHIRHO :: u16 where "BPF_CLASS_ST_CHIRHO = 0x02"
definition BPF_CLASS_STX_CHIRHO :: u16 where "BPF_CLASS_STX_CHIRHO = 0x03"
definition BPF_CLASS_ALU_CHIRHO :: u16 where "BPF_CLASS_ALU_CHIRHO = 0x04"
definition BPF_CLASS_JMP_CHIRHO :: u16 where "BPF_CLASS_JMP_CHIRHO = 0x05"
definition BPF_CLASS_RET_CHIRHO :: u16 where "BPF_CLASS_RET_CHIRHO = 0x06"
definition BPF_CLASS_MISC_CHIRHO :: u16 where "BPF_CLASS_MISC_CHIRHO = 0x07"

definition BPF_SIZE_W_CHIRHO :: u16 where "BPF_SIZE_W_CHIRHO = 0x00"
definition BPF_SIZE_H_CHIRHO :: u16 where "BPF_SIZE_H_CHIRHO = 0x08"
definition BPF_SIZE_B_CHIRHO :: u16 where "BPF_SIZE_B_CHIRHO = 0x10"

definition BPF_MODE_IMM_CHIRHO :: u16 where "BPF_MODE_IMM_CHIRHO = 0x00"
definition BPF_MODE_ABS_CHIRHO :: u16 where "BPF_MODE_ABS_CHIRHO = 0x20"
definition BPF_MODE_IND_CHIRHO :: u16 where "BPF_MODE_IND_CHIRHO = 0x40"
definition BPF_MODE_MEM_CHIRHO :: u16 where "BPF_MODE_MEM_CHIRHO = 0x60"

definition BPF_ALU_ADD_CHIRHO :: u16 where "BPF_ALU_ADD_CHIRHO = 0x00"
definition BPF_ALU_SUB_CHIRHO :: u16 where "BPF_ALU_SUB_CHIRHO = 0x10"
definition BPF_ALU_MUL_CHIRHO :: u16 where "BPF_ALU_MUL_CHIRHO = 0x20"
definition BPF_ALU_DIV_CHIRHO :: u16 where "BPF_ALU_DIV_CHIRHO = 0x30"
definition BPF_ALU_OR_CHIRHO :: u16 where "BPF_ALU_OR_CHIRHO = 0x40"
definition BPF_ALU_AND_CHIRHO :: u16 where "BPF_ALU_AND_CHIRHO = 0x50"
definition BPF_ALU_LSH_CHIRHO :: u16 where "BPF_ALU_LSH_CHIRHO = 0x60"
definition BPF_ALU_RSH_CHIRHO :: u16 where "BPF_ALU_RSH_CHIRHO = 0x70"
definition BPF_ALU_NEG_CHIRHO :: u16 where "BPF_ALU_NEG_CHIRHO = 0x80"
definition BPF_ALU_XOR_CHIRHO :: u16 where "BPF_ALU_XOR_CHIRHO = 0xA0"

definition BPF_SRC_K_CHIRHO :: u16 where "BPF_SRC_K_CHIRHO = 0x00"
definition BPF_SRC_X_CHIRHO :: u16 where "BPF_SRC_X_CHIRHO = 0x08"

definition BPF_JMP_OP_JA_CHIRHO :: u16 where "BPF_JMP_OP_JA_CHIRHO = 0x00"
definition BPF_JMP_JEQ_CHIRHO :: u16 where "BPF_JMP_JEQ_CHIRHO = 0x10"
definition BPF_JMP_JGT_CHIRHO :: u16 where "BPF_JMP_JGT_CHIRHO = 0x20"
definition BPF_JMP_JGE_CHIRHO :: u16 where "BPF_JMP_JGE_CHIRHO = 0x30"
definition BPF_JMP_JSET_CHIRHO :: u16 where "BPF_JMP_JSET_CHIRHO = 0x40"

definition BPF_MISC_TAX_CHIRHO :: u16 where "BPF_MISC_TAX_CHIRHO = 0x00"
definition BPF_MISC_TXA_CHIRHO :: u16 where "BPF_MISC_TXA_CHIRHO = 0x80"

definition BPF_LD_W_ABS_CHIRHO :: u16 where
  "BPF_LD_W_ABS_CHIRHO = BPF_CLASS_LD_CHIRHO OR BPF_SIZE_W_CHIRHO OR BPF_MODE_ABS_CHIRHO"
definition BPF_JMP_JEQ_K_CHIRHO :: u16 where
  "BPF_JMP_JEQ_K_CHIRHO = BPF_CLASS_JMP_CHIRHO OR BPF_JMP_JEQ_CHIRHO OR BPF_SRC_K_CHIRHO"
definition BPF_JMP_JA_CHIRHO :: u16 where
  "BPF_JMP_JA_CHIRHO = BPF_CLASS_JMP_CHIRHO OR BPF_JMP_OP_JA_CHIRHO"
definition BPF_RET_K_CHIRHO :: u16 where
  "BPF_RET_K_CHIRHO = BPF_CLASS_RET_CHIRHO OR BPF_SRC_K_CHIRHO"

definition AUDIT_ARCH_X86_64_CHIRHO :: u32 where "AUDIT_ARCH_X86_64_CHIRHO = 0xC000003E"
definition SECCOMP_DATA_SIZE_CHIRHO :: nat where "SECCOMP_DATA_SIZE_CHIRHO = 64"
definition BPF_MEMWORDS_CHIRHO :: nat where "BPF_MEMWORDS_CHIRHO = 16"

section \<open>Instructions and data\<close>

record BpfInsnChirho =
  code_chirho :: u16
  jt_chirho :: u8
  jf_chirho :: u8
  k_chirho :: u32

record SeccompDataChirho =
  nr_chirho :: u32
  arch_chirho :: u32
  instruction_pointer_chirho :: u64
  args_chirho :: "u64 list"

text \<open>The structure as the raw bytes the interpreter reads.\<close>

definition seccomp_data_bytes :: "SeccompDataChirho \<Rightarrow> bytes" where
  "seccomp_data_bytes d =
     le_bytes 4 (unat (nr_chirho d)) @ le_bytes 4 (unat (arch_chirho d)) @
     le_bytes 8 (unat (instruction_pointer_chirho d)) @
     concat (map (\<lambda>a. le_bytes 8 (unat a)) (args_chirho d))"

definition read_byte_chirho :: "SeccompDataChirho \<Rightarrow> u32 \<Rightarrow> u8 option" where
  "read_byte_chirho d off =
     (if unat off \<ge> SECCOMP_DATA_SIZE_CHIRHO then None
      else Some (seccomp_data_bytes d ! unat off))"

definition read_half_chirho :: "SeccompDataChirho \<Rightarrow> u32 \<Rightarrow> u16 option" where
  "read_half_chirho d off =
     (if unat off + 2 > SECCOMP_DATA_SIZE_CHIRHO then None
      else Some (of_nat (le_nat (take 2 (drop (unat off) (seccomp_data_bytes d))))))"

definition read_word_chirho :: "SeccompDataChirho \<Rightarrow> u32 \<Rightarrow> u32 option" where
  "read_word_chirho d off =
     (if unat off + 4 > SECCOMP_DATA_SIZE_CHIRHO then None
      else Some (of_nat (le_nat (take 4 (drop (unat off) (seccomp_data_bytes d))))))"

section \<open>The interpreter\<close>

record bpf_state =
  bpf_a :: u32
  bpf_x :: u32
  bpf_pc :: nat
  bpf_mem :: "u32 list"

datatype bpf_outcome = Bpf_Next bpf_state | Bpf_Return u32

definition bpf_init :: bpf_state where
  "bpf_init = \<lparr>bpf_a = 0, bpf_x = 0, bpf_pc = 0, bpf_mem = replicate BPF_MEMWORDS_CHIRHO 0\<rparr>"

text \<open>A load of the size in the opcode from the data at an offset.\<close>

definition bpf_load_data :: "u16 \<Rightarrow> SeccompDataChirho \<Rightarrow> u32 \<Rightarrow> u32 option" where
  "bpf_load_data sz d off =
     (if sz = BPF_SIZE_W_CHIRHO then read_word_chirho d off
      else if sz = BPF_SIZE_H_CHIRHO then map_option ucast (read_half_chirho d off)
      else if sz = BPF_SIZE_B_CHIRHO then map_option ucast (read_byte_chirho d off)
      else None)"

definition bpf_load_mem :: "bpf_state \<Rightarrow> u32 \<Rightarrow> u32 option" where
  "bpf_load_mem s k =
     (if unat k < BPF_MEMWORDS_CHIRHO then Some (bpf_mem s ! unat k) else None)"

definition bpf_ld_value :: "BpfInsnChirho \<Rightarrow> SeccompDataChirho \<Rightarrow> bpf_state \<Rightarrow> u32 option" where
  "bpf_ld_value i d s =
     (let sz = code_chirho i AND 0x18; mode = code_chirho i AND 0xE0 in
      if mode = BPF_MODE_IMM_CHIRHO then Some (k_chirho i)
      else if mode = BPF_MODE_ABS_CHIRHO then bpf_load_data sz d (k_chirho i)
      else if mode = BPF_MODE_IND_CHIRHO then bpf_load_data sz d (bpf_x s + k_chirho i)
      else if mode = BPF_MODE_MEM_CHIRHO then bpf_load_mem s (k_chirho i)
      else None)"

definition bpf_ldx_value :: "BpfInsnChirho \<Rightarrow> bpf_state \<Rightarrow> u32 option" where
  "bpf_ldx_value i s =
     (let mode = code_chirho i AND 0xE0 in
      if mode = BPF_MODE_IMM_CHIRHO then Some (k_chirho i)
      else if mode = BPF_MODE_MEM_CHIRHO then bpf_load_mem s (k_chirho i)
      else None)"

definition bpf_operand :: "BpfInsnChirho \<Rightarrow> bpf_state \<Rightarrow> u32" where
  "bpf_operand i s = (if code_chirho i AND 0x08 = BPF_SRC_X_CHIRHO then bpf_x s else k_chirho i)"

text \<open>The arithmetic unit; \<^term>\<open>None\<close> where the program is killed (division by zero,
  unknown operation).  Shift amounts wrap at 32.\<close>

definition bpf_alu :: "u16 \<Rightarrow> u32 \<Rightarrow> u32 \<Rightarrow> u32 option" where
  "bpf_alu op a v =
     (if op = BPF_ALU_ADD_CHIRHO then Some (a + v)
      else if op = BPF_ALU_SUB_CHIRHO then Some (a - v)
      else if op = BPF_ALU_MUL_CHIRHO then Some (a * v)
      else if op = BPF_ALU_DIV_CHIRHO then (if v = 0 then None else Some (a div v))
      else if op = BPF_ALU_OR_CHIRHO then Some (a OR v)
      else if op = BPF_ALU_AND_CHIRHO then Some (a AND v)
      else if op = BPF_ALU_LSH_CHIRHO then Some (push_bit (unat v mod 32) a)
      else if op = BPF_ALU_RSH_CHIRHO then Some (drop_bit (unat v mod 32) a)
      else if op = BPF_ALU_NEG_CHIRHO then Some (- a)
      else if op = BPF_ALU_XOR_CHIRHO then Some (a XOR v)
      else None)"

text \<open>The distance a jump adds to the program counter.\<close>

definition bpf_jump :: "BpfInsnChirho \<Rightarrow> bpf_state \<Rightarrow> nat option" where
  "bpf_jump i s =
     (let op = code_chirho i AND 0xF0; v = bpf_operand i s; a = bpf_a s;
          branch = (\<lambda>c. Some (1 + unat (if c then jt_chirho i else jf_chirho i)))
      in if op = BPF_JMP_JA_CHIRHO then Some (1 + unat (k_chirho i))
         else if op = BPF_JMP_JEQ_CHIRHO then branch (a = v)
         else if op = BPF_JMP_JGT_CHIRHO then branch (a > v)
         else if op = BPF_JMP_JGE_CHIRHO then branch (a \<ge> v)
         else if op = BPF_JMP_JSET_CHIRHO then branch (a AND v \<noteq> 0)
         else None)"

definition bpf_step :: "BpfInsnChirho \<Rightarrow> SeccompDataChirho \<Rightarrow> bpf_state \<Rightarrow> bpf_outcome" where
  "bpf_step i d s =
     (let cls = code_chirho i AND 0x07;
          kill = Bpf_Return SECCOMP_RET_KILL_PROCESS_CHIRHO;
          next_pc = (\<lambda>s. Bpf_Next (s\<lparr>bpf_pc := bpf_pc s + 1\<rparr>))
      in if cls = BPF_CLASS_LD_CHIRHO then
           (case bpf_ld_value i d s of Some v \<Rightarrow> next_pc (s\<lparr>bpf_a := v\<rparr>) | None \<Rightarrow> kill)
         else if cls = BPF_CLASS_LDX_CHIRHO then
           (case bpf_ldx_value i s of Some v \<Rightarrow> next_pc (s\<lparr>bpf_x := v\<rparr>) | None \<Rightarrow> kill)
         else if cls = BPF_CLASS_ST_CHIRHO then
           (if unat (k_chirho i) < BPF_MEMWORDS_CHIRHO
            then next_pc (s\<lparr>bpf_mem := (bpf_mem s)[unat (k_chirho i) := bpf_a s]\<rparr>) else kill)
         else if cls = BPF_CLASS_STX_CHIRHO then
           (if unat (k_chirho i) < BPF_MEMWORDS_CHIRHO
            then next_pc (s\<lparr>bpf_mem := (bpf_mem s)[unat (k_chirho i) := bpf_x s]\<rparr>) else kill)
         else if cls = BPF_CLASS_ALU_CHIRHO then
           (case bpf_alu (code_chirho i AND 0xF0) (bpf_a s) (bpf_operand i s) of
              Some v \<Rightarrow> next_pc (s\<lparr>bpf_a := v\<rparr>)
            | None \<Rightarrow> kill)
         else if cls = BPF_CLASS_JMP_CHIRHO then
           (case bpf_jump i s of
              Some n \<Rightarrow> Bpf_Next (s\<lparr>bpf_pc := bpf_pc s + n\<rparr>)
            | None \<Rightarrow> kill)
         else if cls = BPF_CLASS_RET_CHIRHO then
           (if code_chirho i AND 0x08 = BPF_SRC_K_CHIRHO then Bpf_Return (k_chirho i)
            else Bpf_Return (bpf_a s))
         else if cls = BPF_CLASS_MISC_CHIRHO then
           (let misc = code_chirho i AND 0xF8 in
            if misc = BPF_MISC_TAX_CHIRHO then next_pc (s\<lparr>bpf_x := bpf_a s\<rparr>)
            else if misc = BPF_MISC_TXA_CHIRHO then next_pc (s\<lparr>bpf_a := bpf_x s\<rparr>)
            else kill)
         else kill)"

text \<open>The loop: \<^verbatim>\<open>n\<close> is how many more instructions the limit allows.\<close>

fun bpf_loop :: "BpfInsnChirho list \<Rightarrow> SeccompDataChirho \<Rightarrow> nat \<Rightarrow> bpf_state \<Rightarrow> u32" where
  "bpf_loop f d n s =
     (if bpf_pc s < length f then
        (case n of
           0 \<Rightarrow> SECCOMP_RET_KILL_PROCESS_CHIRHO
         | Suc m \<Rightarrow>
             (case bpf_step (f ! bpf_pc s) d s of
                Bpf_Return r \<Rightarrow> r
              | Bpf_Next s' \<Rightarrow> bpf_loop f d m s'))
      else SECCOMP_RET_KILL_PROCESS_CHIRHO)"

definition run_bpf_filter_chirho :: "BpfInsnChirho list \<Rightarrow> SeccompDataChirho \<Rightarrow> u32" where
  "run_bpf_filter_chirho f d = bpf_loop f d 4096 bpf_init"

section \<open>Per-process state and system calls\<close>

datatype SeccompModeChirho = DisabledChirho | StrictChirho | FilterChirho

record SeccompStateChirho =
  seccomp_mode_chirho :: SeccompModeChirho
  filters_chirho :: "BpfInsnChirho list list"

definition seccomp_default_chirho :: SeccompStateChirho where
  "seccomp_default_chirho = \<lparr>seccomp_mode_chirho = DisabledChirho, filters_chirho = []\<rparr>"

type_synonym seccomp_states = "u64 \<rightharpoonup> SeccompStateChirho"

definition entry_state :: "seccomp_states \<Rightarrow> u64 \<Rightarrow> SeccompStateChirho" where
  "entry_state m pid = (case m pid of Some s \<Rightarrow> s | None \<Rightarrow> seccomp_default_chirho)"

text \<open>Unaligned little-endian reads of user memory.\<close>

definition mem_bytes :: "(u64 \<Rightarrow> u8) \<Rightarrow> u64 \<Rightarrow> nat \<Rightarrow> bytes" where
  "mem_bytes mem a n = map (\<lambda>i. mem (a + of_nat i)) [0 ..< n]"

definition read_bpf_insn :: "(u64 \<Rightarrow> u8) \<Rightarrow> u64 \<Rightarrow> BpfInsnChirho" where
  "read_bpf_insn mem a =
     \<lparr>code_chirho = of_nat (le_nat (mem_bytes mem a 2)), jt_chirho = mem (a + 2),
      jf_chirho = mem (a + 3), k_chirho = of_nat (le_nat (mem_bytes mem (a + 4) 4))\<rparr>"

definition sys_seccomp_chirho ::
  "(u64 \<Rightarrow> u8) \<Rightarrow> u64 option \<Rightarrow> seccomp_states \<Rightarrow> u64 \<Rightarrow> u64 \<Rightarrow> u64 \<Rightarrow> seccomp_states \<times> i64" where
  "sys_seccomp_chirho mem current m op flags args_ptr =
     (let pid = (case current of Some p \<Rightarrow> p | None \<Rightarrow> 1); op32 = (ucast op :: u32) in
      if op32 = SECCOMP_SET_MODE_STRICT_CHIRHO then
        (let s = entry_state m pid in
         if seccomp_mode_chirho s \<noteq> DisabledChirho then (m(pid \<mapsto> s), - EINVAL_CHIRHO)
         else (m(pid \<mapsto> s\<lparr>seccomp_mode_chirho := StrictChirho\<rparr>), 0))
      else if op32 = SECCOMP_SET_MODE_FILTER_CHIRHO then
        (if args_ptr = 0 then (m, - EFAULT_CHIRHO)
         else
           let len = le_nat (mem_bytes mem args_ptr 2);
               filter_ptr = (of_nat (le_nat (mem_bytes mem (args_ptr + 8) 8)) :: u64)
           in if len = 0 \<or> len > 4096 \<or> filter_ptr = 0 then (m, - EINVAL_CHIRHO)
              else
                let insns = map (\<lambda>i. read_bpf_insn mem (filter_ptr + of_nat (8 * i))) [0 ..< len];
                    s = entry_state m pid
                in (m(pid \<mapsto> s\<lparr>seccomp_mode_chirho := FilterChirho,
                               filters_chirho := filters_chirho s @ [insns]\<rparr>), 0))
      else if op32 = SECCOMP_GET_ACTION_AVAIL_CHIRHO then (m, 0)
      else (m, - EINVAL_CHIRHO))"

text \<open>The loop over the filters: the numerically smallest action wins.\<close>

definition run_all_filters_chirho :: "BpfInsnChirho list list \<Rightarrow> SeccompDataChirho \<Rightarrow> u32" where
  "run_all_filters_chirho fs d =
     foldl (\<lambda>result f. let action = run_bpf_filter_chirho f d in
              if action < result then action else result) SECCOMP_RET_ALLOW_CHIRHO fs"

definition strict_allows_chirho :: "u64 \<Rightarrow> u32" where
  "strict_allows_chirho nr =
     (if nr = 0 \<or> nr = 1 \<or> nr = 60 \<or> nr = 15 \<or> nr = 231 then SECCOMP_RET_ALLOW_CHIRHO
      else SECCOMP_RET_KILL_PROCESS_CHIRHO)"

definition check_seccomp_with_args_chirho :: "seccomp_states \<Rightarrow> u64 \<Rightarrow> u64 \<Rightarrow> u64 list \<Rightarrow> u32" where
  "check_seccomp_with_args_chirho m pid nr args =
     (case m pid of
        None \<Rightarrow> SECCOMP_RET_ALLOW_CHIRHO
      | Some s \<Rightarrow>
          (case seccomp_mode_chirho s of
             DisabledChirho \<Rightarrow> SECCOMP_RET_ALLOW_CHIRHO
           | StrictChirho \<Rightarrow> strict_allows_chirho nr
           | FilterChirho \<Rightarrow>
               run_all_filters_chirho (filters_chirho s)
                 \<lparr>nr_chirho = ucast nr, arch_chirho = AUDIT_ARCH_X86_64_CHIRHO,
                  instruction_pointer_chirho = 0, args_chirho = args\<rparr>))"

definition check_seccomp_chirho :: "seccomp_states \<Rightarrow> u64 \<Rightarrow> u64 \<Rightarrow> u32" where
  "check_seccomp_chirho m pid nr = check_seccomp_with_args_chirho m pid nr [0, 0, 0, 0, 0, 0]"

declare bpf_loop.simps [simp del]

section \<open>The instruction limit is never reached\<close>

text \<open>The meaning of a program without the limit.\<close>

inductive bpf_exec :: "BpfInsnChirho list \<Rightarrow> SeccompDataChirho \<Rightarrow> bpf_state \<Rightarrow> u32 \<Rightarrow> bool"
  for f d where
  exec_end: "length f \<le> bpf_pc s \<Longrightarrow> bpf_exec f d s SECCOMP_RET_KILL_PROCESS_CHIRHO"
| exec_return: "bpf_pc s < length f \<Longrightarrow> bpf_step (f ! bpf_pc s) d s = Bpf_Return r \<Longrightarrow> bpf_exec f d s r"
| exec_next: "bpf_pc s < length f \<Longrightarrow> bpf_step (f ! bpf_pc s) d s = Bpf_Next s' \<Longrightarrow>
    bpf_exec f d s' r \<Longrightarrow> bpf_exec f d s r"

lemma bpf_step_progress:
  assumes "bpf_step i d s = Bpf_Next s'"
  shows "bpf_pc s < bpf_pc s'" "length (bpf_mem s') = length (bpf_mem s)"
proof -
  have "0 < n" if "bpf_jump i s = Some n" for n
    using that by (auto simp: bpf_jump_def Let_def split: if_splits)
  then show "bpf_pc s < bpf_pc s'" "length (bpf_mem s') = length (bpf_mem s)"
    using assms by (auto simp: bpf_step_def Let_def split: if_splits option.splits)
qed

lemma bpf_exec_loop: "length f - bpf_pc s \<le> n \<Longrightarrow> bpf_exec f d s (bpf_loop f d n s)"
proof (induction n arbitrary: s)
  case 0
  then show ?case by (simp add: bpf_loop.simps exec_end)
next
  case (Suc n)
  show ?case
  proof (cases "bpf_pc s < length f")
    case False
    then show ?thesis by (simp add: bpf_loop.simps exec_end)
  next
    case True
    show ?thesis
    proof (cases "bpf_step (f ! bpf_pc s) d s")
      case (Bpf_Next s')
      have "bpf_exec f d s' (bpf_loop f d n s')"
        using bpf_step_progress(1) [OF Bpf_Next] Suc.prems True by (intro Suc.IH) linarith
      then show ?thesis
        using True Bpf_Next by (simp add: bpf_loop.simps [of f d "Suc n"] exec_next)
    next
      case (Bpf_Return r)
      then show ?thesis using True by (simp add: bpf_loop.simps exec_return)
    qed
  qed
qed

lemma bpf_exec_deterministic: "bpf_exec f d s r \<Longrightarrow> bpf_exec f d s r' \<Longrightarrow> r = r'"
proof (induction arbitrary: r' rule: bpf_exec.induct)
  case (exec_end s)
  from exec_end(2) show ?case by cases (use exec_end(1) in simp_all)
next
  case (exec_return s r)
  from exec_return(3) show ?case by cases (use exec_return(1,2) in simp_all)
next
  case (exec_next s s' r)
  from exec_next(5) show ?case by cases (use exec_next(1,2,4) in simp_all)
qed

section \<open>Allow lists\<close>

text \<open>The filter shape sandboxes use: load the system-call number, compare it with
  each allowed number in turn, deny otherwise.\<close>

definition bpf_stmt :: "u16 \<Rightarrow> u32 \<Rightarrow> BpfInsnChirho" where
  "bpf_stmt code k = \<lparr>code_chirho = code, jt_chirho = 0, jf_chirho = 0, k_chirho = k\<rparr>"

definition allow_tests :: "u32 list \<Rightarrow> BpfInsnChirho list" where
  "allow_tests nrs = concat (map (\<lambda>n.
     [\<lparr>code_chirho = BPF_JMP_JEQ_K_CHIRHO, jt_chirho = 0, jf_chirho = 1, k_chirho = n\<rparr>,
      bpf_stmt BPF_RET_K_CHIRHO SECCOMP_RET_ALLOW_CHIRHO]) nrs)"

definition allow_list_filter :: "u32 list \<Rightarrow> u32 \<Rightarrow> BpfInsnChirho list" where
  "allow_list_filter nrs deny =
     bpf_stmt BPF_LD_W_ABS_CHIRHO 0 # allow_tests nrs @ [bpf_stmt BPF_RET_K_CHIRHO deny]"

lemmas bpf_opcode_defs =
  BPF_LD_W_ABS_CHIRHO_def BPF_JMP_JEQ_K_CHIRHO_def BPF_RET_K_CHIRHO_def BPF_JMP_JA_CHIRHO_def
  BPF_JMP_OP_JA_CHIRHO_def
  BPF_CLASS_LD_CHIRHO_def BPF_CLASS_LDX_CHIRHO_def BPF_CLASS_ST_CHIRHO_def BPF_CLASS_STX_CHIRHO_def
  BPF_CLASS_ALU_CHIRHO_def BPF_CLASS_JMP_CHIRHO_def BPF_CLASS_RET_CHIRHO_def
  BPF_SIZE_W_CHIRHO_def BPF_MODE_ABS_CHIRHO_def BPF_MODE_IMM_CHIRHO_def BPF_SRC_K_CHIRHO_def
  BPF_SRC_X_CHIRHO_def BPF_JMP_JEQ_CHIRHO_def

lemma step_jeq:
  "bpf_step \<lparr>code_chirho = BPF_JMP_JEQ_K_CHIRHO, jt_chirho = 0, jf_chirho = 1, k_chirho = n\<rparr> d s =
     Bpf_Next (s\<lparr>bpf_pc := bpf_pc s + (if bpf_a s = n then 1 else 2)\<rparr>)"
  by (simp add: bpf_step_def bpf_jump_def bpf_operand_def bpf_opcode_defs)

lemma step_ret: "bpf_step (bpf_stmt BPF_RET_K_CHIRHO k) d s = Bpf_Return k"
  by (simp add: bpf_step_def bpf_stmt_def bpf_opcode_defs)

lemma read_word_nr: "read_word_chirho d 0 = Some (nr_chirho d)"
proof -
  have "take 4 (seccomp_data_bytes d) = le_bytes 4 (unat (nr_chirho d))"
    by (simp add: seccomp_data_bytes_def)
  then show ?thesis
    using unat_less_pow [of "nr_chirho d"]
    by (simp add: read_word_chirho_def SECCOMP_DATA_SIZE_CHIRHO_def le_nat_bytes)
qed

lemma step_ld_nr:
  "bpf_step (bpf_stmt BPF_LD_W_ABS_CHIRHO 0) d s =
     Bpf_Next (s\<lparr>bpf_a := nr_chirho d, bpf_pc := bpf_pc s + 1\<rparr>)"
  by (simp add: bpf_step_def bpf_stmt_def bpf_ld_value_def bpf_load_data_def read_word_nr
      bpf_opcode_defs)

lemma exec_allow_tests:
  "bpf_pc s = length pre \<Longrightarrow> bpf_a s = nr \<Longrightarrow>
   bpf_exec (pre @ allow_tests nrs @ [bpf_stmt BPF_RET_K_CHIRHO deny]) d s
     (if nr \<in> set nrs then SECCOMP_RET_ALLOW_CHIRHO else deny)"
proof (induction nrs arbitrary: pre s)
  case Nil
  then show ?case by (intro exec_return) (simp_all add: allow_tests_def step_ret)
next
  case (Cons n nrs)
  let ?i = "[\<lparr>code_chirho = BPF_JMP_JEQ_K_CHIRHO, jt_chirho = 0, jf_chirho = 1, k_chirho = n\<rparr>,
    bpf_stmt BPF_RET_K_CHIRHO SECCOMP_RET_ALLOW_CHIRHO]"
  let ?f = "pre @ allow_tests (n # nrs) @ [bpf_stmt BPF_RET_K_CHIRHO deny]"
  have f: "?f = (pre @ ?i) @ allow_tests nrs @ [bpf_stmt BPF_RET_K_CHIRHO deny]"
    by (simp add: allow_tests_def)
  have nth: "bpf_pc s < length ?f" "?f ! bpf_pc s = ?i ! 0" "?f ! Suc (bpf_pc s) = ?i ! 1"
    using Cons.prems(1) by (simp_all add: allow_tests_def nth_append)
  show ?case
  proof (cases "nr = n")
    case True
    let ?s = "s\<lparr>bpf_pc := bpf_pc s + 1\<rparr>"
    have "bpf_exec ?f d ?s SECCOMP_RET_ALLOW_CHIRHO"
      using nth(3) Cons.prems(1) by (intro exec_return) (simp_all add: step_ret allow_tests_def)
    then show ?thesis
      using exec_next [OF nth(1), of d ?s] nth(2) step_jeq [of n d s] Cons.prems(2) True by simp
  next
    case False
    let ?s = "s\<lparr>bpf_pc := bpf_pc s + 2\<rparr>"
    have "bpf_exec ?f d ?s (if nr \<in> set nrs then SECCOMP_RET_ALLOW_CHIRHO else deny)"
      unfolding f using Cons.prems by (intro Cons.IH) simp_all
    then show ?thesis
      using exec_next [OF nth(1), of d ?s] nth(2) step_jeq [of n d s] Cons.prems(2) False by simp
  qed
qed

lemma length_allow_tests: "length (allow_tests nrs) = 2 * length nrs"
  by (induction nrs) (simp_all add: allow_tests_def)

lemma run_all_filters_fold:
  "foldl (\<lambda>result f. let action = run_bpf_filter_chirho f d in
     if action < result then action else result) a fs =
   Min (insert a (set (map (\<lambda>f. run_bpf_filter_chirho f d) fs)))"
proof (induction fs arbitrary: a)
  case Nil
  then show ?case by simp
next
  case (Cons f fs)
  let ?r = "run_bpf_filter_chirho f d" and ?R = "set (map (\<lambda>f. run_bpf_filter_chirho f d) fs)"
  have "(if ?r < a then ?r else a) = min ?r a" by (simp add: min_def order_less_imp_le)
  moreover have "Min (insert (min ?r a) ?R) = Min (insert a (insert ?r ?R))"
    by (cases "?R = {}") (simp_all add: min.assoc min.commute min.left_commute)
  ultimately show ?case using Cons by (simp add: Let_def)
qed

section \<open>Properties\<close>

text \<open>C21. The interpreter computes the meaning of the program.  For a program of at
  most 4096 instructions (the most the system call installs), the safety limit
  of 4096 executed instructions is never the reason for the result: jumps only
  go forward, so the loop ends by itself, with exactly the result the limitless
  semantics gives.\<close>

theorem interpreter_meets_semantics:
  assumes "length f \<le> 4096"
  shows "bpf_exec f d bpf_init r \<longleftrightarrow> r = run_bpf_filter_chirho f d"
proof -
  have "bpf_exec f d bpf_init (run_bpf_filter_chirho f d)"
    unfolding run_bpf_filter_chirho_def using assms by (intro bpf_exec_loop) simp
  then show ?thesis using bpf_exec_deterministic by blast
qed

theorem interpreter_meets_semantics_witness:
  "bpf_exec [bpf_stmt BPF_RET_K_CHIRHO 7] \<lparr>nr_chirho = 0, arch_chirho = 0,
     instruction_pointer_chirho = 0, args_chirho = []\<rparr> bpf_init 7"
  using interpreter_meets_semantics [of "[bpf_stmt BPF_RET_K_CHIRHO 7]"]
  by (simp add: run_bpf_filter_chirho_def bpf_loop.simps step_ret bpf_init_def)

text \<open>Allow-list filters do what they say: a program that loads the system-call
  number, compares it with each number of a list and returns a deny action
  otherwise yields \<^verbatim>\<open>ALLOW\<close> for exactly the numbers of the list.\<close>

theorem allow_list_filter_correct:
  assumes "length nrs \<le> 2047"
  shows "run_bpf_filter_chirho (allow_list_filter nrs deny) d =
    (if nr_chirho d \<in> set nrs then SECCOMP_RET_ALLOW_CHIRHO else deny)"
proof -
  let ?f = "allow_list_filter nrs deny" and ?s = "bpf_init\<lparr>bpf_a := nr_chirho d, bpf_pc := 1\<rparr>"
  have "bpf_exec ?f d ?s (if nr_chirho d \<in> set nrs then SECCOMP_RET_ALLOW_CHIRHO else deny)"
    using exec_allow_tests [of ?s "[bpf_stmt BPF_LD_W_ABS_CHIRHO 0]" "nr_chirho d" nrs deny d]
    by (simp add: allow_list_filter_def)
  moreover have "bpf_pc bpf_init < length ?f" "bpf_step (?f ! bpf_pc bpf_init) d bpf_init = Bpf_Next ?s"
    using step_ld_nr [of d bpf_init] by (simp_all add: bpf_init_def allow_list_filter_def)
  ultimately have
    "bpf_exec ?f d bpf_init (if nr_chirho d \<in> set nrs then SECCOMP_RET_ALLOW_CHIRHO else deny)"
    by (blast intro: exec_next)
  moreover have "bpf_exec ?f d bpf_init (run_bpf_filter_chirho ?f d)"
    unfolding run_bpf_filter_chirho_def using assms
    by (intro bpf_exec_loop) (simp add: allow_list_filter_def length_allow_tests)
  ultimately show ?thesis using bpf_exec_deterministic by blast
qed

theorem allow_list_filter_correct_witness:
  "run_bpf_filter_chirho (allow_list_filter [0, 1, 60] (SECCOMP_RET_ERRNO_CHIRHO + 1))
     \<lparr>nr_chirho = 2, arch_chirho = AUDIT_ARCH_X86_64_CHIRHO, instruction_pointer_chirho = 0,
      args_chirho = [0, 0, 0, 0, 0, 0]\<rparr> = SECCOMP_RET_ERRNO_CHIRHO + 1"
  using allow_list_filter_correct [of "[0, 1, 60]"] by simp

text \<open>What the filters see of a system call.\<close>

definition seccomp_data :: "u64 \<Rightarrow> u64 list \<Rightarrow> SeccompDataChirho" where
  "seccomp_data nr args = \<lparr>nr_chirho = ucast nr, arch_chirho = AUDIT_ARCH_X86_64_CHIRHO,
     instruction_pointer_chirho = 0, args_chirho = args\<rparr>"

lemma run_all_filters_min:
  assumes "fs \<noteq> []" and "\<forall>f\<in>set fs. run_bpf_filter_chirho f d \<le> SECCOMP_RET_ALLOW_CHIRHO"
  shows "run_all_filters_chirho fs d = Min ((\<lambda>f. run_bpf_filter_chirho f d) ` set fs)"
proof -
  let ?R = "(\<lambda>f. run_bpf_filter_chirho f d) ` set fs"
  have "Min ?R \<in> ?R" using assms(1) by (intro Min_in) auto
  then have "Min ?R \<le> SECCOMP_RET_ALLOW_CHIRHO" using assms(2) by auto
  moreover have "run_all_filters_chirho fs d = min SECCOMP_RET_ALLOW_CHIRHO (Min ?R)"
    using assms(1) by (simp add: run_all_filters_chirho_def run_all_filters_fold)
  ultimately show ?thesis by (simp add: min_def)
qed

lemma run_more_filters: "run_all_filters_chirho (fs @ [f]) d \<le> run_all_filters_chirho fs d"
  by (simp add: run_all_filters_chirho_def Let_def order_less_imp_le)

lemma check_in_filter_mode:
  "seccomp_mode_chirho (entry_state m pid) = FilterChirho \<Longrightarrow>
   check_seccomp_with_args_chirho m pid nr args =
     run_all_filters_chirho (filters_chirho (entry_state m pid)) (seccomp_data nr args)"
  by (auto simp: entry_state_def check_seccomp_with_args_chirho_def seccomp_default_chirho_def seccomp_data_def
      split: option.splits)

lemma seccomp_call_cases:
  assumes "sys_seccomp_chirho mem current m op flags ptr = (m', r)"
  shows "entry_state m' pid = entry_state m pid \<or>
    seccomp_mode_chirho (entry_state m pid) = DisabledChirho \<and>
      entry_state m' pid = (entry_state m pid)\<lparr>seccomp_mode_chirho := StrictChirho\<rparr> \<or>
    (\<exists>f. entry_state m' pid = (entry_state m pid)\<lparr>seccomp_mode_chirho := FilterChirho,
      filters_chirho := filters_chirho (entry_state m pid) @ [f]\<rparr>)"
  using assms by (auto simp: sys_seccomp_chirho_def Let_def entry_state_def split: if_splits)

text \<open>C22. Installing filters only tightens.  A \<^verbatim>\<open>seccomp\<close> call removes and reorders no filter of
  any process and takes no process back to the disabled mode.  Afterwards, for a
  process in filter mode whose filters all give the system call an action numbered at
  most \<^verbatim>\<open>ALLOW\<close> (every action of the interface but \<^verbatim>\<open>KILL_PROCESS\<close>), the verdict is the most
  restrictive, that is the smallest, action any of its filters gives, and if the
  process was in filter mode or had none before, the verdict is at least as
  restrictive as it was.\<close>

theorem seccomp_is_monotone:
  assumes "sys_seccomp_chirho mem current m op flags ptr = (m', r)"
  shows "prefix (filters_chirho (entry_state m pid)) (filters_chirho (entry_state m' pid)) \<and>
    (seccomp_mode_chirho (entry_state m pid) \<noteq> DisabledChirho \<longrightarrow>
      seccomp_mode_chirho (entry_state m' pid) \<noteq> DisabledChirho) \<and>
    (seccomp_mode_chirho (entry_state m' pid) = FilterChirho \<and> filters_chirho (entry_state m' pid) \<noteq> [] \<and>
     (\<forall>f\<in>set (filters_chirho (entry_state m' pid)).
        run_bpf_filter_chirho f (seccomp_data nr args) \<le> SECCOMP_RET_ALLOW_CHIRHO) \<longrightarrow>
      check_seccomp_with_args_chirho m' pid nr args =
        Min ((\<lambda>f. run_bpf_filter_chirho f (seccomp_data nr args)) ` set (filters_chirho (entry_state m' pid))) \<and>
      (seccomp_mode_chirho (entry_state m pid) \<noteq> StrictChirho \<longrightarrow>
        check_seccomp_with_args_chirho m' pid nr args \<le> check_seccomp_with_args_chirho m pid nr args))"
proof -
  let ?fs = "filters_chirho (entry_state m' pid)" and ?d = "seccomp_data nr args"
  note c = seccomp_call_cases [OF assms, of pid]
  have 1: "prefix (filters_chirho (entry_state m pid)) ?fs" using c by auto
  have 2: "seccomp_mode_chirho (entry_state m' pid) \<noteq> DisabledChirho"
    if "seccomp_mode_chirho (entry_state m pid) \<noteq> DisabledChirho" using c that by auto
  have 3: "check_seccomp_with_args_chirho m' pid nr args = Min ((\<lambda>f. run_bpf_filter_chirho f ?d) ` set ?fs)"
    if "seccomp_mode_chirho (entry_state m' pid) = FilterChirho" "?fs \<noteq> []"
      "\<forall>f\<in>set ?fs. run_bpf_filter_chirho f ?d \<le> SECCOMP_RET_ALLOW_CHIRHO"
    using check_in_filter_mode [OF that(1)] run_all_filters_min [OF that(2,3)] by simp
  have 4: "check_seccomp_with_args_chirho m' pid nr args \<le> check_seccomp_with_args_chirho m pid nr args"
    if "seccomp_mode_chirho (entry_state m' pid) = FilterChirho" "seccomp_mode_chirho (entry_state m pid) \<noteq> StrictChirho"
  proof (cases "seccomp_mode_chirho (entry_state m pid)")
    case DisabledChirho
    then have "check_seccomp_with_args_chirho m pid nr args = SECCOMP_RET_ALLOW_CHIRHO"
      by (auto simp: entry_state_def check_seccomp_with_args_chirho_def split: option.splits)
    moreover have "run_all_filters_chirho fs ?d \<le> SECCOMP_RET_ALLOW_CHIRHO" for fs
      unfolding run_all_filters_chirho_def run_all_filters_fold by (intro Min_le) auto
    ultimately show ?thesis using check_in_filter_mode [OF that(1)] by simp
  next
    case FilterChirho
    then show ?thesis using c check_in_filter_mode that(1) run_more_filters by auto
  qed (use that in simp)
  from 1 2 3 4 show ?thesis by blast
qed

definition trap_memory :: "u64 \<Rightarrow> u8" where
  "trap_memory a = (if a = 16 then 1 else if a = 24 then 64 else if a = 64 then 6 else if a = 70 then 3 else 0)"

theorem seccomp_is_monotone_witness:
  "check_seccomp_with_args_chirho (fst (sys_seccomp_chirho trap_memory (Some 5)
     [5 \<mapsto> \<lparr>seccomp_mode_chirho = FilterChirho,
       filters_chirho = [[bpf_stmt BPF_RET_K_CHIRHO (SECCOMP_RET_ERRNO_CHIRHO + 1)]]\<rparr>] 1 0 16)) 5 2 [0] =
   SECCOMP_RET_TRAP_CHIRHO"
proof -
  let ?m = "[5 \<mapsto> \<lparr>seccomp_mode_chirho = FilterChirho,
       filters_chirho = [[bpf_stmt BPF_RET_K_CHIRHO (SECCOMP_RET_ERRNO_CHIRHO + 1)]]\<rparr>] :: seccomp_states"
  let ?m' = "fst (sys_seccomp_chirho trap_memory (Some 5) ?m 1 0 16)"
  have f: "entry_state ?m' 5 = \<lparr>seccomp_mode_chirho = FilterChirho,
      filters_chirho = [[bpf_stmt BPF_RET_K_CHIRHO (SECCOMP_RET_ERRNO_CHIRHO + 1)], [bpf_stmt BPF_RET_K_CHIRHO SECCOMP_RET_TRAP_CHIRHO]]\<rparr>"
    by (simp add: sys_seccomp_chirho_def Let_def mem_bytes_def trap_memory_def read_bpf_insn_def upt_conv_Cons
        entry_state_def bpf_stmt_def SECCOMP_SET_MODE_STRICT_CHIRHO_def SECCOMP_SET_MODE_FILTER_CHIRHO_def
        BPF_RET_K_CHIRHO_def BPF_CLASS_RET_CHIRHO_def BPF_SRC_K_CHIRHO_def SECCOMP_RET_TRAP_CHIRHO_def)
  have r: "run_bpf_filter_chirho [bpf_stmt BPF_RET_K_CHIRHO k] d = k" for k d
    by (simp add: run_bpf_filter_chirho_def bpf_loop.simps step_ret bpf_init_def)
  have "check_seccomp_with_args_chirho ?m' 5 2 [0] = Min ((\<lambda>f. run_bpf_filter_chirho f (seccomp_data 2 [0])) `
      set (filters_chirho (entry_state ?m' 5)))"
    using seccomp_is_monotone [OF prod.collapse [symmetric], where mem = trap_memory and current = "Some 5"
        and m = ?m and op = 1 and flags = 0 and ptr = 16 and pid = 5 and nr = 2 and args = "[0]"] f
    by (simp add: r SECCOMP_RET_ALLOW_CHIRHO_def SECCOMP_RET_ERRNO_CHIRHO_def SECCOMP_RET_TRAP_CHIRHO_def)
  then show ?thesis using f by (simp add: r SECCOMP_RET_ERRNO_CHIRHO_def SECCOMP_RET_TRAP_CHIRHO_def)
qed

text \<open>A process in strict mode can leave it: installing a filter puts it in filter mode,
  where only its filters decide.\<close>

lemma filter_ends_strict_mode:
  assumes "sys_seccomp_chirho mem (Some pid) m 1 flags ptr = (m', 0)"
  shows "seccomp_mode_chirho (entry_state m' pid) = FilterChirho"
  using assms by (auto simp: sys_seccomp_chirho_def Let_def entry_state_def SECCOMP_SET_MODE_STRICT_CHIRHO_def
      SECCOMP_SET_MODE_FILTER_CHIRHO_def EFAULT_CHIRHO_def EINVAL_CHIRHO_def split: if_splits)

text \<open>The strictest action is ignored.  A process whose filters all return
  \<^verbatim>\<open>SECCOMP_RET_KILL_PROCESS\<close> (or any action with the top bit set, which is also what
  invalid and run-away programs give) gets \<^verbatim>\<open>ALLOW\<close>, because the comparison is
  unsigned and that action is numerically the largest.\<close>

theorem kill_process_is_allowed:
  assumes "m pid = Some \<lparr>seccomp_mode_chirho = FilterChirho, filters_chirho = fs\<rparr>"
    and "\<And>f. f \<in> set fs \<Longrightarrow> SECCOMP_RET_KILL_PROCESS_CHIRHO \<le> run_bpf_filter_chirho f
      \<lparr>nr_chirho = ucast nr, arch_chirho = AUDIT_ARCH_X86_64_CHIRHO,
       instruction_pointer_chirho = 0, args_chirho = args\<rparr>"
  shows "check_seccomp_with_args_chirho m pid nr args = SECCOMP_RET_ALLOW_CHIRHO"
proof -
  let ?d = "\<lparr>nr_chirho = ucast nr, arch_chirho = AUDIT_ARCH_X86_64_CHIRHO,
    instruction_pointer_chirho = 0, args_chirho = args\<rparr>"
  have "SECCOMP_RET_ALLOW_CHIRHO \<le> SECCOMP_RET_KILL_PROCESS_CHIRHO"
    by (simp add: SECCOMP_RET_ALLOW_CHIRHO_def SECCOMP_RET_KILL_PROCESS_CHIRHO_def)
  then have "Min (insert SECCOMP_RET_ALLOW_CHIRHO (set (map (\<lambda>f. run_bpf_filter_chirho f ?d) fs))) =
      SECCOMP_RET_ALLOW_CHIRHO"
    using assms(2) by (intro Min_eqI) (auto intro: order_trans)
  then show ?thesis
    using assms(1)
    by (simp add: check_seccomp_with_args_chirho_def run_all_filters_chirho_def run_all_filters_fold)
qed

theorem kill_process_is_allowed_witness:
  "check_seccomp_with_args_chirho
     [9 \<mapsto> \<lparr>seccomp_mode_chirho = FilterChirho,
       filters_chirho = [[bpf_stmt BPF_RET_K_CHIRHO SECCOMP_RET_KILL_PROCESS_CHIRHO]]\<rparr>] 9 59 [] =
   SECCOMP_RET_ALLOW_CHIRHO"
  by (rule kill_process_is_allowed)
    (auto simp: run_bpf_filter_chirho_def bpf_loop.simps step_ret bpf_init_def)

text \<open>The unconditional jump is never executed: an instruction of class \<^verbatim>\<open>JMP\<close> with
  operation \<^verbatim>\<open>JA\<close> ends the program with \<^verbatim>\<open>KILL_PROCESS\<close>, whatever its distance, because
  the interpreter compares the operation bits with the composed opcode \<^verbatim>\<open>0x05\<close>.\<close>

theorem unconditional_jump_kills:
  assumes "code_chirho i AND 0x07 = BPF_CLASS_JMP_CHIRHO"
    and "code_chirho i AND 0xF0 = BPF_JMP_OP_JA_CHIRHO"
  shows "bpf_step i d s = Bpf_Return SECCOMP_RET_KILL_PROCESS_CHIRHO"
  using assms
  by (simp add: bpf_step_def bpf_jump_def bpf_opcode_defs BPF_JMP_JGT_CHIRHO_def BPF_JMP_JGE_CHIRHO_def
      BPF_JMP_JSET_CHIRHO_def)

theorem unconditional_jump_kills_witness:
  "bpf_step (bpf_stmt BPF_JMP_JA_CHIRHO 0)
     \<lparr>nr_chirho = 0, arch_chirho = 0, instruction_pointer_chirho = 0, args_chirho = []\<rparr> bpf_init =
   Bpf_Return SECCOMP_RET_KILL_PROCESS_CHIRHO"
  by (rule unconditional_jump_kills) (simp_all add: bpf_stmt_def bpf_opcode_defs)

end
