(* ===== verification/Context_Switch.thy ===== *)
theory Context_Switch
  imports Rust_Prelude
begin

text \<open>
  The register-level context switch: \<^verbatim>\<open>CpuContextChirho\<close> and its static slots
  (\<^verbatim>\<open>sched_chirho/task_chirho.rs\<close>), the assembly routine \<^verbatim>\<open>switch_context_chirho\<close>
  (\<^verbatim>\<open>arch_chirho/context_switch_chirho.rs\<close>) and the naked wrapper and resume stub
  of \<^verbatim>\<open>sched_chirho/scheduler_chirho.rs\<close>, instruction by instruction on a machine
  that has the registers and the stack words those instructions touch.

  The result is that a task which is switched out and switched in again, with
  any number of other switches in between, resumes after its call of the
  wrapper with the registers the System V ABI makes it rely on.
\<close>

section \<open>Saved contexts\<close>

record CpuContextChirho =
  rsp_chirho :: u64
  rbp_chirho :: u64
  rbx_chirho :: u64
  r12_chirho :: u64
  r13_chirho :: u64
  r14_chirho :: u64
  r15_chirho :: u64
  rip_chirho :: u64
  rflags_chirho :: u64

definition zero_chirho :: CpuContextChirho where
  "zero_chirho = \<lparr>rsp_chirho = 0, rbp_chirho = 0, rbx_chirho = 0, r12_chirho = 0,
     r13_chirho = 0, r14_chirho = 0, r15_chirho = 0, rip_chirho = 0, rflags_chirho = 0\<rparr>"

definition MAX_PIDS_CHIRHO :: nat where "MAX_PIDS_CHIRHO = 128"
definition BOOT_SLOT_CHIRHO :: nat where "BOOT_SLOT_CHIRHO = MAX_PIDS_CHIRHO - 1"

text \<open>The pointer \<^verbatim>\<open>context_ptr_chirho\<close> returns is the index of a slot; the null
  pointer is \<^const>\<open>None\<close>.\<close>

definition context_ptr_chirho :: "u64 \<Rightarrow> nat option" where
  "context_ptr_chirho pid = (if unat pid < MAX_PIDS_CHIRHO then Some (unat pid) else None)"

definition boot_context_ptr_chirho :: nat where
  "boot_context_ptr_chirho = BOOT_SLOT_CHIRHO"

definition sync_context_to_slot_chirho ::
  "u64 \<Rightarrow> CpuContextChirho \<Rightarrow> CpuContextChirho list \<Rightarrow> CpuContextChirho list" where
  "sync_context_to_slot_chirho pid ctx slots =
     (if unat pid < MAX_PIDS_CHIRHO then slots[unat pid := ctx] else slots)"

section \<open>The machine\<close>

text \<open>The live registers are a context of their own, its \<^const>\<open>rip_chirho\<close> the
  program counter; \<^verbatim>\<open>stack_mem\<close> gives the 64-bit word at an address.\<close>

record machine =
  regs :: CpuContextChirho
  cr3 :: u64
  PENDING_CR3_CHIRHO :: u64
  stack_mem :: "u64 \<Rightarrow> u64"
  slots :: "CpuContextChirho list"

definition set_pending_cr3_chirho :: "u64 \<Rightarrow> machine \<Rightarrow> machine" where
  "set_pending_cr3_chirho v m = m\<lparr>PENDING_CR3_CHIRHO := v\<rparr>"

definition push :: "u64 \<Rightarrow> machine \<Rightarrow> machine" where
  "push v m = (let sp = rsp_chirho (regs m) - 8 in
     m\<lparr>regs := (regs m)\<lparr>rsp_chirho := sp\<rparr>, stack_mem := (stack_mem m)(sp := v)\<rparr>)"

definition ret :: "machine \<Rightarrow> machine" where
  "ret m = m\<lparr>regs := (regs m)\<lparr>rip_chirho := stack_mem m (rsp_chirho (regs m)),
                               rsp_chirho := rsp_chirho (regs m) + 8\<rparr>\<rparr>"

text \<open>\<^verbatim>\<open>cli\<close> and \<^verbatim>\<open>sti\<close> change only the interrupt flag, bit 9 of the flags
  register.\<close>

definition sti :: "machine \<Rightarrow> machine" where
  "sti m = m\<lparr>regs := (regs m)\<lparr>rflags_chirho := rflags_chirho (regs m) OR 0x200\<rparr>\<rparr>"

text \<open>The routine addresses a saved context by byte offsets.  A quadword written at or read
  from one of them is the field the structure has there.\<close>

definition ctx_store :: "nat \<Rightarrow> u64 \<Rightarrow> CpuContextChirho \<Rightarrow> CpuContextChirho" where
  "ctx_store off v c =
     (if off = 0 then c\<lparr>rsp_chirho := v\<rparr> else if off = 8 then c\<lparr>rbp_chirho := v\<rparr>
      else if off = 16 then c\<lparr>rbx_chirho := v\<rparr> else if off = 24 then c\<lparr>r12_chirho := v\<rparr>
      else if off = 32 then c\<lparr>r13_chirho := v\<rparr> else if off = 40 then c\<lparr>r14_chirho := v\<rparr>
      else if off = 48 then c\<lparr>r15_chirho := v\<rparr> else if off = 56 then c\<lparr>rip_chirho := v\<rparr>
      else if off = 64 then c\<lparr>rflags_chirho := v\<rparr> else c)"

definition ctx_load :: "nat \<Rightarrow> CpuContextChirho \<Rightarrow> u64" where
  "ctx_load off c =
     (if off = 0 then rsp_chirho c else if off = 8 then rbp_chirho c
      else if off = 16 then rbx_chirho c else if off = 24 then r12_chirho c
      else if off = 32 then r13_chirho c else if off = 40 then r14_chirho c
      else if off = 48 then r15_chirho c else if off = 56 then rip_chirho c else rflags_chirho c)"

text \<open>The save half stores \<^verbatim>\<open>rsp + 8\<close>, the callee-saved registers, the return
  address found on top of the stack, and the flags, in this order.\<close>

definition save_context :: "nat \<Rightarrow> machine \<Rightarrow> machine" where
  "save_context old m =
     (let r = regs m;
          stores = [(0, rsp_chirho r + 8), (8, rbp_chirho r), (16, rbx_chirho r), (24, r12_chirho r),
                    (32, r13_chirho r), (40, r14_chirho r), (48, r15_chirho r),
                    (56, stack_mem m (rsp_chirho r)), (64, rflags_chirho r)]
      in m\<lparr>slots := (slots m)[old := foldl (\<lambda>c (off, v). ctx_store off v c) (slots m ! old) stores]\<rparr>)"

text \<open>The restore half loads the stack pointer, then CR3 when one is pending, then
  the other registers and flags, pushes the saved instruction pointer and
  returns to it.\<close>

definition load_pending_cr3 :: "machine \<Rightarrow> machine" where
  "load_pending_cr3 m = (if PENDING_CR3_CHIRHO m = 0 then m
     else m\<lparr>cr3 := PENDING_CR3_CHIRHO m, PENDING_CR3_CHIRHO := 0\<rparr>)"

definition restore_context :: "nat \<Rightarrow> machine \<Rightarrow> machine" where
  "restore_context new m =
     (let c = slots m ! new;
          m1 = load_pending_cr3 (m\<lparr>regs := (regs m)\<lparr>rsp_chirho := ctx_load 0 c\<rparr>\<rparr>);
          m2 = m1\<lparr>regs := (regs m1)\<lparr>rbp_chirho := ctx_load 8 c, rbx_chirho := ctx_load 16 c,
                 r12_chirho := ctx_load 24 c, r13_chirho := ctx_load 32 c, r14_chirho := ctx_load 40 c,
                 r15_chirho := ctx_load 48 c, rflags_chirho := ctx_load 64 c\<rparr>\<rparr>
      in ret (push (ctx_load 56 c) m2))"

definition switch_context_chirho :: "nat \<Rightarrow> nat \<Rightarrow> machine \<Rightarrow> machine" where
  "switch_context_chirho old new m = restore_context new (save_context old m)"

text \<open>The wrapper pushes the address of the resume stub (\<^verbatim>\<open>resume\<close>) as a synthetic
  return address and jumps to the routine; the stub enables interrupts and
  returns through the word the suspended caller left on its stack.\<close>

definition switch_context_return_wrapper_chirho ::
  "u64 \<Rightarrow> nat \<Rightarrow> nat \<Rightarrow> machine \<Rightarrow> machine" where
  "switch_context_return_wrapper_chirho resume old new m =
     switch_context_chirho old new (push resume m)"

definition switch_context_return_resume_chirho :: "machine \<Rightarrow> machine" where
  "switch_context_return_resume_chirho m = ret (sti m)"

text \<open>Offset by offset, the save half stores the registers into the fields of their names
  and the restore half loads them from there.\<close>

lemma save_context_fields:
  "save_context old m = m\<lparr>slots := (slots m)[old := (regs m)
     \<lparr>rsp_chirho := rsp_chirho (regs m) + 8, rip_chirho := stack_mem m (rsp_chirho (regs m))\<rparr>]\<rparr>"
proof -
  have "foldl (\<lambda>c (off, v). ctx_store off v c) c [(0, rsp_chirho r + 8), (8, rbp_chirho r), (16, rbx_chirho r),
      (24, r12_chirho r), (32, r13_chirho r), (40, r14_chirho r), (48, r15_chirho r), (56, a), (64, rflags_chirho r)] =
      r\<lparr>rsp_chirho := rsp_chirho r + 8, rip_chirho := a\<rparr>" for c r :: CpuContextChirho and a
    by (rule CpuContextChirho.equality) (simp_all add: ctx_store_def)
  then show ?thesis unfolding save_context_def Let_def by (simp only:)
qed

lemma restore_context_fields:
  "restore_context new m = (let c = slots m ! new in
     ret (push (rip_chirho c) (load_pending_cr3 (m\<lparr>regs := c\<rparr>))))"
  by (simp add: restore_context_def ctx_load_def load_pending_cr3_def ret_def push_def Let_def)

lemmas machine_defs_chirho [defs_chirho] =
  push_def ret_def sti_def save_context_fields load_pending_cr3_def restore_context_fields
  switch_context_chirho_def switch_context_return_wrapper_chirho_def
  switch_context_return_resume_chirho_def

section \<open>What a switch saves and what it loads\<close>

text \<open>The context stored for the outgoing task: its registers as they were at the
  call of the wrapper, to be entered at the resume stub.\<close>

lemma wrapper_saves:
  assumes "old < length (slots m)"
  shows "slots (switch_context_return_wrapper_chirho resume old new m) ! old =
    (regs m)\<lparr>rip_chirho := resume\<rparr>"
  using assms by (simp add: machine_defs_chirho Let_def)

lemma wrapper_keeps_slots:
  "slots (switch_context_return_wrapper_chirho resume old new m) =
    (slots m)[old := (regs m)\<lparr>rip_chirho := resume\<rparr>]"
  by (simp add: machine_defs_chirho Let_def)

lemma wrapper_loads:
  assumes "new < length (slots m)" "old \<noteq> new"
  shows "regs (switch_context_return_wrapper_chirho resume old new m) = slots m ! new"
  using assms by (simp add: machine_defs_chirho Let_def)

text \<open>The only words written are the one below the outgoing stack pointer and the
  one below the incoming one.\<close>

lemma wrapper_stack:
  assumes "new < length (slots m)" "old \<noteq> new"
    and "a \<noteq> rsp_chirho (regs m) - 8" "a \<noteq> rsp_chirho (slots m ! new) - 8"
  shows "stack_mem (switch_context_return_wrapper_chirho resume old new m) a = stack_mem m a"
  using assms by (simp add: machine_defs_chirho Let_def)

lemma wrapper_length [simp]:
  "length (slots (switch_context_return_wrapper_chirho resume old new m)) = length (slots m)"
  by (simp add: wrapper_keeps_slots)

text \<open>CR3 of the machine after a switch: the queued root, or what it was.\<close>

lemma wrapper_cr3:
  "cr3 (switch_context_return_wrapper_chirho resume old new m) =
    (if PENDING_CR3_CHIRHO m = 0 then cr3 m else PENDING_CR3_CHIRHO m)"
  "PENDING_CR3_CHIRHO (switch_context_return_wrapper_chirho resume old new m) = 0"
  by (simp_all add: machine_defs_chirho Let_def)

section \<open>Suspension and resumption\<close>

text \<open>A task is suspended in a slot when the slot holds its registers with the
  resume stub as entry point and the word on top of its stack is the address
  its call of the wrapper returns to.\<close>

definition suspended_in :: "u64 \<Rightarrow> nat \<Rightarrow> CpuContextChirho \<Rightarrow> u64 \<Rightarrow> machine \<Rightarrow> bool" where
  "suspended_in resume slot c k m \<longleftrightarrow> slot < length (slots m) \<and>
     slots m ! slot = c\<lparr>rip_chirho := resume\<rparr> \<and> stack_mem m (rsp_chirho c) = k"

text \<open>Sequences of further switches between other slots, the machine running
  arbitrary code in between that leaves the suspended slot and stack word
  alone.\<close>

inductive others_run :: "u64 \<Rightarrow> nat \<Rightarrow> u64 \<Rightarrow> machine \<Rightarrow> machine \<Rightarrow> bool"
  for resume :: u64 and slot :: nat and w :: u64 where
  none: "others_run resume slot w m m"
| run: "others_run resume slot w m m' \<Longrightarrow> length (slots m'') = length (slots m') \<Longrightarrow>
    slots m'' ! slot = slots m' ! slot \<Longrightarrow> stack_mem m'' w = stack_mem m' w \<Longrightarrow>
    others_run resume slot w m m''"
| switch: "others_run resume slot w m m' \<Longrightarrow> old \<noteq> slot \<Longrightarrow> new \<noteq> slot \<Longrightarrow> old \<noteq> new \<Longrightarrow>
    new < length (slots m') \<Longrightarrow> rsp_chirho (regs m') - 8 \<noteq> w \<Longrightarrow>
    rsp_chirho (slots m' ! new) - 8 \<noteq> w \<Longrightarrow>
    others_run resume slot w m (switch_context_return_wrapper_chirho resume old new m')"

lemma others_keep_suspended:
  assumes "others_run resume slot (rsp_chirho c) m m'" "suspended_in resume slot c k m"
  shows "suspended_in resume slot c k m'"
  using assms
proof (induction rule: others_run.induct)
  case (switch m m' old new)
  then show ?case
    by (auto simp: suspended_in_def wrapper_stack wrapper_keeps_slots)
qed (auto simp: suspended_in_def)

lemma wrapper_suspends:
  assumes "old < length (slots m)" "new < length (slots m)" "old \<noteq> new"
    and "rsp_chirho (slots m ! new) - 8 \<noteq> rsp_chirho (regs m)"
  shows "suspended_in resume old (regs m) (stack_mem m (rsp_chirho (regs m)))
    (switch_context_return_wrapper_chirho resume old new m)"
proof -
  have "rsp_chirho (regs m) \<noteq> rsp_chirho (regs m) - 8" by simp
  then show ?thesis
    using assms by (auto simp: suspended_in_def wrapper_keeps_slots intro!: wrapper_stack)
qed

lemma resume_suspended:
  assumes "suspended_in resume slot c k m" "cur \<noteq> slot" "rsp_chirho (regs m) - 8 \<noteq> rsp_chirho c"
  shows "regs (switch_context_return_resume_chirho
      (switch_context_return_wrapper_chirho resume cur slot m)) =
    c\<lparr>rsp_chirho := rsp_chirho c + 8, rip_chirho := k, rflags_chirho := rflags_chirho c OR 0x200\<rparr>"
  using assms
  by (simp add: suspended_in_def machine_defs_chirho Let_def)

text \<open>C32. A context switch is transparent to the task it suspends.  A task running on
  slot \<^verbatim>\<open>a\<close> switches to another slot; the machine then performs any number of
  further switches among other slots and runs other code that leaves the
  task's slot and its top stack word alone; when some slot switches back to
  \<^verbatim>\<open>a\<close>, the resume stub returns to the address the wrapper was called from, with
  the stack pointer just above it and every callee-saved register as it was,
  interrupts enabled.\<close>

theorem context_switch_round_trip:
  assumes "a < length (slots m)" "b < length (slots m)" "a \<noteq> b" "cur \<noteq> a"
    and "rsp_chirho (slots m ! b) - 8 \<noteq> rsp_chirho (regs m)"
    and "others_run resume a (rsp_chirho (regs m))
      (switch_context_return_wrapper_chirho resume a b m) m'"
    and "rsp_chirho (regs m') - 8 \<noteq> rsp_chirho (regs m)"
  shows "regs (switch_context_return_resume_chirho
      (switch_context_return_wrapper_chirho resume cur a m')) =
    (regs m)\<lparr>rsp_chirho := rsp_chirho (regs m) + 8,
      rip_chirho := stack_mem m (rsp_chirho (regs m)),
      rflags_chirho := rflags_chirho (regs m) OR 0x200\<rparr>"
  by (rule resume_suspended [OF others_keep_suspended [OF assms(6)] assms(4,7)])
    (rule wrapper_suspends [OF assms(1,2,3,5)])

definition demo_machine :: machine where
  "demo_machine = \<lparr>regs = zero_chirho\<lparr>rsp_chirho := 0x1000, rbx_chirho := 7\<rparr>, cr3 = 0x5000,
     PENDING_CR3_CHIRHO = 0x6000, stack_mem = (\<lambda>_. 0)(0x1000 := 0x400123),
     slots = replicate 128 (zero_chirho\<lparr>rsp_chirho := 0x2000, rip_chirho := 0x400900\<rparr>)\<rparr>"

theorem context_switch_round_trip_witness:
  "regs (switch_context_return_resume_chirho (switch_context_return_wrapper_chirho 0x4000 3 2
     (switch_context_return_wrapper_chirho 0x4000 2 3 demo_machine))) =
   zero_chirho\<lparr>rsp_chirho := 0x1008, rbx_chirho := 7, rip_chirho := 0x400123, rflags_chirho := 0x200\<rparr>"
proof -
  have "others_run 0x4000 2 0x1000 (switch_context_return_wrapper_chirho 0x4000 2 3 demo_machine)
      (switch_context_return_wrapper_chirho 0x4000 2 3 demo_machine)"
    by (rule others_run.none)
  with context_switch_round_trip [where a = 2 and m = demo_machine and b = 3 and cur = 3
      and resume = "0x4000" and m' = "switch_context_return_wrapper_chirho 0x4000 2 3 demo_machine"]
  show ?thesis by (simp add: demo_machine_def wrapper_loads zero_chirho_def)
qed

end
