(* ===== verification/Scheduler.thy ===== *)
theory Scheduler
  imports Context_Switch
begin

text \<open>
  Tasks and the run queue: \<^verbatim>\<open>sched_chirho/task_chirho.rs\<close> and
  \<^verbatim>\<open>sched_chirho/scheduler_chirho.rs\<close>.

  \<^verbatim>\<open>sched_state\<close> holds the globals of both files (the task list, the run queue,
  the lock-free flags and counters, the X11 bit set) together with the machine
  of \<^verbatim>\<open>Context_Switch\<close> and the model-specific registers the switch path writes.
  \<^verbatim>\<open>boot_env\<close> holds what is fixed after boot: the address of the resume stub and
  the boot page table as the lookup function it determines.  Operations run
  with interrupts disabled and the scheduler lock held, as in the code, and are
  therefore atomic; the interrupt-context variants that only \<^verbatim>\<open>try_lock\<close> take the
  outcome of the attempt as an argument.
\<close>

section \<open>Tasks\<close>

datatype TaskStateChirho = RunningChirho | ReadyChirho | SleepingChirho | BlockedChirho
  | StoppedChirho | ZombieChirho | DeadChirho

record TaskChirho =
  pid_chirho :: u64
  tgid_chirho :: u64
  ppid_chirho :: u64
  state_chirho :: TaskStateChirho
  exit_code_chirho :: int
  context_chirho :: CpuContextChirho
  kernel_stack_chirho :: u64
  kernel_stack_size_chirho :: usize
  page_table_root_chirho :: "u64 option"
  time_slice_chirho :: u64
  comm_chirho :: bytes
  fs_base_chirho :: u64
  gs_base_chirho :: u64
  sid_chirho :: u64
  pgid_chirho :: u64

definition KERNEL_STACK_SIZE_CHIRHO :: usize where "KERNEL_STACK_SIZE_CHIRHO = 64 * 1024"
definition TASK_DEFAULT_TIME_SLICE_CHIRHO :: u64 where "TASK_DEFAULT_TIME_SLICE_CHIRHO = 10"
definition TASK_COMM_LEN_CHIRHO :: nat where "TASK_COMM_LEN_CHIRHO = 16"

definition is_runnable_chirho :: "TaskChirho \<Rightarrow> bool" where
  "is_runnable_chirho t \<longleftrightarrow> state_chirho t \<in> {RunningChirho, ReadyChirho}"

definition is_exited_chirho :: "TaskChirho \<Rightarrow> bool" where
  "is_exited_chirho t \<longleftrightarrow> state_chirho t \<in> {ZombieChirho, DeadChirho}"

definition block_chirho :: "TaskChirho \<Rightarrow> TaskChirho" where
  "block_chirho t = t\<lparr>state_chirho := BlockedChirho\<rparr>"

definition wake_chirho :: "TaskChirho \<Rightarrow> TaskChirho" where
  "wake_chirho t = (if state_chirho t \<in> {BlockedChirho, SleepingChirho}
     then t\<lparr>state_chirho := ReadyChirho\<rparr> else t)"

definition task_reset_time_slice_chirho :: "TaskChirho \<Rightarrow> TaskChirho" where
  "task_reset_time_slice_chirho t = t\<lparr>time_slice_chirho := TASK_DEFAULT_TIME_SLICE_CHIRHO\<rparr>"

definition make_comm_chirho :: "bytes \<Rightarrow> bytes" where
  "make_comm_chirho name =
     (let n = min (length name) (TASK_COMM_LEN_CHIRHO - 1)
      in take n name @ replicate (TASK_COMM_LEN_CHIRHO - n) 0)"

text \<open>The bytes before the first NUL (the conversion to \<^verbatim>\<open>&str\<close> aside).\<close>

definition name_chirho :: "TaskChirho \<Rightarrow> bytes" where
  "name_chirho t = (case position (\<lambda>b. b = 0) (comm_chirho t) of
     Some n \<Rightarrow> take n (comm_chirho t) | None \<Rightarrow> take TASK_COMM_LEN_CHIRHO (comm_chirho t))"

section \<open>The run queue and the globals\<close>

definition DEFAULT_TIME_SLICE_CHIRHO :: u64 where "DEFAULT_TIME_SLICE_CHIRHO = 50"
definition X11_RENDER_TIME_SLICE_CHIRHO :: u64 where
  "X11_RENDER_TIME_SLICE_CHIRHO = DEFAULT_TIME_SLICE_CHIRHO * 3"
definition MAX_TASKS_CHIRHO :: nat where "MAX_TASKS_CHIRHO = 1024"
definition X11_RENDER_TASK_WORD_COUNT_CHIRHO :: nat where
  "X11_RENDER_TASK_WORD_COUNT_CHIRHO = (MAX_TASKS_CHIRHO + 63) div 64"

record RunQueueChirho =
  tasks_chirho :: "u64 list"
  current_pid_chirho :: "u64 option"
  remaining_ticks_chirho :: u64
  tick_count_chirho :: u64
  need_resched_chirho :: bool

definition run_queue_new_chirho :: RunQueueChirho where
  "run_queue_new_chirho = \<lparr>tasks_chirho = [], current_pid_chirho = None,
     remaining_ticks_chirho = DEFAULT_TIME_SLICE_CHIRHO, tick_count_chirho = 0,
     need_resched_chirho = False\<rparr>"

definition run_queue_len_chirho :: "RunQueueChirho \<Rightarrow> nat" where
  "run_queue_len_chirho q = length (tasks_chirho q)"

definition run_queue_is_empty_chirho :: "RunQueueChirho \<Rightarrow> bool" where
  "run_queue_is_empty_chirho q = (tasks_chirho q = [])"

record sched_state =
  SCHEDULER_CHIRHO :: "RunQueueChirho option"
  NEED_RESCHED_ATOMIC_CHIRHO :: bool
  GLOBAL_TICK_COUNT_CHIRHO :: u64
  TICK_LOCK_MISS_COUNTER_CHIRHO :: u64
  X11_RENDER_TASK_BITS_CHIRHO :: "u64 list"
  X11_RENDER_TASK_OVERFLOW_COUNT_CHIRHO :: u64
  X11_RENDER_TASK_OVERFLOW_REPORTED_CHIRHO :: bool
  TASK_LIST_CHIRHO :: "TaskChirho list"
  CURRENT_TASK_CHIRHO :: "u64 option"
  NEXT_PID_CHIRHO :: u64
  NEXT_STACK_ADDR_CHIRHO :: u64
  cpu :: machine
  fs_base_msr :: u64
  gs_base_msr :: u64
  KERNEL_STACK_TOP_CHIRHO :: u64
  tss_rsp0 :: u64

record boot_env =
  resume_addr :: u64
  boot_pt :: "u64 \<Rightarrow> (u64 \<times> u64) option"
  boot_pml4 :: u64

section \<open>Task list\<close>

definition allocate_pid_chirho :: "sched_state \<Rightarrow> u64 \<times> sched_state" where
  "allocate_pid_chirho s = (NEXT_PID_CHIRHO s, s\<lparr>NEXT_PID_CHIRHO := NEXT_PID_CHIRHO s + 1\<rparr>)"

definition find_task_by_pid_chirho :: "sched_state \<Rightarrow> u64 \<Rightarrow> TaskChirho option" where
  "find_task_by_pid_chirho s p = find (\<lambda>t. pid_chirho t = p) (TASK_LIST_CHIRHO s)"

definition register_task_chirho :: "TaskChirho \<Rightarrow> sched_state \<Rightarrow> sched_state" where
  "register_task_chirho t s = s\<lparr>TASK_LIST_CHIRHO := TASK_LIST_CHIRHO s @ [t]\<rparr>"

definition set_current_task_chirho :: "u64 \<Rightarrow> sched_state \<Rightarrow> sched_state" where
  "set_current_task_chirho p s = s\<lparr>CURRENT_TASK_CHIRHO := Some p\<rparr>"

definition is_task_runnable_chirho :: "sched_state \<Rightarrow> u64 \<Rightarrow> bool" where
  "is_task_runnable_chirho s p = (case find_task_by_pid_chirho s p of
     Some t \<Rightarrow> state_chirho t \<in> {ReadyChirho, RunningChirho} | None \<Rightarrow> False)"

text \<open>Locking the first task with the given PID and assigning to its fields.\<close>

fun update_task :: "u64 \<Rightarrow> (TaskChirho \<Rightarrow> TaskChirho) \<Rightarrow> TaskChirho list \<Rightarrow> TaskChirho list" where
  "update_task p f [] = []"
| "update_task p f (t # ts) = (if pid_chirho t = p then f t # ts else t # update_task p f ts)"

definition set_task_state :: "u64 \<Rightarrow> TaskStateChirho \<Rightarrow> sched_state \<Rightarrow> sched_state" where
  "set_task_state p st s = s\<lparr>TASK_LIST_CHIRHO :=
     update_task p (\<lambda>t. t\<lparr>state_chirho := st\<rparr>) (TASK_LIST_CHIRHO s)\<rparr>"

text \<open>Kernel stacks are handed out by a bump allocator in the upper half, one
  unmapped guard page above each.  \<^verbatim>\<open>frames\<close> says whether the frame allocator and
  mapper serve every page; if not, the kernel panics.\<close>

definition allocate_kernel_stack_chirho ::
  "bool \<Rightarrow> usize \<Rightarrow> sched_state \<Rightarrow> (u64 \<times> sched_state) option" where
  "allocate_kernel_stack_chirho frames sz s =
     (let num_pages = (sz + 4095) div 4096; base = NEXT_STACK_ADDR_CHIRHO s;
          s' = s\<lparr>NEXT_STACK_ADDR_CHIRHO := base + (num_pages + 1) * 4096\<rparr>
      in if frames then Some (base, s') else None)"

definition new_kernel_chirho ::
  "bool \<Rightarrow> bytes \<Rightarrow> u64 \<Rightarrow> sched_state \<Rightarrow> (TaskChirho \<times> sched_state) option" where
  "new_kernel_chirho frames name entry s =
     (let (pid, s1) = allocate_pid_chirho s in
      case allocate_kernel_stack_chirho frames KERNEL_STACK_SIZE_CHIRHO s1 of
        None \<Rightarrow> None
      | Some (stack, s2) \<Rightarrow>
          let top = stack + KERNEL_STACK_SIZE_CHIRHO in
          Some (\<lparr>pid_chirho = pid, tgid_chirho = pid, ppid_chirho = 0,
            state_chirho = ReadyChirho, exit_code_chirho = 0,
            context_chirho = zero_chirho\<lparr>rip_chirho := entry, rsp_chirho := top,
              rflags_chirho := 0x200\<rparr>,
            kernel_stack_chirho = top, kernel_stack_size_chirho = KERNEL_STACK_SIZE_CHIRHO,
            page_table_root_chirho = None, time_slice_chirho = TASK_DEFAULT_TIME_SLICE_CHIRHO,
            comm_chirho = make_comm_chirho name, fs_base_chirho = 0, gs_base_chirho = 0,
            sid_chirho = pid, pgid_chirho = pid\<rparr>, s2))"

text \<open>Boot creates PID 0, which is running and whose slot stays zero, and PID 1,
  whose context goes to its slot.  The two entry addresses and names are
  arguments.\<close>

definition init_tasking_chirho ::
  "bool \<Rightarrow> bytes \<times> u64 \<Rightarrow> bytes \<times> u64 \<Rightarrow> sched_state \<Rightarrow> sched_state option" where
  "init_tasking_chirho frames idle init s =
     (case new_kernel_chirho frames (fst idle) (snd idle) s of
        None \<Rightarrow> None
      | Some (t0, s1) \<Rightarrow>
          (let s2 = set_current_task_chirho (pid_chirho t0)
                      (register_task_chirho (t0\<lparr>state_chirho := RunningChirho\<rparr>) s1)
           in case new_kernel_chirho frames (fst init) (snd init) s2 of
                None \<Rightarrow> None
              | Some (t1, s3) \<Rightarrow>
                  Some (register_task_chirho t1 (s3\<lparr>cpu := (cpu s3)\<lparr>slots :=
                    sync_context_to_slot_chirho (pid_chirho t1) (context_chirho t1)
                      (slots (cpu s3))\<rparr>\<rparr>))))"

section \<open>X11 render classification and time slices\<close>

datatype X11RenderTaskMarkOutcomeChirho = MarkedChirho | AlreadyMarkedChirho
  | CapacityExceededChirho u64 nat

definition record_x11_render_task_overflow_chirho ::
  "u64 \<Rightarrow> sched_state \<Rightarrow> X11RenderTaskMarkOutcomeChirho \<times> sched_state" where
  "record_x11_render_task_overflow_chirho pid s =
     (CapacityExceededChirho pid MAX_TASKS_CHIRHO,
      s\<lparr>X11_RENDER_TASK_OVERFLOW_COUNT_CHIRHO :=
          saturating_add (X11_RENDER_TASK_OVERFLOW_COUNT_CHIRHO s) 1,
        X11_RENDER_TASK_OVERFLOW_REPORTED_CHIRHO := True\<rparr>)"

definition mark_x11_render_task_chirho ::
  "u64 \<Rightarrow> sched_state \<Rightarrow> X11RenderTaskMarkOutcomeChirho \<times> sched_state" where
  "mark_x11_render_task_chirho pid s =
     (if unat pid \<ge> MAX_TASKS_CHIRHO then record_x11_render_task_overflow_chirho pid s
      else let w = unat pid div 64; b = shl_u64 1 (unat pid mod 64);
               old = X11_RENDER_TASK_BITS_CHIRHO s ! w;
               s' = s\<lparr>X11_RENDER_TASK_BITS_CHIRHO :=
                        (X11_RENDER_TASK_BITS_CHIRHO s)[w := old OR b]\<rparr>
           in (if old AND b = 0 then MarkedChirho else AlreadyMarkedChirho, s'))"

definition is_x11_render_task_chirho :: "sched_state \<Rightarrow> u64 \<Rightarrow> bool" where
  "is_x11_render_task_chirho s pid =
     (unat pid < MAX_TASKS_CHIRHO \<and>
      X11_RENDER_TASK_BITS_CHIRHO s ! (unat pid div 64) AND shl_u64 1 (unat pid mod 64) \<noteq> 0)"

definition time_slice_for_pid_chirho :: "sched_state \<Rightarrow> u64 \<Rightarrow> u64" where
  "time_slice_for_pid_chirho s pid =
     (if is_x11_render_task_chirho s pid then X11_RENDER_TIME_SLICE_CHIRHO
      else if pid \<ge> 12 then DEFAULT_TIME_SLICE_CHIRHO * 2
      else DEFAULT_TIME_SLICE_CHIRHO)"

section \<open>Validating a saved context\<close>

text \<open>\<^verbatim>\<open>PRESENT\<close> is bit 0 of a page-table entry, \<^verbatim>\<open>USER_ACCESSIBLE\<close> bit 2 and
  \<^verbatim>\<open>NO_EXECUTE\<close> bit 63.\<close>

definition is_kernel_instruction_address_chirho :: "boot_env \<Rightarrow> u64 \<Rightarrow> bool" where
  "is_kernel_instruction_address_chirho e addr =
     (case boot_pt e addr of None \<Rightarrow> False
      | Some (_, flags) \<Rightarrow> bit flags 0 \<and> \<not> bit flags 2 \<and> \<not> bit flags 63)"

definition task_context_is_valid_chirho :: "boot_env \<Rightarrow> sched_state \<Rightarrow> u64 \<Rightarrow> bool" where
  "task_context_is_valid_chirho e s pid =
     (case context_ptr_chirho pid of None \<Rightarrow> False | Some slot \<Rightarrow>
      (case find_task_by_pid_chirho s pid of None \<Rightarrow> False | Some t \<Rightarrow>
       (let top = kernel_stack_chirho t; sz = kernel_stack_size_chirho t in
        if top < sz then False else
        (let base = top - sz; c = slots (cpu s) ! slot;
             rip = rip_chirho c; rsp = rsp_chirho c;
             rsp_in_stack = (sz > 0 \<and> rsp \<ge> base \<and> rsp \<le> top \<and> rsp AND 7 = 0);
             is_resumed = (rip = resume_addr e);
             second_fits = (is_resumed \<and> rsp_in_stack \<and> rsp \<le> saturating_sub top 8);
             second_rip = (if second_fits then stack_mem (cpu s) rsp else 0);
             rip_ok = is_kernel_instruction_address_chirho e rip;
             second_ok = (\<not> is_resumed \<or>
               (second_fits \<and> is_kernel_instruction_address_chirho e second_rip))
         in rsp_in_stack \<and> rip_ok \<and> second_ok))))"

section \<open>Run queue operations\<close>

definition with_scheduler ::
  "(RunQueueChirho \<Rightarrow> RunQueueChirho) \<Rightarrow> sched_state \<Rightarrow> sched_state" where
  "with_scheduler f s = s\<lparr>SCHEDULER_CHIRHO := map_option f (SCHEDULER_CHIRHO s)\<rparr>"

text \<open>A second initialisation panics.\<close>

definition init_scheduler_chirho :: "sched_state \<Rightarrow> sched_state option" where
  "init_scheduler_chirho s = (case SCHEDULER_CHIRHO s of
     Some _ \<Rightarrow> None | None \<Rightarrow> Some (s\<lparr>SCHEDULER_CHIRHO := Some run_queue_new_chirho\<rparr>))"

definition rq_add_task :: "u64 \<Rightarrow> RunQueueChirho \<Rightarrow> RunQueueChirho" where
  "rq_add_task pid q =
     (if length (tasks_chirho q) \<ge> MAX_TASKS_CHIRHO then q
      else if current_pid_chirho q = Some pid \<or> pid \<in> set (tasks_chirho q) then q
      else q\<lparr>tasks_chirho := pid # tasks_chirho q\<rparr>)"

definition add_task_chirho :: "u64 \<Rightarrow> sched_state \<Rightarrow> sched_state" where
  "add_task_chirho pid = with_scheduler (rq_add_task pid)"

definition remove_task_chirho :: "u64 \<Rightarrow> sched_state \<Rightarrow> sched_state" where
  "remove_task_chirho pid s = (case SCHEDULER_CHIRHO s of None \<Rightarrow> s | Some q \<Rightarrow>
     if current_pid_chirho q = Some pid
     then s\<lparr>SCHEDULER_CHIRHO := Some (q\<lparr>need_resched_chirho := True\<rparr>),
            NEED_RESCHED_ATOMIC_CHIRHO := True\<rparr>
     else (case position (\<lambda>p. p = pid) (tasks_chirho q) of
             Some i \<Rightarrow> s\<lparr>SCHEDULER_CHIRHO :=
               Some (q\<lparr>tasks_chirho := remove_at i (tasks_chirho q)\<rparr>)\<rparr>
           | None \<Rightarrow> s))"

definition unblock_task_chirho :: "u64 \<Rightarrow> sched_state \<Rightarrow> sched_state" where
  "unblock_task_chirho pid s = add_task_chirho pid (set_task_state pid ReadyChirho s)"

definition promote_task_chirho :: "u64 \<Rightarrow> sched_state \<Rightarrow> sched_state" where
  "promote_task_chirho pid = with_scheduler (\<lambda>q.
     case position (\<lambda>p. p = pid) (tasks_chirho q) of
       Some i \<Rightarrow> q\<lparr>tasks_chirho := pid # remove_at i (tasks_chirho q)\<rparr>
     | None \<Rightarrow> q)"

definition set_current_pid_chirho :: "u64 \<Rightarrow> sched_state \<Rightarrow> sched_state" where
  "set_current_pid_chirho pid = with_scheduler (\<lambda>q. q\<lparr>current_pid_chirho := Some pid\<rparr>)"

definition sched_current_pid_chirho :: "sched_state \<Rightarrow> u64 option" where
  "sched_current_pid_chirho s = Option.bind (SCHEDULER_CHIRHO s) current_pid_chirho"

definition try_current_pid_chirho :: "bool \<Rightarrow> sched_state \<Rightarrow> u64 option" where
  "try_current_pid_chirho locked s = (if locked then sched_current_pid_chirho s else None)"

definition has_runnable_tasks_chirho :: "bool \<Rightarrow> sched_state \<Rightarrow> bool" where
  "has_runnable_tasks_chirho locked s =
     (locked \<and> (case SCHEDULER_CHIRHO s of None \<Rightarrow> False | Some q \<Rightarrow> tasks_chirho q \<noteq> []))"

definition task_count_chirho :: "bool \<Rightarrow> sched_state \<Rightarrow> nat" where
  "task_count_chirho locked s = (if \<not> locked then 0 else
     case SCHEDULER_CHIRHO s of None \<Rightarrow> 0
     | Some q \<Rightarrow> length (tasks_chirho q) + (if current_pid_chirho q = None then 0 else 1))"

text \<open>The timer tick; \<^verbatim>\<open>locked\<close> is whether \<^verbatim>\<open>try_lock\<close> succeeded.\<close>

definition rq_tick :: "u64 \<Rightarrow> RunQueueChirho \<Rightarrow> RunQueueChirho \<times> bool" where
  "rq_tick now q =
     (let q1 = q\<lparr>tick_count_chirho := now\<rparr> in
      if current_pid_chirho q1 = None then (q1, False)
      else let q2 = q1\<lparr>remaining_ticks_chirho := saturating_sub (remaining_ticks_chirho q1) 1\<rparr>
           in if remaining_ticks_chirho q2 = 0 then (q2\<lparr>need_resched_chirho := True\<rparr>, True)
              else (q2, False))"

definition schedule_tick_chirho :: "bool \<Rightarrow> sched_state \<Rightarrow> sched_state" where
  "schedule_tick_chirho locked s =
     (let s1 = s\<lparr>GLOBAL_TICK_COUNT_CHIRHO := GLOBAL_TICK_COUNT_CHIRHO s + 1\<rparr> in
      if \<not> locked
      then s1\<lparr>TICK_LOCK_MISS_COUNTER_CHIRHO := TICK_LOCK_MISS_COUNTER_CHIRHO s1 + 1\<rparr>
      else case SCHEDULER_CHIRHO s1 of None \<Rightarrow> s1
           | Some q \<Rightarrow>
               (let (q', expired) = rq_tick (GLOBAL_TICK_COUNT_CHIRHO s1) q
                in s1\<lparr>SCHEDULER_CHIRHO := Some q',
                      NEED_RESCHED_ATOMIC_CHIRHO := expired \<or> NEED_RESCHED_ATOMIC_CHIRHO s1\<rparr>))"

definition reset_time_slice_chirho :: "bool \<Rightarrow> sched_state \<Rightarrow> sched_state" where
  "reset_time_slice_chirho locked s =
     (let s1 = s\<lparr>NEED_RESCHED_ATOMIC_CHIRHO := False\<rparr> in
      if \<not> locked then s1
      else with_scheduler (\<lambda>q. q\<lparr>remaining_ticks_chirho :=
             (case current_pid_chirho q of Some p \<Rightarrow> time_slice_for_pid_chirho s1 p
              | None \<Rightarrow> DEFAULT_TIME_SLICE_CHIRHO), need_resched_chirho := False\<rparr>) s1)"

section \<open>Scheduling\<close>

text \<open>Step 2 of \<^verbatim>\<open>schedule_chirho\<close>: a current task that is still runnable goes to the
  back of the queue.\<close>

definition requeue_current :: "sched_state \<Rightarrow> RunQueueChirho \<Rightarrow> u64 list" where
  "requeue_current s q = (case current_pid_chirho q of
     Some p \<Rightarrow> if is_task_runnable_chirho s p then tasks_chirho q @ [p] else tasks_chirho q
   | None \<Rightarrow> tasks_chirho q)"

text \<open>Step 3: pop from the front, discarding what cannot run.\<close>

definition candidate_ok :: "boot_env \<Rightarrow> sched_state \<Rightarrow> u64 option \<Rightarrow> u64 \<Rightarrow> bool" where
  "candidate_ok e s old p \<longleftrightarrow>
     is_task_runnable_chirho s p \<and> (old = Some p \<or> task_context_is_valid_chirho e s p)"

fun pick_runnable :: "(u64 \<Rightarrow> bool) \<Rightarrow> u64 list \<Rightarrow> u64 option \<times> u64 list" where
  "pick_runnable ok [] = (None, [])"
| "pick_runnable ok (p # ps) = (if ok p then (Some p, ps) else pick_runnable ok ps)"

text \<open>Saving the outgoing FS and GS bases, queueing the incoming page table, and
  pointing the system-call stack at the incoming task.\<close>

definition save_bases :: "u64 option \<Rightarrow> sched_state \<Rightarrow> sched_state" where
  "save_bases old s = (case old of None \<Rightarrow> s
     | Some p \<Rightarrow> s\<lparr>TASK_LIST_CHIRHO := update_task p
         (\<lambda>t. t\<lparr>fs_base_chirho := fs_base_msr s, gs_base_chirho := gs_base_msr s\<rparr>)
         (TASK_LIST_CHIRHO s)\<rparr>)"

definition switch_root :: "boot_env \<Rightarrow> u64 \<Rightarrow> sched_state \<Rightarrow> u64" where
  "switch_root e next s =
     (case Option.bind (find_task_by_pid_chirho s next) page_table_root_chirho of
        Some r \<Rightarrow> r | None \<Rightarrow> boot_pml4 e)"

definition set_syscall_stack :: "u64 \<Rightarrow> sched_state \<Rightarrow> sched_state" where
  "set_syscall_stack next s = (case find_task_by_pid_chirho s next of
     Some t \<Rightarrow> if kernel_stack_chirho t \<noteq> 0
               then s\<lparr>KERNEL_STACK_TOP_CHIRHO := kernel_stack_chirho t\<rparr> else s
   | None \<Rightarrow> s)"

definition arch_prepare_switch_chirho ::
  "boot_env \<Rightarrow> u64 option \<Rightarrow> u64 \<Rightarrow> sched_state \<Rightarrow> sched_state" where
  "arch_prepare_switch_chirho e old next s =
     (let s1 = save_bases old s
      in set_syscall_stack next
           (s1\<lparr>cpu := set_pending_cr3_chirho (switch_root e next s1) (cpu s1)\<rparr>))"

text \<open>Publishing the incoming task (system-call and interrupt stack, current task,
  FS and GS bases).\<close>

definition publish_task :: "TaskChirho \<Rightarrow> sched_state \<Rightarrow> sched_state" where
  "publish_task t s = (set_current_task_chirho (pid_chirho t) s)
     \<lparr>tss_rsp0 := kernel_stack_chirho t, KERNEL_STACK_TOP_CHIRHO := kernel_stack_chirho t,
      fs_base_msr := fs_base_chirho t, gs_base_msr := gs_base_chirho t\<rparr>"

definition switch_slots :: "boot_env \<Rightarrow> nat \<Rightarrow> nat \<Rightarrow> sched_state \<Rightarrow> sched_state" where
  "switch_slots e old new s =
     s\<lparr>cpu := switch_context_return_wrapper_chirho (resume_addr e) old new (cpu s)\<rparr>"

text \<open>How a call of \<^verbatim>\<open>schedule_chirho\<close> leaves the processor: not initialised, still in
  the same task, switched to another one, in the boot context, in the idle
  loop of the caller, or panicked.  \<^verbatim>\<open>NullContext\<close> is the case of an outgoing task
  beyond the context slots, whose registers the assembly routine would store
  through a null pointer.\<close>

datatype schedule_outcome = NoScheduler | StaysOn u64 | SwitchedTo u64 | ToBootContext
  | IdleLoop | VanishedPanic | NullContext

definition dispatch ::
  "boot_env \<Rightarrow> u64 option \<Rightarrow> u64 \<Rightarrow> sched_state \<Rightarrow> schedule_outcome \<times> sched_state" where
  "dispatch e old next s =
     (case (case old of Some p \<Rightarrow> context_ptr_chirho p | None \<Rightarrow> Some boot_context_ptr_chirho) of
        None \<Rightarrow> (NullContext, s)
      | Some old_slot \<Rightarrow>
          (let s1 = arch_prepare_switch_chirho e old next s in
           case find_task_by_pid_chirho s1 next of
             None \<Rightarrow> (VanishedPanic, s1)
           | Some t \<Rightarrow> (SwitchedTo next,
               switch_slots e old_slot (unat next) (publish_task t s1))))"

definition schedule_chirho :: "boot_env \<Rightarrow> sched_state \<Rightarrow> schedule_outcome \<times> sched_state" where
  "schedule_chirho e s = (case SCHEDULER_CHIRHO s of None \<Rightarrow> (NoScheduler, s) | Some q \<Rightarrow>
     (let old = current_pid_chirho q;
          (next, rest) = pick_runnable (candidate_ok e s old) (requeue_current s q);
          q1 = q\<lparr>need_resched_chirho := False, tasks_chirho := rest\<rparr>;
          s1 = s\<lparr>NEED_RESCHED_ATOMIC_CHIRHO := False, SCHEDULER_CHIRHO := Some q1\<rparr>
      in case next of
           None \<Rightarrow> (case Option.bind old context_ptr_chirho of
                      Some slot \<Rightarrow> (ToBootContext, switch_slots e slot boot_context_ptr_chirho s1)
                    | None \<Rightarrow> (IdleLoop, s1))
         | Some p \<Rightarrow>
             (let s2 = s1\<lparr>SCHEDULER_CHIRHO := Some (q1\<lparr>current_pid_chirho := Some p,
                           remaining_ticks_chirho := time_slice_for_pid_chirho s p\<rparr>)\<rparr>
              in if old = Some p then (StaysOn p, s2) else dispatch e old p s2)))"

text \<open>What the outgoing task does when it is resumed after the boot-context branch,
  and one turn of the idle loop (\<^verbatim>\<open>locked\<close>: the \<^verbatim>\<open>try_lock\<close> after \<^verbatim>\<open>hlt\<close>).\<close>

definition after_boot_context :: "sched_state \<Rightarrow> sched_state" where
  "after_boot_context = with_scheduler (\<lambda>q. q\<lparr>current_pid_chirho := None\<rparr>)"

definition idle_turn :: "boot_env \<Rightarrow> bool \<Rightarrow> sched_state \<Rightarrow> schedule_outcome \<times> sched_state" where
  "idle_turn e locked s = (if \<not> locked then (IdleLoop, s) else
     case SCHEDULER_CHIRHO s of None \<Rightarrow> (IdleLoop, s)
     | Some q \<Rightarrow>
         (case tasks_chirho q of [] \<Rightarrow> (IdleLoop, s)
          | p # rest \<Rightarrow>
              if \<not> task_context_is_valid_chirho e s p
              then (IdleLoop, s\<lparr>SCHEDULER_CHIRHO := Some (q\<lparr>tasks_chirho := rest\<rparr>)\<rparr>)
              else (let s1 = s\<lparr>SCHEDULER_CHIRHO := Some (q\<lparr>tasks_chirho := rest,
                         current_pid_chirho := Some p,
                         remaining_ticks_chirho := time_slice_for_pid_chirho s p\<rparr>)\<rparr>;
                        s2 = arch_prepare_switch_chirho e None p s1;
                        s3 = (case find_task_by_pid_chirho s2 p of
                                Some t \<Rightarrow> publish_task t s2 | None \<Rightarrow> s2)
                    in (SwitchedTo p, switch_slots e boot_context_ptr_chirho (unat p) s3))))"

definition mark_current_sleeping :: "sched_state \<Rightarrow> sched_state" where
  "mark_current_sleeping s = (case SCHEDULER_CHIRHO s of None \<Rightarrow> s | Some q \<Rightarrow>
     (case current_pid_chirho q of None \<Rightarrow> s
      | Some p \<Rightarrow> (set_task_state p SleepingChirho s)
          \<lparr>SCHEDULER_CHIRHO := Some (q\<lparr>need_resched_chirho := True\<rparr>),
           NEED_RESCHED_ATOMIC_CHIRHO := True\<rparr>))"

definition block_current_chirho ::
  "boot_env \<Rightarrow> sched_state \<Rightarrow> u64 option \<times> sched_state" where
  "block_current_chirho e s =
     (let blocked = sched_current_pid_chirho s; s1 = mark_current_sleeping s
      in (blocked, if blocked = None then s1 else snd (schedule_chirho e s1)))"

definition yield_current_chirho :: "boot_env \<Rightarrow> sched_state \<Rightarrow> schedule_outcome \<times> sched_state" where
  "yield_current_chirho e s =
     schedule_chirho e (case SCHEDULER_CHIRHO s of None \<Rightarrow> s
       | Some q \<Rightarrow> s\<lparr>SCHEDULER_CHIRHO := Some (q\<lparr>remaining_ticks_chirho := 0,
             need_resched_chirho := True\<rparr>), NEED_RESCHED_ATOMIC_CHIRHO := True\<rparr>)"

section \<open>The round-robin policy object\<close>

record RoundRobinPolicyChirho =
  queue_chirho :: "u64 list"

definition rr_new_chirho :: RoundRobinPolicyChirho where
  "rr_new_chirho = \<lparr>queue_chirho = []\<rparr>"

definition rr_pick_next_chirho :: "RoundRobinPolicyChirho \<Rightarrow> u64 option \<times> RoundRobinPolicyChirho" where
  "rr_pick_next_chirho r = (case queue_chirho r of [] \<Rightarrow> (None, r)
     | p # ps \<Rightarrow> (Some p, r\<lparr>queue_chirho := ps\<rparr>))"

definition rr_task_tick_chirho :: "u64 \<Rightarrow> RoundRobinPolicyChirho \<Rightarrow> RoundRobinPolicyChirho" where
  "rr_task_tick_chirho pid r = r"

definition rr_enqueue_chirho :: "u64 \<Rightarrow> RoundRobinPolicyChirho \<Rightarrow> RoundRobinPolicyChirho" where
  "rr_enqueue_chirho pid r = (if pid \<in> set (queue_chirho r) then r
     else r\<lparr>queue_chirho := queue_chirho r @ [pid]\<rparr>)"

definition rr_dequeue_chirho :: "u64 \<Rightarrow> RoundRobinPolicyChirho \<Rightarrow> RoundRobinPolicyChirho" where
  "rr_dequeue_chirho pid r = (case position (\<lambda>p. p = pid) (queue_chirho r) of
     Some i \<Rightarrow> r\<lparr>queue_chirho := remove_at i (queue_chirho r)\<rparr> | None \<Rightarrow> r)"

section \<open>The run queue invariant\<close>

text \<open>The queue holds each task once, never the running one, and stays within
  \<^const>\<open>MAX_TASKS_CHIRHO\<close>.\<close>

definition rq_ok :: "RunQueueChirho \<Rightarrow> bool" where
  "rq_ok q \<longleftrightarrow> distinct (tasks_chirho q) \<and> length (tasks_chirho q) \<le> MAX_TASKS_CHIRHO \<and>
     (\<forall>p. current_pid_chirho q = Some p \<longrightarrow> p \<notin> set (tasks_chirho q))"

definition sched_ok :: "sched_state \<Rightarrow> bool" where
  "sched_ok s \<longleftrightarrow> (\<forall>q. SCHEDULER_CHIRHO s = Some q \<longrightarrow> rq_ok q)"

definition queued :: "sched_state \<Rightarrow> u64 list" where
  "queued s = (case SCHEDULER_CHIRHO s of None \<Rightarrow> [] | Some q \<Rightarrow> tasks_chirho q)"

definition scheduled :: "sched_state \<Rightarrow> u64 set" where
  "scheduled s = set (queued s) \<union> set_option (sched_current_pid_chirho s)"

subsection \<open>Queue surgery\<close>

lemma distinct_remove_at: "distinct xs \<Longrightarrow> distinct (remove_at i xs)"
  using set_take_disj_set_drop_if_distinct [of xs i "Suc i"] by (simp add: remove_at_def)

lemma remove_first_occurrence:
  "distinct xs \<Longrightarrow> position (\<lambda>p. p = x) xs = Some i \<Longrightarrow> set (remove_at i xs) = set xs - {x}"
proof (induction xs arbitrary: i)
  case (Cons y ys)
  then show ?case
    by (cases "y = x") (auto simp: remove_at_def split: option.splits)
qed simp

lemma length_remove_at_le: "length (remove_at i xs) \<le> length xs"
  by (simp add: remove_at_def)

lemma pick_runnable_Some:
  "pick_runnable ok ps = (Some p, rest) \<longleftrightarrow>
    (\<exists>skipped. ps = skipped @ p # rest \<and> ok p \<and> (\<forall>x\<in>set skipped. \<not> ok x))"
proof (induction ps)
  case Nil
  then show ?case by simp
next
  case (Cons a ps)
  show ?case
    by (cases "ok a") (auto simp: Cons.IH Cons_eq_append_conv)
qed

lemma pick_runnable_None:
  "pick_runnable ok ps = (None, rest) \<longleftrightarrow> rest = [] \<and> (\<forall>x\<in>set ps. \<not> ok x)"
  by (induction ps) auto

subsection \<open>Each operation on the queue\<close>

lemma rq_ok_new: "rq_ok run_queue_new_chirho"
  by (simp add: rq_ok_def run_queue_new_chirho_def)

lemma rq_ok_add: "rq_ok q \<Longrightarrow> rq_ok (rq_add_task p q)"
  by (auto simp: rq_ok_def rq_add_task_def)

lemma rq_ok_update [simp]:
  "rq_ok (q\<lparr>need_resched_chirho := b\<rparr>) = rq_ok q"
  "rq_ok (q\<lparr>remaining_ticks_chirho := t\<rparr>) = rq_ok q"
  "rq_ok (q\<lparr>tick_count_chirho := t\<rparr>) = rq_ok q"
  by (simp_all add: rq_ok_def)

lemma rq_ok_no_current: "rq_ok q \<Longrightarrow> rq_ok (q\<lparr>current_pid_chirho := None\<rparr>)"
  by (simp add: rq_ok_def)

lemma rq_ok_tick: "rq_ok q \<Longrightarrow> rq_ok (fst (rq_tick now q))"
  by (simp add: rq_tick_def Let_def)

lemma sched_ok_with:
  "sched_ok s \<Longrightarrow> (\<And>q. rq_ok q \<Longrightarrow> rq_ok (f q)) \<Longrightarrow> sched_ok (with_scheduler f s)"
  by (auto simp: sched_ok_def with_scheduler_def)

lemma sched_ok_cong: "SCHEDULER_CHIRHO s' = SCHEDULER_CHIRHO s \<Longrightarrow> sched_ok s' = sched_ok s"
  by (simp add: sched_ok_def)

lemma sched_ok_add [inv_chirho]: "sched_ok s \<Longrightarrow> sched_ok (add_task_chirho p s)"
  unfolding add_task_chirho_def by (rule sched_ok_with) (auto intro: rq_ok_add)

lemma sched_ok_set_task_state [simp]: "sched_ok (set_task_state p st s) = sched_ok s"
  by (simp add: sched_ok_def set_task_state_def)

lemma sched_ok_unblock [inv_chirho]: "sched_ok s \<Longrightarrow> sched_ok (unblock_task_chirho p s)"
  by (simp add: unblock_task_chirho_def sched_ok_add)

lemma rq_ok_shrink:
  "rq_ok q \<Longrightarrow> rq_ok (q\<lparr>tasks_chirho := remove_at i (tasks_chirho q)\<rparr>)"
  using set_remove_at_subset [of i "tasks_chirho q"] length_remove_at_le [of i "tasks_chirho q"]
  by (auto simp: rq_ok_def distinct_remove_at dest: order_trans)

lemma sched_ok_remove [inv_chirho]: "sched_ok s \<Longrightarrow> sched_ok (remove_task_chirho p s)"
  by (auto simp: remove_task_chirho_def sched_ok_def intro: rq_ok_shrink split: option.splits)

lemma rq_ok_promote:
  assumes "rq_ok q" "position (\<lambda>x. x = p) (tasks_chirho q) = Some i"
  shows "rq_ok (q\<lparr>tasks_chirho := p # remove_at i (tasks_chirho q)\<rparr>)"
proof -
  have "set (remove_at i (tasks_chirho q)) = set (tasks_chirho q) - {p}"
    using assms by (auto simp: rq_ok_def remove_first_occurrence)
  moreover have "p \<in> set (tasks_chirho q)" "i < length (tasks_chirho q)"
    using assms(2) by (auto simp: position_Some_iff)
  ultimately show ?thesis
    using assms(1) by (auto simp: rq_ok_def distinct_remove_at length_remove_at)
qed

lemma sched_ok_promote [inv_chirho]: "sched_ok s \<Longrightarrow> sched_ok (promote_task_chirho p s)"
  unfolding promote_task_chirho_def
  by (rule sched_ok_with) (auto split: option.splits intro: rq_ok_promote)

lemma sched_ok_tick [inv_chirho]:
  assumes "sched_ok s"
  shows "sched_ok (schedule_tick_chirho l s)"
proof (cases "SCHEDULER_CHIRHO s")
  case None
  then show ?thesis by (simp add: schedule_tick_chirho_def sched_ok_def Let_def)
next
  case (Some q)
  then have "rq_ok q" using assms by (simp add: sched_ok_def)
  then show ?thesis
    using Some rq_ok_tick [of q]
    by (simp add: schedule_tick_chirho_def sched_ok_def Let_def case_prod_beta)
qed

lemma sched_ok_reset [inv_chirho]: "sched_ok s \<Longrightarrow> sched_ok (reset_time_slice_chirho l s)"
  by (auto simp: reset_time_slice_chirho_def Let_def sched_ok_def with_scheduler_def)

lemma sched_ok_after_boot [inv_chirho]: "sched_ok s \<Longrightarrow> sched_ok (after_boot_context s)"
  unfolding after_boot_context_def by (rule sched_ok_with) (auto intro: rq_ok_no_current)

lemma sched_ok_set_current [inv_chirho]:
  "sched_ok s \<Longrightarrow> p \<notin> set (queued s) \<Longrightarrow> sched_ok (set_current_pid_chirho p s)"
  by (auto simp: set_current_pid_chirho_def sched_ok_def with_scheduler_def queued_def rq_ok_def)

lemma sched_ok_sleeping [inv_chirho]: "sched_ok s \<Longrightarrow> sched_ok (mark_current_sleeping s)"
  by (auto simp: mark_current_sleeping_def sched_ok_def split: option.splits)

subsection \<open>The effect of scheduling on the queue\<close>

lemma scheduler_prepare [simp]:
  "SCHEDULER_CHIRHO (arch_prepare_switch_chirho e old p s) = SCHEDULER_CHIRHO s"
  by (simp add: arch_prepare_switch_chirho_def Let_def save_bases_def set_syscall_stack_def
      split: option.split)

lemma scheduler_publish [simp]: "SCHEDULER_CHIRHO (publish_task t s) = SCHEDULER_CHIRHO s"
  by (simp add: publish_task_def set_current_task_chirho_def)

lemma scheduler_switch [simp]: "SCHEDULER_CHIRHO (switch_slots e a b s) = SCHEDULER_CHIRHO s"
  by (simp add: switch_slots_def)

lemma scheduler_dispatch [simp]:
  "SCHEDULER_CHIRHO (snd (dispatch e old p s)) = SCHEDULER_CHIRHO s"
  unfolding dispatch_def Let_def by (simp split: option.split)

text \<open>The queue after \<^verbatim>\<open>schedule_chirho\<close>, with the selection as a function of the queue
  before.\<close>

definition selection :: "boot_env \<Rightarrow> sched_state \<Rightarrow> RunQueueChirho \<Rightarrow> u64 option \<times> u64 list" where
  "selection e s q = pick_runnable (candidate_ok e s (current_pid_chirho q)) (requeue_current s q)"

lemma schedule_queue:
  assumes "SCHEDULER_CHIRHO s = Some q"
  shows "SCHEDULER_CHIRHO (snd (schedule_chirho e s)) = Some (case selection e s q of
     (None, rest) \<Rightarrow> q\<lparr>need_resched_chirho := False, tasks_chirho := rest\<rparr>
   | (Some p, rest) \<Rightarrow> q\<lparr>need_resched_chirho := False, tasks_chirho := rest,
       current_pid_chirho := Some p, remaining_ticks_chirho := time_slice_for_pid_chirho s p\<rparr>)"
  using assms
  by (simp add: schedule_chirho_def selection_def Let_def split: prod.splits option.splits)

lemma schedule_uninitialised:
  "SCHEDULER_CHIRHO s = None \<Longrightarrow> schedule_chirho e s = (NoScheduler, s)"
  by (simp add: schedule_chirho_def)

lemma requeue_distinct: "rq_ok q \<Longrightarrow> distinct (requeue_current s q)"
  by (auto simp: rq_ok_def requeue_current_def split: option.splits)

lemma requeue_bounds:
  "length (requeue_current s q) \<le> Suc (length (tasks_chirho q))"
  by (auto simp: requeue_current_def split: option.splits)

lemma candidate_ok_requeued:
  assumes "candidate_ok e s (current_pid_chirho q) p"
    "p \<in> set (tasks_chirho q) \<union> set_option (current_pid_chirho q)"
  shows "p \<in> set (requeue_current s q)"
  using assms by (auto simp: candidate_ok_def requeue_current_def split: option.splits)

lemma selection_Some:
  assumes "selection e s q = (Some p, rest)"
  obtains skipped where "requeue_current s q = skipped @ p # rest"
    "candidate_ok e s (current_pid_chirho q) p"
    "\<forall>x\<in>set skipped. \<not> candidate_ok e s (current_pid_chirho q) x"
  using assms by (auto simp: selection_def pick_runnable_Some)

lemma selection_None:
  assumes "selection e s q = (None, rest)"
  shows "rest = []" "\<forall>x\<in>set (requeue_current s q). \<not> candidate_ok e s (current_pid_chirho q) x"
  using assms by (auto simp: selection_def pick_runnable_None)

lemma rq_ok_scheduled:
  assumes "rq_ok q" "selection e s q = (Some p, rest)"
  shows "distinct rest \<and> p \<notin> set rest \<and> length rest \<le> MAX_TASKS_CHIRHO"
proof -
  obtain skipped where q: "requeue_current s q = skipped @ p # rest"
    by (rule selection_Some [OF assms(2)])
  have "distinct (skipped @ p # rest)" using requeue_distinct [OF assms(1), of s] q by simp
  moreover have "Suc (length rest) \<le> Suc (length (tasks_chirho q))"
    using requeue_bounds [of s q] q by simp
  ultimately show ?thesis using assms(1) by (simp add: rq_ok_def)
qed

lemma sched_ok_schedule [inv_chirho]:
  assumes "sched_ok s"
  shows "sched_ok (snd (schedule_chirho e s))"
proof (cases "SCHEDULER_CHIRHO s")
  case None
  then show ?thesis using assms by (simp add: schedule_uninitialised)
next
  case (Some q)
  then have q: "rq_ok q" using assms by (simp add: sched_ok_def)
  obtain nxt rest where sel: "selection e s q = (nxt, rest)" by fastforce
  show ?thesis
  proof (cases nxt)
    case None
    then have "rest = []" using selection_None(1) sel by blast
    with None sel q show ?thesis
      unfolding sched_ok_def schedule_queue [OF Some, of e] by (simp add: rq_ok_def)
  next
    case (Some p)
    then have "distinct rest \<and> p \<notin> set rest \<and> length rest \<le> MAX_TASKS_CHIRHO"
      using rq_ok_scheduled [OF q] sel by simp
    with Some sel show ?thesis
      unfolding sched_ok_def schedule_queue [OF \<open>SCHEDULER_CHIRHO s = Some q\<close>, of e]
      by (simp add: rq_ok_def)
  qed
qed

lemma sched_ok_block [inv_chirho]: "sched_ok s \<Longrightarrow> sched_ok (snd (block_current_chirho e s))"
  by (simp add: block_current_chirho_def Let_def sched_ok_schedule sched_ok_sleeping)

lemma sched_ok_yield [inv_chirho]: "sched_ok s \<Longrightarrow> sched_ok (snd (yield_current_chirho e s))"
  unfolding yield_current_chirho_def
  by (rule sched_ok_schedule) (auto simp: sched_ok_def split: option.splits)

lemma sched_ok_idle [inv_chirho]: "sched_ok s \<Longrightarrow> sched_ok (snd (idle_turn e l s))"
  by (auto simp: idle_turn_def sched_ok_def rq_ok_def Let_def split: option.splits list.splits)

end
