(* ===== verification/Sched_Policy.thy ===== *)
theory Sched_Policy
  imports Scheduler
begin

text \<open>
  What the scheduler of \<^verbatim>\<open>Scheduler\<close> guarantees: the run queue invariant over every
  sequence of operations, that selection loses no runnable task and that a queued one
  is dispatched within as many rounds as there are tasks before it and
  insertions in front of it, what a dispatch installs in
  the processor, time slices and X11 marks, the limit of 128 context slots, and
  the contract \<^verbatim>\<open>unblock_task_chirho\<close> offers to the wait queues and futexes
  (locale \<^verbatim>\<open>task_waker\<close>).  The trait \<^verbatim>\<open>SchedulerPolicyChirho\<close> is the locale
  \<^verbatim>\<open>fifo_policy\<close>, interpreted on \<^verbatim>\<open>RoundRobinPolicyChirho\<close>.
\<close>

section \<open>Reachable run queues\<close>

text \<open>One operation of the scheduler.  \<^verbatim>\<open>other\<close> is any code that leaves the run queue
  alone, such as registering a task or changing the state of one; the boot-time
  \<^verbatim>\<open>set_current_pid_chirho\<close> is only called with a task that is not queued.\<close>

inductive sched_step :: "boot_env \<Rightarrow> sched_state \<Rightarrow> sched_state \<Rightarrow> bool" for e :: boot_env where
  init: "init_scheduler_chirho s = Some s' \<Longrightarrow> sched_step e s s'"
| add: "sched_step e s (add_task_chirho p s)"
| remove: "sched_step e s (remove_task_chirho p s)"
| promote: "sched_step e s (promote_task_chirho p s)"
| unblock: "sched_step e s (unblock_task_chirho p s)"
| block: "sched_step e s (snd (block_current_chirho e s))"
| yield: "sched_step e s (snd (yield_current_chirho e s))"
| schedule: "sched_step e s (snd (schedule_chirho e s))"
| resumed: "sched_step e s (after_boot_context s)"
| idle: "sched_step e s (snd (idle_turn e l s))"
| tick: "sched_step e s (schedule_tick_chirho l s)"
| reset: "sched_step e s (reset_time_slice_chirho l s)"
| current: "p \<notin> set (queued s) \<Longrightarrow> sched_step e s (set_current_pid_chirho p s)"
| other: "SCHEDULER_CHIRHO s' = SCHEDULER_CHIRHO s \<Longrightarrow> sched_step e s s'"

lemma sched_ok_init: "init_scheduler_chirho s = Some s' \<Longrightarrow> sched_ok s'"
  by (auto simp: init_scheduler_chirho_def sched_ok_def rq_ok_new split: option.splits)

lemma sched_step_ok: "sched_step e s s' \<Longrightarrow> sched_ok s \<Longrightarrow> sched_ok s'"
proof (induction rule: sched_step.induct)
  case (init s s')
  then show ?case by (auto intro: sched_ok_init)
next
  case (other s' s)
  then show ?case using sched_ok_cong by blast
qed (simp_all add: inv_chirho)

lemma sched_steps_ok: "(sched_step e)\<^sup>*\<^sup>* s s' \<Longrightarrow> sched_ok s \<Longrightarrow> sched_ok s'"
  by (induction rule: rtranclp_induct) (auto intro: sched_step_ok)

text \<open>C15. Whatever operations run after boot, in whatever order, the run queue holds
  each task at most once, never holds the running task, and never exceeds
  \<^const>\<open>MAX_TASKS_CHIRHO\<close> entries.\<close>

theorem run_queue_well_formed:
  assumes "SCHEDULER_CHIRHO s0 = None" "(sched_step e)\<^sup>*\<^sup>* s0 s" "SCHEDULER_CHIRHO s = Some q"
  shows "distinct (tasks_chirho q) \<and> length (tasks_chirho q) \<le> MAX_TASKS_CHIRHO \<and>
    (\<forall>p. current_pid_chirho q = Some p \<longrightarrow> p \<notin> set (tasks_chirho q))"
proof -
  have "sched_ok s0" using assms(1) by (simp add: sched_ok_def)
  then have "sched_ok s" by (rule sched_steps_ok [OF assms(2)])
  then show ?thesis using assms(3) by (simp add: sched_ok_def rq_ok_def)
qed

section \<open>Selection\<close>

lemma scheduled_Some:
  "SCHEDULER_CHIRHO s = Some q \<Longrightarrow>
    scheduled s = set (tasks_chirho q) \<union> set_option (current_pid_chirho q)"
  by (simp add: scheduled_def queued_def sched_current_pid_chirho_def)

lemma schedule_keeps_candidate:
  assumes "SCHEDULER_CHIRHO s = Some q" "p \<in> scheduled s"
    "candidate_ok e s (current_pid_chirho q) p"
  shows "p \<in> scheduled (snd (schedule_chirho e s))"
proof -
  have p: "p \<in> set (requeue_current s q)"
    by (rule candidate_ok_requeued [OF assms(3)]) (use assms(1,2) in \<open>simp add: scheduled_Some\<close>)
  obtain nxt rest where sel: "selection e s q = (nxt, rest)" by fastforce
  show ?thesis
  proof (cases nxt)
    case None
    then show ?thesis using selection_None(2) sel assms(3) p by blast
  next
    case (Some n)
    then obtain skipped where sk: "requeue_current s q = skipped @ n # rest"
      "\<forall>x\<in>set skipped. \<not> candidate_ok e s (current_pid_chirho q) x"
      using selection_Some sel by metis
    then have "p = n \<or> p \<in> set rest" using p assms(3) by auto
    then show ?thesis
      using schedule_queue [OF assms(1), of e] sel Some
      by (auto simp: scheduled_def queued_def sched_current_pid_chirho_def)
  qed
qed

lemma schedule_dispatches_first:
  assumes "SCHEDULER_CHIRHO s = Some q"
  shows "sched_current_pid_chirho (snd (schedule_chirho e s)) =
    (case find (candidate_ok e s (current_pid_chirho q)) (requeue_current s q) of
       Some p \<Rightarrow> Some p | None \<Rightarrow> current_pid_chirho q)"
proof -
  have "fst (pick_runnable ok ps) = find ok ps" for ok and ps :: "u64 list"
    by (induction ps) auto
  then have "fst (selection e s q) =
      find (candidate_ok e s (current_pid_chirho q)) (requeue_current s q)"
    by (simp add: selection_def)
  then show ?thesis
    using schedule_queue [OF assms, of e]
    by (cases "selection e s q") (auto simp: sched_current_pid_chirho_def split: option.splits)
qed

lemma selected_task_exists:
  assumes "candidate_ok e s old p"
  shows "find_task_by_pid_chirho s p \<noteq> None"
  using assms by (auto simp: candidate_ok_def is_task_runnable_chirho_def split: option.splits)

text \<open>C34. Scheduling picks the first task of the round, the queue followed by the
  running task if that is still runnable, which is runnable and has a valid
  saved context (the running task needs none).  Every such task is still
  running or queued afterwards: none is lost.\<close>

theorem schedule_selects_first_and_loses_none:
  assumes "SCHEDULER_CHIRHO s = Some q"
  shows "sched_current_pid_chirho (snd (schedule_chirho e s)) =
      (case find (candidate_ok e s (current_pid_chirho q)) (requeue_current s q) of
         Some p \<Rightarrow> Some p | None \<Rightarrow> current_pid_chirho q) \<and>
    (\<forall>p \<in> scheduled s. candidate_ok e s (current_pid_chirho q) p \<longrightarrow>
      p \<in> scheduled (snd (schedule_chirho e s)))"
  using assms schedule_dispatches_first schedule_keeps_candidate by blast

section \<open>Round-robin progress\<close>

lemma find_update_task:
  assumes "\<And>t. pid_chirho (f t) = pid_chirho t"
  shows "find (\<lambda>t. pid_chirho t = a) (update_task p f ts) =
    (if a = p then map_option f (find (\<lambda>t. pid_chirho t = a) ts)
     else find (\<lambda>t. pid_chirho t = a) ts)"
  by (induction ts) (auto simp: assms)

text \<open>One round either dispatches a waiting candidate or moves it forward.\<close>

lemma schedule_progress:
  assumes q: "SCHEDULER_CHIRHO s = Some q"
    and i: "i < length (tasks_chirho q)" "tasks_chirho q ! i = p"
    and ok: "candidate_ok e s (current_pid_chirho q) p"
  shows "sched_current_pid_chirho (snd (schedule_chirho e s)) = Some p \<or>
    (\<exists>j<i. j < length (queued (snd (schedule_chirho e s))) \<and>
      queued (snd (schedule_chirho e s)) ! j = p)"
proof -
  obtain nxt rest where sel: "selection e s q = (nxt, rest)" by fastforce
  have "prefix (tasks_chirho q) (requeue_current s q)"
    by (simp add: requeue_current_def split: option.split)
  then obtain extra where rq: "requeue_current s q = tasks_chirho q @ extra"
    by (auto simp: prefix_def)
  then have at: "requeue_current s q ! i = p" "i < length (requeue_current s q)"
    using i by (auto simp: nth_append)
  show ?thesis
  proof (cases nxt)
    case None
    then show ?thesis using selection_None(2) sel ok at nth_mem by metis
  next
    case (Some n)
    then obtain skipped where sk: "requeue_current s q = skipped @ n # rest"
      "\<forall>x\<in>set skipped. \<not> candidate_ok e s (current_pid_chirho q) x"
      using selection_Some sel by metis
    have S: "queued (snd (schedule_chirho e s)) = rest"
      "sched_current_pid_chirho (snd (schedule_chirho e s)) = Some n"
      using schedule_queue [OF q, of e] sel Some
      by (auto simp: queued_def sched_current_pid_chirho_def)
    have ge: "length skipped \<le> i"
    proof (rule ccontr)
      assume "\<not> length skipped \<le> i"
      then have "p \<in> set skipped" using at sk(1) by (auto simp: nth_append)
      then show False using sk(2) ok by blast
    qed
    show ?thesis
    proof (cases "i = length skipped")
      case True
      then show ?thesis using at sk(1) S by (simp add: nth_append)
    next
      case False
      with ge have "i - Suc (length skipped) < i" "i - Suc (length skipped) < length rest"
        "rest ! (i - Suc (length skipped)) = p"
        using at sk(1) by (auto simp: nth_append nth_Cons')
      then show ?thesis using S(1) by blast
    qed
  qed
qed

text \<open>At most \<^verbatim>\<open>n\<close> tasks are queued in front of \<^verbatim>\<open>p\<close>.\<close>

definition ahead :: "u64 \<Rightarrow> sched_state \<Rightarrow> nat \<Rightarrow> bool" where
  "ahead p s n \<longleftrightarrow> (\<exists>i\<le>n. i < length (queued s) \<and> queued s ! i = p)"

lemma aheadI: "queued s = xs @ p # ys \<Longrightarrow> length xs \<le> n \<Longrightarrow> ahead p s n"
  unfolding ahead_def by (rule exI [of _ "length xs"]) (simp add: nth_append)

lemma aheadE:
  assumes "ahead p s n"
  obtains xs ys where "queued s = xs @ p # ys" "length xs \<le> n"
proof -
  obtain i where "i \<le> n" "i < length (queued s)" "queued s ! i = p" using assms by (auto simp: ahead_def)
  then show ?thesis using that [of "take i (queued s)" "drop (Suc i) (queued s)"] id_take_nth_drop by fastforce
qed

lemma ahead_cong: "queued s' = queued s \<Longrightarrow> ahead p s' = ahead p s"
  by (simp add: ahead_def fun_eq_iff)

lemma ahead_mono: "ahead p s m \<Longrightarrow> m \<le> n \<Longrightarrow> ahead p s n"
  unfolding ahead_def using order_trans by blast

lemma schedule_moves_up:
  assumes "ahead p s n" "candidate_ok e s (sched_current_pid_chirho s) p"
    "sched_current_pid_chirho (snd (schedule_chirho e s)) \<noteq> Some p"
  shows "\<exists>m. n = Suc m \<and> ahead p (snd (schedule_chirho e s)) m"
proof -
  obtain i where i: "i \<le> n" "i < length (queued s)" "queued s ! i = p" using assms(1) by (auto simp: ahead_def)
  then obtain q where q: "SCHEDULER_CHIRHO s = Some q" "tasks_chirho q = queued s"
    by (auto simp: queued_def split: option.splits)
  have ok: "candidate_ok e s (current_pid_chirho q) p" using assms(2) q by (simp add: sched_current_pid_chirho_def)
  then obtain j where "j < i" "j < length (queued (snd (schedule_chirho e s)))"
    "queued (snd (schedule_chirho e s)) ! j = p"
    using schedule_progress [OF q(1) _ _ ok, of i] i assms(3) q(2) by auto
  then have "n = Suc (n - 1)" "ahead p (snd (schedule_chirho e s)) (n - 1)"
    unfolding ahead_def using i(1) by (auto intro!: exI [of _ j])
  then show ?thesis by blast
qed

text \<open>The other calls that select a task: a yield, a block of the running task and a turn
  of the idle loop that gets the lock.\<close>

lemma candidate_cong:
  "TASK_LIST_CHIRHO s' = TASK_LIST_CHIRHO s \<Longrightarrow> cpu s' = cpu s \<Longrightarrow> candidate_ok e s' = candidate_ok e s"
  by (simp add: candidate_ok_def fun_eq_iff is_task_runnable_chirho_def task_context_is_valid_chirho_def
      find_task_by_pid_chirho_def Let_def split: option.split)

lemma yield_moves_up:
  assumes "ahead p s n" "candidate_ok e s (sched_current_pid_chirho s) p"
    "sched_current_pid_chirho (snd (yield_current_chirho e s)) \<noteq> Some p"
  shows "\<exists>m. n = Suc m \<and> ahead p (snd (yield_current_chirho e s)) m"
proof -
  let ?s = "case SCHEDULER_CHIRHO s of None \<Rightarrow> s
    | Some q \<Rightarrow> s\<lparr>SCHEDULER_CHIRHO := Some (q\<lparr>remaining_ticks_chirho := 0, need_resched_chirho := True\<rparr>),
        NEED_RESCHED_ATOMIC_CHIRHO := True\<rparr>"
  have "queued ?s = queued s" "sched_current_pid_chirho ?s = sched_current_pid_chirho s"
    "candidate_ok e ?s = candidate_ok e s"
    by (auto simp: queued_def sched_current_pid_chirho_def split: option.splits intro: candidate_cong)
  then show ?thesis using schedule_moves_up [of p ?s n e] assms ahead_cong [of ?s s]
    by (simp add: yield_current_chirho_def)
qed

lemma sleeping_candidate:
  assumes "sched_current_pid_chirho s \<noteq> Some p"
  shows "candidate_ok e (mark_current_sleeping s) old p = candidate_ok e s old p"
proof -
  have "find_task_by_pid_chirho (mark_current_sleeping s) p = find_task_by_pid_chirho s p"
    "cpu (mark_current_sleeping s) = cpu s"
    using assms
    by (auto simp: mark_current_sleeping_def set_task_state_def find_task_by_pid_chirho_def find_update_task
        sched_current_pid_chirho_def split: option.splits)
  then show ?thesis
    by (simp add: candidate_ok_def is_task_runnable_chirho_def task_context_is_valid_chirho_def Let_def
        split: option.split)
qed

lemma not_current_queued: "sched_ok s \<Longrightarrow> ahead p s n \<Longrightarrow> sched_current_pid_chirho s \<noteq> Some p"
  by (auto simp: sched_ok_def rq_ok_def ahead_def queued_def sched_current_pid_chirho_def
      split: option.splits)

lemma block_moves_up:
  assumes "sched_ok s" "sched_current_pid_chirho s \<noteq> None"
    "ahead p s n" "candidate_ok e s (sched_current_pid_chirho s) p"
    "sched_current_pid_chirho (snd (block_current_chirho e s)) \<noteq> Some p"
  shows "\<exists>m. n = Suc m \<and> ahead p (snd (block_current_chirho e s)) m"
proof -
  let ?s = "mark_current_sleeping s"
  have q: "queued ?s = queued s" "sched_current_pid_chirho ?s = sched_current_pid_chirho s"
    by (auto simp: mark_current_sleeping_def queued_def sched_current_pid_chirho_def split: option.splits)
  have "candidate_ok e ?s (sched_current_pid_chirho ?s) p"
    using sleeping_candidate [OF not_current_queued [OF assms(1,3)]] assms(4) q(2) by simp
  moreover have "snd (block_current_chirho e s) = snd (schedule_chirho e ?s)"
    unfolding block_current_chirho_def Let_def using assms(2) by (simp only: snd_conv if_False)
  ultimately show ?thesis using schedule_moves_up [of p ?s n e] assms(3,5) ahead_cong [OF q(1)] by simp
qed

lemma idle_moves_up:
  assumes "sched_ok s" "ahead p s n" "candidate_ok e s (sched_current_pid_chirho s) p"
    "sched_current_pid_chirho (snd (idle_turn e True s)) \<noteq> Some p"
  shows "\<exists>m. n = Suc m \<and> ahead p (snd (idle_turn e True s)) m"
proof -
  obtain xs ys where q: "queued s = xs @ p # ys" "length xs \<le> n" using assms(2) by (rule aheadE)
  then obtain r where r: "SCHEDULER_CHIRHO s = Some r" "tasks_chirho r = xs @ p # ys"
    by (auto simp: queued_def split: option.splits)
  have v: "task_context_is_valid_chirho e s p"
    using assms(3) not_current_queued [OF assms(1,2)] by (auto simp: candidate_ok_def)
  have "queued (snd (idle_turn e True s)) = tl (xs @ p # ys)"
    "xs = [] \<Longrightarrow> sched_current_pid_chirho (snd (idle_turn e True s)) = Some p"
    using r v by (cases xs; auto simp: idle_turn_def queued_def sched_current_pid_chirho_def Let_def split: option.split)+
  then show ?thesis using assms(4) q(2) by (cases xs) (auto intro: aheadI intro!: exI [of _ "n - 1"])
qed

text \<open>Insertions put at most one task in front, and everything else none.\<close>

lemma remove_at_position: "position (\<lambda>p. p = x) xs = Some i \<Longrightarrow> remove_at i xs = remove1 x xs"
proof (induction xs arbitrary: i)
  case (Cons y ys)
  then show ?case by (cases "y = x") (auto simp: remove_at_def split: option.splits)
qed simp

lemma ahead_insert:
  assumes "ahead p s n"
  shows "ahead p (add_task_chirho x s) (Suc n)" "ahead p (unblock_task_chirho x s) (Suc n)"
    "ahead p (promote_task_chirho x s) (Suc n)"
proof -
  obtain xs ys where q: "queued s = xs @ p # ys" "length xs \<le> n" using assms by (rule aheadE)
  have add: "ahead p (add_task_chirho x t) (Suc n)" if "queued t = queued s" for t
  proof -
    have "queued (add_task_chirho x t) = queued t \<or> queued (add_task_chirho x t) = x # queued t"
      by (simp add: add_task_chirho_def with_scheduler_def rq_add_task_def queued_def split: option.split)
    then have "queued (add_task_chirho x t) = xs @ p # ys \<or> queued (add_task_chirho x t) = (x # xs) @ p # ys"
      using that q(1) by simp
    then show ?thesis using q(2) aheadI [of _ xs p ys "Suc n"] aheadI [of _ "x # xs" p ys "Suc n"] by fastforce
  qed
  show "ahead p (add_task_chirho x s) (Suc n)" by (rule add) simp
  show "ahead p (unblock_task_chirho x s) (Suc n)"
    unfolding unblock_task_chirho_def by (rule add) (simp add: queued_def set_task_state_def)
  show "ahead p (promote_task_chirho x s) (Suc n)"
  proof (cases "position (\<lambda>y. y = x) (queued s)")
    case None
    then have "queued (promote_task_chirho x s) = queued s"
      by (cases "SCHEDULER_CHIRHO s") (simp_all add: promote_task_chirho_def with_scheduler_def queued_def)
    then have "ahead p (promote_task_chirho x s) n" using assms unfolding ahead_def by simp
    then show ?thesis by (rule ahead_mono) simp
  next
    case (Some i)
    then have e: "queued (promote_task_chirho x s) = x # remove1 x (xs @ p # ys)"
      using q(1) remove_at_position [OF Some]
      by (cases "SCHEDULER_CHIRHO s") (simp_all add: promote_task_chirho_def with_scheduler_def queued_def)
    show ?thesis
    proof (cases "x = p")
      case True
      then show ?thesis using aheadI [of _ "[]"] e by simp
    next
      case False
      then show ?thesis
        using e q(2) aheadI [of _ "x # remove1 x xs" p ys "Suc n"] aheadI [of _ "x # xs" p "remove1 x ys" "Suc n"]
          length_remove1 [of x xs]
        by (cases "x \<in> set xs") (simp_all add: remove1_append)
    qed
  qed
qed

lemma ahead_remove:
  assumes "ahead p s n" "x \<noteq> p"
  shows "ahead p (remove_task_chirho x s) n"
proof -
  obtain xs ys where q: "queued s = xs @ p # ys" "length xs \<le> n" using assms(1) by (rule aheadE)
  have "queued (remove_task_chirho x s) = queued s \<or> queued (remove_task_chirho x s) = remove1 x (queued s)"
    by (simp add: remove_task_chirho_def queued_def remove_at_position split: option.split)
  moreover have "remove1 x (xs @ p # ys) = remove1 x xs @ p # ys \<or> remove1 x (xs @ p # ys) = xs @ p # remove1 x ys"
    using assms(2) by (auto simp: remove1_append)
  ultimately show ?thesis
    using q length_remove1 [of x xs] aheadI [of _ xs p ys n] aheadI [of _ "remove1 x xs" p ys n]
      aheadI [of _ xs p "remove1 x ys" n]
    by (auto split: if_splits)
qed

lemma queued_quiet:
  "queued (schedule_tick_chirho l s) = queued s" "queued (reset_time_slice_chirho l s) = queued s"
  "queued (after_boot_context s) = queued s"
  by (auto simp: schedule_tick_chirho_def reset_time_slice_chirho_def after_boot_context_def with_scheduler_def
      queued_def rq_tick_def Let_def split: option.splits)

text \<open>Histories in which \<^verbatim>\<open>p\<close> waits: \<^verbatim>\<open>r\<close> calls have selected a task other than \<^verbatim>\<open>p\<close>, each while
  \<^verbatim>\<open>p\<close> was runnable with a valid context, and \<^verbatim>\<open>m\<close> tasks have been added, woken or
  promoted.  Ticks, resets of the slice, removals of other tasks and anything that
  leaves the run queue alone may happen at any point.\<close>

inductive waits :: "boot_env \<Rightarrow> u64 \<Rightarrow> sched_state \<Rightarrow> nat \<Rightarrow> nat \<Rightarrow> sched_state \<Rightarrow> bool"
  for e :: boot_env and p :: u64 and s :: sched_state where
  waits_start: "waits e p s 0 0 s"
| waits_round: "waits e p s r m t \<Longrightarrow> candidate_ok e t (sched_current_pid_chirho t) p \<Longrightarrow>
    t' = snd (schedule_chirho e t) \<or> t' = snd (yield_current_chirho e t) \<or> t' = snd (idle_turn e True t) \<or>
      sched_current_pid_chirho t \<noteq> None \<and> t' = snd (block_current_chirho e t) \<Longrightarrow>
    sched_current_pid_chirho t' \<noteq> Some p \<Longrightarrow> waits e p s (Suc r) m t'"
| waits_insert: "waits e p s r m t \<Longrightarrow>
    t' = add_task_chirho x t \<or> t' = unblock_task_chirho x t \<or> t' = promote_task_chirho x t \<Longrightarrow>
    waits e p s r (Suc m) t'"
| waits_remove: "waits e p s r m t \<Longrightarrow> x \<noteq> p \<Longrightarrow> waits e p s r m (remove_task_chirho x t)"
| waits_quiet: "waits e p s r m t \<Longrightarrow>
    t' = schedule_tick_chirho l t \<or> t' = reset_time_slice_chirho l t \<or> t' = after_boot_context t \<or>
      SCHEDULER_CHIRHO t' = SCHEDULER_CHIRHO t \<Longrightarrow> waits e p s r m t'"

lemma waits_steps: "waits e p s r m t \<Longrightarrow> (sched_step e)\<^sup>*\<^sup>* s t"
proof (induction rule: waits.induct)
  case (waits_round r m t t')
  then have "sched_step e t t'"
    using sched_step.schedule sched_step.yield sched_step.idle sched_step.block by metis
  then show ?case using waits_round.IH by simp
next
  case (waits_insert r m t t' x)
  then have "sched_step e t t'" using sched_step.add sched_step.unblock sched_step.promote by metis
  then show ?case using waits_insert.IH by simp
next
  case (waits_remove r m t x)
  then show ?case using sched_step.remove rtranclp.rtrancl_into_rtrancl by metis
next
  case (waits_quiet r m t t' l)
  then have "sched_step e t t'" using sched_step.tick sched_step.reset sched_step.resumed sched_step.other by metis
  then show ?case using waits_quiet.IH by simp
qed simp

lemma waits_ahead:
  assumes "waits e p s r m t" "sched_ok s" "ahead p s i"
  shows "\<exists>n. ahead p t n \<and> n + r = i + m"
  using assms(1)
proof (induction rule: waits.induct)
  case waits_start
  then show ?case using assms(3) by auto
next
  case (waits_round r m t t')
  have ok: "sched_ok t" by (rule sched_steps_ok [OF waits_steps [OF waits_round.hyps(1)] assms(2)])
  obtain n where n: "ahead p t n" "n + r = i + m" using waits_round.IH by blast
  have "\<exists>k. n = Suc k \<and> ahead p t' k"
    using waits_round.hyps(3) schedule_moves_up [OF n(1) waits_round.hyps(2)] yield_moves_up [OF n(1) waits_round.hyps(2)]
      idle_moves_up [OF ok n(1) waits_round.hyps(2)] block_moves_up [OF ok _ n(1) waits_round.hyps(2)] waits_round.hyps(4)
    by blast
  then show ?case using n(2) by fastforce
next
  case (waits_insert r m t t' x)
  then obtain n where n: "ahead p t n" "n + r = i + m" by blast
  have "ahead p t' (Suc n)" using ahead_insert [OF n(1)] waits_insert.hyps(2) by blast
  then show ?case using n(2) by fastforce
next
  case (waits_remove r m t x)
  then show ?case using ahead_remove by blast
next
  case (waits_quiet r m t t' l)
  then have "queued t' = queued t" using queued_quiet by (metis queued_def)
  then show ?case using waits_quiet.IH ahead_cong by metis
qed

text \<open>C17. Round-robin progress.  Let \<^verbatim>\<open>p\<close> be at position \<^verbatim>\<open>i\<close> of the queue of a state reached
  after boot.  Take any later history of scheduling calls, yields, blocks of the
  running task, turns of the idle loop, timer ticks, removals of other tasks and
  insertions, in which \<^verbatim>\<open>p\<close> is runnable with a valid context whenever a task is selected
  and has not been dispatched yet.  If \<^verbatim>\<open>m\<close> tasks were added, woken or promoted in it (each
  of these goes to the front of the queue), then at most \<^verbatim>\<open>i + m\<close> selections have
  happened, \<^verbatim>\<open>p\<close> is still queued, and if it was exactly \<^verbatim>\<open>i + m\<close> the next call of the scheduler
  dispatches \<^verbatim>\<open>p\<close>.\<close>

theorem queued_task_is_dispatched:
  assumes "SCHEDULER_CHIRHO s0 = None" "(sched_step e)\<^sup>*\<^sup>* s0 s" "i < length (queued s)" "queued s ! i = p"
    and "waits e p s r m t"
  shows "r \<le> i + m \<and> p \<in> set (queued t) \<and>
    (r = i + m \<and> candidate_ok e t (sched_current_pid_chirho t) p \<longrightarrow>
      sched_current_pid_chirho (snd (schedule_chirho e t)) = Some p)"
proof -
  have ok: "sched_ok s" using sched_steps_ok [OF assms(2)] assms(1) by (simp add: sched_ok_def)
  have "ahead p s i" using assms(3,4) by (auto simp: ahead_def)
  then obtain n where n: "ahead p t n" "n + r = i + m" using waits_ahead [OF assms(5) ok] by blast
  have "p \<in> set (queued t)" using n(1) by (auto elim: aheadE)
  moreover have "sched_current_pid_chirho (snd (schedule_chirho e t)) = Some p"
    if "r = i + m" "candidate_ok e t (sched_current_pid_chirho t) p"
    using schedule_moves_up [OF n(1) that(2)] n(2) that(1) by auto
  ultimately show ?thesis using n(2) by auto
qed

text \<open>Without the count of insertions there is no bound: a task woken before every call of
  the scheduler is dispatched before all that wait.\<close>

lemma woken_task_goes_first:
  assumes "SCHEDULER_CHIRHO s = Some q" "x \<notin> set (tasks_chirho q)" "current_pid_chirho q \<noteq> Some x"
    "length (tasks_chirho q) < MAX_TASKS_CHIRHO"
    "candidate_ok e (unblock_task_chirho x s) (current_pid_chirho q) x"
  shows "sched_current_pid_chirho (snd (schedule_chirho e (unblock_task_chirho x s))) = Some x"
proof -
  let ?s = "unblock_task_chirho x s" and ?q = "q\<lparr>tasks_chirho := x # tasks_chirho q\<rparr>"
  have q: "SCHEDULER_CHIRHO ?s = Some ?q"
    using assms(1-4) by (simp add: unblock_task_chirho_def add_task_chirho_def with_scheduler_def set_task_state_def rq_add_task_def)
  have "\<exists>ys. requeue_current ?s ?q = x # ys" by (simp add: requeue_current_def split: option.split)
  then obtain ys where "requeue_current ?s ?q = x # ys" by blast
  then show ?thesis using schedule_dispatches_first [OF q, of e] assms(5) by simp
qed

section \<open>What a dispatch installs\<close>

lemma find_task_pid: "find_task_by_pid_chirho s p = Some t \<Longrightarrow> pid_chirho t = p"
  by (auto simp: find_task_by_pid_chirho_def find_Some_iff)

lemma find_save_bases:
  "find_task_by_pid_chirho (save_bases old s) p =
    (if old = Some p
     then map_option (\<lambda>t. t\<lparr>fs_base_chirho := fs_base_msr s, gs_base_chirho := gs_base_msr s\<rparr>)
       (find_task_by_pid_chirho s p)
     else find_task_by_pid_chirho s p)"
  by (auto simp: save_bases_def find_task_by_pid_chirho_def find_update_task split: option.split)

lemma save_bases_fields [simp]:
  "cpu (save_bases old s) = cpu s"
  "fs_base_msr (save_bases old s) = fs_base_msr s"
  by (simp_all add: save_bases_def split: option.split)

lemma find_task_syscall_stack [simp]:
  "find_task_by_pid_chirho (set_syscall_stack n s) p = find_task_by_pid_chirho s p"
  "cpu (set_syscall_stack n s) = cpu s"
  by (simp_all add: set_syscall_stack_def find_task_by_pid_chirho_def split: option.split)

lemma find_task_cong:
  "TASK_LIST_CHIRHO s' = TASK_LIST_CHIRHO s \<Longrightarrow>
    find_task_by_pid_chirho s' p = find_task_by_pid_chirho s p"
  by (simp add: find_task_by_pid_chirho_def)

lemma prepare_fields:
  "find_task_by_pid_chirho (arch_prepare_switch_chirho e old n s) p =
     find_task_by_pid_chirho (save_bases old s) p"
  "cpu (arch_prepare_switch_chirho e old n s) =
     (cpu s)\<lparr>PENDING_CR3_CHIRHO := switch_root e n (save_bases old s)\<rparr>"
  by (simp_all add: arch_prepare_switch_chirho_def Let_def set_pending_cr3_chirho_def
      find_task_cong [of "s'\<lparr>cpu := c\<rparr>" s' for s' c])

lemma publish_fields:
  "find_task_by_pid_chirho (publish_task t s) p = find_task_by_pid_chirho s p"
  "cpu (publish_task t s) = cpu s"
  "CURRENT_TASK_CHIRHO (publish_task t s) = Some (pid_chirho t)"
  "KERNEL_STACK_TOP_CHIRHO (publish_task t s) = kernel_stack_chirho t"
  "tss_rsp0 (publish_task t s) = kernel_stack_chirho t"
  "fs_base_msr (publish_task t s) = fs_base_chirho t"
  "gs_base_msr (publish_task t s) = gs_base_chirho t"
  by (simp_all add: publish_task_def set_current_task_chirho_def find_task_by_pid_chirho_def)

lemma switch_slots_fields [simp]:
  "find_task_by_pid_chirho (switch_slots e a b s) p = find_task_by_pid_chirho s p"
  "CURRENT_TASK_CHIRHO (switch_slots e a b s) = CURRENT_TASK_CHIRHO s"
  "KERNEL_STACK_TOP_CHIRHO (switch_slots e a b s) = KERNEL_STACK_TOP_CHIRHO s"
  "tss_rsp0 (switch_slots e a b s) = tss_rsp0 s"
  "fs_base_msr (switch_slots e a b s) = fs_base_msr s"
  "gs_base_msr (switch_slots e a b s) = gs_base_msr s"
  by (simp_all add: switch_slots_def find_task_by_pid_chirho_def)

text \<open>The processor runs \<^verbatim>\<open>p\<close>: its descriptor, stacks, page table, thread-local bases
  and registers are installed.\<close>

definition installed :: "boot_env \<Rightarrow> sched_state \<Rightarrow> u64 \<Rightarrow> TaskChirho \<Rightarrow> sched_state \<Rightarrow> bool" where
  "installed e s p t s' \<longleftrightarrow> CURRENT_TASK_CHIRHO s' = Some p \<and>
     KERNEL_STACK_TOP_CHIRHO s' = kernel_stack_chirho t \<and> tss_rsp0 s' = kernel_stack_chirho t \<and>
     fs_base_msr s' = fs_base_chirho t \<and> gs_base_msr s' = gs_base_chirho t \<and>
     regs (cpu s') = slots (cpu s) ! unat p \<and>
     cr3 (cpu s') = (let r = switch_root e p s in if r = 0 then cr3 (cpu s) else r)"

text \<open>The outgoing task's bases and registers are saved where the next dispatch of
  it finds them.\<close>

definition parked :: "boot_env \<Rightarrow> sched_state \<Rightarrow> u64 \<Rightarrow> TaskChirho \<Rightarrow> sched_state \<Rightarrow> bool" where
  "parked e s p t s' \<longleftrightarrow>
     find_task_by_pid_chirho s' p =
       Some (t\<lparr>fs_base_chirho := fs_base_msr s, gs_base_chirho := gs_base_msr s\<rparr>) \<and>
     slots (cpu s') ! unat p = (regs (cpu s))\<lparr>rip_chirho := resume_addr e\<rparr>"

lemma dispatch_installs:
  assumes d: "dispatch e old p s = (SwitchedTo p', s')" "old \<noteq> Some p"
    and p: "unat p < length (slots (cpu s))" "unat p \<noteq> BOOT_SLOT_CHIRHO"
  shows "\<exists>t. find_task_by_pid_chirho s p = Some t \<and> installed e s p t s'"
proof -
  obtain a t where a: "s' = switch_slots e a (unat p)
      (publish_task t (arch_prepare_switch_chirho e old p s))"
    and t: "find_task_by_pid_chirho s p = Some t"
    and slot: "(case old of Some x \<Rightarrow> context_ptr_chirho x | None \<Rightarrow> Some boot_context_ptr_chirho) = Some a"
    using d by (auto simp: dispatch_def Let_def prepare_fields find_save_bases split: option.splits)
  have ne: "a \<noteq> unat p"
    using slot d(2) p(2)
    by (auto simp: context_ptr_chirho_def boot_context_ptr_chirho_def
        simp flip: word_unat_eq_iff split: option.splits if_splits)
  have root: "switch_root e p (save_bases old s) = switch_root e p s"
    using d(2) by (simp add: switch_root_def find_save_bases)
  have "cpu s' = switch_context_return_wrapper_chirho (resume_addr e) a (unat p)
      ((cpu s)\<lparr>PENDING_CR3_CHIRHO := switch_root e p s\<rparr>)"
    by (simp add: a switch_slots_def publish_fields prepare_fields root)
  then have "regs (cpu s') = slots (cpu s) ! unat p"
    "cr3 (cpu s') = (let r = switch_root e p s in if r = 0 then cr3 (cpu s) else r)"
    using ne p(1) by (simp_all add: wrapper_loads wrapper_cr3 Let_def)
  then have "installed e s p t s'"
    using find_task_pid [OF t] by (simp add: installed_def a publish_fields)
  then show ?thesis using t by blast
qed

lemma dispatch_parks:
  assumes d: "dispatch e (Some po) p s = (SwitchedTo p', s')"
    and t: "find_task_by_pid_chirho s po = Some t" and len: "length (slots (cpu s)) = MAX_PIDS_CHIRHO"
  shows "parked e s po t s'"
proof -
  obtain tn where s': "s' = switch_slots e (unat po) (unat p)
      (publish_task tn (arch_prepare_switch_chirho e (Some po) p s))" and lt: "unat po < MAX_PIDS_CHIRHO"
    using d by (auto simp: dispatch_def Let_def context_ptr_chirho_def split: option.splits if_splits)
  show ?thesis
    unfolding parked_def s' using t len lt
    by (simp add: publish_fields prepare_fields find_save_bases switch_slots_def wrapper_keeps_slots
        find_task_cong [of "x\<lparr>cpu := c\<rparr>" x for x c])
qed

lemma schedule_switch_cases:
  assumes "schedule_chirho e s = (SwitchedTo p, s')" "SCHEDULER_CHIRHO s = Some q"
  obtains s2 where "dispatch e (current_pid_chirho q) p s2 = (SwitchedTo p, s')"
    "current_pid_chirho q \<noteq> Some p" "candidate_ok e s (current_pid_chirho q) p"
    "TASK_LIST_CHIRHO s2 = TASK_LIST_CHIRHO s" "cpu s2 = cpu s"
    "fs_base_msr s2 = fs_base_msr s" "gs_base_msr s2 = gs_base_msr s"
proof -
  obtain nxt rest where sel: "selection e s q = (nxt, rest)" by fastforce
  define q1 where "q1 = q\<lparr>need_resched_chirho := False, tasks_chirho := rest\<rparr>"
  define s1 where "s1 = s\<lparr>NEED_RESCHED_ATOMIC_CHIRHO := False, SCHEDULER_CHIRHO := Some q1\<rparr>"
  show ?thesis
  proof (cases nxt)
    case None
    then show ?thesis
      using assms sel by (auto simp: schedule_chirho_def selection_def Let_def split: option.splits)
  next
    case (Some n)
    define s2 where "s2 = s1\<lparr>SCHEDULER_CHIRHO := Some (q1\<lparr>current_pid_chirho := Some n,
                           remaining_ticks_chirho := time_slice_for_pid_chirho s n\<rparr>)\<rparr>"
    have "schedule_chirho e s =
        (if current_pid_chirho q = Some n then (StaysOn n, s2) else dispatch e (current_pid_chirho q) n s2)"
      using assms(2) sel Some
      by (simp add: schedule_chirho_def selection_def Let_def q1_def s1_def s2_def)
    then have d: "current_pid_chirho q \<noteq> Some n" "dispatch e (current_pid_chirho q) n s2 = (SwitchedTo p, s')"
      using assms(1) by (auto split: if_splits)
    moreover have "n = p" using d(2) by (auto simp: dispatch_def Let_def split: option.splits)
    moreover have "candidate_ok e s (current_pid_chirho q) n"
      using selection_Some sel Some by metis
    ultimately show ?thesis by (intro that [of s2]) (simp_all add: s2_def s1_def)
  qed
qed

text \<open>When the scheduler switches to another task, everything the new task runs
  on belongs to it (descriptor, interrupt and system-call stack, FS and GS
  base, page table, the registers of its slot), and the FS and GS base and the
  registers of the task switched away from are saved in its descriptor and
  slot.  The task switched to must not be the one whose slot the boot context
  uses.\<close>

theorem schedule_installs_and_parks:
  assumes "schedule_chirho e s = (SwitchedTo p, s')" "SCHEDULER_CHIRHO s = Some q"
    and "length (slots (cpu s)) = MAX_PIDS_CHIRHO" "unat p \<noteq> BOOT_SLOT_CHIRHO"
  shows "(\<exists>t. find_task_by_pid_chirho s p = Some t \<and> state_chirho t \<in> {ReadyChirho, RunningChirho} \<and>
      installed e s p t s') \<and>
    (\<forall>po t. current_pid_chirho q = Some po \<longrightarrow> find_task_by_pid_chirho s po = Some t \<longrightarrow>
      parked e s po t s')"
proof -
  obtain s2 where d: "dispatch e (current_pid_chirho q) p s2 = (SwitchedTo p, s')"
    and ne: "current_pid_chirho q \<noteq> Some p" and ok: "candidate_ok e s (current_pid_chirho q) p"
    and same: "TASK_LIST_CHIRHO s2 = TASK_LIST_CHIRHO s" "cpu s2 = cpu s"
      "fs_base_msr s2 = fs_base_msr s" "gs_base_msr s2 = gs_base_msr s"
    by (rule schedule_switch_cases [OF assms(1,2)])
  note find_s2 = find_task_cong [OF same(1)]
  have "unat p < MAX_PIDS_CHIRHO"
    using ok ne by (auto simp: candidate_ok_def task_context_is_valid_chirho_def
        context_ptr_chirho_def split: if_splits)
  then obtain t where t: "find_task_by_pid_chirho s p = Some t" "installed e s2 p t s'"
    using dispatch_installs [OF d ne] assms(3,4) same(2) find_s2 by auto
  have "installed e s p t s'"
    using t(2) by (simp add: installed_def same switch_root_def find_s2 Let_def)
  moreover have "state_chirho t \<in> {ReadyChirho, RunningChirho}"
    using ok t(1) by (simp add: candidate_ok_def is_task_runnable_chirho_def)
  moreover have "parked e s po tp s'"
    if "current_pid_chirho q = Some po" "find_task_by_pid_chirho s po = Some tp" for po tp
    using dispatch_parks [of e po p s2 p s' tp] d that assms(3) same find_s2
    by (simp add: parked_def)
  ultimately show ?thesis using t(1) by blast
qed

section \<open>Limits of the context slots\<close>

lemma large_pid_invalid: "128 \<le> unat p \<Longrightarrow> \<not> task_context_is_valid_chirho e s p"
  by (simp add: task_context_is_valid_chirho_def context_ptr_chirho_def MAX_PIDS_CHIRHO_def)

text \<open>PIDs are never recycled and only the first 128 have a context slot.  A task
  with a larger PID that is not already running is never dispatched: the
  scheduler drops it from the run queue as soon as it reaches the front, and
  the idle loop does the same.\<close>

theorem large_pid_never_dispatched:
  assumes "128 \<le> unat p" "sched_current_pid_chirho s \<noteq> Some p"
  shows "sched_current_pid_chirho (snd (schedule_chirho e s)) \<noteq> Some p \<and>
    sched_current_pid_chirho (snd (idle_turn e l s)) \<noteq> Some p \<and>
    (\<forall>rest. queued s = p # rest \<longrightarrow> p \<notin> set rest \<longrightarrow>
      p \<notin> set (queued (snd (schedule_chirho e s))))"
proof (cases "SCHEDULER_CHIRHO s")
  case None
  then show ?thesis
    by (simp add: schedule_uninitialised idle_turn_def sched_current_pid_chirho_def queued_def)
next
  case (Some q)
  then have cur: "current_pid_chirho q \<noteq> Some p"
    using assms(2) by (simp add: sched_current_pid_chirho_def)
  then have no: "\<not> candidate_ok e s (current_pid_chirho q) p"
    by (simp add: candidate_ok_def large_pid_invalid [OF assms(1)])
  have 1: "sched_current_pid_chirho (snd (schedule_chirho e s)) \<noteq> Some p"
    using schedule_dispatches_first [OF Some, of e] no cur
    by (auto simp: find_Some_iff split: option.splits)
  have 2: "sched_current_pid_chirho (snd (idle_turn e l s)) \<noteq> Some p"
    using cur Some large_pid_invalid [OF assms(1), of e s]
    by (auto simp: idle_turn_def sched_current_pid_chirho_def Let_def split: list.splits option.splits)
  have 3: "p \<notin> set (queued (snd (schedule_chirho e s)))"
    if hd: "queued s = p # rest" and nin: "p \<notin> set rest" for rest
  proof -
    have "requeue_current s q = p # rest \<or> (\<exists>c. requeue_current s q = p # rest @ [c] \<and> c \<noteq> p)"
      using hd Some cur by (auto simp: queued_def requeue_current_def split: option.split)
    then obtain more where "requeue_current s q = p # more" "p \<notin> set more" using nin by auto
    then have "selection e s q = pick_runnable (candidate_ok e s (current_pid_chirho q)) more"
      using no by (simp add: selection_def)
    moreover have "set (snd (pick_runnable ok more)) \<subseteq> set more" for ok
      by (induction more) auto
    ultimately have "p \<notin> set (snd (selection e s q))" using \<open>p \<notin> set more\<close> by auto
    then show ?thesis
      using schedule_queue [OF Some, of e]
      by (auto simp: queued_def split: prod.splits option.splits)
  qed
  show ?thesis using 1 2 3 by blast
qed

lemma wrapper_same_slot:
  assumes "a < length (slots m)"
  shows "regs (switch_context_return_wrapper_chirho resume a a m) = (regs m)\<lparr>rip_chirho := resume\<rparr>"
  using assms by (simp add: machine_defs_chirho Let_def)

text \<open>The boot context uses slot 127, which is also the slot of PID 127.  When
  there is no current task, switching to PID 127 first saves the boot registers
  into that slot and then loads them back: the processor resumes the boot code
  it came from and never enters the task.\<close>

lemma pid_127_shares_boot_slot:
  assumes "length (slots (cpu s)) = MAX_PIDS_CHIRHO" "find_task_by_pid_chirho s 127 = Some t"
  shows "fst (dispatch e None 127 s) = SwitchedTo 127 \<and>
    regs (cpu (snd (dispatch e None 127 s))) = (regs (cpu s))\<lparr>rip_chirho := resume_addr e\<rparr>"
  using assms
  by (simp add: dispatch_def Let_def prepare_fields find_save_bases switch_slots_def publish_fields
      boot_context_ptr_chirho_def BOOT_SLOT_CHIRHO_def MAX_PIDS_CHIRHO_def wrapper_same_slot)

section \<open>Waking tasks\<close>

text \<open>The contract of \<^verbatim>\<open>unblock_task_chirho\<close> for its clients: a known task becomes
  runnable and is on the run queue afterwards while there is room, and no other
  task is taken off it.\<close>

locale task_waker =
  fixes unblock :: "u64 \<Rightarrow> 's \<Rightarrow> 's"
    and runs :: "'s \<Rightarrow> u64 set"
    and runnable :: "'s \<Rightarrow> u64 \<Rightarrow> bool"
    and known :: "'s \<Rightarrow> u64 \<Rightarrow> bool"
    and room :: "'s \<Rightarrow> nat"
  assumes unblock_runs: "0 < room s \<Longrightarrow> runs (unblock p s) = insert p (runs s)"
    and unblock_room: "room s \<le> Suc (room (unblock p s))"
    and unblock_runnable: "known s p \<Longrightarrow> runnable (unblock p s) p"
    and unblock_keeps: "runnable s r \<Longrightarrow> runnable (unblock p s) r"
    and unblock_known: "known (unblock p s) r = known s r"
begin

definition wake_list :: "u64 list \<Rightarrow> 's \<Rightarrow> 's" where
  "wake_list ps s = fold unblock ps s"

lemma wake_list_runs: "length ps \<le> room s \<Longrightarrow> runs (wake_list ps s) = set ps \<union> runs s"
proof (induction ps arbitrary: s)
  case Nil
  then show ?case by (simp add: wake_list_def)
next
  case (Cons p ps)
  then have "length ps \<le> room (unblock p s)" using unblock_room [of s p] by simp
  with Cons show ?case by (simp add: wake_list_def unblock_runs)
qed

lemma wake_list_keeps: "runnable s r \<Longrightarrow> runnable (wake_list ps s) r"
  by (induction ps arbitrary: s) (auto simp: wake_list_def intro: unblock_keeps)

lemma wake_list_runnable: "p \<in> set ps \<Longrightarrow> known s p \<Longrightarrow> runnable (wake_list ps s) p"
proof (induction ps arbitrary: s)
  case (Cons a ps)
  show ?case
  proof (cases "p = a")
    case True
    then have "runnable (unblock a s) p" using Cons.prems by (simp add: unblock_runnable)
    then show ?thesis using wake_list_keeps [of "unblock a s" p ps] by (simp add: wake_list_def)
  next
    case False
    then show ?thesis
      using Cons.IH [of "unblock a s"] Cons.prems by (simp add: wake_list_def unblock_known)
  qed
qed simp

end

definition known_task :: "sched_state \<Rightarrow> u64 \<Rightarrow> bool" where
  "known_task s p \<longleftrightarrow> find_task_by_pid_chirho s p \<noteq> None"

definition queue_room :: "sched_state \<Rightarrow> nat" where
  "queue_room s = (case SCHEDULER_CHIRHO s of None \<Rightarrow> 0
     | Some q \<Rightarrow> MAX_TASKS_CHIRHO - length (tasks_chirho q))"

lemma find_set_task_state:
  "find_task_by_pid_chirho (set_task_state p st s) r =
    (if r = p then map_option (\<lambda>t. t\<lparr>state_chirho := st\<rparr>) (find_task_by_pid_chirho s r)
     else find_task_by_pid_chirho s r)"
  by (simp add: find_task_by_pid_chirho_def set_task_state_def find_update_task)

lemma unblock_fields:
  "find_task_by_pid_chirho (unblock_task_chirho p s) r =
    find_task_by_pid_chirho (set_task_state p ReadyChirho s) r"
  "SCHEDULER_CHIRHO (unblock_task_chirho p s) = map_option (rq_add_task p) (SCHEDULER_CHIRHO s)"
  by (simp_all add: unblock_task_chirho_def add_task_chirho_def with_scheduler_def
      find_task_by_pid_chirho_def set_task_state_def)

interpretation waker: task_waker unblock_task_chirho scheduled is_task_runnable_chirho
  known_task queue_room
proof
  show "scheduled (unblock_task_chirho p s) = insert p (scheduled s)" if room: "0 < queue_room s" for p s
  proof -
    obtain q where "SCHEDULER_CHIRHO s = Some q" "\<not> length (tasks_chirho q) \<ge> MAX_TASKS_CHIRHO"
      using room by (auto simp: queue_room_def split: option.splits)
    then show ?thesis
      by (auto simp: scheduled_Some unblock_fields rq_add_task_def)
  qed
  show "queue_room s \<le> Suc (queue_room (unblock_task_chirho p s))" for p s
    by (cases "SCHEDULER_CHIRHO s") (auto simp: queue_room_def unblock_fields rq_add_task_def)
  show "is_task_runnable_chirho (unblock_task_chirho p s) p" if "known_task s p" for p s
    using that by (auto simp: known_task_def is_task_runnable_chirho_def unblock_fields
        find_set_task_state)
  show "is_task_runnable_chirho (unblock_task_chirho p s) r" if "is_task_runnable_chirho s r" for p s r
    using that by (auto simp: is_task_runnable_chirho_def unblock_fields find_set_task_state
        split: option.splits)
  show "known_task (unblock_task_chirho p s) r = known_task s r" for p s r
    by (simp add: known_task_def unblock_fields find_set_task_state)
qed

text \<open>Unblocking does not look at the state it overwrites.  A task that has exited
  (or was stopped by a signal) and whose PID is still on some wait queue
  becomes runnable again and enters the run queue when that queue is woken,
  although \<^verbatim>\<open>wake_chirho\<close> of the same descriptor would have left it alone.\<close>

lemma unblock_revives_exited_task:
  assumes "find_task_by_pid_chirho s p = Some t" "is_exited_chirho t" "0 < queue_room s"
  shows "is_task_runnable_chirho (unblock_task_chirho p s) p \<and>
    p \<in> scheduled (unblock_task_chirho p s) \<and> wake_chirho t = t"
proof -
  have "known_task s p" using assms(1) by (simp add: known_task_def)
  moreover have "wake_chirho t = t"
    using assms(2) by (auto simp: wake_chirho_def is_exited_chirho_def)
  ultimately show ?thesis
    using waker.unblock_runnable waker.unblock_runs [OF assms(3), of p] by simp
qed

section \<open>Time slices\<close>

text \<open>Marking adds exactly the one PID to the set of render tasks, and reports
  whether it was new; PIDs beyond the bit set are refused, counted (the count
  saturates) and stay unmarked.\<close>

lemma mark_x11_spec:
  assumes len: "length (X11_RENDER_TASK_BITS_CHIRHO s) = X11_RENDER_TASK_WORD_COUNT_CHIRHO"
    and m: "mark_x11_render_task_chirho p s = (r, s')"
  shows "is_x11_render_task_chirho s' x \<longleftrightarrow>
      is_x11_render_task_chirho s x \<or> (x = p \<and> unat p < MAX_TASKS_CHIRHO)"
    and "r = (if unat p \<ge> MAX_TASKS_CHIRHO then CapacityExceededChirho p MAX_TASKS_CHIRHO
      else if is_x11_render_task_chirho s p then AlreadyMarkedChirho else MarkedChirho)"
    and "unat (X11_RENDER_TASK_OVERFLOW_COUNT_CHIRHO s') = (if unat p \<ge> MAX_TASKS_CHIRHO
      then min (2 ^ 64 - 1) (Suc (unat (X11_RENDER_TASK_OVERFLOW_COUNT_CHIRHO s)))
      else unat (X11_RENDER_TASK_OVERFLOW_COUNT_CHIRHO s))"
proof -
  have bit: "is_x11_render_task_chirho s x \<longleftrightarrow> unat x < MAX_TASKS_CHIRHO \<and>
      bit (X11_RENDER_TASK_BITS_CHIRHO s ! (unat x div 64)) (unat x mod 64)" for s x
    by (simp add: is_x11_render_task_chirho_def shl_u64_def push_bit_eq_mult and_exp_eq_0_iff_not_bit)
  have pow: "bit (2 ^ (m mod 64) :: u64) (n mod 64) \<longleftrightarrow> n mod 64 = m mod 64" for m n
    by (auto simp: bit_2_iff bit_exp_iff)
  have word: "unat x div 64 < length (X11_RENDER_TASK_BITS_CHIRHO s)" if "unat x < MAX_TASKS_CHIRHO" for x :: u64
    using that len by (simp add: X11_RENDER_TASK_WORD_COUNT_CHIRHO_def MAX_TASKS_CHIRHO_def less_mult_imp_div_less)
  have same: "unat x div 64 = unat p div 64 \<and> unat x mod 64 = unat p mod 64 \<longleftrightarrow> x = p" for x
    by (metis div_mult_mod_eq word_unat_eq_iff)
  show "is_x11_render_task_chirho s' x \<longleftrightarrow>
      is_x11_render_task_chirho s x \<or> (x = p \<and> unat p < MAX_TASKS_CHIRHO)"
    using m same [of x] word [of x] word [of p] unfolding bit
    by (auto simp: mark_x11_render_task_chirho_def record_x11_render_task_overflow_chirho_def Let_def
        shl_u64_def nth_list_update bit_or_iff pow split: if_splits)
  show "r = (if unat p \<ge> MAX_TASKS_CHIRHO then CapacityExceededChirho p MAX_TASKS_CHIRHO
      else if is_x11_render_task_chirho s p then AlreadyMarkedChirho else MarkedChirho)"
    using m by (auto simp: mark_x11_render_task_chirho_def record_x11_render_task_overflow_chirho_def
        is_x11_render_task_chirho_def Let_def split: if_splits)
  show "unat (X11_RENDER_TASK_OVERFLOW_COUNT_CHIRHO s') = (if unat p \<ge> MAX_TASKS_CHIRHO
      then min (2 ^ 64 - 1) (Suc (unat (X11_RENDER_TASK_OVERFLOW_COUNT_CHIRHO s)))
      else unat (X11_RENDER_TASK_OVERFLOW_COUNT_CHIRHO s))"
    using m by (auto simp: mark_x11_render_task_chirho_def record_x11_render_task_overflow_chirho_def
        Let_def unat_saturating_add split: if_splits)
qed

text \<open>A running task keeps the processor for exactly its remaining ticks: the flag
  is raised by the tick that takes the count to zero, and by every later one.\<close>

lemma tick_one:
  assumes "SCHEDULER_CHIRHO s = Some q" "current_pid_chirho q = Some p"
  shows "\<exists>q'. SCHEDULER_CHIRHO (schedule_tick_chirho True s) = Some q' \<and>
    current_pid_chirho q' = Some p \<and>
    remaining_ticks_chirho q' = saturating_sub (remaining_ticks_chirho q) 1 \<and>
    (NEED_RESCHED_ATOMIC_CHIRHO (schedule_tick_chirho True s) \<longleftrightarrow>
      NEED_RESCHED_ATOMIC_CHIRHO s \<or> saturating_sub (remaining_ticks_chirho q) 1 = 0)"
  using assms by (simp add: schedule_tick_chirho_def rq_tick_def Let_def)

lemma tick_countdown:
  assumes "SCHEDULER_CHIRHO s = Some q" "current_pid_chirho q = Some p"
    "\<not> NEED_RESCHED_ATOMIC_CHIRHO s" "n \<le> unat (remaining_ticks_chirho q)" "0 < n"
  shows "NEED_RESCHED_ATOMIC_CHIRHO ((schedule_tick_chirho True ^^ n) s) \<longleftrightarrow>
    n = unat (remaining_ticks_chirho q)"
proof -
  have "\<exists>q'. SCHEDULER_CHIRHO ((schedule_tick_chirho True ^^ k) s) = Some q' \<and>
      current_pid_chirho q' = Some p \<and>
      unat (remaining_ticks_chirho q') = unat (remaining_ticks_chirho q) - k \<and>
      (NEED_RESCHED_ATOMIC_CHIRHO ((schedule_tick_chirho True ^^ k) s) \<longleftrightarrow>
        0 < k \<and> unat (remaining_ticks_chirho q) \<le> k)" for k
  proof (induction k)
    case 0
    then show ?case using assms by simp
  next
    case (Suc k)
    let ?s = "(schedule_tick_chirho True ^^ k) s"
    obtain q' where q': "SCHEDULER_CHIRHO ?s = Some q'" "current_pid_chirho q' = Some p"
      "unat (remaining_ticks_chirho q') = unat (remaining_ticks_chirho q) - k"
      "NEED_RESCHED_ATOMIC_CHIRHO ?s \<longleftrightarrow> 0 < k \<and> unat (remaining_ticks_chirho q) \<le> k"
      using Suc by blast
    have u: "unat (saturating_sub (remaining_ticks_chirho q') 1) = unat (remaining_ticks_chirho q) - Suc k"
      using q'(3) by (simp add: unat_saturating_sub)
    then have z: "saturating_sub (remaining_ticks_chirho q') 1 = 0 \<longleftrightarrow>
        unat (remaining_ticks_chirho q) \<le> Suc k"
      by (metis diff_is_0_eq unat_0 word_unat_eq_iff)
    show ?case
      using tick_one [OF q'(1,2)] u z q'(4) by auto
  qed
  from this [of n] show ?thesis using assms(4,5) by auto
qed

section \<open>The policy trait\<close>

locale fifo_policy =
  fixes pick :: "'r \<Rightarrow> u64 option \<times> 'r"
    and enqueue :: "u64 \<Rightarrow> 'r \<Rightarrow> 'r"
    and dequeue :: "u64 \<Rightarrow> 'r \<Rightarrow> 'r"
    and waiting :: "'r \<Rightarrow> u64 list"
  assumes pick_empty: "waiting r = [] \<Longrightarrow> pick r = (None, r)"
    and pick_first: "waiting r = p # ps \<Longrightarrow> fst (pick r) = Some p \<and> waiting (snd (pick r)) = ps"
    and enqueue_waiting: "waiting (enqueue p r) =
      (if p \<in> set (waiting r) then waiting r else waiting r @ [p])"
    and dequeue_waiting: "distinct (waiting r) \<Longrightarrow>
      waiting (dequeue p r) = filter (\<lambda>x. x \<noteq> p) (waiting r)"
begin

primrec picks :: "nat \<Rightarrow> 'r \<Rightarrow> u64 option list \<times> 'r" where
  "picks 0 r = ([], r)"
| "picks (Suc n) r = (let (p, r1) = pick r; (ps, r2) = picks n r1 in (p # ps, r2))"

lemma picks_in_order:
  "n \<le> length (waiting r) \<Longrightarrow> fst (picks n r) = map Some (take n (waiting r)) \<and>
    waiting (snd (picks n r)) = drop n (waiting r)"
proof (induction n arbitrary: r)
  case (Suc n)
  then obtain p ps where w: "waiting r = p # ps" by (cases "waiting r") auto
  then have "fst (pick r) = Some p" "waiting (snd (pick r)) = ps" using pick_first by blast+
  then show ?case using Suc.IH [of "snd (pick r)"] Suc.prems w by (simp add: case_prod_beta Let_def)
qed simp

text \<open>A newly enqueued task is picked after exactly the tasks that were waiting.\<close>

lemma enqueued_picked_last:
  assumes "p \<notin> set (waiting r)"
  shows "fst (picks (Suc (length (waiting r))) (enqueue p r)) = map Some (waiting r) @ [Some p]"
  using assms picks_in_order [of "Suc (length (waiting r))" "enqueue p r"]
  by (simp only: enqueue_waiting) simp

lemma distinct_enqueue: "distinct (waiting r) \<Longrightarrow> distinct (waiting (enqueue p r))"
  by (simp add: enqueue_waiting)

end

lemma remove_first_filter:
  "distinct xs \<Longrightarrow> position (\<lambda>x. x = p) xs = Some i \<Longrightarrow> remove_at i xs = filter (\<lambda>x. x \<noteq> p) xs"
proof (induction xs arbitrary: i)
  case (Cons y ys)
  show ?case
  proof (cases "y = p")
    case True
    then have "filter (\<lambda>x. x \<noteq> p) ys = ys" using Cons.prems(1) by (auto simp: filter_id_conv)
    then show ?thesis using Cons.prems(2) True by (auto simp: remove_at_def)
  next
    case False
    then show ?thesis using Cons by (auto simp: remove_at_def split: option.splits)
  qed
qed simp

interpretation rr: fifo_policy rr_pick_next_chirho rr_enqueue_chirho rr_dequeue_chirho queue_chirho
proof
  show "queue_chirho (rr_dequeue_chirho p r) = filter (\<lambda>x. x \<noteq> p) (queue_chirho r)"
    if "distinct (queue_chirho r)" for p r
    using that
    by (auto simp: rr_dequeue_chirho_def remove_first_filter position_None_iff filter_id_conv
        split: option.splits)
qed (auto simp: rr_pick_next_chirho_def rr_enqueue_chirho_def split: list.splits)

lemmas rr_fair = rr.enqueued_picked_last

section \<open>A concrete machine\<close>

definition demo_env_sched :: boot_env where
  "demo_env_sched = \<lparr>resume_addr = 0x4000,
     boot_pt = (\<lambda>a. if a < 0x100000 then Some (a, 1) else None), boot_pml4 = 0x7000\<rparr>"

definition demo_task :: "u64 \<Rightarrow> TaskStateChirho \<Rightarrow> TaskChirho" where
  "demo_task p st = \<lparr>pid_chirho = p, tgid_chirho = p, ppid_chirho = 0, state_chirho = st,
     exit_code_chirho = 0, context_chirho = zero_chirho, kernel_stack_chirho = 0x10000 * p,
     kernel_stack_size_chirho = 0x1000, page_table_root_chirho = Some (0x2000 * p),
     time_slice_chirho = 10, comm_chirho = [], fs_base_chirho = 7 * p, gs_base_chirho = 0,
     sid_chirho = p, pgid_chirho = p\<rparr>"

definition demo_slot :: "nat \<Rightarrow> CpuContextChirho" where
  "demo_slot n = zero_chirho\<lparr>rsp_chirho := 0x10000 * of_nat n, rip_chirho := 0x4100\<rparr>"

definition demo_sched :: sched_state where
  "demo_sched = \<lparr>SCHEDULER_CHIRHO = Some \<lparr>tasks_chirho = [200, 4, 2], current_pid_chirho = Some 3,
       remaining_ticks_chirho = 0, tick_count_chirho = 9, need_resched_chirho = True\<rparr>,
     NEED_RESCHED_ATOMIC_CHIRHO = True, GLOBAL_TICK_COUNT_CHIRHO = 9,
     TICK_LOCK_MISS_COUNTER_CHIRHO = 0, X11_RENDER_TASK_BITS_CHIRHO = replicate 16 0,
     X11_RENDER_TASK_OVERFLOW_COUNT_CHIRHO = 0, X11_RENDER_TASK_OVERFLOW_REPORTED_CHIRHO = False,
     TASK_LIST_CHIRHO = [demo_task 2 ReadyChirho, demo_task 3 RunningChirho,
       demo_task 4 SleepingChirho, demo_task 200 ReadyChirho],
     CURRENT_TASK_CHIRHO = Some 3, NEXT_PID_CHIRHO = 201, NEXT_STACK_ADDR_CHIRHO = 0xFFFF810000000000,
     cpu = \<lparr>regs = zero_chirho\<lparr>rsp_chirho := 0x2ff00, rbx_chirho := 5\<rparr>, cr3 = 0x6000,
       PENDING_CR3_CHIRHO = 0, stack_mem = (\<lambda>_. 0x4200), slots = map demo_slot [0..<128]\<rparr>,
     fs_base_msr = 99, gs_base_msr = 0, KERNEL_STACK_TOP_CHIRHO = 0x30000, tss_rsp0 = 0x30000\<rparr>"

lemmas demo_sched_defs = demo_env_sched_def demo_task_def demo_slot_def demo_sched_def

lemma demo_task_fields [simp]:
  "pid_chirho (demo_task p st) = p" "state_chirho (demo_task p st) = st"
  "kernel_stack_chirho (demo_task p st) = 0x10000 * p" "kernel_stack_size_chirho (demo_task p st) = 0x1000"
  "page_table_root_chirho (demo_task p st) = Some (0x2000 * p)" "fs_base_chirho (demo_task p st) = 7 * p"
  by (simp_all add: demo_task_def)

lemma demo_tasks:
  "find_task_by_pid_chirho demo_sched 2 = Some (demo_task 2 ReadyChirho)"
  "find_task_by_pid_chirho demo_sched 3 = Some (demo_task 3 RunningChirho)"
  "find_task_by_pid_chirho demo_sched 4 = Some (demo_task 4 SleepingChirho)"
  by (simp_all add: find_task_by_pid_chirho_def demo_sched_def)

lemma demo_slots: "slots (cpu demo_sched) = map demo_slot [0..<128]"
  by (simp add: demo_sched_def)

lemma demo_valid: "task_context_is_valid_chirho demo_env_sched demo_sched 2"
  by (simp add: task_context_is_valid_chirho_def context_ptr_chirho_def MAX_PIDS_CHIRHO_def
      demo_tasks demo_slots Let_def demo_slot_def zero_chirho_def demo_env_sched_def
      is_kernel_instruction_address_chirho_def)

lemma demo_candidate:
  "candidate_ok demo_env_sched (demo_sched\<lparr>SCHEDULER_CHIRHO := x\<rparr>) old 2"
  "candidate_ok demo_env_sched demo_sched old 2"
proof -
  have "task_context_is_valid_chirho e (s\<lparr>SCHEDULER_CHIRHO := x\<rparr>) p =
      task_context_is_valid_chirho e s p" for e s p
    by (simp add: task_context_is_valid_chirho_def find_task_by_pid_chirho_def Let_def
        split: option.split)
  moreover have "is_task_runnable_chirho (s\<lparr>SCHEDULER_CHIRHO := x\<rparr>) p = is_task_runnable_chirho s p" for s p
    by (simp add: is_task_runnable_chirho_def find_task_by_pid_chirho_def)
  ultimately show "candidate_ok demo_env_sched (demo_sched\<lparr>SCHEDULER_CHIRHO := x\<rparr>) old 2"
    "candidate_ok demo_env_sched demo_sched old 2"
    by (simp_all add: candidate_ok_def demo_valid is_task_runnable_chirho_def demo_tasks)
qed

lemma demo_not_candidate:
  "\<not> candidate_ok demo_env_sched demo_sched (Some 3) 200"
  "\<not> candidate_ok demo_env_sched demo_sched (Some 3) 4"
  by (simp_all add: candidate_ok_def large_pid_invalid is_task_runnable_chirho_def demo_tasks)

definition demo_rq :: RunQueueChirho where "demo_rq = the (SCHEDULER_CHIRHO demo_sched)"

lemma demo_rq:
  "SCHEDULER_CHIRHO demo_sched = Some demo_rq" "current_pid_chirho demo_rq = Some 3"
  "tasks_chirho demo_rq = [200, 4, 2]"
  "requeue_current demo_sched demo_rq = [200, 4, 2, 3]"
  by (simp_all add: demo_rq_def demo_sched_def requeue_current_def is_task_runnable_chirho_def
      find_task_by_pid_chirho_def)

lemma demo_switches: "fst (schedule_chirho demo_env_sched demo_sched) = SwitchedTo 2"
proof -
  have "pick_runnable (candidate_ok demo_env_sched demo_sched (Some 3)) [200, 4, 2, 3] = (Some 2, [3])"
    by (simp add: demo_candidate demo_not_candidate)
  then show ?thesis
    by (simp add: schedule_chirho_def demo_rq Let_def dispatch_def context_ptr_chirho_def
        MAX_PIDS_CHIRHO_def prepare_fields find_save_bases find_task_cong [of "demo_sched\<lparr>NEED_RESCHED_ATOMIC_CHIRHO := a, SCHEDULER_CHIRHO := b\<rparr>" demo_sched for a b]
        demo_tasks)
qed

theorem run_queue_well_formed_witness:
  "let s = unblock_task_chirho 5 (demo_sched\<lparr>SCHEDULER_CHIRHO := Some run_queue_new_chirho\<rparr>)
   in \<exists>q. SCHEDULER_CHIRHO s = Some q \<and> tasks_chirho q = [5] \<and> distinct (tasks_chirho q) \<and>
     length (tasks_chirho q) \<le> MAX_TASKS_CHIRHO"
proof -
  let ?s0 = "demo_sched\<lparr>SCHEDULER_CHIRHO := None\<rparr>"
  let ?s1 = "demo_sched\<lparr>SCHEDULER_CHIRHO := Some run_queue_new_chirho\<rparr>"
  have "init_scheduler_chirho ?s0 = Some ?s1" by (simp add: init_scheduler_chirho_def)
  then have "(sched_step demo_env_sched)\<^sup>*\<^sup>* ?s0 (unblock_task_chirho 5 ?s1)"
    by (meson sched_step.init sched_step.unblock r_into_rtranclp rtranclp.rtrancl_into_rtrancl)
  moreover have "SCHEDULER_CHIRHO (unblock_task_chirho 5 ?s1) =
      Some (run_queue_new_chirho\<lparr>tasks_chirho := [5]\<rparr>)"
    by (simp add: unblock_fields rq_add_task_def run_queue_new_chirho_def MAX_TASKS_CHIRHO_def)
  ultimately show ?thesis
    using run_queue_well_formed [of ?s0 demo_env_sched "unblock_task_chirho 5 ?s1"] by simp
qed

theorem schedule_selects_first_and_loses_none_witness:
  "sched_current_pid_chirho (snd (schedule_chirho demo_env_sched demo_sched)) = Some 2"
  using schedule_selects_first_and_loses_none [OF demo_rq(1), of demo_env_sched]
  by (simp add: demo_rq demo_candidate demo_not_candidate)

text \<open>After boot task 2 is queued and task 3 runs; task 4 is woken in front of task 2 and
  dispatched first, then task 2.\<close>

definition demo_started :: sched_state where
  "demo_started = set_current_pid_chirho 3 (add_task_chirho 2
     (demo_sched\<lparr>SCHEDULER_CHIRHO := Some run_queue_new_chirho\<rparr>))"

lemma demo_started:
  "SCHEDULER_CHIRHO demo_started = Some (run_queue_new_chirho\<lparr>tasks_chirho := [2], current_pid_chirho := Some 3\<rparr>)"
  by (simp add: demo_started_def set_current_pid_chirho_def add_task_chirho_def with_scheduler_def
      rq_add_task_def run_queue_new_chirho_def MAX_TASKS_CHIRHO_def)

lemma demo_started_reached: "(sched_step demo_env_sched)\<^sup>*\<^sup>* (demo_sched\<lparr>SCHEDULER_CHIRHO := None\<rparr>) demo_started"
proof -
  let ?s1 = "demo_sched\<lparr>SCHEDULER_CHIRHO := Some run_queue_new_chirho\<rparr>"
  have "init_scheduler_chirho (demo_sched\<lparr>SCHEDULER_CHIRHO := None\<rparr>) = Some ?s1" by (simp add: init_scheduler_chirho_def)
  then have 1: "sched_step demo_env_sched (demo_sched\<lparr>SCHEDULER_CHIRHO := None\<rparr>) ?s1" by (rule sched_step.init)
  have "3 \<notin> set (queued (add_task_chirho 2 ?s1))"
    by (simp add: add_task_chirho_def with_scheduler_def rq_add_task_def run_queue_new_chirho_def queued_def)
  then have "sched_step demo_env_sched (add_task_chirho 2 ?s1) demo_started"
    unfolding demo_started_def by (rule sched_step.current)
  then show ?thesis using 1 sched_step.add [of demo_env_sched ?s1 2] by (meson converse_rtranclp_into_rtranclp r_into_rtranclp)
qed

lemma demo_woken: "candidate_ok demo_env_sched (unblock_task_chirho 4 demo_started) old 4"
  "candidate_ok demo_env_sched (unblock_task_chirho 4 demo_started) old 2"
proof -
  let ?s = "unblock_task_chirho 4 demo_started"
  have s: "cpu ?s = cpu demo_sched" "TASK_LIST_CHIRHO ?s = [demo_task 2 ReadyChirho, demo_task 3 RunningChirho,
       demo_task 4 ReadyChirho, demo_task 200 ReadyChirho]"
    by (simp_all add: demo_started_def set_current_pid_chirho_def add_task_chirho_def with_scheduler_def unblock_task_chirho_def
      set_task_state_def demo_sched_def demo_task_def)
  then have "find_task_by_pid_chirho ?s 4 = Some (demo_task 4 ReadyChirho)" "find_task_by_pid_chirho ?s 2 = Some (demo_task 2 ReadyChirho)"
    by (simp_all add: find_task_by_pid_chirho_def)
  then show "candidate_ok demo_env_sched ?s old 4" "candidate_ok demo_env_sched ?s old 2"
    using s(1) by (simp_all add: candidate_ok_def is_task_runnable_chirho_def task_context_is_valid_chirho_def context_ptr_chirho_def
        MAX_PIDS_CHIRHO_def demo_slots Let_def demo_slot_def zero_chirho_def demo_env_sched_def
        is_kernel_instruction_address_chirho_def)
qed

theorem queued_task_is_dispatched_witness:
  "let s = snd (schedule_chirho demo_env_sched (unblock_task_chirho 4 demo_started))
   in sched_current_pid_chirho s = Some 4 \<and>
     sched_current_pid_chirho (snd (schedule_chirho demo_env_sched (demo_sched\<lparr>SCHEDULER_CHIRHO := SCHEDULER_CHIRHO s\<rparr>))) = Some 2"
proof -
  let ?u = "unblock_task_chirho 4 demo_started"
  let ?s = "snd (schedule_chirho demo_env_sched ?u)" and ?t = "demo_sched\<lparr>SCHEDULER_CHIRHO :=
    SCHEDULER_CHIRHO (snd (schedule_chirho demo_env_sched (unblock_task_chirho 4 demo_started)))\<rparr>"
  have first: "sched_current_pid_chirho ?s = Some 4"
    by (rule woken_task_goes_first [OF demo_started])
      (simp_all add: demo_woken MAX_TASKS_CHIRHO_def)
  have "waits demo_env_sched 2 demo_started 0 (Suc 0) ?u" using waits_insert [OF waits_start] by blast
  then have "waits demo_env_sched 2 demo_started (Suc 0) (Suc 0) ?s"
    by (rule waits_round [OF _ demo_woken(2) disjI1 [OF refl]]) (simp add: first)
  then have "waits demo_env_sched 2 demo_started (Suc 0) (Suc 0) ?t"
    by (rule waits_quiet) simp
  moreover have "queued demo_started = [2]" by (simp add: queued_def demo_started)
  ultimately have "sched_current_pid_chirho (snd (schedule_chirho demo_env_sched ?t)) = Some 2"
    using queued_task_is_dispatched [OF _ demo_started_reached, of 0 2 "Suc 0" "Suc 0" ?t] demo_candidate(1) by simp
  then show ?thesis using first by (simp add: Let_def)
qed

theorem schedule_installs_and_parks_witness:
  "installed demo_env_sched demo_sched 2 (demo_task 2 ReadyChirho)
     (snd (schedule_chirho demo_env_sched demo_sched)) \<and>
   parked demo_env_sched demo_sched 3 (demo_task 3 RunningChirho)
     (snd (schedule_chirho demo_env_sched demo_sched))"
proof -
  have "schedule_chirho demo_env_sched demo_sched =
      (SwitchedTo 2, snd (schedule_chirho demo_env_sched demo_sched))"
    using demo_switches by (simp add: prod_eq_iff)
  from schedule_installs_and_parks [OF this demo_rq(1)]
  show ?thesis
    by (simp add: demo_slots MAX_PIDS_CHIRHO_def BOOT_SLOT_CHIRHO_def demo_tasks demo_rq)
qed

theorem large_pid_never_dispatched_witness:
  "200 \<notin> set (queued (snd (schedule_chirho demo_env_sched demo_sched)))"
  using large_pid_never_dispatched [of 200 demo_sched demo_env_sched True]
  by (simp add: sched_current_pid_chirho_def queued_def demo_rq)

end
