(* ===== verification/Wait_Queue.thy ===== *)
theory Wait_Queue
  imports Sched_Policy
begin

text \<open>
  Wait queues: \<^verbatim>\<open>sched_chirho/waitqueue_chirho.rs\<close>, on the scheduler state of
  \<^verbatim>\<open>Scheduler\<close>.  \<^verbatim>\<open>wait_event_chirho\<close> calls a condition closure that may change
  between calls and is suspended while other tasks run; the two are the
  arguments \<^verbatim>\<open>cond\<close> (the answer of the k-th evaluation) and \<^verbatim>\<open>others\<close> (what the rest
  of the system does to the queue and the scheduler during the k-th sleep).
  The loop need not end, so it runs on fuel and out-of-fuel is \<^const>\<open>None\<close>.
\<close>

record WaitQueueChirho =
  waiters_chirho :: "u64 list"

definition wq_new_chirho :: WaitQueueChirho where
  "wq_new_chirho = \<lparr>waiters_chirho = []\<rparr>"

definition add_waiter_chirho :: "u64 \<Rightarrow> WaitQueueChirho \<Rightarrow> WaitQueueChirho" where
  "add_waiter_chirho pid w = (if pid \<in> set (waiters_chirho w) then w
     else w\<lparr>waiters_chirho := waiters_chirho w @ [pid]\<rparr>)"

definition remove_waiter_chirho :: "u64 \<Rightarrow> WaitQueueChirho \<Rightarrow> WaitQueueChirho" where
  "remove_waiter_chirho pid w = (case position (\<lambda>p. p = pid) (waiters_chirho w) of
     Some i \<Rightarrow> w\<lparr>waiters_chirho := remove_at i (waiters_chirho w)\<rparr> | None \<Rightarrow> w)"

definition wq_len_chirho :: "WaitQueueChirho \<Rightarrow> nat" where
  "wq_len_chirho w = length (waiters_chirho w)"

definition wq_is_empty_chirho :: "WaitQueueChirho \<Rightarrow> bool" where
  "wq_is_empty_chirho w = (waiters_chirho w = [])"

type_synonym wait_world = "WaitQueueChirho \<times> sched_state"

definition wake_up_chirho :: "wait_world \<Rightarrow> wait_world" where
  "wake_up_chirho ws = (case ws of (w, s) \<Rightarrow>
     (w\<lparr>waiters_chirho := []\<rparr>, fold unblock_task_chirho (waiters_chirho w) s))"

definition wake_up_one_chirho :: "wait_world \<Rightarrow> wait_world" where
  "wake_up_one_chirho ws = (case ws of (w, s) \<Rightarrow>
     (case waiters_chirho w of [] \<Rightarrow> (w, s)
      | p # ps \<Rightarrow> (w\<lparr>waiters_chirho := ps\<rparr>, unblock_task_chirho p s)))"

text \<open>One pass of the loop evaluates the condition; when it is false the task blocks
  and \<^verbatim>\<open>others\<close> runs until it is dispatched again.\<close>

fun wait_loop :: "nat \<Rightarrow> boot_env \<Rightarrow> (nat \<Rightarrow> bool) \<Rightarrow> (nat \<Rightarrow> wait_world \<Rightarrow> wait_world) \<Rightarrow> u64 \<Rightarrow>
    nat \<Rightarrow> wait_world \<Rightarrow> wait_world option" where
  "wait_loop 0 e cond others pid k ws = None"
| "wait_loop (Suc fuel) e cond others pid k (w, s) =
     (if cond k then Some (remove_waiter_chirho pid w, s)
      else wait_loop fuel e cond others pid (Suc k)
             (others k (w, snd (block_current_chirho e s))))"

definition wait_event_chirho :: "nat \<Rightarrow> boot_env \<Rightarrow> (nat \<Rightarrow> bool) \<Rightarrow> (nat \<Rightarrow> wait_world \<Rightarrow> wait_world) \<Rightarrow>
    wait_world \<Rightarrow> wait_world option" where
  "wait_event_chirho fuel e cond others ws =
     (if cond 0 then Some ws
      else case sched_current_pid_chirho (snd ws) of None \<Rightarrow> Some ws
           | Some pid \<Rightarrow> wait_loop fuel e cond others pid 1 (add_waiter_chirho pid (fst ws), snd ws))"

section \<open>Waking\<close>

lemma wake_up_eq:
  "wake_up_chirho (w, s) = (w\<lparr>waiters_chirho := []\<rparr>, waker.wake_list (waiters_chirho w) s)"
  by (simp add: wake_up_chirho_def waker.wake_list_def)

text \<open>Waking a queue empties it and makes every waiter that is a known task
  runnable and present on the run queue (or running), as long as the run queue
  has room for them; nobody else leaves the run queue.  Waking one does this
  for the oldest waiter only and keeps the others in order.\<close>

theorem wake_up_makes_waiters_run:
  assumes "length (waiters_chirho w) \<le> queue_room s"
  shows "waiters_chirho (fst (wake_up_chirho (w, s))) = [] \<and>
    scheduled (snd (wake_up_chirho (w, s))) = set (waiters_chirho w) \<union> scheduled s \<and>
    (\<forall>p \<in> set (waiters_chirho w). known_task s p \<longrightarrow>
      is_task_runnable_chirho (snd (wake_up_chirho (w, s))) p) \<and>
    (\<forall>p ps. waiters_chirho w = p # ps \<longrightarrow>
      waiters_chirho (fst (wake_up_one_chirho (w, s))) = ps \<and>
      scheduled (snd (wake_up_one_chirho (w, s))) = insert p (scheduled s))"
  using assms waker.unblock_runs [of s]
  by (auto simp: wake_up_eq wake_up_one_chirho_def waker.wake_list_runs waker.wake_list_runnable)

section \<open>Waiting\<close>

text \<open>A waiter is entered into the queue once, before the loop.  Waking empties the queue, so
  a task that is woken and finds its condition still false sleeps again without being
  in the queue, and later wake-ups of that queue do not reach it.\<close>

lemma vain_wake_up_leaves_queue:
  assumes "\<not> cond k" "\<not> cond (Suc k)" and "\<And>ws. others k ws = wake_up_chirho ws"
  shows "\<exists>s1. wait_loop (Suc (Suc fuel)) e cond others pid k (w, s) =
      wait_loop fuel e cond others pid (Suc (Suc k)) (others (Suc k) (w\<lparr>waiters_chirho := []\<rparr>, s1))"
  using assms by (auto simp: wake_up_eq)

section \<open>The window between the check and the sleep\<close>

text \<open>The condition is evaluated with interrupts disabled, but they are enabled again
  before the task blocks.\<close>

lemma find_task_updates [simp]:
  "find_task_by_pid_chirho (s\<lparr>SCHEDULER_CHIRHO := x\<rparr>) p = find_task_by_pid_chirho s p"
  "find_task_by_pid_chirho (s\<lparr>NEED_RESCHED_ATOMIC_CHIRHO := b\<rparr>) p = find_task_by_pid_chirho s p"
  by (simp_all add: find_task_by_pid_chirho_def)

definition task_state :: "sched_state \<Rightarrow> u64 \<Rightarrow> TaskStateChirho option" where
  "task_state s p = map_option state_chirho (find_task_by_pid_chirho s p)"

lemma task_state_runnable:
  "is_task_runnable_chirho s p \<longleftrightarrow> task_state s p \<in> {Some ReadyChirho, Some RunningChirho}"
  by (auto simp: is_task_runnable_chirho_def task_state_def split: option.splits)

lemma task_state_save_bases: "task_state (save_bases old s) p = task_state s p"
  by (simp add: task_state_def find_save_bases option.map_comp comp_def)

lemma task_state_fields [simp]:
  "task_state (switch_slots e a b s) p = task_state s p"
  "task_state (publish_task t s) p = task_state s p"
  "task_state (arch_prepare_switch_chirho e old n s) p = task_state s p"
  "task_state (s\<lparr>SCHEDULER_CHIRHO := x\<rparr>) p = task_state s p"
  "task_state (s\<lparr>NEED_RESCHED_ATOMIC_CHIRHO := c\<rparr>) p = task_state s p"
  using task_state_save_bases [of old s p]
  by (simp_all add: task_state_def publish_fields prepare_fields)

lemma task_state_dispatch [simp]: "task_state (snd (dispatch e old n s)) p = task_state s p"
  unfolding dispatch_def Let_def by (simp split: option.split)

lemma task_state_schedule: "task_state (snd (schedule_chirho e s)) p = task_state s p"
proof (cases "SCHEDULER_CHIRHO s")
  case None
  then show ?thesis by (simp add: schedule_uninitialised)
next
  case (Some q)
  obtain nxt rest where sel: "selection e s q = (nxt, rest)" by fastforce
  show ?thesis
  proof (cases nxt)
    case None
    with Some sel show ?thesis
      by (cases "Option.bind (current_pid_chirho q) context_ptr_chirho")
        (simp_all add: schedule_chirho_def selection_def Let_def)
  next
    case (Some n)
    with \<open>SCHEDULER_CHIRHO s = Some q\<close> sel show ?thesis
      by (simp add: schedule_chirho_def selection_def Let_def)
  qed
qed

lemma schedule_queued:
  assumes "SCHEDULER_CHIRHO s = Some q"
  shows "queued (snd (schedule_chirho e s)) = snd (selection e s q)"
proof -
  obtain nxt rest where "selection e s q = (nxt, rest)" by fastforce
  then show ?thesis
    using schedule_queue [OF assms, of e] by (cases nxt) (simp_all add: queued_def)
qed

lemma block_current_effect:
  assumes "SCHEDULER_CHIRHO s = Some q" "current_pid_chirho q = Some p" "known_task s p" "rq_ok q"
  shows "\<not> is_task_runnable_chirho (snd (block_current_chirho e s)) p"
    and "p \<notin> set (queued (snd (block_current_chirho e s)))"
proof -
  define s1 where "s1 = mark_current_sleeping s"
  have s1: "SCHEDULER_CHIRHO s1 = Some (q\<lparr>need_resched_chirho := True\<rparr>)"
    "task_state s1 p = Some SleepingChirho"
    using assms by (auto simp: s1_def mark_current_sleeping_def task_state_def find_set_task_state known_task_def)
  have b: "snd (block_current_chirho e s) = snd (schedule_chirho e s1)"
    using assms by (simp add: block_current_chirho_def Let_def sched_current_pid_chirho_def s1_def)
  show "\<not> is_task_runnable_chirho (snd (block_current_chirho e s)) p"
    by (simp add: b task_state_runnable task_state_schedule s1)
  have "\<not> is_task_runnable_chirho s1 p" by (simp add: task_state_runnable s1)
  then have "requeue_current s1 (q\<lparr>need_resched_chirho := True\<rparr>) = tasks_chirho q"
    using assms(2) by (simp add: requeue_current_def)
  moreover have "set (snd (pick_runnable ok xs)) \<subseteq> set xs" for ok xs
    by (induction xs) auto
  ultimately have "set (queued (snd (schedule_chirho e s1))) \<subseteq> set (tasks_chirho q)"
    by (simp add: schedule_queued [OF s1(1)] selection_def)
  then show "p \<notin> set (queued (snd (block_current_chirho e s)))"
    using assms(2,4) by (auto simp: b rq_ok_def)
qed

text \<open>Lost wake-up.  If the queue is woken by an interrupt after the waiting task
  has found its condition false and before it blocks, the wake-up takes it off
  the wait queue and is otherwise undone: the task goes to sleep on no queue,
  is not runnable, and is not on the run queue, although the event happened.\<close>

theorem wake_before_block_is_lost:
  assumes "sched_ok s" "sched_current_pid_chirho s = Some p" "known_task s p"
    "p \<in> set (waiters_chirho w)" "wake_up_chirho (w, s) = (w', s')"
  shows "waiters_chirho w' = [] \<and>
    \<not> is_task_runnable_chirho (snd (block_current_chirho e s')) p \<and>
    p \<notin> set (queued (snd (block_current_chirho e s')))"
proof -
  have s': "s' = fold unblock_task_chirho (waiters_chirho w) s" and w': "waiters_chirho w' = []"
    using assms(5) by (auto simp: wake_up_chirho_def)
  have "sched_ok (fold unblock_task_chirho ps s) \<and> known_task (fold unblock_task_chirho ps s) p \<and>
      sched_current_pid_chirho (fold unblock_task_chirho ps s) = Some p" for ps
    using assms(1-3)
  proof (induction ps arbitrary: s)
    case (Cons a ps)
    have "sched_current_pid_chirho (unblock_task_chirho a s) = Some p"
      using Cons.prems(2) by (cases "SCHEDULER_CHIRHO s")
        (auto simp: sched_current_pid_chirho_def unblock_fields rq_add_task_def)
    then show ?case
      using Cons.IH [of "unblock_task_chirho a s"] Cons.prems
      by (simp add: sched_ok_unblock waker.unblock_known)
  qed simp
  then have "sched_ok s'" "known_task s' p" "sched_current_pid_chirho s' = Some p"
    by (simp_all add: s')
  then obtain q where "SCHEDULER_CHIRHO s' = Some q" "current_pid_chirho q = Some p" "rq_ok q"
    by (cases "SCHEDULER_CHIRHO s'") (auto simp: sched_current_pid_chirho_def sched_ok_def)
  then show ?thesis
    using block_current_effect [of s' q p e] \<open>known_task s' p\<close> w' by simp
qed

section \<open>Concrete queues\<close>

definition demo_wq :: WaitQueueChirho where "demo_wq = \<lparr>waiters_chirho = [4, 3]\<rparr>"

lemma demo_room: "2 \<le> queue_room demo_sched"
  by (simp add: queue_room_def demo_rq MAX_TASKS_CHIRHO_def)

theorem wake_up_makes_waiters_run_witness:
  "scheduled (snd (wake_up_chirho (demo_wq, demo_sched))) = {4, 3} \<union> scheduled demo_sched"
  using wake_up_makes_waiters_run [of demo_wq demo_sched] demo_room by (simp add: demo_wq_def)

theorem wake_before_block_is_lost_witness:
  "\<not> is_task_runnable_chirho (snd (block_current_chirho demo_env_sched
      (snd (wake_up_chirho (demo_wq, demo_sched))))) 3"
proof -
  have "sched_ok demo_sched" by (simp add: sched_ok_def demo_rq rq_ok_def MAX_TASKS_CHIRHO_def)
  then show ?thesis
    using wake_before_block_is_lost [of demo_sched 3 demo_wq
        "fst (wake_up_chirho (demo_wq, demo_sched))" "snd (wake_up_chirho (demo_wq, demo_sched))" demo_env_sched]
    by (simp add: sched_current_pid_chirho_def demo_rq known_task_def demo_tasks demo_wq_def)
qed

end
