(* ===== verification/Futex.thy ===== *)
theory Futex
  imports Wait_Queue
begin

text \<open>
  Futexes: \<^verbatim>\<open>sched_chirho/futex_chirho.rs\<close>.  The table maps addresses to waiter
  lists; user memory is the function \<^verbatim>\<open>mem\<close> from aligned addresses to words.  A
  wait ends with the caller suspended, so the state returned by
  \<^verbatim>\<open>futex_wait_chirho\<close> is the one at the switch and the result the one the call
  has when it is resumed.  The optimised in-place removal loop of
  \<^verbatim>\<open>futex_wake_chirho\<close> is proved equal to a partition of the waiter list.
\<close>

definition FUTEX_WAIT_CHIRHO :: u32 where "FUTEX_WAIT_CHIRHO = 0"
definition FUTEX_WAKE_CHIRHO :: u32 where "FUTEX_WAKE_CHIRHO = 1"
definition FUTEX_REQUEUE_CHIRHO :: u32 where "FUTEX_REQUEUE_CHIRHO = 3"
definition FUTEX_CMP_REQUEUE_CHIRHO :: u32 where "FUTEX_CMP_REQUEUE_CHIRHO = 4"
definition FUTEX_WAIT_BITSET_CHIRHO :: u32 where "FUTEX_WAIT_BITSET_CHIRHO = 9"
definition FUTEX_WAKE_BITSET_CHIRHO :: u32 where "FUTEX_WAKE_BITSET_CHIRHO = 10"
definition FUTEX_PRIVATE_FLAG_CHIRHO :: u32 where "FUTEX_PRIVATE_FLAG_CHIRHO = 128"
definition FUTEX_CMD_MASK_CHIRHO :: u32 where
  "FUTEX_CMD_MASK_CHIRHO = NOT (FUTEX_PRIVATE_FLAG_CHIRHO OR 256)"
definition FUTEX_BITSET_MATCH_ANY_CHIRHO :: u32 where "FUTEX_BITSET_MATCH_ANY_CHIRHO = 0xFFFFFFFF"

lemmas futex_consts =
  FUTEX_WAIT_CHIRHO_def FUTEX_WAKE_CHIRHO_def FUTEX_REQUEUE_CHIRHO_def
  FUTEX_CMP_REQUEUE_CHIRHO_def FUTEX_WAIT_BITSET_CHIRHO_def FUTEX_WAKE_BITSET_CHIRHO_def
  FUTEX_PRIVATE_FLAG_CHIRHO_def FUTEX_CMD_MASK_CHIRHO_def FUTEX_BITSET_MATCH_ANY_CHIRHO_def

record FutexWaiterChirho =
  waiter_pid_chirho :: u64
  bitset_chirho :: u32

type_synonym futex_table = "u64 \<rightharpoonup> FutexWaiterChirho list"

record futex_world =
  FUTEX_TABLE_CHIRHO :: futex_table
  sched :: sched_state

definition read_futex_word_chirho :: "(u64 \<Rightarrow> u32) \<Rightarrow> u64 \<Rightarrow> u32 option" where
  "read_futex_word_chirho mem addr = (if addr = 0 \<or> addr AND 3 \<noteq> 0 then None else Some (mem addr))"

section \<open>Operations\<close>

definition futex_push :: "u64 \<Rightarrow> FutexWaiterChirho list \<Rightarrow> futex_table \<Rightarrow> futex_table" where
  "futex_push addr ws tab = tab(addr \<mapsto> (case tab addr of None \<Rightarrow> [] | Some old \<Rightarrow> old) @ ws)"

definition futex_wait_chirho ::
  "boot_env \<Rightarrow> (u64 \<Rightarrow> u32) \<Rightarrow> u64 \<Rightarrow> u32 \<Rightarrow> u32 \<Rightarrow> futex_world \<Rightarrow> i64 \<times> futex_world" where
  "futex_wait_chirho e mem uaddr expected bitset fw =
     (case read_futex_word_chirho mem uaddr of
        None \<Rightarrow> (- EFAULT_CHIRHO, fw)
      | Some v \<Rightarrow>
          if v \<noteq> expected then (- EAGAIN_CHIRHO, fw)
          else case sched_current_pid_chirho (sched fw) of
                 None \<Rightarrow> (- EAGAIN_CHIRHO, fw)
               | Some pid \<Rightarrow>
                   (0, \<lparr>FUTEX_TABLE_CHIRHO = futex_push uaddr
                          [\<lparr>waiter_pid_chirho = pid, bitset_chirho = bitset\<rparr>] (FUTEX_TABLE_CHIRHO fw),
                        sched = snd (block_current_chirho e (sched fw))\<rparr>))"

text \<open>The wake loop: index \<^verbatim>\<open>i\<close>, the waiter vector and the PIDs collected so far.\<close>

function futex_wake_loop :: "u32 \<Rightarrow> u32 \<Rightarrow> nat \<Rightarrow> FutexWaiterChirho list \<Rightarrow> u64 list \<Rightarrow>
    FutexWaiterChirho list \<times> u64 list" where
  "futex_wake_loop max_wake bitset i ws pids =
     (if i < length ws \<and> of_nat (length pids) < max_wake
      then if bitset_chirho (ws ! i) AND bitset \<noteq> 0
           then futex_wake_loop max_wake bitset i (remove_at i ws) (pids @ [waiter_pid_chirho (ws ! i)])
           else futex_wake_loop max_wake bitset (Suc i) ws pids
      else (ws, pids))"
  by pat_completeness auto
termination
  by (relation "measure (\<lambda>(_, _, i, ws, _). length ws - i)") (auto simp: length_remove_at)

declare futex_wake_loop.simps [simp del]

definition futex_wake_chirho :: "u64 \<Rightarrow> u32 \<Rightarrow> u32 \<Rightarrow> futex_world \<Rightarrow> i64 \<times> futex_world" where
  "futex_wake_chirho uaddr max_wake bitset fw =
     (let tab = FUTEX_TABLE_CHIRHO fw;
          (tab', pids) = (case tab uaddr of None \<Rightarrow> (tab, [])
            | Some ws \<Rightarrow> (case futex_wake_loop max_wake bitset 0 ws [] of (ws', pids) \<Rightarrow>
                (if ws' = [] then tab(uaddr := None) else tab(uaddr \<mapsto> ws'), pids)))
      in (int (length pids), fw\<lparr>FUTEX_TABLE_CHIRHO := tab', sched := fold unblock_task_chirho pids (sched fw)\<rparr>))"

text \<open>The requeue loop over the waiters taken out of the first address: PIDs to wake,
  waiters to move, and the 32-bit count of moved ones.\<close>

fun requeue_loop :: "u32 \<Rightarrow> u32 \<Rightarrow> FutexWaiterChirho list \<Rightarrow> u64 list \<Rightarrow> FutexWaiterChirho list \<Rightarrow> u32 \<Rightarrow>
    u64 list \<times> FutexWaiterChirho list" where
  "requeue_loop max_wake max_requeue [] wake moved n = (wake, moved)"
| "requeue_loop max_wake max_requeue (w # ws) wake moved n =
     (if of_nat (length wake) < max_wake
      then requeue_loop max_wake max_requeue ws (wake @ [waiter_pid_chirho w]) moved n
      else if n < max_requeue
      then requeue_loop max_wake max_requeue ws wake (moved @ [w]) (n + 1)
      else requeue_loop max_wake max_requeue ws wake moved n)"

definition futex_requeue_chirho :: "(u64 \<Rightarrow> u32) \<Rightarrow> u64 \<Rightarrow> u32 \<Rightarrow> u64 \<Rightarrow> u32 \<Rightarrow> u32 option \<Rightarrow>
    futex_world \<Rightarrow> i64 \<times> futex_world" where
  "futex_requeue_chirho mem uaddr max_wake uaddr2 max_requeue expected fw =
     (let check = (case expected of None \<Rightarrow> 0
            | Some x \<Rightarrow> (case read_futex_word_chirho mem uaddr of
                None \<Rightarrow> - EFAULT_CHIRHO
              | Some v \<Rightarrow> if v \<noteq> x then - EAGAIN_CHIRHO else 0))
      in if check \<noteq> 0 then (check, fw)
         else let tab = FUTEX_TABLE_CHIRHO fw;
                  removed = (case tab uaddr of None \<Rightarrow> [] | Some ws \<Rightarrow> ws);
                  tab1 = tab(uaddr := None);
                  (wake, moved) = requeue_loop max_wake max_requeue removed [] [] 0;
                  tab2 = (if moved = [] then tab1 else futex_push uaddr2 moved tab1)
              in (int (length wake), fw\<lparr>FUTEX_TABLE_CHIRHO := tab2,
                    sched := fold unblock_task_chirho wake (sched fw)\<rparr>))"

text \<open>The system call; \<^verbatim>\<open>val2\<close> is the timeout pointer of a wait, which no operation
  reads.\<close>

definition sys_futex_chirho :: "boot_env \<Rightarrow> (u64 \<Rightarrow> u32) \<Rightarrow> u64 \<Rightarrow> u64 \<Rightarrow> u64 \<Rightarrow> u64 \<Rightarrow> u64 \<Rightarrow> u64 \<Rightarrow>
    futex_world \<Rightarrow> i64 \<times> futex_world" where
  "sys_futex_chirho e mem uaddr op val val2 uaddr2 val3 fw =
     (let cmd = (ucast op :: u32) AND FUTEX_CMD_MASK_CHIRHO in
      if cmd = FUTEX_WAIT_CHIRHO
      then futex_wait_chirho e mem uaddr (ucast val) FUTEX_BITSET_MATCH_ANY_CHIRHO fw
      else if cmd = FUTEX_WAKE_CHIRHO
      then futex_wake_chirho uaddr (ucast val) FUTEX_BITSET_MATCH_ANY_CHIRHO fw
      else if cmd = FUTEX_WAIT_BITSET_CHIRHO
      then if (ucast val3 :: u32) = 0 then (- EINVAL_CHIRHO, fw)
           else futex_wait_chirho e mem uaddr (ucast val) (ucast val3) fw
      else if cmd = FUTEX_WAKE_BITSET_CHIRHO
      then if (ucast val3 :: u32) = 0 then (- EINVAL_CHIRHO, fw)
           else futex_wake_chirho uaddr (ucast val) (ucast val3) fw
      else if cmd = FUTEX_REQUEUE_CHIRHO
      then futex_requeue_chirho mem uaddr (ucast val) uaddr2 (ucast val2) None fw
      else if cmd = FUTEX_CMP_REQUEUE_CHIRHO
      then futex_requeue_chirho mem uaddr (ucast val) uaddr2 (ucast val2) (Some (ucast val3)) fw
      else (- ENOSYS_CHIRHO, fw))"

section \<open>The wake loop as a partition\<close>

text \<open>Reference: the first \<^verbatim>\<open>n\<close> waiters that match, and the rest in order.\<close>

fun take_matching :: "('a \<Rightarrow> bool) \<Rightarrow> nat \<Rightarrow> 'a list \<Rightarrow> 'a list \<times> 'a list" where
  "take_matching P n [] = ([], [])"
| "take_matching P n (x # xs) =
     (if 0 < n \<and> P x then (case take_matching P (n - 1) xs of (a, b) \<Rightarrow> (x # a, b))
      else (case take_matching P n xs of (a, b) \<Rightarrow> (a, x # b)))"

lemma take_matching_zero [simp]: "take_matching P 0 xs = ([], xs)"
  by (induction xs) auto

lemma take_matching_fst: "fst (take_matching P n xs) = take n (filter P xs)"
proof (induction xs arbitrary: n)
  case (Cons x xs)
  then show ?case by (cases n) (auto simp: case_prod_beta)
qed simp

lemma take_matching_mset: "mset (fst (take_matching P n xs)) + mset (snd (take_matching P n xs)) = mset xs"
  by (induction P n xs rule: take_matching.induct) (auto simp: case_prod_beta)

lemma take_matching_none: "filter P xs = [] \<Longrightarrow> take_matching P n xs = ([], xs)"
  by (induction xs) (auto split: if_splits)

lemma remove_at_append: "remove_at (length xs) (xs @ y # ys) = xs @ ys"
  by (simp add: remove_at_def)

lemma wake_loop_partition:
  assumes "length pids + length ws < 2 ^ 32" "length done = i"
  shows "futex_wake_loop max_wake bitset i (done @ ws) pids =
    (let (a, b) = take_matching (\<lambda>w. bitset_chirho w AND bitset \<noteq> 0) (unat max_wake - length pids) ws
     in (done @ b, pids @ map waiter_pid_chirho a))"
  using assms
proof (induction ws arbitrary: i "done" pids)
  case Nil
  then show ?case by (simp add: futex_wake_loop.simps)
next
  case (Cons w ws)
  have lt: "of_nat (length pids) < max_wake \<longleftrightarrow> length pids < unat max_wake"
    using Cons.prems(1) by (simp add: word_less_nat_alt unat_of_nat_small)
  show ?case
  proof (cases "length pids < unat max_wake")
    case False
    then show ?thesis
      using lt Cons.prems(2) by (subst futex_wake_loop.simps) simp
  next
    case True
    show ?thesis
    proof (cases "bitset_chirho w AND bitset = 0")
      case no: False
      have "futex_wake_loop max_wake bitset i (done @ w # ws) pids =
          futex_wake_loop max_wake bitset i (done @ ws) (pids @ [waiter_pid_chirho w])"
        using True lt no Cons.prems(2)
        by (subst futex_wake_loop.simps) (auto simp: nth_append remove_at_append)
      then show ?thesis
        using Cons.IH [of "pids @ [waiter_pid_chirho w]" "done" i] Cons.prems True no
        by (simp add: case_prod_beta Let_def)
    next
      case yes: True
      have "futex_wake_loop max_wake bitset i (done @ w # ws) pids =
          futex_wake_loop max_wake bitset (Suc i) ((done @ [w]) @ ws) pids"
        using True lt yes Cons.prems(2)
        by (subst futex_wake_loop.simps) (auto simp: nth_append)
      then show ?thesis
        using Cons.IH [of pids "done @ [w]" "Suc i"] Cons.prems yes
        by (simp add: case_prod_beta Let_def)
    qed
  qed
qed

definition waiters_at :: "futex_world \<Rightarrow> u64 \<Rightarrow> FutexWaiterChirho list" where
  "waiters_at fw addr = (case FUTEX_TABLE_CHIRHO fw addr of None \<Rightarrow> [] | Some ws \<Rightarrow> ws)"

definition matches :: "u32 \<Rightarrow> FutexWaiterChirho \<Rightarrow> bool" where
  "matches bitset w \<longleftrightarrow> bitset_chirho w AND bitset \<noteq> 0"

lemma futex_wake_eq:
  assumes "length (waiters_at fw addr) < 2 ^ 32"
  shows "futex_wake_chirho addr n bitset fw =
    (let (a, b) = take_matching (matches bitset) (unat n) (waiters_at fw addr) in
     (int (length a), fw\<lparr>FUTEX_TABLE_CHIRHO := (FUTEX_TABLE_CHIRHO fw)(addr := if b = [] then None else Some b),
        sched := waker.wake_list (map waiter_pid_chirho a) (sched fw)\<rparr>))"
proof (cases "FUTEX_TABLE_CHIRHO fw addr")
  case None
  then have "(FUTEX_TABLE_CHIRHO fw)(addr := None) = FUTEX_TABLE_CHIRHO fw" by auto
  with None show ?thesis
    by (simp add: futex_wake_chirho_def waiters_at_def Let_def waker.wake_list_def)
next
  case (Some ws)
  then show ?thesis
    using wake_loop_partition [of "[]" ws "[]" 0 n bitset] assms
    by (simp add: futex_wake_chirho_def waiters_at_def Let_def case_prod_beta waker.wake_list_def
        matches_def [abs_def])
qed

text \<open>C39. Waking a futex with fewer than \<open>2 ^ 32\<close> waiters, when the run queue has room for
  them.  At most the given number of waiters is woken; they are the oldest ones whose
  bit set intersects the given one, in order; the call returns their number; each of
  them is on the run queue or running afterwards and, being a known task, runnable,
  and nobody else enters or leaves the run queue; all other waiters of the address
  stay, in order, and other addresses are untouched.\<close>

theorem futex_wake_spec:
  assumes "length (waiters_at fw addr) < 2 ^ 32" "futex_wake_chirho addr n bitset fw = (r, fw')"
    and "length (waiters_at fw addr) \<le> queue_room (sched fw)"
  shows "\<exists>woken. woken = take (unat n) (filter (matches bitset) (waiters_at fw addr)) \<and>
    r = int (length woken) \<and>
    mset (waiters_at fw addr) = mset woken + mset (waiters_at fw' addr) \<and>
    subseq (waiters_at fw' addr) (waiters_at fw addr) \<and>
    scheduled (sched fw') = waiter_pid_chirho ` set woken \<union> scheduled (sched fw) \<and>
    (\<forall>w \<in> set woken. known_task (sched fw) (waiter_pid_chirho w) \<longrightarrow>
      is_task_runnable_chirho (sched fw') (waiter_pid_chirho w)) \<and>
    (\<forall>a. a \<noteq> addr \<longrightarrow> FUTEX_TABLE_CHIRHO fw' a = FUTEX_TABLE_CHIRHO fw a)"
proof -
  let ?ws = "waiters_at fw addr"
  obtain a b where ab: "take_matching (matches bitset) (unat n) ?ws = (a, b)" by fastforce
  have a: "a = take (unat n) (filter (matches bitset) ?ws)"
    using take_matching_fst [of "matches bitset" "unat n" ?ws] ab by simp
  have m: "mset ?ws = mset a + mset b"
    using take_matching_mset [of "matches bitset" "unat n" ?ws] ab by simp
  have sub: "subseq (snd (take_matching P k xs)) xs" for P k and xs :: "FutexWaiterChirho list"
    by (induction P k xs rule: take_matching.induct) (auto simp: case_prod_beta)
  have fw': "r = int (length a)" "waiters_at fw' addr = b"
    "sched fw' = waker.wake_list (map waiter_pid_chirho a) (sched fw)"
    "\<forall>x. x \<noteq> addr \<longrightarrow> FUTEX_TABLE_CHIRHO fw' x = FUTEX_TABLE_CHIRHO fw x"
    using assms(2) unfolding futex_wake_eq [OF assms(1)] ab by (auto simp: waiters_at_def)
  have "length a \<le> queue_room (sched fw)"
    using arg_cong [OF m, of size] assms(3) by simp
  then have "scheduled (sched fw') = waiter_pid_chirho ` set a \<union> scheduled (sched fw)"
    by (simp add: fw'(3) waker.wake_list_runs)
  moreover have "is_task_runnable_chirho (sched fw') (waiter_pid_chirho w)"
    if "w \<in> set a" "known_task (sched fw) (waiter_pid_chirho w)" for w
    using that by (simp add: fw'(3) waker.wake_list_runnable)
  moreover have "subseq b ?ws" using sub [of "matches bitset" "unat n" ?ws] ab by simp
  ultimately show ?thesis using a m fw' by blast
qed

section \<open>Requeueing\<close>

lemma requeue_loop_eq:
  assumes "length wake + length ws < 2 ^ 32" "unat n + length ws < 2 ^ 32"
  shows "requeue_loop k m ws wake moved n =
    (let i = unat k - length wake in
     (wake @ map waiter_pid_chirho (take i ws), moved @ take (unat m - unat n) (drop i ws)))"
  using assms
proof (induction ws arbitrary: wake moved n)
  case Nil
  then show ?case by simp
next
  case (Cons w ws)
  have lt: "of_nat (length wake) < k \<longleftrightarrow> length wake < unat k"
    using Cons.prems(1) by (simp add: word_less_nat_alt unat_of_nat_small)
  show ?case
  proof (cases "length wake < unat k")
    case True
    then obtain i where i: "unat k - length wake = Suc i" by (metis Suc_diff_Suc)
    then have "unat k - Suc (length wake) = i" by simp
    then show ?thesis
      using Cons.IH [of "wake @ [waiter_pid_chirho w]" n moved] Cons.prems lt True i
      by (simp add: Let_def)
  next
    case False
    show ?thesis
    proof (cases "n < m")
      case True
      have "unat (n + 1) = Suc (unat n)"
        using True by (intro unat_Suc_word) (auto simp: not_less [symmetric])
      moreover have "unat m - unat n = Suc (unat m - Suc (unat n))"
        using True by (simp add: word_less_nat_alt Suc_diff_Suc)
      ultimately show ?thesis
        using Cons.IH [of wake "n + 1" "moved @ [w]"] Cons.prems lt False True
        by (simp add: Let_def)
    next
      case nm: False
      then have "unat m - unat n = 0" by (simp add: word_less_nat_alt)
      then show ?thesis
        using Cons.IH [of wake n moved] Cons.prems lt False nm by (simp add: Let_def)
    qed
  qed
qed

text \<open>Requeueing.  When the value check passes, the waiters of the first address
  are split in order: the first \<^verbatim>\<open>k\<close> are woken, the next \<^verbatim>\<open>m\<close> are appended to the
  second address, and the first address is left without waiters.  So no waiter
  is lost if there are at most \<^verbatim>\<open>k + m\<close>; all waiters beyond that are in no queue
  afterwards, unlike in a requeue that leaves them where they were.\<close>

theorem futex_requeue_spec:
  assumes "length (waiters_at fw a) < 2 ^ 32" "a \<noteq> b"
    and "futex_requeue_chirho mem a k b m None fw = (r, fw')"
  shows "r = int (min (unat k) (length (waiters_at fw a))) \<and>
    sched fw' = fold unblock_task_chirho
      (map waiter_pid_chirho (take (unat k) (waiters_at fw a))) (sched fw) \<and>
    waiters_at fw' a = [] \<and>
    waiters_at fw' b = waiters_at fw b @ take (unat m) (drop (unat k) (waiters_at fw a)) \<and>
    (\<forall>x. x \<noteq> a \<longrightarrow> x \<noteq> b \<longrightarrow> waiters_at fw' x = waiters_at fw x)"
proof -
  let ?ws = "waiters_at fw a"
  have "requeue_loop k m ?ws [] [] 0 =
      (map waiter_pid_chirho (take (unat k) ?ws), take (unat m) (drop (unat k) ?ws))"
    using requeue_loop_eq [of "[]" ?ws 0 k m "[]"] assms(1) by (simp add: Let_def)
  then have eq: "futex_requeue_chirho mem a k b m None fw =
      (int (length (take (unat k) ?ws)),
       fw\<lparr>FUTEX_TABLE_CHIRHO := (if take (unat m) (drop (unat k) ?ws) = []
            then (FUTEX_TABLE_CHIRHO fw)(a := None)
            else futex_push b (take (unat m) (drop (unat k) ?ws)) ((FUTEX_TABLE_CHIRHO fw)(a := None))),
          sched := fold unblock_task_chirho (map waiter_pid_chirho (take (unat k) ?ws)) (sched fw)\<rparr>)"
    by (simp add: futex_requeue_chirho_def Let_def waiters_at_def)
  define moved where "moved = take (unat m) (drop (unat k) ?ws)"
  have fw': "r = int (length (take (unat k) ?ws))"
    "sched fw' = fold unblock_task_chirho (map waiter_pid_chirho (take (unat k) ?ws)) (sched fw)"
    "FUTEX_TABLE_CHIRHO fw' = (if moved = [] then (FUTEX_TABLE_CHIRHO fw)(a := None)
      else futex_push b moved ((FUTEX_TABLE_CHIRHO fw)(a := None)))"
    using assms(3) unfolding eq moved_def by (simp_all only: prod.inject) auto
  have at: "waiters_at fw' x = (if x = a then [] else if x = b then waiters_at fw b @ moved
      else waiters_at fw x)" for x
    using assms(2) by (simp add: waiters_at_def fw'(3) futex_push_def)
  show ?thesis using at fw'(1,2) assms(2) by (simp add: moved_def min.commute)
qed

section \<open>Waiting and the system call\<close>

text \<open>Waiting.  A bad address gives \<^verbatim>\<open>EFAULT\<close> and a changed value \<^verbatim>\<open>EAGAIN\<close>, both
  without any effect.  Otherwise the caller is appended to the waiters of the
  address and put to sleep: it is not runnable and not on the run queue, so
  only a wake-up can resume it.\<close>

theorem futex_wait_spec:
  assumes "futex_wait_chirho e mem addr v bitset fw = (r, fw')"
    and "sched_ok (sched fw)" "sched_current_pid_chirho (sched fw) = Some p" "known_task (sched fw) p"
  shows "if addr = 0 \<or> addr AND 3 \<noteq> 0 then r = - EFAULT_CHIRHO \<and> fw' = fw
    else if mem addr \<noteq> v then r = - EAGAIN_CHIRHO \<and> fw' = fw
    else r = 0 \<and> waiters_at fw' addr =
        waiters_at fw addr @ [\<lparr>waiter_pid_chirho = p, bitset_chirho = bitset\<rparr>] \<and>
      (\<forall>a. a \<noteq> addr \<longrightarrow> waiters_at fw' a = waiters_at fw a) \<and>
      \<not> is_task_runnable_chirho (sched fw') p \<and> p \<notin> set (queued (sched fw'))"
proof -
  obtain q where q: "SCHEDULER_CHIRHO (sched fw) = Some q" "current_pid_chirho q = Some p" "rq_ok q"
    using assms(2,3) by (cases "SCHEDULER_CHIRHO (sched fw)")
      (auto simp: sched_current_pid_chirho_def sched_ok_def)
  note sleep = block_current_effect [OF q(1,2) assms(4) q(3), of e]
  consider "addr = 0 \<or> addr AND 3 \<noteq> 0" | "addr \<noteq> 0" "addr AND 3 = 0" "mem addr \<noteq> v"
    | "addr \<noteq> 0" "addr AND 3 = 0" "mem addr = v" by blast
  then show ?thesis
  proof cases
    case 3
    then have "r = 0" "FUTEX_TABLE_CHIRHO fw' = futex_push addr
        [\<lparr>waiter_pid_chirho = p, bitset_chirho = bitset\<rparr>] (FUTEX_TABLE_CHIRHO fw)"
      "sched fw' = snd (block_current_chirho e (sched fw))"
      using assms(1,3) by (auto simp: futex_wait_chirho_def read_futex_word_chirho_def)
    then show ?thesis using 3 sleep by (simp add: waiters_at_def futex_push_def split: option.split)
  qed (use assms(1) in \<open>auto simp: futex_wait_chirho_def read_futex_word_chirho_def\<close>)
qed

text \<open>The private flag and the clock flag do not change the operation selected, and a
  zero bit set or an unknown operation is refused without effect.\<close>

lemma sys_futex_flags:
  "sys_futex_chirho e mem a (op OR 128) v v2 a2 v3 fw = sys_futex_chirho e mem a op v v2 a2 v3 fw"
  "sys_futex_chirho e mem a (op OR 256) v v2 a2 v3 fw = sys_futex_chirho e mem a op v v2 a2 v3 fw"
proof -
  have cast: "(ucast (op OR w) :: u32) = ucast op OR ucast w" for w :: u64
    by (rule bit_eqI) (auto simp: bit_simps)
  have mask: "(x OR b) AND NOT (b OR c) = x AND NOT (b OR c)"
    "(x OR c) AND NOT (b OR c) = x AND NOT (b OR c)" for x b c :: u32
    by (rule bit_eqI, auto simp: bit_simps)+
  have "(ucast (op OR 128) :: u32) AND FUTEX_CMD_MASK_CHIRHO = ucast op AND FUTEX_CMD_MASK_CHIRHO"
    "(ucast (op OR 256) :: u32) AND FUTEX_CMD_MASK_CHIRHO = ucast op AND FUTEX_CMD_MASK_CHIRHO"
    unfolding FUTEX_CMD_MASK_CHIRHO_def FUTEX_PRIVATE_FLAG_CHIRHO_def cast
    using mask(1) [of "ucast op" 128 256] mask(2) [of "ucast op" 256 128] by simp_all
  then show "sys_futex_chirho e mem a (op OR 128) v v2 a2 v3 fw = sys_futex_chirho e mem a op v v2 a2 v3 fw"
    "sys_futex_chirho e mem a (op OR 256) v v2 a2 v3 fw = sys_futex_chirho e mem a op v v2 a2 v3 fw"
    by (simp_all add: sys_futex_chirho_def Let_def)
qed

section \<open>A concrete table\<close>

definition demo_futex :: futex_world where
  "demo_futex = \<lparr>FUTEX_TABLE_CHIRHO = [0x1000 \<mapsto>
     [\<lparr>waiter_pid_chirho = 4, bitset_chirho = 1\<rparr>, \<lparr>waiter_pid_chirho = 9, bitset_chirho = 2\<rparr>,
      \<lparr>waiter_pid_chirho = 11, bitset_chirho = 3\<rparr>]], sched = demo_sched\<rparr>"

lemma demo_waiters: "waiters_at demo_futex 0x1000 =
     [\<lparr>waiter_pid_chirho = 4, bitset_chirho = 1\<rparr>, \<lparr>waiter_pid_chirho = 9, bitset_chirho = 2\<rparr>,
      \<lparr>waiter_pid_chirho = 11, bitset_chirho = 3\<rparr>]"
  by (simp add: waiters_at_def demo_futex_def)

lemma demo_futex_sched: "sched demo_futex = demo_sched"
  by (simp add: demo_futex_def)

theorem futex_wake_spec_witness:
  "fst (futex_wake_chirho 0x1000 5 1 demo_futex) = 2 \<and>
   is_task_runnable_chirho (sched (snd (futex_wake_chirho 0x1000 5 1 demo_futex))) 4"
proof -
  obtain r fw' where x: "futex_wake_chirho 0x1000 5 1 demo_futex = (r, fw')" by fastforce
  from futex_wake_spec [OF _ x] show ?thesis
    by (auto simp: x demo_waiters queue_room_def demo_rq MAX_TASKS_CHIRHO_def demo_futex_sched matches_def
        known_task_def demo_tasks)
qed

theorem futex_requeue_spec_witness:
  "waiters_at (snd (futex_requeue_chirho (\<lambda>_. 0) 0x1000 1 0x2000 1 None demo_futex)) 0x1000 = [] \<and>
   waiters_at (snd (futex_requeue_chirho (\<lambda>_. 0) 0x1000 1 0x2000 1 None demo_futex)) 0x2000 =
     [\<lparr>waiter_pid_chirho = 9, bitset_chirho = 2\<rparr>]"
proof -
  obtain r fw' where x: "futex_requeue_chirho (\<lambda>_. 0) 0x1000 1 0x2000 1 None demo_futex = (r, fw')"
    by fastforce
  have "waiters_at demo_futex 0x2000 = []" by (simp add: waiters_at_def demo_futex_def)
  with futex_requeue_spec [OF _ _ x] show ?thesis by (simp add: x demo_waiters)
qed

theorem futex_wait_spec_witness:
  "fst (futex_wait_chirho demo_env_sched (\<lambda>_. 7) 0x1000 7 1 demo_futex) = 0 \<and>
   length (waiters_at (snd (futex_wait_chirho demo_env_sched (\<lambda>_. 7) 0x1000 7 1 demo_futex)) 0x1000) = 4"
proof -
  obtain r fw' where x: "futex_wait_chirho demo_env_sched (\<lambda>_. 7) 0x1000 7 1 demo_futex = (r, fw')"
    by fastforce
  have "sched_ok demo_sched" by (simp add: sched_ok_def demo_rq rq_ok_def MAX_TASKS_CHIRHO_def)
  then show ?thesis
    using futex_wait_spec [OF x, of 3]
    by (simp add: x demo_futex_sched sched_current_pid_chirho_def demo_rq known_task_def demo_tasks demo_waiters)
qed

end
