(* ===== verification/Extent_Tree.thy ===== *)
theory Extent_Tree
  imports Rust_Prelude
begin

text \<open>
  The ext4 extent tree: \<^verbatim>\<open>fs_chirho/ext4_extent_tree_chirho.rs\<close>.  The parser of one
  node works on the bytes of the node, reading little-endian fields at computed
  offsets; the walk over a tree takes the function that reads a child block as
  an argument, as in the code.

  The specification is an abstract tree of extents and its layout on disk
  (\<^verbatim>\<open>stored\<close>).  For trees laid out this way whose index entries delimit their
  children, the walk returns exactly the mapping found by searching all extents
  of the file.
\<close>

definition EXT4_EXTENT_MAGIC_CHIRHO :: u16 where "EXT4_EXTENT_MAGIC_CHIRHO = 0xF30A"
definition EXT4_EXTENT_HEADER_SIZE_CHIRHO :: nat where "EXT4_EXTENT_HEADER_SIZE_CHIRHO = 12"
definition EXT4_EXTENT_ENTRY_SIZE_CHIRHO :: nat where "EXT4_EXTENT_ENTRY_SIZE_CHIRHO = 12"
definition MAX_EXTENT_TREE_DEPTH_CHIRHO :: u16 where "MAX_EXTENT_TREE_DEPTH_CHIRHO = 5"

datatype ExtentNodeTargetChirho = PhysicalBlockChirho u64 | ChildNodeChirho u64 | SparseHoleChirho

record ExtentNodeLookupChirho =
  depth_chirho :: u16
  target_chirho :: ExtentNodeTargetChirho

section \<open>Reading fields\<close>

definition get_bytes :: "bytes \<Rightarrow> nat \<Rightarrow> nat \<Rightarrow> bytes option" where
  "get_bytes data off n = (if off + n \<le> length data then Some (take n (drop off data)) else None)"

definition read_u16_chirho :: "bytes \<Rightarrow> nat \<Rightarrow> u16 option" where
  "read_u16_chirho data off = map_option (\<lambda>bs. of_nat (le_nat bs)) (get_bytes data off 2)"

definition read_u32_chirho :: "bytes \<Rightarrow> nat \<Rightarrow> u32 option" where
  "read_u32_chirho data off = map_option (\<lambda>bs. of_nat (le_nat bs)) (get_bytes data off 4)"

section \<open>One node\<close>

text \<open>The loop over the entries of a leaf, entry \<^verbatim>\<open>i\<close> next and \<^verbatim>\<open>n\<close> left.\<close>

definition block_count_chirho :: "u16 \<Rightarrow> u32" where
  "block_count_chirho len = (if len > 0x8000 then ucast (len - 0x8000) else ucast len)"

fun leaf_loop :: "bytes \<Rightarrow> u32 \<Rightarrow> nat \<Rightarrow> nat \<Rightarrow> ExtentNodeTargetChirho option" where
  "leaf_loop data lb i 0 = Some SparseHoleChirho"
| "leaf_loop data lb i (Suc n) =
     (let off = EXT4_EXTENT_HEADER_SIZE_CHIRHO + i * EXT4_EXTENT_ENTRY_SIZE_CHIRHO in
      case (read_u32_chirho data off, read_u16_chirho data (off + 4)) of
        (Some first, Some len) \<Rightarrow>
          (let count = block_count_chirho len in
           if count = 0 then None
           else case checked_add first count of
                  None \<Rightarrow> None
                | Some end_ \<Rightarrow>
                    if first \<le> lb \<and> lb < end_
                    then case (read_u16_chirho data (off + 6), read_u32_chirho data (off + 8)) of
                           (Some hi, Some lo) \<Rightarrow>
                             Some (PhysicalBlockChirho
                               ((push_bit 32 (ucast hi) OR ucast lo) + ucast (lb - first)))
                         | _ \<Rightarrow> None
                    else leaf_loop data lb (Suc i) n)
      | _ \<Rightarrow> None)"

fun index_loop :: "bytes \<Rightarrow> u32 \<Rightarrow> nat \<Rightarrow> nat \<Rightarrow> u64 option \<Rightarrow> u64 option option" where
  "index_loop data lb i 0 sel = Some sel"
| "index_loop data lb i (Suc n) sel =
     (let off = EXT4_EXTENT_HEADER_SIZE_CHIRHO + i * EXT4_EXTENT_ENTRY_SIZE_CHIRHO in
      case read_u32_chirho data off of
        None \<Rightarrow> None
      | Some first \<Rightarrow>
          if lb < first then Some sel
          else case (read_u32_chirho data (off + 4), read_u16_chirho data (off + 8)) of
                 (Some lo, Some hi) \<Rightarrow>
                   index_loop data lb (Suc i) n (Some (push_bit 32 (ucast hi) OR ucast lo))
               | _ \<Rightarrow> None)"

definition lookup_extent_node_chirho :: "bytes \<Rightarrow> u32 \<Rightarrow> ExtentNodeLookupChirho option" where
  "lookup_extent_node_chirho data lb =
     (if length data < EXT4_EXTENT_HEADER_SIZE_CHIRHO then None
      else case (read_u16_chirho data 0, read_u16_chirho data 2, read_u16_chirho data 4,
                 read_u16_chirho data 6) of
        (Some magic, Some entries, Some max_entries, Some depth) \<Rightarrow>
          (let available = (length data - EXT4_EXTENT_HEADER_SIZE_CHIRHO) div EXT4_EXTENT_ENTRY_SIZE_CHIRHO
           in if magic \<noteq> EXT4_EXTENT_MAGIC_CHIRHO \<or> unat entries > unat max_entries \<or>
                 unat max_entries > available \<or> unat entries > available
              then None
              else if depth = 0
              then map_option (\<lambda>t. \<lparr>depth_chirho = depth, target_chirho = t\<rparr>)
                     (leaf_loop data lb 0 (unat entries))
              else map_option (\<lambda>sel. \<lparr>depth_chirho = depth, target_chirho =
                       (case sel of Some c \<Rightarrow> ChildNodeChirho c | None \<Rightarrow> SparseHoleChirho)\<rparr>)
                     (index_loop data lb 0 (unat entries) None))
      | _ \<Rightarrow> None)"

section \<open>The tree walk\<close>

text \<open>The recursion descends one level per call; the expected depth strictly
  decreases, so it ends.\<close>

function descend_extent_tree_chirho ::
  "(u64 \<Rightarrow> bytes option) \<Rightarrow> u32 \<Rightarrow> bytes \<Rightarrow> u16 \<Rightarrow> u64 option" where
  "descend_extent_tree_chirho read_child lb data expected =
     (case lookup_extent_node_chirho data lb of
        None \<Rightarrow> None
      | Some l \<Rightarrow>
          if depth_chirho l \<noteq> expected then None
          else case target_chirho l of
                 PhysicalBlockChirho p \<Rightarrow> Some p
               | SparseHoleChirho \<Rightarrow> None
               | ChildNodeChirho c \<Rightarrow>
                   if expected = 0 then None
                   else case read_child c of
                          None \<Rightarrow> None
                        | Some child \<Rightarrow> descend_extent_tree_chirho read_child lb child (expected - 1))"
  by pat_completeness auto
termination
  by (relation "measure (\<lambda>(_, _, _, d). unat d)") (auto simp: unat_pred_word unat_gt_0)

declare descend_extent_tree_chirho.simps [simp del]

definition find_physical_block_chirho ::
  "(u64 \<Rightarrow> bytes option) \<Rightarrow> bytes \<Rightarrow> u32 \<Rightarrow> u16 \<Rightarrow> u64 option" where
  "find_physical_block_chirho read_child root lb root_depth =
     (if root_depth > MAX_EXTENT_TREE_DEPTH_CHIRHO then None
      else descend_extent_tree_chirho read_child lb root root_depth)"

section \<open>Layout of nodes\<close>

text \<open>A leaf entry: first logical block, encoded length (above \<^verbatim>\<open>0x8000\<close> the extent is
  unwritten), high and low part of the physical block.  An index entry: first
  logical block, low and high part of the child block, two unused bytes.\<close>

record extent =
  first_block :: u32
  encoded_len :: u16
  phys_hi :: u16
  phys_lo :: u32

record index_entry =
  idx_first :: u32
  child_hi :: u16
  child_lo :: u32

definition extent_bytes :: "extent \<Rightarrow> bytes" where
  "extent_bytes x = le_bytes 4 (unat (first_block x)) @ le_bytes 2 (unat (encoded_len x)) @
     le_bytes 2 (unat (phys_hi x)) @ le_bytes 4 (unat (phys_lo x))"

definition index_bytes :: "index_entry \<Rightarrow> bytes" where
  "index_bytes x = le_bytes 4 (unat (idx_first x)) @ le_bytes 4 (unat (child_lo x)) @
     le_bytes 2 (unat (child_hi x)) @ [0, 0]"

definition child_block :: "index_entry \<Rightarrow> u64" where
  "child_block x = push_bit 32 (ucast (child_hi x)) OR ucast (child_lo x)"

definition phys_start :: "extent \<Rightarrow> u64" where
  "phys_start x = push_bit 32 (ucast (phys_hi x)) OR ucast (phys_lo x)"

definition node_bytes :: "u16 \<Rightarrow> u16 \<Rightarrow> bytes list \<Rightarrow> bytes \<Rightarrow> bytes" where
  "node_bytes max_entries depth entries pad =
     le_bytes 2 (unat EXT4_EXTENT_MAGIC_CHIRHO) @ le_bytes 2 (length entries) @
     le_bytes 2 (unat max_entries) @ le_bytes 2 (unat depth) @ [0, 0, 0, 0] @ concat entries @ pad"

definition node_fits :: "u16 \<Rightarrow> bytes list \<Rightarrow> bytes \<Rightarrow> bool" where
  "node_fits max_entries entries pad \<longleftrightarrow> (\<forall>b\<in>set entries. length b = 12) \<and>
     length entries \<le> unat max_entries \<and> 12 * unat max_entries \<le> length (concat entries @ pad)"

text \<open>The offsets at which the fields of a node and of its entries are found.\<close>

lemma take_drop_append: "length xs = n \<Longrightarrow> take k (drop (n + m) (xs @ ys)) = take k (drop m ys)"
  by simp

lemma get_bytes_at:
  "length xs = off \<Longrightarrow> length ys = n \<Longrightarrow> get_bytes (xs @ ys @ zs) off n = Some ys"
  by (simp add: get_bytes_def)

lemma read_u16_at:
  assumes "length xs = off"
  shows "read_u16_chirho (xs @ le_bytes 2 n @ zs) off = Some (of_nat n)"
proof -
  have "of_nat (n mod 2 ^ 16) = (of_nat n :: u16)"
    by (simp add: word_unat_eq_iff unat_of_nat take_bit_nat_def)
  then show ?thesis
    using assms by (simp add: read_u16_chirho_def get_bytes_at le_nat_bytes)
qed

lemma read_u32_at:
  assumes "length xs = off"
  shows "read_u32_chirho (xs @ le_bytes 4 n @ zs) off = Some (of_nat n)"
proof -
  have "of_nat (n mod 2 ^ 32) = (of_nat n :: u32)"
    by (simp add: word_unat_eq_iff unat_of_nat take_bit_nat_def)
  then show ?thesis
    using assms by (simp add: read_u32_chirho_def get_bytes_at le_nat_bytes)
qed

lemma concat_length_12: "\<forall>b\<in>set bs. length b = 12 \<Longrightarrow> length (concat bs) = 12 * length bs"
  by (induction bs) auto

lemma node_prefix:
  assumes "\<forall>b\<in>set pre. length b = 12"
  obtains xs where "node_bytes mx d (pre @ b # post) pad = xs @ b @ concat post @ pad"
    "length xs = 12 + length pre * 12"
proof
  let ?xs = "le_bytes 2 (unat EXT4_EXTENT_MAGIC_CHIRHO) @ le_bytes 2 (length (pre @ b # post)) @
     le_bytes 2 (unat mx) @ le_bytes 2 (unat d) @ [0, 0, 0, 0] @ concat pre"
  show "node_bytes mx d (pre @ b # post) pad = ?xs @ b @ concat post @ pad"
    by (simp add: node_bytes_def)
  show "length ?xs = 12 + length pre * 12" using concat_length_12 [OF assms] by simp
qed

section \<open>Lookup in one encoded node\<close>

definition extent_count :: "extent \<Rightarrow> u32" where
  "extent_count x = block_count_chirho (encoded_len x)"

definition extent_end :: "extent \<Rightarrow> nat" where
  "extent_end x = unat (first_block x) + unat (extent_count x)"

definition wf_extent :: "extent \<Rightarrow> bool" where
  "wf_extent x \<longleftrightarrow> extent_count x \<noteq> 0 \<and> extent_end x < 2 ^ 32"

definition covers :: "u32 \<Rightarrow> extent \<Rightarrow> bool" where
  "covers lb x \<longleftrightarrow> unat (first_block x) \<le> unat lb \<and> unat lb < extent_end x"

definition phys_at :: "u32 \<Rightarrow> extent \<Rightarrow> u64" where
  "phys_at lb x = phys_start x + ucast (lb - first_block x)"

lemma length_entry [simp]: "length (extent_bytes x) = 12" "length (index_bytes y) = 12"
  by (simp_all add: extent_bytes_def index_bytes_def)

lemma extent_fields:
  assumes "data = xs @ extent_bytes x @ zs" "length xs = off"
  shows "read_u32_chirho data off = Some (first_block x)"
    "read_u16_chirho data (off + 4) = Some (encoded_len x)"
    "read_u16_chirho data (off + 6) = Some (phys_hi x)"
    "read_u32_chirho data (off + 8) = Some (phys_lo x)"
proof -
  let ?a = "le_bytes 4 (unat (first_block x))" and ?b = "le_bytes 2 (unat (encoded_len x))"
    and ?c = "le_bytes 2 (unat (phys_hi x))" and ?d = "le_bytes 4 (unat (phys_lo x))"
  have d: "data = xs @ ?a @ (?b @ ?c @ ?d @ zs)" "data = (xs @ ?a) @ ?b @ (?c @ ?d @ zs)"
    "data = (xs @ ?a @ ?b) @ ?c @ (?d @ zs)" "data = (xs @ ?a @ ?b @ ?c) @ ?d @ zs"
    using assms(1) by (simp_all add: extent_bytes_def)
  show "read_u32_chirho data off = Some (first_block x)"
    using read_u32_at [of xs off "unat (first_block x)"] assms(2) by (simp add: d(1))
  show "read_u16_chirho data (off + 4) = Some (encoded_len x)"
    using read_u16_at [of "xs @ ?a" "off + 4" "unat (encoded_len x)" "?c @ ?d @ zs"] assms(2)
    unfolding d(2) by simp
  show "read_u16_chirho data (off + 6) = Some (phys_hi x)"
    using read_u16_at [of "xs @ ?a @ ?b" "off + 6" "unat (phys_hi x)" "?d @ zs"] assms(2)
    unfolding d(3) by simp
  show "read_u32_chirho data (off + 8) = Some (phys_lo x)"
    using read_u32_at [of "xs @ ?a @ ?b @ ?c" "off + 8" "unat (phys_lo x)" zs] assms(2)
    unfolding d(4) by simp
qed

lemma index_fields:
  assumes "data = xs @ index_bytes x @ zs" "length xs = off"
  shows "read_u32_chirho data off = Some (idx_first x)"
    "read_u32_chirho data (off + 4) = Some (child_lo x)"
    "read_u16_chirho data (off + 8) = Some (child_hi x)"
proof -
  let ?a = "le_bytes 4 (unat (idx_first x))" and ?b = "le_bytes 4 (unat (child_lo x))"
    and ?c = "le_bytes 2 (unat (child_hi x))"
  have d: "data = xs @ ?a @ (?b @ ?c @ [0, 0] @ zs)" "data = (xs @ ?a) @ ?b @ (?c @ [0, 0] @ zs)"
    "data = (xs @ ?a @ ?b) @ ?c @ ([0, 0] @ zs)"
    using assms(1) by (simp_all add: index_bytes_def)
  show "read_u32_chirho data off = Some (idx_first x)"
    using read_u32_at [of xs off "unat (idx_first x)"] assms(2) by (simp add: d(1))
  show "read_u32_chirho data (off + 4) = Some (child_lo x)"
    using read_u32_at [of "xs @ ?a" "off + 4" "unat (child_lo x)" "?c @ [0, 0] @ zs"] assms(2)
    unfolding d(2) by simp
  show "read_u16_chirho data (off + 8) = Some (child_hi x)"
    using read_u16_at [of "xs @ ?a @ ?b" "off + 8" "unat (child_hi x)" "[0, 0] @ zs"] assms(2)
    unfolding d(3) by simp
qed

lemma extent_checked_add:
  assumes "wf_extent x"
  shows "checked_add (first_block x) (extent_count x) = Some (first_block x + extent_count x)"
    "first_block x \<le> lb \<and> lb < first_block x + extent_count x \<longleftrightarrow> covers lb x"
proof -
  have "\<not> first_block x + extent_count x < first_block x"
    using assms by (simp add: word_add_less_iff wf_extent_def extent_end_def)
  then show "checked_add (first_block x) (extent_count x) = Some (first_block x + extent_count x)"
    "first_block x \<le> lb \<and> lb < first_block x + extent_count x \<longleftrightarrow> covers lb x"
    by (simp_all add: checked_add_def covers_def extent_end_def word_le_nat_alt word_less_nat_alt
        unat_add_no_wrap)
qed

lemma leaf_loop_encoded:
  assumes "\<forall>x\<in>set es. wf_extent x"
  shows "leaf_loop (node_bytes mx d (map extent_bytes (pre @ es)) pad) lb (length pre) (length es) =
    Some (case find (covers lb) es of None \<Rightarrow> SparseHoleChirho | Some x \<Rightarrow> PhysicalBlockChirho (phys_at lb x))"
  using assms
proof (induction es arbitrary: pre)
  case Nil
  then show ?case by simp
next
  case (Cons x es)
  let ?data = "node_bytes mx d (map extent_bytes (pre @ x # es)) pad"
  obtain xs where xs: "?data = xs @ extent_bytes x @ concat (map extent_bytes es) @ pad"
    "length xs = 12 + length (map extent_bytes pre) * 12"
    using node_prefix [of "map extent_bytes pre" mx d "extent_bytes x" "map extent_bytes es" pad] by auto
  note f = extent_fields [OF xs(1), of "12 + length pre * 12"]
  have "wf_extent x" using Cons.prems by simp
  note w = extent_checked_add [OF this]
  have IH: "leaf_loop ?data lb (Suc (length pre)) (length es) =
    Some (case find (covers lb) es of None \<Rightarrow> SparseHoleChirho | Some x \<Rightarrow> PhysicalBlockChirho (phys_at lb x))"
    using Cons.IH [of "pre @ [x]"] Cons.prems by simp
  have nz: "block_count_chirho (encoded_len x) \<noteq> 0"
    using \<open>wf_extent x\<close> by (simp add: wf_extent_def extent_count_def)
  show ?case
    using f xs(2) w [unfolded extent_count_def] nz IH
    by (simp add: EXT4_EXTENT_HEADER_SIZE_CHIRHO_def EXT4_EXTENT_ENTRY_SIZE_CHIRHO_def Let_def
        phys_at_def phys_start_def del: map_append)
qed

lemma index_loop_encoded:
  "index_loop (node_bytes mx d (map index_bytes (pre @ es)) pad) lb (length pre) (length es) sel =
    Some (let ts = takeWhile (\<lambda>x. idx_first x \<le> lb) es in if ts = [] then sel else Some (child_block (last ts)))"
proof (induction es arbitrary: pre sel)
  case Nil
  then show ?case by simp
next
  case (Cons x es)
  let ?data = "node_bytes mx d (map index_bytes (pre @ x # es)) pad"
  obtain xs where xs: "?data = xs @ index_bytes x @ concat (map index_bytes es) @ pad"
    "length xs = 12 + length (map index_bytes pre) * 12"
    using node_prefix [of "map index_bytes pre" mx d "index_bytes x" "map index_bytes es" pad] by auto
  note f = index_fields [OF xs(1), of "12 + length pre * 12"]
  have IH: "index_loop ?data lb (Suc (length pre)) (length es) (Some (child_block x)) =
    Some (let ts = takeWhile (\<lambda>x. idx_first x \<le> lb) es
      in if ts = [] then Some (child_block x) else Some (child_block (last ts)))"
    using Cons.IH [of "pre @ [x]" "Some (child_block x)"] by simp
  show ?case
    using f xs(2) IH
    by (simp add: EXT4_EXTENT_HEADER_SIZE_CHIRHO_def EXT4_EXTENT_ENTRY_SIZE_CHIRHO_def Let_def
        child_block_def not_less del: map_append)
qed

lemma node_header:
  assumes "node_fits mx entries pad"
  shows "read_u16_chirho (node_bytes mx d entries pad) 0 = Some EXT4_EXTENT_MAGIC_CHIRHO"
    "read_u16_chirho (node_bytes mx d entries pad) 2 = Some (of_nat (length entries))"
    "read_u16_chirho (node_bytes mx d entries pad) 4 = Some mx"
    "read_u16_chirho (node_bytes mx d entries pad) 6 = Some d"
    "12 + 12 * unat mx \<le> length (node_bytes mx d entries pad)"
    "unat (of_nat (length entries) :: u16) = length entries" "length entries \<le> unat mx"
proof -
  let ?m = "le_bytes 2 (unat EXT4_EXTENT_MAGIC_CHIRHO)" and ?n = "le_bytes 2 (length entries)"
    and ?x = "le_bytes 2 (unat mx)" and ?d = "le_bytes 2 (unat d)"
  let ?r = "[0, 0, 0, 0] @ concat entries @ pad"
  have e: "node_bytes mx d entries pad = [] @ ?m @ (?n @ ?x @ ?d @ ?r)"
    "node_bytes mx d entries pad = ?m @ ?n @ (?x @ ?d @ ?r)"
    "node_bytes mx d entries pad = (?m @ ?n) @ ?x @ (?d @ ?r)"
    "node_bytes mx d entries pad = (?m @ ?n @ ?x) @ ?d @ ?r"
    by (simp_all add: node_bytes_def)
  show "read_u16_chirho (node_bytes mx d entries pad) 0 = Some EXT4_EXTENT_MAGIC_CHIRHO"
    unfolding e(1) by (subst read_u16_at) simp_all
  show "read_u16_chirho (node_bytes mx d entries pad) 2 = Some (of_nat (length entries))"
    unfolding e(2) by (rule read_u16_at) simp
  show "read_u16_chirho (node_bytes mx d entries pad) 4 = Some mx"
    unfolding e(3) by (subst read_u16_at) simp_all
  show "read_u16_chirho (node_bytes mx d entries pad) 6 = Some d"
    unfolding e(4) by (subst read_u16_at) simp_all
  show "12 + 12 * unat mx \<le> length (node_bytes mx d entries pad)"
    using assms by (simp add: node_fits_def node_bytes_def)
  show le: "length entries \<le> unat mx" using assms by (simp add: node_fits_def)
  show "unat (of_nat (length entries) :: u16) = length entries"
    using le unat_less_pow [of mx] by (intro unat_of_nat_small) simp
qed

lemma lookup_leaf:
  assumes "node_fits mx (map extent_bytes es) pad" "\<forall>x\<in>set es. wf_extent x"
  shows "lookup_extent_node_chirho (node_bytes mx 0 (map extent_bytes es) pad) lb =
    Some \<lparr>depth_chirho = 0, target_chirho = (case find (covers lb) es of None \<Rightarrow> SparseHoleChirho
      | Some x \<Rightarrow> PhysicalBlockChirho (phys_at lb x))\<rparr>"
proof -
  let ?b = "node_bytes mx 0 (map extent_bytes es) pad"
  note h = node_header [OF assms(1)]
  have "unat mx \<le> (length ?b - 12) div 12" using h(5) [of 0] by simp
  moreover have "\<not> length ?b < 12" using h(5) [of 0] by simp
  ultimately show ?thesis
    using leaf_loop_encoded [OF assms(2), of mx 0 "[]" pad lb] h
    by (auto simp: lookup_extent_node_chirho_def EXT4_EXTENT_HEADER_SIZE_CHIRHO_def
        EXT4_EXTENT_ENTRY_SIZE_CHIRHO_def Let_def)
qed

lemma lookup_index:
  assumes "node_fits mx (map index_bytes es) pad" "d \<noteq> 0"
  shows "lookup_extent_node_chirho (node_bytes mx d (map index_bytes es) pad) lb =
    Some \<lparr>depth_chirho = d, target_chirho =
      (let ts = takeWhile (\<lambda>x. idx_first x \<le> lb) es
       in if ts = [] then SparseHoleChirho else ChildNodeChirho (child_block (last ts)))\<rparr>"
proof -
  let ?b = "node_bytes mx d (map index_bytes es) pad"
  note h = node_header [OF assms(1)]
  have "unat mx \<le> (length ?b - 12) div 12" using h(5) [of d] by simp
  moreover have "\<not> length ?b < 12" using h(5) [of d] by simp
  ultimately show ?thesis
    using index_loop_encoded [of mx d "[]" es pad lb None] assms(2) h
    by (auto simp: lookup_extent_node_chirho_def EXT4_EXTENT_HEADER_SIZE_CHIRHO_def
        EXT4_EXTENT_ENTRY_SIZE_CHIRHO_def Let_def)
qed

section \<open>Trees\<close>

datatype etree = ELeaf "extent list" | EIndex "(index_entry \<times> etree) list"

fun extents :: "etree \<Rightarrow> extent list" where
  "extents (ELeaf es) = es"
| "extents (EIndex cs) = concat (map (\<lambda>c. extents (snd c)) cs)"

text \<open>A tree of height \<^verbatim>\<open>d\<close> stored in the node \<^verbatim>\<open>data\<close>, its children in the blocks its
  entries name.\<close>

inductive stored :: "(u64 \<Rightarrow> bytes option) \<Rightarrow> nat \<Rightarrow> bytes \<Rightarrow> etree \<Rightarrow> bool"
  for read_child :: "u64 \<Rightarrow> bytes option" where
  leaf: "node_fits mx (map extent_bytes es) pad \<Longrightarrow> \<forall>x\<in>set es. wf_extent x \<Longrightarrow>
    stored read_child 0 (node_bytes mx 0 (map extent_bytes es) pad) (ELeaf es)"
| index: "node_fits mx (map (\<lambda>c. index_bytes (fst c)) cs) pad \<Longrightarrow>
    (\<And>x t. (x, t) \<in> set cs \<Longrightarrow> \<exists>b. read_child (child_block x) = Some b \<and> stored read_child d b t) \<Longrightarrow>
    stored read_child (Suc d) (node_bytes mx (of_nat (Suc d)) (map (\<lambda>c. index_bytes (fst c)) cs) pad) (EIndex cs)"

text \<open>The entries of an index are in increasing order and delimit their children:
  every extent below an entry starts at or after its first block and ends at or
  before the first block of each later entry.\<close>

fun delimited :: "etree \<Rightarrow> bool" where
  "delimited (ELeaf es) = True"
| "delimited (EIndex cs) \<longleftrightarrow> (\<forall>c\<in>set cs. delimited (snd c)) \<and>
     (\<forall>c\<in>set cs. \<forall>x\<in>set (extents (snd c)). unat (idx_first (fst c)) \<le> unat (first_block x)) \<and>
     sorted_wrt (\<lambda>c c'. idx_first (fst c) \<le> idx_first (fst c') \<and>
       (\<forall>x\<in>set (extents (snd c)). extent_end x \<le> unat (idx_first (fst c')))) cs"

lemma find_append_none: "(\<forall>x\<in>set xs. \<not> P x) \<Longrightarrow> find P (xs @ ys) = find P ys"
  by (induction xs) auto

lemma find_before_none: "(\<forall>x\<in>set ys. \<not> P x) \<Longrightarrow> find P (xs @ ys) = find P xs"
  by (induction xs) (auto simp: find_None_iff)

text \<open>The child an index node selects is the only one that can cover the block.\<close>

lemma selected_child_covers:
  assumes "delimited (EIndex cs)" "cs = pre @ c # post"
    and "idx_first (fst c) \<le> lb" "post \<noteq> [] \<longrightarrow> lb < idx_first (fst (hd post))"
  shows "find (covers lb) (extents (EIndex cs)) = find (covers lb) (extents (snd c))"
proof -
  have before: "\<not> covers lb x" if "c' \<in> set pre" "x \<in> set (extents (snd c'))" for c' x
  proof -
    have "extent_end x \<le> unat (idx_first (fst c))"
      using assms(1,2) that by (auto simp: sorted_wrt_append)
    then show ?thesis using assms(3) by (auto simp: covers_def word_le_nat_alt)
  qed
  have after: "\<not> covers lb x" if c': "c' \<in> set post" "x \<in> set (extents (snd c'))" for c' x
  proof -
    obtain h rest where post: "post = h # rest" using c' by (cases post) auto
    have "idx_first (fst h) \<le> idx_first (fst c')"
      using assms(1,2) c'(1) post by (auto simp: sorted_wrt_append)
    moreover have "unat (idx_first (fst c')) \<le> unat (first_block x)" using assms(1,2) c' by auto
    ultimately have "unat lb < unat (first_block x)"
      using assms(4) post by (simp add: word_less_nat_alt word_le_nat_alt)
    then show ?thesis by (simp add: covers_def)
  qed
  have "find (covers lb) (concat (map (\<lambda>c. extents (snd c)) pre) @ (extents (snd c) @
      concat (map (\<lambda>c. extents (snd c)) post))) = find (covers lb) (extents (snd c))"
    by (subst find_append_none) (use before after in \<open>auto intro!: find_before_none\<close>)
  then show ?thesis by (simp add: assms(2))
qed

lemma no_child_covers:
  assumes "delimited (EIndex cs)" "cs = [] \<or> lb < idx_first (fst (hd cs))"
  shows "find (covers lb) (extents (EIndex cs)) = None"
proof -
  have "\<not> covers lb x" if c: "c \<in> set cs" "x \<in> set (extents (snd c))" for c x
  proof -
    obtain h rest where cs: "cs = h # rest" using c by (cases cs) auto
    have "idx_first (fst h) \<le> idx_first (fst c)" using assms(1) c(1) cs by auto
    moreover have "unat (idx_first (fst c)) \<le> unat (first_block x)" using assms(1) c by auto
    ultimately show ?thesis
      using assms(2) cs by (simp add: covers_def word_less_nat_alt word_le_nat_alt)
  qed
  then show ?thesis by (auto simp: find_None_iff)
qed

lemma descend_stored:
  assumes "stored read_child d data t" "delimited t" "d < 2 ^ 16"
  shows "descend_extent_tree_chirho read_child lb data (of_nat d) =
    map_option (phys_at lb) (find (covers lb) (extents t))"
  using assms
proof (induction rule: stored.induct)
  case (leaf mx es pad)
  then show ?case
    by (subst descend_extent_tree_chirho.simps) (simp add: lookup_leaf split: option.split)
next
  case (index mx cs pad d)
  let ?D = "of_nat (Suc d) :: u16"
  have "unat ?D = Suc d" using index.prems(2) by (intro unat_of_nat_small) simp
  then have D: "?D \<noteq> 0" by (metis nat.distinct(1) unat_0)
  have D1: "?D - 1 = of_nat d" by simp
  define ts where "ts = takeWhile (\<lambda>c. idx_first (fst c) \<le> lb) cs"
  have tw: "takeWhile (\<lambda>x. idx_first x \<le> lb) (map fst cs) = map fst ts"
    by (simp add: ts_def takeWhile_map comp_def)
  have fits: "node_fits mx (map index_bytes (map fst cs)) pad" using index.hyps(1) by (simp add: comp_def)
  have look: "lookup_extent_node_chirho (node_bytes mx ?D (map (\<lambda>c. index_bytes (fst c)) cs) pad) lb =
      Some \<lparr>depth_chirho = ?D, target_chirho = (if ts = [] then SparseHoleChirho
        else ChildNodeChirho (child_block (fst (last ts))))\<rparr>"
    using lookup_index [OF fits D, of lb] by (simp add: tw comp_def Let_def last_map)
  show ?case
  proof (cases "ts = []")
    case True
    then have "cs = [] \<or> lb < idx_first (fst (hd cs))"
      by (cases cs) (auto simp: ts_def not_le split: if_splits)
    then have "find (covers lb) (extents (EIndex cs)) = None"
      by (rule no_child_covers [OF index.prems(1)])
    then show ?thesis using look True by (subst descend_extent_tree_chirho.simps) simp
  next
    case False
    define c where "c = last ts"
    have cs: "cs = butlast ts @ c # dropWhile (\<lambda>c. idx_first (fst c) \<le> lb) cs"
      using False append_butlast_last_id [OF False]
      by (metis append.assoc append_Cons append_Nil c_def takeWhile_dropWhile_id ts_def)
    have "c \<in> set ts" using False by (simp add: c_def)
    then have cle: "idx_first (fst c) \<le> lb" by (auto simp: ts_def dest: set_takeWhileD)
    have post: "dropWhile (\<lambda>c. idx_first (fst c) \<le> lb) cs \<noteq> [] \<longrightarrow>
        lb < idx_first (fst (hd (dropWhile (\<lambda>c. idx_first (fst c) \<le> lb) cs)))"
      using hd_dropWhile [of "\<lambda>c. idx_first (fst c) \<le> lb" cs] by (auto simp: not_le)
    have cin: "(fst c, snd c) \<in> set cs" using cs by (metis in_set_conv_decomp prod.collapse)
    then obtain b where b: "read_child (child_block (fst c)) = Some b"
      and IH: "delimited (snd c) \<Longrightarrow> d < 2 ^ 16 \<Longrightarrow>
        descend_extent_tree_chirho read_child lb b (of_nat d) =
          map_option (phys_at lb) (find (covers lb) (extents (snd c)))"
      using index.IH by blast
    have "delimited (snd c)" using index.prems(1) cin by auto
    then have "descend_extent_tree_chirho read_child lb b (of_nat d) =
        map_option (phys_at lb) (find (covers lb) (extents (snd c)))"
      using IH index.prems(2) by simp
    moreover have "find (covers lb) (extents (EIndex cs)) = find (covers lb) (extents (snd c))"
      by (rule selected_child_covers [OF index.prems(1) cs cle post])
    ultimately show ?thesis
      using look False b D D1 by (subst descend_extent_tree_chirho.simps) (simp add: c_def)
  qed
qed

text \<open>C13. The walk over a stored extent tree of any permitted depth finds exactly what a
  search of all extents of the file finds: the physical block of the extent
  that covers the logical block, or nothing when none does.  Reading a child
  block is a parameter; the tree may use any padding and node capacities.\<close>

theorem extent_walk_exact:
  assumes "stored read_child d data t" "delimited t" "d \<le> 5"
  shows "find_physical_block_chirho read_child data lb (of_nat d) =
    map_option (phys_at lb) (find (covers lb) (extents t))"
proof -
  have "(of_nat d :: u16) \<le> 5"
    using assms(3) unat_of_nat_small [where 'a = 16, of d] by (simp add: word_le_nat_alt)
  then have "\<not> (5 :: u16) < of_nat d" by (rule leD)
  then show ?thesis
    using descend_stored [OF assms(1,2)] assms(3)
    by (simp add: find_physical_block_chirho_def MAX_EXTENT_TREE_DEPTH_CHIRHO_def)
qed

section \<open>Malformed nodes\<close>

text \<open>Corruption is not taken for a hole.  A node that is too short for its header or
  its declared capacity, has the wrong magic or declares more entries than its
  capacity is rejected, and so is a leaf whose first entry is empty or runs past
  the end of the block numbers; a tree whose depth field disagrees with the
  level it is found at has no mapping.\<close>

theorem malformed_nodes_rejected:
  assumes "length data < 12 \<or> read_u16_chirho data 0 \<noteq> Some EXT4_EXTENT_MAGIC_CHIRHO \<or>
      (\<exists>m n. read_u16_chirho data 2 = Some n \<and> read_u16_chirho data 4 = Some m \<and>
        (unat n > unat m \<or> 12 + 12 * unat m > length data)) \<or>
      (\<exists>n len first. read_u16_chirho data 2 = Some n \<and> 0 < n \<and> read_u16_chirho data 6 = Some 0 \<and>
        read_u32_chirho data 12 = Some first \<and> read_u16_chirho data 16 = Some len \<and>
        (block_count_chirho len = 0 \<or> first + block_count_chirho len < first))"
  shows "lookup_extent_node_chirho data lb = None \<and>
    find_physical_block_chirho read_child data lb d = None"
proof -
  have "lookup_extent_node_chirho data lb = None"
  proof -
    have cap: "unat m > (length data - 12) div 12" if "12 + 12 * unat m > length data" "\<not> length data < 12" for m :: u16
      using that by (simp add: div_less_iff_less_mult)
    have bad: "leaf_loop data lb 0 (unat n) = None"
      if "0 < n" "read_u32_chirho data 12 = Some first" "read_u16_chirho data 16 = Some len"
        "block_count_chirho len = 0 \<or> first + block_count_chirho len < first" for n :: u16 and len first
    proof -
      have "unat n \<noteq> 0" using that(1) by (simp add: word_less_nat_alt)
      then obtain k where "unat n = Suc k" using not0_implies_Suc by blast
      then show ?thesis
        using that(2-4)
        by (auto simp: EXT4_EXTENT_HEADER_SIZE_CHIRHO_def EXT4_EXTENT_ENTRY_SIZE_CHIRHO_def Let_def
            checked_add_def)
    qed
    show ?thesis
      using assms
      by (auto simp: lookup_extent_node_chirho_def Let_def EXT4_EXTENT_HEADER_SIZE_CHIRHO_def
          EXT4_EXTENT_ENTRY_SIZE_CHIRHO_def bad dest: cap split: option.splits)
  qed
  then show ?thesis
    by (simp add: find_physical_block_chirho_def descend_extent_tree_chirho.simps [of read_child lb data])
qed

section \<open>A concrete tree\<close>

definition demo_extents :: "extent list" where
  "demo_extents = map (\<lambda>i. \<lparr>first_block = of_nat i, encoded_len = 1, phys_hi = 0,
     phys_lo = 100 + of_nat i\<rparr>) [0..<5]"

definition demo_leaf :: bytes where
  "demo_leaf = node_bytes 340 0 (map extent_bytes demo_extents) (replicate 4020 0)"

definition demo_index :: index_entry where
  "demo_index = \<lparr>idx_first = 0, child_hi = 0, child_lo = 900\<rparr>"

definition demo_root :: bytes where
  "demo_root = node_bytes 4 1 [index_bytes demo_index] (replicate 36 0)"

definition demo_disk :: "u64 \<Rightarrow> bytes option" where
  "demo_disk b = (if b = 900 then Some demo_leaf else None)"

lemma demo_stored: "stored demo_disk 1 demo_root (EIndex [(demo_index, ELeaf demo_extents)])"
proof -
  have fits: "node_fits 340 (map extent_bytes demo_extents) (replicate 4020 0)"
    by (simp add: node_fits_def concat_length_12 demo_extents_def)
  have "\<forall>x\<in>set demo_extents. wf_extent x"
    by (simp add: demo_extents_def upt_rec wf_extent_def extent_count_def extent_end_def
        block_count_chirho_def)
  then have "stored demo_disk 0 demo_leaf (ELeaf demo_extents)"
    unfolding demo_leaf_def by (rule stored.leaf [OF fits])
  moreover have "demo_disk (child_block demo_index) = Some demo_leaf"
    by (simp add: demo_disk_def child_block_def demo_index_def)
  moreover have "node_fits 4 (map (\<lambda>c. index_bytes (fst c)) [(demo_index, ELeaf demo_extents)])
      (replicate 36 0)"
    by (simp add: node_fits_def)
  ultimately show ?thesis
    using stored.index [of 4 "[(demo_index, ELeaf demo_extents)]" "replicate 36 0" demo_disk 0]
    by (simp add: demo_root_def)
qed

theorem extent_walk_exact_witness: "find_physical_block_chirho demo_disk demo_root 4 1 = Some 104"
proof -
  have "delimited (EIndex [(demo_index, ELeaf demo_extents)])" by (simp add: demo_index_def)
  from extent_walk_exact [OF demo_stored this, of 4] show ?thesis
    by (simp add: demo_extents_def upt_rec covers_def extent_end_def extent_count_def
        block_count_chirho_def phys_at_def phys_start_def)
qed

theorem malformed_nodes_rejected_witness: "lookup_extent_node_chirho (replicate 60 0) 4 = None"
proof -
  have "get_bytes (replicate 60 0) 0 2 = Some [0, 0]"
    by (simp add: get_bytes_def numeral_2_eq_2)
  then have "read_u16_chirho (replicate 60 0) 0 \<noteq> Some EXT4_EXTENT_MAGIC_CHIRHO"
    by (simp add: read_u16_chirho_def EXT4_EXTENT_MAGIC_CHIRHO_def)
  then show ?thesis using malformed_nodes_rejected [of "replicate 60 0" 4 "\<lambda>_. None" 0] by blast
qed

end
