(* ===== verification/Uaccess.thy ===== *)
theory Uaccess
  imports Rust_Prelude
begin

text \<open>
  Access to user memory: \<^verbatim>\<open>mm_chirho/uaccess_chirho.rs\<close>.  Memory is a function from
  addresses to bytes; a page that is not mapped would fault in the code, which
  has no fixup tables, so the model describes accesses to mapped pages.

  The locale \<^verbatim>\<open>user_copy\<close> is what system calls rely on (what was copied out can be
  copied in again, and nothing outside the range or in kernel space is
  touched), interpreted on the two copy functions.
\<close>

type_synonym umem = "u64 \<Rightarrow> u8"

definition USER_SPACE_MAX_CHIRHO :: u64 where "USER_SPACE_MAX_CHIRHO = 0x00007FFFFFFFFFFF"

datatype UaccessErrorChirho = InvalidAddressChirho | OverflowChirho | FaultChirho

definition is_user_address_chirho :: "u64 \<Rightarrow> u64 \<Rightarrow> bool" where
  "is_user_address_chirho addr len =
     (if len = 0 then addr \<le> USER_SPACE_MAX_CHIRHO + 1
      else case checked_add addr len of None \<Rightarrow> False
           | Some end_ \<Rightarrow> end_ - 1 \<le> USER_SPACE_MAX_CHIRHO)"

definition validate_user_range_chirho :: "u64 \<Rightarrow> nat \<Rightarrow> UaccessErrorChirho + unit" where
  "validate_user_range_chirho addr len =
     (if addr > USER_SPACE_MAX_CHIRHO \<and> len > 0 then Inl InvalidAddressChirho
      else if \<not> is_user_address_chirho addr (of_nat len) then Inl OverflowChirho
      else Inr ())"

definition read_mem :: "umem \<Rightarrow> u64 \<Rightarrow> nat \<Rightarrow> bytes" where
  "read_mem mem addr n = map (\<lambda>i. mem (addr + of_nat i)) [0..<n]"

definition write_mem :: "umem \<Rightarrow> u64 \<Rightarrow> bytes \<Rightarrow> umem" where
  "write_mem mem addr bs = (\<lambda>x. if unat (x - addr) < length bs then bs ! unat (x - addr) else mem x)"

text \<open>The destination buffer has \<^verbatim>\<open>cap\<close> bytes.\<close>

definition copy_from_user_chirho :: "umem \<Rightarrow> nat \<Rightarrow> u64 \<Rightarrow> nat \<Rightarrow> UaccessErrorChirho + bytes" where
  "copy_from_user_chirho mem cap src len =
     (if len = 0 then Inr []
      else if cap < len then Inl OverflowChirho
      else case validate_user_range_chirho src len of Inl err \<Rightarrow> Inl err
           | Inr _ \<Rightarrow> Inr (read_mem mem src len))"

definition copy_to_user_chirho :: "umem \<Rightarrow> u64 \<Rightarrow> bytes \<Rightarrow> nat \<Rightarrow> UaccessErrorChirho + umem" where
  "copy_to_user_chirho mem dst src len =
     (if len = 0 then Inr mem
      else if length src < len then Inl OverflowChirho
      else case validate_user_range_chirho dst len of Inl err \<Rightarrow> Inl err
           | Inr _ \<Rightarrow> Inr (write_mem mem dst (take len src)))"

definition read_user_u64_chirho :: "umem \<Rightarrow> u64 \<Rightarrow> UaccessErrorChirho + u64" where
  "read_user_u64_chirho mem addr =
     (case validate_user_range_chirho addr 8 of Inl err \<Rightarrow> Inl err
      | Inr _ \<Rightarrow> Inr (of_nat (le_nat (read_mem mem addr 8))))"

definition write_user_u64_chirho :: "umem \<Rightarrow> u64 \<Rightarrow> u64 \<Rightarrow> UaccessErrorChirho + umem" where
  "write_user_u64_chirho mem addr v =
     (case validate_user_range_chirho addr 8 of Inl err \<Rightarrow> Inl err
      | Inr _ \<Rightarrow> Inr (write_mem mem addr (le_bytes 8 (unat v))))"

text \<open>The byte loop of the string reader, \<^verbatim>\<open>n\<close> bytes left from \<^verbatim>\<open>addr\<close>; the conversion
  of the bytes to a string is left out.\<close>

fun read_string_loop :: "umem \<Rightarrow> u64 \<Rightarrow> nat \<Rightarrow> bytes \<Rightarrow> UaccessErrorChirho + bytes" where
  "read_string_loop mem addr 0 buf = Inr buf"
| "read_string_loop mem addr (Suc n) buf =
     (if addr > USER_SPACE_MAX_CHIRHO then Inl FaultChirho
      else if mem addr = 0 then Inr buf
      else read_string_loop mem (addr + 1) n (buf @ [mem addr]))"

definition read_user_string_chirho :: "umem \<Rightarrow> u64 \<Rightarrow> nat \<Rightarrow> UaccessErrorChirho + bytes" where
  "read_user_string_chirho mem addr max_len =
     (if max_len = 0 then Inl FaultChirho else read_string_loop mem addr max_len [])"

section \<open>Ranges\<close>

lemma validate_ok:
  assumes "validate_user_range_chirho addr len = Inr u" "0 < len" "len < 2 ^ 64"
  shows "unat addr + len \<le> 2 ^ 47"
proof -
  have n: "unat (of_nat len :: u64) = len" using assms(3) by (simp add: unat_of_nat_small)
  then have nz: "(of_nat len :: u64) \<noteq> 0" using assms(2) by (metis less_irrefl unat_0)
  obtain e where e: "checked_add addr (of_nat len) = Some e" "e - 1 \<le> USER_SPACE_MAX_CHIRHO"
    using assms(1) nz
    by (auto simp: validate_user_range_chirho_def is_user_address_chirho_def split: if_splits option.splits)
  have u: "unat e = unat addr + len" using unat_checked_add [OF e(1)] n by simp
  then have "e \<noteq> 0" using assms(2) by (metis add_is_0 less_irrefl unat_0)
  then have "unat (e - 1) = unat addr + len - 1" using u by (simp add: unat_pred_word)
  moreover have "unat (e - 1) \<le> 0x00007FFFFFFFFFFF"
    using e(2) by (simp add: USER_SPACE_MAX_CHIRHO_def word_le_nat_alt)
  ultimately show ?thesis by simp
qed

lemma read_mem_write:
  assumes "n \<le> length bs" "length bs < 2 ^ 64"
  shows "read_mem (write_mem mem addr bs) addr n = take n bs"
proof (rule nth_equalityI)
  show "length (read_mem (write_mem mem addr bs) addr n) = length (take n bs)"
    using assms(1) by (simp add: read_mem_def)
  fix i assume "i < length (read_mem (write_mem mem addr bs) addr n)"
  then have "i < n" by (simp add: read_mem_def)
  moreover from this have "unat (of_nat i :: u64) = i" using assms by (intro unat_of_nat_small) simp
  ultimately show "read_mem (write_mem mem addr bs) addr n ! i = take n bs ! i"
    using assms(1) by (simp add: read_mem_def write_mem_def)
qed

lemma length_read_mem [simp]: "length (read_mem mem addr n) = n"
  by (simp add: read_mem_def)

lemma read_mem_append: "read_mem mem a (m + n) = read_mem mem a m @ read_mem mem (a + of_nat m) n"
proof -
  have "[0..<m + n] = [0..<m] @ map (\<lambda>i. i + m) [0..<n]"
    using upt_add_eq_append [of 0 m n] by (simp add: map_add_upt add.commute [of n m])
  then show ?thesis by (simp add: read_mem_def comp_def algebra_simps)
qed

lemma write_mem_append:
  assumes "length xs + length ys < 2 ^ 64"
  shows "write_mem (write_mem mem a xs) (a + of_nat (length xs)) ys = write_mem mem a (xs @ ys)"
proof
  fix x
  have n: "unat (of_nat (length xs) :: u64) = length xs" using assms by (intro unat_of_nat_small) simp
  show "write_mem (write_mem mem a xs) (a + of_nat (length xs)) ys x = write_mem mem a (xs @ ys) x"
  proof (cases "of_nat (length xs) \<le> x - a")
    case True
    then have "unat (x - (a + of_nat (length xs))) = unat (x - a) - length xs"
      using n by (simp add: unat_sub diff_diff_eq [symmetric])
    moreover have "length xs \<le> unat (x - a)" using True n by (simp add: word_le_nat_alt)
    ultimately show ?thesis by (auto simp: write_mem_def nth_append)
  next
    case False
    then have lt: "unat (x - a) < length xs" using n by (simp add: word_le_nat_alt)
    have "x - (a + of_nat (length xs)) = (x - a) - of_nat (length xs)" by simp
    also have "unat \<dots> = 2 ^ 64 + unat (x - a) - length xs"
      using lt n unat_sub_if' [of "x - a" "of_nat (length xs)"] by simp
    finally have "\<not> unat (x - (a + of_nat (length xs))) < length ys" using assms by linarith
    then show ?thesis using lt by (simp add: write_mem_def nth_append)
  qed
qed

locale user_copy =
  fixes copy_in :: "umem \<Rightarrow> u64 \<Rightarrow> nat \<Rightarrow> bytes option"
    and copy_out :: "umem \<Rightarrow> u64 \<Rightarrow> bytes \<Rightarrow> umem option"
  assumes out_in: "copy_out mem a bs = Some mem' \<Longrightarrow> length bs < 2 ^ 47 \<Longrightarrow> n \<le> length bs \<Longrightarrow>
      copy_in mem' a n = Some (take n bs)"
    and out_frame: "copy_out mem a bs = Some mem' \<Longrightarrow> length bs \<le> unat (x - a) \<Longrightarrow> mem' x = mem x"
    and out_user: "copy_out mem a bs = Some mem' \<Longrightarrow> length bs < 2 ^ 64 \<Longrightarrow> 2 ^ 47 \<le> unat x \<Longrightarrow> mem' x = mem x"
    and in_length: "copy_in mem a n = Some bs \<Longrightarrow> length bs = n"
begin

text \<open>Structures made of 64-bit words, as the kernel lays them out on user stacks.\<close>

definition words_bytes :: "u64 list \<Rightarrow> bytes" where
  "words_bytes ws = concat (map (\<lambda>w. le_bytes 8 (unat w)) ws)"

definition bytes_word :: "bytes \<Rightarrow> nat \<Rightarrow> u64" where
  "bytes_word bs i = of_nat (le_nat (take 8 (drop (8 * i) bs)))"

lemma length_words_bytes [simp]: "length (words_bytes ws) = 8 * length ws"
  by (induction ws) (simp_all add: words_bytes_def)

lemma bytes_word_words: "i < length ws \<Longrightarrow> bytes_word (words_bytes ws) i = ws ! i"
proof (induction ws arbitrary: i)
  case (Cons w ws)
  have w: "le_nat (le_bytes 8 (unat w)) = unat w"
    using unat_less_pow [of w] by (simp add: le_nat_bytes)
  show ?case
  proof (cases i)
    case 0
    then show ?thesis by (simp add: bytes_word_def words_bytes_def w)
  next
    case (Suc j)
    then show ?thesis using Cons by (simp add: bytes_word_def words_bytes_def)
  qed
qed simp

lemma copied_words:
  assumes "copy_out mem a (words_bytes ws) = Some mem'" "length ws < 2 ^ 40"
  shows "\<exists>bs. copy_in mem' a (8 * length ws) = Some bs \<and> (\<forall>i<length ws. bytes_word bs i = ws ! i)"
  using out_in [OF assms(1), of "8 * length ws"] assms(2) by (simp add: bytes_word_words)

end

definition copy_in_opt :: "umem \<Rightarrow> u64 \<Rightarrow> nat \<Rightarrow> bytes option" where
  "copy_in_opt mem a n = (case copy_from_user_chirho mem n a n of Inr bs \<Rightarrow> Some bs | Inl _ \<Rightarrow> None)"

definition copy_out_opt :: "umem \<Rightarrow> u64 \<Rightarrow> bytes \<Rightarrow> umem option" where
  "copy_out_opt mem a bs =
     (case copy_to_user_chirho mem a bs (length bs) of Inr m \<Rightarrow> Some m | Inl _ \<Rightarrow> None)"

lemma copy_out_cases:
  assumes "copy_out_opt mem a bs = Some mem'"
  obtains "bs = []" "mem' = mem"
  | "bs \<noteq> []" "validate_user_range_chirho a (length bs) = Inr ()" "mem' = write_mem mem a bs"
  using assms by (auto simp: copy_out_opt_def copy_to_user_chirho_def split: sum.splits if_splits)

lemma validate_range:
  assumes "unat a + m \<le> 2 ^ 47" "0 < m"
  shows "validate_user_range_chirho a m = Inr ()"
proof -
  have m: "unat (of_nat m :: u64) = m" using assms(1) by (intro unat_of_nat_small) simp
  have nz: "(of_nat m :: u64) \<noteq> 0" using assms(2) m by (metis less_irrefl unat_0)
  have ov: "\<not> a + of_nat m < a" using assms(1) m by (simp add: word_add_less_iff)
  then have u: "unat (a + of_nat m) = unat a + m" using m by (simp add: unat_add_no_wrap)
  then have "a + of_nat m \<noteq> 0" using assms(2) by (metis add_is_0 less_irrefl unat_0)
  then have "unat (a + of_nat m - 1) = unat a + m - 1" using u by (simp add: unat_pred_word)
  then have "a + of_nat m - 1 \<le> USER_SPACE_MAX_CHIRHO"
    using assms(1) by (simp add: USER_SPACE_MAX_CHIRHO_def word_le_nat_alt)
  moreover have "\<not> a > USER_SPACE_MAX_CHIRHO"
    using assms by (simp add: USER_SPACE_MAX_CHIRHO_def word_less_nat_alt)
  ultimately show ?thesis
    using nz ov by (simp add: validate_user_range_chirho_def is_user_address_chirho_def checked_add_def)
qed

lemma validate_prefix:
  assumes "validate_user_range_chirho a n = Inr ()" "0 < m" "m \<le> n" "n < 2 ^ 47"
  shows "validate_user_range_chirho a m = Inr ()"
  using validate_ok [OF assms(1)] assms(2-4) by (intro validate_range) simp_all

interpretation uc: user_copy copy_in_opt copy_out_opt
proof
  show "copy_in_opt mem' a n = Some (take n bs)"
    if "copy_out_opt mem a bs = Some mem'" "length bs < 2 ^ 47" "n \<le> length bs" for mem a bs mem' n
  proof (cases "n = 0")
    case True
    then show ?thesis by (simp add: copy_in_opt_def copy_from_user_chirho_def)
  next
    case False
    then have ne: "bs \<noteq> []" using that(3) by auto
    then have v: "validate_user_range_chirho a (length bs) = Inr ()" and m: "mem' = write_mem mem a bs"
      using copy_out_cases [OF that(1)] by auto
    have "validate_user_range_chirho a n = Inr ()"
      by (rule validate_prefix [OF v]) (use False that in auto)
    then show ?thesis
      using False m that(2,3) by (simp add: copy_in_opt_def copy_from_user_chirho_def read_mem_write)
  qed
  show "mem' x = mem x" if "copy_out_opt mem a bs = Some mem'" "length bs \<le> unat (x - a)" for mem a bs mem' x
    by (rule copy_out_cases [OF that(1)]) (use that(2) in \<open>auto simp: write_mem_def\<close>)
  show "mem' x = mem x"
    if "copy_out_opt mem a bs = Some mem'" "length bs < 2 ^ 64" "2 ^ 47 \<le> unat x" for mem a bs mem' x
  proof (rule copy_out_cases [OF that(1)])
    assume v: "validate_user_range_chirho a (length bs) = Inr ()" and ne: "bs \<noteq> []"
      and m: "mem' = write_mem mem a bs"
    have le: "unat a + length bs \<le> 2 ^ 47" using validate_ok [OF v] ne that(2) by simp
    then have "a \<le> x" using that(3) by (simp add: word_le_nat_alt)
    then have "unat (x - a) = unat x - unat a" by (simp add: unat_sub)
    then have "\<not> unat (x - a) < length bs" using le that(3) by simp
    then show ?thesis using m by (simp add: write_mem_def)
  qed simp
  show "length bs = n" if "copy_in_opt mem a n = Some bs" for mem a n bs
    using that by (auto simp: copy_in_opt_def copy_from_user_chirho_def split: if_splits sum.splits)
qed

text \<open>Reading back a written word, for every address both accept.\<close>

lemma read_user_u64_write:
  "write_user_u64_chirho mem a v = Inr mem' \<Longrightarrow> read_user_u64_chirho mem' a = Inr v"
proof -
  assume w: "write_user_u64_chirho mem a v = Inr mem'"
  then have "read_mem mem' a 8 = le_bytes 8 (unat v)"
    by (auto simp: write_user_u64_chirho_def read_mem_write split: sum.splits)
  moreover have "unat v mod 256 ^ 8 = unat v" using unat_less_pow [of v] by simp
  ultimately show ?thesis
    using w by (auto simp: write_user_u64_chirho_def read_user_u64_chirho_def le_nat_bytes split: sum.splits)
qed

text \<open>A string without terminator in the first \<^verbatim>\<open>n\<close> bytes is returned cut off, not
  reported as a fault.\<close>

lemma read_string_unterminated:
  assumes "unat a + n < 2 ^ 47" "\<forall>i<n. mem (a + of_nat i) \<noteq> 0"
  shows "read_string_loop mem a n buf = Inr (buf @ read_mem mem a n)"
  using assms
proof (induction n arbitrary: a buf)
  case 0
  then show ?case by (simp add: read_mem_def)
next
  case (Suc n)
  have small: "\<not> a > USER_SPACE_MAX_CHIRHO"
    using Suc.prems(1) by (simp add: USER_SPACE_MAX_CHIRHO_def word_less_nat_alt)
  have "a \<noteq> - 1" using Suc.prems(1) by (auto simp: unat_minus_one_word)
  then have "unat (a + 1) + n < 2 ^ 47" using Suc.prems(1) by (simp add: unat_Suc_word)
  moreover have "mem (a + 1 + of_nat i) \<noteq> 0" if "i < n" for i
    using Suc.prems(2) [rule_format, of "Suc i"] that by (simp add: ac_simps)
  ultimately have "read_string_loop mem (a + 1) n (buf @ [mem a]) = Inr ((buf @ [mem a]) @ read_mem mem (a + 1) n)"
    using Suc.IH by blast
  moreover have "mem a # read_mem mem (a + 1) n = read_mem mem a (Suc n)"
    by (simp add: read_mem_def upt_conv_Cons map_Suc_upt [symmetric] comp_def ac_simps del: upt_Suc)
  ultimately show ?case
    using small Suc.prems(2) [rule_format, of 0] by simp
qed

end
