(* ===== verification/Signal.thy ===== *)
theory Signal
  imports Wait_Queue Uaccess
begin

text \<open>
  Signals: \<^verbatim>\<open>process_chirho/signal_chirho.rs\<close>, the return path of a system call in
  \<^verbatim>\<open>arch_chirho/syscall_entry_chirho.rs\<close> that calls it, and \<^verbatim>\<open>rt_sigreturn\<close> from
  \<^verbatim>\<open>syscall_chirho.rs\<close>.

  The signal fields of a task descriptor are a record of their own, kept per PID
  beside the scheduler state; shifts are those of the release profile, which
  mask the shift amount, so signal 64 uses bit 0.  The retirement of the file
  table at exit belongs to \<^verbatim>\<open>Fd_Table\<close> and is not repeated here.
\<close>

definition SIGKILL_CHIRHO :: nat where "SIGKILL_CHIRHO = 9"
definition SIGPIPE_CHIRHO :: nat where "SIGPIPE_CHIRHO = 13"
definition SIGCHLD_CHIRHO :: nat where "SIGCHLD_CHIRHO = 17"
definition SIGCONT_CHIRHO :: nat where "SIGCONT_CHIRHO = 18"
definition SIGSTOP_CHIRHO :: nat where "SIGSTOP_CHIRHO = 19"
definition SIGRTMIN_CHIRHO :: nat where "SIGRTMIN_CHIRHO = 32"
definition MAX_SIGNAL_CHIRHO :: nat where "MAX_SIGNAL_CHIRHO = 64"

lemmas sig_consts = SIGKILL_CHIRHO_def SIGPIPE_CHIRHO_def SIGCHLD_CHIRHO_def SIGCONT_CHIRHO_def
  SIGSTOP_CHIRHO_def SIGRTMIN_CHIRHO_def MAX_SIGNAL_CHIRHO_def

section \<open>Dispositions and the pending set\<close>

datatype SignalActionChirho = SigDefaultChirho | SigIgnoreChirho
  | HandlerChirho (handler_chirho: u64) (flags_chirho: u64) (mask_chirho: u64) (restorer_chirho: u64)

datatype DefaultActionChirho = TermChirho | IgnoreChirho | CoreChirho | StopChirho | ContChirho

record SignalInfoChirho =
  signo_chirho :: nat
  code_chirho :: int
  sender_pid_chirho :: u64

definition SI_USER_CHIRHO :: int where "SI_USER_CHIRHO = 0"
definition SI_KERNEL_CHIRHO :: int where "SI_KERNEL_CHIRHO = 0x80"

record PendingSignalsChirho =
  pending_mask_chirho :: u64
  pending_queue_chirho :: "SignalInfoChirho list"

definition pending_new_chirho :: PendingSignalsChirho where
  "pending_new_chirho = \<lparr>pending_mask_chirho = 0, pending_queue_chirho = []\<rparr>"

definition pending_add_chirho :: "SignalInfoChirho \<Rightarrow> PendingSignalsChirho \<Rightarrow> PendingSignalsChirho" where
  "pending_add_chirho info p =
     (let b = shl_u64 1 (signo_chirho info) in
      if signo_chirho info < SIGRTMIN_CHIRHO \<and> pending_mask_chirho p AND b \<noteq> 0 then p
      else \<lparr>pending_mask_chirho = pending_mask_chirho p OR b,
            pending_queue_chirho = pending_queue_chirho p @ [info]\<rparr>)"

definition pending_dequeue_chirho ::
  "nat \<Rightarrow> PendingSignalsChirho \<Rightarrow> SignalInfoChirho option \<times> PendingSignalsChirho" where
  "pending_dequeue_chirho signo p =
     (let cleared = pending_mask_chirho p AND NOT (shl_u64 1 signo) in
      case position (\<lambda>si. signo_chirho si = signo) (pending_queue_chirho p) of
        Some i \<Rightarrow>
          (let q = remove_at i (pending_queue_chirho p) in
           (Some (pending_queue_chirho p ! i),
            \<lparr>pending_mask_chirho = (if \<exists>si\<in>set q. signo_chirho si = signo
                then pending_mask_chirho p else cleared), pending_queue_chirho = q\<rparr>))
      | None \<Rightarrow> (None, p\<lparr>pending_mask_chirho := cleared\<rparr>))"

definition pending_is_empty_chirho :: "PendingSignalsChirho \<Rightarrow> bool" where
  "pending_is_empty_chirho p = (pending_mask_chirho p = 0)"

record SignalStateChirho =
  blocked_chirho :: u64
  pending_chirho :: PendingSignalsChirho
  actions_chirho :: "SignalActionChirho list"

definition signal_state_new_chirho :: SignalStateChirho where
  "signal_state_new_chirho = \<lparr>blocked_chirho = 0, pending_chirho = pending_new_chirho,
     actions_chirho = replicate MAX_SIGNAL_CHIRHO SigDefaultChirho\<rparr>"

definition default_action_chirho :: "nat \<Rightarrow> DefaultActionChirho" where
  "default_action_chirho signo =
     (if signo \<in> {3, 4, 5, 6, 7, 8, 11, 24, 25, 31} then CoreChirho
      else if signo \<in> {17, 23, 28} then IgnoreChirho
      else if signo = 18 then ContChirho
      else if signo \<in> {19, 20, 21, 22} then StopChirho
      else TermChirho)"

definition is_fatal_chirho :: "nat \<Rightarrow> bool" where
  "is_fatal_chirho signo \<longleftrightarrow> signo \<in> {9, 11, 7, 4, 8}"

definition UNBLOCKABLE_MASK_CHIRHO :: u64 where
  "UNBLOCKABLE_MASK_CHIRHO = shl_u64 1 SIGKILL_CHIRHO OR shl_u64 1 SIGSTOP_CHIRHO"

section \<open>The world\<close>

record TaskSignalsChirho =
  signal_mask_chirho :: u64
  pending_signals_chirho :: u64
  signal_state_chirho :: SignalStateChirho

record sig_world =
  ksched :: sched_state
  sigs :: "u64 \<Rightarrow> TaskSignalsChirho"
  CHILD_EXIT_WAITQUEUE_CHIRHO :: WaitQueueChirho
  user_mem :: umem

definition upd_sigs :: "u64 \<Rightarrow> (TaskSignalsChirho \<Rightarrow> TaskSignalsChirho) \<Rightarrow> sig_world \<Rightarrow> sig_world" where
  "upd_sigs p f w = w\<lparr>sigs := (sigs w)(p := f (sigs w p))\<rparr>"

text \<open>Setting the pending bit and queueing the information.\<close>

definition post_signal :: "SignalInfoChirho \<Rightarrow> TaskSignalsChirho \<Rightarrow> TaskSignalsChirho" where
  "post_signal info t = t\<lparr>pending_signals_chirho := pending_signals_chirho t OR shl_u64 1 (signo_chirho info),
     signal_state_chirho := (signal_state_chirho t)\<lparr>pending_chirho :=
       pending_add_chirho info (pending_chirho (signal_state_chirho t))\<rparr>\<rparr>"

definition dequeue_state :: "nat \<Rightarrow> TaskSignalsChirho \<Rightarrow> TaskSignalsChirho" where
  "dequeue_state signo t = t\<lparr>signal_state_chirho := (signal_state_chirho t)\<lparr>pending_chirho :=
     snd (pending_dequeue_chirho signo (pending_chirho (signal_state_chirho t)))\<rparr>\<rparr>"

section \<open>Sending\<close>

definition signal_wakes :: "nat \<Rightarrow> TaskStateChirho \<Rightarrow> TaskStateChirho" where
  "signal_wakes signo st =
     (let st1 = (if signo = SIGCONT_CHIRHO \<and> st \<in> {StoppedChirho, BlockedChirho, SleepingChirho}
                 then ReadyChirho else st)
      in if (signo = SIGKILL_CHIRHO \<or> default_action_chirho signo \<in> {TermChirho, CoreChirho}) \<and>
            st1 \<in> {BlockedChirho, SleepingChirho}
         then ReadyChirho else st1)"

definition send_signal_chirho :: "u64 \<Rightarrow> nat \<Rightarrow> sig_world \<Rightarrow> (i64 + unit) \<times> sig_world" where
  "send_signal_chirho pid signo w =
     (if signo > MAX_SIGNAL_CHIRHO then (Inl (- EINVAL_CHIRHO), w)
      else case find_task_by_pid_chirho (ksched w) pid of
             None \<Rightarrow> (Inl (- ESRCH_CHIRHO), w)
           | Some t \<Rightarrow>
               if signo = 0 then (Inr (), w)
               else if is_exited_chirho t then (Inl (- ESRCH_CHIRHO), w)
               else let sender = (case CURRENT_TASK_CHIRHO (ksched w) of Some p \<Rightarrow> p | None \<Rightarrow> 0);
                        info = \<lparr>signo_chirho = signo, code_chirho = SI_USER_CHIRHO, sender_pid_chirho = sender\<rparr>;
                        w1 = upd_sigs pid (post_signal info) w
                    in (Inr (), w1\<lparr>ksched := set_task_state pid (signal_wakes signo (state_chirho t)) (ksched w1)\<rparr>))"

definition result_i64 :: "(i64 + unit) \<times> sig_world \<Rightarrow> i64 \<times> sig_world" where
  "result_i64 r = (case fst r of Inr _ \<Rightarrow> 0 | Inl err \<Rightarrow> err, snd r)"

definition sys_kill_chirho :: "u64 \<Rightarrow> nat \<Rightarrow> sig_world \<Rightarrow> i64 \<times> sig_world" where
  "sys_kill_chirho pid sig w = result_i64 (send_signal_chirho pid sig w)"

definition sys_tgkill_chirho :: "u64 \<Rightarrow> u64 \<Rightarrow> nat \<Rightarrow> sig_world \<Rightarrow> i64 \<times> sig_world" where
  "sys_tgkill_chirho tgid tid sig w =
     (if sig > MAX_SIGNAL_CHIRHO then (- EINVAL_CHIRHO, w)
      else if sig = 0
      then (if find_task_by_pid_chirho (ksched w) tid \<noteq> None then 0 else - ESRCH_CHIRHO, w)
      else result_i64 (send_signal_chirho tid sig w))"

definition sys_tkill_chirho :: "u64 \<Rightarrow> nat \<Rightarrow> sig_world \<Rightarrow> i64 \<times> sig_world" where
  "sys_tkill_chirho tid sig w = sys_tgkill_chirho 0 tid sig w"

text \<open>SIGCHLD to the parent: post, unblock it if it sleeps, and move it to the front.\<close>

definition deliver_sigchld_chirho :: "u64 \<Rightarrow> u64 \<Rightarrow> sig_world \<Rightarrow> sig_world" where
  "deliver_sigchld_chirho parent child w =
     (case find_task_by_pid_chirho (ksched w) parent of None \<Rightarrow> w
      | Some t \<Rightarrow>
          (let w1 = upd_sigs parent (post_signal \<lparr>signo_chirho = SIGCHLD_CHIRHO,
                      code_chirho = SI_KERNEL_CHIRHO, sender_pid_chirho = child\<rparr>) w;
               k = (if state_chirho t \<in> {BlockedChirho, SleepingChirho}
                    then unblock_task_chirho parent (ksched w1) else ksched w1)
           in w1\<lparr>ksched := promote_task_chirho parent k\<rparr>))"

definition deliver_sigpipe_to_current_chirho :: "sig_world \<Rightarrow> sig_world" where
  "deliver_sigpipe_to_current_chirho w = (case CURRENT_TASK_CHIRHO (ksched w) of None \<Rightarrow> w
     | Some p \<Rightarrow>
         (case actions_chirho (signal_state_chirho (sigs w p)) ! (SIGPIPE_CHIRHO - 1) of
            SigIgnoreChirho \<Rightarrow> w
          | _ \<Rightarrow> upd_sigs p (post_signal \<lparr>signo_chirho = SIGPIPE_CHIRHO,
                   code_chirho = SI_KERNEL_CHIRHO, sender_pid_chirho = 0\<rparr>) w))"

definition current_has_deliverable_signal_chirho :: "sig_world \<Rightarrow> bool" where
  "current_has_deliverable_signal_chirho w = (case CURRENT_TASK_CHIRHO (ksched w) of None \<Rightarrow> False
     | Some p \<Rightarrow> pending_signals_chirho (sigs w p) AND
         NOT (blocked_chirho (signal_state_chirho (sigs w p))) \<noteq> 0)"

section \<open>Masks and dispositions\<close>

record SigactionChirho =
  sa_handler_chirho :: u64
  sa_flags_chirho :: u64
  sa_restorer_chirho :: u64
  sa_mask_chirho :: u64

definition sigaction_default_chirho :: SigactionChirho where
  "sigaction_default_chirho = \<lparr>sa_handler_chirho = 0, sa_flags_chirho = 0, sa_restorer_chirho = 0,
     sa_mask_chirho = 0\<rparr>"

definition action_to_sa :: "SignalActionChirho \<Rightarrow> SigactionChirho" where
  "action_to_sa a = (case a of SigDefaultChirho \<Rightarrow> sigaction_default_chirho
     | SigIgnoreChirho \<Rightarrow> sigaction_default_chirho\<lparr>sa_handler_chirho := 1\<rparr>
     | HandlerChirho h f m r \<Rightarrow> \<lparr>sa_handler_chirho = h, sa_flags_chirho = f,
         sa_restorer_chirho = r, sa_mask_chirho = m\<rparr>)"

definition sa_to_action :: "SigactionChirho \<Rightarrow> SignalActionChirho" where
  "sa_to_action sa = (if sa_handler_chirho sa = 0 then SigDefaultChirho
     else if sa_handler_chirho sa = 1 then SigIgnoreChirho
     else HandlerChirho (sa_handler_chirho sa) (sa_flags_chirho sa) (sa_mask_chirho sa) (sa_restorer_chirho sa))"

definition sa_bytes :: "SigactionChirho \<Rightarrow> bytes" where
  "sa_bytes sa = uc.words_bytes [sa_handler_chirho sa, sa_flags_chirho sa, sa_restorer_chirho sa, sa_mask_chirho sa]"

definition sa_of_bytes :: "bytes \<Rightarrow> SigactionChirho" where
  "sa_of_bytes bs = \<lparr>sa_handler_chirho = uc.bytes_word bs 0, sa_flags_chirho = uc.bytes_word bs 1,
     sa_restorer_chirho = uc.bytes_word bs 2, sa_mask_chirho = uc.bytes_word bs 3\<rparr>"




definition sys_rt_sigpending_chirho :: "u64 \<Rightarrow> sig_world \<Rightarrow> i64 \<times> sig_world" where
  "sys_rt_sigpending_chirho ptr w =
     (if ptr = 0 then (- EFAULT_CHIRHO, w)
      else let m = (case CURRENT_TASK_CHIRHO (ksched w) of
                      Some p \<Rightarrow> pending_signals_chirho (sigs w p) | None \<Rightarrow> 0)
           in case copy_out_opt (user_mem w) ptr (le_bytes 8 (unat m)) of
                None \<Rightarrow> (- EFAULT_CHIRHO, w) | Some um \<Rightarrow> (0, w\<lparr>user_mem := um\<rparr>))"

definition sys_rt_sigsuspend_chirho :: "u64 \<Rightarrow> i64" where
  "sys_rt_sigsuspend_chirho mask_ptr = - EINTR_CHIRHO"

definition sys_sigaltstack_chirho :: "u64 \<Rightarrow> u64 \<Rightarrow> i64" where
  "sys_sigaltstack_chirho ss old_ss = 0"

section \<open>Default actions on the way back to user space\<close>

text \<open>The lowest set bit, \<^verbatim>\<open>trailing_zeros\<close> of a non-zero word.\<close>

definition lowest_bit :: "u64 \<Rightarrow> nat" where
  "lowest_bit x = (case find (bit x) [0..<64] of Some n \<Rightarrow> n | None \<Rightarrow> 64)"

definition check_pending_signals_chirho :: "TaskSignalsChirho \<Rightarrow> nat option \<times> TaskSignalsChirho" where
  "check_pending_signals_chirho t =
     (let deliverable = pending_signals_chirho t AND (NOT (signal_mask_chirho t) OR UNBLOCKABLE_MASK_CHIRHO) in
      if deliverable = 0 then (None, t)
      else let n = lowest_bit deliverable
           in (Some n, t\<lparr>pending_signals_chirho := pending_signals_chirho t AND NOT (shl_u64 1 n)\<rparr>))"

datatype fatal_outcome = Survives | Killed nat int

definition check_fatal_task :: "TaskSignalsChirho \<Rightarrow> TaskStateChirho \<Rightarrow>
    fatal_outcome \<times> TaskSignalsChirho \<times> TaskStateChirho" where
  "check_fatal_task t st =
     (if pending_signals_chirho t = 0 then (Survives, t, st)
      else case check_pending_signals_chirho t of (None, t1) \<Rightarrow> (Survives, t1, st)
      | (Some signo, t1) \<Rightarrow>
          (let idx = signo - 1; d = dequeue_state signo t1 in
           case (if idx < MAX_SIGNAL_CHIRHO then actions_chirho (signal_state_chirho t1) ! idx else SigDefaultChirho) of
             SigIgnoreChirho \<Rightarrow> (Survives, d, st)
           | HandlerChirho h f m r \<Rightarrow> (Survives, t1, st)
           | SigDefaultChirho \<Rightarrow>
               (case default_action_chirho signo of
                  IgnoreChirho \<Rightarrow> (Survives, d, st)
                | ContChirho \<Rightarrow> (Survives, d, st)
                | StopChirho \<Rightarrow> (Survives, d, StoppedChirho)
                | TermChirho \<Rightarrow> (Killed signo (128 + int signo), t1, st)
                | CoreChirho \<Rightarrow> (Killed signo (128 + int signo), t1, st))))"

text \<open>Termination: the task part of descriptor retirement (zombie state and exit
  code), off the run queue,
  SIGCHLD to the parent, wake the waiters for exits, yield.\<close>

definition exit_task :: "u64 \<Rightarrow> int \<Rightarrow> sched_state \<Rightarrow> sched_state" where
  "exit_task pid code s = s\<lparr>TASK_LIST_CHIRHO := update_task pid
     (\<lambda>t. t\<lparr>exit_code_chirho := code, state_chirho := ZombieChirho\<rparr>) (TASK_LIST_CHIRHO s)\<rparr>"

definition wake_child_exit_waitqueue_chirho :: "sig_world \<Rightarrow> sig_world" where
  "wake_child_exit_waitqueue_chirho w =
     (case wake_up_chirho (CHILD_EXIT_WAITQUEUE_CHIRHO w, ksched w) of
        (q, k) \<Rightarrow> w\<lparr>CHILD_EXIT_WAITQUEUE_CHIRHO := q, ksched := k\<rparr>)"

definition terminate_task :: "boot_env \<Rightarrow> u64 \<Rightarrow> u64 \<Rightarrow> int \<Rightarrow> sig_world \<Rightarrow> sig_world" where
  "terminate_task e pid ppid code w =
     (let w1 = w\<lparr>ksched := remove_task_chirho pid (exit_task pid code (ksched w))\<rparr>;
          w2 = wake_child_exit_waitqueue_chirho (deliver_sigchld_chirho ppid pid w1)
      in w2\<lparr>ksched := snd (yield_current_chirho e (ksched w2))\<rparr>)"

definition check_fatal_signals_on_return_chirho :: "boot_env \<Rightarrow> sig_world \<Rightarrow> bool \<times> sig_world" where
  "check_fatal_signals_on_return_chirho e w =
     (case CURRENT_TASK_CHIRHO (ksched w) of None \<Rightarrow> (False, w)
      | Some p \<Rightarrow>
          (case find_task_by_pid_chirho (ksched w) p of None \<Rightarrow> (False, w)
           | Some t \<Rightarrow>
               (case check_fatal_task (sigs w p) (state_chirho t) of
                  (Survives, ts, st) \<Rightarrow>
                    (False, (upd_sigs p (\<lambda>_. ts) w)\<lparr>ksched := set_task_state p st (ksched w)\<rparr>)
                | (Killed signo code, ts, st) \<Rightarrow>
                    (True, terminate_task e p (ppid_chirho t) code (upd_sigs p (\<lambda>_. ts) w)))))"

section \<open>Handlers\<close>

text \<open>The callee-saved registers of the frame, which neither function touches, are left
  out of the record.\<close>

record SyscallFrameChirho =
  frax_chirho :: u64
  frdi_chirho :: u64
  frsi_chirho :: u64
  frdx_chirho :: u64
  fr10_chirho :: u64
  fr8_chirho :: u64
  fr9_chirho :: u64
  frcx_chirho :: u64
  fr11_chirho :: u64
  frsp_chirho :: u64

record RtSigframeChirho =
  sf_restorer_chirho :: u64
  saved_rip_chirho :: u64
  saved_rsp_chirho :: u64
  saved_rax_chirho :: u64
  saved_rcx_chirho :: u64
  saved_r11_chirho :: u64
  saved_rdi_chirho :: u64
  saved_rsi_chirho :: u64
  saved_rdx_chirho :: u64
  old_mask_chirho :: u64
  sf_signo_chirho :: u64

definition sigframe_words :: "RtSigframeChirho \<Rightarrow> u64 list" where
  "sigframe_words f = [sf_restorer_chirho f, saved_rip_chirho f, saved_rsp_chirho f, saved_rax_chirho f,
     saved_rcx_chirho f, saved_r11_chirho f, saved_rdi_chirho f, saved_rsi_chirho f, saved_rdx_chirho f,
     old_mask_chirho f, sf_signo_chirho f]"

definition sigframe_of_bytes :: "bytes \<Rightarrow> RtSigframeChirho" where
  "sigframe_of_bytes bs = \<lparr>sf_restorer_chirho = uc.bytes_word bs 0, saved_rip_chirho = uc.bytes_word bs 1,
     saved_rsp_chirho = uc.bytes_word bs 2, saved_rax_chirho = uc.bytes_word bs 3,
     saved_rcx_chirho = uc.bytes_word bs 4, saved_r11_chirho = uc.bytes_word bs 5,
     saved_rdi_chirho = uc.bytes_word bs 6, saved_rsi_chirho = uc.bytes_word bs 7,
     saved_rdx_chirho = uc.bytes_word bs 8, old_mask_chirho = uc.bytes_word bs 9,
     sf_signo_chirho = uc.bytes_word bs 10\<rparr>"

definition sigframe_rsp :: "u64 \<Rightarrow> u64" where
  "sigframe_rsp rsp = (rsp - 88) AND NOT 0xF"

definition build_sigframe :: "SyscallFrameChirho \<Rightarrow> u64 \<Rightarrow> u64 \<Rightarrow> nat \<Rightarrow> RtSigframeChirho" where
  "build_sigframe f restorer old signo = \<lparr>sf_restorer_chirho = restorer, saved_rip_chirho = frcx_chirho f,
     saved_rsp_chirho = frsp_chirho f, saved_rax_chirho = frax_chirho f, saved_rcx_chirho = frcx_chirho f,
     saved_r11_chirho = fr11_chirho f, saved_rdi_chirho = frdi_chirho f, saved_rsi_chirho = frsi_chirho f,
     saved_rdx_chirho = frdx_chirho f, old_mask_chirho = old, sf_signo_chirho = of_nat signo\<rparr>"

text \<open>The state changes before the frame is written.\<close>

definition begin_handler :: "nat \<Rightarrow> u64 \<Rightarrow> TaskSignalsChirho \<Rightarrow> TaskSignalsChirho" where
  "begin_handler signo hm t =
     (let t1 = dequeue_state signo (t\<lparr>pending_signals_chirho :=
                 pending_signals_chirho t AND NOT (shl_u64 1 signo)\<rparr>)
      in t1\<lparr>signal_state_chirho := (signal_state_chirho t1)\<lparr>blocked_chirho :=
           blocked_chirho (signal_state_chirho t1) OR hm OR shl_u64 1 signo\<rparr>\<rparr>)"

text \<open>The loop over the signal numbers; \<^verbatim>\<open>del\<close> is the deliverable set computed before
  it.\<close>

fun deliver_loop :: "u64 \<Rightarrow> nat list \<Rightarrow> SyscallFrameChirho \<Rightarrow> TaskSignalsChirho \<Rightarrow> umem \<Rightarrow>
    bool \<times> SyscallFrameChirho \<times> TaskSignalsChirho \<times> umem" where
  "deliver_loop del [] f t m = (False, f, t, m)"
| "deliver_loop del (signo # rest) f t m =
     (if del AND shl_u64 1 signo = 0 then deliver_loop del rest f t m
      else case actions_chirho (signal_state_chirho t) ! (signo - 1) of
        HandlerChirho h fl hm restorer \<Rightarrow>
          (case validate_user_range_chirho (sigframe_rsp (frsp_chirho f)) 88 of
             Inl _ \<Rightarrow> deliver_loop del rest f t m
           | Inr _ \<Rightarrow>
               (let t1 = begin_handler signo hm t;
                    rsp = sigframe_rsp (frsp_chirho f);
                    sf = build_sigframe f restorer (blocked_chirho (signal_state_chirho t)) signo
                in case copy_out_opt m rsp (uc.words_bytes (sigframe_words sf)) of
                     None \<Rightarrow> (False, f, t1, m)
                   | Some m' \<Rightarrow> (True, f\<lparr>frdi_chirho := of_nat signo, frcx_chirho := h,
                       frsp_chirho := rsp, fr11_chirho := 0x200\<rparr>, t1, m')))
      | SigIgnoreChirho \<Rightarrow> deliver_loop del rest f (dequeue_state signo (t\<lparr>pending_signals_chirho :=
            pending_signals_chirho t AND NOT (shl_u64 1 signo)\<rparr>)) m
      | SigDefaultChirho \<Rightarrow> deliver_loop del rest f t m)"

definition deliver_one_signal_on_return_chirho ::
  "SyscallFrameChirho \<Rightarrow> TaskSignalsChirho \<Rightarrow> umem \<Rightarrow> bool \<times> SyscallFrameChirho \<times> TaskSignalsChirho \<times> umem" where
  "deliver_one_signal_on_return_chirho f t m =
     (if pending_signals_chirho t = 0 then (False, f, t, m)
      else let del = pending_signals_chirho t AND NOT (blocked_chirho (signal_state_chirho t))
           in if del = 0 then (False, f, t, m)
              else deliver_loop del [1..<Suc MAX_SIGNAL_CHIRHO] f t m)"

text \<open>\<^verbatim>\<open>rt_sigreturn\<close>: the result is the value the system call returns in RAX.\<close>

definition rt_sigreturn :: "SyscallFrameChirho \<Rightarrow> TaskSignalsChirho \<Rightarrow> umem \<Rightarrow>
    u64 \<times> SyscallFrameChirho \<times> TaskSignalsChirho" where
  "rt_sigreturn f t m =
     (let sf = sigframe_of_bytes (read_mem m (frsp_chirho f - 8) 88)
      in (saved_rax_chirho sf,
          f\<lparr>frcx_chirho := saved_rcx_chirho sf, fr11_chirho := saved_r11_chirho sf,
            frsp_chirho := saved_rsp_chirho sf, frdi_chirho := saved_rdi_chirho sf,
            frsi_chirho := saved_rsi_chirho sf, frdx_chirho := saved_rdx_chirho sf\<rparr>,
          t\<lparr>signal_state_chirho := (signal_state_chirho t)\<lparr>blocked_chirho := old_mask_chirho sf\<rparr>\<rparr>))"

text \<open>The return path of a system call: a handler first, then the default actions.\<close>

definition signals_on_return :: "SyscallFrameChirho \<Rightarrow> TaskSignalsChirho \<Rightarrow> umem \<Rightarrow> TaskStateChirho \<Rightarrow>
    fatal_outcome \<times> SyscallFrameChirho \<times> TaskSignalsChirho \<times> umem \<times> TaskStateChirho" where
  "signals_on_return f t m st =
     (case deliver_one_signal_on_return_chirho f t m of (_, f1, t1, m1) \<Rightarrow>
        (case check_fatal_task t1 st of (out, t2, st2) \<Rightarrow> (out, f1, t2, m1, st2)))"

section \<open>The pending set\<close>

text \<open>Mask and queue agree, bit by bit, and a standard signal is queued at most once.
  Signals are 1 to 63: signal 64 shares bit 0 with no signal.\<close>

definition pending_ok :: "PendingSignalsChirho \<Rightarrow> bool" where
  "pending_ok p \<longleftrightarrow>
     (\<forall>si\<in>set (pending_queue_chirho p). 0 < signo_chirho si \<and> signo_chirho si < 64) \<and>
     (\<forall>n<64. bit (pending_mask_chirho p) n \<longleftrightarrow> (\<exists>si\<in>set (pending_queue_chirho p). signo_chirho si = n)) \<and>
     (\<forall>n<SIGRTMIN_CHIRHO. length (filter (\<lambda>si. signo_chirho si = n) (pending_queue_chirho p)) \<le> 1)"

lemma shl_bit: "n < 64 \<Longrightarrow> bit (shl_u64 1 n) k \<longleftrightarrow> k = n"
  by (auto simp: shl_u64_def push_bit_eq_mult bit_exp_iff)

lemma and_shl_zero: "n < 64 \<Longrightarrow> w AND shl_u64 1 n = 0 \<longleftrightarrow> \<not> bit w n"
  by (simp add: shl_u64_def push_bit_eq_mult and_exp_eq_0_iff_not_bit)

lemma pending_ok_new: "pending_ok pending_new_chirho"
  by (simp add: pending_ok_def pending_new_chirho_def)

lemma pending_ok_add:
  assumes "pending_ok p" "0 < signo_chirho info" "signo_chirho info < 64"
  shows "pending_ok (pending_add_chirho info p)"
proof (cases "signo_chirho info < SIGRTMIN_CHIRHO \<and> bit (pending_mask_chirho p) (signo_chirho info)")
  case True
  then show ?thesis using assms by (simp add: pending_add_chirho_def Let_def and_shl_zero)
next
  case False
  then have none: "filter (\<lambda>si. signo_chirho si = signo_chirho info) (pending_queue_chirho p) = []"
    if "signo_chirho info < SIGRTMIN_CHIRHO"
    using that assms(1,3) by (auto simp: pending_ok_def filter_empty_conv)
  have eq: "pending_add_chirho info p = \<lparr>pending_mask_chirho = pending_mask_chirho p OR shl_u64 1 (signo_chirho info),
      pending_queue_chirho = pending_queue_chirho p @ [info]\<rparr>"
    using False assms(3) unfolding pending_add_chirho_def Let_def and_shl_zero [OF assms(3)] by argo
  have "bit (pending_mask_chirho p OR shl_u64 1 (signo_chirho info)) n \<longleftrightarrow>
      (\<exists>si\<in>set (pending_queue_chirho p @ [info]). signo_chirho si = n)" if "n < 64" for n
    using assms(1,3) that by (auto simp: pending_ok_def bit_or_iff shl_bit)
  moreover have "length (filter (\<lambda>si. signo_chirho si = n) (pending_queue_chirho p @ [info])) \<le> 1"
    if "n < SIGRTMIN_CHIRHO" for n
    using assms(1) none that by (cases "signo_chirho info = n") (simp_all add: pending_ok_def)
  moreover have "\<forall>si\<in>set (pending_queue_chirho p @ [info]). 0 < signo_chirho si \<and> signo_chirho si < 64"
    using assms by (simp add: pending_ok_def)
  ultimately show ?thesis by (simp add: eq pending_ok_def)
qed

lemma filter_remove_at_le: "length (filter P (remove_at i xs)) \<le> length (filter P xs)"
proof -
  have "length (filter P (drop (Suc i) xs)) \<le> length (filter P (drop i xs))"
    by (cases "drop i xs") (simp_all add: drop_Suc tl_drop [symmetric])
  then have "length (filter P (remove_at i xs)) \<le> length (filter P (take i xs @ drop i xs))"
    by (simp add: remove_at_def del: append_take_drop_id)
  then show ?thesis by simp
qed

lemma set_remove_at_other:
  "position (\<lambda>x. f x = n) xs = Some i \<Longrightarrow> x \<in> set xs \<Longrightarrow> f x \<noteq> n \<Longrightarrow> x \<in> set (remove_at i xs)"
proof (induction xs arbitrary: i)
  case (Cons a xs)
  then show ?case by (auto simp: remove_at_def split: if_splits)
qed simp

lemma pending_ok_dequeue:
  assumes "pending_ok p" "0 < n" "n < 64"
  shows "pending_ok (snd (pending_dequeue_chirho n p))"
proof (cases "position (\<lambda>si. signo_chirho si = n) (pending_queue_chirho p)")
  case None
  then have no: "\<forall>si\<in>set (pending_queue_chirho p). signo_chirho si \<noteq> n" by (simp add: position_None_iff)
  have "pending_mask_chirho p AND NOT (shl_u64 1 n) = pending_mask_chirho p"
    using assms no by (intro bit_eqI) (auto simp: bit_simps shl_bit pending_ok_def)
  then show ?thesis using None assms(1) by (simp add: pending_dequeue_chirho_def Let_def)
next
  case (Some i)
  define q where "q = remove_at i (pending_queue_chirho p)"
  have sub: "set q \<subseteq> set (pending_queue_chirho p)" by (simp add: q_def set_remove_at_subset)
  have keep: "si \<in> set q" if "si \<in> set (pending_queue_chirho p)" "signo_chirho si \<noteq> n" for si
    using set_remove_at_other [OF Some] that by (simp add: q_def)
  have len: "length (filter P q) \<le> length (filter P (pending_queue_chirho p))" for P
    by (simp add: q_def filter_remove_at_le)
  have eq: "snd (pending_dequeue_chirho n p) = \<lparr>pending_mask_chirho = (if \<exists>si\<in>set q. signo_chirho si = n
      then pending_mask_chirho p else pending_mask_chirho p AND NOT (shl_u64 1 n)), pending_queue_chirho = q\<rparr>"
    using Some by (simp add: pending_dequeue_chirho_def Let_def q_def)
  have "bit (if \<exists>si\<in>set q. signo_chirho si = n then pending_mask_chirho p
      else pending_mask_chirho p AND NOT (shl_u64 1 n)) k \<longleftrightarrow> (\<exists>si\<in>set q. signo_chirho si = k)"
    if "k < 64" for k
  proof (cases "k = n")
    case True
    then show ?thesis using assms(1,3) sub by (auto simp: pending_ok_def bit_simps shl_bit)
  next
    case False
    then have "(\<exists>si\<in>set q. signo_chirho si = k) \<longleftrightarrow> (\<exists>si\<in>set (pending_queue_chirho p). signo_chirho si = k)"
      using sub keep by blast
    then show ?thesis using assms(1,3) that False by (auto simp: pending_ok_def bit_simps shl_bit)
  qed
  then show ?thesis
    unfolding eq pending_ok_def using assms(1) sub len [THEN order_trans]
    by (auto simp: pending_ok_def)
qed

text \<open>C37. The pending set of a task is consistent under every sequence of sends and
  dequeues: a mask bit is set exactly when an entry for that signal is queued, a
  standard signal is queued at most once, and dequeueing a pending signal returns
  its oldest entry.\<close>

theorem pending_set_consistent:
  assumes "pending_ok p" "0 < n" "n < 64" "0 < signo_chirho info" "signo_chirho info < 64"
  shows "pending_ok (pending_add_chirho info p) \<and> pending_ok (snd (pending_dequeue_chirho n p)) \<and>
    fst (pending_dequeue_chirho n p) = find (\<lambda>si. signo_chirho si = n) (pending_queue_chirho p) \<and>
    bit (pending_mask_chirho (pending_add_chirho info p)) (signo_chirho info)"
proof -
  have "pending_ok (pending_add_chirho info p)" using assms by (intro pending_ok_add)
  moreover have "pending_ok (snd (pending_dequeue_chirho n p))" using assms by (intro pending_ok_dequeue)
  moreover have "fst (pending_dequeue_chirho n p) = find (\<lambda>si. signo_chirho si = n) (pending_queue_chirho p)"
  proof -
    have "(case position P xs of Some i \<Rightarrow> Some (xs ! i) | None \<Rightarrow> None) = find P xs"
      for P and xs :: "SignalInfoChirho list"
      by (induction xs) (auto split: option.splits)
    then show ?thesis
      by (simp add: pending_dequeue_chirho_def Let_def option.case_distrib [of fst] cong: option.case_cong)
  qed
  moreover have "bit (pending_mask_chirho (pending_add_chirho info p)) (signo_chirho info)"
    using assms(5) by (auto simp: pending_add_chirho_def Let_def and_shl_zero bit_simps shl_bit)
  ultimately show ?thesis by blast
qed

section \<open>Blocking and default delivery\<close>


lemma lowest_bit_spec:
  assumes "x \<noteq> 0"
  shows "lowest_bit x < 64 \<and> bit x (lowest_bit x) \<and> (\<forall>j<lowest_bit x. \<not> bit x j)"
proof -
  have "\<exists>n<64. bit x n"
  proof (rule ccontr)
    assume "\<not> (\<exists>n<64. bit x n)"
    then have "\<not> bit x n" for n using bit_imp_le_length [of x n] by auto
    then show False using assms by (metis bit_eqI bit_0_eq bot_apply bot_bool_def)
  qed
  then obtain n where n: "find (bit x) [0..<64] = Some n"
    by (metis atLeastLessThan_iff find_None_iff not_None_eq set_upt zero_le)
  moreover from this have "n < 64 \<and> bit x n \<and> (\<forall>j<n. \<not> bit x j)"
    by (auto simp: find_Some_iff)
  ultimately show ?thesis by (simp add: lowest_bit_def)
qed












text \<open>The mask \<^verbatim>\<open>blocked_chirho\<close> can hold both signals all the same: a handler's mask is added to
  it unfiltered, and \<^verbatim>\<open>rt_sigreturn\<close> takes it from a frame in user memory.  It is read only
  where handlers are chosen, and these two have none.\<close>

lemma handler_mask_unfiltered:
  "bit hm k \<Longrightarrow> bit (blocked_chirho (signal_state_chirho (begin_handler signo hm t))) k"
  by (simp add: begin_handler_def dequeue_state_def Let_def bit_simps)

lemma sigreturn_mask_unfiltered:
  "blocked_chirho (signal_state_chirho (snd (snd (rt_sigreturn f t m)))) =
     old_mask_chirho (sigframe_of_bytes (read_mem m (frsp_chirho f - 8) 88))"
  by (simp add: rt_sigreturn_def Let_def)

section \<open>Handler frames\<close>

lemma words_bytes_sigframe: "length (uc.words_bytes (sigframe_words sf)) = 88"
  by (simp add: sigframe_words_def)

lemma sigframe_round_trip: "sigframe_of_bytes (uc.words_bytes (sigframe_words sf)) = sf"
proof -
  have "uc.bytes_word (uc.words_bytes (sigframe_words sf)) i = sigframe_words sf ! i" if "i < 11" for i
    using that by (intro uc.bytes_word_words) (simp add: sigframe_words_def)
  then show ?thesis by (simp add: sigframe_of_bytes_def sigframe_words_def)
qed

text \<open>Where the frame goes: aligned, and entirely below the stack pointer, since a range
  that wraps is refused.\<close>

lemma sigframe_below:
  assumes "validate_user_range_chirho (sigframe_rsp sp) 88 = Inr ()"
  shows "sigframe_rsp sp AND 0xF = 0" "unat (sigframe_rsp sp) + 88 \<le> unat sp"
proof -
  have m: "(0xF :: u64) = mask 4" by (simp add: mask_eq_exp_minus_1)
  have u: "unat (sigframe_rsp sp) = unat (sp - 88) div 16 * 16"
    unfolding sigframe_rsp_def m using unat_and_not_mask [of "sp - 88" 4] by simp
  have al: "(x AND NOT y) AND y = 0" for x y :: u64 by (rule bit_eqI) (auto simp: bit_simps)
  then show "sigframe_rsp sp AND 0xF = 0" unfolding sigframe_rsp_def by this
  have "sigframe_rsp sp \<le> USER_SPACE_MAX_CHIRHO"
    using assms by (auto simp: validate_user_range_chirho_def split: if_splits)
  then have low: "unat (sp - 88) div 16 * 16 \<le> 0x7FFFFFFFFFFF"
    using u by (simp add: word_le_nat_alt USER_SPACE_MAX_CHIRHO_def)
  have "88 \<le> sp"
  proof (rule ccontr)
    assume "\<not> 88 \<le> sp"
    then have "unat (sp - 88) = 2 ^ 64 - 88 + unat sp"
      by (simp add: unat_sub_if_size word_size word_le_nat_alt)
    then show False using low by simp
  qed
  then have "unat (sp - 88) = unat sp - 88" "88 \<le> unat sp" by (simp_all add: unat_sub word_le_nat_alt)
  then show "unat (sigframe_rsp sp) + 88 \<le> unat sp"
    using u div_times_less_eq_dividend [of "unat (sp - 88)" 16] by linarith
qed

definition delivered :: "u64 \<Rightarrow> SyscallFrameChirho \<Rightarrow> TaskSignalsChirho \<Rightarrow> umem \<Rightarrow> nat \<Rightarrow>
    SyscallFrameChirho \<Rightarrow> TaskSignalsChirho \<Rightarrow> umem \<Rightarrow> bool" where
  "delivered del f t m signo f' t' m' \<longleftrightarrow> del AND shl_u64 1 signo \<noteq> 0 \<and>
     validate_user_range_chirho (sigframe_rsp (frsp_chirho f)) 88 = Inr () \<and>
     pending_signals_chirho t' AND shl_u64 1 signo = 0 \<and> (\<exists>h fl hm r.
     actions_chirho (signal_state_chirho t) ! (signo - 1) = HandlerChirho h fl hm r \<and>
     blocked_chirho (signal_state_chirho t') = blocked_chirho (signal_state_chirho t) OR hm OR shl_u64 1 signo \<and>
     f' = f\<lparr>frdi_chirho := of_nat signo, frcx_chirho := h, frsp_chirho := sigframe_rsp (frsp_chirho f),
       fr11_chirho := 0x200\<rparr> \<and>
     copy_out_opt m (sigframe_rsp (frsp_chirho f)) (uc.words_bytes (sigframe_words
       (build_sigframe f r (blocked_chirho (signal_state_chirho t)) signo))) = Some m')"

lemma delivered_cong:
  "actions_chirho (signal_state_chirho t1) = actions_chirho (signal_state_chirho t) \<Longrightarrow>
   blocked_chirho (signal_state_chirho t1) = blocked_chirho (signal_state_chirho t) \<Longrightarrow>
   delivered del f t1 m n f' t' m' = delivered del f t m n f' t' m'"
  by (simp add: delivered_def)

lemma begin_handler_fields:
  "pending_signals_chirho (begin_handler signo hm t) AND shl_u64 1 signo = 0"
  "blocked_chirho (signal_state_chirho (begin_handler signo hm t)) =
     blocked_chirho (signal_state_chirho t) OR hm OR shl_u64 1 signo"
proof -
  have al: "(x AND NOT y) AND y = 0" for x y :: u64 by (rule bit_eqI) (auto simp: bit_simps)
  show "pending_signals_chirho (begin_handler signo hm t) AND shl_u64 1 signo = 0"
    "blocked_chirho (signal_state_chirho (begin_handler signo hm t)) =
     blocked_chirho (signal_state_chirho t) OR hm OR shl_u64 1 signo"
    by (simp_all add: begin_handler_def dequeue_state_def Let_def al)
qed

lemma deliver_loop_delivered:
  assumes "deliver_loop del ns f t m = (True, f', t', m')"
  shows "\<exists>n\<in>set ns. delivered del f t m n f' t' m'"
  using assms
proof (induction ns arbitrary: t)
  case (Cons signo ns)
  let ?i = "dequeue_state signo (t\<lparr>pending_signals_chirho := pending_signals_chirho t AND NOT (shl_u64 1 signo)\<rparr>)"
  consider (skip) "deliver_loop del ns f t m = (True, f', t', m')"
    | (ign) "deliver_loop del ns f ?i m = (True, f', t', m')"
    | (hit) "delivered del f t m signo f' t' m'"
    using Cons.prems
    by (auto simp: Let_def delivered_def begin_handler_fields split: if_splits SignalActionChirho.splits sum.splits option.splits)
  then show ?case
  proof cases
    case skip
    from Cons.IH [OF this] show ?thesis by auto
  next
    case ign
    have "delivered del f ?i m n f' t' m' = delivered del f t m n f' t' m'" for n
      by (rule delivered_cong) (simp_all add: dequeue_state_def)
    with Cons.IH [OF ign] show ?thesis by auto
  next
    case hit
    then show ?thesis by simp
  qed
qed simp

text \<open>C33. Delivering a signal to a handler and returning from it.  When a handler frame is
  delivered, it is for a pending signal \<^verbatim>\<open>n\<close> that is not blocked and has a handler;
  execution is redirected to the handler with \<^verbatim>\<open>n\<close> in RDI and the stack pointer at a
  16-byte aligned frame that lies entirely below the old stack pointer; \<^verbatim>\<open>n\<close> is no longer
  pending, and it and the handler's mask are added to the blocked mask.  When the
  handler returns through the restorer (stack pointer one word above the frame, the
  frame intact), \<^verbatim>\<open>rt_sigreturn\<close> restores the instruction pointer, stack pointer, flags, RDI,
  RSI, RDX, the value in RAX and the blocked mask from before delivery.  R8, R9 and R10
  are not saved: they keep what the handler left in them.\<close>

theorem handler_round_trip:
  assumes "deliver_one_signal_on_return_chirho f t m = (True, f', t', m')"
    and "frsp_chirho g = frsp_chirho f' + 8"
    and "read_mem m2 (frsp_chirho f') 88 = read_mem m' (frsp_chirho f') 88"
  shows "(\<exists>n h fl hm r. 1 \<le> n \<and> n \<le> MAX_SIGNAL_CHIRHO \<and>
      actions_chirho (signal_state_chirho t) ! (n - 1) = HandlerChirho h fl hm r \<and>
      (pending_signals_chirho t AND NOT (blocked_chirho (signal_state_chirho t))) AND shl_u64 1 n \<noteq> 0 \<and>
      pending_signals_chirho t' AND shl_u64 1 n = 0 \<and>
      blocked_chirho (signal_state_chirho t') = blocked_chirho (signal_state_chirho t) OR hm OR shl_u64 1 n \<and>
      f' = f\<lparr>frdi_chirho := of_nat n, frcx_chirho := h, frsp_chirho := frsp_chirho f', fr11_chirho := 0x200\<rparr>) \<and>
    frsp_chirho f' AND 0xF = 0 \<and> unat (frsp_chirho f') + 88 \<le> unat (frsp_chirho f) \<and>
    rt_sigreturn g t2 m2 = (frax_chirho f,
      g\<lparr>frcx_chirho := frcx_chirho f, fr11_chirho := fr11_chirho f, frsp_chirho := frsp_chirho f,
        frdi_chirho := frdi_chirho f, frsi_chirho := frsi_chirho f, frdx_chirho := frdx_chirho f\<rparr>,
      t2\<lparr>signal_state_chirho := (signal_state_chirho t2)\<lparr>blocked_chirho :=
        blocked_chirho (signal_state_chirho t)\<rparr>\<rparr>)"
proof -
  let ?del = "pending_signals_chirho t AND NOT (blocked_chirho (signal_state_chirho t))"
  have "deliver_loop ?del [1..<Suc MAX_SIGNAL_CHIRHO] f t m = (True, f', t', m')"
    using assms(1) by (simp add: deliver_one_signal_on_return_chirho_def Let_def del: upt_Suc split: if_splits)
  from deliver_loop_delivered [OF this] obtain n
    where n: "n \<in> set [1..<Suc MAX_SIGNAL_CHIRHO]" "delivered ?del f t m n f' t' m'" by blast
  then have n64: "1 \<le> n" "n \<le> MAX_SIGNAL_CHIRHO" by auto
  note nd = n(2) [unfolded delivered_def]
  then obtain h fl hm r where
    d: "actions_chirho (signal_state_chirho t) ! (n - 1) = HandlerChirho h fl hm r"
      "blocked_chirho (signal_state_chirho t') = blocked_chirho (signal_state_chirho t) OR hm OR shl_u64 1 n"
      "f' = f\<lparr>frdi_chirho := of_nat n, frcx_chirho := h, frsp_chirho := sigframe_rsp (frsp_chirho f),
        fr11_chirho := 0x200\<rparr>"
    and c: "copy_out_opt m (sigframe_rsp (frsp_chirho f)) (uc.words_bytes (sigframe_words
        (build_sigframe f r (blocked_chirho (signal_state_chirho t)) n))) = Some m'"
    by blast
  let ?sf = "build_sigframe f r (blocked_chirho (signal_state_chirho t)) n"
  have sp: "frsp_chirho f' = sigframe_rsp (frsp_chirho f)" using d(3) by simp
  have "copy_in_opt m' (frsp_chirho f') 88 = Some (uc.words_bytes (sigframe_words ?sf))"
    using uc.out_in [OF c, of 88] words_bytes_sigframe [of ?sf] sp by simp
  then have "read_mem m' (frsp_chirho f') 88 = uc.words_bytes (sigframe_words ?sf)"
    by (auto simp: copy_in_opt_def copy_from_user_chirho_def split: sum.splits if_splits)
  then have sf: "sigframe_of_bytes (read_mem m2 (frsp_chirho g - 8) 88) = ?sf"
    using assms(2,3) by (simp add: sigframe_round_trip)
  have ret: "rt_sigreturn g t2 m2 = (frax_chirho f,
      g\<lparr>frcx_chirho := frcx_chirho f, fr11_chirho := fr11_chirho f, frsp_chirho := frsp_chirho f,
        frdi_chirho := frdi_chirho f, frsi_chirho := frsi_chirho f, frdx_chirho := frdx_chirho f\<rparr>,
      t2\<lparr>signal_state_chirho := (signal_state_chirho t2)\<lparr>blocked_chirho :=
        blocked_chirho (signal_state_chirho t)\<rparr>\<rparr>)"
    unfolding rt_sigreturn_def sf by (simp add: Let_def build_sigframe_def)
  have below: "frsp_chirho f' AND 0xF = 0" "unat (frsp_chirho f') + 88 \<le> unat (frsp_chirho f)"
    unfolding sp using sigframe_below nd by blast+
  show ?thesis using n64 nd d(1,2) d(3) [folded sp] below ret by blast
qed

section \<open>A signal lost between handler delivery and default delivery\<close>

text \<open>The check for default actions takes the signal off the pending word before it
  looks at the disposition, and gives a signal with a handler back to nobody.\<close>

lemma check_fatal_drops_handled:
  assumes "check_pending_signals_chirho t = (Some n, t1)" "pending_signals_chirho t \<noteq> 0"
    "n - 1 < MAX_SIGNAL_CHIRHO" "actions_chirho (signal_state_chirho t) ! (n - 1) = HandlerChirho h fl hm r"
  shows "check_fatal_task t st = (Survives, t1, st) \<and> \<not> bit (pending_signals_chirho t1) n"
proof -
  have "signal_state_chirho t1 = signal_state_chirho t" "n < 64"
    "pending_signals_chirho t1 = pending_signals_chirho t AND NOT (shl_u64 1 n)"
    using assms(1) lowest_bit_spec
    by (auto simp: check_pending_signals_chirho_def Let_def split: if_splits)
  then show ?thesis
    using assms by (simp add: check_fatal_task_def Let_def bit_simps shl_bit)
qed

text \<open>A task with handlers for two pending signals loses one of them.  On the way back
  to user space the first is delivered to its handler; the check for fatal signals
  that follows then clears the pending bit of the second and returns, so nothing
  will ever deliver it.\<close>

theorem second_handled_signal_lost:
  assumes "deliver_one_signal_on_return_chirho f t m = (True, f1, t1, m1)"
    and "check_pending_signals_chirho t1 = (Some n, t2)" "0 < n"
    and "actions_chirho (signal_state_chirho t1) ! (n - 1) = HandlerChirho h fl hm r"
  shows "bit (pending_signals_chirho t1) n \<and>
    signals_on_return f t m st = (Survives, f1, t2, m1, st) \<and> \<not> bit (pending_signals_chirho t2) n"
proof -
  have nz: "pending_signals_chirho t1 AND (NOT (signal_mask_chirho t1) OR UNBLOCKABLE_MASK_CHIRHO) \<noteq> 0"
    and n: "n = lowest_bit (pending_signals_chirho t1 AND (NOT (signal_mask_chirho t1) OR UNBLOCKABLE_MASK_CHIRHO))"
    using assms(2) by (auto simp: check_pending_signals_chirho_def Let_def split: if_splits)
  have b: "bit (pending_signals_chirho t1) n" "n < 64" using lowest_bit_spec [OF nz] n by (auto simp: bit_and_iff)
  then have "pending_signals_chirho t1 \<noteq> 0" by auto
  from check_fatal_drops_handled [OF assms(2) this _ assms(4)]
  show ?thesis using b assms(1,3) by (simp add: signals_on_return_def sig_consts)
qed

section \<open>Further consequences\<close>

text \<open>A sleeping task that is sent a signal becomes ready but is not put back on the run
  queue, in contrast to \<^verbatim>\<open>deliver_sigchld_chirho\<close>; it runs again only when its own event
  wakes it.\<close>

lemma send_signal_keeps_run_queue:
  "SCHEDULER_CHIRHO (ksched (snd (send_signal_chirho p n w))) = SCHEDULER_CHIRHO (ksched w)"
  by (simp add: send_signal_chirho_def Let_def set_task_state_def upd_sigs_def split: option.split)

text \<open>Signal 64 is accepted and uses bit 0, which is reported as signal 0.\<close>

lemma signal_64_uses_bit_0: "shl_u64 1 64 = 1"
  by (simp add: shl_u64_def)

text \<open>Reading back an installed disposition gives the same structure, except that a
  default or ignored one loses its flags.\<close>

lemma sa_round_trip:
  "sa_to_action (action_to_sa (sa_to_action sa)) = sa_to_action sa"
  by (simp add: sa_to_action_def action_to_sa_def sigaction_default_chirho_def)

lemma sa_bytes_round_trip: "sa_of_bytes (sa_bytes sa) = sa"
  by (simp add: sa_of_bytes_def sa_bytes_def uc.bytes_word_words)

section \<open>Concrete signals\<close>

definition demo_info :: "nat \<Rightarrow> SignalInfoChirho" where
  "demo_info n = \<lparr>signo_chirho = n, code_chirho = 0, sender_pid_chirho = 3\<rparr>"

definition demo_sigs :: TaskSignalsChirho where
  "demo_sigs = \<lparr>signal_mask_chirho = 0, pending_signals_chirho = 0x1400,
     signal_state_chirho = \<lparr>blocked_chirho = 0,
       pending_chirho = \<lparr>pending_mask_chirho = 0x1400, pending_queue_chirho = [demo_info 10, demo_info 12]\<rparr>,
       actions_chirho = (replicate 64 SigDefaultChirho)[9 := HandlerChirho 0x401000 0 0 0x402000,
         11 := HandlerChirho 0x403000 0 0 0x402000]\<rparr>\<rparr>"

definition demo_frame :: SyscallFrameChirho where
  "demo_frame = \<lparr>frax_chirho = 1, frdi_chirho = 2, frsi_chirho = 3, frdx_chirho = 4, fr10_chirho = 5,
     fr8_chirho = 6, fr9_chirho = 7, frcx_chirho = 0x400100, fr11_chirho = 0x246, frsp_chirho = 0x7008\<rparr>"

lemma deliver_loop_skip:
  "\<forall>n\<in>set pre. del AND shl_u64 1 n = 0 \<Longrightarrow> deliver_loop del (pre @ ns) f t m = deliver_loop del ns f t m"
  by (induction pre) auto

definition demo_delivery :: "bool \<times> SyscallFrameChirho \<times> TaskSignalsChirho \<times> umem" where
  "demo_delivery = deliver_one_signal_on_return_chirho demo_frame demo_sigs (\<lambda>_. 0)"

lemma demo_action: "actions_chirho (signal_state_chirho demo_sigs) ! 9 = HandlerChirho 0x401000 0 0 0x402000"
  by (simp add: demo_sigs_def)

lemma demo_delivered:
  "\<exists>m'. demo_delivery = (True, demo_frame\<lparr>frdi_chirho := 10, frcx_chirho := 0x401000,
     frsp_chirho := 0x6FB0, fr11_chirho := 0x200\<rparr>, begin_handler 10 0 demo_sigs, m')"
proof -
  have split: "[1..<Suc MAX_SIGNAL_CHIRHO] = [1..<10] @ 10 # [11..<65]"
    by (simp add: sig_consts upt_rec)
  have low: "\<forall>n\<in>set [1..<10]. (0x1400 :: u64) AND shl_u64 1 n = 0"
    by (simp add: upt_rec shl_u64_def)
  have rsp: "sigframe_rsp (frsp_chirho demo_frame) = 0x6FB0"
    by (simp add: sigframe_rsp_def demo_frame_def)
  have val: "validate_user_range_chirho 0x6FB0 88 = Inr ()"
    by (simp add: validate_user_range_chirho_def is_user_address_chirho_def checked_add_def
        USER_SPACE_MAX_CHIRHO_def)
  then have "copy_out_opt m 0x6FB0 (uc.words_bytes (sigframe_words sf)) =
      Some (write_mem m 0x6FB0 (uc.words_bytes (sigframe_words sf)))" for m sf
    by (simp add: copy_out_opt_def copy_to_user_chirho_def sigframe_words_def)
  moreover have "(0x1400 :: u64) AND shl_u64 1 10 \<noteq> 0" by (simp add: shl_u64_def)
  moreover have p: "pending_signals_chirho demo_sigs = 0x1400" "blocked_chirho (signal_state_chirho demo_sigs) = 0"
    by (simp_all add: demo_sigs_def)
  ultimately have "\<exists>m'. deliver_loop 0x1400 (10 # [11..<65]) demo_frame demo_sigs (\<lambda>_. 0) =
      (True, demo_frame\<lparr>frdi_chirho := 10, frcx_chirho := 0x401000,
       frsp_chirho := 0x6FB0, fr11_chirho := 0x200\<rparr>, begin_handler 10 0 demo_sigs, m')"
    using demo_action by (simp add: rsp val Let_def del: upt_Suc)
  moreover have "demo_delivery = deliver_loop 0x1400 ([1..<10] @ 10 # [11..<65]) demo_frame demo_sigs (\<lambda>_. 0)"
    unfolding demo_delivery_def deliver_one_signal_on_return_chirho_def split p Let_def by simp
  ultimately show ?thesis by (simp only: deliver_loop_skip [OF low])
qed

theorem pending_set_consistent_witness:
  "pending_ok (pending_add_chirho (demo_info 12) (pending_add_chirho (demo_info 10) pending_new_chirho)) \<and>
   fst (pending_dequeue_chirho 10 (pending_add_chirho (demo_info 10) pending_new_chirho)) = Some (demo_info 10)"
proof -
  have ok: "pending_ok (pending_add_chirho (demo_info 10) pending_new_chirho)"
    by (rule pending_ok_add [OF pending_ok_new]) (simp_all add: demo_info_def)
  have "pending_queue_chirho (pending_add_chirho (demo_info 10) pending_new_chirho) = [demo_info 10]"
    by (simp add: pending_add_chirho_def pending_new_chirho_def Let_def)
  then show ?thesis
    using pending_set_consistent [OF ok, of 10 "demo_info 12"] by (simp add: demo_info_def)
qed


theorem handler_round_trip_witness:
  "\<exists>f' t' m'. demo_delivery = (True, f', t', m') \<and> frsp_chirho f' = 0x6FB0 \<and> unat (frsp_chirho f') + 88 \<le> 0x7008 \<and>
     rt_sigreturn (f'\<lparr>frsp_chirho := 0x6FB8, frdi_chirho := 0, frdx_chirho := 99\<rparr>) demo_sigs m' = (1, demo_frame, demo_sigs)"
proof -
  obtain m' where d: "demo_delivery = (True, demo_frame\<lparr>frdi_chirho := 10, frcx_chirho := 0x401000,
     frsp_chirho := 0x6FB0, fr11_chirho := 0x200\<rparr>, begin_handler 10 0 demo_sigs, m')"
    using demo_delivered by blast
  let ?f = "demo_frame\<lparr>frdi_chirho := 10, frcx_chirho := 0x401000, frsp_chirho := 0x6FB0, fr11_chirho := 0x200\<rparr>"
  have "unat (frsp_chirho ?f) + 88 \<le> unat (frsp_chirho demo_frame) \<and>
      rt_sigreturn (?f\<lparr>frsp_chirho := 0x6FB8, frdi_chirho := 0, frdx_chirho := 99\<rparr>) demo_sigs m' = (1, demo_frame, demo_sigs)"
    using handler_round_trip [OF d [unfolded demo_delivery_def], of "?f\<lparr>frsp_chirho := 0x6FB8, frdi_chirho := 0, frdx_chirho := 99\<rparr>" m' demo_sigs]
    by (simp add: demo_frame_def demo_sigs_def)
  with d show ?thesis
    by (intro exI [of _ ?f] exI [of _ "begin_handler 10 0 demo_sigs"] exI [of _ m'] conjI) (simp_all add: demo_frame_def)
qed

theorem second_handled_signal_lost_witness:
  "\<exists>f1 t2 m1. signals_on_return demo_frame demo_sigs (\<lambda>_. 0) RunningChirho = (Survives, f1, t2, m1, RunningChirho) \<and>
     \<not> bit (pending_signals_chirho t2) 12"
proof -
  obtain m' where d: "demo_delivery = (True, demo_frame\<lparr>frdi_chirho := 10, frcx_chirho := 0x401000,
     frsp_chirho := 0x6FB0, fr11_chirho := 0x200\<rparr>, begin_handler 10 0 demo_sigs, m')"
    using demo_delivered by blast
  let ?t = "begin_handler 10 0 demo_sigs"
  have t: "pending_signals_chirho ?t = 0x1000" "signal_mask_chirho ?t = 0"
    "actions_chirho (signal_state_chirho ?t) ! 11 = HandlerChirho 0x403000 0 0 0x402000"
    by (simp_all add: begin_handler_def dequeue_state_def demo_sigs_def Let_def shl_u64_def)
  have "lowest_bit 0x1000 = 12" by (simp add: lowest_bit_def upt_rec)
  then have c: "check_pending_signals_chirho ?t = (Some 12, snd (check_pending_signals_chirho ?t))"
    by (simp add: check_pending_signals_chirho_def Let_def t)
  from second_handled_signal_lost [OF d [unfolded demo_delivery_def] c, of "0x403000" 0 0 "0x402000" RunningChirho] t(3)
  show ?thesis by auto
qed

end
