(* ===== verification/Inet_Checksum.thy ===== *)
theory Inet_Checksum
  imports Rust_Prelude
begin

unbundle bit_operations_syntax

text \<open>
  Network byte order and the Internet checksum of
  \<^verbatim>\<open>net_core_chirho.rs\<close>: \<^verbatim>\<open>to_be_bytes\<close> and \<^verbatim>\<open>from_be_bytes\<close> of the 16- and
  32-bit fields, \<^verbatim>\<open>ipv4_checksum_chirho\<close> with its 32-bit accumulator and its
  folding loop, a reference definition over the natural numbers, and the two
  facts the packet formats rest on: a field filled with the checksum makes the
  whole sum verify, and no single corrupted word goes unnoticed.
\<close>

section \<open>Network byte order\<close>

definition u16_be :: "u16 \<Rightarrow> bytes" where
  "u16_be w = [ucast (drop_bit 8 w), ucast w]"

definition u32_be :: "u32 \<Rightarrow> bytes" where
  "u32_be w = [ucast (drop_bit 24 w), ucast (drop_bit 16 w), ucast (drop_bit 8 w), ucast w]"

definition be_u16 :: "u8 \<Rightarrow> u8 \<Rightarrow> u16" where
  "be_u16 a b = push_bit 8 (ucast a) OR ucast b"

definition be_u32 :: "u8 \<Rightarrow> u8 \<Rightarrow> u8 \<Rightarrow> u8 \<Rightarrow> u32" where
  "be_u32 a b c d =
     push_bit 24 (ucast a) OR push_bit 16 (ucast b) OR push_bit 8 (ucast c) OR ucast d"

lemma length_u16_be [simp]: "length (u16_be w) = 2"
  by (simp add: u16_be_def)

lemma length_u32_be [simp]: "length (u32_be w) = 4"
  by (simp add: u32_be_def)

lemma be_u16_u16_be [simp]: "be_u16 (ucast (drop_bit 8 w)) (ucast w) = w"
proof (rule bit_word_eqI)
  fix n assume "n < LENGTH(16)"
  then show "bit (be_u16 (ucast (drop_bit 8 w)) (ucast w)) n = bit w n"
    by (cases "n < 8") (auto simp: be_u16_def bit_simps)
qed

lemma be_u32_u32_be [simp]:
  "be_u32 (ucast (drop_bit 24 w)) (ucast (drop_bit 16 w)) (ucast (drop_bit 8 w)) (ucast w) = w"
proof (rule bit_word_eqI)
  fix n assume "n < LENGTH(32)"
  then show "bit (be_u32 (ucast (drop_bit 24 w)) (ucast (drop_bit 16 w)) (ucast (drop_bit 8 w))
      (ucast w)) n = bit w n"
    by (cases "n < 8"; cases "n < 16"; cases "n < 24") (auto simp: be_u32_def bit_simps)
qed

lemma u16_be_be_u16 [simp]: "u16_be (be_u16 a b) = [a, b]"
proof -
  have "ucast (drop_bit 8 (be_u16 a b)) = a"
    by (rule bit_word_eqI) (auto simp: be_u16_def bit_simps dest: bit_imp_le_length)
  moreover have "ucast (be_u16 a b) = b"
    by (rule bit_word_eqI) (auto simp: be_u16_def bit_simps)
  ultimately show ?thesis by (simp add: u16_be_def)
qed

lemma unat_be_u16: "unat (be_u16 a b) = 256 * unat a + unat b"
proof -
  have "be_u16 a b = push_bit 8 (ucast a) + (ucast b :: u16)"
    unfolding be_u16_def
    by (rule disjunctive_add_eq_or [symmetric], rule bit_word_eqI)
      (auto simp: bit_simps dest: bit_imp_le_length)
  moreover have "unat (push_bit 8 (ucast a :: u16)) = 256 * unat a"
    using unat_less_pow [of a]
    by (simp add: unsigned_push_bit_eq unsigned_ucast_eq push_bit_nat_def take_bit_nat_eq_self)
  moreover have "unat (ucast b :: u16) = unat b"
    using unat_less_pow [of b] by (simp add: unsigned_ucast_eq take_bit_nat_eq_self)
  ultimately show ?thesis
    using unat_less_pow [of a] unat_less_pow [of b]
    by (simp add: unat_word_ariths take_bit_nat_eq_self)
qed

section \<open>The checksum\<close>

text \<open>The summing loop adds big-endian words to a \<^verbatim>\<open>u32\<close>; a last odd byte counts as
  the high half of a word.\<close>

definition be_word :: "u8 \<Rightarrow> u8 \<Rightarrow> u32" where
  "be_word a b = push_bit 8 (ucast a) OR ucast b"

fun checksum_sum :: "u32 \<Rightarrow> bytes \<Rightarrow> u32" where
  "checksum_sum sum_chirho [] = sum_chirho"
| "checksum_sum sum_chirho [a] = sum_chirho + push_bit 8 (ucast a)"
| "checksum_sum sum_chirho (a # b # bs) = checksum_sum (sum_chirho + be_word a b) bs"

lemma take_bit_unat_u32 [simp]: "take_bit 32 (unat (s :: u32)) = unat s"
  using unat_less_pow [of s] by (simp add: take_bit_nat_eq_self)

lemma fold_decreases:
  assumes "drop_bit 16 s \<noteq> (0 :: u32)"
  shows "unat ((s AND 0xFFFF) + drop_bit 16 s) = unat s mod 65536 + unat s div 65536"
proof -
  have low: "unat (s AND 0xFFFF) = unat s mod 65536"
    using unsigned_take_bit_eq [of 16 s, where 'a = nat]
    by (simp add: take_bit_eq_mod [of 16 "unat s"]) (simp add: take_bit_eq_mask mask_eq_exp_minus_1)
  have high: "unat (drop_bit 16 s) = unat s div 65536"
    by (simp add: unsigned_drop_bit_eq drop_bit_nat_def)
  have "unat s div 65536 < 65536" using unat_less_pow [of s] by (simp add: less_mult_imp_div_less)
  then have "unat s mod 65536 + unat s div 65536 < 2 ^ 32"
    using mod_less_divisor [of 65536 "unat s"] by simp
  then show ?thesis
    by (simp add: unat_word_ariths low high take_bit_nat_eq_self)
qed

function checksum_fold :: "u32 \<Rightarrow> u32" where
  "checksum_fold sum_chirho =
     (if drop_bit 16 sum_chirho \<noteq> 0
      then checksum_fold ((sum_chirho AND 0xFFFF) + drop_bit 16 sum_chirho)
      else sum_chirho)"
  by pat_completeness auto

lemma high_half_zero_iff: "drop_bit 16 (s :: u32) = 0 \<longleftrightarrow> unat s < 65536"
  by (simp add: unsigned_drop_bit_eq drop_bit_nat_def div_eq_0_iff take_bit_nat_eq_self
      unat_eq_zero [symmetric] del: unat_eq_zero)

termination checksum_fold
proof (relation "measure unat")
  fix s :: u32
  assume high: "drop_bit 16 s \<noteq> 0"
  then have "65536 \<le> unat s" by (simp add: high_half_zero_iff)
  then have "unat s mod 65536 + unat s div 65536 < unat s"
    using div_mult_mod_eq [of "unat s" 65536] div_greater_zero_iff [of "unat s" 65536]
    by linarith
  then show "((s AND 0xFFFF) + drop_bit 16 s, s) \<in> measure unat"
    by (simp add: fold_decreases [OF high])
qed simp

declare checksum_fold.simps [simp del]

definition ipv4_checksum_chirho :: "bytes \<Rightarrow> u16" where
  "ipv4_checksum_chirho data_chirho = NOT (ucast (checksum_fold (checksum_sum 0 data_chirho)))"

section \<open>A reference: ones-complement sums of natural numbers\<close>

fun words_sum :: "bytes \<Rightarrow> nat" where
  "words_sum [] = 0"
| "words_sum [a] = 256 * unat a"
| "words_sum (a # b # bs) = 256 * unat a + unat b + words_sum bs"

definition ones_complement :: "nat \<Rightarrow> nat" where
  "ones_complement n = (if n = 0 then 0 else (n - 1) mod 65535 + 1)"

lemma words_sum_append: "even (length xs) \<Longrightarrow> words_sum (xs @ ys) = words_sum xs + words_sum ys"
  by (induction xs rule: words_sum.induct) simp_all

lemma words_sum_bound: "words_sum bs \<le> 65535 * ((length bs + 1) div 2)"
proof (induction bs rule: words_sum.induct)
  case (2 a)
  then show ?case using unat_less_pow [of a] by simp
next
  case (3 a b bs)
  have "256 * unat a + unat b \<le> 65535"
    using unat_less_pow [of a] unat_less_pow [of b] by simp
  with 3 show ?case by simp
qed simp

lemma unat_be_word: "unat (be_word a b) = 256 * unat a + unat b"
proof -
  have "be_word a b = ucast (be_u16 a b)"
    by (rule bit_word_eqI) (auto simp: be_word_def be_u16_def bit_simps dest: bit_imp_le_length)
  then show ?thesis
    using unat_less_pow [of "be_u16 a b"]
    by (simp add: unsigned_ucast_eq take_bit_nat_eq_self unat_be_u16)
qed

lemma unat_checksum_sum:
  "unat s + words_sum bs < 2 ^ 32 \<Longrightarrow> unat (checksum_sum s bs) = unat s + words_sum bs"
proof (induction s bs rule: checksum_sum.induct)
  case (2 s a)
  have "push_bit 8 (ucast a) = be_word a 0" by (simp add: be_word_def)
  with 2 show ?case
    by (simp add: unat_word_ariths unat_be_word take_bit_nat_eq_self)
next
  case (3 s a b bs)
  then have "unat (s + be_word a b) = unat s + (256 * unat a + unat b)"
    by (simp add: unat_word_ariths unat_be_word take_bit_nat_eq_self)
  with 3 show ?case by simp
qed simp

lemma ones_complement_fold:
  "65536 \<le> n \<Longrightarrow> ones_complement (n mod 65536 + n div 65536) = ones_complement n"
proof -
  assume big: "65536 \<le> n"
  define h l where "h = n div 65536" and "l = n mod 65536"
  have n: "n = 65536 * h + l" and h: "0 < h"
    using big by (auto simp: h_def l_def div_greater_zero_iff)
  have "n - 1 = (h + l - 1) + 65535 * h" using n h by simp
  then have "(n - 1) mod 65535 = (h + l - 1) mod 65535" by simp
  moreover have "0 < h + l" using h by simp
  ultimately have "ones_complement (l + h) = ones_complement n"
    using big by (simp add: ones_complement_def add.commute)
  then show ?thesis by (simp add: h_def l_def)
qed

lemma unat_checksum_fold: "unat (checksum_fold s) = ones_complement (unat s)"
proof (induction s rule: checksum_fold.induct)
  case (1 s)
  show ?case
  proof (cases "drop_bit 16 s = 0")
    case True
    then have "unat s < 65536" by (simp add: high_half_zero_iff)
    with True show ?thesis
      by (simp add: checksum_fold.simps [of s] ones_complement_def)
  next
    case False
    then have "65536 \<le> unat s" by (simp add: high_half_zero_iff)
    with False 1 show ?thesis
      by (simp add: checksum_fold.simps [of s] fold_decreases ones_complement_fold)
  qed
qed

lemma ones_complement_less: "ones_complement n < 65536"
  using mod_less_divisor [of 65535 "n - 1"] by (simp add: ones_complement_def)

text \<open>Up to 131074 bytes the accumulator does not wrap, and the code computes the
  complement of the ones-complement sum.\<close>

lemma no_wrap: "length bs \<le> 131074 \<Longrightarrow> words_sum bs < 2 ^ 32"
proof -
  assume "length bs \<le> 131074"
  then have "65535 * ((length bs + 1) div 2) \<le> 65535 * 65537" by simp
  then show ?thesis using words_sum_bound [of bs] by simp
qed

lemma unat_not_word: "unat (NOT w :: 'a::len word) = 2 ^ LENGTH('a) - 1 - unat w"
proof -
  have "NOT w = - 1 - w" by (simp add: not_eq_complement)
  then show ?thesis by (simp add: unat_sub unat_minus_one_word)
qed

lemma checksum_reference:
  assumes "length bs \<le> 131074"
  shows "unat (ipv4_checksum_chirho bs) = 65535 - ones_complement (words_sum bs)"
proof -
  have "unat (checksum_fold (checksum_sum 0 bs)) = ones_complement (words_sum bs)"
    using no_wrap [OF assms] by (simp add: unat_checksum_fold unat_checksum_sum)
  then have "unat (ucast (checksum_fold (checksum_sum 0 bs)) :: u16) = ones_complement (words_sum bs)"
    using ones_complement_less [of "words_sum bs"]
    by (simp add: unsigned_ucast_eq take_bit_nat_eq_self)
  then show ?thesis
    by (simp add: ipv4_checksum_chirho_def unat_not_word)
qed

lemma checksum_zero_iff:
  "length bs \<le> 131074 \<Longrightarrow>
     ipv4_checksum_chirho bs = 0 \<longleftrightarrow> 0 < words_sum bs \<and> 65535 dvd words_sum bs"
proof -
  assume len: "length bs \<le> 131074"
  have "ipv4_checksum_chirho bs = 0 \<longleftrightarrow> ones_complement (words_sum bs) = 65535"
    using checksum_reference [OF len] ones_complement_less [of "words_sum bs"]
    by (simp add: unat_eq_zero [symmetric] del: unat_eq_zero) linarith
  also have "\<dots> \<longleftrightarrow> 0 < words_sum bs \<and> 65535 dvd words_sum bs"
  proof (cases "words_sum bs")
    case (Suc m)
    have "m mod 65535 + 1 = 65535 \<longleftrightarrow> Suc m mod 65535 = 0"
      using mod_less_divisor [of 65535 m] by (simp add: mod_Suc)
    then show ?thesis by (simp add: ones_complement_def Suc dvd_eq_mod_eq_0)
  qed (simp add: ones_complement_def)
  finally show ?thesis .
qed

text \<open>Filling the checksum field at an even offset of a message where it was zero.\<close>

lemma checksum_filled:
  assumes even: "even (length pre)" and len: "length (pre @ [0, 0] @ post) \<le> 131074"
  shows "ipv4_checksum_chirho (pre @ u16_be (ipv4_checksum_chirho (pre @ [0, 0] @ post)) @ post) = 0"
proof -
  define c where "c = ipv4_checksum_chirho (pre @ [0, 0] @ post)"
  define S where "S = words_sum (pre @ [0, 0] @ post)"
  have S: "S = words_sum pre + words_sum post"
    using even by (simp add: S_def words_sum_append)
  have "words_sum (u16_be c) = unat c"
    using unat_be_u16 [of "ucast (drop_bit 8 c)" "ucast c"] by (simp add: u16_be_def)
  then have sum: "words_sum (pre @ u16_be c @ post) = S + unat c"
    using even by (simp add: words_sum_append S)
  have c: "unat c = 65535 - ones_complement S"
    unfolding c_def S_def by (rule checksum_reference [OF len])
  have "0 < S + unat c \<and> 65535 dvd S + unat c"
  proof (cases S)
    case 0
    with c show ?thesis by (simp add: ones_complement_def)
  next
    case (Suc m)
    have "S + unat c = 65535 * (m div 65535) + 65535"
    proof -
      have "unat c = 65534 - m mod 65535" using c Suc by (simp add: ones_complement_def)
      moreover have "m mod 65535 \<le> 65534" using mod_less_divisor [of 65535 m] by linarith
      ultimately show ?thesis using Suc div_mult_mod_eq [of m 65535] by linarith
    qed
    then show ?thesis by simp
  qed
  moreover have "length (pre @ u16_be c @ post) \<le> 131074" using len by simp
  ultimately have "ipv4_checksum_chirho (pre @ u16_be c @ post) = 0"
    by (simp only: checksum_zero_iff sum)
  then show ?thesis by (simp only: c_def)
qed

text \<open>A verified message in which one aligned word is replaced by another is rejected,
  except for the two encodings of zero.\<close>

lemma checksum_detects:
  assumes even: "even (length pre)" and len: "length (pre @ [a, b] @ post) \<le> 131074"
    and valid: "ipv4_checksum_chirho (pre @ [a, b] @ post) = 0"
    and other: "be_u16 a b \<noteq> be_u16 a' b'"
    and zeros: "{be_u16 a b, be_u16 a' b'} \<noteq> {0, 0xFFFF}"
  shows "ipv4_checksum_chirho (pre @ [a', b'] @ post) \<noteq> 0"
proof
  assume "ipv4_checksum_chirho (pre @ [a', b'] @ post) = 0"
  then have d': "65535 dvd words_sum pre + (unat (be_u16 a' b') + words_sum post)"
    using even len by (simp add: checksum_zero_iff words_sum_append unat_be_u16)
  have d: "65535 dvd words_sum pre + (unat (be_u16 a b) + words_sum post)"
    using valid even len by (simp add: checksum_zero_iff words_sum_append unat_be_u16)
  define x y where "x = unat (be_u16 a b)" and "y = unat (be_u16 a' b')"
  have less: "x < 65536" "y < 65536"
    using unat_less_pow [of "be_u16 a b"] unat_less_pow [of "be_u16 a' b'"] by (simp_all add: x_def y_def)
  define R where "R = words_sum pre + words_sum post"
  have "(R + x) mod 65535 = 0" "(R + y) mod 65535 = 0"
    using d d' by (simp_all add: R_def x_def y_def dvd_eq_mod_eq_0 ac_simps)
  then have "int ((R + x) mod 65535) = int ((R + y) mod 65535)" by simp
  then have "(int R + int x) mod 65535 = (int R + int y) mod 65535"
    by (simp only: of_nat_mod of_nat_add of_nat_numeral)
  then have "int x mod 65535 = int y mod 65535"
    by (simp add: mod_eq_dvd_iff)
  then have "int (x mod 65535) = int (y mod 65535)" by (simp only: of_nat_mod of_nat_numeral)
  then have "x mod 65535 = y mod 65535" by simp
  moreover have "x \<noteq> y" using other by (simp add: x_def y_def word_unat_eq_iff)
  ultimately consider "x = 0" "y = 65535" | "x = 65535" "y = 0"
    using less by (cases "x = 65535"; cases "y = 65535") auto
  then show False
    using zeros by cases (auto simp: x_def y_def word_unat_eq_iff)
qed

section \<open>Properties\<close>

text \<open>C35. On messages of at most 131074 bytes the 32-bit accumulator of
  \<^verbatim>\<open>ipv4_checksum_chirho\<close> does not wrap and the result is the complement of the
  ones-complement sum of the big-endian words; in particular the checksum is zero
  exactly when the words sum to a positive multiple of 65535.\<close>

theorem checksum_within_bounds:
  assumes "length data_chirho \<le> 131074"
  shows "unat (checksum_sum 0 data_chirho) = words_sum data_chirho
    \<and> unat (ipv4_checksum_chirho data_chirho) = 65535 - ones_complement (words_sum data_chirho)
    \<and> (ipv4_checksum_chirho data_chirho = 0
         \<longleftrightarrow> 0 < words_sum data_chirho \<and> 65535 dvd words_sum data_chirho)"
  using checksum_reference [OF assms] checksum_zero_iff [OF assms] no_wrap [OF assms]
    unat_checksum_sum [of 0 data_chirho] by simp

theorem checksum_within_bounds_witness:
  "unat (ipv4_checksum_chirho [0x45, 0x00, 0xFF]) = 0xFFFF - (0x4500 + 0xFF00 - 0xFFFF)"
  using checksum_within_bounds [of "[0x45, 0x00, 0xFF]"] by (simp add: ones_complement_def)

end
