(* ===== verification/Net_Packet.thy ===== *)
theory Net_Packet
  imports Inet_Checksum
begin

unbundle bit_operations_syntax

text \<open>
  The packet formats of \<^verbatim>\<open>net_core_chirho.rs\<close>: Ethernet frames, IPv4 headers, ARP,
  ICMP, TCP segments and UDP datagrams, each with its \<^verbatim>\<open>parse_chirho\<close> and
  \<^verbatim>\<open>build_chirho\<close>.  A \<^verbatim>\<open>[u8; 6]\<close> hardware address is a byte list, of length six in
  the well-formed values.  What is proved: building and parsing are inverse on
  well-formed values, and what is built carries a checksum that verifies.
\<close>

section \<open>Protocol constants (net_types_chirho.rs)\<close>

definition ETHERTYPE_IPV4_CHIRHO :: u16 where "ETHERTYPE_IPV4_CHIRHO = 0x0800"
definition ETHERTYPE_ARP_CHIRHO :: u16 where "ETHERTYPE_ARP_CHIRHO = 0x0806"
definition IP_PROTO_ICMP_CHIRHO :: u8 where "IP_PROTO_ICMP_CHIRHO = 1"
definition IP_PROTO_TCP_CHIRHO :: u8 where "IP_PROTO_TCP_CHIRHO = 6"
definition IP_PROTO_UDP_CHIRHO :: u8 where "IP_PROTO_UDP_CHIRHO = 17"
definition ARP_HTYPE_ETHERNET_CHIRHO :: u16 where "ARP_HTYPE_ETHERNET_CHIRHO = 1"
definition ARP_OP_REQUEST_CHIRHO :: u16 where "ARP_OP_REQUEST_CHIRHO = 1"
definition ARP_OP_REPLY_CHIRHO :: u16 where "ARP_OP_REPLY_CHIRHO = 2"
definition ICMP_ECHO_REPLY_CHIRHO :: u8 where "ICMP_ECHO_REPLY_CHIRHO = 0"
definition ICMP_ECHO_REQUEST_CHIRHO :: u8 where "ICMP_ECHO_REQUEST_CHIRHO = 8"

lemmas net_const_defs =
  ETHERTYPE_IPV4_CHIRHO_def ETHERTYPE_ARP_CHIRHO_def IP_PROTO_ICMP_CHIRHO_def
  IP_PROTO_TCP_CHIRHO_def IP_PROTO_UDP_CHIRHO_def ARP_HTYPE_ETHERNET_CHIRHO_def
  ARP_OP_REQUEST_CHIRHO_def ARP_OP_REPLY_CHIRHO_def ICMP_ECHO_REPLY_CHIRHO_def
  ICMP_ECHO_REQUEST_CHIRHO_def

lemma mask_consts:
  "(0xF :: u8) = mask 4" "(0x3F :: u8) = mask 6" "(0xFF :: u16) = mask 8" "(0x7 :: u16) = mask 3"
  "(0x1FFF :: u16) = mask 13"
  by (simp_all add: mask_eq_exp_minus_1)

section \<open>Ethernet frames\<close>

record EthernetFrameChirho =
  dst_mac_chirho :: bytes
  src_mac_chirho :: bytes
  ethertype_chirho :: u16
  payload_chirho :: bytes

definition eth_parse_chirho :: "bytes \<Rightarrow> EthernetFrameChirho option" where
  "eth_parse_chirho d =
     (if length d < 14 then None
      else Some \<lparr>dst_mac_chirho = take 6 d, src_mac_chirho = take 6 (drop 6 d),
        ethertype_chirho = be_u16 (d ! 12) (d ! 13), payload_chirho = drop 14 d\<rparr>)"

definition eth_build_chirho :: "EthernetFrameChirho \<Rightarrow> bytes" where
  "eth_build_chirho f =
     dst_mac_chirho f @ src_mac_chirho f @ u16_be (ethertype_chirho f) @ payload_chirho f"

definition wf_frame :: "EthernetFrameChirho \<Rightarrow> bool" where
  "wf_frame f \<longleftrightarrow> length (dst_mac_chirho f) = 6 \<and> length (src_mac_chirho f) = 6"

lemma nth_append_at: "length xs = n \<Longrightarrow> (xs @ y # ys) ! n = y"
  by auto

lemma eth_roundtrip: "wf_frame f \<Longrightarrow> eth_parse_chirho (eth_build_chirho f) = Some f"
  by (auto simp: wf_frame_def eth_parse_chirho_def eth_build_chirho_def u16_be_def nth_append)

lemma eth_parse_wf: "eth_parse_chirho d = Some f \<Longrightarrow> wf_frame f \<and> eth_build_chirho f = d"
proof -
  assume parsed: "eth_parse_chirho d = Some f"
  then have len: "14 \<le> length d" by (auto simp: eth_parse_chirho_def split: if_splits)
  have "drop 12 d = d ! 12 # d ! 13 # drop 14 d"
    using len Cons_nth_drop_Suc [of 12 d] Cons_nth_drop_Suc [of 13 d] by simp
  then have "take 6 (drop 6 d) @ d ! 12 # d ! 13 # drop 14 d = drop 6 d"
    using append_take_drop_id [of 6 "drop 6 d"] by simp
  with parsed len show ?thesis
    by (auto simp: eth_parse_chirho_def wf_frame_def eth_build_chirho_def split: if_splits)
qed

section \<open>IPv4 headers\<close>

record Ipv4HeaderChirho =
  version_chirho :: u8
  ihl_chirho :: u8
  tos_chirho :: u8
  total_length_chirho :: u16
  ip_id_chirho :: u16
  ip_flags_chirho :: u8
  fragment_offset_chirho :: u16
  ttl_chirho :: u8
  protocol_chirho :: u8
  ip_checksum_chirho :: u16
  src_ip_chirho :: u32
  dst_ip_chirho :: u32

definition ipv4_parse_chirho :: "bytes \<Rightarrow> Ipv4HeaderChirho option" where
  "ipv4_parse_chirho d =
     (if length d < 20 then None
      else let version = drop_bit 4 (d ! 0) AND 0xF in
        if version \<noteq> 4 then None
        else let flags_and_frag = be_u16 (d ! 6) (d ! 7) in
          Some \<lparr>version_chirho = version,
            ihl_chirho = d ! 0 AND 0xF,
            tos_chirho = d ! 1,
            total_length_chirho = be_u16 (d ! 2) (d ! 3),
            ip_id_chirho = be_u16 (d ! 4) (d ! 5),
            ip_flags_chirho = ucast (drop_bit 13 flags_and_frag AND 0x7),
            fragment_offset_chirho = flags_and_frag AND 0x1FFF,
            ttl_chirho = d ! 8,
            protocol_chirho = d ! 9,
            ip_checksum_chirho = be_u16 (d ! 10) (d ! 11),
            src_ip_chirho = be_u32 (d ! 12) (d ! 13) (d ! 14) (d ! 15),
            dst_ip_chirho = be_u32 (d ! 16) (d ! 17) (d ! 18) (d ! 19)\<rparr>)"

definition version_and_ihl :: "Ipv4HeaderChirho \<Rightarrow> u8" where
  "version_and_ihl h = push_bit 4 (version_chirho h) OR (ihl_chirho h AND 0xF)"

definition flags_and_frag :: "Ipv4HeaderChirho \<Rightarrow> u16" where
  "flags_and_frag h =
     push_bit 13 (ucast (ip_flags_chirho h) AND 0x7) OR (fragment_offset_chirho h AND 0x1FFF)"

definition ipv4_zeroed :: "Ipv4HeaderChirho \<Rightarrow> bytes" where
  "ipv4_zeroed h =
     [version_and_ihl h, tos_chirho h]
     @ u16_be (total_length_chirho h) @ u16_be (ip_id_chirho h)
     @ u16_be (flags_and_frag h)
     @ [ttl_chirho h, protocol_chirho h] @ [0, 0]
     @ u32_be (src_ip_chirho h) @ u32_be (dst_ip_chirho h)"

definition put_checksum :: "nat \<Rightarrow> u16 \<Rightarrow> bytes \<Rightarrow> bytes" where
  "put_checksum i c buf = (buf[i := ucast (drop_bit 8 c)])[Suc i := ucast (c AND 0xFF)]"

definition ipv4_build_chirho :: "Ipv4HeaderChirho \<Rightarrow> bytes" where
  "ipv4_build_chirho h =
     put_checksum 10 (ipv4_checksum_chirho (ipv4_zeroed h)) (ipv4_zeroed h)"

definition wf_ipv4 :: "Ipv4HeaderChirho \<Rightarrow> bool" where
  "wf_ipv4 h \<longleftrightarrow> version_chirho h = 4 \<and> ihl_chirho h < 16 \<and> ip_flags_chirho h < 8
     \<and> fragment_offset_chirho h < 0x2000"

lemma put_checksum_at:
  "length pre = i \<Longrightarrow> put_checksum i c (pre @ x # y # post) = pre @ u16_be c @ post"
proof -
  have "ucast (c AND 0xFF) = (ucast c :: u8)"
    by (rule bit_word_eqI) (simp add: mask_consts bit_simps)
  then show "length pre = i \<Longrightarrow> ?thesis"
    by (auto simp: put_checksum_def u16_be_def list_update_append)
qed

lemma length_put_checksum [simp]: "length (put_checksum i c buf) = length buf"
  by (simp add: put_checksum_def)

lemma length_ipv4_build [simp]: "length (ipv4_build_chirho h) = 20"
  by (simp add: ipv4_build_chirho_def ipv4_zeroed_def)

lemma version_ihl_byte:
  assumes "wf_ipv4 h"
  shows "drop_bit 4 (version_and_ihl h) AND 0xF = version_chirho h"
    and "version_and_ihl h AND 0xF = ihl_chirho h"
proof -
  have "version_chirho h < 16" "ihl_chirho h < 16" using assms by (simp_all add: wf_ipv4_def)
  then have small: "bit (version_chirho h) n \<Longrightarrow> n < 4" "bit (ihl_chirho h) n \<Longrightarrow> n < 4" for n
    using not_bit_small [of "version_chirho h" 4 n] not_bit_small [of "ihl_chirho h" 4 n]
    by (auto simp: word_less_nat_alt not_le [symmetric])
  show "drop_bit 4 (version_and_ihl h) AND 0xF = version_chirho h"
    using small unfolding version_and_ihl_def mask_consts
    by (intro bit_word_eqI) (auto simp: bit_simps not_le)
  show "version_and_ihl h AND 0xF = ihl_chirho h"
    using small unfolding version_and_ihl_def mask_consts
    by (intro bit_word_eqI) (auto simp: bit_simps not_le)
qed

lemma flags_frag_word:
  assumes "wf_ipv4 h"
  shows "ucast (drop_bit 13 (flags_and_frag h) AND 0x7) = ip_flags_chirho h"
    and "flags_and_frag h AND 0x1FFF = fragment_offset_chirho h"
proof -
  have "ip_flags_chirho h < 8" "fragment_offset_chirho h < 0x2000"
    using assms by (simp_all add: wf_ipv4_def)
  then have small: "bit (ip_flags_chirho h) n \<Longrightarrow> n < 3"
    "bit (fragment_offset_chirho h) n \<Longrightarrow> n < 13" for n
    using not_bit_small [of "ip_flags_chirho h" 3 n] not_bit_small [of "fragment_offset_chirho h" 13 n]
    by (auto simp: word_less_nat_alt not_le [symmetric])
  show "ucast (drop_bit 13 (flags_and_frag h) AND 0x7) = ip_flags_chirho h"
    using small unfolding flags_and_frag_def mask_consts
    by (intro bit_word_eqI) (auto simp: bit_simps not_le)
  show "flags_and_frag h AND 0x1FFF = fragment_offset_chirho h"
    using small unfolding flags_and_frag_def mask_consts
    by (intro bit_word_eqI) (auto simp: bit_simps not_le)
qed

lemma ipv4_zeroed_split: "ipv4_zeroed h = take 10 (ipv4_zeroed h) @ [0, 0] @ drop 12 (ipv4_zeroed h)"
  by (simp add: ipv4_zeroed_def u16_be_def)

lemma ipv4_build_split:
  "ipv4_build_chirho h = take 10 (ipv4_zeroed h) @ u16_be (ipv4_checksum_chirho (ipv4_zeroed h))
     @ drop 12 (ipv4_zeroed h)"
proof -
  have "put_checksum 10 c (take 10 (ipv4_zeroed h) @ [0, 0] @ drop 12 (ipv4_zeroed h))
      = take 10 (ipv4_zeroed h) @ u16_be c @ drop 12 (ipv4_zeroed h)" for c
    using put_checksum_at [of "take 10 (ipv4_zeroed h)" 10] by (simp add: ipv4_zeroed_def)
  then show ?thesis
    unfolding ipv4_build_chirho_def by (simp only: ipv4_zeroed_split [symmetric])
qed

lemma ipv4_header_verifies: "ipv4_checksum_chirho (ipv4_build_chirho h) = 0"
proof -
  let ?z = "ipv4_zeroed h"
  have "ipv4_checksum_chirho (take 10 ?z @ u16_be (ipv4_checksum_chirho (take 10 ?z @ [0, 0] @ drop 12 ?z))
      @ drop 12 ?z) = 0"
    by (rule checksum_filled) (simp_all add: ipv4_zeroed_def)
  then show ?thesis by (simp only: ipv4_zeroed_split [symmetric] ipv4_build_split)
qed

lemma ipv4_roundtrip:
  assumes wf: "wf_ipv4 h"
  shows "ipv4_parse_chirho (ipv4_build_chirho h @ rest)
    = Some (h\<lparr>ip_checksum_chirho := ipv4_checksum_chirho (ipv4_zeroed h)\<rparr>)"
proof -
  define c where "c = ipv4_checksum_chirho (ipv4_zeroed h)"
  have built: "ipv4_build_chirho h @ rest
      = take 10 (ipv4_zeroed h) @ u16_be c @ drop 12 (ipv4_zeroed h) @ rest"
    by (simp add: ipv4_build_split c_def)
  have "version_chirho h = 4" using wf by (simp add: wf_ipv4_def)
  then show ?thesis
    unfolding built c_def [symmetric]
    by (simp add: ipv4_zeroed_def ipv4_parse_chirho_def Let_def u16_be_def u32_be_def
        version_ihl_byte [OF wf] flags_frag_word [OF wf])
qed

section \<open>ARP packets\<close>

record ArpPacketChirho =
  htype_chirho :: u16
  ptype_chirho :: u16
  hlen_chirho :: u8
  plen_chirho :: u8
  operation_chirho :: u16
  sender_ha_chirho :: bytes
  sender_pa_chirho :: u32
  target_ha_chirho :: bytes
  target_pa_chirho :: u32

definition arp_parse_chirho :: "bytes \<Rightarrow> ArpPacketChirho option" where
  "arp_parse_chirho d =
     (if length d < 28 then None
      else Some \<lparr>htype_chirho = be_u16 (d ! 0) (d ! 1), ptype_chirho = be_u16 (d ! 2) (d ! 3),
        hlen_chirho = d ! 4, plen_chirho = d ! 5, operation_chirho = be_u16 (d ! 6) (d ! 7),
        sender_ha_chirho = take 6 (drop 8 d),
        sender_pa_chirho = be_u32 (d ! 14) (d ! 15) (d ! 16) (d ! 17),
        target_ha_chirho = take 6 (drop 18 d),
        target_pa_chirho = be_u32 (d ! 24) (d ! 25) (d ! 26) (d ! 27)\<rparr>)"

definition arp_build_chirho :: "ArpPacketChirho \<Rightarrow> bytes" where
  "arp_build_chirho p =
     u16_be (htype_chirho p) @ u16_be (ptype_chirho p) @ [hlen_chirho p, plen_chirho p]
     @ u16_be (operation_chirho p) @ sender_ha_chirho p @ u32_be (sender_pa_chirho p)
     @ target_ha_chirho p @ u32_be (target_pa_chirho p)"

definition wf_arp :: "ArpPacketChirho \<Rightarrow> bool" where
  "wf_arp p \<longleftrightarrow> length (sender_ha_chirho p) = 6 \<and> length (target_ha_chirho p) = 6"

lemma length_6E:
  assumes "length xs = 6"
  obtains a b c d e f where "xs = [a, b, c, d, e, f]"
  using assms by (auto simp: numeral_eq_Suc length_Suc_conv)

lemma arp_roundtrip: "wf_arp p \<Longrightarrow> arp_parse_chirho (arp_build_chirho p @ padding) = Some p"
  unfolding wf_arp_def
  by (elim conjE length_6E) (simp add: arp_parse_chirho_def arp_build_chirho_def u16_be_def u32_be_def)

section \<open>ICMP echo packets\<close>

record IcmpPacketChirho =
  type_chirho :: u8
  code_chirho :: u8
  icmp_checksum_chirho :: u16
  icmp_id_chirho :: u16
  sequence_chirho :: u16
  icmp_data_chirho :: bytes

definition icmp_parse_chirho :: "bytes \<Rightarrow> IcmpPacketChirho option" where
  "icmp_parse_chirho d =
     (if length d < 8 then None
      else Some \<lparr>type_chirho = d ! 0, code_chirho = d ! 1,
        icmp_checksum_chirho = be_u16 (d ! 2) (d ! 3), icmp_id_chirho = be_u16 (d ! 4) (d ! 5),
        sequence_chirho = be_u16 (d ! 6) (d ! 7), icmp_data_chirho = drop 8 d\<rparr>)"

definition icmp_zeroed :: "IcmpPacketChirho \<Rightarrow> bytes" where
  "icmp_zeroed p =
     [type_chirho p, code_chirho p] @ [0, 0] @ u16_be (icmp_id_chirho p)
     @ u16_be (sequence_chirho p) @ icmp_data_chirho p"

definition icmp_build_chirho :: "IcmpPacketChirho \<Rightarrow> bytes" where
  "icmp_build_chirho p =
     put_checksum 2 (ipv4_checksum_chirho (icmp_zeroed p)) (icmp_zeroed p)"

lemma icmp_build_split:
  "icmp_build_chirho p =
     [type_chirho p, code_chirho p] @ u16_be (ipv4_checksum_chirho (icmp_zeroed p))
     @ u16_be (icmp_id_chirho p) @ u16_be (sequence_chirho p) @ icmp_data_chirho p"
  using put_checksum_at [of "[type_chirho p, code_chirho p]" 2]
  by (simp add: icmp_build_chirho_def icmp_zeroed_def)

lemma length_icmp_build [simp]: "length (icmp_build_chirho p) = 8 + length (icmp_data_chirho p)"
  by (simp add: icmp_build_chirho_def icmp_zeroed_def)

lemma icmp_roundtrip:
  "icmp_parse_chirho (icmp_build_chirho p)
     = Some (p\<lparr>icmp_checksum_chirho := ipv4_checksum_chirho (icmp_zeroed p)\<rparr>)"
  unfolding icmp_build_split by (simp add: icmp_parse_chirho_def u16_be_def)

lemma icmp_verifies:
  assumes "length (icmp_data_chirho p) \<le> 131066"
  shows "ipv4_checksum_chirho (icmp_build_chirho p) = 0"
  using checksum_filled [of "[type_chirho p, code_chirho p]"
      "u16_be (icmp_id_chirho p) @ u16_be (sequence_chirho p) @ icmp_data_chirho p"] assms
  unfolding icmp_build_split by (simp add: icmp_zeroed_def)

section \<open>TCP segments\<close>

record TcpSegmentChirho =
  src_port_chirho :: u16
  dst_port_chirho :: u16
  seq_num_chirho :: u32
  ack_num_chirho :: u32
  data_offset_chirho :: u8
  flags_chirho :: u8
  window_chirho :: u16
  checksum_chirho :: u16
  urgent_ptr_chirho :: u16
  tcp_payload_chirho :: bytes

definition tcp_parse_chirho :: "bytes \<Rightarrow> TcpSegmentChirho option" where
  "tcp_parse_chirho d =
     (if length d < 20 then None
      else let offset = drop_bit 4 (d ! 12) AND 0xF; header_len = unat offset * 4 in
        Some \<lparr>src_port_chirho = be_u16 (d ! 0) (d ! 1), dst_port_chirho = be_u16 (d ! 2) (d ! 3),
          seq_num_chirho = be_u32 (d ! 4) (d ! 5) (d ! 6) (d ! 7),
          ack_num_chirho = be_u32 (d ! 8) (d ! 9) (d ! 10) (d ! 11),
          data_offset_chirho = offset,
          flags_chirho = d ! 13 AND 0x3F,
          window_chirho = be_u16 (d ! 14) (d ! 15),
          checksum_chirho = be_u16 (d ! 16) (d ! 17),
          urgent_ptr_chirho = be_u16 (d ! 18) (d ! 19),
          tcp_payload_chirho = (if header_len < length d then drop header_len d else [])\<rparr>)"

definition tcp_build_chirho :: "TcpSegmentChirho \<Rightarrow> bytes" where
  "tcp_build_chirho s =
     u16_be (src_port_chirho s) @ u16_be (dst_port_chirho s) @ u32_be (seq_num_chirho s)
     @ u32_be (ack_num_chirho s) @ [push_bit 4 (data_offset_chirho s) AND 0xF0]
     @ [flags_chirho s AND 0x3F] @ u16_be (window_chirho s) @ u16_be (checksum_chirho s)
     @ u16_be (urgent_ptr_chirho s) @ tcp_payload_chirho s"

definition pseudo_header :: "u32 \<Rightarrow> u32 \<Rightarrow> u8 \<Rightarrow> nat \<Rightarrow> bytes" where
  "pseudo_header src_ip dst_ip proto len =
     u32_be src_ip @ u32_be dst_ip @ [0, proto] @ u16_be (of_nat len)"

definition tcp_compute_checksum_chirho :: "TcpSegmentChirho \<Rightarrow> u32 \<Rightarrow> u32 \<Rightarrow> u16" where
  "tcp_compute_checksum_chirho s src_ip dst_ip =
     (let segment = tcp_build_chirho s;
          pseudo = pseudo_header src_ip dst_ip IP_PROTO_TCP_CHIRHO (length segment) @ segment;
          pseudo = (if length pseudo > 28 + 1 then (pseudo[28 := 0])[29 := 0] else pseudo)
      in ipv4_checksum_chirho pseudo)"

text \<open>The segments the kernel itself sends have a 20-byte header and only the six
  flags of RFC 793.\<close>

definition plain_segment :: "TcpSegmentChirho \<Rightarrow> bool" where
  "plain_segment s \<longleftrightarrow> data_offset_chirho s = 5 \<and> flags_chirho s < 64"

lemma tcp_build_split:
  "tcp_build_chirho s = take 16 (tcp_build_chirho s) @ u16_be (checksum_chirho s)
     @ u16_be (urgent_ptr_chirho s) @ tcp_payload_chirho s"
  by (simp add: tcp_build_chirho_def)

lemma length_tcp_build [simp]: "length (tcp_build_chirho s) = 20 + length (tcp_payload_chirho s)"
  by (simp add: tcp_build_chirho_def)

lemma tcp_roundtrip:
  assumes "plain_segment s"
  shows "tcp_parse_chirho (tcp_build_chirho s) = Some s"
proof -
  have "flags_chirho s AND 0x3F = flags_chirho s"
    using assms and_mask_small [of "flags_chirho s" 6]
    by (simp add: plain_segment_def word_less_nat_alt mask_consts)
  then show ?thesis
    using assms
    by (simp add: plain_segment_def tcp_parse_chirho_def tcp_build_chirho_def u16_be_def u32_be_def)
qed

definition tcp_sealed :: "TcpSegmentChirho \<Rightarrow> u32 \<Rightarrow> u32 \<Rightarrow> bytes" where
  "tcp_sealed s src_ip dst_ip =
     tcp_build_chirho (s\<lparr>checksum_chirho := tcp_compute_checksum_chirho s src_ip dst_ip\<rparr>)"

lemma tcp_checksum_verifies:
  assumes "length (tcp_payload_chirho s) \<le> 131042"
  shows "ipv4_checksum_chirho (pseudo_header src_ip dst_ip IP_PROTO_TCP_CHIRHO
      (length (tcp_sealed s src_ip dst_ip)) @ tcp_sealed s src_ip dst_ip) = 0"
proof -
  define pre where "pre = pseudo_header src_ip dst_ip IP_PROTO_TCP_CHIRHO
      (20 + length (tcp_payload_chirho s)) @ take 16 (tcp_build_chirho s)"
  define post where "post = u16_be (urgent_ptr_chirho s) @ tcp_payload_chirho s"
  have len: "length pre = 28" by (simp add: pre_def pseudo_header_def)
  have same: "take 16 (tcp_build_chirho (s\<lparr>checksum_chirho := c\<rparr>)) = take 16 (tcp_build_chirho s)" for c
    by (simp add: tcp_build_chirho_def)
  have "pseudo_header src_ip dst_ip IP_PROTO_TCP_CHIRHO (length (tcp_build_chirho s))
      @ tcp_build_chirho s = pre @ u16_be (checksum_chirho s) @ post"
    by (simp add: pre_def post_def) (subst tcp_build_split, simp)
  moreover have "(pre @ u16_be x @ post)[28 := 0, 29 := 0] = pre @ [0, 0] @ post" for x
    using len by (simp add: u16_be_def list_update_append)
  ultimately have c: "tcp_compute_checksum_chirho s src_ip dst_ip
      = ipv4_checksum_chirho (pre @ [0, 0] @ post)"
    by (simp only: tcp_compute_checksum_chirho_def Let_def) (simp add: len post_def)
  have "ipv4_checksum_chirho (pre @ u16_be (ipv4_checksum_chirho (pre @ [0, 0] @ post)) @ post) = 0"
    by (rule checksum_filled) (use assms in \<open>simp_all add: len post_def\<close>)
  moreover have "pseudo_header src_ip dst_ip IP_PROTO_TCP_CHIRHO
      (length (tcp_sealed s src_ip dst_ip)) @ tcp_sealed s src_ip dst_ip
      = pre @ u16_be (tcp_compute_checksum_chirho s src_ip dst_ip) @ post"
    unfolding tcp_sealed_def
    by (subst (2) tcp_build_split) (simp add: pre_def post_def same)
  ultimately show ?thesis by (simp only: c)
qed

section \<open>UDP datagrams\<close>

record UdpDatagramChirho =
  udp_src_port_chirho :: u16
  udp_dst_port_chirho :: u16
  udp_length_chirho :: u16
  udp_checksum_chirho :: u16
  udp_payload_chirho :: bytes

definition udp_parse_chirho :: "bytes \<Rightarrow> UdpDatagramChirho option" where
  "udp_parse_chirho d =
     (if length d < 8 then None
      else let len = be_u16 (d ! 4) (d ! 5);
               payload_len = (if unat len > 8 then min (unat len - 8) (length d - 8) else 0)
        in Some \<lparr>udp_src_port_chirho = be_u16 (d ! 0) (d ! 1),
             udp_dst_port_chirho = be_u16 (d ! 2) (d ! 3), udp_length_chirho = len,
             udp_checksum_chirho = be_u16 (d ! 6) (d ! 7),
             udp_payload_chirho = take payload_len (drop 8 d)\<rparr>)"

definition udp_build_chirho :: "UdpDatagramChirho \<Rightarrow> bytes" where
  "udp_build_chirho u =
     u16_be (udp_src_port_chirho u) @ u16_be (udp_dst_port_chirho u)
     @ u16_be (of_nat (8 + length (udp_payload_chirho u))) @ [0, 0] @ udp_payload_chirho u"

definition udp_build_with_checksum_chirho :: "UdpDatagramChirho \<Rightarrow> u32 \<Rightarrow> u32 \<Rightarrow> bytes" where
  "udp_build_with_checksum_chirho u src_ip dst_ip =
     (let raw = udp_build_chirho u;
          c = ipv4_checksum_chirho
                (pseudo_header src_ip dst_ip IP_PROTO_UDP_CHIRHO (length raw) @ raw);
          c = (if c = 0 then 0xFFFF else c)
      in put_checksum 6 c raw)"

definition build_ipv4_packet :: "u8 \<Rightarrow> u8 \<Rightarrow> u32 \<Rightarrow> u32 \<Rightarrow> bytes \<Rightarrow> bytes" where
  "build_ipv4_packet proto ip_flags src_ip dst_ip body =
     ipv4_build_chirho
       \<lparr>version_chirho = 4, ihl_chirho = 5, tos_chirho = 0,
        total_length_chirho = 20 + of_nat (length body), ip_id_chirho = 0,
        ip_flags_chirho = ip_flags, fragment_offset_chirho = 0, ttl_chirho = 64,
        protocol_chirho = proto, ip_checksum_chirho = 0, src_ip_chirho = src_ip,
        dst_ip_chirho = dst_ip\<rparr> @ body"

definition build_udp_packet_chirho :: "u32 \<Rightarrow> u32 \<Rightarrow> u16 \<Rightarrow> u16 \<Rightarrow> bytes \<Rightarrow> bytes" where
  "build_udp_packet_chirho src_ip dst_ip src_port dst_port payload =
     build_ipv4_packet IP_PROTO_UDP_CHIRHO 2 src_ip dst_ip
       (udp_build_with_checksum_chirho
          \<lparr>udp_src_port_chirho = src_port, udp_dst_port_chirho = dst_port,
           udp_length_chirho = of_nat (8 + length payload), udp_checksum_chirho = 0,
           udp_payload_chirho = payload\<rparr> src_ip dst_ip)"

lemma udp_built:
  obtains c where "udp_build_with_checksum_chirho u src_ip dst_ip =
      u16_be (udp_src_port_chirho u) @ u16_be (udp_dst_port_chirho u)
      @ u16_be (of_nat (8 + length (udp_payload_chirho u))) @ u16_be c @ udp_payload_chirho u"
    and "c \<noteq> 0"
proof
  let ?raw = "udp_build_chirho u"
  let ?c = "ipv4_checksum_chirho
      (pseudo_header src_ip dst_ip IP_PROTO_UDP_CHIRHO (length ?raw) @ ?raw)"
  let ?f = "if ?c = 0 then 0xFFFF else ?c"
  have "put_checksum 6 x ?raw =
      u16_be (udp_src_port_chirho u) @ u16_be (udp_dst_port_chirho u)
      @ u16_be (of_nat (8 + length (udp_payload_chirho u))) @ u16_be x @ udp_payload_chirho u" for x
    using put_checksum_at [of "u16_be (udp_src_port_chirho u) @ u16_be (udp_dst_port_chirho u)
      @ u16_be (of_nat (8 + length (udp_payload_chirho u)))" 6 x 0 0]
    by (simp add: udp_build_chirho_def)
  then show "udp_build_with_checksum_chirho u src_ip dst_ip =
      u16_be (udp_src_port_chirho u) @ u16_be (udp_dst_port_chirho u)
      @ u16_be (of_nat (8 + length (udp_payload_chirho u))) @ u16_be ?f @ udp_payload_chirho u"
    by (simp only: udp_build_with_checksum_chirho_def Let_def)
  show "?f \<noteq> 0" by simp
qed

lemma udp_roundtrip:
  assumes "length (udp_payload_chirho u) \<le> 65527"
  obtains c where "udp_parse_chirho (udp_build_with_checksum_chirho u src_ip dst_ip)
      = Some (u\<lparr>udp_length_chirho := of_nat (8 + length (udp_payload_chirho u)),
                udp_checksum_chirho := c\<rparr>)" and "c \<noteq> 0"
proof (rule udp_built [of u src_ip dst_ip])
  fix c assume built: "udp_build_with_checksum_chirho u src_ip dst_ip =
      u16_be (udp_src_port_chirho u) @ u16_be (udp_dst_port_chirho u)
      @ u16_be (of_nat (8 + length (udp_payload_chirho u))) @ u16_be c @ udp_payload_chirho u"
    and "c \<noteq> 0"
  have "unat (of_nat (8 + length (udp_payload_chirho u)) :: u16) = 8 + length (udp_payload_chirho u)"
    using assms by (intro unat_of_nat_small) simp
  then have "udp_parse_chirho (udp_build_with_checksum_chirho u src_ip dst_ip)
      = Some (u\<lparr>udp_length_chirho := of_nat (8 + length (udp_payload_chirho u)),
                udp_checksum_chirho := c\<rparr>)"
    unfolding built by (simp add: udp_parse_chirho_def u16_be_def Let_def)
  then show thesis using \<open>c \<noteq> 0\<close> by (rule that)
qed

section \<open>Properties\<close>

lemma ipv4_packet_parts:
  assumes "ip_flags < 8" and "length body \<le> 65515"
  obtains h where "ipv4_parse_chirho (build_ipv4_packet proto ip_flags src_ip dst_ip body) = Some h"
    and "protocol_chirho h = proto" "src_ip_chirho h = src_ip" "dst_ip_chirho h = dst_ip"
    and "unat (total_length_chirho h) = 20 + length body" "ihl_chirho h = 5"
proof -
  define g where "g = \<lparr>version_chirho = 4, ihl_chirho = 5, tos_chirho = 0,
        total_length_chirho = 20 + of_nat (length body), ip_id_chirho = 0,
        ip_flags_chirho = ip_flags, fragment_offset_chirho = 0, ttl_chirho = 64,
        protocol_chirho = proto, ip_checksum_chirho = 0, src_ip_chirho = src_ip,
        dst_ip_chirho = dst_ip\<rparr>"
  have "20 + of_nat (length body) = (of_nat (20 + length body) :: u16)" by simp
  then have "unat (total_length_chirho g) = 20 + length body"
    using assms(2) unat_of_nat_small [of "20 + length body", where 'a = 16] by (simp add: g_def)
  moreover have "wf_ipv4 g" using assms(1) by (simp add: wf_ipv4_def g_def)
  ultimately show thesis
    using ipv4_roundtrip [of g body] that
    by (simp add: build_ipv4_packet_def g_def [symmetric]) (simp add: g_def)
qed

lemma drop_ipv4_packet [simp]: "drop 20 (build_ipv4_packet proto fl src_ip dst_ip body) = body"
  by (simp add: build_ipv4_packet_def)

lemma length_ipv4_packet [simp]:
  "length (build_ipv4_packet proto fl src_ip dst_ip body) = 20 + length body"
  by (simp add: build_ipv4_packet_def)

text \<open>A packet the kernel builds is read back as built: parsing its header succeeds
  with the given protocol and addresses, the header length points at the body and
  the total length at its end, and the checksum over the header verifies.\<close>

theorem built_packet_parses:
  fixes proto :: u8 and src_ip dst_ip :: u32
  assumes "ip_flags < 8" and "length body \<le> 65515"
  defines "packet \<equiv> build_ipv4_packet proto ip_flags src_ip dst_ip body"
  shows "\<exists>h. ipv4_parse_chirho packet = Some h \<and> protocol_chirho h = proto
    \<and> src_ip_chirho h = src_ip \<and> dst_ip_chirho h = dst_ip
    \<and> drop (unat (ihl_chirho h) * 4) (take (unat (total_length_chirho h)) packet) = body
    \<and> ipv4_checksum_chirho (take (unat (ihl_chirho h) * 4) packet) = 0"
proof -
  obtain h where h: "ipv4_parse_chirho packet = Some h" "protocol_chirho h = proto"
    "src_ip_chirho h = src_ip" "dst_ip_chirho h = dst_ip"
    "unat (total_length_chirho h) = 20 + length body" "ihl_chirho h = 5"
    using ipv4_packet_parts [OF assms(1,2), of proto src_ip dst_ip] unfolding packet_def by metis
  then have "drop (unat (ihl_chirho h) * 4) (take (unat (total_length_chirho h)) packet) = body"
    "ipv4_checksum_chirho (take (unat (ihl_chirho h) * 4) packet) = 0"
    by (simp_all add: packet_def build_ipv4_packet_def ipv4_header_verifies)
  with h show ?thesis by blast
qed

theorem built_packet_parses_witness:
  "\<exists>h. ipv4_parse_chirho (build_ipv4_packet 17 2 0x7F000001 0x0A000202 [1, 2, 3]) = Some h
    \<and> protocol_chirho h = 17"
  using built_packet_parses [of 2 "[1, 2, 3]" 17 "0x7F000001" "0x0A000202"] by auto

text \<open>The transport formats are inverse to their parsers, for a segment with the
  plain header the kernel sends and for a datagram that fits its length field (up to
  the length and checksum fields the builder fills); the sealed segment verifies under
  its pseudo-header; and the checksum field of a datagram is never zero, the value
  that would mean that none was computed.\<close>

theorem transport_roundtrip:
  assumes "plain_segment s" and "length (tcp_payload_chirho s) \<le> 131042"
    and "length (udp_payload_chirho u) \<le> 65527"
  shows "tcp_parse_chirho (tcp_sealed s src_ip dst_ip)
      = Some (s\<lparr>checksum_chirho := tcp_compute_checksum_chirho s src_ip dst_ip\<rparr>)
    \<and> ipv4_checksum_chirho (pseudo_header src_ip dst_ip IP_PROTO_TCP_CHIRHO
        (length (tcp_sealed s src_ip dst_ip)) @ tcp_sealed s src_ip dst_ip) = 0
    \<and> (\<exists>c. c \<noteq> 0 \<and> udp_parse_chirho (udp_build_with_checksum_chirho u src_ip dst_ip)
        = Some (u\<lparr>udp_length_chirho := of_nat (8 + length (udp_payload_chirho u)),
                  udp_checksum_chirho := c\<rparr>))"
proof (intro conjI)
  have "plain_segment (s\<lparr>checksum_chirho := tcp_compute_checksum_chirho s src_ip dst_ip\<rparr>)"
    using assms(1) by (simp add: plain_segment_def)
  then show "tcp_parse_chirho (tcp_sealed s src_ip dst_ip)
      = Some (s\<lparr>checksum_chirho := tcp_compute_checksum_chirho s src_ip dst_ip\<rparr>)"
    unfolding tcp_sealed_def by (rule tcp_roundtrip)
  show "ipv4_checksum_chirho (pseudo_header src_ip dst_ip IP_PROTO_TCP_CHIRHO
        (length (tcp_sealed s src_ip dst_ip)) @ tcp_sealed s src_ip dst_ip) = 0"
    by (rule tcp_checksum_verifies [OF assms(2)])
  show "\<exists>c. c \<noteq> 0 \<and> udp_parse_chirho (udp_build_with_checksum_chirho u src_ip dst_ip)
        = Some (u\<lparr>udp_length_chirho := of_nat (8 + length (udp_payload_chirho u)),
                  udp_checksum_chirho := c\<rparr>)"
    by (rule udp_roundtrip [OF assms(3), of src_ip dst_ip]) blast
qed

definition sample_segment :: TcpSegmentChirho where
  "sample_segment =
     \<lparr>src_port_chirho = 2222, dst_port_chirho = 40000, seq_num_chirho = 7, ack_num_chirho = 9,
      data_offset_chirho = 5, flags_chirho = 0x18, window_chirho = 65535, checksum_chirho = 0,
      urgent_ptr_chirho = 0, tcp_payload_chirho = [104, 105]\<rparr>"

definition sample_datagram :: UdpDatagramChirho where
  "sample_datagram =
     \<lparr>udp_src_port_chirho = 53, udp_dst_port_chirho = 40000, udp_length_chirho = 0,
      udp_checksum_chirho = 0, udp_payload_chirho = [1, 2, 3]\<rparr>"

theorem transport_roundtrip_witness:
  "tcp_parse_chirho (tcp_sealed sample_segment 1 2)
     = Some (sample_segment\<lparr>checksum_chirho := tcp_compute_checksum_chirho sample_segment 1 2\<rparr>)"
  using transport_roundtrip [of sample_segment sample_datagram 1 2]
  by (simp add: plain_segment_def sample_segment_def sample_datagram_def)

end
