(* ===== verification/Tcp_Control.thy ===== *)
theory Tcp_Control
  imports Net_Packet
begin

unbundle bit_operations_syntax

text \<open>
  The TCP control block of \<^verbatim>\<open>net_core_chirho.rs\<close>: its sequence variables, the
  opening and closing calls, and \<^verbatim>\<open>process_segment_chirho\<close>, the state machine run on
  every arriving segment.  The counter behind \<^verbatim>\<open>generate_iss_chirho\<close> is passed as
  an argument and returned.  What is proved: the opening and closing exchanges
  synchronise and end a connection, and an arriving segment confirms exactly the
  sequence numbers that were sent and not confirmed before.
\<close>

definition TCP_FIN_CHIRHO :: u8 where "TCP_FIN_CHIRHO = 0x01"
definition TCP_SYN_CHIRHO :: u8 where "TCP_SYN_CHIRHO = 0x02"
definition TCP_RST_CHIRHO :: u8 where "TCP_RST_CHIRHO = 0x04"
definition TCP_PSH_CHIRHO :: u8 where "TCP_PSH_CHIRHO = 0x08"
definition TCP_ACK_CHIRHO :: u8 where "TCP_ACK_CHIRHO = 0x10"
definition TCP_DEFAULT_WINDOW_CHIRHO :: u16 where "TCP_DEFAULT_WINDOW_CHIRHO = 65535"
definition EISCONN_CHIRHO :: i64 where "EISCONN_CHIRHO = 106"

lemmas tcp_flag_defs =
  TCP_FIN_CHIRHO_def TCP_SYN_CHIRHO_def TCP_RST_CHIRHO_def TCP_PSH_CHIRHO_def TCP_ACK_CHIRHO_def

datatype TcpStateChirho =
  ClosedChirho | ListenChirho | SynSentChirho | SynReceivedChirho | EstablishedChirho
| FinWait1Chirho | FinWait2Chirho | CloseWaitChirho | LastAckChirho | TimeWaitChirho
| ClosingChirho

record TcpControlBlockChirho =
  tcp_state_chirho :: TcpStateChirho
  snd_una_chirho :: u32
  snd_nxt_chirho :: u32
  snd_wnd_chirho :: u16
  iss_chirho :: u32
  rcv_nxt_chirho :: u32
  rcv_wnd_chirho :: u16
  irs_chirho :: u32

definition tcb_new_chirho :: TcpControlBlockChirho where
  "tcb_new_chirho =
     \<lparr>tcp_state_chirho = ClosedChirho, snd_una_chirho = 0, snd_nxt_chirho = 0,
      snd_wnd_chirho = TCP_DEFAULT_WINDOW_CHIRHO, iss_chirho = 0, rcv_nxt_chirho = 0,
      rcv_wnd_chirho = TCP_DEFAULT_WINDOW_CHIRHO, irs_chirho = 0\<rparr>"

text \<open>\<^verbatim>\<open>ISS_COUNTER_CHIRHO.fetch_add(64000)\<close>: the old value truncated, and the new counter.\<close>

definition generate_iss_chirho :: "u64 \<Rightarrow> u32 \<times> u64" where
  "generate_iss_chirho counter = (ucast counter, counter + 64000)"

definition segment_of ::
  "u16 \<Rightarrow> u16 \<Rightarrow> u32 \<Rightarrow> u32 \<Rightarrow> u8 \<Rightarrow> u16 \<Rightarrow> bytes \<Rightarrow> TcpSegmentChirho" where
  "segment_of sp dp sq ak fl wnd body =
     \<lparr>src_port_chirho = sp, dst_port_chirho = dp, seq_num_chirho = sq, ack_num_chirho = ak,
      data_offset_chirho = 5, flags_chirho = fl, window_chirho = wnd, checksum_chirho = 0,
      urgent_ptr_chirho = 0, tcp_payload_chirho = body\<rparr>"

definition has_flag :: "TcpSegmentChirho \<Rightarrow> u8 \<Rightarrow> bool" where
  "has_flag s flag \<longleftrightarrow> flags_chirho s AND flag \<noteq> 0"

definition seg_len :: "TcpSegmentChirho \<Rightarrow> u32" where
  "seg_len s = of_nat (length (tcp_payload_chirho s))"

definition active_open_chirho ::
  "u64 \<Rightarrow> TcpControlBlockChirho \<Rightarrow> u16 \<Rightarrow> u16 \<Rightarrow>
     u64 \<times> TcpControlBlockChirho \<times> (i64 + TcpSegmentChirho)" where
  "active_open_chirho counter t src_port dst_port =
     (if tcp_state_chirho t \<noteq> ClosedChirho then (counter, t, Inl (- EISCONN_CHIRHO))
      else let (iss, counter') = generate_iss_chirho counter;
               t' = t\<lparr>iss_chirho := iss, snd_nxt_chirho := iss + 1, snd_una_chirho := iss,
                      tcp_state_chirho := SynSentChirho\<rparr>
        in (counter', t', Inr (segment_of src_port dst_port iss 0 TCP_SYN_CHIRHO
             (rcv_wnd_chirho t) [])))"

definition passive_open_chirho ::
  "TcpControlBlockChirho \<Rightarrow> TcpControlBlockChirho \<times> (i64 + unit)" where
  "passive_open_chirho t =
     (if tcp_state_chirho t \<noteq> ClosedChirho then (t, Inl (- EISCONN_CHIRHO))
      else (t\<lparr>tcp_state_chirho := ListenChirho\<rparr>, Inr ()))"

definition update_snd_una_chirho :: "u32 \<Rightarrow> TcpControlBlockChirho \<Rightarrow> TcpControlBlockChirho" where
  "update_snd_una_chirho ack t =
     (if ack - snd_una_chirho t \<le> snd_nxt_chirho t - snd_una_chirho t
      then t\<lparr>snd_una_chirho := ack\<rparr> else t)"

definition make_ack_chirho :: "TcpControlBlockChirho \<Rightarrow> u16 \<Rightarrow> u16 \<Rightarrow> TcpSegmentChirho" where
  "make_ack_chirho t local_port remote_port =
     segment_of local_port remote_port (snd_nxt_chirho t) (rcv_nxt_chirho t) TCP_ACK_CHIRHO
       (rcv_wnd_chirho t) []"

definition make_rst_chirho :: "TcpSegmentChirho \<Rightarrow> u16 \<Rightarrow> TcpSegmentChirho" where
  "make_rst_chirho s local_port =
     (if has_flag s TCP_ACK_CHIRHO
      then segment_of local_port (src_port_chirho s) (ack_num_chirho s) 0 TCP_RST_CHIRHO 0 []
      else segment_of local_port (src_port_chirho s) 0
             (seq_num_chirho s + seg_len s + (if has_flag s TCP_SYN_CHIRHO then 1 else 0)
                + (if has_flag s TCP_FIN_CHIRHO then 1 else 0))
             (TCP_RST_CHIRHO OR TCP_ACK_CHIRHO) 0 [])"

definition syn_ack_of :: "TcpControlBlockChirho \<Rightarrow> TcpSegmentChirho \<Rightarrow> u16 \<Rightarrow> TcpSegmentChirho" where
  "syn_ack_of t s local_port =
     segment_of local_port (src_port_chirho s) (iss_chirho t) (rcv_nxt_chirho t)
       (TCP_SYN_CHIRHO OR TCP_ACK_CHIRHO) (rcv_wnd_chirho t) []"

section \<open>The state machine, one definition per state\<close>

type_synonym tcp_result = "TcpControlBlockChirho \<times> TcpSegmentChirho option"

definition in_listen ::
  "u64 \<Rightarrow> TcpControlBlockChirho \<Rightarrow> TcpSegmentChirho \<Rightarrow> u16 \<Rightarrow> u64 \<times> tcp_result" where
  "in_listen counter t s local_port =
     (if has_flag s TCP_SYN_CHIRHO then
        let (iss, counter') = generate_iss_chirho counter;
            t' = t\<lparr>irs_chirho := seq_num_chirho s, rcv_nxt_chirho := seq_num_chirho s + 1,
                   iss_chirho := iss, snd_nxt_chirho := iss + 1, snd_una_chirho := iss,
                   snd_wnd_chirho := window_chirho s, tcp_state_chirho := SynReceivedChirho\<rparr>
        in (counter', t', Some (syn_ack_of t' s local_port))
      else (counter, t, None))"

definition in_syn_sent :: "TcpControlBlockChirho \<Rightarrow> TcpSegmentChirho \<Rightarrow> u16 \<Rightarrow> tcp_result" where
  "in_syn_sent t s local_port =
     (if has_flag s TCP_SYN_CHIRHO \<and> has_flag s TCP_ACK_CHIRHO then
        if ack_num_chirho s \<noteq> snd_nxt_chirho t then (t, Some (make_rst_chirho s local_port))
        else let t' = t\<lparr>irs_chirho := seq_num_chirho s, rcv_nxt_chirho := seq_num_chirho s + 1,
                        snd_una_chirho := ack_num_chirho s, snd_wnd_chirho := window_chirho s,
                        tcp_state_chirho := EstablishedChirho\<rparr>
          in (t', Some (make_ack_chirho t' local_port (src_port_chirho s)))
      else if has_flag s TCP_SYN_CHIRHO then
        let t' = t\<lparr>irs_chirho := seq_num_chirho s, rcv_nxt_chirho := seq_num_chirho s + 1,
                   tcp_state_chirho := SynReceivedChirho\<rparr>
        in (t', Some (syn_ack_of t' s local_port))
      else (t, None))"

definition in_syn_received :: "TcpControlBlockChirho \<Rightarrow> TcpSegmentChirho \<Rightarrow> tcp_result" where
  "in_syn_received t s =
     (if has_flag s TCP_ACK_CHIRHO \<and> ack_num_chirho s = snd_nxt_chirho t
      then (t\<lparr>snd_una_chirho := ack_num_chirho s, snd_wnd_chirho := window_chirho s,
              tcp_state_chirho := EstablishedChirho\<rparr>, None)
      else (t, None))"

definition in_established :: "TcpControlBlockChirho \<Rightarrow> TcpSegmentChirho \<Rightarrow> u16 \<Rightarrow> tcp_result" where
  "in_established t0 s local_port =
     (let t = (if has_flag s TCP_ACK_CHIRHO
               then (update_snd_una_chirho (ack_num_chirho s) t0)\<lparr>snd_wnd_chirho := window_chirho s\<rparr>
               else t0)
      in if has_flag s TCP_FIN_CHIRHO then
           let t' = t\<lparr>rcv_nxt_chirho := seq_num_chirho s + seg_len s + 1,
                      tcp_state_chirho := CloseWaitChirho\<rparr>
           in (t', Some (make_ack_chirho t' local_port (src_port_chirho s)))
         else if tcp_payload_chirho s \<noteq> [] then
           let t' = (if seq_num_chirho s = rcv_nxt_chirho t
                     then t\<lparr>rcv_nxt_chirho := seq_num_chirho s + seg_len s\<rparr> else t)
           in (t', Some (make_ack_chirho t' local_port (src_port_chirho s)))
         else (t, None))"

definition in_fin_wait1 :: "TcpControlBlockChirho \<Rightarrow> TcpSegmentChirho \<Rightarrow> u16 \<Rightarrow> tcp_result" where
  "in_fin_wait1 t s local_port =
     (if has_flag s TCP_ACK_CHIRHO \<and> has_flag s TCP_FIN_CHIRHO then
        let t' = (update_snd_una_chirho (ack_num_chirho s) t)
                   \<lparr>rcv_nxt_chirho := seq_num_chirho s + 1, tcp_state_chirho := TimeWaitChirho\<rparr>
        in (t', Some (make_ack_chirho t' local_port (src_port_chirho s)))
      else
        let t1 = (if has_flag s TCP_ACK_CHIRHO
                  then (update_snd_una_chirho (ack_num_chirho s) t)\<lparr>tcp_state_chirho := FinWait2Chirho\<rparr>
                  else t)
        in if has_flag s TCP_FIN_CHIRHO then
             let t' = t1\<lparr>rcv_nxt_chirho := seq_num_chirho s + 1, tcp_state_chirho := ClosingChirho\<rparr>
             in (t', Some (make_ack_chirho t' local_port (src_port_chirho s)))
           else (t1, None))"

definition in_fin_wait2 :: "TcpControlBlockChirho \<Rightarrow> TcpSegmentChirho \<Rightarrow> u16 \<Rightarrow> tcp_result" where
  "in_fin_wait2 t s local_port =
     (if has_flag s TCP_FIN_CHIRHO then
        let t' = t\<lparr>rcv_nxt_chirho := seq_num_chirho s + 1, tcp_state_chirho := TimeWaitChirho\<rparr>
        in (t', Some (make_ack_chirho t' local_port (src_port_chirho s)))
      else if tcp_payload_chirho s \<noteq> [] \<and> has_flag s TCP_ACK_CHIRHO then
        let t' = t\<lparr>rcv_nxt_chirho := seq_num_chirho s + seg_len s\<rparr>
        in (t', Some (make_ack_chirho t' local_port (src_port_chirho s)))
      else (t, None))"

definition in_closing_states :: "TcpControlBlockChirho \<Rightarrow> TcpSegmentChirho \<Rightarrow> u16 \<Rightarrow> tcp_result" where
  "in_closing_states t s local_port =
     (case tcp_state_chirho t of
        CloseWaitChirho \<Rightarrow>
          (if has_flag s TCP_ACK_CHIRHO then update_snd_una_chirho (ack_num_chirho s) t else t, None)
      | ClosingChirho \<Rightarrow>
          (if has_flag s TCP_ACK_CHIRHO
           then (update_snd_una_chirho (ack_num_chirho s) t)\<lparr>tcp_state_chirho := TimeWaitChirho\<rparr>
           else t, None)
      | LastAckChirho \<Rightarrow>
          (if has_flag s TCP_ACK_CHIRHO then t\<lparr>tcp_state_chirho := ClosedChirho\<rparr> else t, None)
      | _ \<Rightarrow>
          (t, if has_flag s TCP_FIN_CHIRHO
              then Some (make_ack_chirho t local_port (src_port_chirho s)) else None))"

definition process_segment_chirho ::
  "u64 \<Rightarrow> TcpControlBlockChirho \<Rightarrow> TcpSegmentChirho \<Rightarrow> u16 \<Rightarrow> u64 \<times> tcp_result" where
  "process_segment_chirho counter t s local_port =
     (if has_flag s TCP_RST_CHIRHO then
        if tcp_state_chirho t \<in> {ClosedChirho, ListenChirho} then (counter, t, None)
        else (counter, t\<lparr>tcp_state_chirho := ClosedChirho\<rparr>, None)
      else case tcp_state_chirho t of
        ClosedChirho \<Rightarrow> (counter, t, Some (make_rst_chirho s local_port))
      | ListenChirho \<Rightarrow> in_listen counter t s local_port
      | SynSentChirho \<Rightarrow> (counter, in_syn_sent t s local_port)
      | SynReceivedChirho \<Rightarrow> (counter, in_syn_received t s)
      | EstablishedChirho \<Rightarrow> (counter, in_established t s local_port)
      | FinWait1Chirho \<Rightarrow> (counter, in_fin_wait1 t s local_port)
      | FinWait2Chirho \<Rightarrow> (counter, in_fin_wait2 t s local_port)
      | _ \<Rightarrow> (counter, in_closing_states t s local_port))"

definition tcp_close_chirho :: "TcpControlBlockChirho \<Rightarrow> u16 \<Rightarrow> u16 \<Rightarrow> tcp_result" where
  "tcp_close_chirho t local_port remote_port =
     (let fin = segment_of local_port remote_port (snd_nxt_chirho t) (rcv_nxt_chirho t)
                  (TCP_FIN_CHIRHO OR TCP_ACK_CHIRHO) (rcv_wnd_chirho t) []
      in case tcp_state_chirho t of
           EstablishedChirho \<Rightarrow>
             (t\<lparr>tcp_state_chirho := FinWait1Chirho, snd_nxt_chirho := snd_nxt_chirho t + 1\<rparr>, Some fin)
         | CloseWaitChirho \<Rightarrow>
             (t\<lparr>tcp_state_chirho := LastAckChirho, snd_nxt_chirho := snd_nxt_chirho t + 1\<rparr>, Some fin)
         | _ \<Rightarrow> (t, None))"

definition make_data_segment_chirho ::
  "TcpControlBlockChirho \<Rightarrow> u16 \<Rightarrow> u16 \<Rightarrow> bytes \<Rightarrow> tcp_result" where
  "make_data_segment_chirho t local_port remote_port body =
     (if tcp_state_chirho t \<noteq> EstablishedChirho \<and> tcp_state_chirho t \<noteq> CloseWaitChirho
      then (t, None)
      else (t\<lparr>snd_nxt_chirho := snd_nxt_chirho t + of_nat (length body)\<rparr>,
            Some (segment_of local_port remote_port (snd_nxt_chirho t) (rcv_nxt_chirho t)
              (TCP_ACK_CHIRHO OR TCP_PSH_CHIRHO) (rcv_wnd_chirho t) body)))"

lemmas in_state_defs =
  in_listen_def in_syn_sent_def in_syn_received_def in_established_def in_fin_wait1_def
  in_fin_wait2_def in_closing_states_def

lemma update_snd_una_fields [simp]:
  "tcp_state_chirho (update_snd_una_chirho a t) = tcp_state_chirho t"
  "snd_nxt_chirho (update_snd_una_chirho a t) = snd_nxt_chirho t"
  "rcv_nxt_chirho (update_snd_una_chirho a t) = rcv_nxt_chirho t"
  "rcv_wnd_chirho (update_snd_una_chirho a t) = rcv_wnd_chirho t"
  "iss_chirho (update_snd_una_chirho a t) = iss_chirho t"
  "irs_chirho (update_snd_una_chirho a t) = irs_chirho t"
  "snd_wnd_chirho (update_snd_una_chirho a t) = snd_wnd_chirho t"
  by (simp_all add: update_snd_una_chirho_def)

section \<open>Unacknowledged sequence numbers\<close>

definition in_flight :: "TcpControlBlockChirho \<Rightarrow> u32" where
  "in_flight t = snd_nxt_chirho t - snd_una_chirho t"

lemma diff_within: "(a - u :: 'a::len word) \<le> n - u \<Longrightarrow> n - a \<le> n - u"
proof -
  assume le: "a - u \<le> n - u"
  have "n - a = (n - u) - (a - u)" by simp
  then show ?thesis using le by (metis word_sub_le)
qed

lemma update_snd_una_shrinks: "in_flight (update_snd_una_chirho a t) \<le> in_flight t"
  by (auto simp: update_snd_una_chirho_def in_flight_def intro: diff_within)

lemma in_flight_updates [simp]:
  "in_flight (t\<lparr>rcv_nxt_chirho := a\<rparr>) = in_flight t"
  "in_flight (t\<lparr>tcp_state_chirho := st\<rparr>) = in_flight t"
  "in_flight (t\<lparr>snd_wnd_chirho := w\<rparr>) = in_flight t"
  "in_flight (t\<lparr>irs_chirho := i\<rparr>) = in_flight t"
  by (simp_all add: in_flight_def)

text \<open>The numbers that may be acknowledged: those from the oldest unacknowledged one up
  to the next one to send, counted from the former so that the wrap of the 32-bit
  numbers does not matter.\<close>

definition outstanding :: "TcpControlBlockChirho \<Rightarrow> u32 \<Rightarrow> bool" where
  "outstanding t a \<longleftrightarrow> (\<exists>j\<le>unat (in_flight t). a = snd_una_chirho t + of_nat j)"

lemma outstanding_iff: "outstanding t a \<longleftrightarrow> a - snd_una_chirho t \<le> snd_nxt_chirho t - snd_una_chirho t"
proof
  assume "outstanding t a"
  then obtain j where j: "j \<le> unat (in_flight t)" "a - snd_una_chirho t = of_nat j" by (auto simp: outstanding_def)
  have "unat (of_nat j :: u32) \<le> j" by (simp add: unat_of_nat)
  then show "a - snd_una_chirho t \<le> snd_nxt_chirho t - snd_una_chirho t"
    using j by (simp add: word_le_nat_alt in_flight_def)
next
  assume "a - snd_una_chirho t \<le> snd_nxt_chirho t - snd_una_chirho t"
  then have "unat (a - snd_una_chirho t) \<le> unat (in_flight t)" by (simp add: word_le_nat_alt in_flight_def)
  moreover have "a = snd_una_chirho t + of_nat (unat (a - snd_una_chirho t))" by simp
  ultimately show "outstanding t a" unfolding outstanding_def by blast
qed

definition ack_accepted :: "TcpControlBlockChirho \<Rightarrow> TcpSegmentChirho \<Rightarrow> bool" where
  "ack_accepted t s \<longleftrightarrow> has_flag s TCP_ACK_CHIRHO \<and> \<not> has_flag s TCP_RST_CHIRHO \<and>
     (case tcp_state_chirho t of
        SynSentChirho \<Rightarrow> has_flag s TCP_SYN_CHIRHO \<and> ack_num_chirho s = snd_nxt_chirho t
      | SynReceivedChirho \<Rightarrow> ack_num_chirho s = snd_nxt_chirho t
      | st \<Rightarrow> st \<in> {EstablishedChirho, FinWait1Chirho, CloseWaitChirho, ClosingChirho} \<and>
          outstanding t (ack_num_chirho s))"

lemma arrival_moves_una:
  assumes "process_segment_chirho counter t s port = (counter', t', response)"
    and "tcp_state_chirho t \<noteq> ListenChirho"
  shows "snd_nxt_chirho t' = snd_nxt_chirho t \<and>
    snd_una_chirho t' = (if ack_accepted t s then ack_num_chirho s else snd_una_chirho t)"
  using assms
  by (cases "tcp_state_chirho t")
    (auto simp: process_segment_chirho_def in_state_defs Let_def ack_accepted_def update_snd_una_chirho_def
       outstanding_iff split: if_splits)

lemma arrival_opens:
  assumes "process_segment_chirho counter t s port = (counter', t', response)"
    and "tcp_state_chirho t' = EstablishedChirho" "tcp_state_chirho t \<noteq> EstablishedChirho"
  shows "tcp_state_chirho t \<in> {SynSentChirho, SynReceivedChirho} \<and> ack_accepted t s"
  using assms
  by (cases "tcp_state_chirho t")
    (auto simp: process_segment_chirho_def in_state_defs Let_def ack_accepted_def split_beta split: if_splits)

lemma accepted_shrinks:
  assumes "ack_accepted t s"
  shows "snd_nxt_chirho t - ack_num_chirho s \<le> in_flight t"
  using assms by (cases "tcp_state_chirho t") (auto simp: ack_accepted_def outstanding_iff in_flight_def intro: diff_within)

section \<open>Opening and closing a connection\<close>

text \<open>The exchange of segments between a client and a freshly created server block,
  each segment delivered to the other side.\<close>

lemma flag_tests [simp]:
  "has_flag (segment_of sp dp sq ak fl wnd body) f \<longleftrightarrow> fl AND f \<noteq> 0"
  by (simp add: has_flag_def segment_of_def)

lemma segment_of_fields [simp]:
  "src_port_chirho (segment_of sp dp sq ak fl wnd body) = sp"
  "dst_port_chirho (segment_of sp dp sq ak fl wnd body) = dp"
  "seq_num_chirho (segment_of sp dp sq ak fl wnd body) = sq"
  "ack_num_chirho (segment_of sp dp sq ak fl wnd body) = ak"
  "flags_chirho (segment_of sp dp sq ak fl wnd body) = fl"
  "window_chirho (segment_of sp dp sq ak fl wnd body) = wnd"
  "tcp_payload_chirho (segment_of sp dp sq ak fl wnd body) = body"
  "seg_len (segment_of sp dp sq ak fl wnd body) = of_nat (length body)"
  by (simp_all add: segment_of_def seg_len_def)

definition synchronised :: "TcpControlBlockChirho \<Rightarrow> TcpControlBlockChirho \<Rightarrow> bool" where
  "synchronised a b \<longleftrightarrow>
     tcp_state_chirho a = EstablishedChirho \<and> tcp_state_chirho b = EstablishedChirho
     \<and> rcv_nxt_chirho b = snd_nxt_chirho a \<and> rcv_nxt_chirho a = snd_nxt_chirho b
     \<and> in_flight a = 0 \<and> in_flight b = 0"

definition tcp_handshake ::
  "u64 \<Rightarrow> u64 \<Rightarrow> u16 \<Rightarrow> u16 \<Rightarrow> (TcpControlBlockChirho \<times> TcpControlBlockChirho) option" where
  "tcp_handshake client_counter server_counter cp sp =
     (case active_open_chirho client_counter tcb_new_chirho cp sp of
        (_, client1, Inr syn) \<Rightarrow>
          (case process_segment_chirho server_counter (fst (passive_open_chirho tcb_new_chirho)) syn sp of
             (_, server1, Some syn_ack) \<Rightarrow>
               (case process_segment_chirho 0 client1 syn_ack cp of
                  (_, client2, Some ack) \<Rightarrow>
                    (case process_segment_chirho 0 server1 ack sp of
                       (_, server2, None) \<Rightarrow> Some (client2, server2)
                     | _ \<Rightarrow> None)
                | _ \<Rightarrow> None)
           | _ \<Rightarrow> None)
      | _ \<Rightarrow> None)"

definition tcp_shutdown ::
  "TcpControlBlockChirho \<Rightarrow> TcpControlBlockChirho \<Rightarrow> u16 \<Rightarrow> u16 \<Rightarrow>
     (TcpControlBlockChirho \<times> TcpControlBlockChirho) option" where
  "tcp_shutdown a b ap bp =
     (case tcp_close_chirho a ap bp of
        (a1, Some fin) \<Rightarrow>
          (case process_segment_chirho 0 b fin bp of
             (_, b1, Some ack) \<Rightarrow>
               (case (process_segment_chirho 0 a1 ack ap, tcp_close_chirho b1 bp ap) of
                  ((_, a2, None), (b2, Some fin2)) \<Rightarrow>
                    (case process_segment_chirho 0 a2 fin2 ap of
                       (_, a3, Some ack2) \<Rightarrow>
                         Some (a3, fst (snd (process_segment_chirho 0 b2 ack2 bp)))
                     | _ \<Rightarrow> None)
                | _ \<Rightarrow> None)
           | _ \<Rightarrow> None)
      | _ \<Rightarrow> None)"

lemma handshake_synchronises:
  "\<exists>a b. tcp_handshake c1 c2 cp sp = Some (a, b) \<and> synchronised a b"
  by (simp add: tcp_handshake_def active_open_chirho_def passive_open_chirho_def tcb_new_chirho_def
      generate_iss_chirho_def process_segment_chirho_def in_state_defs tcp_flag_defs syn_ack_of_def
      make_ack_chirho_def synchronised_def in_flight_def)

lemma shutdown_closes:
  assumes "synchronised a b"
  shows "\<exists>a' b'. tcp_shutdown a b ap bp = Some (a', b')
    \<and> tcp_state_chirho a' = TimeWaitChirho \<and> tcp_state_chirho b' = ClosedChirho"
  using assms
  by (auto simp: synchronised_def tcp_shutdown_def tcp_close_chirho_def process_segment_chirho_def
      in_state_defs tcp_flag_defs make_ack_chirho_def)

section \<open>Properties\<close>

text \<open>C24. Whatever the initial sequence counters and ports, the three segments of the
  opening exchange leave client and server established with matching sequence
  numbers and nothing unacknowledged, and from any such pair the four segments of a
  close leave the closing side in TIME-WAIT and the other side closed.\<close>

theorem connection_opens_and_closes:
  "\<exists>a b. tcp_handshake c1 c2 cp sp = Some (a, b) \<and> synchronised a b
     \<and> (\<exists>a' b'. tcp_shutdown a b cp sp = Some (a', b')
          \<and> tcp_state_chirho a' = TimeWaitChirho \<and> tcp_state_chirho b' = ClosedChirho)"
proof -
  obtain a b where ab: "tcp_handshake c1 c2 cp sp = Some (a, b)" "synchronised a b"
    using handshake_synchronises by blast
  then show ?thesis using shutdown_closes [OF ab(2)] by blast
qed

text \<open>C25. What an arriving segment confirms.  Outside LISTEN, where the sequence numbers
  are chosen, a segment leaves the next number to send alone.  The oldest
  unacknowledged number moves to the acknowledgement number exactly when the segment
  has ACK and no RST and either the connection is being opened and all of what was
  sent is acknowledged (with SYN in SYN-SENT), or it is in ESTABLISHED, FIN-WAIT-1,
  CLOSE-WAIT or CLOSING and the number lies between the oldest unacknowledged one and
  the next one to send; otherwise it stays.  So the unacknowledged range never grows,
  and a connection becomes established only by an acknowledgement of all it has
  sent.\<close>

theorem arriving_segment_confirms_sent:
  assumes "process_segment_chirho counter t s port = (counter', t', response)"
    and "tcp_state_chirho t \<noteq> ListenChirho"
  defines "ack \<equiv> ack_num_chirho s" and "st \<equiv> tcp_state_chirho t"
  defines "accepted \<equiv> has_flag s TCP_ACK_CHIRHO \<and> \<not> has_flag s TCP_RST_CHIRHO \<and>
    (st = SynSentChirho \<and> has_flag s TCP_SYN_CHIRHO \<and> ack = snd_nxt_chirho t \<or>
     st = SynReceivedChirho \<and> ack = snd_nxt_chirho t \<or>
     st \<in> {EstablishedChirho, FinWait1Chirho, CloseWaitChirho, ClosingChirho} \<and>
       (\<exists>j\<le>unat (in_flight t). ack = snd_una_chirho t + of_nat j))"
  shows "snd_nxt_chirho t' = snd_nxt_chirho t
    \<and> snd_una_chirho t' = (if accepted then ack else snd_una_chirho t)
    \<and> in_flight t' \<le> in_flight t
    \<and> (tcp_state_chirho t' = EstablishedChirho \<and> st \<noteq> EstablishedChirho \<longrightarrow>
         st \<in> {SynSentChirho, SynReceivedChirho} \<and> accepted \<and> ack = snd_nxt_chirho t \<and> in_flight t' = 0)"
proof -
  have acc: "accepted \<longleftrightarrow> ack_accepted t s"
    by (cases "tcp_state_chirho t") (auto simp: accepted_def ack_accepted_def st_def ack_def outstanding_def)
  note m = arrival_moves_una [OF assms(1,2), folded acc ack_def]
  have f: "in_flight t' \<le> in_flight t"
    using m accepted_shrinks [of t s, folded acc ack_def] by (auto simp: in_flight_def)
  have "st \<in> {SynSentChirho, SynReceivedChirho} \<and> accepted \<and> ack = snd_nxt_chirho t \<and> in_flight t' = 0"
    if "tcp_state_chirho t' = EstablishedChirho \<and> st \<noteq> EstablishedChirho"
  proof -
    have o: "st \<in> {SynSentChirho, SynReceivedChirho}" accepted
      using arrival_opens [OF assms(1)] that by (simp_all add: st_def acc)
    then have "ack = snd_nxt_chirho t" by (auto simp: accepted_def)
    then show ?thesis using o m by (auto simp: in_flight_def)
  qed
  then show ?thesis using m f by blast
qed

definition sample_tcb :: TcpControlBlockChirho where
  "sample_tcb = tcb_new_chirho\<lparr>tcp_state_chirho := EstablishedChirho, snd_una_chirho := 1000,
     snd_nxt_chirho := 1010, rcv_nxt_chirho := 77\<rparr>"

theorem arriving_segment_confirms_sent_witness:
  "snd_una_chirho (fst (snd (process_segment_chirho 0 sample_tcb
     (segment_of 1 2 77 1004 TCP_ACK_CHIRHO 5 [9]) 2))) = 1004 \<and>
   snd_una_chirho (fst (snd (process_segment_chirho 0 sample_tcb
     (segment_of 1 2 77 1011 TCP_ACK_CHIRHO 5 [9]) 2))) = 1000"
proof -
  have e: "tcp_state_chirho sample_tcb = EstablishedChirho" "snd_una_chirho sample_tcb = 1000"
    "unat (in_flight sample_tcb) = 10" by (simp_all add: sample_tcb_def in_flight_def)
  have "1004 = 1000 + (of_nat 4 :: u32)" "4 \<le> (10 :: nat)" by simp_all
  then have a: "\<exists>j\<le>10. 1004 = 1000 + (of_nat j :: u32)" by blast
  have b: "\<not> (\<exists>j\<le>10. 1011 = 1000 + (of_nat j :: u32))"
  proof
    assume "\<exists>j\<le>10. 1011 = 1000 + (of_nat j :: u32)"
    then obtain j where j: "j \<le> 10" "1011 - 1000 = (of_nat j :: u32)" by (metis add_diff_cancel_left')
    from j(2) have "unat (of_nat j :: u32) = unat (11 :: u32)" by (simp only: flip: j(2)) simp
    then show False using j(1) by (simp add: unat_of_nat take_bit_nat_eq_self)
  qed
  have f: "has_flag (segment_of 1 2 77 n TCP_ACK_CHIRHO 5 [9]) TCP_ACK_CHIRHO"
    "\<not> has_flag (segment_of 1 2 77 n TCP_ACK_CHIRHO 5 [9]) TCP_RST_CHIRHO" for n
    by (simp_all add: tcp_flag_defs)
  have run: "process_segment_chirho 0 sample_tcb g 2 = (fst (process_segment_chirho 0 sample_tcb g 2),
    fst (snd (process_segment_chirho 0 sample_tcb g 2)), snd (snd (process_segment_chirho 0 sample_tcb g 2)))" for g
    by simp
  note p = arriving_segment_confirms_sent [OF run, unfolded e segment_of_fields]
  show ?thesis using p [of "segment_of 1 2 77 1004 TCP_ACK_CHIRHO 5 [9]"] p [of "segment_of 1 2 77 1011 TCP_ACK_CHIRHO 5 [9]"]
      a b f by simp
qed

end
