(* ===== verification/Net_Socket.thy ===== *)
theory Net_Socket
  imports Tcp_Control "HOL-Library.Sublist"
begin

unbundle bit_operations_syntax

text \<open>
  The socket table of \<^verbatim>\<open>net_core_chirho.rs\<close> and the delivery of arriving TCP
  segments and UDP datagrams to it: \<^verbatim>\<open>SocketChirho\<close>, slot and port allocation, the
  IPv4 part of bind, listen, close and read, \<^verbatim>\<open>deliver_tcp_from_frame_chirho\<close> and
  \<^verbatim>\<open>deliver_udp_packet_chirho\<close>.  Packets to send and wake-ups of the readers'
  wait queue are outputs.  What is proved: the receive buffer of an established
  connection is a prefix of the peer's stream whatever the network loses,
  repeats or reorders, the whole of it once the pieces the peer cut it into have
  arrived in order, and where delivery departs from TCP and UDP: with a FIN, with a
  retransmission cut in another place, and after FIN-WAIT-2.
\<close>

datatype SocketStateChirho =
  UnconnectedChirho | BoundChirho | ListeningChirho | ConnectedChirho | SockClosedChirho

record SockAddrInChirho =
  port_chirho :: u16
  addr_chirho :: u32

record SocketChirho =
  family_chirho :: u64
  sock_type_chirho :: u64
  sock_protocol_chirho :: u64
  sock_state_chirho :: SocketStateChirho
  tcb_chirho :: TcpControlBlockChirho
  local_addr_chirho :: "SockAddrInChirho option"
  remote_addr_chirho :: "SockAddrInChirho option"
  recv_buf_chirho :: bytes
  accept_queue_chirho :: "nat list"
  backlog_chirho :: u32
  nonblock_chirho :: bool

type_synonym socket_table = "SocketChirho option list"

definition AF_UNIX_CHIRHO :: u64 where "AF_UNIX_CHIRHO = 1"
definition EADDRINUSE_CHIRHO :: i64 where "EADDRINUSE_CHIRHO = 98"
definition EOPNOTSUPP_CHIRHO :: i64 where "EOPNOTSUPP_CHIRHO = 95"
definition ENOTCONN_CHIRHO :: i64 where "ENOTCONN_CHIRHO = 107"

definition socket_new_chirho :: "u64 \<Rightarrow> u64 \<Rightarrow> u64 \<Rightarrow> SocketChirho" where
  "socket_new_chirho family sock_type protocol =
     \<lparr>family_chirho = family, sock_type_chirho = sock_type, sock_protocol_chirho = protocol,
      sock_state_chirho = UnconnectedChirho, tcb_chirho = tcb_new_chirho,
      local_addr_chirho = None, remote_addr_chirho = None, recv_buf_chirho = [],
      accept_queue_chirho = [], backlog_chirho = 0,
      nonblock_chirho = (sock_type AND 0x800 \<noteq> 0)\<rparr>"

definition effective_state_chirho :: "SocketChirho \<Rightarrow> SocketStateChirho" where
  "effective_state_chirho k =
     (if family_chirho k = AF_UNIX_CHIRHO then sock_state_chirho k
      else if sock_type_chirho k AND 0xF = 1 then
        (case tcp_state_chirho (tcb_chirho k) of
           EstablishedChirho \<Rightarrow> ConnectedChirho
         | ListenChirho \<Rightarrow> ListeningChirho
         | ClosedChirho \<Rightarrow> SockClosedChirho
         | _ \<Rightarrow> sock_state_chirho k)
      else sock_state_chirho k)"

text \<open>\<^verbatim>\<open>NEXT_EPHEMERAL_PORT_CHIRHO\<close> starts at 49152.\<close>

definition alloc_ephemeral_port_chirho :: "u64 \<Rightarrow> u16 \<times> u64" where
  "alloc_ephemeral_port_chirho port = (ucast (49152 + (port - 49152) mod 16384), port + 1)"

definition alloc_socket_slot_chirho :: "socket_table \<Rightarrow> SocketChirho \<Rightarrow> i64 + (nat \<times> socket_table)" where
  "alloc_socket_slot_chirho table k =
     (case position (\<lambda>slot. slot = None) table of
        Some i \<Rightarrow> Inr (i, table[i := Some k])
      | None \<Rightarrow> Inl (- EMFILE_CHIRHO))"

section \<open>Outputs\<close>

datatype net_out =
  WakeReaders
| SendTcp TcpSegmentChirho u32 u32
| StoreUser u64 bytes

definition get_interface_ip_chirho :: "u32 list \<Rightarrow> nat \<Rightarrow> u32" where
  "get_interface_ip_chirho ips i = (case get_opt ips i of Some ip \<Rightarrow> ip | None \<Rightarrow> 0)"

definition set_interface_ip_chirho :: "u32 list \<Rightarrow> nat \<Rightarrow> u32 \<Rightarrow> u32 list" where
  "set_interface_ip_chirho ips i ip = (ips @ replicate (Suc i - length ips) 0)[i := ip]"

section \<open>bind, listen, close and read of an IPv4 socket\<close>

text \<open>The slot index stands for the descriptor already looked up.\<close>

definition port_taken :: "socket_table \<Rightarrow> nat \<Rightarrow> u64 \<Rightarrow> u16 \<Rightarrow> bool" where
  "port_taken table i family port =
     list_ex (\<lambda>(j, slot). j \<noteq> i \<and> (case slot of
         Some other \<Rightarrow> (case local_addr_chirho other of
             Some a \<Rightarrow> port_chirho a = port \<and> family_chirho other = family
           | None \<Rightarrow> False)
       | None \<Rightarrow> False)) (enumerate 0 table)"

definition inet_bind_chirho ::
  "socket_table \<Rightarrow> nat \<Rightarrow> SockAddrInChirho option \<Rightarrow> i64 \<times> socket_table" where
  "inet_bind_chirho table i parsed =
     (case get_opt table i of
        Some (Some k) \<Rightarrow>
          if sock_state_chirho k \<noteq> UnconnectedChirho then (- EINVAL_CHIRHO, table)
          else if (case parsed of Some a \<Rightarrow> port_taken table i (family_chirho k) (port_chirho a)
                   | None \<Rightarrow> False)
          then (- EADDRINUSE_CHIRHO, table)
          else (0, table[i := Some (k\<lparr>local_addr_chirho := parsed, sock_state_chirho := BoundChirho\<rparr>)])
      | _ \<Rightarrow> (- EBADF_CHIRHO, table))"

definition inet_listen_chirho ::
  "u64 \<Rightarrow> socket_table \<Rightarrow> nat \<Rightarrow> u64 \<Rightarrow> i64 \<times> u64 \<times> socket_table" where
  "inet_listen_chirho ports table i backlog =
     (case get_opt table i of
        Some (Some k) \<Rightarrow>
          if sock_type_chirho k AND 0xF \<noteq> 1 then (- EOPNOTSUPP_CHIRHO, ports, table)
          else if sock_state_chirho k \<noteq> BoundChirho \<and> sock_state_chirho k \<noteq> UnconnectedChirho
          then (- EINVAL_CHIRHO, ports, table)
          else let (local, ports') = (case local_addr_chirho k of
                       None \<Rightarrow> let (p, ports') = alloc_ephemeral_port_chirho ports
                               in (Some \<lparr>port_chirho = p, addr_chirho = 0\<rparr>, ports')
                     | a \<Rightarrow> (a, ports));
                   k' = k\<lparr>local_addr_chirho := local, sock_state_chirho := ListeningChirho,
                          backlog_chirho := max (ucast backlog) 1,
                          tcb_chirho := fst (passive_open_chirho (tcb_chirho k))\<rparr>
            in (0, ports', table[i := Some k'])
      | _ \<Rightarrow> (- EBADF_CHIRHO, ports, table))"

definition free_inet_slot_chirho ::
  "u32 list \<Rightarrow> socket_table \<Rightarrow> nat \<Rightarrow> socket_table \<times> net_out list" where
  "free_inet_slot_chirho ips table i =
     (case get_opt table i of
        None \<Rightarrow> (table, [])
      | Some None \<Rightarrow> (table[i := None], [])
      | Some (Some k) \<Rightarrow>
          if tcp_state_chirho (tcb_chirho k) = ListenChirho then (table, [])
          else case (local_addr_chirho k, remote_addr_chirho k) of
            (Some l, Some r) \<Rightarrow>
              if family_chirho k = 2 \<and> tcp_state_chirho (tcb_chirho k)
                   \<in> {EstablishedChirho, CloseWaitChirho, FinWait1Chirho, FinWait2Chirho}
              then (table[i := None],
                    [SendTcp (segment_of (port_chirho l) (port_chirho r)
                        (snd_nxt_chirho (tcb_chirho k)) (rcv_nxt_chirho (tcb_chirho k))
                        (TCP_RST_CHIRHO OR TCP_ACK_CHIRHO) 0 [])
                      (get_interface_ip_chirho ips 0) (addr_chirho r)])
              else (table[i := None], [])
          | _ \<Rightarrow> (table[i := None], []))"

text \<open>The taking of a pending connection.  \<^verbatim>\<open>register_socket_fd_chirho\<close> belongs to the
  descriptor tables and is an argument; the stores of the peer's address are outputs.\<close>

definition peer_address_stores :: "SocketChirho option \<Rightarrow> u64 \<Rightarrow> u64 \<Rightarrow> net_out list" where
  "peer_address_stores slot addr addrlen =
     (if addr = 0 then []
      else case slot of
        Some k \<Rightarrow>
          (case remote_addr_chirho k of
             Some r \<Rightarrow>
               StoreUser addr ([2, 0] @ u16_be (port_chirho r) @ u32_be (addr_chirho r) @ replicate 8 0)
               # (if addrlen \<noteq> 0 then [StoreUser addrlen [16, 0, 0, 0]] else [])
           | None \<Rightarrow> [])
      | None \<Rightarrow> [])"

definition inet_accept_chirho ::
  "(nat \<Rightarrow> i64 + i64) \<Rightarrow> socket_table \<Rightarrow> nat \<Rightarrow> u64 \<Rightarrow> u64 \<Rightarrow> i64 \<times> socket_table \<times> net_out list" where
  "inet_accept_chirho register table i addr addrlen =
     (case get_opt table i of
        Some (Some k) \<Rightarrow>
          if sock_state_chirho k \<noteq> ListeningChirho then (- EINVAL_CHIRHO, table, [])
          else (case accept_queue_chirho k of
                  [] \<Rightarrow> (- EAGAIN_CHIRHO, table, [])
                | pending # queue \<Rightarrow>
                    let table' = table[i := Some (k\<lparr>accept_queue_chirho := queue\<rparr>)]
                    in case register pending of
                         Inl e \<Rightarrow> (e, table', [])
                       | Inr fd \<Rightarrow>
                           (fd, table', peer_address_stores
                              (case get_opt table' pending of Some slot \<Rightarrow> slot | None \<Rightarrow> None)
                              addr addrlen))
      | _ \<Rightarrow> (- EBADF_CHIRHO, table, []))"

text \<open>\<^verbatim>\<open>read_chirho\<close> of a socket descriptor: the copy-out takes at most the length of the
  user's buffer; on an empty buffer the call polls the network at most ten
  thousand times, 
  \<^term>\<open>polls\<close> giving the table after each poll by the number of tries left.\<close>

definition copy_out :: "SocketChirho \<Rightarrow> nat \<Rightarrow> SocketChirho \<times> bytes" where
  "copy_out k len =
     (k\<lparr>recv_buf_chirho := drop (min len (length (recv_buf_chirho k))) (recv_buf_chirho k)\<rparr>,
      take (min len (length (recv_buf_chirho k))) (recv_buf_chirho k))"

fun read_wait :: "(nat \<Rightarrow> socket_table) \<Rightarrow> nat \<Rightarrow> nat \<Rightarrow> nat \<Rightarrow> socket_table \<Rightarrow> socket_table \<times> (i64 + bytes)" where
  "read_wait polls 0 i len table = (table, Inl (- EAGAIN_CHIRHO))"
| "read_wait polls (Suc tries) i len table =
     (let polled = polls tries
      in case get_opt polled i of
           Some (Some k) \<Rightarrow>
             if recv_buf_chirho k \<noteq> [] then
               let (k', out) = copy_out k len in (polled[i := Some k'], Inr out)
             else if tcp_state_chirho (tcb_chirho k) = ClosedChirho then (polled, Inr [])
             else read_wait polls tries i len polled
         | _ \<Rightarrow> read_wait polls tries i len polled)"

definition socket_read_chirho ::
  "(nat \<Rightarrow> socket_table) \<Rightarrow> socket_table \<Rightarrow> nat \<Rightarrow> bool \<Rightarrow> nat \<Rightarrow> socket_table \<times> (i64 + bytes)" where
  "socket_read_chirho polls table i nonblock len =
     (case get_opt table i of
        Some (Some k) \<Rightarrow>
          if recv_buf_chirho k = [] then
            if sock_state_chirho k = SockClosedChirho
               \<or> tcp_state_chirho (tcb_chirho k) \<in> {CloseWaitChirho, ClosedChirho}
            then (table, Inr [])
            else if nonblock then (table, Inl (- EAGAIN_CHIRHO))
            else read_wait polls 10000 i len table
          else let (k', out) = copy_out k len in (table[i := Some k'], Inr out)
      | _ \<Rightarrow> (table, Inl (- EBADF_CHIRHO)))"

text \<open>\<^verbatim>\<open>write_chirho\<close>: one segment holds the whole buffer.\<close>

definition socket_write_chirho ::
  "u32 list \<Rightarrow> socket_table \<Rightarrow> nat \<Rightarrow> bytes \<Rightarrow> socket_table \<times> (i64 + nat) \<times> net_out list" where
  "socket_write_chirho ips table i buf =
     (case get_opt table i of
        Some (Some k) \<Rightarrow>
          if effective_state_chirho k \<noteq> ConnectedChirho then (table, Inl (- ENOTCONN_CHIRHO), [])
          else
            let lp = (case local_addr_chirho k of Some a \<Rightarrow> port_chirho a | None \<Rightarrow> 0);
                rp = (case remote_addr_chirho k of Some a \<Rightarrow> port_chirho a | None \<Rightarrow> 0);
                lip = (case local_addr_chirho k of Some a \<Rightarrow> addr_chirho a | None \<Rightarrow> 0);
                rip = (case remote_addr_chirho k of Some a \<Rightarrow> addr_chirho a | None \<Rightarrow> 0);
                (t', segment) = make_data_segment_chirho (tcb_chirho k) lp rp buf;
                src = (if lip = 0 then get_interface_ip_chirho ips 0 else lip)
            in (table[i := Some (k\<lparr>tcb_chirho := t'\<rparr>)], Inr (length buf),
                (case segment of Some sg \<Rightarrow> [SendTcp sg src rip] | None \<Rightarrow> []))
      | _ \<Rightarrow> (table, Inl (- EBADF_CHIRHO), []))"

section \<open>UDP delivery\<close>

definition udp_receiver :: "u16 \<Rightarrow> SocketChirho option \<Rightarrow> bool" where
  "udp_receiver port slot =
     (case slot of
        Some k \<Rightarrow> sock_type_chirho k AND 0xF = 2
          \<and> (case local_addr_chirho k of Some a \<Rightarrow> port_chirho a = port | None \<Rightarrow> False)
      | None \<Rightarrow> False)"

definition deliver_udp_packet_chirho ::
  "socket_table \<Rightarrow> Ipv4HeaderChirho \<Rightarrow> UdpDatagramChirho \<Rightarrow> socket_table \<times> net_out list" where
  "deliver_udp_packet_chirho table h u =
     (case position (udp_receiver (udp_dst_port_chirho u)) table of
        None \<Rightarrow> (table, [])
      | Some i \<Rightarrow>
          (case table ! i of
             None \<Rightarrow> (table, [])
           | Some k \<Rightarrow>
               (table[i := Some (k\<lparr>
                   remote_addr_chirho := Some \<lparr>port_chirho = udp_src_port_chirho u,
                                               addr_chirho = src_ip_chirho h\<rparr>,
                   recv_buf_chirho := recv_buf_chirho k
                     @ u16_be (of_nat (length (udp_payload_chirho u))) @ udp_payload_chirho u\<rparr>)],
                [WakeReaders])))"

section \<open>TCP delivery\<close>

definition local_port :: "SocketChirho \<Rightarrow> u16" where
  "local_port k = (case local_addr_chirho k of Some a \<Rightarrow> port_chirho a | None \<Rightarrow> 0)"

text \<open>The first pass over the table: the first socket with the segment's pair of ports,
  and the last listening socket seen before it.\<close>

fun find_target ::
  "TcpSegmentChirho \<Rightarrow> nat \<Rightarrow> nat option \<Rightarrow> socket_table \<Rightarrow> nat option \<times> nat option" where
  "find_target s i listen [] = (None, listen)"
| "find_target s i listen (None # slots) = find_target s (Suc i) listen slots"
| "find_target s i listen (Some k # slots) =
     (if sock_type_chirho k AND 0xF \<noteq> 1 \<or> local_port k \<noteq> dst_port_chirho s
      then find_target s (Suc i) listen slots
      else case remote_addr_chirho k of
        Some r \<Rightarrow> if port_chirho r = src_port_chirho s then (Some i, listen)
                  else find_target s (Suc i) listen slots
      | None \<Rightarrow> find_target s (Suc i)
                  (if sock_state_chirho k = ListeningChirho then Some i else listen) slots)"

definition child_socket :: "TcpSegmentChirho \<Rightarrow> Ipv4HeaderChirho \<Rightarrow> SocketChirho" where
  "child_socket s h =
     (socket_new_chirho 2 1 6)\<lparr>
        local_addr_chirho := Some \<lparr>port_chirho = dst_port_chirho s, addr_chirho = dst_ip_chirho h\<rparr>,
        remote_addr_chirho := Some \<lparr>port_chirho = src_port_chirho s, addr_chirho = src_ip_chirho h\<rparr>,
        tcb_chirho := tcb_new_chirho\<lparr>tcp_state_chirho := ListenChirho\<rparr>\<rparr>"

definition send_response ::
  "Ipv4HeaderChirho \<Rightarrow> TcpSegmentChirho option \<Rightarrow> net_out list" where
  "send_response h response =
     (case response of None \<Rightarrow> [] | Some r \<Rightarrow> [SendTcp r (dst_ip_chirho h) (src_ip_chirho h)])"

definition spawn_child ::
  "u64 \<Rightarrow> socket_table \<Rightarrow> Ipv4HeaderChirho \<Rightarrow> TcpSegmentChirho \<Rightarrow> u64 \<times> socket_table \<times> net_out list" where
  "spawn_child counter table h s =
     (case position (\<lambda>slot. slot = None) table of
        None \<Rightarrow> (counter, table, [])
      | Some i \<Rightarrow>
          let k = child_socket s h;
              (counter', t', response) =
                process_segment_chirho counter (tcb_chirho k) s (dst_port_chirho s)
          in (counter', table[i := Some (k\<lparr>tcb_chirho := t'\<rparr>)], send_response h response))"

text \<open>One socket receives one segment: the state machine, then the payload goes to the
  receive buffer when \<^verbatim>\<open>rcv_nxt_chirho\<close> has moved.\<close>

definition receive_segment ::
  "u64 \<Rightarrow> SocketChirho \<Rightarrow> TcpSegmentChirho \<Rightarrow>
     u64 \<times> SocketChirho \<times> TcpSegmentChirho option \<times> net_out list" where
  "receive_segment counter k s =
     (let (counter', t', response) = process_segment_chirho counter (tcb_chirho k) s (local_port k);
          accepted = (tcp_payload_chirho s \<noteq> []
            \<and> tcp_state_chirho t' \<in> {EstablishedChirho, FinWait2Chirho}
            \<and> rcv_nxt_chirho t' \<noteq> rcv_nxt_chirho (tcb_chirho k));
          k' = k\<lparr>tcb_chirho := t',
                 recv_buf_chirho := (if accepted then recv_buf_chirho k @ tcp_payload_chirho s
                                     else recv_buf_chirho k)\<rparr>
      in (counter', k', response,
          (if accepted then [WakeReaders] else [])
          @ (if tcp_state_chirho t' = CloseWaitChirho then [WakeReaders] else [])))"

definition queue_accept :: "socket_table \<Rightarrow> nat option \<Rightarrow> nat \<Rightarrow> socket_table \<times> net_out list" where
  "queue_accept table listen i =
     (case listen of
        None \<Rightarrow> (table, [])
      | Some l \<Rightarrow>
          (case get_opt table l of
             Some (Some listener) \<Rightarrow>
               (table[l := Some (listener\<lparr>accept_queue_chirho := accept_queue_chirho listener @ [i]\<rparr>)],
                [WakeReaders])
           | _ \<Rightarrow> (table, [])))"

definition deliver_to_socket ::
  "u64 \<Rightarrow> socket_table \<Rightarrow> Ipv4HeaderChirho \<Rightarrow> TcpSegmentChirho \<Rightarrow> nat option \<Rightarrow> nat \<Rightarrow>
     u64 \<times> socket_table \<times> net_out list" where
  "deliver_to_socket counter table h s listen i =
     (case get_opt table i of
        Some (Some k) \<Rightarrow>
          let (counter', k', response, wakes) = receive_segment counter k s;
              joins = (tcp_state_chirho (tcb_chirho k') \<in> {EstablishedChirho, CloseWaitChirho}
                \<and> sock_state_chirho k' \<noteq> ConnectedChirho);
              k'' = (if joins then k'\<lparr>sock_state_chirho := ConnectedChirho\<rparr> else k');
              (table', queued) = (if joins then queue_accept (table[i := Some k'']) listen i
                                  else (table[i := Some k''], []))
          in (counter', table', wakes @ queued @ send_response h response)
      | _ \<Rightarrow> (counter, table, []))"

definition deliver_segment ::
  "u64 \<Rightarrow> socket_table \<Rightarrow> Ipv4HeaderChirho \<Rightarrow> TcpSegmentChirho \<Rightarrow> u64 \<times> socket_table \<times> net_out list" where
  "deliver_segment counter table h s =
     (let (target, listen) = find_target s 0 None table
      in if target = None \<and> has_flag s TCP_SYN_CHIRHO \<and> \<not> has_flag s TCP_ACK_CHIRHO
            \<and> listen \<noteq> None
         then spawn_child counter table h s
         else case (case target of None \<Rightarrow> listen | Some i \<Rightarrow> Some i) of
                None \<Rightarrow> (counter, table, [])
              | Some i \<Rightarrow> deliver_to_socket counter table h s listen i)"

definition deliver_tcp_from_frame_chirho ::
  "u64 \<Rightarrow> socket_table \<Rightarrow> bytes \<Rightarrow> u64 \<times> socket_table \<times> net_out list" where
  "deliver_tcp_from_frame_chirho counter table ip_data =
     (case ipv4_parse_chirho ip_data of
        None \<Rightarrow> (counter, table, [])
      | Some h \<Rightarrow>
          if protocol_chirho h \<noteq> IP_PROTO_TCP_CHIRHO then (counter, table, [])
          else let hdr_len = unat (ihl_chirho h) * 4;
                   ip_end = min (unat (total_length_chirho h)) (length ip_data)
            in if ip_end < hdr_len then (counter, table, [])
               else case tcp_parse_chirho (drop hdr_len (take ip_end ip_data)) of
                      None \<Rightarrow> (counter, table, [])
                    | Some s \<Rightarrow> deliver_segment counter table h s)"

section \<open>The received stream\<close>

text \<open>A segment that carries \<^term>\<open>n\<close> bytes of the peer's stream, starting at offset
  \<^term>\<open>off\<close>; \<^term>\<open>base\<close> is the sequence number of the first byte.\<close>

definition carries :: "u32 \<Rightarrow> bytes \<Rightarrow> nat \<Rightarrow> nat \<Rightarrow> TcpSegmentChirho \<Rightarrow> bool" where
  "carries base stream off n s \<longleftrightarrow>
     off + n \<le> length stream \<and> seq_num_chirho s = base + of_nat off
     \<and> tcp_payload_chirho s = take n (drop off stream)
     \<and> \<not> has_flag s TCP_FIN_CHIRHO \<and> \<not> has_flag s TCP_RST_CHIRHO"

definition receiving :: "u32 \<Rightarrow> bytes \<Rightarrow> nat \<Rightarrow> SocketChirho \<Rightarrow> bool" where
  "receiving base stream n k \<longleftrightarrow>
     n \<le> length stream \<and> tcp_state_chirho (tcb_chirho k) = EstablishedChirho
     \<and> recv_buf_chirho k = take n stream \<and> rcv_nxt_chirho (tcb_chirho k) = base + of_nat n"

text \<open>The number of bytes received after a segment of the stream, and the pieces into which
  a peer cuts its stream from byte \<^term>\<open>n\<close> on.\<close>

definition take_chunk :: "nat \<Rightarrow> nat \<times> nat \<Rightarrow> nat" where
  "take_chunk m chunk = (if fst chunk = m then m + snd chunk else m)"

fun pieces :: "nat \<Rightarrow> nat list \<Rightarrow> (nat \<times> nat) list" where
  "pieces n [] = []"
| "pieces n (l # ls) = (n, l) # pieces (n + l) ls"

fun receive_all :: "u64 \<Rightarrow> SocketChirho \<Rightarrow> TcpSegmentChirho list \<Rightarrow> SocketChirho \<times> TcpSegmentChirho list" where
  "receive_all counter k [] = (k, [])"
| "receive_all counter k (s # ss) =
     (let (counter', k', response, _) = receive_segment counter k s;
          (k'', responses) = receive_all counter' k' ss
      in (k'', (case response of Some r \<Rightarrow> [r] | None \<Rightarrow> []) @ responses))"

lemma of_nat_u32_inj:
  assumes "m < 2 ^ 32" "n < 2 ^ 32"
  shows "(of_nat m :: u32) = of_nat n \<longleftrightarrow> m = n"
proof
  assume "(of_nat m :: u32) = of_nat n"
  then have "unat (of_nat m :: u32) = unat (of_nat n :: u32)" by (rule arg_cong)
  then show "m = n" using assms by (simp add: unat_of_nat take_bit_nat_eq_self)
qed simp

lemma receive_step:
  assumes recv: "receiving base stream n k" and chunk: "carries base stream off len s"
    and short: "length stream < 2 ^ 32"
    and step: "receive_segment counter k s = (counter', k', response, wakes)"
  shows "receiving base stream (take_chunk n (off, len)) k'
    \<and> (\<forall>r. response = Some r \<longrightarrow> ack_num_chirho r = base + of_nat (take_chunk n (off, len)))
    \<and> (response = None \<longleftrightarrow> tcp_payload_chirho s = [])"
proof -
  have bounds: "n < 2 ^ 32" "off < 2 ^ 32" "len < 2 ^ 32" and le: "n \<le> length stream" "off + len \<le> length stream"
    using recv chunk short by (auto simp: receiving_def carries_def)
  have len: "length (tcp_payload_chirho s) = len" "tcp_payload_chirho s = [] \<longleftrightarrow> len = 0"
    using chunk by (auto simp: carries_def)
  have next_in: "seq_num_chirho s = base + of_nat n \<longleftrightarrow> off = n"
    using chunk of_nat_u32_inj [OF bounds(2,1)] by (simp add: carries_def)
  have moved: "base + (of_nat n + of_nat len) \<noteq> base + (of_nat n :: u32)" if "0 < len"
    using that of_nat_u32_inj [of len 0] bounds by simp
  have prefix: "take n stream @ tcp_payload_chirho s = take (n + len) stream" if "off = n"
    using chunk that by (simp add: carries_def take_add)
  note step_defs = receiving_def receive_segment_def process_segment_chirho_def
    in_established_def Let_def take_chunk_def seg_len_def make_ack_chirho_def
  show ?thesis
  proof (cases "len = 0")
    case True
    with recv chunk step show ?thesis
      by (auto simp: carries_def step_defs split: if_splits)
  next
    case False
    with recv chunk step le moved prefix show ?thesis
      by (auto simp: carries_def step_defs len next_in add.assoc split: if_splits)
  qed
qed

lemma take_chunk_mono: "m \<le> take_chunk m c"
  by (simp add: take_chunk_def)

lemma foldl_take_chunk_mono: "m \<le> foldl take_chunk m cs"
proof (induction cs arbitrary: m)
  case (Cons c cs)
  then show ?case using take_chunk_mono [of m c] order_trans by fastforce
qed simp

lemma receive_all_stream:
  assumes "receiving base stream n k" and "length stream < 2 ^ 32"
    and "list_all2 (\<lambda>(off, len) s. carries base stream off len s) chunks segments"
    and "receive_all counter k segments = (k', acks)"
  shows "receiving base stream (foldl take_chunk n chunks) k'
    \<and> (\<forall>r\<in>set acks. \<exists>m\<ge>n. m \<le> foldl take_chunk n chunks \<and> ack_num_chirho r = base + of_nat m)
    \<and> length acks = length (filter (\<lambda>s. tcp_payload_chirho s \<noteq> []) segments)"
  using assms(3,1,4)
proof (induction chunks segments arbitrary: n k counter acks rule: list_all2_induct)
  case Nil
  then show ?case by simp
next
  case (Cons c cs s ss)
  obtain off len where c: "c = (off, len)" by (cases c)
  obtain counter1 k1 response wakes where
    step: "receive_segment counter k s = (counter1, k1, response, wakes)"
    by (metis prod_cases4)
  obtain acks1 where rest: "receive_all counter1 k1 ss = (k', acks1)"
    and acks: "acks = (case response of Some r \<Rightarrow> [r] | None \<Rightarrow> []) @ acks1"
    using Cons.prems(2) step by (auto split: prod.splits)
  have one: "receiving base stream (take_chunk n c) k1"
    "\<forall>r. response = Some r \<longrightarrow> ack_num_chirho r = base + of_nat (take_chunk n c)"
    "response = None \<longleftrightarrow> tcp_payload_chirho s = []"
    using receive_step [OF Cons.prems(1) _ assms(2) step] Cons.hyps(1) by (auto simp: c)
  have "receiving base stream (foldl take_chunk (take_chunk n c) cs) k'"
    and later: "\<forall>r\<in>set acks1. \<exists>m\<ge>take_chunk n c. m \<le> foldl take_chunk (take_chunk n c) cs
      \<and> ack_num_chirho r = base + of_nat m"
    and "length acks1 = length (filter (\<lambda>s. tcp_payload_chirho s \<noteq> []) ss)"
    using Cons.IH [OF one(1) rest] by simp_all
  moreover have "\<exists>m\<ge>n. m \<le> foldl take_chunk (take_chunk n c) cs \<and> ack_num_chirho r = base + of_nat m"
    if ack: "r \<in> set acks" for r
  proof -
    consider "response = Some r" | "r \<in> set acks1"
      using ack by (cases response) (auto simp: acks)
    then show ?thesis
    proof cases
      case 1
      then show ?thesis
        using one(2) take_chunk_mono [of n c] foldl_take_chunk_mono [of "take_chunk n c" cs] by blast
    next
      case 2
      then show ?thesis using later take_chunk_mono [of n c] by (meson order_trans)
    qed
  qed
  ultimately show ?case using one(3) by (auto simp: acks)
qed

text \<open>The peer's cuts: the receiver always stands at one of them, and every piece that
  arrives in its turn is taken.\<close>

lemma pieces_from: "(off, len) \<in> set (pieces n lens) \<Longrightarrow> n \<le> off"
  by (induction lens arbitrary: n) fastforce+

definition at_cut :: "nat \<Rightarrow> nat list \<Rightarrow> nat \<Rightarrow> bool" where
  "at_cut n lens m \<longleftrightarrow> m = n \<or> (\<exists>(off, len)\<in>set (pieces n lens). m = off + len)"

lemma at_cut_from: "at_cut n lens m \<Longrightarrow> n \<le> m"
  using pieces_from by (fastforce simp: at_cut_def)

lemma no_cut_inside:
  "(off, len) \<in> set (pieces n lens) \<Longrightarrow> at_cut n lens m \<Longrightarrow> off < m \<Longrightarrow> off + len \<le> m"
proof (induction lens arbitrary: n)
  case (Cons l ls)
  have m: "m = n \<or> at_cut (n + l) ls m" using Cons.prems(2) by (auto simp: at_cut_def)
  consider "(off, len) = (n, l)" | "(off, len) \<in> set (pieces (n + l) ls)" using Cons.prems(1) by auto
  then show ?case
  proof cases
    case 1
    then show ?thesis using m Cons.prems(3) at_cut_from by fastforce
  next
    case 2
    then show ?thesis using m Cons.IH [OF 2] Cons.prems(3) pieces_from [OF 2] by auto
  qed
qed simp

lemma take_chunk_at_cut:
  assumes "at_cut n lens m" and "off < n \<or> (off, len) \<in> set (pieces n lens)"
  shows "at_cut n lens (take_chunk m (off, len))"
  using assms at_cut_from [OF assms(1)] by (auto simp: take_chunk_def at_cut_def)

lemma pieces_in_order_received:
  assumes "\<forall>(off, len)\<in>set chunks. off < n0 \<or> (off, len) \<in> set (pieces n0 lens0)" and "at_cut n0 lens0 m"
    and "subseq (pieces n lens) chunks" "set (pieces n lens) \<subseteq> set (pieces n0 lens0)" "n \<le> m"
  shows "n + sum_list lens \<le> foldl take_chunk m chunks"
  using assms
proof (induction chunks arbitrary: m n lens)
  case Nil
  then show ?case by (cases lens) auto
next
  case (Cons c cs)
  let ?m1 = "take_chunk m c"
  obtain off len where c: "c = (off, len)" by (cases c)
  have cut: "at_cut n0 lens0 ?m1" using take_chunk_at_cut [OF Cons.prems(2)] Cons.prems(1) by (simp add: c)
  have le: "m \<le> ?m1" by (rule take_chunk_mono)
  have rest: "\<forall>(off, len)\<in>set cs. off < n0 \<or> (off, len) \<in> set (pieces n0 lens0)" using Cons.prems(1) by simp
  note IH = Cons.IH [OF rest cut]
  show ?case
  proof (cases lens)
    case Nil
    then show ?thesis using Cons.prems(5) le foldl_take_chunk_mono [of ?m1 cs] by simp
  next
    case (Cons l ls)
    show ?thesis
    proof (cases "c = (n, l)")
      case True
      have "n + l \<le> ?m1"
        using no_cut_inside [of n l n0 lens0 m] Cons.prems(2,4,5) Cons True le by (cases "m = n") (auto simp: take_chunk_def)
      moreover have "subseq (pieces (n + l) ls) cs" "set (pieces (n + l) ls) \<subseteq> set (pieces n0 lens0)"
        using Cons.prems(3,4) Cons True by simp_all
      ultimately show ?thesis using IH [of "n + l" ls] Cons by (simp add: add.assoc)
    next
      case False
      then have "subseq (pieces n lens) cs" using Cons.prems(3) Cons by (auto split: if_splits)
      then show ?thesis using IH Cons.prems(4,5) le by simp
    qed
  qed
qed

section \<open>Departures from the protocols\<close>

text \<open>A segment with FIN: whatever its sequence number, its payload is acknowledged and
  dropped.\<close>

lemma fin_drops_payload:
  assumes "tcp_state_chirho (tcb_chirho k) = EstablishedChirho"
    and "has_flag s TCP_FIN_CHIRHO" "\<not> has_flag s TCP_RST_CHIRHO"
    and "receive_segment counter k s = (counter', k', response, wakes)"
  shows "recv_buf_chirho k' = recv_buf_chirho k
    \<and> tcp_state_chirho (tcb_chirho k') = CloseWaitChirho
    \<and> (\<exists>r. response = Some r \<and> ack_num_chirho r = seq_num_chirho s + seg_len s + 1)"
  using assms
  by (auto simp: receive_segment_def process_segment_chirho_def in_established_def Let_def
      make_ack_chirho_def split: if_splits)

text \<open>A segment that repeats bytes already received and goes on with new ones is dropped
  whole, so a peer that cuts its stream anew when it repeats makes no progress with it.\<close>

lemma overlapping_data_dropped:
  assumes "receiving base stream n k" and "carries base stream off len s" and "length stream < 2 ^ 32"
    and "off < n" "n < off + len" and "receive_segment counter k s = (counter', k', response, wakes)"
  shows "recv_buf_chirho k' = recv_buf_chirho k \<and> (\<exists>r. response = Some r \<and> ack_num_chirho r = base + of_nat n)"
proof -
  have "tcp_payload_chirho s \<noteq> []" using assms(2,4,5) by (auto simp: carries_def)
  moreover have "take_chunk n (off, len) = n" using assms(4) by (simp add: take_chunk_def)
  ultimately show ?thesis
    using receive_step [OF assms(1-3,6)] assms(1) by (auto simp: receiving_def)
qed

text \<open>After FIN-WAIT-2 no sequence number is checked: a repeated segment is delivered again.\<close>

lemma fin_wait2_repeats:
  assumes "tcp_state_chirho (tcb_chirho k) = FinWait2Chirho"
    and "has_flag s TCP_ACK_CHIRHO" "\<not> has_flag s TCP_FIN_CHIRHO" "\<not> has_flag s TCP_RST_CHIRHO"
    and "tcp_payload_chirho s \<noteq> []" "rcv_nxt_chirho (tcb_chirho k) \<noteq> seq_num_chirho s + seg_len s"
    and "receive_segment counter k s = (counter', k', response, wakes)"
  shows "recv_buf_chirho k' = recv_buf_chirho k @ tcp_payload_chirho s"
  using assms
  by (auto simp: receive_segment_def process_segment_chirho_def in_fin_wait2_def Let_def
      split: if_splits)

text \<open>A segment with SYN and ACK is not given to a child: it takes the listener itself
  out of LISTEN.\<close>

lemma syn_ack_captures_listener:
  assumes "find_target s 0 None table = (None, Some l)"
    and "get_opt table l = Some (Some k)" "tcp_state_chirho (tcb_chirho k) = ListenChirho"
    and "has_flag s TCP_SYN_CHIRHO" "has_flag s TCP_ACK_CHIRHO" "\<not> has_flag s TCP_RST_CHIRHO"
    and "deliver_segment counter table h s = (counter', table', outs)"
  shows "\<exists>k'. get_opt table' l = Some (Some k')
    \<and> tcp_state_chirho (tcb_chirho k') = SynReceivedChirho"
proof -
  have "l < length table" using assms(2) by (simp add: get_opt_Some_iff)
  with assms show ?thesis
    by (auto simp: deliver_segment_def deliver_to_socket_def receive_segment_def
        process_segment_chirho_def in_listen_def generate_iss_chirho_def Let_def split_beta)
qed

text \<open>What a reader of a datagram socket gets is the datagram behind its two length bytes.\<close>

lemma udp_read_has_prefix:
  assumes "get_opt table i = Some (Some k)" "recv_buf_chirho k = []"
    and "position (udp_receiver (udp_dst_port_chirho u)) table = Some i"
    and "length (udp_payload_chirho u) + 2 \<le> len"
    and "deliver_udp_packet_chirho table h u = (table', outs)"
  shows "snd (socket_read_chirho polls table' i nonblock len)
    = Inr (u16_be (of_nat (length (udp_payload_chirho u))) @ udp_payload_chirho u)"
proof -
  have "i < length table" "table ! i = Some k" using assms(1) by (auto simp: get_opt_Some_iff)
  moreover obtain k' where "table' = table[i := Some k']"
    "recv_buf_chirho k' = u16_be (of_nat (length (udp_payload_chirho u))) @ udp_payload_chirho u"
    using assms calculation by (auto simp: deliver_udp_packet_chirho_def)
  ultimately show ?thesis
    using assms(4) by (simp add: socket_read_chirho_def copy_out_def u16_be_def)
qed

section \<open>Properties\<close>

text \<open>C11. An established connection receives the peer's stream as a stream.  Let any list
  of segments arrive that each carry a stretch of the stream and have neither FIN nor
  RST, lost, repeated, reordered or cut anywhere.  Then the receive buffer is a prefix
  of the stream and no shorter than before, the next expected number is the one behind
  it, every segment with data is answered, and no answer acknowledges a byte that is
  not in the buffer.  If moreover the peer cuts the rest of its stream into pieces once,
  every arriving segment is one of these pieces or starts before them, and the pieces
  occur in order among the segments, as they do when each is repeated until it is
  acknowledged, then the buffer holds the whole stream.\<close>

theorem received_stream_is_prefix:
  fixes chunks :: "(nat \<times> nat) list"
  assumes "receiving base stream n k" and "length stream < 2 ^ 32"
    and "list_all2 (\<lambda>(off, len) s. carries base stream off len s) chunks segments"
    and "receive_all counter k segments = (k', acks)"
  shows "\<exists>m\<ge>n. m \<le> length stream \<and> recv_buf_chirho k' = take m stream
    \<and> rcv_nxt_chirho (tcb_chirho k') = base + of_nat m
    \<and> length acks = length (filter (\<lambda>s. tcp_payload_chirho s \<noteq> []) segments)
    \<and> (\<forall>r\<in>set acks. \<exists>j\<ge>n. j \<le> m \<and> ack_num_chirho r = base + of_nat j)
    \<and> (\<forall>lens. n + sum_list lens = length stream
         \<and> (\<forall>(off, len)\<in>set chunks. off < n \<or> (off, len) \<in> set (pieces n lens))
         \<and> subseq (pieces n lens) chunks \<longrightarrow> m = length stream)"
proof -
  let ?m = "foldl take_chunk n chunks"
  note r = receive_all_stream [OF assms]
  have "?m = length stream" if "n + sum_list lens = length stream"
    "\<forall>(off, len)\<in>set chunks. off < n \<or> (off, len) \<in> set (pieces n lens)" "subseq (pieces n lens) chunks" for lens
    using pieces_in_order_received [OF that(2), of n n lens] that(1,3) r by (simp add: at_cut_def receiving_def)
  then show ?thesis using r foldl_take_chunk_mono [of n chunks] unfolding receiving_def by blast
qed

definition sample_socket :: SocketChirho where
  "sample_socket = (socket_new_chirho 2 1 6)\<lparr>tcb_chirho := sample_tcb\<rparr>"

definition data_at :: "u32 \<Rightarrow> bytes \<Rightarrow> TcpSegmentChirho" where
  "data_at sq body = segment_of 9 22 sq 1000 TCP_ACK_CHIRHO 100 body"

theorem received_stream_is_prefix_witness:
  "recv_buf_chirho (fst (receive_all 0 sample_socket
     [data_at 79 [3, 4], data_at 77 [1, 2], data_at 77 [1, 2], data_at 79 [3, 4]])) = [1, 2, 3, 4]"
proof -
  let ?segs = "[data_at 79 [3, 4], data_at 77 [1, 2], data_at 77 [1, 2], data_at 79 [3, 4]]"
  let ?chunks = "[(2, 2), (0, 2), (0, 2), (2, 2)] :: (nat \<times> nat) list"
  have run: "receive_all 0 sample_socket ?segs = (fst (receive_all 0 sample_socket ?segs),
      snd (receive_all 0 sample_socket ?segs))" by simp
  have k: "receiving 77 [1, 2, 3, 4] 0 sample_socket"
    by (simp add: receiving_def sample_socket_def socket_new_chirho_def sample_tcb_def)
  have c: "list_all2 (\<lambda>(off, len) s. carries 77 [1, 2, 3, 4] off len s) ?chunks ?segs"
    by (simp add: carries_def data_at_def tcp_flag_defs)
  have s: "length [1, 2, 3, 4 :: u8] < 2 ^ 32" by simp
  obtain m where m: "recv_buf_chirho (fst (receive_all 0 sample_socket ?segs)) = take m [1, 2, 3, 4]"
    "\<forall>lens. 0 + sum_list lens = length [1, 2, 3, 4 :: u8]
       \<and> (\<forall>(off, len)\<in>set ?chunks. off < 0 \<or> (off, len) \<in> set (pieces 0 lens))
       \<and> subseq (pieces 0 lens) ?chunks \<longrightarrow> m = length [1, 2, 3, 4 :: u8]"
    using received_stream_is_prefix [OF k s c run] by blast
  have "m = 4" using m(2) [rule_format, of "[2, 2]"] by simp
  then show ?thesis using m(1) by simp
qed

text \<open>A segment of an established connection that carries both data and FIN is
  acknowledged up to and including the FIN, whatever its sequence number, but its data
  never reaches the receive buffer: the connection is in CLOSE-WAIT by then.\<close>

theorem fin_segment_loses_data:
  assumes "tcp_state_chirho (tcb_chirho k) = EstablishedChirho"
    and "has_flag s TCP_FIN_CHIRHO" "\<not> has_flag s TCP_RST_CHIRHO"
    and "receive_segment counter k s = (counter', k', response, wakes)"
  shows "recv_buf_chirho k' = recv_buf_chirho k
    \<and> tcp_state_chirho (tcb_chirho k') = CloseWaitChirho
    \<and> (\<exists>r. response = Some r \<and> ack_num_chirho r = seq_num_chirho s + seg_len s + 1)"
  using assms by (rule fin_drops_payload)

theorem fin_segment_loses_data_witness:
  "recv_buf_chirho (fst (snd (receive_segment 0 sample_socket
     (segment_of 9 22 77 1000 (TCP_ACK_CHIRHO OR TCP_FIN_CHIRHO) 100 [1, 2])))) = []"
proof -
  let ?s = "segment_of 9 22 77 1000 (TCP_ACK_CHIRHO OR TCP_FIN_CHIRHO) 100 [1, 2]"
  obtain c k r w where run: "receive_segment 0 sample_socket ?s = (c, k, r, w)"
    by (metis prod_cases4)
  have "tcp_state_chirho (tcb_chirho sample_socket) = EstablishedChirho" "recv_buf_chirho sample_socket = []"
    by (simp_all add: sample_socket_def socket_new_chirho_def sample_tcb_def)
  then show ?thesis
    unfolding run using fin_segment_loses_data [OF _ _ _ run] by (simp add: tcp_flag_defs)
qed

text \<open>A segment with SYN and ACK sent to a listening port is handed to the listening
  socket itself, which leaves LISTEN for SYN-RECEIVED.\<close>

theorem syn_ack_takes_listener:
  assumes "find_target s 0 None table = (None, Some l)"
    and "get_opt table l = Some (Some k)" "tcp_state_chirho (tcb_chirho k) = ListenChirho"
    and "has_flag s TCP_SYN_CHIRHO" "has_flag s TCP_ACK_CHIRHO" "\<not> has_flag s TCP_RST_CHIRHO"
    and "deliver_segment counter table h s = (counter', table', outs)"
  shows "\<exists>k'. get_opt table' l = Some (Some k')
    \<and> tcp_state_chirho (tcb_chirho k') = SynReceivedChirho"
  using assms by (rule syn_ack_captures_listener)

definition listening_table :: socket_table where
  "listening_table =
     [Some ((socket_new_chirho 2 1 6)\<lparr>local_addr_chirho := Some \<lparr>port_chirho = 22, addr_chirho = 0\<rparr>,
        sock_state_chirho := ListeningChirho,
        tcb_chirho := tcb_new_chirho\<lparr>tcp_state_chirho := ListenChirho\<rparr>\<rparr>), None]"

definition sample_header :: Ipv4HeaderChirho where
  "sample_header =
     \<lparr>version_chirho = 4, ihl_chirho = 5, tos_chirho = 0, total_length_chirho = 40, ip_id_chirho = 0,
      ip_flags_chirho = 2, fragment_offset_chirho = 0, ttl_chirho = 64, protocol_chirho = 6,
      ip_checksum_chirho = 0, src_ip_chirho = 0x0A000202, dst_ip_chirho = 0x0A00020F\<rparr>"

theorem syn_ack_takes_listener_witness:
  "\<exists>k'. get_opt (fst (snd (deliver_segment 0 listening_table sample_header
       (segment_of 9 22 5 0 (TCP_SYN_CHIRHO OR TCP_ACK_CHIRHO) 100 [])))) 0 = Some (Some k')
     \<and> tcp_state_chirho (tcb_chirho k') = SynReceivedChirho"
proof -
  let ?s = "segment_of 9 22 5 0 (TCP_SYN_CHIRHO OR TCP_ACK_CHIRHO) 100 []"
  let ?k = "(socket_new_chirho 2 1 6)\<lparr>local_addr_chirho := Some \<lparr>port_chirho = 22, addr_chirho = 0\<rparr>,
        sock_state_chirho := ListeningChirho,
        tcb_chirho := tcb_new_chirho\<lparr>tcp_state_chirho := ListenChirho\<rparr>\<rparr>"
  obtain c t o' where run: "deliver_segment 0 listening_table sample_header ?s = (c, t, o')"
    by (metis prod_cases3)
  have "find_target ?s 0 None listening_table = (None, Some 0)"
    by (simp add: listening_table_def socket_new_chirho_def local_port_def)
  moreover have "get_opt listening_table 0 = Some (Some ?k)"
    by (simp add: listening_table_def get_opt_def)
  ultimately show ?thesis
    unfolding run using syn_ack_takes_listener [OF _ _ _ _ _ _ run, of 0 ?k]
    by (simp add: tcp_flag_defs)
qed

end
