(* ===== verification/Net_Stack.thy ===== *)
theory Net_Stack
  imports Net_Socket
begin

unbundle bit_operations_syntax

text \<open>
  Routing, address resolution and dispatch in \<^verbatim>\<open>net_core_chirho.rs\<close>: the routing table
  with its longest-prefix match, the ARP cache, ICMP echo, the dispatch of received
  frames to ARP, ICMP, UDP and TCP, and the way of an outgoing IP packet to a device.
  Device drivers are outside: frames to send are outputs.  What is proved: the route
  chosen is the best match, and an echo request is answered by its echo reply.
\<close>

section \<open>Routing table\<close>

record RouteEntryChirho =
  dest_chirho :: u32
  mask_chirho :: u32
  gateway_chirho :: u32
  iface_idx_chirho :: nat
  metric_chirho :: u32

definition count_ones :: "u32 \<Rightarrow> nat" where
  "count_ones w = length (filter (bit w) [0..<32])"

definition prefix_len_chirho :: "RouteEntryChirho \<Rightarrow> nat" where
  "prefix_len_chirho e = count_ones (mask_chirho e)"

definition matches_chirho :: "RouteEntryChirho \<Rightarrow> u32 \<Rightarrow> bool" where
  "matches_chirho e addr \<longleftrightarrow> addr AND mask_chirho e = dest_chirho e AND mask_chirho e"

definition add_route_chirho :: "RouteEntryChirho \<Rightarrow> RouteEntryChirho list \<Rightarrow> RouteEntryChirho list" where
  "add_route_chirho e entries = entries @ [e]"

definition remove_route_chirho :: "u32 \<Rightarrow> u32 \<Rightarrow> RouteEntryChirho list \<Rightarrow> RouteEntryChirho list" where
  "remove_route_chirho dest msk entries =
     filter (\<lambda>e. dest_chirho e \<noteq> dest \<or> mask_chirho e \<noteq> msk) entries"

definition should_replace :: "RouteEntryChirho option \<Rightarrow> nat \<Rightarrow> RouteEntryChirho \<Rightarrow> bool" where
  "should_replace best best_len e =
     (case best of
        None \<Rightarrow> True
      | Some b \<Rightarrow> prefix_len_chirho e > best_len
          \<or> (prefix_len_chirho e = best_len \<and> metric_chirho e < metric_chirho b))"

fun lookup_loop ::
  "u32 \<Rightarrow> RouteEntryChirho option \<Rightarrow> nat \<Rightarrow> RouteEntryChirho list \<Rightarrow> RouteEntryChirho option" where
  "lookup_loop dst best best_len [] = best"
| "lookup_loop dst best best_len (e # es) =
     (if matches_chirho e dst \<and> should_replace best best_len e
      then lookup_loop dst (Some e) (prefix_len_chirho e) es
      else lookup_loop dst best best_len es)"

definition lookup_chirho :: "RouteEntryChirho list \<Rightarrow> u32 \<Rightarrow> (u32 \<times> nat) option" where
  "lookup_chirho entries dst =
     map_option (\<lambda>e. (gateway_chirho e, iface_idx_chirho e)) (lookup_loop dst None 0 entries)"

definition ip4_chirho :: "u8 \<Rightarrow> u8 \<Rightarrow> u8 \<Rightarrow> u8 \<Rightarrow> u32" where
  "ip4_chirho a b c d =
     push_bit 24 (ucast a) OR push_bit 16 (ucast b) OR push_bit 8 (ucast c) OR ucast d"

definition init_routing_table_chirho :: "nat \<Rightarrow> nat option \<Rightarrow> RouteEntryChirho list" where
  "init_routing_table_chirho loopback nic =
     add_route_chirho \<lparr>dest_chirho = ip4_chirho 127 0 0 0, mask_chirho = ip4_chirho 255 0 0 0,
       gateway_chirho = 0, iface_idx_chirho = loopback, metric_chirho = 0\<rparr> []
     @ (case nic of
          None \<Rightarrow> []
        | Some i \<Rightarrow> add_route_chirho \<lparr>dest_chirho = 0, mask_chirho = 0,
            gateway_chirho = ip4_chirho 10 0 2 2, iface_idx_chirho = i, metric_chirho = 100\<rparr> [])"

definition ENETUNREACH_CHIRHO :: i64 where "ENETUNREACH_CHIRHO = 101"

definition route_packet_chirho :: "RouteEntryChirho list \<Rightarrow> u32 \<Rightarrow> i64 + (u32 \<times> nat)" where
  "route_packet_chirho entries dst =
     (case lookup_chirho entries dst of Some r \<Rightarrow> Inr r | None \<Rightarrow> Inl (- ENETUNREACH_CHIRHO))"

definition is_loopback_addr_chirho :: "u32 \<Rightarrow> bool" where
  "is_loopback_addr_chirho addr \<longleftrightarrow> drop_bit 24 addr = 127"

definition first_nonzero :: "(u32 \<Rightarrow> bool) \<Rightarrow> u32 list \<Rightarrow> nat \<Rightarrow> u32 option" where
  "first_nonzero ok ips n =
     find (\<lambda>ip. ip \<noteq> 0 \<and> ok ip) (map (get_interface_ip_chirho ips) [0..<n])"

definition resolve_tcp_source_ip_chirho ::
  "RouteEntryChirho list \<Rightarrow> u32 list \<Rightarrow> nat \<Rightarrow> u32 \<Rightarrow> u32 \<Rightarrow> u32" where
  "resolve_tcp_source_ip_chirho entries ips devices hint remote =
     (if hint \<noteq> 0 then hint
      else let routed = (case route_packet_chirho entries remote of
                 Inr (_, i) \<Rightarrow> get_interface_ip_chirho ips i | Inl _ \<Rightarrow> 0)
        in if routed \<noteq> 0 then routed
           else case first_nonzero (\<lambda>ip. \<not> is_loopback_addr_chirho ip) ips devices of
                  Some ip \<Rightarrow> ip
                | None \<Rightarrow> (case first_nonzero (\<lambda>_. True) ips devices of Some ip \<Rightarrow> ip | None \<Rightarrow> 0))"

section \<open>ARP cache\<close>

record ArpCacheEntryChirho =
  arp_ip_chirho :: u32
  arp_mac_chirho :: bytes

fun arp_lookup_chirho :: "ArpCacheEntryChirho list \<Rightarrow> u32 \<Rightarrow> bytes option" where
  "arp_lookup_chirho [] ip = None"
| "arp_lookup_chirho (e # es) ip =
     (if arp_ip_chirho e = ip then Some (arp_mac_chirho e) else arp_lookup_chirho es ip)"

fun arp_insert_chirho :: "u32 \<Rightarrow> bytes \<Rightarrow> ArpCacheEntryChirho list \<Rightarrow> ArpCacheEntryChirho list" where
  "arp_insert_chirho ip mac [] = [\<lparr>arp_ip_chirho = ip, arp_mac_chirho = mac\<rparr>]"
| "arp_insert_chirho ip mac (e # es) =
     (if arp_ip_chirho e = ip then e\<lparr>arp_mac_chirho := mac\<rparr> # es
      else e # arp_insert_chirho ip mac es)"

text \<open>What the stack needs of an address cache: a binding is found after it was inserted
  and no other one changes.\<close>

locale address_cache =
  fixes cache_lookup :: "'c \<Rightarrow> 'k \<Rightarrow> 'v option"
    and cache_insert :: "'k \<Rightarrow> 'v \<Rightarrow> 'c \<Rightarrow> 'c"
  assumes lookup_insert: "cache_lookup (cache_insert k v c) k' = (if k' = k then Some v else cache_lookup c k')"
begin

lemma lookup_inserts:
  "cache_lookup (fold (\<lambda>(k, v). cache_insert k v) bs c) k
     = (case map_of (rev bs) k of Some v \<Rightarrow> Some v | None \<Rightarrow> cache_lookup c k)"
  by (induction bs arbitrary: c) (auto simp: lookup_insert map_add_def split: option.splits)

lemma insert_idem: "cache_lookup (cache_insert k v (cache_insert k v c)) k' = cache_lookup (cache_insert k v c) k'"
  by (simp add: lookup_insert)

end

interpretation arp: address_cache arp_lookup_chirho arp_insert_chirho
proof
  show "arp_lookup_chirho (arp_insert_chirho ip mac c) ip'
      = (if ip' = ip then Some mac else arp_lookup_chirho c ip')" for ip ip' mac c
    by (induction c) auto
qed

definition distinct_ips :: "ArpCacheEntryChirho list \<Rightarrow> bool" where
  "distinct_ips c \<longleftrightarrow> distinct (map arp_ip_chirho c)"

lemma arp_insert_ips: "set (map arp_ip_chirho (arp_insert_chirho ip mac c)) = insert ip (set (map arp_ip_chirho c))"
  by (induction c) auto

lemma arp_insert_distinct: "distinct_ips c \<Longrightarrow> distinct_ips (arp_insert_chirho ip mac c)"
  unfolding distinct_ips_def
proof (induction c)
  case (Cons e es)
  then show ?case using arp_insert_ips [of ip mac es] by auto
qed simp

section \<open>State and outputs of the stack\<close>

text \<open>A device is the loopback device, whose queue holds the packets sent to it, or a
  network card, whose queue holds the frames its driver has received.\<close>

record net_device =
  dev_loopback :: bool
  dev_mac :: bytes
  dev_queue :: "bytes list"

record net_state =
  sockets :: socket_table
  iss_counter :: u64
  routes :: "RouteEntryChirho list"
  arp_cache :: "ArpCacheEntryChirho list"
  iface_ips :: "u32 list"
  devices :: "net_device list"

datatype stack_out =
  SendFrame nat bytes
| SocketOut net_out

definition loopback_new_chirho :: net_device where
  "loopback_new_chirho = \<lparr>dev_loopback = True, dev_mac = replicate 6 0, dev_queue = []\<rparr>"

definition send_packet_chirho :: "net_state \<Rightarrow> nat \<Rightarrow> bytes \<Rightarrow> net_state \<times> stack_out list" where
  "send_packet_chirho st i d =
     (case get_opt (devices st) i of
        None \<Rightarrow> (st, [])
      | Some dev \<Rightarrow>
          if dev_loopback dev
          then (st\<lparr>devices := (devices st)[i := dev\<lparr>dev_queue := dev_queue dev @ [d]\<rparr>]\<rparr>, [])
          else (st, [SendFrame i d]))"

definition recv_packet_chirho :: "net_state \<Rightarrow> nat \<Rightarrow> net_state \<times> bytes option" where
  "recv_packet_chirho st i =
     (case get_opt (devices st) i of
        None \<Rightarrow> (st, None)
      | Some dev \<Rightarrow>
          (case dev_queue dev of
             [] \<Rightarrow> (st, None)
           | d # queue \<Rightarrow> (st\<lparr>devices := (devices st)[i := dev\<lparr>dev_queue := queue\<rparr>]\<rparr>, Some d)))"

definition LOOPBACK_IP_CHIRHO :: u32 where "LOOPBACK_IP_CHIRHO = 0x7F000001"

text \<open>\<^verbatim>\<open>init_networking_chirho\<close> up to DHCP: the loopback device is appended behind the cards
  found before.\<close>

definition init_networking_chirho :: "net_state \<Rightarrow> net_state" where
  "init_networking_chirho st =
     (let devs = devices st @ [loopback_new_chirho]; lo = length devs - 1
      in st\<lparr>devices := devs,
            iface_ips := set_interface_ip_chirho (iface_ips st) lo LOOPBACK_IP_CHIRHO,
            routes := init_routing_table_chirho lo (if length devs > 1 then Some 0 else None)\<rparr>)"

section \<open>ICMP echo\<close>

definition handle_icmp_echo_chirho :: "Ipv4HeaderChirho \<Rightarrow> IcmpPacketChirho \<Rightarrow> bytes option" where
  "handle_icmp_echo_chirho h p =
     (if type_chirho p \<noteq> ICMP_ECHO_REQUEST_CHIRHO then None
      else Some (build_ipv4_packet IP_PROTO_ICMP_CHIRHO 0 (dst_ip_chirho h) (src_ip_chirho h)
        (icmp_build_chirho \<lparr>type_chirho = ICMP_ECHO_REPLY_CHIRHO, code_chirho = 0,
           icmp_checksum_chirho = 0, icmp_id_chirho = icmp_id_chirho p,
           sequence_chirho = sequence_chirho p, icmp_data_chirho = icmp_data_chirho p\<rparr>)))"

definition send_icmp_echo_request_chirho :: "u64 \<Rightarrow> u64 \<Rightarrow> u32 \<Rightarrow> u32 \<Rightarrow> bytes \<Rightarrow> u64 \<times> bytes" where
  "send_icmp_echo_request_chirho echo_id echo_seq src_ip dst_ip payload =
     (echo_seq + 1,
      build_ipv4_packet IP_PROTO_ICMP_CHIRHO 2 src_ip dst_ip
        (icmp_build_chirho \<lparr>type_chirho = ICMP_ECHO_REQUEST_CHIRHO, code_chirho = 0,
           icmp_checksum_chirho = 0, icmp_id_chirho = ucast echo_id,
           sequence_chirho = ucast echo_seq, icmp_data_chirho = payload\<rparr>))"

section \<open>Received packets and frames\<close>

definition process_ipv4_packet_chirho ::
  "net_state \<Rightarrow> bytes \<Rightarrow> net_state \<times> bytes option \<times> stack_out list" where
  "process_ipv4_packet_chirho st d =
     (case ipv4_parse_chirho d of
        None \<Rightarrow> (st, None, [])
      | Some h \<Rightarrow>
          let hdr_len = unat (ihl_chirho h) * 4
          in if length d < hdr_len then (st, None, [])
             else if protocol_chirho h = IP_PROTO_ICMP_CHIRHO then
               (case icmp_parse_chirho (drop hdr_len d) of
                  None \<Rightarrow> (st, None, [])
                | Some p \<Rightarrow> (st, handle_icmp_echo_chirho h p, []))
             else if protocol_chirho h = IP_PROTO_UDP_CHIRHO then
               (case udp_parse_chirho (drop hdr_len d) of
                  None \<Rightarrow> (st, None, [])
                | Some u \<Rightarrow>
                    let (table, outs) = deliver_udp_packet_chirho (sockets st) h u
                    in (st\<lparr>sockets := table\<rparr>, None, map SocketOut outs))
             else if protocol_chirho h = IP_PROTO_TCP_CHIRHO then
               let (counter, table, outs) =
                     deliver_tcp_from_frame_chirho (iss_counter st) (sockets st) d
               in (st\<lparr>sockets := table, iss_counter := counter\<rparr>, None, map SocketOut outs)
             else (st, None, []))"

definition handle_arp_chirho :: "net_state \<Rightarrow> ArpPacketChirho \<Rightarrow> nat \<Rightarrow> net_state \<times> stack_out list" where
  "handle_arp_chirho st p i =
     (let st' = st\<lparr>arp_cache := arp_insert_chirho (sender_pa_chirho p) (sender_ha_chirho p) (arp_cache st)\<rparr>;
          our_ip = get_interface_ip_chirho (iface_ips st) i
      in if operation_chirho p = ARP_OP_REQUEST_CHIRHO \<and> target_pa_chirho p = our_ip \<and> our_ip \<noteq> 0
         then case map_option dev_mac (get_opt (devices st) i) of
                None \<Rightarrow> (st', [])
              | Some our_mac \<Rightarrow>
                  send_packet_chirho st' i (eth_build_chirho
                    \<lparr>dst_mac_chirho = sender_ha_chirho p, src_mac_chirho = our_mac,
                     ethertype_chirho = ETHERTYPE_ARP_CHIRHO,
                     payload_chirho = arp_build_chirho
                       \<lparr>htype_chirho = ARP_HTYPE_ETHERNET_CHIRHO, ptype_chirho = ETHERTYPE_IPV4_CHIRHO,
                        hlen_chirho = 6, plen_chirho = 4, operation_chirho = ARP_OP_REPLY_CHIRHO,
                        sender_ha_chirho = our_mac, sender_pa_chirho = our_ip,
                        target_ha_chirho = sender_ha_chirho p,
                        target_pa_chirho = sender_pa_chirho p\<rparr>\<rparr>)
         else (st', []))"

section \<open>Outgoing packets\<close>

definition arp_request_chirho :: "net_state \<Rightarrow> u32 \<Rightarrow> nat \<Rightarrow> net_state \<times> stack_out list" where
  "arp_request_chirho st target i =
     (case map_option dev_mac (get_opt (devices st) i) of
        None \<Rightarrow> (st, [])
      | Some our_mac \<Rightarrow>
          send_packet_chirho st i (eth_build_chirho
             \<lparr>dst_mac_chirho = replicate 6 0xFF, src_mac_chirho = our_mac,
              ethertype_chirho = ETHERTYPE_ARP_CHIRHO,
              payload_chirho = arp_build_chirho
                \<lparr>htype_chirho = ARP_HTYPE_ETHERNET_CHIRHO, ptype_chirho = ETHERTYPE_IPV4_CHIRHO,
                 hlen_chirho = 6, plen_chirho = 4, operation_chirho = ARP_OP_REQUEST_CHIRHO,
                 sender_ha_chirho = our_mac,
                 sender_pa_chirho = get_interface_ip_chirho (iface_ips st) i,
                 target_ha_chirho = replicate 6 0, target_pa_chirho = target\<rparr>\<rparr>))"

text \<open>The polling of \<^verbatim>\<open>arp_resolve_chirho\<close> runs the receive path, which can change any part
  of the state: \<^term>\<open>polls\<close> gives the state after each poll, by the number of tries left.\<close>

fun arp_wait :: "(nat \<Rightarrow> net_state) \<Rightarrow> nat \<Rightarrow> u32 \<Rightarrow> net_state \<Rightarrow> net_state \<times> bytes option" where
  "arp_wait polls 0 target st = (st, None)"
| "arp_wait polls (Suc tries) target st =
     (case arp_lookup_chirho (arp_cache (polls tries)) target of
        Some mac \<Rightarrow> (polls tries, Some mac)
      | None \<Rightarrow> arp_wait polls tries target (polls tries))"

definition arp_resolve_chirho ::
  "(nat \<Rightarrow> net_state) \<Rightarrow> net_state \<Rightarrow> u32 \<Rightarrow> nat \<Rightarrow> net_state \<times> bytes option \<times> stack_out list" where
  "arp_resolve_chirho polls st target i =
     (case arp_lookup_chirho (arp_cache st) target of
        Some mac \<Rightarrow> (st, Some mac, [])
      | None \<Rightarrow>
          if target = 0xFFFFFFFF then (st, Some (replicate 6 0xFF), [])
          else let (st1, outs) = arp_request_chirho st target i;
                   (st2, mac) = arp_wait polls 1000 target st1
            in (st2, mac, outs))"

text \<open>\<^verbatim>\<open>loopback_send_and_receive_chirho\<close>: the packet goes through device 0, whatever that is.\<close>

definition loopback_send_and_receive_chirho ::
  "net_state \<Rightarrow> bytes \<Rightarrow> net_state \<times> bytes option \<times> stack_out list" where
  "loopback_send_and_receive_chirho st d =
     (let (st1, sent) = send_packet_chirho st 0 d;
          (st2, received) = recv_packet_chirho st1 0
      in case received of
           Some pkt \<Rightarrow>
             if pkt \<noteq> [] \<and> drop_bit 4 (pkt ! 0) = 4
             then let (st3, response, outs) = process_ipv4_packet_chirho st2 pkt
               in (st3, response, sent @ outs)
             else (st2, None, sent)
         | None \<Rightarrow> (st2, None, sent))"

definition ping_loopback_chirho ::
  "net_state \<Rightarrow> u64 \<Rightarrow> u64 \<Rightarrow> bytes \<Rightarrow> net_state \<times> bytes option \<times> stack_out list" where
  "ping_loopback_chirho st echo_id echo_seq payload =
     loopback_send_and_receive_chirho st
       (snd (send_icmp_echo_request_chirho echo_id echo_seq LOOPBACK_IP_CHIRHO LOOPBACK_IP_CHIRHO payload))"

definition send_ip_packet_chirho ::
  "(nat \<Rightarrow> net_state) \<Rightarrow> net_state \<Rightarrow> bytes \<Rightarrow> net_state \<times> (i64 + unit) \<times> stack_out list" where
  "send_ip_packet_chirho polls st d =
     (if length d < 20 then (st, Inl (- EINVAL_CHIRHO), [])
      else let dst = be_u32 (d ! 16) (d ! 17) (d ! 18) (d ! 19)
        in if is_loopback_addr_chirho dst then
             let (st', _, outs) = loopback_send_and_receive_chirho st d in (st', Inr (), outs)
           else case route_packet_chirho (routes st) dst of
             Inl e \<Rightarrow> (st, Inl e, [])
           | Inr (gateway, i) \<Rightarrow>
               let next_hop = (if gateway = 0 then dst else gateway);
                   (st', mac, outs) = arp_resolve_chirho polls st next_hop i;
                   dst_mac = (case mac of Some m \<Rightarrow> m | None \<Rightarrow> replicate 6 0xFF)
               in case get_opt (devices st') i of
                    None \<Rightarrow> (st', Inl (- ENETUNREACH_CHIRHO), outs)
                  | Some dev \<Rightarrow>
                      let (st'', sent) = send_packet_chirho st' i (eth_build_chirho
                            \<lparr>dst_mac_chirho = dst_mac, src_mac_chirho = dev_mac dev,
                             ethertype_chirho = ETHERTYPE_IPV4_CHIRHO, payload_chirho = d\<rparr>)
                      in (st'', Inr (), outs @ sent))"

definition process_received_frame_chirho ::
  "(nat \<Rightarrow> net_state) \<Rightarrow> net_state \<Rightarrow> bytes \<Rightarrow> nat \<Rightarrow> net_state \<times> stack_out list" where
  "process_received_frame_chirho polls st frame i =
     (case eth_parse_chirho frame of
        None \<Rightarrow> (st, [])
      | Some f \<Rightarrow>
          if ethertype_chirho f = ETHERTYPE_ARP_CHIRHO then
            (case arp_parse_chirho (payload_chirho f) of
               None \<Rightarrow> (st, [])
             | Some p \<Rightarrow> handle_arp_chirho st p i)
          else if ethertype_chirho f = ETHERTYPE_IPV4_CHIRHO then
            let (st', response, outs) = process_ipv4_packet_chirho st (payload_chirho f)
            in case response of
                 None \<Rightarrow> (st', outs)
               | Some r \<Rightarrow>
                   let (st'', _, outs') = send_ip_packet_chirho polls st' r in (st'', outs @ outs')
          else (st, []))"

section \<open>The best route\<close>

definition better_route :: "RouteEntryChirho \<Rightarrow> RouteEntryChirho \<Rightarrow> bool" where
  "better_route a b \<longleftrightarrow> prefix_len_chirho b < prefix_len_chirho a
     \<or> (prefix_len_chirho b = prefix_len_chirho a \<and> metric_chirho a \<le> metric_chirho b)"

lemma better_refl: "better_route a a"
  by (simp add: better_route_def)

lemma better_trans: "better_route a b \<Longrightarrow> better_route b c \<Longrightarrow> better_route a c"
  by (auto simp: better_route_def)

lemma better_total: "better_route a b \<or> better_route b a"
  by (auto simp: better_route_def)

lemma lookup_loop_best:
  "(case lookup_loop dst best (case best of Some b \<Rightarrow> prefix_len_chirho b | None \<Rightarrow> 0) es of
      None \<Rightarrow> best = None \<and> (\<forall>e\<in>set es. \<not> matches_chirho e dst)
    | Some r \<Rightarrow> (Some r = best \<or> r \<in> set es \<and> matches_chirho r dst)
        \<and> (\<forall>b. best = Some b \<longrightarrow> better_route r b)
        \<and> (\<forall>e\<in>set es. matches_chirho e dst \<longrightarrow> better_route r e))"
proof (induction es arbitrary: best)
  case Nil
  then show ?case by (cases best) (simp_all add: better_refl)
next
  case (Cons e es)
  let ?len = "case best of Some b \<Rightarrow> prefix_len_chirho b | None \<Rightarrow> 0"
  show ?case
  proof (cases "matches_chirho e dst \<and> should_replace best ?len e")
    case True
    then have "\<forall>b. best = Some b \<longrightarrow> better_route e b"
      by (auto simp: should_replace_def better_route_def)
    with True Cons.IH [of "Some e"] show ?thesis
      by (auto split: option.splits intro: better_trans better_refl)
  next
    case False
    then have "matches_chirho e dst \<Longrightarrow> \<exists>b. best = Some b \<and> better_route b e"
      by (cases best) (auto simp: should_replace_def better_route_def)
    with False Cons.IH [of best] show ?thesis
      by (auto split: option.splits intro: better_trans)
  qed
qed

section \<open>Properties\<close>

text \<open>C26. The route chosen for an address is a matching entry of the table with the
  longest prefix and, among those, the lowest metric; no route is found exactly when
  no entry matches, and then the packet is refused with ENETUNREACH.\<close>

theorem route_is_best:
  "(case route_packet_chirho entries dst of
      Inl e \<Rightarrow> e = - ENETUNREACH_CHIRHO \<and> (\<forall>r\<in>set entries. \<not> matches_chirho r dst)
    | Inr (gateway, i) \<Rightarrow>
        \<exists>r\<in>set entries. matches_chirho r dst \<and> gateway_chirho r = gateway \<and> iface_idx_chirho r = i
          \<and> (\<forall>r'\<in>set entries. matches_chirho r' dst \<longrightarrow>
               prefix_len_chirho r' < prefix_len_chirho r
               \<or> prefix_len_chirho r' = prefix_len_chirho r \<and> metric_chirho r \<le> metric_chirho r'))"
  using lookup_loop_best [where dst = dst and best = None and es = entries]
  by (auto simp: route_packet_chirho_def lookup_chirho_def better_route_def split: option.splits)

definition two_routes :: "RouteEntryChirho list" where
  "two_routes = init_routing_table_chirho 1 (Some 0)"

theorem route_is_best_witness:
  "(\<exists>r\<in>set two_routes. matches_chirho r 0x7F000001
      \<and> route_packet_chirho two_routes 0x7F000001 = Inr (gateway_chirho r, iface_idx_chirho r))
   \<and> \<not> (\<forall>r\<in>set two_routes. \<not> matches_chirho r 0x7F000001)"
proof -
  have some: "matches_chirho \<lparr>dest_chirho = ip4_chirho 127 0 0 0, mask_chirho = ip4_chirho 255 0 0 0,
       gateway_chirho = 0, iface_idx_chirho = 1, metric_chirho = 0\<rparr> 0x7F000001"
    "\<lparr>dest_chirho = ip4_chirho 127 0 0 0, mask_chirho = ip4_chirho 255 0 0 0,
       gateway_chirho = 0, iface_idx_chirho = 1, metric_chirho = 0\<rparr> \<in> set two_routes"
    by (simp_all add: matches_chirho_def ip4_chirho_def two_routes_def init_routing_table_chirho_def
        add_route_chirho_def)
  then show ?thesis
    using route_is_best [of two_routes "0x7F000001"] by (auto split: sum.splits)
qed

text \<open>An echo request built by the kernel and given to its own receive path is answered
  by one packet with the addresses exchanged, whose ICMP message is the echo reply
  with the same identifier, sequence number and data and a checksum that verifies;
  no socket and no table changes.\<close>

theorem echo_request_is_answered:
  assumes "length payload \<le> 65507"
  shows "\<exists>reply h p. process_ipv4_packet_chirho st
        (snd (send_icmp_echo_request_chirho echo_id echo_seq src_ip dst_ip payload)) = (st, Some reply, [])
    \<and> ipv4_parse_chirho reply = Some h \<and> src_ip_chirho h = dst_ip \<and> dst_ip_chirho h = src_ip
    \<and> icmp_parse_chirho (drop 20 reply) = Some p \<and> type_chirho p = ICMP_ECHO_REPLY_CHIRHO
    \<and> icmp_id_chirho p = ucast echo_id \<and> sequence_chirho p = ucast echo_seq
    \<and> icmp_data_chirho p = payload \<and> ipv4_checksum_chirho (drop 20 reply) = 0"
proof -
  define message where "message type = \<lparr>type_chirho = type, code_chirho = 0, icmp_checksum_chirho = 0,
      icmp_id_chirho = ucast echo_id, sequence_chirho = ucast echo_seq, icmp_data_chirho = payload\<rparr>"
    for type
  define request where "request = icmp_build_chirho (message ICMP_ECHO_REQUEST_CHIRHO)"
  define answer where "answer = icmp_build_chirho (message ICMP_ECHO_REPLY_CHIRHO)"
  define reply where "reply = build_ipv4_packet IP_PROTO_ICMP_CHIRHO 0 dst_ip src_ip answer"
  have len: "length request \<le> 65515" "length answer \<le> 65515"
    using assms by (simp_all add: request_def answer_def message_def)
  obtain h where h: "ipv4_parse_chirho (build_ipv4_packet IP_PROTO_ICMP_CHIRHO 2 src_ip dst_ip request) = Some h"
    "protocol_chirho h = IP_PROTO_ICMP_CHIRHO" "src_ip_chirho h = src_ip" "dst_ip_chirho h = dst_ip"
    "ihl_chirho h = 5"
    by (rule ipv4_packet_parts [OF _ len(1), of 2]) auto
  obtain g where g: "ipv4_parse_chirho reply = Some g" "src_ip_chirho g = dst_ip" "dst_ip_chirho g = src_ip"
    unfolding reply_def by (rule ipv4_packet_parts [OF _ len(2), of 0]) auto
  have sent: "snd (send_icmp_echo_request_chirho echo_id echo_seq src_ip dst_ip payload)
      = build_ipv4_packet IP_PROTO_ICMP_CHIRHO 2 src_ip dst_ip request"
    by (simp add: send_icmp_echo_request_chirho_def request_def message_def)
  have parsed: "icmp_parse_chirho request = Some ((message ICMP_ECHO_REQUEST_CHIRHO)\<lparr>icmp_checksum_chirho
          := ipv4_checksum_chirho (icmp_zeroed (message ICMP_ECHO_REQUEST_CHIRHO))\<rparr>)"
    by (simp only: request_def icmp_roundtrip)
  have "process_ipv4_packet_chirho st
        (snd (send_icmp_echo_request_chirho echo_id echo_seq src_ip dst_ip payload)) = (st, Some reply, [])"
    unfolding sent process_ipv4_packet_chirho_def h(1)
    by (simp add: h parsed) (simp add: handle_icmp_echo_chirho_def h reply_def answer_def message_def)
  moreover have "icmp_parse_chirho (drop 20 reply)
      = Some ((message ICMP_ECHO_REPLY_CHIRHO)\<lparr>icmp_checksum_chirho
          := ipv4_checksum_chirho (icmp_zeroed (message ICMP_ECHO_REPLY_CHIRHO))\<rparr>)"
    by (simp add: reply_def answer_def icmp_roundtrip)
  moreover have "ipv4_checksum_chirho (drop 20 reply) = 0"
    using assms icmp_verifies [of "message ICMP_ECHO_REPLY_CHIRHO"]
    by (simp add: reply_def answer_def) (simp add: message_def)
  ultimately show ?thesis using g by (simp add: message_def)
qed

definition empty_stack :: net_state where
  "empty_stack = \<lparr>sockets = [None, None], iss_counter = 1000, routes = [], arp_cache = [],
     iface_ips = [], devices = []\<rparr>"

theorem echo_request_is_answered_witness:
  "\<exists>reply. fst (snd (process_ipv4_packet_chirho empty_stack
     (snd (send_icmp_echo_request_chirho 1 7 LOOPBACK_IP_CHIRHO LOOPBACK_IP_CHIRHO [1, 2, 3])))) = Some reply"
  using echo_request_is_answered [of "[1, 2, 3]" empty_stack 1 7 LOOPBACK_IP_CHIRHO LOOPBACK_IP_CHIRHO]
  by auto

text \<open>When a network card was registered before networking is initialised, the
  loopback device is not device 0, but the loopback path uses device 0: a packet to
  127.0.0.0/8 leaves on the network card.\<close>

theorem loopback_leaves_on_card:
  assumes "devices st = nic # nics" and "\<not> dev_loopback nic"
    and "20 \<le> length d" and "is_loopback_addr_chirho (be_u32 (d ! 16) (d ! 17) (d ! 18) (d ! 19))"
    and "send_ip_packet_chirho polls (init_networking_chirho st) d = (st', result, outs)"
  shows "hd outs = SendFrame 0 d"
  using assms
  by (auto simp: send_ip_packet_chirho_def init_networking_chirho_def loopback_send_and_receive_chirho_def
      send_packet_chirho_def get_opt_def Let_def split_beta split: option.splits if_splits)

definition one_card :: net_state where
  "one_card = empty_stack\<lparr>devices := [\<lparr>dev_loopback = False, dev_mac = [2, 0, 0, 0, 0, 1], dev_queue = []\<rparr>]\<rparr>"

theorem loopback_leaves_on_card_witness:
  "hd (snd (snd (send_ip_packet_chirho (\<lambda>_. one_card) (init_networking_chirho one_card)
     (build_ipv4_packet 1 0 LOOPBACK_IP_CHIRHO LOOPBACK_IP_CHIRHO []))))
   = SendFrame 0 (build_ipv4_packet 1 0 LOOPBACK_IP_CHIRHO LOOPBACK_IP_CHIRHO [])"
proof -
  let ?d = "build_ipv4_packet 1 0 LOOPBACK_IP_CHIRHO LOOPBACK_IP_CHIRHO []"
  obtain st' r outs where run: "send_ip_packet_chirho (\<lambda>_. one_card) (init_networking_chirho one_card) ?d
      = (st', r, outs)" by (metis prod_cases3)
  have "is_loopback_addr_chirho (be_u32 (?d ! 16) (?d ! 17) (?d ! 18) (?d ! 19))"
    by (simp add: build_ipv4_packet_def ipv4_build_split ipv4_zeroed_def u16_be_def u32_be_def)
      (simp add: is_loopback_addr_chirho_def LOOPBACK_IP_CHIRHO_def)
  then show ?thesis
    unfolding run using loopback_leaves_on_card [OF _ _ _ _ run]
    by (simp add: one_card_def)
qed

end
