(* ===== verification/Unix_Socket.thy ===== *)
theory Unix_Socket
  imports Net_Socket
begin

text \<open>
  The Unix-domain sockets of \<^verbatim>\<open>net_core_chirho.rs\<close>: the table of 64 slots, and the
  operations create, bind, listen, connect, accept, send, receive and the freeing of a
  slot on close.  An index expression on the table that would panic gives \<^term>\<open>None\<close>.
  What is proved: no operation panics and the table stays well formed, a connected
  pair is a stream that keeps order and content, and closing one end leaves the other
  end pointing at a slot that the next socket can take over.
\<close>

definition ECONNREFUSED_CHIRHO :: i64 where "ECONNREFUSED_CHIRHO = 111"

record UnixSocketChirho =
  path_chirho :: "bytes option"
  unix_recv_buf_chirho :: "bytes list"
  peer_idx_chirho :: "nat option"
  unix_sock_type_chirho :: u32
  unix_backlog_chirho :: "nat list"
  listening_chirho :: bool
  listener_pid_chirho :: u64
  owner_pid_chirho :: u64

type_synonym unix_table = "UnixSocketChirho option list"

definition MAX_UNIX_SOCKETS_CHIRHO :: nat where "MAX_UNIX_SOCKETS_CHIRHO = 64"

definition unix_table_new :: unix_table where
  "unix_table_new = replicate MAX_UNIX_SOCKETS_CHIRHO None"

definition free_slot :: "unix_table \<Rightarrow> nat option" where
  "free_slot t = position (\<lambda>s. s = None) t"

definition unix_socket_create_chirho :: "u64 \<Rightarrow> u32 \<Rightarrow> unix_table \<Rightarrow> nat option \<times> unix_table" where
  "unix_socket_create_chirho pid st t =
     (case free_slot t of
        None \<Rightarrow> (None, t)
      | Some i \<Rightarrow>
          (Some i, t[i := Some \<lparr>path_chirho = None, unix_recv_buf_chirho = [], peer_idx_chirho = None,
             unix_sock_type_chirho = st, unix_backlog_chirho = [], listening_chirho = False,
             listener_pid_chirho = 0, owner_pid_chirho = pid\<rparr>]))"

definition unix_socket_bind_chirho :: "nat \<Rightarrow> bytes \<Rightarrow> unix_table \<Rightarrow> (i64 \<times> unix_table) option" where
  "unix_socket_bind_chirho i p t =
     (if list_ex (\<lambda>s. case s of Some k \<Rightarrow> path_chirho k = Some p | None \<Rightarrow> False) t
      then Some (- EADDRINUSE_CHIRHO, t)
      else case get_opt t i of
             None \<Rightarrow> None
           | Some (Some k) \<Rightarrow> Some (0, t[i := Some (k\<lparr>path_chirho := Some p\<rparr>)])
           | Some None \<Rightarrow> Some (- EBADF_CHIRHO, t))"

definition find_listening_unix_socket_by_path_chirho :: "unix_table \<Rightarrow> bytes \<Rightarrow> nat option" where
  "find_listening_unix_socket_by_path_chirho t p =
     position (\<lambda>s. case s of Some k \<Rightarrow> listening_chirho k \<and> path_chirho k = Some p | None \<Rightarrow> False) t"

definition server_side :: "unix_table \<Rightarrow> nat \<Rightarrow> nat \<Rightarrow> UnixSocketChirho" where
  "server_side t sv ci =
     (let (lpath, ltype, lpid) = (case get_opt t sv of
            Some (Some k) \<Rightarrow> (path_chirho k, unix_sock_type_chirho k, listener_pid_chirho k)
          | _ \<Rightarrow> (None, 1, 0))
      in \<lparr>path_chirho = lpath, unix_recv_buf_chirho = [], peer_idx_chirho = Some ci,
          unix_sock_type_chirho = ltype, unix_backlog_chirho = [], listening_chirho = False,
          listener_pid_chirho = 0, owner_pid_chirho = lpid\<rparr>)"

definition push_backlog :: "nat \<Rightarrow> nat \<Rightarrow> unix_table \<Rightarrow> unix_table" where
  "push_backlog sv si t =
     (case t ! sv of
        Some s \<Rightarrow> t[sv := Some (s\<lparr>unix_backlog_chirho := unix_backlog_chirho s @ [si]\<rparr>)]
      | None \<Rightarrow> t)"

definition unix_socket_connect_chirho :: "nat \<Rightarrow> bytes \<Rightarrow> unix_table \<Rightarrow> (i64 \<times> unix_table) option" where
  "unix_socket_connect_chirho ci p t =
     (case find_listening_unix_socket_by_path_chirho t p of
        None \<Rightarrow> Some (- ECONNREFUSED_CHIRHO, t)
      | Some sv \<Rightarrow>
          (case free_slot t of
             None \<Rightarrow> Some (- ECONNREFUSED_CHIRHO, t)
           | Some si \<Rightarrow>
               let t' = push_backlog sv si (t[si := Some (server_side t sv ci)])
               in case get_opt t' ci of
                    None \<Rightarrow> None
                  | Some (Some c) \<Rightarrow> Some (0, t'[ci := Some (c\<lparr>peer_idx_chirho := Some si\<rparr>)])
                  | Some None \<Rightarrow> Some (0, t')))"

definition unix_socket_send_chirho :: "nat \<Rightarrow> bytes \<Rightarrow> unix_table \<Rightarrow> (i64 \<times> unix_table) option" where
  "unix_socket_send_chirho i d t =
     (case get_opt t i of
        Some (Some k) \<Rightarrow>
          (case peer_idx_chirho k of
             None \<Rightarrow> Some (- ENOTCONN_CHIRHO, t)
           | Some pi \<Rightarrow>
               (case get_opt t pi of
                  None \<Rightarrow> None
                | Some (Some peer) \<Rightarrow>
                    Some (int (length d),
                      if d = [] then t
                      else t[pi := Some (peer\<lparr>unix_recv_buf_chirho := unix_recv_buf_chirho peer @ [d]\<rparr>)])
                | Some None \<Rightarrow> Some (- EBADF_CHIRHO, t)))
      | _ \<Rightarrow> Some (- EBADF_CHIRHO, t))"

text \<open>The two loops of \<^verbatim>\<open>unix_socket_recv_bytes_chirho\<close>.\<close>

definition skip_empty :: "bytes list \<Rightarrow> bytes list" where
  "skip_empty buf = dropWhile (\<lambda>e. e = []) buf"

function recv_loop :: "nat \<Rightarrow> bytes \<Rightarrow> bytes list \<Rightarrow> bytes \<times> bytes list" where
  "recv_loop max_len result buf =
     (if length result < max_len then
        let remaining = max_len - length result
        in case buf of
             front # rest \<Rightarrow>
               if front \<noteq> [] then
                 if length front \<le> remaining then recv_loop max_len (result @ front) rest
                 else recv_loop max_len (result @ take remaining front) (drop remaining front # rest)
               else (result, buf)
           | [] \<Rightarrow> (result, buf)
      else (result, buf))"
  by pat_completeness auto

termination recv_loop
  by (relation "measure (\<lambda>(max_len, result, buf). max_len - length result)")
    (auto intro!: diff_less_mono2)

declare recv_loop.simps [simp del]

definition unix_socket_recv_bytes_chirho :: "nat \<Rightarrow> nat \<Rightarrow> unix_table \<Rightarrow> bytes option \<times> unix_table" where
  "unix_socket_recv_bytes_chirho i max_len t =
     (case get_opt t i of
        Some (Some k) \<Rightarrow>
          let buf = skip_empty (unix_recv_buf_chirho k)
          in if buf = [] then (None, t[i := Some (k\<lparr>unix_recv_buf_chirho := buf\<rparr>)])
             else let (result, buf') = recv_loop max_len [] buf
               in (if result = [] then None else Some result,
                   t[i := Some (k\<lparr>unix_recv_buf_chirho := buf'\<rparr>)])
      | _ \<Rightarrow> (None, t))"

definition unix_socket_recv_chirho :: "nat \<Rightarrow> unix_table \<Rightarrow> bytes option \<times> unix_table" where
  "unix_socket_recv_chirho i t = unix_socket_recv_bytes_chirho i 65536 t"

definition unix_socket_listen_chirho :: "u64 \<Rightarrow> nat \<Rightarrow> unix_table \<Rightarrow> i64 \<times> unix_table" where
  "unix_socket_listen_chirho pid i t =
     (case get_opt t i of
        Some (Some k) \<Rightarrow> (0, t[i := Some (k\<lparr>listening_chirho := True, listener_pid_chirho := pid\<rparr>)])
      | _ \<Rightarrow> (- EBADF_CHIRHO, t))"

definition unix_socket_accept_chirho :: "nat \<Rightarrow> unix_table \<Rightarrow> nat option \<times> unix_table" where
  "unix_socket_accept_chirho i t =
     (case get_opt t i of
        Some (Some k) \<Rightarrow>
          if \<not> listening_chirho k then (None, t)
          else (case unix_backlog_chirho k of
                  [] \<Rightarrow> (None, t)
                | s # rest \<Rightarrow> (Some s, t[i := Some (k\<lparr>unix_backlog_chirho := rest\<rparr>)]))
      | _ \<Rightarrow> (None, t))"

text \<open>The Unix part of \<^verbatim>\<open>free_socket_slot_chirho\<close>.\<close>

definition free_unix_slot :: "nat \<Rightarrow> unix_table \<Rightarrow> unix_table" where
  "free_unix_slot i t = (if i < length t then t[i := None] else t)"

text \<open>The map from socket slots to Unix slots; \<^verbatim>\<open>NO_UNIX_MAPPING_CHIRHO\<close> is \<^term>\<open>None\<close>.\<close>

definition register_unix_mapping_chirho :: "nat \<Rightarrow> nat \<Rightarrow> nat option list \<Rightarrow> nat option list" where
  "register_unix_mapping_chirho sock_idx unix_idx m =
     (if sock_idx < length m then m[sock_idx := Some unix_idx] else m)"

definition lookup_unix_idx_chirho :: "nat \<Rightarrow> nat option list \<Rightarrow> nat option" where
  "lookup_unix_idx_chirho sock_idx m = (case get_opt m sock_idx of Some v \<Rightarrow> v | None \<Rightarrow> None)"

definition clear_unix_mapping_chirho :: "nat \<Rightarrow> nat option list \<Rightarrow> nat option list" where
  "clear_unix_mapping_chirho sock_idx m = (if sock_idx < length m then m[sock_idx := None] else m)"

definition is_unix_socket_idx_chirho :: "socket_table \<Rightarrow> nat \<Rightarrow> bool" where
  "is_unix_socket_idx_chirho table i =
     (case get_opt table i of Some (Some k) \<Rightarrow> family_chirho k = 1 | _ \<Rightarrow> False)"

record socket_world =
  w_sockets :: socket_table
  w_mapping :: "nat option list"
  w_unix :: unix_table

definition free_socket_slot_chirho :: "u32 list \<Rightarrow> nat \<Rightarrow> socket_world \<Rightarrow> socket_world \<times> net_out list" where
  "free_socket_slot_chirho ips i w =
     (if is_unix_socket_idx_chirho (w_sockets w) i
      then (w\<lparr>w_unix := (case lookup_unix_idx_chirho i (w_mapping w) of
                  Some u \<Rightarrow> free_unix_slot u (w_unix w) | None \<Rightarrow> w_unix w),
              w_mapping := clear_unix_mapping_chirho i (w_mapping w),
              w_sockets := (w_sockets w)[i := None]\<rparr>, [])
      else let (table, outs) = free_inet_slot_chirho ips (w_sockets w) i
        in (w\<lparr>w_sockets := table\<rparr>, outs))"

section \<open>Well-formed tables\<close>

definition wf_unix_socket :: "nat \<Rightarrow> UnixSocketChirho \<Rightarrow> bool" where
  "wf_unix_socket n k \<longleftrightarrow>
     (\<forall>p. peer_idx_chirho k = Some p \<longrightarrow> p < n) \<and> (\<forall>b\<in>set (unix_backlog_chirho k). b < n)
     \<and> [] \<notin> set (unix_recv_buf_chirho k)"

definition wf_unix :: "unix_table \<Rightarrow> bool" where
  "wf_unix t \<longleftrightarrow> (\<forall>k. Some k \<in> set t \<longrightarrow> wf_unix_socket (length t) k)"

lemma wf_unix_at: "wf_unix t \<Longrightarrow> get_opt t i = Some (Some k) \<Longrightarrow> wf_unix_socket (length t) k"
  by (metis get_opt_Some_iff nth_mem wf_unix_def)

lemma wf_unix_update:
  "wf_unix t \<Longrightarrow> (\<And>k. s = Some k \<Longrightarrow> wf_unix_socket (length t) k) \<Longrightarrow> wf_unix (t[i := s])"
  by (auto simp: wf_unix_def dest!: subsetD [OF set_update_subset_insert])

lemma free_slot_Some: "free_slot t = Some i \<Longrightarrow> i < length t \<and> t ! i = None"
  by (simp add: free_slot_def position_Some_iff)

lemma recv_loop_stream:
  assumes "[] \<notin> set buf" and "recv_loop max_len result buf = (out, buf')"
  shows "out = result @ take (max_len - length result) (concat buf)
    \<and> concat buf' = drop (max_len - length result) (concat buf) \<and> [] \<notin> set buf'"
  using assms
proof (induction max_len result buf rule: recv_loop.induct)
  case (1 max_len result buf)
  show ?case
  proof (cases "length result < max_len")
    case False
    with 1 show ?thesis by (simp add: recv_loop.simps [of max_len result buf])
  next
    case more: True
    show ?thesis
    proof (cases buf)
      case Nil
      with 1 more show ?thesis by (simp add: recv_loop.simps [of max_len result "[]"])
    next
      case (Cons front rest)
      have ne: "front \<noteq> []" using 1 Cons by auto
      show ?thesis
      proof (cases "length front \<le> max_len - length result")
        case True
        with 1 more Cons ne show ?thesis by (simp add: recv_loop.simps [of max_len result "front # rest"] Let_def)
      next
        case False
        then have "drop (max_len - length result) front \<noteq> []" by simp
        with 1 more Cons ne False show ?thesis
          by (simp add: recv_loop.simps [of max_len result "front # rest"] Let_def)
      qed
    qed
  qed
qed

section \<open>Every operation keeps the table well formed\<close>

datatype unix_call =
  UCreate u64 u32 | UBind nat bytes | UListen u64 nat | UConnect nat bytes | UAccept nat
| USend nat bytes | URecv nat nat | UFree nat

fun unix_step :: "unix_call \<Rightarrow> unix_table \<Rightarrow> unix_table option" where
  "unix_step (UCreate pid st) t = Some (snd (unix_socket_create_chirho pid st t))"
| "unix_step (UBind i p) t = map_option snd (unix_socket_bind_chirho i p t)"
| "unix_step (UListen pid i) t = Some (snd (unix_socket_listen_chirho pid i t))"
| "unix_step (UConnect i p) t = map_option snd (unix_socket_connect_chirho i p t)"
| "unix_step (UAccept i) t = Some (snd (unix_socket_accept_chirho i t))"
| "unix_step (USend i d) t = map_option snd (unix_socket_send_chirho i d t)"
| "unix_step (URecv i n) t = Some (snd (unix_socket_recv_bytes_chirho i n t))"
| "unix_step (UFree i) t = Some (free_unix_slot i t)"

text \<open>Descriptors only hold indices of the table.\<close>

fun unix_call_ok :: "nat \<Rightarrow> unix_call \<Rightarrow> bool" where
  "unix_call_ok n (UBind i p) = (i < n)"
| "unix_call_ok n (UConnect i p) = (i < n)"
| "unix_call_ok n c = True"

lemma get_opt_in: "i < length t \<Longrightarrow> get_opt t i = Some (t ! i)"
  by (simp add: get_opt_def)

lemma wf_server_side: "ci < n \<Longrightarrow> wf_unix_socket n (server_side t sv ci)"
  by (simp add: server_side_def wf_unix_socket_def split_beta)

lemma length_push_backlog [simp]: "length (push_backlog sv si t) = length t"
  by (simp add: push_backlog_def split: option.split)

lemma wf_push_backlog:
  assumes "wf_unix t" "si < length t" "sv < length t"
  shows "wf_unix (push_backlog sv si t)"
  using assms wf_unix_at [OF assms(1), of sv]
  by (auto simp: push_backlog_def wf_unix_socket_def get_opt_in split: option.split intro!: wf_unix_update)

lemma wf_connect:
  assumes "wf_unix t" "ci < length t"
  shows "\<exists>r t'. unix_socket_connect_chirho ci p t = Some (r, t') \<and> wf_unix t' \<and> length t' = length t"
proof (cases "find_listening_unix_socket_by_path_chirho t p")
  case None
  with assms show ?thesis by (simp add: unix_socket_connect_chirho_def)
next
  case found: (Some sv)
  then have sv: "sv < length t"
    by (simp add: find_listening_unix_socket_by_path_chirho_def position_Some_iff)
  show ?thesis
  proof (cases "free_slot t")
    case None
    with found assms show ?thesis by (simp add: unix_socket_connect_chirho_def)
  next
    case (Some si)
    then have si: "si < length t" by (simp add: free_slot_Some)
    define t' where "t' = push_backlog sv si (t[si := Some (server_side t sv ci)])"
    have wf: "wf_unix t'" and len: "length t' = length t"
      unfolding t'_def using assms sv si wf_server_side [OF assms(2)]
      by (auto intro!: wf_push_backlog wf_unix_update)
    have "unix_socket_connect_chirho ci p t =
        (case t' ! ci of Some c \<Rightarrow> Some (0, t'[ci := Some (c\<lparr>peer_idx_chirho := Some si\<rparr>)])
                       | None \<Rightarrow> Some (0, t'))"
      using assms(2) len found Some
      by (simp add: unix_socket_connect_chirho_def t'_def [symmetric] get_opt_in split: option.split)
    with wf len si assms(2) wf_unix_at [OF wf, of ci] show ?thesis
      by (auto simp: wf_unix_socket_def get_opt_in split: option.split intro!: wf_unix_update)
  qed
qed

lemma wf_send:
  assumes "wf_unix t"
  shows "\<exists>r t'. unix_socket_send_chirho i d t = Some (r, t') \<and> wf_unix t' \<and> length t' = length t"
proof (cases "get_opt t i")
  case (Some slot)
  show ?thesis
  proof (cases slot)
    case slot: (Some k)
    show ?thesis
    proof (cases "peer_idx_chirho k")
      case (Some p)
      then have "p < length t"
        using wf_unix_at [OF assms] \<open>get_opt t i = Some slot\<close> slot by (auto simp: wf_unix_socket_def)
      then show ?thesis
        using assms Some slot \<open>get_opt t i = Some slot\<close> wf_unix_at [OF assms, of p]
        by (auto simp: unix_socket_send_chirho_def get_opt_in wf_unix_socket_def
            split: option.split intro!: wf_unix_update)
    qed (use assms Some slot in \<open>simp add: unix_socket_send_chirho_def\<close>)
  qed (use assms Some in \<open>simp add: unix_socket_send_chirho_def\<close>)
qed (use assms in \<open>simp add: unix_socket_send_chirho_def\<close>)

lemma set_skip_empty: "set (skip_empty buf) \<subseteq> set buf"
  by (auto simp: skip_empty_def dest: set_dropWhileD)

lemma wf_recv: "wf_unix t \<Longrightarrow> wf_unix (snd (unix_socket_recv_bytes_chirho i n t))"
proof -
  assume wf: "wf_unix t"
  show ?thesis
  proof (cases "\<exists>k. get_opt t i = Some (Some k)")
    case True
    then obtain k where k: "get_opt t i = Some (Some k)" by blast
    then have wk: "wf_unix_socket (length t) k" using wf by (rule wf_unix_at [rotated])
    then have ne: "[] \<notin> set (skip_empty (unix_recv_buf_chirho k))"
      using set_skip_empty by (auto simp: wf_unix_socket_def)
    obtain out buf where run: "recv_loop n [] (skip_empty (unix_recv_buf_chirho k)) = (out, buf)"
      by (metis surj_pair)
    show ?thesis
      using wf wk ne recv_loop_stream [OF ne run]
      by (auto simp: unix_socket_recv_bytes_chirho_def k run Let_def wf_unix_socket_def
          intro!: wf_unix_update)
  next
    case False
    with wf show ?thesis
      by (auto simp: unix_socket_recv_bytes_chirho_def split: option.split)
  qed
qed

lemma length_recv [simp]: "length (snd (unix_socket_recv_bytes_chirho i n t)) = length t"
  by (simp add: unix_socket_recv_bytes_chirho_def Let_def split_beta split: option.split)

lemma wf_create: "wf_unix t \<Longrightarrow> wf_unix (snd (unix_socket_create_chirho pid st t))"
  by (auto simp: unix_socket_create_chirho_def wf_unix_socket_def split: option.split intro!: wf_unix_update)

lemma wf_bind:
  assumes "wf_unix t" "i < length t"
  shows "\<exists>r t'. unix_socket_bind_chirho i p t = Some (r, t') \<and> wf_unix t' \<and> length t' = length t"
  using assms wf_unix_at [OF assms(1), of i]
  by (auto simp: unix_socket_bind_chirho_def get_opt_in wf_unix_socket_def split: option.split
      intro!: wf_unix_update)

lemma wf_listen: "wf_unix t \<Longrightarrow> wf_unix (snd (unix_socket_listen_chirho pid i t))"
  by (auto simp: unix_socket_listen_chirho_def wf_unix_socket_def split: option.split
      intro!: wf_unix_update dest: wf_unix_at)

lemma wf_accept: "wf_unix t \<Longrightarrow> wf_unix (snd (unix_socket_accept_chirho i t))"
  by (auto simp: unix_socket_accept_chirho_def wf_unix_socket_def split: option.split list.split
      intro!: wf_unix_update dest: wf_unix_at)

lemma wf_free: "wf_unix t \<Longrightarrow> wf_unix (free_unix_slot i t)"
  by (auto simp: free_unix_slot_def intro!: wf_unix_update)

lemma length_unix_ops [simp]:
  "length (snd (unix_socket_create_chirho pid st t)) = length t"
  "length (snd (unix_socket_listen_chirho pid i t)) = length t"
  "length (snd (unix_socket_accept_chirho i t)) = length t"
  "length (free_unix_slot i t) = length t"
  by (simp_all add: unix_socket_create_chirho_def unix_socket_listen_chirho_def
      unix_socket_accept_chirho_def free_unix_slot_def split: option.split list.split)

lemma unix_step_wf:
  assumes "wf_unix t" "unix_call_ok (length t) c"
  shows "\<exists>t'. unix_step c t = Some t' \<and> wf_unix t' \<and> length t' = length t"
proof (cases c)
  case (UBind i p)
  with assms wf_bind [of t i p] show ?thesis by auto
next
  case (UConnect i p)
  with assms wf_connect [of t i p] show ?thesis by auto
next
  case (USend i d)
  with assms wf_send [of t i d] show ?thesis by auto
qed (use assms in \<open>simp_all add: wf_create wf_listen wf_accept wf_recv wf_free\<close>)

fun unix_run :: "unix_call list \<Rightarrow> unix_table \<Rightarrow> unix_table option" where
  "unix_run [] t = Some t"
| "unix_run (c # cs) t = Option.bind (unix_step c t) (unix_run cs)"

lemma unix_run_wf:
  "wf_unix t \<Longrightarrow> list_all (unix_call_ok (length t)) cs \<Longrightarrow>
     \<exists>t'. unix_run cs t = Some t' \<and> wf_unix t' \<and> length t' = length t"
proof (induction cs arbitrary: t)
  case (Cons c cs)
  then obtain t1 where "unix_step c t = Some t1" "wf_unix t1" "length t1 = length t"
    using unix_step_wf [of t c] by auto
  with Cons.prems Cons.IH [of t1] show ?case by simp
qed simp

section \<open>Connected pairs\<close>

definition pending :: "unix_table \<Rightarrow> nat \<Rightarrow> bytes" where
  "pending t i = (case get_opt t i of Some (Some k) \<Rightarrow> concat (unix_recv_buf_chirho k) | _ \<Rightarrow> [])"

definition half_linked :: "unix_table \<Rightarrow> nat \<Rightarrow> nat \<Rightarrow> bool" where
  "half_linked t a b \<longleftrightarrow>
     (\<exists>k. get_opt t a = Some (Some k) \<and> peer_idx_chirho k = Some b \<and> [] \<notin> set (unix_recv_buf_chirho k))"

definition linked :: "unix_table \<Rightarrow> nat \<Rightarrow> nat \<Rightarrow> bool" where
  "linked t a b \<longleftrightarrow> a \<noteq> b \<and> half_linked t a b \<and> half_linked t b a"

lemma get_opt_some_less: "get_opt t i = Some s \<Longrightarrow> i < length t"
  by (simp add: get_opt_Some_iff)

lemma linked_sym: "linked t a b \<Longrightarrow> linked t b a"
  by (auto simp: linked_def)

lemma half_linkedE:
  assumes "half_linked t a b"
  obtains k where "get_opt t a = Some (Some k)" "a < length t" "peer_idx_chirho k = Some b"
    "[] \<notin> set (unix_recv_buf_chirho k)"
  using assms unfolding half_linked_def by (elim exE conjE) (blast dest: get_opt_some_less)

lemma send_linked:
  assumes "linked t a b"
  shows "\<exists>t'. unix_socket_send_chirho a d t = Some (int (length d), t') \<and> linked t' a b
    \<and> pending t' b = pending t b @ d \<and> pending t' a = pending t a"
proof -
  obtain ka where a: "get_opt t a = Some (Some ka)" "a < length t" "peer_idx_chirho ka = Some b"
    "[] \<notin> set (unix_recv_buf_chirho ka)"
    using assms by (auto simp: linked_def elim: half_linkedE)
  obtain kb where b: "get_opt t b = Some (Some kb)" "b < length t" "peer_idx_chirho kb = Some a"
    "[] \<notin> set (unix_recv_buf_chirho kb)"
    using assms by (auto simp: linked_def elim: half_linkedE)
  have "a \<noteq> b" using assms by (simp add: linked_def)
  with a b show ?thesis
    by (simp add: unix_socket_send_chirho_def linked_def half_linked_def pending_def)
qed

lemma skip_empty_id: "[] \<notin> set buf \<Longrightarrow> skip_empty buf = buf"
  by (cases buf) (auto simp: skip_empty_def)

lemma recv_linked:
  assumes "linked t a b"
  shows "\<exists>out t'. unix_socket_recv_bytes_chirho b n t = (out, t') \<and> linked t' a b
    \<and> pending t b = (case out of Some xs \<Rightarrow> xs | None \<Rightarrow> []) @ pending t' b
    \<and> (out = None \<longleftrightarrow> n = 0 \<or> pending t b = []) \<and> pending t' a = pending t a"
proof -
  obtain ka where a: "get_opt t a = Some (Some ka)" "a < length t" "peer_idx_chirho ka = Some b"
    "[] \<notin> set (unix_recv_buf_chirho ka)"
    using assms by (auto simp: linked_def elim: half_linkedE)
  obtain kb where b: "get_opt t b = Some (Some kb)" "b < length t" "peer_idx_chirho kb = Some a"
    "[] \<notin> set (unix_recv_buf_chirho kb)"
    using assms by (auto simp: linked_def elim: half_linkedE)
  obtain out buf where run: "recv_loop n [] (unix_recv_buf_chirho kb) = (out, buf)"
    by (metis surj_pair)
  have "a \<noteq> b" using assms by (simp add: linked_def)
  moreover have "concat (unix_recv_buf_chirho kb) = [] \<longleftrightarrow> unix_recv_buf_chirho kb = []"
    using b(4) by (cases "unix_recv_buf_chirho kb") auto
  ultimately show ?thesis
    using a b recv_loop_stream [OF b(4) run]
    by (auto simp: unix_socket_recv_bytes_chirho_def skip_empty_id run Let_def linked_def
        half_linked_def pending_def)
qed

text \<open>Traffic on a pair, in both directions.\<close>

datatype pair_event = Put bool bytes | Get bool nat

type_synonym pair_state = "unix_table \<times> (bool \<Rightarrow> bytes) \<times> (bool \<Rightarrow> bytes)"

fun pair_step :: "nat \<Rightarrow> nat \<Rightarrow> pair_event \<Rightarrow> pair_state \<Rightarrow> pair_state option" where
  "pair_step a b (Put dir d) (t, sent, got) =
     map_option (\<lambda>(r, t'). (t', sent(dir := sent dir @ d), got))
       (unix_socket_send_chirho (if dir then a else b) d t)"
| "pair_step a b (Get dir n) (t, sent, got) =
     (let (out, t') = unix_socket_recv_bytes_chirho (if dir then b else a) n t
      in Some (t', sent, got(dir := got dir @ (case out of Some xs \<Rightarrow> xs | None \<Rightarrow> []))))"

fun pair_run :: "nat \<Rightarrow> nat \<Rightarrow> pair_event list \<Rightarrow> pair_state \<Rightarrow> pair_state option" where
  "pair_run a b [] st = Some st"
| "pair_run a b (e # es) st = Option.bind (pair_step a b e st) (pair_run a b es)"

definition pair_inv :: "nat \<Rightarrow> nat \<Rightarrow> pair_state \<Rightarrow> bool" where
  "pair_inv a b st \<longleftrightarrow> linked (fst st) a b
     \<and> (\<forall>dir. fst (snd st) dir = snd (snd st) dir @ pending (fst st) (if dir then b else a))"

lemma pair_step_inv:
  assumes "pair_inv a b st"
  shows "\<exists>st'. pair_step a b e st = Some st' \<and> pair_inv a b st'"
proof -
  obtain t sent got where st: "st = (t, sent, got)" by (metis prod_cases3)
  have ab: "linked t a b" and ba: "linked t b a" using assms linked_sym by (auto simp: pair_inv_def st)
  show ?thesis
  proof (cases e)
    case (Put dir d)
    with send_linked [OF ab, of d] send_linked [OF ba, of d] assms show ?thesis
      by (cases dir) (auto simp: st pair_inv_def dest: linked_sym)
  next
    case (Get dir n)
    with recv_linked [OF ab, of n] recv_linked [OF ba, of n] assms show ?thesis
      by (cases dir) (auto simp: st pair_inv_def dest: linked_sym)
  qed
qed

lemma pair_run_inv: "pair_inv a b st \<Longrightarrow> \<exists>st'. pair_run a b es st = Some st' \<and> pair_inv a b st'"
proof (induction es arbitrary: st)
  case (Cons e es)
  then show ?case using pair_step_inv [of a b st e] by fastforce
qed simp

lemma connect_links:
  assumes "wf_unix t" "get_opt t ci = Some (Some c)"
    and "unix_socket_connect_chirho ci p t = Some (0, t')"
  shows "\<exists>si. free_slot t = Some si \<and> linked t' ci si \<and> pending t' si = [] \<and> pending t' ci = pending t ci"
proof -
  have wc: "[] \<notin> set (unix_recv_buf_chirho c)" and ci: "ci < length t" "t ! ci = Some c"
    using wf_unix_at [OF assms(1,2)] assms(2) by (auto simp: wf_unix_socket_def get_opt_Some_iff)
  obtain sv where found: "find_listening_unix_socket_by_path_chirho t p = Some sv"
    using assms(3) by (auto simp: unix_socket_connect_chirho_def ECONNREFUSED_CHIRHO_def split: option.splits)
  obtain si where si: "free_slot t = Some si"
    using assms(3) found
    by (auto simp: unix_socket_connect_chirho_def ECONNREFUSED_CHIRHO_def split: option.splits)
  have sl: "si < length t" "ci \<noteq> si" using free_slot_Some [OF si] ci by auto
  have sv: "sv < length t" "sv \<noteq> si"
    using found free_slot_Some [OF si]
    by (auto simp: find_listening_unix_socket_by_path_chirho_def position_Some_iff)
  define t2 where "t2 = push_backlog sv si (t[si := Some (server_side t sv ci)])"
  have len: "length t2 = length t" by (simp add: t2_def)
  have at_si: "get_opt t2 si = Some (Some (server_side t sv ci))"
    using sl sv by (simp add: t2_def push_backlog_def get_opt_def split: option.split)
  obtain c2 where at_ci: "get_opt t2 ci = Some (Some c2)"
    and c2: "unix_recv_buf_chirho c2 = unix_recv_buf_chirho c"
  proof (cases "sv = ci")
    case True
    then have "get_opt t2 ci = Some (Some (c\<lparr>unix_backlog_chirho := unix_backlog_chirho c @ [si]\<rparr>))"
      using ci sl by (simp add: t2_def push_backlog_def get_opt_in)
    then show thesis by (rule that) simp
  next
    case False
    then have "get_opt t2 ci = Some (Some c)"
      using ci sl by (simp add: t2_def push_backlog_def get_opt_in split: option.split)
    then show thesis by (rule that) simp
  qed
  have "t' = t2[ci := Some (c2\<lparr>peer_idx_chirho := Some si\<rparr>)]"
    using assms(3) found si at_ci
    by (simp add: unix_socket_connect_chirho_def t2_def [symmetric])
  with sl at_si at_ci c2 wc assms(2) si show ?thesis
    by (auto simp: linked_def half_linked_def pending_def server_side_def split_beta
        dest: get_opt_some_less)
qed

section \<open>Properties\<close>

text \<open>C36. From the empty table, no sequence of socket calls whose descriptors hold indices
  of the table makes an index expression panic, and at the end every peer and
  backlog index is an index of the table and no receive buffer holds an empty entry.\<close>

theorem unix_calls_never_panic:
  assumes "list_all (unix_call_ok MAX_UNIX_SOCKETS_CHIRHO) calls"
  shows "\<exists>t. unix_run calls unix_table_new = Some t \<and> length t = MAX_UNIX_SOCKETS_CHIRHO \<and> wf_unix t"
proof -
  have "wf_unix unix_table_new" by (auto simp: wf_unix_def unix_table_new_def)
  moreover have "length unix_table_new = MAX_UNIX_SOCKETS_CHIRHO" by (simp add: unix_table_new_def)
  ultimately show ?thesis using unix_run_wf [of unix_table_new calls] assms by auto
qed

theorem unix_calls_never_panic_witness:
  "\<exists>t. unix_run [UCreate 1 1, UBind 0 [47], UListen 1 0, UCreate 2 1, UConnect 1 [47], UAccept 0,
      USend 1 [1, 2], URecv 2 1, UFree 2, USend 1 [3]] unix_table_new = Some t \<and> wf_unix t"
  using unix_calls_never_panic [of "[UCreate 1 1, UBind 0 [47], UListen 1 0, UCreate 2 1,
      UConnect 1 [47], UAccept 0, USend 1 [1, 2], URecv 2 1, UFree 2, USend 1 [3]]"]
  by (auto simp: MAX_UNIX_SOCKETS_CHIRHO_def)

text \<open>C23. A successful connect takes a free slot for the server side and links both ends, and
  from then on, for every sequence of sends and receives on the two ends, the bytes
  sent in a direction are the bytes received followed by those still queued: none is
  lost, repeated or reordered, whatever the sizes of the reads.\<close>

theorem unix_connection_is_stream:
  assumes "wf_unix t" "get_opt t ci = Some (Some c)" "pending t ci = []"
    and "unix_socket_connect_chirho ci p t = Some (0, t')"
  shows "\<exists>si. free_slot t = Some si \<and> linked t' ci si \<and>
    (\<forall>events. \<exists>t'' sent got. pair_run ci si events (t', (\<lambda>_. []), (\<lambda>_. [])) = Some (t'', sent, got)
       \<and> (\<forall>dir. sent dir = got dir @ pending t'' (if dir then si else ci)))"
proof -
  obtain si where si: "free_slot t = Some si" "linked t' ci si" "pending t' si = []"
    "pending t' ci = pending t ci"
    using connect_links [OF assms(1,2,4)] by blast
  then have inv: "pair_inv ci si (t', (\<lambda>_. []), (\<lambda>_. []))" using assms(3) by (simp add: pair_inv_def)
  have "\<exists>t'' sent got. pair_run ci si events (t', (\<lambda>_. []), (\<lambda>_. [])) = Some (t'', sent, got)
       \<and> (\<forall>dir. sent dir = got dir @ pending t'' (if dir then si else ci))" for events
    using pair_run_inv [OF inv, of events] by (auto simp: pair_inv_def)
  with si show ?thesis by blast
qed

definition unix_socket_at :: "bytes option \<Rightarrow> bool \<Rightarrow> UnixSocketChirho" where
  "unix_socket_at path listens = \<lparr>path_chirho = path, unix_recv_buf_chirho = [], peer_idx_chirho = None,
     unix_sock_type_chirho = 1, unix_backlog_chirho = [], listening_chirho = listens,
     listener_pid_chirho = 0, owner_pid_chirho = 0\<rparr>"

definition small_unix :: unix_table where
  "small_unix = [Some (unix_socket_at (Some [47]) True), Some (unix_socket_at None False), None]"

theorem unix_connection_is_stream_witness:
  "\<exists>t'. unix_socket_connect_chirho 1 [47] small_unix = Some (0, t') \<and> linked t' 1 2"
proof -
  have wf: "wf_unix small_unix"
    by (auto simp: wf_unix_def small_unix_def unix_socket_at_def wf_unix_socket_def)
  have at1: "get_opt small_unix 1 = Some (Some (unix_socket_at None False))"
    by (simp add: small_unix_def get_opt_def)
  have found: "find_listening_unix_socket_by_path_chirho small_unix [47] = Some 0"
    "free_slot small_unix = Some 2"
    by (simp_all add: find_listening_unix_socket_by_path_chirho_def small_unix_def unix_socket_at_def
        free_slot_def)
  obtain t' where conn: "unix_socket_connect_chirho 1 [47] small_unix = Some (0, t')"
    using found
    by (simp add: unix_socket_connect_chirho_def small_unix_def push_backlog_def get_opt_def Let_def)
  have "pending small_unix 1 = []" unfolding pending_def at1 by (simp add: unix_socket_at_def)
  from unix_connection_is_stream [OF wf at1 this conn] found conn show ?thesis by auto
qed

text \<open>When one end of a connected pair is closed, the other end keeps its peer index.
  If the next socket created takes the freed slot, whatever the other end sends is
  accepted and queued for that unrelated socket.\<close>

theorem closed_peer_slot_reused:
  assumes "linked t a b" and "free_slot (free_unix_slot b t) = Some b"
    and "unix_socket_create_chirho pid st (free_unix_slot b t) = (created, t1)"
  shows "created = Some b \<and> (\<exists>t2. unix_socket_send_chirho a d t1 = Some (int (length d), t2)
    \<and> pending t2 b = d)"
proof -
  obtain ka where a: "get_opt t a = Some (Some ka)" "a < length t" "peer_idx_chirho ka = Some b"
    using assms by (auto simp: linked_def elim: half_linkedE)
  have b: "b < length t" "a \<noteq> b" using assms by (auto simp: linked_def elim: half_linkedE)
  define k where "k = \<lparr>path_chirho = None, unix_recv_buf_chirho = [], peer_idx_chirho = None,
      unix_sock_type_chirho = st, unix_backlog_chirho = [], listening_chirho = False,
      listener_pid_chirho = 0, owner_pid_chirho = pid\<rparr>"
  have "created = Some b" and t1: "t1 = t[b := Some k]"
    using assms(2,3) b by (auto simp: unix_socket_create_chirho_def free_unix_slot_def k_def)
  moreover have "get_opt t1 a = Some (Some ka)" "get_opt t1 b = Some (Some k)"
    using a b by (simp_all add: t1)
  ultimately show ?thesis
    using a(3) b by (simp add: unix_socket_send_chirho_def pending_def k_def)
qed

definition linked_unix :: unix_table where
  "linked_unix = [Some ((unix_socket_at None False)\<lparr>peer_idx_chirho := Some 1\<rparr>),
                  Some ((unix_socket_at None False)\<lparr>peer_idx_chirho := Some 0\<rparr>), None]"

theorem closed_peer_slot_reused_witness:
  "\<exists>t2. unix_socket_send_chirho 0 [42] (snd (unix_socket_create_chirho 9 1 (free_unix_slot 1 linked_unix)))
       = Some (1, t2) \<and> pending t2 1 = [42]"
proof -
  have "linked linked_unix 0 1"
    by (simp add: linked_def half_linked_def linked_unix_def get_opt_def unix_socket_at_def)
  moreover have "free_slot (free_unix_slot 1 linked_unix) = Some 1"
    by (simp add: free_slot_def free_unix_slot_def linked_unix_def)
  moreover have "unix_socket_create_chirho 9 1 (free_unix_slot 1 linked_unix)
      = (fst (unix_socket_create_chirho 9 1 (free_unix_slot 1 linked_unix)),
         snd (unix_socket_create_chirho 9 1 (free_unix_slot 1 linked_unix)))" by simp
  ultimately show ?thesis
    using closed_peer_slot_reused [of linked_unix 0 1 9 1 _ _ "[42]"] by (metis length_Cons list.size(3)
        of_nat_1 One_nat_def)
qed

end
