(* ===== verification/Credentials.thy ===== *)
theory Credentials
  imports Sched_Policy Uaccess
begin

text \<open>
  User and group identities, process groups and sessions: the system calls of
  \<^verbatim>\<open>syscall_chirho.rs\<close> on the credential fields of the task structure, and what a
  new task takes over in \<^verbatim>\<open>process_chirho/process_core_chirho.rs\<close>.  The task list is
  that of \<^verbatim>\<open>Scheduler\<close>; the credential fields, which the scheduler does not read,
  are kept beside it under the task's PID.  The current task is taken to be in the
  task list.

  The locale \<^verbatim>\<open>credential_calls\<close> is what all these calls promise (the credentials stay,
  or a change the caller may make is applied to the caller's whole thread group),
  interpreted on the calls of the code.
  Shown: a thread group and its descendants without root stay within the identities
  they hold, over any interleaving of calls and forks; a drop of privileges by root
  is final; the threads of a group always agree.
\<close>

section \<open>State\<close>

record TaskCredsChirho =
  uid_chirho :: u32
  gid_chirho :: u32
  euid_chirho :: u32
  egid_chirho :: u32
  saved_uid_chirho :: u32
  saved_gid_chirho :: u32
  supplementary_groups_chirho :: "u32 list"

record cred_world =
  csched :: sched_state
  creds :: "u64 \<Rightarrow> TaskCredsChirho"
  controlling_tty_chirho :: "u64 \<Rightarrow> u32 option"
  cmem :: umem

definition ID_NO_CHANGE_CHIRHO :: u32 where "ID_NO_CHANGE_CHIRHO = - 1"
definition MAX_SUPPLEMENTARY_GROUPS_CHIRHO :: nat where "MAX_SUPPLEMENTARY_GROUPS_CHIRHO = 256"

definition current_task :: "cred_world \<Rightarrow> TaskChirho option" where
  "current_task w = (case CURRENT_TASK_CHIRHO (csched w) of None \<Rightarrow> None
     | Some p \<Rightarrow> find_task_by_pid_chirho (csched w) p)"

text \<open>Writing through the lock of one task.\<close>

definition set_task :: "u64 \<Rightarrow> (TaskChirho \<Rightarrow> TaskChirho) \<Rightarrow> cred_world \<Rightarrow> cred_world" where
  "set_task p f w = w\<lparr>csched := (csched w)\<lparr>TASK_LIST_CHIRHO :=
     map (\<lambda>t. if pid_chirho t = p then f t else t) (TASK_LIST_CHIRHO (csched w))\<rparr>\<rparr>"

section \<open>Process groups and sessions\<close>

definition sys_getppid_chirho :: "cred_world \<Rightarrow> i64" where
  "sys_getppid_chirho w = (case current_task w of
     Some t \<Rightarrow> if ppid_chirho t = 0 then 1 else sint (ppid_chirho t) | None \<Rightarrow> 1)"

definition sys_setsid_chirho :: "cred_world \<Rightarrow> i64 \<times> cred_world" where
  "sys_setsid_chirho w = (case current_task w of None \<Rightarrow> (- EPERM_CHIRHO, w)
     | Some t \<Rightarrow>
        (let pid = pid_chirho t in
         if pgid_chirho t = pid \<and> sid_chirho t = pid then (- EPERM_CHIRHO, w)
         else (sint pid,
               (set_task pid (\<lambda>t. t\<lparr>sid_chirho := pid, pgid_chirho := pid\<rparr>) w)
                 \<lparr>controlling_tty_chirho := (controlling_tty_chirho w)(pid := None)\<rparr>)))"

definition sys_setpgid_chirho :: "u64 \<Rightarrow> u64 \<Rightarrow> cred_world \<Rightarrow> i64 \<times> cred_world" where
  "sys_setpgid_chirho pid_arg pgid_arg w = (case current_task w of None \<Rightarrow> (- ESRCH_CHIRHO, w)
     | Some cur \<Rightarrow>
        (let target_pid = (if pid_arg = 0 then pid_chirho cur else pid_arg);
             new_pgid = (if pgid_arg = 0 then target_pid else pgid_arg)
         in case find_task_by_pid_chirho (csched w) target_pid of
              None \<Rightarrow> (- ESRCH_CHIRHO, w)
            | Some t \<Rightarrow>
               if sid_chirho t = pid_chirho t \<and> pgid_chirho t = pid_chirho t \<and> new_pgid \<noteq> pid_chirho t
               then (- EPERM_CHIRHO, w)
               else (0, set_task target_pid (\<lambda>t. t\<lparr>pgid_chirho := new_pgid\<rparr>) w)))"

definition sys_getpgrp_chirho :: "cred_world \<Rightarrow> i64" where
  "sys_getpgrp_chirho w = (case current_task w of Some t \<Rightarrow> sint (pgid_chirho t) | None \<Rightarrow> 1)"

definition sys_getpgid_chirho :: "u64 \<Rightarrow> cred_world \<Rightarrow> i64" where
  "sys_getpgid_chirho pid_arg w =
     (if pid_arg = 0 then sys_getpgrp_chirho w
      else case find_task_by_pid_chirho (csched w) pid_arg of
             Some t \<Rightarrow> sint (pgid_chirho t) | None \<Rightarrow> - ESRCH_CHIRHO)"

definition sys_getsid_chirho :: "u64 \<Rightarrow> cred_world \<Rightarrow> i64" where
  "sys_getsid_chirho pid_arg w =
     (if pid_arg = 0 then (case current_task w of Some t \<Rightarrow> sint (sid_chirho t) | None \<Rightarrow> 1)
      else case find_task_by_pid_chirho (csched w) pid_arg of
             Some t \<Rightarrow> sint (sid_chirho t) | None \<Rightarrow> - ESRCH_CHIRHO)"

section \<open>Credentials of the caller\<close>

record CredentialSnapshotChirho =
  snap_tgid_chirho :: u64
  snap_creds :: TaskCredsChirho

definition current_credential_snapshot_chirho :: "cred_world \<Rightarrow> CredentialSnapshotChirho option" where
  "current_credential_snapshot_chirho w = (case current_task w of None \<Rightarrow> None
     | Some t \<Rightarrow> Some \<lparr>snap_tgid_chirho = tgid_chirho t, snap_creds = creds w (pid_chirho t)\<rparr>)"

definition snapshot_field :: "(TaskCredsChirho \<Rightarrow> u32) \<Rightarrow> cred_world \<Rightarrow> i64" where
  "snapshot_field f w = (case current_credential_snapshot_chirho w of
     Some sn \<Rightarrow> uint (f (snap_creds sn)) | None \<Rightarrow> 0)"

definition sys_getuid_chirho :: "cred_world \<Rightarrow> i64" where
  "sys_getuid_chirho = snapshot_field uid_chirho"
definition sys_geteuid_chirho :: "cred_world \<Rightarrow> i64" where
  "sys_geteuid_chirho = snapshot_field euid_chirho"
definition sys_getgid_chirho :: "cred_world \<Rightarrow> i64" where
  "sys_getgid_chirho = snapshot_field gid_chirho"
definition sys_getegid_chirho :: "cred_world \<Rightarrow> i64" where
  "sys_getegid_chirho = snapshot_field egid_chirho"

definition write_u32_to_user_chirho :: "u64 \<Rightarrow> u32 \<Rightarrow> umem \<Rightarrow> i64 \<times> umem" where
  "write_u32_to_user_chirho ptr v mem =
     (if ptr = 0 then (0, mem)
      else case copy_to_user_chirho mem ptr (le_bytes 4 (unat v)) 4 of
             Inr mem' \<Rightarrow> (0, mem') | Inl _ \<Rightarrow> (- EFAULT_CHIRHO, mem))"

definition apply_credentials_to_thread_group_chirho ::
  "u64 \<Rightarrow> (TaskCredsChirho \<Rightarrow> TaskCredsChirho) \<Rightarrow> cred_world \<Rightarrow> cred_world" where
  "apply_credentials_to_thread_group_chirho tgid update w =
     foldl (\<lambda>w t. if tgid_chirho t = tgid
                  then w\<lparr>creds := (creds w)(pid_chirho t := update (creds w (pid_chirho t)))\<rparr> else w)
       w (TASK_LIST_CHIRHO (csched w))"

definition can_assume_uid_chirho :: "TaskCredsChirho \<Rightarrow> u32 \<Rightarrow> bool" where
  "can_assume_uid_chirho c uid \<longleftrightarrow> uid = uid_chirho c \<or> uid = euid_chirho c \<or> uid = saved_uid_chirho c"

definition can_assume_gid_chirho :: "TaskCredsChirho \<Rightarrow> u32 \<Rightarrow> bool" where
  "can_assume_gid_chirho c gid \<longleftrightarrow> gid = gid_chirho c \<or> gid = egid_chirho c \<or> gid = saved_gid_chirho c"

definition requested_id_chirho :: "u32 \<Rightarrow> u32 option" where
  "requested_id_chirho r = (if r = ID_NO_CHANGE_CHIRHO then None else Some r)"

definition unwrap_or :: "'a option \<Rightarrow> 'a \<Rightarrow> 'a" where
  "unwrap_or x d = (case x of Some v \<Rightarrow> v | None \<Rightarrow> d)"

section \<open>Changing identities\<close>

definition sys_setuid_chirho :: "u32 \<Rightarrow> cred_world \<Rightarrow> i64 \<times> cred_world" where
  "sys_setuid_chirho uid w = (case current_credential_snapshot_chirho w of
     None \<Rightarrow> (- EPERM_CHIRHO, w)
   | Some sn \<Rightarrow>
      if euid_chirho (snap_creds sn) = 0 then
        (0, apply_credentials_to_thread_group_chirho (snap_tgid_chirho sn)
              (\<lambda>t. t\<lparr>uid_chirho := uid, euid_chirho := uid, saved_uid_chirho := uid\<rparr>) w)
      else if \<not> can_assume_uid_chirho (snap_creds sn) uid then (- EPERM_CHIRHO, w)
      else (0, apply_credentials_to_thread_group_chirho (snap_tgid_chirho sn) (\<lambda>t. t\<lparr>euid_chirho := uid\<rparr>) w))"

definition sys_setgid_chirho :: "u32 \<Rightarrow> cred_world \<Rightarrow> i64 \<times> cred_world" where
  "sys_setgid_chirho gid w = (case current_credential_snapshot_chirho w of
     None \<Rightarrow> (- EPERM_CHIRHO, w)
   | Some sn \<Rightarrow>
      if euid_chirho (snap_creds sn) = 0 then
        (0, apply_credentials_to_thread_group_chirho (snap_tgid_chirho sn)
              (\<lambda>t. t\<lparr>gid_chirho := gid, egid_chirho := gid, saved_gid_chirho := gid\<rparr>) w)
      else if \<not> can_assume_gid_chirho (snap_creds sn) gid then (- EPERM_CHIRHO, w)
      else (0, apply_credentials_to_thread_group_chirho (snap_tgid_chirho sn) (\<lambda>t. t\<lparr>egid_chirho := gid\<rparr>) w))"

text \<open>The refusals of the two-argument calls for a caller without root.\<close>

definition setreuid_refused :: "TaskCredsChirho \<Rightarrow> u32 option \<Rightarrow> u32 option \<Rightarrow> bool" where
  "setreuid_refused c ruid euid \<longleftrightarrow> euid_chirho c \<noteq> 0 \<and>
     ((case ruid of Some r \<Rightarrow> r \<noteq> uid_chirho c \<and> r \<noteq> euid_chirho c | None \<Rightarrow> False) \<or>
      (case euid of Some e \<Rightarrow> \<not> can_assume_uid_chirho c e | None \<Rightarrow> False))"

definition setregid_refused :: "TaskCredsChirho \<Rightarrow> u32 option \<Rightarrow> u32 option \<Rightarrow> bool" where
  "setregid_refused c rgid egid \<longleftrightarrow> euid_chirho c \<noteq> 0 \<and>
     ((case rgid of Some r \<Rightarrow> r \<noteq> gid_chirho c \<and> r \<noteq> egid_chirho c | None \<Rightarrow> False) \<or>
      (case egid of Some e \<Rightarrow> \<not> can_assume_gid_chirho c e | None \<Rightarrow> False))"

definition sys_setreuid_chirho :: "u32 \<Rightarrow> u32 \<Rightarrow> cred_world \<Rightarrow> i64 \<times> cred_world" where
  "sys_setreuid_chirho ruid euid w = (case current_credential_snapshot_chirho w of
     None \<Rightarrow> (- EPERM_CHIRHO, w)
   | Some sn \<Rightarrow>
      (let c = snap_creds sn; rr = requested_id_chirho ruid; re = requested_id_chirho euid in
       if setreuid_refused c rr re then (- EPERM_CHIRHO, w)
       else (let next_ruid = unwrap_or rr (uid_chirho c); next_euid = unwrap_or re (euid_chirho c);
                 update_saved = (rr \<noteq> None \<or> re \<noteq> None)
             in (0, apply_credentials_to_thread_group_chirho (snap_tgid_chirho sn)
                   (\<lambda>t. t\<lparr>uid_chirho := next_ruid, euid_chirho := next_euid,
                          saved_uid_chirho := (if update_saved then next_euid else saved_uid_chirho t)\<rparr>) w))))"

definition sys_setregid_chirho :: "u32 \<Rightarrow> u32 \<Rightarrow> cred_world \<Rightarrow> i64 \<times> cred_world" where
  "sys_setregid_chirho rgid egid w = (case current_credential_snapshot_chirho w of
     None \<Rightarrow> (- EPERM_CHIRHO, w)
   | Some sn \<Rightarrow>
      (let c = snap_creds sn; rr = requested_id_chirho rgid; re = requested_id_chirho egid in
       if setregid_refused c rr re then (- EPERM_CHIRHO, w)
       else (let next_rgid = unwrap_or rr (gid_chirho c); next_egid = unwrap_or re (egid_chirho c);
                 update_saved = (rr \<noteq> None \<or> re \<noteq> None)
             in (0, apply_credentials_to_thread_group_chirho (snap_tgid_chirho sn)
                   (\<lambda>t. t\<lparr>gid_chirho := next_rgid, egid_chirho := next_egid,
                          saved_gid_chirho := (if update_saved then next_egid else saved_gid_chirho t)\<rparr>) w))))"

definition flatten :: "'a option list \<Rightarrow> 'a list" where
  "flatten xs = List.map_filter id xs"

definition sys_setresuid_chirho :: "u32 \<Rightarrow> u32 \<Rightarrow> u32 \<Rightarrow> cred_world \<Rightarrow> i64 \<times> cred_world" where
  "sys_setresuid_chirho ruid euid suid w = (case current_credential_snapshot_chirho w of
     None \<Rightarrow> (- EPERM_CHIRHO, w)
   | Some sn \<Rightarrow>
      (let c = snap_creds sn;
           rr = requested_id_chirho ruid; re = requested_id_chirho euid; rs = requested_id_chirho suid in
       if euid_chirho c \<noteq> 0 \<and> \<not> list_all (can_assume_uid_chirho c) (flatten [rr, re, rs])
       then (- EPERM_CHIRHO, w)
       else (let next_ruid = unwrap_or rr (uid_chirho c); next_euid = unwrap_or re (euid_chirho c);
                 next_suid = unwrap_or rs (saved_uid_chirho c)
             in (0, apply_credentials_to_thread_group_chirho (snap_tgid_chirho sn)
                   (\<lambda>t. t\<lparr>uid_chirho := next_ruid, euid_chirho := next_euid, saved_uid_chirho := next_suid\<rparr>) w))))"

definition sys_setresgid_chirho :: "u32 \<Rightarrow> u32 \<Rightarrow> u32 \<Rightarrow> cred_world \<Rightarrow> i64 \<times> cred_world" where
  "sys_setresgid_chirho rgid egid sgid w = (case current_credential_snapshot_chirho w of
     None \<Rightarrow> (- EPERM_CHIRHO, w)
   | Some sn \<Rightarrow>
      (let c = snap_creds sn;
           rr = requested_id_chirho rgid; re = requested_id_chirho egid; rs = requested_id_chirho sgid in
       if euid_chirho c \<noteq> 0 \<and> \<not> list_all (can_assume_gid_chirho c) (flatten [rr, re, rs])
       then (- EPERM_CHIRHO, w)
       else (let next_rgid = unwrap_or rr (gid_chirho c); next_egid = unwrap_or re (egid_chirho c);
                 next_sgid = unwrap_or rs (saved_gid_chirho c)
             in (0, apply_credentials_to_thread_group_chirho (snap_tgid_chirho sn)
                   (\<lambda>t. t\<lparr>gid_chirho := next_rgid, egid_chirho := next_egid, saved_gid_chirho := next_sgid\<rparr>) w))))"

section \<open>Supplementary groups and read-out\<close>

text \<open>The copy loops, from element \<^verbatim>\<open>i\<close> on.\<close>

fun put_words :: "u64 \<Rightarrow> nat \<Rightarrow> u32 list \<Rightarrow> umem \<Rightarrow> i64 \<times> umem" where
  "put_words ptr i [] mem = (0, mem)"
| "put_words ptr i (g # gs) mem =
     (case write_u32_to_user_chirho (ptr + of_nat (i * 4)) g mem of
        (r, mem') \<Rightarrow> if r \<noteq> 0 then (r, mem') else put_words ptr (Suc i) gs mem')"

definition sys_getgroups_chirho :: "usize \<Rightarrow> u64 \<Rightarrow> cred_world \<Rightarrow> i64 \<times> cred_world" where
  "sys_getgroups_chirho n list_ptr w =
     (let groups = (case current_credential_snapshot_chirho w of
                      Some sn \<Rightarrow> supplementary_groups_chirho (snap_creds sn) | None \<Rightarrow> []) in
      if n = 0 then (int (length groups), w)
      else if unat n < length groups then (- EINVAL_CHIRHO, w)
      else case put_words list_ptr 0 groups (cmem w) of
             (r, mem') \<Rightarrow> (if r \<noteq> 0 then r else int (length groups), w\<lparr>cmem := mem'\<rparr>))"

fun get_words :: "u64 \<Rightarrow> nat \<Rightarrow> nat \<Rightarrow> umem \<Rightarrow> i64 + u32 list" where
  "get_words ptr i 0 mem = Inr []"
| "get_words ptr i (Suc n) mem =
     (case copy_from_user_chirho mem 4 (ptr + of_nat (i * 4)) 4 of
        Inl _ \<Rightarrow> Inl (- EFAULT_CHIRHO)
      | Inr bs \<Rightarrow> (case get_words ptr (Suc i) n mem of
                     Inl e \<Rightarrow> Inl e | Inr gs \<Rightarrow> Inr (of_nat (le_nat bs) # gs)))"

definition sys_setgroups_chirho :: "usize \<Rightarrow> u64 \<Rightarrow> cred_world \<Rightarrow> i64 \<times> cred_world" where
  "sys_setgroups_chirho n list_ptr w = (case current_credential_snapshot_chirho w of
     None \<Rightarrow> (- EPERM_CHIRHO, w)
   | Some sn \<Rightarrow>
      if euid_chirho (snap_creds sn) \<noteq> 0 then (- EPERM_CHIRHO, w)
      else if unat n > MAX_SUPPLEMENTARY_GROUPS_CHIRHO then (- EINVAL_CHIRHO, w)
      else case get_words list_ptr 0 (unat n) (cmem w) of
             Inl e \<Rightarrow> (e, w)
           | Inr groups \<Rightarrow> (0, apply_credentials_to_thread_group_chirho (snap_tgid_chirho sn)
                              (\<lambda>t. t\<lparr>supplementary_groups_chirho := groups\<rparr>) w))"

text \<open>The loop over three pointers and values.\<close>

fun put_three :: "(u64 \<times> u32) list \<Rightarrow> umem \<Rightarrow> i64 \<times> umem" where
  "put_three [] mem = (0, mem)"
| "put_three ((ptr, v) # rest) mem =
     (case write_u32_to_user_chirho ptr v mem of
        (r, mem') \<Rightarrow> if r \<noteq> 0 then (r, mem') else put_three rest mem')"

definition zero_creds :: TaskCredsChirho where
  "zero_creds = \<lparr>uid_chirho = 0, gid_chirho = 0, euid_chirho = 0, egid_chirho = 0,
     saved_uid_chirho = 0, saved_gid_chirho = 0, supplementary_groups_chirho = []\<rparr>"

definition snapshot_or_zero :: "cred_world \<Rightarrow> TaskCredsChirho" where
  "snapshot_or_zero w = (case current_credential_snapshot_chirho w of Some sn \<Rightarrow> snap_creds sn | None \<Rightarrow> zero_creds)"

definition sys_getresuid_chirho :: "u64 \<Rightarrow> u64 \<Rightarrow> u64 \<Rightarrow> cred_world \<Rightarrow> i64 \<times> cred_world" where
  "sys_getresuid_chirho rp ep sp w =
     (let c = snapshot_or_zero w in
      case put_three [(rp, uid_chirho c), (ep, euid_chirho c), (sp, saved_uid_chirho c)] (cmem w) of
        (r, mem') \<Rightarrow> (r, w\<lparr>cmem := mem'\<rparr>))"

definition sys_getresgid_chirho :: "u64 \<Rightarrow> u64 \<Rightarrow> u64 \<Rightarrow> cred_world \<Rightarrow> i64 \<times> cred_world" where
  "sys_getresgid_chirho rp ep sp w =
     (let c = snapshot_or_zero w in
      case put_three [(rp, gid_chirho c), (ep, egid_chirho c), (sp, saved_gid_chirho c)] (cmem w) of
        (r, mem') \<Rightarrow> (r, w\<lparr>cmem := mem'\<rparr>))"

section \<open>New tasks\<close>

text \<open>The task structure that \<^verbatim>\<open>sys_clone_chirho\<close> builds (with \<^verbatim>\<open>thread\<close> for
  \<^verbatim>\<open>CLONE_THREAD\<close>; without it the identities are those of \<^verbatim>\<open>sys_fork_chirho\<close>) and its
  registration.  The machine context, the kernel stack and the page table are
  arguments; without a page table the copy of the address space has failed.\<close>

record child_env =
  child_ctx :: CpuContextChirho
  child_kstack :: u64
  child_root :: "u64 option option"

definition child_task :: "child_env \<Rightarrow> u64 option \<Rightarrow> bool \<Rightarrow> u64 \<Rightarrow> TaskChirho \<Rightarrow> TaskChirho" where
  "child_task env root thread child_pid parent = parent\<lparr>pid_chirho := child_pid,
     tgid_chirho := (if thread then tgid_chirho parent else child_pid),
     ppid_chirho := pid_chirho parent, state_chirho := ReadyChirho, exit_code_chirho := 0,
     context_chirho := child_ctx env, kernel_stack_chirho := child_kstack env,
     kernel_stack_size_chirho := KERNEL_STACK_SIZE_CHIRHO, page_table_root_chirho := root\<rparr>"

definition clone_task :: "child_env \<Rightarrow> bool \<Rightarrow> cred_world \<Rightarrow> i64 \<times> cred_world" where
  "clone_task env thread w = (case current_task w of None \<Rightarrow> (- EAGAIN_CHIRHO, w)
     | Some parent \<Rightarrow>
        (case allocate_pid_chirho (csched w) of (child_pid, s1) \<Rightarrow>
          (case child_root env of None \<Rightarrow> (- ENOMEM_CHIRHO, w\<lparr>csched := s1\<rparr>)
           | Some root \<Rightarrow> (sint child_pid,
               w\<lparr>csched := register_task_chirho (child_task env root thread child_pid parent) s1,
                 creds := (creds w)(child_pid := creds w (pid_chirho parent)),
                 controlling_tty_chirho := (controlling_tty_chirho w)
                   (child_pid := controlling_tty_chirho w (pid_chirho parent))\<rparr>))))"

section \<open>Calls and their sequences\<close>

datatype cred_call = C_Setuid u32 | C_Setgid u32 | C_Setreuid u32 u32 | C_Setregid u32 u32
  | C_Setresuid u32 u32 u32 | C_Setresgid u32 u32 u32 | C_Setgroups usize u64 | C_Getgroups usize u64
  | C_Getresuid u64 u64 u64 | C_Getresgid u64 u64 u64 | C_Setsid | C_Setpgid u64 u64

primrec do_call :: "cred_call \<Rightarrow> cred_world \<Rightarrow> i64 \<times> cred_world" where
  "do_call (C_Setuid u) w = sys_setuid_chirho u w"
| "do_call (C_Setgid g) w = sys_setgid_chirho g w"
| "do_call (C_Setreuid r e) w = sys_setreuid_chirho r e w"
| "do_call (C_Setregid r e) w = sys_setregid_chirho r e w"
| "do_call (C_Setresuid r e s) w = sys_setresuid_chirho r e s w"
| "do_call (C_Setresgid r e s) w = sys_setresgid_chirho r e s w"
| "do_call (C_Setgroups n p) w = sys_setgroups_chirho n p w"
| "do_call (C_Getgroups n p) w = sys_getgroups_chirho n p w"
| "do_call (C_Getresuid r e s) w = sys_getresuid_chirho r e s w"
| "do_call (C_Getresgid r e s) w = sys_getresgid_chirho r e s w"
| "do_call C_Setsid w = sys_setsid_chirho w"
| "do_call (C_Setpgid p g) w = sys_setpgid_chirho p g w"

text \<open>An event is a task that makes a call or starts a task; running it makes the task
  current.\<close>

datatype cred_event = E_Call u64 cred_call | E_Clone u64 child_env bool

definition run_as :: "u64 \<Rightarrow> cred_world \<Rightarrow> cred_world" where
  "run_as p w = w\<lparr>csched := set_current_task_chirho p (csched w)\<rparr>"

primrec cred_step :: "cred_world \<Rightarrow> cred_event \<Rightarrow> cred_world" where
  "cred_step w (E_Call p c) = snd (do_call c (run_as p w))"
| "cred_step w (E_Clone p env thread) = snd (clone_task env thread (run_as p w))"

text \<open>The thread groups that descend from those in \<^verbatim>\<open>G\<close>.\<close>

primrec grow :: "u64 set \<Rightarrow> cred_world \<Rightarrow> cred_event \<Rightarrow> u64 set" where
  "grow G w (E_Call p c) = G"
| "grow G w (E_Clone p env thread) = (case find_task_by_pid_chirho (csched w) p of
     Some t \<Rightarrow> if tgid_chirho t \<in> G \<and> \<not> thread then insert (NEXT_PID_CHIRHO (csched w)) G else G
   | None \<Rightarrow> G)"

primrec lineage :: "u64 set \<Rightarrow> cred_world \<Rightarrow> cred_event list \<Rightarrow> u64 set" where
  "lineage G w [] = G"
| "lineage G w (ev # es) = lineage (grow G w ev) (cred_step w ev) es"

section \<open>Thread groups\<close>

abbreviation tasks_of :: "cred_world \<Rightarrow> TaskChirho list" where
  "tasks_of w \<equiv> TASK_LIST_CHIRHO (csched w)"

definition tasks_ok :: "cred_world \<Rightarrow> bool" where
  "tasks_ok w \<longleftrightarrow> distinct (map pid_chirho (tasks_of w)) \<and>
     list_all (\<lambda>t. pid_chirho t < NEXT_PID_CHIRHO (csched w) \<and> tgid_chirho t < NEXT_PID_CHIRHO (csched w)) (tasks_of w)"

definition in_group :: "cred_world \<Rightarrow> u64 \<Rightarrow> u64 \<Rightarrow> bool" where
  "in_group w g p \<longleftrightarrow> list_ex (\<lambda>t. tgid_chirho t = g \<and> pid_chirho t = p) (tasks_of w)"

text \<open>The tasks, their groups and the next PID are the same.\<close>

definition same_groups :: "cred_world \<Rightarrow> cred_world \<Rightarrow> bool" where
  "same_groups w w' \<longleftrightarrow> NEXT_PID_CHIRHO (csched w') = NEXT_PID_CHIRHO (csched w) \<and>
     map (\<lambda>t. (pid_chirho t, tgid_chirho t)) (tasks_of w') = map (\<lambda>t. (pid_chirho t, tgid_chirho t)) (tasks_of w)"

lemma apply_unchanged [simp]:
  "csched (apply_credentials_to_thread_group_chirho g f w) = csched w"
  "cmem (apply_credentials_to_thread_group_chirho g f w) = cmem w"
  "controlling_tty_chirho (apply_credentials_to_thread_group_chirho g f w) = controlling_tty_chirho w"
proof -
  have "csched (foldl (\<lambda>w t. if tgid_chirho t = g
           then w\<lparr>creds := (creds w)(pid_chirho t := f (creds w (pid_chirho t)))\<rparr> else w) w ts) = csched w \<and>
        cmem (foldl (\<lambda>w t. if tgid_chirho t = g
           then w\<lparr>creds := (creds w)(pid_chirho t := f (creds w (pid_chirho t)))\<rparr> else w) w ts) = cmem w \<and>
        controlling_tty_chirho (foldl (\<lambda>w t. if tgid_chirho t = g
           then w\<lparr>creds := (creds w)(pid_chirho t := f (creds w (pid_chirho t)))\<rparr> else w) w ts) =
        controlling_tty_chirho w" for ts
    by (induction ts arbitrary: w) auto
  then show "csched (apply_credentials_to_thread_group_chirho g f w) = csched w"
    "cmem (apply_credentials_to_thread_group_chirho g f w) = cmem w"
    "controlling_tty_chirho (apply_credentials_to_thread_group_chirho g f w) = controlling_tty_chirho w"
    by (auto simp: apply_credentials_to_thread_group_chirho_def)
qed

lemma creds_apply:
  assumes "tasks_ok w"
  shows "creds (apply_credentials_to_thread_group_chirho g f w) p =
    (if in_group w g p then f (creds w p) else creds w p)"
proof -
  have "distinct (map pid_chirho ts) \<Longrightarrow> creds (foldl (\<lambda>w t. if tgid_chirho t = g
           then w\<lparr>creds := (creds w)(pid_chirho t := f (creds w (pid_chirho t)))\<rparr> else w) w ts) p =
      (if list_ex (\<lambda>t. tgid_chirho t = g \<and> pid_chirho t = p) ts then f (creds w p) else creds w p)" for ts :: "TaskChirho list"
    by (induction ts arbitrary: w) (auto simp: list_ex_iff image_iff)
  then show ?thesis
    using assms by (simp add: apply_credentials_to_thread_group_chirho_def tasks_ok_def in_group_def)
qed

lemma find_task_Some: "find_task_by_pid_chirho s p = Some t \<Longrightarrow> t \<in> set (TASK_LIST_CHIRHO s) \<and> pid_chirho t = p"
  by (auto simp: find_task_by_pid_chirho_def find_Some_iff)

lemma current_task_Some: "current_task w = Some t \<Longrightarrow> t \<in> set (tasks_of w)"
  by (auto simp: current_task_def split: option.splits dest: find_task_Some)

lemma in_group_iff: "in_group w g p \<longleftrightarrow> (p, g) \<in> set (map (\<lambda>t. (pid_chirho t, tgid_chirho t)) (tasks_of w))"
  by (auto simp: in_group_def list_ex_iff)

lemma same_groups_in_group: "same_groups w w' \<Longrightarrow> in_group w' g p = in_group w g p"
  by (simp add: same_groups_def in_group_iff)

lemma same_groups_refl [simp]: "same_groups w w"
  by (simp add: same_groups_def)

lemma tasks_ok_iff:
  "tasks_ok w \<longleftrightarrow> distinct (map fst (map (\<lambda>t. (pid_chirho t, tgid_chirho t)) (tasks_of w))) \<and>
    (\<forall>(p, g) \<in> set (map (\<lambda>t. (pid_chirho t, tgid_chirho t)) (tasks_of w)).
       p < NEXT_PID_CHIRHO (csched w) \<and> g < NEXT_PID_CHIRHO (csched w))"
  by (simp add: tasks_ok_def list_all_iff comp_def)

lemma same_groups_ok: "same_groups w w' \<Longrightarrow> tasks_ok w' = tasks_ok w"
  by (simp only: tasks_ok_iff same_groups_def)

lemma same_groups_set_task:
  assumes "\<And>t. pid_chirho (f t) = pid_chirho t \<and> tgid_chirho (f t) = tgid_chirho t"
  shows "same_groups w (set_task p f w)"
  using assms by (simp add: same_groups_def set_task_def comp_def)

lemma same_groups_apply [simp]: "same_groups w (apply_credentials_to_thread_group_chirho g f w)"
  by (simp add: same_groups_def)

lemma run_as_simps [simp]:
  "tasks_of (run_as p w) = tasks_of w" "creds (run_as p w) = creds w" "cmem (run_as p w) = cmem w"
  "NEXT_PID_CHIRHO (csched (run_as p w)) = NEXT_PID_CHIRHO (csched w)"
  "find_task_by_pid_chirho (csched (run_as p w)) q = find_task_by_pid_chirho (csched w) q"
  by (simp_all add: run_as_def set_current_task_chirho_def find_task_by_pid_chirho_def)

lemma current_run_as [simp]: "current_task (run_as p w) = find_task_by_pid_chirho (csched w) p"
  by (simp add: current_task_def run_as_def set_current_task_chirho_def find_task_by_pid_chirho_def)

lemma same_groups_run_as [simp]: "same_groups w (run_as p w)"
  by (simp add: same_groups_def)

section \<open>What the calls do to identities\<close>

definition uids :: "TaskCredsChirho \<Rightarrow> u32 set" where
  "uids c = {uid_chirho c, euid_chirho c, saved_uid_chirho c}"

definition gids :: "TaskCredsChirho \<Rightarrow> u32 set" where
  "gids c = {gid_chirho c, egid_chirho c, saved_gid_chirho c}"

text \<open>A change that a caller with credentials \<^verbatim>\<open>c\<close> may apply: without root it only
  distributes identities that the caller or the task has.\<close>

definition allowed :: "TaskCredsChirho \<Rightarrow> (TaskCredsChirho \<Rightarrow> TaskCredsChirho) \<Rightarrow> bool" where
  "allowed c f \<longleftrightarrow> euid_chirho c = 0 \<or>
     (\<forall>d. uids (f d) \<subseteq> uids c \<union> uids d \<and> gids (f d) \<subseteq> gids c \<union> gids d \<and>
          supplementary_groups_chirho (f d) = supplementary_groups_chirho d)"

text \<open>The contract of the system calls: the credentials stay, or a change that the
  caller may make is applied to all of the caller's thread group.\<close>

locale credential_calls =
  fixes call :: "'c \<Rightarrow> cred_world \<Rightarrow> i64 \<times> cred_world"
  assumes call_groups: "call c w = (r, w') \<Longrightarrow> same_groups w w'"
    and call_creds: "call c w = (r, w') \<Longrightarrow> creds w' = creds w \<or>
      (\<exists>t f. current_task w = Some t \<and> r = 0 \<and> allowed (creds w (pid_chirho t)) f \<and>
         creds w' = creds (apply_credentials_to_thread_group_chirho (tgid_chirho t) f w))"
begin

lemma call_cases:
  assumes "call c w = (r, w')" "tasks_ok w"
  obtains (same) "creds w' = creds w"
    | (group) t f where "current_task w = Some t" "r = 0" "allowed (creds w (pid_chirho t)) f"
        "\<And>p. creds w' p = (if in_group w (tgid_chirho t) p then f (creds w p) else creds w p)"
  using call_creds [OF assms(1)] creds_apply [OF assms(2)] by metis

text \<open>An error changes no credentials.\<close>

lemma call_error: "call c w = (r, w') \<Longrightarrow> r \<noteq> 0 \<Longrightarrow> creds w' = creds w"
  using call_creds by blast

end

lemma allowed_root: "euid_chirho c = 0 \<Longrightarrow> allowed c f"
  by (simp add: allowed_def)

lemma snapshot_Some:
  "current_credential_snapshot_chirho w = Some sn \<Longrightarrow> \<exists>t. current_task w = Some t \<and>
     snap_tgid_chirho sn = tgid_chirho t \<and> snap_creds sn = creds w (pid_chirho t)"
  by (auto simp: current_credential_snapshot_chirho_def split: option.splits)

lemmas allowed_simps = allowed_def uids_def gids_def can_assume_uid_chirho_def can_assume_gid_chirho_def
  unwrap_or_def setreuid_refused_def setregid_refused_def flatten_def map_filter_simps

text \<open>The effect of one call, for calls that go through the snapshot of the caller.\<close>

definition changes_group :: "cred_world \<Rightarrow> i64 \<times> cred_world \<Rightarrow> bool" where
  "changes_group w res \<longleftrightarrow> snd res = w \<or>
     (\<exists>t f. current_task w = Some t \<and> fst res = 0 \<and> allowed (creds w (pid_chirho t)) f \<and>
        snd res = apply_credentials_to_thread_group_chirho (tgid_chirho t) f w)"

lemma changes_groupI:
  assumes "current_credential_snapshot_chirho w = Some sn" "allowed (snap_creds sn) f"
  shows "changes_group w (0, apply_credentials_to_thread_group_chirho (snap_tgid_chirho sn) f w)"
  using snapshot_Some [OF assms(1)] assms(2) by (auto simp: changes_group_def)

lemma changes_group_none [simp]: "changes_group w (r, w)"
  by (simp add: changes_group_def)

lemma setuid_changes: "changes_group w (sys_setuid_chirho u w)"
  unfolding sys_setuid_chirho_def
  by (auto split: option.split intro!: changes_groupI) (auto simp: allowed_simps)

lemma setgid_changes: "changes_group w (sys_setgid_chirho u w)"
  unfolding sys_setgid_chirho_def
  by (auto split: option.split intro!: changes_groupI) (auto simp: allowed_simps)

lemma setreuid_changes: "changes_group w (sys_setreuid_chirho r e w)"
  unfolding sys_setreuid_chirho_def Let_def
  by (auto split: option.split intro!: changes_groupI) (auto simp: allowed_simps split: option.splits)

lemma setregid_changes: "changes_group w (sys_setregid_chirho r e w)"
  unfolding sys_setregid_chirho_def Let_def
  by (auto split: option.split intro!: changes_groupI) (auto simp: allowed_simps split: option.splits)

lemma setresuid_changes: "changes_group w (sys_setresuid_chirho r e s w)"
  unfolding sys_setresuid_chirho_def Let_def
  by (auto split: option.split intro!: changes_groupI) (auto simp: allowed_simps split: option.splits)

lemma setresgid_changes: "changes_group w (sys_setresgid_chirho r e s w)"
  unfolding sys_setresgid_chirho_def Let_def
  by (auto split: option.split intro!: changes_groupI) (auto simp: allowed_simps split: option.splits)

lemma setgroups_changes: "changes_group w (sys_setgroups_chirho n p w)"
  unfolding sys_setgroups_chirho_def
  by (auto split: option.split sum.split intro!: changes_groupI allowed_root)

lemmas identity_changes = setuid_changes setgid_changes setreuid_changes setregid_changes
  setresuid_changes setresgid_changes setgroups_changes

lemma changes_groupD:
  "changes_group w (r, w') \<Longrightarrow> same_groups w w' \<and> (creds w' = creds w \<or>
     (\<exists>t f. current_task w = Some t \<and> r = 0 \<and> allowed (creds w (pid_chirho t)) f \<and>
        creds w' = creds (apply_credentials_to_thread_group_chirho (tgid_chirho t) f w)))"
  by (auto simp: changes_group_def)

lemma same_groups_mem: "same_groups w (w\<lparr>cmem := m\<rparr>)"
  by (simp add: same_groups_def)

lemma readout_keeps:
  "sys_getgroups_chirho n p w = (r, w') \<Longrightarrow> same_groups w w' \<and> creds w' = creds w"
  "sys_getresuid_chirho a b c w = (r, w') \<Longrightarrow> same_groups w w' \<and> creds w' = creds w"
  "sys_getresgid_chirho a b c w = (r, w') \<Longrightarrow> same_groups w w' \<and> creds w' = creds w"
  by (auto simp: sys_getgroups_chirho_def sys_getresuid_chirho_def sys_getresgid_chirho_def Let_def
      same_groups_mem split: if_splits prod.splits)

lemma setsid_keeps: "sys_setsid_chirho w = (r, w') \<Longrightarrow> same_groups w w' \<and> creds w' = creds w"
  by (auto simp: sys_setsid_chirho_def Let_def set_task_def same_groups_def comp_def
      split: option.splits if_splits)

lemma setpgid_keeps: "sys_setpgid_chirho p g w = (r, w') \<Longrightarrow> same_groups w w' \<and> creds w' = creds w"
  by (auto simp: sys_setpgid_chirho_def Let_def set_task_def same_groups_def comp_def
      split: option.splits if_splits)

lemma do_call_effect:
  "do_call c w = (r, w') \<Longrightarrow> same_groups w w' \<and> (creds w' = creds w \<or>
     (\<exists>t f. current_task w = Some t \<and> r = 0 \<and> allowed (creds w (pid_chirho t)) f \<and>
        creds w' = creds (apply_credentials_to_thread_group_chirho (tgid_chirho t) f w)))"
proof (cases "c \<in> range (case_prod C_Getgroups) \<union> {C_Setsid} \<union> range (case_prod C_Setpgid) \<union>
    range (\<lambda>(a, b, c). C_Getresuid a b c) \<union> range (\<lambda>(a, b, c). C_Getresgid a b c)")
  case True
  moreover assume "do_call c w = (r, w')"
  ultimately show ?thesis
    by (auto dest: readout_keeps setsid_keeps setpgid_keeps)
next
  case False
  assume e: "do_call c w = (r, w')"
  have "changes_group w (do_call c w)"
    using False identity_changes by (cases c) (auto simp: image_iff)
  then show ?thesis unfolding e by (rule changes_groupD)
qed

interpretation idc: credential_calls do_call
  using do_call_effect by unfold_locales blast+

section \<open>Invariants over all events\<close>

definition confined :: "u32 set \<Rightarrow> u32 set \<Rightarrow> u32 list set \<Rightarrow> u64 set \<Rightarrow> cred_world \<Rightarrow> bool" where
  "confined U V S G w \<longleftrightarrow> (\<forall>g\<in>G. \<forall>p. in_group w g p \<longrightarrow>
     uids (creds w p) \<subseteq> U \<and> gids (creds w p) \<subseteq> V \<and> supplementary_groups_chirho (creds w p) \<in> S)"

definition threads_agree :: "cred_world \<Rightarrow> bool" where
  "threads_agree w \<longleftrightarrow> (\<forall>g p q. in_group w g p \<longrightarrow> in_group w g q \<longrightarrow> creds w p = creds w q)"

lemma current_in_group: "current_task w = Some t \<Longrightarrow> in_group w (tgid_chirho t) (pid_chirho t)"
  using current_task_Some by (force simp: in_group_iff)

lemma in_group_unique:
  assumes "tasks_ok w" "in_group w g p" "in_group w h p"
  shows "g = h"
  using assms unfolding tasks_ok_iff in_group_iff by (blast intro: eq_key_imp_eq_value)

context credential_calls
begin

lemma call_agree:
  assumes "call c w = (r, w')" "tasks_ok w" "threads_agree w"
  shows "threads_agree w'"
proof -
  note grp = same_groups_in_group [OF call_groups [OF assms(1)]]
  show ?thesis using assms(1,2)
  proof (cases rule: call_cases)
    case same
    show ?thesis using assms(3) unfolding threads_agree_def grp same .
  next
    case (group t f)
    have "creds w' p = creds w' q" if "in_group w g p" "in_group w g q" for g p q
    proof -
      have "in_group w (tgid_chirho t) p = in_group w (tgid_chirho t) q"
        using in_group_unique [OF assms(2)] that by metis
      moreover have "creds w p = creds w q" using assms(3) that unfolding threads_agree_def by blast
      ultimately show ?thesis using group(4) by simp
    qed
    then show ?thesis unfolding threads_agree_def grp by blast
  qed
qed

lemma call_confined:
  assumes "call c w = (r, w')" "tasks_ok w" "confined U V S G w" "0 \<notin> U"
  shows "confined U V S G w'"
  using assms(1,2)
proof (cases rule: call_cases)
  case same
  then show ?thesis
    using assms(3) same_groups_in_group [OF call_groups [OF assms(1)]] by (simp add: confined_def)
next
  case (group t f)
  have "uids (creds w' p) \<subseteq> U \<and> gids (creds w' p) \<subseteq> V \<and> supplementary_groups_chirho (creds w' p) \<in> S"
    if p: "g \<in> G" "in_group w g p" for g p
  proof -
    have d: "uids (creds w p) \<subseteq> U" "gids (creds w p) \<subseteq> V" "supplementary_groups_chirho (creds w p) \<in> S"
      using assms(3) p by (auto simp: confined_def)
    show ?thesis
    proof (cases "in_group w (tgid_chirho t) p")
      case True
      then have "tgid_chirho t \<in> G" using in_group_unique [OF assms(2) p(2)] p(1) by metis
      then have c: "uids (creds w (pid_chirho t)) \<subseteq> U" "gids (creds w (pid_chirho t)) \<subseteq> V"
        using assms(3) current_in_group [OF group(1)] by (auto simp: confined_def)
      then have "euid_chirho (creds w (pid_chirho t)) \<noteq> 0" using assms(4) by (auto simp: uids_def)
      then have f: "uids (f d) \<subseteq> uids (creds w (pid_chirho t)) \<union> uids d"
        "gids (f d) \<subseteq> gids (creds w (pid_chirho t)) \<union> gids d"
        "supplementary_groups_chirho (f d) = supplementary_groups_chirho d" for d
        using group(3) by (auto simp: allowed_def)
      show ?thesis using group(4) [of p] True f [of "creds w p"] c d by auto
    qed (use group(4) [of p] d in simp)
  qed
  then show ?thesis
    using same_groups_in_group [OF call_groups [OF assms(1)]] by (simp add: confined_def)
qed

end

section \<open>New tasks\<close>

lemma clone_task_cases:
  assumes "clone_task env thread w = (r, w')"
  obtains (none) "w' = w" "current_task w = None"
    | (refused) t where "current_task w = Some t" "NEXT_PID_CHIRHO (csched w') = NEXT_PID_CHIRHO (csched w) + 1"
       "tasks_of w' = tasks_of w" "creds w' = creds w"
    | (child) t root where "current_task w = Some t" "NEXT_PID_CHIRHO (csched w') = NEXT_PID_CHIRHO (csched w) + 1"
       "tasks_of w' = tasks_of w @ [child_task env root thread (NEXT_PID_CHIRHO (csched w)) t]"
       "creds w' = (creds w)(NEXT_PID_CHIRHO (csched w) := creds w (pid_chirho t))"
  using assms by (auto simp: clone_task_def allocate_pid_chirho_def register_task_chirho_def split: option.splits)

lemma in_group_append:
  "tasks_of w' = tasks_of w @ [t] \<Longrightarrow> in_group w' g p \<longleftrightarrow> in_group w g p \<or> g = tgid_chirho t \<and> p = pid_chirho t"
  by (auto simp: in_group_def)

lemma in_group_less: "tasks_ok w \<Longrightarrow> in_group w g p \<Longrightarrow> p < NEXT_PID_CHIRHO (csched w) \<and> g < NEXT_PID_CHIRHO (csched w)"
  unfolding tasks_ok_iff in_group_iff by blast

lemma child_task_simps [simp]:
  "pid_chirho (child_task env root thread c t) = c"
  "tgid_chirho (child_task env root thread c t) = (if thread then tgid_chirho t else c)"
  by (simp_all add: child_task_def)

lemma less_next:
  assumes "(n :: u64) \<noteq> - 1" "x \<le> n"
  shows "x < n + 1"
  using assms(2) unat_Suc_word [OF assms(1)] by (simp add: word_less_nat_alt word_le_nat_alt)

lemma clone_ok:
  assumes "clone_task env thread w = (r, w')" "tasks_ok w" "NEXT_PID_CHIRHO (csched w) \<noteq> - 1"
  shows "tasks_ok w'"
  using assms(1)
proof (cases rule: clone_task_cases)
  case (refused t)
  then show ?thesis using assms(2) less_next [OF assms(3)] by (fastforce simp: tasks_ok_def list_all_iff)
next
  case (child t root)
  have "tgid_chirho t < NEXT_PID_CHIRHO (csched w)"
    using in_group_less [OF assms(2) current_in_group [OF child(1)]] by simp
  then show ?thesis
    using assms(2) child(2,3) less_next [OF assms(3)] by (fastforce simp: tasks_ok_def list_all_iff)
qed (use assms(2) in simp)

lemma clone_agree:
  assumes "clone_task env thread w = (r, w')" "tasks_ok w" "threads_agree w"
  shows "threads_agree w'"
  using assms(1)
proof (cases rule: clone_task_cases)
  case (refused t)
  then have grp: "in_group w' = in_group w" by (simp add: in_group_def fun_eq_iff)
  show ?thesis using assms(3) unfolding threads_agree_def refused(4) grp .
next
  case (child t root)
  let ?n = "NEXT_PID_CHIRHO (csched w)"
  have old: "creds w' p = creds w p" "g \<noteq> ?n" if "in_group w g p" for g p
    using in_group_less [OF assms(2) that] child(4) by auto
  have agree: "creds w p = creds w q" if "in_group w g p" "in_group w g q" for g p q
    using assms(3) that unfolding threads_agree_def by blast
  note tg = current_in_group [OF child(1)]
  have new: "creds w' ?n = creds w (pid_chirho t)" using child(4) by simp
  have "creds w' p = creds w' q" if "in_group w' g p" "in_group w' g q" for g p q
    using that unfolding in_group_append [OF child(3)] child_task_simps
    using old agree tg new by (metis (full_types))
  then show ?thesis unfolding threads_agree_def by blast
qed (use assms(3) in simp)

lemma clone_confined:
  assumes "clone_task env thread w = (r, w')" "tasks_ok w" "confined U V S G w"
    "\<forall>g\<in>G. g < NEXT_PID_CHIRHO (csched w)" "current_task w = Some t"
  shows "confined U V S (if tgid_chirho t \<in> G \<and> \<not> thread then insert (NEXT_PID_CHIRHO (csched w)) G else G) w'"
  using assms(1)
proof (cases rule: clone_task_cases)
  case (refused t)
  then have "in_group w' = in_group w" by (simp add: in_group_def fun_eq_iff)
  moreover have "\<not> in_group w (NEXT_PID_CHIRHO (csched w)) p" for p using in_group_less [OF assms(2)] by blast
  ultimately show ?thesis using assms(3) refused(4) by (simp add: confined_def)
next
  case (child t' root)
  then have t': "t' = t" using assms(5) by simp
  let ?n = "NEXT_PID_CHIRHO (csched w)"
  have old: "creds w' p = creds w p" "g \<noteq> ?n" if "in_group w g p" for g p
    using in_group_less [OF assms(2) that] child(4) by auto
  have nG: "?n \<notin> G" using assms(4) by auto
  show ?thesis unfolding confined_def
  proof (intro ballI allI impI)
    fix g p assume g: "g \<in> (if tgid_chirho t \<in> G \<and> \<not> thread then insert ?n G else G)" and p: "in_group w' g p"
    show "uids (creds w' p) \<subseteq> U \<and> gids (creds w' p) \<subseteq> V \<and> supplementary_groups_chirho (creds w' p) \<in> S"
    proof (cases "in_group w g p")
      case True
      then have "g \<in> G" using g old(2) [OF True] by (simp split: if_splits)
      then show ?thesis using True assms(3) old(1) [OF True] by (simp add: confined_def)
    next
      case False
      then have gp: "g = (if thread then tgid_chirho t else ?n)" "p = ?n"
        using p unfolding in_group_append [OF child(3)] child_task_simps t' by auto
      then have "tgid_chirho t \<in> G" using g nG by (simp split: if_splits)
      then show ?thesis
        using gp(2) child(4) t' assms(3) current_in_group [OF assms(5)] by (simp add: confined_def)
    qed
  qed
qed (use assms(5) in simp)

section \<open>All sequences of events\<close>

lemma step_cases:
  obtains (call) p c r where "ev = E_Call p c" "do_call c (run_as p w) = (r, cred_step w ev)"
    | (clone) p env thread r where "ev = E_Clone p env thread" "clone_task env thread (run_as p w) = (r, cred_step w ev)"
  by (cases ev) (auto simp: prod_eq_iff)

lemma run_as_props [simp]:
  "tasks_ok (run_as p w) = tasks_ok w" "threads_agree (run_as p w) = threads_agree w"
  "confined U V S G (run_as p w) = confined U V S G w"
  by (simp_all add: tasks_ok_def threads_agree_def confined_def in_group_def)

lemma next_pid_step: "unat (NEXT_PID_CHIRHO (csched w)) + 1 < 2 ^ 64 \<Longrightarrow>
  unat (NEXT_PID_CHIRHO (csched (cred_step w ev))) \<in> {unat (NEXT_PID_CHIRHO (csched w)), Suc (unat (NEXT_PID_CHIRHO (csched w)))}"
proof (cases rule: step_cases [where w = w and ev = ev])
  case (call p c r)
  then show ?thesis using idc.call_groups [OF call(2)] by (simp add: same_groups_def)
next
  case (clone p env thread r)
  assume "unat (NEXT_PID_CHIRHO (csched w)) + 1 < 2 ^ 64"
  then have "NEXT_PID_CHIRHO (csched w) \<noteq> - 1" using unat_minus_one_word [where 'a = 64] by auto
  then have "unat (NEXT_PID_CHIRHO (csched w) + 1) = Suc (unat (NEXT_PID_CHIRHO (csched w)))"
    by (rule unat_Suc_word)
  then show ?thesis by (cases rule: clone_task_cases [OF clone(2)]) auto
qed

lemma step_ok:
  assumes "tasks_ok w" "unat (NEXT_PID_CHIRHO (csched w)) + 1 < 2 ^ 64"
  shows "tasks_ok (cred_step w ev)"
proof (cases rule: step_cases [where w = w and ev = ev])
  case (call p c r)
  then show ?thesis using assms(1) same_groups_ok [OF idc.call_groups [OF call(2)]] by simp
next
  case (clone p env thread r)
  have "NEXT_PID_CHIRHO (csched w) \<noteq> - 1" using assms(2) unat_minus_one_word [where 'a = 64] by auto
  then show ?thesis using clone_ok [OF clone(2)] assms(1) by simp
qed

lemma step_agree:
  assumes "tasks_ok w" "threads_agree w"
  shows "threads_agree (cred_step w ev)"
  by (cases rule: step_cases [where w = w and ev = ev])
    (use assms in \<open>auto dest: idc.call_agree clone_agree\<close>)

lemma step_confined:
  assumes "tasks_ok w" "confined U V S G w" "0 \<notin> U" "\<forall>g\<in>G. g < NEXT_PID_CHIRHO (csched w)"
  shows "confined U V S (grow G w ev) (cred_step w ev)"
proof (cases rule: step_cases [where w = w and ev = ev])
  case (call p c r)
  then show ?thesis using idc.call_confined [OF call(2)] assms by simp
next
  case (clone p env thread r)
  show ?thesis
  proof (cases "find_task_by_pid_chirho (csched w) p")
    case None
    then show ?thesis using clone assms(2) by (auto simp: clone_task_def)
  next
    case (Some t)
    then show ?thesis using clone(1) clone_confined [OF clone(2), of U V S G t] assms by auto
  qed
qed

lemma grow_less:
  assumes "tasks_ok w" "unat (NEXT_PID_CHIRHO (csched w)) + 1 < 2 ^ 64" "\<forall>g\<in>G. g < NEXT_PID_CHIRHO (csched w)"
  shows "\<forall>g\<in>grow G w ev. g < NEXT_PID_CHIRHO (csched (cred_step w ev))"
proof (cases ev)
  case (E_Call p c)
  then show ?thesis
    using assms(3) next_pid_step [OF assms(2), of ev] by (auto simp: word_less_nat_alt)
next
  case (E_Clone p env thread)
  have m: "NEXT_PID_CHIRHO (csched w) \<noteq> - 1" using assms(2) unat_minus_one_word [where 'a = 64] by auto
  show ?thesis
  proof (cases "find_task_by_pid_chirho (csched w) p")
    case None
    then show ?thesis using E_Clone assms(3) by (auto simp: clone_task_def)
  next
    case (Some t)
    then have "NEXT_PID_CHIRHO (csched (cred_step w ev)) = NEXT_PID_CHIRHO (csched w) + 1"
      using E_Clone by (simp add: clone_task_def allocate_pid_chirho_def register_task_chirho_def split: option.split)
    then show ?thesis
      using Some E_Clone assms(3) unat_Suc_word [OF m] by (auto simp: word_less_nat_alt split: if_splits)
  qed
qed

lemma run_confined:
  assumes "tasks_ok w" "confined U V S G w" "0 \<notin> U" "\<forall>g\<in>G. g < NEXT_PID_CHIRHO (csched w)"
    "unat (NEXT_PID_CHIRHO (csched w)) + length es < 2 ^ 64"
  shows "confined U V S (lineage G w es) (foldl cred_step w es)"
  using assms
proof (induction es arbitrary: w G)
  case (Cons ev es)
  have n: "unat (NEXT_PID_CHIRHO (csched w)) + 1 < 2 ^ 64" using Cons.prems(5) by simp
  have "unat (NEXT_PID_CHIRHO (csched (cred_step w ev))) + length es < 2 ^ 64"
    using next_pid_step [OF n, of ev] Cons.prems(5) by auto
  then show ?case
    using Cons.IH [OF step_ok [OF Cons.prems(1) n] step_confined [OF Cons.prems(1-4)] Cons.prems(3)
        grow_less [OF Cons.prems(1) n Cons.prems(4)]] by simp
qed simp

lemma run_agree:
  assumes "tasks_ok w" "threads_agree w" "unat (NEXT_PID_CHIRHO (csched w)) + length es < 2 ^ 64"
  shows "threads_agree (foldl cred_step w es)"
  using assms
proof (induction es arbitrary: w)
  case (Cons ev es)
  have n: "unat (NEXT_PID_CHIRHO (csched w)) + 1 < 2 ^ 64" using Cons.prems(3) by simp
  have "unat (NEXT_PID_CHIRHO (csched (cred_step w ev))) + length es < 2 ^ 64"
    using next_pid_step [OF n, of ev] Cons.prems(3) by auto
  then show ?case
    using Cons.IH [OF step_ok [OF Cons.prems(1) n] step_agree [OF Cons.prems(1,2)]] by simp
qed simp

section \<open>Supplementary groups\<close>

text \<open>The copy loops on arrays in user space that do not start at address 0.\<close>

definition words_at :: "umem \<Rightarrow> u64 \<Rightarrow> nat \<Rightarrow> u32 list" where
  "words_at mem a n = map (\<lambda>k. of_nat (le_nat (read_mem mem (a + of_nat (k * 4)) 4))) [0..<n]"

lemma offset_unat:
  assumes "unat ptr + 4 * i \<le> 2 ^ 47"
  shows "unat (ptr + of_nat (i * 4) :: u64) = unat ptr + i * 4"
proof -
  have "unat (of_nat (i * 4) :: u64) = i * 4" using assms by (intro unat_of_nat_small) simp
  then show ?thesis using assms by (subst unat_word_ariths(1)) simp
qed

lemma get_words_eq:
  "unat ptr + 4 * (i + n) \<le> 2 ^ 47 \<Longrightarrow> get_words ptr i n mem = Inr (words_at mem (ptr + of_nat (i * 4)) n)"
proof (induction n arbitrary: i)
  case (Suc n)
  have "unat (ptr + of_nat (i * 4)) = unat ptr + i * 4" using Suc.prems by (intro offset_unat) simp
  then have "validate_user_range_chirho (ptr + of_nat (i * 4)) 4 = Inr ()"
    using Suc.prems by (intro validate_range) simp_all
  moreover have "get_words ptr (Suc i) n mem = Inr (words_at mem (ptr + of_nat (Suc i * 4)) n)"
    using Suc.prems by (intro Suc.IH) simp
  ultimately show ?case
    by (simp add: copy_from_user_chirho_def words_at_def upt_conv_Cons map_Suc_upt [symmetric] algebra_simps
        comp_def del: upt_Suc)
qed (simp add: words_at_def)

lemma put_words_eq:
  "ptr \<noteq> 0 \<Longrightarrow> unat ptr + 4 * (i + length gs) \<le> 2 ^ 47 \<Longrightarrow>
     put_words ptr i gs mem =
       (0, write_mem mem (ptr + of_nat (i * 4)) (concat (map (\<lambda>g. le_bytes 4 (unat g)) gs)))"
proof (induction gs arbitrary: i mem)
  case (Cons g gs)
  let ?a = "ptr + of_nat (i * 4)" and ?rest = "concat (map (\<lambda>g. le_bytes 4 (unat g)) gs)"
  have u: "unat ?a = unat ptr + i * 4" using Cons.prems by (intro offset_unat) simp
  moreover have "unat ptr \<noteq> 0" using Cons.prems(1) by (simp add: unat_eq_zero)
  ultimately have nz: "?a \<noteq> 0" by (metis add_is_0 unat_0)
  have "validate_user_range_chirho ?a 4 = Inr ()" using Cons.prems u by (intro validate_range) simp_all
  then have first: "write_u32_to_user_chirho ?a g mem = (0, write_mem mem ?a (le_bytes 4 (unat g)))"
    using nz by (simp add: write_u32_to_user_chirho_def copy_to_user_chirho_def)
  have "length ?rest = 4 * length gs" by (induction gs) simp_all
  then have "write_mem (write_mem mem ?a (le_bytes 4 (unat g))) (ptr + of_nat (Suc i * 4)) ?rest =
      write_mem mem ?a (le_bytes 4 (unat g) @ ?rest)"
    using write_mem_append [of "le_bytes 4 (unat g)" ?rest mem ?a] Cons.prems(2) by (simp add: algebra_simps)
  then show ?case using first Cons.IH [of "Suc i"] Cons.prems by simp
qed (simp add: write_mem_def)

lemma le_bytes_nat: "le_bytes (length bs) (le_nat bs) = bs"
proof (induction bs)
  case (Cons b bs)
  have "unat b < 256" using unat_less_pow [of b] by simp
  then show ?case using Cons by simp
qed simp

lemma words_at_bytes: "concat (map (\<lambda>g. le_bytes 4 (unat g)) (words_at mem a n)) = read_mem mem a (n * 4)"
proof (induction n)
  case (Suc n)
  let ?b = "read_mem mem (a + of_nat (n * 4)) 4"
  have "le_nat ?b < 2 ^ 32" using le_nat_less [of ?b] by simp
  then have "unat (of_nat (le_nat ?b) :: u32) = le_nat ?b" by (intro unat_of_nat_small) simp
  then have "le_bytes 4 (unat (of_nat (le_nat ?b) :: u32)) = ?b" using le_bytes_nat [of ?b] by simp
  then show ?case
    using Suc read_mem_append [of mem a "n * 4" 4] by (simp add: words_at_def add.commute [of 4])
qed (simp add: words_at_def read_mem_def)

lemma apply_current [simp]:
  "current_task (apply_credentials_to_thread_group_chirho g f w) = current_task w"
  by (simp add: current_task_def split: option.split)

lemma creds_apply_current:
  assumes "tasks_ok w" "current_task w = Some t"
  shows "creds (apply_credentials_to_thread_group_chirho (tgid_chirho t) f w) (pid_chirho t) = f (creds w (pid_chirho t))"
  using creds_apply [OF assms(1)] current_in_group [OF assms(2)] by simp

lemma setuid_root:
  assumes "current_task w = Some t" "euid_chirho (creds w (pid_chirho t)) = 0"
  shows "sys_setuid_chirho u w = (0, apply_credentials_to_thread_group_chirho (tgid_chirho t)
      (\<lambda>c. c\<lparr>uid_chirho := u, euid_chirho := u, saved_uid_chirho := u\<rparr>) w)"
  using assms by (simp add: sys_setuid_chirho_def current_credential_snapshot_chirho_def)

lemma setpgid_no_check:
  assumes "current_task w = Some t" "find_task_by_pid_chirho (csched w) p = Some v" "p \<noteq> 0" "g \<noteq> 0"
    "sid_chirho v \<noteq> p"
  shows "sys_setpgid_chirho p g w = (0, set_task p (\<lambda>t. t\<lparr>pgid_chirho := g\<rparr>) w)"
  using assms find_task_Some [OF assms(2)] by (simp add: sys_setpgid_chirho_def)

section \<open>Main properties\<close>

text \<open>C18. Identities cannot be gained without root.  Take thread groups \<^verbatim>\<open>G\<close> whose tasks
  have their user identities in a set \<^verbatim>\<open>U\<close> without 0, their group identities in \<^verbatim>\<open>V\<close> and
  their supplementary groups in \<^verbatim>\<open>S\<close>.  After any interleaving of identity, session and
  group calls and of new processes and threads by any tasks of the system, root's
  included, this still holds of these groups and of all that descend from them (as long
  as the 64-bit PID counter does not wrap).\<close>

theorem identities_stay_confined:
  assumes "tasks_ok w" "confined U V S G w" "0 \<notin> U"
    "\<forall>g\<in>G. g < NEXT_PID_CHIRHO (csched w)"
    "unat (NEXT_PID_CHIRHO (csched w)) + length es < 2 ^ 64"
  shows "confined U V S (lineage G w es) (foldl cred_step w es)"
  using run_confined [OF assms] .

text \<open>A drop of privileges is final: after \<^verbatim>\<open>setuid(u)\<close> with \<^verbatim>\<open>u \<noteq> 0\<close> by a task with
  effective uid 0 the call returns 0, and whatever happens later, the real, effective and
  saved uid of every task of the caller's thread group and of its descendants is \<^verbatim>\<open>u\<close>.\<close>

theorem setuid_drop_is_final:
  assumes "tasks_ok w" "current_task w = Some t" "euid_chirho (creds w (pid_chirho t)) = 0" "u \<noteq> 0"
    "unat (NEXT_PID_CHIRHO (csched w)) + length es < 2 ^ 64"
  shows "fst (sys_setuid_chirho u w) = 0 \<and>
    (let w1 = snd (sys_setuid_chirho u w); w2 = foldl cred_step w1 es in
     \<forall>g\<in>lineage {tgid_chirho t} w1 es. \<forall>p. in_group w2 g p \<longrightarrow> uids (creds w2 p) = {u})"
proof -
  let ?w1 = "snd (sys_setuid_chirho u w)"
  have w1: "?w1 = apply_credentials_to_thread_group_chirho (tgid_chirho t)
      (\<lambda>c. c\<lparr>uid_chirho := u, euid_chirho := u, saved_uid_chirho := u\<rparr>) w"
    using setuid_root [OF assms(2,3)] by simp
  have "in_group ?w1 (tgid_chirho t) p \<Longrightarrow> uids (creds ?w1 p) = {u}" for p
    unfolding w1 creds_apply [OF assms(1)] by (simp add: in_group_def uids_def)
  then have "confined {u} UNIV UNIV {tgid_chirho t} ?w1" by (simp add: confined_def)
  moreover have "tasks_ok ?w1" unfolding w1 using assms(1) same_groups_ok same_groups_apply by blast
  moreover have "tgid_chirho t < NEXT_PID_CHIRHO (csched w)"
    using in_group_less [OF assms(1) current_in_group [OF assms(2)]] by simp
  ultimately have "confined {u} UNIV UNIV (lineage {tgid_chirho t} ?w1 es) (foldl cred_step ?w1 es)"
    using assms(4,5) by (intro run_confined) (simp_all add: w1)
  then have "uids (creds (foldl cred_step ?w1 es) p) = {u}"
    if "g \<in> lineage {tgid_chirho t} ?w1 es" "in_group (foldl cred_step ?w1 es) g p" for g p
    using that by (auto simp: confined_def uids_def)
  then show ?thesis using setuid_root [OF assms(2,3)] by (simp add: Let_def)
qed

text \<open>C29. Credentials belong to the thread group: if the tasks of every thread group
  agree on all identities and supplementary groups, they do after any interleaving of
  calls and of new processes and threads.\<close>

theorem thread_group_agrees:
  assumes "tasks_ok w" "threads_agree w" "unat (NEXT_PID_CHIRHO (csched w)) + length es < 2 ^ 64"
  shows "threads_agree (foldl cred_step w es)"
  using run_agree [OF assms] .

text \<open>Supplementary groups round trip: for root and arrays in user space, \<^verbatim>\<open>setgroups\<close> of
  \<^verbatim>\<open>n\<close> identities returns 0, and a \<^verbatim>\<open>getgroups\<close> with room for them returns \<^verbatim>\<open>n\<close> and leaves the
  same bytes in its array.\<close>

theorem setgroups_getgroups:
  assumes "tasks_ok w" "current_task w = Some t" "euid_chirho (creds w (pid_chirho t)) = 0"
    "unat n \<le> MAX_SUPPLEMENTARY_GROUPS_CHIRHO" "0 < m" "unat n \<le> unat m"
    "unat src + 4 * unat n \<le> 2 ^ 47" "dst \<noteq> 0" "unat dst + 4 * unat n \<le> 2 ^ 47"
  shows "fst (sys_setgroups_chirho n src w) = 0 \<and>
    (case sys_getgroups_chirho m dst (snd (sys_setgroups_chirho n src w)) of
       (r, w2) \<Rightarrow> r = int (unat n) \<and> read_mem (cmem w2) dst (unat n * 4) = read_mem (cmem w) src (unat n * 4))"
proof -
  let ?gs = "words_at (cmem w) src (unat n)"
  have len: "length ?gs = unat n" by (simp add: words_at_def)
  let ?w1 = "apply_credentials_to_thread_group_chirho (tgid_chirho t) (\<lambda>c. c\<lparr>supplementary_groups_chirho := ?gs\<rparr>) w"
  have set: "sys_setgroups_chirho n src w = (0, ?w1)"
    using assms(2-4,7) get_words_eq [of src 0 "unat n"]
    by (simp add: sys_setgroups_chirho_def current_credential_snapshot_chirho_def)
  have "current_credential_snapshot_chirho ?w1 = Some \<lparr>snap_tgid_chirho = tgid_chirho t,
      snap_creds = (creds w (pid_chirho t))\<lparr>supplementary_groups_chirho := ?gs\<rparr>\<rparr>"
    using assms(2) creds_apply_current [OF assms(1,2)] by (simp add: current_credential_snapshot_chirho_def)
  moreover have "put_words dst 0 ?gs (cmem w) = (0, write_mem (cmem w) dst (read_mem (cmem w) src (unat n * 4)))"
    using put_words_eq [of dst 0 ?gs "cmem w"] assms(8,9) len by (simp add: words_at_bytes)
  ultimately have "sys_getgroups_chirho m dst ?w1 =
      (int (unat n), ?w1\<lparr>cmem := write_mem (cmem w) dst (read_mem (cmem w) src (unat n * 4))\<rparr>)"
    using assms(5,6) len by (simp add: sys_getgroups_chirho_def Let_def)
  moreover have "read_mem (write_mem (cmem w) dst (read_mem (cmem w) src (unat n * 4))) dst (unat n * 4) =
      read_mem (cmem w) src (unat n * 4)"
    using assms(9) by (subst read_mem_write) simp_all
  ultimately show ?thesis unfolding set by simp
qed

section \<open>A concrete system\<close>

text \<open>A root process 2, and a process 3 of user 1000 with a thread 4.\<close>

definition demo_world :: cred_world where
  "demo_world = \<lparr>csched = demo_sched\<lparr>TASK_LIST_CHIRHO := [demo_task 2 ReadyChirho, demo_task 3 RunningChirho,
       (demo_task 4 ReadyChirho)\<lparr>tgid_chirho := 3\<rparr>], CURRENT_TASK_CHIRHO := Some 2\<rparr>,
     creds = (\<lambda>p. if p = 2 then zero_creds else zero_creds\<lparr>uid_chirho := 1000, euid_chirho := 1000, saved_uid_chirho := 1000\<rparr>),
     controlling_tty_chirho = (\<lambda>_. None), cmem = (\<lambda>a. ucast a)\<rparr>"

definition demo_child :: child_env where
  "demo_child = \<lparr>child_ctx = zero_chirho, child_kstack = 0x20000, child_root = Some (Some 0x5000)\<rparr>"

lemma demo_world_facts:
  "tasks_ok demo_world" "current_task demo_world = Some (demo_task 2 ReadyChirho)"
  "NEXT_PID_CHIRHO (csched demo_world) = 201" "tgid_chirho (demo_task p st) = p"
  "in_group demo_world 3 p \<longleftrightarrow> p = 3 \<or> p = 4" "in_group demo_world 2 p \<longleftrightarrow> p = 2"
  by (auto simp: demo_world_def tasks_ok_def demo_sched_def current_task_def find_task_by_pid_chirho_def
      demo_task_def in_group_def)

theorem identities_stay_confined_witness:
  "confined {1000} {0} {[]} (lineage {3} demo_world [E_Clone 3 demo_child False, E_Call 201 (C_Setuid 0)])
     (foldl cred_step demo_world [E_Clone 3 demo_child False, E_Call 201 (C_Setuid 0)])"
  by (rule identities_stay_confined)
    (simp_all add: demo_world_facts confined_def, simp_all add: demo_world_def uids_def gids_def zero_creds_def)

theorem setuid_drop_is_final_witness:
  "fst (sys_setuid_chirho 33 demo_world) = 0 \<and>
   (let w1 = snd (sys_setuid_chirho 33 demo_world); w2 = foldl cred_step w1 [E_Call 2 (C_Setresuid 0 0 0)] in
     \<forall>g\<in>lineage {2} w1 [E_Call 2 (C_Setresuid 0 0 0)]. \<forall>p. in_group w2 g p \<longrightarrow> uids (creds w2 p) = {33})"
  using setuid_drop_is_final [of demo_world "demo_task 2 ReadyChirho" 33 "[E_Call 2 (C_Setresuid 0 0 0)]"]
  by (simp add: demo_world_facts) (simp add: demo_world_def zero_creds_def)

theorem thread_group_agrees_witness:
  "threads_agree (foldl cred_step demo_world [E_Call 4 (C_Setreuid 1000 1000), E_Call 2 (C_Setgid 7)])"
proof (rule thread_group_agrees)
  show "threads_agree demo_world"
    by (auto simp: threads_agree_def in_group_def demo_world_def demo_task_def)
qed (simp_all add: demo_world_facts)

theorem setgroups_getgroups_witness:
  "fst (sys_setgroups_chirho 3 0x1000 demo_world) = 0 \<and>
    (case sys_getgroups_chirho 10 0x2000 (snd (sys_setgroups_chirho 3 0x1000 demo_world)) of
       (r, w2) \<Rightarrow> r = 3 \<and> read_mem (cmem w2) 0x2000 12 = read_mem (cmem demo_world) 0x1000 12)"
  using setgroups_getgroups [where w = demo_world and t = "demo_task 2 ReadyChirho" and n = 3 and m = 10
      and src = "0x1000" and dst = "0x2000"]
  by (simp add: demo_world_facts MAX_SUPPLEMENTARY_GROUPS_CHIRHO_def) (simp add: demo_world_def zero_creds_def)

end
