(* ===== verification/Epoll.thy ===== *)
theory Epoll
  imports Unix_Socket Uaccess
begin

text \<open>
  Event polling: \<^verbatim>\<open>epoll_create1\<close>, \<^verbatim>\<open>epoll_ctl\<close> and \<^verbatim>\<open>epoll_wait\<close> of \<^verbatim>\<open>syscall_chirho.rs\<close>
  over one global list of watches, and the readiness tests of \<^verbatim>\<open>net_core_chirho.rs\<close> on
  the socket tables.  Which socket a descriptor stands for is an argument (a map from
  descriptors to socket slots); what the rest of the system does between two rounds
  of a wait is a function that gives the state each round finds.

  The list is proved to implement a map from (process, epoll descriptor, descriptor)
  to events and data, as long as \<^verbatim>\<open>epoll_ctl\<close> is used on descriptors that exist, which
  the code does not check; what a wait reports and writes is given exactly.
\<close>

section \<open>Readiness of sockets\<close>

record poll_view =
  view_fds :: "int \<Rightarrow> nat option"
  view_socks :: socket_world

definition socket_idx_from_fd_chirho :: "poll_view \<Rightarrow> int \<Rightarrow> nat option" where
  "socket_idx_from_fd_chirho v fd = view_fds v fd"

definition is_socket_fd_chirho :: "poll_view \<Rightarrow> int \<Rightarrow> bool" where
  "is_socket_fd_chirho v fd \<longleftrightarrow> socket_idx_from_fd_chirho v fd \<noteq> None"

definition unix_of_slot :: "socket_world \<Rightarrow> nat \<Rightarrow> UnixSocketChirho option" where
  "unix_of_slot w i = (case lookup_unix_idx_chirho i (w_mapping w) of
     Some u \<Rightarrow> (case get_opt (w_unix w) u of Some s \<Rightarrow> s | None \<Rightarrow> None) | None \<Rightarrow> None)"

definition is_unix_listen_fd_chirho :: "poll_view \<Rightarrow> int \<Rightarrow> bool" where
  "is_unix_listen_fd_chirho v fd = (case socket_idx_from_fd_chirho v fd of None \<Rightarrow> False
     | Some i \<Rightarrow> is_unix_socket_idx_chirho (w_sockets (view_socks v)) i \<and>
         (case unix_of_slot (view_socks v) i of Some k \<Rightarrow> listening_chirho k | None \<Rightarrow> False))"

definition unix_socket_recv_stats_chirho :: "UnixSocketChirho \<Rightarrow> nat \<times> nat" where
  "unix_socket_recv_stats_chirho k =
     foldl (\<lambda>(n, b) chunk. if chunk \<noteq> [] then (n + 1, min (b + length chunk) (2 ^ 64 - 1)) else (n, b))
       (0, 0) (unix_recv_buf_chirho k)"

definition inet_has_data :: "SocketChirho \<Rightarrow> bool" where
  "inet_has_data k \<longleftrightarrow> recv_buf_chirho k \<noteq> [] \<or>
     (accept_queue_chirho k \<noteq> [] \<and>
        (effective_state_chirho k = ListeningChirho \<or> tcp_state_chirho (tcb_chirho k) = ListenChirho)) \<or>
     tcp_state_chirho (tcb_chirho k) \<in> {CloseWaitChirho, ClosedChirho}"

definition socket_has_data_chirho :: "poll_view \<Rightarrow> int \<Rightarrow> bool" where
  "socket_has_data_chirho v fd = (case socket_idx_from_fd_chirho v fd of None \<Rightarrow> False
     | Some i \<Rightarrow>
        if is_unix_socket_idx_chirho (w_sockets (view_socks v)) i
        then (case unix_of_slot (view_socks v) i of None \<Rightarrow> False
              | Some k \<Rightarrow> 0 < snd (unix_socket_recv_stats_chirho k) \<or>
                          (listening_chirho k \<and> unix_backlog_chirho k \<noteq> []))
        else (case get_opt (w_sockets (view_socks v)) i of
                Some (Some k) \<Rightarrow> inet_has_data k | _ \<Rightarrow> False))"

definition get_socket_state_chirho :: "poll_view \<Rightarrow> int \<Rightarrow> SocketStateChirho option" where
  "get_socket_state_chirho v fd = (case socket_idx_from_fd_chirho v fd of None \<Rightarrow> None
     | Some i \<Rightarrow> (case get_opt (w_sockets (view_socks v)) i of
          Some (Some k) \<Rightarrow> Some (sock_state_chirho k) | _ \<Rightarrow> None))"

definition epoll_fd_is_unix_socket_chirho :: "poll_view \<Rightarrow> int \<Rightarrow> bool" where
  "epoll_fd_is_unix_socket_chirho v fd = (case socket_idx_from_fd_chirho v fd of None \<Rightarrow> False
     | Some i \<Rightarrow> (case get_opt (w_sockets (view_socks v)) i of
          Some (Some k) \<Rightarrow> family_chirho k = AF_UNIX_CHIRHO | _ \<Rightarrow> False))"

section \<open>The watch list\<close>

record EpollEntryChirho =
  ep_owner_pid_chirho :: u64
  epfd_chirho :: int
  ep_fd_chirho :: int
  ep_events_chirho :: u64
  ep_data_chirho :: u64

record epoll_state =
  EPOLL_ENTRIES_CHIRHO :: "EpollEntryChirho list"
  NEXT_EPOLL_FD_CHIRHO :: u64

definition clone_epoll_entries_for_fork_chirho ::
  "u64 \<Rightarrow> u64 \<Rightarrow> EpollEntryChirho list \<Rightarrow> EpollEntryChirho list" where
  "clone_epoll_entries_for_fork_chirho parent child es =
     es @ map (\<lambda>e. e\<lparr>ep_owner_pid_chirho := child\<rparr>) (filter (\<lambda>e. ep_owner_pid_chirho e = parent) es)"

definition remove_epoll_entries_for_pid_chirho :: "u64 \<Rightarrow> EpollEntryChirho list \<Rightarrow> EpollEntryChirho list" where
  "remove_epoll_entries_for_pid_chirho p es = filter (\<lambda>e. ep_owner_pid_chirho e \<noteq> p) es"

fun seed_loop :: "u64 \<Rightarrow> int \<Rightarrow> EpollEntryChirho list \<Rightarrow> EpollEntryChirho list \<Rightarrow> EpollEntryChirho list" where
  "seed_loop owner new_epfd [] seeded = seeded"
| "seed_loop owner new_epfd (e # es) seeded =
     (if ep_owner_pid_chirho e \<noteq> owner \<or> epfd_chirho e = new_epfd then seed_loop owner new_epfd es seeded
      else if list_ex (\<lambda>s. ep_fd_chirho s = ep_fd_chirho e) seeded then seed_loop owner new_epfd es seeded
      else seed_loop owner new_epfd es (seeded @ [e\<lparr>ep_owner_pid_chirho := owner, epfd_chirho := new_epfd\<rparr>]))"

definition seed_new_epfd_from_owned_entries_chirho ::
  "u64 \<Rightarrow> int \<Rightarrow> EpollEntryChirho list \<Rightarrow> nat \<times> EpollEntryChirho list" where
  "seed_new_epfd_from_owned_entries_chirho owner new_epfd es =
     (let seeded = seed_loop owner new_epfd es [] in (length seeded, es @ seeded))"

definition as_i32 :: "u64 \<Rightarrow> int" where
  "as_i32 w = sint (ucast w :: u32)"

text \<open>The calls take the PID of the current task (0 when there is none).\<close>

definition sys_epoll_create1_chirho :: "u64 \<Rightarrow> epoll_state \<Rightarrow> i64 \<times> epoll_state" where
  "sys_epoll_create1_chirho pid st =
     (let fd = NEXT_EPOLL_FD_CHIRHO st in
      (sint fd, st\<lparr>NEXT_EPOLL_FD_CHIRHO := fd + 1,
         EPOLL_ENTRIES_CHIRHO := snd (seed_new_epfd_from_owned_entries_chirho pid (as_i32 fd) (EPOLL_ENTRIES_CHIRHO st))\<rparr>))"

definition EPOLL_CTL_ADD_CHIRHO :: int where "EPOLL_CTL_ADD_CHIRHO = 1"
definition EPOLL_CTL_DEL_CHIRHO :: int where "EPOLL_CTL_DEL_CHIRHO = 2"
definition EPOLL_CTL_MOD_CHIRHO :: int where "EPOLL_CTL_MOD_CHIRHO = 3"

definition read_epoll_event :: "umem \<Rightarrow> u64 \<Rightarrow> u32 \<times> u64" where
  "read_epoll_event mem ptr =
     (if ptr = 0 then (0, 0)
      else case copy_from_user_chirho mem 12 ptr 12 of
             Inr bs \<Rightarrow> (of_nat (le_nat (take 4 bs)), of_nat (le_nat (take 8 (drop 4 bs))))
           | Inl _ \<Rightarrow> (0, 0))"

definition entry_is :: "u64 \<Rightarrow> int \<Rightarrow> int \<Rightarrow> EpollEntryChirho \<Rightarrow> bool" where
  "entry_is pid epfd fd e \<longleftrightarrow> ep_owner_pid_chirho e = pid \<and> epfd_chirho e = epfd \<and> ep_fd_chirho e = fd"

fun update_first :: "('a \<Rightarrow> bool) \<Rightarrow> ('a \<Rightarrow> 'a) \<Rightarrow> 'a list \<Rightarrow> 'a list" where
  "update_first P f [] = []"
| "update_first P f (x # xs) = (if P x then f x # xs else x # update_first P f xs)"

definition sys_epoll_ctl_chirho ::
  "poll_view \<Rightarrow> umem \<Rightarrow> u64 \<Rightarrow> int \<Rightarrow> int \<Rightarrow> int \<Rightarrow> u64 \<Rightarrow> epoll_state \<Rightarrow> i64 \<times> epoll_state" where
  "sys_epoll_ctl_chirho v mem pid epfd op fd event_ptr st =
     (let (events, data) = read_epoll_event mem event_ptr; es = EPOLL_ENTRIES_CHIRHO st in
      if op = EPOLL_CTL_ADD_CHIRHO then
        (0, st\<lparr>EPOLL_ENTRIES_CHIRHO :=
           (if list_ex (entry_is pid epfd fd) es
            then update_first (entry_is pid epfd fd) (\<lambda>e. e\<lparr>ep_events_chirho := ucast events, ep_data_chirho := data\<rparr>) es
            else es @ [\<lparr>ep_owner_pid_chirho = pid, epfd_chirho = epfd, ep_fd_chirho = fd,
                        ep_events_chirho = ucast events, ep_data_chirho = data\<rparr>])\<rparr>)
      else if op = EPOLL_CTL_DEL_CHIRHO then
        (0, st\<lparr>EPOLL_ENTRIES_CHIRHO := filter (\<lambda>e. \<not> entry_is pid epfd fd e) es\<rparr>)
      else if op = EPOLL_CTL_MOD_CHIRHO then
        (let mod_events = (if fd \<ge> 13 \<and> is_socket_fd_chirho v fd then events OR 4 else events) in
         (0, st\<lparr>EPOLL_ENTRIES_CHIRHO := map (\<lambda>e. if entry_is pid epfd fd e
               then e\<lparr>ep_events_chirho := ucast mod_events, ep_data_chirho := data\<rparr> else e) es\<rparr>))
      else (- EINVAL_CHIRHO, st))"

text \<open>The Unix sockets an epoll descriptor watches, at most 16 of them.\<close>

fun collect_loop :: "poll_view \<Rightarrow> u64 \<Rightarrow> int \<Rightarrow> EpollEntryChirho list \<Rightarrow> int list \<Rightarrow> int list" where
  "collect_loop v pid epfd [] acc = acc"
| "collect_loop v pid epfd (e # es) acc =
     (if ep_owner_pid_chirho e \<noteq> pid \<or> epfd_chirho e \<noteq> epfd then collect_loop v pid epfd es acc
      else if \<not> is_socket_fd_chirho v (ep_fd_chirho e) \<or> \<not> epoll_fd_is_unix_socket_chirho v (ep_fd_chirho e)
      then collect_loop v pid epfd es acc
      else if ep_fd_chirho e \<in> set acc then collect_loop v pid epfd es acc
      else if length acc \<ge> 16 then acc
      else collect_loop v pid epfd es (acc @ [ep_fd_chirho e]))"

definition collect_epoll_unix_read_fds_chirho :: "poll_view \<Rightarrow> u64 \<Rightarrow> int \<Rightarrow> epoll_state \<Rightarrow> int list" where
  "collect_epoll_unix_read_fds_chirho v pid epfd st = collect_loop v pid epfd (EPOLL_ENTRIES_CHIRHO st) []"

section \<open>Waiting\<close>

text \<open>The interest mask of an entry is not used: the code sets it to 0 before the tests.\<close>

definition ready_events :: "poll_view \<Rightarrow> int \<Rightarrow> u32" where
  "ready_events v fd =
     (if is_socket_fd_chirho v fd
      then (if socket_has_data_chirho v fd then 1 else 0) OR
           (if \<not> is_unix_listen_fd_chirho v fd \<and> get_socket_state_chirho v fd = Some ConnectedChirho then 4 else 0)
      else 0)"

definition write_epoll_event :: "u64 \<Rightarrow> int \<Rightarrow> u32 \<Rightarrow> u64 \<Rightarrow> umem \<Rightarrow> umem" where
  "write_epoll_event ptr n events data mem =
     (let addr = ptr + of_int n * 12
      in write_mem (write_mem mem addr (le_bytes 4 (unat events))) (addr + 4) (le_bytes 8 (unat data)))"

fun scan_entries ::
  "poll_view \<Rightarrow> u64 \<Rightarrow> int \<Rightarrow> int \<Rightarrow> u64 \<Rightarrow> EpollEntryChirho list \<Rightarrow> int \<Rightarrow> umem \<Rightarrow> int \<times> umem" where
  "scan_entries v pid epfd maxevents ptr [] n mem = (n, mem)"
| "scan_entries v pid epfd maxevents ptr (e # es) n mem =
     (if n \<ge> maxevents then (n, mem)
      else if ep_owner_pid_chirho e \<noteq> pid \<or> epfd_chirho e \<noteq> epfd
      then scan_entries v pid epfd maxevents ptr es n mem
      else if ready_events v (ep_fd_chirho e) \<noteq> 0
      then scan_entries v pid epfd maxevents ptr es (n + 1)
             (write_epoll_event ptr n (ready_events v (ep_fd_chirho e)) (ep_data_chirho e) mem)
      else scan_entries v pid epfd maxevents ptr es n mem)"

text \<open>What a round finds: the watch list, the sockets and the user memory.\<close>

record round =
  rd_entries :: "EpollEntryChirho list"
  rd_view :: poll_view
  rd_mem :: umem

definition max_attempts :: "int \<Rightarrow> nat" where
  "max_attempts timeout = (if timeout = 0 then 1 else if timeout < 0 then 1000 else nat (min (timeout div 10) 1000))"

text \<open>The loop over \<^verbatim>\<open>k\<close>, \<^verbatim>\<open>n\<close> rounds left; the memory is returned when events were
  written.\<close>

fun epoll_loop ::
  "(nat \<Rightarrow> round) \<Rightarrow> u64 \<Rightarrow> int \<Rightarrow> u64 \<Rightarrow> int \<Rightarrow> int \<Rightarrow> nat \<Rightarrow> nat \<Rightarrow> i64 \<times> umem option" where
  "epoll_loop rounds pid epfd ptr maxevents timeout k 0 = (0, None)"
| "epoll_loop rounds pid epfd ptr maxevents timeout k (Suc n) =
     (case scan_entries (rd_view (rounds k)) pid epfd maxevents ptr (rd_entries (rounds k)) 0 (rd_mem (rounds k)) of
        (found, mem) \<Rightarrow>
          if found > 0 then (found, Some mem)
          else if timeout \<noteq> 0 then epoll_loop rounds pid epfd ptr maxevents timeout (Suc k) n
          else (0, None))"

definition sys_epoll_wait_chirho ::
  "(nat \<Rightarrow> round) \<Rightarrow> u64 \<Rightarrow> int \<Rightarrow> u64 \<Rightarrow> int \<Rightarrow> int \<Rightarrow> i64 \<times> umem option" where
  "sys_epoll_wait_chirho rounds pid epfd ptr maxevents timeout =
     (if ptr = 0 \<or> maxevents \<le> 0 then (- EINVAL_CHIRHO, None)
      else epoll_loop rounds pid epfd ptr maxevents timeout 0 (max_attempts timeout))"

section \<open>What a wait reports\<close>

definition ready_entries :: "round \<Rightarrow> u64 \<Rightarrow> int \<Rightarrow> EpollEntryChirho list" where
  "ready_entries r pid epfd = filter (\<lambda>e. ep_owner_pid_chirho e = pid \<and> epfd_chirho e = epfd \<and>
     ready_events (rd_view r) (ep_fd_chirho e) \<noteq> 0) (rd_entries r)"

definition event_bytes :: "round \<Rightarrow> EpollEntryChirho \<Rightarrow> bytes" where
  "event_bytes r e = le_bytes 4 (unat (ready_events (rd_view r) (ep_fd_chirho e))) @ le_bytes 8 (unat (ep_data_chirho e))"

lemma length_event_bytes [simp]: "length (event_bytes r e) = 12"
  by (simp add: event_bytes_def)

lemma length_events [simp]: "length (concat (map (event_bytes r) es)) = 12 * length es"
  by (induction es) simp_all

lemma write_event_eq:
  "write_epoll_event ptr n (ready_events (rd_view r) (ep_fd_chirho e)) (ep_data_chirho e) mem =
     write_mem mem (ptr + of_int n * 12) (event_bytes r e)"
  using write_mem_append [of "le_bytes 4 (unat (ready_events (rd_view r) (ep_fd_chirho e)))"
      "le_bytes 8 (unat (ep_data_chirho e))" mem "ptr + of_int n * 12"]
  by (simp add: write_epoll_event_def event_bytes_def Let_def)

lemma scan_entries_eq:
  assumes "int n \<le> maxevents" "maxevents < 2 ^ 31"
  shows "scan_entries (rd_view r) pid epfd maxevents ptr es (int n) mem =
    (let hits = take (nat maxevents - n) (filter (\<lambda>e. ep_owner_pid_chirho e = pid \<and> epfd_chirho e = epfd \<and>
            ready_events (rd_view r) (ep_fd_chirho e) \<noteq> 0) es)
     in (int n + int (length hits), write_mem mem (ptr + of_nat n * 12) (concat (map (event_bytes r) hits))))"
  using assms
proof (induction es arbitrary: n mem)
  case Nil
  then show ?case by (simp add: write_mem_def)
next
  case (Cons e es)
  let ?P = "\<lambda>e. ep_owner_pid_chirho e = pid \<and> epfd_chirho e = epfd \<and> ready_events (rd_view r) (ep_fd_chirho e) \<noteq> 0"
  show ?case
  proof (cases "int n = maxevents")
    case True
    then show ?thesis by (auto simp: write_mem_def Let_def)
  next
    case False
    then have lt: "int n < maxevents" using Cons.prems(1) by simp
    show ?thesis
    proof (cases "?P e")
      case True
      let ?hits = "take (nat maxevents - Suc n) (filter ?P es)"
      have "int (Suc n) \<le> maxevents" using lt by simp
      note IH = Cons.IH [OF this Cons.prems(2)]
      have "12 + 12 * length ?hits < 2 ^ 64" using Cons.prems(2) by simp
      then have w: "write_mem (write_mem mem (ptr + of_nat n * 12) (event_bytes r e))
          (ptr + of_nat (Suc n) * 12) (concat (map (event_bytes r) ?hits)) =
        write_mem mem (ptr + of_nat n * 12) (event_bytes r e @ concat (map (event_bytes r) ?hits))"
        using write_mem_append [of "event_bytes r e" "concat (map (event_bytes r) ?hits)" mem "ptr + of_nat n * 12"]
        by (simp add: algebra_simps)
      have "nat maxevents - n = Suc (nat maxevents - Suc n)" using lt by simp
      moreover have "scan_entries (rd_view r) pid epfd maxevents ptr (e # es) (int n) mem =
          scan_entries (rd_view r) pid epfd maxevents ptr es (int (Suc n))
            (write_mem mem (ptr + of_nat n * 12) (event_bytes r e))"
        using True lt by (simp add: write_event_eq add.commute)
      ultimately show ?thesis using True IH w by (simp add: Let_def)
    next
      case False
      then show ?thesis using lt Cons.IH [OF Cons.prems] by auto
    qed
  qed
qed

text \<open>The first of the given rounds with something to report.\<close>

lemma epoll_loop_eq:
  assumes "0 < maxevents" "maxevents < 2 ^ 31"
  shows "epoll_loop rounds pid epfd ptr maxevents timeout k n =
    (case find (\<lambda>j. ready_entries (rounds j) pid epfd \<noteq> []) [k..<(if timeout = 0 then k + min n 1 else k + n)] of
       None \<Rightarrow> (0, None)
     | Some j \<Rightarrow>
         let hits = take (nat maxevents) (ready_entries (rounds j) pid epfd)
         in (int (length hits), Some (write_mem (rd_mem (rounds j)) ptr (concat (map (event_bytes (rounds j)) hits)))))"
proof (induction n arbitrary: k)
  case (Suc n)
  let ?hits = "take (nat maxevents) (ready_entries (rounds k) pid epfd)"
  have s: "scan_entries (rd_view (rounds k)) pid epfd maxevents ptr (rd_entries (rounds k)) 0 (rd_mem (rounds k)) =
      (int (length ?hits), write_mem (rd_mem (rounds k)) ptr (concat (map (event_bytes (rounds k)) ?hits)))"
    using scan_entries_eq [of 0 maxevents "rounds k" pid epfd ptr "rd_entries (rounds k)" "rd_mem (rounds k)"] assms
    by (simp add: ready_entries_def Let_def)
  show ?case
  proof (cases "ready_entries (rounds k) pid epfd = []")
    case True
    then show ?thesis using s Suc [of "Suc k"] by (simp add: upt_conv_Cons)
  next
    case False
    then have "0 < length ?hits" using assms(1) by simp
    then show ?thesis using s False by (simp add: upt_conv_Cons Let_def)
  qed
qed simp

section \<open>The list as a map\<close>

type_synonym interest = "u64 \<times> int \<times> int \<rightharpoonup> u64 \<times> u64"

definition entry_key :: "EpollEntryChirho \<Rightarrow> u64 \<times> int \<times> int" where
  "entry_key e = (ep_owner_pid_chirho e, epfd_chirho e, ep_fd_chirho e)"

definition entry_val :: "EpollEntryChirho \<Rightarrow> u64 \<times> u64" where
  "entry_val e = (ep_events_chirho e, ep_data_chirho e)"

definition interest_of :: "EpollEntryChirho list \<Rightarrow> interest" where
  "interest_of es = map_of (map (\<lambda>e. (entry_key e, entry_val e)) es)"

definition keys_ok :: "EpollEntryChirho list \<Rightarrow> bool" where
  "keys_ok es \<longleftrightarrow> distinct (map entry_key es)"

lemma entry_is_key: "entry_is pid epfd fd e \<longleftrightarrow> entry_key e = (pid, epfd, fd)"
  by (auto simp: entry_is_def entry_key_def)

lemma interest_simps [simp]:
  "interest_of [] = Map.empty" "interest_of (e # es) = (interest_of es)(entry_key e \<mapsto> entry_val e)"
  by (simp_all add: interest_of_def)

lemma interest_None_iff: "interest_of es k = None \<longleftrightarrow> k \<notin> entry_key ` set es"
  by (simp add: interest_of_def map_of_eq_None_iff image_image)

lemma interest_Some_iff:
  "keys_ok es \<Longrightarrow> interest_of es k = Some v \<longleftrightarrow> (\<exists>e\<in>set es. entry_key e = k \<and> entry_val e = v)"
  by (auto simp: interest_of_def keys_ok_def comp_def)

lemma interest_append: "interest_of (es @ fs) = interest_of fs ++ interest_of es"
  by (simp add: interest_of_def)

lemma interest_filter: "interest_of (filter (\<lambda>e. P (entry_key e)) es) = (\<lambda>k. if P k then interest_of es k else None)"
  by (induction es) auto

lemma keys_ok_filter: "keys_ok es \<Longrightarrow> keys_ok (filter P es)"
  by (simp add: keys_ok_def distinct_map_filter)

text \<open>Updates that keep the keys.\<close>

lemma interest_update_first:
  assumes "\<And>e. entry_key (f e) = entry_key e" "\<And>e. entry_val (f e) = v" "k \<in> entry_key ` set es"
  shows "interest_of (update_first (\<lambda>e. entry_key e = k) f es) = (interest_of es)(k \<mapsto> v) \<and>
    map entry_key (update_first (\<lambda>e. entry_key e = k) f es) = map entry_key es"
  using assms(3) by (induction es) (auto simp: assms(1,2))

lemma interest_map_entry:
  assumes "\<And>e. entry_key (f e) = entry_key e" "\<And>e. entry_val (f e) = v"
  shows "interest_of (map (\<lambda>e. if entry_key e = k then f e else e) es) =
      (if interest_of es k = None then interest_of es else (interest_of es)(k \<mapsto> v)) \<and>
    map entry_key (map (\<lambda>e. if entry_key e = k then f e else e) es) = map entry_key es"
  by (induction es) (auto simp: assms fun_eq_iff)

lemma keys_upd [simp]:
  "entry_key (e\<lparr>ep_events_chirho := a, ep_data_chirho := b\<rparr>) = entry_key e"
  "entry_val (e\<lparr>ep_events_chirho := a, ep_data_chirho := b\<rparr>) = (a, b)"
  by (simp_all add: entry_key_def entry_val_def)

lemma seed_loop_distinct:
  "distinct (map ep_fd_chirho acc) \<Longrightarrow> distinct (map ep_fd_chirho (seed_loop owner n es acc))"
  by (induction owner n es acc rule: seed_loop.induct) (force simp: list_ex_iff)+

lemma seed_loop_mono: "set acc \<subseteq> set (seed_loop owner n es acc)"
  by (induction owner n es acc rule: seed_loop.induct) auto

definition seed_source :: "u64 \<Rightarrow> int \<Rightarrow> EpollEntryChirho \<Rightarrow> bool" where
  "seed_source owner n e \<longleftrightarrow> ep_owner_pid_chirho e = owner \<and> epfd_chirho e \<noteq> n"

lemma seed_loop_sources:
  "s \<in> set (seed_loop owner n es acc) \<Longrightarrow> s \<in> set acc \<or>
     (\<exists>e\<in>set es. seed_source owner n e \<and> s = e\<lparr>ep_owner_pid_chirho := owner, epfd_chirho := n\<rparr>)"
  by (induction owner n es acc rule: seed_loop.induct) (auto simp: seed_source_def split: if_splits)

lemma seed_loop_covers:
  "e \<in> set es \<Longrightarrow> seed_source owner n e \<Longrightarrow> \<exists>s\<in>set (seed_loop owner n es acc). ep_fd_chirho s = ep_fd_chirho e"
proof (induction owner n es acc rule: seed_loop.induct)
  case (2 owner n x es acc)
  note mono = seed_loop_mono [THEN subsetD]
  show ?case
  proof (cases "e = x")
    case True
    then have x: "ep_owner_pid_chirho x = owner" "epfd_chirho x \<noteq> n" using 2(5) by (simp_all add: seed_source_def)
    show ?thesis
    proof (cases "list_ex (\<lambda>s. ep_fd_chirho s = ep_fd_chirho x) acc")
      case c: True
      then obtain s where "s \<in> set acc" "ep_fd_chirho s = ep_fd_chirho x" by (auto simp: list_ex_iff)
      then show ?thesis using mono [of s acc owner n "x # es"] True by blast
    next
      case c: False
      let ?s = "x\<lparr>ep_owner_pid_chirho := owner, epfd_chirho := n\<rparr>"
      have "?s \<in> set (seed_loop owner n es (acc @ [?s]))" by (rule mono) simp
      moreover have "seed_loop owner n (x # es) acc = seed_loop owner n es (acc @ [?s])" using x c by simp
      ultimately show ?thesis using True by (intro bexI [of _ ?s]) simp_all
    qed
  next
    case False
    then have "e \<in> set es" using 2(4) by simp
    then show ?thesis using 2(1-3,5) by auto
  qed
qed simp

section \<open>Refinement\<close>

datatype epoll_event =
  Ev_Create u64 | Ev_Ctl poll_view umem u64 int int int u64 | Ev_Exit u64

primrec epoll_step :: "epoll_state \<Rightarrow> epoll_event \<Rightarrow> epoll_state" where
  "epoll_step st (Ev_Create pid) = snd (sys_epoll_create1_chirho pid st)"
| "epoll_step st (Ev_Ctl v mem pid epfd op fd ptr) = snd (sys_epoll_ctl_chirho v mem pid epfd op fd ptr st)"
| "epoll_step st (Ev_Exit pid) = st\<lparr>EPOLL_ENTRIES_CHIRHO := remove_epoll_entries_for_pid_chirho pid (EPOLL_ENTRIES_CHIRHO st)\<rparr>"

text \<open>The abstract machine.  A new descriptor \<^verbatim>\<open>n\<close> starts with a watch for every descriptor
  the process watches already, with the events and data of one of these watches.\<close>

inductive interest_step :: "interest \<Rightarrow> epoll_event \<Rightarrow> interest \<Rightarrow> bool" where
  ctl_add: "read_epoll_event mem ptr = (ev, d) \<Longrightarrow>
    interest_step m (Ev_Ctl v mem pid epfd EPOLL_CTL_ADD_CHIRHO fd ptr) (m((pid, epfd, fd) \<mapsto> (ucast ev, d)))"
| ctl_del: "interest_step m (Ev_Ctl v mem pid epfd EPOLL_CTL_DEL_CHIRHO fd ptr) (m((pid, epfd, fd) := None))"
| ctl_mod: "read_epoll_event mem ptr = (ev, d) \<Longrightarrow>
    ev' = (if fd \<ge> 13 \<and> is_socket_fd_chirho v fd then ev OR 4 else ev) \<Longrightarrow>
    interest_step m (Ev_Ctl v mem pid epfd EPOLL_CTL_MOD_CHIRHO fd ptr)
      (if m (pid, epfd, fd) = None then m else m((pid, epfd, fd) \<mapsto> (ucast ev', d)))"
| ctl_bad: "op \<notin> {EPOLL_CTL_ADD_CHIRHO, EPOLL_CTL_DEL_CHIRHO, EPOLL_CTL_MOD_CHIRHO} \<Longrightarrow>
    interest_step m (Ev_Ctl v mem pid epfd op fd ptr) m"
| exit: "interest_step m (Ev_Exit pid) (\<lambda>k. if fst k \<noteq> pid then m k else None)"
| create: "(\<And>fd. m (pid, n, fd) = None) \<Longrightarrow>
    (\<And>k. fst k \<noteq> pid \<or> fst (snd k) \<noteq> n \<Longrightarrow> m' k = m k) \<Longrightarrow>
    (\<And>fd. m' (pid, n, fd) = None \<longleftrightarrow> (\<forall>e. m (pid, e, fd) = None)) \<Longrightarrow>
    (\<And>fd x. m' (pid, n, fd) = Some x \<Longrightarrow> \<exists>e. m (pid, e, fd) = Some x) \<Longrightarrow>
    interest_step m (Ev_Create pid) m'"

definition epoll_ok :: "epoll_state \<Rightarrow> bool" where
  "epoll_ok st \<longleftrightarrow> keys_ok (EPOLL_ENTRIES_CHIRHO st) \<and>
     list_all (\<lambda>e. epfd_chirho e < int (unat (NEXT_EPOLL_FD_CHIRHO st))) (EPOLL_ENTRIES_CHIRHO st)"

text \<open>A control call names a descriptor that was created.\<close>

primrec uses_created :: "epoll_state \<Rightarrow> epoll_event \<Rightarrow> bool" where
  "uses_created st (Ev_Create pid) \<longleftrightarrow> unat (NEXT_EPOLL_FD_CHIRHO st) < 2 ^ 31 - 1"
| "uses_created st (Ev_Ctl v mem pid epfd op fd ptr) \<longleftrightarrow> epfd < int (unat (NEXT_EPOLL_FD_CHIRHO st))"
| "uses_created st (Ev_Exit pid) \<longleftrightarrow> True"

definition epoll_view :: "epoll_state \<Rightarrow> interest" where
  "epoll_view st = interest_of (EPOLL_ENTRIES_CHIRHO st)"

lemmas ctl_consts = EPOLL_CTL_ADD_CHIRHO_def EPOLL_CTL_DEL_CHIRHO_def EPOLL_CTL_MOD_CHIRHO_def

lemma keys_epfds:
  "map entry_key es' = map entry_key es \<Longrightarrow>
     list_all (\<lambda>e. epfd_chirho e < n) es' = list_all (\<lambda>e. epfd_chirho e < n) es \<and> keys_ok es' = keys_ok es"
proof -
  assume a: "map entry_key es' = map entry_key es"
  have "list_all (\<lambda>e. epfd_chirho e < n) xs = list_all (\<lambda>k. fst (snd k) < n) (map entry_key xs)" for xs
    by (simp add: list_all_iff entry_key_def)
  then show ?thesis using a by (simp add: keys_ok_def)
qed

lemma ctl_add_step:
  assumes "epoll_ok st" "epfd < int (unat (NEXT_EPOLL_FD_CHIRHO st))" "read_epoll_event mem ptr = (ev, d)"
    "st' = snd (sys_epoll_ctl_chirho v mem pid epfd EPOLL_CTL_ADD_CHIRHO fd ptr st)"
  shows "epoll_ok st' \<and> epoll_view st' = (epoll_view st)((pid, epfd, fd) \<mapsto> (ucast ev, d))"
proof (cases "(pid, epfd, fd) \<in> entry_key ` set (EPOLL_ENTRIES_CHIRHO st)")
  case True
  let ?es = "update_first (\<lambda>e. entry_key e = (pid, epfd, fd)) (\<lambda>e. e\<lparr>ep_events_chirho := ucast ev, ep_data_chirho := d\<rparr>)
      (EPOLL_ENTRIES_CHIRHO st)"
  have "list_ex (entry_is pid epfd fd) (EPOLL_ENTRIES_CHIRHO st)" using True by (force simp: list_ex_iff entry_is_key)
  then have st': "st' = st\<lparr>EPOLL_ENTRIES_CHIRHO := ?es\<rparr>"
    using assms(3,4) by (simp add: sys_epoll_ctl_chirho_def entry_is_key [abs_def])
  have "interest_of ?es = (epoll_view st)((pid, epfd, fd) \<mapsto> (ucast ev, d)) \<and>
      map entry_key ?es = map entry_key (EPOLL_ENTRIES_CHIRHO st)"
    unfolding epoll_view_def by (rule interest_update_first) (use True in simp_all)
  then have eq: "interest_of ?es = (epoll_view st)((pid, epfd, fd) \<mapsto> (ucast ev, d))" and keys: "map entry_key ?es = map entry_key (EPOLL_ENTRIES_CHIRHO st)" by blast+
  show ?thesis using assms(1) eq keys_epfds [OF keys] unfolding st' by (simp add: epoll_ok_def epoll_view_def)
next
  case False
  then have n: "\<not> list_ex (entry_is pid epfd fd) (EPOLL_ENTRIES_CHIRHO st)" by (force simp: list_ex_iff entry_is_key)
  have "(pid, epfd, fd) \<notin> dom (epoll_view st)"
    using False interest_None_iff by (auto simp: epoll_view_def domIff)
  then show ?thesis
    using n False assms by (auto simp: sys_epoll_ctl_chirho_def epoll_ok_def keys_ok_def epoll_view_def
        interest_append entry_key_def entry_val_def map_add_def fun_eq_iff split: option.split)
qed

lemma ctl_mod_step:
  assumes "epoll_ok st" "read_epoll_event mem ptr = (ev, d)"
    "ev' = (if fd \<ge> 13 \<and> is_socket_fd_chirho v fd then ev OR 4 else ev)"
    "st' = snd (sys_epoll_ctl_chirho v mem pid epfd EPOLL_CTL_MOD_CHIRHO fd ptr st)"
  shows "epoll_ok st' \<and> epoll_view st' = (if epoll_view st (pid, epfd, fd) = None then epoll_view st
      else (epoll_view st)((pid, epfd, fd) \<mapsto> (ucast ev', d)))"
proof -
  let ?es = "map (\<lambda>e. if entry_key e = (pid, epfd, fd) then e\<lparr>ep_events_chirho := ucast ev', ep_data_chirho := d\<rparr> else e)
      (EPOLL_ENTRIES_CHIRHO st)"
  have st': "st' = st\<lparr>EPOLL_ENTRIES_CHIRHO := ?es\<rparr>"
    using assms(2-4) by (simp add: sys_epoll_ctl_chirho_def entry_is_key ctl_consts)
  have "interest_of ?es = (if epoll_view st (pid, epfd, fd) = None then epoll_view st
      else (epoll_view st)((pid, epfd, fd) \<mapsto> (ucast ev', d))) \<and> map entry_key ?es = map entry_key (EPOLL_ENTRIES_CHIRHO st)"
    unfolding epoll_view_def by (rule interest_map_entry) simp_all
  then have eq: "interest_of ?es = (if epoll_view st (pid, epfd, fd) = None then epoll_view st
      else (epoll_view st)((pid, epfd, fd) \<mapsto> (ucast ev', d)))" and keys: "map entry_key ?es = map entry_key (EPOLL_ENTRIES_CHIRHO st)" by blast+
  show ?thesis using assms(1) eq keys_epfds [OF keys] unfolding st' by (simp add: epoll_ok_def epoll_view_def)
qed

lemma filter_step:
  assumes "epoll_ok st" "st' = st\<lparr>EPOLL_ENTRIES_CHIRHO := filter (\<lambda>e. P (entry_key e)) (EPOLL_ENTRIES_CHIRHO st)\<rparr>"
  shows "epoll_ok st' \<and> epoll_view st' = (\<lambda>k. if P k then epoll_view st k else None)"
  using assms by (auto simp: epoll_ok_def epoll_view_def interest_filter keys_ok_filter list_all_iff)

lemma as_i32_small: "unat w < 2 ^ 31 \<Longrightarrow> as_i32 w = int (unat w)"
proof -
  assume "unat w < 2 ^ 31"
  then have "unat w < 2147483648" by simp
  moreover have "int (unat w) = uint w" by simp
  ultimately have "uint w < 2147483648" by linarith
  then have "signed_take_bit 31 (uint w) = uint w"
    by (intro signed_take_bit_int_eq_self) (simp_all add: order_trans [of _ 0])
  then show ?thesis by (simp add: as_i32_def signed_ucast_eq)
qed

text \<open>The new descriptor's row of the list.\<close>

lemma seeded_row:
  assumes "s \<in> set (seed_loop pid n es [])"
  obtains e where "e \<in> set es" "seed_source pid n e" "s = e\<lparr>ep_owner_pid_chirho := pid, epfd_chirho := n\<rparr>"
    "ep_owner_pid_chirho s = pid" "epfd_chirho s = n"
  using seed_loop_sources [OF assms] by auto

lemma seeded_keys:
  assumes "keys_ok es" "\<And>e. e \<in> set es \<Longrightarrow> epfd_chirho e < n"
  shows "keys_ok (es @ seed_loop pid n es [])"
proof -
  let ?seeded = "seed_loop pid n es []"
  have "distinct (map entry_key ?seeded)"
    using seed_loop_distinct [of "[]" pid n es] unfolding distinct_map by (auto simp: inj_on_def entry_key_def)
  moreover have "entry_key e \<noteq> entry_key f" if "e \<in> set es" "f \<in> set ?seeded" for e f
    using assms(2) [OF that(1)] seeded_row [OF that(2)] by (metis entry_key_def fst_conv less_irrefl snd_conv)
  then have "entry_key ` set es \<inter> entry_key ` set ?seeded = {}" by blast
  ultimately show ?thesis using assms(1) unfolding keys_ok_def map_append distinct_append set_map by blast
qed

lemma seeded_value:
  assumes "keys_ok es" "\<And>e. e \<in> set es \<Longrightarrow> epfd_chirho e < n"
    "interest_of (es @ seed_loop pid n es []) (pid, n, fd) = Some x"
  shows "\<exists>e. interest_of es (pid, e, fd) = Some x"
proof -
  obtain s where s: "s \<in> set es \<union> set (seed_loop pid n es [])" "entry_key s = (pid, n, fd)" "entry_val s = x"
    using assms(3) interest_Some_iff [OF seeded_keys [OF assms(1,2)]] by auto
  then have "s \<in> set (seed_loop pid n es [])" using assms(2) by (force simp: entry_key_def)
  then obtain e where e: "e \<in> set es" "seed_source pid n e" "s = e\<lparr>ep_owner_pid_chirho := pid, epfd_chirho := n\<rparr>"
    by (rule seeded_row)
  then have "entry_key e = (pid, epfd_chirho e, fd)" "entry_val e = x"
    using s(2,3) by (simp_all add: entry_key_def entry_val_def seed_source_def)
  then show ?thesis using e(1) interest_Some_iff [OF assms(1)] by blast
qed

lemma seeded_present:
  assumes "\<And>e. e \<in> set es \<Longrightarrow> epfd_chirho e < n"
  shows "(pid, n, fd) \<in> entry_key ` set (es @ seed_loop pid n es []) \<longleftrightarrow>
    (\<exists>e\<in>set es. ep_owner_pid_chirho e = pid \<and> ep_fd_chirho e = fd)"
proof
  assume "(pid, n, fd) \<in> entry_key ` set (es @ seed_loop pid n es [])"
  then obtain s where s: "s \<in> set es \<union> set (seed_loop pid n es [])" "entry_key s = (pid, n, fd)"
    by (metis imageE set_append)
  then have "s \<in> set (seed_loop pid n es [])" using assms by (force simp: entry_key_def)
  then show "\<exists>e\<in>set es. ep_owner_pid_chirho e = pid \<and> ep_fd_chirho e = fd"
    by (rule seeded_row) (use s(2) in \<open>auto simp: entry_key_def seed_source_def\<close>)
next
  assume "\<exists>e\<in>set es. ep_owner_pid_chirho e = pid \<and> ep_fd_chirho e = fd"
  then obtain e where e: "e \<in> set es" "ep_owner_pid_chirho e = pid" "ep_fd_chirho e = fd" by blast
  then have "seed_source pid n e" using assms [of e] by (auto simp: seed_source_def)
  then obtain s where s: "s \<in> set (seed_loop pid n es [])" "ep_fd_chirho s = fd"
    using seed_loop_covers [OF e(1)] e(3) by blast
  then have "entry_key s = (pid, n, fd)" using seeded_row [OF s(1)] by (metis entry_key_def)
  then show "(pid, n, fd) \<in> entry_key ` set (es @ seed_loop pid n es [])" using s(1) by force
qed

lemma seeded_interest:
  assumes "keys_ok es" "\<And>e. e \<in> set es \<Longrightarrow> epfd_chirho e < n"
  shows "interest_step (interest_of es) (Ev_Create pid) (interest_of (es @ seed_loop pid n es []))"
proof (rule interest_step.create [where n = n])
  show "interest_of es (pid, n, fd) = None" for fd
    using assms(2) by (force simp: interest_None_iff entry_key_def)
  show "interest_of (es @ seed_loop pid n es []) k = interest_of es k" if "fst k \<noteq> pid \<or> fst (snd k) \<noteq> n" for k
  proof -
    have "entry_key s \<noteq> k" if "s \<in> set (seed_loop pid n es [])" for s
      using seeded_row [OF that] \<open>fst k \<noteq> pid \<or> fst (snd k) \<noteq> n\<close> by (metis entry_key_def fst_conv snd_conv)
    then have "interest_of (seed_loop pid n es []) k = None" by (auto simp: interest_None_iff)
    then show ?thesis by (simp add: interest_append map_add_def split: option.split)
  qed
  show "interest_of (es @ seed_loop pid n es []) (pid, n, fd) = None \<longleftrightarrow> (\<forall>e. interest_of es (pid, e, fd) = None)" for fd
  proof -
    have "(\<exists>e. (pid, e, fd) \<in> entry_key ` set es) \<longleftrightarrow> (\<exists>e\<in>set es. ep_owner_pid_chirho e = pid \<and> ep_fd_chirho e = fd)"
      by (auto simp: entry_key_def image_iff)
    then show ?thesis using seeded_present [where es = es and n = n and pid = pid and fd = fd, OF assms(2)] by (simp only: interest_None_iff) blast
  qed
  show "\<exists>e. interest_of es (pid, e, fd) = Some x" if "interest_of (es @ seed_loop pid n es []) (pid, n, fd) = Some x" for fd x
    using seeded_value [OF assms that] .
qed

lemma create_step:
  assumes "epoll_ok st" "unat (NEXT_EPOLL_FD_CHIRHO st) < 2 ^ 31 - 1"
    "st' = snd (sys_epoll_create1_chirho pid st)"
  shows "epoll_ok st' \<and> interest_step (epoll_view st) (Ev_Create pid) (epoll_view st')"
proof -
  let ?es = "EPOLL_ENTRIES_CHIRHO st" and ?n = "int (unat (NEXT_EPOLL_FD_CHIRHO st))"
  let ?seeded = "seed_loop pid ?n ?es []"
  have n: "as_i32 (NEXT_EPOLL_FD_CHIRHO st) = ?n" using assms(2) by (intro as_i32_small) simp
  have succ: "unat (NEXT_EPOLL_FD_CHIRHO st + 1) = Suc (unat (NEXT_EPOLL_FD_CHIRHO st))"
    using assms(2) unat_minus_one_word [where 'a = 64] by (intro unat_Suc_word) auto
  have st': "st' = st\<lparr>NEXT_EPOLL_FD_CHIRHO := NEXT_EPOLL_FD_CHIRHO st + 1, EPOLL_ENTRIES_CHIRHO := ?es @ ?seeded\<rparr>"
    using assms(3) n by (simp add: sys_epoll_create1_chirho_def seed_new_epfd_from_owned_entries_chirho_def Let_def)
  have old: "epfd_chirho e < ?n" if "e \<in> set ?es" for e using assms(1) that by (auto simp: epoll_ok_def list_all_iff)
  have keys: "keys_ok ?es" using assms(1) by (simp add: epoll_ok_def)
  have "epfd_chirho e < int (Suc (unat (NEXT_EPOLL_FD_CHIRHO st)))" if "e \<in> set (?es @ ?seeded)" for e
    using that old [of e] by (auto elim: seeded_row)
  then have "epoll_ok st'" using seeded_keys [OF keys old] succ unfolding st' epoll_ok_def list_all_iff by simp
  then show ?thesis using seeded_interest [OF keys old] unfolding epoll_view_def st' by simp
qed

lemma epoll_step_refines:
  assumes "epoll_ok st" "uses_created st ev"
  shows "epoll_ok (epoll_step st ev) \<and> interest_step (epoll_view st) ev (epoll_view (epoll_step st ev))"
proof (cases ev)
  case (Ev_Create pid)
  then show ?thesis using create_step [OF assms(1)] assms(2) by simp
next
  case (Ev_Ctl v mem pid epfd op fd ptr)
  obtain e d where rd: "read_epoll_event mem ptr = (e, d)" by fastforce
  consider (add) "op = EPOLL_CTL_ADD_CHIRHO" | (del) "op = EPOLL_CTL_DEL_CHIRHO" | (mod) "op = EPOLL_CTL_MOD_CHIRHO"
    | (bad) "op \<notin> {EPOLL_CTL_ADD_CHIRHO, EPOLL_CTL_DEL_CHIRHO, EPOLL_CTL_MOD_CHIRHO}" by blast
  then show ?thesis
  proof cases
    case add
    then show ?thesis using ctl_add_step [OF assms(1) _ rd refl] assms(2) Ev_Ctl interest_step.ctl_add [OF rd] by simp
  next
    case del
    have "snd (sys_epoll_ctl_chirho v mem pid epfd op fd ptr st) = st\<lparr>EPOLL_ENTRIES_CHIRHO :=
        filter (\<lambda>e. entry_key e \<noteq> (pid, epfd, fd)) (EPOLL_ENTRIES_CHIRHO st)\<rparr>"
      using del rd by (simp add: sys_epoll_ctl_chirho_def entry_is_key ctl_consts)
    from filter_step [OF assms(1) this]
    have "epoll_ok (epoll_step st ev) \<and> epoll_view (epoll_step st ev) = (epoll_view st)((pid, epfd, fd) := None)"
      using Ev_Ctl by (simp add: fun_upd_def if_distrib cong: if_cong) (auto simp: fun_eq_iff)
    then show ?thesis using del Ev_Ctl interest_step.ctl_del by simp
  next
    case mod
    then show ?thesis using ctl_mod_step [OF assms(1) rd refl refl] Ev_Ctl interest_step.ctl_mod [OF rd refl] by simp
  next
    case bad
    then show ?thesis using assms(1) Ev_Ctl rd interest_step.ctl_bad by (simp add: sys_epoll_ctl_chirho_def)
  qed
next
  case (Ev_Exit pid)
  then show ?thesis
    using filter_step [OF assms(1), of "epoll_step st ev" "\<lambda>k. fst k \<noteq> pid"] interest_step.exit
    by (simp add: remove_epoll_entries_for_pid_chirho_def entry_key_def)
qed

text \<open>Runs of the two machines.\<close>

fun all_created :: "epoll_state \<Rightarrow> epoll_event list \<Rightarrow> bool" where
  "all_created st [] = True"
| "all_created st (ev # evs) = (uses_created st ev \<and> all_created (epoll_step st ev) evs)"

inductive interest_run :: "interest \<Rightarrow> epoll_event list \<Rightarrow> interest \<Rightarrow> bool" where
  run_done: "interest_run m [] m"
| run_step: "interest_step m ev m1 \<Longrightarrow> interest_run m1 evs m2 \<Longrightarrow> interest_run m (ev # evs) m2"

lemma epoll_run_refines:
  "epoll_ok st \<Longrightarrow> all_created st evs \<Longrightarrow>
     epoll_ok (foldl epoll_step st evs) \<and> interest_run (epoll_view st) evs (epoll_view (foldl epoll_step st evs))"
proof (induction evs arbitrary: st)
  case Nil
  then show ?case by (simp add: interest_run.run_done)
next
  case (Cons ev evs)
  then show ?case using epoll_step_refines [of st ev] interest_run.run_step by fastforce
qed

definition epoll_init :: epoll_state where
  "epoll_init = \<lparr>EPOLL_ENTRIES_CHIRHO = [], NEXT_EPOLL_FD_CHIRHO = 100\<rparr>"

lemma epoll_init_ok: "epoll_ok epoll_init" "epoll_view epoll_init = Map.empty"
  by (simp_all add: epoll_init_def epoll_ok_def keys_ok_def epoll_view_def)

section \<open>Deviations\<close>

text \<open>Waiting with a timeout of less than ten milliseconds looks at nothing.\<close>

lemma short_timeout_never_polls:
  "0 < timeout \<Longrightarrow> timeout < 10 \<Longrightarrow> ptr \<noteq> 0 \<Longrightarrow> 0 < maxevents \<Longrightarrow>
     sys_epoll_wait_chirho rounds pid epfd ptr maxevents timeout = (0, None)"
  by (simp add: sys_epoll_wait_chirho_def max_attempts_def)

text \<open>The buffer is not checked: one event is written to any address, here for a wait whose
  first round finds one ready watch.\<close>

lemma wait_writes_anywhere:
  assumes "ptr \<noteq> 0" "ready_entries (rounds 0) pid epfd = [e]"
  shows "sys_epoll_wait_chirho rounds pid epfd ptr 1 0 =
    (1, Some (write_mem (rd_mem (rounds 0)) ptr (event_bytes (rounds 0) e)))"
  using assms epoll_loop_eq [of 1 rounds pid epfd ptr 0 0 1]
  by (simp add: sys_epoll_wait_chirho_def max_attempts_def upt_conv_Cons del: epoll_loop.simps)

text \<open>A control call on a descriptor that does not exist yet leaves a watch behind, and
  the creation of the descriptor adds a second one for the same key.\<close>

lemma future_descriptor_duplicates:
  assumes "read_epoll_event mem ptr = (ev, d)"
  shows "\<not> epoll_ok (foldl epoll_step epoll_init
    [Ev_Create pid, Ev_Ctl v mem pid 100 EPOLL_CTL_ADD_CHIRHO 7 ptr,
     Ev_Ctl v mem pid 101 EPOLL_CTL_ADD_CHIRHO 7 ptr, Ev_Create pid])"
  using assms by (simp add: epoll_init_def sys_epoll_create1_chirho_def sys_epoll_ctl_chirho_def
      seed_new_epfd_from_owned_entries_chirho_def as_i32_small entry_is_def epoll_ok_def keys_ok_def
      entry_key_def Let_def ctl_consts)

section \<open>Main properties\<close>

text \<open>C27. The watch list is a map.  From the empty list, after any sequence of
  \<^verbatim>\<open>epoll_create1\<close>, \<^verbatim>\<open>epoll_ctl\<close> on descriptors that were created and process exits, every
  (process, epoll descriptor, descriptor) has at most one entry, and the list is related
  to the empty map by the same sequence of abstract steps: adding sets an entry,
  deleting clears it, modifying changes it only if it is there, other operations change
  nothing, an exit clears all entries of the process, and a new descriptor starts with
  the watches its process already has.\<close>

theorem watch_list_is_map:
  assumes "all_created epoll_init evs"
  shows "distinct (map entry_key (EPOLL_ENTRIES_CHIRHO (foldl epoll_step epoll_init evs))) \<and>
    interest_run Map.empty evs (epoll_view (foldl epoll_step epoll_init evs))"
  using epoll_run_refines [OF epoll_init_ok(1) assms] epoll_init_ok(2) by (simp add: epoll_ok_def keys_ok_def)

text \<open>C28. What a wait returns.  A null buffer or no room is \<^verbatim>\<open>EINVAL\<close>.  Otherwise the rounds
  are those of the timeout (one for 0, at most 1000), and the first round that finds ready
  watches of this process and epoll descriptor ends the wait: the result is their number,
  at most \<^verbatim>\<open>maxevents\<close>, and the memory is changed exactly by their events and data, in the
  order of the list, from the start of the buffer.  Without such a round the result is 0
  and nothing is written.\<close>

theorem epoll_wait_reports_first_ready:
  assumes "maxevents < 2 ^ 31"
  shows "sys_epoll_wait_chirho rounds pid epfd ptr maxevents timeout =
    (if ptr = 0 \<or> maxevents \<le> 0 then (- EINVAL_CHIRHO, None)
     else case find (\<lambda>j. ready_entries (rounds j) pid epfd \<noteq> []) [0..<max_attempts timeout] of
       None \<Rightarrow> (0, None)
     | Some j \<Rightarrow>
         let hits = take (nat maxevents) (ready_entries (rounds j) pid epfd)
         in (int (length hits), Some (write_mem (rd_mem (rounds j)) ptr (concat (map (event_bytes (rounds j)) hits)))))"
proof (cases "ptr = 0 \<or> maxevents \<le> 0")
  case False
  have "(if timeout = 0 then 0 + min (max_attempts timeout) 1 else 0 + max_attempts timeout) = max_attempts timeout"
    by (simp add: max_attempts_def)
  then show ?thesis
    using False epoll_loop_eq [of maxevents rounds pid epfd ptr timeout 0 "max_attempts timeout"] assms
    by (simp add: sys_epoll_wait_chirho_def)
qed (simp add: sys_epoll_wait_chirho_def)

section \<open>A concrete system\<close>

text \<open>Descriptor 7 is a Unix socket with two bytes to read, watched by process 5.\<close>

definition demo_poll :: poll_view where
  "demo_poll = \<lparr>view_fds = (\<lambda>fd. if fd = 7 then Some 0 else None),
     view_socks = \<lparr>w_sockets = [Some (socket_new_chirho 1 1 0)], w_mapping = [Some 0],
       w_unix = [Some \<lparr>path_chirho = None, unix_recv_buf_chirho = [[1, 2]], peer_idx_chirho = None,
         unix_sock_type_chirho = 1, unix_backlog_chirho = [], listening_chirho = False,
         listener_pid_chirho = 0, owner_pid_chirho = 5\<rparr>]\<rparr>\<rparr>"

definition demo_round :: round where
  "demo_round = \<lparr>rd_entries = [\<lparr>ep_owner_pid_chirho = 5, epfd_chirho = 100, ep_fd_chirho = 7,
       ep_events_chirho = 1, ep_data_chirho = 42\<rparr>], rd_view = demo_poll, rd_mem = (\<lambda>_. 0)\<rparr>"

lemma demo_ready: "ready_events demo_poll 7 = 1"
  by (simp add: ready_events_def is_socket_fd_chirho_def socket_idx_from_fd_chirho_def socket_has_data_chirho_def
      demo_poll_def is_unix_socket_idx_chirho_def unix_of_slot_def lookup_unix_idx_chirho_def get_opt_def
      unix_socket_recv_stats_chirho_def get_socket_state_chirho_def socket_new_chirho_def)

theorem watch_list_is_map_witness:
  "let evs = [Ev_Create 5, Ev_Ctl demo_poll (\<lambda>_. 1) 5 100 EPOLL_CTL_ADD_CHIRHO 7 0x1000, Ev_Create 5, Ev_Exit 6]
   in distinct (map entry_key (EPOLL_ENTRIES_CHIRHO (foldl epoll_step epoll_init evs))) \<and>
     interest_run Map.empty evs (epoll_view (foldl epoll_step epoll_init evs))"
  unfolding Let_def
  by (rule watch_list_is_map) (simp add: epoll_init_def sys_epoll_create1_chirho_def sys_epoll_ctl_chirho_def
      seed_new_epfd_from_owned_entries_chirho_def as_i32_small Let_def split: prod.split)

theorem epoll_wait_reports_first_ready_witness:
  "sys_epoll_wait_chirho (\<lambda>_. demo_round) 5 100 0x2000 8 0 =
     (1, Some (write_mem (\<lambda>_. 0) 0x2000 [1, 0, 0, 0, 42, 0, 0, 0, 0, 0, 0, 0]))"
proof -
  have "event_bytes demo_round (hd (rd_entries demo_round)) = [1, 0, 0, 0, 42, 0, 0, 0, 0, 0, 0, 0]"
  proof -
    have "le_bytes 4 1 = [1, 0, 0, 0]" "le_bytes 8 42 = [42, 0, 0, 0, 0, 0, 0, 0]" by code_simp+
    then show ?thesis by (simp add: demo_round_def event_bytes_def demo_ready)
  qed
  moreover have "ready_entries demo_round 5 100 = rd_entries demo_round"
    by (simp add: ready_entries_def demo_round_def demo_ready)
  ultimately show ?thesis
    using epoll_wait_reports_first_ready [of 8 "\<lambda>_. demo_round" 5 100 "0x2000" 0]
    by (simp add: max_attempts_def upt_conv_Cons demo_round_def)
qed

end
