(* ===== verification/Page_Cache.thy ===== *)
theory Page_Cache
  imports Rust_Prelude "HOL-Library.Product_Lexorder"
begin

text \<open>
  The block cache of \<^verbatim>\<open>fs_chirho/ext4_chirho.rs\<close>: pages keyed by device and block number in a
  \<^verbatim>\<open>BTreeMap\<close> (a list with ascending keys), stamped with an access counter; an insertion at
  capacity removes the page with the oldest stamp.  The cache is proved to implement
  an abstract LRU cache, a list of keys from the most to the least recently used.
\<close>

section \<open>Ordered maps\<close>

type_synonym ('k, 'v) btree = "('k \<times> 'v) list"

fun btree_insert :: "'k::linorder \<Rightarrow> 'v \<Rightarrow> ('k, 'v) btree \<Rightarrow> ('k, 'v) btree" where
  "btree_insert k v [] = [(k, v)]"
| "btree_insert k v ((a, b) # t) =
     (if k < a then (k, v) # (a, b) # t else if k = a then (k, v) # t else (a, b) # btree_insert k v t)"

definition btree_remove :: "'k::linorder \<Rightarrow> ('k, 'v) btree \<Rightarrow> ('k, 'v) btree" where
  "btree_remove k t = filter (\<lambda>e. fst e \<noteq> k) t"

definition btree_modify :: "'k::linorder \<Rightarrow> ('v \<Rightarrow> 'v) \<Rightarrow> ('k, 'v) btree \<Rightarrow> ('k, 'v) btree" where
  "btree_modify k f t = map (\<lambda>e. if fst e = k then (fst e, f (snd e)) else e) t"

definition btree_ok :: "('k::linorder, 'v) btree \<Rightarrow> bool" where
  "btree_ok t \<longleftrightarrow> sorted (map fst t) \<and> distinct (map fst t)"

section \<open>The cache\<close>

type_synonym page_key = "u32 \<times> u64"

record CachedPageChirho =
  page_data_chirho :: bytes
  last_access_chirho :: u64
  dirty_chirho :: bool

record PageCacheChirho =
  pages_chirho :: "(page_key, CachedPageChirho) btree"
  access_counter_chirho :: u64
  max_pages_chirho :: nat

definition page_cache_new_chirho :: "nat \<Rightarrow> PageCacheChirho" where
  "page_cache_new_chirho n = \<lparr>pages_chirho = [], access_counter_chirho = 0, max_pages_chirho = n\<rparr>"

definition page_cache_get_chirho :: "u32 \<Rightarrow> u64 \<Rightarrow> PageCacheChirho \<Rightarrow> bytes option \<times> PageCacheChirho" where
  "page_cache_get_chirho dev b c =
     (let n = access_counter_chirho c + 1; c1 = c\<lparr>access_counter_chirho := n\<rparr> in
      case map_of (pages_chirho c) (dev, b) of
        Some p \<Rightarrow> (Some (page_data_chirho p),
          c1\<lparr>pages_chirho := btree_modify (dev, b) (\<lambda>p. p\<lparr>last_access_chirho := n\<rparr>) (pages_chirho c)\<rparr>)
      | None \<Rightarrow> (None, c1))"

text \<open>The loop over the pages with the oldest key and stamp seen so far.\<close>

fun lru_loop :: "(page_key, CachedPageChirho) btree \<Rightarrow> page_key option \<Rightarrow> u64 \<Rightarrow> page_key option" where
  "lru_loop [] key oldest = key"
| "lru_loop ((k, p) # t) key oldest =
     (if last_access_chirho p < oldest then lru_loop t (Some k) (last_access_chirho p) else lru_loop t key oldest)"

definition evict_lru_chirho :: "PageCacheChirho \<Rightarrow> PageCacheChirho" where
  "evict_lru_chirho c = (case lru_loop (pages_chirho c) None (- 1) of
     Some k \<Rightarrow> c\<lparr>pages_chirho := btree_remove k (pages_chirho c)\<rparr> | None \<Rightarrow> c)"

definition page_cache_insert_chirho :: "u32 \<Rightarrow> u64 \<Rightarrow> bytes \<Rightarrow> PageCacheChirho \<Rightarrow> PageCacheChirho" where
  "page_cache_insert_chirho dev b d c =
     (let c1 = (if length (pages_chirho c) \<ge> max_pages_chirho c then evict_lru_chirho c else c);
          n = access_counter_chirho c1 + 1
      in c1\<lparr>access_counter_chirho := n,
           pages_chirho := btree_insert (dev, b)
             \<lparr>page_data_chirho = d, last_access_chirho = n, dirty_chirho = False\<rparr> (pages_chirho c1)\<rparr>)"

definition mark_dirty_chirho :: "u32 \<Rightarrow> u64 \<Rightarrow> PageCacheChirho \<Rightarrow> PageCacheChirho" where
  "mark_dirty_chirho dev b c =
     c\<lparr>pages_chirho := btree_modify (dev, b) (\<lambda>p. p\<lparr>dirty_chirho := True\<rparr>) (pages_chirho c)\<rparr>"

definition invalidate_device_chirho :: "u32 \<Rightarrow> PageCacheChirho \<Rightarrow> PageCacheChirho" where
  "invalidate_device_chirho dev c = c\<lparr>pages_chirho := filter (\<lambda>e. fst (fst e) \<noteq> dev) (pages_chirho c)\<rparr>"

definition page_cache_len_chirho :: "PageCacheChirho \<Rightarrow> nat" where
  "page_cache_len_chirho c = length (pages_chirho c)"

section \<open>Ordered maps as maps\<close>

lemma set_btree_insert: "set (btree_insert k v t) \<subseteq> insert (k, v) (set t)"
  by (induction k v t rule: btree_insert.induct) auto

lemma keys_btree_insert [simp]: "fst ` set (btree_insert k v t) = insert k (fst ` set t)"
  by (induction k v t rule: btree_insert.induct) auto

lemma map_of_btree_insert: "btree_ok t \<Longrightarrow> map_of (btree_insert k v t) = (map_of t)(k \<mapsto> v)"
proof (induction k v t rule: btree_insert.induct)
  case (2 k v a b t)
  then have "btree_ok t" by (simp add: btree_ok_def)
  with 2 show ?case by (auto simp: fun_eq_iff)
qed simp

lemma btree_ok_insert: "btree_ok t \<Longrightarrow> btree_ok (btree_insert k v t)"
proof (induction k v t rule: btree_insert.induct)
  case (2 k v a b t)
  then have "btree_ok t" "\<forall>x\<in>fst ` set t. a \<le> x \<and> a \<noteq> x" by (auto simp: btree_ok_def)
  moreover have "\<not> k < a \<Longrightarrow> k \<noteq> a \<Longrightarrow> \<forall>x\<in>fst ` set (btree_insert k v t). a \<le> x \<and> a \<noteq> x"
    using calculation(2) by auto
  ultimately show ?case using 2 by (auto simp: btree_ok_def)
qed (simp add: btree_ok_def)

lemma length_btree_insert:
  "btree_ok t \<Longrightarrow> length (btree_insert k v t) = (if k \<in> fst ` set t then length t else Suc (length t))"
proof (induction k v t rule: btree_insert.induct)
  case (2 k v a b t)
  then have "btree_ok t" "\<forall>x\<in>fst ` set t. a \<le> x \<and> a \<noteq> x" by (auto simp: btree_ok_def)
  then show ?case using 2 by auto
qed simp

lemma btree_ok_filter: "btree_ok t \<Longrightarrow> btree_ok (filter P t)"
  by (simp add: btree_ok_def sorted_filter distinct_map_filter)

lemma map_of_filter_key: "map_of (filter (\<lambda>e. P (fst e)) t) = (\<lambda>k. if P k then map_of t k else None)"
  by (induction t) (auto simp: fun_eq_iff)

lemma keys_btree_modify [simp]: "map fst (btree_modify k f t) = map fst t"
  by (simp add: btree_modify_def comp_def)

lemma btree_ok_modify [simp]: "btree_ok (btree_modify k f t) = btree_ok t"
  by (simp add: btree_ok_def)

lemma length_btree_modify [simp]: "length (btree_modify k f t) = length t"
  by (simp add: btree_modify_def)

lemma map_of_btree_modify:
  "map_of (btree_modify k f t) = (\<lambda>x. if x = k then map_option f (map_of t x) else map_of t x)"
  by (induction t) (auto simp: btree_modify_def fun_eq_iff)

section \<open>Least recently used\<close>

abbreviation page_of :: "PageCacheChirho \<Rightarrow> page_key \<Rightarrow> CachedPageChirho option" where
  "page_of c \<equiv> map_of (pages_chirho c)"

definition stamp :: "PageCacheChirho \<Rightarrow> page_key \<Rightarrow> u64" where
  "stamp c k = last_access_chirho (the (page_of c k))"

text \<open>The keys from the most to the least recently used; every stamp is one the counter
  has had, and no counter value is the all-ones word that starts the search.\<close>

definition lru_order :: "PageCacheChirho \<Rightarrow> page_key list \<Rightarrow> bool" where
  "lru_order c ks \<longleftrightarrow> btree_ok (pages_chirho c) \<and> distinct ks \<and> set ks = dom (page_of c) \<and>
     sorted_wrt (\<lambda>k l. stamp c l < stamp c k) ks \<and> (\<forall>k\<in>set ks. stamp c k \<le> access_counter_chirho c)"

lemma lru_loop_none: "(\<And>k p. (k, p) \<in> set t \<Longrightarrow> oldest \<le> last_access_chirho p) \<Longrightarrow> lru_loop t key oldest = key"
proof (induction t key oldest rule: lru_loop.induct)
  case (2 k p t key oldest)
  have "\<not> last_access_chirho p < oldest" using 2(3) [of k p] by (simp add: linorder_not_less)
  moreover have "oldest \<le> last_access_chirho q" if "(l, q) \<in> set t" for l q using 2(3) [of l q] that by simp
  ultimately show ?case using 2(2) by simp
qed simp

lemma lru_loop_least:
  assumes "(k, p) \<in> set t" "last_access_chirho p < oldest"
    "\<And>l q. (l, q) \<in> set t \<Longrightarrow> l \<noteq> k \<Longrightarrow> last_access_chirho p < last_access_chirho q"
    "distinct (map fst t)"
  shows "lru_loop t key oldest = Some k"
  using assms
proof (induction t key oldest rule: lru_loop.induct)
  case (2 l q t key oldest)
  show ?case
  proof (cases "l = k")
    case True
    then have q: "q = p" using 2(3,6) by (force simp: image_iff)
    have "last_access_chirho p \<le> last_access_chirho q'" if "(l', q') \<in> set t" for l' q'
    proof -
      have "l' \<noteq> k" using that True 2(6) by (force simp: image_iff)
      then show ?thesis using 2(5) [of l' q'] that by (simp add: less_imp_le)
    qed
    then show ?thesis using lru_loop_none [of t "last_access_chirho p" "Some k"] True q 2(4) by auto
  next
    case False
    then have "(k, p) \<in> set t" using 2(3) by auto
    moreover have "last_access_chirho p < last_access_chirho q" using 2(5) [of l q] False by simp
    ultimately show ?thesis using 2 by auto
  qed
qed simp

lemma lru_order_empty: "lru_order c ks \<Longrightarrow> ks = [] \<longleftrightarrow> pages_chirho c = []"
  by (auto simp: lru_order_def dom_map_of_conv_image_fst)

lemma lru_order_length:
  assumes "lru_order c ks"
  shows "length ks = length (pages_chirho c)"
proof -
  have "set ks = set (map fst (pages_chirho c))" "distinct (map fst (pages_chirho c))" "distinct ks"
    using assms by (auto simp: lru_order_def btree_ok_def dom_map_of_conv_image_fst)
  then show ?thesis by (metis distinct_card length_map)
qed

lemma evict_last:
  assumes "lru_order c (ks @ [k])" "access_counter_chirho c < - 1"
  shows "lru_order (evict_lru_chirho c) ks \<and>
    page_of (evict_lru_chirho c) = (page_of c)(k := None)"
proof -
  have ok: "btree_ok (pages_chirho c)" and dist: "distinct (ks @ [k])" and keys: "set (ks @ [k]) = dom (page_of c)"
    and ord: "sorted_wrt (\<lambda>k l. stamp c l < stamp c k) (ks @ [k])"
    and le: "\<forall>k'\<in>set (ks @ [k]). stamp c k' \<le> access_counter_chirho c"
    using assms(1) unfolding lru_order_def by blast+
  have d: "distinct (map fst (pages_chirho c))" using ok by (simp add: btree_ok_def)
  obtain p where p: "page_of c k = Some p" using keys by force
  have "lru_loop (pages_chirho c) None (- 1) = Some k"
  proof (rule lru_loop_least)
    show "(k, p) \<in> set (pages_chirho c)" using p by (rule map_of_SomeD)
    show "last_access_chirho p < - 1" using le p assms(2) by (auto simp: stamp_def)
    show "last_access_chirho p < last_access_chirho q" if "(l, q) \<in> set (pages_chirho c)" "l \<noteq> k" for l q
    proof -
      have q: "page_of c l = Some q" using that(1) d by simp
      then have "l \<in> set ks" using keys that(2) by auto
      then have "stamp c k < stamp c l" using ord by (simp add: sorted_wrt_append)
      then show ?thesis using p q by (simp add: stamp_def)
    qed
  qed (rule d)
  then have ev: "evict_lru_chirho c = c\<lparr>pages_chirho := btree_remove k (pages_chirho c)\<rparr>"
    by (simp add: evict_lru_chirho_def)
  then have pg: "page_of (evict_lru_chirho c) = (page_of c)(k := None)"
    using map_of_filter_key [of "\<lambda>l. l \<noteq> k" "pages_chirho c"] by (simp add: btree_remove_def fun_eq_iff)
  have st: "stamp (evict_lru_chirho c) l = stamp c l" if "l \<in> set ks" for l
    using that dist pg by (auto simp: stamp_def)
  have "sorted_wrt (\<lambda>k l. stamp (evict_lru_chirho c) l < stamp (evict_lru_chirho c) k) ks"
    using ord st by (auto simp: sorted_wrt_append intro: sorted_wrt_mono_rel [of ks "\<lambda>k l. stamp c l < stamp c k"])
  moreover have "set ks = dom (page_of (evict_lru_chirho c))" using pg keys dist by auto
  moreover have "btree_ok (pages_chirho (evict_lru_chirho c))" using ev ok by (simp add: btree_remove_def btree_ok_filter)
  ultimately show ?thesis using pg dist le st ev by (auto simp: lru_order_def)
qed

text \<open>A key that gets the next stamp comes to the front.\<close>

lemma touch_front:
  assumes "lru_order c ks" "access_counter_chirho c < - 1"
    "btree_ok (pages_chirho c')" "access_counter_chirho c' = access_counter_chirho c + 1"
    "dom (page_of c') = insert k (set ks)" "stamp c' k = access_counter_chirho c + 1"
    "\<And>l. l \<noteq> k \<Longrightarrow> page_of c' l = page_of c l"
  shows "lru_order c' (k # remove1 k ks)"
proof -
  let ?n = "access_counter_chirho c"
  have up: "?n < ?n + 1" using assms(2) unat_Suc_word [of ?n] unfolding word_less_nat_alt by fastforce
  have dist: "distinct ks" and ord: "sorted_wrt (\<lambda>k l. stamp c l < stamp c k) ks" and le: "\<forall>k\<in>set ks. stamp c k \<le> ?n"
    using assms(1) by (simp_all add: lru_order_def)
  have st: "stamp c' l = stamp c l" if "l \<noteq> k" for l using assms(7) [OF that] by (simp add: stamp_def)
  have "sorted_wrt (\<lambda>k l. stamp c l < stamp c k) (remove1 k ks)"
    using ord sorted_wrt_filter dist by (metis distinct_remove1_removeAll removeAll_filter_not_eq)
  then have "sorted_wrt (\<lambda>k l. stamp c' l < stamp c' k) (remove1 k ks)"
    by (rule sorted_wrt_mono_rel [rotated]) (use st dist in \<open>auto simp: set_remove1_eq\<close>)
  moreover have "stamp c' l < stamp c' k" if "l \<in> set (remove1 k ks)" for l
  proof -
    have "l \<noteq> k" "l \<in> set ks" using that dist by (auto simp: set_remove1_eq)
    then show ?thesis using st le up assms(6) by (metis order_le_less_trans)
  qed
  moreover have "stamp c' l \<le> ?n + 1" if "l \<in> set ks" for l
    using calculation(2) [of l] that assms(6) dist by (cases "l = k") (auto simp: set_remove1_eq)
  ultimately show ?thesis
    using assms(3-6) dist by (auto simp: lru_order_def set_remove1_eq)
qed

section \<open>The abstract cache\<close>

text \<open>What the cache holds, without stamps.\<close>

definition contents :: "PageCacheChirho \<Rightarrow> page_key \<Rightarrow> bytes option" where
  "contents c k = map_option page_data_chirho (page_of c k)"

text \<open>The contract of an LRU cache: a representation by the keys in order of use and the
  data under them; a hit moves its key to the front, an insertion at capacity first drops
  the last key.  The representation may depend on a bound that each operation uses up (here
  the range of the access counter).\<close>

locale lru_cache =
  fixes lookup :: "'k \<Rightarrow> 'c \<Rightarrow> 'v option \<times> 'c" and store :: "'k \<Rightarrow> 'v \<Rightarrow> 'c \<Rightarrow> 'c"
    and rep :: "nat \<Rightarrow> 'c \<Rightarrow> 'k list \<Rightarrow> ('k \<rightharpoonup> 'v) \<Rightarrow> bool" and capacity :: "'c \<Rightarrow> nat"
  assumes rep_keys: "rep n c ks m \<Longrightarrow> distinct ks \<and> set ks = dom m"
    and lookup_rep: "rep (Suc n) c ks m \<Longrightarrow> lookup k c = (r, c') \<Longrightarrow>
      r = m k \<and> rep n c' (if k \<in> set ks then k # remove1 k ks else ks) m \<and> capacity c' = capacity c"
    and store_rep: "rep (Suc n) c ks m \<Longrightarrow>
      (let ks1 = (if capacity c \<le> length ks then butlast ks else ks); m1 = m |` set ks1 in
       rep n (store k v c) (k # remove1 k ks1) (m1(k \<mapsto> v)) \<and> capacity (store k v c) = capacity c)"
begin

lemma stored_is_found:
  assumes "rep (Suc (Suc n)) c ks m"
  shows "fst (lookup k (store k v c)) = Some v"
proof -
  obtain r c' where e: "lookup k (store k v c) = (r, c')" by (cases "lookup k (store k v c)")
  let ?ks1 = "if capacity c \<le> length ks then butlast ks else ks"
  have "rep (Suc n) (store k v c) (k # remove1 k ?ks1) ((m |` set ?ks1)(k \<mapsto> v))"
    using store_rep [OF assms, of k v] by (simp add: Let_def)
  then have "r = ((m |` set ?ks1)(k \<mapsto> v)) k" using lookup_rep [OF _ e] by blast
  then show ?thesis using e by simp
qed

text \<open>The cache never grows beyond its capacity.\<close>

lemma store_bounded:
  assumes "rep (Suc n) c ks m" "0 < capacity c" "length ks \<le> capacity c"
  shows "\<exists>ks' m'. rep n (store k v c) ks' m' \<and> length ks' \<le> capacity (store k v c)"
proof -
  let ?ks1 = "if capacity c \<le> length ks then butlast ks else ks"
  have "rep n (store k v c) (k # remove1 k ?ks1) ((m |` set ?ks1)(k \<mapsto> v)) \<and> capacity (store k v c) = capacity c"
    using store_rep [OF assms(1), of k v] by (simp add: Let_def)
  moreover have "length (k # remove1 k ?ks1) \<le> capacity c"
    using assms(2,3) by (cases ks) (auto simp: length_remove1 split: if_splits)
  ultimately show ?thesis by auto
qed

end

text \<open>Operations are told apart by what the counter has left.\<close>

definition lru_rep :: "nat \<Rightarrow> PageCacheChirho \<Rightarrow> page_key list \<Rightarrow> (page_key \<rightharpoonup> bytes) \<Rightarrow> bool" where
  "lru_rep n c ks m \<longleftrightarrow> lru_order c ks \<and> m = contents c \<and> unat (access_counter_chirho c) + n < 2 ^ 64 - 1"

definition cache_lookup :: "page_key \<Rightarrow> PageCacheChirho \<Rightarrow> bytes option \<times> PageCacheChirho" where
  "cache_lookup k = page_cache_get_chirho (fst k) (snd k)"

definition cache_store :: "page_key \<Rightarrow> bytes \<Rightarrow> PageCacheChirho \<Rightarrow> PageCacheChirho" where
  "cache_store k = page_cache_insert_chirho (fst k) (snd k)"

lemma counter_steps:
  assumes "unat (access_counter_chirho c) + Suc n < 2 ^ 64 - 1"
  shows "access_counter_chirho c < - 1" "unat (access_counter_chirho c + 1) + n < 2 ^ 64 - 1"
proof -
  show lt: "access_counter_chirho c < - 1"
    using assms unat_minus_one_word [where 'a = 64] by (simp add: word_less_nat_alt)
  then show "unat (access_counter_chirho c + 1) + n < 2 ^ 64 - 1"
    using assms unat_Suc_word [of "access_counter_chirho c"] by auto
qed

lemma get_miss: "page_of c k = None \<Longrightarrow>
  cache_lookup k c = (None, c\<lparr>access_counter_chirho := access_counter_chirho c + 1\<rparr>)"
  by (simp add: cache_lookup_def page_cache_get_chirho_def Let_def)

lemma get_hit: "page_of c k = Some p \<Longrightarrow>
  cache_lookup k c = (Some (page_data_chirho p), c\<lparr>access_counter_chirho := access_counter_chirho c + 1,
    pages_chirho := btree_modify k (\<lambda>p. p\<lparr>last_access_chirho := access_counter_chirho c + 1\<rparr>) (pages_chirho c)\<rparr>)"
  by (simp add: cache_lookup_def page_cache_get_chirho_def Let_def)

lemma lookup_refines:
  assumes "lru_rep (Suc n) c ks m" "cache_lookup k c = (r, c')"
  shows "r = m k \<and> lru_rep n c' (if k \<in> set ks then k # remove1 k ks else ks) m \<and>
    max_pages_chirho c' = max_pages_chirho c"
proof -
  have ord: "lru_order c ks" and m: "m = contents c"
    and cnt: "unat (access_counter_chirho c) + Suc n < 2 ^ 64 - 1" using assms(1) by (auto simp: lru_rep_def)
  have keys: "set ks = dom (page_of c)" using ord by (simp add: lru_order_def)
  note step = counter_steps [OF cnt]
  show ?thesis
  proof (cases "page_of c k")
    case None
    then have c': "r = None" "c' = c\<lparr>access_counter_chirho := access_counter_chirho c + 1\<rparr>"
      using assms(2) get_miss by auto
    have "access_counter_chirho c \<le> access_counter_chirho c + 1"
      using step(1) unat_Suc_word [of "access_counter_chirho c"] by (auto simp: word_le_nat_alt)
    then have "lru_order c' ks" using ord unfolding c'(2) lru_order_def stamp_def by (auto intro: order_trans)
    then show ?thesis using None keys c' m step(2) by (auto simp: lru_rep_def contents_def)
  next
    case (Some p)
    then have c': "r = Some (page_data_chirho p)" "c' = c\<lparr>access_counter_chirho := access_counter_chirho c + 1,
        pages_chirho := btree_modify k (\<lambda>p. p\<lparr>last_access_chirho := access_counter_chirho c + 1\<rparr>) (pages_chirho c)\<rparr>"
      using assms(2) get_hit [OF Some] by auto
    have pg: "page_of c' = (page_of c)(k \<mapsto> p\<lparr>last_access_chirho := access_counter_chirho c + 1\<rparr>)"
      using Some c'(2) by (auto simp: map_of_btree_modify fun_eq_iff)
    have kin: "k \<in> set ks" using keys Some by auto
    have "lru_order c' (k # remove1 k ks)"
      by (rule touch_front [OF ord step(1)])
        (use ord c' pg keys kin in \<open>auto simp: lru_order_def stamp_def\<close>)
    moreover have "contents c' = contents c" using pg Some by (auto simp: contents_def fun_eq_iff)
    ultimately show ?thesis using Some kin c' m step(2) by (auto simp: lru_rep_def contents_def)
  qed
qed

lemma evict_refines:
  assumes "lru_order c ks" "access_counter_chirho c < - 1"
  shows "lru_order (evict_lru_chirho c) (butlast ks) \<and> contents (evict_lru_chirho c) = contents c |` set (butlast ks)"
proof (cases ks rule: rev_cases)
  case Nil
  then have "pages_chirho c = []" using lru_order_empty [OF assms(1)] by simp
  then show ?thesis using Nil assms(1) by (simp add: evict_lru_chirho_def contents_def fun_eq_iff)
next
  case (snoc ks' k)
  then have o: "lru_order c (ks' @ [k])" using assms(1) by simp
  note e = evict_last [OF o assms(2)]
  have "set (ks' @ [k]) = dom (page_of c)" "k \<notin> set ks'" using o by (auto simp: lru_order_def)
  then have "contents (evict_lru_chirho c) = contents c |` set ks'"
    using e by (auto simp: contents_def restrict_map_def fun_eq_iff)
  then show ?thesis using e snoc by simp
qed

lemma evict_fields [simp]:
  "access_counter_chirho (evict_lru_chirho c) = access_counter_chirho c"
  "max_pages_chirho (evict_lru_chirho c) = max_pages_chirho c"
  by (simp_all add: evict_lru_chirho_def split: option.split)

lemma store_refines:
  assumes "lru_rep (Suc n) c ks m"
    and "ks1 = (if max_pages_chirho c \<le> length ks then butlast ks else ks)"
  shows "lru_rep n (cache_store k v c) (k # remove1 k ks1) ((m |` set ks1)(k \<mapsto> v)) \<and>
    max_pages_chirho (cache_store k v c) = max_pages_chirho c"
proof -
  have ord: "lru_order c ks" and m: "m = contents c"
    and cnt: "unat (access_counter_chirho c) + Suc n < 2 ^ 64 - 1" using assms(1) by (auto simp: lru_rep_def)
  note step = counter_steps [OF cnt]
  define c1 where "c1 = (if length (pages_chirho c) \<ge> max_pages_chirho c then evict_lru_chirho c else c)"
  have f1: "access_counter_chirho c1 = access_counter_chirho c" "max_pages_chirho c1 = max_pages_chirho c"
    by (simp_all add: c1_def)
  have dom: "dom (contents c) = set ks" using ord by (auto simp: lru_order_def contents_def)
  have "m |` set ks = m" using dom m by (intro ext) (metis domIff restrict_map_def)
  then have o1: "lru_order c1 ks1" and m1: "contents c1 = m |` set ks1"
    using evict_refines [OF ord step(1)] ord m lru_order_length [OF ord] assms(2) by (auto simp: c1_def)
  let ?p = "\<lparr>page_data_chirho = v, last_access_chirho = access_counter_chirho c1 + 1, dirty_chirho = False\<rparr>"
  let ?c' = "cache_store k v c"
  have c': "?c' = c1\<lparr>access_counter_chirho := access_counter_chirho c1 + 1, pages_chirho := btree_insert k ?p (pages_chirho c1)\<rparr>"
    by (simp add: cache_store_def page_cache_insert_chirho_def Let_def c1_def)
  have ok: "btree_ok (pages_chirho c1)" and keys: "dom (page_of c1) = set ks1" using o1 by (auto simp: lru_order_def)
  have pg: "page_of ?c' = (page_of c1)(k \<mapsto> ?p)" using c' map_of_btree_insert [OF ok] by simp
  have "lru_order ?c' (k # remove1 k ks1)"
    by (rule touch_front [OF o1])
      (use step(1) f1 btree_ok_insert [OF ok] c' pg keys in \<open>auto simp: stamp_def\<close>)
  moreover have "contents ?c' = (m |` set ks1)(k \<mapsto> v)" using pg m1 by (auto simp: contents_def fun_eq_iff)
  ultimately show ?thesis using step(2) f1 c' by (simp add: lru_rep_def)
qed

interpretation pc: lru_cache cache_lookup cache_store lru_rep max_pages_chirho
proof
  show "distinct ks \<and> set ks = dom m" if "lru_rep n c ks m" for n c ks m
    using that by (auto simp: lru_rep_def lru_order_def contents_def)
qed (use lookup_refines store_refines in \<open>auto simp: Let_def\<close>)

section \<open>Sequences of operations\<close>

datatype cache_op = Op_Get page_key | Op_Insert page_key bytes

fun cache_run :: "PageCacheChirho \<Rightarrow> cache_op list \<Rightarrow> bytes option list \<times> PageCacheChirho" where
  "cache_run c [] = ([], c)"
| "cache_run c (Op_Get k # ops) =
     (case page_cache_get_chirho (fst k) (snd k) c of (r, c1) \<Rightarrow>
        case cache_run c1 ops of (rs, c2) \<Rightarrow> (r # rs, c2))"
| "cache_run c (Op_Insert k v # ops) = cache_run (page_cache_insert_chirho (fst k) (snd k) v c) ops"

text \<open>The abstract cache of capacity \<^verbatim>\<open>cap\<close>.\<close>

fun lru_run :: "nat \<Rightarrow> page_key list \<times> (page_key \<rightharpoonup> bytes) \<Rightarrow> cache_op list \<Rightarrow> bytes option list \<times> page_key list" where
  "lru_run cap (ks, m) [] = ([], ks)"
| "lru_run cap (ks, m) (Op_Get k # ops) =
     (case lru_run cap (if k \<in> set ks then k # remove1 k ks else ks, m) ops of (rs, ks') \<Rightarrow> (m k # rs, ks'))"
| "lru_run cap (ks, m) (Op_Insert k v # ops) =
     (let ks1 = (if cap \<le> length ks then butlast ks else ks)
      in lru_run cap (k # remove1 k ks1, (m |` set ks1)(k \<mapsto> v)) ops)"

lemma cache_run_refines:
  assumes "lru_rep (length ops) c ks m" "length ks \<le> max_pages_chirho c" "0 < max_pages_chirho c"
  shows "\<exists>ks' c'. lru_run (max_pages_chirho c) (ks, m) ops = (fst (cache_run c ops), ks') \<and>
    snd (cache_run c ops) = c' \<and> lru_order c' ks' \<and> length ks' \<le> max_pages_chirho c"
  using assms
proof (induction ops arbitrary: c ks m)
  case Nil
  then show ?case by (simp add: lru_rep_def)
next
  case (Cons op ops)
  have len: "lru_rep (Suc (length ops)) c ks m" using Cons.prems(1) by simp
  show ?case
  proof (cases op)
    case (Op_Get k)
    obtain r c1 where g: "cache_lookup k c = (r, c1)" by (cases "cache_lookup k c")
    let ?ks = "if k \<in> set ks then k # remove1 k ks else ks"
    have st: "r = m k" "lru_rep (length ops) c1 ?ks m" "max_pages_chirho c1 = max_pages_chirho c"
      using lookup_refines [OF len g] by auto
    have "length ?ks = length ks" by (simp add: length_remove1) (metis Suc_pred length_pos_if_in_set)
    then obtain ks' where "lru_run (max_pages_chirho c) (?ks, m) ops = (fst (cache_run c1 ops), ks')"
      "lru_order (snd (cache_run c1 ops)) ks'" "length ks' \<le> max_pages_chirho c"
      using Cons.IH [OF st(2)] st(3) Cons.prems(2,3) by auto
    then show ?thesis using Op_Get g st(1) by (auto simp: cache_lookup_def split: prod.splits)
  next
    case (Op_Insert k v)
    define ks1 where "ks1 = (if max_pages_chirho c \<le> length ks then butlast ks else ks)"
    have st: "lru_rep (length ops) (cache_store k v c) (k # remove1 k ks1) ((m |` set ks1)(k \<mapsto> v))"
      "max_pages_chirho (cache_store k v c) = max_pages_chirho c"
      using store_refines [OF len ks1_def] by blast+
    have "length (k # remove1 k ks1) \<le> max_pages_chirho c"
      using Cons.prems(2,3) by (cases ks) (auto simp: length_remove1 ks1_def)
    then obtain ks' where "lru_run (max_pages_chirho c) (k # remove1 k ks1, (m |` set ks1)(k \<mapsto> v)) ops =
        (fst (cache_run (cache_store k v c) ops), ks')"
      "lru_order (snd (cache_run (cache_store k v c) ops)) ks'" "length ks' \<le> max_pages_chirho c"
      using Cons.IH [OF st(1), unfolded st(2), OF _ Cons.prems(3)] by blast
    then show ?thesis unfolding Op_Insert lru_run.simps ks1_def [symmetric] Let_def by (simp add: cache_store_def)
  qed
qed

lemma new_cache_rep: "n < 2 ^ 64 - 1 \<Longrightarrow> lru_rep n (page_cache_new_chirho cap) [] Map.empty"
  by (simp add: lru_rep_def lru_order_def page_cache_new_chirho_def contents_def fun_eq_iff btree_ok_def)

text \<open>C40. The block cache is an LRU cache.  Over any sequence of lookups and insertions on a
  new cache of capacity \<^verbatim>\<open>cap > 0\<close> (fewer than the access counter can count), every lookup
  returns what an abstract LRU cache of that capacity returns, the cache holds exactly the
  keys of the abstract one, and never more than \<^verbatim>\<open>cap\<close> pages.\<close>

theorem page_cache_is_lru:
  assumes "0 < cap" "length ops < 2 ^ 64 - 1"
  shows "\<exists>ks. lru_run cap ([], Map.empty) ops = (fst (cache_run (page_cache_new_chirho cap) ops), ks) \<and>
    set ks = dom (page_of (snd (cache_run (page_cache_new_chirho cap) ops))) \<and>
    page_cache_len_chirho (snd (cache_run (page_cache_new_chirho cap) ops)) \<le> cap"
proof -
  obtain ks where "lru_run cap ([], Map.empty) ops = (fst (cache_run (page_cache_new_chirho cap) ops), ks)"
    and o: "lru_order (snd (cache_run (page_cache_new_chirho cap) ops)) ks" and "length ks \<le> cap"
    using cache_run_refines [OF new_cache_rep [OF assms(2), of cap]] assms(1)
    by (auto simp: page_cache_new_chirho_def)
  moreover have "set ks = dom (page_of (snd (cache_run (page_cache_new_chirho cap) ops)))"
    using o by (simp add: lru_order_def)
  ultimately show ?thesis using lru_order_length [OF o] by (auto simp: page_cache_len_chirho_def)
qed

theorem page_cache_is_lru_witness:
  "let ops = [Op_Insert (1, 10) [7], Op_Insert (1, 11) [8], Op_Get (1, 10), Op_Insert (1, 12) [9], Op_Get (1, 11), Op_Get (1, 10)] in
   fst (cache_run (page_cache_new_chirho 2) ops) = [Some [7], None, Some [7]] \<and>
   (\<exists>ks. lru_run 2 ([], Map.empty) ops = (fst (cache_run (page_cache_new_chirho 2) ops), ks) \<and>
    set ks = dom (page_of (snd (cache_run (page_cache_new_chirho 2) ops))) \<and>
    page_cache_len_chirho (snd (cache_run (page_cache_new_chirho 2) ops)) \<le> 2)"
proof -
  let ?ops = "[Op_Insert (1, 10) [7], Op_Insert (1, 11) [8], Op_Get (1, 10), Op_Insert (1, 12) [9], Op_Get (1, 11), Op_Get (1, 10)]"
  have "fst (cache_run (page_cache_new_chirho 2) ?ops) = [Some [7], None, Some [7]]" by code_simp
  moreover have "\<exists>ks. lru_run 2 ([], Map.empty) ?ops = (fst (cache_run (page_cache_new_chirho 2) ?ops), ks) \<and>
    set ks = dom (page_of (snd (cache_run (page_cache_new_chirho 2) ?ops))) \<and>
    page_cache_len_chirho (snd (cache_run (page_cache_new_chirho 2) ?ops)) \<le> 2"
    by (rule page_cache_is_lru) simp_all
  ultimately show ?thesis by (simp only: Let_def)
qed

end
