(* ===== verification/Ext4_Disk.thy ===== *)
theory Ext4_Disk
  imports Page_Cache Extent_Tree
begin

text \<open>
  The disk layer of \<^verbatim>\<open>fs_chirho/ext4_chirho.rs\<close>: superblock, group descriptors and inodes as
  they lie on disk, blocks read and written through the page cache, and inodes in their
  tables.  Functions with a \<^verbatim>\<open>Result\<close> or an \<^verbatim>\<open>Option\<close> are programs of a state and error monad
  (an \<^verbatim>\<open>Option\<close> has the unit as its error); a block device is a function from sectors to
  512 bytes with a predicate for sectors whose access fails.

  The programs above the block layer take the block operations as an argument.  The
  code's operations go through the cache; a second instance works on a plain map from
  block numbers to contents.  Whatever is built from them behaves the same on both
  (\<^verbatim>\<open>implements\<close>), so the rest of the file system is reasoned about on plain blocks.
\<close>

section \<open>Programs\<close>

type_synonym ('s, 'e, 'a) io = "'s \<Rightarrow> ('e + 'a) \<times> 's"

definition ret :: "'a \<Rightarrow> ('s, 'e, 'a) io" where "ret x s = (Inr x, s)"

definition fail :: "'e \<Rightarrow> ('s, 'e, 'a) io" where "fail e s = (Inl e, s)"

definition bindE :: "('s, 'e, 'a) io \<Rightarrow> ('a \<Rightarrow> ('s, 'e, 'b) io) \<Rightarrow> ('s, 'e, 'b) io" where
  "bindE m f s = (case m s of (Inl e, s1) \<Rightarrow> (Inl e, s1) | (Inr x, s1) \<Rightarrow> f x s1)"

definition ok_or :: "('s, unit, 'a) io \<Rightarrow> 'e \<Rightarrow> ('s, 'e, 'a) io" where
  "ok_or m e s = (case m s of (Inl _, s1) \<Rightarrow> (Inl e, s1) | (Inr x, s1) \<Rightarrow> (Inr x, s1))"

text \<open>A failed read that the caller skips.\<close>

definition or_else :: "('s, unit, 'a) io \<Rightarrow> 'a \<Rightarrow> ('s, 'e, 'a) io" where
  "or_else m d s = (case m s of (Inl _, s1) \<Rightarrow> (Inr d, s1) | (Inr x, s1) \<Rightarrow> (Inr x, s1))"

datatype Ext4ErrorChirho = IoErrorChirho | CorruptSuperblockChirho | CorruptInodeChirho | CorruptDirEntryChirho
  | InvalidExtentChirho | UnsupportedFeatureChirho bytes | NotFoundChirho | AlreadyExistsChirho
  | NotDirectoryChirho | NotSymlinkChirho | Ext4ReadOnlyChirho | NoSpaceChirho

fun to_errno_chirho :: "Ext4ErrorChirho \<Rightarrow> i64" where
  "to_errno_chirho IoErrorChirho = - 5"
| "to_errno_chirho CorruptSuperblockChirho = - 5"
| "to_errno_chirho CorruptInodeChirho = - 5"
| "to_errno_chirho CorruptDirEntryChirho = - 5"
| "to_errno_chirho InvalidExtentChirho = - 5"
| "to_errno_chirho (UnsupportedFeatureChirho _) = - 95"
| "to_errno_chirho NotFoundChirho = - 2"
| "to_errno_chirho AlreadyExistsChirho = - 17"
| "to_errno_chirho NotDirectoryChirho = - 20"
| "to_errno_chirho NotSymlinkChirho = - 22"
| "to_errno_chirho Ext4ReadOnlyChirho = - 30"
| "to_errno_chirho NoSpaceChirho = - 28"

datatype MountModeChirho = MountReadOnlyChirho | MountReadWriteChirho

section \<open>Structures on disk\<close>

definition u8_at :: "bytes \<Rightarrow> nat \<Rightarrow> u8" where "u8_at bs off = of_nat (le_nat (take 1 (drop off bs)))"
definition u16_at :: "bytes \<Rightarrow> nat \<Rightarrow> u16" where "u16_at bs off = of_nat (le_nat (take 2 (drop off bs)))"
definition u32_at :: "bytes \<Rightarrow> nat \<Rightarrow> u32" where "u32_at bs off = of_nat (le_nat (take 4 (drop off bs)))"

text \<open>The fields of the superblock that the code reads.\<close>

record Ext4SuperblockChirho =
  s_inodes_count_chirho :: u32
  s_blocks_count_lo_chirho :: u32
  s_free_blocks_count_lo_chirho :: u32
  s_first_data_block_chirho :: u32
  s_log_block_size_chirho :: u32
  s_blocks_per_group_chirho :: u32
  s_inodes_per_group_chirho :: u32
  s_magic_chirho :: u16
  s_rev_level_chirho :: u32
  s_inode_size_chirho :: u16
  s_feature_compat_chirho :: u32
  s_feature_incompat_chirho :: u32
  s_desc_size_chirho :: u16
  s_blocks_count_hi_chirho :: u32
  s_free_blocks_count_hi_chirho :: u32

definition EXT4_MAGIC_CHIRHO :: u16 where "EXT4_MAGIC_CHIRHO = 0xEF53"
definition BLOCK_SIZE_BASE_CHIRHO :: u32 where "BLOCK_SIZE_BASE_CHIRHO = 1024"
definition COMPAT_HAS_JOURNAL_CHIRHO :: u32 where "COMPAT_HAS_JOURNAL_CHIRHO = 0x0004"
definition INCOMPAT_EXTENTS_CHIRHO :: u32 where "INCOMPAT_EXTENTS_CHIRHO = 0x0040"
definition INCOMPAT_64BIT_CHIRHO :: u32 where "INCOMPAT_64BIT_CHIRHO = 0x0080"
definition EXT4_ROOT_INO_CHIRHO :: u32 where "EXT4_ROOT_INO_CHIRHO = 2"
definition EXT4_GOOD_OLD_INODE_SIZE_CHIRHO :: u16 where "EXT4_GOOD_OLD_INODE_SIZE_CHIRHO = 128"
definition FT_REG_FILE_CHIRHO :: u8 where "FT_REG_FILE_CHIRHO = 1"
definition S_IFMT_CHIRHO :: u16 where "S_IFMT_CHIRHO = 0xF000"
definition S_IFREG_CHIRHO :: u16 where "S_IFREG_CHIRHO = 0x8000"
definition S_IFDIR_CHIRHO :: u16 where "S_IFDIR_CHIRHO = 0x4000"
definition S_IFLNK_CHIRHO :: u16 where "S_IFLNK_CHIRHO = 0xA000"
definition EXT4_EXT_MAGIC_CHIRHO :: u16 where "EXT4_EXT_MAGIC_CHIRHO = 0xF30A"

definition sb_is_valid_chirho :: "Ext4SuperblockChirho \<Rightarrow> bool" where
  "sb_is_valid_chirho sb \<longleftrightarrow> s_magic_chirho sb = EXT4_MAGIC_CHIRHO"

text \<open>The shift wraps its count to 32 bits, as Rust's does in release builds.\<close>

definition sb_block_size_chirho :: "Ext4SuperblockChirho \<Rightarrow> u32" where
  "sb_block_size_chirho sb = push_bit (unat (s_log_block_size_chirho sb) mod 32) BLOCK_SIZE_BASE_CHIRHO"

definition total_blocks_chirho :: "Ext4SuperblockChirho \<Rightarrow> u64" where
  "total_blocks_chirho sb = ucast (s_blocks_count_lo_chirho sb) OR push_bit 32 (ucast (s_blocks_count_hi_chirho sb))"

definition free_blocks_chirho :: "Ext4SuperblockChirho \<Rightarrow> u64" where
  "free_blocks_chirho sb = ucast (s_free_blocks_count_lo_chirho sb) OR push_bit 32 (ucast (s_free_blocks_count_hi_chirho sb))"

definition block_group_count_chirho :: "Ext4SuperblockChirho \<Rightarrow> u32" where
  "block_group_count_chirho sb = (let per_group = ucast (s_blocks_per_group_chirho sb)
     in ucast ((total_blocks_chirho sb + per_group - 1) div per_group))"

definition has_extents_chirho :: "Ext4SuperblockChirho \<Rightarrow> bool" where
  "has_extents_chirho sb \<longleftrightarrow> s_feature_incompat_chirho sb AND INCOMPAT_EXTENTS_CHIRHO \<noteq> 0"

definition has_64bit_chirho :: "Ext4SuperblockChirho \<Rightarrow> bool" where
  "has_64bit_chirho sb \<longleftrightarrow> s_feature_incompat_chirho sb AND INCOMPAT_64BIT_CHIRHO \<noteq> 0"

definition has_journal_chirho :: "Ext4SuperblockChirho \<Rightarrow> bool" where
  "has_journal_chirho sb \<longleftrightarrow> s_feature_compat_chirho sb AND COMPAT_HAS_JOURNAL_CHIRHO \<noteq> 0"

definition group_desc_size_chirho :: "Ext4SuperblockChirho \<Rightarrow> u32" where
  "group_desc_size_chirho sb =
     (if s_feature_incompat_chirho sb AND INCOMPAT_64BIT_CHIRHO \<noteq> 0 \<and> s_desc_size_chirho sb \<ge> 64
      then ucast (s_desc_size_chirho sb) else 32)"

definition inode_size_chirho :: "Ext4SuperblockChirho \<Rightarrow> u32" where
  "inode_size_chirho sb = (if s_rev_level_chirho sb > 0 \<and> s_inode_size_chirho sb > 0
     then ucast (s_inode_size_chirho sb) else ucast EXT4_GOOD_OLD_INODE_SIZE_CHIRHO)"

text \<open>The packed structure has 356 bytes; the offsets are those of its fields.\<close>

definition parse_superblock_chirho :: "bytes \<Rightarrow> Ext4SuperblockChirho option" where
  "parse_superblock_chirho d =
     (if length d < 356 then None
      else let sb = \<lparr>s_inodes_count_chirho = u32_at d 0, s_blocks_count_lo_chirho = u32_at d 4,
             s_free_blocks_count_lo_chirho = u32_at d 12, s_first_data_block_chirho = u32_at d 20,
             s_log_block_size_chirho = u32_at d 24, s_blocks_per_group_chirho = u32_at d 32,
             s_inodes_per_group_chirho = u32_at d 40, s_magic_chirho = u16_at d 56,
             s_rev_level_chirho = u32_at d 76, s_inode_size_chirho = u16_at d 88,
             s_feature_compat_chirho = u32_at d 92, s_feature_incompat_chirho = u32_at d 96,
             s_desc_size_chirho = u16_at d 254, s_blocks_count_hi_chirho = u32_at d 336,
             s_free_blocks_count_hi_chirho = u32_at d 344\<rparr>
        in if sb_is_valid_chirho sb then Some sb else None)"

record Ext4GroupDescChirho =
  bg_block_bitmap_lo_chirho :: u32
  bg_inode_bitmap_lo_chirho :: u32
  bg_inode_table_lo_chirho :: u32
  bg_free_blocks_count_lo_chirho :: u16
  bg_free_inodes_count_lo_chirho :: u16
  bg_block_bitmap_hi_chirho :: u32
  bg_inode_bitmap_hi_chirho :: u32
  bg_inode_table_hi_chirho :: u32
  bg_free_blocks_count_hi_chirho :: u16
  bg_free_inodes_count_hi_chirho :: u16

definition lo_hi :: "bool \<Rightarrow> u32 \<Rightarrow> u32 \<Rightarrow> u64" where
  "lo_hi wide lo hi = (if wide then ucast lo OR push_bit 32 (ucast hi) else ucast lo)"

definition block_bitmap_chirho :: "bool \<Rightarrow> Ext4GroupDescChirho \<Rightarrow> u64" where
  "block_bitmap_chirho wide gd = lo_hi wide (bg_block_bitmap_lo_chirho gd) (bg_block_bitmap_hi_chirho gd)"

definition inode_bitmap_chirho :: "bool \<Rightarrow> Ext4GroupDescChirho \<Rightarrow> u64" where
  "inode_bitmap_chirho wide gd = lo_hi wide (bg_inode_bitmap_lo_chirho gd) (bg_inode_bitmap_hi_chirho gd)"

definition inode_table_chirho :: "bool \<Rightarrow> Ext4GroupDescChirho \<Rightarrow> u64" where
  "inode_table_chirho wide gd = lo_hi wide (bg_inode_table_lo_chirho gd) (bg_inode_table_hi_chirho gd)"

definition free_blocks_count_chirho :: "bool \<Rightarrow> Ext4GroupDescChirho \<Rightarrow> u32" where
  "free_blocks_count_chirho wide gd = (if wide
     then ucast (bg_free_blocks_count_lo_chirho gd) OR push_bit 16 (ucast (bg_free_blocks_count_hi_chirho gd))
     else ucast (bg_free_blocks_count_lo_chirho gd))"

definition free_inodes_count_chirho :: "bool \<Rightarrow> Ext4GroupDescChirho \<Rightarrow> u32" where
  "free_inodes_count_chirho wide gd = (if wide
     then ucast (bg_free_inodes_count_lo_chirho gd) OR push_bit 16 (ucast (bg_free_inodes_count_hi_chirho gd))
     else ucast (bg_free_inodes_count_lo_chirho gd))"

text \<open>A descriptor is always read as 64 bytes, also when only 32 are left; \<^verbatim>\<open>after\<close> is what
  follows the buffer in memory.\<close>

definition group_desc_at :: "bytes \<Rightarrow> nat \<Rightarrow> Ext4GroupDescChirho" where
  "group_desc_at d off = \<lparr>bg_block_bitmap_lo_chirho = u32_at d off, bg_inode_bitmap_lo_chirho = u32_at d (off + 4),
     bg_inode_table_lo_chirho = u32_at d (off + 8), bg_free_blocks_count_lo_chirho = u16_at d (off + 12),
     bg_free_inodes_count_lo_chirho = u16_at d (off + 14), bg_block_bitmap_hi_chirho = u32_at d (off + 32),
     bg_inode_bitmap_hi_chirho = u32_at d (off + 36), bg_inode_table_hi_chirho = u32_at d (off + 40),
     bg_free_blocks_count_hi_chirho = u16_at d (off + 44), bg_free_inodes_count_hi_chirho = u16_at d (off + 46)\<rparr>"

definition parse_group_descs_chirho :: "bytes \<Rightarrow> bytes \<Rightarrow> u32 \<Rightarrow> u32 \<Rightarrow> Ext4GroupDescChirho list" where
  "parse_group_descs_chirho d after n desc_size =
     map (\<lambda>i. group_desc_at (d @ after) (i * unat desc_size))
       (takeWhile (\<lambda>i. i * unat desc_size + 32 \<le> length d) [0..<unat n])"

record Ext4InodeChirho =
  i_mode_chirho :: u16
  i_uid_chirho :: u16
  i_size_lo_chirho :: u32
  i_atime_chirho :: u32
  i_ctime_chirho :: u32
  i_mtime_chirho :: u32
  i_dtime_chirho :: u32
  i_gid_chirho :: u16
  i_links_count_chirho :: u16
  i_blocks_lo_chirho :: u32
  i_flags_chirho :: u32
  i_osd1_chirho :: u32
  i_block_chirho :: "u32 list"
  i_generation_chirho :: u32
  i_file_acl_lo_chirho :: u32
  i_size_high_chirho :: u32
  i_obso_faddr_chirho :: u32
  i_osd2_chirho :: bytes

definition inode_bytes :: "Ext4InodeChirho \<Rightarrow> bytes" where
  "inode_bytes i = le_bytes 2 (unat (i_mode_chirho i)) @ le_bytes 2 (unat (i_uid_chirho i)) @
     le_bytes 4 (unat (i_size_lo_chirho i)) @ le_bytes 4 (unat (i_atime_chirho i)) @
     le_bytes 4 (unat (i_ctime_chirho i)) @ le_bytes 4 (unat (i_mtime_chirho i)) @
     le_bytes 4 (unat (i_dtime_chirho i)) @ le_bytes 2 (unat (i_gid_chirho i)) @
     le_bytes 2 (unat (i_links_count_chirho i)) @ le_bytes 4 (unat (i_blocks_lo_chirho i)) @
     le_bytes 4 (unat (i_flags_chirho i)) @ le_bytes 4 (unat (i_osd1_chirho i)) @
     concat (map (\<lambda>w. le_bytes 4 (unat w)) (i_block_chirho i)) @
     le_bytes 4 (unat (i_generation_chirho i)) @ le_bytes 4 (unat (i_file_acl_lo_chirho i)) @
     le_bytes 4 (unat (i_size_high_chirho i)) @ le_bytes 4 (unat (i_obso_faddr_chirho i)) @ i_osd2_chirho i"

definition inode_at :: "bytes \<Rightarrow> nat \<Rightarrow> Ext4InodeChirho" where
  "inode_at d off = \<lparr>i_mode_chirho = u16_at d off, i_uid_chirho = u16_at d (off + 2), i_size_lo_chirho = u32_at d (off + 4),
     i_atime_chirho = u32_at d (off + 8), i_ctime_chirho = u32_at d (off + 12), i_mtime_chirho = u32_at d (off + 16),
     i_dtime_chirho = u32_at d (off + 20), i_gid_chirho = u16_at d (off + 24), i_links_count_chirho = u16_at d (off + 26),
     i_blocks_lo_chirho = u32_at d (off + 28), i_flags_chirho = u32_at d (off + 32), i_osd1_chirho = u32_at d (off + 36),
     i_block_chirho = map (\<lambda>k. u32_at d (off + 40 + 4 * k)) [0..<15], i_generation_chirho = u32_at d (off + 100),
     i_file_acl_lo_chirho = u32_at d (off + 104), i_size_high_chirho = u32_at d (off + 108),
     i_obso_faddr_chirho = u32_at d (off + 112), i_osd2_chirho = take 12 (drop (off + 116) d)\<rparr>"

definition size_chirho :: "Ext4InodeChirho \<Rightarrow> u64" where
  "size_chirho i = ucast (i_size_lo_chirho i) OR push_bit 32 (ucast (i_size_high_chirho i))"

definition is_file_chirho :: "Ext4InodeChirho \<Rightarrow> bool" where
  "is_file_chirho i \<longleftrightarrow> i_mode_chirho i AND S_IFMT_CHIRHO = S_IFREG_CHIRHO"

definition is_dir_chirho :: "Ext4InodeChirho \<Rightarrow> bool" where
  "is_dir_chirho i \<longleftrightarrow> i_mode_chirho i AND S_IFMT_CHIRHO = S_IFDIR_CHIRHO"

definition is_symlink_chirho :: "Ext4InodeChirho \<Rightarrow> bool" where
  "is_symlink_chirho i \<longleftrightarrow> i_mode_chirho i AND S_IFMT_CHIRHO = S_IFLNK_CHIRHO"

definition uses_extents_chirho :: "Ext4InodeChirho \<Rightarrow> bool" where
  "uses_extents_chirho i \<longleftrightarrow> i_flags_chirho i AND 0x00080000 \<noteq> 0"

text \<open>The block words of the inode as 60 bytes, and the header in the first 12.\<close>

definition block_bytes :: "Ext4InodeChirho \<Rightarrow> bytes" where
  "block_bytes i = concat (map (\<lambda>w. le_bytes 4 (unat w)) (i_block_chirho i))"

record Ext4ExtentHeaderChirho =
  eh_magic_chirho :: u16
  eh_entries_chirho :: u16
  eh_max_chirho :: u16
  eh_depth_chirho :: u16
  eh_generation_chirho :: u32

definition extent_header_at :: "bytes \<Rightarrow> Ext4ExtentHeaderChirho" where
  "extent_header_at d = \<lparr>eh_magic_chirho = u16_at d 0, eh_entries_chirho = u16_at d 2, eh_max_chirho = u16_at d 4,
     eh_depth_chirho = u16_at d 6, eh_generation_chirho = u32_at d 8\<rparr>"

definition extent_header_chirho :: "Ext4InodeChirho \<Rightarrow> Ext4ExtentHeaderChirho" where
  "extent_header_chirho i = extent_header_at (block_bytes i)"

definition header_is_valid_chirho :: "Ext4ExtentHeaderChirho \<Rightarrow> bool" where
  "header_is_valid_chirho h \<longleftrightarrow> eh_magic_chirho h = EXT4_EXT_MAGIC_CHIRHO"

text \<open>Physical start and length of the extent at an offset, and the child of an index entry.\<close>

definition physical_block_chirho :: "bytes \<Rightarrow> nat \<Rightarrow> u64" where
  "physical_block_chirho d off = ucast (u32_at d (off + 8)) OR push_bit 32 (ucast (u16_at d (off + 6)))"

definition extent_block_count_chirho :: "bytes \<Rightarrow> nat \<Rightarrow> u32" where
  "extent_block_count_chirho d off = ucast (u16_at d (off + 4) AND 0x7FFF)"

definition child_block_chirho :: "bytes \<Rightarrow> nat \<Rightarrow> u64" where
  "child_block_chirho d off = ucast (u32_at d (off + 4)) OR push_bit 32 (ucast (u16_at d (off + 8)))"

definition inode_to_group_chirho :: "u32 \<Rightarrow> u32 \<Rightarrow> u32 \<times> u32" where
  "inode_to_group_chirho ino per_group = ((ino - 1) div per_group, (ino - 1) mod per_group)"

definition inode_table_offset_chirho :: "u32 \<Rightarrow> u32 \<Rightarrow> u64" where
  "inode_table_offset_chirho local_index isize = ucast local_index * ucast isize"

section \<open>The mounted file system and its blocks\<close>

record Ext4MountChirho =
  sb_chirho :: Ext4SuperblockChirho
  group_descs_chirho :: "Ext4GroupDescChirho list"
  block_size_chirho :: u32
  device_id_chirho :: u32
  mode_chirho :: MountModeChirho

record ext4_state =
  sectors :: "u64 \<Rightarrow> bytes"
  bad_sector :: "u64 \<Rightarrow> bool"
  PAGE_CACHE_CHIRHO :: PageCacheChirho

definition bs :: "Ext4MountChirho \<Rightarrow> nat" where "bs M = unat (block_size_chirho M)"

definition start_sector :: "Ext4MountChirho \<Rightarrow> u64 \<Rightarrow> u64" where
  "start_sector M b = b * of_nat (bs M div 512)"

text \<open>A read of several sectors in one request.\<close>

definition read_sectors :: "u64 \<Rightarrow> nat \<Rightarrow> ext4_state \<Rightarrow> bytes option" where
  "read_sectors start n st = (if list_ex (\<lambda>i. bad_sector st (start + of_nat i)) [0..<n] then None
     else Some (concat (map (\<lambda>i. sectors st (start + of_nat i)) [0..<n])))"

definition read_block_cached_chirho :: "Ext4MountChirho \<Rightarrow> u64 \<Rightarrow> (ext4_state, unit, bytes) io" where
  "read_block_cached_chirho M b st =
     (case page_cache_get_chirho (device_id_chirho M) b (PAGE_CACHE_CHIRHO st) of
        (Some d, c) \<Rightarrow> (Inr d, st\<lparr>PAGE_CACHE_CHIRHO := c\<rparr>)
      | (None, c) \<Rightarrow>
          (case read_sectors (start_sector M b) (bs M div 512) st of
             None \<Rightarrow> (Inl (), st\<lparr>PAGE_CACHE_CHIRHO := c\<rparr>)
           | Some buf \<Rightarrow> (Inr buf, st\<lparr>PAGE_CACHE_CHIRHO := page_cache_insert_chirho (device_id_chirho M) b buf c\<rparr>)))"

text \<open>The variant that fills a buffer of \<^verbatim>\<open>len\<close> bytes returns what it copied; a miss with a
  short buffer reads, and caches, only that much.\<close>

definition read_block_into_chirho :: "Ext4MountChirho \<Rightarrow> u64 \<Rightarrow> nat \<Rightarrow> (ext4_state, unit, bytes) io" where
  "read_block_into_chirho M b len st =
     (case page_cache_get_chirho (device_id_chirho M) b (PAGE_CACHE_CHIRHO st) of
        (Some d, c) \<Rightarrow> (Inr (take len d), st\<lparr>PAGE_CACHE_CHIRHO := c\<rparr>)
      | (None, c) \<Rightarrow>
          (let n = min (bs M) len in
           case read_sectors (start_sector M b) ((n + 511) div 512) st of
             None \<Rightarrow> (Inl (), st\<lparr>PAGE_CACHE_CHIRHO := c\<rparr>)
           | Some buf \<Rightarrow> (Inr (take n buf),
               st\<lparr>PAGE_CACHE_CHIRHO := page_cache_insert_chirho (device_id_chirho M) b (take n buf) c\<rparr>)))"

fun write_sectors :: "u64 \<Rightarrow> nat \<Rightarrow> nat \<Rightarrow> bytes \<Rightarrow> (ext4_state, Ext4ErrorChirho, unit) io" where
  "write_sectors start i 0 d st = (Inr (), st)"
| "write_sectors start i (Suc n) d st =
     (let s = start + of_nat i in
      if bad_sector st s then (Inl IoErrorChirho, st)
      else write_sectors start (Suc i) n d (st\<lparr>sectors := (sectors st)(s := take 512 (drop (i * 512) d))\<rparr>))"

definition write_block_chirho :: "Ext4MountChirho \<Rightarrow> u64 \<Rightarrow> bytes \<Rightarrow> (ext4_state, Ext4ErrorChirho, unit) io" where
  "write_block_chirho M b d st =
     (if mode_chirho M = MountReadOnlyChirho then (Inl Ext4ReadOnlyChirho, st)
      else if length d \<noteq> bs M then (Inl IoErrorChirho, st)
      else case write_sectors (start_sector M b) 0 (bs M div 512) d st of
             (Inl e, st1) \<Rightarrow> (Inl e, st1)
           | (Inr _, st1) \<Rightarrow> (Inr (), st1\<lparr>PAGE_CACHE_CHIRHO :=
               page_cache_insert_chirho (device_id_chirho M) b d (PAGE_CACHE_CHIRHO st1)\<rparr>))"

text \<open>The block operations the rest of the file system is built on.\<close>

record 's block_ops =
  rd :: "u64 \<Rightarrow> ('s, unit, bytes) io"
  rd_into :: "u64 \<Rightarrow> nat \<Rightarrow> ('s, unit, bytes) io"
  wr :: "u64 \<Rightarrow> bytes \<Rightarrow> ('s, Ext4ErrorChirho, unit) io"

definition cached_ops :: "Ext4MountChirho \<Rightarrow> ext4_state block_ops" where
  "cached_ops M = \<lparr>rd = read_block_cached_chirho M, rd_into = read_block_into_chirho M, wr = write_block_chirho M\<rparr>"

section \<open>Inodes in their tables\<close>

definition inode_block :: "Ext4MountChirho \<Rightarrow> u32 \<Rightarrow> u64" where
  "inode_block M ino = (case inode_to_group_chirho ino (s_inodes_per_group_chirho (sb_chirho M)) of (g, l) \<Rightarrow>
     inode_table_chirho (has_64bit_chirho (sb_chirho M)) (group_descs_chirho M ! unat g) +
       inode_table_offset_chirho l (inode_size_chirho (sb_chirho M)) div ucast (block_size_chirho M))"

definition inode_offset :: "Ext4MountChirho \<Rightarrow> u32 \<Rightarrow> nat" where
  "inode_offset M ino = (case inode_to_group_chirho ino (s_inodes_per_group_chirho (sb_chirho M)) of (g, l) \<Rightarrow>
     unat (inode_table_offset_chirho l (inode_size_chirho (sb_chirho M)) mod ucast (block_size_chirho M)))"

definition group_of :: "Ext4MountChirho \<Rightarrow> u32 \<Rightarrow> nat" where
  "group_of M ino = unat (fst (inode_to_group_chirho ino (s_inodes_per_group_chirho (sb_chirho M))))"

definition read_inode_chirho :: "'s block_ops \<Rightarrow> Ext4MountChirho \<Rightarrow> u32 \<Rightarrow> ('s, unit, Ext4InodeChirho) io" where
  "read_inode_chirho ops M ino =
     (if group_of M ino \<ge> length (group_descs_chirho M) then fail ()
      else bindE (rd ops (inode_block M ino)) (\<lambda>d.
        if inode_offset M ino + 128 > length d then fail () else ret (inode_at d (inode_offset M ino))))"

definition write_inode_chirho ::
  "'s block_ops \<Rightarrow> Ext4MountChirho \<Rightarrow> u32 \<Rightarrow> Ext4InodeChirho \<Rightarrow> ('s, Ext4ErrorChirho, unit) io" where
  "write_inode_chirho ops M ino i =
     (if group_of M ino \<ge> length (group_descs_chirho M) then fail CorruptInodeChirho
      else bindE (ok_or (rd ops (inode_block M ino)) IoErrorChirho) (\<lambda>d.
        let off = inode_offset M ino; fin = off + length (inode_bytes i) in
        if fin > length d then fail CorruptInodeChirho
        else wr ops (inode_block M ino) (take off d @ inode_bytes i @ drop fin d)))"

section \<open>Fields of structures\<close>

lemma of_nat_mod_word: "of_nat (n mod 2 ^ LENGTH('a)) = (of_nat n :: 'a::len word)"
  by (simp add: word_unat_eq_iff unat_of_nat take_bit_nat_def)

lemma u16_at_append: "length xs \<le> off \<Longrightarrow> u16_at (xs @ ys) off = u16_at ys (off - length xs)"
  by (simp add: u16_at_def)

lemma u32_at_append: "length xs \<le> off \<Longrightarrow> u32_at (xs @ ys) off = u32_at ys (off - length xs)"
  by (simp add: u32_at_def)

lemma u16_at_here: "u16_at (le_bytes 2 (unat w) @ ys) 0 = w"
proof -
  have "unat w mod 65536 = unat w" using unat_less_pow [of w] by simp
  then show ?thesis by (simp add: u16_at_def le_nat_bytes)
qed

lemma u32_at_here: "u32_at (le_bytes 4 (unat w) @ ys) 0 = w"
proof -
  have "unat w mod 4294967296 = unat w" using unat_less_pow [of w] by simp
  then show ?thesis by (simp add: u32_at_def le_nat_bytes)
qed

lemma words_length [simp]: "length (concat (map (\<lambda>w. le_bytes 4 (unat w)) ws)) = 4 * length ws"
  by (induction ws) simp_all

lemma u32_at_words:
  "k < length ws \<Longrightarrow> u32_at (concat (map (\<lambda>w. le_bytes 4 (unat w)) ws) @ ys) (4 * k) = ws ! k"
proof (induction ws arbitrary: k)
  case (Cons w ws)
  show ?case
  proof (cases k)
    case 0
    then show ?thesis by (simp add: u32_at_here)
  next
    case (Suc j)
    then show ?thesis using Cons by (simp add: u32_at_append)
  qed
qed simp

definition wf_inode :: "Ext4InodeChirho \<Rightarrow> bool" where
  "wf_inode i \<longleftrightarrow> length (i_block_chirho i) = 15 \<and> length (i_osd2_chirho i) = 12"

lemma length_inode_bytes [simp]: "wf_inode i \<Longrightarrow> length (inode_bytes i) = 128"
  by (simp add: inode_bytes_def wf_inode_def)

lemma inode_at_bytes:
  assumes "wf_inode i" "length xs = off"
  shows "inode_at (xs @ inode_bytes i @ ys) off = i"
proof -
  have "u32_at (inode_bytes i @ ys) (40 + 4 * k) = i_block_chirho i ! k" if "k < 15" for k
    using that u32_at_words [of k "i_block_chirho i"] assms(1)
    by (simp add: inode_bytes_def wf_inode_def u32_at_append)
  then have "map (\<lambda>k. u32_at (inode_bytes i @ ys) (40 + 4 * k)) [0..<15] = i_block_chirho i"
    using assms(1) by (intro nth_equalityI) (simp_all add: wf_inode_def)
  moreover have "u32_at (xs @ inode_bytes i @ ys) (off + 40 + 4 * k) = u32_at (inode_bytes i @ ys) (40 + 4 * k)" for k
    using assms(2) by (simp add: u32_at_append)
  ultimately have "map (\<lambda>k. u32_at (xs @ inode_bytes i @ ys) (off + 40 + 4 * k)) [0..<15] = i_block_chirho i" by simp
  then show ?thesis
    using assms unfolding inode_at_def
    by (simp add: u16_at_append u32_at_append u16_at_here u32_at_here inode_bytes_def wf_inode_def)
qed

lemma wf_inode_at: "off + 128 \<le> length d \<Longrightarrow> wf_inode (inode_at d off)"
  by (simp add: wf_inode_def inode_at_def)

text \<open>The bytes of an inode that was read are those it was read from.\<close>

lemma le_bytes_le_nat: "le_bytes (length xs) (le_nat xs) = xs"
proof (induction xs)
  case (Cons b xs)
  have "unat b < 256" using unat_less_pow [of b] by simp
  then show ?case using Cons by simp
qed simp

lemma u16_bytes_at: "off + 2 \<le> length d \<Longrightarrow> le_bytes 2 (unat (u16_at d off)) = take 2 (drop off d)"
proof -
  assume l: "off + 2 \<le> length d"
  let ?x = "take 2 (drop off d)"
  have "length ?x = 2" using l by simp
  then have "le_nat ?x < 2 ^ LENGTH(16)" using le_nat_less [of ?x] by simp
  then have "unat (u16_at d off) = le_nat ?x" unfolding u16_at_def by (rule unat_of_nat_small)
  then show ?thesis using le_bytes_le_nat [of ?x] \<open>length ?x = 2\<close> by simp
qed

lemma u32_bytes_at: "off + 4 \<le> length d \<Longrightarrow> le_bytes 4 (unat (u32_at d off)) = take 4 (drop off d)"
proof -
  assume l: "off + 4 \<le> length d"
  let ?x = "take 4 (drop off d)"
  have "length ?x = 4" using l by simp
  then have "le_nat ?x < 2 ^ LENGTH(32)" using le_nat_less [of ?x] by simp
  then have "unat (u32_at d off) = le_nat ?x" unfolding u32_at_def by (rule unat_of_nat_small)
  then show ?thesis using le_bytes_le_nat [of ?x] \<open>length ?x = 4\<close> by simp
qed

lemma chop: "b = a + m \<Longrightarrow> take m (drop a d) @ take n (drop b d) @ r = take (m + n) (drop a d) @ r"
  by (simp add: take_add drop_drop add.commute)

lemma chop_last: "b = a + m \<Longrightarrow> take m (drop a d) @ take n (drop b d) = take (m + n) (drop a d)"
  by (simp add: take_add drop_drop add.commute)

lemma word_chunks:
  "off + 4 * n \<le> length d \<Longrightarrow> concat (map (\<lambda>w. le_bytes 4 (unat w)) (map (\<lambda>k. u32_at d (off + 4 * k)) [0..<n])) = take (4 * n) (drop off d)"
proof (induction n)
  case (Suc n)
  then show ?case using u32_bytes_at [of "off + 4 * n" d] chop_last [of "off + 4 * n" off "4 * n" d 4] by (simp add: add.commute)
qed simp

lemma inode_bytes_at:
  assumes "off + 128 \<le> length d"
  shows "inode_bytes (inode_at d off) = take 128 (drop off d)"
  using assms word_chunks [of "off + 40" 15 d] unfolding inode_bytes_def inode_at_def
  by (simp add: u16_bytes_at u32_bytes_at chop chop_last)

section \<open>Plain blocks\<close>

text \<open>Blocks as a map.  The flag records the use of a block number whose sectors lie beyond
  the 64-bit range, for which the code's sector arithmetic wraps.\<close>

record plain =
  blk :: "u64 \<Rightarrow> bytes"
  wild :: bool

definition in_range :: "Ext4MountChirho \<Rightarrow> u64 \<Rightarrow> bool" where
  "in_range M b \<longleftrightarrow> (unat b + 1) * (bs M div 512) \<le> 2 ^ 64"

definition plain_ops :: "Ext4MountChirho \<Rightarrow> plain block_ops" where
  "plain_ops M =
     \<lparr>rd = (\<lambda>b P. if in_range M b then (Inr (blk P b), P) else (Inl (), P\<lparr>wild := True\<rparr>)),
      rd_into = (\<lambda>b len P. if in_range M b \<and> bs M \<le> len then (Inr (blk P b), P) else (Inl (), P\<lparr>wild := True\<rparr>)),
      wr = (\<lambda>b d P. if mode_chirho M = MountReadOnlyChirho then (Inl Ext4ReadOnlyChirho, P)
              else if length d \<noteq> bs M then (Inl IoErrorChirho, P)
              else if in_range M b then (Inr (), P\<lparr>blk := (blk P)(b := d)\<rparr>)
              else (Inl IoErrorChirho, P\<lparr>wild := True\<rparr>))\<rparr>"

definition disk_block :: "Ext4MountChirho \<Rightarrow> ext4_state \<Rightarrow> u64 \<Rightarrow> bytes" where
  "disk_block M st b = concat (map (\<lambda>i. sectors st (start_sector M b + of_nat i)) [0..<bs M div 512])"

text \<open>The block size is a multiple of the sector size, the device works, and what is cached
  is what is on disk.\<close>

definition block_size_ok :: "Ext4MountChirho \<Rightarrow> bool" where
  "block_size_ok M \<longleftrightarrow> 512 dvd bs M \<and> 0 < bs M"

definition coherent :: "Ext4MountChirho \<Rightarrow> ext4_state \<Rightarrow> bool" where
  "coherent M st \<longleftrightarrow> (\<forall>s. \<not> bad_sector st s \<and> length (sectors st s) = 512) \<and>
     btree_ok (pages_chirho (PAGE_CACHE_CHIRHO st)) \<and>
     (\<forall>b d. in_range M b \<longrightarrow> contents (PAGE_CACHE_CHIRHO st) (device_id_chirho M, b) = Some d \<longrightarrow> d = disk_block M st b)"

definition models :: "Ext4MountChirho \<Rightarrow> ext4_state \<Rightarrow> plain \<Rightarrow> bool" where
  "models M st P \<longleftrightarrow> block_size_ok M \<and> coherent M st \<and> (\<forall>b. in_range M b \<longrightarrow> blk P b = disk_block M st b)"

lemma sector_index:
  assumes "in_range M b" "i < bs M div 512"
  shows "unat (start_sector M b + of_nat i) = unat b * (bs M div 512) + i"
proof -
  let ?n = "bs M div 512"
  have le: "unat b * ?n + ?n \<le> 2 ^ 64" using assms(1) by (simp add: in_range_def)
  have "?n < 2 ^ 32" using unat_less_pow [of "block_size_chirho M"] by (simp add: bs_def)
  then have n: "unat (of_nat ?n :: u64) = ?n" by (intro unat_of_nat_small) simp
  have i: "unat (of_nat i :: u64) = i" using assms(2) \<open>?n < 2 ^ 32\<close> by (intro unat_of_nat_small) simp
  have "unat (start_sector M b) = unat b * ?n"
    unfolding start_sector_def using le assms(2) n by (subst unat_word_ariths(2)) (simp add: mod_less)
  then show ?thesis using le assms(2) i by (subst unat_word_ariths(1)) simp
qed

lemma sectors_apart:
  assumes "in_range M b" "in_range M b'" "i < bs M div 512" "j < bs M div 512"
    "start_sector M b + of_nat i = start_sector M b' + of_nat j"
  shows "b = b' \<and> i = j"
proof -
  have "unat b * (bs M div 512) + i = unat b' * (bs M div 512) + j"
    using sector_index [OF assms(1,3)] sector_index [OF assms(2,4)] assms(5) by simp
  then have eq: "i + unat b * (bs M div 512) = j + unat b' * (bs M div 512)" by simp
  have "i = j" using arg_cong [OF eq, of "\<lambda>x. x mod (bs M div 512)"] assms(3,4) by simp
  moreover have "unat b = unat b'" using eq \<open>i = j\<close> assms(3) by (metis add_left_cancel mult_cancel2 not_less0)
  ultimately show ?thesis by (simp add: word_unat_eq_iff)
qed

lemma length_disk_block: "coherent M st \<Longrightarrow> block_size_ok M \<Longrightarrow> length (disk_block M st b) = bs M"
  by (auto simp: disk_block_def length_concat comp_def coherent_def block_size_ok_def sum_list_triv)

lemma read_sectors_block:
  "coherent M st \<Longrightarrow> read_sectors (start_sector M b) (bs M div 512) st = Some (disk_block M st b)"
  by (simp add: read_sectors_def disk_block_def coherent_def list_ex_iff)

text \<open>What the cache operations do to the contents.\<close>

lemma get_contents:
  assumes "page_cache_get_chirho dev b c = (r, c')"
  shows "r = contents c (dev, b) \<and> contents c' = contents c \<and> btree_ok (pages_chirho c') = btree_ok (pages_chirho c)"
  using assms by (auto simp: page_cache_get_chirho_def contents_def Let_def map_of_btree_modify fun_eq_iff
      split: option.splits)

lemma evict_contents:
  "contents (evict_lru_chirho c) k = Some d \<Longrightarrow> contents c k = Some d"
  "btree_ok (pages_chirho c) \<Longrightarrow> btree_ok (pages_chirho (evict_lru_chirho c))"
  using map_of_filter_key [of "\<lambda>l. l \<noteq> _" "pages_chirho c"]
  by (auto simp: evict_lru_chirho_def contents_def btree_remove_def btree_ok_filter map_of_filter_key
      split: option.splits if_splits)

lemma insert_contents:
  assumes "btree_ok (pages_chirho c)"
  shows "contents (page_cache_insert_chirho dev b v c) k = Some d \<Longrightarrow>
      (if k = (dev, b) then d = v else contents c k = Some d)"
    and "btree_ok (pages_chirho (page_cache_insert_chirho dev b v c))"
proof -
  define c1 where "c1 = (if length (pages_chirho c) \<ge> max_pages_chirho c then evict_lru_chirho c else c)"
  have ok: "btree_ok (pages_chirho c1)" using assms evict_contents(2) unfolding c1_def by (metis (full_types))
  have pages: "pages_chirho (page_cache_insert_chirho dev b v c) = btree_insert (dev, b)
      \<lparr>page_data_chirho = v, last_access_chirho = access_counter_chirho c1 + 1, dirty_chirho = False\<rparr> (pages_chirho c1)"
    by (simp add: page_cache_insert_chirho_def Let_def c1_def)
  then show "btree_ok (pages_chirho (page_cache_insert_chirho dev b v c))" using btree_ok_insert [OF ok] by simp
  have sub: "contents c1 k = Some d \<Longrightarrow> contents c k = Some d"
    using evict_contents(1) [of c k d] unfolding c1_def by (metis (full_types))
  show "if k = (dev, b) then d = v else contents c k = Some d"
    if "contents (page_cache_insert_chirho dev b v c) k = Some d"
    using that sub unfolding contents_def pages map_of_btree_insert [OF ok] by (auto split: if_splits)
qed

section \<open>Programs on cached and on plain blocks\<close>

definition keeps_wild :: "(plain, 'e, 'a) io \<Rightarrow> bool" where
  "keeps_wild m \<longleftrightarrow> (\<forall>P. wild P \<longrightarrow> wild (snd (m P)))"

definition implements :: "('s \<Rightarrow> plain \<Rightarrow> bool) \<Rightarrow> ('s, 'e, 'a) io \<Rightarrow> (plain, 'e, 'a) io \<Rightarrow> bool" where
  "implements rel m m' \<longleftrightarrow> keeps_wild m' \<and> (\<forall>s P. rel s P \<longrightarrow> \<not> wild (snd (m' P)) \<longrightarrow>
     fst (m s) = fst (m' P) \<and> rel (snd (m s)) (snd (m' P)))"

named_theorems implements_intro

lemma implements_ret [implements_intro]: "implements rel (ret x) (ret x)"
  by (simp add: implements_def keeps_wild_def ret_def)

lemma implements_fail [implements_intro]: "implements rel (fail e) (fail e)"
  by (simp add: implements_def keeps_wild_def fail_def)

lemma implements_bind [implements_intro]:
  assumes "implements rel m m'" "\<And>x. implements rel (f x) (f' x)"
  shows "implements rel (bindE m f) (bindE m' f')"
  unfolding implements_def
proof (intro conjI allI impI)
  show "keeps_wild (bindE m' f')"
    using assms by (fastforce simp: implements_def keeps_wild_def bindE_def split: prod.splits sum.splits)
  fix s P assume rel: "rel s P" and nw: "\<not> wild (snd (bindE m' f' P))"
  obtain r P1 where m': "m' P = (r, P1)" by (cases "m' P")
  have "\<not> wild P1"
    using nw m' assms(2) by (fastforce simp: bindE_def implements_def keeps_wild_def split: sum.splits)
  then obtain s1 where m: "m s = (r, s1)" "rel s1 P1"
    using assms(1) rel m' by (metis implements_def prod.collapse fst_conv snd_conv)
  show "fst (bindE m f s) = fst (bindE m' f' P)" "rel (snd (bindE m f s)) (snd (bindE m' f' P))"
    using m m' nw assms(2) by (auto simp: bindE_def implements_def split: sum.splits)
qed

lemma implements_ok_or [implements_intro]: "implements rel m m' \<Longrightarrow> implements rel (ok_or m e) (ok_or m' e)"
  unfolding implements_def keeps_wild_def ok_or_def
  by (auto split: prod.splits sum.splits) (metis fst_conv snd_conv sum.inject sum.distinct)+

lemma implements_or_else [implements_intro]: "implements rel m m' \<Longrightarrow> implements rel (or_else m d) (or_else m' d)"
  unfolding implements_def keeps_wild_def or_else_def
  by (auto split: prod.splits sum.splits) (metis fst_conv snd_conv sum.inject sum.distinct)+

lemma implements_if [implements_intro]:
  "(c \<Longrightarrow> implements rel a a') \<Longrightarrow> (\<not> c \<Longrightarrow> implements rel b b') \<Longrightarrow>
     implements rel (if c then a else b) (if c then a' else b')"
  by simp

text \<open>The contract of the block layer: its operations behave as those on plain blocks.\<close>

locale block_layer =
  fixes M :: Ext4MountChirho and ops :: "'s block_ops" and rel :: "'s \<Rightarrow> plain \<Rightarrow> bool"
  assumes rd_plain [implements_intro]: "implements rel (rd ops b) (rd (plain_ops M) b)"
    and rd_into_plain [implements_intro]: "implements rel (rd_into ops b n) (rd_into (plain_ops M) b n)"
    and wr_plain [implements_intro]: "implements rel (wr ops b d) (wr (plain_ops M) b d)"
begin

lemma read_inode_plain [implements_intro]:
  "implements rel (read_inode_chirho ops M ino) (read_inode_chirho (plain_ops M) M ino)"
  unfolding read_inode_chirho_def by (intro implements_intro)

lemma write_inode_plain [implements_intro]:
  "implements rel (write_inode_chirho ops M ino i) (write_inode_chirho (plain_ops M) M ino i)"
  unfolding write_inode_chirho_def Let_def by (intro implements_intro)

end

lemma models_insert:
  assumes "models M st P" "in_range M b" "contents c = contents (PAGE_CACHE_CHIRHO st)" "btree_ok (pages_chirho c)"
  shows "models M (st\<lparr>PAGE_CACHE_CHIRHO := page_cache_insert_chirho (device_id_chirho M) b (disk_block M st b) c\<rparr>) P"
proof -
  let ?c = "page_cache_insert_chirho (device_id_chirho M) b (disk_block M st b) c"
  have "d = disk_block M st b'" if "in_range M b'" "contents ?c (device_id_chirho M, b') = Some d" for b' d
    using insert_contents(1) [OF assms(4) that(2)] assms(1,3) that(1)
    by (auto simp: models_def coherent_def split: if_splits)
  then show ?thesis
    using assms(1) insert_contents(2) [OF assms(4)] by (simp add: models_def coherent_def disk_block_def)
qed

lemma models_touch:
  assumes "models M st P" "contents c = contents (PAGE_CACHE_CHIRHO st)" "btree_ok (pages_chirho c)"
  shows "models M (st\<lparr>PAGE_CACHE_CHIRHO := c\<rparr>) P"
  using assms by (simp add: models_def coherent_def disk_block_def)

lemma cached_read:
  assumes "models M st P" "in_range M b"
  shows "\<exists>st'. read_block_cached_chirho M b st = (Inr (blk P b), st') \<and> models M st' P"
    "bs M \<le> n \<Longrightarrow> \<exists>st'. read_block_into_chirho M b n st = (Inr (blk P b), st') \<and> models M st' P"
proof -
  obtain r c where g: "page_cache_get_chirho (device_id_chirho M) b (PAGE_CACHE_CHIRHO st) = (r, c)"
    by (cases "page_cache_get_chirho (device_id_chirho M) b (PAGE_CACHE_CHIRHO st)")
  have coh: "coherent M st" and bso: "block_size_ok M" and B: "blk P b = disk_block M st b"
    using assms by (auto simp: models_def)
  have c: "contents c = contents (PAGE_CACHE_CHIRHO st)" "btree_ok (pages_chirho c)"
    using get_contents [OF g] coh by (auto simp: coherent_def)
  have hit: "d = blk P b" if "r = Some d" for d
    using get_contents [OF g] that coh assms(2) B by (auto simp: coherent_def)
  have len: "length (blk P b) = bs M" using length_disk_block [OF coh bso] B by simp
  have up: "(bs M + 511) div 512 = bs M div 512" using bso by (auto simp: block_size_ok_def elim!: dvdE)
  note rs = read_sectors_block [OF coh, of b]
  note ins = models_insert [OF assms c] and tch = models_touch [OF assms(1) c]
  show "\<exists>st'. read_block_cached_chirho M b st = (Inr (blk P b), st') \<and> models M st' P"
    using g hit rs ins tch B by (cases r) (simp_all add: read_block_cached_chirho_def)
  show "\<exists>st'. read_block_into_chirho M b n st = (Inr (blk P b), st') \<and> models M st' P" if "bs M \<le> n"
  proof (cases r)
    case None
    have "take (bs M) (disk_block M st b) = disk_block M st b" using len B by simp
    then show ?thesis
      using None g rs ins up that B by (simp add: read_block_into_chirho_def Let_def min_absorb1)
  next
    case (Some d)
    then show ?thesis using g hit [OF Some] tch that len by (simp add: read_block_into_chirho_def)
  qed
qed

lemma write_sectors_ok:
  assumes "\<forall>s. \<not> bad_sector st s"
  shows "\<exists>f. write_sectors start i n d st = (Inr (), st\<lparr>sectors := f\<rparr>) \<and>
    (\<forall>s. f s = sectors st s \<or> (\<exists>j. i \<le> j \<and> j < i + n \<and> s = start + of_nat j)) \<and>
    ((\<forall>j k. j < i + n \<longrightarrow> k < i + n \<longrightarrow> start + of_nat j = start + of_nat k \<longrightarrow> j = k) \<longrightarrow>
       (\<forall>j. i \<le> j \<and> j < i + n \<longrightarrow> f (start + of_nat j) = take 512 (drop (j * 512) d)))"
  using assms
proof (induction n arbitrary: i st)
  case 0
  show ?case by (intro exI [of _ "sectors st"]) auto
next
  case (Suc n)
  let ?s = "start + of_nat i"
  let ?st = "st\<lparr>sectors := (sectors st)(?s := take 512 (drop (i * 512) d))\<rparr>"
  obtain f where f: "write_sectors start (Suc i) n d ?st = (Inr (), ?st\<lparr>sectors := f\<rparr>)"
    "\<forall>s. f s = sectors ?st s \<or> (\<exists>j. Suc i \<le> j \<and> j < Suc i + n \<and> s = start + of_nat j)"
    "(\<forall>j k. j < Suc i + n \<longrightarrow> k < Suc i + n \<longrightarrow> start + of_nat j = start + of_nat k \<longrightarrow> j = k) \<longrightarrow>
       (\<forall>j. Suc i \<le> j \<and> j < Suc i + n \<longrightarrow> f (start + of_nat j) = take 512 (drop (j * 512) d))"
    using Suc.IH [of ?st "Suc i"] Suc.prems by auto
  have "write_sectors start i (Suc n) d st = (Inr (), st\<lparr>sectors := f\<rparr>)" using f(1) Suc.prems by (simp add: Let_def)
  moreover have "f s = sectors st s \<or> (\<exists>j. i \<le> j \<and> j < i + Suc n \<and> s = start + of_nat j)" for s
    using f(2) [rule_format, of s] by (cases "s = ?s") (auto intro: exI [of _ i] Suc_leD)
  moreover have "f (start + of_nat j) = take 512 (drop (j * 512) d)"
    if inj: "\<forall>j k. j < i + Suc n \<longrightarrow> k < i + Suc n \<longrightarrow> start + of_nat j = start + of_nat k \<longrightarrow> j = k"
      and j: "i \<le> j" "j < i + Suc n" for j
  proof (cases "j = i")
    case True
    have "\<not> (\<exists>k. Suc i \<le> k \<and> k < Suc i + n \<and> ?s = start + of_nat k)"
      using inj [rule_format, of i] by fastforce
    then have "f ?s = sectors ?st ?s" using f(2) by blast
    then show ?thesis using True by simp
  next
    case False
    then show ?thesis using f(3) inj j by simp
  qed
  ultimately show ?case by blast
qed

lemma concat_chunks: "length d = n * k \<Longrightarrow> concat (map (\<lambda>i. take k (drop (i * k) d)) [0..<n]) = d"
proof (induction n arbitrary: d)
  case (Suc n)
  have "concat (map (\<lambda>i. take k (drop (i * k) d)) [0..<Suc n]) = concat (map (\<lambda>i. take k (drop (i * k) (take (n * k) d))) [0..<n]) @
      take k (drop (n * k) d)"
  proof -
    have chunk: "take k (drop (i * k) (take (n * k) d)) = take k (drop (i * k) d)" if "i < n" for i
    proof -
      have "i * k + k \<le> n * k" using that by (metis Suc_leI add.commute mult_Suc mult_le_mono1)
      then show ?thesis by (simp add: drop_take min_absorb1 le_diff_conv2)
    qed
    have "map (\<lambda>i. take k (drop (i * k) (take (n * k) d))) [0..<n] = map (\<lambda>i. take k (drop (i * k) d)) [0..<n]"
      by (rule map_cong [OF refl], rule chunk) simp
    then show ?thesis by (simp del: map_eq_conv)
  qed
  also have "\<dots> = take (n * k) d @ take k (drop (n * k) d)" using Suc by (simp add: min_absorb2)
  also have "\<dots> = d" using Suc.prems by (simp add: take_all)
  finally show ?case .
qed simp

lemma cached_write:
  assumes "models M st P" "in_range M b" "mode_chirho M = MountReadWriteChirho" "length d = bs M"
  shows "\<exists>st'. write_block_chirho M b d st = (Inr (), st') \<and> models M st' (P\<lparr>blk := (blk P)(b := d)\<rparr>)"
proof -
  let ?n = "bs M div 512" and ?s = "start_sector M b"
  have coh: "coherent M st" and bso: "block_size_ok M" using assms(1) by (auto simp: models_def)
  obtain f where w: "write_sectors ?s 0 ?n d st = (Inr (), st\<lparr>sectors := f\<rparr>)"
    and other: "\<And>s. f s = sectors st s \<or> (\<exists>j<?n. s = ?s + of_nat j)"
    and here: "\<And>j. j < ?n \<Longrightarrow> f (?s + of_nat j) = take 512 (drop (j * 512) d)"
    using write_sectors_ok [of st ?s 0 ?n d] coh sectors_apart [OF assms(2,2)] by (auto simp: coherent_def)
  let ?st1 = "st\<lparr>sectors := f\<rparr>"
  have bsn: "bs M = ?n * 512" using bso by (auto simp: block_size_ok_def)
  have "length (f s) = 512" for s
  proof (cases "\<exists>j<?n. s = ?s + of_nat j")
    case True
    then obtain j where j: "j < ?n" "s = ?s + of_nat j" by blast
    then have "(j + 1) * 512 \<le> ?n * 512" by (intro mult_le_mono1) simp
    then show ?thesis using here [OF j(1)] j(2) assms(4) bsn by simp
  next
    case False
    then show ?thesis using other [of s] coh by (auto simp: coherent_def)
  qed
  note len = this
  have this_block: "disk_block M ?st1 b = d"
  proof -
    have "map (\<lambda>i. f (?s + of_nat i)) [0..<?n] = map (\<lambda>i. take 512 (drop (i * 512) d)) [0..<?n]"
      by (rule map_cong [OF refl], rule here) simp
    then show ?thesis using concat_chunks [of d ?n 512] assms(4) bsn by (simp add: disk_block_def del: map_eq_conv)
  qed
  have other_block: "disk_block M ?st1 b' = disk_block M st b'" if "in_range M b'" "b' \<noteq> b" for b'
  proof -
    have same: "f (start_sector M b' + of_nat i) = sectors st (start_sector M b' + of_nat i)" if "i < ?n" for i
      using other [of "start_sector M b' + of_nat i"] sectors_apart [OF \<open>in_range M b'\<close> assms(2) that] \<open>b' \<noteq> b\<close> by auto
    have "map (\<lambda>i. f (start_sector M b' + of_nat i)) [0..<?n] = map (\<lambda>i. sectors st (start_sector M b' + of_nat i)) [0..<?n]"
      by (rule map_cong [OF refl], rule same) simp
    then show ?thesis by (simp add: disk_block_def del: map_eq_conv)
  qed
  let ?c = "page_cache_insert_chirho (device_id_chirho M) b d (PAGE_CACHE_CHIRHO st)"
  have ok: "btree_ok (pages_chirho (PAGE_CACHE_CHIRHO st))" using coh by (simp add: coherent_def)
  have "e = disk_block M ?st1 b'" if "in_range M b'" "contents ?c (device_id_chirho M, b') = Some e" for b' e
    using insert_contents(1) [OF ok that(2)] coh that(1) this_block other_block
    by (auto simp: coherent_def split: if_splits)
  then have "models M (?st1\<lparr>PAGE_CACHE_CHIRHO := ?c\<rparr>) (P\<lparr>blk := (blk P)(b := d)\<rparr>)"
    using assms(1) coh bso len insert_contents(2) [OF ok] this_block other_block
    by (simp add: models_def coherent_def disk_block_def)
  then show ?thesis using w assms(3,4) by (simp add: write_block_chirho_def)
qed

interpretation cached: block_layer M "cached_ops M" "models M" for M
proof
  show "implements (models M) (rd (cached_ops M) b) (rd (plain_ops M) b)" for b
    unfolding implements_def keeps_wild_def
  proof (intro conjI allI impI)
    fix st P assume "models M st P" "\<not> wild (snd (rd (plain_ops M) b P))"
    then show "fst (rd (cached_ops M) b st) = fst (rd (plain_ops M) b P)"
      "models M (snd (rd (cached_ops M) b st)) (snd (rd (plain_ops M) b P))"
      using cached_read(1) [of M st P b] by (auto simp: cached_ops_def plain_ops_def split: if_splits)
  qed (simp add: plain_ops_def)
  show "implements (models M) (rd_into (cached_ops M) b n) (rd_into (plain_ops M) b n)" for b n
    unfolding implements_def keeps_wild_def
  proof (intro conjI allI impI)
    fix st P assume "models M st P" "\<not> wild (snd (rd_into (plain_ops M) b n P))"
    then show "fst (rd_into (cached_ops M) b n st) = fst (rd_into (plain_ops M) b n P)"
      "models M (snd (rd_into (cached_ops M) b n st)) (snd (rd_into (plain_ops M) b n P))"
      using cached_read(2) [of M st P b n] by (auto simp: cached_ops_def plain_ops_def split: if_splits)
  qed (simp add: plain_ops_def)
  show "implements (models M) (wr (cached_ops M) b d) (wr (plain_ops M) b d)" for b d
    unfolding implements_def keeps_wild_def
  proof (intro conjI allI impI)
    fix st P assume m: "models M st P" "\<not> wild (snd (wr (plain_ops M) b d P))"
    show "fst (wr (cached_ops M) b d st) = fst (wr (plain_ops M) b d P)"
      "models M (snd (wr (cached_ops M) b d st)) (snd (wr (plain_ops M) b d P))"
      using m cached_write [of M st P b d]
      by (cases "mode_chirho M"; auto simp: cached_ops_def plain_ops_def write_block_chirho_def split: if_splits)+
  qed (simp add: plain_ops_def)
qed

end
