(* ===== verification/Ext4_File.thy ===== *)
theory Ext4_File
  imports Ext4_Disk
begin

text \<open>
  File data of \<^verbatim>\<open>fs_chirho/ext4_chirho.rs\<close>: allocation from the bitmaps, reading a file
  through its block pointers, its extents or one logical block at a time, replacing the
  contents of a file and truncating it.  Shown: the allocator takes the free blocks in
  ascending order and nothing else, and a file reads back as it was written, with no
  other file touched, on the blocks of the disk and hence through the cache.
\<close>

section \<open>Bitmaps\<close>

fun find_free_bit :: "bytes \<Rightarrow> nat \<Rightarrow> (nat \<times> nat) option" where
  "find_free_bit [] i = None"
| "find_free_bit (b # bm) i =
     (if b = 0xFF then find_free_bit bm (Suc i)
      else case find (\<lambda>k. b AND push_bit k 1 = 0) [0..<8] of
             Some k \<Rightarrow> Some (i, k)
           | None \<Rightarrow> find_free_bit bm (Suc i))"

definition alloc_block_in_group_chirho :: "bytes \<Rightarrow> u32 \<Rightarrow> u32 \<Rightarrow> u32 \<Rightarrow> u64 option \<times> bytes" where
  "alloc_block_in_group_chirho bm grp per_group first_data =
     (case find_free_bit bm 0 of
        None \<Rightarrow> (None, bm)
      | Some (i, k) \<Rightarrow>
          (let local = of_nat i * 8 + of_nat k in
           if local \<ge> per_group then (None, bm)
           else (Some (ucast grp * ucast per_group + ucast local + ucast first_data),
                 bm[i := bm ! i OR push_bit k 1])))"

definition alloc_inode_in_group_chirho :: "bytes \<Rightarrow> u32 \<Rightarrow> u32 \<Rightarrow> u32 option \<times> bytes" where
  "alloc_inode_in_group_chirho bm grp per_group =
     (case find_free_bit bm 0 of
        None \<Rightarrow> (None, bm)
      | Some (i, k) \<Rightarrow>
          (let local = of_nat i * 8 + of_nat k in
           if local \<ge> per_group then (None, bm)
           else (Some (grp * per_group + local + 1), bm[i := bm ! i OR push_bit k 1])))"

definition free_block_in_group_chirho :: "u32 \<Rightarrow> bytes \<Rightarrow> bytes" where
  "free_block_in_group_chirho local bm =
     (let i = unat (local div 8); k = unat (local mod 8) in
      if i < length bm then bm[i := bm ! i AND NOT (push_bit k 1)] else bm)"

definition free_inode_in_group_chirho :: "u32 \<Rightarrow> bytes \<Rightarrow> bytes" where
  "free_inode_in_group_chirho local bm =
     (let i = unat (local div 8); k = unat (local mod 8) in
      if i < length bm then bm[i := bm ! i AND NOT (push_bit k 1)] else bm)"

section \<open>Reading\<close>

text \<open>The twelve direct pointers; a zero pointer is a hole, and a block that cannot be read
  is left out.\<close>

fun read_direct :: "'s block_ops \<Rightarrow> Ext4MountChirho \<Rightarrow> nat \<Rightarrow> u32 list \<Rightarrow> bytes \<Rightarrow> ('s, unit, bytes) io" where
  "read_direct ops M file_size [] d = ret d"
| "read_direct ops M file_size (w # ws) d =
     (if length d \<ge> file_size then ret d
      else let n = min (bs M) (file_size - length d) in
        if w = 0 then read_direct ops M file_size ws (d @ replicate n 0)
        else bindE (or_else (bindE (rd_into ops (ucast w) (bs M))
                      (\<lambda>b. ret (d @ take n (b @ replicate (bs M - length b) 0)))) d)
               (read_direct ops M file_size ws))"

text \<open>The blocks of one extent, \<^verbatim>\<open>n\<close> of them from the \<^verbatim>\<open>i\<close>th on.\<close>

fun read_extent_blocks :: "'s block_ops \<Rightarrow> u64 \<Rightarrow> nat \<Rightarrow> nat \<Rightarrow> bytes \<Rightarrow> ('s, unit, bytes) io" where
  "read_extent_blocks ops start i 0 out = ret out"
| "read_extent_blocks ops start i (Suc n) out =
     bindE (rd ops (start + of_nat i)) (\<lambda>b. read_extent_blocks ops start (Suc i) n (out @ b))"

fun leaf_extents_loop :: "'s block_ops \<Rightarrow> bytes \<Rightarrow> nat \<Rightarrow> nat \<Rightarrow> bytes \<Rightarrow> ('s, unit, bytes) io" where
  "leaf_extents_loop ops raw i 0 out = ret out"
| "leaf_extents_loop ops raw i (Suc n) out =
     (let off = 12 + i * 12 in
      if off + 12 > length raw then ret out
      else bindE (read_extent_blocks ops (physical_block_chirho raw off) 0
                    (unat (extent_block_count_chirho raw off)) out)
             (leaf_extents_loop ops raw (Suc i) n))"

definition read_leaf_extents_chirho ::
  "'s block_ops \<Rightarrow> bytes \<Rightarrow> Ext4ExtentHeaderChirho \<Rightarrow> bytes \<Rightarrow> ('s, unit, bytes) io" where
  "read_leaf_extents_chirho ops raw h out = leaf_extents_loop ops raw 0 (unat (eh_entries_chirho h)) out"

text \<open>In a tree the size limits the blocks read; reaching it ends the whole walk, which the
  flag in the result records.\<close>

fun limited_blocks :: "'s block_ops \<Rightarrow> nat \<Rightarrow> u64 \<Rightarrow> nat \<Rightarrow> nat \<Rightarrow> bytes \<Rightarrow> ('s, unit, bool \<times> bytes) io" where
  "limited_blocks ops lim start i 0 out = ret (False, out)"
| "limited_blocks ops lim start i (Suc n) out =
     (if length out \<ge> lim then ret (True, out)
      else bindE (rd ops (start + of_nat i)) (\<lambda>b. limited_blocks ops lim start (Suc i) n (out @ b)))"

fun child_leaf_loop :: "'s block_ops \<Rightarrow> nat \<Rightarrow> bytes \<Rightarrow> nat \<Rightarrow> nat \<Rightarrow> bytes \<Rightarrow> ('s, unit, bool \<times> bytes) io" where
  "child_leaf_loop ops lim d j 0 out = ret (False, out)"
| "child_leaf_loop ops lim d j (Suc n) out =
     (let off = 12 + j * 12 in
      if off + 12 > length d then ret (False, out)
      else bindE (limited_blocks ops lim (physical_block_chirho d off) 0 (unat (extent_block_count_chirho d off)) out)
             (\<lambda>r. if fst r then ret r else child_leaf_loop ops lim d (Suc j) n (snd r)))"

fun tree_loop :: "'s block_ops \<Rightarrow> nat \<Rightarrow> bytes \<Rightarrow> nat \<Rightarrow> nat \<Rightarrow> bytes \<Rightarrow> ('s, unit, bytes) io" where
  "tree_loop ops lim raw i 0 out = ret out"
| "tree_loop ops lim raw i (Suc n) out =
     (let off = 12 + i * 12 in
      if off + 12 > length raw then ret out
      else bindE (rd ops (child_block_chirho raw off)) (\<lambda>d.
        if length d < 12 then fail ()
        else let h = extent_header_at d in
          if \<not> header_is_valid_chirho h then fail ()
          else bindE (if eh_depth_chirho h = 0
                      then child_leaf_loop ops lim d 0 (unat (eh_entries_chirho h)) out else ret (False, out))
                 (\<lambda>r. if fst r then ret (snd r) else tree_loop ops lim raw (Suc i) n (snd r))))"

definition read_extent_tree_chirho ::
  "'s block_ops \<Rightarrow> bytes \<Rightarrow> Ext4ExtentHeaderChirho \<Rightarrow> nat \<Rightarrow> bytes \<Rightarrow> ('s, unit, bytes) io" where
  "read_extent_tree_chirho ops raw h lim out = tree_loop ops lim raw 0 (unat (eh_entries_chirho h)) out"

definition read_file_data_chirho :: "'s block_ops \<Rightarrow> Ext4MountChirho \<Rightarrow> Ext4InodeChirho \<Rightarrow> ('s, unit, bytes) io" where
  "read_file_data_chirho ops M i =
     (let file_size = unat (size_chirho i) in
      if file_size = 0 then ret []
      else if \<not> uses_extents_chirho i
      then bindE (read_direct ops M file_size (take 12 (i_block_chirho i)) []) (\<lambda>d. ret (take file_size d))
      else let h = extent_header_chirho i in
        if \<not> header_is_valid_chirho h then fail ()
        else bindE (if eh_depth_chirho h = 0 then read_leaf_extents_chirho ops (block_bytes i) h []
                    else read_extent_tree_chirho ops (block_bytes i) h file_size [])
               (\<lambda>d. ret (take file_size d)))"

text \<open>One logical block: the walk of \<^verbatim>\<open>Extent_Tree\<close>, with child nodes read through the block
  layer.\<close>

function descend_cached :: "'s block_ops \<Rightarrow> u32 \<Rightarrow> bytes \<Rightarrow> u16 \<Rightarrow> ('s, unit, u64) io" where
  "descend_cached ops lb d expected =
     (case lookup_extent_node_chirho d lb of
        None \<Rightarrow> fail ()
      | Some l \<Rightarrow>
          if depth_chirho l \<noteq> expected then fail ()
          else case target_chirho l of
                 PhysicalBlockChirho p \<Rightarrow> ret p
               | SparseHoleChirho \<Rightarrow> fail ()
               | ChildNodeChirho c \<Rightarrow>
                   if expected = 0 then fail ()
                   else bindE (rd ops c) (\<lambda>n. descend_cached ops lb n (expected - 1)))"
  by pat_completeness auto

termination
  by (relation "measure (\<lambda>(_, _, _, e). unat e)") (auto simp: unat_pred_word unat_gt_0)

declare descend_cached.simps [simp del]

definition find_phys_block_chirho ::
  "'s block_ops \<Rightarrow> bytes \<Rightarrow> Ext4ExtentHeaderChirho \<Rightarrow> u32 \<Rightarrow> ('s, unit, u64) io" where
  "find_phys_block_chirho ops raw h lb =
     (if \<not> header_is_valid_chirho h then fail ()
      else if eh_depth_chirho h > MAX_EXTENT_TREE_DEPTH_CHIRHO then fail ()
      else descend_cached ops lb raw (eh_depth_chirho h))"

text \<open>A program that may fail, with its failure made visible.\<close>

definition attempt :: "('s, unit, 'a) io \<Rightarrow> ('s, 'e, 'a option) io" where
  "attempt m s = (case m s of (Inl _, s1) \<Rightarrow> (Inr None, s1) | (Inr x, s1) \<Rightarrow> (Inr (Some x), s1))"

text \<open>The result is the part of the buffer of \<^verbatim>\<open>len\<close> bytes that is overwritten.\<close>

definition read_block_by_logical_into_chirho ::
  "'s block_ops \<Rightarrow> Ext4InodeChirho \<Rightarrow> u64 \<Rightarrow> nat \<Rightarrow> ('s, unit, bytes) io" where
  "read_block_by_logical_into_chirho ops i lb len =
     (if \<not> uses_extents_chirho i then fail ()
      else let h = extent_header_chirho i in
        if \<not> header_is_valid_chirho h then fail ()
        else bindE (attempt (find_phys_block_chirho ops (block_bytes i) h (ucast lb))) (\<lambda>r.
          case r of Some p \<Rightarrow> rd_into ops p len
                  | None \<Rightarrow> ret (replicate (min 4096 len) 0)))"

definition read_block_by_logical_chirho :: "'s block_ops \<Rightarrow> Ext4InodeChirho \<Rightarrow> u64 \<Rightarrow> ('s, unit, bytes) io" where
  "read_block_by_logical_chirho ops i lb =
     bindE (read_block_by_logical_into_chirho ops i lb 4096) (\<lambda>b. ret (b @ replicate (4096 - length b) 0))"

section \<open>Writing\<close>

text \<open>Blocks taken from one group: up to \<^verbatim>\<open>n\<close>, until the group is full.\<close>

fun alloc_from_group :: "nat \<Rightarrow> u32 \<Rightarrow> Ext4MountChirho \<Rightarrow> bytes \<Rightarrow> u64 list \<times> bytes" where
  "alloc_from_group 0 g M bm = ([], bm)"
| "alloc_from_group (Suc n) g M bm =
     (case alloc_block_in_group_chirho bm g (s_blocks_per_group_chirho (sb_chirho M))
             (s_first_data_block_chirho (sb_chirho M)) of
        (None, bm1) \<Rightarrow> ([], bm1)
      | (Some b, bm1) \<Rightarrow> (case alloc_from_group n g M bm1 of (bl, bm2) \<Rightarrow> (b # bl, bm2)))"

fun alloc_groups :: "'s block_ops \<Rightarrow> Ext4MountChirho \<Rightarrow> nat \<Rightarrow> nat \<Rightarrow> Ext4GroupDescChirho list \<Rightarrow> u64 list \<Rightarrow>
    ('s, Ext4ErrorChirho, u64 list) io" where
  "alloc_groups ops M needed g [] acc = ret acc"
| "alloc_groups ops M needed g (gd # gds) acc =
     (if length acc \<ge> needed then ret acc
      else if free_blocks_count_chirho (has_64bit_chirho (sb_chirho M)) gd = 0
      then alloc_groups ops M needed (Suc g) gds acc
      else let b = block_bitmap_chirho (has_64bit_chirho (sb_chirho M)) gd in
        bindE (ok_or (rd ops b) IoErrorChirho) (\<lambda>bm.
          case alloc_from_group (needed - length acc) (of_nat g) M bm of (bl, bm1) \<Rightarrow>
            bindE (wr ops b bm1) (\<lambda>_. alloc_groups ops M needed (Suc g) gds (acc @ bl))))"

text \<open>The \<^verbatim>\<open>i\<close>th block of the data, padded with zeros.\<close>

definition data_block :: "Ext4MountChirho \<Rightarrow> bytes \<Rightarrow> nat \<Rightarrow> bytes" where
  "data_block M d i = (let part = take (bs M) (drop (i * bs M) d) in part @ replicate (bs M - length part) 0)"

fun write_data_blocks :: "'s block_ops \<Rightarrow> Ext4MountChirho \<Rightarrow> bytes \<Rightarrow> nat \<Rightarrow> u64 list \<Rightarrow> ('s, Ext4ErrorChirho, unit) io" where
  "write_data_blocks ops M d i [] = ret ()"
| "write_data_blocks ops M d i (b # bl) =
     bindE (wr ops b (data_block M d i)) (\<lambda>_. write_data_blocks ops M d (Suc i) bl)"

fun contiguous :: "u64 list \<Rightarrow> bool" where
  "contiguous (a # b # bl) = (b = a + 1 \<and> contiguous (b # bl))"
| "contiguous _ = True"

definition non_contiguous_msg :: bytes where
  "non_contiguous_msg = map (of_nat \<circ> of_char) ''non-contiguous extent allocation''"

text \<open>The inode with one extent from \<^verbatim>\<open>first\<close>, \<^verbatim>\<open>n\<close> blocks long.\<close>

definition set_single_extent :: "u64 \<Rightarrow> nat \<Rightarrow> u32 list \<Rightarrow> u32 list" where
  "set_single_extent first n ws = ws[0 := ucast EXT4_EXT_MAGIC_CHIRHO OR push_bit 16 1, 1 := 4, 2 := 0, 3 := 0,
     4 := ucast (of_nat n :: u16) OR push_bit 16 (ucast (drop_bit 32 first) AND 0xFFFF), 5 := ucast first]"

definition write_file_data_chirho ::
  "'s block_ops \<Rightarrow> Ext4MountChirho \<Rightarrow> u32 \<Rightarrow> bytes \<Rightarrow> ('s, Ext4ErrorChirho, unit) io" where
  "write_file_data_chirho ops M ino d =
     (let needed = (length d + bs M - 1) div bs M in
      bindE (alloc_groups ops M needed 0 (group_descs_chirho M) []) (\<lambda>bl.
      if length bl < needed then fail NoSpaceChirho
      else bindE (write_data_blocks ops M d 0 bl) (\<lambda>_.
           bindE (ok_or (read_inode_chirho ops M ino) CorruptInodeChirho) (\<lambda>i.
           let i1 = i\<lparr>i_size_lo_chirho := of_nat (length d),
                      i_size_high_chirho := ucast (drop_bit 32 (of_nat (length d) :: u64)),
                      i_blocks_lo_chirho := of_nat (length bl * (bs M div 512))\<rparr> in
           if bl \<noteq> [] \<and> \<not> contiguous bl then fail (UnsupportedFeatureChirho non_contiguous_msg)
           else write_inode_chirho ops M ino
                  (if bl = [] then i1
                   else i1\<lparr>i_block_chirho := set_single_extent (hd bl) (length bl) (i_block_chirho i1)\<rparr>)))))"

definition truncate_file_chirho :: "'s block_ops \<Rightarrow> Ext4MountChirho \<Rightarrow> u32 \<Rightarrow> ('s, Ext4ErrorChirho, unit) io" where
  "truncate_file_chirho ops M ino =
     bindE (ok_or (read_inode_chirho ops M ino) CorruptInodeChirho) (\<lambda>i.
     write_inode_chirho ops M ino (i\<lparr>i_size_lo_chirho := 0, i_size_high_chirho := 0, i_blocks_lo_chirho := 0,
       i_block_chirho := (i_block_chirho i)[0 := ucast EXT4_EXT_MAGIC_CHIRHO, 1 := 4, 2 := 0]\<rparr>))"

section \<open>Free bits\<close>

definition bit_used :: "bytes \<Rightarrow> nat \<Rightarrow> bool" where "bit_used bm n \<longleftrightarrow> bit (bm ! (n div 8)) (n mod 8)"

definition free_locals :: "u32 \<Rightarrow> bytes \<Rightarrow> nat list" where
  "free_locals per_group bm = filter (\<lambda>n. n < unat per_group \<and> \<not> bit_used bm n) [0..<8 * length bm]"

lemma bit_used_Cons: "bit_used (b # bm) n = (if n < 8 then bit b n else bit_used bm (n - 8))"
proof (cases "n < 8")
  case False
  then have "n div 8 = Suc ((n - 8) div 8)" "n mod 8 = (n - 8) mod 8" by (simp_all add: le_div_geq le_mod_geq)
  then show ?thesis using False by (simp add: bit_used_def)
qed (simp add: bit_used_def)

lemma find_free_bit_None: "find_free_bit bm i = None \<Longrightarrow> n < 8 * length bm \<Longrightarrow> bit_used bm n"
proof (induction bm i arbitrary: n rule: find_free_bit.induct)
  case (2 b bm i)
  have "bit b k" if "k < 8" for k
  proof (cases "b = 0xFF")
    case True
    then have "b = - 1" by simp
    then show ?thesis using that by simp
  next
    case False
    then have "find (\<lambda>k. b AND push_bit k 1 = 0) [0..<8] = None" using 2(3) by (auto split: option.splits)
    then show ?thesis using that by (auto simp: find_None_iff bit_iff_and_push_bit_not_eq_0)
  qed
  moreover have "find_free_bit bm (Suc i) = None" using 2(3) by (auto split: if_splits option.splits)
  ultimately show ?case using 2(1,2) 2(3,4) by (auto simp: bit_used_Cons split: if_splits option.splits)
qed simp

lemma find_free_bit_Some:
  "find_free_bit bm i = Some (j, k) \<Longrightarrow> \<exists>m. j = i + m \<and> m < length bm \<and> k < 8 \<and> \<not> bit_used bm (8 * m + k) \<and>
     (\<forall>n < 8 * m + k. bit_used bm n)"
proof (induction bm i rule: find_free_bit.induct)
  case (2 b bm i)
  have here: "\<exists>m. j = i + m \<and> m < length (b # bm) \<and> k < 8 \<and> \<not> bit_used (b # bm) (8 * m + k) \<and>
      (\<forall>n < 8 * m + k. bit_used (b # bm) n)"
    if "find (\<lambda>k. b AND push_bit k 1 = 0) [0..<8] = Some k" "j = i"
  proof -
    have "k < 8 \<and> \<not> bit b k \<and> (\<forall>n<k. bit b n)"
      using that(1) by (auto simp: find_Some_iff bit_iff_and_push_bit_not_eq_0)
    then show ?thesis using that(2) by (intro exI [of _ 0]) (simp add: bit_used_Cons)
  qed
  have later: "\<exists>m. j = i + m \<and> m < length (b # bm) \<and> k < 8 \<and> \<not> bit_used (b # bm) (8 * m + k) \<and>
      (\<forall>n < 8 * m + k. bit_used (b # bm) n)"
    if all: "\<forall>n<8. bit b n" and ih: "\<exists>m. j = Suc i + m \<and> m < length bm \<and> k < 8 \<and> \<not> bit_used bm (8 * m + k) \<and>
      (\<forall>n < 8 * m + k. bit_used bm n)"
  proof -
    obtain m where "j = Suc i + m" "m < length bm" "k < 8" "\<not> bit_used bm (8 * m + k)" "\<forall>n < 8 * m + k. bit_used bm n"
      using ih by blast
    then show ?thesis using all by (intro exI [of _ "Suc m"]) (auto simp: bit_used_Cons)
  qed
  show ?case
  proof (cases "b = 0xFF")
    case True
    then have "b = - 1" by simp
    then have "\<forall>n<8. bit b n" by simp
    then show ?thesis using 2(1) [OF True] 2(3) True later by simp
  next
    case False
    show ?thesis
    proof (cases "find (\<lambda>k. b AND push_bit k 1 = 0) [0..<8]")
      case None
      then have "\<forall>n<8. bit b n" by (auto simp: find_None_iff bit_iff_and_push_bit_not_eq_0)
      then show ?thesis using 2(2) [OF False None] 2(3) False None later by simp
    next
      case (Some l)
      then show ?thesis using 2(3) False here by simp
    qed
  qed
qed simp

text \<open>Setting and clearing one bit.\<close>

lemma bit_used_set:
  assumes "m < length bm" "k < 8" "n < 8 * length bm"
  shows "bit_used (bm[m := bm ! m OR push_bit k 1]) n \<longleftrightarrow> n = 8 * m + k \<or> bit_used bm n"
proof (cases "n div 8 = m")
  case True
  then have "n = 8 * m + n mod 8" by presburger
  then have "n = 8 * m + k \<longleftrightarrow> n mod 8 = k" using assms(2) by auto
  then show ?thesis using True assms by (auto simp: bit_used_def bit_simps)
next
  case False
  then have "n \<noteq> 8 * m + k" using assms(2) by auto
  then show ?thesis using False by (simp add: bit_used_def)
qed

lemma bit_used_clear:
  assumes "m < length bm" "k < 8" "n < 8 * length bm"
  shows "bit_used (bm[m := bm ! m AND NOT (push_bit k 1)]) n \<longleftrightarrow> n \<noteq> 8 * m + k \<and> bit_used bm n"
proof (cases "n div 8 = m")
  case True
  then have "n = 8 * m + n mod 8" by presburger
  then have "n = 8 * m + k \<longleftrightarrow> n mod 8 = k" using assms(2) by auto
  then show ?thesis using True assms by (auto simp: bit_used_def bit_simps)
next
  case False
  then have "n \<noteq> 8 * m + k" using assms(2) by auto
  then show ?thesis using False by (simp add: bit_used_def)
qed

lemma filter_upt_least:
  assumes "m < N" "P m" "\<forall>n<m. \<not> P n"
  shows "filter P [0..<N] = m # filter P [Suc m..<N]"
proof -
  have "[0..<N] = [0..<m] @ m # [Suc m..<N]" using assms(1) by (metis le_simps(1) upt_add_eq_append upt_conv_Cons zero_le le_add_diff_inverse)
  moreover have "filter P [0..<m] = []" using assms(3) by (simp add: filter_empty_conv)
  ultimately show ?thesis using assms(2) by simp
qed

text \<open>The first free bit of a group, with the bits that stay free once it is set.\<close>

lemma free_locals_first:
  assumes "find_free_bit bm 0 = Some (i, k)" "8 * i + k < unat per_group"
  shows "i < length bm" "k < 8"
    "free_locals per_group bm = (8 * i + k) # free_locals per_group (bm[i := bm ! i OR push_bit k 1])"
proof -
  show i: "i < length bm" and k: "k < 8" using find_free_bit_Some [OF assms(1)] by auto
  have f: "\<not> bit_used bm (8 * i + k)" "\<forall>n < 8 * i + k. bit_used bm n" using find_free_bit_Some [OF assms(1)] by auto
  let ?bm = "bm[i := bm ! i OR push_bit k 1]" and ?m = "8 * i + k" and ?N = "8 * length bm"
  have "filter (\<lambda>n. n < unat per_group \<and> \<not> bit_used bm n) [0..<?N] =
      ?m # filter (\<lambda>n. n < unat per_group \<and> \<not> bit_used bm n) [Suc ?m..<?N]"
    using i k f assms(2) by (intro filter_upt_least) auto
  also have "filter (\<lambda>n. n < unat per_group \<and> \<not> bit_used bm n) [Suc ?m..<?N] =
      filter (\<lambda>n. n < unat per_group \<and> \<not> bit_used ?bm n) [Suc ?m..<?N]"
    using bit_used_set [OF i k] by (intro filter_cong) auto
  also have "\<dots> = filter (\<lambda>n. n < unat per_group \<and> \<not> bit_used ?bm n) [0..<?N]"
  proof -
    have "Suc ?m \<le> ?N" using i k by linarith
    then have "[0..<?N] = [0..<Suc ?m] @ [Suc ?m..<?N]"
      by (metis le_add_diff_inverse upt_add_eq_append zero_le)
    moreover have "filter (\<lambda>n. n < unat per_group \<and> \<not> bit_used ?bm n) [0..<Suc ?m] = []"
      using bit_used_set [OF i k] f i k by (auto simp: filter_empty_conv less_Suc_eq simp del: upt_Suc)
    ultimately show ?thesis by (simp del: upt_Suc)
  qed
  finally show "free_locals per_group bm = ?m # free_locals per_group ?bm" by (simp add: free_locals_def)
qed

lemma free_locals_none:
  "find_free_bit bm 0 = None \<Longrightarrow> free_locals per_group bm = []"
  "find_free_bit bm 0 = Some (i, k) \<Longrightarrow> unat per_group \<le> 8 * i + k \<Longrightarrow> free_locals per_group bm = []"
  using find_free_bit_None [of bm 0] find_free_bit_Some [of bm 0 i k]
  by (auto simp: free_locals_def filter_empty_conv)

section \<open>The allocator\<close>

abbreviation per_group :: "Ext4MountChirho \<Rightarrow> u32" where "per_group M \<equiv> s_blocks_per_group_chirho (sb_chirho M)"
abbreviation first_data :: "Ext4MountChirho \<Rightarrow> u32" where "first_data M \<equiv> s_first_data_block_chirho (sb_chirho M)"
abbreviation wide :: "Ext4MountChirho \<Rightarrow> bool" where "wide M \<equiv> has_64bit_chirho (sb_chirho M)"
abbreviation bitmap_of :: "Ext4MountChirho \<Rightarrow> Ext4GroupDescChirho \<Rightarrow> u64" where
  "bitmap_of M gd \<equiv> block_bitmap_chirho (wide M) gd"

definition block_no :: "Ext4MountChirho \<Rightarrow> nat \<Rightarrow> nat \<Rightarrow> u64" where
  "block_no M g n = of_nat (g * unat (per_group M) + n + unat (first_data M))"

lemma alloc_block_spec:
  assumes "8 * length bm < 2 ^ 32" "g < 2 ^ 32"
  shows "case free_locals (per_group M) bm of
      [] \<Rightarrow> alloc_block_in_group_chirho bm (of_nat g) (per_group M) (first_data M) = (None, bm)
    | n # ns \<Rightarrow> \<exists>bm1. alloc_block_in_group_chirho bm (of_nat g) (per_group M) (first_data M) = (Some (block_no M g n), bm1) \<and>
        length bm1 = length bm \<and> free_locals (per_group M) bm1 = ns"
proof (cases "find_free_bit bm 0")
  case None
  then show ?thesis by (simp add: alloc_block_in_group_chirho_def free_locals_none(1))
next
  case (Some ik)
  obtain i k where ik: "ik = (i, k)" by (cases ik)
  note F = Some [unfolded ik]
  have b: "i < length bm" "k < 8" using find_free_bit_Some [OF F] by auto
  define l :: u32 where "l = of_nat i * 8 + of_nat k"
  have "l = of_nat (8 * i + k)" by (simp add: l_def mult.commute)
  moreover have "8 * i + k < 2 ^ LENGTH(32)" using b assms(1) by simp
  ultimately have l: "unat l = 8 * i + k" by (metis unat_of_nat_small)
  have g: "unat (of_nat g :: u32) = g" using assms(2) by (simp add: unat_of_nat_small)
  show ?thesis
  proof (cases "unat (per_group M) \<le> 8 * i + k")
    case True
    then have "per_group M \<le> l" using l by (simp add: word_le_nat_alt)
    then show ?thesis
      using F free_locals_none(2) [OF F True] by (simp add: alloc_block_in_group_chirho_def l_def [symmetric])
  next
    case False
    then have "\<not> per_group M \<le> l" using l by (simp add: word_le_nat_alt)
    moreover have "ucast (of_nat g :: u32) * ucast (per_group M) + ucast l + ucast (first_data M) = block_no M g (8 * i + k)"
    proof -
      have "ucast (of_nat g :: u32) = (of_nat g :: u64)" "(ucast l :: u64) = of_nat (8 * i + k)"
        using arg_cong [OF g, of of_nat] arg_cong [OF l, of of_nat] by simp_all
      then show ?thesis by (simp add: block_no_def)
    qed
    ultimately show ?thesis
      using F free_locals_first(3) [OF F, of "per_group M"] False
      by (simp add: alloc_block_in_group_chirho_def l_def [symmetric] Let_def)
  qed
qed

lemma alloc_from_group_spec:
  assumes "8 * length bm < 2 ^ 32" "g < 2 ^ 32"
  shows "\<exists>bm1. alloc_from_group n (of_nat g) M bm = (map (block_no M g) (take n (free_locals (per_group M) bm)), bm1) \<and>
    length bm1 = length bm \<and> free_locals (per_group M) bm1 = drop n (free_locals (per_group M) bm)"
  using assms(1)
proof (induction n arbitrary: bm)
  case (Suc n)
  note spec = alloc_block_spec [OF Suc.prems assms(2), of M]
  show ?case
  proof (cases "free_locals (per_group M) bm")
    case Nil
    then show ?thesis using spec by simp
  next
    case (Cons l ls)
    then obtain bm1 where a: "alloc_block_in_group_chirho bm (of_nat g) (per_group M) (first_data M) = (Some (block_no M g l), bm1)"
      "length bm1 = length bm" "free_locals (per_group M) bm1 = ls" using spec by auto
    obtain bm2 where "alloc_from_group n (of_nat g) M bm1 = (map (block_no M g) (take n ls), bm2)"
      "length bm2 = length bm1" "free_locals (per_group M) bm2 = drop n ls"
      using Suc.IH [of bm1] Suc.prems a(2,3) by auto
    then show ?thesis using a Cons by simp
  qed
qed simp

text \<open>The blocks that can be allocated, in the order in which they are: groups whose
  descriptor counts no free block are skipped.\<close>

definition group_free :: "Ext4MountChirho \<Rightarrow> plain \<Rightarrow> nat \<Rightarrow> Ext4GroupDescChirho \<Rightarrow> u64 list" where
  "group_free M P g gd = (if free_blocks_count_chirho (wide M) gd = 0 then []
     else map (block_no M g) (free_locals (per_group M) (blk P (bitmap_of M gd))))"

fun free_from :: "Ext4MountChirho \<Rightarrow> plain \<Rightarrow> nat \<Rightarrow> Ext4GroupDescChirho list \<Rightarrow> u64 list" where
  "free_from M P g [] = []"
| "free_from M P g (gd # gds) = group_free M P g gd @ free_from M P (Suc g) gds"

definition free_list :: "Ext4MountChirho \<Rightarrow> plain \<Rightarrow> u64 list" where
  "free_list M P = free_from M P 0 (group_descs_chirho M)"

definition bitmaps :: "Ext4MountChirho \<Rightarrow> u64 list" where
  "bitmaps M = map (bitmap_of M) (group_descs_chirho M)"

lemma free_from_cong:
  "(\<And>gd. gd \<in> set gds \<Longrightarrow> blk P' (bitmap_of M gd) = blk P (bitmap_of M gd)) \<Longrightarrow> free_from M P' g gds = free_from M P g gds"
  by (induction gds arbitrary: g) (simp_all add: group_free_def)

definition full_blocks :: "Ext4MountChirho \<Rightarrow> plain \<Rightarrow> bool" where
  "full_blocks M P \<longleftrightarrow> (\<forall>b. length (blk P b) = bs M)"

lemma plain_rd: "in_range M b \<Longrightarrow> rd (plain_ops M) b P = (Inr (blk P b), P)"
  by (simp add: plain_ops_def)

lemma plain_wr: "mode_chirho M = MountReadWriteChirho \<Longrightarrow> length d = bs M \<Longrightarrow> in_range M b \<Longrightarrow>
  wr (plain_ops M) b d P = (Inr (), P\<lparr>blk := (blk P)(b := d)\<rparr>)"
  by (simp add: plain_ops_def)

lemma alloc_groups_plain:
  assumes "mode_chirho M = MountReadWriteChirho" "8 * bs M < 2 ^ 32"
    and "full_blocks M P" "g + length gds < 2 ^ 32" "distinct (map (bitmap_of M) gds)" "\<forall>gd\<in>set gds. in_range M (bitmap_of M gd)"
  shows "\<exists>P'. alloc_groups (plain_ops M) M needed g gds acc P = (Inr (acc @ take (needed - length acc) (free_from M P g gds)), P') \<and>
    wild P' = wild P \<and> full_blocks M P' \<and> (\<forall>b. b \<notin> bitmap_of M ` set gds \<longrightarrow> blk P' b = blk P b) \<and>
    free_from M P' g gds = drop (needed - length acc) (free_from M P g gds)"
  using assms(3-)
proof (induction gds arbitrary: g acc P)
  case (Cons gd gds)
  let ?b = "bitmap_of M gd" and ?n = "needed - length acc" and ?fl = "free_locals (per_group M) (blk P (bitmap_of M gd))"
  show ?case
  proof (cases "needed \<le> length acc")
    case True
    then show ?thesis using Cons.prems by (auto simp: ret_def)
  next
    case more: False
    show ?thesis
    proof (cases "free_blocks_count_chirho (wide M) gd = 0")
      case True
      obtain P' where "alloc_groups (plain_ops M) M needed (Suc g) gds acc P = (Inr (acc @ take ?n (free_from M P (Suc g) gds)), P')"
        "wild P' = wild P" "full_blocks M P'" "\<forall>b. b \<notin> bitmap_of M ` set gds \<longrightarrow> blk P' b = blk P b"
        "free_from M P' (Suc g) gds = drop ?n (free_from M P (Suc g) gds)"
        using Cons.IH [of P "Suc g" acc] Cons.prems by auto
      then show ?thesis using True more by (auto simp: group_free_def)
    next
      case False
      have len: "8 * length (blk P ?b) < 2 ^ 32" using Cons.prems(1) assms(2) by (simp add: full_blocks_def)
      obtain bm where bm: "alloc_from_group ?n (of_nat g) M (blk P ?b) = (map (block_no M g) (take ?n ?fl), bm)"
        "length bm = length (blk P ?b)" "free_locals (per_group M) bm = drop ?n ?fl"
        using alloc_from_group_spec [OF len, of g ?n M] Cons.prems(2) by auto
      define P1 where "P1 = P\<lparr>blk := (blk P)(?b := bm)\<rparr>"
      have full: "full_blocks M P1" using Cons.prems(1) bm(2) by (simp add: full_blocks_def P1_def)
      have w: "wr (plain_ops M) ?b bm P = (Inr (), P1)"
        using plain_wr [OF assms(1), of bm ?b P] bm(2) Cons.prems(1,4) by (simp add: full_blocks_def P1_def)
      let ?acc = "acc @ map (block_no M g) (take ?n ?fl)"
      have rest: "free_from M P1 (Suc g) gds = free_from M P (Suc g) gds"
        by (rule free_from_cong) (use Cons.prems(3) in \<open>auto simp: P1_def image_iff\<close>)
      have n1: "needed - length ?acc = ?n - length ?fl" by (simp add: min_def)
      obtain P' where P': "alloc_groups (plain_ops M) M needed (Suc g) gds ?acc P1 =
          (Inr (?acc @ take (?n - length ?fl) (free_from M P (Suc g) gds)), P')" "wild P' = wild P1" "full_blocks M P'"
        "\<forall>b. b \<notin> bitmap_of M ` set gds \<longrightarrow> blk P' b = blk P1 b"
        "free_from M P' (Suc g) gds = drop (?n - length ?fl) (free_from M P (Suc g) gds)"
        using Cons.IH [of P1 "Suc g" ?acc] Cons.prems full unfolding n1 rest by auto
      have here: "blk P' ?b = bm" using P'(4) Cons.prems(3) by (simp add: P1_def)
      have run: "alloc_groups (plain_ops M) M needed g (gd # gds) acc P = alloc_groups (plain_ops M) M needed (Suc g) gds ?acc P1"
        using more False w bm(1) Cons.prems(4) by (simp add: bindE_def ok_or_def plain_rd Let_def)
      show ?thesis
      proof (intro exI [of _ P'] conjI)
        show "alloc_groups (plain_ops M) M needed g (gd # gds) acc P = (Inr (acc @ take ?n (free_from M P g (gd # gds))), P')"
          unfolding run P'(1) using False by (simp add: group_free_def take_map)
        show "free_from M P' g (gd # gds) = drop ?n (free_from M P g (gd # gds))"
          using P'(5) here bm(3) False by (simp add: group_free_def drop_map)
        show "\<forall>b. b \<notin> bitmap_of M ` set (gd # gds) \<longrightarrow> blk P' b = blk P b" using P'(4) by (auto simp: P1_def)
      qed (use P'(2,3) in \<open>simp_all add: P1_def\<close>)
    qed
  qed
qed (simp add: ret_def)

lemma write_data_plain:
  assumes "mode_chirho M = MountReadWriteChirho" "full_blocks M P" "\<forall>b\<in>set bl. in_range M b" "distinct bl"
  shows "\<exists>P'. write_data_blocks (plain_ops M) M d i bl P = (Inr (), P') \<and> wild P' = wild P \<and> full_blocks M P' \<and>
    (\<forall>b. b \<notin> set bl \<longrightarrow> blk P' b = blk P b) \<and> (\<forall>k<length bl. blk P' (bl ! k) = data_block M d (i + k))"
  using assms(2-)
proof (induction bl arbitrary: i P)
  case (Cons b bl)
  have len: "length (data_block M d i) = bs M" by (simp add: data_block_def Let_def)
  define P1 where "P1 = P\<lparr>blk := (blk P)(b := data_block M d i)\<rparr>"
  have w: "wr (plain_ops M) b (data_block M d i) P = (Inr (), P1)"
    using plain_wr [OF assms(1) len] Cons.prems(2) by (simp add: P1_def)
  have "full_blocks M P1" using Cons.prems(1) len by (simp add: full_blocks_def P1_def)
  then obtain P' where P': "write_data_blocks (plain_ops M) M d (Suc i) bl P1 = (Inr (), P')" "wild P' = wild P1" "full_blocks M P'"
    "\<forall>b. b \<notin> set bl \<longrightarrow> blk P' b = blk P1 b" "\<forall>k<length bl. blk P' (bl ! k) = data_block M d (Suc i + k)"
    using Cons.IH [of P1 "Suc i"] Cons.prems by auto
  have "blk P' ((b # bl) ! k) = data_block M d (i + k)" if "k < length (b # bl)" for k
    using that P'(4,5) Cons.prems(3) by (cases k) (auto simp: P1_def)
  moreover have "write_data_blocks (plain_ops M) M d i (b # bl) P = (Inr (), P')"
    using w P'(1) by (simp add: bindE_def)
  moreover have "\<forall>b'. b' \<notin> set (b # bl) \<longrightarrow> blk P' b' = blk P b'" using P'(4) by (auto simp: P1_def)
  ultimately show ?case using P'(2,3) by (intro exI [of _ P']) (simp add: P1_def)
qed (simp add: ret_def)

section \<open>Free blocks are apart\<close>

definition volume_ok :: "Ext4MountChirho \<Rightarrow> plain \<Rightarrow> bool" where
  "volume_ok M P \<longleftrightarrow> mode_chirho M = MountReadWriteChirho \<and> block_size_ok M \<and> bs M \<le> 65536 \<and> full_blocks M P \<and>
     length (group_descs_chirho M) < 2 ^ 32 \<and>
     length (group_descs_chirho M) * unat (per_group M) + unat (first_data M) \<le> 2 ^ 48 \<and>
     distinct (bitmaps M) \<and> (\<forall>b\<in>set (bitmaps M). in_range M b) \<and> set (bitmaps M) \<inter> set (free_list M P) = {}"

lemma unat_block_no:
  "g * unat (per_group M) + n + unat (first_data M) < 2 ^ 48 \<Longrightarrow>
     unat (block_no M g n) = g * unat (per_group M) + n + unat (first_data M)"
  unfolding block_no_def by (rule unat_of_nat_small) simp

lemma free_from_range:
  assumes "(g + length gds) * unat (per_group M) + unat (first_data M) \<le> 2 ^ 48" "b \<in> set (free_from M P g gds)"
  shows "g * unat (per_group M) + unat (first_data M) \<le> unat b \<and>
    unat b < (g + length gds) * unat (per_group M) + unat (first_data M)"
  using assms
proof (induction gds arbitrary: g)
  case (Cons gd gds)
  show ?case
  proof (cases "b \<in> set (group_free M P g gd)")
    case True
    then obtain n where n: "b = block_no M g n" "n < unat (per_group M)"
      by (auto simp: group_free_def free_locals_def split: if_splits)
    then show ?thesis using Cons.prems(1) unat_block_no [of g M n] by (simp add: algebra_simps)
  next
    case False
    then show ?thesis using Cons.IH [of "Suc g"] Cons.prems by (simp add: algebra_simps)
  qed
qed simp

lemma free_from_distinct:
  "(g + length gds) * unat (per_group M) + unat (first_data M) \<le> 2 ^ 48 \<Longrightarrow> distinct (free_from M P g gds)"
proof (induction gds arbitrary: g)
  case (Cons gd gds)
  have le: "g * unat (per_group M) + n + unat (first_data M) < 2 ^ 48" if "n < unat (per_group M)" for n
    using Cons.prems that by (simp add: algebra_simps)
  have "inj_on (block_no M g) (set (free_locals (per_group M) bm))" for bm
  proof (rule inj_onI)
    fix x y assume "x \<in> set (free_locals (per_group M) bm)" "y \<in> set (free_locals (per_group M) bm)" and eq: "block_no M g x = block_no M g y"
    then have x: "x < unat (per_group M)" and y: "y < unat (per_group M)" by (simp_all add: free_locals_def)
    show "x = y" using unat_block_no [OF le [OF x]] unat_block_no [OF le [OF y]] unfolding eq by linarith
  qed
  then have d: "distinct (group_free M P g gd)"
    by (simp add: group_free_def distinct_map free_locals_def)
  have "b \<notin> set (free_from M P (Suc g) gds)" if b: "b \<in> set (group_free M P g gd)" for b
  proof -
    obtain n where "b = block_no M g n" "n < unat (per_group M)"
      using b by (auto simp: group_free_def free_locals_def split: if_splits)
    then have "unat b < Suc g * unat (per_group M) + unat (first_data M)"
      using Cons.prems unat_block_no [of g M n] by (simp add: algebra_simps)
    then show ?thesis using free_from_range [of "Suc g" gds M b P] Cons.prems by (fastforce simp: algebra_simps)
  qed
  then show ?case using d Cons.IH [of "Suc g"] Cons.prems by (auto simp: algebra_simps)
qed simp

lemma small_block_in_range:
  assumes "unat b < 2 ^ 48" "bs M \<le> 65536"
  shows "in_range M b"
proof -
  have "bs M div 512 \<le> 128" using div_le_mono [OF assms(2), of 512] by simp
  then have "(unat b + 1) * (bs M div 512) \<le> 2 ^ 48 * 128" using assms(1) by (intro mult_le_mono) simp_all
  then show ?thesis by (simp add: in_range_def)
qed

lemma free_list_facts:
  assumes "volume_ok M P"
  shows "distinct (free_list M P)" "b \<in> set (free_list M P) \<Longrightarrow> unat b < 2 ^ 48"
    "b \<in> set (free_list M P) \<Longrightarrow> in_range M b"
proof -
  have g: "(0 + length (group_descs_chirho M)) * unat (per_group M) + unat (first_data M) \<le> 2 ^ 48"
    using assms by (simp add: volume_ok_def)
  show "distinct (free_list M P)" using free_from_distinct [OF g] by (simp add: free_list_def)
  show s: "unat b < 2 ^ 48" if "b \<in> set (free_list M P)"
  proof -
    have "unat b < (0 + length (group_descs_chirho M)) * unat (per_group M) + unat (first_data M)"
      using free_from_range [OF g, of b P] that by (simp add: free_list_def)
    then show ?thesis using g by (rule less_le_trans)
  qed
  show "in_range M b" if "b \<in> set (free_list M P)"
    using small_block_in_range [OF s [OF that]] assms by (simp add: volume_ok_def)
qed

section \<open>Reading back one extent\<close>

lemma contiguous_nth: "contiguous bl \<Longrightarrow> k < length bl \<Longrightarrow> bl ! k = hd bl + of_nat k"
proof (induction bl arbitrary: k rule: contiguous.induct)
  case (1 a b bl)
  have "contiguous (b # bl)" using 1(2) [unfolded contiguous.simps] by (rule conjunct2)
  then have "(b # bl) ! j = b + of_nat j" if "j < length (b # bl)" for j using 1(1) [OF _ that] by simp
  then show ?case using 1(2,3) by (cases k) (auto simp: add.assoc)
qed (auto simp: less_Suc_eq)

lemma read_extent_blocks_plain:
  "(\<And>k. i \<le> k \<Longrightarrow> k < i + n \<Longrightarrow> in_range M (start + of_nat k)) \<Longrightarrow>
   read_extent_blocks (plain_ops M) start i n out P =
     (Inr (out @ concat (map (\<lambda>k. blk P (start + of_nat k)) [i..<i + n])), P)"
proof (induction n arbitrary: i out)
  case (Suc n)
  have "[i..<i + Suc n] = i # [Suc i..<Suc i + n]" by (simp add: upt_rec del: upt_Suc)
  then show ?case using Suc.IH [of "Suc i"] Suc.prems by (simp add: bindE_def plain_rd del: upt_Suc)
qed (simp add: ret_def)

lemma data_blocks_concat:
  assumes "length d \<le> n * bs M"
  shows "take (length d) (concat (map (data_block M d) [0..<n])) = d"
proof -
  let ?p = "d @ replicate (n * bs M - length d) 0"
  have "data_block M d i = take (bs M) (drop (i * bs M) ?p)" if "i < n" for i
  proof -
    have "i * bs M + bs M \<le> n * bs M" using that by (metis Suc_leI add.commute mult_Suc mult_le_mono1)
    moreover define x y where "x = i * bs M" and "y = n * bs M"
    ultimately have "x + bs M \<le> y" "length d \<le> y" using assms by simp_all
    then have "bs M - (length d - x) \<le> y - length d - (x - length d)" by arith
    then have "min (bs M - (length d - x)) (y - length d - (x - length d)) = bs M - min (length d - x) (bs M)" by arith
    then show ?thesis by (simp add: data_block_def Let_def x_def [symmetric] y_def [symmetric])
  qed
  then have "map (data_block M d) [0..<n] = map (\<lambda>i. take (bs M) (drop (i * bs M) ?p)) [0..<n]" by simp
  then have "concat (map (data_block M d) [0..<n]) = ?p"
    using concat_chunks [of ?p n "bs M"] assms by (simp del: map_eq_conv)
  then show ?thesis by simp
qed

lemma u16_at_word:
  assumes "k < length ws"
  shows "u16_at (concat (map (\<lambda>w. le_bytes 4 (unat w)) ws)) (4 * k) = ucast (ws ! k)"
    "u16_at (concat (map (\<lambda>w. le_bytes 4 (unat w)) ws)) (4 * k + 2) = ucast (drop_bit 16 (ws ! k) :: u32)"
proof -
  let ?f = "\<lambda>w :: u32. le_bytes 4 (unat w)"
  have split: "concat (map ?f ws) = concat (map ?f (take k ws)) @ le_bytes 4 (unat (ws ! k)) @ concat (map ?f (drop (Suc k) ws))"
    by (subst id_take_nth_drop [OF assms]) simp
  have len: "length (concat (map ?f (take k ws))) = 4 * k" using assms by simp
  have "le_bytes (Suc (Suc (Suc (Suc 0)))) n = le_bytes (Suc (Suc 0)) n @ le_bytes (Suc (Suc 0)) (n div 65536)" for n
    by (simp flip: div_mult2_eq)
  then have "le_bytes 4 n = le_bytes 2 n @ le_bytes 2 (n div 65536)" for n
    by (metis numeral_2_eq_2 numeral_3_eq_3 eval_nat_numeral(2) semiring_norm(26,27,28))
  then have halves: "u16_at (le_bytes 4 n @ ys) 0 = of_nat n" "u16_at (le_bytes 4 n @ ys) 2 = of_nat (n div 65536)" for n ys
    using of_nat_mod_word [where 'a = 16] by (simp_all add: u16_at_def le_nat_bytes)
  show "u16_at (concat (map ?f ws)) (4 * k) = ucast (ws ! k)"
    unfolding split using assms by (simp add: u16_at_append len halves min_absorb2)
  show "u16_at (concat (map ?f ws)) (4 * k + 2) = ucast (drop_bit 16 (ws ! k))"
  proof -
    have "unat (drop_bit 16 (ws ! k)) = unat (ws ! k) div 65536" by (simp add: unat_drop_bit_eq drop_bit_nat_def)
    then have "ucast (drop_bit 16 (ws ! k)) = (of_nat (unat (ws ! k) div 65536) :: u16)" by (metis of_nat_unat)
    then show ?thesis unfolding split using assms by (simp add: u16_at_append len halves min_absorb2)
  qed
qed

lemma single_extent_words:
  fixes first :: u64 and n :: nat
  assumes "unat first < 2 ^ 48" "n < 2 ^ 15"
  defines "w4 \<equiv> ucast (of_nat n :: u16) OR push_bit 16 (ucast (drop_bit 32 first) AND 0xFFFF) :: u32"
  shows "(ucast w4 :: u16) = of_nat n"
    "ucast (ucast first :: u32) OR push_bit 32 (ucast (ucast (drop_bit 16 w4) :: u16)) = first"
    "unat (ucast (of_nat n AND 0x7FFF :: u16) :: u32) = n"
proof -
  show "(ucast w4 :: u16) = of_nat n" unfolding w4_def by (rule bit_eqI) (auto simp: bit_simps)
  have "take_bit 48 first = first" using assms(1) by (simp add: word_unat_eq_iff unsigned_take_bit_eq take_bit_nat_eq_self)
  then have top: "bit first k \<Longrightarrow> k < 48" for k by (metis bit_take_bit_iff)
  have ffff: "(0xFFFF :: u32) = mask 16" by (simp add: mask_eq_exp_minus_1)
  have "(ucast (drop_bit 16 w4) :: u16) = ucast (drop_bit 32 first)"
    unfolding w4_def ffff by (rule bit_eqI) (auto simp: bit_simps simp del: mask_numeral)
  then show "ucast (ucast first :: u32) OR push_bit 32 (ucast (ucast (drop_bit 16 w4) :: u16)) = first"
    by (intro bit_eqI) (auto simp: bit_simps dest: top)
  have m: "(0x7FFF :: u16) = mask 15" by (simp add: mask_eq_exp_minus_1)
  have "(of_nat n AND 0x7FFF :: u16) = of_nat n"
    unfolding m take_bit_eq_mask [symmetric] using assms(2) by (simp add: take_bit_of_nat take_bit_nat_eq_self)
  moreover have "unat (of_nat n :: u16) = n" using assms(2) by (intro unat_of_nat_small) simp
  ultimately show "unat (ucast (of_nat n AND 0x7FFF :: u16) :: u32) = n" using assms(2) by (simp add: unsigned_ucast_eq take_bit_nat_eq_self)
qed

lemma single_extent_fields:
  fixes i :: Ext4InodeChirho
  assumes "wf_inode i" "unat first < 2 ^ 48" "n < 2 ^ 15" "i_block_chirho i = set_single_extent first n ws"
  shows "extent_header_chirho i = \<lparr>eh_magic_chirho = 0xF30A, eh_entries_chirho = 1, eh_max_chirho = 4, eh_depth_chirho = 0,
      eh_generation_chirho = u32_at (block_bytes i) 8\<rparr>"
    "physical_block_chirho (block_bytes i) 12 = first" "unat (extent_block_count_chirho (block_bytes i) 12) = n"
    "length (block_bytes i) = 60" "u32_at (block_bytes i) 12 = 0" "u16_at (block_bytes i) 16 = of_nat n"
proof -
  let ?raw = "block_bytes i" and ?w = "i_block_chirho i"
  have len: "length ?w = 15" "length ws = 15" using assms(1,4) by (simp_all add: wf_inode_def set_single_extent_def)
  have w: "?w ! 0 = 0x1F30A" "?w ! 1 = 4" "?w ! 5 = ucast first"
    "?w ! 4 = ucast (of_nat n :: u16) OR push_bit 16 (ucast (drop_bit 32 first) AND 0xFFFF)" "?w ! 3 = 0"
    using assms(4) len by (simp_all add: set_single_extent_def EXT4_EXT_MAGIC_CHIRHO_def)
  note h = u16_at_word [of _ ?w, folded block_bytes_def]
  have "u16_at ?raw (4 * 0 + 2) = ucast (drop_bit 16 (?w ! 0))" using len by (intro h(2)) simp
  then have "u16_at ?raw 2 = 1" unfolding mult_0_right add_0 w(1) by simp
  then show "extent_header_chirho i = \<lparr>eh_magic_chirho = 0xF30A, eh_entries_chirho = 1, eh_max_chirho = 4, eh_depth_chirho = 0,
      eh_generation_chirho = u32_at ?raw 8\<rparr>"
    using h(1) [of 0] h [of 1] w len by (simp add: extent_header_chirho_def extent_header_at_def)
  have u5: "u32_at ?raw 20 = ucast first" using u32_at_words [of 5 ?w "[]"] w(3) len by (simp add: block_bytes_def)
  note sx = single_extent_words [OF assms(2,3)]
  show "physical_block_chirho ?raw 12 = first"
    using h(2) [of 4] w(4) len sx(2) u5 by (simp add: physical_block_chirho_def)
  show "unat (extent_block_count_chirho ?raw 12) = n"
    using h(1) [of 4] w(4) len sx(1,3) by (simp add: extent_block_count_chirho_def)
  show "length ?raw = 60" using len by (simp add: block_bytes_def)
  show "u32_at ?raw 12 = 0" using u32_at_words [of 3 ?w "[]"] w(5) len by (simp add: block_bytes_def)
  show "u16_at ?raw 16 = of_nat n" using h(1) [of 4] w(4) len sx(1) by simp
qed

lemma read_single_extent:
  fixes i :: Ext4InodeChirho
  assumes "wf_inode i" "unat first < 2 ^ 48" "0 < n" "n < 2 ^ 15"
    and "\<And>k. k < n \<Longrightarrow> in_range M (first + of_nat k)" "unat (size_chirho i) = length d" "uses_extents_chirho i"
    and "i_block_chirho i = set_single_extent first n ws" "\<And>k. k < n \<Longrightarrow> blk P (first + of_nat k) = data_block M d k"
    and "length d \<le> n * bs M"
  shows "read_file_data_chirho (plain_ops M) M i P = (Inr d, P)"
proof -
  note F = single_extent_fields [OF assms(1,2,4,8)]
  have "map (\<lambda>k. blk P (first + of_nat k)) [0..<n] = map (data_block M d) [0..<n]" using assms(9) by simp
  then have "read_leaf_extents_chirho (plain_ops M) (block_bytes i) (extent_header_chirho i) [] P =
      (Inr (concat (map (data_block M d) [0..<n])), P)"
    using read_extent_blocks_plain [of 0 n M first "[]" P] assms(5) F
    by (simp add: read_leaf_extents_chirho_def bindE_def ret_def del: map_eq_conv)
  then show ?thesis
    using F(1) assms(6,7) data_blocks_concat [OF assms(10)]
    by (simp add: read_file_data_chirho_def Let_def header_is_valid_chirho_def EXT4_EXT_MAGIC_CHIRHO_def bindE_def ret_def)
qed

section \<open>Writing a file\<close>

definition inode_ok :: "Ext4MountChirho \<Rightarrow> plain \<Rightarrow> u32 \<Rightarrow> bool" where
  "inode_ok M P ino \<longleftrightarrow> group_of M ino < length (group_descs_chirho M) \<and> in_range M (inode_block M ino) \<and>
     inode_offset M ino + 128 \<le> bs M \<and> inode_block M ino \<notin> set (bitmaps M) \<and> inode_block M ino \<notin> set (free_list M P) \<and>
     uses_extents_chirho (inode_at (blk P (inode_block M ino)) (inode_offset M ino))"

definition with_inode :: "Ext4MountChirho \<Rightarrow> u32 \<Rightarrow> Ext4InodeChirho \<Rightarrow> plain \<Rightarrow> plain" where
  "with_inode M ino i P = P\<lparr>blk := (blk P)(inode_block M ino :=
     take (inode_offset M ino) (blk P (inode_block M ino)) @ inode_bytes i @ drop (inode_offset M ino + 128) (blk P (inode_block M ino)))\<rparr>"

lemma read_inode_ok:
  assumes "group_of M ino < length (group_descs_chirho M)" "in_range M (inode_block M ino)" "inode_offset M ino + 128 \<le> bs M" "full_blocks M P"
  shows "read_inode_chirho (plain_ops M) M ino P = (Inr (inode_at (blk P (inode_block M ino)) (inode_offset M ino)), P)"
  using assms by (simp add: read_inode_chirho_def bindE_def plain_rd ret_def full_blocks_def)

lemma write_inode_ok:
  assumes "group_of M ino < length (group_descs_chirho M)" "in_range M (inode_block M ino)" "inode_offset M ino + 128 \<le> bs M" "full_blocks M P"
    "mode_chirho M = MountReadWriteChirho" "wf_inode i"
  shows "write_inode_chirho (plain_ops M) M ino i P = (Inr (), with_inode M ino i P)"
    "full_blocks M (with_inode M ino i P)" "inode_at (blk (with_inode M ino i P) (inode_block M ino)) (inode_offset M ino) = i"
proof -
  show "write_inode_chirho (plain_ops M) M ino i P = (Inr (), with_inode M ino i P)"
    using assms by (simp add: write_inode_chirho_def bindE_def ok_or_def plain_rd full_blocks_def Let_def plain_wr with_inode_def)
  show "full_blocks M (with_inode M ino i P)" using assms by (simp add: full_blocks_def with_inode_def)
  show "inode_at (blk (with_inode M ino i P) (inode_block M ino)) (inode_offset M ino) = i"
    using assms by (simp add: with_inode_def inode_at_bytes full_blocks_def)
qed

definition blocks_needed :: "Ext4MountChirho \<Rightarrow> bytes \<Rightarrow> nat" where
  "blocks_needed M d = (length d + bs M - 1) div bs M"

text \<open>What a write of \<^verbatim>\<open>d\<close> answers: the blocks taken are the first free ones.\<close>

definition write_result :: "Ext4MountChirho \<Rightarrow> plain \<Rightarrow> bytes \<Rightarrow> Ext4ErrorChirho + unit" where
  "write_result M P d = (let bl = take (blocks_needed M d) (free_list M P) in
     if length bl < blocks_needed M d then Inl NoSpaceChirho
     else if contiguous bl then Inr () else Inl (UnsupportedFeatureChirho non_contiguous_msg))"

lemma blocks_needed_bound:
  assumes "0 < bs M"
  shows "length d \<le> blocks_needed M d * bs M" "blocks_needed M d = 0 \<longleftrightarrow> d = []"
    "length d \<le> k * bs M \<Longrightarrow> blocks_needed M d \<le> k"
proof -
  show "length d \<le> blocks_needed M d * bs M"
  proof -
    have "length d + bs M - 1 = blocks_needed M d * bs M + (length d + bs M - 1) mod bs M"
      unfolding blocks_needed_def by (simp only: div_mult_mod_eq)
    moreover have "(length d + bs M - 1) mod bs M < bs M" using assms by simp
    ultimately show ?thesis using assms by linarith
  qed
  then show "blocks_needed M d = 0 \<longleftrightarrow> d = []" using assms by (auto simp: blocks_needed_def)
  show "blocks_needed M d \<le> k" if "length d \<le> k * bs M"
  proof -
    have "length d + bs M - 1 < Suc k * bs M" using that assms by simp
    then have "blocks_needed M d < Suc k" unfolding blocks_needed_def using assms by (simp only: div_less_iff_less_mult)
    then show ?thesis by simp
  qed
qed

lemma size_of_length:
  assumes "length d < 2 ^ 64"
  shows "unat (ucast (of_nat (length d) :: u32) OR push_bit 32 (ucast (ucast (drop_bit 32 (of_nat (length d) :: u64)) :: u32)) :: u64) = length d"
proof -
  have "(of_nat (length d) :: u32) = ucast (of_nat (length d) :: u64)" by (simp add: unat_of_nat word_unat_eq_iff take_bit_nat_def unsigned_ucast_eq mod_mod_cancel)
  then have "ucast (of_nat (length d) :: u32) OR push_bit 32 (ucast (ucast (drop_bit 32 (of_nat (length d) :: u64)) :: u32)) = (of_nat (length d) :: u64)"
    by (intro bit_eqI) (auto simp: bit_simps simp del: of_nat_unat)
  then show ?thesis using assms by (simp add: unat_of_nat_small)
qed

lemma written_inode_reads_back:
  assumes "group_of M ino < length (group_descs_chirho M)" "in_range M (inode_block M ino)" "inode_offset M ino + 128 \<le> bs M"
    "full_blocks M P" "mode_chirho M = MountReadWriteChirho" "wf_inode i" "uses_extents_chirho i" "unat (size_chirho i) = length d"
    and blocks: "contiguous bl" "length bl < 2 ^ 15" "length d \<le> length bl * bs M"
    "\<forall>b\<in>set bl. unat b < 2 ^ 48 \<and> in_range M b \<and> b \<noteq> inode_block M ino" "\<forall>k<length bl. blk P (bl ! k) = data_block M d k"
    and ext: "bl \<noteq> [] \<Longrightarrow> i_block_chirho i = set_single_extent (hd bl) (length bl) ws"
  shows "bindE (read_inode_chirho (plain_ops M) M ino) (read_file_data_chirho (plain_ops M) M) (with_inode M ino i P) =
    (Inr d, with_inode M ino i P)"
proof -
  let ?P = "with_inode M ino i P"
  note W = write_inode_ok [OF assms(1-6)]
  have "read_file_data_chirho (plain_ops M) M i ?P = (Inr d, ?P)"
  proof (cases "bl = []")
    case True
    then show ?thesis using blocks(3) assms(8) by (simp add: read_file_data_chirho_def ret_def)
  next
    case False
    have hd: "unat (hd bl) < 2 ^ 48" using blocks(4) hd_in_set [OF False] by blast
    have nth: "hd bl + of_nat k = bl ! k" if "k < length bl" for k using contiguous_nth [OF blocks(1) that] by simp
    show ?thesis
    proof (rule read_single_extent [OF assms(6) hd _ blocks(2) _ assms(8,7) ext [OF False] _ blocks(3)])
      show "blk ?P (hd bl + of_nat k) = data_block M d k" if "k < length bl" for k
        using blocks(4,5) that unfolding nth [OF that] by (simp add: with_inode_def)
      show "in_range M (hd bl + of_nat k)" if "k < length bl" for k using blocks(4) that unfolding nth [OF that] by simp
    qed (use False in simp)
  qed
  then show ?thesis
    using read_inode_ok [OF assms(1-3), of ?P] W(2,3) by (simp add: bindE_def)
qed

lemma write_file_plain:
  assumes vol: "volume_ok M P" and ino: "inode_ok M P ino" and len: "length d \<le> 32767 * bs M"
  defines "bl \<equiv> take (blocks_needed M d) (free_list M P)" and "ib \<equiv> inode_block M ino" and "off \<equiv> inode_offset M ino"
  shows "\<exists>P'. write_file_data_chirho (plain_ops M) M ino d P = (write_result M P d, P') \<and> wild P' = wild P \<and> full_blocks M P' \<and>
    free_list M P' = drop (blocks_needed M d) (free_list M P) \<and>
    (\<forall>b. b \<notin> set (bitmaps M) \<union> set bl \<union> {ib} \<longrightarrow> blk P' b = blk P b) \<and>
    take off (blk P' ib) = take off (blk P ib) \<and> drop (off + 128) (blk P' ib) = drop (off + 128) (blk P ib) \<and>
    uses_extents_chirho (inode_at (blk P' ib) off) \<and>
    i_mode_chirho (inode_at (blk P' ib) off) = i_mode_chirho (inode_at (blk P ib) off) \<and>
    (write_result M P d = Inr () \<longrightarrow> i_size_lo_chirho (inode_at (blk P' ib) off) = of_nat (length d) \<and>
       bindE (read_inode_chirho (plain_ops M) M ino) (read_file_data_chirho (plain_ops M) M) P' = (Inr d, P'))"
proof -
  have M: "mode_chirho M = MountReadWriteChirho" "full_blocks M P" "distinct (bitmaps M)" "0 < bs M" "bs M \<le> 65536"
    "length (group_descs_chirho M) < 2 ^ 32" "\<forall>b\<in>set (bitmaps M). in_range M b" "set (bitmaps M) \<inter> set (free_list M P) = {}"
    using vol by (auto simp: volume_ok_def block_size_ok_def)
  have I: "group_of M ino < length (group_descs_chirho M)" "in_range M ib" "off + 128 \<le> bs M" "ib \<notin> set (bitmaps M)"
    "ib \<notin> set (free_list M P)" "uses_extents_chirho (inode_at (blk P ib) off)"
    using ino by (auto simp: inode_ok_def ib_def off_def)
  note fl = free_list_facts [OF vol]
  obtain P1 where P1: "alloc_groups (plain_ops M) M (blocks_needed M d) 0 (group_descs_chirho M) [] P = (Inr bl, P1)" "wild P1 = wild P"
    "full_blocks M P1" "\<forall>b. b \<notin> set (bitmaps M) \<longrightarrow> blk P1 b = blk P b"
    "free_list M P1 = drop (blocks_needed M d) (free_list M P)"
    using alloc_groups_plain [OF M(1) _ M(2), of 0 "group_descs_chirho M" "blocks_needed M d" "[]"] M
    by (auto simp: free_list_def bitmaps_def bl_def)
  have bl: "distinct bl" "set bl \<subseteq> set (free_list M P)" "\<forall>b\<in>set bl. in_range M b"
    using fl(1,3) by (auto simp: bl_def dest: in_set_takeD)
  have same_free: "free_list M Q = free_list M P1" if "\<forall>b\<in>set (bitmaps M). blk Q b = blk P1 b" for Q
    unfolding free_list_def by (rule free_from_cong) (use that in \<open>auto simp: bitmaps_def\<close>)
  have ib1: "blk P1 ib = blk P ib" using P1(4) I(4) by simp
  show ?thesis
  proof (cases "length bl < blocks_needed M d")
    case True
    then show ?thesis
      using P1 ib1 I(6)
      by (intro exI [of _ P1]) (auto simp: write_file_data_chirho_def bindE_def fail_def write_result_def blocks_needed_def Let_def bl_def)
  next
    case False
    then have n: "length bl = blocks_needed M d" by (simp add: bl_def min_def split: if_splits)
    obtain P2 where P2: "write_data_blocks (plain_ops M) M d 0 bl P1 = (Inr (), P2)" "wild P2 = wild P1" "full_blocks M P2"
      "\<forall>b. b \<notin> set bl \<longrightarrow> blk P2 b = blk P1 b" "\<forall>k<length bl. blk P2 (bl ! k) = data_block M d k"
      using write_data_plain [OF M(1) P1(3) bl(3,1), of d 0] by auto
    have ib2: "blk P2 ib = blk P ib" using P2(4) ib1 I(5) bl(2) by auto
    have bm2: "\<forall>b\<in>set (bitmaps M). blk P2 b = blk P1 b" using P2(4) M(8) bl(2) by blast
    define i where "i = inode_at (blk P ib) off"
    have ri: "read_inode_chirho (plain_ops M) M ino P2 = (Inr i, P2)"
      using read_inode_ok [OF I(1) I(2,3) [unfolded ib_def off_def] P2(3)] ib2 by (simp add: i_def ib_def off_def)
    define i1 where "i1 = i\<lparr>i_size_lo_chirho := of_nat (length d), i_size_high_chirho := ucast (drop_bit 32 (of_nat (length d) :: u64)),
        i_blocks_lo_chirho := of_nat (length bl * (bs M div 512))\<rparr>"
    define i2 where "i2 = (if bl = [] then i1 else i1\<lparr>i_block_chirho := set_single_extent (hd bl) (length bl) (i_block_chirho i1)\<rparr>)"
    have run: "write_file_data_chirho (plain_ops M) M ino d P =
        (if bl \<noteq> [] \<and> \<not> contiguous bl then (Inl (UnsupportedFeatureChirho non_contiguous_msg), P2)
         else write_inode_chirho (plain_ops M) M ino i2 P2)"
      using P1(1) P2(1) ri False
      unfolding write_file_data_chirho_def blocks_needed_def [symmetric]
      by (simp add: bindE_def ok_or_def fail_def Let_def i2_def i1_def)
    show ?thesis
    proof (cases "contiguous bl")
      case c: False
      then have "bl \<noteq> []" by auto
      then show ?thesis
        using run c P2 P1 ib2 I(6) n same_free [OF bm2]
        by (intro exI [of _ P2]) (auto simp: write_result_def bl_def [symmetric] Let_def)
    next
      case True
      have wf: "wf_inode i" unfolding i_def using I(3) M(2) by (intro wf_inode_at) (simp add: full_blocks_def)
      then have wf2: "wf_inode i2" by (simp add: wf_inode_def i2_def i1_def set_single_extent_def)
      note W = write_inode_ok [OF I(1) I(2,3) [unfolded ib_def off_def] P2(3) M(1) wf2, folded ib_def off_def]
      define P3 where "P3 = with_inode M ino i2 P2"
      have P3: "blk P3 b = blk P2 b" if "b \<noteq> ib" for b using that by (simp add: P3_def with_inode_def ib_def)
      have bm3: "\<forall>b\<in>set (bitmaps M). blk P3 b = blk P1 b" using P3 bm2 I(4) by metis
      have l2: "length (blk P ib) = bs M" using M(2) by (simp add: full_blocks_def)
      have around: "take off (blk P3 ib) = take off (blk P ib)" "drop (off + 128) (blk P3 ib) = drop (off + 128) (blk P ib)"
        using I(3) wf2 ib2 l2 by (simp_all add: P3_def with_inode_def ib_def [symmetric] off_def [symmetric])
      have ue: "uses_extents_chirho i2" using I(6) by (simp add: uses_extents_chirho_def i2_def i1_def i_def)
      have "length d < 2 ^ 64" using len M(5) by simp
      then have size: "unat (size_chirho i2) = length d"
        using size_of_length [of d] by (simp add: size_chirho_def i2_def i1_def)
      have k15: "length bl < 2 ^ 15" using blocks_needed_bound(3) [OF M(4) len] n by simp
      have room: "length d \<le> length bl * bs M" using blocks_needed_bound(1) [OF M(4)] n by simp
      have apart: "\<forall>b\<in>set bl. unat b < 2 ^ 48 \<and> in_range M b \<and> b \<noteq> inode_block M ino"
        using fl(2) bl(2,3) I(5) unfolding ib_def by blast
      have again: "bindE (read_inode_chirho (plain_ops M) M ino) (read_file_data_chirho (plain_ops M) M) P3 = (Inr d, P3)"
        unfolding P3_def
        by (rule written_inode_reads_back [OF I(1) I(2,3) [unfolded ib_def off_def] P2(3) M(1) wf2 ue size True k15 room apart P2(5)])
          (simp add: i2_def)
      have res: "write_file_data_chirho (plain_ops M) M ino d P = (Inr (), P3)" "write_result M P d = Inr ()"
        using run True W(1) n by (simp_all add: P3_def write_result_def bl_def [symmetric])
      show ?thesis
      proof (intro exI [of _ P3] conjI)
        show "wild P3 = wild P" using P2(2) P1(2) by (simp add: P3_def with_inode_def)
        show "free_list M P3 = drop (blocks_needed M d) (free_list M P)" using same_free [OF bm3] P1(5) by simp
        show "\<forall>b. b \<notin> set (bitmaps M) \<union> set bl \<union> {ib} \<longrightarrow> blk P3 b = blk P b" using P3 P2(4) P1(4) by auto
        show "uses_extents_chirho (inode_at (blk P3 ib) off)" using W(3) ue by (simp add: P3_def)
        show "i_mode_chirho (inode_at (blk P3 ib) off) = i_mode_chirho (inode_at (blk P ib) off)"
          using W(3) by (simp add: P3_def i2_def i1_def i_def)
        show "write_result M P d = Inr () \<longrightarrow> i_size_lo_chirho (inode_at (blk P3 ib) off) = of_nat (length d) \<and>
          bindE (read_inode_chirho (plain_ops M) M ino) (read_file_data_chirho (plain_ops M) M) P3 = (Inr d, P3)"
          using W(3) again by (simp add: P3_def i2_def i1_def)
      qed (use res around W(2) in \<open>simp_all add: P3_def [symmetric]\<close>)
    qed
  qed
qed

text \<open>Truncation empties the file, and gives none of its blocks back.\<close>

lemma truncate_keeps_blocks:
  assumes "volume_ok M P" "inode_ok M P ino"
  shows "\<exists>P'. truncate_file_chirho (plain_ops M) M ino P = (Inr (), P') \<and> free_list M P' = free_list M P \<and>
    (\<forall>b. b \<noteq> inode_block M ino \<longrightarrow> blk P' b = blk P b) \<and>
    bindE (read_inode_chirho (plain_ops M) M ino) (read_file_data_chirho (plain_ops M) M) P' = (Inr [], P')"
proof -
  have A: "mode_chirho M = MountReadWriteChirho" "full_blocks M P" using assms(1) by (simp_all add: volume_ok_def)
  have I: "group_of M ino < length (group_descs_chirho M)" "in_range M (inode_block M ino)" "inode_offset M ino + 128 \<le> bs M"
    "inode_block M ino \<notin> set (bitmaps M)" using assms(2) by (simp_all add: inode_ok_def)
  define i where "i = inode_at (blk P (inode_block M ino)) (inode_offset M ino)"
  define i2 where "i2 = i\<lparr>i_size_lo_chirho := 0, i_size_high_chirho := 0, i_blocks_lo_chirho := 0,
       i_block_chirho := (i_block_chirho i)[0 := ucast EXT4_EXT_MAGIC_CHIRHO, 1 := 4, 2 := 0]\<rparr>"
  have "wf_inode i" unfolding i_def using I(3) A(2) by (intro wf_inode_at) (simp add: full_blocks_def)
  then have wf: "wf_inode i2" by (simp add: i2_def wf_inode_def)
  note W = write_inode_ok [OF I(1-3) A(2,1) wf]
  have run: "truncate_file_chirho (plain_ops M) M ino P = (Inr (), with_inode M ino i2 P)"
    using read_inode_ok [OF I(1-3) A(2)] W(1) by (simp add: truncate_file_chirho_def bindE_def ok_or_def i_def i2_def)
  have fl: "free_list M (with_inode M ino i2 P) = free_list M P"
    unfolding free_list_def by (rule free_from_cong) (use I(4) in \<open>auto simp: bitmaps_def with_inode_def image_iff\<close>)
  have "read_file_data_chirho (plain_ops M) M i2 P' = (Inr [], P')" for P'
    by (simp add: read_file_data_chirho_def size_chirho_def i2_def ret_def)
  then have "bindE (read_inode_chirho (plain_ops M) M ino) (read_file_data_chirho (plain_ops M) M) (with_inode M ino i2 P) =
      (Inr [], with_inode M ino i2 P)"
    using read_inode_ok [OF I(1-3) W(2)] W(3) by (simp add: bindE_def)
  then show ?thesis using run fl by (intro exI [of _ "with_inode M ino i2 P"]) (simp add: with_inode_def)
qed

text \<open>The walk with reads through the block layer is the walk of \<^verbatim>\<open>Extent_Tree\<close>.\<close>

definition plain_child :: "Ext4MountChirho \<Rightarrow> plain \<Rightarrow> u64 \<Rightarrow> bytes option" where
  "plain_child M P b = (if in_range M b then Some (blk P b) else None)"

lemma descend_pure:
  "\<not> wild (snd (descend_cached (plain_ops M) lb d e P)) \<Longrightarrow>
   descend_cached (plain_ops M) lb d e P =
     ((case descend_extent_tree_chirho (plain_child M P) lb d e of None \<Rightarrow> Inl () | Some p \<Rightarrow> Inr p), P)"
proof (induction "plain_ops M" lb d e rule: descend_cached.induct)
  case (1 lb d e)
  show ?case
  proof (cases "lookup_extent_node_chirho d lb")
    case None
    then show ?thesis
      by (simp add: descend_cached.simps [of _ _ d] descend_extent_tree_chirho.simps [of _ _ d] fail_def)
  next
    case (Some l)
    show ?thesis
    proof (cases "target_chirho l")
      case (ChildNodeChirho c)
      then show ?thesis
        using 1(1) [OF Some _ ChildNodeChirho, of "blk P c"] 1(2) Some
        by (auto simp: descend_cached.simps [of _ _ d] descend_extent_tree_chirho.simps [of _ _ d] fail_def ret_def bindE_def
            plain_child_def plain_ops_def split: if_splits)
    qed (use Some in \<open>simp_all add: descend_cached.simps [of _ _ d] descend_extent_tree_chirho.simps [of _ _ d] fail_def ret_def\<close>)
  qed
qed

section \<open>The same on cached blocks\<close>

lemma implements_case_option [implements_intro]:
  "implements rel a a' \<Longrightarrow> (\<And>x. implements rel (f x) (f' x)) \<Longrightarrow>
     implements rel (case r of None \<Rightarrow> a | Some x \<Rightarrow> f x) (case r of None \<Rightarrow> a' | Some x \<Rightarrow> f' x)"
  by (cases r) simp_all

lemma implements_case_prod [implements_intro]:
  "(\<And>x y. implements rel (f x y) (f' x y)) \<Longrightarrow> implements rel (case p of (x, y) \<Rightarrow> f x y) (case p of (x, y) \<Rightarrow> f' x y)"
  by (cases p) simp

lemma implements_attempt [implements_intro]: "implements rel m m' \<Longrightarrow> implements rel (attempt m) (attempt m')"
  unfolding implements_def keeps_wild_def attempt_def
  by (auto split: prod.splits sum.splits) (metis fst_conv snd_conv sum.inject sum.distinct)+

context block_layer
begin

lemma read_direct_on_plain [implements_intro]:
  "implements rel (read_direct ops M n ws d) (read_direct (plain_ops M) M n ws d)"
  by (induction ws arbitrary: d) (simp_all add: Let_def implements_intro)

lemma read_extent_blocks_on_plain [implements_intro]:
  "implements rel (read_extent_blocks ops start i n out) (read_extent_blocks (plain_ops M) start i n out)"
  by (induction n arbitrary: i out) (simp_all add: implements_intro)

lemma leaf_extents_loop_on_plain [implements_intro]:
  "implements rel (leaf_extents_loop ops raw i n out) (leaf_extents_loop (plain_ops M) raw i n out)"
  by (induction n arbitrary: i out) (simp_all add: Let_def implements_intro)

lemma limited_blocks_on_plain [implements_intro]:
  "implements rel (limited_blocks ops lim start i n out) (limited_blocks (plain_ops M) lim start i n out)"
  by (induction n arbitrary: i out) (simp_all add: implements_intro)

lemma child_leaf_loop_on_plain [implements_intro]:
  "implements rel (child_leaf_loop ops lim d j n out) (child_leaf_loop (plain_ops M) lim d j n out)"
  by (induction n arbitrary: j out) (simp_all add: Let_def implements_intro)

lemma tree_loop_on_plain [implements_intro]:
  "implements rel (tree_loop ops lim raw i n out) (tree_loop (plain_ops M) lim raw i n out)"
  by (induction n arbitrary: i out) (simp_all add: Let_def implements_intro)

lemma read_file_data_on_plain [implements_intro]:
  "implements rel (read_file_data_chirho ops M i) (read_file_data_chirho (plain_ops M) M i)"
  unfolding read_file_data_chirho_def read_leaf_extents_chirho_def read_extent_tree_chirho_def Let_def
  by (intro implements_intro)

lemma descend_on_plain [implements_intro]:
  "implements rel (descend_cached ops lb d e) (descend_cached (plain_ops M) lb d e)"
proof (induction "unat e" arbitrary: d e)
  case 0
  then have "e = 0" by (simp add: unat_eq_0)
  then show ?case
    unfolding descend_cached.simps [of _ _ d e] by (simp add: implements_intro split: ExtentNodeTargetChirho.split)
next
  case (Suc n)
  then have "unat (e - 1) = n" by (metis diff_Suc_1 nat.distinct(1) unat_0 unat_pred_word)
  then have "implements rel (descend_cached ops lb c (e - 1)) (descend_cached (plain_ops M) lb c (e - 1))" for c
    using Suc.hyps(1) [of "e - 1"] by simp
  then show ?case
    unfolding descend_cached.simps [of _ _ d e] by (simp add: implements_intro split: ExtentNodeTargetChirho.split)
qed

lemma read_logical_on_plain [implements_intro]:
  "implements rel (read_block_by_logical_into_chirho ops i lb n) (read_block_by_logical_into_chirho (plain_ops M) i lb n)"
  unfolding read_block_by_logical_into_chirho_def find_phys_block_chirho_def Let_def by (intro implements_intro)

lemma alloc_groups_on_plain [implements_intro]:
  "implements rel (alloc_groups ops M needed g gds acc) (alloc_groups (plain_ops M) M needed g gds acc)"
  by (induction gds arbitrary: g acc) (simp_all add: Let_def implements_intro)

lemma write_data_blocks_on_plain [implements_intro]:
  "implements rel (write_data_blocks ops M d i bl) (write_data_blocks (plain_ops M) M d i bl)"
  by (induction bl arbitrary: i) (simp_all add: implements_intro)

lemma write_file_data_on_plain [implements_intro]:
  "implements rel (write_file_data_chirho ops M ino d) (write_file_data_chirho (plain_ops M) M ino d)"
  unfolding write_file_data_chirho_def Let_def by (intro implements_intro)

lemma truncate_file_on_plain [implements_intro]:
  "implements rel (truncate_file_chirho ops M ino) (truncate_file_chirho (plain_ops M) M ino)"
  unfolding truncate_file_chirho_def by (intro implements_intro)

end

section \<open>Files on disk\<close>

definition view :: "Ext4MountChirho \<Rightarrow> ext4_state \<Rightarrow> plain" where "view M st = \<lparr>blk = disk_block M st, wild = False\<rparr>"

lemma models_view: "coherent M st \<Longrightarrow> block_size_ok M \<Longrightarrow> models M st (view M st)"
  by (simp add: models_def view_def)

lemma implements_run:
  assumes "implements rel m m'" "rel s P" "m' P = (r, P')" "\<not> wild P'"
  shows "\<exists>s'. m s = (r, s') \<and> rel s' P'"
  using assms by (metis implements_def prod.collapse fst_conv snd_conv)

lemma models_free_list:
  assumes "models M st P" "\<forall>b\<in>set (bitmaps M). in_range M b"
  shows "free_list M (view M st) = free_list M P"
  unfolding free_list_def by (rule free_from_cong) (use assms in \<open>auto simp: models_def view_def bitmaps_def\<close>)

text \<open>C5. Files read back as they were written.  On a coherent cache over a volume whose
  metadata blocks are marked used, writing up to 32767 blocks to an inode with extents takes
  the first free blocks in ascending order.  It answers \<^verbatim>\<open>NoSpace\<close> when there are too few and
  \<^verbatim>\<open>Unsupported\<close> when they are not consecutive; otherwise it succeeds, and reading the inode
  and its data through the cache returns exactly the data written.  In every case the cache
  stays coherent, the blocks taken are gone from the free list, no block changes but the
  bitmaps, those taken and the inode's, and in the latter only the 128 bytes of the inode.\<close>

theorem ext4_file_reads_back:
  assumes "coherent M st" "volume_ok M (view M st)" "inode_ok M (view M st) ino" "length d \<le> 32767 * bs M"
  shows "\<exists>st'. write_file_data_chirho (cached_ops M) M ino d st = (write_result M (view M st) d, st') \<and> coherent M st' \<and>
    volume_ok M (view M st') \<and> inode_ok M (view M st') ino \<and>
    free_list M (view M st') = drop (blocks_needed M d) (free_list M (view M st)) \<and>
    (\<forall>b. in_range M b \<longrightarrow> b \<notin> set (bitmaps M) \<longrightarrow> b \<notin> set (take (blocks_needed M d) (free_list M (view M st))) \<longrightarrow>
       b \<noteq> inode_block M ino \<longrightarrow> disk_block M st' b = disk_block M st b) \<and>
    (\<forall>f. f \<in> {take (inode_offset M ino), drop (inode_offset M ino + 128)} \<longrightarrow>
       f (disk_block M st' (inode_block M ino)) = f (disk_block M st (inode_block M ino))) \<and>
    (write_result M (view M st) d = Inr () \<longrightarrow>
       fst (bindE (read_inode_chirho (cached_ops M) M ino) (read_file_data_chirho (cached_ops M) M) st') = Inr d)"
proof -
  let ?P = "view M st" and ?ib = "inode_block M ino" and ?off = "inode_offset M ino"
  have bso: "block_size_ok M" and range: "\<forall>b\<in>set (bitmaps M). in_range M b" using assms(2) by (auto simp: volume_ok_def)
  note m = models_view [OF assms(1) bso]
  obtain P' where P': "write_file_data_chirho (plain_ops M) M ino d ?P = (write_result M ?P d, P')" "wild P' = wild ?P" "full_blocks M P'"
    "free_list M P' = drop (blocks_needed M d) (free_list M ?P)"
    "\<forall>b. b \<notin> set (bitmaps M) \<union> set (take (blocks_needed M d) (free_list M ?P)) \<union> {?ib} \<longrightarrow> blk P' b = blk ?P b"
    "take ?off (blk P' ?ib) = take ?off (blk ?P ?ib)" "drop (?off + 128) (blk P' ?ib) = drop (?off + 128) (blk ?P ?ib)"
    "uses_extents_chirho (inode_at (blk P' ?ib) ?off)"
    "write_result M ?P d = Inr () \<longrightarrow>
       bindE (read_inode_chirho (plain_ops M) M ino) (read_file_data_chirho (plain_ops M) M) P' = (Inr d, P')"
    using write_file_plain [OF assms(2-)] by blast
  have w: "\<not> wild P'" using P'(2) by (simp add: view_def)
  obtain st' where st': "write_file_data_chirho (cached_ops M) M ino d st = (write_result M ?P d, st')" "models M st' P'"
    using implements_run [OF cached.write_file_data_on_plain m P'(1) w] by blast
  have coh: "coherent M st'" and blk': "in_range M b \<Longrightarrow> disk_block M st' b = blk P' b" for b
    using st'(2) by (auto simp: models_def)
  have ib: "in_range M ?ib" using assms(3) by (simp add: inode_ok_def)
  have fl: "free_list M (view M st') = drop (blocks_needed M d) (free_list M ?P)"
    using models_free_list [OF st'(2) range] P'(4) by simp
  have full: "full_blocks M (view M st')" using length_disk_block [OF coh bso] by (simp add: full_blocks_def view_def)
  have vol: "volume_ok M (view M st')"
    using assms(2) full fl by (auto simp: volume_ok_def dest: in_set_dropD)
  have ino: "inode_ok M (view M st') ino"
    using assms(3) P'(8) fl blk' [OF ib] by (auto simp: inode_ok_def view_def dest: in_set_dropD)
  have readback: "fst (bindE (read_inode_chirho (cached_ops M) M ino) (read_file_data_chirho (cached_ops M) M) st') = Inr d"
    if "write_result M ?P d = Inr ()"
    using implements_run [OF implements_bind [OF cached.read_inode_plain cached.read_file_data_on_plain] st'(2) _ w] P'(9) that by fastforce
  show ?thesis
    using st'(1) coh vol ino fl readback P'(5-7) blk' blk' [OF ib] by (intro exI [of _ st']) (auto simp: view_def)
qed

text \<open>A volume with one group of 16 blocks of 1024 bytes, of which 12 are free.\<close>

definition demo_mount :: Ext4MountChirho where
  "demo_mount = \<lparr>sb_chirho = \<lparr>s_inodes_count_chirho = 8, s_blocks_count_lo_chirho = 17, s_free_blocks_count_lo_chirho = 12,
      s_first_data_block_chirho = 1, s_log_block_size_chirho = 0, s_blocks_per_group_chirho = 16, s_inodes_per_group_chirho = 8,
      s_magic_chirho = 0xEF53, s_rev_level_chirho = 1, s_inode_size_chirho = 128, s_feature_compat_chirho = 0,
      s_feature_incompat_chirho = 0x40, s_desc_size_chirho = 32, s_blocks_count_hi_chirho = 0, s_free_blocks_count_hi_chirho = 0\<rparr>,
    group_descs_chirho = [\<lparr>bg_block_bitmap_lo_chirho = 3, bg_inode_bitmap_lo_chirho = 2, bg_inode_table_lo_chirho = 4,
      bg_free_blocks_count_lo_chirho = 12, bg_free_inodes_count_lo_chirho = 7, bg_block_bitmap_hi_chirho = 0,
      bg_inode_bitmap_hi_chirho = 0, bg_inode_table_hi_chirho = 0, bg_free_blocks_count_hi_chirho = 0,
      bg_free_inodes_count_hi_chirho = 0\<rparr>],
    block_size_chirho = 1024, device_id_chirho = 0, mode_chirho = MountReadWriteChirho\<rparr>"

definition demo_state :: ext4_state where
  "demo_state = \<lparr>sectors = (\<lambda>s. if s = 6 then 0x0F # replicate 511 0
       else if s = 8 then replicate 34 0 @ [8] @ replicate 477 0 else replicate 512 0),
     bad_sector = (\<lambda>_. False), PAGE_CACHE_CHIRHO = page_cache_new_chirho 4\<rparr>"

lemma free_locals_short:
  "unat pg \<le> 8 * length bm \<Longrightarrow> free_locals pg bm = filter (\<lambda>n. \<not> bit_used bm n) [0..<unat pg]"
proof -
  assume le: "unat pg \<le> 8 * length bm"
  have "[0..<8 * length bm] = [0..<unat pg] @ [unat pg..<8 * length bm]"
    by (metis le le_add_diff_inverse upt_add_eq_append zero_le)
  moreover have "filter (\<lambda>n. n < unat pg \<and> \<not> bit_used bm n) [unat pg..<8 * length bm] = []" by (auto simp: filter_empty_conv)
  moreover have "filter (\<lambda>n. n < unat pg \<and> \<not> bit_used bm n) [0..<unat pg] = filter (\<lambda>n. \<not> bit_used bm n) [0..<unat pg]"
    by (rule filter_cong) auto
  ultimately show ?thesis by (simp add: free_locals_def)
qed

lemma demo_blocks:
  "bs demo_mount = 1024" "bitmaps demo_mount = [3]" "inode_block demo_mount 1 = 4" "inode_offset demo_mount 1 = 0" "group_of demo_mount 1 = 0"
  by (simp_all add: bs_def demo_mount_def bitmaps_def block_bitmap_chirho_def lo_hi_def has_64bit_chirho_def INCOMPAT_64BIT_CHIRHO_def
      inode_block_def inode_offset_def group_of_def inode_to_group_chirho_def inode_table_chirho_def inode_table_offset_chirho_def)

lemma demo_coherent: "coherent demo_mount demo_state"
  by (simp add: coherent_def demo_state_def btree_ok_def page_cache_new_chirho_def contents_def)

lemma demo_disk:
  "disk_block demo_mount demo_state 3 = 0x0F # replicate 1023 0"
  "disk_block demo_mount demo_state 4 = replicate 34 0 @ [8] @ replicate 989 0"
  by (simp_all add: disk_block_def demo_blocks start_sector_def demo_state_def upt_rec replicate_add [symmetric])

lemma demo_free: "free_list demo_mount (view demo_mount demo_state) = [5, 6, 7, 8, 9, 10, 11, 12, 13, 14, 15, 16]"
proof -
  have "free_locals 16 (disk_block demo_mount demo_state 3) = [4, 5, 6, 7, 8, 9, 10, 11, 12, 13, 14, 15]"
    by (simp add: free_locals_short demo_disk bit_used_def upt_rec nth_Cons' bit_simps)
  moreover obtain gd where "group_descs_chirho demo_mount = [gd]" "free_blocks_count_chirho (wide demo_mount) gd \<noteq> 0"
    "bitmap_of demo_mount gd = 3"
    by (simp add: demo_mount_def free_blocks_count_chirho_def block_bitmap_chirho_def lo_hi_def has_64bit_chirho_def INCOMPAT_64BIT_CHIRHO_def)
  moreover have "per_group demo_mount = 16" "first_data demo_mount = 1" by (simp_all add: demo_mount_def)
  ultimately show ?thesis by (simp add: free_list_def group_free_def view_def block_no_def)
qed

lemma demo_ok:
  "volume_ok demo_mount (view demo_mount demo_state)" "inode_ok demo_mount (view demo_mount demo_state) 1"
  "write_result demo_mount (view demo_mount demo_state) [1, 2, 3] = Inr ()"
proof -
  have so: "block_size_ok demo_mount" by (simp add: block_size_ok_def demo_blocks)
  have f: "full_blocks demo_mount (view demo_mount demo_state)"
    using length_disk_block [OF demo_coherent so] by (simp add: full_blocks_def view_def)
  have g: "length (group_descs_chirho demo_mount) = 1" "per_group demo_mount = 16" "first_data demo_mount = 1"
    "mode_chirho demo_mount = MountReadWriteChirho" by (simp_all add: demo_mount_def)
  show "volume_ok demo_mount (view demo_mount demo_state)"
    using so f g by (simp add: volume_ok_def demo_blocks demo_free in_range_def)
  have "uses_extents_chirho (inode_at (disk_block demo_mount demo_state 4) 0)"
  proof -
    have "take 4 (drop 32 (disk_block demo_mount demo_state 4)) = replicate 2 0 @ [8, 0]"
      unfolding demo_disk by (simp add: take_Cons')
    moreover have "replicate 2 (0 :: u8) = [0, 0]" unfolding numeral_2_eq_2 by simp
    ultimately have "u32_at (disk_block demo_mount demo_state 4) 32 = 0x80000" unfolding u32_at_def by simp
    then show ?thesis by (simp add: uses_extents_chirho_def inode_at_def)
  qed
  then show "inode_ok demo_mount (view demo_mount demo_state) 1"
    using demo_free by (simp add: inode_ok_def demo_blocks in_range_def g(1) view_def)
  show "write_result demo_mount (view demo_mount demo_state) [1, 2, 3] = Inr ()"
    by (simp add: write_result_def blocks_needed_def demo_blocks demo_free)
qed

theorem ext4_file_reads_back_witness:
  "\<exists>st'. write_file_data_chirho (cached_ops demo_mount) demo_mount 1 [1, 2, 3] demo_state = (Inr (), st') \<and>
    free_list demo_mount (view demo_mount st') = [6, 7, 8, 9, 10, 11, 12, 13, 14, 15, 16] \<and>
    fst (bindE (read_inode_chirho (cached_ops demo_mount) demo_mount 1)
      (read_file_data_chirho (cached_ops demo_mount) demo_mount) st') = Inr [1, 2, 3]"
proof -
  have len: "length [1 :: u8, 2, 3] \<le> 32767 * bs demo_mount" "blocks_needed demo_mount [1, 2, 3] = 1"
    by (simp_all add: demo_blocks blocks_needed_def)
  show ?thesis
    using ext4_file_reads_back [OF demo_coherent demo_ok(1,2) len(1)] unfolding demo_ok(3) demo_free len(2) by auto
qed

end
