(* ===== verification/Ext4_Dir.thy ===== *)
theory Ext4_Dir
  imports Ext4_File
begin

text \<open>
  Directories of \<^verbatim>\<open>fs_chirho/ext4_chirho.rs\<close>: parsing of directory data, lookup of a name and
  of a path, insertion of an entry and creation of a file.  Shown: records parse back as
  they are laid out, lookup finds the first entry with a name, an insertion adds one entry
  and keeps the others, and a created file is listed in its directory and is empty.
\<close>

section \<open>Names\<close>

text \<open>Well-formed UTF-8, as \<^verbatim>\<open>str::from_utf8\<close> accepts it: the range of the second byte and the
  number of bytes after it depend on the first.\<close>

definition utf8_cont :: "u8 \<Rightarrow> bool" where "utf8_cont b \<longleftrightarrow> 0x80 \<le> b \<and> b \<le> 0xBF"

definition utf8_lead :: "u8 \<Rightarrow> (u8 \<times> u8 \<times> nat) option" where
  "utf8_lead b =
     (if 0xC2 \<le> b \<and> b \<le> 0xDF then Some (0x80, 0xBF, 0)
      else if b = 0xE0 then Some (0xA0, 0xBF, 1)
      else if b = 0xED then Some (0x80, 0x9F, 1)
      else if 0xE1 \<le> b \<and> b \<le> 0xEF then Some (0x80, 0xBF, 1)
      else if b = 0xF0 then Some (0x90, 0xBF, 2)
      else if 0xF1 \<le> b \<and> b \<le> 0xF3 then Some (0x80, 0xBF, 2)
      else if b = 0xF4 then Some (0x80, 0x8F, 2)
      else None)"

fun utf8_valid :: "bytes \<Rightarrow> bool" where
  "utf8_valid [] = True"
| "utf8_valid (b # d) =
     (if b < 0x80 then utf8_valid d
      else case utf8_lead b of
             None \<Rightarrow> False
           | Some (lo, hi, n) \<Rightarrow>
               (case d of
                  [] \<Rightarrow> False
                | c # d1 \<Rightarrow> lo \<le> c \<and> c \<le> hi \<and> n \<le> length d1 \<and> list_all utf8_cont (take n d1) \<and> utf8_valid (drop n d1)))"

section \<open>Parsing\<close>

record DirEntryInfoChirho =
  de_inode_chirho :: u32
  de_name_chirho :: bytes
  de_file_type_chirho :: u8

text \<open>An entry is added when its name lies in the data; a name that is not UTF-8 becomes a
  question mark.\<close>

function parse_from :: "bytes \<Rightarrow> nat \<Rightarrow> DirEntryInfoChirho list" where
  "parse_from d off =
     (if off + 8 \<le> length d \<and> u16_at d (off + 4) \<noteq> 0
      then let ino = u32_at d off; nl = unat (u8_at d (off + 6)); name = take nl (drop (off + 8) d) in
        (if ino \<noteq> 0 \<and> nl > 0 \<and> off + 8 + nl \<le> length d
         then [\<lparr>de_inode_chirho = ino, de_name_chirho = (if utf8_valid name then name else [0x3F]),
                de_file_type_chirho = u8_at d (off + 7)\<rparr>] else []) @
        parse_from d (off + unat (u16_at d (off + 4)))
      else [])"
  by pat_completeness auto

termination
  by (relation "measure (\<lambda>(d, off). length d - off)") (auto simp: unat_gt_0 intro!: diff_less_mono2)

declare parse_from.simps [simp del]

definition parse_dir_entries_chirho :: "bytes \<Rightarrow> DirEntryInfoChirho list" where
  "parse_dir_entries_chirho d = parse_from d 0"

definition read_dir_entries_chirho ::
  "'s block_ops \<Rightarrow> Ext4MountChirho \<Rightarrow> u32 \<Rightarrow> ('s, unit, DirEntryInfoChirho list) io" where
  "read_dir_entries_chirho ops M ino =
     bindE (read_inode_chirho ops M ino) (\<lambda>i.
     if \<not> is_dir_chirho i then fail ()
     else bindE (read_file_data_chirho ops M i) (\<lambda>d. ret (parse_dir_entries_chirho d)))"

section \<open>Lookup\<close>

function scan_block :: "bytes \<Rightarrow> nat \<Rightarrow> bytes \<Rightarrow> nat \<Rightarrow> DirEntryInfoChirho option" where
  "scan_block buf block_end nm off =
     (if off + 8 \<le> block_end \<and> u16_at buf (off + 4) \<noteq> 0
      then let ino = u32_at buf off; nl = unat (u8_at buf (off + 6)); name = take nl (drop (off + 8) buf) in
        if ino \<noteq> 0 \<and> nl > 0 \<and> off + 8 + nl \<le> 4096 \<and> utf8_valid name \<and> name = nm
        then Some \<lparr>de_inode_chirho = ino, de_name_chirho = name, de_file_type_chirho = u8_at buf (off + 7)\<rparr>
        else scan_block buf block_end nm (off + unat (u16_at buf (off + 4)))
      else None)"
  by pat_completeness auto

termination
  by (relation "measure (\<lambda>(_, block_end, _, off). block_end - off)") (auto simp: unat_gt_0 intro!: diff_less_mono2)

declare scan_block.simps [simp del]

text \<open>The buffer is reused from block to block; a read overwrites its beginning.  The index
  counts up while \<^verbatim>\<open>n\<close> blocks remain.\<close>

fun lookup_blocks :: "'s block_ops \<Rightarrow> Ext4InodeChirho \<Rightarrow> nat \<Rightarrow> bytes \<Rightarrow> nat \<Rightarrow> nat \<Rightarrow> bytes \<Rightarrow>
    ('s, unit, DirEntryInfoChirho) io" where
  "lookup_blocks ops i dir_size nm k 0 buf = fail ()"
| "lookup_blocks ops i dir_size nm k (Suc n) buf =
     bindE (attempt (read_block_by_logical_into_chirho ops i (of_nat k) 4096)) (\<lambda>r.
     case r of
       None \<Rightarrow> lookup_blocks ops i dir_size nm (Suc k) n buf
     | Some b \<Rightarrow>
         (let buf1 = b @ drop (length b) buf;
              block_end = (if n = 0 then dir_size - k * 4096 else 4096) in
          case scan_block buf1 block_end nm 0 of
            Some e \<Rightarrow> ret e
          | None \<Rightarrow> lookup_blocks ops i dir_size nm (Suc k) n buf1))"

definition lookup_in_dir_chirho ::
  "'s block_ops \<Rightarrow> Ext4MountChirho \<Rightarrow> u32 \<Rightarrow> bytes \<Rightarrow> ('s, unit, DirEntryInfoChirho) io" where
  "lookup_in_dir_chirho ops M ino nm =
     bindE (read_inode_chirho ops M ino) (\<lambda>i.
     if \<not> is_dir_chirho i then fail ()
     else lookup_blocks ops i (unat (size_chirho i)) nm 0 (unat ((size_chirho i + 4095) div 4096)) (replicate 4096 0))"

fun split_slash :: "bytes \<Rightarrow> bytes list" where
  "split_slash [] = [[]]"
| "split_slash (c # cs) = (case split_slash cs of
     [] \<Rightarrow> [[c]]
   | p # ps \<Rightarrow> if c = 0x2F then [] # p # ps else (c # p) # ps)"

fun walk_path :: "'s block_ops \<Rightarrow> Ext4MountChirho \<Rightarrow> bytes list \<Rightarrow> u32 \<Rightarrow> ('s, unit, u32) io" where
  "walk_path ops M [] ino = ret ino"
| "walk_path ops M (c # cs) ino =
     (if c = [] \<or> c = [0x2E] \<or> c = [0x2E, 0x2E] then walk_path ops M cs ino
      else bindE (lookup_in_dir_chirho ops M ino c) (\<lambda>e. walk_path ops M cs (de_inode_chirho e)))"

definition resolve_path_chirho :: "'s block_ops \<Rightarrow> Ext4MountChirho \<Rightarrow> bytes \<Rightarrow> ('s, unit, u32) io" where
  "resolve_path_chirho ops M path = walk_path ops M (split_slash path) EXT4_ROOT_INO_CHIRHO"

section \<open>Insertion\<close>

text \<open>An index out of range stops the kernel.\<close>

datatype 'e raised = Err 'e | Panicked

definition raises :: "('s, 'e, 'a) io \<Rightarrow> ('s, 'e raised, 'a) io" where
  "raises m s = (case m s of (Inl e, s1) \<Rightarrow> (Inl (Err e), s1) | (Inr x, s1) \<Rightarrow> (Inr x, s1))"

definition dir_rec_len :: "bytes \<Rightarrow> u16" where
  "dir_rec_len nm = ((8 + ucast (of_nat (length nm) :: u8) + 3) div 4) * 4"

definition entry_bytes :: "u32 \<Rightarrow> bytes \<Rightarrow> u8 \<Rightarrow> bytes" where
  "entry_bytes ino nm ft =
     (let e = le_bytes 4 (unat ino) @ le_bytes 2 (unat (dir_rec_len nm)) @ [of_nat (length nm), ft] @ nm
      in e @ replicate (unat (dir_rec_len nm) - length e) 0)"

text \<open>The offset of the last record from \<^verbatim>\<open>off\<close> on.\<close>

function last_record :: "bytes \<Rightarrow> nat \<Rightarrow> nat \<Rightarrow> nat" where
  "last_record d off lst =
     (if off + 8 \<le> length d \<and> u16_at d (off + 4) \<noteq> 0
      then last_record d (off + unat (u16_at d (off + 4))) off else lst)"
  by pat_completeness auto

termination
  by (relation "measure (\<lambda>(d, off, _). length d - off)") (auto simp: unat_gt_0 intro!: diff_less_mono2)

declare last_record.simps [simp del]

text \<open>Overwriting bytes in place.\<close>

definition put :: "nat \<Rightarrow> bytes \<Rightarrow> bytes \<Rightarrow> bytes" where
  "put off e d = take off d @ e @ drop (off + length e) d"

text \<open>The data of a directory that is not empty, with the new entry in the space after the
  last record or, where that is too small, at the end.  The subtraction wraps.\<close>

definition insert_entry :: "Ext4MountChirho \<Rightarrow> bytes \<Rightarrow> bytes \<Rightarrow> u16 \<Rightarrow> bytes option" where
  "insert_entry M d e rec_len =
     (let last_start = ((length d - 1) div bs M) * bs M;
          lst = last_record d last_start last_start in
      if lst + 6 \<ge> length d then None
      else
        let name_len = unat (u8_at d (lst + 6));
            actual = ((8 + name_len + 3) div 4) * 4;
            old = u16_at d (lst + 4);
            space = (ucast old - of_nat actual :: u64) in
        Some (if space \<ge> ucast rec_len
          then
            let d1 = put (lst + 4) (le_bytes 2 actual) d;
                e1 = put 4 (le_bytes 2 (unat (ucast space :: u16))) e;
                new_off = lst + actual in
            if new_off + length e1 \<le> length d1 then put new_off e1 d1 else d1
          else d @ e))"

definition add_dir_entry_chirho ::
  "'s block_ops \<Rightarrow> Ext4MountChirho \<Rightarrow> u32 \<Rightarrow> u32 \<Rightarrow> bytes \<Rightarrow> u8 \<Rightarrow> ('s, Ext4ErrorChirho raised, unit) io" where
  "add_dir_entry_chirho ops M dir_ino child_ino nm ft =
     bindE (raises (ok_or (read_inode_chirho ops M dir_ino) NotFoundChirho)) (\<lambda>i.
     if \<not> is_dir_chirho i then fail (Err NotDirectoryChirho)
     else bindE (raises (ok_or (read_file_data_chirho ops M i) IoErrorChirho)) (\<lambda>d.
     case (if d = [] then Some (entry_bytes child_ino nm ft)
           else insert_entry M d (entry_bytes child_ino nm ft) (dir_rec_len nm)) of
       None \<Rightarrow> fail Panicked
     | Some d1 \<Rightarrow>
         bindE (raises (write_file_data_chirho ops M dir_ino d1)) (\<lambda>_.
         bindE (raises (ok_or (read_inode_chirho ops M dir_ino) IoErrorChirho)) (\<lambda>i1.
         raises (write_inode_chirho ops M dir_ino (i1\<lparr>i_size_lo_chirho := of_nat (length d1)\<rparr>))))))"

section \<open>Creation\<close>

fun find_inode :: "'s block_ops \<Rightarrow> Ext4MountChirho \<Rightarrow> nat \<Rightarrow> Ext4GroupDescChirho list \<Rightarrow> ('s, Ext4ErrorChirho, u32) io" where
  "find_inode ops M g [] = fail NoSpaceChirho"
| "find_inode ops M g (gd # gds) =
     (if free_inodes_count_chirho (wide M) gd = 0 then find_inode ops M (Suc g) gds
      else let b = inode_bitmap_chirho (wide M) gd in
        bindE (ok_or (rd ops b) IoErrorChirho) (\<lambda>bm.
        case alloc_inode_in_group_chirho bm (of_nat g) (s_inodes_per_group_chirho (sb_chirho M)) of
          (Some ino, bm1) \<Rightarrow> bindE (wr ops b bm1) (\<lambda>_. ret ino)
        | (None, _) \<Rightarrow> find_inode ops M (Suc g) gds))"

definition new_file_inode :: "u16 \<Rightarrow> Ext4InodeChirho" where
  "new_file_inode mode = \<lparr>i_mode_chirho = S_IFREG_CHIRHO OR mode, i_uid_chirho = 0, i_size_lo_chirho = 0,
     i_atime_chirho = 0, i_ctime_chirho = 0, i_mtime_chirho = 0, i_dtime_chirho = 0, i_gid_chirho = 0,
     i_links_count_chirho = 1, i_blocks_lo_chirho = 0, i_flags_chirho = 0x00080000, i_osd1_chirho = 0,
     i_block_chirho = 0xF30A # 4 # replicate 13 0, i_generation_chirho = 0, i_file_acl_lo_chirho = 0,
     i_size_high_chirho = 0, i_obso_faddr_chirho = 0, i_osd2_chirho = replicate 12 0\<rparr>"

definition create_file_chirho ::
  "'s block_ops \<Rightarrow> Ext4MountChirho \<Rightarrow> u32 \<Rightarrow> bytes \<Rightarrow> u16 \<Rightarrow> ('s, Ext4ErrorChirho raised, u32) io" where
  "create_file_chirho ops M parent nm mode =
     (if mode_chirho M = MountReadOnlyChirho then fail (Err Ext4ReadOnlyChirho)
      else bindE (raises (find_inode ops M 0 (group_descs_chirho M))) (\<lambda>ino.
           bindE (raises (write_inode_chirho ops M ino (new_file_inode mode))) (\<lambda>_.
           bindE (add_dir_entry_chirho ops M parent ino nm FT_REG_FILE_CHIRHO) (\<lambda>_. ret ino))))"

section \<open>Records\<close>

record slot =
  sl_inode :: u32
  sl_type :: u8
  sl_name :: bytes
  sl_pad :: bytes

definition sl_len :: "slot \<Rightarrow> nat" where "sl_len s = 8 + length (sl_name s) + length (sl_pad s)"

definition slot_bytes :: "slot \<Rightarrow> bytes" where
  "slot_bytes s = le_bytes 4 (unat (sl_inode s)) @ le_bytes 2 (sl_len s) @ [of_nat (length (sl_name s)), sl_type s] @ sl_name s @ sl_pad s"

abbreviation slots_bytes :: "slot list \<Rightarrow> bytes" where "slots_bytes ss \<equiv> concat (map slot_bytes ss)"

definition slot_ok :: "slot \<Rightarrow> bool" where
  "slot_ok s \<longleftrightarrow> sl_len s < 65536 \<and> length (sl_name s) < 256 \<and> 4 dvd sl_len s"

definition slot_info :: "slot \<Rightarrow> DirEntryInfoChirho" where
  "slot_info s = \<lparr>de_inode_chirho = sl_inode s, de_name_chirho = (if utf8_valid (sl_name s) then sl_name s else [0x3F]),
     de_file_type_chirho = sl_type s\<rparr>"

definition slot_live :: "slot \<Rightarrow> bool" where "slot_live s \<longleftrightarrow> sl_inode s \<noteq> 0 \<and> sl_name s \<noteq> []"

definition infos :: "slot list \<Rightarrow> DirEntryInfoChirho list" where "infos ss = map slot_info (filter slot_live ss)"

lemma length_slot_bytes [simp]: "length (slot_bytes s) = sl_len s"
  by (simp add: slot_bytes_def sl_len_def)

lemma sl_len_pos: "8 \<le> sl_len s" by (simp add: sl_len_def)

lemma slot_fields:
  assumes "slot_ok s" "length xs = off"
  shows "u32_at (xs @ slot_bytes s @ ys) off = sl_inode s"
    "u16_at (xs @ slot_bytes s @ ys) (off + 4) = of_nat (sl_len s)" "unat (u16_at (xs @ slot_bytes s @ ys) (off + 4)) = sl_len s"
    "unat (u8_at (xs @ slot_bytes s @ ys) (off + 6)) = length (sl_name s)"
    "u8_at (xs @ slot_bytes s @ ys) (off + 7) = sl_type s"
    "take (length (sl_name s)) (drop (off + 8) (xs @ slot_bytes s @ ys)) = sl_name s"
proof -
  show "u32_at (xs @ slot_bytes s @ ys) off = sl_inode s"
    using assms(2) by (simp add: u32_at_append slot_bytes_def u32_at_here)
  have "u16_at (le_bytes 2 n @ zs) 0 = of_nat n" for n zs
    using of_nat_mod_word [where 'a = 16] by (simp add: u16_at_def le_nat_bytes)
  then show l: "u16_at (xs @ slot_bytes s @ ys) (off + 4) = of_nat (sl_len s)"
    using assms(2) by (simp add: u16_at_append slot_bytes_def)
  show "unat (u16_at (xs @ slot_bytes s @ ys) (off + 4)) = sl_len s"
    unfolding l using assms(1) by (intro unat_of_nat_small) (simp add: slot_ok_def)
  have nl: "length (sl_name s) < 2 ^ LENGTH(8)" using assms(1) by (simp add: slot_ok_def)
  show "unat (u8_at (xs @ slot_bytes s @ ys) (off + 6)) = length (sl_name s)" "u8_at (xs @ slot_bytes s @ ys) (off + 7) = sl_type s"
    "take (length (sl_name s)) (drop (off + 8) (xs @ slot_bytes s @ ys)) = sl_name s"
    using assms(2) unat_of_nat_small [OF nl] by (simp_all add: u8_at_def slot_bytes_def)
qed

lemma parse_slots: "list_all slot_ok ss \<Longrightarrow> parse_from (xs @ slots_bytes ss) (length xs) = infos ss"
proof (induction ss arbitrary: xs)
  case Nil
  then show ?case by (simp add: parse_from.simps [of xs] infos_def)
next
  case (Cons s ss)
  note F = slot_fields [of s xs "length xs" "slots_bytes ss"]
  have ok: "slot_ok s" "list_all slot_ok ss" using Cons.prems by auto
  have "u16_at (xs @ slot_bytes s @ slots_bytes ss) (length xs + 4) \<noteq> 0"
    using F(3) [OF ok(1) refl] sl_len_pos [of s] by auto
  moreover have "parse_from (xs @ slot_bytes s @ slots_bytes ss) (length xs + sl_len s) = infos ss"
    using Cons.IH [OF ok(2), of "xs @ slot_bytes s"] by simp
  ultimately show ?case
    using F(1,3-6) [OF ok(1) refl] sl_len_pos [of s]
    by (subst parse_from.simps) (auto simp: infos_def slot_live_def slot_info_def Let_def sl_len_def)
qed

lemma last_record_slots:
  "list_all slot_ok (ss @ [s]) \<Longrightarrow>
     last_record (xs @ slots_bytes ss @ slot_bytes s) (length xs) l = length xs + length (slots_bytes ss)"
proof (induction ss arbitrary: xs l)
  case Nil
  note F = slot_fields [of s xs "length xs" "[]"]
  have "u16_at (xs @ slot_bytes s) (length xs + 4) \<noteq> 0" "unat (u16_at (xs @ slot_bytes s) (length xs + 4)) = sl_len s"
    using F(3) sl_len_pos [of s] Nil by auto
  then show ?case
    using sl_len_pos [of s] by (simp add: last_record.simps [of _ "length xs"] last_record.simps [of _ "length xs + sl_len s"])
next
  case (Cons t ss)
  note F = slot_fields [of t xs "length xs" "slots_bytes ss @ slot_bytes s"]
  have "u16_at (xs @ slot_bytes t @ slots_bytes ss @ slot_bytes s) (length xs + 4) \<noteq> 0"
    "unat (u16_at (xs @ slot_bytes t @ slots_bytes ss @ slot_bytes s) (length xs + 4)) = sl_len t"
    using F(3) sl_len_pos [of t] Cons.prems by auto
  moreover have "last_record (xs @ slot_bytes t @ slots_bytes ss @ slot_bytes s) (length xs + sl_len t) (length xs) =
      length xs + sl_len t + length (slots_bytes ss)"
    using Cons.IH [of "xs @ slot_bytes t" "length xs"] Cons.prems by simp
  ultimately show ?case using sl_len_pos [of t] by (simp add: last_record.simps [of _ "length xs"])
qed

section \<open>An inserted record\<close>

definition round4 :: "nat \<Rightarrow> nat" where "round4 n = ((8 + n + 3) div 4) * 4"

lemma round4: "8 + n \<le> round4 n" "4 dvd round4 n" "4 dvd k \<Longrightarrow> 8 + n \<le> k \<Longrightarrow> round4 n \<le> k"
proof -
  show "8 + n \<le> round4 n" unfolding round4_def by presburger
  show "4 dvd round4 n" by (simp add: round4_def)
  show "round4 n \<le> k" if "4 dvd k" "8 + n \<le> k" using that unfolding round4_def by presburger
qed

lemma dir_rec_len: "length nm < 256 \<Longrightarrow> unat (dir_rec_len nm) = round4 (length nm)"
proof -
  assume l: "length nm < 256"
  let ?w = "8 + ucast (of_nat (length nm) :: u8) + 3 :: u16"
  have "unat (of_nat (length nm) :: u8) = length nm" using l by (intro unat_of_nat_small) simp
  then have "(ucast (of_nat (length nm) :: u8) :: u16) = of_nat (length nm)" by (metis of_nat_unat)
  then have "?w = of_nat (8 + length nm + 3)" by simp
  moreover have "8 + length nm + 3 < 2 ^ LENGTH(16)" using l by simp
  ultimately have w: "unat ?w = 8 + length nm + 3" by (metis unat_of_nat_small)
  have "?w div 4 * 4 = of_nat (round4 (length nm))"
  proof -
    have "?w div 4 = of_nat ((8 + length nm + 3) div 4)" by (rule word_unat_eq_iff [THEN iffD2])
      (use l w in \<open>simp add: unat_div unat_of_nat take_bit_nat_eq_self\<close>)
    then show ?thesis by (simp add: round4_def)
  qed
  moreover have "round4 (length nm) < 2 ^ LENGTH(16)" using l by (simp add: round4_def)
  ultimately show ?thesis unfolding dir_rec_len_def by (metis unat_of_nat_small)
qed

definition new_slot :: "u32 \<Rightarrow> bytes \<Rightarrow> u8 \<Rightarrow> bytes \<Rightarrow> slot" where
  "new_slot ino nm ft rest = \<lparr>sl_inode = ino, sl_type = ft, sl_name = nm, sl_pad = replicate (round4 (length nm) - 8 - length nm) 0 @ rest\<rparr>"

lemma new_slot_len: "sl_len (new_slot ino nm ft rest) = round4 (length nm) + length rest"
  using round4(1) [of "length nm"] by (simp add: sl_len_def new_slot_def)

lemma entry_bytes_slot: "length nm < 256 \<Longrightarrow> entry_bytes ino nm ft = slot_bytes (new_slot ino nm ft [])"
  using new_slot_len [of ino nm ft "[]"]
  by (simp add: entry_bytes_def Let_def slot_bytes_def dir_rec_len) (simp add: new_slot_def)

lemma put_len: "put (length xs + 4) (le_bytes 2 n) (xs @ slot_bytes s @ ys) =
   xs @ le_bytes 4 (unat (sl_inode s)) @ le_bytes 2 n @ [of_nat (length (sl_name s)), sl_type s] @ sl_name s @ sl_pad s @ ys"
  by (simp add: put_def slot_bytes_def)

text \<open>The space after the last record is split off, or the record goes to the end.\<close>

lemma insert_entry_slots:
  assumes "list_all slot_ok (A @ B @ [s])" "length (slots_bytes A) = (length (slots_bytes (A @ B @ [s])) - 1) div bs M * bs M"
    and "length nm < 256"
  shows "\<exists>C. insert_entry M (slots_bytes (A @ B @ [s])) (entry_bytes ino nm ft) (dir_rec_len nm) = Some (slots_bytes (A @ B @ C)) \<and>
    list_all slot_ok C \<and> (\<exists>t u. C = [t, u] \<and> sl_inode t = sl_inode s \<and> sl_name t = sl_name s \<and> sl_type t = sl_type s \<and>
      sl_inode u = ino \<and> sl_name u = nm \<and> sl_type u = ft \<and>
      length (slots_bytes C) = (if round4 (length (sl_name s)) + round4 (length nm) \<le> sl_len s then sl_len s
         else sl_len s + round4 (length nm)))"
proof -
  let ?pre = "slots_bytes A @ slots_bytes B" and ?a = "round4 (length (sl_name s))" and ?r = "round4 (length nm)"
  let ?d = "?pre @ slot_bytes s"
  have ok: "slot_ok s" "list_all slot_ok (B @ [s])" using assms(1) by auto
  have lst: "last_record ?d (length (slots_bytes A)) (length (slots_bytes A)) = length ?pre"
    using last_record_slots [OF ok(2), of "slots_bytes A" "length (slots_bytes A)"] by simp
  note F = slot_fields [OF ok(1) refl, where xs = ?pre and ys = "[]", unfolded append_Nil2]
  have le: "?a \<le> sl_len s" using round4(3) [of "sl_len s" "length (sl_name s)"] ok(1) by (simp add: slot_ok_def sl_len_def)
  have small: "sl_len s < 2 ^ LENGTH(64)" "?r < 2 ^ LENGTH(64)" "?r < 65536"
    using ok(1) assms(3) by (simp_all add: slot_ok_def round4_def)
  define space :: u64 where "space = ucast (of_nat (sl_len s) :: u16) - of_nat ?a"
  have "unat (of_nat (sl_len s) :: u16) = sl_len s" using ok(1) by (intro unat_of_nat_small) (simp add: slot_ok_def)
  then have "(ucast (of_nat (sl_len s) :: u16) :: u64) = of_nat (sl_len s)" by (metis of_nat_unat)
  then have sp: "space = of_nat (sl_len s - ?a)" using le by (simp add: space_def of_nat_diff)
  then have usp: "unat space = sl_len s - ?a" using small(1) unat_of_nat_small [where 'a = 64, of "sl_len s - ?a"] by simp
  have "unat (ucast (dir_rec_len nm) :: u64) = ?r"
    using dir_rec_len [OF assms(3)] small(2) by (simp add: unsigned_ucast_eq take_bit_nat_eq_self)
  then have cmp: "ucast (dir_rec_len nm) \<le> space \<longleftrightarrow> ?r \<le> sl_len s - ?a" using usp by (simp add: word_le_nat_alt)
  have len16: "unat (ucast space :: u16) = sl_len s - ?a"
  proof -
    have "sl_len s - ?a < 2 ^ 16" using ok(1) by (simp add: slot_ok_def less_imp_diff_less)
    then show ?thesis using usp by (simp add: unsigned_ucast_eq take_bit_nat_eq_self)
  qed
  define e where "e = entry_bytes ino nm ft"
  have e: "e = slot_bytes (new_slot ino nm ft [])" "length e = ?r"
    using entry_bytes_slot [OF assms(3)] new_slot_len [of ino nm ft "[]"] by (simp_all add: e_def)
  have not_panic: "\<not> length ?pre + 6 \<ge> length ?d" using sl_len_pos [of s] by simp
  have run: "insert_entry M (slots_bytes (A @ B @ [s])) e (dir_rec_len nm) = Some (if ?r \<le> sl_len s - ?a
      then let d1 = put (length ?pre + 4) (le_bytes 2 ?a) ?d; e1 = put 4 (le_bytes 2 (sl_len s - ?a)) e in
        if length ?pre + ?a + length e1 \<le> length d1 then put (length ?pre + ?a) e1 d1 else d1
      else ?d @ e)"
  proof -
    have D: "slots_bytes (A @ B @ [s]) = ?d" by simp
    have st: "(length ?d - 1) div bs M * bs M = length (slots_bytes A)" using assms(2) unfolding D by (rule sym)
    show ?thesis
      unfolding D insert_entry_def Let_def st lst F(2,4) round4_def [symmetric] space_def [symmetric] cmp len16 if_not_P [OF not_panic]
      by (rule refl)
  qed
  show ?thesis
  proof (cases "?r \<le> sl_len s - ?a")
    case True
    let ?k = "?a - 8 - length (sl_name s)"
    define t where "t = s\<lparr>sl_pad := take ?k (sl_pad s)\<rparr>"
    define rest where "rest = drop ?k (sl_pad s)"
    define u where "u = new_slot ino nm ft (drop ?r rest)"
    have pad: "?k \<le> length (sl_pad s)" "8 + length (sl_name s) \<le> ?a" using le round4(1) by (simp_all add: sl_len_def)
    have tl: "sl_len t = ?a" using pad by (simp add: sl_len_def t_def)
    have rl: "length rest = sl_len s - ?a" using pad by (simp add: rest_def sl_len_def)
    have ul: "sl_len u = sl_len s - ?a" using True rl new_slot_len by (simp add: u_def)
    have d1: "put (length ?pre + 4) (le_bytes 2 ?a) ?d = ?pre @ slot_bytes t @ rest"
      using put_len [of ?pre ?a s "[]"] tl by (simp add: slot_bytes_def t_def rest_def)
    have e1: "put 4 (le_bytes 2 (sl_len s - ?a)) e @ drop ?r rest = slot_bytes u"
      using put_len [of "[]" "sl_len s - ?a" "new_slot ino nm ft []" "[]"] ul
      by (simp add: e(1) slot_bytes_def [of u]) (simp add: u_def new_slot_def)
    have el: "length (put 4 (le_bytes 2 (sl_len s - ?a)) e) = ?r"
      using e(2) round4(1) [of "length nm"] by (simp add: put_def)
    have "put (length ?pre + ?a) (put 4 (le_bytes 2 (sl_len s - ?a)) e) (?pre @ slot_bytes t @ rest) =
        ?pre @ slot_bytes t @ put 4 (le_bytes 2 (sl_len s - ?a)) e @ drop ?r rest"
      using tl el unfolding put_def [of "length ?pre + ?a"] by simp
    then have "insert_entry M (slots_bytes (A @ B @ [s])) e (dir_rec_len nm) = Some (slots_bytes (A @ B @ [t, u]))"
      using run True d1 e1 el tl rl by (simp add: Let_def)
    moreover have "slot_ok t" "slot_ok u"
      using ok(1) tl ul le round4(2) [of "length (sl_name s)"] assms(3)
      by (auto simp: slot_ok_def t_def u_def new_slot_def dvd_diff_nat)
    ultimately show ?thesis
      using True tl ul le by (intro exI [of _ "[t, u]"]) (auto simp: e_def t_def u_def new_slot_def)
  next
    case False
    let ?u = "new_slot ino nm ft []"
    have "slot_ok ?u" using new_slot_len [of ino nm ft "[]"] small(3) assms(3) round4(2)
      by (simp add: slot_ok_def) (simp add: new_slot_def)
    then show ?thesis
      using run False e ok(1) new_slot_len [of ino nm ft "[]"] le by (intro exI [of _ "[s, ?u]"]) (auto simp: e_def new_slot_def)
  qed
qed

definition dir_layout :: "Ext4MountChirho \<Rightarrow> slot list \<Rightarrow> bool" where
  "dir_layout M ss \<longleftrightarrow> list_all slot_ok ss \<and> (ss = [] \<or> (\<exists>A B. ss = A @ B \<and> B \<noteq> [] \<and>
     length (slots_bytes A) = (length (slots_bytes ss) - 1) div bs M * bs M))"

definition entry_ok :: "u32 \<Rightarrow> bytes \<Rightarrow> bool" where
  "entry_ok ino nm \<longleftrightarrow> ino \<noteq> 0 \<and> nm \<noteq> [] \<and> length nm < 256 \<and> utf8_valid nm"

abbreviation entry_info :: "u32 \<Rightarrow> bytes \<Rightarrow> u8 \<Rightarrow> DirEntryInfoChirho" where
  "entry_info ino nm ft \<equiv> \<lparr>de_inode_chirho = ino, de_name_chirho = nm, de_file_type_chirho = ft\<rparr>"

definition updated_dir :: "Ext4MountChirho \<Rightarrow> bytes \<Rightarrow> u32 \<Rightarrow> bytes \<Rightarrow> u8 \<Rightarrow> bytes option" where
  "updated_dir M d ino nm ft = (if d = [] then Some (entry_bytes ino nm ft)
     else insert_entry M d (entry_bytes ino nm ft) (dir_rec_len nm))"

lemma slots_bytes_empty: "slots_bytes ss = [] \<longleftrightarrow> ss = []"
proof (cases ss)
  case (Cons s ss')
  have "length (slots_bytes ss) \<noteq> 0" using sl_len_pos [of s] Cons by simp
  then show ?thesis using Cons by (metis length_0_conv list.distinct(1))
qed simp

lemma updated_dir_slots:
  assumes "dir_layout M ss" "entry_ok ino nm"
  shows "\<exists>ss'. updated_dir M (slots_bytes ss) ino nm ft = Some (slots_bytes ss') \<and> list_all slot_ok ss' \<and>
    infos ss' = infos ss @ [entry_info ino nm ft] \<and> length (slots_bytes ss') \<le> length (slots_bytes ss) + round4 (length nm)"
proof (cases "ss = []")
  case True
  let ?u = "new_slot ino nm ft []"
  have nm: "length nm < 256" using assms(2) by (simp add: entry_ok_def)
  have "slot_ok ?u" using new_slot_len [of ino nm ft "[]"] nm round4(2) by (auto simp: slot_ok_def round4_def new_slot_def)
  moreover have "infos [?u] = [entry_info ino nm ft]"
    using assms(2) by (simp add: infos_def slot_live_def slot_info_def new_slot_def entry_ok_def)
  ultimately show ?thesis
    using True entry_bytes_slot [OF nm, of ino ft] new_slot_len [of ino nm ft "[]"]
    by (intro exI [of _ "[?u]"]) (simp add: updated_dir_def infos_def)
next
  case False
  then obtain A B where AB: "ss = A @ B" "B \<noteq> []" "length (slots_bytes A) = (length (slots_bytes ss) - 1) div bs M * bs M"
    using assms(1) False unfolding dir_layout_def by blast
  obtain B' s where B: "B = B' @ [s]" using AB(2) by (metis rev_exhaust)
  have ok: "list_all slot_ok (A @ B' @ [s])" using assms(1) AB(1) B by (simp add: dir_layout_def)
  obtain t u where C: "insert_entry M (slots_bytes (A @ B' @ [s])) (entry_bytes ino nm ft) (dir_rec_len nm) = Some (slots_bytes (A @ B' @ [t, u]))"
    "list_all slot_ok [t, u]" "sl_inode t = sl_inode s" "sl_name t = sl_name s" "sl_type t = sl_type s" "sl_inode u = ino" "sl_name u = nm"
    "sl_type u = ft" "length (slots_bytes [t, u]) \<le> sl_len s + round4 (length nm)"
    using insert_entry_slots [OF ok, of M nm ino ft] AB(1,3) B assms(2) by (fastforce simp: entry_ok_def split: if_splits)
  have "infos (A @ B' @ [t, u]) = infos ss @ [entry_info ino nm ft]"
    using C(3-8) AB(1) B assms(2) by (simp add: infos_def slot_live_def slot_info_def entry_ok_def)
  moreover have "updated_dir M (slots_bytes ss) ino nm ft = Some (slots_bytes (A @ B' @ [t, u]))"
    using C(1) AB(1) B False slots_bytes_empty [of ss] by (simp only: updated_dir_def if_False append_assoc)
  ultimately show ?thesis using C(2,9) ok AB(1) B by (intro exI [of _ "A @ B' @ [t, u]"]) simp
qed

section \<open>Files with their extents in the inode\<close>

definition extent_blocks :: "bytes \<Rightarrow> nat \<Rightarrow> u64 list" where
  "extent_blocks raw k = map (\<lambda>j. physical_block_chirho raw (12 + k * 12) + of_nat j) [0..<unat (extent_block_count_chirho raw (12 + k * 12))]"

definition leaf_blocks :: "Ext4InodeChirho \<Rightarrow> u64 list" where
  "leaf_blocks i = concat (map (extent_blocks (block_bytes i)) [0..<min (unat (eh_entries_chirho (extent_header_chirho i))) 4])"

definition leaf_inode :: "Ext4InodeChirho \<Rightarrow> bool" where
  "leaf_inode i \<longleftrightarrow> uses_extents_chirho i \<and> header_is_valid_chirho (extent_header_chirho i) \<and>
     eh_depth_chirho (extent_header_chirho i) = 0 \<and> wf_inode i"

lemma leaf_loop_blocks:
  assumes "length raw = 60" "\<forall>b\<in>set (concat (map (extent_blocks raw) [i..<min (i + n) 4])). in_range M b"
  shows "leaf_extents_loop (plain_ops M) raw i n out P =
    (Inr (out @ concat (map (blk P) (concat (map (extent_blocks raw) [i..<min (i + n) 4])))), P)"
  using assms(2)
proof (induction n arbitrary: i out)
  case (Suc n)
  show ?case
  proof (cases "i < 4")
    case True
    then have "i < min (Suc i + n) 4" by simp
    then have up: "[i..<min (i + Suc n) 4] = i # [Suc i..<min (Suc i + n) 4]" by (metis add_Suc_shift upt_conv_Cons)
    let ?c = "unat (extent_block_count_chirho raw (12 + i * 12))" and ?p = "physical_block_chirho raw (12 + i * 12)"
    have r: "in_range M (?p + of_nat k)" if "k < ?c" for k
      using Suc.prems that unfolding up by (auto simp: extent_blocks_def)
    have "read_extent_blocks (plain_ops M) ?p 0 ?c out P = (Inr (out @ concat (map (blk P) (extent_blocks raw i))), P)"
      using read_extent_blocks_plain [of 0 ?c M ?p out P] r by (simp add: extent_blocks_def comp_def)
    moreover define R where "R = [Suc i..<min (Suc i + n) 4]"
    moreover have "leaf_extents_loop (plain_ops M) raw (Suc i) n out' P =
        (Inr (out' @ concat (map (blk P) (concat (map (extent_blocks raw) R)))), P)" for out'
      unfolding R_def by (rule Suc.IH) (use Suc.prems in \<open>simp only: up list.map concat.simps set_append Un_iff, blast\<close>)
    ultimately show ?thesis using True assms(1) unfolding up R_def [symmetric] by (simp add: bindE_def Let_def)
  next
    case False
    then show ?thesis using assms(1) by (simp add: ret_def)
  qed
qed (simp add: ret_def)

lemma read_leaf_inode:
  assumes "leaf_inode i" "\<forall>b\<in>set (leaf_blocks i). in_range M b"
  shows "read_file_data_chirho (plain_ops M) M i P = (Inr (take (unat (size_chirho i)) (concat (map (blk P) (leaf_blocks i)))), P)"
proof -
  have "length (block_bytes i) = 60" using assms(1) by (simp add: leaf_inode_def wf_inode_def block_bytes_def)
  then show ?thesis
    using assms leaf_loop_blocks [of "block_bytes i" 0 "unat (eh_entries_chirho (extent_header_chirho i))" M "[]" P]
    by (simp add: read_file_data_chirho_def read_leaf_extents_chirho_def leaf_inode_def leaf_blocks_def bindE_def ret_def Let_def)
qed

section \<open>Adding an entry\<close>

text \<open>A directory whose extents are in its inode and whose data is a list of records.\<close>

definition dir_inode :: "Ext4MountChirho \<Rightarrow> plain \<Rightarrow> u32 \<Rightarrow> Ext4InodeChirho" where
  "dir_inode M P ino = inode_at (blk P (inode_block M ino)) (inode_offset M ino)"

definition dir_ok :: "Ext4MountChirho \<Rightarrow> plain \<Rightarrow> u32 \<Rightarrow> slot list \<Rightarrow> bool" where
  "dir_ok M P ino ss \<longleftrightarrow> inode_ok M P ino \<and> is_dir_chirho (dir_inode M P ino) \<and> leaf_inode (dir_inode M P ino) \<and>
     (\<forall>b\<in>set (leaf_blocks (dir_inode M P ino)). in_range M b) \<and>
     take (unat (size_chirho (dir_inode M P ino))) (concat (map (blk P) (leaf_blocks (dir_inode M P ino)))) = slots_bytes ss \<and>
     dir_layout M ss \<and> length (slots_bytes ss) + 264 \<le> 32767 * bs M"

lemma with_own_inode:
  assumes "inode_offset M ino + 128 \<le> bs M" "full_blocks M P"
  shows "with_inode M ino (inode_at (blk P (inode_block M ino)) (inode_offset M ino)) P = P"
proof -
  let ?b = "blk P (inode_block M ino)" and ?o = "inode_offset M ino"
  have "length ?b = bs M" using assms(2) by (simp add: full_blocks_def)
  then have "take ?o ?b @ take 128 (drop ?o ?b) @ drop (?o + 128) ?b = ?b"
    by (metis add.commute append_take_drop_id drop_drop)
  then show ?thesis using inode_bytes_at [of ?o ?b] assms(1) \<open>length ?b = bs M\<close> by (simp add: with_inode_def)
qed

lemma round4_255: "length nm < 256 \<Longrightarrow> round4 (length nm) \<le> 264" by (simp add: round4_def)

lemma read_dir_plain:
  assumes "volume_ok M P" "dir_ok M P ino ss"
  shows "read_dir_entries_chirho (plain_ops M) M ino P = (Inr (infos ss), P)"
    "read_inode_chirho (plain_ops M) M ino P = (Inr (dir_inode M P ino), P)"
    "read_file_data_chirho (plain_ops M) M (dir_inode M P ino) P = (Inr (slots_bytes ss), P)"
proof -
  have full: "full_blocks M P" using assms(1) by (simp add: volume_ok_def)
  show i: "read_inode_chirho (plain_ops M) M ino P = (Inr (dir_inode M P ino), P)"
    using read_inode_ok [of M ino P] full assms(2) by (simp add: dir_ok_def inode_ok_def dir_inode_def)
  show d: "read_file_data_chirho (plain_ops M) M (dir_inode M P ino) P = (Inr (slots_bytes ss), P)"
    using read_leaf_inode [of "dir_inode M P ino" M P] assms(2) by (simp add: dir_ok_def)
  show "read_dir_entries_chirho (plain_ops M) M ino P = (Inr (infos ss), P)"
    using i d parse_slots [of ss "[]"] assms(2)
    by (simp add: read_dir_entries_chirho_def bindE_def ret_def parse_dir_entries_chirho_def dir_ok_def dir_layout_def)
qed

text \<open>The outcome of a program, with its errors raised.\<close>

definition raised_as :: "'e + 'a \<Rightarrow> 'e raised + 'a" where
  "raised_as r = (case r of Inl e \<Rightarrow> Inl (Err e) | Inr x \<Rightarrow> Inr x)"

lemma raises_run: "m s = (r, s') \<Longrightarrow> raises m s = (raised_as r, s')"
  by (simp add: raises_def raised_as_def split: sum.split)

lemma add_entry_plain:
  assumes vol: "volume_ok M P" and dir: "dir_ok M P ino ss" and ent: "entry_ok child nm"
  shows "\<exists>ss' P'. updated_dir M (slots_bytes ss) child nm ft = Some (slots_bytes ss') \<and> list_all slot_ok ss' \<and>
    infos ss' = infos ss @ [entry_info child nm ft] \<and>
    add_dir_entry_chirho (plain_ops M) M ino child nm ft P = (raised_as (write_result M P (slots_bytes ss')), P') \<and>
    wild P' = wild P \<and> full_blocks M P' \<and> free_list M P' = drop (blocks_needed M (slots_bytes ss')) (free_list M P) \<and>
    (\<forall>b. b \<notin> set (bitmaps M) \<union> set (free_list M P) \<union> {inode_block M ino} \<longrightarrow> blk P' b = blk P b) \<and>
    take (inode_offset M ino) (blk P' (inode_block M ino)) = take (inode_offset M ino) (blk P (inode_block M ino)) \<and>
    drop (inode_offset M ino + 128) (blk P' (inode_block M ino)) = drop (inode_offset M ino + 128) (blk P (inode_block M ino)) \<and>
    (write_result M P (slots_bytes ss') = Inr () \<longrightarrow> read_dir_entries_chirho (plain_ops M) M ino P' = (Inr (infos ss'), P'))"
proof -
  let ?ib = "inode_block M ino" and ?off = "inode_offset M ino"
  have ok: "inode_ok M P ino" "dir_layout M ss" "is_dir_chirho (dir_inode M P ino)" using dir by (auto simp: dir_ok_def)
  have nm: "length nm < 256" using ent by (simp add: entry_ok_def)
  obtain ss' where ss': "updated_dir M (slots_bytes ss) child nm ft = Some (slots_bytes ss')" "list_all slot_ok ss'"
    "infos ss' = infos ss @ [entry_info child nm ft]" "length (slots_bytes ss') \<le> length (slots_bytes ss) + round4 (length nm)"
    using updated_dir_slots [OF ok(2) ent] by blast
  let ?d = "slots_bytes ss'"
  have len: "length ?d \<le> 32767 * bs M" using ss'(4) round4_255 [OF nm] dir by (simp add: dir_ok_def)
  obtain P1 where P1: "write_file_data_chirho (plain_ops M) M ino ?d P = (write_result M P ?d, P1)" "wild P1 = wild P" "full_blocks M P1"
    "free_list M P1 = drop (blocks_needed M ?d) (free_list M P)"
    "\<forall>b. b \<notin> set (bitmaps M) \<union> set (take (blocks_needed M ?d) (free_list M P)) \<union> {?ib} \<longrightarrow> blk P1 b = blk P b"
    "take ?off (blk P1 ?ib) = take ?off (blk P ?ib)" "drop (?off + 128) (blk P1 ?ib) = drop (?off + 128) (blk P ?ib)"
    "i_mode_chirho (inode_at (blk P1 ?ib) ?off) = i_mode_chirho (inode_at (blk P ?ib) ?off)"
    "write_result M P ?d = Inr () \<longrightarrow> i_size_lo_chirho (inode_at (blk P1 ?ib) ?off) = of_nat (length ?d) \<and>
       bindE (read_inode_chirho (plain_ops M) M ino) (read_file_data_chirho (plain_ops M) M) P1 = (Inr ?d, P1)"
    using write_file_plain [OF vol ok(1) len] by blast
  have I: "group_of M ino < length (group_descs_chirho M)" "in_range M ?ib" "?off + 128 \<le> bs M" using ok(1) by (auto simp: inode_ok_def)
  note R = read_dir_plain [OF vol dir]
  have rf: "raises (ok_or (read_file_data_chirho (plain_ops M) M (dir_inode M P ino)) IoErrorChirho) P = (Inr (slots_bytes ss), P)"
    using R(3) by (simp add: raises_def ok_or_def)
  have start: "add_dir_entry_chirho (plain_ops M) M ino child nm ft P =
      bindE (raises (write_file_data_chirho (plain_ops M) M ino ?d)) (\<lambda>_.
        bindE (raises (ok_or (read_inode_chirho (plain_ops M) M ino) IoErrorChirho)) (\<lambda>i1.
          raises (write_inode_chirho (plain_ops M) M ino (i1\<lparr>i_size_lo_chirho := of_nat (length ?d)\<rparr>)))) P"
  proof -
    have "raises (ok_or (read_inode_chirho (plain_ops M) M ino) NotFoundChirho) P = (Inr (dir_inode M P ino), P)"
      using R(2) by (simp add: raises_def ok_or_def)
    then show ?thesis
      using rf ok(3) ss'(1) unfolding add_dir_entry_chirho_def updated_dir_def [symmetric] by (simp add: bindE_def)
  qed
  have other: "\<forall>b. b \<notin> set (bitmaps M) \<union> set (free_list M P) \<union> {?ib} \<longrightarrow> blk P1 b = blk P b"
    using P1(5) by (auto dest: in_set_takeD)
  note wr = raises_run [where m = "write_file_data_chirho (plain_ops M) M ino ?d" and s = P, OF P1(1)]
  note all = P1(2-4,6,7) ss'(1-3) other
  show ?thesis
  proof (cases "write_result M P ?d")
    case (Inl e)
    then have "add_dir_entry_chirho (plain_ops M) M ino child nm ft P = (raised_as (write_result M P ?d), P1)"
      unfolding start using wr by (simp add: bindE_def raised_as_def)
    then show ?thesis using all Inl by (intro exI [of _ ss'] exI [of _ P1]) simp
  next
    case (Inr x)
    define i where "i = inode_at (blk P1 ?ib) ?off"
    have ri: "read_inode_chirho (plain_ops M) M ino P1 = (Inr i, P1)" using read_inode_ok [OF I P1(3)] by (simp add: i_def)
    have own: "i\<lparr>i_size_lo_chirho := of_nat (length ?d)\<rparr> = i" using P1(9) Inr by (simp add: i_def)
    have wf: "wf_inode i" unfolding i_def using I(3) P1(3) by (intro wf_inode_at) (simp add: full_blocks_def)
    have rw: "mode_chirho M = MountReadWriteChirho" using vol by (simp add: volume_ok_def)
    have "write_inode_chirho (plain_ops M) M ino i P1 = (Inr (), P1)"
      using write_inode_ok(1) [OF I P1(3) rw wf] with_own_inode [OF I(3) P1(3)] by (simp add: i_def)
    then have "add_dir_entry_chirho (plain_ops M) M ino child nm ft P = (raised_as (write_result M P ?d), P1)"
      unfolding start using wr Inr ri own by (simp add: bindE_def raised_as_def raises_def ok_or_def)
    moreover have "read_dir_entries_chirho (plain_ops M) M ino P1 = (Inr (infos ss'), P1)"
    proof -
      have "is_dir_chirho i" using ok(3) P1(8) by (simp add: is_dir_chirho_def i_def dir_inode_def)
      moreover have "read_file_data_chirho (plain_ops M) M i P1 = (Inr ?d, P1)" using P1(9) Inr ri by (simp add: bindE_def)
      ultimately show ?thesis using ri parse_slots [OF ss'(2), of "[]"]
        by (simp add: read_dir_entries_chirho_def bindE_def ret_def parse_dir_entries_chirho_def)
    qed
    ultimately show ?thesis using all by (intro exI [of _ ss'] exI [of _ P1]) simp
  qed
qed

section \<open>Creating a file\<close>

abbreviation inodes_per_group :: "Ext4MountChirho \<Rightarrow> u32" where "inodes_per_group M \<equiv> s_inodes_per_group_chirho (sb_chirho M)"
abbreviation inode_map :: "Ext4MountChirho \<Rightarrow> Ext4GroupDescChirho \<Rightarrow> u64" where
  "inode_map M gd \<equiv> inode_bitmap_chirho (wide M) gd"

text \<open>The first free inode: its group and its index there.\<close>

fun first_free_inode :: "Ext4MountChirho \<Rightarrow> plain \<Rightarrow> nat \<Rightarrow> Ext4GroupDescChirho list \<Rightarrow> (Ext4GroupDescChirho \<times> nat \<times> nat) option" where
  "first_free_inode M P g [] = None"
| "first_free_inode M P g (gd # gds) =
     (if free_inodes_count_chirho (wide M) gd = 0 then first_free_inode M P (Suc g) gds
      else case free_locals (inodes_per_group M) (blk P (inode_map M gd)) of
             [] \<Rightarrow> first_free_inode M P (Suc g) gds
           | l # _ \<Rightarrow> Some (gd, g, l))"

definition inode_no :: "Ext4MountChirho \<Rightarrow> nat \<Rightarrow> nat \<Rightarrow> u32" where
  "inode_no M g l = of_nat (g * unat (inodes_per_group M) + l + 1)"

lemma alloc_inode_spec:
  assumes "8 * length bm < 2 ^ 32"
  shows "case free_locals (inodes_per_group M) bm of
      [] \<Rightarrow> alloc_inode_in_group_chirho bm (of_nat g) (inodes_per_group M) = (None, bm)
    | l # ls \<Rightarrow> \<exists>bm1. alloc_inode_in_group_chirho bm (of_nat g) (inodes_per_group M) = (Some (inode_no M g l), bm1) \<and>
        length bm1 = length bm \<and> free_locals (inodes_per_group M) bm1 = ls"
proof (cases "find_free_bit bm 0")
  case None
  then show ?thesis by (simp add: alloc_inode_in_group_chirho_def free_locals_none(1))
next
  case (Some ik)
  obtain i k where ik: "ik = (i, k)" by (cases ik)
  note F = Some [unfolded ik]
  have b: "i < length bm" "k < 8" using find_free_bit_Some [OF F] by auto
  define l :: u32 where "l = of_nat i * 8 + of_nat k"
  have l': "l = of_nat (8 * i + k)" by (simp add: l_def mult.commute)
  moreover have "8 * i + k < 2 ^ LENGTH(32)" using b assms(1) by simp
  ultimately have l: "unat l = 8 * i + k" by (metis unat_of_nat_small)
  show ?thesis
  proof (cases "unat (inodes_per_group M) \<le> 8 * i + k")
    case True
    then have "inodes_per_group M \<le> l" using l by (simp add: word_le_nat_alt)
    then show ?thesis
      using F free_locals_none(2) [OF F True] by (simp add: alloc_inode_in_group_chirho_def l_def [symmetric])
  next
    case False
    then have "\<not> inodes_per_group M \<le> l" using l by (simp add: word_le_nat_alt)
    moreover have "of_nat g * inodes_per_group M + l + 1 = inode_no M g (8 * i + k)"
      unfolding l' by (simp add: inode_no_def)
    ultimately show ?thesis
      using F free_locals_first(3) [OF F, of "inodes_per_group M"] False
      by (simp add: alloc_inode_in_group_chirho_def l_def [symmetric] Let_def)
  qed
qed

lemma find_inode_plain:
  assumes "mode_chirho M = MountReadWriteChirho" "8 * bs M < 2 ^ 32" "full_blocks M P" "\<forall>gd\<in>set gds. in_range M (inode_map M gd)"
  shows "case first_free_inode M P g gds of
      None \<Rightarrow> find_inode (plain_ops M) M g gds P = (Inl NoSpaceChirho, P)
    | Some (gd, h, l) \<Rightarrow> gd \<in> set gds \<and> (\<exists>bm. find_inode (plain_ops M) M g gds P =
        (Inr (inode_no M h l), P\<lparr>blk := (blk P)(inode_map M gd := bm)\<rparr>) \<and> length bm = bs M \<and>
        free_locals (inodes_per_group M) (blk P (inode_map M gd)) = l # free_locals (inodes_per_group M) bm)"
  using assms(4)
proof (induction gds arbitrary: g)
  case Nil
  then show ?case by (simp add: fail_def)
next
  case (Cons gd gds)
  let ?b = "inode_map M gd"
  have len: "length (blk P ?b) = bs M" using assms(3) by (simp add: full_blocks_def)
  note spec = alloc_inode_spec [where bm = "blk P ?b" and M = M and g = g]
  have r: "in_range M ?b" using Cons.prems by simp
  have ih: "case first_free_inode M P (Suc g) gds of
      None \<Rightarrow> find_inode (plain_ops M) M (Suc g) gds P = (Inl NoSpaceChirho, P)
    | Some (gd', h, l) \<Rightarrow> gd' \<in> set (gd # gds) \<and> (\<exists>bm. find_inode (plain_ops M) M (Suc g) gds P =
        (Inr (inode_no M h l), P\<lparr>blk := (blk P)(inode_map M gd' := bm)\<rparr>) \<and> length bm = bs M \<and>
        free_locals (inodes_per_group M) (blk P (inode_map M gd')) = l # free_locals (inodes_per_group M) bm)"
    using Cons.IH [of "Suc g"] Cons.prems by (auto split: option.splits)
  show ?case
  proof (cases "free_inodes_count_chirho (wide M) gd = 0")
    case True
    then have skip: "find_inode (plain_ops M) M g (gd # gds) P = find_inode (plain_ops M) M (Suc g) gds P"
      "first_free_inode M P g (gd # gds) = first_free_inode M P (Suc g) gds" by simp_all
    show ?thesis unfolding skip by (rule ih)
  next
    case False
    show ?thesis
    proof (cases "free_locals (inodes_per_group M) (blk P ?b)")
      case Nil
      then have skip: "find_inode (plain_ops M) M g (gd # gds) P = find_inode (plain_ops M) M (Suc g) gds P"
        "first_free_inode M P g (gd # gds) = first_free_inode M P (Suc g) gds"
        using False spec assms(2) len r by (simp_all add: bindE_def ok_or_def plain_rd Let_def)
      show ?thesis unfolding skip by (rule ih)
    next
      case (Cons l ls)
      then obtain bm where bm: "alloc_inode_in_group_chirho (blk P ?b) (of_nat g) (inodes_per_group M) = (Some (inode_no M g l), bm)"
        "length bm = bs M" "free_locals (inodes_per_group M) bm = ls" using spec assms(2) len by auto
      then have "find_inode (plain_ops M) M g (gd # gds) P = (Inr (inode_no M g l), P\<lparr>blk := (blk P)(?b := bm)\<rparr>)"
        using False r plain_wr [OF assms(1) bm(2) r] by (simp add: bindE_def ok_or_def plain_rd Let_def ret_def)
      moreover have ff: "first_free_inode M P g (gd # gds) = Some (gd, g, l)" using False Cons by simp
      ultimately show ?thesis unfolding ff using Cons bm(2,3) by (simp del: find_inode.simps) blast
    qed
  qed
qed

text \<open>Where the bitmaps of the inodes and the new inode lie.\<close>

definition inode_maps_ok :: "Ext4MountChirho \<Rightarrow> plain \<Rightarrow> u32 \<Rightarrow> bool" where
  "inode_maps_ok M P parent \<longleftrightarrow> (\<forall>gd\<in>set (group_descs_chirho M). let b = inode_map M gd in in_range M b \<and> b \<notin> set (bitmaps M) \<and>
     b \<notin> set (free_list M P) \<and> b \<noteq> inode_block M parent \<and> b \<notin> set (leaf_blocks (dir_inode M P parent)))"

definition new_inode_ok :: "Ext4MountChirho \<Rightarrow> plain \<Rightarrow> u32 \<Rightarrow> u32 \<Rightarrow> bool" where
  "new_inode_ok M P parent ino \<longleftrightarrow> ino \<noteq> 0 \<and> group_of M ino < length (group_descs_chirho M) \<and> in_range M (inode_block M ino) \<and>
     inode_offset M ino + 128 \<le> bs M \<and> inode_block M ino \<notin> set (bitmaps M) \<and> inode_block M ino \<notin> set (free_list M P) \<and>
     inode_block M ino \<notin> set (leaf_blocks (dir_inode M P parent)) \<and> inode_block M ino \<notin> inode_map M ` set (group_descs_chirho M) \<and>
     (inode_block M ino = inode_block M parent \<longrightarrow>
        inode_offset M ino + 128 \<le> inode_offset M parent \<or> inode_offset M parent + 128 \<le> inode_offset M ino)"

lemma inode_at_local: "inode_at d off = inode_at (take 128 (drop off d)) 0"
proof -
  have "take m (drop k (take 128 (drop off d))) = take m (drop (off + k) d)" if "k + m \<le> 128" for m k
    using that by (simp add: drop_take min_def add.commute)
  then have u: "u16_at (take 128 (drop off d)) k = u16_at d (off + k)" if "k + 2 \<le> 128" for k using that by (simp add: u16_at_def)
  have v: "u32_at (take 128 (drop off d)) k = u32_at d (off + k)" if "k + 4 \<le> 128" for k
    using that by (simp add: u32_at_def drop_take min_def add.commute)
  show ?thesis using u [of 0] by (simp add: inode_at_def u v drop_take add.commute add.left_commute)
qed

lemma inode_at_frame:
  assumes "take off d' = take off d" "drop (off + 128) d' = drop (off + 128) d" "k + 128 \<le> off \<or> off + 128 \<le> k"
  shows "inode_at d' k = inode_at d k"
proof -
  have "take 128 (drop k d') = take 128 (drop k d)"
  proof (cases "k + 128 \<le> off")
    case True
    then have "take 128 (drop k x) = drop k (take (k + 128) (take off x))" for x :: bytes by (simp add: drop_take min_absorb1 take_take)
    then show ?thesis by (simp only: assms(1))
  next
    case False
    then have eq: "drop k x = drop (k - (off + 128)) (drop (off + 128) x)" for x :: bytes using assms(3) by simp
    show ?thesis unfolding eq [of d'] eq [of d] assms(2) by (rule refl)
  qed
  then show ?thesis using inode_at_local [of d' k] inode_at_local [of d k] by simp
qed

text \<open>The state in which the new inode is written, before the directory is changed.\<close>

lemma create_prepares:
  assumes vol: "volume_ok M P" and dir: "dir_ok M P parent ss" and maps: "inode_maps_ok M P parent"
    and fresh: "first_free_inode M P 0 (group_descs_chirho M) = Some (gd, g, l)" and new: "new_inode_ok M P parent (inode_no M g l)"
  shows "\<exists>P2. bindE (raises (find_inode (plain_ops M) M 0 (group_descs_chirho M)))
        (\<lambda>ino. bindE (raises (write_inode_chirho (plain_ops M) M ino (new_file_inode mode))) (\<lambda>_. f ino)) P = f (inode_no M g l) P2 \<and>
    wild P2 = wild P \<and> volume_ok M P2 \<and> dir_ok M P2 parent ss \<and> free_list M P2 = free_list M P \<and>
    inode_at (blk P2 (inode_block M (inode_no M g l))) (inode_offset M (inode_no M g l)) = new_file_inode mode \<and>
    free_locals (inodes_per_group M) (blk P (inode_map M gd)) = l # free_locals (inodes_per_group M) (blk P2 (inode_map M gd)) \<and>
    (\<forall>b. b \<notin> {inode_map M gd, inode_block M (inode_no M g l)} \<longrightarrow> blk P2 b = blk P b)"
proof -
  let ?ino = "inode_no M g l" and ?m = "inode_map M gd"
  have V: "mode_chirho M = MountReadWriteChirho" "8 * bs M < 2 ^ 32" "full_blocks M P" using vol by (auto simp: volume_ok_def)
  have mr: "\<forall>gd\<in>set (group_descs_chirho M). in_range M (inode_map M gd)" using maps by (auto simp: inode_maps_ok_def Let_def)
  obtain bm where fi: "find_inode (plain_ops M) M 0 (group_descs_chirho M) P = (Inr ?ino, P\<lparr>blk := (blk P)(?m := bm)\<rparr>)"
    and bm: "length bm = bs M" "free_locals (inodes_per_group M) (blk P ?m) = l # free_locals (inodes_per_group M) bm"
    and gd: "gd \<in> set (group_descs_chirho M)"
    using find_inode_plain [OF V mr, of 0] fresh by auto
  define P1 where "P1 = P\<lparr>blk := (blk P)(?m := bm)\<rparr>"
  have full1: "full_blocks M P1" using V(3) bm(1) by (simp add: full_blocks_def P1_def)
  have N: "group_of M ?ino < length (group_descs_chirho M)" "in_range M (inode_block M ?ino)" "inode_offset M ?ino + 128 \<le> bs M"
    using new by (simp_all add: new_inode_ok_def)
  have wf: "wf_inode (new_file_inode mode)" by (simp add: wf_inode_def new_file_inode_def)
  note W = write_inode_ok [OF N full1 V(1) wf]
  define P2 where "P2 = with_inode M ?ino (new_file_inode mode) P1"
  have same: "blk P2 b = blk P b" if "b \<notin> {?m, inode_block M ?ino}" for b using that by (simp add: P2_def P1_def with_inode_def)
  have m: "?m \<notin> set (bitmaps M)" "?m \<noteq> inode_block M parent" "?m \<notin> set (leaf_blocks (dir_inode M P parent))"
    using maps gd by (auto simp: inode_maps_ok_def Let_def)
  have ib: "inode_block M ?ino \<notin> set (bitmaps M)" "inode_block M ?ino \<notin> set (leaf_blocks (dir_inode M P parent))"
    using new by (simp_all add: new_inode_ok_def)
  have bms: "\<forall>b\<in>set (bitmaps M). blk P2 b = blk P b"
  proof
    fix b assume "b \<in> set (bitmaps M)"
    then show "blk P2 b = blk P b" using m(1) ib(1) by (intro same) auto
  qed
  have fl: "free_list M P2 = free_list M P"
    unfolding free_list_def by (rule free_from_cong) (use bms in \<open>auto simp: bitmaps_def\<close>)
  have vol2: "volume_ok M P2" using vol W(2) fl by (simp add: volume_ok_def P2_def)
  have di: "dir_inode M P2 parent = dir_inode M P parent"
  proof (cases "inode_block M ?ino = inode_block M parent")
    case True
    let ?o = "inode_offset M ?ino" and ?d = "blk P (inode_block M parent)"
    have "blk P1 (inode_block M parent) = ?d" using m(2) by (simp add: P1_def)
    moreover have "length ?d = bs M" using V(3) by (simp add: full_blocks_def)
    ultimately have "take ?o (blk P2 (inode_block M parent)) = take ?o ?d" "drop (?o + 128) (blk P2 (inode_block M parent)) = drop (?o + 128) ?d"
      using N(3) wf True by (simp_all add: P2_def with_inode_def)
    then show ?thesis unfolding dir_inode_def by (rule inode_at_frame) (use new True in \<open>auto simp: new_inode_ok_def\<close>)
  next
    case False
    then have "blk P2 (inode_block M parent) = blk P (inode_block M parent)"
      using m(2) by (intro same) auto
    then show ?thesis by (simp add: dir_inode_def)
  qed
  have "blk P2 b = blk P b" if "b \<in> set (leaf_blocks (dir_inode M P parent))" for b
    using that m(3) ib(2) by (intro same) auto
  then have "map (blk P2) (leaf_blocks (dir_inode M P parent)) = map (blk P) (leaf_blocks (dir_inode M P parent))" by simp
  then have dir2: "dir_ok M P2 parent ss"
    using dir fl unfolding dir_ok_def di by (simp add: inode_ok_def dir_inode_def [symmetric] di del: map_eq_conv)
  have "bindE (raises (find_inode (plain_ops M) M 0 (group_descs_chirho M)))
        (\<lambda>ino. bindE (raises (write_inode_chirho (plain_ops M) M ino (new_file_inode mode))) (\<lambda>_. f ino)) P = f ?ino P2"
    using fi W(1) by (simp add: bindE_def raises_def P2_def P1_def [symmetric])
  moreover have "?m \<noteq> inode_block M ?ino" using new gd by (auto simp: new_inode_ok_def image_iff)
  moreover from this have "blk P2 ?m = bm" by (simp add: P2_def P1_def with_inode_def)
  ultimately show ?thesis
    using vol2 dir2 fl W(3) bm(2) same by (intro exI [of _ P2]) (simp add: P2_def [symmetric], simp add: P2_def P1_def with_inode_def)
qed

lemma create_plain:
  assumes vol: "volume_ok M P" and dir: "dir_ok M P parent ss" and maps: "inode_maps_ok M P parent" and nm: "entry_ok 1 nm"
    and fresh: "first_free_inode M P 0 (group_descs_chirho M) = Some (gd, g, l)" and new: "new_inode_ok M P parent (inode_no M g l)"
  shows "\<exists>ss' P'. updated_dir M (slots_bytes ss) (inode_no M g l) nm FT_REG_FILE_CHIRHO = Some (slots_bytes ss') \<and>
    infos ss' = infos ss @ [entry_info (inode_no M g l) nm FT_REG_FILE_CHIRHO] \<and>
    create_file_chirho (plain_ops M) M parent nm mode P =
      ((case write_result M P (slots_bytes ss') of Inl e \<Rightarrow> Inl (Err e) | Inr _ \<Rightarrow> Inr (inode_no M g l)), P') \<and> wild P' = wild P \<and>
    free_locals (inodes_per_group M) (blk P (inode_map M gd)) = l # free_locals (inodes_per_group M) (blk P' (inode_map M gd)) \<and>
    read_inode_chirho (plain_ops M) M (inode_no M g l) P' = (Inr (new_file_inode mode), P') \<and>
    (write_result M P (slots_bytes ss') = Inr () \<longrightarrow> read_dir_entries_chirho (plain_ops M) M parent P' = (Inr (infos ss'), P'))"
proof -
  let ?ino = "inode_no M g l" and ?m = "inode_map M gd"
  obtain P2 where run: "bindE (raises (find_inode (plain_ops M) M 0 (group_descs_chirho M)))
        (\<lambda>ino. bindE (raises (write_inode_chirho (plain_ops M) M ino (new_file_inode mode)))
           (\<lambda>_. bindE (add_dir_entry_chirho (plain_ops M) M parent ino nm FT_REG_FILE_CHIRHO) (\<lambda>_. ret ino))) P =
        bindE (add_dir_entry_chirho (plain_ops M) M parent ?ino nm FT_REG_FILE_CHIRHO) (\<lambda>_. ret ?ino) P2"
    and P2: "wild P2 = wild P" "volume_ok M P2" "dir_ok M P2 parent ss" "free_list M P2 = free_list M P"
    "inode_at (blk P2 (inode_block M ?ino)) (inode_offset M ?ino) = new_file_inode mode"
    "free_locals (inodes_per_group M) (blk P ?m) = l # free_locals (inodes_per_group M) (blk P2 ?m)"
    using create_prepares [OF vol dir maps fresh new, where mode = mode and
      f = "\<lambda>ino. bindE (add_dir_entry_chirho (plain_ops M) M parent ino nm FT_REG_FILE_CHIRHO) (\<lambda>_. ret ino)"] by blast
  have ent: "entry_ok ?ino nm" using nm new by (simp add: entry_ok_def new_inode_ok_def)
  obtain ss' P' where upd: "updated_dir M (slots_bytes ss) ?ino nm FT_REG_FILE_CHIRHO = Some (slots_bytes ss')"
    and P': "infos ss' = infos ss @ [entry_info ?ino nm FT_REG_FILE_CHIRHO]"
    "add_dir_entry_chirho (plain_ops M) M parent ?ino nm FT_REG_FILE_CHIRHO P2 = (raised_as (write_result M P2 (slots_bytes ss')), P')"
    "wild P' = wild P2" "full_blocks M P'" "\<forall>b. b \<notin> set (bitmaps M) \<union> set (free_list M P2) \<union> {inode_block M parent} \<longrightarrow> blk P' b = blk P2 b"
    "take (inode_offset M parent) (blk P' (inode_block M parent)) = take (inode_offset M parent) (blk P2 (inode_block M parent))"
    "drop (inode_offset M parent + 128) (blk P' (inode_block M parent)) = drop (inode_offset M parent + 128) (blk P2 (inode_block M parent))"
    "write_result M P2 (slots_bytes ss') = Inr () \<longrightarrow> read_dir_entries_chirho (plain_ops M) M parent P' = (Inr (infos ss'), P')"
    using add_entry_plain [OF P2(2,3) ent, of FT_REG_FILE_CHIRHO] by blast
  have wr: "write_result M P2 d = write_result M P d" for d by (simp add: write_result_def P2(4))
  have gd: "gd \<in> set (group_descs_chirho M)"
    using find_inode_plain [of M P "group_descs_chirho M" 0] fresh vol maps by (auto simp: volume_ok_def inode_maps_ok_def Let_def)
  have map: "blk P' ?m = blk P2 ?m"
    using P'(5) maps gd P2(4) by (auto simp: inode_maps_ok_def Let_def)
  have at: "inode_at (blk P' (inode_block M ?ino)) (inode_offset M ?ino) = new_file_inode mode"
  proof (cases "inode_block M ?ino = inode_block M parent")
    case True
    then show ?thesis
      using inode_at_frame [OF P'(6,7), of "inode_offset M ?ino"] new P2(5) by (auto simp: new_inode_ok_def)
  next
    case False
    then show ?thesis using P'(5) new P2(4,5) by (simp add: new_inode_ok_def)
  qed
  have "read_inode_chirho (plain_ops M) M ?ino P' = (Inr (new_file_inode mode), P')"
    using read_inode_ok [of M ?ino P'] P'(4) at new by (simp add: new_inode_ok_def)
  moreover have "create_file_chirho (plain_ops M) M parent nm mode P =
      ((case write_result M P (slots_bytes ss') of Inl e \<Rightarrow> Inl (Err e) | Inr _ \<Rightarrow> Inr ?ino), P')"
    using run P'(2) vol unfolding create_file_chirho_def wr
    by (simp add: volume_ok_def bindE_def [of "add_dir_entry_chirho _ _ _ _ _ _"] raised_as_def ret_def split: sum.split)
  ultimately show ?thesis using upd P'(1,3,8) P2(1,6) wr map by (intro exI [of _ ss'] exI [of _ P']) simp
qed

section \<open>Directories on disk\<close>

lemma implements_raises [implements_intro]: "implements rel m m' \<Longrightarrow> implements rel (raises m) (raises m')"
  unfolding implements_def keeps_wild_def raises_def
  by (auto split: prod.splits sum.splits) (metis fst_conv snd_conv sum.inject sum.distinct)+

context block_layer
begin

lemma read_dir_entries_on_plain [implements_intro]:
  "implements rel (read_dir_entries_chirho ops M ino) (read_dir_entries_chirho (plain_ops M) M ino)"
  unfolding read_dir_entries_chirho_def by (intro implements_intro)

lemma lookup_blocks_on_plain [implements_intro]:
  "implements rel (lookup_blocks ops i n nm k m buf) (lookup_blocks (plain_ops M) i n nm k m buf)"
  by (induction m arbitrary: k buf) (simp_all add: Let_def implements_intro)

lemma lookup_in_dir_on_plain [implements_intro]:
  "implements rel (lookup_in_dir_chirho ops M ino nm) (lookup_in_dir_chirho (plain_ops M) M ino nm)"
  unfolding lookup_in_dir_chirho_def by (intro implements_intro)

lemma walk_path_on_plain [implements_intro]:
  "implements rel (walk_path ops M cs ino) (walk_path (plain_ops M) M cs ino)"
  by (induction cs arbitrary: ino) (simp_all add: implements_intro)

lemma add_dir_entry_on_plain [implements_intro]:
  "implements rel (add_dir_entry_chirho ops M d c nm ft) (add_dir_entry_chirho (plain_ops M) M d c nm ft)"
  unfolding add_dir_entry_chirho_def by (intro implements_intro)

lemma implements_alloc_case [implements_intro]:
  "(\<And>x b. implements rel (f x b) (f' x b)) \<Longrightarrow> (\<And>b. implements rel (g b) (g' b)) \<Longrightarrow>
     implements rel (case p of (Some x, b) \<Rightarrow> f x b | (None, b) \<Rightarrow> g b) (case p of (Some x, b) \<Rightarrow> f' x b | (None, b) \<Rightarrow> g' b)"
  by (auto split: prod.split option.split)

lemma find_inode_on_plain [implements_intro]:
  "implements rel (find_inode ops M g gds) (find_inode (plain_ops M) M g gds)"
  by (induction gds arbitrary: g) (simp_all add: Let_def implements_intro)

lemma create_file_on_plain [implements_intro]:
  "implements rel (create_file_chirho ops M d nm mode) (create_file_chirho (plain_ops M) M d nm mode)"
  unfolding create_file_chirho_def by (intro implements_intro)

end

text \<open>C30. A created file is in its directory and empty.  On a coherent cache over a volume with
  its metadata in place, creating a file in a directory whose data is a list of records takes
  the first free inode.  When the new directory data can be written, the answer is that inode;
  reading the directory through the cache then lists exactly the old entries followed by the
  new one, and the new inode is a regular file with no data; the data written is the old data
  with the record in the space after the last one or at the end.  Otherwise the answer is the error
  of the write.  The inode is marked used in both cases.\<close>

theorem created_file_is_listed:
  assumes "coherent M st" "volume_ok M (view M st)" "dir_ok M (view M st) parent ss" "inode_maps_ok M (view M st) parent"
    and "first_free_inode M (view M st) 0 (group_descs_chirho M) = Some (gd, g, l)" "new_inode_ok M (view M st) parent (inode_no M g l)"
    and "nm \<noteq> []" "length nm < 256" "utf8_valid nm"
  shows "fst (read_dir_entries_chirho (cached_ops M) M parent st) = Inr (infos ss) \<and>
    (\<exists>d st'. updated_dir M (slots_bytes ss) (inode_no M g l) nm FT_REG_FILE_CHIRHO = Some d \<and>
       create_file_chirho (cached_ops M) M parent nm mode st =
       ((case write_result M (view M st) d of Inl e \<Rightarrow> Inl (Err e) | Inr _ \<Rightarrow> Inr (inode_no M g l)), st') \<and> coherent M st' \<and>
       free_locals (inodes_per_group M) (disk_block M st (inode_map M gd)) = l # free_locals (inodes_per_group M) (disk_block M st' (inode_map M gd)) \<and>
       fst (bindE (read_inode_chirho (cached_ops M) M (inode_no M g l)) (\<lambda>i. bindE (read_file_data_chirho (cached_ops M) M i) (\<lambda>x. ret (i, x))) st') =
         Inr (new_file_inode mode, []) \<and>
       (write_result M (view M st) d = Inr () \<longrightarrow>
          fst (read_dir_entries_chirho (cached_ops M) M parent st') =
            Inr (infos ss @ [\<lparr>de_inode_chirho = inode_no M g l, de_name_chirho = nm, de_file_type_chirho = FT_REG_FILE_CHIRHO\<rparr>])))"
proof -
  let ?P = "view M st" and ?ino = "inode_no M g l" and ?m = "inode_map M gd"
  have bso: "block_size_ok M" and vol: "volume_ok M ?P" using assms(2) by (auto simp: volume_ok_def)
  note m = models_view [OF assms(1) bso]
  have nm: "entry_ok 1 nm" using assms(7-9) by (simp add: entry_ok_def)
  obtain ss' P' where upd: "updated_dir M (slots_bytes ss) ?ino nm FT_REG_FILE_CHIRHO = Some (slots_bytes ss')"
    and P': "infos ss' = infos ss @ [entry_info ?ino nm FT_REG_FILE_CHIRHO]"
    "create_file_chirho (plain_ops M) M parent nm mode ?P =
      ((case write_result M ?P (slots_bytes ss') of Inl e \<Rightarrow> Inl (Err e) | Inr _ \<Rightarrow> Inr ?ino), P')" "wild P' = wild ?P"
    "free_locals (inodes_per_group M) (blk ?P ?m) = l # free_locals (inodes_per_group M) (blk P' ?m)"
    "read_inode_chirho (plain_ops M) M ?ino P' = (Inr (new_file_inode mode), P')"
    "write_result M ?P (slots_bytes ss') = Inr () \<longrightarrow> read_dir_entries_chirho (plain_ops M) M parent P' = (Inr (infos ss'), P')"
    using create_plain [OF vol assms(3,4) nm assms(5,6)] by blast
  have w: "\<not> wild P'" "\<not> wild ?P" using P'(3) by (simp_all add: view_def)
  obtain st' where st': "create_file_chirho (cached_ops M) M parent nm mode st =
      ((case write_result M ?P (slots_bytes ss') of Inl e \<Rightarrow> Inl (Err e) | Inr _ \<Rightarrow> Inr ?ino), st')" "models M st' P'"
    using implements_run [OF cached.create_file_on_plain m P'(2) w(1)] by blast
  have gd: "in_range M ?m"
    using find_inode_plain [of M ?P "group_descs_chirho M" 0] assms(4,5) vol by (auto simp: volume_ok_def inode_maps_ok_def Let_def)
  have before: "fst (read_dir_entries_chirho (cached_ops M) M parent st) = Inr (infos ss)"
    using implements_run [OF cached.read_dir_entries_on_plain m read_dir_plain(1) [OF vol assms(3)] w(2)] by fastforce
  have after: "fst (read_dir_entries_chirho (cached_ops M) M parent st') = Inr (infos ss')" if "write_result M ?P (slots_bytes ss') = Inr ()"
    using implements_run [OF cached.read_dir_entries_on_plain st'(2) P'(6) [rule_format, OF that] w(1)] by fastforce
  have "bindE (read_inode_chirho (plain_ops M) M ?ino) (\<lambda>i. bindE (read_file_data_chirho (plain_ops M) M i) (\<lambda>x. ret (i, x))) P' =
      (Inr (new_file_inode mode, []), P')"
    using P'(5) by (simp add: bindE_def read_file_data_chirho_def size_chirho_def new_file_inode_def ret_def)
  then have empty: "fst (bindE (read_inode_chirho (cached_ops M) M ?ino)
      (\<lambda>i. bindE (read_file_data_chirho (cached_ops M) M i) (\<lambda>x. ret (i, x))) st') = Inr (new_file_inode mode, [])"
    using implements_run [OF implements_bind [OF cached.read_inode_plain implements_bind [OF cached.read_file_data_on_plain implements_ret]]
      st'(2) _ w(1)] by fastforce
  have "disk_block M st' ?m = blk P' ?m" "coherent M st'" using st'(2) gd by (auto simp: models_def)
  then show ?thesis
    using before after empty st'(1) upd P'(1,4) by (intro conjI exI [of _ "slots_bytes ss'"] exI [of _ st']) (auto simp: view_def)
qed

section \<open>Looking up a name\<close>

lemma descend_found:
  "descend_extent_tree_chirho (plain_child M P) lb d e = Some p \<Longrightarrow> descend_cached (plain_ops M) lb d e P = (Inr p, P)"
proof (induction "plain_ops M" lb d e rule: descend_cached.induct)
  case (1 lb d e)
  obtain l where l: "lookup_extent_node_chirho d lb = Some l" "depth_chirho l = e"
    using 1(2) by (auto simp: descend_extent_tree_chirho.simps [of _ _ d] split: option.splits if_splits)
  show ?case
  proof (cases "target_chirho l")
    case (ChildNodeChirho c)
    then have c: "e \<noteq> 0" "in_range M c" "descend_extent_tree_chirho (plain_child M P) lb (blk P c) (e - 1) = Some p"
      using 1(2) l by (auto simp: descend_extent_tree_chirho.simps [of _ _ d] plain_child_def split: if_splits)
    then show ?thesis
      using 1(1) [OF l(1) _ ChildNodeChirho, of "blk P c"] l ChildNodeChirho
      by (simp add: descend_cached.simps [of _ _ d] bindE_def plain_rd)
  qed (use 1(2) l in \<open>simp_all add: descend_extent_tree_chirho.simps [of _ _ d] descend_cached.simps [of _ _ d] ret_def\<close>)
qed

text \<open>The physical block of a logical block of a file.\<close>

definition phys_block :: "Ext4MountChirho \<Rightarrow> plain \<Rightarrow> Ext4InodeChirho \<Rightarrow> nat \<Rightarrow> u64 option" where
  "phys_block M P i k = find_physical_block_chirho (plain_child M P) (block_bytes i) (of_nat k) (eh_depth_chirho (extent_header_chirho i))"

lemma read_logical_found:
  assumes "uses_extents_chirho i" "header_is_valid_chirho (extent_header_chirho i)" "phys_block M P i k = Some p" "in_range M p"
    "bs M \<le> n" "k < 2 ^ 32"
  shows "read_block_by_logical_into_chirho (plain_ops M) i (of_nat k) n P = (Inr (blk P p), P)"
proof -
  have k: "(ucast (of_nat k :: u64) :: u32) = of_nat k"
    using assms(6) by (simp add: word_unat_eq_iff unsigned_ucast_eq unat_of_nat take_bit_nat_eq_self)
  have "find_phys_block_chirho (plain_ops M) (block_bytes i) (extent_header_chirho i) (of_nat k) P = (Inr p, P)"
    using assms(2,3) descend_found [of M P "of_nat k" "block_bytes i"]
    by (auto simp: find_phys_block_chirho_def phys_block_def find_physical_block_chirho_def split: if_splits)
  then show ?thesis
    using assms(1,2,4,5) k by (simp add: read_block_by_logical_into_chirho_def Let_def bindE_def attempt_def plain_ops_def)
qed

definition named :: "bytes \<Rightarrow> slot \<Rightarrow> bool" where "named nm s \<longleftrightarrow> slot_live s \<and> sl_name s = nm"

lemma scan_slots:
  assumes "utf8_valid nm" "length xs + length (slots_bytes ss) = 4096" "list_all slot_ok ss"
  shows "scan_block (xs @ slots_bytes ss) 4096 nm (length xs) = map_option slot_info (find (named nm) ss)"
  using assms(2,3)
proof (induction ss arbitrary: xs)
  case Nil
  then show ?case by (simp add: scan_block.simps [of xs])
next
  case (Cons s ss)
  note F = slot_fields [of s xs "length xs" "slots_bytes ss"]
  have ok: "slot_ok s" "list_all slot_ok ss" using Cons.prems(2) by auto
  have n0: "u16_at (xs @ slot_bytes s @ slots_bytes ss) (length xs + 4) \<noteq> 0"
    using F(3) [OF ok(1) refl] sl_len_pos [of s] by auto
  have fits: "length xs + 8 + length (sl_name s) \<le> 4096" "length xs + 8 \<le> 4096"
    using Cons.prems(1) by (simp_all add: sl_len_def)
  have rest: "scan_block (xs @ slot_bytes s @ slots_bytes ss) 4096 nm (length xs + sl_len s) = map_option slot_info (find (named nm) ss)"
    using Cons.IH [of "xs @ slot_bytes s"] Cons.prems ok(2) by simp
  have "scan_block (xs @ slot_bytes s @ slots_bytes ss) 4096 nm (length xs) =
     (if slot_live s \<and> sl_name s = nm then Some (slot_info s)
      else scan_block (xs @ slot_bytes s @ slots_bytes ss) 4096 nm (length xs + sl_len s))"
    using F(1,3-6) [OF ok(1) refl] n0 fits assms(1)
    by (subst scan_block.simps) (auto simp: slot_live_def slot_info_def Let_def)
  then show ?case using rest by (simp add: named_def [of nm s])
qed

text \<open>A directory of whole blocks of 4096 bytes, each a list of records.\<close>

definition block_dir :: "Ext4MountChirho \<Rightarrow> plain \<Rightarrow> Ext4InodeChirho \<Rightarrow> slot list list \<Rightarrow> bool" where
  "block_dir M P i bss \<longleftrightarrow> bs M = 4096 \<and> is_dir_chirho i \<and> uses_extents_chirho i \<and> header_is_valid_chirho (extent_header_chirho i) \<and>
     unat (size_chirho i) = 4096 * length bss \<and> length bss < 2 ^ 32 \<and>
     (\<forall>k<length bss. list_all slot_ok (bss ! k) \<and> length (slots_bytes (bss ! k)) = 4096 \<and>
        (\<exists>p. phys_block M P i k = Some p \<and> in_range M p \<and> blk P p = slots_bytes (bss ! k)))"

lemma find_append: "find p (xs @ ys) = (case find p xs of None \<Rightarrow> find p ys | Some x \<Rightarrow> Some x)"
  by (induction xs) auto

lemma lookup_blocks_found:
  assumes "block_dir M P i bss" "utf8_valid nm" "k + n = length bss" "length buf = 4096"
  shows "lookup_blocks (plain_ops M) i (unat (size_chirho i)) nm k n buf P =
    ((case find (named nm) (concat (drop k bss)) of None \<Rightarrow> Inl () | Some s \<Rightarrow> Inr (slot_info s)), P)"
  using assms(3,4)
proof (induction n arbitrary: k buf)
  case 0
  then show ?case by (simp add: fail_def)
next
  case (Suc n)
  have k: "k < length bss" using Suc.prems by simp
  then obtain p where p: "phys_block M P i k = Some p" "in_range M p" "blk P p = slots_bytes (bss ! k)"
    and ok: "list_all slot_ok (bss ! k)" "length (slots_bytes (bss ! k)) = 4096" using assms(1) by (auto simp: block_dir_def)
  have rd: "attempt (read_block_by_logical_into_chirho (plain_ops M) i (of_nat k) 4096) P = (Inr (Some (slots_bytes (bss ! k))), P)"
    using read_logical_found [of i M P k p 4096] p assms(1) k by (simp add: attempt_def block_dir_def)
  have be: "(if n = 0 then unat (size_chirho i) - k * 4096 else 4096) = 4096"
    using assms(1) Suc.prems by (auto simp: block_dir_def)
  have split: "concat (drop k bss) = bss ! k @ concat (drop (Suc k) bss)" using k by (simp add: Cons_nth_drop_Suc [symmetric])
  have scan: "scan_block (slots_bytes (bss ! k)) 4096 nm 0 = map_option slot_info (find (named nm) (bss ! k))"
    using scan_slots [OF assms(2), of "[]" "bss ! k"] ok by simp
  have buf: "slots_bytes (bss ! k) @ drop (length (slots_bytes (bss ! k))) buf = slots_bytes (bss ! k)"
    using ok(2) Suc.prems(2) by simp
  have ih: "lookup_blocks (plain_ops M) i (unat (size_chirho i)) nm (Suc k) n (slots_bytes (bss ! k)) P =
      ((case find (named nm) (concat (drop (Suc k) bss)) of None \<Rightarrow> Inl () | Some s \<Rightarrow> Inr (slot_info s)), P)"
    using Suc.IH [of "Suc k" "slots_bytes (bss ! k)"] Suc.prems(1) ok(2) by simp
  show ?case
    unfolding lookup_blocks.simps Let_def be split find_append
    by (cases "find (named nm) (bss ! k)") (simp_all add: bindE_def rd buf scan ih ret_def)
qed

text \<open>The extent that a write leaves in the inode maps its blocks.\<close>

lemma read_u_at:
  "off + 2 \<le> length d \<Longrightarrow> read_u16_chirho d off = Some (u16_at d off)"
  "off + 4 \<le> length d \<Longrightarrow> read_u32_chirho d off = Some (u32_at d off)"
  by (simp_all add: read_u16_chirho_def read_u32_chirho_def get_bytes_def u16_at_def u32_at_def)

lemma single_extent_phys:
  assumes "wf_inode i" "unat first < 2 ^ 48" "n < 2 ^ 15" "i_block_chirho i = set_single_extent first n ws" "k < n"
  shows "phys_block M P i k = Some (first + of_nat k)"
proof -
  let ?raw = "block_bytes i"
  note F = single_extent_fields [OF assms(1-4)]
  have head: "u16_at ?raw 0 = 0xF30A" "u16_at ?raw 2 = 1" "u16_at ?raw 4 = 4" "u16_at ?raw 6 = 0"
    using F(1) by (simp_all add: extent_header_chirho_def extent_header_at_def)
  have un: "unat (of_nat n :: u16) = n" using assms(3) by (intro unat_of_nat_small) simp
  then have "\<not> (0x8000 :: u16) < of_nat n" using assms(3) by (simp add: word_less_nat_alt)
  moreover have "(ucast (of_nat n :: u16) :: u32) = of_nat n" using arg_cong [OF un, of of_nat] by simp
  ultimately have cnt: "block_count_chirho (of_nat n) = of_nat n" by (simp add: block_count_chirho_def)
  have n32: "unat (of_nat n :: u32) = n" "unat (of_nat k :: u32) = k" using assms(3,5) by (intro unat_of_nat_small; simp)+
  then have lt: "(of_nat k :: u32) < of_nat n" "(of_nat n :: u32) \<noteq> 0" using assms(5) by (auto simp: word_less_nat_alt)
  have k64: "(ucast (of_nat k :: u32) :: u64) = of_nat k" using arg_cong [OF n32(2), of of_nat] by simp
  have "(ucast (u32_at ?raw 20) OR push_bit 32 (ucast (u16_at ?raw 18)) :: u64) = first"
    using F(2) by (simp add: physical_block_chirho_def)
  then have ph: "(push_bit 32 (ucast (u16_at ?raw 18)) OR ucast (u32_at ?raw 20) :: u64) = first" by (simp only: or.commute)
  have "leaf_loop ?raw (of_nat k) 0 1 = Some (PhysicalBlockChirho (first + of_nat k))"
    using F(4-6) cnt lt ph k64
    by (simp add: EXT4_EXTENT_HEADER_SIZE_CHIRHO_def EXT4_EXTENT_ENTRY_SIZE_CHIRHO_def read_u_at checked_add_def)
  then have "lookup_extent_node_chirho ?raw (of_nat k) = Some \<lparr>depth_chirho = 0, target_chirho = PhysicalBlockChirho (first + of_nat k)\<rparr>"
    using F(4) head by (simp add: lookup_extent_node_chirho_def EXT4_EXTENT_HEADER_SIZE_CHIRHO_def EXT4_EXTENT_ENTRY_SIZE_CHIRHO_def
        EXT4_EXTENT_MAGIC_CHIRHO_def read_u_at)
  then show ?thesis using F(1)
    by (simp add: phys_block_def find_physical_block_chirho_def descend_extent_tree_chirho.simps [of _ _ ?raw] MAX_EXTENT_TREE_DEPTH_CHIRHO_def)
qed

text \<open>C31. Lookup finds the first entry with a name.  In a directory of whole blocks of 4096 bytes,
  each a list of records and each mapped by the extent tree of the inode, looking up a UTF-8 name
  through the cache returns the inode number, name and type of the first live record with that
  name, and fails when there is none.\<close>

theorem lookup_finds_first:
  assumes "coherent M st" "block_size_ok M" "group_of M ino < length (group_descs_chirho M)" "in_range M (inode_block M ino)"
    and "inode_offset M ino + 128 \<le> bs M" "block_dir M (view M st) (dir_inode M (view M st) ino) bss" "utf8_valid nm"
  shows "fst (lookup_in_dir_chirho (cached_ops M) M ino nm st) =
    (case find (\<lambda>s. sl_inode s \<noteq> 0 \<and> sl_name s \<noteq> [] \<and> sl_name s = nm) (concat bss) of
       None \<Rightarrow> Inl ()
     | Some s \<Rightarrow> Inr \<lparr>de_inode_chirho = sl_inode s, de_name_chirho = nm, de_file_type_chirho = sl_type s\<rparr>)"
proof -
  let ?P = "view M st" and ?i = "dir_inode M (view M st) ino"
  note m = models_view [OF assms(1,2)]
  have full: "full_blocks M ?P" using length_disk_block [OF assms(1,2)] by (simp add: full_blocks_def view_def)
  have ri: "read_inode_chirho (plain_ops M) M ino ?P = (Inr ?i, ?P)"
    using read_inode_ok [OF assms(3-5) full] by (simp add: dir_inode_def)
  have D: "unat (size_chirho ?i) = 4096 * length bss" "length bss < 2 ^ 32" "is_dir_chirho ?i" using assms(6) by (simp_all add: block_dir_def)
  have n: "unat ((size_chirho ?i + 4095) div 4096) = length bss"
  proof -
    have "unat (size_chirho ?i + 4095) = 4096 * length bss + 4095"
      using D(1,2) by (subst unat_word_ariths) simp
    then show ?thesis by (simp add: unat_div)
  qed
  have "lookup_in_dir_chirho (plain_ops M) M ino nm ?P =
      ((case find (named nm) (concat bss) of None \<Rightarrow> Inl () | Some s \<Rightarrow> Inr (slot_info s)), ?P)"
    using ri D(3) n lookup_blocks_found [OF assms(6,7), of 0 "length bss" "replicate 4096 0"]
    by (simp add: lookup_in_dir_chirho_def bindE_def)
  then have "fst (lookup_in_dir_chirho (cached_ops M) M ino nm st) =
      (case find (named nm) (concat bss) of None \<Rightarrow> Inl () | Some s \<Rightarrow> Inr (slot_info s))"
    using implements_run [OF cached.lookup_in_dir_on_plain m, of ino nm] by (fastforce simp: view_def)
  moreover have "named nm = (\<lambda>s. sl_inode s \<noteq> 0 \<and> sl_name s \<noteq> [] \<and> sl_name s = nm)" by (auto simp: named_def slot_live_def fun_eq_iff)
  moreover have "slot_info s = \<lparr>de_inode_chirho = sl_inode s, de_name_chirho = nm, de_file_type_chirho = sl_type s\<rparr>"
    if "find (named nm) (concat bss) = Some s" for s
    using that assms(7) by (auto simp: find_Some_iff named_def slot_info_def)
  ultimately show ?thesis by (simp split: option.split)
qed

text \<open>A volume whose root directory holds the entry \<^verbatim>\<open>.\<close> in block 5.\<close>

definition demo_dir_inode :: Ext4InodeChirho where
  "demo_dir_inode = (new_file_inode 0)\<lparr>i_mode_chirho := S_IFDIR_CHIRHO, i_size_lo_chirho := 1024,
     i_block_chirho := set_single_extent 5 1 (replicate 15 0)\<rparr>"

definition demo_slot :: slot where
  "demo_slot = \<lparr>sl_inode = 2, sl_type = 2, sl_name = [0x2E], sl_pad = replicate 1015 0\<rparr>"

definition demo_tree :: ext4_state where
  "demo_tree = \<lparr>sectors = (\<lambda>s. if s = 4 then 0x03 # replicate 511 0 else if s = 6 then 0x1F # replicate 511 0
       else if s = 8 then replicate 128 0 @ inode_bytes demo_dir_inode @ replicate 256 0
       else if s = 10 then take 512 (slot_bytes demo_slot) else replicate 512 0),
     bad_sector = (\<lambda>_. False), PAGE_CACHE_CHIRHO = page_cache_new_chirho 4\<rparr>"

lemma wf_demo_dir: "wf_inode demo_dir_inode"
  by (simp add: wf_inode_def demo_dir_inode_def new_file_inode_def set_single_extent_def)

lemma demo_slot_len: "sl_len demo_slot = 1024" by (simp add: sl_len_def demo_slot_def)

lemma demo_tree_coherent: "coherent demo_mount demo_tree"
  using wf_demo_dir demo_slot_len
  by (simp add: coherent_def demo_tree_def btree_ok_def page_cache_new_chirho_def contents_def)

lemma demo_tree_disk:
  "disk_block demo_mount demo_tree 2 = 0x03 # replicate 1023 0"
  "disk_block demo_mount demo_tree 3 = 0x1F # replicate 1023 0"
  "disk_block demo_mount demo_tree 4 = replicate 128 0 @ inode_bytes demo_dir_inode @ replicate 768 0"
  "disk_block demo_mount demo_tree 5 = slot_bytes demo_slot"
proof -
  have "drop 512 (slot_bytes demo_slot) = replicate 512 0" by (simp add: slot_bytes_def demo_slot_def)
  then have "take 512 (slot_bytes demo_slot) @ replicate 512 0 = slot_bytes demo_slot" by (metis append_take_drop_id)
  then show "disk_block demo_mount demo_tree 5 = slot_bytes demo_slot"
    by (simp add: disk_block_def demo_blocks start_sector_def demo_tree_def upt_rec)
qed (simp_all add: disk_block_def demo_blocks start_sector_def demo_tree_def upt_rec replicate_add [symmetric])

lemma demo_places:
  "inode_block demo_mount 2 = 4" "inode_offset demo_mount 2 = 128" "group_of demo_mount 2 = 0"
  "inode_block demo_mount 3 = 4" "inode_offset demo_mount 3 = 256" "group_of demo_mount 3 = 0"
  by (simp_all add: bs_def demo_mount_def lo_hi_def has_64bit_chirho_def INCOMPAT_64BIT_CHIRHO_def inode_size_chirho_def
      inode_block_def inode_offset_def group_of_def inode_to_group_chirho_def inode_table_chirho_def inode_table_offset_chirho_def)

lemma demo_tree_free: "free_list demo_mount (view demo_mount demo_tree) = [6, 7, 8, 9, 10, 11, 12, 13, 14, 15, 16]"
proof -
  have "free_locals 16 (disk_block demo_mount demo_tree 3) = [5, 6, 7, 8, 9, 10, 11, 12, 13, 14, 15]"
    by (simp add: free_locals_short demo_tree_disk bit_used_def upt_rec nth_Cons' bit_simps)
  moreover obtain gd where "group_descs_chirho demo_mount = [gd]" "free_blocks_count_chirho (wide demo_mount) gd \<noteq> 0"
    "bitmap_of demo_mount gd = 3"
    by (simp add: demo_mount_def free_blocks_count_chirho_def block_bitmap_chirho_def lo_hi_def has_64bit_chirho_def INCOMPAT_64BIT_CHIRHO_def)
  moreover have "per_group demo_mount = 16" "first_data demo_mount = 1" by (simp_all add: demo_mount_def)
  ultimately show ?thesis by (simp add: free_list_def group_free_def view_def block_no_def)
qed

lemma demo_dir: "dir_inode demo_mount (view demo_mount demo_tree) 2 = demo_dir_inode" "leaf_blocks demo_dir_inode = [5]" "leaf_inode demo_dir_inode"
  "uses_extents_chirho demo_dir_inode" "is_dir_chirho demo_dir_inode" "unat (size_chirho demo_dir_inode) = 1024"
proof -
  show "dir_inode demo_mount (view demo_mount demo_tree) 2 = demo_dir_inode"
    using inode_at_bytes [OF wf_demo_dir, of "replicate 128 0" 128] by (simp add: dir_inode_def demo_places view_def demo_tree_disk)
  have "i_block_chirho demo_dir_inode = set_single_extent 5 1 (replicate 15 0)" by (simp add: demo_dir_inode_def)
  note F = single_extent_fields [OF wf_demo_dir _ _ this, simplified]
  show "leaf_blocks demo_dir_inode = [5]" using F by (simp add: leaf_blocks_def extent_blocks_def)
  have "header_is_valid_chirho (extent_header_chirho demo_dir_inode)" "eh_depth_chirho (extent_header_chirho demo_dir_inode) = 0"
    using F(1) by (simp_all add: header_is_valid_chirho_def EXT4_EXT_MAGIC_CHIRHO_def)
  moreover show "uses_extents_chirho demo_dir_inode" by code_simp
  ultimately show "leaf_inode demo_dir_inode" using wf_demo_dir by (simp add: leaf_inode_def)
  show "is_dir_chirho demo_dir_inode" "unat (size_chirho demo_dir_inode) = 1024" by code_simp+
qed

lemma demo_tree_ok:
  "volume_ok demo_mount (view demo_mount demo_tree)" "dir_ok demo_mount (view demo_mount demo_tree) 2 [demo_slot]"
  "inode_maps_ok demo_mount (view demo_mount demo_tree) 2" "new_inode_ok demo_mount (view demo_mount demo_tree) 2 3"
proof -
  have so: "block_size_ok demo_mount" by (simp add: block_size_ok_def demo_blocks)
  have f: "full_blocks demo_mount (view demo_mount demo_tree)"
    using length_disk_block [OF demo_tree_coherent so] by (simp add: full_blocks_def view_def)
  have g: "length (group_descs_chirho demo_mount) = 1" "per_group demo_mount = 16" "first_data demo_mount = 1"
    "mode_chirho demo_mount = MountReadWriteChirho" by (simp_all add: demo_mount_def)
  have maps: "inode_map demo_mount ` set (group_descs_chirho demo_mount) = {2}"
    by (simp add: demo_mount_def inode_bitmap_chirho_def lo_hi_def has_64bit_chirho_def INCOMPAT_64BIT_CHIRHO_def)
  show "volume_ok demo_mount (view demo_mount demo_tree)"
    using so f g by (simp add: volume_ok_def demo_blocks demo_tree_free in_range_def)
  have ok: "inode_ok demo_mount (view demo_mount demo_tree) 2"
    using demo_dir(1,4) by (simp add: inode_ok_def demo_blocks demo_places demo_tree_free in_range_def g(1) dir_inode_def)
  have "slot_ok demo_slot" using demo_slot_len by (simp add: slot_ok_def demo_slot_def)
  moreover have "\<exists>A B. [demo_slot] = A @ B \<and> B \<noteq> [] \<and>
      length (slots_bytes A) = (length (slots_bytes [demo_slot]) - 1) div bs demo_mount * bs demo_mount"
    using demo_slot_len by (intro exI [of _ "[]"] exI [of _ "[demo_slot]"]) (simp add: demo_blocks)
  ultimately have "dir_layout demo_mount [demo_slot]" unfolding dir_layout_def by simp
  then show "dir_ok demo_mount (view demo_mount demo_tree) 2 [demo_slot]"
    using ok demo_dir demo_slot_len by (simp add: dir_ok_def demo_blocks in_range_def view_def demo_tree_disk)
  show "inode_maps_ok demo_mount (view demo_mount demo_tree) 2"
  proof -
    have "inode_map demo_mount gd = 2" if "gd \<in> set (group_descs_chirho demo_mount)" for gd using maps that by blast
    then show ?thesis by (simp add: inode_maps_ok_def Let_def demo_blocks demo_places demo_tree_free demo_dir in_range_def)
  qed
  show "new_inode_ok demo_mount (view demo_mount demo_tree) 2 3"
    using maps by (auto simp: new_inode_ok_def demo_blocks demo_places demo_tree_free demo_dir in_range_def g(1))
qed

lemma demo_first_free:
  "\<exists>gd. first_free_inode demo_mount (view demo_mount demo_tree) 0 (group_descs_chirho demo_mount) = Some (gd, 0, 2)"
  "inode_no demo_mount 0 2 = 3"
proof -
  have "free_locals 8 (disk_block demo_mount demo_tree 2) = [2, 3, 4, 5, 6, 7]"
    by (simp add: free_locals_short demo_tree_disk bit_used_def upt_rec nth_Cons' bit_simps)
  moreover obtain gd where "group_descs_chirho demo_mount = [gd]" "free_inodes_count_chirho (wide demo_mount) gd \<noteq> 0"
    "inode_map demo_mount gd = 2"
    by (simp add: demo_mount_def free_inodes_count_chirho_def inode_bitmap_chirho_def lo_hi_def has_64bit_chirho_def INCOMPAT_64BIT_CHIRHO_def)
  moreover have "inodes_per_group demo_mount = 8" by (simp add: demo_mount_def)
  ultimately show "\<exists>gd. first_free_inode demo_mount (view demo_mount demo_tree) 0 (group_descs_chirho demo_mount) = Some (gd, 0, 2)"
    by (simp add: view_def)
  show "inode_no demo_mount 0 2 = 3" by (simp add: inode_no_def)
qed

lemma demo_write_result:
  assumes "updated_dir demo_mount (slots_bytes [demo_slot]) 3 [0x61] FT_REG_FILE_CHIRHO = Some d"
  shows "write_result demo_mount (view demo_mount demo_tree) d = Inr ()"
proof -
  have "dir_layout demo_mount [demo_slot]" using demo_tree_ok(2) by (simp add: dir_ok_def)
  then have "length d \<le> 1036"
    using updated_dir_slots [of demo_mount "[demo_slot]" 3 "[0x61]" FT_REG_FILE_CHIRHO] assms demo_slot_len
    by (auto simp: entry_ok_def round4_def)
  then have "blocks_needed demo_mount d \<le> 2" using blocks_needed_bound(3) [of demo_mount d 2] by (simp add: demo_blocks)
  then consider "blocks_needed demo_mount d = 0" | "blocks_needed demo_mount d = 1" | "blocks_needed demo_mount d = 2" by linarith
  then show ?thesis by cases (simp_all add: write_result_def demo_tree_free)
qed

theorem created_file_is_listed_witness:
  "\<exists>st'. create_file_chirho (cached_ops demo_mount) demo_mount 2 [0x61] 0x1A4 demo_tree = (Inr 3, st') \<and>
    fst (read_dir_entries_chirho (cached_ops demo_mount) demo_mount 2 st') =
      Inr [\<lparr>de_inode_chirho = 2, de_name_chirho = [0x2E], de_file_type_chirho = 2\<rparr>,
           \<lparr>de_inode_chirho = 3, de_name_chirho = [0x61], de_file_type_chirho = 1\<rparr>]"
proof -
  obtain gd where gd: "first_free_inode demo_mount (view demo_mount demo_tree) 0 (group_descs_chirho demo_mount) = Some (gd, 0, 2)"
    using demo_first_free(1) by blast
  have "new_inode_ok demo_mount (view demo_mount demo_tree) 2 (inode_no demo_mount 0 2)"
    using demo_tree_ok(4) demo_first_free(2) by simp
  note T = created_file_is_listed [OF demo_tree_coherent demo_tree_ok(1-3) gd this, of "[0x61]" "0x1A4", unfolded demo_first_free(2)]
  have "infos [demo_slot] = [\<lparr>de_inode_chirho = 2, de_name_chirho = [0x2E], de_file_type_chirho = 2\<rparr>]"
    by (simp add: infos_def slot_live_def slot_info_def demo_slot_def)
  then show ?thesis using T demo_write_result by (fastforce simp: FT_REG_FILE_CHIRHO_def)
qed

text \<open>The same directory in a volume with blocks of 4096 bytes, with a second entry \<^verbatim>\<open>a\<close>.\<close>

definition big_mount :: Ext4MountChirho where "big_mount = demo_mount\<lparr>block_size_chirho := 4096\<rparr>"

definition big_inode :: Ext4InodeChirho where "big_inode = demo_dir_inode\<lparr>i_size_lo_chirho := 4096\<rparr>"

definition big_slots :: "slot list" where
  "big_slots = [\<lparr>sl_inode = 2, sl_type = 2, sl_name = [0x2E], sl_pad = replicate 3 0\<rparr>,
     \<lparr>sl_inode = 3, sl_type = 1, sl_name = [0x61], sl_pad = replicate 4075 0\<rparr>]"

definition big_tree :: ext4_state where
  "big_tree = \<lparr>sectors = (\<lambda>s. if s = 32 then replicate 128 0 @ inode_bytes big_inode @ replicate 256 0
       else if s = 40 then take 512 (slots_bytes big_slots) else replicate 512 0),
     bad_sector = (\<lambda>_. False), PAGE_CACHE_CHIRHO = page_cache_new_chirho 4\<rparr>"

lemma big_facts: "wf_inode big_inode" "length (slots_bytes big_slots) = 4096" "bs big_mount = 4096" "block_size_ok big_mount"
  "inode_block big_mount 2 = 4" "inode_offset big_mount 2 = 128" "group_of big_mount 2 = 0" "length (group_descs_chirho big_mount) = 1"
  using wf_demo_dir
  by (simp_all add: wf_inode_def big_inode_def big_slots_def sl_len_def big_mount_def block_size_ok_def
      bs_def demo_mount_def lo_hi_def has_64bit_chirho_def INCOMPAT_64BIT_CHIRHO_def inode_size_chirho_def
      inode_block_def inode_offset_def group_of_def inode_to_group_chirho_def inode_table_chirho_def inode_table_offset_chirho_def)

lemma big_coherent: "coherent big_mount big_tree"
  using big_facts(1,2) by (simp add: coherent_def big_tree_def btree_ok_def page_cache_new_chirho_def contents_def)

lemma big_disk:
  "disk_block big_mount big_tree 4 = replicate 128 0 @ inode_bytes big_inode @ replicate 3840 0"
  "disk_block big_mount big_tree 5 = slots_bytes big_slots"
proof -
  have "drop 512 (slots_bytes big_slots) = replicate 3584 0" by (simp add: slot_bytes_def big_slots_def)
  then have "take 512 (slots_bytes big_slots) @ replicate 3584 0 = slots_bytes big_slots" by (metis append_take_drop_id)
  then show "disk_block big_mount big_tree 5 = slots_bytes big_slots"
    by (simp add: disk_block_def big_facts start_sector_def big_tree_def upt_rec replicate_add [symmetric])
qed (simp add: disk_block_def big_facts start_sector_def big_tree_def upt_rec replicate_add [symmetric])

lemma big_dir: "dir_inode big_mount (view big_mount big_tree) 2 = big_inode" "block_dir big_mount (view big_mount big_tree) big_inode [big_slots]"
proof -
  show "dir_inode big_mount (view big_mount big_tree) 2 = big_inode"
    using inode_at_bytes [OF big_facts(1), of "replicate 128 0" 128] by (simp add: dir_inode_def big_facts view_def big_disk)
  have e: "i_block_chirho big_inode = set_single_extent 5 1 (replicate 15 0)" by (simp add: big_inode_def demo_dir_inode_def)
  note F = single_extent_fields [OF big_facts(1) _ _ e, simplified] and ph = single_extent_phys [OF big_facts(1) _ _ e, of 0, simplified]
  have "is_dir_chirho big_inode" "uses_extents_chirho big_inode" "unat (size_chirho big_inode) = 4096"
    by (simp_all add: is_dir_chirho_def uses_extents_chirho_def size_chirho_def big_inode_def demo_dir_inode_def new_file_inode_def
        S_IFDIR_CHIRHO_def S_IFMT_CHIRHO_def)
  moreover have "list_all slot_ok big_slots" by (simp add: big_slots_def slot_ok_def sl_len_def)
  moreover have "header_is_valid_chirho (extent_header_chirho big_inode)"
    using F(1) by (simp add: header_is_valid_chirho_def EXT4_EXT_MAGIC_CHIRHO_def)
  ultimately show "block_dir big_mount (view big_mount big_tree) big_inode [big_slots]"
    using ph big_facts(2,3) by (simp add: block_dir_def in_range_def view_def big_disk)
qed

theorem lookup_finds_first_witness:
  "fst (lookup_in_dir_chirho (cached_ops big_mount) big_mount 2 [0x61] big_tree) =
     Inr \<lparr>de_inode_chirho = 3, de_name_chirho = [0x61], de_file_type_chirho = 1\<rparr> \<and>
   fst (lookup_in_dir_chirho (cached_ops big_mount) big_mount 2 [0x62] big_tree) = Inl ()"
proof -
  have "group_of big_mount 2 < length (group_descs_chirho big_mount)" "in_range big_mount (inode_block big_mount 2)"
    "inode_offset big_mount 2 + 128 \<le> bs big_mount" by (simp_all add: big_facts in_range_def)
  note T = lookup_finds_first [OF big_coherent big_facts(4) this, unfolded big_dir(1), OF big_dir(2)]
  show ?thesis using T [of "[0x61]"] T [of "[0x62]"] by (simp add: big_slots_def)
qed

end
