(* ===== verification/Spec2Isabelle.thy ===== *)
theory Spec2Isabelle
  imports Frame_Ownership Space_Retire Fd_Accounting Vma Seccomp Futex Extent_Tree Signal Net_Stack Unix_Socket Credentials Epoll Ext4_Dir
begin

text \<open>
  Verification of the lineluya kernel.

  \<^bold>\<open>The program.\<close>  lineluya is a monolithic x86-64 kernel in Rust that runs Linux
  binaries.  Paths below are relative to \<^verbatim>\<open>src/kernel-chirho/src\<close>, except for the
  target-independent crate \<^verbatim>\<open>src/kernel-core-chirho\<close>.  Tasks
  (\<^verbatim>\<open>sched_chirho/task_chirho.rs\<close>) are multiplexed by a round-robin scheduler that
  ends in an assembly context switch; wait queues, futexes and signals put tasks to
  sleep and wake them through \<^verbatim>\<open>block_current_chirho\<close> and \<^verbatim>\<open>unblock_task_chirho\<close>.
  Every task has a descriptor table whose entries share open files, inodes and
  pipes.  Its memory is a list of areas backed by page tables, whose frames and
  roots are reference-counted by lock-free words.  A seccomp filter is meant to
  run at system-call entry, and file data comes from ext4 images through extent
  trees.

  \<^bold>\<open>Conventions.\<close>  Theory \<^verbatim>\<open>Rust_Prelude\<close> fixes how Rust is read: machine integers
  are words of their width with the wrap-around of the release profile, checked
  and saturating operations are definitions, \<^verbatim>\<open>Result\<close> is a sum with the error on the
  left, system calls return an \<^verbatim>\<open>i64\<close> with negated errno values, structures are
  records with the source's field names and enumerations are datatypes with the
  source's constructors.  Data behind \<^verbatim>\<open>Arc<Mutex<..>>\<close> lives in a heap of
  addresses, so that aliasing is visible.  A function that runs under a lock or
  with interrupts disabled is one atomic step; where the code releases the lock in
  the middle, what the rest of the system does in the gap is a parameter.  The
  suffix of the source's names is kept, so a definition has the name of the
  function it models.

  \<^bold>\<open>Frame and address-space ownership.\<close>  \<^verbatim>\<open>Cas_Loop\<close> gives compare-exchange loops on
  one atomic word an interleaving semantics for any number of threads, spurious
  failures included, and proves once that every execution is a sequential one with
  the same history, in which an operation takes effect between its invocation and
  its response; the locales \<^verbatim>\<open>cas_object\<close> and \<^verbatim>\<open>cas_measured\<close> state what a client
  has to show of its loop bodies.  \<^verbatim>\<open>Frame_Ownership\<close> models
  \<^verbatim>\<open>kernel-core-chirho/src/frame_ownership_chirho.rs\<close>: the loop bodies of the leaf
  table and of the owner word, the table methods, and the construction of the
  table.  Shown: exact counts in every interleaving, one last-reference signal per
  period of use, refinement of the owner word to a dead/live/retiring machine, a
  single teardown, exclusion of clones during retirement, the table methods on
  every branch, and what construction manages.

  \<^bold>\<open>Physical memory and page tables.\<close>  \<^verbatim>\<open>Frame_Alloc\<close> has memory as a function from
  frame and word index to word, the boot allocator (\<^verbatim>\<open>mm_chirho/memory_chirho.rs\<close>) and the
  global allocator with its free list inside the free frames
  (\<^verbatim>\<open>mm_chirho/mmap_chirho.rs\<close>); the accessors of the \<^verbatim>\<open>x86_64\<close> crate are the parameter
  \<^verbatim>\<open>x86_api\<close> with the locale \<^verbatim>\<open>x86_paging\<close>, interpreted on the hardware's entry format.
  \<^verbatim>\<open>Page_Table\<close> (\<^verbatim>\<open>mm_chirho/pagetable_chirho.rs\<close>) has walks, mapping with its rollback,
  unmapping, demand pages and copy-on-write faults on that memory, with the mapping
  counts of \<^verbatim>\<open>Frame_Ownership\<close>.  \<^verbatim>\<open>Page_View\<close> reads a table tree as a function from index
  paths to final entries and says how writes change it; \<^verbatim>\<open>Page_Map\<close> and \<^verbatim>\<open>Page_Fault\<close>
  specify the operations on one space; \<^verbatim>\<open>Page_Space\<close> ties all spaces, the allocator and
  the counts together in one invariant, and \<^verbatim>\<open>Page_Safety\<close> proves it over all sequences
  of operations: no mapped frame is ever free, counts are exact, failures undo
  themselves, copy-on-write preserves contents.  \<^verbatim>\<open>Address_Space\<close>
  (\<^verbatim>\<open>mm_chirho/address_space_chirho.rs\<close>) has the retirement of whole spaces, the
  ownership handles and the registration of early mappings; \<^verbatim>\<open>Space_Retire\<close> shows that
  retirement returns exactly what the space owned, that a failure undoes its
  releases, and that no handle is lost.

  \<^bold>\<open>Descriptors and pipes.\<close>  \<^verbatim>\<open>Pipe\<close> (\<^verbatim>\<open>fs_chirho/pipe_chirho.rs\<close>) has the pipe
  buffer and the operations of its two ends; a blocking read polls at most 1000
  times, as in the code.  \<^verbatim>\<open>Fd_Table\<close> (\<^verbatim>\<open>fs_chirho/vfs_chirho.rs\<close>,
  \<^verbatim>\<open>fs_chirho/vfs_ops_chirho.rs\<close>) has the tables of all tasks over the shared heap,
  with allocation, close, dup, dup2, close-on-exec marks, clone, the closings at
  exec and exit, and pipe creation.  \<^verbatim>\<open>Fd_Accounting\<close> states the contract of the accounting operations as a
  locale, interprets it on the code's two operations, and proves by rule induction
  over all operations that reader and writer counts are the numbers of live
  descriptors; end of file, EPIPE, dup2 and close-on-exec follow.

  \<^bold>\<open>Memory areas.\<close>  \<^verbatim>\<open>Vma\<close> (\<^verbatim>\<open>mm_chirho/mmap_chirho.rs\<close>) has the area list and mmap,
  munmap and mprotect.  The abstract view is the function from addresses to
  protection and flags; the operations that rewrite every area share the locale
  \<^verbatim>\<open>vma_rewrite\<close>.  The address search gives up after 64 retries as the code does; it
  is proved to find a free range whenever the list has at most 64 areas.

  \<^bold>\<open>Scheduling.\<close>  \<^verbatim>\<open>Context_Switch\<close> executes the assembly routines
  (\<^verbatim>\<open>arch_chirho/context_switch_chirho.rs\<close> and the naked functions of the scheduler)
  instruction by instruction.  \<^verbatim>\<open>Scheduler\<close> has the globals and all operations of
  \<^verbatim>\<open>task_chirho.rs\<close> and \<^verbatim>\<open>scheduler_chirho.rs\<close> on tasks and the run queue, and the run
  queue invariant.  \<^verbatim>\<open>Sched_Policy\<close> proves the invariant over all sequences of
  operations, what selection and dispatch do, that a queued task is dispatched within
  as many rounds as there are tasks before it and insertions in front of it (tasks
  that arrive or wake go to the front, so without a bound on those it may starve), and
  the limit of the context slots; the trait
  \<^verbatim>\<open>SchedulerPolicyChirho\<close> is the locale \<^verbatim>\<open>fifo_policy\<close>, and what sleepers rely on is
  the locale \<^verbatim>\<open>task_waker\<close>, both interpreted on the code's operations.  \<^verbatim>\<open>Wait_Queue\<close>
  and \<^verbatim>\<open>Futex\<close> are the two clients of that contract.  The loop of
  \<^verbatim>\<open>wait_event_chirho\<close> need not end and runs on fuel, with the evaluations of the
  condition and what other tasks do as parameters; no property of the whole loop is
  claimed.  Shown are what waking does, the window in which a wake-up is lost, that a
  waiter woken in vain is no longer in the queue, and which sleepers a futex wake-up
  wakes.

  \<^bold>\<open>Signals.\<close>  \<^verbatim>\<open>Uaccess\<close> (\<^verbatim>\<open>mm_chirho/uaccess_chirho.rs\<close>) has the validated copies
  between kernel and user memory and their contract, the locale \<^verbatim>\<open>user_copy\<close>.
  \<^verbatim>\<open>Signal\<close> (\<^verbatim>\<open>process_chirho/signal_chirho.rs\<close> and the return path of a system call)
  has the pending set, sending, masks, dispositions, default actions, handler
  frames and \<^verbatim>\<open>rt_sigreturn\<close>; shown are the consistency of the pending set, that
  SIGKILL and SIGSTOP take effect whatever the signal masks contain, and the round trip
  through a handler with the registers it does restore.

  \<^bold>\<open>Credentials.\<close>  \<^verbatim>\<open>Credentials\<close> (\<^verbatim>\<open>syscall_chirho.rs\<close>, \<^verbatim>\<open>process_core_chirho.rs\<close>) has the
  identity, process-group and session calls over the task list, and what new tasks take
  over.  Their common contract is the locale \<^verbatim>\<open>credential_calls\<close>; over any interleaving of
  calls and new tasks, identities cannot be gained without root, a drop is final and the
  threads of a group agree.

  \<^bold>\<open>Filters and file data.\<close>  \<^verbatim>\<open>Seccomp\<close> (\<^verbatim>\<open>subsys_chirho/seccomp_chirho.rs\<close>) has the BPF
  interpreter with its instruction limit, which is proved unreachable for programs
  that can be installed, the filter state and the system call.  \<^verbatim>\<open>Extent_Tree\<close>
  (\<^verbatim>\<open>fs_chirho/ext4_extent_tree_chirho.rs\<close>) parses nodes on bytes and walks the tree;
  the walk is proved to agree with a search over all extents of any tree laid out on
  disk in the ext4 format.

  \<^bold>\<open>The ext4 file system.\<close>  All of \<^verbatim>\<open>fs_chirho/ext4_chirho.rs\<close>.  \<^verbatim>\<open>Page_Cache\<close> has the block
  cache, proved to be a least-recently-used cache (locale \<^verbatim>\<open>lru_cache\<close>).  \<^verbatim>\<open>Ext4_Disk\<close> has the
  structures on disk with their round trips, a sector device, block reads and writes through
  the cache and inode access.  What is built on the block operations takes them as an
  argument; the locale \<^verbatim>\<open>block_layer\<close> states that an implementation behaves as a plain map of
  blocks, and its interpretation for the code's operations transfers every later result to
  the cached device.  \<^verbatim>\<open>Ext4_File\<close> has the bitmap allocators, reading by pointers, extents and
  logical blocks, and writing; shown is the exact outcome of a write and that the file reads
  back with nothing else changed.  \<^verbatim>\<open>Ext4_Dir\<close> has directories; shown are the round trip of
  records, that lookup finds the first match and that a created file is listed and empty.

  \<^bold>\<open>Networking.\<close>  All of \<^verbatim>\<open>net_chirho/net_core_chirho.rs\<close>.  \<^verbatim>\<open>Inet_Checksum\<close> has the
  checksum loop, equal to a ones-complement sum for messages its accumulator can hold;
  \<^verbatim>\<open>Net_Packet\<close> parses and builds frames, headers, segments and datagrams, with their
  round trips.  \<^verbatim>\<open>Tcp_Control\<close> is the TCP state machine: a handshake and a close
  synchronise both sides, and an arriving segment confirms exactly numbers that were
  sent and not yet confirmed.  \<^verbatim>\<open>Net_Socket\<close> has the socket table and the delivery of
  segments and datagrams; under loss, repetition and reordering of segments without FIN
  and RST, what is received is a prefix of the peer's stream, and all of it once its
  pieces have arrived in order.  \<^verbatim>\<open>Net_Stack\<close> has routing, the ARP cache (an instance of the
  locale \<^verbatim>\<open>address_cache\<close>), ICMP echo and the paths of frames in and out, with the best
  route and the echo reply proved.  \<^verbatim>\<open>Unix_Socket\<close> has the Unix-domain sockets: no call
  panics and a connected pair is a stream.  \<^verbatim>\<open>Epoll\<close> (\<^verbatim>\<open>syscall_chirho.rs\<close>) has event
  polling over these sockets: the watch list implements a map, and what a wait reports is
  given exactly.  Packets given to a driver and wake-ups of
  readers are outputs of these models, and what a poll of the network changes is a
  parameter.

  \<^bold>\<open>Deviations of the code.\<close>  Some theorems state what the code does where its comments
  or Linux say otherwise: a lost wake-up in \<^verbatim>\<open>wait_event_chirho\<close>, waiters lost by
  FUTEX_REQUEUE, a lost second signal, KILL_PROCESS treated as ALLOW, unconditional
  BPF jumps that kill, fixed PROT_NONE mappings that leave a hole, tasks with
  PIDs beyond the context slots that never run, data lost on a segment with FIN, a
  listener captured by a segment with SYN and ACK, loopback packets that leave on the
  network card, a Unix socket that receives what was meant for the previous owner
  of its slot, a retransmission that overlaps received data dropped with its new bytes,
  a waiter woken in vain that is not queued again, an mprotect of unmapped addresses that
  succeeds, the registers R8 to R10 that keep the handler's values, blocked masks
  that handler delivery and \<^verbatim>\<open>rt_sigreturn\<close> install unfiltered, a filter that ends strict
  mode, and a run queue whose front insertions can starve its tail.

  \<^bold>\<open>Not modelled.\<close>  Device drivers, interrupt controllers, consoles and the boot path
  act on hardware whose behaviour is not in the source.  Of networking, DHCP, DNS, the
  retransmission timers and the descriptor glue of the socket calls are left out.  TLB flushes
  have no effect in the model, and which pages are present is a parameter of \<^verbatim>\<open>Vma\<close>; the FPU state is not saved by the code.  Serial
  traces are left out everywhere.  The module loader, the program loader, the
  pseudo file systems and the dispatch of system calls are glue over the parts
  above.  The WebAssembly port, the user programs and the build tools are not part
  of the kernel.

  \<^bold>\<open>Order of further work.\<close>  Event descriptors (eventfd, inotify); control
  groups, namespaces and capabilities; the GPT and cpio parsers; tmpfs; deferred
  descriptor retirement; the kernel log and command line; the buddy allocator.
\<close>

end
